(* ===== verification/Prelude.thy ===== *)
theory Prelude
  imports Main "HOL-Library.Word" "HOL-Library.Finite_Map"
begin

text \<open>
  Shared vocabulary of the development: Rust's fixed-width unsigned integers with their
  saturating operations, the part of \<open>std::collections::HashMap\<close> the launcher uses, and the
  locales under which an invariant of one operation is lifted to a run of operations.
\<close>

unbundle bit_operations_syntax

named_theorems word_arith
  \<open>the value (\<open>unat\<close>) of the saturating word operations\<close>

section \<open>Fixed-width integers\<close>

type_synonym u8 = "8 word"
type_synonym u16 = "16 word"
type_synonym u32 = "32 word"
type_synonym u64 = "64 word"

text \<open>
  Rust's \<open>saturating_add\<close> and \<open>saturating_sub\<close>: the result is clamped to the range of the type.
\<close>

definition sat_add :: "'a::len word \<Rightarrow> 'a word \<Rightarrow> 'a word" where
  "sat_add a b = (if unat a + unat b < 2 ^ LENGTH('a) then a + b else - 1)"

definition sat_sub :: "'a::len word \<Rightarrow> 'a word \<Rightarrow> 'a word" where
  "sat_sub a b = (if b \<le> a then a - b else 0)"

lemma unat_minus_1_word: "unat (- 1 :: 'a::len word) = 2 ^ LENGTH('a) - 1"
  by (simp add: unsigned_minus_1_eq_mask mask_eq_exp_minus_1)

lemma unat_of_nat_small: "n < 2 ^ LENGTH('a) \<Longrightarrow> unat (of_nat n :: 'a::len word) = n"
  by (simp add: unsigned_of_nat take_bit_nat_eq_self)

lemma unat_le_max: "unat a \<le> 2 ^ LENGTH('a) - 1"
  for a :: "'a::len word"
  using unsigned_less [of a, where 'a = nat] by linarith

lemma unat_sat_add [word_arith]:
  "unat (sat_add a b) = min (unat a + unat b) (2 ^ LENGTH('a) - 1)"
  for a b :: "'a::len word"
  by (simp add: sat_add_def unat_word_ariths unat_minus_1_word)

lemma unat_sat_sub [word_arith]: "unat (sat_sub a b) = unat a - unat b"
  for a b :: "'a::len word"
  by (auto simp: sat_sub_def unat_sub word_le_nat_alt)

lemma sat_add_0 [simp]: "sat_add a 0 = a"
  by (simp add: sat_add_def)

lemma sat_sub_self [simp]: "sat_sub a a = 0"
  by (simp add: sat_sub_def)

lemma sat_add_mono: "a \<le> sat_add a b"
  for a b :: "'a::len word"
proof -
  have "unat a \<le> 2 ^ LENGTH('a) - 1"
    by (rule unat_le_max)
  then show ?thesis
    by (simp add: word_le_nat_alt unat_sat_add)
qed

lemma max_1_neq_0 [simp]: "max n 1 \<noteq> (0 :: 'a::len word)"
proof
  assume "max n 1 = 0"
  moreover have "1 \<le> max n 1"
    by simp
  ultimately show False
    by (auto simp: word_le_nat_alt)
qed

lemma unat_sat_add_of_nat:
  fixes a :: "'a::len word"
  assumes "unat a + n < 2 ^ LENGTH('a)"
  shows "unat (sat_add a (of_nat n)) = unat a + n"
proof -
  have "unat (of_nat n :: 'a word) = n"
    using assms by (intro unat_of_nat_small) linarith
  with assms show ?thesis
    by (simp add: unat_sat_add)
qed

lemma sat_add_assoc: "sat_add (sat_add a b) c = sat_add a (sat_add b c)"
proof -
  have "min (min (x + y) m + z) m = min (x + min (y + z) m) m" for x y z m :: nat
    by (simp add: min_def)
  then show ?thesis
    by (simp only: word_unat_eq_iff unat_sat_add)
qed

text \<open>A \<open>usize\<close> has 32 bits on the device; \<open>checked_mul\<close> and \<open>checked_add\<close> on it.\<close>

definition USIZE_MAX :: nat where
  "USIZE_MAX = 2 ^ 32 - 1"

definition checked_mul :: "nat \<Rightarrow> nat \<Rightarrow> nat option" where
  "checked_mul a b = (if a * b \<le> USIZE_MAX then Some (a * b) else None)"

definition checked_add :: "nat \<Rightarrow> nat \<Rightarrow> nat option" where
  "checked_add a b = (if a + b \<le> USIZE_MAX then Some (a + b) else None)"

text \<open>\<open>x.saturating_add(1).max(1)\<close>, the idiom for counters that never return to zero.\<close>

definition next_counter :: "u64 \<Rightarrow> u64" where
  "next_counter n = max (sat_add n 1) 1"

lemma unat_next_counter [word_arith]:
  "unat (next_counter n) = min (unat n + 1) (2 ^ 64 - 1)"
proof -
  have "unat (sat_add n 1) = min (unat n + 1) (2 ^ 64 - 1)"
    by (simp add: unat_sat_add)
  then have "1 \<le> sat_add n 1"
    by (simp add: word_le_nat_alt)
  then show ?thesis
    by (simp add: next_counter_def max_def unat_sat_add)
qed

lemma next_counter_pos [simp]: "next_counter n \<noteq> 0"
proof -
  have "1 \<le> next_counter n"
    by (simp add: next_counter_def)
  then show ?thesis
    by (auto simp: word_le_nat_alt)
qed

lemma next_counter_less:
  assumes "n \<noteq> - 1"
  shows "n < next_counter n"
proof -
  have "unat n \<noteq> 2 ^ 64 - 1"
    using assms unat_minus_1_word [where 'a = 64] by (auto simp: word_unat_eq_iff)
  moreover have "unat n < 2 ^ 64"
    using unsigned_less [of n, where 'a = nat] by simp
  ultimately show ?thesis
    by (simp add: word_less_nat_alt unat_next_counter)
qed

section \<open>Time\<close>

text \<open>
  \<open>std::time::Instant\<close> and \<open>Duration\<close> in nanoseconds. \<open>Instant::duration_since\<close> and
  \<open>saturating_duration_since\<close> are both zero for a later instant, which is subtraction on \<open>nat\<close>.
\<close>

type_synonym instant = nat
type_synonym duration = nat

definition from_millis :: "nat \<Rightarrow> duration" where
  "from_millis n = n * 1000000"

definition from_secs :: "nat \<Rightarrow> duration" where
  "from_secs n = n * 1000000000"

definition as_millis :: "duration \<Rightarrow> nat" where
  "as_millis d = d div 1000000"

definition since :: "instant \<Rightarrow> instant \<Rightarrow> duration" where
  "since now start = now - start"

section \<open>Decimal text\<close>

text \<open>The \<open>Display\<close> text of an unsigned integer.\<close>

definition digit :: "nat \<Rightarrow> char" where
  "digit n = char_of (48 + n)"

fun show_nat :: "nat \<Rightarrow> string" where
  "show_nat n = (if n < 10 then [digit n] else show_nat (n div 10) @ [digit (n mod 10)])"

declare show_nat.simps [simp del]

definition show_bool :: "bool \<Rightarrow> string" where
  "show_bool b = (if b then ''true'' else ''false'')"

section \<open>Hash maps\<close>

text \<open>
  \<open>HashMap\<close> values are finite maps: the code only looks keys up, inserts, removes and asks
  whether some key or value has a property, so iteration order is never observable.
\<close>

definition hm_any_value :: "('v \<Rightarrow> bool) \<Rightarrow> ('k, 'v) fmap \<Rightarrow> bool" where
  "hm_any_value P m \<longleftrightarrow> \<not> fmpred (\<lambda>_ v. \<not> P v) m"

definition hm_any_key :: "('k \<Rightarrow> bool) \<Rightarrow> ('k, 'v) fmap \<Rightarrow> bool" where
  "hm_any_key P m \<longleftrightarrow> \<not> fmpred (\<lambda>k _. \<not> P k) m"

definition hm_contains :: "'k \<Rightarrow> ('k, 'v) fmap \<Rightarrow> bool" where
  "hm_contains k m \<longleftrightarrow> fmlookup m k \<noteq> None"

lemma hm_any_value_iff: "hm_any_value P m \<longleftrightarrow> (\<exists>k v. fmlookup m k = Some v \<and> P v)"
  by (auto simp: hm_any_value_def fmpred_iff)

lemma hm_any_key_iff: "hm_any_key P m \<longleftrightarrow> (\<exists>k v. fmlookup m k = Some v \<and> P k)"
  by (auto simp: hm_any_key_def fmpred_iff)

lemma hm_contains_simps [simp]:
  "\<not> hm_contains k fmempty"
  "hm_contains k (fmupd k' v m) \<longleftrightarrow> k = k' \<or> hm_contains k m"
  "hm_contains k (fmdrop k' m) \<longleftrightarrow> k \<noteq> k' \<and> hm_contains k m"
  by (auto simp: hm_contains_def)

lemma hm_any_empty [simp]: "\<not> hm_any_value P fmempty" "\<not> hm_any_key P fmempty"
  by (simp_all add: hm_any_value_iff hm_any_key_iff)

section \<open>Lifting invariants to runs\<close>

text \<open>
  Every component is a step function over a state. \<open>machine\<close> is the contract its operations
  share: an allowed operation keeps the invariant. Its client lemma, proved once, is that a whole
  run of allowed operations keeps it.
\<close>

fun run_steps :: "('s \<Rightarrow> 'e \<Rightarrow> 's) \<Rightarrow> 's \<Rightarrow> 'e list \<Rightarrow> 's" where
  "run_steps step s [] = s"
| "run_steps step s (e # es) = run_steps step (step s e) es"

fun run_allowed :: "('s \<Rightarrow> 'e \<Rightarrow> 's) \<Rightarrow> ('s \<Rightarrow> 'e \<Rightarrow> bool) \<Rightarrow> 's \<Rightarrow> 'e list \<Rightarrow> bool" where
  "run_allowed step ok s [] = True"
| "run_allowed step ok s (e # es) = (ok s e \<and> run_allowed step ok (step s e) es)"

lemma run_steps_append [simp]:
  "run_steps step s (es @ fs) = run_steps step (run_steps step s es) fs"
  by (induction es arbitrary: s) auto

lemma run_allowed_append:
  "run_allowed step ok s (es @ fs) \<longleftrightarrow>
     run_allowed step ok s es \<and> run_allowed step ok (run_steps step s es) fs"
  by (induction es arbitrary: s) auto

lemma run_allowed_True [simp]: "run_allowed step (\<lambda>_ _. True) s es"
  by (induction es arbitrary: s) auto

locale machine =
  fixes step :: "'s \<Rightarrow> 'e \<Rightarrow> 's"
    and ok :: "'s \<Rightarrow> 'e \<Rightarrow> bool"
    and inv :: "'s \<Rightarrow> bool"
  assumes step_inv: "inv s \<Longrightarrow> ok s e \<Longrightarrow> inv (step s e)"
begin

lemma run_inv: "inv s \<Longrightarrow> run_allowed step ok s es \<Longrightarrow> inv (run_steps step s es)"
  by (induction es arbitrary: s) (auto intro: step_inv)

lemma run_inv_at: "inv s \<Longrightarrow> run_allowed step ok s es \<Longrightarrow> inv (run_steps step s (take n es))"
proof -
  assume "inv s" and "run_allowed step ok s es"
  then have "run_allowed step ok s (take n es @ drop n es)"
    by simp
  with \<open>inv s\<close> show ?thesis
    by (auto simp only: run_allowed_append intro: run_inv)
qed

end

text \<open>A machine whose operations keep the invariant whatever they are given.\<close>

locale total_machine =
  fixes step :: "'s \<Rightarrow> 'e \<Rightarrow> 's" and inv :: "'s \<Rightarrow> bool"
  assumes total_step_inv: "inv s \<Longrightarrow> inv (step s e)"

sublocale total_machine \<subseteq> machine step "\<lambda>_ _. True" inv
  by unfold_locales (rule total_step_inv)

context total_machine
begin

lemma total_run_inv: "inv s \<Longrightarrow> inv (run_steps step s es)"
  by (rule run_inv) simp_all

end

end
