(* ===== verification/Latch_Crc.thy ===== *)
theory Latch_Crc
  imports Prelude
begin

text \<open>
  The CRC of the FPGA latch protocol, \<open>crc16_update_byte\<close> and \<open>crc16_update_word\<close> of
  \<open>mister/platform/contracts/latch/src/lib.rs\<close>, and what it can detect. The register is linear over
  exclusive or and each step is injective, so a whole message is a linear map of its words; errors
  confined to sixteen consecutive bits never cancel.
\<close>

unbundle bit_operations_syntax

section \<open>The update functions\<close>

definition CRC_POLYNOMIAL :: u16 where "CRC_POLYNOMIAL = 0x1021"
definition CRC_INITIAL :: u16 where "CRC_INITIAL = 0xffff"
definition CRC_FINAL_XOR :: u16 where "CRC_FINAL_XOR = 0"

definition crc_step :: "u16 \<Rightarrow> u16" where
  "crc_step crc = (if crc AND 0x8000 \<noteq> 0 then push_bit 1 crc XOR CRC_POLYNOMIAL else push_bit 1 crc)"

fun crc_steps :: "nat \<Rightarrow> u16 \<Rightarrow> u16" where
  "crc_steps 0 crc = crc"
| "crc_steps (Suc n) crc = crc_steps n (crc_step crc)"

definition crc16_update_byte :: "u16 \<Rightarrow> u8 \<Rightarrow> u16" where
  "crc16_update_byte crc byte = crc_steps 8 (crc XOR push_bit 8 (ucast byte))"

definition crc16_update_word :: "u16 \<Rightarrow> u16 \<Rightarrow> u16" where
  "crc16_update_word crc w =
     crc16_update_byte (crc16_update_byte crc (ucast (drop_bit 8 w))) (ucast w)"

section \<open>The register is linear\<close>

lemma bit_shift_1: "bit (push_bit 1 x) n \<longleftrightarrow> 0 < n \<and> n < 16 \<and> bit x (n - 1)"
  for x :: u16
  by (simp only: bit_push_bit_iff) auto

lemma top_bit_iff: "crc AND 0x8000 \<noteq> 0 \<longleftrightarrow> bit crc 15"
  for crc :: u16
proof -
  have "(0x8000 :: u16) = 2 ^ 15"
    by simp
  then show ?thesis
    using and_exp_eq_0_iff_not_bit [of crc 15] by (simp only: not_not)
qed

lemma crc_step_eq: "crc_step crc = push_bit 1 crc XOR (if bit crc 15 then CRC_POLYNOMIAL else 0)"
  by (simp add: crc_step_def top_bit_iff)

lemma crc_step_xor: "crc_step (x XOR y) = crc_step x XOR crc_step y"
  by (simp add: crc_step_eq bit_xor_iff push_bit_xor xor.assoc xor.left_commute)

lemma crc_steps_xor: "crc_steps n (x XOR y) = crc_steps n x XOR crc_steps n y"
  by (induction n arbitrary: x y) (simp_all add: crc_step_xor)

lemma crc_step_0 [simp]: "crc_step 0 = 0"
  by (simp add: crc_step_eq)

lemma crc_steps_0 [simp]: "crc_steps n 0 = 0"
  by (induction n) simp_all

lemma crc_steps_add: "crc_steps (m + n) x = crc_steps n (crc_steps m x)"
  by (induction m arbitrary: x) simp_all

lemma bit_crc_step_0: "bit (crc_step x) 0 \<longleftrightarrow> bit x 15"
  unfolding crc_step_eq bit_xor_iff bit_shift_1 by (simp add: CRC_POLYNOMIAL_def)

lemma crc_step_shift: "\<not> bit x 15 \<Longrightarrow> crc_step x = push_bit 1 x"
  by (simp add: crc_step_eq)

lemma crc_step_eq_0: "crc_step x = 0 \<longleftrightarrow> x = 0"
proof
  assume zero: "crc_step x = 0"
  then have top: "\<not> bit x 15"
    using bit_crc_step_0 [of x] by simp
  have shifted: "push_bit 1 x = 0"
    by (rule trans [OF sym [OF crc_step_shift [OF top]] zero])
  have "\<not> bit x n" if "n < 16" for n
  proof (cases "n = 15")
    case False
    then show ?thesis
      using that shifted bit_shift_1 [of x "Suc n"] by (simp del: push_bit_Suc)
  qed (use top in simp)
  then show "x = 0"
    by (intro bit_word_eqI) simp
qed simp

lemma crc_steps_eq_0: "crc_steps n x = 0 \<longleftrightarrow> x = 0"
  by (induction n arbitrary: x) (simp_all add: crc_step_eq_0)

section \<open>Bytes and words\<close>

text \<open>A pattern whose top bits are clear is only shifted.\<close>

lemma bit_shift_n: "bit (push_bit k x) n \<longleftrightarrow> k \<le> n \<and> n < 16 \<and> bit x (n - k)"
  for x :: u16
  by (simp only: bit_push_bit_iff) auto

lemma crc_steps_shift:
  "\<forall>n. 16 - k \<le> n \<longrightarrow> \<not> bit x n \<Longrightarrow> k \<le> 16 \<Longrightarrow> crc_steps k x = push_bit k x"
proof (induction k arbitrary: x)
  case (Suc k)
  then have top: "\<not> bit x 15"
    by simp
  have "\<not> bit (push_bit 1 x) n" if "16 - k \<le> n" for n
    using Suc.prems that by (simp only: bit_shift_1) auto
  then have "crc_steps k (push_bit 1 x) = push_bit k (push_bit 1 x)"
    using Suc by simp
  moreover have "push_bit k (push_bit 1 x) = push_bit (Suc k) x"
    by (simp only: push_bit_push_bit) simp
  ultimately show ?case
    by (simp only: crc_steps.simps crc_step_shift [OF top])
qed simp

text \<open>
  If the low \<open>k\<close> bits of the register are clear after \<open>k\<close> steps, then no step fed the polynomial
  back: the register was only shifted and its top \<open>k\<close> bits were clear.
\<close>

lemma crc_steps_low_zero:
  "k \<le> 16 \<Longrightarrow> \<forall>n<k. \<not> bit (crc_steps k x) n \<Longrightarrow> \<forall>n. 16 - k \<le> n \<longrightarrow> n < 16 \<longrightarrow> \<not> bit x n"
proof (induction k)
  case (Suc k)
  have steps: "crc_steps (Suc k) x = crc_step (crc_steps k x)"
    using crc_steps_add [of k 1 x] by simp
  then have top: "\<not> bit (crc_steps k x) 15"
    using Suc.prems(2) bit_crc_step_0 [of "crc_steps k x"] by simp
  have "crc_steps (Suc k) x = push_bit 1 (crc_steps k x)"
    by (rule trans [OF steps crc_step_shift [OF top]])
  then have low: "\<not> bit (crc_steps k x) n" if "n < k" for n
    using Suc.prems that bit_shift_1 [of "crc_steps k x" "Suc n"] by (simp del: crc_steps.simps push_bit_Suc)
  then have IH: "\<forall>n. 16 - k \<le> n \<longrightarrow> n < 16 \<longrightarrow> \<not> bit x n"
    using Suc by simp
  have "\<not> bit x n" if "16 - k \<le> n" for n
    using IH that bit_imp_le_length [of x n] by auto
  then have "crc_steps k x = push_bit k x"
    using Suc.prems(1) by (intro crc_steps_shift) simp_all
  with top have last: "\<not> bit x (15 - k)"
    using Suc.prems(1) by (simp only: bit_shift_n) simp
  show ?case
  proof (intro allI impI)
    fix n :: nat
    assume "16 - Suc k \<le> n" "n < 16"
    then consider "n = 15 - k" | "16 - k \<le> n"
      by linarith
    then show "\<not> bit x n"
      using IH last \<open>n < 16\<close> by cases auto
  qed
qed simp

lemma low_byte_steps: "crc_steps 8 (ucast (b :: u8)) = push_bit 8 (ucast b)"
  by (rule crc_steps_shift) (auto simp: bit_ucast_iff dest: bit_imp_le_length)

text \<open>Byte by byte is the same as sixteen steps of the whole word.\<close>

lemma update_word_eq: "crc16_update_word crc w = crc_steps 16 (crc XOR w)"
proof -
  have split: "w = push_bit 8 (ucast (ucast (drop_bit 8 w) :: u8)) XOR ucast (ucast w :: u8)"
    by (rule bit_word_eqI) (auto simp: bit_xor_iff bit_push_bit_iff bit_ucast_iff bit_drop_bit_eq)
  have "crc16_update_word crc w =
      crc_steps 8 (crc_steps 8 (crc XOR push_bit 8 (ucast (ucast (drop_bit 8 w) :: u8))) XOR
        crc_steps 8 (ucast (ucast w :: u8)))"
    by (simp only: crc16_update_word_def crc16_update_byte_def low_byte_steps)
  also have "\<dots> = crc_steps 16 ((crc XOR push_bit 8 (ucast (ucast (drop_bit 8 w) :: u8))) XOR ucast (ucast w :: u8))"
    using crc_steps_add [of 8 8] by (simp only: crc_steps_xor [symmetric]) simp
  also have "\<dots> = crc_steps 16 (crc XOR w)"
    using split by (simp only: xor.assoc)
  finally show ?thesis .
qed

section \<open>Bursts\<close>

text \<open>The difference of two messages, and an error whose wrong bits lie in sixteen consecutive ones.\<close>

definition difference :: "u16 list \<Rightarrow> u16 list \<Rightarrow> u16 list" where
  "difference xs ys = map2 (\<lambda>x y. x XOR y) xs ys"

text \<open>
  Bits are sent from the top of each word. A burst that starts in word \<open>e1\<close> may reach into the next:
  then its wrong bits are among the low \<open>k\<close> of \<open>e1\<close> and the high \<open>16 - k\<close> of \<open>e2\<close>.
\<close>

fun burst16 :: "u16 list \<Rightarrow> bool" where
  "burst16 [] = False"
| "burst16 [e] = (e \<noteq> 0)"
| "burst16 (e1 # e2 # es) =
     (if e1 = 0 then burst16 (e2 # es)
      else list_all (\<lambda>e. e = 0) es \<and>
        list_ex (\<lambda>k. take_bit k e1 = e1 \<and> take_bit k e2 = 0) [0..<17])"

definition crc_fold :: "u16 \<Rightarrow> u16 list \<Rightarrow> u16" where
  "crc_fold = foldl crc16_update_word"

lemma crc_fold_Nil [simp]: "crc_fold c [] = c"
  and crc_fold_Cons: "crc_fold c (w # ws) = crc_fold (crc_steps 16 (c XOR w)) ws"
  and crc_fold_append: "crc_fold c (us @ vs) = crc_fold (crc_fold c us) vs"
  by (simp_all add: crc_fold_def update_word_eq)

lemma crc_fold_difference:
  "length xs = length ys \<Longrightarrow> crc_fold c xs XOR crc_fold d ys = crc_fold (c XOR d) (difference xs ys)"
proof (induction xs ys arbitrary: c d rule: list_induct2)
  case (Cons x xs y ys)
  have "(c XOR d) XOR (x XOR y) = (c XOR x) XOR (d XOR y)"
    by (simp add: xor.assoc xor.left_commute)
  with Cons.IH show ?case
    by (simp add: crc_fold_Cons difference_def crc_steps_xor)
qed (simp add: difference_def)

lemma crc_fold_zeros: "list_all (\<lambda>e. e = 0) es \<Longrightarrow> crc_fold c es = 0 \<longleftrightarrow> c = 0"
  by (induction es arbitrary: c) (simp_all add: crc_fold_Cons crc_steps_eq_0)

lemma shifted_nonzero:
  assumes "take_bit k e = e" and "e \<noteq> 0" and "k \<le> 16"
  shows "crc_steps 16 e \<noteq> e2 \<or> take_bit k e2 \<noteq> 0"
proof (rule disjCI)
  assume "\<not> take_bit k e2 \<noteq> 0"
  then have low: "\<not> bit e2 n" if "n < k" for n
    using that by (metis bit_0_eq bit_take_bit_iff bot_apply bot_bool_def)
  have high: "\<not> bit e n" if "k \<le> n" for n
    using that assms(1) by (metis bit_take_bit_iff linorder_not_le)
  define y where "y = push_bit (16 - k) e"
  have "crc_steps (16 - k) e = y"
    unfolding y_def using assms(3) high by (intro crc_steps_shift) simp_all
  then have whole: "crc_steps 16 e = crc_steps k y"
    using crc_steps_add [of "16 - k" k e] assms(3) by simp
  show "crc_steps 16 e \<noteq> e2"
  proof
    assume "crc_steps 16 e = e2"
    with whole low have "\<forall>n<k. \<not> bit (crc_steps k y) n"
      by simp
    then have top: "\<forall>n. 16 - k \<le> n \<longrightarrow> n < 16 \<longrightarrow> \<not> bit y n"
      by (rule crc_steps_low_zero [OF assms(3)])
    have "\<not> bit e n" for n
    proof (cases "n < k")
      case True
      then have "\<not> bit y (n + (16 - k))"
        using top assms(3) by simp
      with True assms(3) show ?thesis
        unfolding y_def by (simp only: bit_shift_n) simp
    qed (use high in simp)
    then have "e = 0"
      by (intro bit_word_eqI) simp
    with assms(2) show False ..
  qed
qed

lemma burst_residue: "burst16 d \<Longrightarrow> crc_fold 0 d \<noteq> 0"
proof (induction d rule: burst16.induct)
  case (3 e1 e2 es)
  show ?case
  proof (cases "e1 = 0")
    case False
    with "3.prems" obtain k where k: "k < 17" "take_bit k e1 = e1" "take_bit k e2 = 0"
      and zeros: "list_all (\<lambda>e. e = 0) es"
      by (auto simp: list_ex_iff)
    then have "crc_steps 16 e1 \<noteq> e2"
      using shifted_nonzero [OF k(2) False, of e2] by simp
    then have "crc_steps 16 e1 XOR e2 \<noteq> 0"
      by (metis xor.right_neutral xor.left_commute xor_self_eq xor.commute)
    with zeros show ?thesis
      by (simp add: crc_fold_Cons crc_fold_zeros crc_steps_eq_0)
  qed (use 3 in \<open>simp add: crc_fold_Cons\<close>)
qed (simp_all add: crc_fold_Cons crc_steps_eq_0)

text \<open>Two messages of one length whose difference is a burst never have the same register.\<close>

lemma burst_detected:
  assumes "length xs = length ys" and "burst16 (difference xs ys)"
  shows "crc_fold c xs \<noteq> crc_fold c ys"
proof
  assume "crc_fold c xs = crc_fold c ys"
  then have "crc_fold 0 (difference xs ys) = 0"
    using crc_fold_difference [OF assms(1), of c c] by simp
  with burst_residue [OF assms(2)] show False ..
qed

text \<open>A message followed by its own register leaves the register at zero, and only by that one.\<close>

lemma crc_fold_residue: "crc_fold c (ws @ [v]) = 0 \<longleftrightarrow> v = crc_fold c ws"
proof -
  have "crc_fold c (ws @ [v]) = 0 \<longleftrightarrow> crc_fold c ws XOR v = 0"
    by (simp add: crc_fold_append crc_fold_Cons crc_steps_eq_0)
  also have "\<dots> \<longleftrightarrow> v = crc_fold c ws"
    by (metis xor.right_neutral xor.left_commute xor_self_eq)
  finally show ?thesis .
qed

end
