(* ===== verification/Latch_Protocol.thy ===== *)
theory Latch_Protocol
  imports Latch_Crc
begin

text \<open>
  The messages of the FPGA latch protocol, \<open>mister/platform/contracts/latch/src/lib.rs\<close> with the
  constants of \<open>generated.rs\<close>, and the video evidence records of \<open>video_evidence.rs\<close>: the CRC
  frame, the five decoders, the encoder of the set command, and the validation of a window of
  presentation telemetry. An \<open>Err(String)\<close> is a value of \<open>latch_error\<close> that holds the numbers of the
  text. The decoders share the contract \<open>crc_framed\<close>.
\<close>

section \<open>Constants\<close>

definition SET_FBUF_LATCH :: u16 where "SET_FBUF_LATCH = 0x57"
definition GET_FBUF_LATCH :: u16 where "GET_FBUF_LATCH = 0x58"
definition GET_FBUF_LATCH_CAPS :: u16 where "GET_FBUF_LATCH_CAPS = 0x59"
definition GET_FBUF_LATCH_DIAGNOSTICS :: u16 where "GET_FBUF_LATCH_DIAGNOSTICS = 0x5a"
definition GET_FBUF_LATCH_RECEIPT :: u16 where "GET_FBUF_LATCH_RECEIPT = 0x5b"
definition GET_FBUF_PRESENTATION_TELEMETRY :: u16 where "GET_FBUF_PRESENTATION_TELEMETRY = 0x5c"

definition PROTOCOL_V5 :: u16 where "PROTOCOL_V5 = 5"
definition MAX_WIDTH :: u16 where "MAX_WIDTH = 1366"
definition MAX_HEIGHT :: u16 where "MAX_HEIGHT = 768"
definition MAX_STRIDE_BYTES :: u16 where "MAX_STRIDE_BYTES = 2736"
definition V5_CAPS_FLAGS :: u16 where "V5_CAPS_FLAGS = 0x03ff"

definition V5_CAPS_WORDS :: nat where "V5_CAPS_WORDS = 6"
definition V5_SET_PAYLOAD_WORDS :: nat where "V5_SET_PAYLOAD_WORDS = 11"
definition V5_SET_WORDS :: nat where "V5_SET_WORDS = 12"
definition V5_STATUS_WORDS :: nat where "V5_STATUS_WORDS = 16"
definition V5_DIAGNOSTICS_WORDS :: nat where "V5_DIAGNOSTICS_WORDS = 7"
definition V5_RECEIPT_WORDS :: nat where "V5_RECEIPT_WORDS = 11"
definition V5_PRESENTATION_TELEMETRY_WORDS :: nat where "V5_PRESENTATION_TELEMETRY_WORDS = 11"

definition RECEIPT_ACCEPTED :: u16 where "RECEIPT_ACCEPTED = 1"
definition RECEIPT_REJECTED :: u16 where "RECEIPT_REJECTED = 2"

definition STATUS_ACTIVE_ENABLED :: nat where "STATUS_ACTIVE_ENABLED = 0"
definition STATUS_PENDING_ENABLED :: nat where "STATUS_PENDING_ENABLED = 1"
definition STATUS_PENDING :: nat where "STATUS_PENDING = 2"
definition STATUS_MAGIK_OWNERSHIP :: nat where "STATUS_MAGIK_OWNERSHIP = 3"
definition STATUS_REJECT_REASON_SHIFT :: nat where "STATUS_REJECT_REASON_SHIFT = 4"
definition STATUS_REJECT_REASON_WIDTH :: nat where "STATUS_REJECT_REASON_WIDTH = 4"

section \<open>The frame\<close>

datatype latch_protocol = V5

definition protocol_version :: "latch_protocol \<Rightarrow> u16" where
  "protocol_version p = PROTOCOL_V5"

definition caps_word_count :: "latch_protocol \<Rightarrow> nat" where
  "caps_word_count p = V5_CAPS_WORDS"

definition set_word_count :: "latch_protocol \<Rightarrow> nat" where
  "set_word_count p = V5_SET_WORDS"

definition status_word_count :: "latch_protocol \<Rightarrow> nat" where
  "status_word_count p = V5_STATUS_WORDS"

definition diagnostics_word_count :: "latch_protocol \<Rightarrow> nat option" where
  "diagnostics_word_count p = Some V5_DIAGNOSTICS_WORDS"

datatype latch_error =
  VersionOmitted
| VersionUnsupported u16
| WordCount nat nat
| CrcMismatch u16 u16
| DiagnosticsUnsupported
| NotTerminal u16

definition try_from_version :: "u16 \<Rightarrow> latch_error + latch_protocol" where
  "try_from_version v = (if v = PROTOCOL_V5 then Inr V5 else Inl (VersionUnsupported v))"

definition message_crc :: "u16 \<Rightarrow> latch_protocol \<Rightarrow> u16 list \<Rightarrow> u16" where
  "message_crc command p payload =
     foldl crc16_update_word
       (foldl crc16_update_word CRC_INITIAL [command, protocol_version p, of_nat (length payload)])
       payload XOR CRC_FINAL_XOR"

definition verify_crc :: "u16 \<Rightarrow> latch_protocol \<Rightarrow> u16 list \<Rightarrow> u16 \<Rightarrow> latch_error + unit" where
  "verify_crc command p payload expected =
     (let actual = message_crc command p payload in
      if actual = expected then Inr () else Inl (CrcMismatch expected actual))"

section \<open>Decoders\<close>

record latch_capabilities =
  lcp_protocol :: latch_protocol
  lcp_protocol_version :: u16
  lcp_flags :: u16
  lcp_max_width :: u16
  lcp_max_height :: u16
  lcp_max_stride_bytes :: u16
  lcp_crc :: "u16 option"

definition production_ready :: "latch_capabilities \<Rightarrow> bool" where
  "production_ready c \<longleftrightarrow> lcp_protocol_version c = protocol_version (lcp_protocol c) \<and>
     lcp_flags c = V5_CAPS_FLAGS \<and> lcp_max_width c = MAX_WIDTH \<and> lcp_max_height c = MAX_HEIGHT \<and>
     lcp_max_stride_bytes c = MAX_STRIDE_BYTES"

definition decode_capabilities :: "u16 list \<Rightarrow> latch_error + latch_capabilities" where
  "decode_capabilities words =
     (case words of
        [] \<Rightarrow> Inl VersionOmitted
      | version # _ \<Rightarrow>
          (case try_from_version version of
             Inl err \<Rightarrow> Inl err
           | Inr p \<Rightarrow>
               if length words \<noteq> caps_word_count p
               then Inl (WordCount (caps_word_count p) (length words))
               else case verify_crc GET_FBUF_LATCH_CAPS p (take 5 words) (words ! 5) of
                      Inl err \<Rightarrow> Inl err
                    | Inr _ \<Rightarrow> Inr \<lparr>lcp_protocol = p, lcp_protocol_version = words ! 0, lcp_flags = words ! 1,
                        lcp_max_width = words ! 2, lcp_max_height = words ! 3,
                        lcp_max_stride_bytes = words ! 4, lcp_crc = Some (words ! 5)\<rparr>))"

text \<open>Two words, low half first: \<open>u32::from(lo) | (u32::from(hi) << 16)\<close>.\<close>

definition join_words :: "u16 \<Rightarrow> u16 \<Rightarrow> u32" where
  "join_words lo hi = ucast lo OR push_bit 16 (ucast hi)"

record latch_status =
  lst_active_seq :: u16
  lst_pending_seq :: u16
  lst_flags :: u16
  lst_flip_count :: u16
  lst_post_count :: u16
  lst_drop_count :: u16
  lst_base :: u32
  lst_width :: u16
  lst_height :: u16
  lst_stride :: u16
  lst_reject_count :: u16
  lst_active_route_epoch :: u16
  lst_accepted_seq :: u16
  lst_active_transaction :: u16
  lst_pending_transaction :: u16
  lst_accepted_transaction :: u16
  lst_crc :: "u16 option"

definition status_active_enabled :: "latch_status \<Rightarrow> bool" where
  "status_active_enabled s \<longleftrightarrow> lst_flags s AND push_bit STATUS_ACTIVE_ENABLED 1 \<noteq> 0"

definition status_pending_enabled :: "latch_status \<Rightarrow> bool" where
  "status_pending_enabled s \<longleftrightarrow> lst_flags s AND push_bit STATUS_PENDING_ENABLED 1 \<noteq> 0"

definition status_pending :: "latch_status \<Rightarrow> bool" where
  "status_pending s \<longleftrightarrow> lst_flags s AND push_bit STATUS_PENDING 1 \<noteq> 0"

definition status_magik_ownership :: "latch_status \<Rightarrow> bool" where
  "status_magik_ownership s \<longleftrightarrow> lst_flags s AND push_bit STATUS_MAGIK_OWNERSHIP 1 \<noteq> 0"

definition rejection_reason :: "latch_status \<Rightarrow> u8" where
  "rejection_reason s =
     ucast (drop_bit STATUS_REJECT_REASON_SHIFT (lst_flags s) AND (push_bit STATUS_REJECT_REASON_WIDTH 1 - 1))"

definition decode_status :: "latch_protocol \<Rightarrow> u16 list \<Rightarrow> latch_error + latch_status" where
  "decode_status p words =
     (if length words \<noteq> status_word_count p then Inl (WordCount (status_word_count p) (length words))
      else case verify_crc GET_FBUF_LATCH p (take 15 words) (words ! 15) of
        Inl err \<Rightarrow> Inl err
      | Inr _ \<Rightarrow> Inr \<lparr>lst_active_seq = words ! 0, lst_pending_seq = words ! 1,
          lst_flags = words ! 2 AND 0x00ff, lst_flip_count = words ! 3, lst_post_count = words ! 4,
          lst_drop_count = 0, lst_base = join_words (words ! 5) (words ! 6),
          lst_width = words ! 7 AND 0x0fff, lst_height = words ! 8 AND 0x0fff,
          lst_stride = words ! 9 AND 0x3fff, lst_reject_count = words ! 10,
          lst_active_route_epoch = words ! 11, lst_accepted_seq = words ! 1,
          lst_active_transaction = words ! 12, lst_pending_transaction = words ! 13,
          lst_accepted_transaction = words ! 14, lst_crc = Some (words ! 15)\<rparr>)"

record latch_rejection =
  lrj_reject_count :: u16
  lrj_reason :: u8
  lrj_expected_index :: u16
  lrj_observed_index :: u16
  lrj_observed_command :: u16
  lrj_receiver_open :: bool
  lrj_receiver_faulted :: bool
  lrj_crc :: u16

definition decode_rejection_diagnostics ::
  "latch_protocol \<Rightarrow> u16 list \<Rightarrow> latch_error + latch_rejection" where
  "decode_rejection_diagnostics p words =
     (case diagnostics_word_count p of
        None \<Rightarrow> Inl DiagnosticsUnsupported
      | Some n \<Rightarrow>
          if length words \<noteq> n then Inl (WordCount n (length words))
          else case verify_crc GET_FBUF_LATCH_DIAGNOSTICS p (take (n - 1) words) (words ! (n - 1)) of
            Inl err \<Rightarrow> Inl err
          | Inr _ \<Rightarrow> Inr \<lparr>lrj_reject_count = words ! 0, lrj_reason = ucast (words ! 1 AND 0x000f),
              lrj_expected_index = words ! 2, lrj_observed_index = words ! 3,
              lrj_observed_command = words ! 4, lrj_receiver_open = (words ! 5 AND 1 \<noteq> 0),
              lrj_receiver_faulted = (words ! 5 AND 2 \<noteq> 0), lrj_crc = words ! 6\<rparr>)"

record latch_receipt =
  lrc_attempted_transaction :: u16
  lrc_attempted_sequence :: u16
  lrc_disposition :: u16
  lrc_accepted_transaction :: u16
  lrc_accepted_sequence :: u16
  lrc_pending_transaction :: u16
  lrc_pending_sequence :: u16
  lrc_active_transaction :: u16
  lrc_active_sequence :: u16
  lrc_reject_reason :: u8
  lrc_crc :: u16

definition receipt_accepted :: "latch_receipt \<Rightarrow> bool" where
  "receipt_accepted r \<longleftrightarrow> lrc_disposition r = RECEIPT_ACCEPTED"

definition receipt_rejected :: "latch_receipt \<Rightarrow> bool" where
  "receipt_rejected r \<longleftrightarrow> lrc_disposition r = RECEIPT_REJECTED"

definition decode_receipt :: "u16 list \<Rightarrow> latch_error + latch_receipt" where
  "decode_receipt words =
     (if length words \<noteq> V5_RECEIPT_WORDS then Inl (WordCount V5_RECEIPT_WORDS (length words))
      else case verify_crc GET_FBUF_LATCH_RECEIPT V5 (take (V5_RECEIPT_WORDS - 1) words)
             (words ! (V5_RECEIPT_WORDS - 1)) of
        Inl err \<Rightarrow> Inl err
      | Inr _ \<Rightarrow>
          if words ! 2 \<notin> {RECEIPT_ACCEPTED, RECEIPT_REJECTED} then Inl (NotTerminal (words ! 2))
          else Inr \<lparr>lrc_attempted_transaction = words ! 0, lrc_attempted_sequence = words ! 1,
            lrc_disposition = words ! 2, lrc_accepted_transaction = words ! 3,
            lrc_accepted_sequence = words ! 4, lrc_pending_transaction = words ! 5,
            lrc_pending_sequence = words ! 6, lrc_active_transaction = words ! 7,
            lrc_active_sequence = words ! 8, lrc_reject_reason = ucast (words ! 9 AND 0x000f),
            lrc_crc = words ! 10\<rparr>)"

record presentation_telemetry =
  ptl_owned_vblank_count :: u32
  ptl_presented_vblank_count :: u32
  ptl_repeated_vblank_count :: u32
  ptl_ownership_loss_count :: u32
  ptl_active_sequence :: u16
  ptl_flags :: u16
  ptl_crc :: u16

definition telemetry_magik_ownership :: "presentation_telemetry \<Rightarrow> bool" where
  "telemetry_magik_ownership t \<longleftrightarrow> ptl_flags t AND push_bit STATUS_MAGIK_OWNERSHIP 1 \<noteq> 0"

definition telemetry_pending :: "presentation_telemetry \<Rightarrow> bool" where
  "telemetry_pending t \<longleftrightarrow> ptl_flags t AND push_bit STATUS_PENDING 1 \<noteq> 0"

definition decode_presentation_telemetry :: "u16 list \<Rightarrow> latch_error + presentation_telemetry" where
  "decode_presentation_telemetry words =
     (if length words \<noteq> V5_PRESENTATION_TELEMETRY_WORDS
      then Inl (WordCount V5_PRESENTATION_TELEMETRY_WORDS (length words))
      else case verify_crc GET_FBUF_PRESENTATION_TELEMETRY V5
             (take (V5_PRESENTATION_TELEMETRY_WORDS - 1) words)
             (words ! (V5_PRESENTATION_TELEMETRY_WORDS - 1)) of
        Inl err \<Rightarrow> Inl err
      | Inr _ \<Rightarrow>
          let counter = (\<lambda>low. join_words (words ! low) (words ! (low + 1))) in
          Inr \<lparr>ptl_owned_vblank_count = counter 0, ptl_presented_vblank_count = counter 2,
            ptl_repeated_vblank_count = counter 4, ptl_ownership_loss_count = counter 6,
            ptl_active_sequence = words ! 8, ptl_flags = words ! 9 AND 0x00ff, ptl_crc = words ! 10\<rparr>)"

section \<open>The set command\<close>

record latch_set_payload =
  lsp_mode :: u16
  lsp_base :: u32
  lsp_width :: u16
  lsp_height :: u16
  lsp_destination_left :: u16
  lsp_destination_right :: u16
  lsp_destination_top :: u16
  lsp_destination_bottom :: u16
  lsp_stride :: u16
  lsp_sequence :: u16

definition payload_words :: "latch_set_payload \<Rightarrow> u16 list" where
  "payload_words s = [lsp_mode s, ucast (lsp_base s), ucast (drop_bit 16 (lsp_base s)), lsp_width s,
     lsp_height s, lsp_destination_left s, lsp_destination_right s, lsp_destination_top s,
     lsp_destination_bottom s, lsp_stride s, lsp_sequence s]"

record latch_set_words =
  lsw_words :: "u16 list"
  lsw_word_count :: nat

definition encode_set :: "latch_protocol \<Rightarrow> latch_set_payload \<Rightarrow> latch_set_words" where
  "encode_set p payload =
     (let payload_ws = payload_words payload;
          words = payload_ws @ drop V5_SET_PAYLOAD_WORDS (replicate V5_SET_WORDS 0)
      in \<lparr>lsw_words = words[V5_SET_PAYLOAD_WORDS := message_crc SET_FBUF_LATCH p payload_ws],
          lsw_word_count = set_word_count p\<rparr>)"

section \<open>Windows of presentation telemetry\<close>

text \<open>The trait \<open>PresentationTelemetryCounters\<close> is the record of its methods, with the default one.\<close>

record 't telemetry_counters =
  tc_owned :: "'t \<Rightarrow> u32"
  tc_presented :: "'t \<Rightarrow> u32"
  tc_repeated :: "'t \<Rightarrow> u32"
  tc_ownership_loss :: "'t \<Rightarrow> u32"
  tc_magik_ownership :: "'t \<Rightarrow> bool"
  tc_pending :: "'t \<Rightarrow> bool"

definition tc_lifetime_valid :: "'t telemetry_counters \<Rightarrow> 't \<Rightarrow> bool" where
  "tc_lifetime_valid T t \<longleftrightarrow> tc_owned T t = tc_presented T t + tc_repeated T t"

definition presentation_counters :: "presentation_telemetry telemetry_counters" where
  "presentation_counters = \<lparr>tc_owned = ptl_owned_vblank_count, tc_presented = ptl_presented_vblank_count,
     tc_repeated = ptl_repeated_vblank_count, tc_ownership_loss = ptl_ownership_loss_count,
     tc_magik_ownership = telemetry_magik_ownership, tc_pending = telemetry_pending\<rparr>"

record telemetry_delta =
  td_elapsed_us :: u64
  td_owned :: u32
  td_presented :: u32
  td_repeated :: u32
  td_ownership_loss :: u32
  td_maximum_plausible :: u64

datatype telemetry_error =
  InvalidTiming
| LifetimeInvariant
| DeltaInvariant
| Implausible u32 u64
| EndpointsNotOwnedAndSettled
| OwnershipLoss u32

definition div_ceil :: "u64 \<Rightarrow> u64 \<Rightarrow> u64" where
  "div_ceil a b = (if a mod b = 0 then a div b else a div b + 1)"

definition validate_window ::
  "'t telemetry_counters \<Rightarrow> 't \<Rightarrow> 't \<Rightarrow> u64 \<Rightarrow> u64 \<Rightarrow> telemetry_error + telemetry_delta" where
  "validate_window T start finish elapsed_us refresh_period_us =
     (if elapsed_us = 0 \<or> refresh_period_us = 0 then Inl InvalidTiming
      else if \<not> tc_lifetime_valid T start \<or> \<not> tc_lifetime_valid T finish then Inl LifetimeInvariant
      else let owned = tc_owned T finish - tc_owned T start;
               presented = tc_presented T finish - tc_presented T start;
               repeated = tc_repeated T finish - tc_repeated T start;
               loss = tc_ownership_loss T finish - tc_ownership_loss T start;
               maximum = sat_add (div_ceil elapsed_us refresh_period_us) 2
           in if owned \<noteq> presented + repeated then Inl DeltaInvariant
              else if list_ex (\<lambda>count. maximum < ucast count) [owned, presented, repeated]
              then Inl (Implausible owned maximum)
              else if \<not> tc_magik_ownership T start \<or> \<not> tc_magik_ownership T finish \<or>
                tc_pending T start \<or> tc_pending T finish
              then Inl EndpointsNotOwnedAndSettled
              else if loss \<noteq> 0 then Inl (OwnershipLoss loss)
              else Inr \<lparr>td_elapsed_us = elapsed_us, td_owned = owned, td_presented = presented,
                td_repeated = repeated, td_ownership_loss = loss, td_maximum_plausible = maximum\<rparr>)"

section \<open>Video evidence\<close>

definition SELECT_FIRST :: u16 where "SELECT_FIRST = 0x68"
definition READ_SNAPSHOT :: u16 where "READ_SNAPSHOT = 0x6a"
definition EVIDENCE_SCHEMA :: u16 where "EVIDENCE_SCHEMA = 24"
definition EVIDENCE_WORDS :: nat where "EVIDENCE_WORDS = 5"

record evidence =
  ev_schema :: u16
  ev_record_valid :: bool
  ev_first_selected :: bool
  ev_ledger_valid :: bool
  ev_cause :: u8
  ev_physical_depth :: u8
  ev_physical_phase :: u8
  ev_production_depth :: "u8 option"
  ev_production_phase :: "u8 option"
  ev_output_state :: "u16 option"
  ev_flags :: u16

datatype evidence_error =
  EvidenceEmpty
| UnsupportedSchema
| EvidenceLength
| EvidenceCrc
| LegacyLayout
| LegacyReserved
| ReservedCause
| ImpossiblePhase
| InvalidOutput

definition evidence_crc :: "u16 \<Rightarrow> u16 \<Rightarrow> u16 list \<Rightarrow> u16" where
  "evidence_crc command schema words =
     foldl crc16_update_word 0xffff ([command, schema, of_nat (length words)] @ words)"

text \<open>The two layouts, after the CRC has been checked.\<close>

definition decode_schema23 :: "u16 list \<Rightarrow> evidence_error + evidence" where
  "decode_schema23 words =
     (let flags = words ! 1 in
      if flags AND 8 = 0 then Inl LegacyLayout
      else if flags AND 0xff00 \<noteq> 0 \<or> words ! 2 AND 0xf000 \<noteq> 0 then Inl LegacyReserved
      else Inr \<lparr>ev_schema = 23, ev_record_valid = (flags AND 1 \<noteq> 0), ev_first_selected = True,
        ev_ledger_valid = False, ev_cause = ucast ((words ! 2 AND 7) + 6),
        ev_physical_depth = ucast (drop_bit 10 (words ! 2) AND 3),
        ev_physical_phase = ucast (drop_bit 3 (words ! 2) AND 127), ev_production_depth = None,
        ev_production_phase = None, ev_output_state = None, ev_flags = flags\<rparr>)"

definition decode_schema24 :: "u16 list \<Rightarrow> evidence_error + evidence" where
  "decode_schema24 words =
     (let flags = words ! 1;
          cause = ucast (drop_bit 8 flags AND 15);
          physical_depth = ucast (drop_bit 7 (words ! 2) AND 3);
          physical_phase = ucast (words ! 2 AND 127)
      in if (9 :: u8) < cause then Inl ReservedCause
         else if flags AND 0x1000 \<noteq> 0 \<and> physical_depth = 0 \<and> physical_phase \<noteq> 0 then Inl ImpossiblePhase
         else if flags AND 0x4000 = 0 \<and> words ! 3 \<noteq> 0 then Inl InvalidOutput
         else Inr \<lparr>ev_schema = EVIDENCE_SCHEMA, ev_record_valid = (flags AND 0x8000 \<noteq> 0),
           ev_first_selected = (flags AND 0x2000 \<noteq> 0), ev_ledger_valid = (flags AND 0x1000 \<noteq> 0),
           ev_cause = cause, ev_physical_depth = physical_depth, ev_physical_phase = physical_phase,
           ev_production_depth = Some (ucast (flags AND 3)),
           ev_production_phase = Some (ucast (drop_bit 9 (words ! 2))),
           ev_output_state = (if flags AND 0x4000 \<noteq> 0 then Some (words ! 3) else None),
           ev_flags = flags\<rparr>)"

definition decode_evidence :: "u16 list \<Rightarrow> evidence_error + evidence" where
  "decode_evidence words =
     (case words of
        [] \<Rightarrow> Inl EvidenceEmpty
      | schema # _ \<Rightarrow>
          (case (if schema = 23 then Some (SELECT_FIRST, 4)
                 else if schema = EVIDENCE_SCHEMA then Some (READ_SNAPSHOT, EVIDENCE_WORDS) else None) of
             None \<Rightarrow> Inl UnsupportedSchema
           | Some (command, len) \<Rightarrow>
               if length words \<noteq> len then Inl EvidenceLength
               else if evidence_crc command schema (take (len - 1) words) \<noteq> words ! (len - 1)
               then Inl EvidenceCrc
               else if schema = 23 then decode_schema23 words else decode_schema24 words))"

section \<open>The frame contract\<close>

lemma message_crc_eq:
  "message_crc command p payload =
     crc_fold (crc_fold CRC_INITIAL [command, protocol_version p, of_nat (length payload)]) payload"
  by (simp add: message_crc_def crc_fold_def CRC_FINAL_XOR_def)

text \<open>
  What every decoder promises: it accepts only frames of its length whose last word is the CRC of the
  others under its command.
\<close>

locale crc_framed =
  fixes decode :: "u16 list \<Rightarrow> 'e + 'a" and register :: u16 and n :: nat
  assumes accepts: "decode words = Inr v \<Longrightarrow>
    length words = Suc n \<and> words ! n = crc_fold register (take n words)"
begin

lemma accepted_residue: "decode words = Inr v \<Longrightarrow> crc_fold register words = 0"
proof -
  assume "decode words = Inr v"
  then have frame: "length words = Suc n" "words ! n = crc_fold register (take n words)"
    using accepts by blast+
  then have "words = take n words @ [words ! n]"
    by (metis lessI order_refl take_Suc_conv_app_nth take_all)
  with frame(2) show ?thesis
    using crc_fold_residue [of register "take n words" "words ! n"] by metis
qed

lemma burst_refused:
  assumes "decode words = Inr v" and "length words' = length words"
    and "burst16 (difference words words')"
  shows "\<exists>err. decode words' = Inl err"
proof (cases "decode words'")
  case (Inr v')
  with assms(1) have "crc_fold register words = crc_fold register words'"
    using accepted_residue by metis
  with burst_detected [OF assms(2) [symmetric] assms(3)] show ?thesis
    by blast
qed simp

end

text \<open>The register with which the CRC of a message of \<open>n\<close> words under a command starts.\<close>

definition frame_register :: "u16 \<Rightarrow> nat \<Rightarrow> u16" where
  "frame_register command n = crc_fold CRC_INITIAL [command, PROTOCOL_V5, of_nat n]"

lemma verify_crc_Inr:
  "verify_crc command p payload v = Inr x \<longleftrightarrow> v = crc_fold (frame_register command (length payload)) payload"
  by (auto simp: verify_crc_def Let_def message_crc_eq frame_register_def protocol_version_def)

lemmas word_counts = V5_CAPS_WORDS_def V5_SET_PAYLOAD_WORDS_def V5_SET_WORDS_def V5_STATUS_WORDS_def
  V5_DIAGNOSTICS_WORDS_def V5_RECEIPT_WORDS_def V5_PRESENTATION_TELEMETRY_WORDS_def
  caps_word_count_def set_word_count_def status_word_count_def diagnostics_word_count_def

interpretation caps_frame: crc_framed decode_capabilities "frame_register GET_FBUF_LATCH_CAPS 5" 5
  by unfold_locales
    (auto simp: decode_capabilities_def word_counts verify_crc_Inr
      split: list.splits sum.splits if_splits)

interpretation status_frame: crc_framed "decode_status p" "frame_register GET_FBUF_LATCH 15" 15 for p
  by unfold_locales (auto simp: decode_status_def word_counts verify_crc_Inr split: sum.splits if_splits)

interpretation diagnostics_frame:
  crc_framed "decode_rejection_diagnostics p" "frame_register GET_FBUF_LATCH_DIAGNOSTICS 6" 6 for p
  by unfold_locales
    (auto simp: decode_rejection_diagnostics_def word_counts verify_crc_Inr split: sum.splits if_splits)

interpretation receipt_frame: crc_framed decode_receipt "frame_register GET_FBUF_LATCH_RECEIPT 10" 10
  by unfold_locales (auto simp: decode_receipt_def word_counts verify_crc_Inr split: sum.splits if_splits)

interpretation telemetry_frame:
  crc_framed decode_presentation_telemetry "frame_register GET_FBUF_PRESENTATION_TELEMETRY 10" 10
  by unfold_locales
    (auto simp: decode_presentation_telemetry_def word_counts verify_crc_Inr split: sum.splits if_splits)

lemma crc_fold_header: "crc_fold c (w # x # y # z # ws) = crc_fold (crc_fold c [w, x, y, z]) ws"
  using crc_fold_append [of c "[w, x, y, z]" ws] by simp

interpretation evidence23: crc_framed "\<lambda>ws. decode_evidence (23 # ws)"
  "crc_fold 0xffff [SELECT_FIRST, 23, 3, 23]" 2
  by unfold_locales
    (auto simp: decode_evidence_def evidence_crc_def crc_fold_def [symmetric]
      EVIDENCE_SCHEMA_def split: if_splits, metis crc_fold_header)

interpretation evidence24: crc_framed "\<lambda>ws. decode_evidence (EVIDENCE_SCHEMA # ws)"
  "crc_fold 0xffff [READ_SNAPSHOT, EVIDENCE_SCHEMA, 4, EVIDENCE_SCHEMA]" 3
  by unfold_locales
    (auto simp: decode_evidence_def evidence_crc_def crc_fold_def [symmetric]
      EVIDENCE_SCHEMA_def EVIDENCE_WORDS_def split: if_splits, metis crc_fold_header)

section \<open>Properties\<close>

text \<open>
  C10: Damaged replies are refused. If a decoder of the protocol accepts a reply, then no reply of the
  same length that differs from it by a burst (any nonzero error within sixteen consecutive bits,
  across word borders and in the CRC itself) is accepted by it: not for capabilities, status,
  rejection diagnostics, receipt or presentation telemetry.
\<close>

theorem damaged_reply_refused:
  assumes "length words' = length words" and "burst16 (difference words words')"
  shows "(decode_capabilities words = Inr c \<longrightarrow> (\<exists>err. decode_capabilities words' = Inl err)) \<and>
    (decode_status p words = Inr s \<longrightarrow> (\<exists>err. decode_status p words' = Inl err)) \<and>
    (decode_rejection_diagnostics p words = Inr d \<longrightarrow> (\<exists>err. decode_rejection_diagnostics p words' = Inl err)) \<and>
    (decode_receipt words = Inr r \<longrightarrow> (\<exists>err. decode_receipt words' = Inl err)) \<and>
    (decode_presentation_telemetry words = Inr t \<longrightarrow> (\<exists>err. decode_presentation_telemetry words' = Inl err))"
  using caps_frame.burst_refused [OF _ assms] status_frame.burst_refused [OF _ assms]
    diagnostics_frame.burst_refused [OF _ assms] receipt_frame.burst_refused [OF _ assms]
    telemetry_frame.burst_refused [OF _ assms]
  by blast

lemma difference_Cons: "difference (x # xs) (y # ys) = (x XOR y) # difference xs ys"
  by (simp add: difference_def)

lemma burst16_zero: "burst16 (0 # d) \<longleftrightarrow> burst16 d"
  by (cases d) simp_all

lemma evidence_schema:
  assumes "decode_evidence (s # ws) = Inr v"
  shows "s = 23 \<and> length ws = 3 \<or> s = EVIDENCE_SCHEMA \<and> length ws = 4"
  using assms by (auto simp: decode_evidence_def EVIDENCE_WORDS_def split: if_splits)

text \<open>
  Damaged evidence is refused. A video evidence record that is accepted is not accepted once it
  carries a burst error of at most sixteen bits, even when the error turns its schema word into the
  other schema.
\<close>

theorem damaged_evidence_refused:
  assumes "decode_evidence words = Inr v" and "length words' = length words"
    and "burst16 (difference words words')"
  shows "\<exists>err. decode_evidence words' = Inl err"
proof (rule ccontr)
  assume "\<nexists>err. decode_evidence words' = Inl err"
  then obtain v' where ok': "decode_evidence words' = Inr v'"
    by (metis sum.exhaust)
  obtain s ws where words: "words = s # ws"
    using assms(1) by (cases words) (simp_all add: decode_evidence_def)
  with assms(2) obtain s' ws' where words': "words' = s' # ws'"
    by (cases words') simp_all
  have len: "length ws' = length ws"
    using assms(2) by (simp add: words words')
  have schema: "s' = s"
    using evidence_schema [of s ws v] evidence_schema [of s' ws' v'] assms(1) ok' len words words' by auto
  then have burst: "burst16 (difference ws ws')"
    using assms(3) by (simp add: words words' difference_Cons burst16_zero)
  from evidence_schema [of s ws v] assms(1) words consider "s = 23" | "s = EVIDENCE_SCHEMA"
    by blast
  then show False
    using evidence23.burst_refused [OF _ len burst] evidence24.burst_refused [OF _ len burst]
      assms(1) ok' by cases (auto simp: words words' schema)
qed

definition payload_of_words :: "u16 list \<Rightarrow> latch_set_payload" where
  "payload_of_words ws = \<lparr>lsp_mode = ws ! 0, lsp_base = join_words (ws ! 1) (ws ! 2), lsp_width = ws ! 3,
     lsp_height = ws ! 4, lsp_destination_left = ws ! 5, lsp_destination_right = ws ! 6,
     lsp_destination_top = ws ! 7, lsp_destination_bottom = ws ! 8, lsp_stride = ws ! 9,
     lsp_sequence = ws ! 10\<rparr>"

lemma join_split: "join_words (ucast b) (ucast (drop_bit 16 b)) = b"
  by (rule bit_word_eqI)
    (auto simp: join_words_def bit_or_iff bit_push_bit_iff bit_ucast_iff bit_drop_bit_eq)

lemma split_join: "ucast (join_words lo hi) = lo" "ucast (drop_bit 16 (join_words lo hi)) = hi"
  by (rule bit_word_eqI,
      auto simp: join_words_def bit_or_iff bit_push_bit_iff bit_ucast_iff bit_drop_bit_eq dest: bit_imp_le_length)+

lemma join_words_eq: "join_words a b = join_words c d \<longleftrightarrow> a = c \<and> b = d"
  by (metis split_join)

lemma payload_round_trip: "payload_of_words (payload_words s) = s"
  by (simp add: payload_of_words_def payload_words_def join_split)

lemma encode_set_words: "lsw_words (encode_set p s) = payload_words s @ [message_crc SET_FBUF_LATCH p (payload_words s)]"
  by (simp add: encode_set_def Let_def word_counts payload_words_def eval_nat_numeral)

text \<open>
  C21: The set command round trips and protects itself. The encoder fills exactly its twelve words, the
  payload can be read back from them, the CRC check of the receiver succeeds on them, and it fails on
  every command that differs by a burst error.
\<close>

theorem set_command_round_trip:
  fixes s :: latch_set_payload and p :: latch_protocol
  defines "ws \<equiv> lsw_words (encode_set p s)"
  shows "length ws = lsw_word_count (encode_set p s) \<and> payload_of_words ws = s \<and>
    verify_crc SET_FBUF_LATCH p (take 11 ws) (ws ! 11) = Inr () \<and>
    (\<forall>ws'. length ws' = length ws \<and> burst16 (difference ws ws') \<longrightarrow>
       verify_crc SET_FBUF_LATCH p (take 11 ws') (ws' ! 11) \<noteq> Inr ())"
proof -
  let ?reg = "frame_register SET_FBUF_LATCH 11"
  have len: "length (payload_words s) = 11"
    by (simp add: payload_words_def)
  have ws: "ws = payload_words s @ [crc_fold ?reg (payload_words s)]"
    by (simp add: ws_def encode_set_words message_crc_eq frame_register_def protocol_version_def len)
  have refused: "verify_crc SET_FBUF_LATCH p (take 11 ws') (ws' ! 11) \<noteq> Inr ()"
    if "length ws' = length ws" "burst16 (difference ws ws')" for ws'
  proof
    assume "verify_crc SET_FBUF_LATCH p (take 11 ws') (ws' ! 11) = Inr ()"
    with that(1) have "ws' ! 11 = crc_fold ?reg (take 11 ws')" "length ws' = 12"
      by (simp_all add: verify_crc_Inr ws len)
    moreover from this(2) have "ws' = take 11 ws' @ [ws' ! 11]"
      using take_Suc_conv_app_nth [of 11 ws'] by simp
    ultimately have "crc_fold ?reg ws' = 0"
      using crc_fold_residue [of ?reg "take 11 ws'" "ws' ! 11"] by metis
    moreover have "crc_fold ?reg ws = 0"
      using crc_fold_residue ws by blast
    ultimately show False
      using burst_detected [OF that(1) [symmetric] that(2), of ?reg] by simp
  qed
  have "payload_of_words ws = payload_of_words (payload_words s)"
    by (simp add: ws payload_of_words_def nth_append len)
  with refused show ?thesis
    by (simp add: payload_round_trip verify_crc_Inr ws len encode_set_def Let_def word_counts nth_append)
qed

text \<open>The bits of each status word that no field of the decoded status holds.\<close>

definition status_mask :: "u16 list" where
  "status_mask = replicate 2 0xffff @ [0x00ff] @ replicate 4 0xffff @ [0x0fff, 0x0fff, 0x3fff] @ replicate 6 0xffff"

definition masked :: "u16 list \<Rightarrow> u16 list" where
  "masked words = map2 (\<lambda>m w. w AND m) status_mask words"

lemma list_16:
  assumes "length words = 16"
  shows "words = [words ! 0, words ! 1, words ! 2, words ! 3, words ! 4, words ! 5, words ! 6, words ! 7,
    words ! 8, words ! 9, words ! 10, words ! 11, words ! 12, words ! 13, words ! 14, words ! 15]"
  using assms by (intro nth_equalityI) (auto simp: less_Suc_eq numeral_eq_Suc)

text \<open>
  The status decoder loses nothing but reserved bits. Two replies it accepts decode to the same
  status exactly when they agree outside the reserved bits of the flags and geometry words.
\<close>

theorem status_decoding_is_faithful:
  assumes "decode_status p words = Inr s" and "decode_status p words' = Inr s'"
  shows "s = s' \<longleftrightarrow> masked words = masked words'"
proof -
  have len: "length words = 16" "length words' = 16"
    using status_frame.accepts [OF assms(1)] status_frame.accepts [OF assms(2)] by simp_all
  have full: "w AND 0xffff = w" for w :: u16
  proof -
    have ones: "(0xffff :: u16) = - 1"
      by simp
    show ?thesis
      by (simp only: ones and.right_neutral)
  qed
  show ?thesis
    using assms len
    apply (subst (1 2) masked_def)
    apply (subst list_16 [OF len(1)], subst list_16 [OF len(2)])
    by (auto simp: decode_status_def status_mask_def full numeral_eq_Suc join_words_eq
        split: if_splits sum.splits)
qed

section \<open>Telemetry windows\<close>

lemma ceil_div_split:
  fixes q r b :: nat
  assumes "r < b"
  shows "(q * b + r + b - 1) div b = (if r = 0 then q else Suc q)"
proof (rule div_nat_eqI)
  show "b * (if r = 0 then q else Suc q) \<le> q * b + r + b - 1"
    using assms by (auto simp: mult.commute)
  show "q * b + r + b - 1 < b * Suc (if r = 0 then q else Suc q)"
    using assms by (auto simp: mult.commute)
qed

lemma unat_div_ceil:
  assumes "b \<noteq> 0"
  shows "unat (div_ceil a b) = (unat a + unat b - 1) div unat b"
proof -
  define q r where "q = unat a div unat b" and "r = unat a mod unat b"
  have b: "0 < unat b"
    using assms by (simp add: unat_gt_0)
  then have r: "r < unat b"
    by (simp add: r_def)
  have a: "unat a = q * unat b + r"
    by (simp add: q_def r_def)
  have "a mod b = 0 \<longleftrightarrow> r = 0"
    by (simp add: r_def word_unat_eq_iff unat_mod_distrib)
  moreover have "Suc q < 2 ^ 64" if "r \<noteq> 0"
  proof -
    have "q \<le> q * unat b"
      using b by simp
    then have "q < unat a"
      using a that by linarith
    then show ?thesis
      using unsigned_less [of a, where 'a = nat] by simp
  qed
  ultimately have "unat (div_ceil a b) = (if r = 0 then q else Suc q)"
    by (auto simp: div_ceil_def unat_div_distrib q_def [symmetric] unat_word_ariths)
  also have "\<dots> = (unat a + unat b - 1) div unat b"
    unfolding a using ceil_div_split [OF r, of q] by simp
  finally show ?thesis .
qed


definition periods_plus_2 :: "u64 \<Rightarrow> u64 \<Rightarrow> nat" where
  "periods_plus_2 elapsed period = (unat elapsed + unat period - 1) div unat period + 2"

lemma accepted_window:
  assumes "validate_window T start finish elapsed period = Inr d"
  shows "tc_lifetime_valid T start" "tc_lifetime_valid T finish" "tc_owned T finish = tc_owned T start + td_owned d"
    "tc_presented T finish = tc_presented T start + td_presented d"
    "tc_repeated T finish = tc_repeated T start + td_repeated d" "td_owned d = td_presented d + td_repeated d"
    "tc_ownership_loss T finish = tc_ownership_loss T start" "td_ownership_loss d = 0"
    "tc_magik_ownership T start" "tc_magik_ownership T finish" "\<not> tc_pending T start" "\<not> tc_pending T finish"
    "elapsed \<noteq> 0" "period \<noteq> 0"
    "ucast (td_owned d) \<le> sat_add (div_ceil elapsed period) 2"
    "ucast (td_presented d) \<le> sat_add (div_ceil elapsed period) 2"
    "ucast (td_repeated d) \<le> sat_add (div_ceil elapsed period) 2"
proof -
  have "td_owned d = tc_owned T finish - tc_owned T start"
    "td_presented d = tc_presented T finish - tc_presented T start"
    "td_repeated d = tc_repeated T finish - tc_repeated T start"
    using assms by (auto simp: validate_window_def Let_def split: if_splits)
  then show "tc_owned T finish = tc_owned T start + td_owned d"
    "tc_presented T finish = tc_presented T start + td_presented d"
    "tc_repeated T finish = tc_repeated T start + td_repeated d"
    by (simp_all add: algebra_simps)
qed (use assms in \<open>auto simp: validate_window_def Let_def not_less split: if_splits\<close>)

lemma unat_le_periods:
  assumes "(ucast (c :: u32) :: u64) \<le> sat_add (div_ceil elapsed period) 2" and "period \<noteq> 0"
  shows "unat c \<le> periods_plus_2 elapsed period"
proof -
  have "unat (ucast c :: u64) = unat c"
    by (simp add: unsigned_ucast_eq take_bit_nat_eq_self_iff order_less_le_trans [OF unsigned_less])
  moreover have "unat (sat_add (div_ceil elapsed period) 2) \<le> unat (div_ceil elapsed period) + 2"
    by (simp add: unat_sat_add)
  ultimately show ?thesis
    using assms by (simp add: word_le_nat_alt periods_plus_2_def unat_div_ceil)
qed

text \<open>
  An accepted telemetry window tells the truth. Counters that wrap are no problem: the end counters
  are the start counters plus the deltas; no ownership was lost and both endpoints own the screen with
  nothing pending; no delta exceeds the refresh periods that fit into the window, rounded up, plus two;
  and while that bound is below \<open>2 ^ 31\<close> the owned refreshes are exactly the presented plus the repeated ones.
\<close>

theorem accepted_window_is_truthful:
  assumes "validate_window T start finish elapsed period = Inr d"
  shows "tc_owned T finish = tc_owned T start + td_owned d \<and>
    tc_presented T finish = tc_presented T start + td_presented d \<and>
    tc_repeated T finish = tc_repeated T start + td_repeated d \<and>
    tc_ownership_loss T finish = tc_ownership_loss T start \<and>
    tc_magik_ownership T start \<and> tc_magik_ownership T finish \<and>
    \<not> tc_pending T start \<and> \<not> tc_pending T finish \<and>
    unat (td_owned d) \<le> periods_plus_2 elapsed period \<and> unat (td_presented d) \<le> periods_plus_2 elapsed period \<and>
    unat (td_repeated d) \<le> periods_plus_2 elapsed period \<and>
    (periods_plus_2 elapsed period < 2 ^ 31 \<longrightarrow>
       unat (td_owned d) = unat (td_presented d) + unat (td_repeated d))"
proof -
  note w = accepted_window [OF assms]
  have bounds: "unat (td_owned d) \<le> periods_plus_2 elapsed period"
    "unat (td_presented d) \<le> periods_plus_2 elapsed period"
    "unat (td_repeated d) \<le> periods_plus_2 elapsed period"
    using unat_le_periods [OF w(15,14)] unat_le_periods [OF w(16,14)] unat_le_periods [OF w(17,14)] by blast+
  have "unat (td_owned d) = unat (td_presented d) + unat (td_repeated d)"
    if "periods_plus_2 elapsed period < 2 ^ 31"
  proof -
    have "unat (td_presented d) + unat (td_repeated d) < 2 ^ 32"
      using bounds that by simp
    then show ?thesis
      using w(6) by (simp add: unat_word_ariths)
  qed
  with bounds w show ?thesis
    by simp
qed

text \<open>
  Windows compose. Two adjacent accepted windows make one window that is refused only for
  plausibility (each window has its own slack of two refreshes); when it is accepted its deltas are
  the sums of the two.
\<close>

theorem telemetry_windows_compose:
  assumes "validate_window T a b e1 period = Inr d1" and "validate_window T b c e2 period = Inr d2"
    and "unat e1 + unat e2 < 2 ^ 64"
  shows "(\<exists>owned maximum. validate_window T a c (e1 + e2) period = Inl (Implausible owned maximum)) \<or>
    (\<exists>d. validate_window T a c (e1 + e2) period = Inr d \<and> td_owned d = td_owned d1 + td_owned d2 \<and>
       td_presented d = td_presented d1 + td_presented d2 \<and>
       td_repeated d = td_repeated d1 + td_repeated d2)"
proof -
  note w1 = accepted_window [OF assms(1)] and w2 = accepted_window [OF assms(2)]
  have "unat (e1 + e2) = unat e1 + unat e2"
    using assms(3) by (simp add: unat_word_ariths)
  moreover have "0 < unat e1"
    using w1(13) by (simp add: unat_gt_0)
  ultimately have "e1 + e2 \<noteq> 0"
    by (metis add_gr_0 unat_0 less_numeral_extra(3))
  then show ?thesis
    using w1 w2 by (auto simp: validate_window_def Let_def)
qed

text \<open>The check of the deltas never fails: both lifetime invariants already imply it.\<close>

lemma delta_invariant_unreachable: "validate_window T a b e period \<noteq> Inl DeltaInvariant"
  by (auto simp: validate_window_def Let_def tc_lifetime_valid_def)

section \<open>Witnesses\<close>

text \<open>The golden messages of \<open>generated.rs\<close>.\<close>

definition GOLDEN_CAPS_V5_PAYLOAD :: "u16 list" where
  "GOLDEN_CAPS_V5_PAYLOAD = [0x0005, 0x03ff, 0x0556, 0x0300, 0x0ab0]"

definition GOLDEN_CAPS_V5_CRC :: u16 where "GOLDEN_CAPS_V5_CRC = 0x1c42"

definition GOLDEN_SET_V5_PAYLOAD :: "u16 list" where
  "GOLDEN_SET_V5_PAYLOAD = [0x8014, 0x9000, 0x227e, 0x03c0, 0x021c, 0x0000, 0x03bf, 0x0000, 0x021b,
     0x0780, 0x002b]"

definition GOLDEN_SET_V5_CRC :: u16 where "GOLDEN_SET_V5_CRC = 0x1341"

definition GOLDEN_STATUS_V5_PAYLOAD :: "u16 list" where
  "GOLDEN_STATUS_V5_PAYLOAD = [0x002a, 0x002b, 0x000f, 0x0003, 0x0004, 0x9000, 0x227e, 0x03c0, 0x021c,
     0x0780, 0x0007, 0x0009, 0x0064, 0x0065, 0x0065]"

definition GOLDEN_STATUS_V5_CRC :: u16 where "GOLDEN_STATUS_V5_CRC = 0x1ca6"

lemmas golden_defs = GOLDEN_CAPS_V5_PAYLOAD_def GOLDEN_CAPS_V5_CRC_def GOLDEN_SET_V5_PAYLOAD_def
  GOLDEN_SET_V5_CRC_def GOLDEN_STATUS_V5_PAYLOAD_def GOLDEN_STATUS_V5_CRC_def

lemma golden_caps: "message_crc GET_FBUF_LATCH_CAPS V5 GOLDEN_CAPS_V5_PAYLOAD = GOLDEN_CAPS_V5_CRC"
  by code_simp

lemma golden_set: "message_crc SET_FBUF_LATCH V5 GOLDEN_SET_V5_PAYLOAD = GOLDEN_SET_V5_CRC"
  by code_simp

lemma golden_status: "message_crc GET_FBUF_LATCH V5 GOLDEN_STATUS_V5_PAYLOAD = GOLDEN_STATUS_V5_CRC"
  by code_simp

definition golden_reply :: "u16 list" where
  "golden_reply = GOLDEN_STATUS_V5_PAYLOAD @ [GOLDEN_STATUS_V5_CRC]"

lemma golden_reply_accepted: "map_option lst_width (case decode_status V5 golden_reply of Inr s \<Rightarrow> Some s | Inl _ \<Rightarrow> None) =
    Some 960"
  by code_simp

text \<open>The last eight bits of one word and the first eight of the next are wrong.\<close>

definition damaged_reply :: "u16 list" where
  "damaged_reply = golden_reply[5 := 0x90ff, 6 := 0xdd7e]"

lemma damaged_by_burst: "burst16 (difference golden_reply damaged_reply)"
  by code_simp

theorem damaged_reply_refused_witness: "\<exists>err. decode_status V5 damaged_reply = Inl err"
proof -
  obtain s where "decode_status V5 golden_reply = Inr s"
    using golden_reply_accepted by (auto split: sum.splits)
  moreover have "length damaged_reply = length golden_reply"
    by (simp add: damaged_reply_def)
  ultimately show ?thesis
    using damaged_reply_refused [OF _ damaged_by_burst, of _ V5 s] by blast
qed

definition evidence_record :: "u16 list" where
  "evidence_record = [24, 0xf502, 0x5b2d, 0x531a, 0x41de]"

lemma evidence_record_accepted:
  "map_option ev_cause (case decode_evidence evidence_record of Inr e \<Rightarrow> Some e | Inl _ \<Rightarrow> None) = Some 5"
  by code_simp

theorem damaged_evidence_refused_witness: "\<exists>err. decode_evidence (evidence_record[4 := 0x41df]) = Inl err"
proof -
  obtain e where accepted: "decode_evidence evidence_record = Inr e"
    using evidence_record_accepted by (auto split: sum.splits)
  have burst: "burst16 (difference evidence_record (evidence_record[4 := 0x41df]))"
    by code_simp
  show ?thesis
    by (rule damaged_evidence_refused [OF accepted _ burst]) simp
qed

theorem set_command_round_trip_witness:
  "payload_of_words (lsw_words (encode_set V5 (payload_of_words GOLDEN_SET_V5_PAYLOAD))) =
     payload_of_words GOLDEN_SET_V5_PAYLOAD \<and>
   lsw_words (encode_set V5 (payload_of_words GOLDEN_SET_V5_PAYLOAD)) = GOLDEN_SET_V5_PAYLOAD @ [GOLDEN_SET_V5_CRC]"
proof
  show "payload_of_words (lsw_words (encode_set V5 (payload_of_words GOLDEN_SET_V5_PAYLOAD))) =
      payload_of_words GOLDEN_SET_V5_PAYLOAD"
    using set_command_round_trip [where p = V5 and s = "payload_of_words GOLDEN_SET_V5_PAYLOAD"] by blast
  show "lsw_words (encode_set V5 (payload_of_words GOLDEN_SET_V5_PAYLOAD)) =
      GOLDEN_SET_V5_PAYLOAD @ [GOLDEN_SET_V5_CRC]"
    by code_simp
qed

theorem status_decoding_is_faithful_witness:
  "\<exists>s. decode_status V5 golden_reply = Inr s \<and> (s = s \<longleftrightarrow> masked golden_reply = masked golden_reply)"
proof -
  obtain s where "decode_status V5 golden_reply = Inr s"
    using golden_reply_accepted by (auto split: sum.splits)
  then show ?thesis
    using status_decoding_is_faithful by blast
qed

text \<open>A window in which the 32-bit counters wrap, and the one after it.\<close>

definition telemetry_at :: "u32 \<Rightarrow> u32 \<Rightarrow> u32 \<Rightarrow> presentation_telemetry" where
  "telemetry_at owned presented repeated = \<lparr>ptl_owned_vblank_count = owned,
     ptl_presented_vblank_count = presented, ptl_repeated_vblank_count = repeated,
     ptl_ownership_loss_count = 7, ptl_active_sequence = 42, ptl_flags = 8, ptl_crc = 0\<rparr>"

lemmas window_example_defs = validate_window_def presentation_counters_def telemetry_at_def tc_lifetime_valid_def
  telemetry_magik_ownership_def telemetry_pending_def STATUS_MAGIK_OWNERSHIP_def STATUS_PENDING_def
  div_ceil_def sat_add_def Let_def

lemma wrapping_window:
  "validate_window presentation_counters (telemetry_at (- 2) (- 2) 0) (telemetry_at 1 0 1) 50001 16667 =
     Inr \<lparr>td_elapsed_us = 50001, td_owned = 3, td_presented = 2, td_repeated = 1, td_ownership_loss = 0,
       td_maximum_plausible = 5\<rparr>"
  by (simp add: window_example_defs)

lemma next_window:
  "validate_window presentation_counters (telemetry_at 1 0 1) (telemetry_at 3 2 1) 33334 16667 =
     Inr \<lparr>td_elapsed_us = 33334, td_owned = 2, td_presented = 2, td_repeated = 0, td_ownership_loss = 0,
       td_maximum_plausible = 4\<rparr>"
  by (simp add: window_example_defs)

theorem accepted_window_is_truthful_witness:
  "tc_owned presentation_counters (telemetry_at 1 0 1) = tc_owned presentation_counters (telemetry_at (- 2) (- 2) 0) + 3 \<and>
   unat (3 :: u32) \<le> periods_plus_2 50001 16667"
  using accepted_window_is_truthful [OF wrapping_window] by simp

theorem telemetry_windows_compose_witness:
  "(\<exists>owned maximum. validate_window presentation_counters (telemetry_at (- 2) (- 2) 0) (telemetry_at 3 2 1)
      83335 16667 = Inl (Implausible owned maximum)) \<or>
   (\<exists>d. validate_window presentation_counters (telemetry_at (- 2) (- 2) 0) (telemetry_at 3 2 1) 83335 16667 = Inr d \<and>
      td_owned d = 5)"
  using telemetry_windows_compose [OF wrapping_window next_window] by auto

end
