(* ===== verification/Input_Event.thy ===== *)
theory Input_Event
  imports Prelude
begin

text \<open>
  \<open>crates/magik-core/src/input_event.rs\<close>: ordered input events. The data types, the held-state
  array and its reduction by one event, the validation of a batch against its watermarks, and the
  reducer that merges the presses of several physical sources into one logical press per action.
  The lemmas show what a validated batch guarantees, that validated batches compose, and that
  whatever the reducer emits is a stream the held state accepts, with every release carrying the
  identity of the press it ends.
\<close>

section \<open>Data\<close>

datatype logical_action =
  ActionUp | ActionDown | ActionLeft | ActionRight | ActionActivate | ActionBack | ActionHome
| ActionX | ActionY | ActionL | ActionR | ActionSelect | ActionStart

fun action_index :: "logical_action \<Rightarrow> nat" where
  "action_index ActionUp = 0"
| "action_index ActionDown = 1"
| "action_index ActionLeft = 2"
| "action_index ActionRight = 3"
| "action_index ActionActivate = 4"
| "action_index ActionBack = 5"
| "action_index ActionHome = 6"
| "action_index ActionX = 7"
| "action_index ActionY = 8"
| "action_index ActionL = 9"
| "action_index ActionR = 10"
| "action_index ActionSelect = 11"
| "action_index ActionStart = 12"

definition all_actions :: "logical_action list" where
  "all_actions = [ActionUp, ActionDown, ActionLeft, ActionRight, ActionActivate, ActionBack,
     ActionHome, ActionX, ActionY, ActionL, ActionR, ActionSelect, ActionStart]"

lemma UNIV_action: "UNIV = set all_actions"
  by (auto simp: all_actions_def intro: logical_action.exhaust)

lemma in_all_actions [simp]: "a \<in> set all_actions"
  by (cases a) (simp_all add: all_actions_def)

lemma distinct_all_actions [simp]: "distinct all_actions"
  by (simp add: all_actions_def)

lemma action_index_inject: "action_index a = action_index b \<longleftrightarrow> a = b"
  by (cases a; cases b) simp_all

lemma map_action_index: "map action_index all_actions = [0 ..< length all_actions]"
  by (simp add: all_actions_def upt_rec)

instantiation logical_action :: linorder
begin

definition less_eq_logical_action :: "logical_action \<Rightarrow> logical_action \<Rightarrow> bool" where
  "less_eq_logical_action a b = (action_index a \<le> action_index b)"

definition less_logical_action :: "logical_action \<Rightarrow> logical_action \<Rightarrow> bool" where
  "less_logical_action a b = (action_index a < action_index b)"

instance
  by standard (auto simp: less_eq_logical_action_def less_logical_action_def action_index_inject)

end

instantiation logical_action :: enum
begin

definition enum_logical_action :: "logical_action list" where
  "enum_logical_action = all_actions"

definition enum_all_logical_action :: "(logical_action \<Rightarrow> bool) \<Rightarrow> bool" where
  "enum_all_logical_action P = list_all P all_actions"

definition enum_ex_logical_action :: "(logical_action \<Rightarrow> bool) \<Rightarrow> bool" where
  "enum_ex_logical_action P = list_ex P all_actions"

instance
  by standard
    (auto simp: enum_logical_action_def enum_all_logical_action_def enum_ex_logical_action_def
      UNIV_action list_all_iff list_ex_iff)

end

datatype input_phase = Pressed | Released

type_synonym press_id = u64
type_synonym source_epoch = u64

datatype input_source_kind = MainProxy | RawDevice | SetupKeyboard | UiSource | Automation | Preview

record input_source_id =
  src_kind :: input_source_kind
  src_instance :: u64

record device_instance_id =
  plug_id :: string
  dev_generation :: u64

record input_event =
  ie_source :: input_source_id
  ie_source_epoch :: source_epoch
  ie_sequence :: u64
  ie_press_id :: press_id
  ie_captured_at_us :: u64
  ie_action :: logical_action
  ie_phase :: input_phase

record pending_input_event =
  pe_source :: input_source_id
  pe_source_epoch :: source_epoch
  pe_press_id :: press_id
  pe_captured_at_us :: u64
  pe_action :: logical_action
  pe_phase :: input_phase

definition with_sequence :: "pending_input_event \<Rightarrow> u64 \<Rightarrow> input_event" where
  "with_sequence p n = \<lparr>ie_source = pe_source p, ie_source_epoch = pe_source_epoch p,
     ie_sequence = n, ie_press_id = pe_press_id p, ie_captured_at_us = pe_captured_at_us p,
     ie_action = pe_action p, ie_phase = pe_phase p\<rparr>"

datatype input_reduction_error =
  DuplicatePress input_source_id logical_action
| UnmatchedRelease input_source_id logical_action
| SequenceGap u64 u64
| InvalidWatermark
| HeldStateMismatch

section \<open>Held state\<close>

text \<open>
  The Rust array has one cell per action, indexed by the action's discriminant; \<open>action_index\<close> is
  a bijection from the actions to the cells, so the array is a function of the action.
\<close>

record held_state =
  actions :: "logical_action \<Rightarrow> bool"

definition held_default :: held_state where
  "held_default = \<lparr>actions = (\<lambda>_. False)\<rparr>"

definition is_held :: "held_state \<Rightarrow> logical_action \<Rightarrow> bool" where
  "is_held h a = actions h a"

definition set_held :: "held_state \<Rightarrow> logical_action \<Rightarrow> bool \<Rightarrow> held_state" where
  "set_held h a b = h\<lparr>actions := (actions h)(a := b)\<rparr>"

definition apply_event :: "held_state \<Rightarrow> input_event \<Rightarrow> input_reduction_error + held_state" where
  "apply_event h e =
     (case ie_phase e of
        Pressed \<Rightarrow>
          if is_held h (ie_action e) then Inl (DuplicatePress (ie_source e) (ie_action e))
          else Inr (set_held h (ie_action e) True)
      | Released \<Rightarrow>
          if \<not> is_held h (ie_action e) then Inl (UnmatchedRelease (ie_source e) (ie_action e))
          else Inr (set_held h (ie_action e) False))"

section \<open>Batches\<close>

datatype input_protocol_health = ProxyV2 | Unhealthy

record input_health =
  protocol :: input_protocol_health
  queue_depth :: nat
  queue_high_water :: nat
  overflow_count :: u64
  desync_count :: u64
  proxy_generation :: u64

definition input_health_default :: input_health where
  "input_health_default = \<lparr>protocol = Unhealthy, queue_depth = 0, queue_high_water = 0,
     overflow_count = 0, desync_count = 0, proxy_generation = 0\<rparr>"

record input_topology =
  devices :: "device_instance_id list"
  revision :: u64

record input_batch =
  ib_source_epoch :: source_epoch
  first_sequence :: "u64 option"
  last_sequence :: "u64 option"
  events :: "input_event list"
  held_after_last :: held_state
  topology :: input_topology
  health :: input_health

fun first_of :: "input_event list \<Rightarrow> u64 option" where
  "first_of [] = None"
| "first_of (e # es) = Some (ie_sequence e)"

fun last_of :: "input_event list \<Rightarrow> u64 option" where
  "last_of [] = None"
| "last_of [e] = Some (ie_sequence e)"
| "last_of (e # es) = last_of es"

fun validate_events ::
  "u64 option \<Rightarrow> nat \<Rightarrow> held_state \<Rightarrow> input_event list \<Rightarrow> input_reduction_error + held_state" where
  "validate_events first n h [] = Inr h"
| "validate_events first n h (e # es) =
     (let expected = sat_add (case first of None \<Rightarrow> 0 | Some s \<Rightarrow> s) (of_nat n)
      in if ie_sequence e \<noteq> expected then Inl (SequenceGap expected (ie_sequence e))
         else case apply_event h e of
                Inl err \<Rightarrow> Inl err
              | Inr h' \<Rightarrow> validate_events first (Suc n) h' es)"

definition validate_from :: "input_batch \<Rightarrow> held_state \<Rightarrow> input_reduction_error + held_state" where
  "validate_from b h =
     (if first_of (events b) \<noteq> first_sequence b \<or> last_of (events b) \<noteq> last_sequence b
      then Inl InvalidWatermark
      else case validate_events (first_sequence b) 0 h (events b) of
             Inl err \<Rightarrow> Inl err
           | Inr h' \<Rightarrow> if h' \<noteq> held_after_last b then Inl HeldStateMismatch else Inr h')"

section \<open>The logical event reducer\<close>

record action_press =
  ap_press_id :: press_id
  ap_source :: input_source_id
  ap_source_epoch :: source_epoch

record reducer =
  active_sources :: "(input_source_id \<times> logical_action, source_epoch) fmap"
  active_actions :: "(logical_action, action_press) fmap"
  next_press_id :: u64

definition reducer_default :: reducer where
  "reducer_default = \<lparr>active_sources = fmempty, active_actions = fmempty, next_press_id = 0\<rparr>"

record raw_transition =
  rt_source :: input_source_id
  rt_epoch :: source_epoch
  rt_action :: logical_action
  rt_phase :: input_phase
  rt_captured_at_us :: u64

definition transition_pressed ::
  "reducer \<Rightarrow> raw_transition \<Rightarrow> (input_reduction_error + pending_input_event option) \<times> reducer" where
  "transition_pressed r t =
     (let key = (rt_source t, rt_action t) in
      if hm_contains key (active_sources r)
      then (Inl (DuplicatePress (rt_source t) (rt_action t)), r)
      else let r1 = r\<lparr>active_sources := fmupd key (rt_epoch t) (active_sources r)\<rparr> in
        if hm_contains (rt_action t) (active_actions r1) then (Inr None, r1)
        else let pid = next_counter (next_press_id r1);
                 press = \<lparr>ap_press_id = pid, ap_source = rt_source t, ap_source_epoch = rt_epoch t\<rparr>
             in (Inr (Some \<lparr>pe_source = rt_source t, pe_source_epoch = rt_epoch t,
                   pe_press_id = pid, pe_captured_at_us = rt_captured_at_us t,
                   pe_action = rt_action t, pe_phase = Pressed\<rparr>),
                 r1\<lparr>next_press_id := pid, active_actions := fmupd (rt_action t) press (active_actions r1)\<rparr>))"

definition transition_released ::
  "reducer \<Rightarrow> raw_transition \<Rightarrow> (input_reduction_error + pending_input_event option) \<times> reducer" where
  "transition_released r t =
     (let key = (rt_source t, rt_action t);
          unmatched = Inl (UnmatchedRelease (rt_source t) (rt_action t)) in
      case fmlookup (active_sources r) key of
        None \<Rightarrow> (unmatched, r)
      | Some epoch \<Rightarrow>
          let r1 = r\<lparr>active_sources := fmdrop key (active_sources r)\<rparr> in
          if epoch \<noteq> rt_epoch t then (unmatched, r1)
          else if hm_any_key (\<lambda>(_, a). a = rt_action t) (active_sources r1) then (Inr None, r1)
          else case fmlookup (active_actions r1) (rt_action t) of
                 None \<Rightarrow> (unmatched, r1)
               | Some press \<Rightarrow>
                   (Inr (Some \<lparr>pe_source = ap_source press, pe_source_epoch = ap_source_epoch press,
                      pe_press_id = ap_press_id press, pe_captured_at_us = rt_captured_at_us t,
                      pe_action = rt_action t, pe_phase = Released\<rparr>),
                    r1\<lparr>active_actions := fmdrop (rt_action t) (active_actions r1)\<rparr>))"

definition transition ::
  "reducer \<Rightarrow> raw_transition \<Rightarrow> (input_reduction_error + pending_input_event option) \<times> reducer" where
  "transition r t =
     (case rt_phase t of Pressed \<Rightarrow> transition_pressed r t | Released \<Rightarrow> transition_released r t)"

text \<open>A run of the reducer and the pending events it emits; a refused transition emits none.\<close>

definition emitted :: "(input_reduction_error + pending_input_event option) \<Rightarrow> pending_input_event list" where
  "emitted res = (case res of Inr (Some p) \<Rightarrow> [p] | _ \<Rightarrow> [])"

fun reducer_run :: "reducer \<Rightarrow> raw_transition list \<Rightarrow> pending_input_event list \<times> reducer" where
  "reducer_run r [] = ([], r)"
| "reducer_run r (t # ts) =
     (let (res, r1) = transition r t; (ps, r2) = reducer_run r1 ts in (emitted res @ ps, r2))"

section \<open>Held state and batches: lemmas\<close>

fun apply_events :: "held_state \<Rightarrow> input_event list \<Rightarrow> input_reduction_error + held_state" where
  "apply_events h [] = Inr h"
| "apply_events h (e # es) =
     (case apply_event h e of Inl err \<Rightarrow> Inl err | Inr h' \<Rightarrow> apply_events h' es)"

fun numbered_from :: "u64 \<Rightarrow> nat \<Rightarrow> input_event list \<Rightarrow> bool" where
  "numbered_from s n [] = True"
| "numbered_from s n (e # es) = (ie_sequence e = sat_add s (of_nat n) \<and> numbered_from s (Suc n) es)"

lemma is_held_set_held [simp]: "is_held (set_held h a b) a' = (if a' = a then b else is_held h a')"
  by (simp add: is_held_def set_held_def)

lemma is_held_default [simp]: "\<not> is_held held_default a"
  by (simp add: is_held_def held_default_def)

lemma held_state_eqI: "(\<And>a. is_held h a = is_held h' a) \<Longrightarrow> h = h'"
  by (cases h; cases h') (auto simp: is_held_def fun_eq_iff)

lemma apply_event_eq:
  "apply_event h e = Inr h' \<longleftrightarrow>
     (is_held h (ie_action e) \<longleftrightarrow> ie_phase e = Released) \<and>
     h' = set_held h (ie_action e) (ie_phase e = Pressed)"
  by (cases "ie_phase e") (auto simp: apply_event_def split: if_splits)

lemma apply_events_append:
  "apply_events h (es @ fs) =
     (case apply_events h es of Inl err \<Rightarrow> Inl err | Inr h' \<Rightarrow> apply_events h' fs)"
  by (induction es arbitrary: h) (auto split: sum.splits)

lemma validate_events_eq:
  "validate_events (Some s) n h es = Inr h' \<longleftrightarrow> numbered_from s n es \<and> apply_events h es = Inr h'"
  by (induction es arbitrary: n h) (auto simp: Let_def split: sum.splits)

lemma numbered_from_append:
  "numbered_from s n (es @ fs) \<longleftrightarrow> numbered_from s n es \<and> numbered_from s (n + length es) fs"
  by (induction es arbitrary: n) auto

lemma numbered_from_nth:
  "numbered_from s n es \<longleftrightarrow> (\<forall>i < length es. ie_sequence (es ! i) = sat_add s (of_nat (n + i)))"
proof (induction es arbitrary: n)
  case Nil
  then show ?case by simp
next
  case (Cons e es)
  have "(\<forall>i < length (e # es). ie_sequence ((e # es) ! i) = sat_add s (of_nat (n + i))) \<longleftrightarrow>
      ie_sequence e = sat_add s (of_nat n) \<and>
      (\<forall>i < length es. ie_sequence (es ! i) = sat_add s (of_nat (n + Suc i)))"
    by (simp add: All_less_Suc2 del: of_nat_add of_nat_Suc)
  with Cons.IH [of "Suc n"] show ?case
    by (simp del: of_nat_add of_nat_Suc)
qed

lemma numbered_from_shift:
  assumes "unat s + m + n + length es \<le> 2 ^ 64"
  shows "numbered_from (sat_add s (of_nat m)) n es \<longleftrightarrow> numbered_from s (m + n) es"
proof -
  have "sat_add (sat_add s (of_nat m)) (of_nat (n + i)) = sat_add s (of_nat (m + n + i))"
    if "i < length es" for i
  proof -
    have 1: "unat (sat_add s (of_nat m)) = unat s + m"
      using assms that by (intro unat_sat_add_of_nat) simp
    have 2: "unat (sat_add (sat_add s (of_nat m)) (of_nat (n + i))) = unat s + m + (n + i)"
      using assms that 1 by (subst unat_sat_add_of_nat) simp_all
    have 3: "unat (sat_add s (of_nat (m + n + i))) = unat s + (m + n + i)"
      using assms that by (intro unat_sat_add_of_nat) simp
    show ?thesis
      using 2 3 by (simp add: word_unat_eq_iff)
  qed
  then show ?thesis
    by (simp add: numbered_from_nth add.assoc)
qed

lemma last_of_append: "fs \<noteq> [] \<Longrightarrow> last_of (es @ fs) = last_of fs"
proof (induction es)
  case (Cons e es)
  then show ?case by (cases "es @ fs") auto
qed simp

lemma last_of_last: "es \<noteq> [] \<Longrightarrow> last_of es = Some (ie_sequence (last es))"
  by (induction es rule: last_of.induct) auto

lemma first_of_append: "es \<noteq> [] \<Longrightarrow> first_of (es @ fs) = first_of es"
  by (cases es) auto

lemma first_of_eq_None [simp]: "first_of es = None \<longleftrightarrow> es = []"
  by (cases es) auto

lemma last_of_eq_None [simp]: "last_of es = None \<longleftrightarrow> es = []"
  by (induction es rule: last_of.induct) auto

text \<open>Validation, in one equation: watermarks, numbering, replay of the held state.\<close>

lemma validate_from_eq:
  "validate_from b h = Inr h' \<longleftrightarrow>
     first_sequence b = first_of (events b) \<and> last_sequence b = last_of (events b) \<and>
     h' = held_after_last b \<and> apply_events h (events b) = Inr h' \<and>
     (\<forall>s. first_of (events b) = Some s \<longrightarrow> numbered_from s 0 (events b))"
proof (cases "events b")
  case Nil
  then show ?thesis
    by (auto simp: validate_from_def)
next
  case (Cons e es)
  let ?v = "validate_events (Some (ie_sequence e)) 0 h (e # es)"
  have V: "?v = Inr k \<longleftrightarrow>
      numbered_from (ie_sequence e) 0 (e # es) \<and> apply_events h (e # es) = Inr k" for k
    by (simp only: validate_events_eq)
  have "validate_from b h = Inr h' \<longleftrightarrow>
      first_sequence b = Some (ie_sequence e) \<and> last_sequence b = last_of (e # es) \<and>
      h' = held_after_last b \<and> ?v = Inr h'"
    unfolding validate_from_def Cons
    by (cases ?v) (auto simp del: validate_events.simps last_of.simps split: if_splits)
  also have "\<dots> \<longleftrightarrow>
      first_sequence b = first_of (events b) \<and> last_sequence b = last_of (events b) \<and>
      h' = held_after_last b \<and> apply_events h (events b) = Inr h' \<and>
      (\<forall>s. first_of (events b) = Some s \<longrightarrow> numbered_from s 0 (events b))"
    unfolding V Cons by auto
  finally show ?thesis .
qed

definition join_batches :: "input_batch \<Rightarrow> input_batch \<Rightarrow> input_batch" where
  "join_batches b c = c\<lparr>
     first_sequence := (case first_sequence b of None \<Rightarrow> first_sequence c | Some s \<Rightarrow> Some s),
     last_sequence := (case last_sequence c of None \<Rightarrow> last_sequence b | Some s \<Rightarrow> Some s),
     events := events b @ events c\<rparr>"

text \<open>
  Batch validation composes. If one batch validates from the held state \<open>h\<close> and the next batch
  validates from where the first one ended, and the second starts one sequence number after the
  first ended (no counter saturated), then the two batches joined validate from \<open>h\<close> as one batch and
  end in the same held state: draining twice or once makes no difference to a consumer.
\<close>

theorem join_batches_validates:
  assumes "validate_from b h = Inr h1" and "validate_from c h1 = Inr h2"
    and "first_sequence b = Some s" and "first_sequence c = Some (sat_add s (of_nat (length (events b))))"
    and "unat s + length (events b) + length (events c) < 2 ^ 64"
  shows "validate_from (join_batches b c) h = Inr h2"
proof -
  let ?n = "length (events b)"
  note b = assms(1) [unfolded validate_from_eq] and c = assms(2) [unfolded validate_from_eq]
  have ne: "events b \<noteq> []" "events c \<noteq> []"
    using assms(3,4) b c by auto
  have "numbered_from s 0 (events b)"
    using b assms(3) by auto
  moreover have "numbered_from s ?n (events c)"
    using c assms(4,5) numbered_from_shift [of s ?n 0 "events c"] by auto
  ultimately have "numbered_from s 0 (events b @ events c)"
    by (simp add: numbered_from_append)
  moreover have "apply_events h (events b @ events c) = Inr h2"
    using b c by (simp add: apply_events_append)
  moreover have "last_sequence (join_batches b c) = last_of (events b @ events c)"
    using c ne by (cases "last_of (events c)") (auto simp: join_batches_def last_of_append)
  ultimately show ?thesis
    using b c ne assms(3)
    by (auto simp: validate_from_eq join_batches_def first_of_append split: option.splits)
qed

text \<open>
  What an accepted batch guarantees: its events are numbered consecutively from its first
  watermark to its last, no action is pressed while held or released while free anywhere in it, and
  the held state it reports is exactly what replaying its events gives.
\<close>

theorem validated_batch_is_a_replay:
  assumes "validate_from b h = Inr h'" and "first_sequence b = Some s"
  shows "last_sequence b = Some (sat_add s (of_nat (length (events b) - 1))) \<and>
    (\<forall>i < length (events b). ie_sequence (events b ! i) = sat_add s (of_nat i)) \<and>
    held_after_last b = h' \<and> apply_events h (events b) = Inr (held_after_last b)"
proof -
  note b = assms(1) [unfolded validate_from_eq]
  have num: "numbered_from s 0 (events b)"
    using b assms(2) by auto
  have ne: "events b \<noteq> []"
    using b assms(2) by auto
  then have "ie_sequence (last (events b)) = sat_add s (of_nat (length (events b) - 1))"
    using num by (simp add: numbered_from_nth last_conv_nth)
  then have "last_sequence b = Some (sat_add s (of_nat (length (events b) - 1)))"
    using b ne by (simp add: last_of_last)
  moreover have "\<forall>i < length (events b). ie_sequence (events b ! i) = sat_add s (of_nat i)"
    using num by (simp add: numbered_from_nth)
  ultimately show ?thesis
    using b by auto
qed

section \<open>The reducer: lemmas\<close>

definition held_of_reducer :: "reducer \<Rightarrow> held_state" where
  "held_of_reducer r = \<lparr>actions = (\<lambda>a. hm_contains a (active_actions r))\<rparr>"

lemma is_held_of_reducer [simp]: "is_held (held_of_reducer r) a = hm_contains a (active_actions r)"
  by (simp add: is_held_def held_of_reducer_def)

lemma held_of_reducer_default [simp]: "held_of_reducer reducer_default = held_default"
  by (rule held_state_eqI) (simp add: reducer_default_def)

lemmas transition_defs =
  transition_def transition_pressed_def transition_released_def Let_def

lemmas transition_splits =
  input_phase.splits if_splits option.splits prod.splits

text \<open>The four ways a transition can go, as the facts about each that later proofs use.\<close>

lemma transition_cases [consumes 1, case_names silent press release]:
  assumes "transition r t = (res, r')"
  obtains
    "emitted res = []" "active_actions r' = active_actions r" "next_press_id r' = next_press_id r"
  | p where "emitted res = [p]" "rt_phase t = Pressed" "pe_phase p = Pressed"
      "\<not> hm_contains (rt_action t) (active_actions r)"
      "pe_action p = rt_action t" "pe_press_id p = next_counter (next_press_id r)"
      "next_press_id r' = pe_press_id p"
      "active_actions r' = fmupd (rt_action t) \<lparr>ap_press_id = pe_press_id p, ap_source = pe_source p,
         ap_source_epoch = pe_source_epoch p\<rparr> (active_actions r)"
  | p where "emitted res = [p]" "rt_phase t = Released" "pe_phase p = Released"
      "pe_action p = rt_action t"
      "fmlookup (active_actions r) (rt_action t) = Some \<lparr>ap_press_id = pe_press_id p,
         ap_source = pe_source p, ap_source_epoch = pe_source_epoch p\<rparr>"
      "active_actions r' = fmdrop (rt_action t) (active_actions r)" "next_press_id r' = next_press_id r"
proof (cases "rt_phase t")
  case Pressed
  show ?thesis
  proof (cases "hm_contains (rt_source t, rt_action t) (active_sources r) \<or>
      hm_contains (rt_action t) (active_actions r)")
    case True
    with assms Pressed show ?thesis
      by (intro that(1)) (auto simp: transition_defs emitted_def split: if_splits)
  next
    case False
    with assms Pressed show ?thesis
      by (intro that(2)) (auto simp: transition_defs emitted_def)
  qed
next
  case Released
  define r1 where "r1 = r\<lparr>active_sources := fmdrop (rt_source t, rt_action t) (active_sources r)\<rparr>"
  show ?thesis
  proof (cases "fmlookup (active_sources r) (rt_source t, rt_action t) = Some (rt_epoch t) \<and>
      \<not> hm_any_key (\<lambda>(_, a). a = rt_action t) (active_sources r1) \<and>
      fmlookup (active_actions r) (rt_action t) \<noteq> None")
    case True
    then obtain press where "fmlookup (active_actions r) (rt_action t) = Some press"
      by auto
    with assms Released True show ?thesis
      by (intro that(3)) (auto simp: transition_defs emitted_def r1_def)
  next
    case False
    with assms Released show ?thesis
      by (intro that(1)) (auto simp: transition_defs emitted_def r1_def split: option.splits if_splits)
  qed
qed

lemma with_sequence_simps [simp]:
  "ie_action (with_sequence p n) = pe_action p" "ie_phase (with_sequence p n) = pe_phase p"
  "ie_sequence (with_sequence p n) = n" "ie_press_id (with_sequence p n) = pe_press_id p"
  "ie_source (with_sequence p n) = pe_source p"
  "ie_source_epoch (with_sequence p n) = pe_source_epoch p"
  by (simp_all add: with_sequence_def)

lemma transition_apply:
  assumes "transition r t = (res, r')"
  shows "(emitted res = [] \<and> held_of_reducer r' = held_of_reducer r) \<or>
    (\<exists>p. emitted res = [p] \<and>
      (\<forall>n. apply_event (held_of_reducer r) (with_sequence p n) = Inr (held_of_reducer r')))"
  using assms
proof (cases rule: transition_cases)
  case silent
  then show ?thesis by (simp add: held_of_reducer_def)
next
  case (press p)
  then show ?thesis
    by (auto simp: apply_event_eq intro!: held_state_eqI split: if_splits)
next
  case (release p)
  then show ?thesis
    by (auto simp: apply_event_eq hm_contains_def intro!: held_state_eqI)
qed

fun number_events :: "pending_input_event list \<Rightarrow> u64 list \<Rightarrow> input_event list" where
  "number_events (p # ps) (n # ns) = with_sequence p n # number_events ps ns"
| "number_events _ _ = []"

text \<open>
  Whatever raw transitions the sources make - duplicated presses, unmatched releases and stale
  epochs included - the events the reducer emits, under any numbering, replay on the held state of
  the reducer without a duplicate press or an unmatched release, and end in its final held state.
\<close>

theorem reducer_stream_replays:
  assumes "reducer_run r ts = (ps, r')" and "length ns = length ps"
  shows "apply_events (held_of_reducer r) (number_events ps ns) = Inr (held_of_reducer r')"
  using assms
proof (induction ts arbitrary: r ps ns)
  case Nil
  then show ?case by simp
next
  case (Cons t ts)
  obtain res r1 where t: "transition r t = (res, r1)"
    by (cases "transition r t")
  obtain qs where run: "reducer_run r1 ts = (qs, r')" and ps: "ps = emitted res @ qs"
    using Cons.prems(1) t by (auto split: prod.splits)
  from transition_apply [OF t] show ?case
  proof (elim disjE conjE exE)
    assume "emitted res = []" and "held_of_reducer r1 = held_of_reducer r"
    with Cons.IH [OF run] Cons.prems(2) ps show ?thesis by simp
  next
    fix p
    assume p: "emitted res = [p]"
      and app: "\<forall>n. apply_event (held_of_reducer r) (with_sequence p n) = Inr (held_of_reducer r1)"
    obtain n ns' where "ns = n # ns'" and "length ns' = length qs"
      using Cons.prems(2) ps p by (cases ns) auto
    with Cons.IH [OF run] app ps p show ?thesis by simp
  qed
qed

text \<open>
  Pairing. Per action the emitted events alternate, and a release repeats the press id, the source
  and the epoch of the press before it.
\<close>

definition press_identity :: "pending_input_event \<Rightarrow> action_press" where
  "press_identity p = \<lparr>ap_press_id = pe_press_id p, ap_source = pe_source p,
     ap_source_epoch = pe_source_epoch p\<rparr>"

fun paired :: "action_press option \<Rightarrow> pending_input_event list \<Rightarrow> bool" where
  "paired cur [] = True"
| "paired None (p # ps) = (pe_phase p = Pressed \<and> paired (Some (press_identity p)) ps)"
| "paired (Some press) (p # ps) =
     (pe_phase p = Released \<and> press_identity p = press \<and> paired None ps)"

text \<open>
  For every action, the events the reducer emits for it are press, release, press, release, ...
  starting from whether the action is active, and each release carries exactly the press id, source
  and source epoch of the press it ends, even when another source's release ended it.
\<close>

theorem reducer_pairs_releases:
  "paired (fmlookup (active_actions r) a)
     (filter (\<lambda>p. pe_action p = a) (fst (reducer_run r ts)))"
proof (induction ts arbitrary: r)
  case Nil
  then show ?case by simp
next
  case (Cons t ts)
  obtain res r1 where t: "transition r t = (res, r1)"
    by (cases "transition r t")
  note IH = Cons.IH [of r1]
  from t show ?case
  proof (cases rule: transition_cases)
    case silent
    with t IH show ?thesis by (simp split: prod.splits)
  next
    case (press p)
    have free: "fmlookup (active_actions r) (rt_action t) = None"
      using press by (auto simp: hm_contains_def)
    show ?thesis
      using t IH press free by (auto simp: press_identity_def split: prod.splits if_splits)
  next
    case (release p)
    with t IH show ?thesis
      by (auto simp: press_identity_def split: prod.splits if_splits)
  qed
qed

text \<open>
  Until the press counter saturates, the presses the reducer emits have strictly increasing
  press ids, all larger than the counter it started from: no two presses share an id.
\<close>

theorem reducer_press_ids_increase:
  assumes "unat (next_press_id r) + length ts < 2 ^ 64 - 1"
  shows "sorted_wrt (<) (next_press_id r #
     map pe_press_id (filter (\<lambda>p. pe_phase p = Pressed) (fst (reducer_run r ts))))"
  using assms
proof (induction ts arbitrary: r)
  case Nil
  then show ?case by simp
next
  case (Cons t ts)
  obtain res r1 where t: "transition r t = (res, r1)"
    by (cases "transition r t")
  have "next_press_id r \<noteq> - 1"
    using Cons.prems by (auto simp: unat_minus_1_word)
  note less = next_counter_less [OF this]
  have succ: "unat (next_counter (next_press_id r)) = unat (next_press_id r) + 1"
    using Cons.prems by (simp add: unat_next_counter)
  from t show ?case
  proof (cases rule: transition_cases)
    case silent
    with t Cons.IH [of r1] Cons.prems show ?thesis by (simp split: prod.splits)
  next
    case (press p)
    with Cons.IH [of r1] Cons.prems succ have "sorted_wrt (<) (pe_press_id p #
        map pe_press_id (filter (\<lambda>p. pe_phase p = Pressed) (fst (reducer_run r1 ts))))"
      by simp
    with t press less show ?thesis
      by (fastforce split: prod.splits intro: less_trans)
  next
    case (release p)
    with t Cons.IH [of r1] Cons.prems show ?thesis by (auto split: prod.splits)
  qed
qed

section \<open>The reducer refines the set of held buttons\<close>

text \<open>
  The contract of the reducer: the physical state is the set of \<open>(source, action)\<close> pairs held; the
  logical action is held exactly while some source holds it, and an event is emitted exactly when
  that changes.
\<close>

definition held_pairs :: "reducer \<Rightarrow> (input_source_id \<times> logical_action) set" where
  "held_pairs r = {key. hm_contains key (active_sources r)}"

fun pairs_step ::
  "(input_source_id \<times> logical_action) set \<Rightarrow> raw_transition \<Rightarrow> (input_source_id \<times> logical_action) set" where
  "pairs_step S t =
     (case rt_phase t of
        Pressed \<Rightarrow> insert (rt_source t, rt_action t) S
      | Released \<Rightarrow> S - {(rt_source t, rt_action t)})"

definition reducer_synced :: "reducer \<Rightarrow> bool" where
  "reducer_synced r \<longleftrightarrow> (\<forall>a. hm_contains a (active_actions r) \<longleftrightarrow> (\<exists>src. (src, a) \<in> held_pairs r))"

definition current_epoch :: "reducer \<Rightarrow> raw_transition \<Rightarrow> bool" where
  "current_epoch r t \<longleftrightarrow>
     (case fmlookup (active_sources r) (rt_source t, rt_action t) of
        None \<Rightarrow> True | Some e \<Rightarrow> e = rt_epoch t)"

definition reducer_step :: "reducer \<Rightarrow> raw_transition \<Rightarrow> reducer" where
  "reducer_step r t = snd (transition r t)"

lemma held_pairs_step: "held_pairs (reducer_step r t) = pairs_step (held_pairs r) t"
  by (cases "rt_phase t")
    (auto simp: held_pairs_def reducer_step_def transition_defs hm_contains_def split: if_splits option.splits)

lemma reducer_synced_default: "reducer_synced reducer_default"
  by (simp add: reducer_synced_def reducer_default_def held_pairs_def)

lemma any_key_action:
  "hm_any_key (\<lambda>(_, a'). a' = a) m \<longleftrightarrow> (\<exists>src. hm_contains (src, a) m)"
  by (auto simp: hm_any_key_iff hm_contains_def)

lemma synced_step_pressed:
  assumes "reducer_synced r" and "rt_phase t = Pressed"
  shows "reducer_synced (reducer_step r t)"
  using assms
  by (auto simp: reducer_synced_def reducer_step_def transition_defs held_pairs_def)

lemma synced_step_released:
  assumes "reducer_synced r" and "current_epoch r t" and "rt_phase t = Released"
  shows "reducer_synced (reducer_step r t)"
proof (cases "fmlookup (active_sources r) (rt_source t, rt_action t)")
  case None
  with assms show ?thesis
    by (simp add: reducer_step_def transition_defs)
next
  case (Some e)
  with assms have e: "e = rt_epoch t"
    by (simp add: current_epoch_def)
  have "hm_contains (rt_action t) (active_actions r)"
    using assms(1) Some by (auto simp: reducer_synced_def held_pairs_def hm_contains_def)
  then obtain press where press: "fmlookup (active_actions r) (rt_action t) = Some press"
    by (auto simp: hm_contains_def)
  with assms Some e show ?thesis
    by (auto simp: reducer_step_def transition_defs reducer_synced_def held_pairs_def any_key_action)
qed

interpretation reducer: machine reducer_step current_epoch reducer_synced
proof
  fix r t
  assume "reducer_synced r" and "current_epoch r t"
  then show "reducer_synced (reducer_step r t)"
    by (cases "rt_phase t") (auto intro: synced_step_pressed synced_step_released)
qed

lemma held_pairs_run: "held_pairs (run_steps reducer_step r ts) = run_steps pairs_step (held_pairs r) ts"
  by (induction ts arbitrary: r) (simp_all add: held_pairs_step)

text \<open>
  C33: Refinement. As long as every release carries the epoch of its press, after any run from the
  empty reducer the logical action is held exactly when some physical source holds it, where the
  physical state is the plain set of pressed \<open>(source, action)\<close> pairs.
\<close>

theorem reducer_refines_held_pairs:
  assumes "run_allowed reducer_step current_epoch reducer_default ts"
  shows "is_held (held_of_reducer (run_steps reducer_step reducer_default ts)) a \<longleftrightarrow>
    (\<exists>src. (src, a) \<in> run_steps pairs_step {} ts)"
proof -
  have "reducer_synced (run_steps reducer_step reducer_default ts)"
    using reducer_synced_default assms by (rule reducer.run_inv)
  moreover have "held_pairs reducer_default = {}"
    by (simp add: held_pairs_def reducer_default_def)
  ultimately show ?thesis
    by (simp add: reducer_synced_def held_pairs_run)
qed

lemma emitted_iff_change:
  assumes "reducer_synced r" and "current_epoch r t"
  shows "emitted (fst (transition r t)) \<noteq> [] \<longleftrightarrow>
    hm_contains (rt_action t) (active_actions r) \<noteq>
    hm_contains (rt_action t) (active_actions (reducer_step r t))"
proof -
  obtain res r' where t: "transition r t = (res, r')"
    by (cases "transition r t")
  from t show ?thesis
    by (cases rule: transition_cases) (auto simp: reducer_step_def t hm_contains_def)
qed

text \<open>
  A single step of that refinement on the outputs: an event is emitted exactly when the set of
  sources holding the action becomes non-empty or becomes empty.
\<close>

theorem reducer_emits_on_change:
  assumes "run_allowed reducer_step current_epoch reducer_default (ts @ [t])"
  defines "S \<equiv> run_steps pairs_step {} ts"
  shows "emitted (fst (transition (run_steps reducer_step reducer_default ts) t)) \<noteq> [] \<longleftrightarrow>
    (\<exists>src. (src, rt_action t) \<in> S) \<noteq> (\<exists>src. (src, rt_action t) \<in> pairs_step S t)"
proof -
  let ?r = "run_steps reducer_step reducer_default ts"
  have ok: "run_allowed reducer_step current_epoch reducer_default ts" "current_epoch ?r t"
    using assms(1) by (auto simp: run_allowed_append)
  have r: "reducer_synced ?r"
    using reducer_synced_default ok(1) by (rule reducer.run_inv)
  then have "reducer_synced (reducer_step ?r t)"
    using ok(2) by (rule reducer.step_inv)
  moreover have "held_pairs ?r = S"
    by (simp add: held_pairs_run S_def) (simp add: held_pairs_def reducer_default_def)
  ultimately show ?thesis
    using r ok(2) by (simp add: emitted_iff_change reducer_synced_def held_pairs_step del: pairs_step.simps)
qed

section \<open>Witnesses\<close>

text \<open>
  Concrete inputs at which the hypotheses of the properties above hold: two sources press and release
  Activate in turn.
\<close>

definition example_source :: "u64 \<Rightarrow> input_source_id" where
  "example_source n = \<lparr>src_kind = MainProxy, src_instance = n\<rparr>"

definition example_transition :: "u64 \<Rightarrow> input_phase \<Rightarrow> raw_transition" where
  "example_transition n p = \<lparr>rt_source = example_source n, rt_epoch = 7, rt_action = ActionActivate,
     rt_phase = p, rt_captured_at_us = 100\<rparr>"

definition example_transitions :: "raw_transition list" where
  "example_transitions = [example_transition 1 Pressed, example_transition 2 Pressed,
     example_transition 1 Released, example_transition 1 Released, example_transition 2 Released]"

definition example_event :: "u64 \<Rightarrow> input_phase \<Rightarrow> input_event" where
  "example_event n p = \<lparr>ie_source = example_source 1, ie_source_epoch = 7, ie_sequence = n, ie_press_id = 1,
     ie_captured_at_us = 100, ie_action = ActionActivate, ie_phase = p\<rparr>"

definition example_batch :: "input_event list \<Rightarrow> held_state \<Rightarrow> input_batch" where
  "example_batch es h = \<lparr>ib_source_epoch = 7, first_sequence = first_of es, last_sequence = last_of es,
     events = es, held_after_last = h, topology = \<lparr>devices = [], revision = 0\<rparr>,
     health = input_health_default\<lparr>protocol := ProxyV2\<rparr>\<rparr>"

lemmas example_defs = example_source_def example_transition_def example_event_def example_batch_def

lemma example_press_validates:
  "validate_from (example_batch [example_event 5 Pressed] (set_held held_default ActionActivate True)) held_default =
     Inr (set_held held_default ActionActivate True)"
  by (simp add: validate_from_def example_defs apply_event_def is_held_def held_default_def set_held_def)

lemma example_release_validates:
  "validate_from (example_batch [example_event 6 Released] held_default) (set_held held_default ActionActivate True) =
     Inr held_default"
  by (simp add: validate_from_def example_defs apply_event_def is_held_def held_default_def set_held_def fun_eq_iff)

theorem join_batches_validates_witness:
  "validate_from (join_batches (example_batch [example_event 5 Pressed] (set_held held_default ActionActivate True))
     (example_batch [example_event 6 Released] held_default)) held_default = Inr held_default"
  by (rule join_batches_validates [OF example_press_validates example_release_validates, of 5])
    (simp_all add: example_defs sat_add_def)

theorem validated_batch_is_a_replay_witness:
  "apply_events held_default [example_event 5 Pressed] = Inr (set_held held_default ActionActivate True)"
  using validated_batch_is_a_replay [OF example_press_validates, of 5] by (simp add: example_defs)

lemmas example_reducer_defs = example_transitions_def example_defs reducer_default_def transition_def
  transition_pressed_def transition_released_def hm_any_key_iff Let_def emitted_def next_counter_def sat_add_def

lemma example_reducer_run:
  "map pe_phase (fst (reducer_run reducer_default example_transitions)) = [Pressed, Released]"
  by (simp add: example_reducer_defs)

theorem reducer_stream_replays_witness:
  "apply_events held_default (number_events (fst (reducer_run reducer_default example_transitions)) [5, 6]) =
     Inr (held_of_reducer (snd (reducer_run reducer_default example_transitions))) \<and>
   length (fst (reducer_run reducer_default example_transitions)) = 2"
proof -
  have len: "length (fst (reducer_run reducer_default example_transitions)) = 2"
    using example_reducer_run by (metis length_map length_Cons list.size(3) numeral_2_eq_2)
  have "held_of_reducer reducer_default = held_default"
    by (simp add: held_of_reducer_def held_default_def reducer_default_def hm_contains_def)
  then show ?thesis
    using reducer_stream_replays [OF prod.collapse [symmetric], of "[5, 6]" reducer_default example_transitions] len
    by simp
qed

theorem reducer_press_ids_increase_witness:
  "sorted_wrt (<) (next_press_id reducer_default #
     map pe_press_id (filter (\<lambda>p. pe_phase p = Pressed) (fst (reducer_run reducer_default example_transitions))))"
  by (rule reducer_press_ids_increase) (simp add: reducer_default_def example_transitions_def)

lemma example_transitions_current:
  "run_allowed reducer_step current_epoch reducer_default example_transitions"
  by (simp add: example_reducer_defs current_epoch_def reducer_step_def)

theorem reducer_refines_held_pairs_witness:
  "is_held (held_of_reducer (run_steps reducer_step reducer_default example_transitions)) ActionActivate \<longleftrightarrow>
    (\<exists>src. (src, ActionActivate) \<in> run_steps pairs_step {} example_transitions)"
  by (rule reducer_refines_held_pairs [OF example_transitions_current])

theorem reducer_emits_on_change_witness:
  "emitted (fst (transition (run_steps reducer_step reducer_default []) (example_transition 1 Pressed))) \<noteq> [] \<longleftrightarrow>
    (\<exists>src. (src, rt_action (example_transition 1 Pressed)) \<in> run_steps pairs_step {} []) \<noteq>
    (\<exists>src. (src, rt_action (example_transition 1 Pressed)) \<in>
       pairs_step (run_steps pairs_step {} []) (example_transition 1 Pressed))"
  by (rule reducer_emits_on_change) (simp add: example_reducer_defs current_epoch_def)

end
