(* ===== verification/Input_Router.thy ===== *)
theory Input_Router
  imports Input_Event
begin

text \<open>
  \<open>apps/mister/src/launcher_runtime/input_router.rs\<close>: focus, capture and repeat policy. A press is
  captured by the focus context it arrived in and its release is delivered to that context; held
  directions repeat in menu contexts; opposing directions lock each other out until both are free;
  and every integrity fault of the input batches flushes all of that and waits for a neutral batch.
\<close>

section \<open>Data\<close>

definition MENU_REPEAT_DELAY :: duration where
  "MENU_REPEAT_DELAY = from_millis 300"

definition MENU_REPEAT_INTERVAL :: duration where
  "MENU_REPEAT_INTERVAL = from_millis 80"

datatype input_context_kind =
  Disabled | Screensaver | LifecycleDialog | ControllerSetup | LauncherModal | Transition
| Diagnostic | ScreenContext

record focus_target =
  ft_kind :: input_context_kind
  ft_owner :: u64

record context_id =
  ctx_target :: focus_target
  ctx_generation :: u64

datatype directional_policy = EdgeOnly | MenuRepeat | HomeContinuous | ArcadeContinuous

record focus_request =
  fr_target :: focus_target
  fr_policy :: directional_policy

datatype dispatch_kind = Initial | Repeat

datatype consumed_reason =
  InputDisabled | OpposingDirections | StaleRelease | ExclusiveBatch | IntegrityFault
| LaunchHandoff | TransitionActive

datatype input_fault =
  ProxyUnavailable | Overflow | Desync | FaultSequenceGap | SourceChangedWhileHeld
| WaitingForNeutral

datatype input_outcome =
  Dispatch input_event context_id dispatch_kind
| WakeScreensaver input_event context_id
| ReleasedTo input_event press_id context_id
| Consumed press_id consumed_reason

record capture =
  cap_context :: context_id
  cap_action :: logical_action

record capture_key =
  ck_source :: input_source_id
  ck_source_epoch :: source_epoch
  ck_press_id :: press_id

definition key_of :: "input_event \<Rightarrow> capture_key" where
  "key_of e = \<lparr>ck_source = ie_source e, ck_source_epoch = ie_source_epoch e,
     ck_press_id = ie_press_id e\<rparr>"

record repeat_state =
  rp_event :: input_event
  rp_context :: context_id
  rp_next_at :: instant

record router =
  context_of :: context_id
  policy :: directional_policy
  captures :: "(capture_key, capture) fmap"
  repeats :: "(logical_action, repeat_state) fmap"
  horizontal_neutral_lock :: bool
  vertical_neutral_lock :: bool
  last_flush_reason :: "consumed_reason option"
  known_epoch :: "source_epoch option"
  seen_sequence :: "u64 option"
  validated_held :: held_state
  seen_overflow_count :: u64
  seen_desync_count :: u64
  requires_neutral :: bool

definition router_new :: "focus_request \<Rightarrow> router" where
  "router_new q = \<lparr>context_of = \<lparr>ctx_target = fr_target q, ctx_generation = 1\<rparr>,
     policy = fr_policy q, captures = fmempty, repeats = fmempty,
     horizontal_neutral_lock = False, vertical_neutral_lock = False, last_flush_reason = None,
     known_epoch = None, seen_sequence = None, validated_held = held_default,
     seen_overflow_count = 0, seen_desync_count = 0, requires_neutral = True\<rparr>"

section \<open>The batch gate\<close>

definition integrity_flush :: "router \<Rightarrow> router" where
  "integrity_flush r = r\<lparr>captures := fmempty, repeats := fmempty, horizontal_neutral_lock := False,
     vertical_neutral_lock := False, validated_held := held_default, requires_neutral := True,
     last_flush_reason := Some IntegrityFault\<rparr>"

definition gap_detected :: "router \<Rightarrow> input_batch \<Rightarrow> bool" where
  "gap_detected r b =
     (case (map_option (\<lambda>v. sat_add v 1) (seen_sequence r), first_sequence b) of
        (Some expected, Some actual) \<Rightarrow> expected \<noteq> actual
      | _ \<Rightarrow> False)"

definition accept_sequenced :: "router \<Rightarrow> input_batch \<Rightarrow> (input_fault + unit) \<times> router" where
  "accept_sequenced r b =
     (if gap_detected r b then (Inl FaultSequenceGap, integrity_flush r)
      else case validate_from b (validated_held r) of
        Inl _ \<Rightarrow> (Inl Desync, integrity_flush r)
      | Inr _ \<Rightarrow>
          let r1 = r\<lparr>validated_held := held_after_last b,
                seen_sequence := (case last_sequence b of None \<Rightarrow> seen_sequence r | Some s \<Rightarrow> Some s)\<rparr>
          in if requires_neutral r1
             then if held_after_last b \<noteq> held_default \<or> events b \<noteq> []
                  then (Inl WaitingForNeutral, r1)
                  else (Inr (), r1\<lparr>requires_neutral := False\<rparr>)
             else (Inr (), r1))"

definition accept_batch :: "router \<Rightarrow> input_batch \<Rightarrow> (input_fault + unit) \<times> router" where
  "accept_batch r b =
     (if protocol (health b) \<noteq> ProxyV2 then (Inl ProxyUnavailable, integrity_flush r)
      else if overflow_count (health b) \<noteq> seen_overflow_count r
      then (Inl Overflow, integrity_flush (r\<lparr>seen_overflow_count := overflow_count (health b)\<rparr>))
      else if desync_count (health b) \<noteq> seen_desync_count r
      then (Inl Desync, integrity_flush (r\<lparr>seen_desync_count := desync_count (health b)\<rparr>))
      else if known_epoch r \<noteq> Some (ib_source_epoch b)
      then let source_was_known = known_epoch r \<noteq> None;
               r1 = integrity_flush (r\<lparr>known_epoch := Some (ib_source_epoch b),
                      seen_sequence := map_option (\<lambda>s. sat_sub s 1) (first_sequence b)\<rparr>)
           in if source_was_known \<or> held_after_last b \<noteq> held_default
              then (Inl SourceChangedWhileHeld, r1)
              else accept_sequenced r1 b
      else accept_sequenced r b)"

section \<open>Focus and routing\<close>

definition set_focus :: "router \<Rightarrow> focus_request \<Rightarrow> router" where
  "set_focus r q =
     (let r1 = if ctx_target (context_of r) \<noteq> fr_target q
               then r\<lparr>context_of := \<lparr>ctx_target = fr_target q,
                        ctx_generation = sat_add (ctx_generation (context_of r)) 1\<rparr>,
                      repeats := fmempty, horizontal_neutral_lock := False,
                      vertical_neutral_lock := False\<rparr>
               else r
      in r1\<lparr>policy := fr_policy q\<rparr>)"

fun is_direction :: "logical_action \<Rightarrow> bool" where
  "is_direction ActionUp = True"
| "is_direction ActionDown = True"
| "is_direction ActionLeft = True"
| "is_direction ActionRight = True"
| "is_direction _ = False"

fun opposite :: "logical_action \<Rightarrow> logical_action option" where
  "opposite ActionUp = Some ActionDown"
| "opposite ActionDown = Some ActionUp"
| "opposite ActionLeft = Some ActionRight"
| "opposite ActionRight = Some ActionLeft"
| "opposite _ = None"

definition action_held_in_context :: "router \<Rightarrow> logical_action \<Rightarrow> context_id \<Rightarrow> bool" where
  "action_held_in_context r a c =
     hm_any_value (\<lambda>cap. cap_context cap = c \<and> cap_action cap = a) (captures r)"

definition action_held :: "router \<Rightarrow> logical_action \<Rightarrow> bool" where
  "action_held r a =
     (if a \<in> {ActionLeft, ActionRight} \<and> horizontal_neutral_lock r then False
      else if a \<in> {ActionUp, ActionDown} \<and> vertical_neutral_lock r then False
      else action_held_in_context r a (context_of r))"

definition opposing_direction_locked :: "router \<Rightarrow> logical_action \<Rightarrow> bool \<times> router" where
  "opposing_direction_locked r a =
     (case opposite a of
        None \<Rightarrow> (False, r)
      | Some opp \<Rightarrow>
          let pair_held = action_held_in_context r opp (context_of r) in
          if a \<in> {ActionLeft, ActionRight}
          then let l = (horizontal_neutral_lock r \<or> pair_held) in (l, r\<lparr>horizontal_neutral_lock := l\<rparr>)
          else if a \<in> {ActionUp, ActionDown}
          then let l = (vertical_neutral_lock r \<or> pair_held) in (l, r\<lparr>vertical_neutral_lock := l\<rparr>)
          else (False, r))"

definition update_neutral_locks :: "router \<Rightarrow> context_id \<Rightarrow> router" where
  "update_neutral_locks r c =
     (if c \<noteq> context_of r then r
      else let r1 = if \<not> action_held_in_context r ActionLeft c \<and> \<not> action_held_in_context r ActionRight c
                    then r\<lparr>horizontal_neutral_lock := False\<rparr> else r
           in if \<not> action_held_in_context r1 ActionUp c \<and> \<not> action_held_in_context r1 ActionDown c
              then r1\<lparr>vertical_neutral_lock := False\<rparr> else r1)"

definition arm_repeat :: "router \<Rightarrow> input_event \<Rightarrow> context_id \<Rightarrow> instant \<Rightarrow> router" where
  "arm_repeat r e c now =
     (if policy r = MenuRepeat \<and> is_direction (ie_action e)
      then r\<lparr>repeats := fmupd (ie_action e)
                \<lparr>rp_event = e, rp_context = c, rp_next_at = now + MENU_REPEAT_DELAY\<rparr> (repeats r)\<rparr>
      else r)"

definition route_pressed :: "router \<Rightarrow> input_event \<Rightarrow> context_id \<Rightarrow> instant \<Rightarrow> input_outcome \<times> router" where
  "route_pressed r e c now =
     (if hm_contains (key_of e) (captures r) then (Consumed (ie_press_id e) IntegrityFault, r)
      else let r1 = r\<lparr>captures := fmupd (key_of e) \<lparr>cap_context = c, cap_action = ie_action e\<rparr> (captures r)\<rparr>;
               (locked, r2) = opposing_direction_locked r1 (ie_action e)
           in if locked
              then let r3 = r2\<lparr>repeats := fmdrop (ie_action e) (repeats r2)\<rparr>;
                       r4 = (case opposite (ie_action e) of None \<Rightarrow> r3
                             | Some opp \<Rightarrow> r3\<lparr>repeats := fmdrop opp (repeats r3)\<rparr>)
                   in (Consumed (ie_press_id e) OpposingDirections, r4)
              else case ft_kind (ctx_target c) of
                  Disabled \<Rightarrow> (Consumed (ie_press_id e) InputDisabled, r2)
                | Screensaver \<Rightarrow> (WakeScreensaver e c, r2)
                | Transition \<Rightarrow> (Consumed (ie_press_id e) TransitionActive, r2)
                | _ \<Rightarrow> (Dispatch e c Initial, arm_repeat r2 e c now))"

definition route_released :: "router \<Rightarrow> input_event \<Rightarrow> input_outcome \<times> router" where
  "route_released r e =
     (case fmlookup (captures r) (key_of e) of
        None \<Rightarrow> (Consumed (ie_press_id e) StaleRelease, r)
      | Some cap \<Rightarrow>
          let r1 = r\<lparr>captures := fmdrop (key_of e) (captures r)\<rparr>;
              r2 = if \<not> action_held_in_context r1 (ie_action e) (cap_context cap)
                   then r1\<lparr>repeats := fmdrop (ie_action e) (repeats r1)\<rparr> else r1;
              r3 = update_neutral_locks r2 (cap_context cap)
          in (ReleasedTo e (ie_press_id e) (cap_context cap), r3))"

definition route_event ::
  "router \<Rightarrow> input_event \<Rightarrow> focus_request \<Rightarrow> instant \<Rightarrow> input_outcome \<times> router" where
  "route_event r e q now =
     (let r1 = set_focus r q in
      case ie_phase e of
        Pressed \<Rightarrow> route_pressed r1 e (context_of r1) now
      | Released \<Rightarrow> route_released r1 e)"

fun tick_repeat_over ::
  "router \<Rightarrow> instant \<Rightarrow> logical_action list \<Rightarrow> input_outcome option \<times> router" where
  "tick_repeat_over r now [] = (None, r)"
| "tick_repeat_over r now (a # as) =
     (case fmlookup (repeats r) a of
        None \<Rightarrow> tick_repeat_over r now as
      | Some rep \<Rightarrow>
          if rp_context rep \<noteq> context_of r \<or> now < rp_next_at rep then tick_repeat_over r now as
          else (Some (Dispatch (rp_event rep) (rp_context rep) Repeat),
                r\<lparr>repeats := fmupd a (rep\<lparr>rp_next_at := now + MENU_REPEAT_INTERVAL\<rparr>) (repeats r)\<rparr>))"

definition tick_repeat :: "router \<Rightarrow> instant \<Rightarrow> input_outcome option \<times> router" where
  "tick_repeat r now = tick_repeat_over r now all_actions"

definition consume_event ::
  "router \<Rightarrow> input_event \<Rightarrow> consumed_reason \<Rightarrow> input_outcome \<times> router" where
  "consume_event r e reason =
     (Consumed (ie_press_id e) reason,
      if ie_phase e = Pressed
      then r\<lparr>captures := fmupd (key_of e) \<lparr>cap_context = context_of r, cap_action = ie_action e\<rparr> (captures r)\<rparr>
      else let c = (case fmlookup (captures r) (key_of e) of None \<Rightarrow> context_of r
                    | Some cap \<Rightarrow> cap_context cap)
           in update_neutral_locks (r\<lparr>captures := fmdrop (key_of e) (captures r)\<rparr>) c)"

fun consume_remaining_batch ::
  "router \<Rightarrow> input_event list \<Rightarrow> consumed_reason \<Rightarrow> input_outcome list \<times> router" where
  "consume_remaining_batch r [] reason = ([], r)"
| "consume_remaining_batch r (e # es) reason =
     (let (out, r1) = consume_event r e reason;
          (outs, r2) = consume_remaining_batch r1 es reason
      in (out # outs, r2))"

section \<open>The router invariant\<close>

text \<open>
  What the fields promise each other between operations: a repeat is armed in the current context
  for a direction some capture of that context still holds; a neutral lock is set only while one of
  its two directions is held; both directions of a pair are held together only under the lock; and
  no capture belongs to a context that has not been entered yet.
\<close>

definition pair_guarded :: "router \<Rightarrow> bool \<Rightarrow> logical_action \<Rightarrow> logical_action \<Rightarrow> bool" where
  "pair_guarded r locked a b \<longleftrightarrow>
     (locked \<longrightarrow> action_held_in_context r a (context_of r) \<or> action_held_in_context r b (context_of r)) \<and>
     (action_held_in_context r a (context_of r) \<and> action_held_in_context r b (context_of r) \<longrightarrow> locked)"

definition repeats_held :: "router \<Rightarrow> bool" where
  "repeats_held r \<longleftrightarrow> (\<forall>a rep. fmlookup (repeats r) a = Some rep \<longrightarrow>
     is_direction a \<and> ie_action (rp_event rep) = a \<and> rp_context rep = context_of r \<and>
     action_held_in_context r a (context_of r))"

definition captures_entered :: "router \<Rightarrow> bool" where
  "captures_entered r \<longleftrightarrow> (\<forall>k cap. fmlookup (captures r) k = Some cap \<longrightarrow>
     ctx_generation (cap_context cap) \<le> ctx_generation (context_of r))"

definition router_inv :: "router \<Rightarrow> bool" where
  "router_inv r \<longleftrightarrow> repeats_held r \<and> captures_entered r \<and>
     pair_guarded r (horizontal_neutral_lock r) ActionLeft ActionRight \<and>
     pair_guarded r (vertical_neutral_lock r) ActionUp ActionDown"

text \<open>
  The events a caller may route: a release names the action its press had (the code's
  \<open>debug_assert_eq!\<close>), and the focus generation has not reached the top of its type.
\<close>

definition key_consistent :: "router \<Rightarrow> input_event \<Rightarrow> bool" where
  "key_consistent r e \<longleftrightarrow>
     (case fmlookup (captures r) (key_of e) of None \<Rightarrow> True | Some cap \<Rightarrow> cap_action cap = ie_action e)"

datatype router_op =
  OpAccept input_batch
| OpFocus focus_request
| OpRoute input_event focus_request instant
| OpTick instant
| OpConsume input_event consumed_reason

fun router_step :: "router \<Rightarrow> router_op \<Rightarrow> router" where
  "router_step r (OpAccept b) = snd (accept_batch r b)"
| "router_step r (OpFocus q) = set_focus r q"
| "router_step r (OpRoute e q now) = snd (route_event r e q now)"
| "router_step r (OpTick now) = snd (tick_repeat r now)"
| "router_step r (OpConsume e reason) = snd (consume_event r e reason)"

definition consumable :: "router \<Rightarrow> input_event \<Rightarrow> bool" where
  "consumable r e \<longleftrightarrow>
     (if ie_phase e = Pressed
      then \<not> hm_contains (key_of e) (captures r) \<and>
        (case opposite (ie_action e) of None \<Rightarrow> True
         | Some opp \<Rightarrow> \<not> action_held_in_context r opp (context_of r))
      else fmlookup (repeats r) (ie_action e) = None \<and> key_consistent r e)"

fun router_ok :: "router \<Rightarrow> router_op \<Rightarrow> bool" where
  "router_ok r (OpAccept b) = True"
| "router_ok r (OpFocus q) = (ctx_generation (context_of r) \<noteq> - 1)"
| "router_ok r (OpRoute e q now) =
     (ctx_generation (context_of r) \<noteq> - 1 \<and> (ie_phase e = Released \<longrightarrow> key_consistent r e))"
| "router_ok r (OpTick now) = True"
| "router_ok r (OpConsume e reason) = consumable r e"

lemmas router_inv_defs = router_inv_def repeats_held_def captures_entered_def pair_guarded_def

lemma held_in_context_iff:
  "action_held_in_context r a c \<longleftrightarrow>
     (\<exists>k cap. fmlookup (captures r) k = Some cap \<and> cap_context cap = c \<and> cap_action cap = a)"
  by (simp add: action_held_in_context_def hm_any_value_iff)

lemma held_cong: "captures r = captures r' \<Longrightarrow> action_held_in_context r = action_held_in_context r'"
  by (simp add: fun_eq_iff action_held_in_context_def)

lemma held_press:
  assumes "\<not> hm_contains k (captures r)"
  shows "action_held_in_context (r\<lparr>captures := fmupd k cap (captures r)\<rparr>) a c \<longleftrightarrow>
    (cap_context cap = c \<and> cap_action cap = a) \<or> action_held_in_context r a c"
  using assms by (auto simp: held_in_context_iff hm_contains_def) (metis option.distinct(1))

lemma held_release:
  assumes "fmlookup (captures r) k = Some cap" and "\<not> (cap_context cap = c \<and> cap_action cap = a)"
  shows "action_held_in_context (r\<lparr>captures := fmdrop k (captures r)\<rparr>) a c \<longleftrightarrow>
    action_held_in_context r a c"
  using assms by (auto simp: held_in_context_iff)

lemma held_drop_mono:
  "action_held_in_context (r\<lparr>captures := fmdrop k (captures r)\<rparr>) a c \<Longrightarrow> action_held_in_context r a c"
  by (auto simp: held_in_context_iff split: if_splits)

lemma router_inv_new [simp]: "router_inv (router_new q)"
  by (auto simp: router_inv_defs router_new_def held_in_context_iff)

lemma router_inv_flushed:
  "captures r = fmempty \<Longrightarrow> repeats r = fmempty \<Longrightarrow> \<not> horizontal_neutral_lock r \<Longrightarrow>
   \<not> vertical_neutral_lock r \<Longrightarrow> router_inv r"
  by (auto simp: router_inv_defs held_in_context_iff)

lemma router_inv_flush [simp]: "router_inv (integrity_flush r)"
  by (rule router_inv_flushed) (simp_all add: integrity_flush_def)

lemma router_inv_cong:
  "captures r = captures r' \<Longrightarrow> repeats r = repeats r' \<Longrightarrow> context_of r = context_of r' \<Longrightarrow>
   horizontal_neutral_lock r = horizontal_neutral_lock r' \<Longrightarrow>
   vertical_neutral_lock r = vertical_neutral_lock r' \<Longrightarrow> router_inv r = router_inv r'"
  using held_cong [of r r'] by (simp add: router_inv_defs)

lemma router_inv_accept_sequenced: "router_inv r \<Longrightarrow> router_inv (snd (accept_sequenced r b))"
  by (auto simp: accept_sequenced_def Let_def split: sum.splits elim!: router_inv_cong [THEN iffD1, rotated -1])

lemma router_inv_accept: "router_inv r \<Longrightarrow> router_inv (snd (accept_batch r b))"
  by (auto simp: accept_batch_def Let_def intro!: router_inv_accept_sequenced)

lemma generation_fresh:
  assumes "captures_entered r" and "ctx_generation (context_of r) \<noteq> - 1"
    and "ctx_generation c = sat_add (ctx_generation (context_of r)) 1"
  shows "\<not> action_held_in_context r a c"
proof
  let ?g = "ctx_generation (context_of r)"
  assume "action_held_in_context r a c"
  then have "sat_add ?g 1 \<le> ?g"
    using assms(1,3) unfolding held_in_context_iff captures_entered_def by metis
  moreover have "unat ?g \<noteq> 2 ^ 64 - 1" and "unat ?g \<le> 2 ^ 64 - 1"
    using assms(2) unat_le_max [of ?g] unat_minus_1_word [where 'a = 64]
    by (auto simp: word_unat_eq_iff)
  ultimately show False
    by (simp add: word_le_nat_alt unat_sat_add)
qed

lemma router_inv_set_focus:
  assumes "router_inv r" and "ctx_generation (context_of r) \<noteq> - 1"
  shows "router_inv (set_focus r q)"
proof (cases "ctx_target (context_of r) = fr_target q")
  case True
  with assms(1) show ?thesis
    by (auto simp: set_focus_def elim!: router_inv_cong [THEN iffD1, rotated -1])
next
  case False
  define c where "c = \<lparr>ctx_target = fr_target q, ctx_generation = sat_add (ctx_generation (context_of r)) 1\<rparr>"
  have c: "context_of (set_focus r q) = c" "captures (set_focus r q) = captures r"
    using False by (simp_all add: set_focus_def c_def)
  have "captures_entered r"
    using assms(1) by (simp add: router_inv_def)
  then have "\<not> action_held_in_context r a c" for a
    using assms(2) by (rule generation_fresh) (simp add: c_def)
  then have free: "\<not> action_held_in_context (set_focus r q) a c" for a
    using held_cong [OF c(2)] by simp
  have "captures_entered (set_focus r q)"
    using \<open>captures_entered r\<close> c sat_add_mono [of "ctx_generation (context_of r)" 1]
    by (auto simp: captures_entered_def c_def intro: order_trans)
  with free c False show ?thesis
    by (auto simp: router_inv_def repeats_held_def pair_guarded_def) (simp_all add: set_focus_def)
qed

lemma context_set_focus_target [simp]: "ctx_target (context_of (set_focus r q)) = fr_target q"
  by (simp add: set_focus_def)

lemma captures_set_focus [simp]: "captures (set_focus r q) = captures r"
  by (simp add: set_focus_def)

text \<open>Pressing: the capture is entered, then the lock decides.\<close>

lemma opposing_locked_frame:
  assumes "opposing_direction_locked r a = (l, r')"
  shows "captures r' = captures r" "repeats r' = repeats r" "context_of r' = context_of r"
    "policy r' = policy r" "action_held_in_context r' = action_held_in_context r"
    "horizontal_neutral_lock r' \<longleftrightarrow> horizontal_neutral_lock r \<or>
      (a \<in> {ActionLeft, ActionRight} \<and> l)"
    "vertical_neutral_lock r' \<longleftrightarrow> vertical_neutral_lock r \<or> (a \<in> {ActionUp, ActionDown} \<and> l)"
    "l \<longleftrightarrow> (case opposite a of None \<Rightarrow> False | Some opp \<Rightarrow>
       action_held_in_context r opp (context_of r) \<or>
       (if a \<in> {ActionLeft, ActionRight} then horizontal_neutral_lock r else vertical_neutral_lock r))"
proof -
  show "captures r' = captures r" "repeats r' = repeats r" "context_of r' = context_of r"
    "policy r' = policy r"
    "horizontal_neutral_lock r' \<longleftrightarrow> horizontal_neutral_lock r \<or> (a \<in> {ActionLeft, ActionRight} \<and> l)"
    "vertical_neutral_lock r' \<longleftrightarrow> vertical_neutral_lock r \<or> (a \<in> {ActionUp, ActionDown} \<and> l)"
    "l \<longleftrightarrow> (case opposite a of None \<Rightarrow> False | Some opp \<Rightarrow>
       action_held_in_context r opp (context_of r) \<or>
       (if a \<in> {ActionLeft, ActionRight} then horizontal_neutral_lock r else vertical_neutral_lock r))"
    using assms by (cases a; force simp: opposing_direction_locked_def Let_def)+
  then show "action_held_in_context r' = action_held_in_context r"
    by (intro held_cong) simp
qed

lemma is_direction_iff: "is_direction a \<longleftrightarrow> opposite a \<noteq> None"
  by (cases a) simp_all

lemma router_inv_route_pressed:
  assumes "router_inv r" and "ctx = context_of r"
  shows "router_inv (snd (route_pressed r e ctx now))"
proof (cases "hm_contains (key_of e) (captures r)")
  case True
  with assms show ?thesis by (simp add: route_pressed_def)
next
  case False
  define r1 where "r1 = r\<lparr>captures := fmupd (key_of e)
    \<lparr>cap_context = ctx, cap_action = ie_action e\<rparr> (captures r)\<rparr>"
  obtain l r2 where lock: "opposing_direction_locked r1 (ie_action e) = (l, r2)"
    by fastforce
  have held: "action_held_in_context r2 a c \<longleftrightarrow> (c = ctx \<and> a = ie_action e) \<or> action_held_in_context r a c"
    for a c
    using held_press [OF False, of "\<lparr>cap_context = ctx, cap_action = ie_action e\<rparr>" a c]
      opposing_locked_frame(5) [OF lock] by (auto simp: r1_def)
  have held1: "action_held_in_context r1 = action_held_in_context r2"
    using opposing_locked_frame(5) [OF lock] by simp
  have r2: "captures r2 = fmupd (key_of e) \<lparr>cap_context = ctx, cap_action = ie_action e\<rparr> (captures r)"
    "repeats r2 = repeats r" "context_of r2 = ctx"
    using opposing_locked_frame(1-3) [OF lock] assms(2) by (simp_all add: r1_def)
  have locks: "horizontal_neutral_lock r2 \<longleftrightarrow> horizontal_neutral_lock r \<or>
      (ie_action e \<in> {ActionLeft, ActionRight} \<and> l)"
    "vertical_neutral_lock r2 \<longleftrightarrow> vertical_neutral_lock r \<or> (ie_action e \<in> {ActionUp, ActionDown} \<and> l)"
    using opposing_locked_frame(6,7) [OF lock] by (simp_all add: r1_def)
  have l: "l \<longleftrightarrow> (case opposite (ie_action e) of None \<Rightarrow> False | Some opp \<Rightarrow>
       action_held_in_context r2 opp ctx \<or>
       (if ie_action e \<in> {ActionLeft, ActionRight} then horizontal_neutral_lock r
        else vertical_neutral_lock r))"
    using opposing_locked_frame(8) [OF lock] assms(2) unfolding held1
    by (simp add: r1_def split: option.splits)
  have pairs: "pair_guarded r2 (horizontal_neutral_lock r2) ActionLeft ActionRight"
    "pair_guarded r2 (vertical_neutral_lock r2) ActionUp ActionDown"
    using assms l locks held r2(3)
    by (cases "ie_action e"; auto simp: router_inv_def pair_guarded_def)+
  have entered: "captures_entered r2"
    using assms r2(1,3) by (auto simp: router_inv_def captures_entered_def)
  have armed: "is_direction a \<and> ie_action (rp_event rep) = a \<and> rp_context rep = ctx \<and>
      action_held_in_context r2 a ctx" if "fmlookup (repeats r) a = Some rep" for a rep
    using assms that held by (auto simp: router_inv_def repeats_held_def)
  have any: "router_inv r'" if "captures r' = captures r2" "context_of r' = ctx"
    "horizontal_neutral_lock r' = horizontal_neutral_lock r2"
    "vertical_neutral_lock r' = vertical_neutral_lock r2"
    "\<And>a rep. fmlookup (repeats r') a = Some rep \<Longrightarrow>
       fmlookup (repeats r) a = Some rep \<or>
       (a = ie_action e \<and> is_direction a \<and> rp_event rep = e \<and> rp_context rep = ctx)" for r'
  proof -
    have "repeats_held r'"
      using that(2,5) armed held held_cong [OF that(1)] unfolding repeats_held_def by metis
    then show ?thesis
      using pairs entered that r2(3) held_cong [OF that(1)]
      by (simp add: router_inv_def pair_guarded_def captures_entered_def)
  qed
  show ?thesis
  proof (cases l)
    case True
    then show ?thesis
      using False lock r2 by (auto simp: route_pressed_def r1_def Let_def intro!: any
          split: option.splits if_splits)
  next
    case nl: False
    then show ?thesis
      using False lock r2 by (auto simp: route_pressed_def r1_def Let_def arm_repeat_def intro!: any
          split: input_context_kind.splits if_splits)
  qed
qed

lemma update_neutral_locks_frame:
  "captures (update_neutral_locks r c) = captures r"
  "repeats (update_neutral_locks r c) = repeats r"
  "context_of (update_neutral_locks r c) = context_of r"
  "action_held_in_context (update_neutral_locks r c) = action_held_in_context r"
  by (auto simp: update_neutral_locks_def Let_def intro!: held_cong)

lemma update_neutral_locks_value:
  "horizontal_neutral_lock (update_neutral_locks r c) \<longleftrightarrow> horizontal_neutral_lock r \<and>
     (c \<noteq> context_of r \<or> action_held_in_context r ActionLeft c \<or> action_held_in_context r ActionRight c)"
  "vertical_neutral_lock (update_neutral_locks r c) \<longleftrightarrow> vertical_neutral_lock r \<and>
     (c \<noteq> context_of r \<or> action_held_in_context r ActionUp c \<or> action_held_in_context r ActionDown c)"
  using held_cong [of "r\<lparr>horizontal_neutral_lock := False\<rparr>" r]
  by (auto simp: update_neutral_locks_def Let_def)

lemma router_inv_update_locks: "router_inv r \<Longrightarrow> router_inv (update_neutral_locks r c)"
  by (auto simp: router_inv_defs update_neutral_locks_frame update_neutral_locks_value)

lemma router_inv_drop_capture:
  assumes "router_inv r" and "fmlookup (captures r) k = Some cap"
    and "captures r1 = fmdrop k (captures r)" and "context_of r1 = context_of r"
    and "horizontal_neutral_lock r1 = horizontal_neutral_lock r"
    and "vertical_neutral_lock r1 = vertical_neutral_lock r"
    and "\<And>a rep. fmlookup (repeats r1) a = Some rep \<Longrightarrow> fmlookup (repeats r) a = Some rep \<and>
      (a = cap_action cap \<longrightarrow> cap_context cap = context_of r \<longrightarrow>
        action_held_in_context r1 a (context_of r))"
  shows "router_inv (update_neutral_locks r1 (cap_context cap))"
proof -
  have c: "captures r1 = captures (r\<lparr>captures := fmdrop k (captures r)\<rparr>)"
    using assms(3) by simp
  have keep: "action_held_in_context r1 a c \<longleftrightarrow> action_held_in_context r a c"
    if "\<not> (cap_context cap = c \<and> cap_action cap = a)" for a c
    using held_release [OF assms(2) that] held_cong [OF c] by simp
  have mono: "action_held_in_context r1 a c \<Longrightarrow> action_held_in_context r a c" for a c
    using held_drop_mono held_cong [OF c] by metis
  have "repeats_held (update_neutral_locks r1 (cap_context cap))"
    using assms(1,4,7) keep unfolding repeats_held_def router_inv_def update_neutral_locks_frame by metis
  moreover have "captures_entered (update_neutral_locks r1 (cap_context cap))"
    using assms(1,3,4) by (auto simp: router_inv_def captures_entered_def update_neutral_locks_frame)
  moreover have
    "pair_guarded (update_neutral_locks r1 (cap_context cap))
       (horizontal_neutral_lock (update_neutral_locks r1 (cap_context cap))) ActionLeft ActionRight"
    "pair_guarded (update_neutral_locks r1 (cap_context cap))
       (vertical_neutral_lock (update_neutral_locks r1 (cap_context cap))) ActionUp ActionDown"
    using assms(1,4-6) keep mono
    unfolding router_inv_def pair_guarded_def update_neutral_locks_frame update_neutral_locks_value
    by metis+
  ultimately show ?thesis
    by (simp add: router_inv_def)
qed

lemma router_inv_route_released:
  assumes "router_inv r" and "key_consistent r e"
  shows "router_inv (snd (route_released r e))"
proof (cases "fmlookup (captures r) (key_of e)")
  case None
  with assms show ?thesis by (simp add: route_released_def)
next
  case (Some cap)
  with assms(2) have act: "cap_action cap = ie_action e"
    by (simp add: key_consistent_def)
  define r1 where "r1 = r\<lparr>captures := fmdrop (key_of e) (captures r)\<rparr>"
  define r2 where "r2 = (if \<not> action_held_in_context r1 (ie_action e) (cap_context cap)
    then r1\<lparr>repeats := fmdrop (ie_action e) (repeats r1)\<rparr> else r1)"
  have "action_held_in_context r2 = action_held_in_context r1"
    by (rule held_cong) (simp add: r2_def)
  then have "router_inv (update_neutral_locks r2 (cap_context cap))"
    using act by (intro router_inv_drop_capture [OF assms(1) Some])
      (auto simp: r2_def r1_def split: if_splits)
  moreover have "snd (route_released r e) = update_neutral_locks r2 (cap_context cap)"
    using Some by (simp add: route_released_def r1_def r2_def Let_def)
  ultimately show ?thesis
    by simp
qed

lemma router_inv_route_event:
  assumes "router_inv r" and "router_ok r (OpRoute e q now)"
  shows "router_inv (snd (route_event r e q now))"
proof -
  have "router_inv (set_focus r q)"
    using assms by (intro router_inv_set_focus) auto
  then show ?thesis
    using assms(2)
    by (cases "ie_phase e") (auto simp: route_event_def Let_def key_consistent_def
        intro!: router_inv_route_pressed router_inv_route_released)
qed

lemma tick_repeat_over_cases:
  "tick_repeat_over r now as = (None, r) \<or>
   (\<exists>a rep. a \<in> set as \<and> fmlookup (repeats r) a = Some rep \<and> rp_context rep = context_of r \<and>
      rp_next_at rep \<le> now \<and>
      tick_repeat_over r now as = (Some (Dispatch (rp_event rep) (rp_context rep) Repeat),
        r\<lparr>repeats := fmupd a (rep\<lparr>rp_next_at := now + MENU_REPEAT_INTERVAL\<rparr>) (repeats r)\<rparr>))"
proof (induction as)
  case Nil
  then show ?case by simp
next
  case (Cons a as)
  show ?case
  proof (cases "fmlookup (repeats r) a")
    case None
    with Cons show ?thesis by auto
  next
    case (Some rep)
    with Cons show ?thesis
      by (cases "rp_context rep = context_of r \<and> rp_next_at rep \<le> now") auto
  qed
qed

lemma router_inv_tick:
  assumes "router_inv r"
  shows "router_inv (snd (tick_repeat r now))"
proof -
  from tick_repeat_over_cases [of r now all_actions] show ?thesis
  proof (elim disjE exE conjE)
    assume "tick_repeat_over r now all_actions = (None, r)"
    with assms show ?thesis by (simp add: tick_repeat_def)
  next
    fix a rep
    define r' where "r' = r\<lparr>repeats :=
      fmupd a (rep\<lparr>rp_next_at := now + MENU_REPEAT_INTERVAL\<rparr>) (repeats r)\<rparr>"
    assume rep: "fmlookup (repeats r) a = Some rep"
      and "tick_repeat_over r now all_actions = (Some (Dispatch (rp_event rep) (rp_context rep) Repeat),
        r\<lparr>repeats := fmupd a (rep\<lparr>rp_next_at := now + MENU_REPEAT_INTERVAL\<rparr>) (repeats r)\<rparr>)"
    then have "snd (tick_repeat r now) = r'"
      by (simp add: tick_repeat_def r'_def)
    moreover have "action_held_in_context r' = action_held_in_context r"
      by (rule held_cong) (simp add: r'_def)
    ultimately show ?thesis
      using assms rep by (auto simp: router_inv_defs r'_def)
  qed
qed

lemma router_inv_consume:
  assumes "router_inv r" and "consumable r e"
  shows "router_inv (snd (consume_event r e reason))"
proof (cases "ie_phase e = Pressed")
  case True
  define r1 where "r1 = r\<lparr>captures := fmupd (key_of e)
    \<lparr>cap_context = context_of r, cap_action = ie_action e\<rparr> (captures r)\<rparr>"
  have "\<not> hm_contains (key_of e) (captures r)"
    using True assms(2) by (simp add: consumable_def)
  from held_press [OF this, of "\<lparr>cap_context = context_of r, cap_action = ie_action e\<rparr>"]
  have held: "action_held_in_context r1 a c \<longleftrightarrow>
      (c = context_of r \<and> a = ie_action e) \<or> action_held_in_context r a c" for a c
    by (auto simp: r1_def)
  have "pair_guarded r1 (horizontal_neutral_lock r1) ActionLeft ActionRight"
    "pair_guarded r1 (vertical_neutral_lock r1) ActionUp ActionDown"
    using assms True held
    by (cases "ie_action e"; simp add: router_inv_def pair_guarded_def r1_def consumable_def; blast)+
  moreover have "captures_entered r1" and "repeats_held r1"
    using assms(1) held by (auto simp: router_inv_def captures_entered_def repeats_held_def r1_def)
  ultimately show ?thesis
    using True by (simp add: consume_event_def router_inv_def r1_def)
next
  case False
  show ?thesis
  proof (cases "fmlookup (captures r) (key_of e)")
    case None
    have "fmdrop (key_of e) (captures r) = captures r"
      using None by (intro fmap_ext) auto
    moreover have "router_inv (update_neutral_locks r (context_of r))"
      using assms(1) by (rule router_inv_update_locks)
    ultimately show ?thesis
      using False None by (simp add: consume_event_def)
  next
    case (Some cap)
    have "router_inv (update_neutral_locks (r\<lparr>captures := fmdrop (key_of e) (captures r)\<rparr>) (cap_context cap))"
      using assms(2) False Some
      by (intro router_inv_drop_capture [OF assms(1) Some])
        (auto simp: consumable_def key_consistent_def)
    with False Some show ?thesis
      by (simp add: consume_event_def)
  qed
qed

interpretation router: machine router_step router_ok router_inv
proof
  fix r :: router and e
  assume "router_inv r" and "router_ok r e"
  then show "router_inv (router_step r e)"
    by (cases e) (auto intro: router_inv_accept router_inv_set_focus router_inv_route_event
        router_inv_tick router_inv_consume simp del: router_ok.simps(3))
qed

section \<open>Properties of every run\<close>

abbreviation router_run :: "focus_request \<Rightarrow> router_op list \<Rightarrow> router" where
  "router_run q ops \<equiv> run_steps router_step (router_new q) ops"

abbreviation router_run_ok :: "focus_request \<Rightarrow> router_op list \<Rightarrow> bool" where
  "router_run_ok q ops \<equiv> run_allowed router_step router_ok (router_new q) ops"

lemma router_run_inv: "router_run_ok q ops \<Longrightarrow> router_inv (router_run q ops)"
  by (rule router.run_inv) simp_all

lemma tick_repeat_Some:
  assumes "tick_repeat r now = (Some out, r')"
  obtains a rep where "fmlookup (repeats r) a = Some rep" "rp_context rep = context_of r"
    "rp_next_at rep \<le> now" "out = Dispatch (rp_event rep) (rp_context rep) Repeat"
    "r' = r\<lparr>repeats := fmupd a (rep\<lparr>rp_next_at := now + MENU_REPEAT_INTERVAL\<rparr>) (repeats r)\<rparr>"
  using assms tick_repeat_over_cases [of r now all_actions] by (auto simp: tick_repeat_def)

text \<open>
  C27: After any run of batches, focus changes, presses, releases and ticks, a menu repeat is only
  ever dispatched for a direction that is still held by a capture of the current focus context, and
  it is dispatched to that context: a released or unfocused direction never keeps moving the menu.
\<close>

theorem repeat_only_while_held:
  assumes "router_run_ok q ops" and "tick_repeat (router_run q ops) now = (Some out, r')"
  shows "\<exists>e. out = Dispatch e (context_of (router_run q ops)) Repeat \<and> is_direction (ie_action e) \<and>
    action_held_in_context (router_run q ops) (ie_action e) (context_of (router_run q ops))"
  using assms(2)
proof (cases rule: tick_repeat_Some)
  case (1 a rep)
  then show ?thesis
    using router_run_inv [OF assms(1)] by (auto simp: router_inv_def repeats_held_def)
qed

text \<open>
  The two directions of a pair are never reported held together, as long as no press is swallowed while its
  opposite is held: \<open>consume_remaining_batch\<close> captures a press without looking at the pair.
\<close>

theorem opposing_directions_exclusive:
  assumes "router_run_ok q ops"
  defines "r \<equiv> router_run q ops"
  shows "\<not> (action_held r ActionLeft \<and> action_held r ActionRight) \<and>
    \<not> (action_held r ActionUp \<and> action_held r ActionDown)"
  using router_run_inv [OF assms(1)]
  by (auto simp: action_held_def router_inv_def pair_guarded_def r_def)

text \<open>
  Pressing a direction while its opposite is held in the focused context is consumed, stops the
  repeats of both, and neither is reported held afterwards.
\<close>

theorem opposing_press_consumed:
  assumes "router_inv r" and "ctx_target (context_of r) = fr_target q"
    and "ie_phase e = Pressed" and "\<not> hm_contains (key_of e) (captures r)"
    and "opposite (ie_action e) = Some opp" and "action_held_in_context r opp (context_of r)"
    and "route_event r e q now = (out, r')"
  shows "out = Consumed (ie_press_id e) OpposingDirections \<and>
    fmlookup (repeats r') (ie_action e) = None \<and> fmlookup (repeats r') opp = None \<and>
    \<not> action_held r' (ie_action e) \<and> \<not> action_held r' opp"
proof -
  define r0 where "r0 = set_focus r q"
  have r0: "context_of r0 = context_of r" "captures r0 = captures r"
    using assms(2) by (simp_all add: r0_def set_focus_def)
  define r1 where "r1 = r0\<lparr>captures := fmupd (key_of e)
    \<lparr>cap_context = context_of r, cap_action = ie_action e\<rparr> (captures r)\<rparr>"
  obtain l r2 where lock: "opposing_direction_locked r1 (ie_action e) = (l, r2)"
    by fastforce
  have free0: "\<not> hm_contains (key_of e) (captures r0)"
    using assms(4) r0 by simp
  have "action_held_in_context r1 opp (context_of r)"
    using held_press [OF free0, of "\<lparr>cap_context = context_of r, cap_action = ie_action e\<rparr>" opp
        "context_of r"] assms(6) held_cong [OF r0(2)] r0(2) by (simp add: r1_def)
  then have l: l
    using opposing_locked_frame(8) [OF lock] assms(5) r0 by (simp add: r1_def)
  have "horizontal_neutral_lock r2 \<or> ie_action e \<notin> {ActionLeft, ActionRight}"
    "vertical_neutral_lock r2 \<or> ie_action e \<notin> {ActionUp, ActionDown}"
    using opposing_locked_frame(6,7) [OF lock] l by auto
  then show ?thesis
    using assms(3-5,7) lock l r0
    by (cases "ie_action e") (auto simp: route_event_def route_pressed_def Let_def action_held_def
        r0_def [symmetric] r1_def)
qed

text \<open>
  Repeat timing. After a repeat of an action at time \<open>t\<close>, no tick before 80 ms later repeats
  that action again.
\<close>

theorem repeat_spacing:
  assumes "router_inv r" and "tick_repeat r t = (Some (Dispatch e c k), r1)"
    and "t' < t + MENU_REPEAT_INTERVAL"
    and "tick_repeat r1 t' = (Some (Dispatch e' c' k'), r2)"
  shows "ie_action e' \<noteq> ie_action e"
  using assms(2)
proof (cases rule: tick_repeat_Some)
  case (1 a rep)
  then have a: "ie_action e = a" "fmlookup (repeats r1) a = Some (rep\<lparr>rp_next_at := t + MENU_REPEAT_INTERVAL\<rparr>)"
    using assms(1) by (auto simp: router_inv_def repeats_held_def)
  have "router_inv r1"
    using router_inv_tick [OF assms(1), of t] assms(2) by simp
  with assms(4) show ?thesis
  proof (cases rule: tick_repeat_Some)
    case (1 a' rep')
    then have "ie_action e' = a'"
      using \<open>router_inv r1\<close> by (auto simp: router_inv_def repeats_held_def)
    with 1 a assms(3) show ?thesis by auto
  qed
qed

text \<open>
  After a press is dispatched at time \<open>t\<close> in a repeating menu, no tick before 300 ms later repeats
  that direction.
\<close>

theorem repeat_initial_delay:
  assumes "router_inv r" and "ctx_generation (context_of r) \<noteq> - 1" and "ie_phase e = Pressed"
    and "route_event r e q t = (Dispatch e c Initial, r1)" and "fr_policy q = MenuRepeat"
    and "is_direction (ie_action e)"
    and "t' < t + MENU_REPEAT_DELAY" and "tick_repeat r1 t' = (Some (Dispatch e' c' k'), r2)"
  shows "ie_action e' \<noteq> ie_action e"
proof -
  have "router_inv r1"
    using router_inv_route_event [OF assms(1), of e q t] assms(2-4) by simp
  have "policy (set_focus r q) = MenuRepeat"
    using assms(5) by (simp add: set_focus_def)
  then have "\<exists>rep. fmlookup (repeats r1) (ie_action e) = Some rep \<and> rp_next_at rep = t + MENU_REPEAT_DELAY"
    using assms(3,4,6) opposing_locked_frame(4)
    by (fastforce simp: route_event_def route_pressed_def Let_def arm_repeat_def
        split: if_splits prod.splits input_context_kind.splits)
  with assms(8) show ?thesis
  proof (cases rule: tick_repeat_Some)
    case (1 a rep)
    then have "ie_action e' = a"
      using \<open>router_inv r1\<close> by (auto simp: router_inv_def repeats_held_def)
    with 1 assms(7) \<open>\<exists>rep. _\<close> show ?thesis by auto
  qed
qed

section \<open>Capture\<close>

text \<open>The operations that leave the capture of a key alone: all but a flush and the key's own events.\<close>

fun keeps_capture :: "capture_key \<Rightarrow> router_op \<Rightarrow> bool" where
  "keeps_capture k (OpAccept b) = False"
| "keeps_capture k (OpFocus q) = True"
| "keeps_capture k (OpRoute e q now) = (key_of e \<noteq> k)"
| "keeps_capture k (OpTick now) = True"
| "keeps_capture k (OpConsume e reason) = (key_of e \<noteq> k)"

lemma capture_route_pressed:
  "fmlookup (captures (snd (route_pressed r e c now))) k =
     (if k = key_of e \<and> \<not> hm_contains k (captures r)
      then Some \<lparr>cap_context = c, cap_action = ie_action e\<rparr> else fmlookup (captures r) k)"
proof -
  define r1 where "r1 = r\<lparr>captures := fmupd (key_of e)
    \<lparr>cap_context = c, cap_action = ie_action e\<rparr> (captures r)\<rparr>"
  obtain l r2 where lock: "opposing_direction_locked r1 (ie_action e) = (l, r2)"
    by fastforce
  have "captures r2 = captures r1"
    by (rule opposing_locked_frame(1) [OF lock])
  moreover have "captures (snd (route_pressed r e c now)) =
      (if hm_contains (key_of e) (captures r) then captures r else captures r2)"
    using lock by (simp add: route_pressed_def r1_def Let_def arm_repeat_def
        split: option.splits input_context_kind.splits)
  ultimately show ?thesis
    by (auto simp: r1_def)
qed

lemma capture_route_released:
  "fmlookup (captures (snd (route_released r e))) k =
     (if k = key_of e then None else fmlookup (captures r) k)"
  by (auto simp: route_released_def Let_def update_neutral_locks_frame split: option.splits)

lemma captures_tick [simp]: "captures (snd (tick_repeat r now)) = captures r"
  using tick_repeat_over_cases [of r now all_actions] by (auto simp: tick_repeat_def)

lemma capture_step:
  "keeps_capture k op \<Longrightarrow> fmlookup (captures (router_step r op)) k = fmlookup (captures r) k"
  by (cases op) (auto simp: route_event_def Let_def capture_route_pressed capture_route_released
      consume_event_def update_neutral_locks_frame split: input_phase.splits)

lemma capture_steps:
  "list_all (keeps_capture k) ops \<Longrightarrow>
   fmlookup (captures (run_steps router_step r ops)) k = fmlookup (captures r) k"
  by (induction ops arbitrary: r) (simp_all add: capture_step)

text \<open>
  C36: Capture. However the focus moves and whatever other presses, releases and ticks happen in
  between, the release of a press is delivered to the context that was focused when the press was
  routed, and only once: a second release of the same press is stale.
\<close>

theorem release_follows_press_context:
  fixes r :: router and q q' q'' :: focus_request and now now' now'' :: instant
  assumes "ie_phase e = Pressed" and "\<not> hm_contains (key_of e) (captures r)"
    and "ie_phase e' = Released" and "key_of e' = key_of e"
    and "list_all (keeps_capture (key_of e)) ops" and "list_all (keeps_capture (key_of e)) ops'"
  defines "r1 \<equiv> snd (route_event r e q now)"
  defines "r2 \<equiv> run_steps router_step r1 ops"
  defines "r3 \<equiv> run_steps router_step (snd (route_event r2 e' q' now')) ops'"
  shows "fst (route_event r2 e' q' now') =
      ReleasedTo e' (ie_press_id e') (context_of (set_focus r q)) \<and>
    fst (route_event r3 e' q'' now'') = Consumed (ie_press_id e') StaleRelease"
proof -
  have "fmlookup (captures r1) (key_of e) =
      Some \<lparr>cap_context = context_of (set_focus r q), cap_action = ie_action e\<rparr>"
    using assms(1,2) by (simp add: r1_def route_event_def Let_def capture_route_pressed)
  then have c2: "fmlookup (captures r2) (key_of e) =
      Some \<lparr>cap_context = context_of (set_focus r q), cap_action = ie_action e\<rparr>"
    using assms(5) by (simp add: r2_def capture_steps)
  have "fmlookup (captures (snd (route_event r2 e' q' now'))) (key_of e) = None"
    using assms(3,4) by (simp add: route_event_def Let_def capture_route_released)
  then have "fmlookup (captures r3) (key_of e) = None"
    using assms(6) by (simp add: r3_def capture_steps)
  then show ?thesis
    using c2 assms(3,4) by (simp add: route_event_def Let_def route_released_def)
qed

section \<open>Faults and recovery\<close>

definition flushed :: "router \<Rightarrow> bool" where
  "flushed r \<longleftrightarrow> captures r = fmempty \<and> repeats r = fmempty \<and> \<not> horizontal_neutral_lock r \<and>
     \<not> vertical_neutral_lock r \<and> requires_neutral r"

definition neutral_batch :: "input_batch \<Rightarrow> bool" where
  "neutral_batch b \<longleftrightarrow> events b = [] \<and> held_after_last b = held_default"

lemma integrity_flush_simps [simp]:
  "seen_sequence (integrity_flush r) = seen_sequence r"
  "known_epoch (integrity_flush r) = known_epoch r"
  "seen_overflow_count (integrity_flush r) = seen_overflow_count r"
  "seen_desync_count (integrity_flush r) = seen_desync_count r"
  "validated_held (integrity_flush r) = held_default"
  "requires_neutral (integrity_flush r)"
  by (simp_all add: integrity_flush_def)

lemma flushed_flush [simp]: "flushed (integrity_flush r)"
  by (simp add: flushed_def integrity_flush_def)

lemma accept_sequenced_cases:
  assumes "accept_sequenced r b = (res, r')"
  obtains f where "res = Inl f" "f \<noteq> WaitingForNeutral" "flushed r'" "seen_sequence r' = seen_sequence r"
      "known_epoch r' = known_epoch r"
    | "res = Inl WaitingForNeutral" "requires_neutral r" "requires_neutral r'"
      "captures r' = captures r" "repeats r' = repeats r"
    | "res = Inr ()" "\<not> requires_neutral r'" "requires_neutral r \<longrightarrow> neutral_batch b"
      "captures r' = captures r" "repeats r' = repeats r"
      "validate_from b (validated_held r) = Inr (held_after_last b)" "\<not> gap_detected r b"
      "validated_held r' = held_after_last b"
      "seen_sequence r' = (case last_sequence b of None \<Rightarrow> seen_sequence r | Some s \<Rightarrow> Some s)"
      "known_epoch r' = known_epoch r"
  using assms
  by (auto simp: accept_sequenced_def Let_def neutral_batch_def validate_from_eq
      split: if_splits sum.splits)

lemma accept_batch_fault:
  assumes "accept_batch r b = (Inl f, r')"
  shows "requires_neutral r' \<and> (f \<noteq> WaitingForNeutral \<longrightarrow> flushed r')"
proof -
  have "requires_neutral r' \<and> (f \<noteq> WaitingForNeutral \<longrightarrow> flushed r')"
    if "accept_sequenced r0 b = (Inl f, r')" for r0
    using that by (cases rule: accept_sequenced_cases) (auto simp: flushed_def)
  then show ?thesis
    using assms flushed_flush by (fastforce simp: accept_batch_def Let_def flushed_def split: if_splits)
qed

lemma accept_batch_neutral:
  assumes "accept_batch r b = (Inr (), r')" and "requires_neutral r"
  shows "neutral_batch b"
proof -
  have "neutral_batch b" if "accept_sequenced r0 b = (Inr (), r')" "requires_neutral r0" for r0
    using that(1) by (cases rule: accept_sequenced_cases) (use that(2) in auto)
  then show ?thesis
    using assms by (auto simp: accept_batch_def Let_def integrity_flush_def split: if_splits)
qed

fun accept_all :: "router \<Rightarrow> input_batch list \<Rightarrow> (input_fault + unit) list \<times> router" where
  "accept_all r [] = ([], r)"
| "accept_all r (b # bs) =
     (let (res, r1) = accept_batch r b; (ress, r2) = accept_all r1 bs in (res # ress, r2))"

lemma accept_all_snoc:
  "accept_all r (bs @ [b]) =
     (fst (accept_all r bs) @ [fst (accept_batch (snd (accept_all r bs)) b)],
      snd (accept_batch (snd (accept_all r bs)) b))"
  by (induction bs arbitrary: r) (auto split: prod.splits)

lemma accept_all_faults_barrier:
  "requires_neutral r \<Longrightarrow> \<forall>x \<in> set (fst (accept_all r bs)). \<exists>f. x = Inl f \<Longrightarrow>
   requires_neutral (snd (accept_all r bs))"
proof (induction bs arbitrary: r)
  case Nil
  then show ?case by simp
next
  case (Cons b bs)
  obtain res r1 where step: "accept_batch r b = (res, r1)"
    by fastforce
  with Cons.prems obtain f where "res = Inl f"
    by (auto split: prod.splits)
  with step have "requires_neutral r1"
    using accept_batch_fault by blast
  with Cons.IH [of r1] Cons.prems step show ?case
    by (auto split: prod.splits)
qed

text \<open>
  C37: The neutral barrier. Once a batch was refused for any fault other than waiting for neutral,
  nothing is captured or repeating, and the next batch that is accepted is empty with nothing held.
\<close>

theorem faults_cross_neutral_barrier:
  assumes "accept_batch r b = (Inl f, r1)" and "f \<noteq> WaitingForNeutral"
    and "\<forall>x \<in> set (fst (accept_all r1 bs)). \<exists>g. x = Inl g"
    and "accept_batch (snd (accept_all r1 bs)) c = (Inr (), r2)"
  shows "captures r1 = fmempty \<and> repeats r1 = fmempty \<and> events c = [] \<and>
    held_after_last c = held_default"
proof -
  have "flushed r1"
    using accept_batch_fault [OF assms(1)] assms(2) by blast
  moreover from this have "requires_neutral (snd (accept_all r1 bs))"
    using assms(3) by (intro accept_all_faults_barrier) (auto simp: flushed_def)
  then have "neutral_batch c"
    using accept_batch_neutral [OF assms(4)] by blast
  ultimately show ?thesis
    by (simp add: flushed_def neutral_batch_def)
qed

section \<open>A lost watermark is never regained\<close>

definition same_link :: "input_batch \<Rightarrow> input_batch \<Rightarrow> bool" where
  "same_link b c \<longleftrightarrow> protocol (health c) = ProxyV2 \<and>
     overflow_count (health c) = overflow_count (health b) \<and>
     desync_count (health c) = desync_count (health b) \<and> ib_source_epoch c = ib_source_epoch b"

definition watermarked :: "input_batch \<Rightarrow> bool" where
  "watermarked b \<longleftrightarrow> first_sequence b = first_of (events b) \<and> last_sequence b = last_of (events b)"

definition stuck_at :: "u64 \<Rightarrow> input_batch \<Rightarrow> router \<Rightarrow> bool" where
  "stuck_at s b r \<longleftrightarrow> seen_sequence r = Some (sat_sub s 1) \<and> known_epoch r = Some (ib_source_epoch b)"

definition same_counters :: "input_batch \<Rightarrow> router \<Rightarrow> bool" where
  "same_counters b r \<longleftrightarrow> seen_overflow_count r = overflow_count (health b) \<and> seen_desync_count r = desync_count (health b)"

lemma sat_pred_succ: "s \<noteq> 0 \<Longrightarrow> sat_add (sat_sub s 1) 1 = s"
  for s :: u64
proof -
  assume "s \<noteq> 0"
  then have "0 < unat s"
    by (simp add: unat_gt_0)
  then show ?thesis
    using unat_le_max [of s] by (simp add: word_unat_eq_iff unat_sat_add unat_sat_sub)
qed

lemma stuck_sequenced:
  assumes "stuck_at s b r" and "s \<noteq> 0" and "watermarked c" and "\<forall>f. first_sequence c = Some f \<longrightarrow> s < f"
  shows "stuck_at s b (snd (accept_sequenced r c)) \<and> (same_counters b r \<longrightarrow> same_counters b (snd (accept_sequenced r c))) \<and>
    (events c \<noteq> [] \<longrightarrow> fst (accept_sequenced r c) = Inl FaultSequenceGap)"
proof (cases "events c")
  case Nil
  then have "first_sequence c = None" "last_sequence c = None"
    using assms(3) by (simp_all add: watermarked_def)
  then show ?thesis
    using assms(1) Nil
    by (auto simp: accept_sequenced_def stuck_at_def same_counters_def gap_detected_def Let_def split: sum.splits)
next
  case (Cons e es)
  then obtain f where f: "first_sequence c = Some f"
    using assms(3) by (simp add: watermarked_def)
  then have "s < f"
    using assms(4) by blast
  then have "gap_detected r c"
    using assms(1,2) f by (auto simp: gap_detected_def stuck_at_def sat_pred_succ)
  then show ?thesis
    using assms(1) by (simp add: accept_sequenced_def stuck_at_def same_counters_def)
qed

lemma stuck_step:
  assumes "stuck_at s b r" and "s \<noteq> 0" and "ib_source_epoch c = ib_source_epoch b" and "watermarked c"
    and "\<forall>f. first_sequence c = Some f \<longrightarrow> s < f"
  shows "stuck_at s b (snd (accept_batch r c)) \<and>
    (events c \<noteq> [] \<longrightarrow> (\<exists>fault. fst (accept_batch r c) = Inl fault)) \<and>
    (same_counters b r \<and> same_link b c \<longrightarrow> same_counters b (snd (accept_batch r c)) \<and>
       (events c \<noteq> [] \<longrightarrow> fst (accept_batch r c) = Inl FaultSequenceGap))"
  using stuck_sequenced [OF assms(1,2,4,5)] assms(1,3)
  by (simp add: accept_batch_def stuck_at_def same_counters_def same_link_def)

text \<open>A batch that the source of \<open>b\<close> sends after the event \<open>s\<close>.\<close>

definition sent_later :: "u64 \<Rightarrow> input_batch \<Rightarrow> input_batch \<Rightarrow> bool" where
  "sent_later s b c \<longleftrightarrow> ib_source_epoch c = ib_source_epoch b \<and> watermarked c \<and> (\<forall>f. first_sequence c = Some f \<longrightarrow> s < f)"

lemma sequenced_not_source_changed: "fst (accept_sequenced r b) \<noteq> Inl SourceChangedWhileHeld"
  by (auto simp: accept_sequenced_def Let_def split: sum.split)

text \<open>
  C40: A batch with events that is refused because the source changed (or because a control was
  already held in the first batch of a source) loses the watermark for good. Its events were not
  consumed, so as long as the source epoch stays every later batch of the source that carries events is
  refused, however many neutral batches lie between and whatever else is reported; and while the link
  stays healthy and its fault counters do not move, it is refused as a sequence gap.
\<close>

theorem refused_source_change_never_recovers:
  assumes "accept_batch r b = (Inl SourceChangedWhileHeld, r1)"
    and "first_sequence b = Some s" and "s \<noteq> 0"
    and "\<forall>c \<in> set cs. sent_later s b c"
  shows "\<forall>i < length cs. events (cs ! i) \<noteq> [] \<longrightarrow>
    (\<exists>fault. fst (accept_all r1 cs) ! i = Inl fault) \<and>
    ((\<forall>c \<in> set cs. same_link b c) \<longrightarrow> fst (accept_all r1 cs) ! i = Inl FaultSequenceGap)"
proof -
  have "accept_sequenced r' b \<noteq> (Inl SourceChangedWhileHeld, r1)" for r'
    using sequenced_not_source_changed [of r' b] by force
  then have "r1 = integrity_flush (r\<lparr>known_epoch := Some (ib_source_epoch b), seen_sequence := map_option (\<lambda>s. sat_sub s 1) (first_sequence b)\<rparr>)"
    "overflow_count (health b) = seen_overflow_count r" "desync_count (health b) = seen_desync_count r"
    using assms(1) by (auto simp: accept_batch_def Let_def split: if_splits)
  then have "stuck_at s b r1 \<and> same_counters b r1"
    using assms(2) by (simp add: stuck_at_def same_counters_def)
  moreover have "\<forall>i < length cs. events (cs ! i) \<noteq> [] \<longrightarrow>
      (\<exists>fault. fst (accept_all r1 cs) ! i = Inl fault) \<and>
      (healthy \<longrightarrow> fst (accept_all r1 cs) ! i = Inl FaultSequenceGap)"
    if "stuck_at s b r1" "healthy \<longrightarrow> same_counters b r1 \<and> (\<forall>c \<in> set cs. same_link b c)" for healthy
    using that assms(4)
  proof (induction cs arbitrary: r1)
    case Nil
    then show ?case by simp
  next
    case (Cons c cs)
    obtain res r2 where step: "accept_batch r1 c = (res, r2)"
      by fastforce
    have now: "sent_later s b c" "healthy \<Longrightarrow> same_counters b r1 \<and> same_link b c"
      using Cons.prems(2,3) by simp_all
    have c: "stuck_at s b r2" "events c \<noteq> [] \<Longrightarrow> \<exists>fault. res = Inl fault"
      "healthy \<Longrightarrow> same_counters b r2 \<and> (events c \<noteq> [] \<longrightarrow> res = Inl FaultSequenceGap)"
      using stuck_step [OF Cons.prems(1) assms(3), of c, unfolded step fst_conv snd_conv] now unfolding sent_later_def by blast+
    then have "\<forall>i < length cs. events (cs ! i) \<noteq> [] \<longrightarrow> (\<exists>fault. fst (accept_all r2 cs) ! i = Inl fault) \<and>
        (healthy \<longrightarrow> fst (accept_all r2 cs) ! i = Inl FaultSequenceGap)"
      using Cons.IH [of r2] Cons.prems(2,3) by simp
    then show ?case
      using c step by (auto simp: nth_Cons split: prod.splits nat.splits)
  qed
  ultimately show ?thesis
    by blast
qed

section \<open>Witnesses\<close>

text \<open>
  A menu in focus; a direction is pressed at time 0 and repeats at 300 ms, its opposite is pressed,
  the focus moves; batches with and without faults.
\<close>

definition menu_focus :: focus_request where
  "menu_focus = \<lparr>fr_target = \<lparr>ft_kind = ScreenContext, ft_owner = 1\<rparr>, fr_policy = MenuRepeat\<rparr>"

definition modal_focus :: focus_request where
  "modal_focus = \<lparr>fr_target = \<lparr>ft_kind = LauncherModal, ft_owner = 2\<rparr>, fr_policy = EdgeOnly\<rparr>"

definition key_event :: "press_id \<Rightarrow> logical_action \<Rightarrow> input_phase \<Rightarrow> input_event" where
  "key_event n a p = (example_event 5 p)\<lparr>ie_press_id := n, ie_action := a\<rparr>"

abbreviation press_down :: router_op where
  "press_down \<equiv> OpRoute (key_event 1 ActionDown Pressed) menu_focus 0"

lemmas router_example_defs = menu_focus_def modal_focus_def key_event_def example_defs router_new_def
  route_event_def set_focus_def route_pressed_def route_released_def opposing_direction_locked_def
  update_neutral_locks_def arm_repeat_def action_held_in_context_def hm_any_value_iff key_of_def
  tick_repeat_def all_actions_def key_consistent_def Let_def MENU_REPEAT_DELAY_def MENU_REPEAT_INTERVAL_def
  from_millis_def

lemma press_down_ok: "router_run_ok menu_focus [press_down]"
  by (simp add: router_example_defs)

lemma press_down_inv: "router_inv (router_run menu_focus [press_down])"
  using press_down_ok by (rule router_run_inv)

lemma press_down_repeats:
  "fst (tick_repeat (router_run menu_focus [press_down]) (from_millis 300)) =
     Some (Dispatch (key_event 1 ActionDown Pressed) (context_of (router_new menu_focus)) Repeat)"
  by (simp add: router_example_defs)

theorem repeat_only_while_held_witness:
  "action_held_in_context (router_run menu_focus [press_down]) ActionDown
     (context_of (router_run menu_focus [press_down]))"
proof -
  obtain r' where "tick_repeat (router_run menu_focus [press_down]) (from_millis 300) =
      (Some (Dispatch (key_event 1 ActionDown Pressed) (context_of (router_new menu_focus)) Repeat), r')"
    using press_down_repeats by (metis prod.collapse)
  from repeat_only_while_held [OF press_down_ok this] show ?thesis
    by (simp add: key_event_def)
qed

theorem opposing_directions_exclusive_witness:
  "\<not> (action_held (router_run menu_focus [press_down]) ActionUp \<and>
      action_held (router_run menu_focus [press_down]) ActionDown)"
  using opposing_directions_exclusive [OF press_down_ok] by blast

theorem opposing_press_consumed_witness:
  "fst (route_event (router_run menu_focus [press_down]) (key_event 2 ActionUp Pressed) menu_focus 10) =
     Consumed 2 OpposingDirections"
proof -
  obtain out r' where res: "route_event (router_run menu_focus [press_down])
      (key_event 2 ActionUp Pressed) menu_focus 10 = (out, r')"
    by fastforce
  have "out = Consumed (ie_press_id (key_event 2 ActionUp Pressed)) OpposingDirections"
    using opposing_press_consumed [OF press_down_inv _ _ _ _ _ res, of ActionDown]
    by (simp add: router_example_defs)
  with res show ?thesis
    by (simp add: key_event_def)
qed

theorem repeat_spacing_witness:
  "\<nexists>e c k r. tick_repeat (snd (tick_repeat (router_run menu_focus [press_down]) (from_millis 300)))
     (from_millis 379) = (Some (Dispatch e c k), r) \<and> ie_action e = ActionDown"
proof -
  obtain r' where *: "tick_repeat (router_run menu_focus [press_down]) (from_millis 300) =
      (Some (Dispatch (key_event 1 ActionDown Pressed) (context_of (router_new menu_focus)) Repeat), r')"
    using press_down_repeats by (metis prod.collapse)
  have "from_millis 379 < from_millis 300 + MENU_REPEAT_INTERVAL"
    by (simp add: from_millis_def MENU_REPEAT_INTERVAL_def)
  from repeat_spacing [OF press_down_inv * this] * show ?thesis
    by (auto simp: key_event_def)
qed

lemma press_down_dispatched:
  "fst (route_event (router_new menu_focus) (key_event 1 ActionDown Pressed) menu_focus 0) =
     Dispatch (key_event 1 ActionDown Pressed) (context_of (router_new menu_focus)) Initial"
  by (simp add: router_example_defs)

theorem repeat_initial_delay_witness:
  "\<nexists>e c k r. tick_repeat (router_run menu_focus [press_down]) (from_millis 299) =
     (Some (Dispatch e c k), r) \<and> ie_action e = ActionDown"
proof -
  obtain r' where *: "route_event (router_new menu_focus) (key_event 1 ActionDown Pressed) menu_focus 0 =
      (Dispatch (key_event 1 ActionDown Pressed) (context_of (router_new menu_focus)) Initial, r')"
    using press_down_dispatched by (metis prod.collapse)
  have pre: "router_inv (router_new menu_focus)" "ctx_generation (context_of (router_new menu_focus)) \<noteq> - 1"
    "ie_phase (key_event 1 ActionDown Pressed) = Pressed" "fr_policy menu_focus = MenuRepeat"
    "is_direction (ie_action (key_event 1 ActionDown Pressed))"
    "from_millis 299 < 0 + MENU_REPEAT_DELAY"
    using router_run_inv [of menu_focus "[]"]
    by (simp_all add: key_event_def router_new_def menu_focus_def example_defs from_millis_def MENU_REPEAT_DELAY_def)
  from repeat_initial_delay [OF pre(1-3) * pre(4-6)] * show ?thesis
    by (auto simp: key_event_def)
qed

theorem release_follows_press_context_witness:
  "fst (route_event (run_steps router_step (router_run menu_focus [press_down])
      [OpFocus modal_focus, OpTick 10]) (key_event 1 ActionDown Released) modal_focus 20) =
    ReleasedTo (key_event 1 ActionDown Released) 1 (context_of (set_focus (router_new menu_focus) menu_focus))"
  using conjunct1 [OF release_follows_press_context [of "key_event 1 ActionDown Pressed" "router_new menu_focus"
    "key_event 1 ActionDown Released" "[OpFocus modal_focus, OpTick 10]" "[]" menu_focus 0 modal_focus 20
    menu_focus 30]]
  by (simp add: key_event_def key_of_def example_defs router_new_def)

definition overflow_batch :: input_batch where
  "overflow_batch = (example_batch [] held_default)\<lparr>health := \<lparr>protocol = ProxyV2, queue_depth = 0,
     queue_high_water = 0, overflow_count = 1, desync_count = 0, proxy_generation = 0\<rparr>\<rparr>"

definition lost_batch :: input_batch where
  "lost_batch = overflow_batch\<lparr>health := input_health_default\<rparr>"

lemmas gate_example_defs = overflow_batch_def lost_batch_def router_example_defs input_health_default_def
  accept_batch_def accept_sequenced_def gap_detected_def validate_from_def integrity_flush_def
  held_default_def

lemma barrier_refused: "fst (accept_batch (router_new menu_focus) overflow_batch) = Inl Overflow"
  by (simp add: gate_example_defs)

lemma barrier_accepted:
  "fst (accept_batch (snd (accept_all (snd (accept_batch (router_new menu_focus) overflow_batch)) [lost_batch]))
     overflow_batch) = Inr ()"
  "fst (accept_all (snd (accept_batch (router_new menu_focus) overflow_batch)) [lost_batch]) = [Inl ProxyUnavailable]"
  by (simp_all add: gate_example_defs)

theorem faults_cross_neutral_barrier_witness:
  "captures (snd (accept_batch (router_new menu_focus) overflow_batch)) = fmempty \<and> events overflow_batch = []"
proof -
  obtain r1 where r1: "accept_batch (router_new menu_focus) overflow_batch = (Inl Overflow, r1)"
    using barrier_refused by (metis prod.collapse)
  obtain r2 where r2: "accept_batch (snd (accept_all r1 [lost_batch])) overflow_batch = (Inr (), r2)"
    using barrier_accepted(1) r1 by (metis prod.collapse snd_conv)
  have "\<forall>x \<in> set (fst (accept_all r1 [lost_batch])). \<exists>g. x = Inl g"
    using barrier_accepted(2) r1 by simp
  from faults_cross_neutral_barrier [OF r1 _ this r2] r1 show ?thesis
    by simp
qed

definition held_batch :: input_batch where
  "held_batch = example_batch [example_event 5 Pressed] (set_held held_default ActionActivate True)"

definition later_batch :: input_batch where
  "later_batch = example_batch [example_event 6 Released] held_default"

lemma held_batch_refused: "fst (accept_batch (router_new menu_focus) held_batch) = Inl SourceChangedWhileHeld"
  by (simp add: held_batch_def gate_example_defs set_held_def fun_eq_iff)

theorem refused_source_change_never_recovers_witness:
  "fst (accept_all (snd (accept_batch (router_new menu_focus) held_batch)) [later_batch]) ! 0 =
     Inl FaultSequenceGap"
proof -
  obtain r1 where r1: "accept_batch (router_new menu_focus) held_batch = (Inl SourceChangedWhileHeld, r1)"
    using held_batch_refused by (metis prod.collapse)
  have first: "first_sequence held_batch = Some 5" "(5 :: u64) \<noteq> 0" "\<forall>c \<in> set [later_batch]. sent_later 5 held_batch c"
    by (simp_all add: sent_later_def held_batch_def later_batch_def example_defs watermarked_def)
  have healthy: "\<forall>c \<in> set [later_batch]. same_link held_batch c"
    by (simp add: held_batch_def later_batch_def example_defs same_link_def)
  have "events ([later_batch] ! 0) \<noteq> []"
    by (simp add: later_batch_def example_batch_def)
  with refused_source_change_never_recovers [OF r1 first] healthy r1 show ?thesis
    by (metis length_Cons snd_conv zero_less_Suc)
qed

end
