(* ===== verification/Input_Hub.thy ===== *)
theory Input_Hub
  imports Input_Router
begin

text \<open>
  \<open>apps/mister/src/input_hub.rs\<close>: the mailbox between the input-reader thread and the launcher's
  frame loop, and the reader itself. The mailbox operations, \<open>drain_proxy\<close> and one turn of
  \<open>capture_loop\<close> are functions; what the kernel returns (bytes read, poll results, clock values,
  the discovered device) is their input. The lemmas show that the journal is always a replay of
  the held state, that the reader can only lose the journal to overflow, and that on a healthy link
  the router accepts every drained batch and receives every published event exactly once.
\<close>

section \<open>Data\<close>

definition JOURNAL_CAPACITY :: nat where
  "JOURNAL_CAPACITY = 1024"

record reader_evidence =
  re_poll_returned_at_us :: u64
  re_poll_thread_cpu_us :: u64
  re_poll_cpu :: "32 word option"
  re_read_started_at_us :: u64
  re_captured_thread_cpu_us :: u64
  re_captured_cpu :: "32 word option"
  re_poll_runtime_delta_us :: "u64 option"
  re_poll_run_delay_delta_us :: "u64 option"
  re_poll_timeslice_delta :: "u64 option"

record mailbox_event =
  me_event :: input_event
  me_published_at_us :: u64
  me_proxy_sequence :: "u32 option"
  me_proxy_kernel_at_us :: "u64 option"
  me_reader :: "reader_evidence option"

record proxy_metadata =
  pm_sequence :: "u32 option"
  pm_kernel_at_us :: "u64 option"
  pm_reader :: "reader_evidence option"

record mailbox =
  mb_epoch :: source_epoch
  mb_next_sequence :: u64
  mb_events :: "mailbox_event list"
  mb_held :: held_state
  mb_topology :: input_topology
  mb_health :: input_health
  mb_wake_generation :: u64

definition mailbox_default :: mailbox where
  "mailbox_default = \<lparr>mb_epoch = 0, mb_next_sequence = 0, mb_events = [], mb_held = held_default,
     mb_topology = \<lparr>devices = [], revision = 0\<rparr>, mb_health = input_health_default,
     mb_wake_generation = 0\<rparr>"

record publication =
  pub_sequence :: u64
  pub_published_at_us :: u64
  pub_proxy_sequence :: "u32 option"
  pub_proxy_kernel_at_us :: "u64 option"
  pub_reader :: "reader_evidence option"

record drained_input =
  di_batch :: input_batch
  di_publications :: "publication list"
  di_observation :: u64

section \<open>The mailbox\<close>

definition note_change :: "mailbox \<Rightarrow> mailbox" where
  "note_change m = m\<lparr>mb_wake_generation := mb_wake_generation m + 1\<rparr>"

definition journal_overflow :: "mailbox \<Rightarrow> mailbox" where
  "journal_overflow m =
     note_change (m\<lparr>mb_health := (mb_health m)\<lparr>overflow_count := sat_add (overflow_count (mb_health m)) 1,
                      desync_count := sat_add (desync_count (mb_health m)) 1,
                      protocol := Unhealthy, queue_depth := 0\<rparr>,
                    mb_events := [], mb_held := held_default, mb_epoch := sat_add (mb_epoch m) 1\<rparr>)"

definition publish_proxy ::
  "mailbox \<Rightarrow> pending_input_event \<Rightarrow> proxy_metadata \<Rightarrow> u64 \<Rightarrow> bool \<times> mailbox" where
  "publish_proxy m p proxy now_us =
     (if JOURNAL_CAPACITY \<le> length (mb_events m) then (False, journal_overflow m)
      else let m1 = m\<lparr>mb_next_sequence := next_counter (mb_next_sequence m)\<rparr>;
               event = with_sequence p (mb_next_sequence m1)
           in case apply_event (mb_held m1) event of
                Inl _ \<Rightarrow>
                  (False, note_change (m1\<lparr>mb_health := (mb_health m1)\<lparr>
                     desync_count := sat_add (desync_count (mb_health m1)) 1, protocol := Unhealthy\<rparr>\<rparr>))
              | Inr held' \<Rightarrow>
                  let events' = mb_events m1 @ [\<lparr>me_event = event, me_published_at_us = now_us,
                        me_proxy_sequence = pm_sequence proxy, me_proxy_kernel_at_us = pm_kernel_at_us proxy,
                        me_reader = pm_reader proxy\<rparr>]
                  in (True, note_change (m1\<lparr>mb_held := held', mb_events := events',
                        mb_health := (mb_health m1)\<lparr>queue_depth := length events',
                          queue_high_water := max (queue_high_water (mb_health m1)) (length events')\<rparr>\<rparr>)))"

definition mark_proxy_open :: "mailbox \<Rightarrow> u64 \<Rightarrow> string \<Rightarrow> source_epoch \<times> mailbox" where
  "mark_proxy_open m gen path =
     (let m1 = note_change (m\<lparr>mb_epoch := next_counter (mb_epoch m),
                 mb_health := (mb_health m)\<lparr>protocol := ProxyV2, proxy_generation := gen\<rparr>,
                 mb_topology := \<lparr>devices = [\<lparr>plug_id = path, dev_generation = gen\<rparr>],
                                 revision = sat_add (revision (mb_topology m)) 1\<rparr>\<rparr>)
      in (mb_epoch m1, m1))"

definition mark_proxy_lost :: "mailbox \<Rightarrow> mailbox" where
  "mark_proxy_lost m =
     note_change (m\<lparr>mb_health := (mb_health m)\<lparr>protocol := Unhealthy,
                      desync_count := sat_add (desync_count (mb_health m)) 1, queue_depth := 0\<rparr>,
                    mb_events := [], mb_held := held_default,
                    mb_topology := \<lparr>devices = [], revision = sat_add (revision (mb_topology m)) 1\<rparr>,
                    mb_epoch := next_counter (mb_epoch m)\<rparr>)"

definition publication_of :: "mailbox_event \<Rightarrow> publication" where
  "publication_of e = \<lparr>pub_sequence = ie_sequence (me_event e),
     pub_published_at_us = me_published_at_us e, pub_proxy_sequence = me_proxy_sequence e,
     pub_proxy_kernel_at_us = me_proxy_kernel_at_us e, pub_reader = me_reader e\<rparr>"

definition drain :: "mailbox \<Rightarrow> drained_input \<times> mailbox" where
  "drain m =
     (let evs = map me_event (mb_events m);
          m1 = m\<lparr>mb_events := [], mb_health := (mb_health m)\<lparr>queue_depth := 0\<rparr>\<rparr>
      in (\<lparr>di_batch = \<lparr>ib_source_epoch = mb_epoch m1, first_sequence = first_of evs,
             last_sequence = last_of evs, events = evs, held_after_last = mb_held m1,
             topology = mb_topology m1, health = mb_health m1\<rparr>,
           di_publications = map publication_of (mb_events m),
           di_observation = mb_wake_generation m1\<rparr>, m1))"

definition changed_since :: "mailbox \<Rightarrow> u64 \<Rightarrow> bool" where
  "changed_since m observation \<longleftrightarrow> mb_wake_generation m \<noteq> observation"

datatype input_wait_outcome = WaitChanged | WaitTimedOut

text \<open>
  \<open>wait_for_change\<close>: the condition variable wakes the waiter in some later mailbox state (at the
  latest when the timeout has passed); \<open>later\<close> is that state.
\<close>

definition wait_for_change :: "mailbox \<Rightarrow> mailbox \<Rightarrow> u64 \<Rightarrow> input_wait_outcome" where
  "wait_for_change m later observation =
     (if mb_wake_generation m \<noteq> observation then WaitChanged
      else if mb_wake_generation later \<noteq> observation then WaitChanged else WaitTimedOut)"

section \<open>The reader\<close>

definition EV_SYN :: u16 where "EV_SYN = 0"
definition EV_KEY :: u16 where "EV_KEY = 1"
definition EV_MSC :: u16 where "EV_MSC = 4"
definition SYN_DROPPED :: u16 where "SYN_DROPPED = 3"
definition MSC_SERIAL :: u16 where "MSC_SERIAL = 0"

definition logical_action_for_key :: "u16 \<Rightarrow> logical_action option" where
  "logical_action_for_key code =
     (if code = 103 then Some ActionUp
      else if code = 108 then Some ActionDown
      else if code = 105 then Some ActionLeft
      else if code = 106 then Some ActionRight
      else if code = 28 then Some ActionActivate
      else if code = 1 then Some ActionBack
      else if code = 139 then Some ActionHome
      else if code = 15 then Some ActionX
      else if code = 57 then Some ActionY
      else if code = 104 then Some ActionL
      else if code = 109 then Some ActionR
      else if code = 68 then Some ActionSelect
      else if code = 67 then Some ActionStart
      else None)"

text \<open>
  \<open>struct input_event\<close> as the kernel lays it out on the little-endian targets: two time fields of
  eight bytes each (64-bit) or four bytes each (32-bit), then type, code and value.
\<close>

definition from_ne_bytes :: "u8 list \<Rightarrow> 'a::len word" where
  "from_ne_bytes bs = word_rcat (rev bs)"

definition sat_mul :: "u64 \<Rightarrow> u64 \<Rightarrow> u64" where
  "sat_mul a b = (if unat a * unat b < 2 ^ 64 then a * b else - 1)"

definition non_negative :: "int \<Rightarrow> u64" where
  "non_negative i = (if i < 0 then 0 else of_int i)"

definition parse_input_event :: "bool \<Rightarrow> u8 list \<Rightarrow> u64 \<times> u16 \<times> u16 \<times> 32 word" where
  "parse_input_event wide bs =
     (let n = (if wide then 16 else 8);
          stamp = (if wide
            then sat_add (sat_mul (non_negative (sint (from_ne_bytes (take 8 bs) :: 64 word))) 1000000)
                   (non_negative (sint (from_ne_bytes (take 8 (drop 8 bs)) :: 64 word)))
            else sat_add (sat_mul (non_negative (sint (from_ne_bytes (take 4 bs) :: 32 word))) 1000000)
                   (non_negative (sint (from_ne_bytes (take 4 (drop 4 bs)) :: 32 word))))
      in (stamp, from_ne_bytes (take 2 (drop n bs)), from_ne_bytes (take 2 (drop (n + 2) bs)),
          from_ne_bytes (take 4 (drop (n + 4) bs))))"

record proxy_reader =
  pr_path :: string
  pr_source :: input_source_id
  pr_epoch :: source_epoch
  pr_reducer :: reducer
  pr_protocol_v3 :: bool
  pr_pending_proxy_sequence :: "u32 option"

record poll_evidence =
  pv_returned_at_us :: u64
  pv_thread_cpu_us :: u64
  pv_cpu :: "32 word option"
  pv_runtime_delta_us :: "u64 option"
  pv_run_delay_delta_us :: "u64 option"
  pv_timeslice_delta :: "u64 option"

text \<open>One successful \<open>read_exact\<close>, with the clocks the loop body samples while handling it.\<close>

record raw_read =
  rr_bytes :: "u8 list"
  rr_read_started_at_us :: u64
  rr_thread_cpu_us :: u64
  rr_cpu :: "32 word option"
  rr_captured_at_us :: u64
  rr_published_at_us :: u64

datatype read_result = ReadOk raw_read | ReadWouldBlock | ReadError

datatype proxy_error = InputDesync | InputJournalOverflow | InvalidInputPhase | DeviceReadError

definition proxy_evidence :: "poll_evidence \<Rightarrow> raw_read \<Rightarrow> reader_evidence" where
  "proxy_evidence poll rd = \<lparr>re_poll_returned_at_us = pv_returned_at_us poll,
     re_poll_thread_cpu_us = pv_thread_cpu_us poll, re_poll_cpu = pv_cpu poll,
     re_read_started_at_us = rr_read_started_at_us rd, re_captured_thread_cpu_us = rr_thread_cpu_us rd,
     re_captured_cpu = rr_cpu rd, re_poll_runtime_delta_us = pv_runtime_delta_us poll,
     re_poll_run_delay_delta_us = pv_run_delay_delta_us poll,
     re_poll_timeslice_delta = pv_timeslice_delta poll\<rparr>"

text \<open>A key event that maps to an action: the reducer decides whether anything is published.\<close>

definition proxy_key_event ::
  "proxy_reader \<Rightarrow> mailbox \<Rightarrow> poll_evidence \<Rightarrow> raw_read \<Rightarrow> u64 \<Rightarrow> logical_action \<Rightarrow> input_phase
   \<Rightarrow> (proxy_error + unit) \<times> proxy_reader \<times> mailbox" where
  "proxy_key_event reader m poll rd kernel_at_us act phase =
     (let proxy = \<lparr>pm_sequence = pr_pending_proxy_sequence reader, pm_kernel_at_us = Some kernel_at_us,
                   pm_reader = Some (proxy_evidence poll rd)\<rparr>;
          (res, red) = transition (pr_reducer reader) \<lparr>rt_source = pr_source reader,
             rt_epoch = pr_epoch reader, rt_action = act, rt_phase = phase,
             rt_captured_at_us = rr_captured_at_us rd\<rparr>;
          reader1 = reader\<lparr>pr_pending_proxy_sequence := None, pr_reducer := red\<rparr>
      in case res of
           Inr (Some pending) \<Rightarrow>
             let (published, m1) = publish_proxy m pending proxy (rr_published_at_us rd)
             in (if published then Inr () else Inl InputJournalOverflow, reader1, m1)
         | Inr None \<Rightarrow> (Inr (), reader1, m)
         | Inl (UnmatchedRelease _ _) \<Rightarrow> (Inr (), reader1, m)
         | Inl _ \<Rightarrow> (Inl InvalidInputPhase, reader1, m))"

definition phase_of_value :: "32 word \<Rightarrow> input_phase option" where
  "phase_of_value v = (if v = 0 then Some Released else if v = 1 then Some Pressed else None)"

definition drain_proxy_read ::
  "bool \<Rightarrow> proxy_reader \<Rightarrow> mailbox \<Rightarrow> poll_evidence \<Rightarrow> raw_read
   \<Rightarrow> (proxy_error + unit) \<times> proxy_reader \<times> mailbox" where
  "drain_proxy_read wide reader m poll rd =
     (let (kernel_at_us, event_type, code, v) = parse_input_event wide (rr_bytes rd) in
      if event_type = EV_SYN \<and> code = SYN_DROPPED then (Inl InputDesync, reader, m)
      else if pr_protocol_v3 reader \<and> event_type = EV_MSC \<and> code = MSC_SERIAL
      then (Inr (), reader\<lparr>pr_pending_proxy_sequence := (if 0 < sint v then Some v else None)\<rparr>, m)
      else if event_type \<noteq> EV_KEY then (Inr (), reader, m)
      else if v = 2 then (Inr (), reader, m)
      else case logical_action_for_key code of
             None \<Rightarrow> (Inr (), reader, m)
           | Some act \<Rightarrow>
               case phase_of_value v of
                 None \<Rightarrow> (Inr (), reader, m)
               | Some phase \<Rightarrow> proxy_key_event reader m poll rd kernel_at_us act phase)"

text \<open>The read loop, over what the successive reads return; no further result means \<open>WouldBlock\<close>.\<close>

fun drain_proxy ::
  "bool \<Rightarrow> proxy_reader \<Rightarrow> mailbox \<Rightarrow> poll_evidence \<Rightarrow> read_result list
   \<Rightarrow> (proxy_error + unit) \<times> proxy_reader \<times> mailbox" where
  "drain_proxy wide reader m poll [] = (Inr (), reader, m)"
| "drain_proxy wide reader m poll (ReadWouldBlock # rs) = (Inr (), reader, m)"
| "drain_proxy wide reader m poll (ReadError # rs) = (Inl DeviceReadError, reader, m)"
| "drain_proxy wide reader m poll (ReadOk rd # rs) =
     (case drain_proxy_read wide reader m poll rd of
        (Inl err, reader1, m1) \<Rightarrow> (Inl err, reader1, m1)
      | (Inr _, reader1, m1) \<Rightarrow> drain_proxy wide reader1 m1 poll rs)"

datatype poll_result =
  PollInterrupted
| PollFault
| PollReadable poll_evidence "read_result list"
| PollQuiet bool

text \<open>
  The surroundings of one turn of \<open>capture_loop\<close>: the device found when there is no reader and
  whether opening it succeeds, and the outcome of the poll (\<open>PollQuiet\<close> carries whether the device
  node still exists).
\<close>

record turn_input =
  ti_discovered :: "string option"
  ti_opened :: bool
  ti_poll :: poll_result

record capture_thread =
  ct_reader :: "proxy_reader option"
  ct_generation :: u64
  ct_mailbox :: mailbox

definition capture_default :: capture_thread where
  "capture_default = \<lparr>ct_reader = None, ct_generation = 0, ct_mailbox = mailbox_default\<rparr>"

definition open_reader :: "bool \<Rightarrow> capture_thread \<Rightarrow> string \<Rightarrow> capture_thread" where
  "open_reader v3 c path =
     (let gen = next_counter (ct_generation c);
          (epoch, m1) = mark_proxy_open (ct_mailbox c) gen path
      in \<lparr>ct_reader = Some \<lparr>pr_path = path,
             pr_source = \<lparr>src_kind = MainProxy, src_instance = gen\<rparr>, pr_epoch = epoch,
             pr_reducer = reducer_default, pr_protocol_v3 = v3, pr_pending_proxy_sequence = None\<rparr>,
          ct_generation = gen, ct_mailbox = m1\<rparr>)"

definition lose_proxy :: "capture_thread \<Rightarrow> capture_thread" where
  "lose_proxy c = c\<lparr>ct_reader := None, ct_mailbox := mark_proxy_lost (ct_mailbox c)\<rparr>"

definition discover_reader :: "bool \<Rightarrow> capture_thread \<Rightarrow> turn_input \<Rightarrow> capture_thread" where
  "discover_reader v3 c t =
     (case (ct_reader c, ti_discovered t) of
        (None, Some path) \<Rightarrow> if ti_opened t then open_reader v3 c path else c
      | _ \<Rightarrow> c)"

definition poll_reader ::
  "bool \<Rightarrow> capture_thread \<Rightarrow> proxy_reader \<Rightarrow> poll_result \<Rightarrow> capture_thread" where
  "poll_reader wide c active poll =
     (case poll of
        PollInterrupted \<Rightarrow> c
      | PollFault \<Rightarrow> lose_proxy c
      | PollReadable evidence rs \<Rightarrow>
          (case drain_proxy wide active (ct_mailbox c) evidence rs of
             (Inr _, reader1, m1) \<Rightarrow> c\<lparr>ct_reader := Some reader1, ct_mailbox := m1\<rparr>
           | (Inl _, reader1, m1) \<Rightarrow> lose_proxy (c\<lparr>ct_reader := Some reader1, ct_mailbox := m1\<rparr>))
      | PollQuiet path_exists \<Rightarrow> if path_exists then c else lose_proxy c)"

definition capture_turn :: "bool \<Rightarrow> bool \<Rightarrow> capture_thread \<Rightarrow> turn_input \<Rightarrow> capture_thread" where
  "capture_turn wide v3 c t =
     (let c1 = discover_reader v3 c t
      in case ct_reader c1 of
           None \<Rightarrow> c1
         | Some active \<Rightarrow> poll_reader wide c1 active (ti_poll t))"

section \<open>The capture thread invariant\<close>

text \<open>
  The mailbox journal is bounded and counted; while there is a reader the mailbox is healthy, in the
  reader's epoch, and its held state is the reducer's; without a reader the mailbox is unhealthy,
  empty and released.
\<close>

definition journal_bounded :: "mailbox \<Rightarrow> bool" where
  "journal_bounded m \<longleftrightarrow> length (mb_events m) \<le> JOURNAL_CAPACITY \<and>
     queue_depth (mb_health m) = length (mb_events m) \<and>
     length (mb_events m) \<le> queue_high_water (mb_health m) \<and>
     queue_high_water (mb_health m) \<le> JOURNAL_CAPACITY"

definition reader_inv :: "proxy_reader \<Rightarrow> mailbox \<Rightarrow> bool" where
  "reader_inv reader m \<longleftrightarrow> journal_bounded m \<and> protocol (mb_health m) = ProxyV2 \<and>
     mb_epoch m = pr_epoch reader \<and> mb_held m = held_of_reducer (pr_reducer reader) \<and>
     reducer_synced (pr_reducer reader) \<and>
     fmpred (\<lambda>_ e. e = pr_epoch reader) (active_sources (pr_reducer reader)) \<and>
     proxy_generation (mb_health m) = src_instance (pr_source reader)"

definition capture_inv :: "capture_thread \<Rightarrow> bool" where
  "capture_inv c \<longleftrightarrow>
     (case ct_reader c of
        None \<Rightarrow> protocol (mb_health (ct_mailbox c)) = Unhealthy \<and> mb_events (ct_mailbox c) = [] \<and>
          mb_held (ct_mailbox c) = held_default \<and> journal_bounded (ct_mailbox c)
      | Some reader \<Rightarrow> reader_inv reader (ct_mailbox c))"

lemma capture_inv_default: "capture_inv capture_default"
  by (simp add: capture_inv_def capture_default_def mailbox_default_def input_health_default_def
      journal_bounded_def JOURNAL_CAPACITY_def)

lemma capture_inv_lose: "capture_inv c \<Longrightarrow> capture_inv (lose_proxy c)"
  by (auto simp: capture_inv_def lose_proxy_def mark_proxy_lost_def note_change_def reader_inv_def
      journal_bounded_def split: option.splits)

lemma capture_inv_lose': "journal_bounded (ct_mailbox c) \<Longrightarrow> capture_inv (lose_proxy c)"
  by (auto simp: capture_inv_def lose_proxy_def mark_proxy_lost_def note_change_def journal_bounded_def)

lemma active_sources_default [simp]: "active_sources reducer_default = fmempty"
  by (simp add: reducer_default_def)

lemma capture_inv_open:
  "capture_inv c \<Longrightarrow> ct_reader c = None \<Longrightarrow> capture_inv (open_reader v3 c path)"
  using reducer_synced_default
  by (auto simp: capture_inv_def open_reader_def mark_proxy_open_def note_change_def reader_inv_def
      journal_bounded_def Let_def)

text \<open>What a publication does, as one case distinction.\<close>

lemma publish_proxy_cases:
  assumes "publish_proxy m p proxy t = (ok, m')"
  obtains (overflow) "\<not> ok" "JOURNAL_CAPACITY \<le> length (mb_events m)" "m' = journal_overflow m"
  | (refused) err where "\<not> ok" "length (mb_events m) < JOURNAL_CAPACITY"
      "apply_event (mb_held m) (with_sequence p (next_counter (mb_next_sequence m))) = Inl err"
      "mb_events m' = mb_events m" "mb_held m' = mb_held m"
      "mb_health m' = (mb_health m)\<lparr>desync_count := sat_add (desync_count (mb_health m)) 1, protocol := Unhealthy\<rparr>"
  | (published) e where "ok" "length (mb_events m) < JOURNAL_CAPACITY"
      "apply_event (mb_held m) (with_sequence p (next_counter (mb_next_sequence m))) = Inr (mb_held m')"
      "me_event e = with_sequence p (next_counter (mb_next_sequence m))"
      "mb_events m' = mb_events m @ [e]" "mb_next_sequence m' = next_counter (mb_next_sequence m)"
      "mb_epoch m' = mb_epoch m"
      "mb_health m' = (mb_health m)\<lparr>queue_depth := Suc (length (mb_events m)),
         queue_high_water := max (queue_high_water (mb_health m)) (Suc (length (mb_events m)))\<rparr>"
proof (cases "JOURNAL_CAPACITY \<le> length (mb_events m)")
  case True
  then show ?thesis
    using assms by (intro overflow) (auto simp: publish_proxy_def)
next
  case False
  let ?e = "with_sequence p (next_counter (mb_next_sequence m))"
  show ?thesis
  proof (cases "apply_event (mb_held m) ?e")
    case (Inl err)
    then show ?thesis
      using assms False by (intro refused) (auto simp: publish_proxy_def note_change_def)
  next
    case (Inr h)
    then show ?thesis
      using assms False
      by (intro published [of "\<lparr>me_event = ?e, me_published_at_us = t,
            me_proxy_sequence = pm_sequence proxy, me_proxy_kernel_at_us = pm_kernel_at_us proxy,
            me_reader = pm_reader proxy\<rparr>"])
        (auto simp: publish_proxy_def note_change_def Let_def)
  qed
qed

lemma journal_bounded_publish:
  "journal_bounded m \<Longrightarrow> journal_bounded (snd (publish_proxy m p proxy t))"
proof -
  assume m: "journal_bounded m"
  obtain ok m' where pub: "publish_proxy m p proxy t = (ok, m')"
    by fastforce
  then show ?thesis
    using m by (cases rule: publish_proxy_cases)
      (auto simp: pub journal_bounded_def journal_overflow_def note_change_def)
qed

text \<open>One raw transition through the reducer and the mailbox keeps reader and mailbox in step.\<close>

lemma transition_keeps_epoch:
  assumes "transition r t = (res, r')"
    and "fmpred (\<lambda>_ e. e = rt_epoch t) (active_sources r)"
  shows "fmpred (\<lambda>_ e. e = rt_epoch t) (active_sources r')"
  using assms by (auto simp: transition_defs intro!: fmpred_drop split: transition_splits)

lemma emitted_cases: "emitted res = [] \<longleftrightarrow> (\<forall>p. res \<noteq> Inr (Some p))"
  "emitted res = [p] \<longleftrightarrow> res = Inr (Some p)"
  by (auto simp: emitted_def split: sum.splits option.splits)

lemma proxy_key_event_inv:
  assumes inv: "reader_inv reader m"
    and step: "proxy_key_event reader m poll rd k act phase = (res, reader', m')"
  shows "journal_bounded m' \<and> (res = Inr () \<longrightarrow> reader_inv reader' m')"
proof -
  define t where "t = \<lparr>rt_source = pr_source reader, rt_epoch = pr_epoch reader, rt_action = act,
    rt_phase = phase, rt_captured_at_us = rr_captured_at_us rd\<rparr>"
  obtain tres red where tr: "transition (pr_reducer reader) t = (tres, red)"
    by fastforce
  have epochs: "fmpred (\<lambda>_ e. e = pr_epoch reader) (active_sources red)"
    using transition_keeps_epoch [OF tr] inv by (simp add: t_def reader_inv_def)
  have "current_epoch (pr_reducer reader) t"
    using inv by (auto simp: current_epoch_def reader_inv_def t_def dest: fmpredD split: option.splits)
  then have synced: "reducer_synced red"
    using reducer.step_inv [of "pr_reducer reader" t] inv tr
    by (simp add: reader_inv_def reducer_step_def)
  show ?thesis
  proof (cases "\<exists>p. tres = Inr (Some p)")
    case True
    then obtain p where p: "tres = Inr (Some p)" ..
    define meta where "meta = \<lparr>pm_sequence = pr_pending_proxy_sequence reader, pm_kernel_at_us = Some k,
      pm_reader = Some (proxy_evidence poll rd)\<rparr>"
    obtain ok m1 where pub: "publish_proxy m p meta (rr_published_at_us rd) = (ok, m1)"
      by fastforce
    have res: "m' = m1" "res = (if ok then Inr () else Inl InputJournalOverflow)"
      "reader' = reader\<lparr>pr_pending_proxy_sequence := None, pr_reducer := red\<rparr>"
      using step tr p pub by (auto simp: proxy_key_event_def t_def meta_def Let_def)
    have bounded: "journal_bounded m1"
      using journal_bounded_publish [of m p meta "rr_published_at_us rd"] inv pub
      by (simp add: reader_inv_def)
    have app: "apply_event (held_of_reducer (pr_reducer reader)) (with_sequence p n) = Inr (held_of_reducer red)" for n
      using transition_apply [OF tr] p by (auto simp: emitted_def)
    have "reader_inv reader' m'" if ok
      using pub that res bounded app inv epochs synced
      by (cases rule: publish_proxy_cases) (auto simp: reader_inv_def)
    with bounded res show ?thesis by auto
  next
    case False
    then have "emitted tres = []"
      by (auto simp: emitted_def split: sum.splits option.splits)
    then have "held_of_reducer red = held_of_reducer (pr_reducer reader)"
      using transition_apply [OF tr] by auto
    then have "reader_inv (reader\<lparr>pr_pending_proxy_sequence := None, pr_reducer := red\<rparr>) m"
      using inv epochs synced by (simp add: reader_inv_def)
    moreover have "m' = m" "reader' = reader\<lparr>pr_pending_proxy_sequence := None, pr_reducer := red\<rparr>"
      using step tr False
      by (auto simp: proxy_key_event_def t_def Let_def
          split: sum.splits option.splits input_reduction_error.splits)
    ultimately show ?thesis
      by (simp add: reader_inv_def)
  qed
qed


lemma drain_proxy_read_inv:
  assumes "reader_inv reader m" and "drain_proxy_read wide reader m poll rd = (res, reader', m')"
  shows "journal_bounded m' \<and> (res = Inr () \<longrightarrow> reader_inv reader' m')"
proof -
  have "journal_bounded m" and "reader_inv (reader\<lparr>pr_pending_proxy_sequence := v\<rparr>) m" for v
    using assms(1) by (simp_all add: reader_inv_def)
  with assms show ?thesis
    by (auto simp: drain_proxy_read_def Let_def split: prod.splits if_splits option.splits
        dest: proxy_key_event_inv)
qed

lemma drain_proxy_inv:
  "reader_inv reader m \<Longrightarrow> drain_proxy wide reader m poll rs = (res, reader', m') \<Longrightarrow>
   journal_bounded m' \<and> (res = Inr () \<longrightarrow> reader_inv reader' m')"
proof (induction wide reader m poll rs rule: drain_proxy.induct)
  case (4 wide reader m poll rd rs)
  obtain res1 reader1 m1 where one: "drain_proxy_read wide reader m poll rd = (res1, reader1, m1)"
    by (metis prod_cases3)
  show ?case
  proof (cases res1)
    case (Inl err)
    with 4 one drain_proxy_read_inv [OF 4(2) one] show ?thesis by auto
  next
    case (Inr u)
    with drain_proxy_read_inv [OF 4(2) one] have "reader_inv reader1 m1" by simp
    with 4 one Inr show ?thesis by simp
  qed
qed (auto simp: reader_inv_def)

lemma capture_inv_discover: "capture_inv c \<Longrightarrow> capture_inv (discover_reader v3 c t)"
  using capture_inv_open by (auto simp: discover_reader_def split: option.splits)

lemma capture_inv_poll:
  assumes "capture_inv c" and "ct_reader c = Some active"
  shows "capture_inv (poll_reader wide c active poll)"
proof -
  have active: "reader_inv active (ct_mailbox c)"
    using assms by (simp add: capture_inv_def)
  show ?thesis
  proof (cases poll)
    case (PollReadable evidence rs)
    obtain res reader1 m1 where dp: "drain_proxy wide active (ct_mailbox c) evidence rs = (res, reader1, m1)"
      by (metis prod_cases3)
    from drain_proxy_inv [OF active this] show ?thesis
      by (cases res) (auto simp: poll_reader_def PollReadable dp capture_inv_def intro!: capture_inv_lose'
          [unfolded capture_inv_def])
  qed (use assms in \<open>auto simp: poll_reader_def intro: capture_inv_lose\<close>)
qed

lemma capture_inv_turn: "capture_inv c \<Longrightarrow> capture_inv (capture_turn wide v3 c t)"
  using capture_inv_discover [of c v3 t] capture_inv_poll
  by (auto simp: capture_turn_def Let_def split: option.splits)

lemma capture_inv_drain:
  "capture_inv c \<Longrightarrow> capture_inv (c\<lparr>ct_mailbox := snd (drain (ct_mailbox c))\<rparr>)"
  by (auto simp: capture_inv_def drain_def Let_def reader_inv_def journal_bounded_def split: option.splits)

text \<open>The capture thread and the frame loop's drains, in any order.\<close>

datatype hub_op = HubTurn turn_input | HubDrain

fun hub_step :: "bool \<Rightarrow> bool \<Rightarrow> capture_thread \<Rightarrow> hub_op \<Rightarrow> capture_thread" where
  "hub_step wide v3 c (HubTurn t) = capture_turn wide v3 c t"
| "hub_step wide v3 c HubDrain = c\<lparr>ct_mailbox := snd (drain (ct_mailbox c))\<rparr>"

interpretation hub: total_machine "hub_step wide v3" capture_inv for wide v3
proof
  fix c op
  assume "capture_inv c"
  then show "capture_inv (hub_step wide v3 c op)"
    by (cases op) (simp_all add: capture_inv_turn capture_inv_drain)
qed

text \<open>
  After any interleaving of reader turns (devices appearing and disappearing, any bytes, any
  read or poll failure) and drains, the journal holds at most \<open>JOURNAL_CAPACITY\<close> events and its
  depth counter is exact; with an open reader the mailbox is healthy, in the reader's epoch and its
  held state is the reducer's; without one it is unhealthy, empty and nothing is held.
\<close>

theorem mailbox_follows_reader:
  fixes ops :: "hub_op list" and wide v3 :: bool
  defines "c \<equiv> run_steps (hub_step wide v3) capture_default ops"
  shows "length (mb_events (ct_mailbox c)) \<le> JOURNAL_CAPACITY \<and>
    queue_depth (mb_health (ct_mailbox c)) = length (mb_events (ct_mailbox c)) \<and>
    (case ct_reader c of
       None \<Rightarrow> protocol (mb_health (ct_mailbox c)) = Unhealthy \<and> mb_events (ct_mailbox c) = [] \<and>
         mb_held (ct_mailbox c) = held_default
     | Some reader \<Rightarrow> protocol (mb_health (ct_mailbox c)) = ProxyV2 \<and>
         mb_epoch (ct_mailbox c) = pr_epoch reader \<and>
         mb_held (ct_mailbox c) = held_of_reducer (pr_reducer reader))"
proof -
  have "capture_inv c"
    unfolding c_def using capture_inv_default by (rule hub.total_run_inv)
  then show ?thesis
    by (auto simp: capture_inv_def reader_inv_def journal_bounded_def split: option.splits)
qed

text \<open>
  A publication by the reader fails only when the journal is full: after any run, for every raw
  transition the reducer turns into an event, the mailbox accepts the event if and only if fewer
  than \<open>JOURNAL_CAPACITY\<close> events are queued. The mailbox's own held-state check never fires.
\<close>

theorem publication_fails_only_on_overflow:
  assumes "ct_reader (run_steps (hub_step wide v3) capture_default ops) = Some reader"
    and "transition (pr_reducer reader) t = (Inr (Some p), red)"
  shows "fst (publish_proxy (ct_mailbox (run_steps (hub_step wide v3) capture_default ops)) p meta now) \<longleftrightarrow>
    length (mb_events (ct_mailbox (run_steps (hub_step wide v3) capture_default ops))) < JOURNAL_CAPACITY"
proof -
  define c where "c = run_steps (hub_step wide v3) capture_default ops"
  have "capture_inv c"
    unfolding c_def using capture_inv_default by (rule hub.total_run_inv)
  then have "mb_held (ct_mailbox c) = held_of_reducer (pr_reducer reader)"
    using assms(1) by (simp add: c_def [symmetric] capture_inv_def reader_inv_def)
  moreover have "apply_event (held_of_reducer (pr_reducer reader)) (with_sequence p n) = Inr (held_of_reducer red)" for n
    using transition_apply [OF assms(2)] by (auto simp: emitted_def)
  ultimately show ?thesis
    unfolding c_def [symmetric] by (auto simp: publish_proxy_def Let_def)
qed

section \<open>The link to the router\<close>

definition queued :: "mailbox \<Rightarrow> input_event list" where
  "queued m = map me_event (mb_events m)"

text \<open>The journal continues what the consumer last saw: its held state and its last sequence.\<close>

definition journal :: "held_state \<Rightarrow> u64 option \<Rightarrow> mailbox \<Rightarrow> bool" where
  "journal h seen m \<longleftrightarrow> apply_events h (queued m) = Inr (mb_held m) \<and>
     (\<exists>base. (seen = None \<or> seen = Some base) \<and> numbered_from (sat_add base 1) 0 (queued m) \<and>
        mb_next_sequence m = sat_add base (of_nat (length (queued m))))"

definition linked :: "router \<Rightarrow> capture_thread \<Rightarrow> bool" where
  "linked r c \<longleftrightarrow> capture_inv c \<and> ct_reader c \<noteq> None \<and>
     known_epoch r = Some (mb_epoch (ct_mailbox c)) \<and>
     seen_overflow_count r = overflow_count (mb_health (ct_mailbox c)) \<and>
     seen_desync_count r = desync_count (mb_health (ct_mailbox c)) \<and> \<not> requires_neutral r \<and>
     journal (validated_held r) (seen_sequence r) (ct_mailbox c)"

lemma next_counter_succ: "next_counter n = sat_add n 1"
proof -
  have "1 \<le> sat_add n 1"
    by (simp add: word_le_nat_alt unat_sat_add)
  then show ?thesis
    by (simp add: next_counter_def max_def)
qed

lemma sat_add_of_nat_Suc:
  "n < 2 ^ 32 \<Longrightarrow> sat_add (sat_add b (of_nat n)) 1 = sat_add b (of_nat (Suc n))"
  for b :: u64
proof -
  assume n: "n < 2 ^ 32"
  have "sat_add (of_nat n) 1 = (of_nat (Suc n) :: u64)"
    using n by (simp add: word_unat_eq_iff unat_sat_add unat_of_nat_small del: of_nat_Suc)
  then show ?thesis
    by (simp add: sat_add_assoc)
qed

lemma sat_add_shift_1:
  "n < 2 ^ 32 \<Longrightarrow> sat_add (sat_add b (of_nat n)) 1 = sat_add (sat_add b 1) (of_nat n)"
  for b :: u64
  by (simp add: word_unat_eq_iff unat_sat_add min_def)

lemma last_numbered:
  assumes "numbered_from s n es" and "es \<noteq> []"
  shows "last_of es = Some (sat_add s (of_nat (n + (length es - 1))))"
proof -
  have "ie_sequence (es ! (length es - 1)) = sat_add s (of_nat (n + (length es - 1)))"
    using assms by (auto simp: numbered_from_nth simp del: of_nat_add)
  with assms(2) show ?thesis
    by (simp add: last_of_last last_conv_nth del: of_nat_add)
qed

lemma journal_publish:
  assumes "journal h seen m" and "publish_proxy m p meta t = (True, m')"
  shows "journal h seen m'"
proof -
  obtain base where base: "seen = None \<or> seen = Some base"
    "numbered_from (sat_add base 1) 0 (queued m)"
    "mb_next_sequence m = sat_add base (of_nat (length (queued m)))"
    and replay: "apply_events h (queued m) = Inr (mb_held m)"
    using assms(1) by (auto simp: journal_def)
  from assms(2) show ?thesis
  proof (cases rule: publish_proxy_cases)
    case (published e)
    define k where "k = length (queued m)"
    have k: "k < 2 ^ 32"
      using published(2) by (simp add: k_def queued_def JOURNAL_CAPACITY_def)
    have q: "queued m' = queued m @ [with_sequence p (sat_add (mb_next_sequence m) 1)]"
      using published by (simp add: queued_def next_counter_succ)
    have "numbered_from (sat_add base 1) 0 (queued m')"
      using base k unfolding q numbered_from_append
      by (simp add: k_def [symmetric] sat_add_shift_1)
    moreover have "mb_next_sequence m' = sat_add base (of_nat (length (queued m')))"
      using published(6) base(3) k sat_add_of_nat_Suc [of k base]
      by (simp add: q k_def [symmetric] next_counter_succ)
    moreover have "apply_events h (queued m') = Inr (mb_held m')"
      using replay published(3) by (simp add: q apply_events_append next_counter_succ)
    ultimately show ?thesis
      using base(1) by (auto simp: journal_def)
  qed simp_all
qed

lemma drain_simps [simp]:
  "queued (snd (drain m)) = []" "mb_held (snd (drain m)) = mb_held m"
  "mb_next_sequence (snd (drain m)) = mb_next_sequence m" "mb_epoch (snd (drain m)) = mb_epoch m"
  "overflow_count (mb_health (snd (drain m))) = overflow_count (mb_health m)"
  "desync_count (mb_health (snd (drain m))) = desync_count (mb_health m)"
  "protocol (mb_health (snd (drain m))) = protocol (mb_health m)"
  by (simp_all add: drain_def queued_def Let_def)

lemma drained_batch_simps [simp]:
  "events (di_batch (fst (drain m))) = queued m"
  "first_sequence (di_batch (fst (drain m))) = first_of (queued m)"
  "last_sequence (di_batch (fst (drain m))) = last_of (queued m)"
  "held_after_last (di_batch (fst (drain m))) = mb_held m"
  "ib_source_epoch (di_batch (fst (drain m))) = mb_epoch m"
  "protocol (health (di_batch (fst (drain m)))) = protocol (mb_health m)"
  "overflow_count (health (di_batch (fst (drain m)))) = overflow_count (mb_health m)"
  "desync_count (health (di_batch (fst (drain m)))) = desync_count (mb_health m)"
  by (simp_all add: drain_def queued_def Let_def)

lemma journal_drained:
  assumes "journal h seen m" and "length (queued m) \<le> JOURNAL_CAPACITY"
  shows "journal (mb_held m) (case last_of (queued m) of None \<Rightarrow> seen | Some s \<Rightarrow> Some s) (snd (drain m))"
proof (cases "queued m = []")
  case True
  then show ?thesis
    using assms(1) by (auto simp: journal_def)
next
  case False
  obtain base where base: "numbered_from (sat_add base 1) 0 (queued m)"
    "mb_next_sequence m = sat_add base (of_nat (length (queued m)))"
    using assms(1) by (auto simp: journal_def)
  define k where "k = length (queued m) - 1"
  have len: "length (queued m) = Suc k" and "k < 2 ^ 32"
    using False assms(2) by (simp_all add: k_def JOURNAL_CAPACITY_def)
  then have "last_of (queued m) = Some (mb_next_sequence m)"
    using last_numbered [OF base(1) False] base(2) sat_add_shift_1 [of k base] sat_add_of_nat_Suc [of k base]
    by (simp del: of_nat_Suc)
  then show ?thesis
    by (simp add: journal_def)
qed

lemma journal_accepted:
  assumes "journal (validated_held r) (seen_sequence r) m"
  shows "validate_from (di_batch (fst (drain m))) (validated_held r) = Inr (mb_held m)"
    and "\<not> gap_detected r (di_batch (fst (drain m)))"
proof -
  obtain base where base: "seen_sequence r = None \<or> seen_sequence r = Some base"
    "numbered_from (sat_add base 1) 0 (queued m)" "apply_events (validated_held r) (queued m) = Inr (mb_held m)"
    using assms by (auto simp: journal_def)
  moreover have first: "first_of (queued m) = None \<or> first_of (queued m) = Some (sat_add base 1)"
    using base(2) by (cases "queued m") auto
  ultimately show "validate_from (di_batch (fst (drain m))) (validated_held r) = Inr (mb_held m)"
    by (auto simp: validate_from_eq)
  show "\<not> gap_detected r (di_batch (fst (drain m)))"
    using base(1) first by (auto simp: gap_detected_def split: option.splits)
qed

lemma linked_frame:
  assumes "linked r c" and "accept_batch r (di_batch (fst (drain (ct_mailbox c)))) = (res, r')"
  shows "res = Inr () \<and> linked r' (c\<lparr>ct_mailbox := snd (drain (ct_mailbox c))\<rparr>)"
proof -
  let ?m = "ct_mailbox c" and ?b = "di_batch (fst (drain (ct_mailbox c)))"
  have link: "capture_inv c" "journal (validated_held r) (seen_sequence r) ?m"
      "protocol (mb_health ?m) = ProxyV2" "length (queued ?m) \<le> JOURNAL_CAPACITY"
    using assms(1) by (auto simp: linked_def capture_inv_def reader_inv_def journal_bounded_def queued_def)
  have "accept_batch r ?b = accept_sequenced r ?b"
    using assms(1) link(3) by (simp add: accept_batch_def linked_def)
  with journal_accepted [OF link(2)] have acc: "res = Inr ()" "r' = r\<lparr>validated_held := mb_held ?m,
      seen_sequence := (case last_of (queued ?m) of None \<Rightarrow> seen_sequence r | Some s \<Rightarrow> Some s)\<rparr>"
    using assms by (simp_all add: accept_sequenced_def linked_def Let_def)
  with assms(1) capture_inv_drain [OF link(1)] journal_drained [OF link(2,4)] show ?thesis
    by (simp add: linked_def)
qed

section \<open>The lossless link\<close>

definition strip_sequence :: "input_event \<Rightarrow> pending_input_event" where
  "strip_sequence e = \<lparr>pe_source = ie_source e, pe_source_epoch = ie_source_epoch e,
     pe_press_id = ie_press_id e, pe_captured_at_us = ie_captured_at_us e,
     pe_action = ie_action e, pe_phase = ie_phase e\<rparr>"

lemma strip_with_sequence [simp]: "strip_sequence (with_sequence p n) = p"
  by (simp add: strip_sequence_def with_sequence_def)

text \<open>The raw transitions a turn reads from the device, in the order it reads them.\<close>

definition raw_of :: "bool \<Rightarrow> input_source_id \<Rightarrow> source_epoch \<Rightarrow> raw_read \<Rightarrow> raw_transition list" where
  "raw_of wide src ep rd =
     (let (_, event_type, code, v) = parse_input_event wide (rr_bytes rd) in
      if event_type \<noteq> EV_KEY then []
      else case (logical_action_for_key code, phase_of_value v) of
             (Some act, Some phase) \<Rightarrow> [\<lparr>rt_source = src, rt_epoch = ep,
                rt_action = act, rt_phase = phase, rt_captured_at_us = rr_captured_at_us rd\<rparr>]
           | _ \<Rightarrow> [])"

fun raw_reads ::
  "bool \<Rightarrow> input_source_id \<Rightarrow> source_epoch \<Rightarrow> read_result list \<Rightarrow> raw_transition list" where
  "raw_reads wide src ep (ReadOk rd # rs) = raw_of wide src ep rd @ raw_reads wide src ep rs"
| "raw_reads wide src ep _ = []"

definition raw_turn :: "bool \<Rightarrow> input_source_id \<Rightarrow> source_epoch \<Rightarrow> turn_input \<Rightarrow> raw_transition list" where
  "raw_turn wide src ep t =
     (case ti_poll t of PollReadable _ rs \<Rightarrow> raw_reads wide src ep rs | _ \<Rightarrow> [])"

lemma reducer_run_append:
  "reducer_run r (ts @ us) =
     (let (ps, r1) = reducer_run r ts; (qs, r2) = reducer_run r1 us in (ps @ qs, r2))"
  by (induction ts arbitrary: r) (auto split: prod.splits)

definition published_as :: "pending_input_event list \<Rightarrow> mailbox \<Rightarrow> mailbox \<Rightarrow> bool" where
  "published_as ps m m' \<longleftrightarrow>
     map strip_sequence (queued m') = map strip_sequence (queued m) @ ps \<and>
     (\<forall>h seen. journal h seen m \<longrightarrow> journal h seen m') \<and> mb_epoch m' = mb_epoch m \<and>
     overflow_count (mb_health m') = overflow_count (mb_health m) \<and>
     desync_count (mb_health m') = desync_count (mb_health m)"

lemma published_as_refl [simp]: "published_as [] m m"
  by (simp add: published_as_def)

lemma published_as_trans:
  "published_as ps m m1 \<Longrightarrow> published_as qs m1 m2 \<Longrightarrow> published_as (ps @ qs) m m2"
  by (simp add: published_as_def)

lemma published_as_publish:
  assumes "publish_proxy m p meta t = (True, m')"
  shows "published_as [p] m m'"
proof -
  have "journal h seen m'" if "journal h seen m" for h seen
    using that assms by (rule journal_publish)
  with assms show ?thesis
    by (cases rule: publish_proxy_cases) (auto simp: published_as_def queued_def)
qed

text \<open>Reader and mailbox after a successful step whose raw transitions are \<open>ts\<close>.\<close>

definition advances ::
  "raw_transition list \<Rightarrow> proxy_reader \<Rightarrow> mailbox \<Rightarrow> proxy_reader \<Rightarrow> mailbox \<Rightarrow> bool" where
  "advances ts reader m reader' m' \<longleftrightarrow>
     published_as (fst (reducer_run (pr_reducer reader) ts)) m m' \<and>
     pr_reducer reader' = snd (reducer_run (pr_reducer reader) ts) \<and>
     pr_source reader' = pr_source reader \<and> pr_epoch reader' = pr_epoch reader"

lemma advances_refl [simp]: "advances [] reader m (reader\<lparr>pr_pending_proxy_sequence := v\<rparr>) m"
  and advances_same [simp]: "advances [] reader m reader m"
  by (simp_all add: advances_def)

lemma advances_trans:
  assumes "advances ts r m r1 m1" and "advances us r1 m1 r2 m2"
  shows "advances (ts @ us) r m r2 m2"
  using assms by (auto simp: advances_def reducer_run_append split: prod.splits intro: published_as_trans)

lemma proxy_key_event_advances:
  assumes "proxy_key_event reader m poll rd k act phase = (Inr (), reader', m')"
  shows "advances [\<lparr>rt_source = pr_source reader, rt_epoch = pr_epoch reader, rt_action = act,
    rt_phase = phase, rt_captured_at_us = rr_captured_at_us rd\<rparr>] reader m reader' m'"
  using assms
  by (auto simp: proxy_key_event_def advances_def emitted_def Let_def published_as_publish
      split: prod.splits sum.splits option.splits if_splits input_reduction_error.splits)

lemma drain_proxy_read_advances:
  assumes "drain_proxy_read wide reader m poll rd = (Inr (), reader', m')"
  shows "advances (raw_of wide (pr_source reader) (pr_epoch reader) rd) reader m reader' m'"
proof -
  obtain k ty code v where p: "parse_input_event wide (rr_bytes rd) = (k, ty, code, v)"
    by (metis prod_cases4)
  have "EV_MSC \<noteq> EV_KEY" "EV_SYN \<noteq> EV_KEY" "phase_of_value 2 = None"
    by (simp_all add: EV_MSC_def EV_KEY_def EV_SYN_def phase_of_value_def)
  then show ?thesis
    using assms p
    by (auto simp: drain_proxy_read_def raw_of_def proxy_key_event_advances
        split: if_splits option.splits)
qed

lemma drain_proxy_advances:
  "drain_proxy wide reader m poll rs = (Inr (), reader', m') \<Longrightarrow>
   advances (raw_reads wide (pr_source reader) (pr_epoch reader) rs) reader m reader' m'"
proof (induction wide reader m poll rs rule: drain_proxy.induct)
  case (4 wide reader m poll rd rs)
  obtain res1 reader1 m1 where one: "drain_proxy_read wide reader m poll rd = (res1, reader1, m1)"
    by (metis prod_cases3)
  with 4 have "res1 = Inr ()"
    by (cases res1) auto
  with one have adv: "advances (raw_of wide (pr_source reader) (pr_epoch reader) rd) reader m reader1 m1"
    by (simp add: drain_proxy_read_advances)
  then have same: "pr_source reader1 = pr_source reader" "pr_epoch reader1 = pr_epoch reader"
    by (simp_all add: advances_def)
  have "advances (raw_reads wide (pr_source reader) (pr_epoch reader) rs) reader1 m1 reader' m'"
    using 4 one \<open>res1 = Inr ()\<close> same by simp
  from advances_trans [OF adv this] show ?case
    by simp
qed auto

lemma capture_turn_advances:
  assumes "ct_reader c = Some reader" and "ct_reader (capture_turn wide v3 c t) = Some reader'"
  shows "advances (raw_turn wide (pr_source reader) (pr_epoch reader) t)
    reader (ct_mailbox c) reader' (ct_mailbox (capture_turn wide v3 c t))"
  using assms
  by (auto simp: capture_turn_def discover_reader_def poll_reader_def raw_turn_def lose_proxy_def
      dest: drain_proxy_advances split: poll_result.splits prod.splits sum.splits if_splits option.splits)


text \<open>
  The launcher's side of the link: \<open>LinkTurn\<close> is a turn of the capture thread, \<open>LinkFrame\<close> drains the
  mailbox, offers the batch to the router and then routes (any operations but another batch).
\<close>

datatype link_op = LinkTurn turn_input | LinkFrame "router_op list"

record link =
  lk_capture :: capture_thread
  lk_router :: router
  lk_results :: "(input_fault + unit) list"
  lk_delivered :: "input_event list"

fun link_step :: "bool \<Rightarrow> bool \<Rightarrow> link \<Rightarrow> link_op \<Rightarrow> link" where
  "link_step wide v3 s (LinkTurn t) = s\<lparr>lk_capture := capture_turn wide v3 (lk_capture s) t\<rparr>"
| "link_step wide v3 s (LinkFrame ops) =
     (let (d, m1) = drain (ct_mailbox (lk_capture s));
          (res, r1) = accept_batch (lk_router s) (di_batch d)
      in \<lparr>lk_capture = (lk_capture s)\<lparr>ct_mailbox := m1\<rparr>, lk_router = run_steps router_step r1 ops,
          lk_results = lk_results s @ [res], lk_delivered = lk_delivered s @ events (di_batch d)\<rparr>)"

fun no_accept :: "router_op \<Rightarrow> bool" where
  "no_accept (OpAccept b) = False"
| "no_accept _ = True"

fun link_ok :: "bool \<Rightarrow> bool \<Rightarrow> link \<Rightarrow> link_op \<Rightarrow> bool" where
  "link_ok wide v3 s (LinkTurn t) = (ct_reader (capture_turn wide v3 (lk_capture s) t) \<noteq> None)"
| "link_ok wide v3 s (LinkFrame ops) = list_all no_accept ops"

fun raw_link :: "bool \<Rightarrow> input_source_id \<Rightarrow> source_epoch \<Rightarrow> link_op list \<Rightarrow> raw_transition list" where
  "raw_link wide src ep [] = []"
| "raw_link wide src ep (LinkTurn t # ops) = raw_turn wide src ep t @ raw_link wide src ep ops"
| "raw_link wide src ep (LinkFrame _ # ops) = raw_link wide src ep ops"

definition gate_fields :: "router \<Rightarrow> source_epoch option \<times> u64 option \<times> held_state \<times> u64 \<times> u64 \<times> bool" where
  "gate_fields r = (known_epoch r, seen_sequence r, validated_held r, seen_overflow_count r,
     seen_desync_count r, requires_neutral r)"

lemma gate_update_locks [simp]: "gate_fields (update_neutral_locks r c) = gate_fields r"
  by (simp add: gate_fields_def update_neutral_locks_def Let_def)

lemma gate_set_focus [simp]: "gate_fields (set_focus r q) = gate_fields r"
  by (simp add: gate_fields_def set_focus_def Let_def)

lemma gate_captures [simp]: "gate_fields (r\<lparr>captures := x\<rparr>) = gate_fields r"
  "gate_fields (r\<lparr>repeats := y\<rparr>) = gate_fields r"
  by (simp_all add: gate_fields_def)

lemma gate_opposing: "opposing_direction_locked r a = (l, r2) \<Longrightarrow> gate_fields r2 = gate_fields r"
  by (auto simp: gate_fields_def opposing_direction_locked_def Let_def split: option.splits if_splits)

lemma gate_route_pressed [simp]: "gate_fields (snd (route_pressed r e c now)) = gate_fields r"
proof -
  define r1 where "r1 = r\<lparr>captures := fmupd (key_of e) \<lparr>cap_context = c, cap_action = ie_action e\<rparr> (captures r)\<rparr>"
  obtain l r2 where lock: "opposing_direction_locked r1 (ie_action e) = (l, r2)"
    by fastforce
  then have "gate_fields r2 = gate_fields r"
    using gate_opposing [OF lock] by (simp add: r1_def)
  moreover have "snd (route_pressed r e c now) \<in> {r, r2, arm_repeat r2 e c now} \<union> range (\<lambda>y. r2\<lparr>repeats := y\<rparr>)"
    using lock
    by (auto simp: route_pressed_def r1_def Let_def split: option.splits input_context_kind.splits)
  ultimately show ?thesis
    by (auto simp: arm_repeat_def)
qed

lemma gate_route_released [simp]: "gate_fields (snd (route_released r e)) = gate_fields r"
  by (simp add: route_released_def Let_def split: option.splits)

lemma gate_tick [simp]: "gate_fields (snd (tick_repeat r now)) = gate_fields r"
proof -
  have "gate_fields (snd (tick_repeat_over r now as)) = gate_fields r" for as
    by (induction as) (auto split: option.splits)
  then show ?thesis
    by (simp add: tick_repeat_def)
qed

lemma gate_step: "no_accept op \<Longrightarrow> gate_fields (router_step r op) = gate_fields r"
  by (cases op) (auto simp: route_event_def consume_event_def Let_def split: input_phase.splits)

lemma gate_run: "list_all no_accept ops \<Longrightarrow> gate_fields (run_steps router_step r ops) = gate_fields r"
  by (induction ops arbitrary: r) (auto simp: gate_step)

lemma linked_gate: "gate_fields r = gate_fields r' \<Longrightarrow> linked r c = linked r' c"
  by (simp add: linked_def gate_fields_def)

lemma linked_turn:
  assumes "linked r c" and "ct_reader c = Some reader"
    and "ct_reader (capture_turn wide v3 c t) = Some reader'"
  shows "linked r (capture_turn wide v3 c t)"
  using assms capture_turn_advances [OF assms(2,3)] capture_inv_turn
  by (auto simp: linked_def advances_def published_as_def)

text \<open>One step of a healthy link: still linked, the result was an acceptance, nothing is lost.\<close>

definition in_flight :: "link \<Rightarrow> pending_input_event list" where
  "in_flight s = map strip_sequence (lk_delivered s @ queued (ct_mailbox (lk_capture s)))"

lemma link_step_ok:
  assumes "linked (lk_router s) (lk_capture s)" and "ct_reader (lk_capture s) = Some reader"
    and "link_ok wide v3 s op" and "list_all (\<lambda>x. x = Inr ()) (lk_results s)"
  defines "s' \<equiv> link_step wide v3 s op"
  defines "ts \<equiv> raw_link wide (pr_source reader) (pr_epoch reader) [op]"
  shows "linked (lk_router s') (lk_capture s') \<and> list_all (\<lambda>x. x = Inr ()) (lk_results s') \<and>
    (\<exists>reader'. ct_reader (lk_capture s') = Some reader' \<and>
       in_flight s' = in_flight s @ fst (reducer_run (pr_reducer reader) ts) \<and>
       pr_reducer reader' = snd (reducer_run (pr_reducer reader) ts) \<and>
       pr_source reader' = pr_source reader \<and> pr_epoch reader' = pr_epoch reader)"
proof (cases op)
  case (LinkTurn t)
  then obtain reader' where r': "ct_reader (capture_turn wide v3 (lk_capture s) t) = Some reader'"
    using assms(3) by auto
  from linked_turn [OF assms(1,2) r'] capture_turn_advances [OF assms(2) r'] show ?thesis
    using LinkTurn r' assms(4)
    by (auto simp: s'_def ts_def in_flight_def advances_def published_as_def)
next
  case (LinkFrame ops)
  let ?c = "lk_capture s"
  obtain res r1 where acc: "accept_batch (lk_router s) (di_batch (fst (drain (ct_mailbox ?c)))) = (res, r1)"
    by fastforce
  have r1: "res = Inr ()" "linked r1 (?c\<lparr>ct_mailbox := snd (drain (ct_mailbox ?c))\<rparr>)"
    using linked_frame [OF assms(1) acc] by simp_all
  have s': "s' = \<lparr>lk_capture = ?c\<lparr>ct_mailbox := snd (drain (ct_mailbox ?c))\<rparr>,
      lk_router = run_steps router_step r1 ops, lk_results = lk_results s @ [res],
      lk_delivered = lk_delivered s @ queued (ct_mailbox ?c)\<rparr>"
    using LinkFrame acc by (simp add: s'_def split_def)
  have "list_all no_accept ops"
    using assms(3) LinkFrame by simp
  then show ?thesis
    using r1 s' assms(2,4) LinkFrame linked_gate [OF gate_run]
    by (simp add: ts_def in_flight_def)
qed

text \<open>
  C9: The link is lossless. From a linked router and reader, over any interleaving of reader turns in
  which the device is not lost and frames that route as they like, the router accepts every drained
  batch, and the events delivered so far followed by those still queued are exactly the ones that
  were there plus what the reducer makes of the raw key transitions read, in order.
\<close>

theorem healthy_link_is_lossless:
  assumes "linked (lk_router s) (lk_capture s)" and "ct_reader (lk_capture s) = Some reader"
    and "list_all (\<lambda>x. x = Inr ()) (lk_results s)"
    and "run_allowed (link_step wide v3) (link_ok wide v3) s ops"
  shows "list_all (\<lambda>x. x = Inr ()) (lk_results (run_steps (link_step wide v3) s ops)) \<and>
    in_flight (run_steps (link_step wide v3) s ops) = in_flight s @
      fst (reducer_run (pr_reducer reader) (raw_link wide (pr_source reader) (pr_epoch reader) ops))"
  using assms
proof (induction ops arbitrary: s reader)
  case Nil
  then show ?case by simp
next
  case (Cons op ops)
  let ?s = "link_step wide v3 s op"
  have ok: "link_ok wide v3 s op" "run_allowed (link_step wide v3) (link_ok wide v3) ?s ops"
    using Cons.prems(4) by simp_all
  from link_step_ok [OF Cons.prems(1,2) ok(1) Cons.prems(3)] obtain reader' where s:
    "linked (lk_router ?s) (lk_capture ?s)" "list_all (\<lambda>x. x = Inr ()) (lk_results ?s)"
    "ct_reader (lk_capture ?s) = Some reader'"
    "in_flight ?s = in_flight s @ fst (reducer_run (pr_reducer reader)
       (raw_link wide (pr_source reader) (pr_epoch reader) [op]))"
    "pr_reducer reader' = snd (reducer_run (pr_reducer reader)
       (raw_link wide (pr_source reader) (pr_epoch reader) [op]))"
    "pr_source reader' = pr_source reader" "pr_epoch reader' = pr_epoch reader"
    by auto
  let ?raw = "raw_link wide (pr_source reader) (pr_epoch reader)"
  have "?raw (op # ops) = ?raw [op] @ ?raw ops"
    by (cases op) simp_all
  then have "fst (reducer_run (pr_reducer reader) (?raw (op # ops))) =
      fst (reducer_run (pr_reducer reader) (?raw [op])) @ fst (reducer_run (pr_reducer reader') (?raw ops))"
    using s(5) by (simp only: reducer_run_append split_def Let_def fst_conv)
  with Cons.IH [OF s(1,3,2) ok(2)] s show ?case
    by (simp del: raw_link.simps)
qed

text \<open>The quiet batch, and a router that has caught up with everything it says.\<close>

definition quiet_batch :: "input_batch \<Rightarrow> bool" where
  "quiet_batch b \<longleftrightarrow> neutral_batch b \<and> first_sequence b = None \<and> last_sequence b = None \<and>
     protocol (health b) = ProxyV2"

definition caught_up :: "input_batch \<Rightarrow> router \<Rightarrow> bool" where
  "caught_up b r \<longleftrightarrow> known_epoch r = Some (ib_source_epoch b) \<and> seen_sequence r = None \<and>
     validated_held r = held_default \<and> seen_overflow_count r = overflow_count (health b) \<and>
     seen_desync_count r = desync_count (health b)"

lemma quiet_sequenced:
  assumes "quiet_batch b" and "caught_up b r"
  shows "fst (accept_sequenced r b) = Inr () \<and> caught_up b (snd (accept_sequenced r b)) \<and>
    \<not> requires_neutral (snd (accept_sequenced r b))"
proof -
  have "validate_from b (validated_held r) = Inr held_default"
    using assms by (simp add: validate_from_eq quiet_batch_def neutral_batch_def caught_up_def)
  then show ?thesis
    using assms by (simp add: accept_sequenced_def gap_detected_def quiet_batch_def neutral_batch_def
        caught_up_def Let_def)
qed

lemma quiet_caught_up:
  assumes "quiet_batch b" and "caught_up b r"
  shows "fst (accept_batch r b) = Inr () \<and> caught_up b (snd (accept_batch r b)) \<and>
    \<not> requires_neutral (snd (accept_batch r b))"
  using quiet_sequenced [OF assms] assms by (simp add: accept_batch_def quiet_batch_def caught_up_def)

lemma quiet_epoch:
  assumes "quiet_batch b" and "known_epoch r \<noteq> Some (ib_source_epoch b)"
    and "seen_overflow_count r = overflow_count (health b)" and "seen_desync_count r = desync_count (health b)"
  shows "caught_up b (snd (accept_batch r b))"
proof -
  define r1 where "r1 = integrity_flush (r\<lparr>known_epoch := Some (ib_source_epoch b), seen_sequence := None\<rparr>)"
  have "caught_up b r1"
    using assms by (simp add: r1_def caught_up_def integrity_flush_def)
  moreover from this have "caught_up b (snd (accept_sequenced r1 b))"
    using quiet_sequenced [OF assms(1)] by blast
  moreover have "snd (accept_batch r b) \<in> {r1, snd (accept_sequenced r1 b)}"
    using assms by (simp add: accept_batch_def quiet_batch_def neutral_batch_def r1_def Let_def)
  ultimately show ?thesis by auto
qed

lemma quiet_desync:
  assumes "quiet_batch b" and "known_epoch r \<noteq> Some (ib_source_epoch b)"
    and "seen_overflow_count r = overflow_count (health b)"
  shows "caught_up b (snd (accept_batch (snd (accept_batch r b)) b))"
proof (cases "seen_desync_count r = desync_count (health b)")
  case True
  then have "caught_up b (snd (accept_batch r b))"
    using assms by (intro quiet_epoch)
  then show ?thesis
    using quiet_caught_up [OF assms(1)] by blast
next
  case False
  then show ?thesis
    using assms by (intro quiet_epoch) (auto simp: accept_batch_def quiet_batch_def integrity_flush_def)
qed

lemma quiet_overflow:
  assumes "quiet_batch b" and "known_epoch r \<noteq> Some (ib_source_epoch b)"
  shows "caught_up b (snd (accept_batch (snd (accept_batch (snd (accept_batch r b)) b)) b))"
proof (cases "seen_overflow_count r = overflow_count (health b)")
  case True
  then have "caught_up b (snd (accept_batch (snd (accept_batch r b)) b))"
    using assms by (intro quiet_desync)
  then show ?thesis
    using quiet_caught_up [OF assms(1)] by blast
next
  case False
  then show ?thesis
    using assms by (intro quiet_desync) (auto simp: accept_batch_def quiet_batch_def integrity_flush_def)
qed

text \<open>
  A quiet link always recovers. Whatever state a router is in (faults, missed overflows, an
  older source or none), if the reader is open in an epoch the router has not seen, nothing is held
  and nothing is queued, then at the latest the fourth frame is accepted and router and reader are
  linked; from there \<open>healthy_link_is_lossless\<close> applies.
\<close>

theorem quiet_link_recovers:
  assumes "capture_inv c" and "ct_reader c = Some reader" and "mb_events (ct_mailbox c) = []"
    and "mb_held (ct_mailbox c) = held_default" and "known_epoch r \<noteq> Some (mb_epoch (ct_mailbox c))"
  defines "b \<equiv> di_batch (fst (drain (ct_mailbox c)))"
  shows "last (fst (accept_all r (replicate 4 b))) = Inr () \<and>
    linked (snd (accept_all r (replicate 4 b))) c"
proof -
  define r3 where "r3 = snd (accept_batch (snd (accept_batch (snd (accept_batch r b)) b)) b)"
  have "quiet_batch b"
    using assms(1-4)
    by (simp add: quiet_batch_def neutral_batch_def b_def queued_def capture_inv_def reader_inv_def)
  moreover have "caught_up b r3"
    using assms(5) calculation unfolding r3_def by (intro quiet_overflow) (simp_all add: b_def)
  ultimately have r4: "fst (accept_batch r3 b) = Inr ()" "caught_up b (snd (accept_batch r3 b))"
    "\<not> requires_neutral (snd (accept_batch r3 b))"
    using quiet_caught_up by blast+
  have "journal held_default None (ct_mailbox c)"
    using assms(3,4) unfolding journal_def queued_def
    by (auto intro!: exI [of _ "mb_next_sequence (ct_mailbox c)"])
  then have "linked (snd (accept_batch r3 b)) c"
    using r4 assms(1,2) by (simp add: linked_def caught_up_def b_def)
  moreover have "accept_all r (replicate 4 b) = ([fst (accept_batch r b),
      fst (accept_batch (snd (accept_batch r b)) b),
      fst (accept_batch (snd (accept_batch (snd (accept_batch r b)) b)) b), fst (accept_batch r3 b)],
      snd (accept_batch r3 b))"
    by (simp add: numeral_eq_Suc r3_def split_def Let_def)
  ultimately show ?thesis
    using r4 by simp
qed

section \<open>Witnesses\<close>

text \<open>A device is found and opened; the next turn reads one press of the Enter key.\<close>

definition open_turn :: turn_input where
  "open_turn = \<lparr>ti_discovered = Some ''event0'', ti_opened = True, ti_poll = PollQuiet True\<rparr>"

definition quiet_poll :: poll_evidence where
  "quiet_poll = \<lparr>pv_returned_at_us = 1, pv_thread_cpu_us = 2, pv_cpu = None, pv_runtime_delta_us = None,
     pv_run_delay_delta_us = None, pv_timeslice_delta = None\<rparr>"

definition enter_read :: raw_read where
  "enter_read = \<lparr>rr_bytes = [1, 0, 0, 0, 5, 0, 0, 0, 1, 0, 28, 0, 1, 0, 0, 0], rr_read_started_at_us = 3,
     rr_thread_cpu_us = 4, rr_cpu = None, rr_captured_at_us = 5, rr_published_at_us = 6\<rparr>"

definition enter_turn :: turn_input where
  "enter_turn = \<lparr>ti_discovered = None, ti_opened = False, ti_poll = PollReadable quiet_poll [ReadOk enter_read]\<rparr>"

lemma parse_enter: "parse_input_event False (rr_bytes enter_read) = (1000005, EV_KEY, 28, 1)"
  by (simp add: parse_input_event_def enter_read_def from_ne_bytes_def word_rcat_def EV_KEY_def
      horner_sum_simps uint_word_of_int_eq sat_mul_def non_negative_def sat_add_def Let_def)

definition opened :: capture_thread where
  "opened = run_steps (hub_step False False) capture_default [HubTurn open_turn]"

definition opened_reader :: proxy_reader where
  "opened_reader = \<lparr>pr_path = ''event0'', pr_source = \<lparr>src_kind = MainProxy, src_instance = 1\<rparr>, pr_epoch = 1,
     pr_reducer = reducer_default, pr_protocol_v3 = False, pr_pending_proxy_sequence = None\<rparr>"

lemmas hub_example_defs = opened_def opened_reader_def open_turn_def capture_turn_def discover_reader_def
  poll_reader_def open_reader_def mark_proxy_open_def capture_default_def mailbox_default_def note_change_def
  input_health_default_def next_counter_def sat_add_def Let_def

lemma opened_simps:
  "ct_reader opened = Some opened_reader" "mb_events (ct_mailbox opened) = []"
  "mb_held (ct_mailbox opened) = held_default" "mb_epoch (ct_mailbox opened) = 1"
  "mb_next_sequence (ct_mailbox opened) = 0"
  "overflow_count (mb_health (ct_mailbox opened)) = 0" "desync_count (mb_health (ct_mailbox opened)) = 0"
  "protocol (mb_health (ct_mailbox opened)) = ProxyV2"
  by (simp_all add: hub_example_defs)

lemma opened_inv: "capture_inv opened"
  unfolding opened_def using capture_inv_default by (rule hub.total_run_inv)

theorem publication_fails_only_on_overflow_witness:
  "fst (publish_proxy (ct_mailbox opened)
     (the (projr (fst (transition reducer_default (example_transition 1 Pressed)))))
     \<lparr>pm_sequence = None, pm_kernel_at_us = None, pm_reader = None\<rparr> 9)"
proof -
  have "ct_reader (run_steps (hub_step False False) capture_default [HubTurn open_turn]) = Some opened_reader"
    using opened_simps(1) by (simp only: opened_def)
  moreover obtain p red where "transition (pr_reducer opened_reader) (example_transition 1 Pressed) = (Inr (Some p), red)"
    by (simp add: opened_reader_def example_reducer_defs)
  ultimately show ?thesis
    using publication_fails_only_on_overflow
      [of False False "[HubTurn open_turn]" opened_reader "example_transition 1 Pressed" p red] opened_simps(2)
    by (simp add: opened_def [symmetric] opened_reader_def JOURNAL_CAPACITY_def del: run_steps.simps)
qed

definition opened_router :: router where
  "opened_router = snd (accept_batch (router_new menu_focus) (di_batch (fst (drain (ct_mailbox opened)))))"

lemma opened_linked: "linked opened_router opened"
  using opened_inv opened_simps
  by (auto simp: linked_def journal_def queued_def opened_router_def drain_def Let_def accept_batch_def
      accept_sequenced_def gap_detected_def validate_from_def router_new_def integrity_flush_def sat_add_def
      intro!: exI [of _ 0])

definition opened_link :: link where
  "opened_link = \<lparr>lk_capture = opened, lk_router = opened_router, lk_results = [], lk_delivered = []\<rparr>"

lemma enter_turn_reads:
  "raw_turn False (pr_source opened_reader) 1 enter_turn = [\<lparr>rt_source = pr_source opened_reader, rt_epoch = 1,
     rt_action = ActionActivate, rt_phase = Pressed, rt_captured_at_us = 5\<rparr>]"
  using parse_enter
  by (simp add: raw_turn_def enter_turn_def raw_of_def logical_action_for_key_def phase_of_value_def)
    (simp add: enter_read_def)

lemma enter_turn_ok: "ct_reader (capture_turn False False opened enter_turn) \<noteq> None"
  using parse_enter opened_simps
  by (simp add: capture_turn_def discover_reader_def enter_turn_def poll_reader_def drain_proxy_read_def
      logical_action_for_key_def phase_of_value_def EV_KEY_def EV_SYN_def proxy_key_event_def opened_reader_def
      example_reducer_defs publish_proxy_def JOURNAL_CAPACITY_def apply_event_def held_default_def is_held_def
      with_sequence_def)

theorem healthy_link_is_lossless_witness:
  "in_flight (run_steps (link_step False False) opened_link [LinkTurn enter_turn, LinkFrame []]) =
     in_flight opened_link @ fst (reducer_run reducer_default [\<lparr>rt_source = pr_source opened_reader,
       rt_epoch = 1, rt_action = ActionActivate, rt_phase = Pressed, rt_captured_at_us = 5\<rparr>])"
proof -
  have pre: "linked (lk_router opened_link) (lk_capture opened_link)"
    "ct_reader (lk_capture opened_link) = Some opened_reader"
    "list_all (\<lambda>x. x = Inr ()) (lk_results opened_link)"
    "run_allowed (link_step False False) (link_ok False False) opened_link [LinkTurn enter_turn, LinkFrame []]"
    using opened_linked opened_simps enter_turn_ok by (simp_all add: opened_link_def)
  have "raw_link False (pr_source opened_reader) (pr_epoch opened_reader) [LinkTurn enter_turn, LinkFrame []] =
      [\<lparr>rt_source = pr_source opened_reader, rt_epoch = 1, rt_action = ActionActivate, rt_phase = Pressed,
        rt_captured_at_us = 5\<rparr>]"
    using enter_turn_reads by (simp add: opened_reader_def)
  with healthy_link_is_lossless [OF pre] show ?thesis
    by (simp add: opened_reader_def del: run_steps.simps)
qed

theorem quiet_link_recovers_witness:
  "linked (snd (accept_all (router_new menu_focus)
     (replicate 4 (di_batch (fst (drain (ct_mailbox opened))))))) opened"
  using quiet_link_recovers [OF opened_inv, of opened_reader "router_new menu_focus"] opened_simps
  by (simp add: router_new_def)

end
