(* ===== verification/Input_Pipeline.thy ===== *)
theory Input_Pipeline
  imports Input_Hub
begin

text \<open>
  The reducer's stream routed: the events \<open>LogicalEventReducer\<close> emits, in order, given to
  \<open>InputRouter::route_event\<close>. The lemmas connect the identity of a press in the reducer with the
  capture key of the router, so that every release finds the capture of its press.
\<close>

section \<open>Routing a numbered stream\<close>

text \<open>Each event is routed under the focus and at the time its frame has.\<close>

fun route_all ::
  "router \<Rightarrow> (input_event \<times> focus_request \<times> instant) list \<Rightarrow> input_outcome list \<times> router" where
  "route_all r [] = ([], r)"
| "route_all r ((e, q, now) # es) =
     (let (out, r1) = route_event r e q now; (outs, r2) = route_all r1 es in (out # outs, r2))"

definition capture_key_of_press :: "action_press \<Rightarrow> capture_key" where
  "capture_key_of_press p = \<lparr>ck_source = ap_source p, ck_source_epoch = ap_source_epoch p,
     ck_press_id = ap_press_id p\<rparr>"

definition in_step :: "reducer \<Rightarrow> router \<Rightarrow> bool" where
  "in_step red r \<longleftrightarrow>
     (\<forall>a p. fmlookup (active_actions red) a = Some p \<longrightarrow>
        ap_press_id p \<le> next_press_id red \<and>
        (\<exists>cap. fmlookup (captures r) (capture_key_of_press p) = Some cap \<and> cap_action cap = a)) \<and>
     (\<forall>k cap. fmlookup (captures r) k = Some cap \<longrightarrow> ck_press_id k \<le> next_press_id red)"

definition outcome_ok :: "input_outcome \<Rightarrow> bool" where
  "outcome_ok out \<longleftrightarrow> (\<forall>pid. out \<noteq> Consumed pid StaleRelease \<and> out \<noteq> Consumed pid IntegrityFault)"

lemma in_step_active:
  assumes "in_step red r" and "fmlookup (active_actions red) a = Some p"
  obtains cap where "ap_press_id p \<le> next_press_id red"
    "fmlookup (captures r) (capture_key_of_press p) = Some cap" "cap_action cap = a"
  using assms that unfolding in_step_def by blast

lemma captures_route_pressed:
  assumes "\<not> hm_contains (key_of e) (captures r)"
  shows "captures (snd (route_pressed r e c now)) =
    fmupd (key_of e) \<lparr>cap_context = c, cap_action = ie_action e\<rparr> (captures r)"
proof (rule fmap_ext)
  fix k
  show "fmlookup (captures (snd (route_pressed r e c now))) k =
    fmlookup (fmupd (key_of e) \<lparr>cap_context = c, cap_action = ie_action e\<rparr> (captures r)) k"
    using assms by (auto simp: capture_route_pressed)
qed

lemma outcome_route_pressed:
  assumes "\<not> hm_contains (key_of e) (captures r)"
  shows "outcome_ok (fst (route_pressed r e c now))"
  using assms
  by (auto simp: route_pressed_def outcome_ok_def Let_def split: prod.splits if_splits input_context_kind.splits)

lemma route_released_captured:
  assumes "fmlookup (captures r) (key_of e) = Some cap"
  shows "captures (snd (route_released r e)) = fmdrop (key_of e) (captures r)"
    and "outcome_ok (fst (route_released r e))"
  using assms by (auto simp: route_released_def outcome_ok_def Let_def update_neutral_locks_def)

lemma key_of_with_sequence [simp]:
  "key_of (with_sequence p n) = \<lparr>ck_source = pe_source p, ck_source_epoch = pe_source_epoch p,
     ck_press_id = pe_press_id p\<rparr>"
  by (simp add: key_of_def)

lemma routed_silent:
  assumes "in_step red r" and "active_actions red' = active_actions red"
    and "next_press_id red' = next_press_id red"
  shows "in_step red' r"
  using assms by (simp add: in_step_def)

lemma routed_press:
  assumes step: "in_step red r" and "next_press_id red \<noteq> - 1"
    and pid: "pe_press_id p = next_counter (next_press_id red)" and ph: "pe_phase p = Pressed"
    and red': "next_press_id red' = pe_press_id p"
      "active_actions red' = fmupd (pe_action p) \<lparr>ap_press_id = pe_press_id p, ap_source = pe_source p,
         ap_source_epoch = pe_source_epoch p\<rparr> (active_actions red)"
  shows "in_step red' (snd (route_event r (with_sequence p n) q now)) \<and>
    outcome_ok (fst (route_event r (with_sequence p n) q now))"
proof -
  let ?r = "set_focus r q" and ?e = "with_sequence p n"
  have less: "next_press_id red < pe_press_id p"
    using assms(2) pid next_counter_less by simp
  have "\<not> hm_contains (key_of ?e) (captures ?r)"
    using step less by (fastforce simp: in_step_def hm_contains_def)
  note c = captures_route_pressed [OF this] outcome_route_pressed [OF this]
  have out: "route_event r ?e q now = route_pressed ?r ?e (context_of ?r) now"
    using ph by (simp add: route_event_def Let_def)
  have "x \<le> pe_press_id p" if "x \<le> next_press_id red" for x
    using that less by simp
  moreover have "capture_key_of_press p' \<noteq> key_of ?e"
    if "fmlookup (active_actions red) a = Some p'" for a p'
  proof -
    have "ap_press_id p' \<le> next_press_id red"
      using step that by (simp add: in_step_def)
    then show ?thesis
      using less by (auto simp: capture_key_of_press_def)
  qed
  moreover have "capture_key_of_press \<lparr>ap_press_id = pe_press_id p, ap_source = pe_source p,
      ap_source_epoch = pe_source_epoch p\<rparr> = key_of ?e"
    by (simp add: capture_key_of_press_def)
  ultimately have "in_step red' (snd (route_pressed ?r ?e (context_of ?r) now))"
    using step red' by (auto simp: in_step_def c(1) simp del: key_of_with_sequence split: if_splits)
      (auto simp: key_of_def)
  then show ?thesis
    using out c(2) by simp
qed

lemma routed_release:
  assumes step: "in_step red r" and ph: "pe_phase p = Released"
    and act: "fmlookup (active_actions red) (pe_action p) = Some \<lparr>ap_press_id = pe_press_id p,
      ap_source = pe_source p, ap_source_epoch = pe_source_epoch p\<rparr>"
    and red': "next_press_id red' = next_press_id red"
      "active_actions red' = fmdrop (pe_action p) (active_actions red)"
  shows "in_step red' (snd (route_event r (with_sequence p n) q now)) \<and>
    outcome_ok (fst (route_event r (with_sequence p n) q now))"
proof -
  let ?r = "set_focus r q" and ?e = "with_sequence p n"
  obtain cap where cap: "fmlookup (captures ?r) (key_of ?e) = Some cap" "cap_action cap = pe_action p"
    using step act by (force simp: in_step_def capture_key_of_press_def)
  note c = route_released_captured [OF cap(1)]
  have out: "route_event r ?e q now = route_released ?r ?e"
    using ph by (simp add: route_event_def Let_def)
  have "capture_key_of_press p' \<noteq> key_of ?e"
    if "fmlookup (active_actions red) a = Some p'" and "a \<noteq> pe_action p" for a p'
  proof -
    have "\<exists>cap'. fmlookup (captures ?r) (capture_key_of_press p') = Some cap' \<and> cap_action cap' = a"
      using in_step_active [OF step that(1)] by (metis captures_set_focus)
    with cap that(2) show ?thesis by auto
  qed
  then have "in_step red' (snd (route_released ?r ?e))"
    using step red' by (auto simp: in_step_def c(1))
  then show ?thesis
    using out c(2) by simp
qed

lemma routed_step:
  assumes "in_step red r" and "transition red t = (res, red1)" and "next_press_id red \<noteq> - 1"
    and "emitted res = p # rest"
  shows "rest = [] \<and> in_step red1 (snd (route_event r (with_sequence p n) q now)) \<and>
    outcome_ok (fst (route_event r (with_sequence p n) q now))"
  using assms(2)
proof (cases rule: transition_cases)
  case silent
  with assms(4) show ?thesis by simp
next
  case (press p')
  then have "p' = p" "rest = []"
    using assms(4) by simp_all
  with press show ?thesis
    using routed_press [OF assms(1,3), of p red1 n q now] by simp
next
  case (release p')
  then have "p' = p" "rest = []"
    using assms(4) by simp_all
  with release show ?thesis
    using routed_release [OF assms(1), of p red1 n q now] by simp
qed

lemma routed_run:
  assumes "in_step red r" and "reducer_run red ts = (ps, red')"
    and "length ns = length ps" and "length fs = length ps"
    and "unat (next_press_id red) + length ts < 2 ^ 64 - 1"
  shows "list_all outcome_ok (fst (route_all r (zip (number_events ps ns) fs)))"
  using assms
proof (induction ts arbitrary: red r ps ns fs)
  case Nil
  then show ?case by simp
next
  case (Cons t ts)
  obtain res red1 where t: "transition red t = (res, red1)"
    by fastforce
  obtain qs where run: "reducer_run red1 ts = (qs, red')" and ps: "ps = emitted res @ qs"
    using Cons.prems(2) t by (auto split: prod.splits)
  have "unat (next_press_id red1) \<le> unat (next_press_id red) + 1"
    using t by (cases rule: transition_cases) (auto simp: unat_next_counter)
  then have bound: "unat (next_press_id red1) + length ts < 2 ^ 64 - 1"
    using Cons.prems(5) by simp
  have room: "next_press_id red \<noteq> - 1"
    using Cons.prems(5) unat_minus_1_word [where 'a = 64] by auto
  show ?case
  proof (cases "emitted res")
    case Nil
    have "in_step red1 r"
      using t Cons.prems(1) Nil by (cases rule: transition_cases) (auto intro: routed_silent)
    with Cons.IH [OF _ run] Cons.prems(3,4) ps Nil bound show ?thesis by simp
  next
    case (Cons p rest)
    obtain n ns' q now fs' where split: "ns = n # ns'" "fs = (q, now) # fs'"
      using Cons.prems(3,4) ps Cons by (cases ns; cases fs) auto
    have step: "rest = []" "in_step red1 (snd (route_event r (with_sequence p n) q now))"
        "outcome_ok (fst (route_event r (with_sequence p n) q now))"
      using routed_step [OF Cons.prems(1) t room Cons] by blast+
    have "list_all outcome_ok (fst (route_all (snd (route_event r (with_sequence p n) q now))
        (zip (number_events qs ns') fs')))"
      using Cons.prems(3,4) ps Cons split step(1) by (intro Cons.IH [OF step(2) run _ _ bound]) simp_all
    with ps Cons split step show ?thesis
      by (simp add: split_def Let_def)
  qed
qed

text \<open>
  C26: End to end, presses and releases stay matched. Whatever raw transitions the sources make from
  an empty reducer (fewer than \<open>2 ^ 64 - 1\<close> of them), routing the events it emits in order through a
  new router, under any changes of focus and at any times, never consumes an event as a stale
  release or as an integrity fault: every release finds the capture of its press.
\<close>

theorem routed_stream_never_stale:
  assumes "reducer_run reducer_default ts = (ps, red')"
    and "length ns = length ps" and "length fs = length ps" and "length ts < 2 ^ 64 - 1"
  shows "\<forall>out \<in> set (fst (route_all (router_new q) (zip (number_events ps ns) fs))). \<forall>pid.
    out \<noteq> Consumed pid StaleRelease \<and> out \<noteq> Consumed pid IntegrityFault"
proof -
  have "in_step reducer_default (router_new q)"
    by (simp add: in_step_def reducer_default_def router_new_def)
  from routed_run [OF this assms(1-3)] assms(4) show ?thesis
    by (simp add: reducer_default_def list_all_iff outcome_ok_def)
qed

section \<open>Witnesses\<close>

theorem routed_stream_never_stale_witness:
  "\<not> list_ex (\<lambda>out. out = Consumed 1 StaleRelease \<or> out = Consumed 1 IntegrityFault)
     (fst (route_all (router_new menu_focus)
       (zip (number_events (fst (reducer_run reducer_default example_transitions)) [5, 6])
          [(menu_focus, 0), (modal_focus, 10)])))"
proof -
  have "length (fst (reducer_run reducer_default example_transitions)) = 2"
    using arg_cong [OF example_reducer_run, of length] by simp
  then have "length [5, 6 :: u64] = length (fst (reducer_run reducer_default example_transitions))"
    "length [(menu_focus, 0), (modal_focus, 10 :: instant)] =
      length (fst (reducer_run reducer_default example_transitions))"
    "length example_transitions < 2 ^ 64 - 1"
    by (simp_all add: example_transitions_def)
  from routed_stream_never_stale [OF prod.collapse [symmetric] this, of menu_focus] show ?thesis
    by (auto simp: list_ex_iff)
qed

end
