(* ===== verification/Lifecycle.thy ===== *)
theory Lifecycle
  imports Prelude
begin

text \<open>
  \<open>apps/mister/src/launcher_runtime/lifecycle.rs\<close>: the launcher's lifecycle. Two coupled state
  machines: the catalog and launch state (\<open>lc_state\<close>) driven by \<open>handle\<close>, and the startup reveal
  (\<open>lc_reveal\<close>) driven by ticks and presented frames. Effects are appended to an output list, as the
  code pushes them. The lemmas show that startup always reveals the launcher within its deadlines,
  that a launch hand-off is only ever begun for the launch that was requested and after its loading
  frame, and that data is only deleted after an explicit choice.
\<close>

section \<open>Data\<close>

datatype catalog_source =
  ReturnCapsule | ShardedRegistry | SummaryProjection | NavigationProjection | FullSqlite | FreshBuild

fun catalog_source_label :: "catalog_source \<Rightarrow> string" where
  "catalog_source_label ReturnCapsule = ''return-capsule''"
| "catalog_source_label ShardedRegistry = ''sharded-registry''"
| "catalog_source_label SummaryProjection = ''summary-projection''"
| "catalog_source_label NavigationProjection = ''navigation-projection''"
| "catalog_source_label FullSqlite = ''full-sqlite''"
| "catalog_source_label FreshBuild = ''fresh-build''"

datatype catalog_build_mode = FirstBuild | UpdateBuild | FreshRecovery

datatype catalog_recovery_choice = ChoiceLeft | ChoiceRight

fun selected_index :: "catalog_recovery_choice \<Rightarrow> int" where
  "selected_index ChoiceLeft = 0"
| "selected_index ChoiceRight = 1"

datatype catalog_recovery_mode =
  InputsChanged | UpgradeRequired | RepairRequired | LoadFailure bool | PersistenceFailure bool

datatype catalog_recovery_action = Continue | Retry | AtomicRebuild | FreshRebuild | ExitToMister

fun recovery_title :: "catalog_recovery_mode \<Rightarrow> string" where
  "recovery_title InputsChanged = ''Library changed''"
| "recovery_title UpgradeRequired = ''Catalog update required''"
| "recovery_title RepairRequired = ''Catalog repair required''"
| "recovery_title (LoadFailure _) = ''Catalog unavailable''"
| "recovery_title (PersistenceFailure _) = ''Catalog rebuild failed''"

text \<open>The arms of the Rust \<open>match\<close>, in order.\<close>

fun recovery_action ::
  "catalog_recovery_mode \<Rightarrow> bool \<Rightarrow> catalog_recovery_choice \<Rightarrow> catalog_recovery_action" where
  "recovery_action InputsChanged True ChoiceLeft = Continue"
| "recovery_action UpgradeRequired True ChoiceLeft = Continue"
| "recovery_action InputsChanged True ChoiceRight = AtomicRebuild"
| "recovery_action UpgradeRequired True ChoiceRight = AtomicRebuild"
| "recovery_action (LoadFailure True) False ChoiceLeft = Retry"
| "recovery_action (PersistenceFailure True) False ChoiceLeft = Retry"
| "recovery_action _ True ChoiceLeft = Continue"
| "recovery_action _ False ChoiceLeft = ExitToMister"
| "recovery_action _ _ ChoiceRight = FreshRebuild"

definition recovery_label :: "catalog_recovery_mode \<Rightarrow> bool \<Rightarrow> catalog_recovery_choice \<Rightarrow> string" where
  "recovery_label mode has_stale choice =
     (case recovery_action mode has_stale choice of
        Continue \<Rightarrow> ''Continue''
      | Retry \<Rightarrow> ''Retry''
      | AtomicRebuild \<Rightarrow> ''Rebuild''
      | FreshRebuild \<Rightarrow> ''Full rebuild''
      | ExitToMister \<Rightarrow> ''Exit to MiSTer'')"

fun diagnostic_code :: "catalog_recovery_mode \<Rightarrow> string" where
  "diagnostic_code InputsChanged = ''catalog_inputs_changed''"
| "diagnostic_code UpgradeRequired = ''projection_upgrade_required''"
| "diagnostic_code RepairRequired = ''catalog_repair_required''"
| "diagnostic_code (LoadFailure _) = ''catalog_load_failed''"
| "diagnostic_code (PersistenceFailure _) = ''catalog_persistence_failed''"

fun diagnostic_stage :: "catalog_recovery_mode \<Rightarrow> string" where
  "diagnostic_stage (LoadFailure _) = ''load''"
| "diagnostic_stage (PersistenceFailure _) = ''persist''"
| "diagnostic_stage _ = ''validate''"

fun diagnostic_operation :: "catalog_recovery_mode \<Rightarrow> string" where
  "diagnostic_operation (LoadFailure _) = ''load''"
| "diagnostic_operation (PersistenceFailure _) = ''rebuild''"
| "diagnostic_operation _ = ''check''"

definition catalog_recovery_message :: "catalog_recovery_mode \<Rightarrow> string \<Rightarrow> bool \<Rightarrow> string" where
  "catalog_recovery_message mode detail has_stale =
     (let safety = (if has_stale then '' Available games remain playable.''
            else '' No usable generated catalog is currently available.'');
          rebuild = (if mode \<in> {InputsChanged, UpgradeRequired}
            then '' Rebuild creates and validates a replacement before switching catalogs.''
            else '' Full rebuild deletes generated catalog data only; games, screenshots, and media are untouched.'');
          report = (if mode \<in> {InputsChanged, UpgradeRequired} then ''''
            else '' Support report: diagnostics/catalog/latest.json.'')
      in detail @ safety @ rebuild @ report)"

datatype launch_failure_kind =
  UnreadablePayload | DamagedArchive | MissingCore | HandoffRejected | InternalFailure

datatype launching_phase = LoadingFramePending string | HandoffPending

datatype recovery_reason =
  ReasonLaunchFailed string launch_failure_kind string
| ReasonLaunchTimedOut

text \<open>Building: mode, foreground, has stale catalog. Load failed: error, has stale catalog, mode, selected.\<close>

datatype lifecycle_state =
  StartupCatalogPending
| StCatalogBuilding catalog_build_mode bool bool
| StCatalogLoadFailed string bool catalog_recovery_mode catalog_recovery_choice
| StCatalogRetrying bool
| StCatalogReady catalog_source bool
| StIdle
| StLaunching launching_phase
| StHandoff bool
| StRecovered recovery_reason

fun state_label :: "lifecycle_state \<Rightarrow> string" where
  "state_label StartupCatalogPending = ''startup-catalog-pending''"
| "state_label (StCatalogBuilding _ _ _) = ''catalog-building''"
| "state_label (StCatalogLoadFailed _ _ _ _) = ''catalog-load-failed''"
| "state_label (StCatalogRetrying _) = ''catalog-retrying''"
| "state_label (StCatalogReady _ _) = ''catalog-ready''"
| "state_label StIdle = ''idle''"
| "state_label (StLaunching _) = ''launching''"
| "state_label (StHandoff _) = ''handoff''"
| "state_label (StRecovered _) = ''recovered''"

datatype startup_mode = ColdNoCatalog | WarmCatalog | ReturnFromGame

fun startup_mode_label :: "startup_mode \<Rightarrow> string" where
  "startup_mode_label ColdNoCatalog = ''cold_no_catalog''"
| "startup_mode_label WarmCatalog = ''warm_catalog''"
| "startup_mode_label ReturnFromGame = ''return_from_game''"

datatype startup_reveal_state =
  CatalogProgressVisible | HoldBlack | HoldBlackReturn | HydrateReturnCatalog | RestoreContext
| WaitRelevantPreview | RevealLauncher | InputEnabled

fun reveal_label :: "startup_reveal_state \<Rightarrow> string" where
  "reveal_label CatalogProgressVisible = ''catalog_progress_visible''"
| "reveal_label HoldBlack = ''hold_black''"
| "reveal_label HoldBlackReturn = ''hold_black_return''"
| "reveal_label HydrateReturnCatalog = ''hydrate_return_catalog''"
| "reveal_label RestoreContext = ''restore_context''"
| "reveal_label WaitRelevantPreview = ''wait_relevant_preview''"
| "reveal_label RevealLauncher = ''reveal_launcher''"
| "reveal_label InputEnabled = ''input_enabled''"

record startup_reveal_status =
  ss_mode :: startup_mode
  ss_state :: startup_reveal_state
  ss_revealed :: bool
  ss_input_enabled :: bool
  ss_reveal_ms :: u64
  ss_input_enabled_ms :: u64

datatype bridge_sync_plan = SyncNone | SyncLight | SyncFull

datatype launcher_effect =
  StartupEvent string string
| BeginLoadingFrame string
| BeginLaunchHandoff string
| PresentRecoveryFrame
| ReturnToIdle
| StartCatalogRetry string
| StartCatalogRebuild string
| StartFreshCatalogBuild string
| EffectExitToMister

type_synonym effects = "launcher_effect list"

definition startup_event :: "effects \<Rightarrow> string \<Rightarrow> string \<Rightarrow> effects" where
  "startup_event out name detail = out @ [StartupEvent name detail]"

definition has_startup_event :: "effects \<Rightarrow> string \<Rightarrow> bool" where
  "has_startup_event out expected =
     list_ex (\<lambda>e. case e of StartupEvent name _ \<Rightarrow> name = expected | _ \<Rightarrow> False) out"

datatype startup_catalog_state =
  CatReady catalog_source bool
| CatBuilding catalog_build_mode bool bool
| CatLoadFailed string bool bool

text \<open>
  The return context is only formatted into a startup event; \<open>rc_visual_index\<close> is the text
  \<open>{visual_index:.3}\<close> of that float.
\<close>

record return_context =
  rc_screen :: string
  rc_system_id :: string
  rc_filter :: string
  rc_game_path :: string
  rc_game_index :: nat
  rc_visual_index :: string
  rc_preview_expected :: bool
  rc_restored_at :: instant

datatype lifecycle_input =
  InStartupRevealReady string
| InReturnCatalogHydrationNeeded
| InReturnContextRestored return_context
| InReturnPreviewReady string
| InCatalogReady catalog_source bool
| InCatalogBuilding catalog_build_mode bool bool
| InCatalogLoadFailed string bool bool
| InCatalogRecoveryRequired string bool catalog_recovery_mode
| InCatalogRecoveryLeft
| InCatalogRecoveryRight
| InCatalogRecoveryConfirm
| InCatalogRecoveryCancel
| InCatalogValidationStarted
| InCatalogValidationFinished
| InLaunchRequested string
| InLaunchFailed string launch_failure_kind string
| InLaunchFailureAcknowledge
| InLaunchSucceeded bool
| InLaunchTimedOut

record lifecycle_step =
  ls_state :: lifecycle_state
  ls_bridge_sync :: bridge_sync_plan

record recovery_dialog =
  cd_title :: string
  cd_message :: string
  cd_left_label :: string
  cd_right_label :: string
  cd_selected :: catalog_recovery_choice

record failure_dialog =
  fd_title :: string
  fd_message :: string

definition catalog_recovery_dialog :: "lifecycle_state \<Rightarrow> recovery_dialog option" where
  "catalog_recovery_dialog s =
     (case s of
        StCatalogLoadFailed err has_stale mode selected \<Rightarrow>
          Some \<lparr>cd_title = recovery_title mode,
                cd_message = catalog_recovery_message mode err has_stale,
                cd_left_label = recovery_label mode has_stale ChoiceLeft,
                cd_right_label = recovery_label mode has_stale ChoiceRight, cd_selected = selected\<rparr>
      | _ \<Rightarrow> None)"

fun failure_message :: "launch_failure_kind \<Rightarrow> string" where
  "failure_message UnreadablePayload =
     ''The game file could not be read. Check that the storage is connected and the file still exists.''"
| "failure_message DamagedArchive =
     ''The archive is damaged or unsupported. Replace it with a valid ZIP file and try again.''"
| "failure_message MissingCore =
     ''The required core is not installed. Update or reinstall the system core, then try again.''"
| "failure_message HandoffRejected =
     ''MiSTer did not accept the launch request. Return to the list and try again.''"
| "failure_message InternalFailure =
     ''The launch could not be prepared. Return to the list and choose the game again.''"

definition launch_failure_dialog :: "lifecycle_state \<Rightarrow> failure_dialog option" where
  "launch_failure_dialog s =
     (let dialog = (\<lambda>title kind. Some \<lparr>fd_title = ''Couldn'' @ [CHR 0x27] @ ''t launch '' @ title,
                fd_message = failure_message kind\<rparr>) in
      case s of
        StRecovered (ReasonLaunchFailed title kind _) \<Rightarrow> dialog title kind
      | StRecovered ReasonLaunchTimedOut \<Rightarrow> dialog ''This game'' HandoffRejected
      | _ \<Rightarrow> None)"

section \<open>State and startup reveal\<close>

record lifecycle =
  lc_state :: lifecycle_state
  lc_worker_enabled :: bool
  lc_classified :: bool
  lc_mode :: startup_mode
  lc_reveal :: startup_reveal_state
  lc_started_at :: instant
  lc_preview_wait_started_at :: "instant option"
  lc_revealed_at :: "instant option"
  lc_input_enabled_at :: "instant option"
  lc_catalog_root :: string

definition COLD_STARTUP_MAX_DURATION :: duration where
  "COLD_STARTUP_MAX_DURATION = from_secs 20"

definition RETURN_PREVIEW_HOLD_TIMEOUT :: duration where
  "RETURN_PREVIEW_HOLD_TIMEOUT = from_millis 250"

definition RETURN_BLACK_SCREEN_TIMEOUT :: duration where
  "RETURN_BLACK_SCREEN_TIMEOUT = from_secs 5"

text \<open>\<open>default_root\<close> is \<open>arcade_catalog::DEFAULT_ARCADE_ROOT\<close>.\<close>

definition lifecycle_new :: "bool \<Rightarrow> string \<Rightarrow> instant \<Rightarrow> lifecycle" where
  "lifecycle_new worker default_root now = \<lparr>lc_state = StartupCatalogPending, lc_worker_enabled = worker,
     lc_classified = False, lc_mode = WarmCatalog, lc_reveal = HoldBlack, lc_started_at = now,
     lc_preview_wait_started_at = None, lc_revealed_at = None, lc_input_enabled_at = None,
     lc_catalog_root = default_root\<rparr>"

definition set_catalog_root :: "lifecycle \<Rightarrow> string \<Rightarrow> lifecycle" where
  "set_catalog_root l root = l\<lparr>lc_catalog_root := root\<rparr>"

definition lc_transition ::
  "lifecycle \<Rightarrow> effects \<Rightarrow> lifecycle_state \<Rightarrow> string \<Rightarrow> lifecycle \<times> effects" where
  "lc_transition l out next reason =
     (if lc_state l = next then (l, out)
      else (l\<lparr>lc_state := next\<rparr>,
            startup_event out ''launcher_lifecycle_transition''
              (''from='' @ state_label (lc_state l) @ '' to='' @ state_label next @ '' reason='' @ reason)))"

definition mark_reveal_ready :: "lifecycle \<Rightarrow> effects \<Rightarrow> string \<Rightarrow> lifecycle \<times> effects" where
  "mark_reveal_ready l out detail =
     (if lc_reveal l \<in> {RevealLauncher, InputEnabled} then (l, out)
      else (l\<lparr>lc_reveal := RevealLauncher\<rparr>,
            startup_event out ''launcher_reveal_ready''
              (''mode='' @ startup_mode_label (lc_mode l) @ '' '' @ detail)))"

definition begin_startup_reveal ::
  "lifecycle \<Rightarrow> effects \<Rightarrow> startup_mode \<Rightarrow> instant \<Rightarrow> lifecycle \<times> effects" where
  "begin_startup_reveal l out mode now =
     (let l1 = l\<lparr>lc_mode := mode, lc_started_at := now, lc_preview_wait_started_at := None,
                lc_revealed_at := None, lc_input_enabled_at := None,
                lc_reveal := (case mode of ColdNoCatalog \<Rightarrow> CatalogProgressVisible
                   | WarmCatalog \<Rightarrow> RevealLauncher | ReturnFromGame \<Rightarrow> HoldBlackReturn)\<rparr>;
          out1 = startup_event out ''startup_entry_classified'' (''mode='' @ startup_mode_label mode)
      in (l1, case lc_reveal l1 of
           CatalogProgressVisible \<Rightarrow> startup_event out1 ''catalog_progress_revealed'' ''mode=cold_no_catalog''
         | RevealLauncher \<Rightarrow>
             startup_event (startup_event out1 ''startup_shell_visible'' ''mode=warm_catalog'')
               ''launcher_reveal_ready'' ''mode=warm_catalog catalog_state=ready''
         | HoldBlackReturn \<Rightarrow> startup_event out1 ''startup_hold_black'' ''mode=return_from_game''
         | _ \<Rightarrow> out1))"

definition startup_can_present_frame :: "lifecycle \<Rightarrow> bool" where
  "startup_can_present_frame l \<longleftrightarrow> lc_reveal l \<in> {CatalogProgressVisible, RevealLauncher, InputEnabled}"

definition startup_input_enabled :: "lifecycle \<Rightarrow> bool" where
  "startup_input_enabled l \<longleftrightarrow> lc_input_enabled_at l \<noteq> None"

definition startup_hard_deadline_reached :: "lifecycle \<Rightarrow> instant \<Rightarrow> bool" where
  "startup_hard_deadline_reached l now \<longleftrightarrow>
     lc_mode l = ColdNoCatalog \<and> COLD_STARTUP_MAX_DURATION \<le> since now (lc_started_at l)"

definition tick_startup_reveal ::
  "lifecycle \<Rightarrow> effects \<Rightarrow> instant \<Rightarrow> bool \<Rightarrow> lifecycle \<times> effects" where
  "tick_startup_reveal l out now catalog_ready =
     (if lc_input_enabled_at l \<noteq> None then (l, out)
      else let elapsed = since now (lc_started_at l) in
        if lc_mode l = ReturnFromGame \<and> \<not> startup_can_present_frame l \<and> RETURN_BLACK_SCREEN_TIMEOUT \<le> elapsed
        then mark_reveal_ready l
               (startup_event out ''return_black_screen_timeout''
                  (''elapsed_ms='' @ show_nat (as_millis elapsed) @ '' state='' @ reveal_label (lc_reveal l)))
               ''preview_state=return_black_screen_timeout''
        else case lc_reveal l of
            CatalogProgressVisible \<Rightarrow>
              if catalog_ready then mark_reveal_ready l out ''preview_state=not_required''
              else if startup_hard_deadline_reached l now
              then mark_reveal_ready l
                     (startup_event out ''startup_hard_timeout'' (''elapsed_ms='' @ show_nat (as_millis elapsed)))
                     ''preview_state=startup_hard_timeout''
              else (l, out)
          | WaitRelevantPreview \<Rightarrow>
              (case lc_preview_wait_started_at l of
                 None \<Rightarrow> (l, out)
               | Some started \<Rightarrow>
                   if RETURN_PREVIEW_HOLD_TIMEOUT \<le> since now started
                   then mark_reveal_ready l
                          (startup_event out ''return_preview_timeout''
                             (''elapsed_ms='' @ show_nat (as_millis (since now started))))
                          ''preview_state=return_preview_timeout''
                   else (l, out))
          | _ \<Rightarrow> (l, out))"

definition startup_waiting_for_return_catalog :: "lifecycle \<Rightarrow> bool" where
  "startup_waiting_for_return_catalog l \<longleftrightarrow>
     lc_mode l = ReturnFromGame \<and> lc_reveal l = HydrateReturnCatalog"

definition catalog_worker_start_delay :: "lifecycle \<Rightarrow> duration \<Rightarrow> duration" where
  "catalog_worker_start_delay l default_delay =
     (if startup_waiting_for_return_catalog l then 0 else default_delay)"

definition millis_after_start :: "lifecycle \<Rightarrow> instant option \<Rightarrow> u64" where
  "millis_after_start l at =
     (case at of None \<Rightarrow> 0 | Some t \<Rightarrow> of_nat (as_millis (since t (lc_started_at l))))"

definition startup_status :: "lifecycle \<Rightarrow> startup_reveal_status" where
  "startup_status l = \<lparr>ss_mode = lc_mode l, ss_state = lc_reveal l,
     ss_revealed = (lc_revealed_at l \<noteq> None), ss_input_enabled = (lc_input_enabled_at l \<noteq> None),
     ss_reveal_ms = millis_after_start l (lc_revealed_at l),
     ss_input_enabled_ms = millis_after_start l (lc_input_enabled_at l)\<rparr>"

definition note_startup_frame_presented ::
  "lifecycle \<Rightarrow> effects \<Rightarrow> u64 \<Rightarrow> instant \<Rightarrow> lifecycle \<times> effects" where
  "note_startup_frame_presented l out frame now =
     (if lc_reveal l \<noteq> RevealLauncher then (l, out)
      else let detail = ''mode='' @ startup_mode_label (lc_mode l) @ '' frame='' @ show_nat (unat frame);
               (l1, out1) = (if lc_revealed_at l = None
                  then (l\<lparr>lc_revealed_at := Some now\<rparr>, startup_event out ''launcher_revealed'' detail)
                  else (l, out))
           in if lc_input_enabled_at l1 = None
              then (l1\<lparr>lc_reveal := InputEnabled, lc_input_enabled_at := Some now\<rparr>,
                    startup_event out1 ''launcher_input_enabled'' detail)
              else (l1, out1))"

section \<open>Classification and input handling\<close>

definition lc_step :: "lifecycle \<Rightarrow> bridge_sync_plan \<Rightarrow> lifecycle_step" where
  "lc_step l sync = \<lparr>ls_state = lc_state l, ls_bridge_sync = sync\<rparr>"

definition load_failed ::
  "lifecycle \<Rightarrow> effects \<Rightarrow> string \<Rightarrow> bool \<Rightarrow> catalog_recovery_mode \<Rightarrow> string \<Rightarrow> lifecycle \<times> effects" where
  "load_failed l out err has_stale mode reason =
     (let (l1, out1) = lc_transition l out (StCatalogLoadFailed err has_stale mode ChoiceLeft) reason
      in mark_reveal_ready l1 out1 reason)"

definition catalog_ready_to ::
  "lifecycle \<Rightarrow> effects \<Rightarrow> catalog_source \<Rightarrow> bool \<Rightarrow> string \<Rightarrow> lifecycle \<times> effects" where
  "catalog_ready_to l out source validating reason =
     (let (l1, out1) = lc_transition l out (StCatalogReady source validating) reason
      in if validating then (l1, out1) else lc_transition l1 out1 StIdle ''catalog_idle'')"

definition classify_startup_catalog ::
  "lifecycle \<Rightarrow> effects \<Rightarrow> startup_catalog_state \<Rightarrow> lifecycle_step \<times> lifecycle \<times> effects" where
  "classify_startup_catalog l out input =
     (let l0 = l\<lparr>lc_classified := True\<rparr>;
          (l1, out1) = (case input of
              CatReady source validation_scheduled \<Rightarrow>
                catalog_ready_to l0 out source validation_scheduled ''startup_catalog_classified''
            | CatBuilding mode foreground_update has_stale \<Rightarrow>
                lc_transition l0 out
                  (StCatalogBuilding mode (foreground_update \<or> lc_worker_enabled l0) has_stale)
                  ''startup_catalog_classified''
            | CatLoadFailed err has_stale transient \<Rightarrow>
                load_failed l0 out err has_stale (LoadFailure transient) ''catalog_load_failed'')
      in (lc_step l1 SyncFull, l1, out1))"

text \<open>\<open>handle\<close>, first match: the startup inputs, which return early (\<open>None\<close>: another input).\<close>

definition restored_detail :: "return_context \<Rightarrow> string" where
  "restored_detail c =
     ''screen='' @ rc_screen c @ '' system_id='' @ rc_system_id c @ '' filter='' @ rc_filter c @
     '' game_path='' @ rc_game_path c @ '' game_index='' @ show_nat (rc_game_index c) @
     '' visual_index='' @ rc_visual_index c @ '' preview_expected='' @ show_bool (rc_preview_expected c)"

fun handle_startup :: "lifecycle \<Rightarrow> effects \<Rightarrow> lifecycle_input \<Rightarrow> (lifecycle \<times> effects) option" where
  "handle_startup l out (InStartupRevealReady preview_state) =
     Some (mark_reveal_ready l out (''preview_state='' @ preview_state))"
| "handle_startup l out InReturnCatalogHydrationNeeded =
     Some (if lc_mode l = ReturnFromGame \<and> lc_reveal l = HoldBlackReturn
           then (l\<lparr>lc_reveal := HydrateReturnCatalog\<rparr>,
                 startup_event out ''return_catalog_hydration_needed'' ''mode=return_from_game'')
           else (l, out))"
| "handle_startup l out (InReturnContextRestored c) =
     Some (let l1 = l\<lparr>lc_reveal := RestoreContext\<rparr>;
               out1 = startup_event (startup_event out ''startup_restore_context'' ''mode=return_from_game'')
                        ''return_context_restored'' (restored_detail c)
           in if rc_preview_expected c
              then (l1\<lparr>lc_reveal := WaitRelevantPreview,
                       lc_preview_wait_started_at := Some (rc_restored_at c)\<rparr>, out1)
              else mark_reveal_ready l1 out1 ''preview_state=not_required'')"
| "handle_startup l out (InReturnPreviewReady preview_state) =
     Some (mark_reveal_ready l
             (startup_event out ''return_preview_ready'' (''preview_state='' @ preview_state))
             (''preview_state='' @ preview_state))"
| "handle_startup l out _ = None"

fun is_building :: "lifecycle_state \<Rightarrow> bool" where
  "is_building (StCatalogBuilding _ _ _) = True"
| "is_building _ = False"

fun is_retrying :: "lifecycle_state \<Rightarrow> bool" where
  "is_retrying (StCatalogRetrying _) = True"
| "is_retrying _ = False"

fun is_ready_or_idle :: "lifecycle_state \<Rightarrow> bool" where
  "is_ready_or_idle (StCatalogReady _ _) = True"
| "is_ready_or_idle StIdle = True"
| "is_ready_or_idle _ = False"

fun is_launching :: "lifecycle_state \<Rightarrow> bool" where
  "is_launching (StLaunching _) = True"
| "is_launching _ = False"

text \<open>Second match, the catalog results.\<close>

fun handle_catalog :: "lifecycle \<Rightarrow> effects \<Rightarrow> lifecycle_input \<Rightarrow> lifecycle \<times> effects" where
  "handle_catalog l out (InCatalogReady source validating) =
     (if is_building (lc_state l) \<or> is_retrying (lc_state l) \<or> is_ready_or_idle (lc_state l)
      then catalog_ready_to l out source validating ''catalog_ready'' else (l, out))"
| "handle_catalog l out (InCatalogBuilding mode foreground has_stale) =
     (if is_building (lc_state l) \<or> is_ready_or_idle (lc_state l)
      then lc_transition l out (StCatalogBuilding mode foreground has_stale) ''catalog_building''
      else (l, out))"
| "handle_catalog l out (InCatalogLoadFailed err has_stale transient) =
     (if is_building (lc_state l) \<or> is_retrying (lc_state l) \<or> is_ready_or_idle (lc_state l)
      then load_failed l out err has_stale (LoadFailure transient) ''catalog_load_failed'' else (l, out))"
| "handle_catalog l out (InCatalogRecoveryRequired err has_stale mode) =
     (if is_building (lc_state l) \<or> is_retrying (lc_state l) \<or> is_ready_or_idle (lc_state l)
      then load_failed l out err has_stale mode ''catalog_recovery_required'' else (l, out))"
| "handle_catalog l out _ = (l, out)"

text \<open>The recovery dialog.\<close>

definition select_choice ::
  "lifecycle \<Rightarrow> effects \<Rightarrow> catalog_recovery_choice \<Rightarrow> string \<Rightarrow> lifecycle \<times> effects" where
  "select_choice l out choice reason =
     (case lc_state l of
        StCatalogLoadFailed err has_stale mode _ \<Rightarrow>
          lc_transition l out (StCatalogLoadFailed err has_stale mode choice) reason
      | _ \<Rightarrow> (l, out))"

definition go_and_push ::
  "lifecycle \<Rightarrow> effects \<Rightarrow> lifecycle_state \<Rightarrow> string \<Rightarrow> launcher_effect \<Rightarrow> lifecycle \<times> effects" where
  "go_and_push l out next reason eff =
     (let (l1, out1) = lc_transition l out next reason in (l1, out1 @ [eff]))"

definition confirm_recovery :: "lifecycle \<Rightarrow> effects \<Rightarrow> lifecycle \<times> effects" where
  "confirm_recovery l out =
     (case lc_state l of
        StCatalogLoadFailed _ has_stale mode selected \<Rightarrow>
          (case recovery_action mode has_stale selected of
             Continue \<Rightarrow> go_and_push l out StIdle ''catalog_continue'' ReturnToIdle
           | Retry \<Rightarrow> go_and_push l out (StCatalogRetrying has_stale) ''catalog_retry_requested''
                        (StartCatalogRetry (lc_catalog_root l))
           | AtomicRebuild \<Rightarrow> go_and_push l out (StCatalogBuilding UpdateBuild True has_stale)
                        ''catalog_rebuild_requested'' (StartCatalogRebuild (lc_catalog_root l))
           | FreshRebuild \<Rightarrow> go_and_push l out (StCatalogBuilding FreshRecovery True has_stale)
                        ''catalog_fresh_rebuild_requested'' (StartFreshCatalogBuild (lc_catalog_root l))
           | ExitToMister \<Rightarrow> go_and_push l out StIdle ''catalog_exit'' EffectExitToMister)
      | _ \<Rightarrow> (l, out))"

definition cancel_recovery :: "lifecycle \<Rightarrow> effects \<Rightarrow> lifecycle \<times> effects" where
  "cancel_recovery l out =
     (case lc_state l of
        StCatalogLoadFailed _ has_stale _ _ \<Rightarrow>
          if has_stale then go_and_push l out StIdle ''catalog_continue'' ReturnToIdle
          else go_and_push l out StIdle ''catalog_exit'' EffectExitToMister
      | _ \<Rightarrow> (l, out))"

fun handle_recovery :: "lifecycle \<Rightarrow> effects \<Rightarrow> lifecycle_input \<Rightarrow> lifecycle \<times> effects" where
  "handle_recovery l out InCatalogRecoveryLeft = select_choice l out ChoiceLeft ''catalog_recovery_left''"
| "handle_recovery l out InCatalogRecoveryRight = select_choice l out ChoiceRight ''catalog_recovery_right''"
| "handle_recovery l out InCatalogRecoveryConfirm = confirm_recovery l out"
| "handle_recovery l out InCatalogRecoveryCancel = cancel_recovery l out"
| "handle_recovery l out _ = (l, out)"

fun handle_validation :: "lifecycle \<Rightarrow> effects \<Rightarrow> lifecycle_input \<Rightarrow> lifecycle \<times> effects" where
  "handle_validation l out InCatalogValidationStarted =
     (case lc_state l of
        StCatalogReady source _ \<Rightarrow>
          lc_transition l out (StCatalogReady source True) ''catalog_validation_started''
      | _ \<Rightarrow> (l, out))"
| "handle_validation l out InCatalogValidationFinished =
     (case lc_state l of
        StCatalogReady source _ \<Rightarrow>
          (let (l1, out1) = lc_transition l out (StCatalogReady source False) ''catalog_validation_finished''
           in lc_transition l1 out1 StIdle ''catalog_idle'')
      | _ \<Rightarrow> (l, out))"
| "handle_validation l out _ = (l, out)"

text \<open>Launching. Effects are pushed before the transition.\<close>

fun handle_launch :: "lifecycle \<Rightarrow> effects \<Rightarrow> lifecycle_input \<Rightarrow> lifecycle \<times> effects" where
  "handle_launch l out (InLaunchRequested launch_ref) =
     (if is_ready_or_idle (lc_state l) \<and> startup_input_enabled l
      then lc_transition l (out @ [BeginLoadingFrame launch_ref])
             (StLaunching (LoadingFramePending launch_ref)) ''launch_requested''
      else (l, out))"
| "handle_launch l out (InLaunchFailed title kind detail) =
     (if is_launching (lc_state l)
      then lc_transition l (out @ [PresentRecoveryFrame])
             (StRecovered (ReasonLaunchFailed title kind detail)) ''launch_failed''
      else (l, out))"
| "handle_launch l out InLaunchFailureAcknowledge =
     (case lc_state l of
        StRecovered _ \<Rightarrow> lc_transition l (out @ [ReturnToIdle]) StIdle ''launch_failure_acknowledged''
      | _ \<Rightarrow> (l, out))"
| "handle_launch l out (InLaunchSucceeded spawned_mister) =
     (if is_launching (lc_state l)
      then lc_transition l out (StHandoff spawned_mister) ''launch_handoff'' else (l, out))"
| "handle_launch l out InLaunchTimedOut =
     (if is_launching (lc_state l)
      then lc_transition l (out @ [PresentRecoveryFrame]) (StRecovered ReasonLaunchTimedOut) ''launch_timed_out''
      else (l, out))"
| "handle_launch l out _ = (l, out)"

text \<open>
  Every input is handled by exactly one of the four groups (the others leave state and output
  alone), so the Rust \<open>match\<close> is their composition.
\<close>

definition handle ::
  "lifecycle \<Rightarrow> effects \<Rightarrow> lifecycle_input \<Rightarrow> lifecycle_step \<times> lifecycle \<times> effects" where
  "handle l out input =
     (let (l1, out1) =
        (case handle_startup l out input of
           Some res \<Rightarrow> res
         | None \<Rightarrow>
             if \<not> lc_classified l then (l, out)
             else let (l1, out1) = handle_catalog l out input;
                      (l2, out2) = handle_recovery l1 out1 input;
                      (l3, out3) = handle_validation l2 out2 input
                  in handle_launch l3 out3 input)
      in (lc_step l1 SyncNone, l1, out1))"

text \<open>\<open>elapsed_ms\<close> is \<open>at.elapsed()\<close>, read from the clock when the frame is reported.\<close>

definition loading_frame_presented :: "lifecycle \<Rightarrow> effects \<Rightarrow> nat \<Rightarrow> lifecycle \<times> effects" where
  "loading_frame_presented l out elapsed_ms =
     (case lc_state l of
        StLaunching (LoadingFramePending launch_ref) \<Rightarrow>
          lc_transition l (out @ [BeginLaunchHandoff launch_ref]) (StLaunching HandoffPending)
            (''loading_frame_presented at_ms='' @ show_nat elapsed_ms)
      | _ \<Rightarrow> (l, out))"

section \<open>Runs\<close>

datatype lifecycle_op =
  LcBegin startup_mode instant
| LcTick instant bool
| LcFrame u64 instant
| LcClassify startup_catalog_state
| LcInput lifecycle_input
| LcLoadingFrame nat
| LcRoot string

fun lc_apply :: "lifecycle \<times> effects \<Rightarrow> lifecycle_op \<Rightarrow> lifecycle \<times> effects" where
  "lc_apply (l, out) (LcBegin mode now) = begin_startup_reveal l out mode now"
| "lc_apply (l, out) (LcTick now ready) = tick_startup_reveal l out now ready"
| "lc_apply (l, out) (LcFrame frame now) = note_startup_frame_presented l out frame now"
| "lc_apply (l, out) (LcClassify input) = snd (classify_startup_catalog l out input)"
| "lc_apply (l, out) (LcInput input) = snd (handle l out input)"
| "lc_apply (l, out) (LcLoadingFrame ms) = loading_frame_presented l out ms"
| "lc_apply (l, out) (LcRoot root) = (set_catalog_root l root, out)"

abbreviation lc_run :: "lifecycle \<times> effects \<Rightarrow> lifecycle_op list \<Rightarrow> lifecycle \<times> effects" where
  "lc_run \<equiv> run_steps lc_apply"

lemma lc_step_frame [simp]: "snd (x, y, z) = (y, z)"
  by simp

text \<open>What the helpers change, field by field.\<close>

lemma lc_transition_state [simp]: "lc_state (fst (lc_transition l out next reason)) = next"
  by (simp add: lc_transition_def)

lemma lc_transition_frame [simp]:
  "lc_mode (fst (lc_transition l out next reason)) = lc_mode l"
  "lc_reveal (fst (lc_transition l out next reason)) = lc_reveal l"
  "lc_started_at (fst (lc_transition l out next reason)) = lc_started_at l"
  "lc_preview_wait_started_at (fst (lc_transition l out next reason)) = lc_preview_wait_started_at l"
  "lc_revealed_at (fst (lc_transition l out next reason)) = lc_revealed_at l"
  "lc_input_enabled_at (fst (lc_transition l out next reason)) = lc_input_enabled_at l"
  "lc_classified (fst (lc_transition l out next reason)) = lc_classified l"
  "lc_catalog_root (fst (lc_transition l out next reason)) = lc_catalog_root l"
  by (simp_all add: lc_transition_def)

lemma mark_reveal_frame [simp]:
  "lc_state (fst (mark_reveal_ready l out d)) = lc_state l"
  "lc_mode (fst (mark_reveal_ready l out d)) = lc_mode l"
  "lc_started_at (fst (mark_reveal_ready l out d)) = lc_started_at l"
  "lc_preview_wait_started_at (fst (mark_reveal_ready l out d)) = lc_preview_wait_started_at l"
  "lc_revealed_at (fst (mark_reveal_ready l out d)) = lc_revealed_at l"
  "lc_input_enabled_at (fst (mark_reveal_ready l out d)) = lc_input_enabled_at l"
  "lc_classified (fst (mark_reveal_ready l out d)) = lc_classified l"
  "lc_reveal (fst (mark_reveal_ready l out d)) = (if lc_reveal l = InputEnabled then InputEnabled else RevealLauncher)"
  by (auto simp: mark_reveal_ready_def)

text \<open>The startup inputs touch only the reveal, the other groups only the state (and the reveal, by \<open>load_failed\<close>).\<close>

definition reveal_fields ::
  "lifecycle \<Rightarrow> startup_mode \<times> instant \<times> instant option \<times> instant option \<times> instant option" where
  "reveal_fields l = (lc_mode l, lc_started_at l, lc_preview_wait_started_at l, lc_revealed_at l,
     lc_input_enabled_at l)"

definition reveal_advances :: "lifecycle \<Rightarrow> lifecycle \<Rightarrow> bool" where
  "reveal_advances l l' \<longleftrightarrow> reveal_fields l' = reveal_fields l \<and>
     (lc_reveal l' = lc_reveal l \<or> lc_reveal l \<noteq> InputEnabled \<and> lc_reveal l' = RevealLauncher)"

lemma reveal_advances_refl [simp]: "reveal_advances l l"
  by (simp add: reveal_advances_def)

lemma reveal_advances_trans: "reveal_advances l l' \<Longrightarrow> reveal_advances l' l'' \<Longrightarrow> reveal_advances l l''"
  by (auto simp: reveal_advances_def)

lemma reveal_advances_transition [simp]: "reveal_advances l (fst (lc_transition l out next reason))"
  by (simp add: reveal_advances_def reveal_fields_def)

lemma reveal_advances_mark [simp]: "reveal_advances l (fst (mark_reveal_ready l out d))"
  by (auto simp: reveal_advances_def reveal_fields_def)

lemma reveal_advances_load_failed [simp]: "reveal_advances l (fst (load_failed l out err st mode reason))"
proof -
  obtain l1 out1 where t: "lc_transition l out (StCatalogLoadFailed err st mode ChoiceLeft) reason = (l1, out1)"
    by fastforce
  have "reveal_advances l l1"
    using reveal_advances_transition [of l out] t by (metis fst_conv)
  then show ?thesis
    by (auto simp: load_failed_def t intro: reveal_advances_trans [OF _ reveal_advances_mark])
qed

lemma reveal_advances_two:
  "reveal_advances l (fst (lc_transition l out s r)) \<Longrightarrow>
   reveal_advances l (fst (lc_transition (fst (lc_transition l out s r)) out' s' r'))"
  by (rule reveal_advances_trans [OF _ reveal_advances_transition])

lemma reveal_advances_ready [simp]: "reveal_advances l (fst (catalog_ready_to l out source v reason))"
  by (auto simp: catalog_ready_to_def split_def Let_def reveal_advances_two)

lemma reveal_advances_go [simp]: "reveal_advances l (fst (go_and_push l out next reason eff))"
  by (simp add: go_and_push_def split_def Let_def)

lemma reveal_advances_catalog [simp]: "reveal_advances l (fst (handle_catalog l out input))"
  by (cases input) simp_all

lemma reveal_advances_recovery [simp]: "reveal_advances l (fst (handle_recovery l out input))"
  by (cases input)
    (auto simp: select_choice_def confirm_recovery_def cancel_recovery_def
      split: lifecycle_state.splits catalog_recovery_action.splits)

lemma reveal_advances_validation [simp]: "reveal_advances l (fst (handle_validation l out input))"
  by (cases input) (auto simp: split_def Let_def reveal_advances_two split: lifecycle_state.splits)

lemma reveal_advances_launch [simp]: "reveal_advances l (fst (handle_launch l out input))"
  by (cases input) (auto split: lifecycle_state.splits)

definition handle_rest :: "lifecycle \<Rightarrow> effects \<Rightarrow> lifecycle_input \<Rightarrow> lifecycle \<times> effects" where
  "handle_rest l out input =
     (let (l1, out1) = handle_catalog l out input; (l2, out2) = handle_recovery l1 out1 input;
          (l3, out3) = handle_validation l2 out2 input in handle_launch l3 out3 input)"

lemma snd_handle:
  "snd (handle l out input) =
     (case handle_startup l out input of
        Some res \<Rightarrow> res
      | None \<Rightarrow> if lc_classified l then handle_rest l out input else (l, out))"
  by (simp add: handle_def handle_rest_def split_def Let_def split: option.splits)

lemma reveal_advances_rest: "reveal_advances l (fst (handle_rest l out input))"
proof -
  obtain l1 out1 where 1: "handle_catalog l out input = (l1, out1)" by fastforce
  obtain l2 out2 where 2: "handle_recovery l1 out1 input = (l2, out2)" by fastforce
  obtain l3 out3 where 3: "handle_validation l2 out2 input = (l3, out3)" by fastforce
  have "reveal_advances l l1" "reveal_advances l1 l2" "reveal_advances l2 l3"
    using reveal_advances_catalog [of l out input] reveal_advances_recovery [of l1 out1 input]
      reveal_advances_validation [of l2 out2 input] 1 2 3 by simp_all
  then show ?thesis
    by (auto simp: handle_rest_def 1 2 3 intro: reveal_advances_trans [OF _ reveal_advances_launch]
        reveal_advances_trans)
qed

section \<open>Startup always reveals the launcher\<close>

definition reveal_inv :: "lifecycle \<times> effects \<Rightarrow> bool" where
  "reveal_inv s \<longleftrightarrow> (let l = fst s in
     (lc_mode l = ColdNoCatalog \<longrightarrow> lc_reveal l \<in> {CatalogProgressVisible, RevealLauncher, InputEnabled}) \<and>
     (lc_mode l = WarmCatalog \<longrightarrow> lc_reveal l \<in> {RevealLauncher, InputEnabled}) \<and>
     (lc_mode l = ReturnFromGame \<longrightarrow> lc_reveal l \<noteq> CatalogProgressVisible) \<and>
     (lc_reveal l = InputEnabled \<longleftrightarrow> lc_input_enabled_at l \<noteq> None) \<and>
     (lc_input_enabled_at l \<noteq> None \<longrightarrow> lc_revealed_at l \<noteq> None))"

text \<open>
  The launcher loop restores a return context only while it returns from a game and input is not
  yet enabled (\<open>emit_return_context_restored\<close>).
\<close>

fun lc_ok :: "lifecycle \<times> effects \<Rightarrow> lifecycle_op \<Rightarrow> bool" where
  "lc_ok (l, out) (LcInput (InReturnContextRestored c)) =
     (lc_mode l = ReturnFromGame \<and> \<not> startup_input_enabled l)"
| "lc_ok _ _ = True"

lemma reveal_inv_advances: "reveal_inv (l, out) \<Longrightarrow> reveal_advances l l' \<Longrightarrow> reveal_inv (l', out')"
  by (auto simp: reveal_inv_def reveal_advances_def reveal_fields_def Let_def)

lemma reveal_inv_begin: "reveal_inv (begin_startup_reveal l out mode now)"
  by (cases mode) (simp_all add: begin_startup_reveal_def reveal_inv_def Let_def)

lemma reveal_advances_tick: "reveal_advances l (fst (tick_startup_reveal l out now ready))"
  by (auto simp: tick_startup_reveal_def Let_def split: startup_reveal_state.splits option.splits)

lemma reveal_inv_frame:
  "reveal_inv (l, out) \<Longrightarrow> reveal_inv (note_startup_frame_presented l out frame now)"
  by (auto simp: note_startup_frame_presented_def reveal_inv_def Let_def)

lemma reveal_inv_mark: "reveal_inv (l, out) \<Longrightarrow> reveal_inv (mark_reveal_ready l out' d)"
  using reveal_inv_advances [OF _ reveal_advances_mark, of l out out' d "snd (mark_reveal_ready l out' d)"]
  by simp

lemma reveal_inv_restore:
  assumes "reveal_inv (l, out)" and "lc_mode l = ReturnFromGame" and "\<not> startup_input_enabled l"
  shows "reveal_inv (l\<lparr>lc_reveal := RestoreContext\<rparr>, out')"
    and "reveal_inv (l\<lparr>lc_reveal := RestoreContext, lc_reveal := WaitRelevantPreview, lc_preview_wait_started_at := w\<rparr>, out')"
  using assms by (simp_all add: reveal_inv_def startup_input_enabled_def Let_def)

lemma reveal_inv_startup:
  assumes "reveal_inv (l, out)" and "handle_startup l out input = Some res" and "lc_ok (l, out) (LcInput input)"
  shows "reveal_inv res"
proof (cases input)
  case InReturnCatalogHydrationNeeded
  have "reveal_inv (l\<lparr>lc_reveal := HydrateReturnCatalog\<rparr>, out')"
    if "lc_mode l = ReturnFromGame" "lc_reveal l = HoldBlackReturn" for out'
    using assms(1) that by (simp add: reveal_inv_def Let_def)
  then show ?thesis
    using assms(1,2) InReturnCatalogHydrationNeeded by (auto split: if_splits)
next
  case (InReturnContextRestored c)
  define out1 where "out1 = startup_event (startup_event out ''startup_restore_context'' ''mode=return_from_game'')
    ''return_context_restored'' (restored_detail c)"
  have ctx: "lc_mode l = ReturnFromGame" "\<not> startup_input_enabled l"
    using assms(3) InReturnContextRestored by simp_all
  show ?thesis
  proof (cases "rc_preview_expected c")
    case True
    then have "res = (l\<lparr>lc_reveal := RestoreContext, lc_reveal := WaitRelevantPreview,
        lc_preview_wait_started_at := Some (rc_restored_at c)\<rparr>, out1)"
      using assms(2) InReturnContextRestored by (simp only: handle_startup.simps Let_def if_True out1_def option.inject)
    then show ?thesis
      using reveal_inv_restore(2) [OF assms(1) ctx] by (simp only:)
  next
    case False
    then have "res = mark_reveal_ready (l\<lparr>lc_reveal := RestoreContext\<rparr>) out1 ''preview_state=not_required''"
      using assms(2) InReturnContextRestored by (simp only: handle_startup.simps Let_def if_False out1_def option.inject)
    then show ?thesis
      using reveal_inv_mark [OF reveal_inv_restore(1) [OF assms(1) ctx]] by (simp only:)
  qed
next
  case (InStartupRevealReady x)
  then show ?thesis
    using assms(2) reveal_inv_mark [OF assms(1)] by auto
next
  case (InReturnPreviewReady x)
  then show ?thesis
    using assms(2) reveal_inv_mark [OF assms(1)] by auto
qed (use assms(2) in simp_all)

lemma reveal_advances_classify: "reveal_advances l (fst (snd (classify_startup_catalog l out input)))"
proof -
  have 0: "reveal_advances l (l\<lparr>lc_classified := True\<rparr>)"
    by (simp add: reveal_advances_def reveal_fields_def)
  show ?thesis
    by (auto simp: classify_startup_catalog_def split_def Let_def split: startup_catalog_state.splits
        intro: reveal_advances_trans [OF 0])
qed

lemma reveal_inv_step:
  assumes "reveal_inv s" and "lc_ok s op"
  shows "reveal_inv (lc_apply s op)"
proof -
  obtain l out where s: "s = (l, out)" by fastforce
  have adv: "reveal_inv x" if "reveal_advances l (fst x)" for x
    using reveal_inv_advances [of l out "fst x" "snd x"] assms(1) that s by simp
  show ?thesis
  proof (cases op)
    case (LcInput input)
    show ?thesis
    proof (cases "handle_startup l out input")
      case None
      then show ?thesis
        using LcInput s assms(1) adv [OF reveal_advances_rest] by (simp add: snd_handle)
    next
      case (Some res)
      then show ?thesis
        using reveal_inv_startup [OF _ Some] assms LcInput s by (simp add: snd_handle)
    qed
  next
    case (LcLoadingFrame ms)
    then show ?thesis
      using s by (auto intro!: adv simp: loading_frame_presented_def split: lifecycle_state.splits launching_phase.splits)
  next
    case (LcRoot root)
    then show ?thesis
      using s by (auto intro!: adv simp: set_catalog_root_def reveal_advances_def reveal_fields_def)
  qed (use s assms(1) in \<open>auto intro: adv reveal_advances_tick reveal_advances_classify reveal_inv_begin reveal_inv_frame\<close>)
qed

interpretation startup: machine lc_apply lc_ok reveal_inv
  by unfold_locales (rule reveal_inv_step)

definition startup_deadline :: "startup_mode \<Rightarrow> duration" where
  "startup_deadline mode =
     (case mode of ColdNoCatalog \<Rightarrow> COLD_STARTUP_MAX_DURATION | WarmCatalog \<Rightarrow> 0
      | ReturnFromGame \<Rightarrow> RETURN_BLACK_SCREEN_TIMEOUT)"


text \<open>
  C11: Startup cannot hang on a black or progress screen. After \<open>begin_startup_reveal\<close> in any mode, any
  sequence of lifecycle operations (a return context being restored only as the launcher loop does)
  leads to a state where, once the mode's deadline has passed since startup began (20 s for a cold
  start, 5 s for a return from a game, at once for a warm start), one tick followed by one presented
  frame reveals the launcher and enables input, whatever the catalog does.
\<close>

theorem startup_reveals_by_deadline:
  assumes "run_allowed lc_apply lc_ok (begin_startup_reveal l0 out0 mode t0) ops"
    and "lc_run (begin_startup_reveal l0 out0 mode t0) ops = (l, out)"
    and "startup_deadline (lc_mode l) \<le> since now (lc_started_at l)"
    and "tick_startup_reveal l out now ready = (l1, out1)"
    and "note_startup_frame_presented l1 out1 frame t = (l2, out2)"
  shows "startup_can_present_frame l1 \<and> startup_can_present_frame l2 \<and> startup_input_enabled l2 \<and>
    ss_revealed (startup_status l2)"
proof -
  have inv: "reveal_inv (l, out)"
    using startup.run_inv [OF reveal_inv_begin assms(1)] assms(2) by simp
  then have "lc_reveal l1 \<in> {RevealLauncher, InputEnabled} \<and> reveal_inv (l1, out1)"
    using reveal_inv_advances [OF inv reveal_advances_tick [of l out now ready], of out1] assms(3,4)
    by (cases "lc_mode l"; cases "lc_reveal l")
      (auto simp: tick_startup_reveal_def reveal_inv_def startup_can_present_frame_def startup_deadline_def
        startup_hard_deadline_reached_def mark_reveal_ready_def Let_def split: if_splits)
  then show ?thesis
    using assms(5)
    by (auto simp: note_startup_frame_presented_def startup_can_present_frame_def startup_input_enabled_def
        startup_status_def reveal_inv_def Let_def split: if_splits)
qed

section \<open>The lifecycle chart\<close>

text \<open>
  The abstract state chart: which lifecycle states may follow which, once the catalog has been
  classified. \<open>StHandoff\<close> has no successor.
\<close>

definition catalog_phase :: "lifecycle_state \<Rightarrow> bool" where
  "catalog_phase s \<longleftrightarrow> is_building s \<or> is_retrying s \<or> is_ready_or_idle s"

inductive lc_edge :: "lifecycle_state \<Rightarrow> lifecycle_state \<Rightarrow> bool" where
  ready: "catalog_phase s \<Longrightarrow> lc_edge s (StCatalogReady source True)"
| settled: "catalog_phase s \<Longrightarrow> lc_edge s StIdle"
| building: "is_building s \<or> is_ready_or_idle s \<Longrightarrow> lc_edge s (StCatalogBuilding mode fg stale)"
| failed: "catalog_phase s \<Longrightarrow> lc_edge s (StCatalogLoadFailed err stale mode ChoiceLeft)"
| choose: "lc_edge (StCatalogLoadFailed err stale mode c) (StCatalogLoadFailed err stale mode c')"
| keep: "lc_edge (StCatalogLoadFailed err stale mode c) StIdle"
| retry: "mode \<in> {LoadFailure True, PersistenceFailure True} \<Longrightarrow>
    lc_edge (StCatalogLoadFailed err False mode ChoiceLeft) (StCatalogRetrying False)"
| rebuild: "lc_edge (StCatalogLoadFailed err stale mode ChoiceRight) (StCatalogBuilding bm True stale)"
| launch: "is_ready_or_idle s \<Longrightarrow> lc_edge s (StLaunching (LoadingFramePending launch_ref))"
| loading: "lc_edge (StLaunching (LoadingFramePending launch_ref)) (StLaunching HandoffPending)"
| launch_failed: "lc_edge (StLaunching phase) (StRecovered reason)"
| handoff: "lc_edge (StLaunching phase) (StHandoff spawned)"
| acknowledged: "lc_edge (StRecovered reason) StIdle"

inductive_cases edge_from_handoff: "lc_edge (StHandoff spawned) s"
inductive_cases edge_to_handoff: "lc_edge s (StHandoff spawned)"
inductive_cases edge_to_launching: "lc_edge s (StLaunching phase)"
inductive_simps edge_to_retrying: "lc_edge s (StCatalogRetrying stale)"

definition edge_or_same :: "lifecycle_state \<Rightarrow> lifecycle_state \<Rightarrow> bool" where
  "edge_or_same s s' \<longleftrightarrow> s' = s \<or> lc_edge s s'"

lemma edge_or_same_refl [simp]: "edge_or_same s s"
  by (simp add: edge_or_same_def)

lemma edge_or_sameI: "lc_edge s s' \<Longrightarrow> edge_or_same s s'"
  by (simp add: edge_or_same_def)

lemma load_failed_state [simp]:
  "lc_state (fst (load_failed l out err st mode reason)) = StCatalogLoadFailed err st mode ChoiceLeft"
  by (simp add: load_failed_def split_def Let_def)

lemma catalog_ready_state [simp]:
  "lc_state (fst (catalog_ready_to l out source v reason)) = (if v then StCatalogReady source True else StIdle)"
  by (simp add: catalog_ready_to_def split_def Let_def)

lemma go_and_push_state [simp]: "lc_state (fst (go_and_push l out next reason eff)) = next"
  by (simp add: go_and_push_def split_def Let_def)

lemma phases [simp]:
  "is_building s \<Longrightarrow> catalog_phase s" "is_retrying s \<Longrightarrow> catalog_phase s"
  "is_ready_or_idle s \<Longrightarrow> catalog_phase s"
  by (simp_all add: catalog_phase_def)

lemma edge_catalog: "edge_or_same (lc_state l) (lc_state (fst (handle_catalog l out input)))"
  by (cases input) (auto intro!: edge_or_sameI intro: lc_edge.intros)

lemma edge_choose:
  "lc_state l = StCatalogLoadFailed err st mode c \<Longrightarrow>
   edge_or_same (lc_state l) (lc_state (fst (select_choice l out c' reason)))"
  by (auto simp: select_choice_def intro: edge_or_sameI lc_edge.choose)

lemma recovery_action_edge:
  assumes "lc_state l = StCatalogLoadFailed err st mode c"
  shows "edge_or_same (lc_state l) (lc_state (fst (confirm_recovery l out)))"
proof (cases "recovery_action mode st c")
  case Retry
  then have "st = False" "c = ChoiceLeft" "mode \<in> {LoadFailure True, PersistenceFailure True}"
    by (auto elim!: recovery_action.elims)
  then show ?thesis
    using Retry assms by (auto simp: confirm_recovery_def intro!: edge_or_sameI lc_edge.retry)
next
  case AtomicRebuild
  then have "c = ChoiceRight"
    by (auto elim!: recovery_action.elims)
  then show ?thesis
    using AtomicRebuild assms by (auto simp: confirm_recovery_def intro!: edge_or_sameI lc_edge.rebuild)
next
  case FreshRebuild
  then have "c = ChoiceRight"
    by (auto elim!: recovery_action.elims)
  then show ?thesis
    using FreshRebuild assms by (auto simp: confirm_recovery_def intro!: edge_or_sameI lc_edge.rebuild)
qed (use assms in \<open>auto simp: confirm_recovery_def intro!: edge_or_sameI lc_edge.keep\<close>)

lemma recovery_idle:
  assumes "\<nexists>err st mode c. lc_state l = StCatalogLoadFailed err st mode c"
  shows "handle_recovery l out input = (l, out)"
  using assms by (cases input) (auto simp: select_choice_def confirm_recovery_def cancel_recovery_def
      split: lifecycle_state.splits)

lemma edge_recovery: "edge_or_same (lc_state l) (lc_state (fst (handle_recovery l out input)))"
proof (cases "\<exists>err st mode c. lc_state l = StCatalogLoadFailed err st mode c")
  case True
  then obtain err st mode c where l: "lc_state l = StCatalogLoadFailed err st mode c"
    by blast
  have "edge_or_same (lc_state l) (lc_state (fst (cancel_recovery l out)))"
    using l by (auto simp: cancel_recovery_def intro!: edge_or_sameI lc_edge.keep)
  with recovery_action_edge [OF l] edge_choose [OF l] show ?thesis
    by (cases input) simp_all
next
  case False
  then show ?thesis
    by (simp add: recovery_idle)
qed

lemma edge_validation: "edge_or_same (lc_state l) (lc_state (fst (handle_validation l out input)))"
  by (cases input) (auto simp: split_def Let_def catalog_phase_def intro!: edge_or_sameI lc_edge.ready lc_edge.settled
      split: lifecycle_state.splits)

lemma edge_launch: "edge_or_same (lc_state l) (lc_state (fst (handle_launch l out input)))"
proof -
  have "is_launching s \<longleftrightarrow> (\<exists>p. s = StLaunching p)" for s
    by (cases s) simp_all
  then show ?thesis
    by (cases input) (auto intro!: edge_or_sameI intro: lc_edge.intros split: lifecycle_state.splits)
qed

text \<open>Each input belongs to one group; the others leave everything alone.\<close>

fun input_group :: "lifecycle_input \<Rightarrow> nat" where
  "input_group (InCatalogReady _ _) = 1"
| "input_group (InCatalogBuilding _ _ _) = 1"
| "input_group (InCatalogLoadFailed _ _ _) = 1"
| "input_group (InCatalogRecoveryRequired _ _ _) = 1"
| "input_group InCatalogRecoveryLeft = 2"
| "input_group InCatalogRecoveryRight = 2"
| "input_group InCatalogRecoveryConfirm = 2"
| "input_group InCatalogRecoveryCancel = 2"
| "input_group InCatalogValidationStarted = 3"
| "input_group InCatalogValidationFinished = 3"
| "input_group (InLaunchRequested _) = 4"
| "input_group (InLaunchFailed _ _ _) = 4"
| "input_group InLaunchFailureAcknowledge = 4"
| "input_group (InLaunchSucceeded _) = 4"
| "input_group InLaunchTimedOut = 4"
| "input_group _ = 0"

lemma group_frames [simp]:
  "input_group input \<noteq> 1 \<Longrightarrow> handle_catalog l out input = (l, out)"
  "input_group input \<noteq> 2 \<Longrightarrow> handle_recovery l out input = (l, out)"
  "input_group input \<noteq> 3 \<Longrightarrow> handle_validation l out input = (l, out)"
  "input_group input \<noteq> 4 \<Longrightarrow> handle_launch l out input = (l, out)"
  by (cases input; simp)+

lemma handle_rest_cases:
  obtains "handle_rest l out input = handle_catalog l out input"
  | "handle_rest l out input = handle_recovery l out input"
  | "handle_rest l out input = handle_validation l out input"
  | "handle_rest l out input = handle_launch l out input"
proof -
  consider "input_group input = 1" | "input_group input = 2" | "input_group input = 3" | "input_group input \<notin> {1, 2, 3}"
    by auto
  then show thesis
    by cases (use that in \<open>auto simp: handle_rest_def split_def\<close>)
qed

lemma startup_keeps_state: "handle_startup l out input = Some res \<Longrightarrow> lc_state (fst res) = lc_state l"
  by (cases input) (auto simp: Let_def split: if_splits)

text \<open>
  C12: Refinement of the state chart. Every input handled in any lifecycle state, and every loading
  frame presented, keeps the state or moves along an edge of \<open>lc_edge\<close>; before the startup catalog is
  classified no input moves it.
\<close>

theorem handle_refines_chart:
  "edge_or_same (lc_state l) (lc_state (fst (snd (handle l out input)))) \<and>
   (\<not> lc_classified l \<longrightarrow> lc_state (fst (snd (handle l out input))) = lc_state l) \<and>
   edge_or_same (lc_state l) (lc_state (fst (loading_frame_presented l out ms)))"
proof -
  have rest: "edge_or_same (lc_state l) (lc_state (fst (handle_rest l out input)))"
    by (rule handle_rest_cases [of l out input])
      (simp_all add: edge_catalog edge_recovery edge_validation edge_launch)
  have "edge_or_same (lc_state l) (lc_state (fst (loading_frame_presented l out ms)))"
    by (auto simp: loading_frame_presented_def intro!: edge_or_sameI lc_edge.loading
        split: lifecycle_state.splits launching_phase.splits)
  with rest show ?thesis
    by (auto simp: snd_handle startup_keeps_state split: option.splits)
qed


section \<open>Launching\<close>

fun launch_effect :: "launcher_effect \<Rightarrow> bool" where
  "launch_effect (BeginLoadingFrame _) = True"
| "launch_effect (BeginLaunchHandoff _) = True"
| "launch_effect _ = False"

definition extends_by :: "(launcher_effect \<Rightarrow> bool) \<Rightarrow> effects \<Rightarrow> effects \<Rightarrow> bool" where
  "extends_by P out out' \<longleftrightarrow> (\<exists>es. out' = out @ es \<and> list_all P es)"

abbreviation quiet_extends :: "effects \<Rightarrow> effects \<Rightarrow> bool" where
  "quiet_extends \<equiv> extends_by (\<lambda>e. \<not> launch_effect e)"

abbreviation events_ok :: "(launcher_effect \<Rightarrow> bool) \<Rightarrow> bool" where
  "events_ok P \<equiv> \<forall>name detail. P (StartupEvent name detail)"

lemma ext_refl [simp]: "extends_by P out out"
  by (auto simp: extends_by_def)

lemma ext_snoc: "extends_by P out out' \<Longrightarrow> P e \<Longrightarrow> extends_by P out (out' @ [e])"
  by (auto simp: extends_by_def)

lemma ext_event: "extends_by P out out' \<Longrightarrow> events_ok P \<Longrightarrow> extends_by P out (startup_event out' name detail)"
  by (simp add: startup_event_def ext_snoc)

lemma ext_transition:
  "extends_by P out out' \<Longrightarrow> events_ok P \<Longrightarrow> extends_by P out (snd (lc_transition l out' next reason))"
  by (simp add: lc_transition_def ext_event)

lemma ext_mark:
  "extends_by P out out' \<Longrightarrow> events_ok P \<Longrightarrow> extends_by P out (snd (mark_reveal_ready l out' d))"
  by (simp add: mark_reveal_ready_def ext_event)

lemma ext_go: "P e \<Longrightarrow> events_ok P \<Longrightarrow> extends_by P out (snd (go_and_push l out next reason e))"
  by (simp add: go_and_push_def split_def Let_def ext_snoc ext_transition)

lemma ext_ready: "events_ok P \<Longrightarrow> extends_by P out (snd (catalog_ready_to l out source v reason))"
  by (simp add: catalog_ready_to_def split_def Let_def ext_transition)

lemma ext_failed: "events_ok P \<Longrightarrow> extends_by P out (snd (load_failed l out err st mode reason))"
  by (simp add: load_failed_def split_def Let_def ext_transition ext_mark)

lemmas ext_helpers = ext_event ext_transition ext_mark ext_go ext_ready ext_failed ext_snoc

lemma ext_catalog: "events_ok P \<Longrightarrow> extends_by P out (snd (handle_catalog l out input))"
  by (cases input) (simp_all add: ext_helpers)

lemma ext_confirm:
  assumes "events_ok P" and "P ReturnToIdle" "P EffectExitToMister"
    and "\<And>root. P (StartCatalogRetry root)" "\<And>root. P (StartCatalogRebuild root)"
    and "(\<forall>root. P (StartFreshCatalogBuild root)) \<or> (\<forall>err st mode c.
      lc_state l = StCatalogLoadFailed err st mode c \<longrightarrow> recovery_action mode st c \<noteq> FreshRebuild)"
  shows "extends_by P out (snd (confirm_recovery l out))"
  using assms by (auto simp: confirm_recovery_def ext_helpers split: lifecycle_state.splits catalog_recovery_action.splits)

lemma ext_recovery:
  assumes "events_ok P" and "P ReturnToIdle" "P EffectExitToMister"
    and "input = InCatalogRecoveryConfirm \<Longrightarrow> extends_by P out (snd (confirm_recovery l out))"
  shows "extends_by P out (snd (handle_recovery l out input))"
  using assms by (cases input)
    (auto simp: select_choice_def cancel_recovery_def ext_helpers split: lifecycle_state.splits)

lemma quiet_recovery: "quiet_extends out (snd (handle_recovery l out input))"
  by (intro ext_recovery ext_confirm) simp_all

lemma ext_validation: "events_ok P \<Longrightarrow> extends_by P out (snd (handle_validation l out input))"
  by (cases input) (auto simp: split_def Let_def ext_helpers split: lifecycle_state.splits)

lemma ext_launch:
  assumes "events_ok P" "P PresentRecoveryFrame" "P ReturnToIdle"
    and "\<And>r. input = InLaunchRequested r \<Longrightarrow> P (BeginLoadingFrame r)"
  shows "extends_by P out (snd (handle_launch l out input))"
  using assms by (cases input) (auto simp: ext_helpers split: lifecycle_state.splits)

lemma ext_startup:
  "handle_startup l out input = Some res \<Longrightarrow> events_ok P \<Longrightarrow> extends_by P out (snd res)"
  by (cases input) (auto simp: Let_def ext_helpers split: if_splits)

lemma ext_tick: "events_ok P \<Longrightarrow> extends_by P out (snd (tick_startup_reveal l out now ready))"
  by (auto simp: tick_startup_reveal_def Let_def ext_helpers split: startup_reveal_state.splits option.splits)

lemma ext_begin: "events_ok P \<Longrightarrow> extends_by P out (snd (begin_startup_reveal l out mode now))"
  by (auto simp: begin_startup_reveal_def Let_def ext_helpers split: startup_reveal_state.splits)

lemma ext_frame: "events_ok P \<Longrightarrow> extends_by P out (snd (note_startup_frame_presented l out frame now))"
  by (auto simp: note_startup_frame_presented_def Let_def ext_helpers)

lemma ext_classify: "events_ok P \<Longrightarrow> extends_by P out (snd (snd (classify_startup_catalog l out input)))"
  by (auto simp: classify_startup_catalog_def split_def Let_def ext_helpers split: startup_catalog_state.splits)

text \<open>The three ways an operation extends the output, as far as launches go.\<close>

lemma pending_catalog:
  "lc_state (fst (handle_catalog l out input)) = StLaunching p \<Longrightarrow> lc_state l = StLaunching p"
  by (cases input) (auto split: if_splits)

lemma pending_recovery:
  "lc_state (fst (handle_recovery l out input)) = StLaunching p \<Longrightarrow> lc_state l = StLaunching p"
  by (cases input) (auto simp: select_choice_def confirm_recovery_def cancel_recovery_def
      split: lifecycle_state.splits catalog_recovery_action.splits if_splits)

lemma pending_validation:
  "lc_state (fst (handle_validation l out input)) = StLaunching p \<Longrightarrow> lc_state l = StLaunching p"
  by (cases input) (auto simp: split_def Let_def split: lifecycle_state.splits)

lemma pending_launch:
  "\<nexists>r. input = InLaunchRequested r \<Longrightarrow>
   lc_state (fst (handle_launch l out input)) = StLaunching p \<Longrightarrow> lc_state l = StLaunching p"
  by (cases input) (auto split: lifecycle_state.splits if_splits)

lemma ext_input:
  assumes P: "events_ok P" "P PresentRecoveryFrame" "P ReturnToIdle" "P EffectExitToMister"
    and launch: "\<And>r. input = InLaunchRequested r \<Longrightarrow> P (BeginLoadingFrame r)"
    and confirm: "input = InCatalogRecoveryConfirm \<Longrightarrow> extends_by P out (snd (confirm_recovery l out))"
  shows "extends_by P out (snd (snd (handle l out input)))"
proof -
  have "extends_by P out (snd (handle_rest l out input))"
  proof (cases rule: handle_rest_cases [of l out input])
    case 1
    show ?thesis unfolding 1 by (rule ext_catalog [OF P(1)])
  next
    case 2
    show ?thesis unfolding 2 by (rule ext_recovery [OF P(1,3,4) confirm])
  next
    case 3
    show ?thesis unfolding 3 by (rule ext_validation [OF P(1)])
  next
    case 4
    show ?thesis unfolding 4 by (rule ext_launch [OF P(1,2,3) launch])
  qed
  then show ?thesis
    using ext_startup [OF _ P(1), of l out input]
    by (cases "handle_startup l out input") (simp_all add: snd_handle)
qed

lemma pending_input:
  assumes "\<nexists>r. input = InLaunchRequested r"
    and "lc_state (fst (snd (handle l out input))) = StLaunching p"
  shows "lc_state l = StLaunching p"
proof -
  have state: "lc_state l = StLaunching p" if "lc_state (fst (handle_rest l out input)) = StLaunching p"
  proof (cases rule: handle_rest_cases [of l out input])
    case 1
    show ?thesis using that unfolding 1 by (rule pending_catalog)
  next
    case 2
    show ?thesis using that unfolding 2 by (rule pending_recovery)
  next
    case 3
    show ?thesis using that unfolding 3 by (rule pending_validation)
  next
    case 4
    show ?thesis using that unfolding 4 by (rule pending_launch [OF assms(1)])
  qed
  then show ?thesis
    using assms(2) startup_keeps_state [of l out input]
    by (cases "handle_startup l out input"; cases "lc_classified l") (simp_all add: snd_handle)
qed

lemma classify_not_launching: "lc_state (fst (snd (classify_startup_catalog l out input))) \<noteq> StLaunching p"
  by (auto simp: classify_startup_catalog_def split_def Let_def split: startup_catalog_state.splits)

lemma reveal_ops_keep_state [simp]:
  "lc_state (fst (tick_startup_reveal l out now ready)) = lc_state l"
  "lc_state (fst (begin_startup_reveal l out mode now)) = lc_state l"
  "lc_state (fst (note_startup_frame_presented l out frame now)) = lc_state l"
  by (auto simp: tick_startup_reveal_def begin_startup_reveal_def note_startup_frame_presented_def Let_def
      split: startup_reveal_state.splits option.splits)

lemma request_cases:
  assumes "handle l out (InLaunchRequested r) = (st, l', out')"
  shows "(l', out') = (l, out) \<or>
    lc_state l' = StLaunching (LoadingFramePending r) \<and> quiet_extends (out @ [BeginLoadingFrame r]) out'"
proof -
  have "snd (handle l out (InLaunchRequested r)) \<in> {(l, out), lc_transition l (out @ [BeginLoadingFrame r])
      (StLaunching (LoadingFramePending r)) ''launch_requested''}"
    by (simp add: snd_handle handle_rest_def)
  then have "(l', out') \<in> {(l, out), lc_transition l (out @ [BeginLoadingFrame r])
      (StLaunching (LoadingFramePending r)) ''launch_requested''}"
    using assms by simp
  then consider "(l', out') = (l, out)" | "l' = fst (lc_transition l (out @ [BeginLoadingFrame r])
        (StLaunching (LoadingFramePending r)) ''launch_requested'')"
      "out' = snd (lc_transition l (out @ [BeginLoadingFrame r])
        (StLaunching (LoadingFramePending r)) ''launch_requested'')"
    by (elim insertE) (auto simp only: prod_eq_iff fst_conv snd_conv empty_iff)
  then show ?thesis
  proof cases
    case 2
    show ?thesis
      unfolding 2 by (intro disjI2 conjI lc_transition_state ext_transition ext_refl) simp
  qed blast
qed

lemma lc_apply_launch:
  assumes "lc_apply (l, out) op = (l', out')"
  obtains (quiet) "quiet_extends out out'"
      "\<And>r. lc_state l' = StLaunching (LoadingFramePending r) \<Longrightarrow> lc_state l = StLaunching (LoadingFramePending r)"
  | (request) r where "op = LcInput (InLaunchRequested r)" "quiet_extends (out @ [BeginLoadingFrame r]) out'"
      "lc_state l' = StLaunching (LoadingFramePending r)"
  | (handoff) ms r where "op = LcLoadingFrame ms" "quiet_extends (out @ [BeginLaunchHandoff r]) out'"
      "lc_state l = StLaunching (LoadingFramePending r)" "lc_state l' = StLaunching HandoffPending"
proof (cases op)
  case (LcInput input)
  show ?thesis
  proof (cases "\<exists>r. input = InLaunchRequested r")
    case True
    then obtain r where r: "input = InLaunchRequested r" ..
    obtain st where "handle l out (InLaunchRequested r) = (st, l', out')"
      using assms LcInput r by (cases "handle l out input") auto
    from request_cases [OF this] show ?thesis
      using quiet request [of r] LcInput r by auto
  next
    case False
    have "quiet_extends out (snd (snd (handle l out input)))"
      using False by (intro ext_input ext_confirm) auto
    then show ?thesis
      using assms LcInput pending_input [OF False, of l out] by (intro quiet) (simp_all add: prod_eq_iff)
  qed
next
  case (LcLoadingFrame ms)
  show ?thesis
  proof (cases "\<exists>r. lc_state l = StLaunching (LoadingFramePending r)")
    case True
    then obtain r where r: "lc_state l = StLaunching (LoadingFramePending r)" ..
    then have "(l', out') = lc_transition l (out @ [BeginLaunchHandoff r]) (StLaunching HandoffPending)
        (''loading_frame_presented at_ms='' @ show_nat ms)"
      using assms LcLoadingFrame by (simp add: loading_frame_presented_def)
    then show ?thesis
      using LcLoadingFrame r lc_transition_state ext_transition [OF ext_refl]
      by (intro handoff) (auto simp: prod_eq_iff)
  next
    case False
    then show ?thesis
      using assms LcLoadingFrame
      by (intro quiet) (auto simp: loading_frame_presented_def split: lifecycle_state.splits launching_phase.splits)
  qed
next
  case (LcClassify input)
  then have no: "\<forall>p. lc_state l' \<noteq> StLaunching p"
    using assms classify_not_launching [of l out input] by simp
  from LcClassify show ?thesis
    using assms ext_classify [of "\<lambda>e. \<not> launch_effect e" out l input]
    by (intro quiet) (simp, metis no)
next
  case (LcBegin mode now)
  then show ?thesis
    using assms ext_begin [of "\<lambda>e. \<not> launch_effect e" out l mode now] reveal_ops_keep_state(2) [of l out mode now]
    by (intro quiet) simp_all
next
  case (LcTick now ready)
  then show ?thesis
    using assms ext_tick [of "\<lambda>e. \<not> launch_effect e" out l now ready] reveal_ops_keep_state(1) [of l out now ready]
    by (intro quiet) simp_all
next
  case (LcFrame frame now)
  then show ?thesis
    using assms ext_frame [of "\<lambda>e. \<not> launch_effect e" out l frame now] reveal_ops_keep_state(3) [of l out frame now]
    by (intro quiet) simp_all
next
  case (LcRoot root)
  then show ?thesis
    using assms by (intro quiet) (auto simp: set_catalog_root_def)
qed

text \<open>\<open>pending_of out\<close>: the launch reference whose hand-off may begin next, if the trace is well formed.\<close>

fun launch_scan :: "string option \<Rightarrow> effects \<Rightarrow> string option option" where
  "launch_scan p [] = Some p"
| "launch_scan p (BeginLoadingFrame r # es) = launch_scan (Some r) es"
| "launch_scan p (BeginLaunchHandoff r # es) = (if p = Some r then launch_scan None es else None)"
| "launch_scan p (_ # es) = launch_scan p es"

lemma launch_scan_append:
  "launch_scan p (es @ fs) = (case launch_scan p es of None \<Rightarrow> None | Some q \<Rightarrow> launch_scan q fs)"
  by (induction p es rule: launch_scan.induct) auto

lemma launch_scan_quiet: "list_all (\<lambda>e. \<not> launch_effect e) es \<Longrightarrow> launch_scan p es = Some p"
  by (induction p es rule: launch_scan.induct) auto

lemma launch_scan_extends: "quiet_extends out out' \<Longrightarrow> launch_scan p out' = launch_scan p out"
  by (auto simp: extends_by_def launch_scan_append launch_scan_quiet split: option.splits)

definition launch_inv :: "lifecycle \<times> effects \<Rightarrow> bool" where
  "launch_inv s \<longleftrightarrow> (\<exists>p. launch_scan None (snd s) = Some p \<and>
     (\<forall>r. lc_state (fst s) = StLaunching (LoadingFramePending r) \<longrightarrow> p = Some r))"

interpretation launching: total_machine lc_apply launch_inv
proof
  fix s op
  assume inv: "launch_inv s"
  obtain l out where s: "s = (l, out)" by fastforce
  obtain l' out' where eq: "lc_apply (l, out) op = (l', out')" by fastforce
  then have "launch_inv (l', out')"
    using inv unfolding s
    by (cases rule: lc_apply_launch)
      (auto simp: launch_inv_def launch_scan_append dest!: launch_scan_extends [of _ _ None])
  then show "launch_inv (lc_apply s op)"
    by (simp only: s eq)
qed

lemma launch_scan_pending:
  "launch_scan None es = Some (Some r) \<Longrightarrow>
   \<exists>ys zs. es = ys @ BeginLoadingFrame r # zs \<and> list_all (\<lambda>e. \<not> launch_effect e) zs"
proof (induction es rule: rev_induct)
  case Nil
  then show ?case by simp
next
  case (snoc e es)
  then show ?case
  proof (cases "launch_effect e")
    case True
    with snoc.prems have "e = BeginLoadingFrame r"
      by (cases e) (auto simp: launch_scan_append split: option.splits if_splits)
    then show ?thesis
      by (intro exI [of _ es] exI [of _ "[]"]) simp
  next
    case False
    then have "launch_scan None es = Some (Some r)"
      using snoc.prems launch_scan_extends [of es "es @ [e]" None] by (simp add: ext_snoc)
    from snoc.IH [OF this] show ?thesis
      using False by force
  qed
qed

text \<open>
  C29: A launch is handed off only for the game whose loading frame was begun last, once, and after it:
  in the effects of any run of the lifecycle, in every \<open>BeginLaunchHandoff r\<close> the last launch effect
  before it is \<open>BeginLoadingFrame r\<close>.
\<close>

theorem handoff_follows_its_loading_frame:
  assumes "snd (lc_run (lifecycle_new worker root t0, []) ops) = xs @ BeginLaunchHandoff r # ws"
  shows "\<exists>ys zs. xs = ys @ BeginLoadingFrame r # zs \<and> list_all (\<lambda>e. \<not> launch_effect e) zs"
proof -
  have "launch_inv (lifecycle_new worker root t0, [])"
    by (simp add: launch_inv_def lifecycle_new_def)
  then have "launch_inv (lc_run (lifecycle_new worker root t0, []) ops)"
    by (rule launching.total_run_inv)
  then have "launch_scan None xs = Some (Some r)"
    using assms by (auto simp: launch_inv_def launch_scan_append split: option.splits if_splits)
  then show ?thesis
    by (rule launch_scan_pending)
qed


fun after_startup :: "lifecycle_op \<Rightarrow> bool" where
  "after_startup (LcClassify _) = False"
| "after_startup _ = True"

lemma handle_rest_edge: "edge_or_same (lc_state l) (lc_state (fst (handle_rest l out input)))"
  by (rule handle_rest_cases [of l out input])
    (simp_all add: edge_catalog edge_recovery edge_validation edge_launch)

lemma no_edge_from_handoff: "edge_or_same (StHandoff spawned) s \<Longrightarrow> s = StHandoff spawned"
  by (auto simp: edge_or_same_def catalog_phase_def elim: edge_from_handoff)

lemma handoff_step:
  assumes "lc_state l = StHandoff spawned" and "after_startup op"
  shows "lc_state (fst (lc_apply (l, out) op)) = StHandoff spawned"
proof -
  have "lc_state (fst (handle_rest l out input)) = StHandoff spawned" for input
    using no_edge_from_handoff [of spawned] handle_rest_edge [of l out input] assms(1) by simp
  then have "lc_state (fst (snd (handle l out input))) = StHandoff spawned" for input
    using assms(1) startup_keeps_state [of l out input] by (cases "handle_startup l out input") (simp_all add: snd_handle)
  with assms show ?thesis
    by (cases op) (simp_all add: loading_frame_presented_def set_catalog_root_def)
qed

lemma handoff_quiet:
  assumes "lc_state l = StHandoff spawned" and "after_startup op"
  shows "quiet_extends out (snd (lc_apply (l, out) op))"
proof -
  obtain l' out' where step: "lc_apply (l, out) op = (l', out')" by fastforce
  have "lc_state l' = StHandoff spawned"
    using handoff_step [OF assms, of out] step by simp
  with step have "quiet_extends out out'"
    using assms(1) by (cases rule: lc_apply_launch) simp_all
  with step show ?thesis by simp
qed

lemma ext_trans: "extends_by P out out' \<Longrightarrow> extends_by P out' out'' \<Longrightarrow> extends_by P out out''"
  by (auto simp: extends_by_def)

text \<open>
  A hand-off is final. Once the lifecycle is in \<open>StHandoff\<close>, no sequence of inputs, ticks,
  presented frames and restarts of the reveal leaves that state or begins another launch or
  hand-off; and the chart enters \<open>StHandoff\<close> only from a launch.
\<close>

theorem handoff_is_final:
  assumes "lc_state l = StHandoff spawned" and "list_all after_startup ops"
  shows "lc_state (fst (lc_run (l, out) ops)) = StHandoff spawned \<and>
    quiet_extends out (snd (lc_run (l, out) ops)) \<and> (lc_edge s (StHandoff spawned) \<longrightarrow> is_launching s)"
proof -
  have "lc_state (fst (lc_run (l, out) ops)) = StHandoff spawned \<and> quiet_extends out (snd (lc_run (l, out) ops))"
    using assms
  proof (induction ops arbitrary: l out)
    case Nil
    then show ?case by simp
  next
    case (Cons op ops)
    obtain l1 out1 where step: "lc_apply (l, out) op = (l1, out1)" by fastforce
    have "lc_state l1 = StHandoff spawned" and "quiet_extends out out1"
      using handoff_step [of l spawned op out] handoff_quiet [of l spawned op out] Cons.prems step by simp_all
    with Cons.IH [of l1 out1] Cons.prems(2) step show ?case
      by (auto intro: ext_trans)
  qed
  then show ?thesis
    by (auto elim: edge_to_handoff)
qed

section \<open>Deleting generated data\<close>

fun fresh_build :: "launcher_effect \<Rightarrow> bool" where
  "fresh_build (StartFreshCatalogBuild _) = True"
| "fresh_build _ = False"

definition on_right :: "lifecycle_state \<Rightarrow> bool" where
  "on_right s \<longleftrightarrow> (\<exists>err st mode. s = StCatalogLoadFailed err st mode ChoiceRight)"

lemma fresh_action_right: "recovery_action mode st c = FreshRebuild \<Longrightarrow> c = ChoiceRight"
  by (auto elim!: recovery_action.elims)

lemma no_fresh_build:
  assumes "op \<noteq> LcInput InCatalogRecoveryConfirm \<or> \<not> on_right (lc_state l)"
  shows "extends_by (\<lambda>e. \<not> fresh_build e) out (snd (lc_apply (l, out) op))"
proof (cases op)
  case (LcInput input)
  have "extends_by (\<lambda>e. \<not> fresh_build e) out (snd (snd (handle l out input)))"
    using assms LcInput
    by (intro ext_input ext_confirm) (auto simp: on_right_def dest: fresh_action_right)
  with LcInput show ?thesis by simp
qed (simp_all add: ext_begin ext_tick ext_frame ext_classify ext_transition ext_snoc loading_frame_presented_def
    split: lifecycle_state.splits launching_phase.splits)

lemma to_right:
  assumes "lc_state (fst (lc_apply (l, out) op)) = StCatalogLoadFailed err st mode ChoiceRight"
  shows "lc_state l = StCatalogLoadFailed err st mode ChoiceRight \<or>
    op = LcInput InCatalogRecoveryRight \<and> (\<exists>c. lc_state l = StCatalogLoadFailed err st mode c)"
proof (cases op)
  case (LcInput input)
  let ?R = "StCatalogLoadFailed err st mode ChoiceRight"
  have "lc_state (fst (handle_catalog l out input)) = ?R \<Longrightarrow> lc_state l = ?R"
    by (cases input) (auto split: if_splits)
  moreover have "lc_state (fst (handle_recovery l out input)) = ?R \<Longrightarrow>
      lc_state l = ?R \<or> input = InCatalogRecoveryRight \<and> (\<exists>c. lc_state l = StCatalogLoadFailed err st mode c)"
    by (cases input) (auto simp: select_choice_def confirm_recovery_def cancel_recovery_def
      split: lifecycle_state.splits catalog_recovery_action.splits if_splits)
  moreover have "lc_state (fst (handle_validation l out input)) = ?R \<Longrightarrow> lc_state l = ?R"
    by (cases input) (auto simp: split_def Let_def split: lifecycle_state.splits)
  moreover have "lc_state (fst (handle_launch l out input)) = ?R \<Longrightarrow> lc_state l = ?R"
    by (cases input) (auto split: lifecycle_state.splits if_splits)
  ultimately have "lc_state (fst (handle_rest l out input)) = ?R \<Longrightarrow>
      lc_state l = ?R \<or> input = InCatalogRecoveryRight \<and> (\<exists>c. lc_state l = StCatalogLoadFailed err st mode c)"
    by (cases rule: handle_rest_cases [of l out input]) auto
  with assms LcInput startup_keeps_state [of l out input] show ?thesis
    by (cases "handle_startup l out input"; cases "lc_classified l") (auto simp: snd_handle)
next
  case (LcClassify input)
  with assms show ?thesis
    by (auto simp: classify_startup_catalog_def split_def Let_def split: startup_catalog_state.splits if_splits)
next
  case (LcLoadingFrame ms)
  with assms show ?thesis
    by (auto simp: loading_frame_presented_def split: lifecycle_state.splits launching_phase.splits)
qed (use assms in \<open>auto simp: set_catalog_root_def\<close>)

lemma right_was_chosen:
  "lc_state (fst (lc_run s ops)) = StCatalogLoadFailed err st mode ChoiceRight \<Longrightarrow> \<not> on_right (lc_state (fst s)) \<Longrightarrow>
   \<exists>xs ys c. ops = xs @ LcInput InCatalogRecoveryRight # ys \<and>
     lc_state (fst (lc_run s xs)) = StCatalogLoadFailed err st mode c \<and>
     (\<forall>n. lc_state (fst (lc_run s (xs @ LcInput InCatalogRecoveryRight # take n ys))) =
        StCatalogLoadFailed err st mode ChoiceRight)"
proof (induction ops rule: rev_induct)
  case Nil
  then show ?case by (simp add: on_right_def)
next
  case (snoc op ops)
  let ?R = "StCatalogLoadFailed err st mode ChoiceRight"
  obtain l out where s: "lc_run s ops = (l, out)" by fastforce
  have "lc_state (fst (lc_apply (l, out) op)) = ?R"
    using snoc.prems(1) s by simp
  from to_right [OF this] show ?case
  proof
    assume "lc_state l = ?R"
    with snoc.IH s snoc.prems(2) obtain xs ys c where ih: "ops = xs @ LcInput InCatalogRecoveryRight # ys"
      "lc_state (fst (lc_run s xs)) = StCatalogLoadFailed err st mode c"
      "\<forall>n. lc_state (fst (lc_run s (xs @ LcInput InCatalogRecoveryRight # take n ys))) = ?R"
      by auto
    have "lc_state (fst (lc_run s (xs @ LcInput InCatalogRecoveryRight # take n (ys @ [op])))) = ?R" for n
      using ih snoc.prems(1) by (cases "n \<le> length ys") (auto simp del: run_steps.simps)
    with ih(1,2) show ?thesis
      by (intro exI [of _ xs] exI [of _ "ys @ [op]"] exI [of _ c]) simp
  next
    assume "op = LcInput InCatalogRecoveryRight \<and> (\<exists>c. lc_state l = StCatalogLoadFailed err st mode c)"
    then obtain c where "op = LcInput InCatalogRecoveryRight" "lc_state l = StCatalogLoadFailed err st mode c"
      by blast
    then show ?thesis
      using s snoc.prems(1) by (intro exI [of _ ops] exI [of _ "[]"] exI [of _ c]) simp
  qed
qed

text \<open>
  Generated catalog data is deleted only on an explicit choice. In any run of the lifecycle, an
  operation that starts a fresh catalog build is the confirmation of a recovery dialog in which,
  since that dialog opened, the right-hand choice was selected by an input and has stayed selected.
\<close>

theorem fresh_build_needs_explicit_choice:
  assumes "lc_run (lifecycle_new worker root t0, []) ops = (l, out)"
    and "lc_apply (l, out) op = (l', out @ es)" and "StartFreshCatalogBuild r \<in> set es"
  shows "op = LcInput InCatalogRecoveryConfirm \<and>
    (\<exists>xs ys err st mode c. ops = xs @ LcInput InCatalogRecoveryRight # ys \<and>
       lc_state (fst (lc_run (lifecycle_new worker root t0, []) xs)) = StCatalogLoadFailed err st mode c \<and>
       (\<forall>n. lc_state (fst (lc_run (lifecycle_new worker root t0, [])
          (xs @ LcInput InCatalogRecoveryRight # take n ys))) = StCatalogLoadFailed err st mode ChoiceRight))"
proof -
  have "\<not> extends_by (\<lambda>e. \<not> fresh_build e) out (snd (lc_apply (l, out) op))"
    using assms(2,3) by (force simp: extends_by_def list_all_iff)
  then have op: "op = LcInput InCatalogRecoveryConfirm" and right: "on_right (lc_state l)"
    using no_fresh_build [of op l out] by blast+
  from right obtain err st mode where "lc_state l = StCatalogLoadFailed err st mode ChoiceRight"
    by (auto simp: on_right_def)
  then have "lc_state (fst (lc_run (lifecycle_new worker root t0, []) ops)) =
      StCatalogLoadFailed err st mode ChoiceRight"
    using assms(1) by simp
  moreover have "\<not> on_right (lc_state (fst (lifecycle_new worker root t0, [])))"
    by (simp add: on_right_def lifecycle_new_def)
  ultimately show ?thesis
    using right_was_chosen op by blast
qed

section \<open>Witnesses\<close>

text \<open>A return from a game whose context never arrives, a launch, and a failed catalog load.\<close>

theorem startup_reveals_by_deadline_witness:
  "startup_input_enabled (fst (lc_run (begin_startup_reveal (lifecycle_new True ''games'' 0) [] ReturnFromGame 0)
     [LcInput InReturnCatalogHydrationNeeded, LcTick (from_secs 5) False, LcFrame 1 (from_secs 6)]))"
proof -
  let ?s = "begin_startup_reveal (lifecycle_new True ''games'' 0) [] ReturnFromGame 0"
  let ?ops = "[LcInput InReturnCatalogHydrationNeeded]"
  obtain l out where run: "lc_run ?s ?ops = (l, out)"
    by fastforce
  obtain l1 out1 where tick: "tick_startup_reveal l out (from_secs 5) False = (l1, out1)"
    by fastforce
  obtain l2 out2 where frame: "note_startup_frame_presented l1 out1 1 (from_secs 6) = (l2, out2)"
    by fastforce
  have allowed: "run_allowed lc_apply lc_ok ?s ?ops"
    by (cases ?s) simp
  have "startup_deadline (lc_mode l) \<le> since (from_secs 5) (lc_started_at l)"
    using run by (auto simp: begin_startup_reveal_def handle_def Let_def lifecycle_new_def startup_deadline_def
        RETURN_BLACK_SCREEN_TIMEOUT_def since_def from_secs_def)
  from startup_reveals_by_deadline [OF allowed run this tick frame] show ?thesis
    using run tick frame by (cases ?s) simp
qed

theorem handle_refines_chart_witness:
  "edge_or_same StIdle (lc_state (fst (snd (handle ((lifecycle_new True ''games'' 0)\<lparr>lc_state := StIdle\<rparr>) []
     (InLaunchRequested ''game'')))))"
  using handle_refines_chart [of "(lifecycle_new True ''games'' 0)\<lparr>lc_state := StIdle\<rparr>" "[]" "InLaunchRequested ''game''"]
  by simp

definition launch_ops :: "lifecycle_op list" where
  "launch_ops = [LcBegin WarmCatalog 0, LcFrame 1 5, LcClassify (CatReady ReturnCapsule False),
     LcInput (InLaunchRequested ''game''), LcLoadingFrame 3]"

lemma launch_ops_hand_off:
  "BeginLaunchHandoff ''game'' \<in> set (snd (lc_run (lifecycle_new True ''games'' 0, []) launch_ops))"
  by (simp add: launch_ops_def begin_startup_reveal_def note_startup_frame_presented_def lifecycle_new_def
      classify_startup_catalog_def catalog_ready_to_def lc_transition_def startup_event_def handle_def
      startup_input_enabled_def loading_frame_presented_def Let_def)

theorem handoff_follows_its_loading_frame_witness:
  "BeginLoadingFrame ''game'' \<in> set (snd (lc_run (lifecycle_new True ''games'' 0, []) launch_ops))"
proof -
  obtain xs ws where
    split: "snd (lc_run (lifecycle_new True ''games'' 0, []) launch_ops) = xs @ BeginLaunchHandoff ''game'' # ws"
    using split_list [OF launch_ops_hand_off] by blast
  from handoff_follows_its_loading_frame [OF this] show ?thesis
    using split by auto
qed

theorem handoff_is_final_witness:
  "lc_state (fst (lc_run ((lifecycle_new True ''games'' 0)\<lparr>lc_state := StHandoff True, lc_classified := True\<rparr>, [])
     [LcInput InLaunchTimedOut, LcInput (InLaunchRequested ''other''), LcTick 5 True])) = StHandoff True"
  using handoff_is_final [of "(lifecycle_new True ''games'' 0)\<lparr>lc_state := StHandoff True, lc_classified := True\<rparr>"
    True "[LcInput InLaunchTimedOut, LcInput (InLaunchRequested ''other''), LcTick 5 True]" "[]"]
  by (simp del: run_steps.simps)

definition recovery_ops :: "lifecycle_op list" where
  "recovery_ops = [LcClassify (CatLoadFailed ''broken'' True False), LcInput InCatalogRecoveryRight]"

lemmas recovery_example_defs = recovery_ops_def lifecycle_new_def classify_startup_catalog_def load_failed_def
  lc_transition_def mark_reveal_ready_def startup_event_def handle_def select_choice_def confirm_recovery_def
  go_and_push_def Let_def

theorem fresh_build_needs_explicit_choice_witness:
  "\<exists>xs ys err st mode c. recovery_ops = xs @ LcInput InCatalogRecoveryRight # ys \<and>
     lc_state (fst (lc_run (lifecycle_new True ''games'' 0, []) xs)) = StCatalogLoadFailed err st mode c"
proof -
  obtain l out where run: "lc_run (lifecycle_new True ''games'' 0, []) recovery_ops = (l, out)"
    by fastforce
  obtain l' es where "lc_apply (l, out) (LcInput InCatalogRecoveryConfirm) = (l', out @ es)"
    "StartFreshCatalogBuild ''games'' \<in> set es"
    using run by (auto simp: recovery_example_defs)
  from fresh_build_needs_explicit_choice [OF run this] show ?thesis
    by blast
qed

end
