(* ===== verification/Transition_Chart.thy ===== *)
theory Transition_Chart
  imports Prelude
begin

text \<open>
  \<open>apps/mister/src/launcher_runtime/full_screen_transition.rs\<close>: which transition owns the frame,
  and in which phase (capture, snapshot, release) it is. Navigation and orientation transitions
  share one chart. The lemmas show that the render policy never asks for two sources of pixels at
  once, that a generation of an ended transition can never act again, that a capture is issued once
  and a redraw retained during a transition is reported exactly when it ends.
\<close>

section \<open>Data\<close>

datatype transition_state = Live | CapturePending | SnapshotLocked | Releasing

datatype transition_owner = OwnerNavigation | OwnerOrientation

type_synonym chart_generation = u64

datatype chart_error = OwnerActive | StaleGeneration | InvalidState | CaptureNotIssued

record transition_policy =
  advance_slint_timers :: bool
  automatic_slint_raster :: bool
  controlled_capture :: bool
  snapshot_locked :: bool
  force_live_raster :: bool
  frame_driven_motion :: bool

record active_transition =
  at_owner :: transition_owner
  at_state :: transition_state
  at_generation :: chart_generation
  at_capture_issued :: bool
  at_retained_redraw :: bool

record chart =
  ch_next_generation :: u64
  ch_active :: "active_transition option"

definition chart_default :: chart where
  "chart_default = \<lparr>ch_next_generation = 1, ch_active = None\<rparr>"

section \<open>Operations\<close>

definition chart_begin :: "chart \<Rightarrow> transition_owner \<Rightarrow> (chart_error + chart_generation) \<times> chart" where
  "chart_begin c owner =
     (if ch_active c \<noteq> None then (Inl OwnerActive, c)
      else let gen = ch_next_generation c
           in (Inr gen, \<lparr>ch_next_generation = max (gen + 1) 1,
                 ch_active = Some \<lparr>at_owner = owner, at_state = CapturePending, at_generation = gen,
                    at_capture_issued = False, at_retained_redraw = False\<rparr>\<rparr>))"

definition chart_state :: "chart \<Rightarrow> transition_state" where
  "chart_state c = (case ch_active c of Some a \<Rightarrow> at_state a | None \<Rightarrow> Live)"

definition chart_is_live :: "chart \<Rightarrow> bool" where
  "chart_is_live c \<longleftrightarrow> ch_active c = None"

definition chart_owner :: "chart \<Rightarrow> transition_owner option" where
  "chart_owner c = map_option at_owner (ch_active c)"

definition chart_generation :: "chart \<Rightarrow> chart_generation option" where
  "chart_generation c = map_option at_generation (ch_active c)"

definition generation_for :: "chart \<Rightarrow> transition_owner \<Rightarrow> chart_generation option" where
  "generation_for c owner =
     (case ch_active c of
        Some a \<Rightarrow> if at_owner a = owner then Some (at_generation a) else None
      | None \<Rightarrow> None)"

definition chart_capture_issued :: "chart \<Rightarrow> bool" where
  "chart_capture_issued c = (case ch_active c of Some a \<Rightarrow> at_capture_issued a | None \<Rightarrow> False)"

definition chart_policy :: "chart \<Rightarrow> transition_policy" where
  "chart_policy c =
     (case chart_state c of
        Live \<Rightarrow> \<lparr>advance_slint_timers = True, automatic_slint_raster = True,
          controlled_capture = False, snapshot_locked = False, force_live_raster = False,
          frame_driven_motion = False\<rparr>
      | CapturePending \<Rightarrow> \<lparr>advance_slint_timers = False, automatic_slint_raster = False,
          controlled_capture = (case ch_active c of Some a \<Rightarrow> \<not> at_capture_issued a | None \<Rightarrow> False),
          snapshot_locked = False, force_live_raster = False, frame_driven_motion = True\<rparr>
      | SnapshotLocked \<Rightarrow> \<lparr>advance_slint_timers = False, automatic_slint_raster = False,
          controlled_capture = False, snapshot_locked = True, force_live_raster = False,
          frame_driven_motion = True\<rparr>
      | Releasing \<Rightarrow> \<lparr>advance_slint_timers = False, automatic_slint_raster = False,
          controlled_capture = False, snapshot_locked = False, force_live_raster = True,
          frame_driven_motion = True\<rparr>)"

text \<open>\<open>active_ref\<close> and \<open>active_mut\<close>: the active transition, if it has this generation.\<close>

definition active_ref :: "chart \<Rightarrow> chart_generation \<Rightarrow> chart_error + active_transition" where
  "active_ref c gen =
     (case ch_active c of
        Some a \<Rightarrow> if at_generation a = gen then Inr a else Inl StaleGeneration
      | None \<Rightarrow> Inl StaleGeneration)"

definition retain_redraw :: "chart \<Rightarrow> chart_generation \<Rightarrow> (chart_error + unit) \<times> chart" where
  "retain_redraw c gen =
     (case active_ref c gen of
        Inl err \<Rightarrow> (Inl err, c)
      | Inr a \<Rightarrow> (Inr (), c\<lparr>ch_active := Some (a\<lparr>at_retained_redraw := True\<rparr>)\<rparr>))"

definition take_controlled_capture :: "chart \<Rightarrow> chart_generation \<Rightarrow> (chart_error + bool) \<times> chart" where
  "take_controlled_capture c gen =
     (if chart_state c \<noteq> CapturePending then (Inl InvalidState, c)
      else case active_ref c gen of
        Inl err \<Rightarrow> (Inl err, c)
      | Inr a \<Rightarrow> if at_capture_issued a then (Inr False, c)
                 else (Inr True, c\<lparr>ch_active := Some (a\<lparr>at_capture_issued := True\<rparr>)\<rparr>))"

definition capture_completed :: "chart \<Rightarrow> chart_generation \<Rightarrow> (chart_error + unit) \<times> chart" where
  "capture_completed c gen =
     (if chart_state c \<noteq> CapturePending then (Inl InvalidState, c)
      else case active_ref c gen of
        Inl err \<Rightarrow> (Inl err, c)
      | Inr a \<Rightarrow> if \<not> at_capture_issued a then (Inl CaptureNotIssued, c)
                 else (Inr (), c\<lparr>ch_active := Some (a\<lparr>at_state := SnapshotLocked\<rparr>)\<rparr>))"

definition capture_deferred :: "chart \<Rightarrow> chart_generation \<Rightarrow> (chart_error + unit) \<times> chart" where
  "capture_deferred c gen =
     (if chart_state c \<noteq> CapturePending then (Inl InvalidState, c)
      else case active_ref c gen of
        Inl err \<Rightarrow> (Inl err, c)
      | Inr a \<Rightarrow> if \<not> at_capture_issued a then (Inl CaptureNotIssued, c)
                 else (Inr (), c\<lparr>ch_active := Some (a\<lparr>at_capture_issued := False\<rparr>)\<rparr>))"

definition chart_release :: "chart \<Rightarrow> chart_generation \<Rightarrow> (chart_error + unit) \<times> chart" where
  "chart_release c gen =
     (case active_ref c gen of
        Inl err \<Rightarrow> (Inl err, c)
      | Inr a \<Rightarrow> (Inr (), c\<lparr>ch_active := Some (a\<lparr>at_state := Releasing\<rparr>)\<rparr>))"

definition live_frame_presented :: "chart \<Rightarrow> chart_generation \<Rightarrow> (chart_error + bool) \<times> chart" where
  "live_frame_presented c gen =
     (if chart_state c \<noteq> Releasing then (Inl InvalidState, c)
      else case active_ref c gen of
        Inl err \<Rightarrow> (Inl err, c)
      | Inr a \<Rightarrow> (Inr (at_retained_redraw a), c\<lparr>ch_active := None\<rparr>))"

section \<open>Operations as steps\<close>

datatype chart_op =
  ChBegin transition_owner
| ChRetain chart_generation
| ChTake chart_generation
| ChCompleted chart_generation
| ChDeferred chart_generation
| ChRelease chart_generation
| ChPresented chart_generation

fun chart_step :: "chart \<Rightarrow> chart_op \<Rightarrow> chart" where
  "chart_step c (ChBegin owner) = snd (chart_begin c owner)"
| "chart_step c (ChRetain g) = snd (retain_redraw c g)"
| "chart_step c (ChTake g) = snd (take_controlled_capture c g)"
| "chart_step c (ChCompleted g) = snd (capture_completed c g)"
| "chart_step c (ChDeferred g) = snd (capture_deferred c g)"
| "chart_step c (ChRelease g) = snd (chart_release c g)"
| "chart_step c (ChPresented g) = snd (live_frame_presented c g)"

text \<open>A transition that has ended is no active transition; generations are never zero.\<close>

definition chart_inv :: "chart \<Rightarrow> bool" where
  "chart_inv c \<longleftrightarrow> ch_next_generation c \<noteq> 0 \<and>
     (case ch_active c of None \<Rightarrow> True
      | Some a \<Rightarrow> at_state a \<noteq> Live \<and> at_generation a \<noteq> 0 \<and>
          (at_state a = SnapshotLocked \<longrightarrow> at_capture_issued a))"

lemmas chart_ops =
  chart_begin_def retain_redraw_def take_controlled_capture_def capture_completed_def
  capture_deferred_def chart_release_def live_frame_presented_def active_ref_def Let_def

lemma chart_inv_default [simp]: "chart_inv chart_default"
  by (simp add: chart_inv_def chart_default_def)

lemma chart_inv_step:
  assumes "chart_inv c"
  shows "chart_inv (chart_step c op)"
proof (cases "ch_active c")
  case None
  with assms show ?thesis
    by (cases op) (simp_all add: chart_ops chart_inv_def chart_state_def)
next
  case (Some a)
  with assms show ?thesis
    by (cases op) (auto simp: chart_ops chart_inv_def chart_state_def)
qed

interpretation chart: total_machine chart_step chart_inv
  by unfold_locales (rule chart_inv_step)

section \<open>Properties\<close>

text \<open>
  The render policy is consistent in every reachable chart: Slint runs on its own (timers and
  automatic raster) exactly when no transition owns the frame, motion is frame driven exactly when
  one does, and at most one of controlled capture, locked snapshot and forced live raster is asked
  for; a locked snapshot has an issued capture behind it.
\<close>

theorem chart_policy_consistent:
  fixes ops :: "chart_op list"
  defines "c \<equiv> run_steps chart_step chart_default ops"
  shows "advance_slint_timers (chart_policy c) = chart_is_live c \<and>
    automatic_slint_raster (chart_policy c) = chart_is_live c \<and>
    frame_driven_motion (chart_policy c) = (\<not> chart_is_live c) \<and>
    \<not> (controlled_capture (chart_policy c) \<and> snapshot_locked (chart_policy c)) \<and>
    \<not> (controlled_capture (chart_policy c) \<and> force_live_raster (chart_policy c)) \<and>
    \<not> (snapshot_locked (chart_policy c) \<and> force_live_raster (chart_policy c)) \<and>
    (snapshot_locked (chart_policy c) \<longrightarrow> chart_capture_issued c)"
proof -
  have "chart_inv c"
    unfolding c_def by (rule chart.total_run_inv) simp
  then show ?thesis
    by (auto simp: chart_inv_def chart_policy_def chart_state_def chart_is_live_def chart_capture_issued_def
        split: option.splits transition_state.splits)
qed

fun chart_error_of :: "chart \<Rightarrow> chart_op \<Rightarrow> chart_error option" where
  "chart_error_of c (ChBegin owner) = (case fst (chart_begin c owner) of Inl e \<Rightarrow> Some e | Inr _ \<Rightarrow> None)"
| "chart_error_of c (ChRetain g) = (case fst (retain_redraw c g) of Inl e \<Rightarrow> Some e | Inr _ \<Rightarrow> None)"
| "chart_error_of c (ChTake g) = (case fst (take_controlled_capture c g) of Inl e \<Rightarrow> Some e | Inr _ \<Rightarrow> None)"
| "chart_error_of c (ChCompleted g) = (case fst (capture_completed c g) of Inl e \<Rightarrow> Some e | Inr _ \<Rightarrow> None)"
| "chart_error_of c (ChDeferred g) = (case fst (capture_deferred c g) of Inl e \<Rightarrow> Some e | Inr _ \<Rightarrow> None)"
| "chart_error_of c (ChRelease g) = (case fst (chart_release c g) of Inl e \<Rightarrow> Some e | Inr _ \<Rightarrow> None)"
| "chart_error_of c (ChPresented g) = (case fst (live_frame_presented c g) of Inl e \<Rightarrow> Some e | Inr _ \<Rightarrow> None)"

fun op_generation :: "chart_op \<Rightarrow> chart_generation option" where
  "op_generation (ChBegin owner) = None"
| "op_generation (ChRetain g) = Some g"
| "op_generation (ChTake g) = Some g"
| "op_generation (ChCompleted g) = Some g"
| "op_generation (ChDeferred g) = Some g"
| "op_generation (ChRelease g) = Some g"
| "op_generation (ChPresented g) = Some g"

lemma chart_error_unchanged: "chart_error_of c op \<noteq> None \<Longrightarrow> chart_step c op = c"
  by (cases op) (auto simp: chart_ops split: option.splits sum.splits if_splits)

lemma other_generation_refused:
  "op_generation op = Some g \<Longrightarrow> chart_generation c \<noteq> Some g \<Longrightarrow> chart_error_of c op \<noteq> None"
  by (cases op) (auto simp: chart_ops chart_generation_def split: option.splits)

definition passed :: "chart_generation \<Rightarrow> chart \<Rightarrow> bool" where
  "passed g c \<longleftrightarrow> g < ch_next_generation c \<and> chart_generation c \<noteq> Some g"

lemma passed_step:
  assumes "passed g c" and "unat (ch_next_generation c) + 1 < 2 ^ 64"
  shows "passed g (chart_step c op) \<and>
    unat (ch_next_generation (chart_step c op)) \<le> unat (ch_next_generation c) + 1"
proof -
  have next_word: "unat (ch_next_generation c + 1) = unat (ch_next_generation c) + 1"
    using assms(2) by (simp add: unat_word_ariths)
  then have "1 \<le> ch_next_generation c + 1"
    by (simp add: word_le_nat_alt)
  then have "max (ch_next_generation c + 1) 1 = ch_next_generation c + 1"
    by (rule max_absorb1)
  with next_word assms(1) show ?thesis
    by (cases op; cases "ch_active c")
      (auto simp: chart_ops passed_def chart_generation_def word_less_nat_alt split: if_splits)
qed

text \<open>
  A generation that has ended can never act again. If \<open>g\<close> was issued and is no longer active then,
  after any operations (fewer than the generations left before the counter wraps), every operation
  that names \<open>g\<close> is refused and leaves the chart as it is.
\<close>

theorem ended_generation_stays_ended:
  assumes "passed g c" and "unat (ch_next_generation c) + length ops < 2 ^ 64"
    and "op_generation op = Some g"
  shows "chart_error_of (run_steps chart_step c ops) op \<noteq> None \<and>
    chart_step (run_steps chart_step c ops) op = run_steps chart_step c ops"
proof -
  have "passed g (run_steps chart_step c ops)"
    using assms(1,2)
  proof (induction ops arbitrary: c)
    case Nil
    then show ?case by simp
  next
    case (Cons x ops)
    with passed_step [of g c x] show ?case
      by simp
  qed
  with assms(3) have "chart_error_of (run_steps chart_step c ops) op \<noteq> None"
    by (intro other_generation_refused) (auto simp: passed_def)
  then show ?thesis
    using chart_error_unchanged by blast
qed

text \<open>While \<open>g\<close> is active, what an operation other than its end does to the active transition.\<close>

lemma active_step:
  assumes "ch_active c = Some a" and "at_generation a = g" and "op \<noteq> ChPresented g"
  shows "\<exists>a'. ch_active (chart_step c op) = Some a' \<and> at_generation a' = g \<and> at_owner a' = at_owner a \<and>
    (at_retained_redraw a' \<longleftrightarrow> at_retained_redraw a \<or> op = ChRetain g) \<and>
    (op \<noteq> ChDeferred g \<longrightarrow> at_capture_issued a \<longrightarrow> at_capture_issued a')"
  using assms by (cases op) (simp_all add: chart_ops)

lemma active_run:
  "ch_active c = Some a \<Longrightarrow> at_generation a = g \<Longrightarrow> ChPresented g \<notin> set ops \<Longrightarrow>
   \<exists>a'. ch_active (run_steps chart_step c ops) = Some a' \<and> at_generation a' = g \<and> at_owner a' = at_owner a \<and>
     (at_retained_redraw a' \<longleftrightarrow> at_retained_redraw a \<or> ChRetain g \<in> set ops) \<and>
     (ChDeferred g \<notin> set ops \<longrightarrow> at_capture_issued a \<longrightarrow> at_capture_issued a')"
proof (induction ops arbitrary: c a)
  case Nil
  then show ?case by simp
next
  case (Cons x ops)
  then have "x \<noteq> ChPresented g" by auto
  from active_step [OF Cons.prems(1,2) this] obtain a1 where a1:
    "ch_active (chart_step c x) = Some a1" "at_generation a1 = g" "at_owner a1 = at_owner a"
    "at_retained_redraw a1 = (at_retained_redraw a \<or> x = ChRetain g)"
    "x \<noteq> ChDeferred g \<Longrightarrow> at_capture_issued a \<Longrightarrow> at_capture_issued a1"
    by blast
  from Cons.IH [OF a1(1,2)] Cons.prems(3) a1(3-5) show ?case
    by fastforce
qed

text \<open>
  A redraw asked for during a transition is reported when it ends, and only then. Between the
  begin of a generation and its end, whatever happens (other owners trying to begin, stale
  generations, errors), the live frame reports a retained redraw if and only if \<open>retain_redraw\<close> was
  called for this generation, and the owner stays the one that began.
\<close>

theorem retained_redraw_is_reported:
  assumes "chart_begin c owner = (Inr g, c1)" and "ChPresented g \<notin> set ops"
    and "live_frame_presented (run_steps chart_step c1 ops) g = (Inr retained, c2)"
  shows "(retained \<longleftrightarrow> ChRetain g \<in> set ops) \<and> chart_is_live c2 \<and>
    chart_owner (run_steps chart_step c1 ops) = Some owner"
proof -
  obtain a where "ch_active c1 = Some a" "at_generation a = g" "at_owner a = owner" "\<not> at_retained_redraw a"
    using assms(1) by (auto simp: chart_begin_def Let_def split: if_splits)
  with active_run [OF this(1,2) assms(2)] assms(3) show ?thesis
    by (auto simp: live_frame_presented_def active_ref_def chart_is_live_def chart_owner_def split: if_splits)
qed

text \<open>
  A controlled capture is issued once. After \<open>take_controlled_capture\<close> granted the capture of a
  generation, no later call grants it again until the capture is deferred or the transition ends,
  and until then the generation keeps the frame.
\<close>

theorem capture_granted_once:
  assumes "take_controlled_capture c g = (Inr True, c1)"
    and "ChPresented g \<notin> set ops" and "ChDeferred g \<notin> set ops"
  shows "fst (take_controlled_capture (run_steps chart_step c1 ops) g) \<noteq> Inr True \<and>
    chart_generation (run_steps chart_step c1 ops) = Some g"
proof -
  obtain a where "ch_active c1 = Some a" "at_generation a = g" "at_capture_issued a"
    using assms(1)
    by (auto simp: take_controlled_capture_def active_ref_def split: if_splits option.splits sum.splits)
  with active_run [OF this(1,2) assms(2)] assms(3) show ?thesis
    by (auto simp: take_controlled_capture_def active_ref_def chart_generation_def)
qed

section \<open>Witnesses\<close>

text \<open>A navigation transition that captures, plays, is redrawn meanwhile, and is released.\<close>

definition begun :: chart where
  "begun = snd (chart_begin chart_default OwnerNavigation)"

definition playing :: "chart_op list" where
  "playing = [ChTake 1, ChCompleted 1, ChRetain 1, ChRelease 1]"

lemmas chart_example_defs = begun_def playing_def chart_default_def chart_ops chart_state_def
  chart_generation_def chart_capture_issued_def

theorem chart_policy_consistent_witness:
  "snapshot_locked (chart_policy (run_steps chart_step chart_default
     [ChBegin OwnerNavigation, ChTake 1, ChCompleted 1])) \<and>
   \<not> controlled_capture (chart_policy (run_steps chart_step chart_default
     [ChBegin OwnerNavigation, ChTake 1, ChCompleted 1])) \<and>
   chart_capture_issued (run_steps chart_step chart_default [ChBegin OwnerNavigation, ChTake 1, ChCompleted 1])"
proof -
  have "snapshot_locked (chart_policy (run_steps chart_step chart_default
     [ChBegin OwnerNavigation, ChTake 1, ChCompleted 1]))"
    by (simp add: chart_example_defs chart_policy_def)
  then show ?thesis
    using chart_policy_consistent [of "[ChBegin OwnerNavigation, ChTake 1, ChCompleted 1]"] by blast
qed

definition ended :: chart where
  "ended = run_steps chart_step begun (playing @ [ChPresented 1])"

theorem ended_generation_stays_ended_witness:
  "chart_step (run_steps chart_step ended [ChBegin OwnerOrientation]) (ChRelease 1) =
     run_steps chart_step ended [ChBegin OwnerOrientation] \<and>
   chart_generation (run_steps chart_step ended [ChBegin OwnerOrientation]) = Some 2"
proof -
  have ended: "passed 1 ended" "unat (ch_next_generation ended) + length [ChBegin OwnerOrientation] < 2 ^ 64"
    "op_generation (ChRelease 1) = Some 1"
    "chart_generation (run_steps chart_step ended [ChBegin OwnerOrientation]) = Some 2"
    by (simp_all add: ended_def chart_example_defs passed_def)
  from ended_generation_stays_ended [OF ended(1-3)] ended(4) show ?thesis
    by blast
qed

lemma begun_result: "chart_begin chart_default OwnerNavigation = (Inr 1, begun)"
  by (simp add: chart_example_defs)

theorem retained_redraw_is_reported_witness:
  "fst (live_frame_presented (run_steps chart_step begun playing) 1) = Inr True \<and>
   chart_owner (run_steps chart_step begun playing) = Some OwnerNavigation"
proof -
  obtain retained c2 where res: "live_frame_presented (run_steps chart_step begun playing) 1 = (Inr retained, c2)"
    by (simp add: chart_example_defs)
  have "ChPresented 1 \<notin> set playing" "ChRetain 1 \<in> set playing"
    by (simp_all add: playing_def)
  with retained_redraw_is_reported [OF begun_result _ res] res show ?thesis
    by simp
qed

theorem capture_granted_once_witness:
  "fst (take_controlled_capture (chart_step begun (ChTake 1)) 1) \<noteq> Inr True \<and>
   fst (take_controlled_capture begun 1) = Inr True"
proof -
  obtain c1 where res: "take_controlled_capture begun 1 = (Inr True, c1)"
    by (simp add: chart_example_defs)
  from capture_granted_once [OF res, of "[]"] res show ?thesis
    by simp
qed

end
