(* ===== verification/Navigation.thy ===== *)
theory Navigation
  imports Prelude
begin

text \<open>
  The timeline of a full-screen navigation transition: the request and frame data and the progress
  arithmetic of \<open>crates/framebuffer-scenes/src/navigation.rs\<close>, and the controller and runtime of
  \<open>apps/mister/src/launcher_runtime/navigation_transition.rs\<close>. Progress is a \<open>u16\<close> in Q16 and time
  is \<open>u64\<close> microseconds, both with the code's saturating operations and truncating casts. Pixels are
  \<open>u16\<close> (RGB565); the renderers themselves and the artwork they carry are not modelled. The lemmas
  show that progress stays in range and moves one way, that every transition ends in bounded time
  at an endpoint, that a failed or reversed transition can only end at its source, and that the
  runtime gives the raster back when it has ended.
\<close>

section \<open>Data\<close>

definition PROGRESS_MAX :: u16 where
  "PROGRESS_MAX = 65535"

definition SUPER_SCALER_COVER_PROGRESS :: u16 where
  "SUPER_SCALER_COVER_PROGRESS = 31457"

definition DEFAULT_PREPARATION_TIMEOUT_US :: u64 where
  "DEFAULT_PREPARATION_TIMEOUT_US = 5000000"

definition NAVIGATION_TRANSITION_DURATION_US :: u64 where
  "NAVIGATION_TRANSITION_DURATION_US = 300000"

definition SETTINGS_COG_DURATION_MS :: u32 where
  "SETTINGS_COG_DURATION_MS = 1000"

datatype nav_edge = EdgeHomeToConsoles | EdgeHomeToArcade | EdgeConsolesToSystem | EdgeSystemPanel

fun enters_system_browser :: "nav_edge \<Rightarrow> bool" where
  "enters_system_browser EdgeHomeToArcade = True"
| "enters_system_browser EdgeConsolesToSystem = True"
| "enters_system_browser _ = False"

definition edge_duration_us :: "nav_edge \<Rightarrow> u64" where
  "edge_duration_us edge = NAVIGATION_TRANSITION_DURATION_US"

fun edge_label :: "nav_edge \<Rightarrow> string" where
  "edge_label EdgeHomeToConsoles = ''home-consoles''"
| "edge_label EdgeHomeToArcade = ''home-arcade''"
| "edge_label EdgeConsolesToSystem = ''consoles-system''"
| "edge_label EdgeSystemPanel = ''system-panel''"

datatype nav_direction = Forward | Reverse

datatype settings_axis = AxisHorizontal | AxisVertical | AxisVerticalReversed

datatype settings_style = WholePage | Segmented

record nav_rect =
  nr_x :: u16
  nr_y :: u16
  nr_width :: u16
  nr_height :: u16

definition rect_right :: "nav_rect \<Rightarrow> u16" where
  "rect_right r = sat_add (nr_x r) (nr_width r)"

definition rect_bottom :: "nav_rect \<Rightarrow> u16" where
  "rect_bottom r = sat_add (nr_y r) (nr_height r)"

definition rect_fits :: "nav_rect \<Rightarrow> nat \<Rightarrow> nat \<Rightarrow> bool" where
  "rect_fits r width height \<longleftrightarrow> 0 < nr_width r \<and> 0 < nr_height r \<and>
     unat (rect_right r) \<le> width \<and> unat (rect_bottom r) \<le> height"

definition rect_default :: nav_rect where
  "rect_default = \<lparr>nr_x = 0, nr_y = 0, nr_width = 0, nr_height = 0\<rparr>"

record nav_geometry =
  ng_label_signature :: u64
  ng_label_ascii :: "u8 list"
  ng_label_len :: u8
  ng_source_card :: nav_rect
  ng_source_label :: nav_rect
  ng_source_detail :: nav_rect
  ng_destination_title :: nav_rect
  ng_destination_detail :: nav_rect
  ng_destination_list :: nav_rect
  ng_destination_selected_row :: nav_rect
  ng_destination_preview :: nav_rect
  ng_destination_footer :: nav_rect

definition geometry_default :: nav_geometry where
  "geometry_default = \<lparr>ng_label_signature = 0, ng_label_ascii = replicate 32 0, ng_label_len = 0,
     ng_source_card = rect_default, ng_source_label = rect_default, ng_source_detail = rect_default,
     ng_destination_title = rect_default, ng_destination_detail = rect_default,
     ng_destination_list = rect_default, ng_destination_selected_row = rect_default,
     ng_destination_preview = rect_default, ng_destination_footer = rect_default\<rparr>"

definition source_text_group :: "nav_geometry \<Rightarrow> nav_rect" where
  "source_text_group g =
     (if nr_width (ng_source_detail g) = 0 \<or> nr_height (ng_source_detail g) = 0 then ng_source_label g
      else let right = max (rect_right (ng_source_label g)) (rect_right (ng_source_detail g));
               bottom = max (rect_bottom (ng_source_label g)) (rect_bottom (ng_source_detail g));
               left = min (nr_x (ng_source_label g)) (nr_x (ng_source_detail g));
               top = min (nr_y (ng_source_label g)) (nr_y (ng_source_detail g))
           in \<lparr>nr_x = left, nr_y = top, nr_width = sat_sub right left, nr_height = sat_sub bottom top\<rparr>)"

record device_card_reveal =
  dc_region :: nav_rect
  dc_accent :: u16
  dc_crt :: bool
  dc_hub :: bool

definition device_card_duration_ms :: "device_card_reveal \<Rightarrow> u32" where
  "device_card_duration_ms r = (if dc_crt r then 900 else 1000)"

definition device_card_cabinet :: "bool \<Rightarrow> device_card_reveal" where
  "device_card_cabinet crt =
     \<lparr>dc_region = \<lparr>nr_x = 30, nr_y = 28, nr_width = 423, nr_height = 462\<rparr>, dc_accent = 0xe34b,
      dc_crt = crt, dc_hub = True\<rparr>"

datatype nav_renderer =
  SuperScaler | SettingsPage | SettingsCog | SystemPanel bool | DeviceCard device_card_reveal

record nav_request =
  nq_edge :: nav_edge
  nq_direction :: nav_direction
  nq_geometry :: nav_geometry
  nq_duration_us :: u64
  nq_preparation_timeout_us :: u64
  nq_renderer :: nav_renderer
  nq_settings_axis :: settings_axis
  nq_settings_style :: settings_style
  nq_settings_destination_content_x :: u16

definition request_new :: "nav_edge \<Rightarrow> nav_direction \<Rightarrow> nav_geometry \<Rightarrow> nav_request" where
  "request_new edge direction geometry = \<lparr>nq_edge = edge, nq_direction = direction,
     nq_geometry = geometry, nq_duration_us = edge_duration_us edge,
     nq_preparation_timeout_us = DEFAULT_PREPARATION_TIMEOUT_US, nq_renderer = SuperScaler,
     nq_settings_axis = AxisHorizontal, nq_settings_style = WholePage,
     nq_settings_destination_content_x = 0\<rparr>"

definition request_settings_page :: "nav_direction \<Rightarrow> nav_request" where
  "request_settings_page direction =
     (request_new EdgeHomeToConsoles direction geometry_default)\<lparr>nq_renderer := SettingsPage\<rparr>"

definition request_segmented_with_content_x :: "nav_direction \<Rightarrow> u16 \<Rightarrow> nav_request" where
  "request_segmented_with_content_x direction x =
     (request_settings_page direction)\<lparr>nq_duration_us := 720000, nq_settings_style := Segmented,
        nq_settings_destination_content_x := x\<rparr>"

definition request_segmented_on_axis_with_content_x ::
  "nav_direction \<Rightarrow> settings_axis \<Rightarrow> u16 \<Rightarrow> nav_request" where
  "request_segmented_on_axis_with_content_x direction axis x =
     (request_segmented_with_content_x direction x)\<lparr>nq_settings_axis := axis\<rparr>"

definition request_settings_page_on_axis :: "nav_direction \<Rightarrow> settings_axis \<Rightarrow> nav_request" where
  "request_settings_page_on_axis direction axis =
     (request_settings_page direction)\<lparr>nq_settings_axis := axis\<rparr>"

definition request_settings_cog :: "nav_direction \<Rightarrow> nav_request" where
  "request_settings_cog direction =
     (request_settings_page direction)\<lparr>nq_duration_us := ucast SETTINGS_COG_DURATION_MS * 1000,
        nq_renderer := SettingsCog\<rparr>"

definition request_device_card ::
  "nav_direction \<Rightarrow> nav_edge \<Rightarrow> nav_geometry \<Rightarrow> device_card_reveal \<Rightarrow> nav_request" where
  "request_device_card direction edge geometry reveal =
     (request_settings_page direction)\<lparr>nq_renderer := DeviceCard reveal, nq_edge := edge,
        nq_geometry := geometry, nq_duration_us := ucast (device_card_duration_ms reveal) * 1000\<rparr>"

text \<open>\<open>system_panel::duration_ms\<close>; \<open>HDMI_HUB_BANDS\<close> has seven rows.\<close>

definition system_panel_duration_ms :: "bool \<Rightarrow> bool \<Rightarrow> u32" where
  "system_panel_duration_ms crt to_list =
     (if crt then 340 else if to_list then 426 else 120 + (7 - 1) * 26 + 280)"

definition request_system_panel :: "bool \<Rightarrow> bool \<Rightarrow> nav_request" where
  "request_system_panel crt to_list =
     (request_settings_page Forward)\<lparr>nq_renderer := SystemPanel crt, nq_edge := EdgeSystemPanel,
        nq_direction := (if to_list then Forward else Reverse),
        nq_duration_us := ucast (system_panel_duration_ms crt to_list) * 1000\<rparr>"

definition is_super_scaler :: "nav_request \<Rightarrow> bool" where
  "is_super_scaler q \<longleftrightarrow> nq_renderer q = SuperScaler"

definition is_device_card :: "nav_request \<Rightarrow> bool" where
  "is_device_card q = (case nq_renderer q of DeviceCard _ \<Rightarrow> True | _ \<Rightarrow> False)"

definition renderer_label :: "nav_request \<Rightarrow> string" where
  "renderer_label q =
     (case nq_renderer q of
        SuperScaler \<Rightarrow> ''super-scaler''
      | SettingsPage \<Rightarrow> ''settings-page''
      | SettingsCog \<Rightarrow> ''settings-cog''
      | SystemPanel _ \<Rightarrow> ''system-panel''
      | DeviceCard _ \<Rightarrow> ''device-card'')"

datatype nav_phase = PhIdle | PhCapture | PhExpand | PhCovered | PhReveal | PhReversing | PhSettled

fun phase_label :: "nav_phase \<Rightarrow> string" where
  "phase_label PhIdle = ''idle''"
| "phase_label PhCapture = ''capture''"
| "phase_label PhExpand = ''expand''"
| "phase_label PhCovered = ''covered''"
| "phase_label PhReveal = ''reveal''"
| "phase_label PhReversing = ''reversing''"
| "phase_label PhSettled = ''settled''"

datatype nav_failure = DestinationTimeout | SnapshotSizeMismatch

datatype nav_endpoint = EndSource | EndDestination

record nav_completion =
  nc_endpoint :: nav_endpoint
  nc_failure :: "nav_failure option"

record nav_frame =
  nf_phase :: nav_phase
  nf_progress_q16 :: u16
  nf_cover_progress_q16 :: u16
  nf_reveal_progress_q16 :: u16
  nf_owns_full_frame :: bool
  nf_endpoint :: "nav_endpoint option"
  nf_failure :: "nav_failure option"
  nf_reverse_origin_q16 :: u16
  nf_reverse_leg_progress_q16 :: u16

definition frame_default :: nav_frame where
  "frame_default = \<lparr>nf_phase = PhIdle, nf_progress_q16 = 0, nf_cover_progress_q16 = 0,
     nf_reveal_progress_q16 = 0, nf_owns_full_frame = False, nf_endpoint = None, nf_failure = None,
     nf_reverse_origin_q16 = 0, nf_reverse_leg_progress_q16 = 0\<rparr>"

section \<open>Progress arithmetic\<close>

text \<open>\<open>u64\<close>'s \<open>saturating_mul\<close>.\<close>

definition sat_mul64 :: "u64 \<Rightarrow> u64 \<Rightarrow> u64" where
  "sat_mul64 a b = (if unat a * unat b < 2 ^ 64 then a * b else - 1)"

definition scale_progress :: "u64 \<Rightarrow> u64 \<Rightarrow> u16 \<Rightarrow> u16" where
  "scale_progress elapsed_us duration_us maximum =
     ucast (sat_mul64 (min elapsed_us duration_us) (ucast maximum) div max duration_us 1)"

definition forward_progress_q16_at_elapsed_with_cover :: "u64 \<Rightarrow> u64 \<Rightarrow> u16 \<Rightarrow> u16" where
  "forward_progress_q16_at_elapsed_with_cover total_us elapsed_us cover_progress =
     (let total = max total_us 1;
          cover_us = sat_mul64 total (ucast cover_progress) div ucast PROGRESS_MAX;
          elapsed = min elapsed_us total
      in if elapsed \<le> cover_us
         then scale_progress elapsed (max cover_us 1) cover_progress
         else sat_add cover_progress
                (scale_progress (sat_sub elapsed cover_us) (max (sat_sub total cover_us) 1)
                   (PROGRESS_MAX - cover_progress)))"

definition request_cover_progress_q16 :: "nav_request \<Rightarrow> u16" where
  "request_cover_progress_q16 q =
     (let directed = (\<lambda>forward_cover. case nq_direction q of
            Forward \<Rightarrow> forward_cover | Reverse \<Rightarrow> PROGRESS_MAX - forward_cover) in
      case nq_renderer q of
        SuperScaler \<Rightarrow> directed SUPER_SCALER_COVER_PROGRESS
      | SystemPanel crt \<Rightarrow>
          ucast ((if crt then 150000 else 120000) * ucast PROGRESS_MAX div nq_duration_us q)
      | _ \<Rightarrow> directed (PROGRESS_MAX div 2))"

section \<open>The controller\<close>

record nav_telemetry =
  nt_capture_us :: u64
  nt_destination_prepare_us :: u64
  nt_render_us :: u64
  nt_covered_hold_us :: u64
  nt_frames :: u64
  nt_reused_frames :: u64
  nt_base_copy_us :: u64
  nt_settings_blit_us :: u64
  nt_card_scale_us :: u64
  nt_destination_reveal_us :: u64
  nt_overlay_us :: u64
  nt_phosphor_pixels :: u64
  nt_scanline_pixels :: u64
  nt_status_quiesce_wait_us :: u64
  nt_status_quiesce_timeout :: bool

definition telemetry_default :: nav_telemetry where
  "telemetry_default = \<lparr>nt_capture_us = 0, nt_destination_prepare_us = 0, nt_render_us = 0,
     nt_covered_hold_us = 0, nt_frames = 0, nt_reused_frames = 0, nt_base_copy_us = 0,
     nt_settings_blit_us = 0, nt_card_scale_us = 0, nt_destination_reveal_us = 0, nt_overlay_us = 0,
     nt_phosphor_pixels = 0, nt_scanline_pixels = 0, nt_status_quiesce_wait_us = 0,
     nt_status_quiesce_timeout = False\<rparr>"

definition note_render :: "nav_telemetry \<Rightarrow> u64 \<Rightarrow> bool \<Rightarrow> nav_telemetry" where
  "note_render t render_us reused =
     t\<lparr>nt_render_us := sat_add (nt_render_us t) render_us, nt_frames := sat_add (nt_frames t) 1,
       nt_reused_frames := sat_add (nt_reused_frames t) (if reused then 1 else 0)\<rparr>"

record controller =
  ct_phase :: nav_phase
  ct_request :: "nav_request option"
  ct_phase_started_us :: u64
  ct_covered_started_us :: u64
  ct_covered_observed_us :: u64
  ct_progress_q16 :: u16
  ct_reverse_origin_q16 :: u16
  ct_failure :: "nav_failure option"
  ct_telemetry :: nav_telemetry

definition controller_default :: controller where
  "controller_default = \<lparr>ct_phase = PhIdle, ct_request = None, ct_phase_started_us = 0,
     ct_covered_started_us = 0, ct_covered_observed_us = 0, ct_progress_q16 = 0,
     ct_reverse_origin_q16 = 0, ct_failure = None, ct_telemetry = telemetry_default\<rparr>"

definition ctl_is_active :: "controller \<Rightarrow> bool" where
  "ctl_is_active c \<longleftrightarrow> ct_phase c \<noteq> PhIdle"

definition ctl_begin :: "controller \<Rightarrow> nav_request \<Rightarrow> u64 \<Rightarrow> bool \<times> controller" where
  "ctl_begin c q now_us =
     (if ctl_is_active c then (False, c)
      else (True, c\<lparr>ct_phase := PhCapture, ct_request := Some q, ct_phase_started_us := now_us,
              ct_covered_started_us := 0, ct_covered_observed_us := 0, ct_progress_q16 := 0,
              ct_reverse_origin_q16 := 0, ct_failure := None, ct_telemetry := telemetry_default\<rparr>))"

definition ctl_captured :: "controller \<Rightarrow> u64 \<Rightarrow> u64 \<Rightarrow> bool \<times> controller" where
  "ctl_captured c now_us capture_us =
     (if ct_phase c \<noteq> PhCapture then (False, c)
      else (True, c\<lparr>ct_telemetry := (ct_telemetry c)\<lparr>nt_capture_us := capture_us\<rparr>,
              ct_phase := PhExpand, ct_phase_started_us := now_us\<rparr>))"

definition note_destination_prepared :: "controller \<Rightarrow> u64 \<Rightarrow> controller" where
  "note_destination_prepared c prepare_us =
     c\<lparr>ct_telemetry := (ct_telemetry c)\<lparr>nt_destination_prepare_us := prepare_us\<rparr>\<rparr>"

definition start_reversing :: "controller \<Rightarrow> u64 \<Rightarrow> controller" where
  "start_reversing c now_us =
     c\<lparr>ct_reverse_origin_q16 := ct_progress_q16 c,
       ct_phase := (if ct_progress_q16 c = 0 then PhSettled else PhReversing),
       ct_phase_started_us := now_us\<rparr>"

definition ctl_endpoint :: "controller \<Rightarrow> nav_endpoint option" where
  "ctl_endpoint c =
     (if ct_phase c \<noteq> PhSettled then None
      else Some (if ct_progress_q16 c = 0 then EndSource else EndDestination))"

definition ctl_cover_progress :: "controller \<Rightarrow> u16" where
  "ctl_cover_progress c =
     (case ct_request c of Some q \<Rightarrow> request_cover_progress_q16 q | None \<Rightarrow> SUPER_SCALER_COVER_PROGRESS)"

definition ctl_frame :: "controller \<Rightarrow> nav_frame" where
  "ctl_frame c =
     (let cover = ctl_cover_progress c; p = ct_progress_q16 c in
      \<lparr>nf_phase = ct_phase c, nf_progress_q16 = p,
       nf_cover_progress_q16 = (if cover \<le> p then PROGRESS_MAX
          else ucast ((ucast p * ucast PROGRESS_MAX :: u32) div ucast cover)),
       nf_reveal_progress_q16 = (if p \<le> cover then 0
          else ucast ((ucast (p - cover) * ucast PROGRESS_MAX :: u32) div ucast (PROGRESS_MAX - cover))),
       nf_owns_full_frame = ctl_is_active c,
       nf_endpoint = (if ct_phase c = PhSettled then ctl_endpoint c else None),
       nf_failure = ct_failure c, nf_reverse_origin_q16 = ct_reverse_origin_q16 c,
       nf_reverse_leg_progress_q16 = (if ct_phase c = PhReversing \<and> 0 < ct_reverse_origin_q16 c
          then ucast ((ucast (ct_reverse_origin_q16 c - p) * ucast PROGRESS_MAX :: u32) div
                 ucast (ct_reverse_origin_q16 c))
          else 0)\<rparr>)"

text \<open>
  \<open>tick\<close>, in the order of its \<open>if\<close>s: the expansion may fall through to the covered phase or straight
  to the reveal, the covered phase to the reveal, and the reversal runs when neither reveals.
\<close>

definition total_us :: "nav_request \<Rightarrow> u64" where
  "total_us q = max (nq_duration_us q) 1"

definition forward_cover_progress :: "nav_request \<Rightarrow> u16" where
  "forward_cover_progress q =
     (case nq_direction q of
        Forward \<Rightarrow> request_cover_progress_q16 q
      | Reverse \<Rightarrow> sat_sub PROGRESS_MAX (request_cover_progress_q16 q))"

definition cover_us :: "nav_request \<Rightarrow> u64" where
  "cover_us q =
     (let forward_cover_us =
        sat_mul64 (total_us q) (ucast (forward_cover_progress q)) div ucast PROGRESS_MAX
      in case nq_direction q of
           Forward \<Rightarrow> forward_cover_us
         | Reverse \<Rightarrow> sat_sub (total_us q) forward_cover_us)"

definition tick_expand :: "controller \<Rightarrow> nav_request \<Rightarrow> u64 \<Rightarrow> bool \<Rightarrow> controller" where
  "tick_expand c q now_us destination_ready =
     (let elapsed = sat_sub now_us (ct_phase_started_us c);
          c1 = c\<lparr>ct_progress_q16 := (case nq_direction q of
                 Forward \<Rightarrow> scale_progress elapsed (cover_us q) (request_cover_progress_q16 q)
               | Reverse \<Rightarrow> sat_sub PROGRESS_MAX
                   (forward_progress_q16_at_elapsed_with_cover (total_us q)
                      (sat_sub (total_us q) (min elapsed (cover_us q))) (forward_cover_progress q)))\<rparr>
      in if cover_us q \<le> elapsed
         then let started = sat_add (ct_phase_started_us c1) (cover_us q) in
              c1\<lparr>ct_progress_q16 := request_cover_progress_q16 q,
                 ct_phase := (if destination_ready then PhReveal else PhCovered),
                 ct_covered_started_us := started, ct_covered_observed_us := now_us,
                 ct_phase_started_us := started\<rparr>
         else c1)"

definition tick_covered :: "controller \<Rightarrow> nav_request \<Rightarrow> u64 \<Rightarrow> bool \<Rightarrow> controller" where
  "tick_covered c q now_us destination_ready =
     (if destination_ready
      then let on_cover_tick = (now_us = ct_covered_observed_us c) in
           c\<lparr>ct_telemetry := (ct_telemetry c)\<lparr>nt_covered_hold_us :=
                 (if on_cover_tick then 0 else sat_sub now_us (ct_covered_observed_us c))\<rparr>,
             ct_phase := PhReveal,
             ct_phase_started_us := (if on_cover_tick then ct_covered_started_us c else now_us)\<rparr>
      else if nq_preparation_timeout_us q \<le> sat_sub now_us (ct_covered_started_us c)
      then start_reversing (c\<lparr>ct_failure := Some DestinationTimeout\<rparr>) now_us
      else c)"

definition reveal_us :: "nav_request \<Rightarrow> u64" where
  "reveal_us q = max (sat_sub (total_us q) (cover_us q)) 1"

definition tick_reveal :: "controller \<Rightarrow> nav_request \<Rightarrow> u64 \<Rightarrow> controller" where
  "tick_reveal c q now_us =
     (let elapsed = sat_sub now_us (ct_phase_started_us c);
          cover = request_cover_progress_q16 q;
          c1 = c\<lparr>ct_progress_q16 := (case nq_direction q of
                 Forward \<Rightarrow> sat_add cover (scale_progress elapsed (reveal_us q) (PROGRESS_MAX - cover))
               | Reverse \<Rightarrow> sat_sub PROGRESS_MAX
                   (forward_progress_q16_at_elapsed_with_cover (total_us q)
                      (sat_sub (total_us q) (sat_add (cover_us q) (min elapsed (reveal_us q))))
                      (forward_cover_progress q)))\<rparr>
      in if reveal_us q \<le> elapsed
         then c1\<lparr>ct_progress_q16 := PROGRESS_MAX, ct_phase := PhSettled\<rparr> else c1)"

definition reverse_us :: "controller \<Rightarrow> nav_request \<Rightarrow> u64" where
  "reverse_us c q =
     max (sat_mul64 (total_us q) (ucast (ct_reverse_origin_q16 c)) div ucast PROGRESS_MAX) 1"

definition tick_reversing :: "controller \<Rightarrow> nav_request \<Rightarrow> u64 \<Rightarrow> controller" where
  "tick_reversing c q now_us =
     (let elapsed = sat_sub now_us (ct_phase_started_us c);
          reversed = scale_progress elapsed (reverse_us c q) (ct_reverse_origin_q16 c);
          c1 = c\<lparr>ct_progress_q16 := sat_sub (ct_reverse_origin_q16 c) reversed\<rparr>
      in if reverse_us c q \<le> elapsed
         then c1\<lparr>ct_progress_q16 := 0, ct_phase := PhSettled\<rparr> else c1)"

definition ctl_tick :: "controller \<Rightarrow> u64 \<Rightarrow> bool \<Rightarrow> nav_frame \<times> controller" where
  "ctl_tick c now_us destination_ready =
     (case ct_request c of
        None \<Rightarrow> (frame_default, c)
      | Some q \<Rightarrow>
          let c1 = (if ct_phase c = PhExpand then tick_expand c q now_us destination_ready else c);
              c2 = (if ct_phase c1 = PhCovered then tick_covered c1 q now_us destination_ready else c1);
              c3 = (if ct_phase c2 = PhReveal then tick_reveal c2 q now_us
                    else if ct_phase c2 = PhReversing then tick_reversing c2 q now_us else c2)
          in (ctl_frame c3, c3))"

definition ctl_request_reverse :: "controller \<Rightarrow> u64 \<Rightarrow> bool \<times> controller" where
  "ctl_request_reverse c now_us =
     (if ct_phase c \<notin> {PhExpand, PhCovered, PhReveal} then (False, c)
      else (True, start_reversing c now_us))"

definition ctl_fail :: "controller \<Rightarrow> nav_failure \<Rightarrow> u64 \<Rightarrow> controller" where
  "ctl_fail c failure now_us =
     (if ctl_is_active c then start_reversing (c\<lparr>ct_failure := Some failure\<rparr>) now_us else c)"

definition ctl_cancel_for_exclusive_view :: "controller \<Rightarrow> bool \<Rightarrow> nav_endpoint option \<times> controller" where
  "ctl_cancel_for_exclusive_view c destination_ready =
     (if \<not> ctl_is_active c then (None, c)
      else let endpoint = (if ctl_cover_progress c \<le> ct_progress_q16 c \<and> destination_ready
                           then EndDestination else EndSource)
           in (Some endpoint,
               c\<lparr>ct_progress_q16 := (case endpoint of EndSource \<Rightarrow> 0 | EndDestination \<Rightarrow> PROGRESS_MAX),
                 ct_phase := PhSettled, ct_failure := None\<rparr>))"

definition ctl_settle_at_destination :: "controller \<Rightarrow> bool \<times> controller" where
  "ctl_settle_at_destination c =
     (if \<not> ctl_is_active c then (False, c)
      else (True, c\<lparr>ct_progress_q16 := PROGRESS_MAX, ct_phase := PhSettled, ct_failure := None\<rparr>))"

definition ctl_complete :: "controller \<Rightarrow> nav_completion option \<times> controller" where
  "ctl_complete c =
     (if ct_phase c \<noteq> PhSettled then (None, c)
      else case ctl_endpoint c of
        None \<Rightarrow> (None, c)
      | Some endpoint \<Rightarrow>
          (Some \<lparr>nc_endpoint = endpoint, nc_failure = ct_failure c\<rparr>,
           c\<lparr>ct_phase := PhIdle, ct_request := None, ct_progress_q16 := 0,
             ct_reverse_origin_q16 := 0, ct_failure := None\<rparr>))"

section \<open>Progress arithmetic: lemmas\<close>

lemma unat_max [simp]: "unat (max a b) = max (unat a) (unat b)"
  and unat_min [simp]: "unat (min a b) = min (unat a) (unat b)"
  for a b :: "'a::len word"
  by (simp_all add: max_def min_def word_le_nat_alt)

lemma unat_ucast_up16 [simp]: "unat (ucast (a :: u16) :: u64) = unat a"
  "unat (ucast (a :: u16) :: u32) = unat a"
  using unat_le_max [of a] by (simp_all add: unsigned_ucast_eq take_bit_nat_eq_self)

lemma unat_progress_max [simp]: "unat PROGRESS_MAX = 65535"
  by (simp add: PROGRESS_MAX_def)

lemma le_progress_max [simp]: "p \<le> PROGRESS_MAX"
  using unat_le_max [of p] by (simp add: word_le_nat_alt)

lemma unat_le_65535: "unat (p :: u16) \<le> 65535"
  using unat_le_max [of p] by simp

lemma unat_sat_mul64 [word_arith]: "unat (sat_mul64 a b) = min (unat a * unat b) (2 ^ 64 - 1)"
  by (simp add: sat_mul64_def unat_word_ariths unat_minus_1_word)

lemma unat_div_word [word_arith]: "unat (a div b) = unat a div unat b"
  for a b :: "'a::len word"
  by (fact unat_div)

lemma unat_ucast_small: "unat (w :: u64) < 65536 \<Longrightarrow> unat (ucast w :: u16) = unat w"
  by (simp add: unsigned_ucast_eq take_bit_nat_eq_self)

lemma div_le_bound: "x \<le> k * m \<Longrightarrow> 0 < k \<Longrightarrow> x div k \<le> (m :: nat)"
  by (metis div_le_mono nonzero_mult_div_cancel_left not_gr_zero)

lemma scale_bound: "min (min e d * m) (2 ^ 64 - 1) div max d 1 \<le> (m :: nat)"
proof -
  have "min e d * m \<le> max d 1 * m"
    by (rule mult_le_mono1) simp
  then have "min (min e d * m) (2 ^ 64 - 1) \<le> max d 1 * m"
    by (rule min.coboundedI1)
  then show ?thesis
    by (rule div_le_bound) simp
qed

lemma unat_scale_progress:
  "unat (scale_progress e d m) =
     min (min (unat e) (unat d) * unat m) (2 ^ 64 - 1) div max (unat d) 1"
proof -
  have "unat (sat_mul64 (min e d) (ucast m) div max d 1) \<le> unat m"
    using scale_bound [of "unat e" "unat d" "unat m"] by (simp add: word_arith)
  also have "unat m < 65536"
    using unat_le_65535 [of m] by simp
  finally show ?thesis
    unfolding scale_progress_def by (subst unat_ucast_small) (simp_all add: word_arith)
qed

lemma scale_progress_le: "unat (scale_progress e d m) \<le> unat m"
  unfolding unat_scale_progress by (rule scale_bound)

lemma scale_progress_mono: "e \<le> e' \<Longrightarrow> unat (scale_progress e d m) \<le> unat (scale_progress e' d m)"
  unfolding unat_scale_progress
  by (intro div_le_mono min.mono mult_le_mono1) (simp_all add: word_le_nat_alt)

lemma scale_progress_0 [simp]: "scale_progress 0 d m = 0"
  by (simp add: word_unat_eq_iff unat_scale_progress)

text \<open>Durations the arithmetic is exact for: a product with a \<open>u16\<close> does not saturate.\<close>

abbreviation moderate :: "u64 \<Rightarrow> bool" where
  "moderate d \<equiv> unat d < 2 ^ 47"

lemma moderate_product: "moderate d \<Longrightarrow> unat d * unat (p :: u16) < 2 ^ 64 - 1"
proof -
  assume "moderate d"
  then have "unat d * unat p \<le> (2 ^ 47 - 1) * 65535"
    using unat_le_65535 [of p] by (intro mult_le_mono) simp_all
  then show ?thesis by simp
qed

lemma max_one_word: "t \<noteq> 0 \<Longrightarrow> max t 1 = (t :: u64)"
  by (intro max_absorb1) (simp add: word_le_nat_alt Suc_le_eq unat_gt_0)

lemma scale_progress_full:
  assumes "moderate d" and "d \<noteq> 0" and "d \<le> e"
  shows "scale_progress e d m = m"
proof -
  have "min (unat e) (unat d) = unat d" "max (unat d) 1 = unat d"
    using assms(2,3) by (simp_all add: word_le_nat_alt max_absorb1 Suc_le_eq unat_gt_0)
  then show ?thesis
    using assms(2) moderate_product [OF assms(1), of m] by (simp add: word_unat_eq_iff unat_scale_progress)
qed

text \<open>\<open>forward_progress_q16_at_elapsed_with_cover\<close>\<close>

lemma cover_part_le:
  "unat (sat_mul64 t (ucast (p :: u16)) div ucast PROGRESS_MAX) \<le> unat t"
proof -
  have "min (unat t * unat p) (2 ^ 64 - 1) \<le> 65535 * unat t"
    using mult_le_mono [OF le_refl [of "unat t"] unat_le_65535 [of p]]
    by (intro min.coboundedI1) (simp add: mult.commute)
  then show ?thesis
    by (simp add: word_arith div_le_bound)
qed

lemma forward_progress_mono:
  assumes "e \<le> e'"
  shows "unat (forward_progress_q16_at_elapsed_with_cover t e p) \<le>
    unat (forward_progress_q16_at_elapsed_with_cover t e' p)"
proof -
  define total where "total = max t 1"
  define cu where "cu = sat_mul64 total (ucast p) div ucast PROGRESS_MAX"
  have le: "min e total \<le> min e' total"
    using assms by (simp add: word_le_nat_alt min_le_iff_disj)
  have sub: "sat_sub (min e total) cu \<le> sat_sub (min e' total) cu"
    using le by (simp add: word_le_nat_alt unat_sat_sub)
  have low: "unat (scale_progress x y p) \<le> unat (sat_add p z)" for x y z
    using scale_progress_le [of x y p] sat_add_mono [of p z] by (simp add: word_le_nat_alt)
  have high: "unat (sat_add p (scale_progress (sat_sub (min e total) cu) y (PROGRESS_MAX - p)))
      \<le> unat (sat_add p (scale_progress (sat_sub (min e' total) cu) y (PROGRESS_MAX - p)))" for y
    using scale_progress_mono [OF sub, of y "PROGRESS_MAX - p"] by (simp add: unat_sat_add)
  show ?thesis
    unfolding forward_progress_q16_at_elapsed_with_cover_def Let_def total_def [symmetric] cu_def [symmetric]
    using low high scale_progress_mono [OF le] le by (auto simp: word_le_nat_alt)
qed

lemma forward_progress_at_cover:
  assumes "moderate t" and "t \<noteq> 0" and "p = 0 \<or> 65535 \<le> unat t"
  defines "cu \<equiv> sat_mul64 t (ucast p) div ucast PROGRESS_MAX"
  shows "forward_progress_q16_at_elapsed_with_cover t cu p = p"
proof -
  have t: "max t 1 = t"
    using assms(2) by (rule max_one_word)
  have cu: "cu \<le> t"
    using cover_part_le [of t p] by (simp add: cu_def word_le_nat_alt)
  then have "forward_progress_q16_at_elapsed_with_cover t cu p = scale_progress cu (max cu 1) p"
    by (simp add: forward_progress_q16_at_elapsed_with_cover_def t cu_def [symmetric] Let_def min_def)
  also have "\<dots> = p"
  proof (cases "p = 0")
    case True
    then show ?thesis
      using scale_progress_le [of cu "max cu 1" p] by (simp add: word_unat_eq_iff)
  next
    case False
    have "65535 * 1 \<le> unat t * unat p"
      using assms(3) False by (intro mult_le_mono) (auto simp: unat_gt_0 Suc_le_eq)
    then have "0 < unat cu"
      using moderate_product [OF assms(1), of p] by (simp add: cu_def word_arith div_greater_zero_iff)
    then have "cu \<noteq> 0"
      by auto
    moreover from this have "max cu 1 = cu"
      by (rule max_one_word)
    moreover have "moderate cu"
      using cu assms(1) by (simp add: word_le_nat_alt)
    ultimately show ?thesis
      by (simp add: scale_progress_full)
  qed
  finally show ?thesis .
qed

lemma forward_progress_end:
  assumes "moderate t" and "t \<noteq> 0"
  shows "forward_progress_q16_at_elapsed_with_cover t t p = PROGRESS_MAX"
proof -
  define cu where "cu = sat_mul64 t (ucast p) div ucast PROGRESS_MAX"
  have t: "max t 1 = t"
    using assms(2) by (rule max_one_word)
  have cu: "cu \<le> t"
    using cover_part_le [of t p] by (simp add: cu_def word_le_nat_alt)
  have fp: "forward_progress_q16_at_elapsed_with_cover t t p =
      (if t \<le> cu then scale_progress t (max cu 1) p
       else sat_add p (scale_progress (sat_sub t cu) (max (sat_sub t cu) 1) (PROGRESS_MAX - p)))"
    by (simp only: forward_progress_q16_at_elapsed_with_cover_def Let_def t cu_def min.idem)
  have cu_val: "unat cu = unat t * unat p div 65535"
    using moderate_product [OF assms(1), of p] by (simp add: cu_def word_arith)
  show ?thesis
  proof (cases "t \<le> cu")
    case True
    with cu have eq: "cu = t" by simp
    then have "unat t * 65535 \<le> unat t * unat p"
      using cu_val by (metis div_times_less_eq_dividend)
    moreover have "0 < unat t"
      using assms(2) by (simp add: unat_gt_0)
    ultimately have "p = PROGRESS_MAX"
      using unat_le_65535 [of p] by (simp add: mult_le_cancel1 word_unat_eq_iff)
    then show ?thesis
      using fp eq t assms by (simp add: scale_progress_full)
  next
    case False
    define r where "r = sat_sub t cu"
    have "unat r = unat t - unat cu" "unat cu < unat t"
      using False by (simp_all add: r_def unat_sat_sub word_le_nat_alt)
    then have r: "r \<noteq> 0" "moderate r"
      using assms(1) by auto
    then have "scale_progress r (max r 1) (PROGRESS_MAX - p) = PROGRESS_MAX - p"
      by (simp add: max_one_word scale_progress_full)
    moreover have "unat (PROGRESS_MAX - p) = 65535 - unat p"
      by (simp add: unat_sub)
    then have "sat_add p (PROGRESS_MAX - p) = PROGRESS_MAX"
      using unat_le_65535 [of p] by (simp add: word_unat_eq_iff unat_sat_add)
    ultimately show ?thesis
      using fp False by (simp add: r_def)
  qed
qed


section \<open>The controller: lemmas\<close>

text \<open>
  Requests the launcher makes: durations from 0.1 s (the shortest override) up, no counter near the
  top of its type, and a cover point that fits its \<open>u16\<close>.
\<close>

definition reasonable :: "nav_request \<Rightarrow> bool" where
  "reasonable q \<longleftrightarrow> 65535 \<le> unat (nq_duration_us q) \<and> moderate (nq_duration_us q)"

lemma reasonable_total:
  assumes "reasonable q"
  shows "total_us q = nq_duration_us q" "moderate (total_us q)" "total_us q \<noteq> 0" "65535 \<le> unat (total_us q)"
proof -
  have "nq_duration_us q \<noteq> 0"
    using assms by (auto simp: reasonable_def)
  then show "total_us q = nq_duration_us q"
    by (simp add: total_us_def max_one_word)
  then show "moderate (total_us q)" "total_us q \<noteq> 0" "65535 \<le> unat (total_us q)"
    using assms \<open>nq_duration_us q \<noteq> 0\<close> by (simp_all add: reasonable_def)
qed

lemma cover_us_le: "unat (cover_us q) \<le> unat (total_us q)"
  using cover_part_le [of "total_us q" "forward_cover_progress q"]
  by (cases "nq_direction q") (simp_all add: cover_us_def Let_def unat_sat_sub)

lemma forward_cover_us:
  assumes "nq_direction q = Reverse"
  shows "sat_sub (total_us q) (cover_us q) =
    sat_mul64 (total_us q) (ucast (forward_cover_progress q)) div ucast PROGRESS_MAX"
  using assms cover_part_le [of "total_us q" "forward_cover_progress q"]
  by (simp add: cover_us_def Let_def word_unat_eq_iff unat_sat_sub)

lemma reverse_cover:
  "nq_direction q = Reverse \<Longrightarrow> sat_sub PROGRESS_MAX (forward_cover_progress q) = request_cover_progress_q16 q"
  using unat_le_65535 [of "request_cover_progress_q16 q"]
  by (simp add: forward_cover_progress_def word_unat_eq_iff unat_sat_sub)

text \<open>The progress of the three moving phases as functions of the time in the phase.\<close>

definition expand_progress :: "nav_request \<Rightarrow> u64 \<Rightarrow> u16" where
  "expand_progress q elapsed =
     (case nq_direction q of
        Forward \<Rightarrow> scale_progress elapsed (cover_us q) (request_cover_progress_q16 q)
      | Reverse \<Rightarrow> sat_sub PROGRESS_MAX
          (forward_progress_q16_at_elapsed_with_cover (total_us q)
             (sat_sub (total_us q) (min elapsed (cover_us q))) (forward_cover_progress q)))"

definition reveal_progress :: "nav_request \<Rightarrow> u64 \<Rightarrow> u16" where
  "reveal_progress q elapsed =
     (case nq_direction q of
        Forward \<Rightarrow> sat_add (request_cover_progress_q16 q)
          (scale_progress elapsed (reveal_us q) (PROGRESS_MAX - request_cover_progress_q16 q))
      | Reverse \<Rightarrow> sat_sub PROGRESS_MAX
          (forward_progress_q16_at_elapsed_with_cover (total_us q)
             (sat_sub (total_us q) (sat_add (cover_us q) (min elapsed (reveal_us q)))) (forward_cover_progress q)))"

lemma sat_sub_mono: "a \<le> b \<Longrightarrow> unat (sat_sub c b) \<le> unat (sat_sub c a)"
  for a b c :: "'a::len word"
  by (simp add: unat_sat_sub word_le_nat_alt)

lemma min_mono_word: "a \<le> b \<Longrightarrow> min a c \<le> min b (c :: 'a::len word)"
  by (simp add: word_le_nat_alt min_le_iff_disj)

lemma expand_progress_mono:
  assumes "e \<le> e'"
  shows "unat (expand_progress q e) \<le> unat (expand_progress q e')"
proof (cases "nq_direction q")
  case Forward
  then show ?thesis
    using scale_progress_mono [OF assms] by (simp add: expand_progress_def)
next
  case Reverse
  have "sat_sub (total_us q) (min e' (cover_us q)) \<le> sat_sub (total_us q) (min e (cover_us q))"
    using min_mono_word [OF assms] by (simp add: sat_sub_mono word_le_nat_alt [symmetric])
      (simp add: word_le_nat_alt sat_sub_mono)
  from forward_progress_mono [OF this, of "total_us q" "forward_cover_progress q"] Reverse show ?thesis
    by (simp add: expand_progress_def unat_sat_sub)
qed

lemma reveal_progress_mono:
  assumes "e \<le> e'"
  shows "unat (reveal_progress q e) \<le> unat (reveal_progress q e')"
proof (cases "nq_direction q")
  case Forward
  then show ?thesis
    using scale_progress_mono [OF assms, of "reveal_us q" "PROGRESS_MAX - request_cover_progress_q16 q"]
    by (simp add: reveal_progress_def unat_sat_add)
next
  case Reverse
  have "unat (min e (reveal_us q)) \<le> unat (min e' (reveal_us q))"
    using assms by (simp add: word_le_nat_alt min_le_iff_disj)
  then have "sat_sub (total_us q) (sat_add (cover_us q) (min e' (reveal_us q)))
      \<le> sat_sub (total_us q) (sat_add (cover_us q) (min e (reveal_us q)))"
    by (simp add: word_le_nat_alt unat_sat_sub unat_sat_add del: unat_min)
  from forward_progress_mono [OF this, of "total_us q" "forward_cover_progress q"] Reverse show ?thesis
    by (simp add: reveal_progress_def unat_sat_sub)
qed

lemma expand_progress_0:
  assumes "reasonable q"
  shows "expand_progress q 0 = 0"
  using reasonable_total [OF assms]
  by (cases "nq_direction q") (simp_all add: expand_progress_def forward_progress_end sat_sub_def word_le_nat_alt)

lemma cover_point:
  assumes "reasonable q" and "nq_direction q = Reverse"
  shows "forward_progress_q16_at_elapsed_with_cover (total_us q) (sat_sub (total_us q) (cover_us q))
    (forward_cover_progress q) = forward_cover_progress q"
  unfolding forward_cover_us [OF assms(2)]
  using reasonable_total [OF assms(1)] by (intro forward_progress_at_cover) simp_all

lemma expand_le_cover:
  assumes "reasonable q"
  shows "unat (expand_progress q e) \<le> unat (request_cover_progress_q16 q)"
proof (cases "nq_direction q")
  case Forward
  then show ?thesis
    by (simp add: expand_progress_def scale_progress_le)
next
  case Reverse
  have "sat_sub (total_us q) (cover_us q) \<le> sat_sub (total_us q) (min e (cover_us q))"
    by (simp add: word_le_nat_alt unat_sat_sub)
  from forward_progress_mono [OF this, of "total_us q" "forward_cover_progress q"]
  have "unat (forward_cover_progress q) \<le> unat (forward_progress_q16_at_elapsed_with_cover (total_us q)
      (sat_sub (total_us q) (min e (cover_us q))) (forward_cover_progress q))"
    by (simp add: cover_point [OF assms Reverse])
  then show ?thesis
    using Reverse reverse_cover [OF Reverse] unat_sat_sub [of PROGRESS_MAX "forward_cover_progress q"]
    by (simp add: expand_progress_def unat_sat_sub)
qed

lemma cover_le_reveal:
  assumes "reasonable q"
  shows "unat (request_cover_progress_q16 q) \<le> unat (reveal_progress q e)"
proof (cases "nq_direction q")
  case Forward
  then show ?thesis
    using sat_add_mono [of "request_cover_progress_q16 q"] by (simp add: reveal_progress_def word_le_nat_alt)
next
  case Reverse
  have "sat_sub (total_us q) (sat_add (cover_us q) (min e (reveal_us q))) \<le> sat_sub (total_us q) (cover_us q)"
    using sat_add_mono [of "cover_us q"] by (simp add: word_le_nat_alt unat_sat_sub diff_le_mono2)
  from forward_progress_mono [OF this, of "total_us q" "forward_cover_progress q"]
  have "unat (forward_progress_q16_at_elapsed_with_cover (total_us q) (sat_sub (total_us q)
      (sat_add (cover_us q) (min e (reveal_us q)))) (forward_cover_progress q)) \<le> unat (forward_cover_progress q)"
    by (simp add: cover_point [OF assms Reverse])
  then show ?thesis
    using Reverse reverse_cover [OF Reverse] unat_sat_sub [of PROGRESS_MAX "forward_cover_progress q"]
    by (simp add: reveal_progress_def unat_sat_sub)
qed

section \<open>Controller runs\<close>

text \<open>
  \<open>progress_at c now\<close>: at time \<open>now\<close> the recorded progress is not ahead of the phase's clock (not
  behind it when reversing). \<open>ctl_inv\<close>: a request is there exactly while the controller is active,
  and a failure is only recorded on the way back to, or at, the source.
\<close>

definition progress_at :: "controller \<Rightarrow> u64 \<Rightarrow> bool" where
  "progress_at c now \<longleftrightarrow>
     (case ct_request c of
        None \<Rightarrow> True
      | Some q \<Rightarrow> reasonable q \<and>
          (case ct_phase c of
             PhCapture \<Rightarrow> ct_progress_q16 c = 0
           | PhExpand \<Rightarrow> unat (ct_progress_q16 c) \<le> unat (expand_progress q (sat_sub now (ct_phase_started_us c)))
           | PhCovered \<Rightarrow> unat (ct_progress_q16 c) \<le> unat (request_cover_progress_q16 q)
           | PhReveal \<Rightarrow> unat (ct_progress_q16 c) \<le> unat (reveal_progress q (sat_sub now (ct_phase_started_us c)))
           | PhReversing \<Rightarrow> unat (ct_reverse_origin_q16 c) -
               unat (scale_progress (sat_sub now (ct_phase_started_us c)) (reverse_us c q) (ct_reverse_origin_q16 c))
               \<le> unat (ct_progress_q16 c)
           | _ \<Rightarrow> True))"

definition ctl_inv :: "controller \<Rightarrow> bool" where
  "ctl_inv c \<longleftrightarrow> (ct_phase c = PhIdle \<longleftrightarrow> ct_request c = None) \<and>
     (ct_failure c \<noteq> None \<longrightarrow> ct_phase c = PhReversing \<or> ct_phase c = PhSettled \<and> ct_progress_q16 c = 0) \<and>
     (ct_phase c = PhReversing \<longrightarrow> 0 < ct_reverse_origin_q16 c \<and> ct_progress_q16 c \<le> ct_reverse_origin_q16 c)"

datatype ctl_op =
  CtlBegin nav_request
| CtlCaptured u64
| CtlPrepared u64
| CtlTick bool
| CtlReverse
| CtlFail nav_failure
| CtlCancel bool
| CtlSettle
| CtlComplete

fun ctl_apply :: "controller \<Rightarrow> ctl_op \<Rightarrow> u64 \<Rightarrow> controller" where
  "ctl_apply c (CtlBegin q) now = snd (ctl_begin c q now)"
| "ctl_apply c (CtlCaptured us) now = snd (ctl_captured c now us)"
| "ctl_apply c (CtlPrepared us) now = note_destination_prepared c us"
| "ctl_apply c (CtlTick ready) now = snd (ctl_tick c now ready)"
| "ctl_apply c CtlReverse now = snd (ctl_request_reverse c now)"
| "ctl_apply c (CtlFail f) now = ctl_fail c f now"
| "ctl_apply c (CtlCancel ready) now = snd (ctl_cancel_for_exclusive_view c ready)"
| "ctl_apply c CtlSettle now = snd (ctl_settle_at_destination c)"
| "ctl_apply c CtlComplete now = snd (ctl_complete c)"

text \<open>Runs carry the time of their last operation.\<close>

fun ctl_step :: "controller \<times> u64 \<Rightarrow> ctl_op \<times> u64 \<Rightarrow> controller \<times> u64" where
  "ctl_step (c, t) (op, now) = (ctl_apply c op now, now)"

fun ctl_ok :: "controller \<times> u64 \<Rightarrow> ctl_op \<times> u64 \<Rightarrow> bool" where
  "ctl_ok (c, t) (op, now) = (t \<le> now \<and> (case op of CtlBegin q \<Rightarrow> reasonable q | _ \<Rightarrow> True))"

lemma sat_sub_later: "t \<le> now \<Longrightarrow> sat_sub t s \<le> sat_sub now s"
  for t :: u64
  by (simp add: word_le_nat_alt unat_sat_sub diff_le_mono)

lemma progress_at_later:
  assumes "progress_at c t" and "t \<le> now"
  shows "progress_at c now"
proof (cases "ct_request c")
  case (Some q)
  note later = sat_sub_later [OF assms(2), of "ct_phase_started_us c"]
  show ?thesis
    using assms(1) Some expand_progress_mono [OF later, of q] reveal_progress_mono [OF later, of q]
      scale_progress_mono [OF later, of "reverse_us c q" "ct_reverse_origin_q16 c"]
    by (auto simp: progress_at_def split: nav_phase.splits)
qed (simp add: progress_at_def)

lemma reversing_started:
  assumes "ct_request c = Some q" and "reasonable q" and "ctl_inv c"
  shows "progress_at (start_reversing (c\<lparr>ct_failure := f\<rparr>) now) now"
    and "ctl_inv (start_reversing (c\<lparr>ct_failure := f\<rparr>) now)"
  using assms by (auto simp: progress_at_def ctl_inv_def start_reversing_def word_neq_0_conv)

text \<open>One step of each stage of a tick.\<close>

lemma tick_expand_step:
  fixes ready :: bool
  assumes "ct_request c = Some q" and "ct_phase c = PhExpand" and "progress_at c now" and "ctl_inv c"
  defines "c1 \<equiv> tick_expand c q now ready"
  shows "unat (ct_progress_q16 c) \<le> unat (ct_progress_q16 c1) \<and> progress_at c1 now \<and> ctl_inv c1 \<and>
    ct_request c1 = Some q \<and> ct_phase c1 \<in> {PhExpand, PhCovered, PhReveal}"
proof -
  define e where "e = sat_sub now (ct_phase_started_us c)"
  have q: "reasonable q" and p: "unat (ct_progress_q16 c) \<le> unat (expand_progress q e)"
    using assms(1-3) by (simp_all add: progress_at_def e_def)
  have fail: "ct_failure c = None"
    using assms(2,4) by (auto simp: ctl_inv_def)
  have c1: "c1 = (if cover_us q \<le> e
      then c\<lparr>ct_progress_q16 := request_cover_progress_q16 q,
             ct_phase := (if ready then PhReveal else PhCovered),
             ct_covered_started_us := sat_add (ct_phase_started_us c) (cover_us q),
             ct_covered_observed_us := now,
             ct_phase_started_us := sat_add (ct_phase_started_us c) (cover_us q)\<rparr>
      else c\<lparr>ct_progress_q16 := expand_progress q e\<rparr>)"
    by (simp add: c1_def tick_expand_def Let_def e_def expand_progress_def)
  have "unat (ct_progress_q16 c) \<le> unat (request_cover_progress_q16 q)"
    using p expand_le_cover [OF q, of e] by simp
  then show ?thesis
    using p q fail assms(1,2) cover_le_reveal [OF q]
    by (simp add: c1 progress_at_def ctl_inv_def e_def [symmetric])
qed

lemma tick_covered_step:
  fixes ready :: bool
  assumes "ct_request c = Some q" and "ct_phase c = PhCovered" and "progress_at c now" and "ctl_inv c"
  defines "c1 \<equiv> tick_covered c q now ready"
  shows "ct_progress_q16 c1 = ct_progress_q16 c \<and> progress_at c1 now \<and> ctl_inv c1 \<and> ct_request c1 = Some q \<and>
    (ct_phase c1 \<in> {PhCovered, PhReveal, PhReversing} \<or> ct_phase c1 = PhSettled \<and> ct_progress_q16 c1 = 0)"
proof -
  have q: "reasonable q" and p: "unat (ct_progress_q16 c) \<le> unat (request_cover_progress_q16 q)"
    using assms(1-3) by (simp_all add: progress_at_def)
  have fail: "ct_failure c = None"
    using assms(2,4) by (auto simp: ctl_inv_def)
  have reveal: "unat (ct_progress_q16 c) \<le> unat (reveal_progress q e)" for e
    using p cover_le_reveal [OF q, of e] by simp
  consider "ready" | "\<not> ready" "c1 = c" | "\<not> ready" "c1 = start_reversing (c\<lparr>ct_failure := Some DestinationTimeout\<rparr>) now"
    by (cases ready; cases "nq_preparation_timeout_us q \<le> sat_sub now (ct_covered_started_us c)")
      (auto simp: c1_def tick_covered_def)
  then show ?thesis
  proof cases
    case 1
    then show ?thesis
      using reveal q fail assms(1,2)
      by (simp add: c1_def tick_covered_def progress_at_def ctl_inv_def Let_def)
  next
    case 2
    then show ?thesis
      using assms by simp
  next
    case 3
    then show ?thesis
      using reversing_started [OF assms(1) q assms(4), of "Some DestinationTimeout" now] assms(1)
      by (simp add: start_reversing_def)
  qed
qed

lemma tick_reveal_step:
  assumes "ct_request c = Some q" and "ct_phase c = PhReveal" and "progress_at c now" and "ctl_inv c"
  defines "c1 \<equiv> tick_reveal c q now"
  shows "unat (ct_progress_q16 c) \<le> unat (ct_progress_q16 c1) \<and> progress_at c1 now \<and> ctl_inv c1 \<and>
    ct_request c1 = Some q \<and> ct_phase c1 \<in> {PhReveal, PhSettled}"
proof -
  define e where "e = sat_sub now (ct_phase_started_us c)"
  have q: "reasonable q" and p: "unat (ct_progress_q16 c) \<le> unat (reveal_progress q e)"
    using assms(1-3) by (simp_all add: progress_at_def e_def)
  have fail: "ct_failure c = None"
    using assms(2,4) by (auto simp: ctl_inv_def)
  have "c1 = (if reveal_us q \<le> e then c\<lparr>ct_progress_q16 := PROGRESS_MAX, ct_phase := PhSettled\<rparr>
      else c\<lparr>ct_progress_q16 := reveal_progress q e\<rparr>)"
    by (simp add: c1_def tick_reveal_def Let_def e_def reveal_progress_def)
  then show ?thesis
    using p q fail assms(1,2) unat_le_65535 [of "ct_progress_q16 c"]
    by (simp add: progress_at_def ctl_inv_def e_def [symmetric])
qed

lemma tick_reversing_step:
  assumes "ct_request c = Some q" and "ct_phase c = PhReversing" and "progress_at c now" and "ctl_inv c"
  defines "c1 \<equiv> tick_reversing c q now"
  shows "unat (ct_progress_q16 c1) \<le> unat (ct_progress_q16 c) \<and> progress_at c1 now \<and> ctl_inv c1 \<and>
    ct_request c1 = Some q \<and> (ct_phase c1 = PhReversing \<or> ct_phase c1 = PhSettled \<and> ct_progress_q16 c1 = 0)"
proof -
  define e where "e = sat_sub now (ct_phase_started_us c)"
  define s where "s = scale_progress e (reverse_us c q) (ct_reverse_origin_q16 c)"
  have q: "reasonable q" and p: "unat (ct_reverse_origin_q16 c) - unat s \<le> unat (ct_progress_q16 c)"
    using assms(1-3) by (simp_all add: progress_at_def e_def s_def)
  have c1: "c1 = (if reverse_us c q \<le> e then c\<lparr>ct_progress_q16 := 0, ct_phase := PhSettled\<rparr>
      else c\<lparr>ct_progress_q16 := sat_sub (ct_reverse_origin_q16 c) s\<rparr>)"
    by (simp add: c1_def tick_reversing_def Let_def e_def s_def)
  have "reverse_us (c\<lparr>ct_progress_q16 := x\<rparr>) q = reverse_us c q" for x
    by (simp add: reverse_us_def)
  then show ?thesis
    using p q assms(1,2,4)
    by (simp add: c1 progress_at_def ctl_inv_def e_def [symmetric] s_def [symmetric] unat_sat_sub word_le_nat_alt)
qed


text \<open>A whole tick.\<close>

lemma tick_moves:
  assumes "ctl_tick c now ready = (f, c')" and "progress_at c now" and "ctl_inv c"
  shows "progress_at c' now \<and> ctl_inv c' \<and> f = (if ct_request c = None then frame_default else ctl_frame c') \<and>
    (ct_phase c \<noteq> PhReversing \<and> ct_phase c' \<noteq> PhReversing \<longrightarrow>
       unat (ct_progress_q16 c) \<le> unat (ct_progress_q16 c')) \<and>
    (ct_phase c = PhReversing \<longrightarrow> unat (ct_progress_q16 c') \<le> unat (ct_progress_q16 c))"
proof (cases "ct_request c")
  case None
  then show ?thesis
    using assms by (auto simp: ctl_tick_def)
next
  case (Some q)
  define c1 where "c1 = (if ct_phase c = PhExpand then tick_expand c q now ready else c)"
  define c2 where "c2 = (if ct_phase c1 = PhCovered then tick_covered c1 q now ready else c1)"
  have tick: "c' = (if ct_phase c2 = PhReveal then tick_reveal c2 q now
      else if ct_phase c2 = PhReversing then tick_reversing c2 q now else c2)" "f = ctl_frame c'"
    using assms(1) Some by (auto simp: ctl_tick_def Let_def c1_def [symmetric] c2_def [symmetric])
  have 1: "unat (ct_progress_q16 c) \<le> unat (ct_progress_q16 c1)" "progress_at c1 now" "ctl_inv c1" "ct_request c1 = Some q"
    "ct_phase c1 = ct_phase c \<or> ct_phase c = PhExpand \<and> ct_phase c1 \<in> {PhCovered, PhReveal}"
    using tick_expand_step [OF Some _ assms(2,3), of ready] Some assms(2,3) by (auto simp: c1_def)
  have 2: "ct_progress_q16 c2 = ct_progress_q16 c1" "progress_at c2 now" "ctl_inv c2" "ct_request c2 = Some q"
    "ct_phase c2 = ct_phase c1 \<or> ct_phase c1 = PhCovered \<and> (ct_phase c2 \<in> {PhReveal, PhReversing} \<or>
       ct_phase c2 = PhSettled)"
    using tick_covered_step [OF 1(4) _ 1(2,3), of ready] 1 by (auto simp: c2_def)
  consider "ct_phase c2 = PhReveal" "c' = tick_reveal c2 q now"
    | "ct_phase c2 = PhReversing" "c' = tick_reversing c2 q now"
    | "ct_phase c2 \<noteq> PhReveal" "ct_phase c2 \<noteq> PhReversing" "c' = c2"
    using tick(1) by (auto split: if_splits)
  then show ?thesis
  proof cases
    case 1
    then show ?thesis
      using tick_reveal_step [OF 2(4) 1(1) 2(2,3)] \<open>unat (ct_progress_q16 c) \<le> _\<close> 2(1,5)
        \<open>ct_phase c1 = ct_phase c \<or> _\<close> Some tick(2) by auto
  next
    case r: 2
    have step: "unat (ct_progress_q16 c') \<le> unat (ct_progress_q16 c2)" "progress_at c' now" "ctl_inv c'"
      "ct_phase c' = PhReversing \<or> ct_phase c' = PhSettled \<and> ct_progress_q16 c' = 0"
      using tick_reversing_step [OF 2(4) r(1) 2(2,3)] r(2) by simp_all
    show ?thesis
    proof (cases "ct_phase c = PhReversing")
      case True
      then have "c1 = c" "c2 = c"
        by (simp_all add: c1_def c2_def)
      then show ?thesis
        using step Some tick(2) True by simp
    next
      case False
      then have "c2 = start_reversing (c1\<lparr>ct_failure := Some DestinationTimeout\<rparr>) now"
        using r(1) 1(5) by (auto simp: c2_def tick_covered_def Let_def split: if_splits)
      then have "ct_phase_started_us c2 = now" "reverse_us c2 q \<noteq> 0"
        by (auto simp: start_reversing_def reverse_us_def max_1_neq_0)
      then have "ct_phase c' = PhReversing"
        using r by (simp add: tick_reversing_def Let_def)
      then show ?thesis
        using step Some tick(2) False by simp
    qed
  next
    case 3
    then show ?thesis
      using 1(1,5) 2 Some tick(2) by auto
  qed
qed


text \<open>The controller in time: the invariant of every run with non-decreasing times.\<close>

definition nav_inv :: "controller \<times> u64 \<Rightarrow> bool" where
  "nav_inv s \<longleftrightarrow> progress_at (fst s) (snd s) \<and> ctl_inv (fst s)"

lemma nav_inv_step:
  assumes "nav_inv s" and "ctl_ok s op"
  shows "nav_inv (ctl_step s op)"
proof -
  obtain c t x now where s: "s = (c, t)" and op: "op = (x, now)"
    by (cases s; cases op)
  have later: "progress_at c now" and inv: "ctl_inv c"
    using assms progress_at_later [of c t now] by (auto simp: s op nav_inv_def)
  have reversing: "progress_at (start_reversing (c\<lparr>ct_failure := f\<rparr>) now) now \<and>
      ctl_inv (start_reversing (c\<lparr>ct_failure := f\<rparr>) now)" if active: "ct_phase c \<noteq> PhIdle" for f
  proof -
    obtain q where q: "ct_request c = Some q"
      using active inv by (auto simp: ctl_inv_def)
    then have "reasonable q"
      using later by (simp add: progress_at_def)
    with reversing_started [OF q _ inv] show ?thesis by blast
  qed
  have same: "c\<lparr>ct_failure := ct_failure c\<rparr> = c"
    by simp
  have "progress_at (ctl_apply c x now) now \<and> ctl_inv (ctl_apply c x now)"
  proof (cases x)
    case (CtlBegin q)
    show ?thesis
    proof (cases "ctl_is_active c")
      case True
      then show ?thesis
        using later inv CtlBegin by (simp add: ctl_begin_def)
    next
      case False
      then show ?thesis
        using assms(2) CtlBegin by (simp add: s op ctl_begin_def progress_at_def ctl_inv_def)
    qed
  next
    case (CtlCaptured us)
    show ?thesis
    proof (cases "ct_phase c = PhCapture")
      case True
      then show ?thesis
        using later inv CtlCaptured by (auto simp: ctl_captured_def progress_at_def ctl_inv_def split: option.splits)
    next
      case False
      then show ?thesis
        using later inv CtlCaptured by (simp add: ctl_captured_def)
    qed
  next
    case (CtlPrepared us)
    then show ?thesis
      using later inv by (auto simp: note_destination_prepared_def progress_at_def ctl_inv_def reverse_us_def
          split: option.splits nav_phase.splits)
  next
    case (CtlTick ready)
    then show ?thesis
      using tick_moves [of c now ready] later inv by (cases "ctl_tick c now ready") simp
  next
    case CtlReverse
    show ?thesis
    proof (cases "ct_phase c \<in> {PhExpand, PhCovered, PhReveal}")
      case True
      then have "ct_phase c \<noteq> PhIdle" by auto
      from reversing [OF this, of "ct_failure c"] True show ?thesis
        using CtlReverse by (simp add: ctl_request_reverse_def)
    next
      case False
      then show ?thesis
        using later inv CtlReverse by (simp add: ctl_request_reverse_def)
    qed
  next
    case (CtlFail f)
    then show ?thesis
      using later inv reversing by (simp add: ctl_fail_def ctl_is_active_def)
  next
    case (CtlCancel ready)
    show ?thesis
    proof (cases "ctl_is_active c")
      case True
      then show ?thesis
        using later inv CtlCancel
        by (auto simp: ctl_cancel_for_exclusive_view_def ctl_is_active_def progress_at_def ctl_inv_def
          Let_def split: option.splits)
    next
      case False
      then show ?thesis
        using later inv CtlCancel by (simp add: ctl_cancel_for_exclusive_view_def)
    qed
  next
    case CtlSettle
    show ?thesis
    proof (cases "ctl_is_active c")
      case True
      then show ?thesis
        using later inv CtlSettle
        by (auto simp: ctl_settle_at_destination_def ctl_is_active_def progress_at_def ctl_inv_def split: option.splits)
    next
      case False
      then show ?thesis
        using later inv CtlSettle by (simp add: ctl_settle_at_destination_def)
    qed
  next
    case CtlComplete
    show ?thesis
    proof (cases "ct_phase c = PhSettled")
      case True
      then show ?thesis
        using CtlComplete by (simp add: ctl_complete_def ctl_endpoint_def progress_at_def ctl_inv_def)
    next
      case False
      then show ?thesis
        using later inv CtlComplete by (simp add: ctl_complete_def)
    qed
  qed
  then show ?thesis
    by (simp add: s op nav_inv_def)
qed

interpretation nav_clock: machine ctl_step ctl_ok nav_inv
  by unfold_locales (rule nav_inv_step)

lemma nav_inv_default: "nav_inv (controller_default, t)"
  by (simp add: nav_inv_def progress_at_def ctl_inv_def controller_default_def)

section \<open>Properties of the controller\<close>

text \<open>
  C34: Motion goes one way. In every run of the controller whose times do not go back (captures,
  ticks with the destination ready or not, reversals, failures, cancellations), a tick never moves
  the progress back unless the transition is or starts reversing, and a reversing transition never
  moves forward, whatever the direction and the renderer's cover point. (For durations from 65,535 to
  \<open>2 ^ 47\<close> microseconds, as every request of the repository has.)
\<close>

theorem tick_moves_one_way:
  assumes "run_allowed ctl_step ctl_ok (controller_default, t0) ops"
    and "run_steps ctl_step (controller_default, t0) ops = (c, t)" and "t \<le> now"
    and "ctl_tick c now ready = (f, c')"
  shows "(ct_phase c \<noteq> PhReversing \<and> ct_phase c' \<noteq> PhReversing \<longrightarrow> ct_progress_q16 c \<le> ct_progress_q16 c') \<and>
    (ct_phase c = PhReversing \<longrightarrow> ct_progress_q16 c' \<le> ct_progress_q16 c)"
proof -
  have "nav_inv (c, t)"
    using nav_clock.run_inv [OF nav_inv_default assms(1)] assms(2) by simp
  then show ?thesis
    using tick_moves [OF assms(4)] progress_at_later [OF _ assms(3)] by (simp add: nav_inv_def word_le_nat_alt)
qed

text \<open>
  A failed transition ends at its source. In every run, a completion that reports a failure
  reports the source as its endpoint; the navigation never commits to a destination that was not
  prepared.
\<close>

theorem failure_completes_at_source:
  assumes "run_allowed ctl_step ctl_ok (controller_default, t0) ops"
    and "run_steps ctl_step (controller_default, t0) ops = (c, t)"
    and "ctl_complete c = (Some done, c')" and "nc_failure done \<noteq> None"
  shows "nc_endpoint done = EndSource"
proof -
  have "nav_inv (c, t)"
    using nav_clock.run_inv [OF nav_inv_default assms(1)] assms(2) by simp
  then show ?thesis
    using assms(3,4) by (auto simp: nav_inv_def ctl_inv_def ctl_complete_def ctl_endpoint_def split: if_splits)
qed

lemma cover_us_less_total:
  "unat (sat_sub (total_us q) (cover_us q)) = unat (total_us q) - unat (cover_us q)"
  by (simp add: unat_sat_sub)

section \<open>Witnesses\<close>

text \<open>A settings page transition that is captured at time 0 and plays for its standard duration.\<close>

definition page_request :: nav_request where
  "page_request = request_settings_page Forward"

definition page_started :: "(ctl_op \<times> u64) list" where
  "page_started = [(CtlBegin page_request, 0), (CtlCaptured 5, 0), (CtlTick False, 1000)]"

lemmas page_defs = page_request_def request_settings_page_def request_new_def edge_duration_us_def
  NAVIGATION_TRANSITION_DURATION_US_def DEFAULT_PREPARATION_TIMEOUT_US_def total_us_def

lemma page_reasonable: "reasonable page_request"
  by (simp add: reasonable_def page_defs)

lemma page_allowed: "run_allowed ctl_step ctl_ok (controller_default, 0) page_started"
  using page_reasonable by (simp add: page_started_def)

lemma page_expands:
  "ct_phase (snd (ctl_captured (snd (ctl_begin controller_default page_request 0)) 0 5)) = PhExpand"
  "ct_request (snd (ctl_captured (snd (ctl_begin controller_default page_request 0)) 0 5)) = Some page_request"
  "ct_phase_started_us (snd (ctl_captured (snd (ctl_begin controller_default page_request 0)) 0 5)) = 0"
  by (simp_all add: ctl_captured_def ctl_begin_def controller_default_def ctl_is_active_def)

theorem tick_moves_one_way_witness:
  "\<exists>c c'. run_steps ctl_step (controller_default, 0) page_started = (c, 1000) \<and>
     c' = snd (ctl_tick c 2000 True) \<and> (ct_phase c = PhReversing \<or> ct_phase c' = PhReversing \<or>
     ct_progress_q16 c \<le> ct_progress_q16 c')"
proof -
  obtain c where run: "run_steps ctl_step (controller_default, 0) page_started = (c, 1000)"
    by (simp add: page_started_def)
  obtain f c' where "ctl_tick c 2000 True = (f, c')"
    by fastforce
  with tick_moves_one_way [OF page_allowed run _ this] run show ?thesis
    by auto
qed

theorem failure_completes_at_source_witness:
  "\<exists>c c' fin. run_steps ctl_step (controller_default, 0)
       [(CtlBegin page_request, 0), (CtlFail SnapshotSizeMismatch, 10)] = (c, 10) \<and>
     ctl_complete c = (Some fin, c') \<and> nc_failure fin = Some SnapshotSizeMismatch \<and>
     nc_endpoint fin = EndSource"
proof -
  let ?ops = "[(CtlBegin page_request, 0), (CtlFail SnapshotSizeMismatch, 10)]"
  have allowed: "run_allowed ctl_step ctl_ok (controller_default, 0) ?ops"
    using page_reasonable by simp
  obtain c where run: "run_steps ctl_step (controller_default, 0) ?ops = (c, 10)"
    by simp
  obtain c' fin where fin: "ctl_complete c = (Some fin, c')" "nc_failure fin = Some SnapshotSizeMismatch"
    using run by (auto simp: ctl_begin_def ctl_fail_def start_reversing_def controller_default_def
        ctl_is_active_def ctl_complete_def ctl_endpoint_def)
  from failure_completes_at_source [OF allowed run fin(1)] run fin show ?thesis
    by auto
qed

end
