(* ===== verification/Navigation_Schedule.thy ===== *)
theory Navigation_Schedule
  imports Navigation
begin

text \<open>
  When a navigation transition gets where: the controller of \<open>Navigation\<close> under runs of ticks, from the
  capture of its source over the cover point to the end. Each stretch is a predicate on the controller that
  holds the time the stretch began; a tick keeps it or moves to the next one.
\<close>

section \<open>The schedule of a transition\<close>

text \<open>Ticks one after the other, with their times, which do not go back, and the readiness they report.\<close>

definition ctl_ticks :: "controller \<Rightarrow> (u64 \<times> bool) list \<Rightarrow> controller" where
  "ctl_ticks c ticks = fold (\<lambda>(now_us, destination_ready) c. snd (ctl_tick c now_us destination_ready)) ticks c"

fun times_from :: "nat \<Rightarrow> (u64 \<times> bool) list \<Rightarrow> bool" where
  "times_from t [] \<longleftrightarrow> True"
| "times_from t ((now_us, ready) # ticks) \<longleftrightarrow> t \<le> unat now_us \<and> times_from (unat now_us) ticks"

text \<open>The four stretches of a transition: what the controller holds after a tick at time \<open>t\<close>.\<close>

definition expanding :: "nav_request \<Rightarrow> nav_failure option \<Rightarrow> nat \<Rightarrow> controller \<Rightarrow> bool" where
  "expanding q failure s c \<longleftrightarrow> ct_request c = Some q \<and> ct_failure c = failure \<and> ct_phase c = PhExpand \<and> unat (ct_phase_started_us c) = s"

definition waiting_covered :: "nav_request \<Rightarrow> nav_failure option \<Rightarrow> nat \<Rightarrow> nat \<Rightarrow> controller \<Rightarrow> bool" where
  "waiting_covered q failure a t c \<longleftrightarrow> ct_request c = Some q \<and> ct_failure c = failure \<and> ct_phase c = PhCovered \<and>
     unat (ct_covered_started_us c) = a \<and> a \<le> unat (ct_covered_observed_us c) \<and> unat (ct_covered_observed_us c) \<le> t"

definition revealing :: "nav_request \<Rightarrow> nav_failure option \<Rightarrow> nat \<Rightarrow> nat \<Rightarrow> controller \<Rightarrow> bool" where
  "revealing q failure b t c \<longleftrightarrow> ct_request c = Some q \<and> ct_failure c = failure \<and>
     (if t < b + unat (reveal_us q) then ct_phase c = PhReveal \<and> unat (ct_phase_started_us c) = b
      else ct_phase c = PhSettled \<and> ct_progress_q16 c = PROGRESS_MAX)"

definition going_back :: "nav_request \<Rightarrow> nat \<Rightarrow> nat \<Rightarrow> controller \<Rightarrow> bool" where
  "going_back q b t c \<longleftrightarrow> ct_request c = Some q \<and> ct_failure c = Some DestinationTimeout \<and>
     (ct_phase c = PhReversing \<and> unat (ct_phase_started_us c) = b \<and> t < b + unat (total_us q) \<or>
      ct_phase c = PhSettled \<and> ct_progress_q16 c = 0)"

lemma elapsed_ge: "d \<le> sat_sub now_us started \<longleftrightarrow> unat d \<le> unat now_us - unat started" for now_us started d :: u64
  by (simp add: word_le_nat_alt unat_sat_sub)

lemma covered_start:
  assumes "unat (started :: u64) + unat (d :: u64) \<le> unat (now_us :: u64)"
  shows "unat (sat_add started d) = unat started + unat d"
  using assms unat_le_max [of now_us] by (simp add: unat_sat_add)

lemma reveal_positive: "0 < unat (reveal_us q)" "unat (reveal_us q) \<le> unat (total_us q)"
proof -
  have "0 < unat (total_us q)"
    using max_one_word [of "nq_duration_us q"] by (simp add: total_us_def)
  then show "0 < unat (reveal_us q)" "unat (reveal_us q) \<le> unat (total_us q)"
    by (simp_all add: reveal_us_def cover_us_less_total)
qed

lemma reverse_us_le: "unat (reverse_us c q) \<le> unat (total_us q)"
proof -
  have "0 < unat (total_us q)"
    using max_one_word [of "nq_duration_us q"] by (simp add: total_us_def)
  moreover have "min (unat (total_us q) * unat (ct_reverse_origin_q16 c)) (2 ^ 64 - 1) div 65535 \<le> unat (total_us q)"
    using unat_le_65535 [of "ct_reverse_origin_q16 c"]
    by (intro div_le_bound min.coboundedI1) (simp_all add: mult.commute)
  ultimately show ?thesis
    by (simp add: reverse_us_def word_arith)
qed



text \<open>What a tick does on each stretch.\<close>

lemma ctl_tick_phases:
  assumes "ct_request c = Some q"
  shows "ct_phase c = PhSettled \<Longrightarrow> snd (ctl_tick c now_us ready) = c"
    "ct_phase c = PhReveal \<Longrightarrow> snd (ctl_tick c now_us ready) = tick_reveal c q now_us"
    "ct_phase c = PhReversing \<Longrightarrow> snd (ctl_tick c now_us ready) = tick_reversing c q now_us"
    "ct_phase c = PhCovered \<Longrightarrow> snd (ctl_tick c now_us ready) = (let c2 = tick_covered c q now_us ready
       in if ct_phase c2 = PhReveal then tick_reveal c2 q now_us else if ct_phase c2 = PhReversing then tick_reversing c2 q now_us else c2)"
    "ct_phase c = PhExpand \<Longrightarrow> snd (ctl_tick c now_us ready) = (let c1 = tick_expand c q now_us ready;
         c2 = if ct_phase c1 = PhCovered then tick_covered c1 q now_us ready else c1
       in if ct_phase c2 = PhReveal then tick_reveal c2 q now_us else if ct_phase c2 = PhReversing then tick_reversing c2 q now_us else c2)"
  using assms by (simp_all add: ctl_tick_def Let_def)

lemma tick_reveal_fields [simp]:
  "ct_request (tick_reveal c q now_us) = ct_request c" "ct_failure (tick_reveal c q now_us) = ct_failure c"
  "ct_phase (tick_reveal c q now_us) = (if reveal_us q \<le> sat_sub now_us (ct_phase_started_us c) then PhSettled else ct_phase c)"
  "ct_phase_started_us (tick_reveal c q now_us) = ct_phase_started_us c"
  "reveal_us q \<le> sat_sub now_us (ct_phase_started_us c) \<Longrightarrow> ct_progress_q16 (tick_reveal c q now_us) = PROGRESS_MAX"
  by (simp_all add: tick_reveal_def Let_def)

lemma tick_reversing_fields [simp]:
  "ct_request (tick_reversing c q now_us) = ct_request c" "ct_failure (tick_reversing c q now_us) = ct_failure c"
  "ct_phase (tick_reversing c q now_us) = (if reverse_us c q \<le> sat_sub now_us (ct_phase_started_us c) then PhSettled else ct_phase c)"
  "ct_phase_started_us (tick_reversing c q now_us) = ct_phase_started_us c"
  "reverse_us c q \<le> sat_sub now_us (ct_phase_started_us c) \<Longrightarrow> ct_progress_q16 (tick_reversing c q now_us) = 0"
  by (simp_all add: tick_reversing_def Let_def)

lemma tick_expand_fields [simp]:
  "ct_request (tick_expand c q now_us ready) = ct_request c" "ct_failure (tick_expand c q now_us ready) = ct_failure c"
  "\<not> cover_us q \<le> sat_sub now_us (ct_phase_started_us c) \<Longrightarrow> ct_phase (tick_expand c q now_us ready) = ct_phase c \<and>
     ct_phase_started_us (tick_expand c q now_us ready) = ct_phase_started_us c"
  "cover_us q \<le> sat_sub now_us (ct_phase_started_us c) \<Longrightarrow> ct_phase (tick_expand c q now_us ready) = (if ready then PhReveal else PhCovered) \<and>
     ct_phase_started_us (tick_expand c q now_us ready) = sat_add (ct_phase_started_us c) (cover_us q) \<and>
     ct_covered_started_us (tick_expand c q now_us ready) = sat_add (ct_phase_started_us c) (cover_us q) \<and>
     ct_covered_observed_us (tick_expand c q now_us ready) = now_us"
  by (simp_all add: tick_expand_def Let_def)

lemma reverse_positive: "0 < reverse_us c q"
  by (simp add: reverse_us_def less_max_iff_disj)

text \<open>A controller that turns back at \<open>now_us\<close>, before and after the tick that follows at once.\<close>

lemma turned_back:
  fixes c :: controller and now_us :: u64
  assumes "ct_request c = Some q"
  defines "c' \<equiv> start_reversing (c\<lparr>ct_failure := Some DestinationTimeout\<rparr>) now_us"
  shows "going_back q (unat now_us) (unat now_us) (if ct_phase c' = PhReversing then tick_reversing c' q now_us else c')"
    "ct_phase c' \<noteq> PhReveal"
proof -
  have "0 < unat (total_us q)"
    using max_one_word [of "nq_duration_us q"] by (simp add: total_us_def)
  moreover have "\<not> reverse_us c' q \<le> sat_sub now_us now_us"
    using reverse_positive [of c' q] by (auto simp: elapsed_ge)
  ultimately show "going_back q (unat now_us) (unat now_us) (if ct_phase c' = PhReversing then tick_reversing c' q now_us else c')"
    "ct_phase c' \<noteq> PhReveal"
    using assms(1) by (simp_all add: going_back_def c'_def start_reversing_def)
qed

lemma reveal_tick:
  assumes "revealing q failure b t c" "t \<le> unat now_us"
  shows "revealing q failure b (unat now_us) (snd (ctl_tick c now_us ready))"
proof (cases "t < b + unat (reveal_us q)")
  case True
  then have c: "ct_request c = Some q" "ct_failure c = failure" "ct_phase c = PhReveal" "unat (ct_phase_started_us c) = b"
    using assms(1) by (simp_all add: revealing_def)
  show ?thesis
    using c reveal_positive(1) [of q] by (simp add: ctl_tick_phases(2) [OF c(1,3)] revealing_def elapsed_ge) linarith
next
  case False
  then show ?thesis
    using assms by (simp add: revealing_def ctl_tick_phases(1))
qed

lemma back_tick:
  assumes "going_back q b t c" "t \<le> unat now_us"
  shows "going_back q b (unat now_us) (snd (ctl_tick c now_us ready))"
proof (cases "ct_phase c = PhReversing")
  case True
  then have c: "ct_request c = Some q" "unat (ct_phase_started_us c) = b" "ct_failure c = Some DestinationTimeout"
    using assms(1) by (simp_all add: going_back_def)
  show ?thesis
    using c True reverse_us_le [of c q] by (auto simp: ctl_tick_phases(3) [OF c(1) True] going_back_def elapsed_ge)
next
  case False
  then show ?thesis
    using assms by (auto simp: going_back_def ctl_tick_phases(1))
qed

lemma reveal_starts:
  assumes "ct_request c = Some q" "ct_failure c = failure" "ct_phase c = PhReveal" "unat (ct_phase_started_us c) = b"
  shows "revealing q failure b (unat now_us) (tick_reveal c q now_us)"
  using assms reveal_positive(1) [of q] by (simp add: revealing_def elapsed_ge) linarith

lemma covered_tick:
  assumes "waiting_covered q failure a t c" "t \<le> unat now_us"
  shows "\<not> ready \<Longrightarrow> unat now_us < a + unat (nq_preparation_timeout_us q) \<Longrightarrow> waiting_covered q failure a (unat now_us) (snd (ctl_tick c now_us ready))"
    "ready \<Longrightarrow> \<exists>b. b \<le> unat now_us \<and> revealing q failure b (unat now_us) (snd (ctl_tick c now_us ready))"
    "\<not> ready \<Longrightarrow> a + unat (nq_preparation_timeout_us q) \<le> unat now_us \<Longrightarrow> going_back q (unat now_us) (unat now_us) (snd (ctl_tick c now_us ready))"
proof -
  have c: "ct_request c = Some q" "ct_phase c = PhCovered" "ct_failure c = failure" "unat (ct_covered_started_us c) = a" "a \<le> unat now_us"
    using assms by (simp_all add: waiting_covered_def)
  note tick = ctl_tick_phases(4) [OF c(1,2), of now_us ready]
  show "waiting_covered q failure a (unat now_us) (snd (ctl_tick c now_us ready))"
    if "\<not> ready" "unat now_us < a + unat (nq_preparation_timeout_us q)"
  proof -
    have "\<not> unat (nq_preparation_timeout_us q) \<le> unat now_us - a"
      using that(2) c(5) by linarith
    then have "tick_covered c q now_us ready = c"
      using that(1) c(4) by (simp add: tick_covered_def elapsed_ge)
    then show ?thesis
      unfolding tick using assms c(2) by (simp add: waiting_covered_def)
  qed
  show "going_back q (unat now_us) (unat now_us) (snd (ctl_tick c now_us ready))"
    if "\<not> ready" "a + unat (nq_preparation_timeout_us q) \<le> unat now_us"
  proof -
    have "unat (nq_preparation_timeout_us q) \<le> unat now_us - a"
      using that(2) by linarith
    then have "tick_covered c q now_us ready = start_reversing (c\<lparr>ct_failure := Some DestinationTimeout\<rparr>) now_us"
      using that(1) c(4) by (simp add: tick_covered_def elapsed_ge)
    then show ?thesis
      unfolding tick using turned_back [OF c(1), of now_us] by (simp add: Let_def split: if_splits)
  qed
  show "\<exists>b. b \<le> unat now_us \<and> revealing q failure b (unat now_us) (snd (ctl_tick c now_us ready))" if ready
  proof -
    define c2 where "c2 = tick_covered c q now_us ready"
    have "ct_request c2 = Some q" "ct_failure c2 = failure" "ct_phase c2 = PhReveal" "unat (ct_phase_started_us c2) \<le> unat now_us"
      using c that by (auto simp: c2_def tick_covered_def Let_def)
    then show ?thesis
      unfolding tick c2_def [symmetric] using reveal_starts [of c2 q failure _ now_us] by (auto simp: Let_def)
  qed
qed

lemma expand_tick:
  assumes "expanding q failure s c" "s \<le> unat now_us"
  defines "a \<equiv> s + unat (cover_us q)"
  shows "unat now_us < a \<Longrightarrow> expanding q failure s (snd (ctl_tick c now_us ready))"
    "a \<le> unat now_us \<Longrightarrow> ready \<Longrightarrow> revealing q failure a (unat now_us) (snd (ctl_tick c now_us ready))"
    "a \<le> unat now_us \<Longrightarrow> \<not> ready \<Longrightarrow> unat now_us < a + unat (nq_preparation_timeout_us q) \<Longrightarrow>
       waiting_covered q failure a (unat now_us) (snd (ctl_tick c now_us ready))"
    "\<not> ready \<Longrightarrow> a + unat (nq_preparation_timeout_us q) \<le> unat now_us \<Longrightarrow>
       going_back q (unat now_us) (unat now_us) (snd (ctl_tick c now_us ready))"
proof -
  have c: "ct_request c = Some q" "ct_phase c = PhExpand" "ct_failure c = failure" "unat (ct_phase_started_us c) = s"
    using assms(1) by (simp_all add: expanding_def)
  define c1 where "c1 = tick_expand c q now_us ready"
  note tick = ctl_tick_phases(5) [OF c(1,2), of now_us ready, folded c1_def]
  have before: "ct_phase c1 = PhExpand" "unat (ct_phase_started_us c1) = s" if "unat now_us < a"
    using that assms(2) c by (simp_all add: c1_def elapsed_ge a_def)
  have c1: "ct_request c1 = Some q" "ct_failure c1 = failure"
    using c by (simp_all add: c1_def)
  have after: "ct_phase c1 = (if ready then PhReveal else PhCovered)" "unat (ct_phase_started_us c1) = a"
    "unat (ct_covered_started_us c1) = a" "ct_covered_observed_us c1 = now_us" if "a \<le> unat now_us"
    using that c covered_start [of "ct_phase_started_us c" "cover_us q" now_us] by (simp_all add: c1_def elapsed_ge a_def)
  show "unat now_us < a \<Longrightarrow> expanding q failure s (snd (ctl_tick c now_us ready))"
    unfolding tick using before c1 by (simp add: Let_def expanding_def)
  show "a \<le> unat now_us \<Longrightarrow> ready \<Longrightarrow> revealing q failure a (unat now_us) (snd (ctl_tick c now_us ready))"
    unfolding tick using after c1 reveal_starts [of c1 q failure a now_us] by (simp add: Let_def)
  show "waiting_covered q failure a (unat now_us) (snd (ctl_tick c now_us ready))"
    if "a \<le> unat now_us" "\<not> ready" "unat now_us < a + unat (nq_preparation_timeout_us q)"
  proof -
    have "\<not> unat (nq_preparation_timeout_us q) \<le> unat now_us - a"
      using that(1,3) by linarith
    then have "tick_covered c1 q now_us ready = c1"
      using that(1,2) after by (simp add: tick_covered_def elapsed_ge)
    then show ?thesis
      unfolding tick using after [OF that(1)] that(1,2) c1 by (simp add: waiting_covered_def)
  qed
  show "going_back q (unat now_us) (unat now_us) (snd (ctl_tick c now_us ready))"
    if "\<not> ready" "a + unat (nq_preparation_timeout_us q) \<le> unat now_us"
  proof -
    have a: "a \<le> unat now_us" "unat (nq_preparation_timeout_us q) \<le> unat now_us - a"
      using that(2) by linarith+
    then have "tick_covered c1 q now_us ready = start_reversing (c1\<lparr>ct_failure := Some DestinationTimeout\<rparr>) now_us"
      using that(1) after by (simp add: tick_covered_def elapsed_ge)
    then show ?thesis
      unfolding tick using after [OF a(1)] that(1) turned_back [OF c1(1), of now_us] by (simp add: Let_def split: if_splits)
  qed
qed


text \<open>A run of ticks on one stretch, and up to the tick that decides.\<close>

lemma ctl_ticks_Nil [simp]: "ctl_ticks c [] = c"
  by (simp add: ctl_ticks_def)

lemma ctl_ticks_Cons [simp]: "ctl_ticks c ((now_us, ready) # ticks) = ctl_ticks (snd (ctl_tick c now_us ready)) ticks"
  by (simp add: ctl_ticks_def)

lemma ctl_ticks_append: "ctl_ticks c (ticks @ ticks2) = ctl_ticks (ctl_ticks c ticks) ticks2"
  by (simp add: ctl_ticks_def)

definition last_time :: "nat \<Rightarrow> (u64 \<times> bool) list \<Rightarrow> nat" where
  "last_time t ticks = (if ticks = [] then t else unat (fst (last ticks)))"

lemma last_time_Cons [simp]: "last_time t ((now_us, ready) # ticks) = last_time (unat now_us) ticks"
  by (simp add: last_time_def)

lemma times_from_append: "times_from t (ticks @ ticks2) \<longleftrightarrow> times_from t ticks \<and> times_from (last_time t ticks) ticks2"
  by (induction t ticks rule: times_from.induct) (simp_all add: last_time_def)

lemma times_from_le: "times_from t ticks \<Longrightarrow> t \<le> last_time t ticks"
  by (induction t ticks rule: times_from.induct) (auto simp: last_time_def [of _ "[]"])

lemma reveal_ticks: "revealing q failure b t c \<Longrightarrow> times_from t ticks \<Longrightarrow> revealing q failure b (last_time t ticks) (ctl_ticks c ticks)"
proof (induction t ticks arbitrary: c rule: times_from.induct)
  case (2 t now_us ready ticks)
  then show ?case
    using reveal_tick [of q failure b t c now_us ready] by simp
qed (simp add: last_time_def)

lemma back_ticks: "going_back q b t c \<Longrightarrow> times_from t ticks \<Longrightarrow> going_back q b (last_time t ticks) (ctl_ticks c ticks)"
proof (induction t ticks arbitrary: c rule: times_from.induct)
  case (2 t now_us ready ticks)
  then show ?case
    using back_tick [of q b t c now_us ready] by simp
qed (simp add: last_time_def)

lemma find_split: "find P xs = Some x \<Longrightarrow> \<exists>pre post. xs = pre @ x # post \<and> (\<forall>y \<in> set pre. \<not> P y) \<and> P x"
proof (induction xs)
  case (Cons a xs)
  show ?case
  proof (cases "P a")
    case True
    then show ?thesis
      using Cons.prems by (intro exI [of _ "[]"] exI [of _ xs]) simp
  next
    case False
    then obtain pre post where "xs = pre @ x # post" "\<forall>y \<in> set pre. \<not> P y" "P x"
      using Cons by auto
    then show ?thesis
      using False by (intro exI [of _ "a # pre"] exI [of _ post]) simp
  qed
qed simp

text \<open>The tick that decides where a transition goes: covered, and ready or out of time.\<close>

definition decides :: "nav_request \<Rightarrow> nat \<Rightarrow> u64 \<times> bool \<Rightarrow> bool" where
  "decides q s tick \<longleftrightarrow> s + unat (cover_us q) \<le> unat (fst tick) \<and>
     (snd tick \<or> s + unat (cover_us q) + unat (nq_preparation_timeout_us q) \<le> unat (fst tick))"

lemma covered_undecided:
  "waiting_covered q failure (s + unat (cover_us q)) t c \<Longrightarrow> times_from t ticks \<Longrightarrow> \<forall>tick \<in> set ticks. \<not> decides q s tick \<Longrightarrow>
     waiting_covered q failure (s + unat (cover_us q)) (last_time t ticks) (ctl_ticks c ticks)"
proof (induction t ticks arbitrary: c rule: times_from.induct)
  case (2 t now_us ready ticks)
  have "s + unat (cover_us q) \<le> unat now_us"
    using "2.prems"(1,2) by (auto simp: waiting_covered_def)
  then have "\<not> ready" "unat now_us < s + unat (cover_us q) + unat (nq_preparation_timeout_us q)"
    using "2.prems"(3) by (auto simp: decides_def)
  then show ?case
    using "2.IH" [of "snd (ctl_tick c now_us ready)"] "2.prems" covered_tick(1) [OF "2.prems"(1), of now_us ready] by simp
qed (simp add: last_time_def)

lemma expand_undecided:
  "expanding q failure s c \<Longrightarrow> s \<le> t \<Longrightarrow> times_from t ticks \<Longrightarrow> \<forall>tick \<in> set ticks. \<not> decides q s tick \<Longrightarrow>
     expanding q failure s (ctl_ticks c ticks) \<or>
     waiting_covered q failure (s + unat (cover_us q)) (last_time t ticks) (ctl_ticks c ticks)"
proof (induction t ticks arbitrary: c rule: times_from.induct)
  case (2 t now_us ready ticks)
  note tick = expand_tick [OF "2.prems"(1), of now_us ready]
  show ?case
  proof (cases "unat now_us < s + unat (cover_us q)")
    case True
    then show ?thesis
      using "2.IH" [of "snd (ctl_tick c now_us ready)"] "2.prems" tick(1) by simp
  next
    case False
    then have "\<not> ready" "unat now_us < s + unat (cover_us q) + unat (nq_preparation_timeout_us q)"
      using "2.prems"(4) by (auto simp: decides_def)
    then have "waiting_covered q failure (s + unat (cover_us q)) (unat now_us) (snd (ctl_tick c now_us ready))"
      using False "2.prems"(2,3) tick(3) by simp
    then show ?thesis
      using covered_undecided "2.prems"(3,4) by simp
  qed
qed simp

lemma decided_tick:
  assumes "expanding q failure s c \<or> waiting_covered q failure (s + unat (cover_us q)) t c" "s \<le> t" "t \<le> unat now_us"
    and "decides q s (now_us, ready)"
  shows "if ready then \<exists>b. b \<le> unat now_us \<and> revealing q failure b (unat now_us) (snd (ctl_tick c now_us ready))
    else going_back q (unat now_us) (unat now_us) (snd (ctl_tick c now_us ready))"
  using assms(1)
proof
  assume "expanding q failure s c"
  note tick = expand_tick [OF this, of now_us ready]
  show ?thesis
    using tick(2,4) assms(2-4) by (auto simp: decides_def)
next
  assume covered: "waiting_covered q failure (s + unat (cover_us q)) t c"
  show ?thesis
    using covered_tick(2,3) [OF covered assms(3), of ready] assms(4) by (auto simp: decides_def)
qed

lemma ready_schedule:
  assumes "ct_request c = Some q" "ct_phase c = PhExpand" "ticks \<noteq> []" "times_from (unat (ct_phase_started_us c)) ticks"
    and "\<forall>(now_us, ready) \<in> set ticks. unat (ct_phase_started_us c) + unat (cover_us q) \<le> unat now_us \<longrightarrow> ready"
  defines "c' \<equiv> ctl_ticks c ticks" and "elapsed \<equiv> unat (fst (last ticks)) - unat (ct_phase_started_us c)"
  shows "ct_phase c' = (if elapsed < unat (cover_us q) then PhExpand
      else if elapsed < max (unat (total_us q)) (unat (cover_us q) + 1) then PhReveal else PhSettled) \<and>
    ct_failure c' = ct_failure c \<and>
    (ct_phase c' = PhSettled \<longrightarrow> ct_progress_q16 c' = PROGRESS_MAX \<and> nf_endpoint (ctl_frame c') = Some EndDestination)"
proof -
  define s a where "s = unat (ct_phase_started_us c)" and "a = s + unat (cover_us q)"
  have schedule: "if last_time t ticks < a then expanding q (ct_failure c) s (ctl_ticks d ticks) \<and> s \<le> last_time t ticks
      else revealing q (ct_failure c) a (last_time t ticks) (ctl_ticks d ticks)"
    if "expanding q (ct_failure c) s d" "s \<le> t" "times_from t ticks" "ticks \<noteq> []" "\<forall>(now_us, ready) \<in> set ticks. a \<le> unat now_us \<longrightarrow> ready"
    for t d and ticks :: "(u64 \<times> bool) list"
    using that
  proof (induction t ticks arbitrary: d rule: times_from.induct)
    case (2 t now_us ready ticks)
    note tick = expand_tick [OF "2.prems"(1), of now_us ready, folded a_def]
    show ?case
    proof (cases "unat now_us < a")
      case True
      then have "expanding q (ct_failure c) s (snd (ctl_tick d now_us ready))" "s \<le> unat now_us"
        using "2.prems" tick(1) by simp_all
      then show ?thesis
        using True "2.IH" [of "snd (ctl_tick d now_us ready)"] "2.prems" by (cases "ticks = []") (simp add: last_time_def, simp)
    next
      case False
      then have "revealing q (ct_failure c) a (unat now_us) (snd (ctl_tick d now_us ready))"
        using "2.prems" tick(2) by simp
      moreover have "a \<le> last_time (unat now_us) ticks"
        using False times_from_le [of "unat now_us" ticks] "2.prems"(3) by simp
      ultimately show ?thesis
        using reveal_ticks "2.prems"(3) by simp
    qed
  qed simp
  have "max (unat (total_us q)) (unat (cover_us q) + 1) = unat (cover_us q) + unat (reveal_us q)"
    using cover_us_le [of q] by (simp add: reveal_us_def cover_us_less_total)
  moreover have "last_time s ticks = unat (fst (last ticks))"
    using assms(3) by (simp add: last_time_def)
  moreover have "s \<le> unat (fst (last ticks))"
    using times_from_le [of s ticks] assms(4) calculation(2) by (simp add: s_def)
  ultimately show ?thesis
    using schedule [of c s ticks] assms(1-5)
    by (auto simp: expanding_def revealing_def elapsed_def c'_def s_def a_def ctl_frame_def ctl_endpoint_def Let_def PROGRESS_MAX_def
        split: if_splits)
qed

text \<open>
  C19: A transition whose destination is ready keeps to its schedule. Take the controller when its source has
  been captured, and any ticks, at times that do not go back, that report the destination ready from the cover
  point on. After them the controller expands exactly if the last tick lies before the cover point, reveals
  exactly if it lies between the cover point and the end, and is settled exactly if the end has come, at the
  destination with full progress and without a new failure: dropped and repeated ticks move nothing. The
  end is the request's duration after the capture (a microsecond after the cover point if that is the end).
\<close>

theorem ready_transition_keeps_its_schedule:
  assumes "ct_request c = Some q" "ct_phase c = PhExpand" "ticks \<noteq> []" "times_from (unat (ct_phase_started_us c)) ticks"
    and "\<forall>(now_us, ready) \<in> set ticks. unat (ct_phase_started_us c) + unat (cover_us q) \<le> unat now_us \<longrightarrow> ready"
  defines "c' \<equiv> ctl_ticks c ticks" and "elapsed \<equiv> unat (fst (last ticks)) - unat (ct_phase_started_us c)"
  shows "ct_phase c' = (if elapsed < unat (cover_us q) then PhExpand
      else if elapsed < max (unat (total_us q)) (unat (cover_us q) + 1) then PhReveal else PhSettled) \<and>
    ct_failure c' = ct_failure c \<and>
    (ct_phase c' = PhSettled \<longrightarrow> ct_progress_q16 c' = PROGRESS_MAX \<and> nf_endpoint (ctl_frame c') = Some EndDestination)"
  using assms(1-5) unfolding c'_def elapsed_def by (rule ready_schedule)

text \<open>
  C20: A destination that is late, or never gets ready, cannot hang the transition, and decides where it ends.
  Take the controller when its source has been captured, and any ticks at times that do not go back. The first
  tick after the cover point that reports the destination ready, or comes after the preparation timeout,
  decides: any tick a duration later finds the transition settled, at the destination if it was ready, and at
  the source with the failure \<open>DestinationTimeout\<close> if it was not, whatever the other ticks report.
\<close>

theorem undecided_transition_ends:
  assumes "ct_request c = Some q" "ct_phase c = PhExpand" "times_from (unat (ct_phase_started_us c)) ticks"
    and "find (decides q (unat (ct_phase_started_us c))) ticks = Some (decided_us, ready)"
    and "unat decided_us + unat (total_us q) \<le> unat (fst (last ticks))"
  shows "ct_phase (ctl_ticks c ticks) = PhSettled \<and>
    nf_endpoint (ctl_frame (ctl_ticks c ticks)) = Some (if ready then EndDestination else EndSource) \<and>
    ct_failure (ctl_ticks c ticks) = (if ready then ct_failure c else Some DestinationTimeout)"
proof -
  define s where "s = unat (ct_phase_started_us c)"
  obtain pre post where ticks: "ticks = pre @ (decided_us, ready) # post" "\<forall>tick \<in> set pre. \<not> decides q s tick" "decides q s (decided_us, ready)"
    using find_split [OF assms(4)] unfolding s_def [symmetric] by blast
  define d where "d = ctl_ticks c pre"
  have times: "times_from s pre" "last_time s pre \<le> unat decided_us" "times_from (unat decided_us) post"
    using assms(3) by (simp_all add: ticks(1) s_def times_from_append)
  have "expanding q (ct_failure c) s c"
    using assms(1,2) by (simp add: expanding_def s_def)
  then have "expanding q (ct_failure c) s d \<or> waiting_covered q (ct_failure c) (s + unat (cover_us q)) (last_time s pre) d"
    using expand_undecided times(1) ticks(2) by (simp add: d_def)
  note after = decided_tick [OF this times_from_le [OF times(1)] times(2) ticks(3)]
  have "last_time (unat decided_us) post = unat (fst (last ticks))"
    by (simp add: ticks(1) last_time_def)
  moreover have "ctl_ticks c ticks = ctl_ticks (snd (ctl_tick d decided_us ready)) post"
    by (simp add: ticks(1) ctl_ticks_append d_def)
  ultimately have "if ready then \<exists>b. b \<le> unat decided_us \<and> revealing q (ct_failure c) b (unat (fst (last ticks))) (ctl_ticks c ticks)
      else going_back q (unat decided_us) (unat (fst (last ticks))) (ctl_ticks c ticks)"
    using after reveal_ticks [OF _ times(3)] back_ticks [OF _ times(3)] by (metis (full_types))
  then show ?thesis
    using assms(5) reveal_positive(2) [of q]
    by (auto simp: revealing_def going_back_def ctl_frame_def ctl_endpoint_def Let_def PROGRESS_MAX_def split: if_splits)
qed

section \<open>Witnesses\<close>

definition captured_page :: controller where
  "captured_page = snd (ctl_captured (snd (ctl_begin controller_default page_request 0)) 0 5)"

lemma captured_page_expands:
  "ct_request captured_page = Some page_request" "ct_phase captured_page = PhExpand" "ct_phase_started_us captured_page = 0"
  unfolding captured_page_def by (rule page_expands)+

lemma page_times: "unat (cover_us page_request) \<le> unat (total_us page_request)" "unat (total_us page_request) \<le> 1000000"
  "unat (nq_preparation_timeout_us page_request) \<le> 5000000" "1000 < unat (nq_preparation_timeout_us page_request)"
  by (rule cover_us_le) (simp_all add: page_defs)

theorem ready_transition_keeps_its_schedule_witness:
  "ct_phase (ctl_ticks captured_page [(1000, True), (2000000, True)]) = PhSettled \<and>
   nf_endpoint (ctl_frame (ctl_ticks captured_page [(1000, True), (2000000, True)])) = Some EndDestination"
proof -
  have "times_from (unat (ct_phase_started_us captured_page)) [(1000, True), (2000000, True)]"
    by (simp add: captured_page_expands)
  then show ?thesis
    using ready_transition_keeps_its_schedule [OF captured_page_expands(1,2), of "[(1000, True), (2000000, True)]"] page_times(1,2)
    by (simp add: captured_page_expands(3))
qed

theorem undecided_transition_ends_witness:
  "nf_endpoint (ctl_frame (ctl_ticks captured_page [(1000, False), (10000000, False), (20000000, True)])) = Some EndSource \<and>
   ct_failure (ctl_ticks captured_page [(1000, False), (10000000, False), (20000000, True)]) = Some DestinationTimeout"
proof -
  let ?ticks = "[(1000, False), (10000000, False), (20000000, True)] :: (u64 \<times> bool) list"
  have times: "times_from (unat (ct_phase_started_us captured_page)) ?ticks"
    by (simp add: captured_page_expands)
  have decided: "find (decides page_request (unat (ct_phase_started_us captured_page))) ?ticks = Some (10000000, False)"
    using page_times by (simp add: captured_page_expands decides_def)
  have late: "unat (10000000 :: u64) + unat (total_us page_request) \<le> unat (fst (last ?ticks))"
    using page_times(2) by simp
  show ?thesis
    using undecided_transition_ends [OF captured_page_expands(1,2) times decided late] by simp
qed

end
