(* ===== verification/Navigation_Runtime.thy ===== *)
theory Navigation_Runtime
  imports Navigation_Schedule
begin

text \<open>
  \<open>NavigationTransitionRuntime\<close> of \<open>apps/mister/src/launcher_runtime/navigation_transition.rs\<close>, the
  snapshot buffers it captures into (\<open>NavigationTransitionBuffers\<close>), the routes, and the start
  descriptions of \<open>transition_spec.rs\<close>. A transition either starts its clock at once or waits for
  its destination (a deferred request); it may be composed in a physical raster, which is given
  back when it completes. Instants of the monotonic clock are nanoseconds; the pixel renderers and
  the artwork buffers are not modelled.
\<close>

section \<open>Routes\<close>

datatype screen =
  ScreenHome | ScreenController | ScreenArcade | ScreenSettings | ScreenAbout | ScreenLicenses
| ScreenLicenseText

datatype nav_route =
  RouteHomeToConsoles | RouteHomeToArcade | RouteConsolesToSystem | RouteSystemPanel
| RouteHomeToSettings | RouteSettingsToAbout | RouteAboutToLicenses | RouteLicensesToLicenseText
| RouteNestedToHome

fun uses_segmented_settings_motion :: "nav_route \<Rightarrow> bool" where
  "uses_segmented_settings_motion RouteSettingsToAbout = True"
| "uses_segmented_settings_motion RouteAboutToLicenses = True"
| "uses_segmented_settings_motion RouteLicensesToLicenseText = True"
| "uses_segmented_settings_motion _ = False"

fun from_super_scaler_edge :: "nav_edge \<Rightarrow> nav_route" where
  "from_super_scaler_edge EdgeHomeToConsoles = RouteHomeToConsoles"
| "from_super_scaler_edge EdgeHomeToArcade = RouteHomeToArcade"
| "from_super_scaler_edge EdgeConsolesToSystem = RouteConsolesToSystem"
| "from_super_scaler_edge EdgeSystemPanel = RouteSystemPanel"

fun route_label :: "nav_route \<Rightarrow> string" where
  "route_label RouteHomeToConsoles = ''home-consoles''"
| "route_label RouteHomeToArcade = ''home-arcade''"
| "route_label RouteConsolesToSystem = ''consoles-system''"
| "route_label RouteSystemPanel = ''system-panel''"
| "route_label RouteHomeToSettings = ''home-settings''"
| "route_label RouteSettingsToAbout = ''settings-about''"
| "route_label RouteAboutToLicenses = ''about-licenses''"
| "route_label RouteLicensesToLicenseText = ''licenses-license-text''"
| "route_label RouteNestedToHome = ''nested-home''"

fun is_settings_page :: "nav_route \<Rightarrow> bool" where
  "is_settings_page RouteHomeToSettings = True"
| "is_settings_page RouteSettingsToAbout = True"
| "is_settings_page RouteAboutToLicenses = True"
| "is_settings_page RouteLicensesToLicenseText = True"
| "is_settings_page RouteNestedToHome = True"
| "is_settings_page _ = False"

fun settings_page_depth :: "screen \<Rightarrow> nat option" where
  "settings_page_depth ScreenHome = Some 0"
| "settings_page_depth ScreenSettings = Some 1"
| "settings_page_depth ScreenAbout = Some 2"
| "settings_page_depth ScreenLicenses = Some 3"
| "settings_page_depth ScreenLicenseText = Some 4"
| "settings_page_depth ScreenController = None"
| "settings_page_depth ScreenArcade = None"

fun settings_page_route :: "screen \<Rightarrow> screen \<Rightarrow> nav_route option" where
  "settings_page_route ScreenHome ScreenSettings = Some RouteHomeToSettings"
| "settings_page_route ScreenSettings ScreenHome = Some RouteHomeToSettings"
| "settings_page_route ScreenSettings ScreenAbout = Some RouteSettingsToAbout"
| "settings_page_route ScreenAbout ScreenSettings = Some RouteSettingsToAbout"
| "settings_page_route ScreenAbout ScreenLicenses = Some RouteAboutToLicenses"
| "settings_page_route ScreenLicenses ScreenAbout = Some RouteAboutToLicenses"
| "settings_page_route ScreenLicenses ScreenLicenseText = Some RouteLicensesToLicenseText"
| "settings_page_route ScreenLicenseText ScreenLicenses = Some RouteLicensesToLicenseText"
| "settings_page_route source destination =
     (if destination = ScreenHome \<and> source \<noteq> ScreenHome then Some RouteNestedToHome else None)"

definition settings_page_transition :: "screen \<Rightarrow> screen \<Rightarrow> (nav_route \<times> nav_direction) option" where
  "settings_page_transition source destination =
     (case (settings_page_depth source, settings_page_depth destination) of
        (Some from_depth, Some to_depth) \<Rightarrow>
          map_option (\<lambda>route. (route, if from_depth < to_depth then Forward else Reverse))
            (settings_page_route source destination)
      | _ \<Rightarrow> None)"

section \<open>Snapshot buffers\<close>

text \<open>
  The three equally sized pixel buffers with their ready flags. The copy-on-write handle of the Rust
  code (\<open>Arc\<close>) shares a snapshot with a renderer; contents and flags do not depend on it.
\<close>

record nav_buffers =
  nb_width :: nat
  nb_height :: nat
  nb_source :: "u16 list"
  nb_destination :: "u16 list"
  nb_working :: "u16 list"
  nb_source_ready :: bool
  nb_destination_ready :: bool

text \<open>\<open>Vec::resize\<close> with a fill of black.\<close>

definition resize_to :: "nat \<Rightarrow> u16 list \<Rightarrow> u16 list" where
  "resize_to n px = take n px @ replicate (n - length px) 0"

definition buffers_resize :: "nav_buffers \<Rightarrow> nat \<Rightarrow> nat \<Rightarrow> nav_buffers" where
  "buffers_resize b width height =
     (if nb_width b = width \<and> nb_height b = height then b
      else let len = width * height in
        \<lparr>nb_width = width, nb_height = height, nb_source = resize_to len (nb_source b),
         nb_destination = resize_to len (nb_destination b), nb_working = resize_to len (nb_working b),
         nb_source_ready = False, nb_destination_ready = False\<rparr>)"

definition buffers_default :: nav_buffers where
  "buffers_default = \<lparr>nb_width = 0, nb_height = 0, nb_source = [], nb_destination = [], nb_working = [],
     nb_source_ready = False, nb_destination_ready = False\<rparr>"

definition buffers_new :: "nat \<Rightarrow> nat \<Rightarrow> nav_buffers" where
  "buffers_new width height = buffers_resize buffers_default width height"

definition begin_capture :: "nav_buffers \<Rightarrow> nav_buffers" where
  "begin_capture b = b\<lparr>nb_source_ready := False, nb_destination_ready := False\<rparr>"

definition capture_source :: "nav_buffers \<Rightarrow> u16 list \<Rightarrow> (nav_failure + unit) \<times> nav_buffers" where
  "capture_source b px =
     (if length (nb_source b) \<noteq> length px
      then (Inl SnapshotSizeMismatch, b\<lparr>nb_source_ready := False\<rparr>)
      else (Inr (), b\<lparr>nb_source := px, nb_source_ready := True\<rparr>))"

definition buffers_capture_destination :: "nav_buffers \<Rightarrow> u16 list \<Rightarrow> (nav_failure + unit) \<times> nav_buffers" where
  "buffers_capture_destination b px =
     (if length (nb_destination b) \<noteq> length px
      then (Inl SnapshotSizeMismatch, b\<lparr>nb_destination_ready := False\<rparr>)
      else (Inr (), b\<lparr>nb_destination := px, nb_destination_ready := True\<rparr>))"

definition copy_source_to_working :: "nav_buffers \<Rightarrow> (nav_failure + nat) \<times> nav_buffers" where
  "copy_source_to_working b =
     (if \<not> nb_source_ready b \<or> length (nb_working b) \<noteq> length (nb_source b)
      then (Inl SnapshotSizeMismatch, b)
      else (Inr (length (nb_source b)), b\<lparr>nb_working := nb_source b\<rparr>))"

definition buffers_source :: "nav_buffers \<Rightarrow> u16 list option" where
  "buffers_source b = (if nb_source_ready b then Some (nb_source b) else None)"

definition buffers_destination :: "nav_buffers \<Rightarrow> u16 list option" where
  "buffers_destination b = (if nb_destination_ready b then Some (nb_destination b) else None)"

section \<open>Starts\<close>

datatype raster_space = Logical | Physical nat nat

datatype start_policy = Immediate | AfterDestination

record transition_start =
  ts_request :: nav_request
  ts_route :: nav_route
  ts_space :: raster_space
  ts_start :: start_policy
  ts_source :: "u16 list"
  ts_now_us :: u64

definition NATIVE_SETTINGS_PAGE_US :: u64 where
  "NATIVE_SETTINGS_PAGE_US = 520000"

definition NATIVE_SETTINGS_COG_US :: u64 where
  "NATIVE_SETTINGS_COG_US = 800000"

text \<open>
  \<open>settings_cog::supports_dimensions\<close>: the HDMI size, or a CRT size (\<open>CrtSettingsGeometry::for_dimensions\<close>
  succeeds, the rest of the layout is then total).
\<close>

definition supports_dimensions :: "nat \<Rightarrow> nat \<Rightarrow> bool" where
  "supports_dimensions width height \<longleftrightarrow> (width, height) = (960, 540) \<or>
     max width height = 640 \<and> min width height \<in> {240, 288, 480, 512, 576}"

definition is_native_raster :: "nat \<Rightarrow> nat \<Rightarrow> bool" where
  "is_native_raster width height \<longleftrightarrow> supports_dimensions width height \<and> (width, height) \<noteq> (960, 540)"

fun segmented_destination_content_x :: "nav_route \<Rightarrow> nav_direction \<Rightarrow> u16" where
  "segmented_destination_content_x RouteSettingsToAbout Reverse = 400"
| "segmented_destination_content_x _ _ = 266"

definition start_super_scaler ::
  "nav_edge \<Rightarrow> nav_direction \<Rightarrow> nav_geometry \<Rightarrow> u16 list \<Rightarrow> u64 \<Rightarrow> transition_start" where
  "start_super_scaler edge direction geometry source now_us =
     \<lparr>ts_request = request_new edge direction geometry, ts_route = from_super_scaler_edge edge,
      ts_space = Logical, ts_start = Immediate, ts_source = source, ts_now_us = now_us\<rparr>"

definition start_device_card ::
  "nav_edge \<Rightarrow> nav_direction \<Rightarrow> nav_geometry \<Rightarrow> device_card_reveal \<Rightarrow> u16 list \<Rightarrow> u64 \<Rightarrow> transition_start" where
  "start_device_card edge direction geometry reveal source now_us =
     \<lparr>ts_request = request_device_card direction edge geometry reveal,
      ts_route = from_super_scaler_edge edge, ts_space = Logical, ts_start = AfterDestination,
      ts_source = source, ts_now_us = now_us\<rparr>"

definition start_system_panel :: "bool \<Rightarrow> bool \<Rightarrow> u16 list \<Rightarrow> u64 \<Rightarrow> transition_start" where
  "start_system_panel crt to_list source now_us =
     \<lparr>ts_request = request_system_panel crt to_list, ts_route = RouteSystemPanel, ts_space = Logical,
      ts_start = Immediate, ts_source = source, ts_now_us = now_us\<rparr>"

datatype output_rotation = RotationNone | Clockwise90 | CounterClockwise90

definition start_portrait_page ::
  "nav_route \<Rightarrow> nav_direction \<Rightarrow> output_rotation \<Rightarrow> nat \<Rightarrow> nat \<Rightarrow> u16 list \<Rightarrow> u64 \<Rightarrow> transition_start" where
  "start_portrait_page route direction rotation width height source now_us =
     (let axis = (case rotation of Clockwise90 \<Rightarrow> AxisVertical
                  | CounterClockwise90 \<Rightarrow> AxisVerticalReversed | RotationNone \<Rightarrow> AxisHorizontal) in
      \<lparr>ts_request = (request_settings_page_on_axis direction axis)\<lparr>nq_duration_us := NATIVE_SETTINGS_PAGE_US\<rparr>,
       ts_route = route, ts_space = Physical width height, ts_start = AfterDestination,
       ts_source = source, ts_now_us = now_us\<rparr>)"

definition start_portrait_page_logical ::
  "nav_route \<Rightarrow> nav_direction \<Rightarrow> u16 list \<Rightarrow> u64 \<Rightarrow> transition_start" where
  "start_portrait_page_logical route direction source now_us =
     \<lparr>ts_request = (request_settings_page direction)\<lparr>nq_duration_us := NATIVE_SETTINGS_PAGE_US\<rparr>,
      ts_route = route, ts_space = Logical, ts_start = AfterDestination, ts_source = source,
      ts_now_us = now_us\<rparr>"

definition start_settings_page :: "nav_route \<Rightarrow> nav_direction \<Rightarrow> u16 list \<Rightarrow> u64 \<Rightarrow> transition_start" where
  "start_settings_page route direction source now_us =
     \<lparr>ts_request = (if uses_segmented_settings_motion route
          then request_segmented_with_content_x direction (segmented_destination_content_x route direction)
          else request_settings_page direction),
      ts_route = route, ts_space = Logical, ts_start = AfterDestination, ts_source = source,
      ts_now_us = now_us\<rparr>"

definition start_settings_page_physical ::
  "nav_route \<Rightarrow> nav_direction \<Rightarrow> settings_axis \<Rightarrow> nat \<Rightarrow> nat \<Rightarrow> u16 list \<Rightarrow> u64
   \<Rightarrow> transition_start" where
  "start_settings_page_physical route direction axis width height source now_us =
     (let request = (if uses_segmented_settings_motion route
            then request_segmented_on_axis_with_content_x direction axis
                   (segmented_destination_content_x route direction)
            else request_settings_page_on_axis direction axis) in
      \<lparr>ts_request = (if is_native_raster width height
          then request\<lparr>nq_duration_us := NATIVE_SETTINGS_PAGE_US\<rparr> else request),
       ts_route = route, ts_space = Physical width height, ts_start = AfterDestination,
       ts_source = source, ts_now_us = now_us\<rparr>)"

definition start_settings_cog ::
  "nav_direction \<Rightarrow> nat \<Rightarrow> nat \<Rightarrow> u16 list \<Rightarrow> u64 \<Rightarrow> transition_start" where
  "start_settings_cog direction width height source now_us =
     (let request = request_settings_cog direction in
      \<lparr>ts_request = (if is_native_raster width height
          then request\<lparr>nq_duration_us := NATIVE_SETTINGS_COG_US\<rparr> else request),
       ts_route = RouteHomeToSettings, ts_space = Physical width height, ts_start = AfterDestination,
       ts_source = source, ts_now_us = now_us\<rparr>)"

section \<open>The runtime\<close>

record render_stats =
  rs_render_us :: u64
  rs_base_copy_us :: u64
  rs_settings_blit_us :: u64
  rs_card_scale_us :: u64
  rs_destination_reveal_us :: u64
  rs_copied_pixels :: u64
  rs_filled_pixels :: u64
  rs_outline_pixels :: u64
  rs_overlay_us :: u64
  rs_phosphor_pixels :: u64
  rs_scanline_pixels :: u64

definition render_stats_default :: render_stats where
  "render_stats_default = \<lparr>rs_render_us = 0, rs_base_copy_us = 0, rs_settings_blit_us = 0,
     rs_card_scale_us = 0, rs_destination_reveal_us = 0, rs_copied_pixels = 0, rs_filled_pixels = 0,
     rs_outline_pixels = 0, rs_overlay_us = 0, rs_phosphor_pixels = 0, rs_scanline_pixels = 0\<rparr>"

record nav_runtime =
  nx_enabled :: bool
  nx_duration_override_us :: "u64 option"
  nx_controller :: controller
  nx_deferred_request :: "nav_request option"
  nx_deferred_capture_us :: u64
  nx_deferred_started_us :: u64
  nx_pending_prepare_started :: "instant option"
  nx_pending_status_quiesce_us :: u64
  nx_pending_status_quiesce_timeout :: bool
  nx_buffers :: nav_buffers
  nx_logical_width :: nat
  nx_logical_height :: nat
  nx_settings_physical_space :: bool
  nx_last_render_stats :: render_stats
  nx_last_frame_work_us :: u64
  nx_route :: "nav_route option"

definition runtime_new :: "nat \<Rightarrow> nat \<Rightarrow> bool \<Rightarrow> nav_runtime" where
  "runtime_new width height enabled =
     (let (w, h) = (if enabled then (width, height) else (0, 0)) in
      \<lparr>nx_enabled = enabled, nx_duration_override_us = None, nx_controller = controller_default,
       nx_deferred_request = None, nx_deferred_capture_us = 0, nx_deferred_started_us = 0,
       nx_pending_prepare_started = None, nx_pending_status_quiesce_us = 0,
       nx_pending_status_quiesce_timeout = False, nx_buffers = buffers_new w h,
       nx_logical_width = w, nx_logical_height = h, nx_settings_physical_space = False,
       nx_last_render_stats = render_stats_default, nx_last_frame_work_us = 0, nx_route = None\<rparr>)"

definition configure_preview :: "nav_runtime \<Rightarrow> u64 option \<Rightarrow> nav_runtime" where
  "configure_preview r duration_ms =
     r\<lparr>nx_duration_override_us :=
         map_option (\<lambda>ms. sat_mul64 (min (max ms 100) 10000) 1000) duration_ms\<rparr>"

definition set_enabled :: "nav_runtime \<Rightarrow> nat \<Rightarrow> nat \<Rightarrow> bool \<Rightarrow> nav_runtime" where
  "set_enabled r width height enabled =
     (let r1 = r\<lparr>nx_logical_width := width, nx_logical_height := height\<rparr> in
      if nx_enabled r1 = enabled \<and>
         (\<not> enabled \<or> nb_width (nx_buffers r1) = width \<and> nb_height (nx_buffers r1) = height)
      then r1
      else r1\<lparr>nx_enabled := enabled, nx_deferred_request := None, nx_controller := controller_default,
             nx_route := None, nx_settings_physical_space := False,
             nx_buffers := (if enabled then buffers_resize (nx_buffers r1) width height
                            else buffers_resize (nx_buffers r1) 0 0)\<rparr>)"

definition nx_is_active :: "nav_runtime \<Rightarrow> bool" where
  "nx_is_active r \<longleftrightarrow> nx_deferred_request r \<noteq> None \<or> ctl_is_active (nx_controller r)"

text \<open>
  \<open>begin_request\<close>; \<open>capture_us\<close> is the measured time of the capture, \<open>at\<close> the instant it ended.
\<close>

definition begin_request ::
  "nav_runtime \<Rightarrow> nav_request \<Rightarrow> u16 list \<Rightarrow> u64 \<Rightarrow> bool \<Rightarrow> u64 \<Rightarrow> instant \<Rightarrow> (nav_failure + unit) \<times> nav_runtime" where
  "begin_request r q source now_us start_immediately capture_us at =
     (let (res, b) = capture_source (begin_capture (nx_buffers r)) source;
          r1 = r\<lparr>nx_buffers := b\<rparr>
      in case res of
           Inl failure \<Rightarrow> (Inl failure, r1)
         | Inr _ \<Rightarrow>
             let r2 = (if start_immediately
                  then r1\<lparr>nx_controller :=
                      snd (ctl_captured (snd (ctl_begin (nx_controller r1) q now_us)) now_us capture_us)\<rparr>
                  else r1\<lparr>nx_deferred_request := Some q, nx_deferred_capture_us := capture_us,
                          nx_deferred_started_us := now_us\<rparr>)
             in (Inr (), r2\<lparr>nx_pending_prepare_started := Some at, nx_pending_status_quiesce_us := 0,
                            nx_pending_status_quiesce_timeout := False\<rparr>))"

definition nx_begin ::
  "nav_runtime \<Rightarrow> transition_start \<Rightarrow> u64 \<Rightarrow> instant \<Rightarrow> (nav_failure + bool) \<times> nav_runtime" where
  "nx_begin r s capture_us at =
     (if \<not> nx_enabled r \<or> nx_is_active r then (Inr False, r)
      else let q = (case nx_duration_override_us r of None \<Rightarrow> ts_request s
                    | Some duration_us \<Rightarrow> (ts_request s)\<lparr>nq_duration_us := duration_us\<rparr>);
               r1 = (case ts_space s of Logical \<Rightarrow> r
                     | Physical width height \<Rightarrow> r\<lparr>nx_buffers := buffers_resize (nx_buffers r) width height\<rparr>);
               physical = (case ts_space s of Logical \<Rightarrow> False | Physical _ _ \<Rightarrow> True);
               (res, r2) = begin_request r1 q (ts_source s) (ts_now_us s) (ts_start s = Immediate) capture_us at
           in case res of
                Inl failure \<Rightarrow>
                  (Inl failure, if physical
                     then r2\<lparr>nx_buffers := buffers_resize (nx_buffers r2) (nx_logical_width r2) (nx_logical_height r2)\<rparr>
                     else r2)
              | Inr _ \<Rightarrow>
                  (Inr True, r2\<lparr>nx_route := Some (ts_route s), nx_settings_physical_space := physical\<rparr>))"

definition activate_deferred :: "nav_runtime \<Rightarrow> u64 \<Rightarrow> bool \<times> nav_runtime" where
  "activate_deferred r now_us =
     (case nx_deferred_request r of
        None \<Rightarrow> (False, r)
      | Some q \<Rightarrow>
          let r1 = r\<lparr>nx_deferred_request := None\<rparr>;
              (began, c1) = ctl_begin (nx_controller r1) q now_us
          in if \<not> began then (False, r1\<lparr>nx_controller := c1\<rparr>)
             else let (captured, c2) = ctl_captured c1 now_us (nx_deferred_capture_us r1)
                  in if \<not> captured then (False, r1\<lparr>nx_controller := c2\<rparr>)
                     else (True, r1\<lparr>nx_controller := c2\<lparr>ct_telemetry := (ct_telemetry c2)\<lparr>
                             nt_status_quiesce_wait_us := nx_pending_status_quiesce_us r1,
                             nt_status_quiesce_timeout := nx_pending_status_quiesce_timeout r1\<rparr>\<rparr>\<rparr>))"

definition capture_destination ::
  "nav_runtime \<Rightarrow> u16 list \<Rightarrow> u64 \<Rightarrow> instant \<Rightarrow> (nav_failure + unit) \<times> nav_runtime" where
  "capture_destination r px now_us at =
     (let (res, b) = buffers_capture_destination (nx_buffers r) px;
          r1 = r\<lparr>nx_buffers := b\<rparr>
      in case res of
           Inl failure \<Rightarrow> (Inl failure, r1)
         | Inr _ \<Rightarrow>
             let prepare_us = (case nx_pending_prepare_started r1 of None \<Rightarrow> 0
                   | Some started \<Rightarrow> of_nat (min (since at started div 1000) (2 ^ 64 - 1)));
                 r2 = r1\<lparr>nx_pending_prepare_started := None\<rparr>;
                 r3 = (if nx_deferred_request r2 \<noteq> None then snd (activate_deferred r2 now_us) else r2)
             in (Inr (), r3\<lparr>nx_controller := note_destination_prepared (nx_controller r3) prepare_us\<rparr>))"

definition nx_frame :: "nav_runtime \<Rightarrow> nav_frame" where
  "nx_frame r =
     (if nx_deferred_request r \<noteq> None
      then frame_default\<lparr>nf_phase := PhCapture, nf_owns_full_frame := True\<rparr>
      else ctl_frame (nx_controller r))"

definition nx_tick :: "nav_runtime \<Rightarrow> u64 \<Rightarrow> nav_frame \<times> nav_runtime" where
  "nx_tick r now_us =
     (case nx_deferred_request r of
        Some q \<Rightarrow>
          if nq_preparation_timeout_us q \<le> sat_sub now_us (nx_deferred_started_us r)
          then let r1 = snd (activate_deferred r now_us);
                   c = ctl_fail (nx_controller r1) DestinationTimeout now_us
               in (ctl_frame c, r1\<lparr>nx_controller := c\<rparr>)
          else (nx_frame r, r)
      | None \<Rightarrow>
          let (f, c) = ctl_tick (nx_controller r) now_us (nb_destination_ready (nx_buffers r))
          in (f, r\<lparr>nx_controller := c\<rparr>))"

definition record_render :: "nav_runtime \<Rightarrow> render_stats \<Rightarrow> nav_runtime" where
  "record_render r stats =
     (let t = ct_telemetry (nx_controller r);
          t1 = t\<lparr>nt_overlay_us := sat_add (nt_overlay_us t) (rs_overlay_us stats),
                 nt_base_copy_us := sat_add (nt_base_copy_us t) (rs_base_copy_us stats),
                 nt_settings_blit_us := sat_add (nt_settings_blit_us t) (rs_settings_blit_us stats),
                 nt_card_scale_us := sat_add (nt_card_scale_us t) (rs_card_scale_us stats),
                 nt_destination_reveal_us := sat_add (nt_destination_reveal_us t) (rs_destination_reveal_us stats),
                 nt_phosphor_pixels := sat_add (nt_phosphor_pixels t) (rs_phosphor_pixels stats),
                 nt_scanline_pixels := sat_add (nt_scanline_pixels t) (rs_scanline_pixels stats)\<rparr>
      in r\<lparr>nx_controller := (nx_controller r)\<lparr>ct_telemetry := note_render t1 (rs_render_us stats) False\<rparr>,
           nx_last_render_stats := stats\<rparr>)"

text \<open>An early activation of a deferred request, as the operations that may end it do.\<close>

definition with_activation :: "nav_runtime \<Rightarrow> u64 \<Rightarrow> nav_runtime" where
  "with_activation r now_us =
     (if nx_deferred_request r \<noteq> None then snd (activate_deferred r now_us) else r)"

definition nx_request_reverse :: "nav_runtime \<Rightarrow> u64 \<Rightarrow> bool \<times> nav_runtime" where
  "nx_request_reverse r now_us =
     (let r1 = with_activation r now_us; (ok, c) = ctl_request_reverse (nx_controller r1) now_us
      in (ok, r1\<lparr>nx_controller := c\<rparr>))"

definition nx_settle_at_destination :: "nav_runtime \<Rightarrow> bool \<times> nav_runtime" where
  "nx_settle_at_destination r =
     (let r1 = with_activation r (nx_deferred_started_us r);
          (ok, c) = ctl_settle_at_destination (nx_controller r1)
      in (ok, r1\<lparr>nx_controller := c\<rparr>))"

definition nx_cancel_for_exclusive_view :: "nav_runtime \<Rightarrow> nav_endpoint option \<times> nav_runtime" where
  "nx_cancel_for_exclusive_view r =
     (let r1 = with_activation r (nx_deferred_started_us r);
          (endpoint, c) = ctl_cancel_for_exclusive_view (nx_controller r1) (nb_destination_ready (nx_buffers r1))
      in (endpoint, r1\<lparr>nx_controller := c\<rparr>))"

definition nx_complete :: "nav_runtime \<Rightarrow> nav_completion option \<times> nav_runtime" where
  "nx_complete r =
     (let (res, c) = ctl_complete (nx_controller r); r1 = r\<lparr>nx_controller := c\<rparr> in
      case res of
        None \<Rightarrow> (None, r1)
      | Some completion \<Rightarrow>
          (Some completion,
           if nx_settings_physical_space r1
           then r1\<lparr>nx_settings_physical_space := False,
                  nx_buffers := buffers_resize (nx_buffers r1) (nx_logical_width r1) (nx_logical_height r1)\<rparr>
           else r1))"

definition nx_request :: "nav_runtime \<Rightarrow> nav_request option" where
  "nx_request r =
     (case nx_deferred_request r of Some q \<Rightarrow> Some q | None \<Rightarrow> ct_request (nx_controller r))"

definition snapshot_lock :: "nav_runtime \<Rightarrow> bool" where
  "snapshot_lock r \<longleftrightarrow> nx_is_active r \<and> nx_deferred_request r = None \<and> nb_destination_ready (nx_buffers r)"

definition note_pending_status_quiesce :: "nav_runtime \<Rightarrow> u64 \<Rightarrow> bool \<Rightarrow> nav_runtime" where
  "note_pending_status_quiesce r wait_us timed_out =
     (let r1 = r\<lparr>nx_pending_status_quiesce_us := wait_us, nx_pending_status_quiesce_timeout := timed_out\<rparr> in
      if nx_deferred_request r1 = None
      then r1\<lparr>nx_controller := (nx_controller r1)\<lparr>ct_telemetry := (ct_telemetry (nx_controller r1))\<lparr>
              nt_status_quiesce_wait_us := wait_us, nt_status_quiesce_timeout := timed_out\<rparr>\<rparr>\<rparr>
      else r1)"

definition note_frame_work_us :: "nav_runtime \<Rightarrow> u64 \<Rightarrow> nav_runtime" where
  "note_frame_work_us r us = r\<lparr>nx_last_frame_work_us := us\<rparr>"

section \<open>Runtime runs\<close>

datatype nx_op =
  NxConfigure "u64 option"
| NxSetEnabled nat nat bool
| NxBegin transition_start u64 instant
| NxDestination "u16 list" u64 instant
| NxTick u64
| NxRecord render_stats
| NxReverse u64
| NxSettle
| NxCancel
| NxComplete
| NxQuiesce u64 bool
| NxFrameWork u64

fun nx_apply :: "nav_runtime \<Rightarrow> nx_op \<Rightarrow> nav_runtime" where
  "nx_apply r (NxConfigure ms) = configure_preview r ms"
| "nx_apply r (NxSetEnabled w h e) = set_enabled r w h e"
| "nx_apply r (NxBegin s us at) = snd (nx_begin r s us at)"
| "nx_apply r (NxDestination px now at) = snd (capture_destination r px now at)"
| "nx_apply r (NxTick now) = snd (nx_tick r now)"
| "nx_apply r (NxRecord stats) = record_render r stats"
| "nx_apply r (NxReverse now) = snd (nx_request_reverse r now)"
| "nx_apply r NxSettle = snd (nx_settle_at_destination r)"
| "nx_apply r NxCancel = snd (nx_cancel_for_exclusive_view r)"
| "nx_apply r NxComplete = snd (nx_complete r)"
| "nx_apply r (NxQuiesce us timeout) = note_pending_status_quiesce r us timeout"
| "nx_apply r (NxFrameWork us) = note_frame_work_us r us"

definition buffers_ok :: "nav_buffers \<Rightarrow> bool" where
  "buffers_ok b \<longleftrightarrow> length (nb_source b) = nb_width b * nb_height b \<and>
     length (nb_destination b) = nb_width b * nb_height b \<and> length (nb_working b) = nb_width b * nb_height b"

definition nx_inv :: "nav_runtime \<Rightarrow> bool" where
  "nx_inv r \<longleftrightarrow> buffers_ok (nx_buffers r) \<and>
     (nx_enabled r \<and> \<not> nx_settings_physical_space r \<longrightarrow>
        nb_width (nx_buffers r) = nx_logical_width r \<and> nb_height (nx_buffers r) = nx_logical_height r) \<and>
     (nx_settings_physical_space r \<longrightarrow> nx_is_active r) \<and>
     (nx_deferred_request r \<noteq> None \<longrightarrow> \<not> ctl_is_active (nx_controller r)) \<and>
     (nx_is_active r \<longrightarrow> nx_enabled r \<and> nb_source_ready (nx_buffers r))"

lemma length_resize_to [simp]: "length (resize_to n px) = n"
  by (simp add: resize_to_def)

lemma buffers_resize_simps [simp]:
  "nb_width (buffers_resize b w h) = w" "nb_height (buffers_resize b w h) = h"
  by (auto simp: buffers_resize_def Let_def)

lemma buffers_ok_resize [simp]: "buffers_ok b \<Longrightarrow> buffers_ok (buffers_resize b w h)"
  by (simp add: buffers_resize_def buffers_ok_def Let_def)

lemma buffers_ok_new [simp]: "buffers_ok (buffers_new w h)"
  unfolding buffers_new_def by (rule buffers_ok_resize) (simp add: buffers_ok_def buffers_default_def)

lemma nx_inv_new: "nx_inv (runtime_new w h e)"
  by (simp add: nx_inv_def runtime_new_def nx_is_active_def ctl_is_active_def controller_default_def buffers_new_def
      split: prod.split)
    (simp add: buffers_new_def [symmetric])

lemma ctl_keeps_active [simp]:
  "ctl_is_active (snd (ctl_request_reverse c now)) = ctl_is_active c"
  "ctl_is_active (snd (ctl_settle_at_destination c)) = ctl_is_active c"
  "ctl_is_active (snd (ctl_cancel_for_exclusive_view c ready)) = ctl_is_active c"
  "ctl_is_active (ctl_fail c f now) = ctl_is_active c"
  "ctl_is_active (note_destination_prepared c us) = ctl_is_active c"
  by (auto simp: ctl_is_active_def ctl_request_reverse_def ctl_settle_at_destination_def
      ctl_cancel_for_exclusive_view_def ctl_fail_def note_destination_prepared_def start_reversing_def Let_def)

lemma tick_keeps_active [simp]: "ctl_is_active (snd (ctl_tick c now ready)) = ctl_is_active c"
  by (auto simp: ctl_tick_def tick_expand_def tick_covered_def tick_reveal_def tick_reversing_def
      start_reversing_def ctl_is_active_def Let_def split: option.splits)

lemma begin_captured_active: "ctl_is_active (snd (ctl_captured (snd (ctl_begin c q now)) now us))"
  by (auto simp: ctl_captured_def ctl_begin_def ctl_is_active_def)

text \<open>An activation turns a deferred transition into a running one and changes nothing else.\<close>

lemma activate_frame:
  assumes "nx_deferred_request r = Some q" and "\<not> ctl_is_active (nx_controller r)"
  obtains c where "activate_deferred r now = (True, r\<lparr>nx_deferred_request := None, nx_controller := c\<rparr>)"
    "ct_phase c = PhExpand" "ct_request c = Some q" "ct_phase_started_us c = now" "ct_progress_q16 c = 0"
    "ct_failure c = None"
  using assms that by (simp add: activate_deferred_def ctl_begin_def ctl_captured_def Let_def)

lemma nx_inv_controller:
  assumes "nx_inv r" and "nx_deferred_request r = None" and "ctl_is_active c = ctl_is_active (nx_controller r)"
  shows "nx_inv (r\<lparr>nx_controller := c\<rparr>)"
  using assms by (simp add: nx_inv_def nx_is_active_def)

lemma with_activation_inv:
  assumes "nx_inv r"
  shows "nx_inv (with_activation r now)" and "nx_deferred_request (with_activation r now) = None"
proof -
  have "nx_inv (with_activation r now) \<and> nx_deferred_request (with_activation r now) = None"
  proof (cases "nx_deferred_request r")
    case None
    with assms show ?thesis by (simp add: with_activation_def)
  next
    case (Some q)
    then have "\<not> ctl_is_active (nx_controller r)"
      using assms by (simp add: nx_inv_def)
    from activate_frame [OF Some this, of now] obtain c where c:
      "activate_deferred r now = (True, r\<lparr>nx_deferred_request := None, nx_controller := c\<rparr>)" "ct_phase c = PhExpand"
      by blast
    with assms Some show ?thesis
      by (simp add: with_activation_def nx_inv_def nx_is_active_def ctl_is_active_def)
  qed
  then show "nx_inv (with_activation r now)" "nx_deferred_request (with_activation r now) = None"
    by simp_all
qed

lemma nx_inv_set_enabled: "nx_inv r \<Longrightarrow> nx_inv (set_enabled r w h e)"
  by (auto simp: set_enabled_def nx_inv_def nx_is_active_def ctl_is_active_def controller_default_def Let_def)

lemma nx_inv_destination:
  assumes "nx_inv r"
  shows "nx_inv (snd (capture_destination r px now at))"
proof -
  obtain res b where b: "buffers_capture_destination (nx_buffers r) px = (res, b)"
    by fastforce
  have same: "nb_width b = nb_width (nx_buffers r)" "nb_height b = nb_height (nx_buffers r)"
    "nb_source_ready b = nb_source_ready (nx_buffers r)" "buffers_ok (nx_buffers r) \<Longrightarrow> buffers_ok b"
    using b by (auto simp: buffers_capture_destination_def buffers_ok_def split: if_splits)
  define r1 where "r1 = r\<lparr>nx_buffers := b\<rparr>"
  define r2 where "r2 = r1\<lparr>nx_pending_prepare_started := None\<rparr>"
  have "nx_inv r1" and "nx_inv r2"
    using assms same by (simp_all add: nx_inv_def nx_is_active_def r1_def r2_def)
  then have "nx_inv ((with_activation r2 now)\<lparr>nx_controller := note_destination_prepared (nx_controller (with_activation r2 now)) us\<rparr>)" for us
    by (intro nx_inv_controller with_activation_inv) simp_all
  then show ?thesis
    using \<open>nx_inv r1\<close>
    by (auto simp: capture_destination_def b r1_def [symmetric] r2_def [symmetric] with_activation_def Let_def
        split: sum.split)
qed

lemma nx_inv_tick:
  assumes "nx_inv r"
  shows "nx_inv (snd (nx_tick r now))"
proof (cases "nx_deferred_request r")
  case None
  then show ?thesis
    using assms nx_inv_controller [of r "snd (ctl_tick (nx_controller r) now (nb_destination_ready (nx_buffers r)))"]
    by (simp add: nx_tick_def split_def Let_def)
next
  case (Some q)
  then have "snd (activate_deferred r now) = with_activation r now"
    by (simp add: with_activation_def)
  then show ?thesis
    using Some assms with_activation_inv [OF assms, of now]
    by (simp add: nx_tick_def Let_def nx_inv_controller)
qed

lemma nx_inv_complete: "nx_inv r \<Longrightarrow> nx_inv (snd (nx_complete r))"
  by (auto simp: nx_complete_def ctl_complete_def nx_inv_def nx_is_active_def ctl_is_active_def Let_def
      split: option.splits)


text \<open>What \<open>begin_request\<close> does to an idle runtime, by whether the source fits the buffers.\<close>

lemma begin_request_cases:
  assumes "\<not> nx_is_active r"
  obtains (mismatch) "begin_request r q src now imm us at = (Inl SnapshotSizeMismatch,
      r\<lparr>nx_buffers := (begin_capture (nx_buffers r))\<rparr>)" "length src \<noteq> length (nb_source (nx_buffers r))"
  | (started) r' where "begin_request r q src now imm us at = (Inr (), r')"
      "length src = length (nb_source (nx_buffers r))"
      "nx_buffers r' = (begin_capture (nx_buffers r))\<lparr>nb_source := src, nb_source_ready := True\<rparr>"
      "nx_enabled r' = nx_enabled r" "nx_logical_width r' = nx_logical_width r" "nx_logical_height r' = nx_logical_height r"
      "nx_settings_physical_space r' = nx_settings_physical_space r" "nx_is_active r'"
      "nx_deferred_request r' = (if imm then None else Some q)"
      "imm \<longrightarrow> ct_request (nx_controller r') = Some q \<and> ct_phase (nx_controller r') = PhExpand \<and>
         ct_phase_started_us (nx_controller r') = now \<and> ct_failure (nx_controller r') = None"
      "\<not> imm \<longrightarrow> nx_controller r' = nx_controller r \<and> nx_deferred_started_us r' = now"
proof (cases "length src = length (nb_source (nx_buffers r))")
  case True
  show thesis
    using assms True
    by (cases imm)
      (auto intro!: started simp: begin_request_def capture_source_def begin_capture_def nx_is_active_def
        ctl_begin_def ctl_captured_def ctl_is_active_def Let_def)
next
  case False
  then show thesis
    by (intro mismatch) (simp_all add: begin_request_def capture_source_def begin_capture_def Let_def)
qed

definition start_buffers :: "nav_runtime \<Rightarrow> raster_space \<Rightarrow> nav_runtime" where
  "start_buffers r space = (case space of Logical \<Rightarrow> r
     | Physical w h \<Rightarrow> r\<lparr>nx_buffers := buffers_resize (nx_buffers r) w h\<rparr>)"

definition effective_request :: "nav_runtime \<Rightarrow> transition_start \<Rightarrow> nav_request" where
  "effective_request r s = (case nx_duration_override_us r of None \<Rightarrow> ts_request s
     | Some us \<Rightarrow> (ts_request s)\<lparr>nq_duration_us := us\<rparr>)"

definition is_physical :: "raster_space \<Rightarrow> bool" where
  "is_physical space = (case space of Logical \<Rightarrow> False | Physical _ _ \<Rightarrow> True)"

lemma nx_begin_eq:
  "nx_begin r s us at =
     (if \<not> nx_enabled r \<or> nx_is_active r then (Inr False, r)
      else let (res, r2) = begin_request (start_buffers r (ts_space s)) (effective_request r s) (ts_source s)
                 (ts_now_us s) (ts_start s = Immediate) us at
           in case res of
                Inl failure \<Rightarrow> (Inl failure, if is_physical (ts_space s)
                   then r2\<lparr>nx_buffers := buffers_resize (nx_buffers r2) (nx_logical_width r2) (nx_logical_height r2)\<rparr>
                   else r2)
              | Inr _ \<Rightarrow> (Inr True, r2\<lparr>nx_route := Some (ts_route s), nx_settings_physical_space := is_physical (ts_space s)\<rparr>))"
  unfolding nx_begin_def start_buffers_def effective_request_def is_physical_def Let_def by (rule refl)

lemma start_buffers_simps [simp]:
  "nx_enabled (start_buffers r sp) = nx_enabled r" "nx_is_active (start_buffers r sp) = nx_is_active r"
  "nx_logical_width (start_buffers r sp) = nx_logical_width r"
  "nx_logical_height (start_buffers r sp) = nx_logical_height r"
  "nx_settings_physical_space (start_buffers r sp) = nx_settings_physical_space r"
  "nx_deferred_request (start_buffers r sp) = nx_deferred_request r"
  "nx_controller (start_buffers r sp) = nx_controller r"
  by (simp_all add: start_buffers_def nx_is_active_def split: raster_space.split)

lemma start_buffers_ok: "buffers_ok (nx_buffers r) \<Longrightarrow> buffers_ok (nx_buffers (start_buffers r sp))"
  by (simp add: start_buffers_def split: raster_space.split)

text \<open>The three outcomes of starting a transition.\<close>

lemma nx_begin_cases:
  assumes "nx_inv r" and "nx_begin r s us at = (res, r')"
  obtains (refused) "res = Inr False" "r' = r" "\<not> nx_enabled r \<or> nx_is_active r"
  | (failed) "res = Inl SnapshotSizeMismatch" "nx_inv r'" "\<not> nx_is_active r'" "nx_enabled r'"
      "nb_width (nx_buffers r') = nx_logical_width r" "nb_height (nx_buffers r') = nx_logical_height r"
      "nx_controller r' = nx_controller r" "nx_route r' = nx_route r"
  | (began) "res = Inr True" "nx_inv r'" "nx_is_active r'" "\<not> nx_is_active r"
      "nb_source_ready (nx_buffers r')" "nb_source (nx_buffers r') = ts_source s"
      "\<not> nb_destination_ready (nx_buffers r')" "nx_route r' = Some (ts_route s)"
      "nx_request r' = Some (effective_request r s)"
      "ts_start s = Immediate \<longrightarrow> nx_deferred_request r' = None \<and> ct_phase (nx_controller r') = PhExpand \<and>
         ct_phase_started_us (nx_controller r') = ts_now_us s \<and> ct_failure (nx_controller r') = None"
      "ts_start s \<noteq> Immediate \<longrightarrow> nx_deferred_request r' = Some (effective_request r s) \<and>
         nx_deferred_started_us r' = ts_now_us s"
proof (cases "\<not> nx_enabled r \<or> nx_is_active r")
  case True
  with assms(2) show ?thesis
    by (intro refused) (simp_all add: nx_begin_eq split: if_splits)
next
  case False
  let ?r1 = "start_buffers r (ts_space s)"
  have idle: "nx_enabled r" "\<not> nx_is_active r" "\<not> nx_settings_physical_space r"
      "nb_width (nx_buffers r) = nx_logical_width r" "nb_height (nx_buffers r) = nx_logical_height r"
      "buffers_ok (nx_buffers r)"
    using False assms(1) by (auto simp: nx_inv_def)
  have "buffers_ok (nx_buffers ?r1)"
    using idle by (simp add: start_buffers_ok)
  have "\<not> nx_is_active ?r1"
    using idle by simp
  then show ?thesis
  proof (cases rule: begin_request_cases [of ?r1 "effective_request r s" "ts_source s" "ts_now_us s"
        "ts_start s = Immediate" us at])
    case mismatch
    have eq: "res = Inl SnapshotSizeMismatch" "r' = (if is_physical (ts_space s)
        then ?r1\<lparr>nx_buffers := buffers_resize (begin_capture (nx_buffers ?r1)) (nx_logical_width r) (nx_logical_height r)\<rparr>
        else ?r1\<lparr>nx_buffers := begin_capture (nx_buffers ?r1)\<rparr>)"
      using assms(2) idle mismatch(1) by (auto simp: nx_begin_eq)
    have "buffers_ok (begin_capture (nx_buffers ?r1))"
      using \<open>buffers_ok (nx_buffers ?r1)\<close> by (simp add: begin_capture_def buffers_ok_def)
    then show ?thesis
      using eq idle \<open>\<not> nx_is_active ?r1\<close>
      by (intro failed) (auto simp: nx_inv_def nx_is_active_def is_physical_def start_buffers_def begin_capture_def
          split: raster_space.splits)
  next
    case (started r2)
    have eq: "res = Inr True" "r' = r2\<lparr>nx_route := Some (ts_route s), nx_settings_physical_space := is_physical (ts_space s)\<rparr>"
      using assms(2) idle started(1) by (auto simp: nx_begin_eq)
    have "buffers_ok (nx_buffers r2)"
      using \<open>buffers_ok (nx_buffers ?r1)\<close> started(2,3) by (simp add: begin_capture_def buffers_ok_def)
    moreover have "\<not> is_physical (ts_space s) \<longrightarrow> ?r1 = r"
      by (simp add: is_physical_def start_buffers_def split: raster_space.splits)
    ultimately have "nx_inv r'"
      using eq started idle
      by (auto simp: nx_inv_def nx_is_active_def begin_capture_def)
    then show ?thesis
      using eq started idle
      by (intro began) (auto simp: nx_is_active_def nx_request_def begin_capture_def)
  qed
qed

lemma nx_inv_apply:
  assumes "nx_inv r"
  shows "nx_inv (nx_apply r op)"
proof (cases op)
  case (NxBegin s us at)
  obtain res r' where "nx_begin r s us at = (res, r')" by fastforce
  then show ?thesis
    using assms NxBegin by (cases rule: nx_begin_cases [OF assms]) simp_all
next
  case (NxReverse now)
  then show ?thesis
    using with_activation_inv [OF assms]
    by (simp add: nx_request_reverse_def split_def Let_def nx_inv_controller)
next
  case NxSettle
  then show ?thesis
    using with_activation_inv [OF assms]
    by (simp add: nx_settle_at_destination_def split_def Let_def nx_inv_controller)
next
  case NxCancel
  then show ?thesis
    using with_activation_inv [OF assms]
    by (simp add: nx_cancel_for_exclusive_view_def split_def Let_def nx_inv_controller)
next
  case (NxConfigure ms)
  then show ?thesis
    using assms by (simp add: configure_preview_def nx_inv_def nx_is_active_def)
next
  case (NxRecord stats)
  then show ?thesis
    using assms by (simp add: record_render_def nx_inv_def nx_is_active_def ctl_is_active_def Let_def)
next
  case (NxQuiesce us timeout)
  then show ?thesis
    using assms by (auto simp: note_pending_status_quiesce_def nx_inv_def nx_is_active_def ctl_is_active_def Let_def)
next
  case (NxFrameWork us)
  then show ?thesis
    using assms by (simp add: note_frame_work_us_def nx_inv_def nx_is_active_def)
qed (use assms in \<open>simp_all add: nx_inv_set_enabled nx_inv_destination nx_inv_tick nx_inv_complete\<close>)

interpretation nav_runtime: total_machine nx_apply nx_inv
  by unfold_locales (rule nx_inv_apply)


section \<open>Properties of the runtime\<close>

text \<open>
  The raster is always given back. In every state a navigation runtime can reach, the snapshot
  buffers have one size; an enabled runtime that plays nothing is in the logical raster; and a
  transition that plays has its source snapshot.
\<close>

theorem idle_runtime_in_logical_raster:
  fixes ops :: "nx_op list" and w h :: nat and enabled :: bool
  defines "r \<equiv> run_steps nx_apply (runtime_new w h enabled) ops"
  shows "buffers_ok (nx_buffers r) \<and>
    (nx_enabled r \<and> \<not> nx_is_active r \<longrightarrow> \<not> nx_settings_physical_space r \<and>
       nb_width (nx_buffers r) = nx_logical_width r \<and> nb_height (nx_buffers r) = nx_logical_height r) \<and>
    (nx_is_active r \<longrightarrow> nx_enabled r \<and> buffers_source (nx_buffers r) \<noteq> None)"
proof -
  have "nx_inv r"
    unfolding r_def using nx_inv_new by (rule nav_runtime.total_run_inv)
  then show ?thesis
    by (auto simp: nx_inv_def buffers_source_def)
qed

text \<open>
  Starting a transition is all or nothing. In any reachable runtime, a start is refused without
  any effect (disabled, or one already plays), or it fails on a source of the wrong size and leaves
  an idle runtime in its logical raster with controller and route as they were, or it plays: then
  the pixels the caller showed are the source snapshot and no destination is ready.
\<close>

theorem begin_is_all_or_nothing:
  fixes ops :: "nx_op list" and w h :: nat and enabled :: bool
  defines "r \<equiv> run_steps nx_apply (runtime_new w h enabled) ops"
  assumes "nx_begin r s us at = (res, r')"
  shows "(res = Inr False \<and> r' = r \<and> (\<not> nx_enabled r \<or> nx_is_active r)) \<or>
    (res = Inl SnapshotSizeMismatch \<and> \<not> nx_is_active r' \<and> nx_controller r' = nx_controller r \<and>
       nx_route r' = nx_route r \<and> nb_width (nx_buffers r') = nx_logical_width r \<and>
       nb_height (nx_buffers r') = nx_logical_height r) \<or>
    (res = Inr True \<and> nx_is_active r' \<and> buffers_source (nx_buffers r') = Some (ts_source s) \<and>
       buffers_destination (nx_buffers r') = None \<and> nx_route r' = Some (ts_route s) \<and>
       nx_request r' = Some (effective_request r s))"
proof -
  have "nx_inv r"
    unfolding r_def using nx_inv_new by (rule nav_runtime.total_run_inv)
  from this assms(2) show ?thesis
    by (cases rule: nx_begin_cases) (auto simp: buffers_source_def buffers_destination_def)
qed

text \<open>Ticks of a runtime that plays a transition whose destination is there are ticks of its controller.\<close>

lemma ready_ticks:
  "nx_deferred_request r = None \<Longrightarrow> nb_destination_ready (nx_buffers r) \<Longrightarrow>
     run_steps nx_apply r (map NxTick ticks) = r\<lparr>nx_controller := ctl_ticks (nx_controller r) (map (\<lambda>now_us. (now_us, True)) ticks)\<rparr>"
proof (induction ticks arbitrary: r)
  case (Cons now_us ticks)
  then have "nx_apply r (NxTick now_us) = r\<lparr>nx_controller := snd (ctl_tick (nx_controller r) now_us True)\<rparr>"
    by (simp add: nx_tick_def split_def Let_def)
  then show ?case
    using Cons by simp
qed simp

text \<open>
  C35: A deferred transition does not move before its destination is there, and then keeps to its schedule.
  In any runtime that can be reached, after a start that waits for its destination, any ticks within the
  preparation timeout leave the runtime as it is: the frame stays in the capture phase, which owns the full
  frame, with the source snapshot in place. When the destination is captured the clock starts at that time,
  and any later ticks find both snapshots in place and the transition expanding before the cover point,
  revealing between the cover point and the end, and settled at the destination from the end on.
\<close>

theorem deferred_transition_waits_for_destination:
  fixes ops :: "nx_op list" and w h :: nat and enabled :: bool and s :: transition_start and r r1 r2 :: nav_runtime
    and waits ticks :: "u64 list" and start :: u64
  defines "r \<equiv> run_steps nx_apply (runtime_new w h enabled) ops" and "q \<equiv> effective_request r s"
  assumes "nx_begin r s us at = (Inr True, r1)" and "ts_start s = AfterDestination"
    and "\<forall>now_us \<in> set waits. sat_sub now_us (ts_now_us s) < nq_preparation_timeout_us q"
    and "capture_destination (run_steps nx_apply r1 (map NxTick waits)) px start at' = (Inr (), r2)"
    and "ticks \<noteq> []" "times_from (unat start) (map (\<lambda>now_us. (now_us, True)) ticks)"
  defines "waiting \<equiv> run_steps nx_apply r1 (map NxTick waits)" and "r3 \<equiv> run_steps nx_apply r2 (map NxTick ticks)"
    and "elapsed \<equiv> unat (last ticks) - unat start"
  shows "nx_frame waiting = frame_default\<lparr>nf_phase := PhCapture, nf_owns_full_frame := True\<rparr> \<and>
    buffers_source (nx_buffers waiting) = Some (ts_source s) \<and> buffers_destination (nx_buffers waiting) = None \<and>
    buffers_source (nx_buffers r3) = Some (ts_source s) \<and> buffers_destination (nx_buffers r3) = Some px \<and>
    nf_phase (nx_frame r3) = (if elapsed < unat (cover_us q) then PhExpand
      else if elapsed < max (unat (total_us q)) (unat (cover_us q) + 1) then PhReveal else PhSettled) \<and>
    (nf_phase (nx_frame r3) = PhSettled \<longrightarrow> nf_endpoint (nx_frame r3) = Some EndDestination \<and> nf_failure (nx_frame r3) = None)"
proof -
  have "nx_inv r"
    unfolding r_def using nx_inv_new by (rule nav_runtime.total_run_inv)
  from this assms(3) have r1: "nx_inv r1" "nx_deferred_request r1 = Some q" "nx_deferred_started_us r1 = ts_now_us s"
    "buffers_source (nx_buffers r1) = Some (ts_source s)" "buffers_destination (nx_buffers r1) = None"
    by (cases rule: nx_begin_cases; simp add: assms(4) q_def buffers_source_def buffers_destination_def)+
  have waiting: "waiting = r1"
    using assms(5) unfolding waiting_def
  proof (induction waits)
    case (Cons now_us waits)
    then have "nx_apply r1 (NxTick now_us) = r1"
      using r1 by (auto simp: nx_tick_def not_le [symmetric])
    with Cons show ?case by simp
  qed simp
  define b where "b = (nx_buffers r1)\<lparr>nb_destination := px, nb_destination_ready := True\<rparr>"
  have "\<not> ctl_is_active (nx_controller r1)"
    using r1 by (simp add: nx_inv_def)
  define r' where "r' = r1\<lparr>nx_buffers := b, nx_pending_prepare_started := None\<rparr>"
  have "nx_deferred_request r' = Some q" "\<not> ctl_is_active (nx_controller r')"
    using r1 \<open>\<not> ctl_is_active (nx_controller r1)\<close> by (simp_all add: r'_def)
  from activate_frame [OF this, of start] obtain c where c:
    "activate_deferred r' start = (True, r'\<lparr>nx_deferred_request := None, nx_controller := c\<rparr>)"
    "ct_phase c = PhExpand" "ct_request c = Some q" "ct_phase_started_us c = start" "ct_progress_q16 c = 0"
    "ct_failure c = None"
    by blast
  obtain us' where r2: "r2 = r'\<lparr>nx_deferred_request := None, nx_controller := note_destination_prepared c us'\<rparr>"
    using assms(6) r1(2) c(1) unfolding waiting_def [symmetric] waiting
    by (auto simp: capture_destination_def buffers_capture_destination_def Let_def r'_def b_def split: if_splits)
  let ?d = "note_destination_prepared c us'" and ?ticks = "map (\<lambda>now_us. (now_us, True)) ticks"
  have d: "ct_request ?d = Some q" "ct_phase ?d = PhExpand" "ct_phase_started_us ?d = start" "ct_failure ?d = None"
    using c by (simp_all add: note_destination_prepared_def)
  have r3: "r3 = r2\<lparr>nx_controller := ctl_ticks ?d ?ticks\<rparr>"
    unfolding r3_def using ready_ticks [of r2 ticks] by (simp add: r2 r'_def b_def)
  have last: "fst (last ?ticks) = last ticks"
    using assms(7) by (simp add: last_map)
  have "nx_frame r3 = ctl_frame (ctl_ticks ?d ?ticks)" "buffers_source (nx_buffers r3) = Some (ts_source s)"
    "buffers_destination (nx_buffers r3) = Some px"
    using r1(4) by (simp_all add: r3 r2 nx_frame_def r'_def b_def buffers_source_def buffers_destination_def split: if_splits)
  then show ?thesis
    using ready_schedule [OF d(1,2), of ?ticks] assms(7,8) d(3,4) r1(2,4,5) last
    by (simp add: waiting nx_frame_def elapsed_def ctl_frame_def Let_def)
qed

section \<open>Witnesses\<close>

text \<open>A two-pixel launcher frame; the settings page waits for its destination, then plays.\<close>

definition small_runtime :: nav_runtime where
  "small_runtime = runtime_new 2 1 True"

definition page_start :: transition_start where
  "page_start = start_settings_page RouteSettingsToAbout Forward [7, 8] 100"

lemmas small_defs = small_runtime_def runtime_new_def page_start_def start_settings_page_def nx_begin_def
  begin_request_def buffers_new_def buffers_resize_def buffers_default_def resize_to_def begin_capture_def
  capture_source_def nx_is_active_def ctl_is_active_def controller_default_def Let_def

lemma page_begins: "fst (nx_begin small_runtime page_start 3 0) = Inr True"
  by (simp add: small_defs)

theorem idle_runtime_in_logical_raster_witness:
  "nb_width (nx_buffers (run_steps nx_apply (runtime_new 2 1 True)
      [NxBegin page_start 3 0, NxSettle, NxComplete])) = 2"
proof -
  let ?r = "run_steps nx_apply (runtime_new 2 1 True) [NxBegin page_start 3 0, NxSettle, NxComplete]"
  have "nx_enabled ?r" "\<not> nx_is_active ?r" "nx_logical_width ?r = 2"
    by (simp_all add: small_defs nx_settle_at_destination_def with_activation_def activate_deferred_def
        ctl_begin_def ctl_captured_def ctl_settle_at_destination_def nx_complete_def ctl_complete_def
        ctl_endpoint_def PROGRESS_MAX_def)
  with idle_runtime_in_logical_raster [of 2 1 True "[NxBegin page_start 3 0, NxSettle, NxComplete]"] show ?thesis
    by (simp del: run_steps.simps)
qed

theorem begin_is_all_or_nothing_witness:
  "buffers_source (nx_buffers (snd (nx_begin (run_steps nx_apply (runtime_new 2 1 True) []) page_start 3 0))) =
     Some [7, 8]"
proof -
  obtain r' where res: "nx_begin (run_steps nx_apply (runtime_new 2 1 True) []) page_start 3 0 = (Inr True, r')"
    using page_begins by (metis prod.collapse run_steps.simps(1) small_runtime_def)
  from begin_is_all_or_nothing [OF this] res show ?thesis
    by (simp add: page_start_def start_settings_page_def)
qed

lemma page_effective: "effective_request small_runtime page_start = ts_request page_start"
  by (simp add: effective_request_def small_runtime_def runtime_new_def)

theorem deferred_transition_waits_for_destination_witness:
  "\<exists>r2. capture_destination (run_steps nx_apply (snd (nx_begin small_runtime page_start 3 0)) (map NxTick [200, 900])) [9, 10] 1000 5 = (Inr (), r2) \<and>
     nf_phase (nx_frame (run_steps nx_apply r2 (map NxTick [1500, 2000000]))) = PhSettled \<and>
     nf_endpoint (nx_frame (run_steps nx_apply r2 (map NxTick [1500, 2000000]))) = Some EndDestination"
proof -
  obtain r1 where begun: "nx_begin small_runtime page_start 3 0 = (Inr True, r1)"
    using page_begins by (metis prod.collapse)
  have request: "effective_request small_runtime page_start = request_segmented_with_content_x Forward 266"
    by (simp only: page_effective) (simp add: page_start_def start_settings_page_def)
  have now: "ts_now_us page_start = 100" "ts_start page_start = AfterDestination"
    by (simp_all add: page_start_def start_settings_page_def)
  have waits: "\<forall>now_us \<in> set [200, 900]. sat_sub now_us (ts_now_us page_start) <
      nq_preparation_timeout_us (effective_request small_runtime page_start)"
    by (simp add: request now request_segmented_with_content_x_def page_defs sat_sub_def)
  have small: "unat (cover_us (effective_request small_runtime page_start)) \<le> 1000000"
    "unat (total_us (effective_request small_runtime page_start)) \<le> 1000000"
    using cover_us_le [of "effective_request small_runtime page_start"]
    by (simp_all add: request request_segmented_with_content_x_def page_defs)
  obtain r2 where captured: "capture_destination (run_steps nx_apply r1 (map NxTick [200, 900])) [9, 10] 1000 5 =
      (Inr (), r2)"
    using begun by (auto simp: small_defs nx_tick_def sat_sub_def request_segmented_with_content_x_def page_defs
        capture_destination_def buffers_capture_destination_def)
  have "times_from (unat (1000 :: u64)) (map (\<lambda>now_us. (now_us, True)) [1500, 2000000])"
    by simp
  then show ?thesis
    using deferred_transition_waits_for_destination [where ops = "[]" and w = 2 and h = 1 and enabled = True and s = page_start
        and us = 3 and at = 0 and waits = "[200, 900]" and px = "[9, 10]" and start = 1000 and at' = 5 and ticks = "[1500, 2000000]",
        folded small_runtime_def] begun now(2) waits captured small
    by (simp del: run_steps.simps(2) list.map)
qed

end
