(* ===== verification/Composition.thy ===== *)
theory Composition
  imports Prelude Navigation_Runtime
begin

text \<open>
  The composition controller, \<open>launcher_runtime/composition.rs\<close>: which of the interface's layers
  make up a frame, and the retirement of the two direct layers (the arcade list and its preview,
  which are drawn past the Slint raster). A direct layer that is on the glass and no longer wanted
  is owed a clearing frame; the controller tracks that debt as a retirement, which only the receipt
  of a presented frame can settle.
\<close>

section \<open>Data\<close>

datatype composition_state =
  CsFullSlint | CsMixedArcade | CsNavigationTransition | CsNavigationDestination | CsScreensaver
| CsModalFullSlint | CsModalOverArcade | CsRecovering

fun composition_label :: "composition_state \<Rightarrow> string" where
  "composition_label CsFullSlint = ''full-slint''"
| "composition_label CsMixedArcade = ''mixed-arcade''"
| "composition_label CsNavigationTransition = ''navigation-transition''"
| "composition_label CsNavigationDestination = ''navigation-destination''"
| "composition_label CsScreensaver = ''screensaver''"
| "composition_label CsModalFullSlint = ''modal-full-slint''"
| "composition_label CsModalOverArcade = ''modal-over-arcade''"
| "composition_label CsRecovering = ''recovering''"

definition allows_direct_layers :: "composition_state \<Rightarrow> bool" where
  "allows_direct_layers s = (s = CsMixedArcade \<or> s = CsModalOverArcade)"

record composition_input =
  ci_screensaver_active :: bool
  ci_transition_active :: bool
  ci_destination_committed :: bool
  ci_destination_ready :: bool
  ci_destination_layers_ready :: bool
  ci_return_screen :: "screen option"
  ci_confirm_visible :: bool
  ci_overlay_visible :: bool
  ci_arcade_ready :: bool
  ci_route_ok :: bool
  ci_wants_arcade_list :: bool
  ci_wants_preview :: bool
  ci_preview_cache_exact :: bool
  ci_preview_frame_ready :: bool

text \<open>\<open>DirectLayerObligations(u8)\<close>, a set of layers as bits.\<close>

type_synonym obligations = u8

definition ARCADE :: u8 where "ARCADE = 1"
definition PREVIEW :: u8 where "PREVIEW = 2"
definition ARCADE_AND_PREVIEW :: u8 where "ARCADE_AND_PREVIEW = ARCADE OR PREVIEW"

definition obligations_new :: "bool \<Rightarrow> bool \<Rightarrow> obligations" where
  "obligations_new arcade preview = (of_bool arcade * ARCADE) OR (of_bool preview * PREVIEW)"

definition obl_without :: "obligations \<Rightarrow> obligations \<Rightarrow> obligations" where
  "obl_without a b = a AND NOT b"

definition obl_is_empty :: "obligations \<Rightarrow> bool" where
  "obl_is_empty a = (a = 0)"

definition obl_union :: "obligations \<Rightarrow> obligations \<Rightarrow> obligations" where
  "obl_union a b = a OR b"

definition contains_arcade :: "obligations \<Rightarrow> bool" where
  "contains_arcade a = (a AND ARCADE \<noteq> 0)"

definition obligations_label :: "obligations \<Rightarrow> string" where
  "obligations_label a =
     (if a = ARCADE then ''arcade'' else if a = PREVIEW then ''preview''
      else if a = ARCADE_AND_PREVIEW then ''arcade+preview'' else ''none'')"

datatype layer_carrier =
  CarrierNavigation | CarrierModal | CarrierScreensaver | CarrierRecovery | CarrierLiveSlint

fun carrier_debug :: "layer_carrier \<Rightarrow> string" where
  "carrier_debug CarrierNavigation = ''Navigation''"
| "carrier_debug CarrierModal = ''Modal''"
| "carrier_debug CarrierScreensaver = ''Screensaver''"
| "carrier_debug CarrierRecovery = ''Recovery''"
| "carrier_debug CarrierLiveSlint = ''LiveSlint''"

record presentation_receipt =
  pr_sequence :: u16
  pr_slot :: u8
  pr_route_epoch :: u16
  pr_carrier :: layer_carrier

definition receipt_valid :: "presentation_receipt \<Rightarrow> bool" where
  "receipt_valid r = (pr_sequence r \<noteq> 0 \<and> pr_slot r \<le> 2)"

definition receipt_label :: "presentation_receipt \<Rightarrow> string" where
  "receipt_label r = ''sequence='' @ show_nat (unat (pr_sequence r)) @ '' slot='' @
     show_nat (unat (pr_slot r)) @ '' route_epoch='' @ show_nat (unat (pr_route_epoch r)) @
     '' carrier='' @ carrier_debug (pr_carrier r)"

datatype retirement_phase = RetIdle | RetPending | RetReconciling

fun retirement_label :: "retirement_phase \<Rightarrow> string" where
  "retirement_label RetIdle = ''idle''"
| "retirement_label RetPending = ''pending''"
| "retirement_label RetReconciling = ''reconciling''"

record retirement =
  ret_state :: retirement_phase
  ret_generation :: u64
  ret_obligations :: obligations
  ret_receipt :: "presentation_receipt option"

record composition_event =
  ce_name :: string
  ce_detail :: string

record composition_decision =
  cd_state :: composition_state
  cd_allow_arcade_list_blit :: bool
  cd_allow_preview_blit :: bool
  cd_transition_owns_full_frame :: bool
  cd_prepare_navigation_destination :: bool
  cd_force_full_slint_raster :: bool
  cd_force_full_slint_present :: bool
  cd_clear_direct_layers :: bool
  cd_direct_layers_desired :: obligations
  cd_retirement_generation :: "u64 option"
  cd_retirement_carrier :: layer_carrier
  cd_retirement_state :: string
  cd_retirement_obligations :: obligations
  cd_retirement_receipt :: "presentation_receipt option"
  cd_recovery_count :: u64
  cd_last_invariant_kind :: string
  cd_last_invariant_detail :: string
  cd_events :: "composition_event list"

record composition_status =
  cst_state :: string
  cst_preview_state :: string
  cst_preview_generation :: u64
  cst_retirement_state :: string
  cst_retirement_generation :: u64
  cst_retirement_obligations :: string
  cst_retirement_receipt :: string
  cst_retirement_receipt_sequence :: u16
  cst_retirement_receipt_slot :: u8
  cst_retirement_receipt_route_epoch :: u16
  cst_recovery_count :: u64
  cst_last_invariant_kind :: string
  cst_last_invariant_detail :: string

definition composition_status_default :: composition_status where
  "composition_status_default =
     \<lparr>cst_state = composition_label CsFullSlint, cst_preview_state = ''detached'',
      cst_preview_generation = 0, cst_retirement_state = ''idle'', cst_retirement_generation = 0,
      cst_retirement_obligations = ''none'', cst_retirement_receipt = [],
      cst_retirement_receipt_sequence = 0, cst_retirement_receipt_slot = 0,
      cst_retirement_receipt_route_epoch = 0, cst_recovery_count = 0,
      cst_last_invariant_kind = [], cst_last_invariant_detail = []\<rparr>"

definition clears_arcade_layer :: "composition_decision \<Rightarrow> bool" where
  "clears_arcade_layer d =
     (cd_clear_direct_layers d \<and>
      (\<not> allows_direct_layers (cd_state d) \<or> contains_arcade (cd_retirement_obligations d)))"

definition decision_status :: "composition_decision \<Rightarrow> composition_status" where
  "decision_status d =
     (let r = cd_retirement_receipt d in
      \<lparr>cst_state = composition_label (cd_state d), cst_preview_state = ''detached'',
       cst_preview_generation = 0, cst_retirement_state = cd_retirement_state d,
       cst_retirement_generation = (case cd_retirement_generation d of None \<Rightarrow> 0 | Some g \<Rightarrow> g),
       cst_retirement_obligations = obligations_label (cd_retirement_obligations d),
       cst_retirement_receipt = (case r of None \<Rightarrow> [] | Some q \<Rightarrow> receipt_label q),
       cst_retirement_receipt_sequence = (case r of None \<Rightarrow> 0 | Some q \<Rightarrow> pr_sequence q),
       cst_retirement_receipt_slot = (case r of None \<Rightarrow> 0 | Some q \<Rightarrow> pr_slot q),
       cst_retirement_receipt_route_epoch = (case r of None \<Rightarrow> 0 | Some q \<Rightarrow> pr_route_epoch q),
       cst_recovery_count = cd_recovery_count d,
       cst_last_invariant_kind = cd_last_invariant_kind d,
       cst_last_invariant_detail = cd_last_invariant_detail d\<rparr>)"

section \<open>The controller\<close>

record composition =
  co_state :: composition_state
  co_recovery_count :: u64
  co_last_invariant_kind :: string
  co_last_invariant_detail :: string
  co_owned :: obligations
  co_generation :: u64
  co_retirement :: "retirement option"
  co_last_generation :: "u64 option"
  co_last_receipt :: "presentation_receipt option"

definition composition_new :: composition where
  "composition_new =
     \<lparr>co_state = CsFullSlint, co_recovery_count = 0, co_last_invariant_kind = [],
      co_last_invariant_detail = [], co_owned = 0, co_generation = 0, co_retirement = None,
      co_last_generation = None, co_last_receipt = None\<rparr>"

definition arcade_return :: "composition_input \<Rightarrow> bool" where
  "arcade_return i = (ci_return_screen i = Some ScreenArcade \<and> ci_arcade_ready i)"

definition requested_state :: "composition_input \<Rightarrow> composition_state" where
  "requested_state i =
     (if ci_screensaver_active i then CsScreensaver
      else if ci_overlay_visible i then CsModalFullSlint
      else if ci_confirm_visible i then (if arcade_return i then CsModalOverArcade else CsModalFullSlint)
      else if ci_transition_active i then
        (if ci_destination_committed i \<and> \<not> ci_destination_ready i \<and> ci_destination_layers_ready i
         then CsNavigationDestination else CsNavigationTransition)
      else if arcade_return i then CsMixedArcade else CsFullSlint)"

text \<open>\<open>CompositionInvariant\<close> as the pair of its kind and its detail.\<close>

definition composition_invariant ::
  "composition_input \<Rightarrow> composition_state \<Rightarrow> (string \<times> string) option" where
  "composition_invariant i requested =
     (if \<not> ci_route_ok i then
        Some (''route-invalid'', ''requested_state='' @ composition_label requested)
      else if (\<not> ci_screensaver_active i \<and> \<not> ci_overlay_visible i \<and> \<not> ci_transition_active i \<and>
          (ci_wants_arcade_list i \<or> ci_wants_preview i)) \<and> \<not> allows_direct_layers requested then
        Some (''direct-layer-outside-arcade'',
          ''requested_state='' @ composition_label requested @
          '' wants_arcade_list='' @ show_bool (ci_wants_arcade_list i) @
          '' wants_preview='' @ show_bool (ci_wants_preview i))
      else None)"

fun retirement_carrier :: "composition_state \<Rightarrow> layer_carrier" where
  "retirement_carrier CsNavigationTransition = CarrierNavigation"
| "retirement_carrier CsNavigationDestination = CarrierNavigation"
| "retirement_carrier CsScreensaver = CarrierScreensaver"
| "retirement_carrier CsModalFullSlint = CarrierModal"
| "retirement_carrier CsModalOverArcade = CarrierModal"
| "retirement_carrier CsRecovering = CarrierRecovery"
| "retirement_carrier CsFullSlint = CarrierLiveSlint"
| "retirement_carrier CsMixedArcade = CarrierLiveSlint"

text \<open>
  The first half of \<open>tick\<close>: the next state, with \<open>force_full_slint_present\<close>,
  \<open>force_full_slint_raster\<close> and \<open>clear_direct_layers\<close> and the events so far.
\<close>

definition tick_state ::
  "composition \<Rightarrow> composition_input \<Rightarrow> composition \<times> bool \<times> bool \<times> bool \<times> composition_event list" where
  "tick_state c i =
     (let requested = requested_state i; previous = co_state c in
      case composition_invariant i requested of
        Some (kind, detail) \<Rightarrow>
          (c\<lparr>co_state := CsRecovering, co_recovery_count := sat_add (co_recovery_count c) 1,
             co_last_invariant_kind := kind, co_last_invariant_detail := detail\<rparr>,
           True, False, True,
           [\<lparr>ce_name = ''ui_composition_invariant_failed'',
             ce_detail = ''from='' @ composition_label previous @ '' kind='' @ kind @
               '' detail='' @ detail\<rparr>])
      | None \<Rightarrow>
          (let events = (if previous = CsRecovering
                 then [\<lparr>ce_name = ''ui_composition_recovered'',
                        ce_detail = ''to='' @ composition_label requested\<rparr>] else []);
               full_frame = (previous \<noteq> requested \<or> requested = CsModalOverArcade);
               entering_screensaver = (previous \<noteq> CsScreensaver \<and> requested = CsScreensaver);
               clear_layers = (entering_screensaver \<or>
                 (previous \<noteq> requested \<and> allows_direct_layers previous \<and>
                  (\<not> allows_direct_layers requested \<or> requested = CsModalOverArcade)));
               force_full_raster = (requested = CsNavigationDestination)
           in (c\<lparr>co_state := requested\<rparr>, full_frame \<or> force_full_raster, force_full_raster,
               clear_layers, events)))"

definition state_changed_event :: "composition_state \<Rightarrow> composition_state \<Rightarrow> composition_event list" where
  "state_changed_event previous now =
     (if previous \<noteq> now
      then [\<lparr>ce_name = ''ui_composition_state_changed'',
             ce_detail = ''from='' @ composition_label previous @ '' to='' @ composition_label now\<rparr>]
      else [])"

definition layers_desired :: "composition_state \<Rightarrow> composition_input \<Rightarrow> obligations" where
  "layers_desired s i =
     (if s = CsMixedArcade then obligations_new (ci_wants_arcade_list i) (ci_wants_preview i) else 0)"

text \<open>The bookkeeping of the layers that are owned and no longer desired.\<close>

definition owe_retirement :: "composition \<Rightarrow> obligations \<Rightarrow> composition \<times> composition_event list" where
  "owe_retirement c illegal =
     (if obl_is_empty illegal then (c, [])
      else case co_retirement c of
        Some r \<Rightarrow>
          (c\<lparr>co_retirement := Some (r\<lparr>ret_obligations := obl_union (ret_obligations r) illegal\<rparr>)\<rparr>, [])
      | None \<Rightarrow>
          (let g = max (co_generation c + 1) 1 in
           (c\<lparr>co_generation := g,
              co_retirement := Some \<lparr>ret_state = RetPending, ret_generation = g,
                ret_obligations = illegal, ret_receipt = None\<rparr>\<rparr>,
            [\<lparr>ce_name = ''direct_layer_retirement_started'',
              ce_detail = ''generation='' @ show_nat (unat g) @ '' obligations='' @
                obligations_label illegal\<rparr>])))"

definition composition_tick ::
  "composition \<Rightarrow> composition_input \<Rightarrow> composition_decision \<times> composition" where
  "composition_tick c i =
     (let previous = co_state c;
          (c1, present, raster, clear, events1) = tick_state c i;
          s = co_state c1;
          events2 = state_changed_event previous s;
          desired = layers_desired s i;
          illegal = obl_without (co_owned c1) desired;
          (c2, events3) = owe_retirement c1 illegal;
          present' = (if s = CsModalOverArcade \<and> previous = s \<and> co_retirement c2 = None \<and>
              co_last_generation c2 = Some (co_generation c2) \<and>
              (case co_last_receipt c2 of None \<Rightarrow> False | Some r \<Rightarrow> pr_carrier r = CarrierModal)
            then False else present)
      in (\<lparr>cd_state = s,
           cd_allow_arcade_list_blit = (s = CsMixedArcade),
           cd_allow_preview_blit = (s = CsMixedArcade \<and>
             (\<not> ci_preview_cache_exact i \<or> ci_preview_frame_ready i)),
           cd_transition_owns_full_frame =
             (s = CsNavigationTransition \<or> s = CsNavigationDestination),
           cd_prepare_navigation_destination = (s = CsNavigationDestination),
           cd_force_full_slint_raster = raster,
           cd_force_full_slint_present = present',
           cd_clear_direct_layers = (clear \<or> \<not> obl_is_empty illegal),
           cd_direct_layers_desired = desired,
           cd_retirement_generation = map_option ret_generation (co_retirement c2),
           cd_retirement_carrier = retirement_carrier s,
           cd_retirement_state = retirement_label
             (case co_retirement c2 of None \<Rightarrow> RetIdle | Some r \<Rightarrow> ret_state r),
           cd_retirement_obligations =
             (case co_retirement c2 of None \<Rightarrow> 0 | Some r \<Rightarrow> ret_obligations r),
           cd_retirement_receipt =
             (case co_retirement c2 of
                Some r \<Rightarrow> (case ret_receipt r of None \<Rightarrow> co_last_receipt c2 | Some q \<Rightarrow> Some q)
              | None \<Rightarrow> co_last_receipt c2),
           cd_recovery_count = co_recovery_count c2,
           cd_last_invariant_kind = co_last_invariant_kind c2,
           cd_last_invariant_detail = co_last_invariant_detail c2,
           cd_events = events1 @ events2 @ events3\<rparr>, c2))"

definition confirm_presented_layers ::
  "composition \<Rightarrow> u64 option \<Rightarrow> obligations \<Rightarrow> presentation_receipt \<Rightarrow> bool \<times> composition" where
  "confirm_presented_layers c generation desired receipt =
     (if \<not> receipt_valid receipt then (False, c)
      else case (generation, co_retirement c) of
        (Some g, Some r) \<Rightarrow>
          (if g = ret_generation r
           then (True, c\<lparr>co_owned := desired, co_last_generation := Some g,
                  co_last_receipt := Some receipt, co_retirement := None\<rparr>)
           else (False, c))
      | (None, None) \<Rightarrow> (False, c\<lparr>co_owned := desired\<rparr>)
      | _ \<Rightarrow> (False, c))"

definition mark_retirement_uncertain :: "composition \<Rightarrow> u64 \<Rightarrow> bool \<times> composition" where
  "mark_retirement_uncertain c generation =
     (case co_retirement c of
        None \<Rightarrow> (False, c)
      | Some r \<Rightarrow>
          (if ret_generation r \<noteq> generation then (False, c)
           else (True, c\<lparr>co_retirement := Some (r\<lparr>ret_state := RetReconciling\<rparr>)\<rparr>)))"

definition reconcile_retirement ::
  "composition \<Rightarrow> u64 \<Rightarrow> obligations \<Rightarrow> presentation_receipt \<Rightarrow> bool \<times> composition" where
  "reconcile_retirement c generation desired receipt =
     (case co_retirement c of
        None \<Rightarrow> (False, c)
      | Some r \<Rightarrow>
          (if ret_state r \<noteq> RetReconciling then (False, c)
           else confirm_presented_layers c (Some generation) desired receipt))"

section \<open>What a tick decides\<close>

lemmas tick_defs = composition_tick_def tick_state_def owe_retirement_def Let_def

lemma tick_state_broken:
  "composition_invariant i (requested_state i) = Some (kind, detail) \<Longrightarrow>
   tick_state c i =
     (c\<lparr>co_state := CsRecovering, co_recovery_count := sat_add (co_recovery_count c) 1,
        co_last_invariant_kind := kind, co_last_invariant_detail := detail\<rparr>,
      True, False, True,
      [\<lparr>ce_name = ''ui_composition_invariant_failed'',
        ce_detail = ''from='' @ composition_label (co_state c) @ '' kind='' @ kind @ '' detail='' @ detail\<rparr>])"
  by (simp add: tick_state_def Let_def)

lemma tick_state_sound:
  assumes "composition_invariant i (requested_state i) = None"
  obtains raster clear where "tick_state c i =
    (c\<lparr>co_state := requested_state i\<rparr>,
     co_state c \<noteq> requested_state i \<or> requested_state i = CsModalOverArcade \<or> raster, raster, clear,
     if co_state c = CsRecovering
     then [\<lparr>ce_name = ''ui_composition_recovered'', ce_detail = ''to='' @ composition_label (requested_state i)\<rparr>]
     else [])"
  using assms by (simp add: tick_state_def Let_def)

lemma tick_state_co:
  assumes "tick_state c i = (c1, present, raster, clear, events)"
  shows "co_owned c1 = co_owned c \<and> co_generation c1 = co_generation c \<and> co_retirement c1 = co_retirement c \<and>
     co_last_generation c1 = co_last_generation c \<and> co_last_receipt c1 = co_last_receipt c \<and>
     co_state c1 = (if composition_invariant i (requested_state i) = None then requested_state i
       else CsRecovering)"
proof (cases "composition_invariant i (requested_state i)")
  case None
  show ?thesis
    by (rule tick_state_sound [OF None, of c]) (use assms None in auto)
next
  case (Some k)
  then show ?thesis
    using assms by (cases k) (auto simp: tick_state_broken)
qed

lemma tick_components:
  assumes "composition_tick c i = (d, c')"
  obtains c1 present raster clear events1 events3 where
    "tick_state c i = (c1, present, raster, clear, events1)"
    "owe_retirement c1 (obl_without (co_owned c) (layers_desired (co_state c1) i)) = (c', events3)"
    "cd_state d = co_state c1"
    "cd_direct_layers_desired d = layers_desired (co_state c1) i"
    "cd_allow_arcade_list_blit d = (co_state c1 = CsMixedArcade)"
    "cd_allow_preview_blit d = (co_state c1 = CsMixedArcade \<and>
       (\<not> ci_preview_cache_exact i \<or> ci_preview_frame_ready i))"
    "cd_retirement_generation d = map_option ret_generation (co_retirement c')"
    "cd_retirement_carrier d = retirement_carrier (co_state c1)"
    "cd_clear_direct_layers d =
       (clear \<or> \<not> obl_is_empty (obl_without (co_owned c) (layers_desired (co_state c1) i)))"
    "cd_retirement_obligations d = (case co_retirement c' of None \<Rightarrow> 0 | Some r \<Rightarrow> ret_obligations r)"
    "cd_recovery_count d = co_recovery_count c'"
    "cd_last_invariant_kind d = co_last_invariant_kind c'"
    "cd_last_invariant_detail d = co_last_invariant_detail c'"
    "cd_events d = events1 @ state_changed_event (co_state c) (co_state c1) @ events3"
    "cd_force_full_slint_present d = (present \<and> \<not> (co_state c1 = CsModalOverArcade \<and> co_state c = co_state c1 \<and>
       co_retirement c' = None \<and> co_last_generation c' = Some (co_generation c') \<and>
       (case co_last_receipt c' of None \<Rightarrow> False | Some r \<Rightarrow> pr_carrier r = CarrierModal)))"
proof -
  obtain c1 present raster clear events1 where t: "tick_state c i = (c1, present, raster, clear, events1)"
    by (metis prod.collapse)
  have own: "co_owned c1 = co_owned c"
    using tick_state_co [OF t] by simp
  obtain c2 events3 where
    o: "owe_retirement c1 (obl_without (co_owned c) (layers_desired (co_state c1) i)) = (c2, events3)"
    by (metis prod.collapse)
  show thesis
    by (rule that [where ?c1.0 = c1 and present = present and raster = raster and clear = clear and ?events1.0 = events1 and ?events3.0 = events3])
      (use assms own in \<open>auto simp: composition_tick_def Let_def t o split: if_splits\<close>)
qed

lemma owe_retirement_keeps:
  "owe_retirement c illegal = (c', events) \<Longrightarrow>
     co_state c' = co_state c \<and> co_owned c' = co_owned c \<and>
     co_last_generation c' = co_last_generation c \<and> co_last_receipt c' = co_last_receipt c"
  by (auto simp: owe_retirement_def Let_def split: if_splits option.splits)

lemma owe_retirement_reports:
  "owe_retirement c illegal = (c', events) \<Longrightarrow>
     co_recovery_count c' = co_recovery_count c \<and>
     co_last_invariant_kind c' = co_last_invariant_kind c \<and>
     co_last_invariant_detail c' = co_last_invariant_detail c \<and>
     (\<forall>e \<in> set events. ce_name e = ''direct_layer_retirement_started'')"
  by (auto simp: owe_retirement_def Let_def split: if_splits option.splits)

lemma tick_keeps:
  assumes "composition_tick c i = (d, c')"
  shows "co_owned c' = co_owned c" and "co_last_generation c' = co_last_generation c"
    and "co_last_receipt c' = co_last_receipt c" and "co_state c' = cd_state d"
proof -
  from assms obtain c1 present raster clear events1 events3 where
    1: "tick_state c i = (c1, present, raster, clear, events1)" and
    2: "owe_retirement c1 (obl_without (co_owned c) (layers_desired (co_state c1) i)) = (c', events3)" and
    3: "cd_state d = co_state c1"
    by (rule tick_components)
  note k = tick_state_co [OF 1] owe_retirement_keeps [OF 2]
  show "co_owned c' = co_owned c" "co_last_generation c' = co_last_generation c"
    "co_last_receipt c' = co_last_receipt c" "co_state c' = cd_state d"
    using k 3 by simp_all
qed

lemma tick_decided_state:
  assumes "composition_tick c i = (d, c')"
  shows "cd_state d = (if composition_invariant i (requested_state i) = None then requested_state i
    else CsRecovering)"
proof -
  from assms obtain c1 present raster clear events1 where
    1: "tick_state c i = (c1, present, raster, clear, events1)" and 2: "cd_state d = co_state c1"
    by (rule tick_components)
  show ?thesis
    using tick_state_co [OF 1] 2 by simp
qed

lemma tick_permissions:
  assumes "composition_tick c i = (d, c')"
  shows "cd_allow_arcade_list_blit d = (cd_state d = CsMixedArcade)"
    and "cd_allow_preview_blit d = (cd_state d = CsMixedArcade \<and>
      (\<not> ci_preview_cache_exact i \<or> ci_preview_frame_ready i))"
    and "cd_direct_layers_desired d = layers_desired (cd_state d) i"
  by (rule tick_components [OF assms], simp)+

lemma requested_MixedArcade:
  "requested_state i = CsMixedArcade \<longleftrightarrow>
     \<not> ci_screensaver_active i \<and> \<not> ci_overlay_visible i \<and> \<not> ci_confirm_visible i \<and>
     \<not> ci_transition_active i \<and> ci_return_screen i = Some ScreenArcade \<and> ci_arcade_ready i"
  by (auto simp: requested_state_def arcade_return_def)

text \<open>
  The direct layers are blitted only over the live arcade screen: whenever a decision allows the
  arcade list or its preview, the route is healthy, the arcade screen is ready and nothing covers
  it - no screensaver, overlay, dialog or transition; the preview additionally waits for an exact
  preview frame when the cache demands one.
\<close>
theorem blits_only_on_live_arcade:
  assumes "composition_tick c i = (d, c')"
    and "cd_allow_arcade_list_blit d \<or> cd_allow_preview_blit d \<or> cd_direct_layers_desired d \<noteq> 0"
  shows "ci_route_ok i \<and> ci_return_screen i = Some ScreenArcade \<and> ci_arcade_ready i \<and>
    \<not> ci_screensaver_active i \<and> \<not> ci_overlay_visible i \<and> \<not> ci_confirm_visible i \<and>
    \<not> ci_transition_active i \<and> cd_allow_arcade_list_blit d \<and>
    (cd_allow_preview_blit d \<longleftrightarrow> \<not> ci_preview_cache_exact i \<or> ci_preview_frame_ready i)"
proof -
  note p = tick_permissions [OF assms(1)]
  have m: "cd_state d = CsMixedArcade"
    using assms(2) p by (auto simp: layers_desired_def split: if_splits)
  then have "composition_invariant i (requested_state i) = None" and "requested_state i = CsMixedArcade"
    using tick_decided_state [OF assms(1)] by (auto split: if_splits)
  moreover from this have "ci_route_ok i"
    by (auto simp: composition_invariant_def split: if_splits)
  ultimately show ?thesis
    using p m requested_MixedArcade [of i] by simp
qed

section \<open>Retirement\<close>

text \<open>The bits of the two layers.\<close>

lemma obl_without_subset: "obl_without a b AND NOT b = obl_without a b" "obl_without a b AND a = obl_without a b"
  by (simp_all add: obl_without_def word_bw_assocs)
    (metis word_bw_comms(1) word_bw_lcs(1) word_bw_same(1))

text \<open>The debt: every layer on the glass that the decision does not want is in the obligations.\<close>

definition debt_covered :: "composition \<Rightarrow> obligations \<Rightarrow> bool" where
  "debt_covered c desired =
     (obl_without (obl_without (co_owned c) desired)
        (case co_retirement c of None \<Rightarrow> 0 | Some r \<Rightarrow> ret_obligations r) = 0)"

definition composition_inv :: "composition \<Rightarrow> bool" where
  "composition_inv c =
     ((case co_retirement c of None \<Rightarrow> True
       | Some r \<Rightarrow> ret_generation r = co_generation c \<and> ret_generation r \<noteq> 0 \<and>
           ret_obligations r \<noteq> 0 \<and> ret_state r \<noteq> RetIdle \<and> ret_receipt r = None) \<and>
      (case co_last_generation c of None \<Rightarrow> co_last_receipt c = None
       | Some g \<Rightarrow> g \<noteq> 0 \<and> (\<exists>r. co_last_receipt c = Some r \<and> receipt_valid r)))"

datatype composition_op =
  OpTick composition_input
| OpConfirm "u64 option" obligations presentation_receipt
| OpUncertain u64
| OpReconcile u64 obligations presentation_receipt

fun composition_step :: "composition \<Rightarrow> composition_op \<Rightarrow> composition" where
  "composition_step c (OpTick i) = snd (composition_tick c i)"
| "composition_step c (OpConfirm g desired receipt) = snd (confirm_presented_layers c g desired receipt)"
| "composition_step c (OpUncertain g) = snd (mark_retirement_uncertain c g)"
| "composition_step c (OpReconcile g desired receipt) = snd (reconcile_retirement c g desired receipt)"

lemma owe_retirement_None:
  "illegal \<noteq> 0 \<Longrightarrow> co_retirement c = None \<Longrightarrow> owe_retirement c illegal = (c', events) \<Longrightarrow>
   c' = c\<lparr>co_generation := max (co_generation c + 1) 1,
     co_retirement := Some \<lparr>ret_state = RetPending, ret_generation = max (co_generation c + 1) 1,
       ret_obligations = illegal, ret_receipt = None\<rparr>\<rparr>"
  by (simp add: owe_retirement_def obl_is_empty_def Let_def)

lemma owe_retirement_Some:
  "illegal \<noteq> 0 \<Longrightarrow> co_retirement c = Some r \<Longrightarrow> owe_retirement c illegal = (c', events) \<Longrightarrow>
   c' = c\<lparr>co_retirement := Some (r\<lparr>ret_obligations := ret_obligations r OR illegal\<rparr>)\<rparr>"
  by (simp add: owe_retirement_def obl_is_empty_def obl_union_def)

lemma owe_retirement_0: "owe_retirement c 0 = (c', events) \<Longrightarrow> c' = c \<and> events = []"
  by (simp add: owe_retirement_def obl_is_empty_def)

lemma owe_retirement_inv:
  assumes "composition_inv c" and "owe_retirement c illegal = (c', events)"
  shows "composition_inv c'"
proof (cases "illegal = 0")
  case True
  with assms show ?thesis by (auto dest: owe_retirement_0)
next
  case False
  show ?thesis
  proof (cases "co_retirement c")
    case None
    show ?thesis
      unfolding owe_retirement_None [OF False None assms(2)]
      using assms(1) False by (simp add: composition_inv_def cong: option.case_cong)
  next
    case (Some r)
    show ?thesis
      unfolding owe_retirement_Some [OF False Some assms(2)]
      using assms(1) Some by (auto simp: composition_inv_def or_eq_0_iff cong: option.case_cong)
  qed
qed

lemma composition_inv_cong:
  "co_retirement c = co_retirement c' \<Longrightarrow> co_generation c = co_generation c' \<Longrightarrow>
   co_last_generation c = co_last_generation c' \<Longrightarrow> co_last_receipt c = co_last_receipt c' \<Longrightarrow>
   composition_inv c = composition_inv c'"
  by (simp add: composition_inv_def cong: option.case_cong)

lemma composition_tick_inv:
  assumes "composition_inv c" shows "composition_inv (snd (composition_tick c i))"
proof -
  obtain d c' where t: "composition_tick c i = (d, c')"
    by (metis prod.collapse)
  then obtain c1 present raster clear events1 events3 where
    1: "tick_state c i = (c1, present, raster, clear, events1)" and
    2: "owe_retirement c1 (obl_without (co_owned c) (layers_desired (co_state c1) i)) = (c', events3)"
    by (rule tick_components)
  have "composition_inv c1"
    using assms tick_state_co [OF 1] composition_inv_cong [of c1 c] by simp
  with 2 t show ?thesis
    by (auto intro: owe_retirement_inv)
qed

lemma confirm_inv:
  assumes "composition_inv c"
  shows "composition_inv (snd (confirm_presented_layers c g desired receipt))"
  using assms
  by (auto simp: confirm_presented_layers_def composition_inv_def split: option.splits)

interpretation composition_machine: total_machine composition_step composition_inv
proof
  fix c e
  assume "composition_inv c"
  then show "composition_inv (composition_step c e)"
  proof (cases e)
    case (OpUncertain g)
    with \<open>composition_inv c\<close> show ?thesis
      by (auto simp: mark_retirement_uncertain_def composition_inv_def split: option.splits)
  next
    case (OpReconcile g desired receipt)
    with \<open>composition_inv c\<close> show ?thesis
      using confirm_inv [of c "Some g" desired receipt]
      by (auto simp: reconcile_retirement_def split: option.splits)
  qed (simp_all add: composition_tick_inv confirm_inv)
qed

lemma composition_inv_new: "composition_inv composition_new"
  by (simp add: composition_inv_def composition_new_def)


text \<open>
  Every run of the controller keeps its bookkeeping consistent: a pending retirement carries the
  newest generation, which is never zero, owes at least one layer and is either pending or being
  reconciled; and the last settled generation always has the valid receipt that settled it.
\<close>
theorem composition_runs_stay_consistent:
  "composition_inv (run_steps composition_step composition_new ops)"
  by (rule composition_machine.total_run_inv) (rule composition_inv_new)

text \<open>What each operation does to a retirement.\<close>

lemma confirm_retirement:
  assumes "co_retirement c = Some r"
  shows "confirm_presented_layers c g desired receipt =
    (if receipt_valid receipt \<and> g = Some (ret_generation r)
     then (True, c\<lparr>co_owned := desired, co_last_generation := g, co_last_receipt := Some receipt,
            co_retirement := None\<rparr>)
     else (False, c))"
  using assms by (auto simp: confirm_presented_layers_def split: option.splits)

lemma owe_retirement_grows:
  assumes "owe_retirement c illegal = (c', events)" and "co_retirement c = Some r"
  shows "\<exists>r'. co_retirement c' = Some r' \<and> ret_generation r' = ret_generation r \<and>
    ret_state r' = ret_state r \<and> obl_without (ret_obligations r) (ret_obligations r') = 0"
  using assms
  by (auto simp: owe_retirement_def obl_without_def obl_union_def bit_eq_iff bit_simps split: if_splits)

lemma tick_grows:
  assumes "composition_tick c i = (d, c')" and "co_retirement c = Some r"
  shows "\<exists>r'. co_retirement c' = Some r' \<and> ret_generation r' = ret_generation r \<and>
    ret_state r' = ret_state r \<and> obl_without (ret_obligations r) (ret_obligations r') = 0"
proof -
  from assms(1) obtain c1 present raster clear events1 events3 where
    1: "tick_state c i = (c1, present, raster, clear, events1)" and
    2: "owe_retirement c1 (obl_without (co_owned c) (layers_desired (co_state c1) i)) = (c', events3)"
    by (rule tick_components)
  have "co_retirement c1 = Some r"
    using tick_state_co [OF 1] assms(2) by simp
  with 2 show ?thesis
    by (rule owe_retirement_grows)
qed

text \<open>The receipt by which an operation settles a retirement, with the layers it says are on the glass.\<close>

fun settling :: "retirement \<Rightarrow> composition_op \<Rightarrow> (obligations \<times> presentation_receipt) option" where
  "settling r (OpConfirm generation desired receipt) =
     (if receipt_valid receipt \<and> generation = Some (ret_generation r) then Some (desired, receipt) else None)"
| "settling r (OpReconcile generation desired receipt) =
     (if receipt_valid receipt \<and> generation = ret_generation r \<and> ret_state r = RetReconciling then Some (desired, receipt) else None)"
| "settling r _ = None"

text \<open>
  C25: A debt is settled by a presented frame and by nothing else. The confirmation that names exactly the
  generation of a pending retirement with a valid receipt (nonzero sequence, slot at most 2), and the
  reconciliation of an uncertain one that does, clear it and record the layers on the glass, the generation
  and the receipt. Every other operation leaves the debt standing under its generation: ticks only add layers
  to it, marking it uncertain keeps its layers, and other confirmations and reconciliations change nothing.
\<close>
theorem retirement_settled_only_by_receipt:
  assumes "co_retirement c = Some r" and "c' = composition_step c step"
  shows "case settling r step of
      Some (desired, receipt) \<Rightarrow> co_retirement c' = None \<and> co_owned c' = desired \<and>
        co_last_generation c' = Some (ret_generation r) \<and> co_last_receipt c' = Some receipt
    | None \<Rightarrow> (\<exists>r'. co_retirement c' = Some r' \<and> ret_generation r' = ret_generation r \<and>
          obl_without (ret_obligations r) (ret_obligations r') = 0 \<and>
          ((\<exists>i. step = OpTick i) \<or> ret_obligations r' = ret_obligations r)) \<and>
        ((\<exists>i. step = OpTick i) \<or> step = OpUncertain (ret_generation r) \<or> c' = c)"
proof (cases step)
  case (OpTick i)
  then show ?thesis
    using assms tick_grows [of c i] by (cases "composition_tick c i") fastforce
next
  case (OpConfirm g desired receipt)
  then show ?thesis
    using assms by (simp add: confirm_retirement obl_without_def)
next
  case (OpUncertain g)
  then show ?thesis
    using assms by (simp add: mark_retirement_uncertain_def obl_without_def)
next
  case (OpReconcile g desired receipt)
  then show ?thesis
    using assms by (simp add: reconcile_retirement_def confirm_retirement obl_without_def)
qed

lemma obl_without_eq_0: "obl_without a b = 0 \<longleftrightarrow> a AND b = a"
  by (auto simp: obl_without_def bit_eq_iff bit_simps)

lemma owe_retirement_covers:
  assumes "owe_retirement c illegal = (c', events)"
  shows "obl_without illegal (case co_retirement c' of None \<Rightarrow> 0 | Some r \<Rightarrow> ret_obligations r) = 0"
  using assms
  by (auto simp: owe_retirement_def Let_def obl_is_empty_def obl_without_def obl_union_def
      bit_eq_iff bit_simps split: if_splits option.splits)

text \<open>
  C24: No layer is left on the glass unaccounted for: after every tick each direct layer that is
  owned and not wanted by this frame is among the obligations of a pending retirement, the decision
  tells the renderer to clear, and it hands out the retirement's generation so that the presented
  frame can settle it.
\<close>
theorem unwanted_layers_are_owed:
  assumes "composition_tick c i = (d, c')"
  shows "debt_covered c' (cd_direct_layers_desired d) \<and>
    (obl_without (co_owned c') (cd_direct_layers_desired d) = 0 \<or>
     cd_clear_direct_layers d \<and> (\<exists>r. co_retirement c' = Some r \<and> cd_retirement_generation d = Some (ret_generation r)))"
proof -
  from assms obtain c1 present raster clear events1 events3 where
    2: "owe_retirement c1 (obl_without (co_owned c) (layers_desired (co_state c1) i)) = (c', events3)" and
    3: "cd_direct_layers_desired d = layers_desired (co_state c1) i" and
    4: "cd_retirement_generation d = map_option ret_generation (co_retirement c')" and
    5: "cd_clear_direct_layers d =
       (clear \<or> \<not> obl_is_empty (obl_without (co_owned c) (layers_desired (co_state c1) i)))"
    by (rule tick_components)
  have o: "co_owned c' = co_owned c"
    using tick_keeps(1) [OF assms] .
  have "obl_without (co_owned c) (layers_desired (co_state c1) i) \<noteq> 0 \<Longrightarrow> co_retirement c' \<noteq> None"
    using 2 by (auto simp: owe_retirement_def obl_is_empty_def Let_def split: option.splits)
  then show ?thesis
    using owe_retirement_covers [OF 2] 3 4 5 o by (auto simp: debt_covered_def obl_is_empty_def)
qed

text \<open>
  Recovery follows the input exactly: a tick enters the recovering state precisely when the
  input breaks an invariant (a lost route, or direct layers requested outside the arcade screen),
  counts it and forces a full frame that clears the layers; the first tick with a sound input
  leaves it for the requested state and announces the recovery.
\<close>
theorem recovery_tracks_invariant:
  assumes "composition_tick c i = (d, c')"
  shows "if composition_invariant i (requested_state i) = None
    then cd_state d = requested_state i \<and> cd_state d \<noteq> CsRecovering \<and> cd_recovery_count d = co_recovery_count c \<and>
      ((\<exists>e \<in> set (cd_events d). ce_name e = ''ui_composition_recovered'') \<longleftrightarrow> co_state c = CsRecovering) \<and>
      (co_state c = CsRecovering \<longrightarrow> cd_force_full_slint_present d)
    else cd_state d = CsRecovering \<and> cd_force_full_slint_present d \<and> cd_clear_direct_layers d \<and>
      cd_recovery_count d = sat_add (co_recovery_count c) 1 \<and>
      \<not> cd_allow_arcade_list_blit d \<and> \<not> cd_allow_preview_blit d \<and>
      composition_invariant i (requested_state i) =
        Some (cd_last_invariant_kind d, cd_last_invariant_detail d)"
proof -
  from assms obtain c1 present raster clear events1 events3 where
    1: "tick_state c i = (c1, present, raster, clear, events1)" and
    2: "owe_retirement c1 (obl_without (co_owned c) (layers_desired (co_state c1) i)) = (c', events3)" and
    d: "cd_state d = co_state c1" "cd_allow_arcade_list_blit d = (co_state c1 = CsMixedArcade)"
      "cd_allow_preview_blit d = (co_state c1 = CsMixedArcade \<and>
         (\<not> ci_preview_cache_exact i \<or> ci_preview_frame_ready i))"
      "cd_clear_direct_layers d =
       (clear \<or> \<not> obl_is_empty (obl_without (co_owned c) (layers_desired (co_state c1) i)))"
      "cd_recovery_count d = co_recovery_count c'"
      "cd_last_invariant_kind d = co_last_invariant_kind c'"
      "cd_last_invariant_detail d = co_last_invariant_detail c'"
      "cd_events d = events1 @ state_changed_event (co_state c) (co_state c1) @ events3"
      "cd_force_full_slint_present d = (present \<and> \<not> (co_state c1 = CsModalOverArcade \<and> co_state c = co_state c1 \<and>
         co_retirement c' = None \<and> co_last_generation c' = Some (co_generation c') \<and>
         (case co_last_receipt c' of None \<Rightarrow> False | Some r \<Rightarrow> pr_carrier r = CarrierModal)))"
    by (rule tick_components)
  have rq: "requested_state i \<noteq> CsRecovering"
    by (simp add: requested_state_def)
  note r = owe_retirement_reports [OF 2]
  show ?thesis
  proof (cases "composition_invariant i (requested_state i)")
    case None
    obtain raster' clear' where
      c1: "c1 = c\<lparr>co_state := requested_state i\<rparr>" and
      present: "present = (co_state c \<noteq> requested_state i \<or> requested_state i = CsModalOverArcade \<or> raster')" and
      events1: "events1 = (if co_state c = CsRecovering
        then [\<lparr>ce_name = ''ui_composition_recovered'', ce_detail = ''to='' @ composition_label (requested_state i)\<rparr>]
        else [])"
      by (rule tick_state_sound [OF None, of c]) (use 1 in auto)
    have "ce_name e \<noteq> ''ui_composition_recovered''"
      if "e \<in> set (state_changed_event (co_state c) (co_state c1) @ events3)" for e
      using that r by (auto simp: state_changed_event_def split: if_splits)
    then have "(\<exists>e \<in> set (cd_events d). ce_name e = ''ui_composition_recovered'') \<longleftrightarrow> co_state c = CsRecovering"
      unfolding d(8) events1 by (simp add: ball_Un bex_Un)
    moreover have "co_state c = CsRecovering \<longrightarrow> cd_force_full_slint_present d"
      using d(9) present c1 rq by auto
    moreover have "cd_state d = requested_state i" "cd_recovery_count d = co_recovery_count c"
      using d(1,5) r c1 by simp_all
    ultimately show ?thesis
      using None rq by simp
  next
    case (Some k)
    obtain kind detail where k: "k = (kind, detail)"
      by (cases k)
    have c1: "c1 = c\<lparr>co_state := CsRecovering, co_recovery_count := sat_add (co_recovery_count c) 1,
        co_last_invariant_kind := kind, co_last_invariant_detail := detail\<rparr>" and "present" "clear"
      using 1 tick_state_broken [OF Some [unfolded k], of c] by simp_all
    moreover have "cd_state d = CsRecovering" "cd_recovery_count d = sat_add (co_recovery_count c) 1"
      "cd_last_invariant_kind d = kind" "cd_last_invariant_detail d = detail"
      using d(1,5-7) r by (simp_all add: c1)
    ultimately show ?thesis
      using Some k d(2-4,9) by simp
  qed
qed


section \<open>Witnesses\<close>

definition arcade_input :: composition_input where
  "arcade_input = \<lparr>ci_screensaver_active = False, ci_transition_active = False,
     ci_destination_committed = False, ci_destination_ready = False, ci_destination_layers_ready = False,
     ci_return_screen = Some ScreenArcade, ci_confirm_visible = False, ci_overlay_visible = False,
     ci_arcade_ready = True, ci_route_ok = True, ci_wants_arcade_list = True, ci_wants_preview = True,
     ci_preview_cache_exact = True, ci_preview_frame_ready = False\<rparr>"

definition owning_composition :: composition where
  "owning_composition = composition_new\<lparr>co_state := CsMixedArcade, co_owned := ARCADE_AND_PREVIEW,
     co_generation := 4, co_retirement := Some \<lparr>ret_state = RetReconciling, ret_generation = 4,
       ret_obligations = PREVIEW, ret_receipt = None\<rparr>\<rparr>"

definition live_receipt :: presentation_receipt where
  "live_receipt = \<lparr>pr_sequence = 9, pr_slot = 1, pr_route_epoch = 3, pr_carrier = CarrierLiveSlint\<rparr>"

theorem blits_only_on_live_arcade_witness:
  "ci_route_ok arcade_input \<and> cd_allow_arcade_list_blit (fst (composition_tick owning_composition arcade_input))"
proof -
  have "cd_direct_layers_desired (fst (composition_tick owning_composition arcade_input)) \<noteq> 0"
    by code_simp
  then show ?thesis
    using blits_only_on_live_arcade [of owning_composition arcade_input, OF prod.collapse [symmetric]] by blast
qed

theorem retirement_settled_only_by_receipt_witness:
  "co_retirement (composition_step owning_composition (OpReconcile 4 ARCADE live_receipt)) = None \<and>
   co_last_receipt (composition_step owning_composition (OpReconcile 4 ARCADE live_receipt)) = Some live_receipt \<and>
   composition_step owning_composition (OpReconcile 3 ARCADE live_receipt) = owning_composition"
proof -
  have r: "co_retirement owning_composition = Some \<lparr>ret_state = RetReconciling, ret_generation = 4,
       ret_obligations = PREVIEW, ret_receipt = None\<rparr>"
    by (simp add: owning_composition_def)
  have valid: "receipt_valid live_receipt"
    by code_simp
  show ?thesis
    using retirement_settled_only_by_receipt [OF r refl, of "OpReconcile 4 ARCADE live_receipt"]
      retirement_settled_only_by_receipt [OF r refl, of "OpReconcile 3 ARCADE live_receipt"] valid by simp
qed

theorem unwanted_layers_are_owed_witness:
  "debt_covered (snd (composition_tick owning_composition (arcade_input\<lparr>ci_confirm_visible := True\<rparr>)))
     (cd_direct_layers_desired (fst (composition_tick owning_composition (arcade_input\<lparr>ci_confirm_visible := True\<rparr>))))"
  using unwanted_layers_are_owed [OF prod.collapse [symmetric]] by blast

theorem recovery_tracks_invariant_witness:
  "cd_state (fst (composition_tick owning_composition (arcade_input\<lparr>ci_route_ok := False\<rparr>))) = CsRecovering \<and>
   cd_recovery_count (fst (composition_tick owning_composition (arcade_input\<lparr>ci_route_ok := False\<rparr>))) = 1"
proof -
  have "composition_invariant (arcade_input\<lparr>ci_route_ok := False\<rparr>)
      (requested_state (arcade_input\<lparr>ci_route_ok := False\<rparr>)) \<noteq> None"
    by (simp add: composition_invariant_def arcade_input_def)
  moreover have "sat_add (co_recovery_count owning_composition) 1 = 1"
    by (simp add: owning_composition_def composition_new_def sat_add_def)
  ultimately show ?thesis
    using recovery_tracks_invariant [of owning_composition "arcade_input\<lparr>ci_route_ok := False\<rparr>",
        OF prod.collapse [symmetric]] by (auto simp only: if_False)
qed

end
