(* ===== verification/Orientation_Wave.thy ===== *)
theory Orientation_Wave
  imports Prelude
begin

text \<open>
  The pictures of the monitor-orientation transition: the wave of \<open>16 \<times> 9\<close> tiles of
  \<open>launcher_runtime/orientation_transition.rs\<close> and the zoom compositor of
  \<open>crates/framebuffer-scenes/src/orientation.rs\<close>. A frame is the list of its RGB565 pixels, row by
  row. The renderers redraw only the tiles that changed, and the retained one only the pixels that
  changed; the lemmas reduce each renderer to the partial map of the pixels it writes.

  The portable (scalar) routines are modelled; on the ARM target the same calls may go to C routines,
  which are not part of the model. The spring curve is a table computed in floating point: it is the
  parameter \<open>curve\<close>.
\<close>

section \<open>The wave\<close>

definition GRID_COLUMNS :: nat where "GRID_COLUMNS = 16"
definition GRID_ROWS :: nat where "GRID_ROWS = 9"
definition TILE_COUNT :: nat where "TILE_COUNT = GRID_COLUMNS * GRID_ROWS"
definition TILE_DELAY_US :: nat where "TILE_DELAY_US = 25000"
definition TILE_FADE_US :: nat where "TILE_FADE_US = 200000"
definition OPACITY_LEVELS :: u8 where "OPACITY_LEVELS = 32"
definition TILE_SKIP :: u8 where "TILE_SKIP = 255"
definition WAVE_PHASE_DURATION :: duration where "WAVE_PHASE_DURATION = from_millis 775"
definition WAVE_TOTAL_DURATION :: duration where "WAVE_TOTAL_DURATION = from_millis 1550"

datatype wave_effect = BrightnessFade | CenterPixelZoom

fun wave_effect_id :: "wave_effect \<Rightarrow> string" where
  "wave_effect_id BrightnessFade = ''brightness-fade''"
| "wave_effect_id CenterPixelZoom = ''center-pixel-zoom''"

definition wave_effect_from_id :: "string \<Rightarrow> wave_effect option" where
  "wave_effect_from_id v =
     (if v = ''brightness-fade'' then Some BrightnessFade
      else if v = ''center-pixel-zoom'' then Some CenterPixelZoom else None)"

text \<open>\<open>smooth_spring_q16\<close> over the table of 257 entries.\<close>

definition SMOOTH_CURVE_INTERVALS :: nat where "SMOOTH_CURVE_INTERVALS = 256"

definition smooth_spring_q16 :: "u16 list \<Rightarrow> u16 \<Rightarrow> u16" where
  "smooth_spring_q16 curve progress =
     (if progress = - 1 then - 1
      else let scaled = ucast progress * of_nat SMOOTH_CURVE_INTERVALS :: u32;
               index = unat (scaled div 65535);
               remainder = scaled mod 65535;
               from = ucast (curve ! index) :: u32;
               to = ucast (curve ! (index + 1))
           in ucast (from + (to - from) * remainder div 65535))"

definition duration_us :: "duration \<Rightarrow> nat" where
  "duration_us d = min (d div 1000) (2 ^ 64 - 1)"

text \<open>The operands stay below \<open>2 ^ 40\<close>, so that none of the saturating operations saturates.\<close>

definition tile_eased_level :: "u16 list \<Rightarrow> nat \<Rightarrow> nat \<Rightarrow> nat \<Rightarrow> u8 option" where
  "tile_eased_level curve phase_us row column =
     (let delay = (row + column) * TILE_DELAY_US in
      if phase_us < delay then None
      else let local_us = min (phase_us - delay) TILE_FADE_US;
               progress = (local_us * 65535 + TILE_FADE_US div 2) div TILE_FADE_US;
               eased = unat (smooth_spring_q16 curve (of_nat (min progress 65535)));
               level = (eased * unat OPACITY_LEVELS + 65535 div 2) div 65535
           in Some (if level \<le> 255 then of_nat level else OPACITY_LEVELS))"

fun wave_level :: "wave_effect \<Rightarrow> u8 option \<Rightarrow> bool \<Rightarrow> u8" where
  "wave_level BrightnessFade (Some level) True = level"
| "wave_level BrightnessFade (Some level) False = sat_sub OPACITY_LEVELS level"
| "wave_level BrightnessFade None True = 0"
| "wave_level BrightnessFade None False = OPACITY_LEVELS"
| "wave_level CenterPixelZoom (Some level) False = level"
| "wave_level CenterPixelZoom (Some level) True =
     (let level = sat_sub OPACITY_LEVELS level in if level = 0 then TILE_SKIP else level)"
| "wave_level CenterPixelZoom None True = OPACITY_LEVELS"
| "wave_level CenterPixelZoom None False = TILE_SKIP"

text \<open>
  \<open>orientation_wave_state\<close>: the frame the wave shows (the source while it covers, the destination
  while it reveals), the level of every tile, and whether it reveals.
\<close>

definition wave_revealing :: "duration \<Rightarrow> bool" where
  "wave_revealing elapsed = (WAVE_PHASE_DURATION \<le> elapsed)"

definition wave_levels :: "u16 list \<Rightarrow> wave_effect \<Rightarrow> duration \<Rightarrow> u8 list" where
  "wave_levels curve effect elapsed =
     (let revealing = wave_revealing elapsed;
          phase_us = duration_us (if revealing then elapsed - WAVE_PHASE_DURATION else elapsed)
      in map (\<lambda>i. wave_level effect
            (tile_eased_level curve phase_us (i div GRID_COLUMNS) (i mod GRID_COLUMNS)) revealing)
          [0..<TILE_COUNT])"

definition wave_state ::
  "u16 list \<Rightarrow> wave_effect \<Rightarrow> u16 list \<Rightarrow> u16 list \<Rightarrow> duration \<Rightarrow> u16 list \<times> u8 list \<times> bool" where
  "wave_state curve effect source destination elapsed =
     (if wave_revealing elapsed then destination else source,
      wave_levels curve effect elapsed, wave_revealing elapsed)"

section \<open>Damage\<close>

text \<open>\<open>OrientationTransitionDamage\<close> is its nine rows, a bit per column.\<close>

definition tile_dirty :: "u16 list \<Rightarrow> nat \<Rightarrow> nat \<Rightarrow> bool" where
  "tile_dirty rows row column = (rows ! row AND push_bit column 1 \<noteq> 0)"

definition damage_full :: "u16 list" where
  "damage_full = replicate GRID_ROWS (- 1)"

definition changed_mask :: "u8 list \<Rightarrow> u8 list \<Rightarrow> nat \<Rightarrow> u16" where
  "changed_mask previous current row =
     fold (\<lambda>column mask.
         let i = row * GRID_COLUMNS + column in
         if previous ! i \<noteq> current ! i then mask OR push_bit column 1 else mask)
       [0..<GRID_COLUMNS] 0"

definition damage_changed :: "u8 list \<Rightarrow> u8 list \<Rightarrow> u16 list" where
  "damage_changed previous current = map (changed_mask previous current) [0..<GRID_ROWS]"

text \<open>\<open>u16::trailing_zeros\<close> and \<open>u16::leading_zeros\<close>.\<close>

definition trailing_zeros :: "u16 \<Rightarrow> nat" where
  "trailing_zeros m = length (takeWhile (\<lambda>k. \<not> bit m k) [0..<16])"

definition leading_zeros :: "u16 \<Rightarrow> nat" where
  "leading_zeros m = length (takeWhile (\<lambda>k. \<not> bit m k) (rev [0..<16]))"

definition rect_for_row :: "u16 list \<Rightarrow> nat \<Rightarrow> nat \<Rightarrow> nat \<Rightarrow> (nat \<times> nat \<times> nat \<times> nat) option" where
  "rect_for_row rows row width height =
     (if length rows \<le> row then None
      else let mask = rows ! row in
        if mask = 0 then None
        else let first = trailing_zeros mask; last = GRID_COLUMNS - leading_zeros mask
             in Some (first * width div GRID_COLUMNS, row * height div GRID_ROWS,
                  last * width div GRID_COLUMNS, (row + 1) * height div GRID_ROWS))"

definition tile_start :: "nat \<Rightarrow> nat \<Rightarrow> nat \<Rightarrow> nat" where
  "tile_start parts extent k = k * extent div parts"

definition dirty_pixels :: "u16 list \<Rightarrow> nat \<Rightarrow> nat \<Rightarrow> nat" where
  "dirty_pixels rows width height =
     fold (\<lambda>row pixels.
         fold (\<lambda>column pixels.
             if \<not> tile_dirty rows row column then pixels
             else let tile_width = tile_start GRID_COLUMNS width (column + 1) - tile_start GRID_COLUMNS width column;
                      tile_height = tile_start GRID_ROWS height (row + 1) - tile_start GRID_ROWS height row
                  in min (pixels + tile_width * tile_height) (2 ^ 64 - 1))
           [0..<GRID_COLUMNS] pixels)
       [0..<GRID_ROWS] 0"

section \<open>The renderers\<close>

text \<open>\<open>output[a..b].fill(v)\<close> and \<open>output[a..b].copy_from_slice(&frame[a..b])\<close>.\<close>

definition fill_span :: "u16 \<Rightarrow> nat \<Rightarrow> nat \<Rightarrow> u16 list \<Rightarrow> u16 list" where
  "fill_span v a b out = take a out @ replicate (b - a) v @ drop b out"

definition map_span :: "(u16 \<Rightarrow> u16) \<Rightarrow> u16 list \<Rightarrow> nat \<Rightarrow> nat \<Rightarrow> u16 list \<Rightarrow> u16 list" where
  "map_span f frame a b out = take a out @ map f (take (b - a) (drop a frame)) @ drop b out"

definition copy_span :: "u16 list \<Rightarrow> nat \<Rightarrow> nat \<Rightarrow> u16 list \<Rightarrow> u16 list" where
  "copy_span frame a b out = map_span id frame a b out"

definition dim_565 :: "u8 \<Rightarrow> u16 \<Rightarrow> u16" where
  "dim_565 opacity_level pixel =
     (let p = ucast pixel :: u32; opacity = ucast opacity_level;
          red_blue = drop_bit 5 ((p AND 0xf81f) * opacity) AND 0xf81f;
          green = drop_bit 5 ((p AND 0x07e0) * opacity) AND 0x07e0
      in ucast (red_blue OR green))"

definition render_dimmed_tile ::
  "u16 list \<Rightarrow> nat \<Rightarrow> nat \<Rightarrow> nat \<Rightarrow> nat \<Rightarrow> nat \<Rightarrow> u8 \<Rightarrow> u16 list \<Rightarrow> u16 list" where
  "render_dimmed_tile frame stride x0 x1 y0 y1 opacity_level =
     fold (\<lambda>y out.
         let a = y * stride + x0; b = y * stride + x1 in
         if opacity_level = 0 then fill_span 0 a b out
         else if OPACITY_LEVELS \<le> opacity_level then copy_span frame a b out
         else map_span (dim_565 opacity_level) frame a b out)
       [y0..<y1]"

text \<open>A loop over the tiles that the damage names.\<close>

definition over_dirty_tiles ::
  "u16 list \<Rightarrow> (nat \<Rightarrow> nat \<Rightarrow> 'b \<Rightarrow> 'b) \<Rightarrow> 'b \<Rightarrow> 'b" where
  "over_dirty_tiles rows f =
     fold (\<lambda>row. fold (\<lambda>column out. if tile_dirty rows row column then f row column out else out)
         [0..<GRID_COLUMNS])
       [0..<GRID_ROWS]"

definition render_brightness_scalar ::
  "u16 list \<Rightarrow> nat \<Rightarrow> nat \<Rightarrow> u8 list \<Rightarrow> u16 list \<Rightarrow> u16 list \<Rightarrow> u16 list" where
  "render_brightness_scalar frame width height levels rows =
     over_dirty_tiles rows (\<lambda>row column.
       render_dimmed_tile frame width (tile_start GRID_COLUMNS width column) (tile_start GRID_COLUMNS width (column + 1))
         (tile_start GRID_ROWS height row) (tile_start GRID_ROWS height (row + 1))
         (levels ! (row * GRID_COLUMNS + column)))"

definition centered_span :: "nat \<Rightarrow> nat \<Rightarrow> u8 \<Rightarrow> nat \<times> nat" where
  "centered_span start finish level =
     (let span = finish - start in
      if span = 0 then (start, start)
      else let scaled = ((span - 1) * unat level + 16) div 32;
               visible = min (1 + scaled) span;
               center = start + (span - 1) div 2;
               first = max (center - (visible - 1) div 2) start
           in (first, min (first + visible) finish))"

definition level_ok :: "u8 \<Rightarrow> bool" where
  "level_ok v = (v \<le> 32 \<or> v = TILE_SKIP)"

definition zoom_valid :: "u16 list \<Rightarrow> u16 list \<Rightarrow> nat \<Rightarrow> nat \<Rightarrow> u8 list \<Rightarrow> bool" where
  "zoom_valid source out width height levels =
     (width * height = length source \<and> length source = length out \<and> list_all level_ok levels)"

definition zoom_tile ::
  "u16 list \<Rightarrow> nat \<Rightarrow> nat \<Rightarrow> u8 list \<Rightarrow> nat \<Rightarrow> nat \<Rightarrow> u16 list \<Rightarrow> u16 list" where
  "zoom_tile source width height levels row column out =
     (let x0 = tile_start GRID_COLUMNS width column; x1 = tile_start GRID_COLUMNS width (column + 1);
          y0 = tile_start GRID_ROWS height row; y1 = tile_start GRID_ROWS height (row + 1);
          out = fold (\<lambda>y. copy_span source (y * width + x0) (y * width + x1)) [y0..<y1] out;
          level = levels ! (row * GRID_COLUMNS + column)
      in if level = TILE_SKIP then out
         else let (bx0, bx1) = centered_span x0 x1 level; (by0, by1) = centered_span y0 y1 level
              in fold (\<lambda>y. fill_span 0 (y * width + bx0) (y * width + bx1)) [by0..<by1] out)"

definition render_zoom_scalar ::
  "u16 list \<Rightarrow> nat \<Rightarrow> nat \<Rightarrow> u8 list \<Rightarrow> u16 list \<Rightarrow> u16 list \<Rightarrow> u16 list option" where
  "render_zoom_scalar source width height levels rows out =
     (if \<not> zoom_valid source out width height levels then None
      else Some (over_dirty_tiles rows (zoom_tile source width height levels) out))"

definition zoom_rect :: "nat \<Rightarrow> nat \<Rightarrow> nat \<Rightarrow> nat \<Rightarrow> u8 \<Rightarrow> nat \<times> nat \<times> nat \<times> nat" where
  "zoom_rect width height row column level =
     (if level = TILE_SKIP then (0, 0, 0, 0)
      else let (x0, x1) = centered_span (tile_start GRID_COLUMNS width column) (tile_start GRID_COLUMNS width (column + 1)) level;
               (y0, y1) = centered_span (tile_start GRID_ROWS height row) (tile_start GRID_ROWS height (row + 1)) level
           in (x0, y0, x1, y1))"

definition inside :: "nat \<times> nat \<times> nat \<times> nat \<Rightarrow> nat \<Rightarrow> nat \<Rightarrow> bool" where
  "inside r x y = (case r of (x0, y0, x1, y1) \<Rightarrow> x0 \<le> x \<and> x < x1 \<and> y0 \<le> y \<and> y < y1)"

text \<open>The loop body of the retained renderer: one tile, with the number of pixels written.\<close>

definition zoom_delta_tile ::
  "u16 list \<Rightarrow> nat \<Rightarrow> nat \<Rightarrow> u8 list \<Rightarrow> u8 list \<Rightarrow> nat \<Rightarrow> nat \<Rightarrow> u16 list \<times> nat \<Rightarrow> u16 list \<times> nat" where
  "zoom_delta_tile source width height levels previous row column =
     (let tile = row * GRID_COLUMNS + column;
          old = zoom_rect width height row column (previous ! tile);
          now = zoom_rect width height row column (levels ! tile)
      in fold (\<lambda>y. fold (\<lambda>x (out, writes).
             if inside old x y \<noteq> inside now x y
             then (out[y * width + x := (if inside now x y then 0 else source ! (y * width + x))], writes + 1)
             else (out, writes))
           [tile_start GRID_COLUMNS width column..<tile_start GRID_COLUMNS width (column + 1)])
         [tile_start GRID_ROWS height row..<tile_start GRID_ROWS height (row + 1)])"

text \<open>The pixel count that a render without previous levels reports.\<close>

definition dirty_area :: "u16 list \<Rightarrow> nat \<Rightarrow> nat \<Rightarrow> nat" where
  "dirty_area rows width height =
     sum_list (map (\<lambda>row. sum_list (map (\<lambda>column.
         (tile_start GRID_COLUMNS width (column + 1) - tile_start GRID_COLUMNS width column) *
         (tile_start GRID_ROWS height (row + 1) - tile_start GRID_ROWS height row))
       (filter (tile_dirty rows row) [0..<GRID_COLUMNS]))) [0..<GRID_ROWS])"

definition render_zoom_retained ::
  "u16 list \<Rightarrow> nat \<Rightarrow> nat \<Rightarrow> u8 list \<Rightarrow> u16 list \<Rightarrow> u8 list option \<Rightarrow> u16 list \<Rightarrow> (u16 list \<times> nat) option" where
  "render_zoom_retained source width height levels rows previous out =
     (if \<not> zoom_valid source out width height levels then None
      else case previous of
        None \<Rightarrow> map_option (\<lambda>out'. (out', dirty_area rows width height))
                 (render_zoom_scalar source width height levels rows out)
      | Some previous \<Rightarrow>
          (if \<not> list_all level_ok previous then None
           else Some (over_dirty_tiles rows (zoom_delta_tile source width height levels previous) (out, 0))))"

section \<open>What a renderer writes\<close>

text \<open>
  \<open>paints n f W\<close>: on a frame of \<open>n\<close> pixels \<open>f\<close> writes exactly the pixels of the partial map \<open>W\<close>.
\<close>

definition paints :: "nat \<Rightarrow> (u16 list \<Rightarrow> u16 list) \<Rightarrow> (nat \<Rightarrow> u16 option) \<Rightarrow> bool" where
  "paints n f W \<longleftrightarrow> (\<forall>out. length out = n \<longrightarrow>
     length (f out) = n \<and> (\<forall>i < n. f out ! i = (case W i of None \<Rightarrow> out ! i | Some v \<Rightarrow> v)))"

definition layered :: "('k \<Rightarrow> nat \<Rightarrow> u16 option) \<Rightarrow> 'k list \<Rightarrow> nat \<Rightarrow> u16 option" where
  "layered W ks = fold (\<lambda>k m. m ++ W k) ks Map.empty"

lemma paints_id: "paints n (\<lambda>out. out) (\<lambda>_. None)"
  by (simp add: paints_def)

lemma paints_length: "paints n f W \<Longrightarrow> length out = n \<Longrightarrow> length (f out) = n"
  by (simp add: paints_def)

lemma paints_nth:
  "paints n f W \<Longrightarrow> length out = n \<Longrightarrow> i < n \<Longrightarrow> f out ! i = (case W i of None \<Rightarrow> out ! i | Some v \<Rightarrow> v)"
  by (simp add: paints_def)

lemma paints_seq:
  assumes "paints n f V" and "paints n g W"
  shows "paints n (\<lambda>out. g (f out)) (V ++ W)"
  using assms by (auto simp: paints_def map_add_def split: option.splits)

lemma paints_cong:
  assumes "paints n f V" and "\<And>i. i < n \<Longrightarrow> V i = W i"
  shows "paints n f W"
  using assms by (auto simp: paints_def)

lemma paints_fold_from:
  assumes "\<And>k. k \<in> set ks \<Longrightarrow> paints n (f k) (W k)"
  shows "paints n (\<lambda>out. fold f ks out) (layered W ks)"
  using assms
proof (induction ks rule: rev_induct)
  case (snoc k ks)
  then have "paints n (\<lambda>out. f k (fold f ks out)) (layered W ks ++ W k)"
    by (intro paints_seq) auto
  then show ?case
    by (simp add: layered_def)
qed (simp add: layered_def paints_def)

lemma layered_None:
  "(\<And>k. k \<in> set ks \<Longrightarrow> W k i = None) \<Longrightarrow> layered W ks i = None"
  by (induction ks rule: rev_induct) (auto simp: layered_def map_add_def)

lemma layered_Some:
  assumes "k \<in> set ks" and "W k i = Some v"
    and "\<And>k. k \<in> set ks \<Longrightarrow> W k i = None \<or> W k i = Some v"
  shows "layered W ks i = Some v"
  using assms
proof (induction ks rule: rev_induct)
  case (snoc k' ks)
  show ?case
  proof (cases "W k' i")
    case None
    with snoc.prems have "k \<in> set ks"
      by auto
    with snoc None show ?thesis
      by (simp add: layered_def map_add_def)
  next
    case (Some v')
    with snoc.prems(3) [of k'] show ?thesis
      by (simp add: layered_def map_add_def)
  qed
qed simp

text \<open>A rectangle of a frame whose rows are \<open>width\<close> pixels long.\<close>

definition rect_map ::
  "nat \<Rightarrow> nat \<Rightarrow> nat \<Rightarrow> nat \<Rightarrow> nat \<Rightarrow> (nat \<Rightarrow> u16) \<Rightarrow> nat \<Rightarrow> u16 option" where
  "rect_map width x0 x1 y0 y1 g i =
     (if x0 \<le> i mod width \<and> i mod width < x1 \<and> y0 \<le> i div width \<and> i div width < y1
      then Some (g i) else None)"

definition span_map :: "nat \<Rightarrow> nat \<Rightarrow> (nat \<Rightarrow> u16) \<Rightarrow> nat \<Rightarrow> u16 option" where
  "span_map a b g i = (if a \<le> i \<and> i < b then Some (g i) else None)"

lemma nth_span:
  assumes "a \<le> b" "b \<le> length out" "length mid = b - a" "i < length out"
  shows "(take a out @ mid @ drop b out) ! i = (if a \<le> i \<and> i < b then mid ! (i - a) else out ! i)"
  using assms by (auto simp: nth_append)

lemma paints_map_span:
  assumes "a \<le> b" "b \<le> n" "length frame = n"
  shows "paints n (map_span f frame a b) (span_map a b (\<lambda>i. f (frame ! i)))"
  using assms
  by (auto simp: paints_def map_span_def span_map_def nth_span)

lemma paints_copy_span:
  "a \<le> b \<Longrightarrow> b \<le> n \<Longrightarrow> length frame = n \<Longrightarrow>
   paints n (copy_span frame a b) (span_map a b (\<lambda>i. frame ! i))"
  using paints_map_span [where f = id] by (simp add: copy_span_def [abs_def])

lemma paints_fill_span:
  "a \<le> b \<Longrightarrow> b \<le> n \<Longrightarrow> paints n (fill_span v a b) (span_map a b (\<lambda>_. v))"
  by (auto simp: paints_def fill_span_def span_map_def nth_span)

lemma in_row_iff:
  fixes width :: nat
  assumes "x1 \<le> width"
  shows "y * width + x0 \<le> i \<and> i < y * width + x1 \<longleftrightarrow> i div width = y \<and> x0 \<le> i mod width \<and> i mod width < x1"
proof
  assume i: "y * width + x0 \<le> i \<and> i < y * width + x1"
  then have "0 < width"
    using assms by (cases width) auto
  moreover have "i div width = y"
    using i assms by (intro div_nat_eqI) (auto simp: algebra_simps)
  ultimately show "i div width = y \<and> x0 \<le> i mod width \<and> i mod width < x1"
    using i by (metis add_less_cancel_left add_le_cancel_left div_mult_mod_eq)
next
  assume "i div width = y \<and> x0 \<le> i mod width \<and> i mod width < x1"
  then show "y * width + x0 \<le> i \<and> i < y * width + x1"
    by (metis add_less_cancel_left add_le_cancel_left div_mult_mod_eq)
qed

lemma paints_rect:
  assumes "x0 \<le> x1" "x1 \<le> width" "y1 \<le> height"
    and "\<And>a b. a \<le> b \<Longrightarrow> b \<le> width * height \<Longrightarrow> paints (width * height) (F a b) (span_map a b g)"
  shows "paints (width * height) (\<lambda>out. fold (\<lambda>y. F (y * width + x0) (y * width + x1)) [y0..<y1] out)
    (rect_map width x0 x1 y0 y1 g)"
proof (rule paints_cong [OF paints_fold_from])
  fix y
  assume "y \<in> set [y0..<y1]"
  then have "Suc y \<le> height"
    using assms(3) by simp
  then have "y * width + x1 \<le> width * height"
    using assms(2) mult_le_mono1 [of "Suc y" height width] by (simp add: algebra_simps)
  then show "paints (width * height) (F (y * width + x0) (y * width + x1))
      (span_map (y * width + x0) (y * width + x1) g)"
    using assms(1) by (intro assms(4)) simp_all
next
  fix i
  note row = in_row_iff [OF assms(2), of _ x0 i]
  show "layered (\<lambda>y. span_map (y * width + x0) (y * width + x1) g) [y0..<y1] i = rect_map width x0 x1 y0 y1 g i"
  proof (cases "rect_map width x0 x1 y0 y1 g i")
    case None
    then show ?thesis
      by (simp add: rect_map_def span_map_def row split: if_splits) (rule layered_None, auto simp: span_map_def row)
  next
    case (Some v)
    then show ?thesis
      by (intro trans [OF layered_Some [where k = "i div width" and v = v]])
        (auto simp: rect_map_def span_map_def row split: if_splits)
  qed
qed

section \<open>Tiles\<close>

text \<open>The tile of a coordinate: the tiles partition every extent.\<close>

definition tile_of :: "nat \<Rightarrow> nat \<Rightarrow> nat \<Rightarrow> nat" where
  "tile_of parts extent x = ((x + 1) * parts - 1) div extent"

lemma tile_of_iff:
  assumes "x < extent" "0 < parts"
  shows "tile_start parts extent k \<le> x \<and> x < tile_start parts extent (k + 1) \<longleftrightarrow> k = tile_of parts extent x"
proof -
  have "tile_start parts extent k \<le> x \<longleftrightarrow> k * extent < (x + 1) * parts"
    using assms(2) by (simp add: tile_start_def less_Suc_eq_le [symmetric] div_less_iff_less_mult)
  moreover have "x < tile_start parts extent (k + 1) \<longleftrightarrow> (x + 1) * parts \<le> (k + 1) * extent"
    using assms(2) by (simp only: tile_start_def less_eq_div_iff_mult_less_eq Suc_le_eq [symmetric]) simp
  moreover have "k = tile_of parts extent x \<longleftrightarrow>
      k * extent < (x + 1) * parts \<and> (x + 1) * parts \<le> (k + 1) * extent"
  proof -
    have p: "0 < (x + 1) * parts"
      using assms(2) by simp
    have "k = tile_of parts extent x \<longleftrightarrow>
        extent * k \<le> (x + 1) * parts - 1 \<and> (x + 1) * parts - 1 < extent * Suc k"
      unfolding tile_of_def using assms(1)
      by (metis div_nat_eqI dividend_less_times_div times_div_less_eq_dividend less_zeroE mult_Suc_right gr_zeroI add.commute)
    then show ?thesis
      using p by (auto simp: algebra_simps)
  qed
  ultimately show ?thesis
    by blast
qed

lemma tile_of_less:
  assumes "x < extent" "0 < parts"
  shows "tile_of parts extent x < parts"
proof -
  have "(x + 1) * parts - 1 < (x + 1) * parts"
    using assms(2) by simp
  also have "\<dots> \<le> extent * parts"
    using assms(1) by (simp only: mult_le_mono1 Suc_leI Suc_eq_plus1 [symmetric])
  finally show ?thesis
    by (simp add: tile_of_def less_mult_imp_div_less mult.commute)
qed

lemma tile_start_mono: "j \<le> k \<Longrightarrow> tile_start parts extent j \<le> tile_start parts extent k"
  by (simp add: tile_start_def div_le_mono)

lemma tile_start_le: "k \<le> parts \<Longrightarrow> tile_start parts extent k \<le> extent"
  using div_le_mono [of "k * extent" "parts * extent" parts]
  by (cases "parts = 0") (auto simp: tile_start_def)


definition tile_row_of :: "nat \<Rightarrow> nat \<Rightarrow> nat \<Rightarrow> nat" where
  "tile_row_of width height i = tile_of GRID_ROWS height (i div width)"

definition tile_column_of :: "nat \<Rightarrow> nat \<Rightarrow> nat" where
  "tile_column_of width i = tile_of GRID_COLUMNS width (i mod width)"

definition tile_map ::
  "nat \<Rightarrow> nat \<Rightarrow> nat \<Rightarrow> nat \<Rightarrow> (nat \<Rightarrow> u16) \<Rightarrow> nat \<Rightarrow> u16 option" where
  "tile_map width height row column =
     rect_map width (tile_start GRID_COLUMNS width column) (tile_start GRID_COLUMNS width (column + 1))
       (tile_start GRID_ROWS height row) (tile_start GRID_ROWS height (row + 1))"

lemma grid_pos [simp]: "0 < GRID_ROWS" "0 < GRID_COLUMNS"
  by (simp_all add: GRID_ROWS_def GRID_COLUMNS_def)

lemma pixel_in_frame:
  fixes width height :: nat
  assumes "i < width * height"
  shows "i mod width < width" and "i div width < height"
proof -
  have "0 < width"
    using assms by (cases width) auto
  then show "i mod width < width" by simp
  show "i div width < height"
    using assms by (simp add: less_mult_imp_div_less mult.commute)
qed

lemma tile_row_less: "i < width * height \<Longrightarrow> tile_row_of width height i < GRID_ROWS"
  by (simp add: tile_row_of_def tile_of_less pixel_in_frame)

lemma tile_column_less: "i < width * height \<Longrightarrow> tile_column_of width i < GRID_COLUMNS"
  by (simp add: tile_column_of_def tile_of_less pixel_in_frame(1))

lemma tile_map_eq:
  assumes "i < width * height"
  shows "tile_map width height row column g i =
    (if row = tile_row_of width height i \<and> column = tile_column_of width i then Some (g i) else None)"
  using tile_of_iff [OF pixel_in_frame(1) [OF assms] grid_pos(2), of column]
    tile_of_iff [OF pixel_in_frame(2) [OF assms] grid_pos(1), of row]
  by (auto simp: tile_map_def rect_map_def tile_row_of_def tile_column_of_def)

text \<open>A tile operation that paints its tile and a loop of it over the damage.\<close>

definition damage_map ::
  "u16 list \<Rightarrow> nat \<Rightarrow> nat \<Rightarrow> (nat \<Rightarrow> nat \<Rightarrow> nat \<Rightarrow> u16 option) \<Rightarrow> nat \<Rightarrow> u16 option" where
  "damage_map rows width height W i =
     (let row = tile_row_of width height i; column = tile_column_of width i
      in if tile_dirty rows row column then W row column i else None)"

definition within_tiles :: "nat \<Rightarrow> nat \<Rightarrow> (nat \<Rightarrow> nat \<Rightarrow> nat \<Rightarrow> u16 option) \<Rightarrow> bool" where
  "within_tiles width height W \<longleftrightarrow> (\<forall>row column i. i < width * height \<longrightarrow>
     W row column i \<noteq> None \<longrightarrow> row = tile_row_of width height i \<and> column = tile_column_of width i)"

lemma layered_at:
  assumes "\<And>k'. k' \<in> set ks \<Longrightarrow> k' \<noteq> k \<Longrightarrow> W k' i = None" and "k \<in> set ks"
  shows "layered W ks i = W k i"
proof (cases "W k i")
  case None
  then have "\<And>k'. k' \<in> set ks \<Longrightarrow> W k' i = None"
    using assms(1) by metis
  with None show ?thesis
    by (simp add: layered_None)
next
  case (Some v)
  show ?thesis
    unfolding Some by (rule layered_Some [where k = k]) (use assms Some in auto)
qed

lemma paints_if:
  "paints n f W \<Longrightarrow> paints n (\<lambda>out. if b then f out else out) (\<lambda>i. if b then W i else None)"
  by (auto simp: paints_def)

lemma paints_over_dirty_tiles:
  assumes op: "\<And>row column. row < GRID_ROWS \<Longrightarrow> column < GRID_COLUMNS \<Longrightarrow>
      paints (width * height) (f row column) (W row column)"
    and within: "within_tiles width height W"
  shows "paints (width * height) (over_dirty_tiles rows f) (damage_map rows width height W)"
proof -
  let ?c = "\<lambda>row column i. if tile_dirty rows row column then W row column i else None"
  let ?r = "\<lambda>row. layered (?c row) [0..<GRID_COLUMNS]"
  have "paints (width * height)
      (\<lambda>out. fold (\<lambda>column out. if tile_dirty rows row column then f row column out else out) [0..<GRID_COLUMNS] out)
      (?r row)" if "row < GRID_ROWS" for row
    using that by (intro paints_fold_from paints_if op) simp_all
  then have "paints (width * height) (over_dirty_tiles rows f) (layered ?r [0..<GRID_ROWS])"
    unfolding over_dirty_tiles_def by (rule paints_fold_from) auto
  then show ?thesis
  proof (rule paints_cong)
    fix i
    assume i: "i < width * height"
    let ?row = "tile_row_of width height i" and ?col = "tile_column_of width i"
    have out: "W row column i = None" if "row \<noteq> ?row \<or> column \<noteq> ?col" for row column
      using within i that unfolding within_tiles_def by blast
    have "?r row i = None" if "row \<noteq> ?row" for row
      by (rule layered_None) (use out that in auto)
    then have "layered ?r [0..<GRID_ROWS] i = ?r ?row i"
      by (intro layered_at) (use tile_row_less [OF i] in auto)
    also have "\<dots> = ?c ?row ?col i"
      by (rule layered_at) (use tile_column_less [OF i] out in auto)
    finally show "layered ?r [0..<GRID_ROWS] i = damage_map rows width height W i"
      by (simp add: damage_map_def Let_def)
  qed
qed

section \<open>The brightness wave\<close>

definition dimmed :: "u8 \<Rightarrow> u16 \<Rightarrow> u16" where
  "dimmed level pixel =
     (if level = 0 then 0 else if OPACITY_LEVELS \<le> level then pixel else dim_565 level pixel)"

lemma paints_dimmed_tile:
  assumes "length frame = width * height" "row < GRID_ROWS" "column < GRID_COLUMNS"
  shows "paints (width * height)
    (render_dimmed_tile frame width (tile_start GRID_COLUMNS width column)
       (tile_start GRID_COLUMNS width (column + 1)) (tile_start GRID_ROWS height row)
       (tile_start GRID_ROWS height (row + 1)) level)
    (tile_map width height row column (\<lambda>i. dimmed level (frame ! i)))"
  unfolding render_dimmed_tile_def tile_map_def
proof (rule paints_rect)
  show "tile_start GRID_COLUMNS width column \<le> tile_start GRID_COLUMNS width (column + 1)"
    by (simp add: tile_start_mono)
  show "tile_start GRID_COLUMNS width (column + 1) \<le> width"
    using assms(3) by (intro tile_start_le) simp
  show "tile_start GRID_ROWS height (row + 1) \<le> height"
    using assms(2) by (intro tile_start_le) simp
next
  fix a b :: nat
  assume "a \<le> b" "b \<le> width * height"
  with assms(1) show "paints (width * height)
      (\<lambda>out. let a = a; b = b in
         if level = 0 then fill_span 0 a b out
         else if OPACITY_LEVELS \<le> level then copy_span frame a b out
         else map_span (dim_565 level) frame a b out)
      (span_map a b (\<lambda>i. dimmed level (frame ! i)))"
    using paints_fill_span [of a b "width * height" 0] paints_copy_span [of a b "width * height" frame]
      paints_map_span [of a b "width * height" frame "dim_565 level"]
    by (cases "level = 0"; cases "OPACITY_LEVELS \<le> level") (simp_all add: dimmed_def)
qed

text \<open>The picture that a wave of levels makes of a whole frame.\<close>

definition tile_index :: "nat \<Rightarrow> nat \<Rightarrow> nat \<Rightarrow> nat" where
  "tile_index width height i = tile_row_of width height i * GRID_COLUMNS + tile_column_of width i"

definition brightness_picture :: "u16 list \<Rightarrow> nat \<Rightarrow> nat \<Rightarrow> u8 list \<Rightarrow> u16 list" where
  "brightness_picture frame width height levels =
     map (\<lambda>i. dimmed (levels ! tile_index width height i) (frame ! i)) [0..<width * height]"

definition pixel_dirty :: "u16 list \<Rightarrow> nat \<Rightarrow> nat \<Rightarrow> nat \<Rightarrow> bool" where
  "pixel_dirty rows width height i = tile_dirty rows (tile_row_of width height i) (tile_column_of width i)"

definition overlay :: "u16 list \<Rightarrow> nat \<Rightarrow> nat \<Rightarrow> u16 list \<Rightarrow> u16 list \<Rightarrow> u16 list" where
  "overlay rows width height picture out =
     map (\<lambda>i. if pixel_dirty rows width height i then picture ! i else out ! i) [0..<width * height]"

lemma within_tile_map: "within_tiles width height (\<lambda>row column. tile_map width height row column (g row column))"
  by (auto simp: within_tiles_def tile_map_eq split: if_splits)

lemma painted_overlay:
  assumes "paints (width * height) f (damage_map rows width height W)" and "length out = width * height"
    and "\<And>i. i < width * height \<Longrightarrow> W (tile_row_of width height i) (tile_column_of width i) i = Some (picture ! i)"
  shows "f out = overlay rows width height picture out"
  using assms unfolding paints_def overlay_def
  by (intro nth_equalityI) (auto simp: damage_map_def pixel_dirty_def Let_def)

theorem brightness_scalar_overlay:
  assumes "length frame = width * height" "length out = width * height"
  shows "render_brightness_scalar frame width height levels rows out =
    overlay rows width height (brightness_picture frame width height levels) out"
  unfolding render_brightness_scalar_def
proof (rule painted_overlay [OF paints_over_dirty_tiles [OF _ within_tile_map] assms(2)])
  fix row column
  assume "row < GRID_ROWS" "column < GRID_COLUMNS"
  with assms(1) show "paints (width * height)
      (render_dimmed_tile frame width (tile_start GRID_COLUMNS width column)
         (tile_start GRID_COLUMNS width (column + 1)) (tile_start GRID_ROWS height row)
         (tile_start GRID_ROWS height (row + 1)) (levels ! (row * GRID_COLUMNS + column)))
      (tile_map width height row column (\<lambda>i. dimmed (levels ! (row * GRID_COLUMNS + column)) (frame ! i)))"
    by (rule paints_dimmed_tile)
next
  fix i
  assume "i < width * height"
  then show "tile_map width height (tile_row_of width height i) (tile_column_of width i)
      (\<lambda>ia. dimmed (levels ! (tile_row_of width height i * GRID_COLUMNS + tile_column_of width i)) (frame ! ia)) i =
      Some (brightness_picture frame width height levels ! i)"
    by (simp add: tile_map_eq brightness_picture_def tile_index_def)
qed

lemma overlay_retained:
  assumes "length picture = width * height" "length out = width * height"
    and "\<And>i. i < width * height \<Longrightarrow> \<not> pixel_dirty rows width height i \<Longrightarrow> out ! i = picture ! i"
  shows "overlay rows width height picture out = picture"
  using assms by (intro nth_equalityI) (auto simp: overlay_def)

section \<open>The zoom wave\<close>

text \<open>The black rectangle of a tile lies within the tile.\<close>

lemma centered_span_bounds:
  assumes "start \<le> finish"
  shows "start \<le> fst (centered_span start finish level)"
    and "fst (centered_span start finish level) \<le> snd (centered_span start finish level)"
    and "snd (centered_span start finish level) \<le> finish"
proof -
  obtain a v where "centered_span start finish level = (start, start) \<or>
      a \<le> finish \<and> centered_span start finish level = (max a start, min (max a start + v) finish)"
  proof (cases "finish - start = 0")
    case True
    then show thesis
      by (intro that [of 0 0]) (simp add: centered_span_def)
  next
    case False
    let ?v = "min (1 + ((finish - start - 1) * unat level + 16) div 32) (finish - start)"
    let ?c = "start + (finish - start - 1) div 2"
    have "?c \<le> finish"
      using assms by linarith
    then have "?c - (?v - 1) div 2 \<le> finish"
      by (rule le_trans [OF diff_le_self])
    moreover have "centered_span start finish level =
        (max (?c - (?v - 1) div 2) start, min (max (?c - (?v - 1) div 2) start + ?v) finish)"
      by (simp only: centered_span_def Let_def False if_False)
    ultimately show thesis
      by (intro that disjI2 conjI)
  qed
  then show "start \<le> fst (centered_span start finish level)"
    "fst (centered_span start finish level) \<le> snd (centered_span start finish level)"
    "snd (centered_span start finish level) \<le> finish"
    using assms by auto
qed

definition zoom_pixel ::
  "u16 list \<Rightarrow> nat \<Rightarrow> nat \<Rightarrow> nat \<Rightarrow> nat \<Rightarrow> u8 \<Rightarrow> nat \<Rightarrow> u16" where
  "zoom_pixel source width height row column level i =
     (if inside (zoom_rect width height row column level) (i mod width) (i div width) then 0 else source ! i)"

definition zoom_picture :: "u16 list \<Rightarrow> nat \<Rightarrow> nat \<Rightarrow> u8 list \<Rightarrow> u16 list" where
  "zoom_picture source width height levels =
     map (\<lambda>i. zoom_pixel source width height (tile_row_of width height i) (tile_column_of width i)
         (levels ! tile_index width height i) i) [0..<width * height]"

lemma zoom_rect_within:
  assumes "inside (zoom_rect width height row column level) x y"
  shows "tile_start GRID_COLUMNS width column \<le> x \<and> x < tile_start GRID_COLUMNS width (column + 1) \<and>
    tile_start GRID_ROWS height row \<le> y \<and> y < tile_start GRID_ROWS height (row + 1)"
  using assms
    centered_span_bounds [OF tile_start_mono [of column "column + 1" GRID_COLUMNS width], of level]
    centered_span_bounds [OF tile_start_mono [of row "row + 1" GRID_ROWS height], of level]
  by (auto simp: zoom_rect_def inside_def split: prod.splits if_splits)

lemma paints_zoom_tile:
  assumes "length source = width * height" "row < GRID_ROWS" "column < GRID_COLUMNS"
  shows "paints (width * height) (zoom_tile source width height levels row column)
    (tile_map width height row column
       (zoom_pixel source width height row column (levels ! (row * GRID_COLUMNS + column))))"
proof -
  let ?x0 = "tile_start GRID_COLUMNS width column" and ?x1 = "tile_start GRID_COLUMNS width (column + 1)"
  let ?y0 = "tile_start GRID_ROWS height row" and ?y1 = "tile_start GRID_ROWS height (row + 1)"
  let ?l = "levels ! (row * GRID_COLUMNS + column)"
  have x: "?x0 \<le> ?x1" "?x1 \<le> width" and y: "?y0 \<le> ?y1" "?y1 \<le> height"
    using assms(2,3) by (simp_all add: tile_start_mono tile_start_le)
  have copy: "paints (width * height)
      (\<lambda>out. fold (\<lambda>y. copy_span source (y * width + ?x0) (y * width + ?x1)) [?y0..<?y1] out)
      (rect_map width ?x0 ?x1 ?y0 ?y1 (\<lambda>i. source ! i))"
    by (rule paints_rect) (use x y assms(1) in \<open>auto intro: paints_copy_span\<close>)
  show ?thesis
  proof (cases "?l = TILE_SKIP")
    case True
    then show ?thesis
      using copy by (simp add: zoom_tile_def [abs_def] Let_def tile_map_def zoom_pixel_def [abs_def] zoom_rect_def inside_def)
  next
    case False
    obtain bx0 bx1 by0 by1 where b: "centered_span ?x0 ?x1 ?l = (bx0, bx1)" "centered_span ?y0 ?y1 ?l = (by0, by1)"
      by (metis prod.collapse)
    have bounds: "?x0 \<le> bx0" "bx0 \<le> bx1" "bx1 \<le> ?x1" "?y0 \<le> by0" "by1 \<le> ?y1"
      using centered_span_bounds [OF x(1), of ?l] centered_span_bounds [OF y(1), of ?l] b by simp_all
    have fill: "paints (width * height)
        (\<lambda>out. fold (\<lambda>y. fill_span 0 (y * width + bx0) (y * width + bx1)) [by0..<by1] out)
        (rect_map width bx0 bx1 by0 by1 (\<lambda>_. 0))"
      by (rule paints_rect) (use bounds x y in \<open>auto intro: paints_fill_span\<close>)
    have "paints (width * height) (zoom_tile source width height levels row column)
        (rect_map width ?x0 ?x1 ?y0 ?y1 (\<lambda>i. source ! i) ++ rect_map width bx0 bx1 by0 by1 (\<lambda>_. 0))"
      using paints_seq [OF copy fill] False b by (simp add: zoom_tile_def [abs_def] Let_def)
    then show ?thesis
    proof (rule paints_cong)
      fix i
      show "(rect_map width ?x0 ?x1 ?y0 ?y1 (\<lambda>i. source ! i) ++ rect_map width bx0 bx1 by0 by1 (\<lambda>_. 0)) i =
          tile_map width height row column (zoom_pixel source width height row column ?l) i"
        using bounds False b
        by (auto simp: tile_map_def rect_map_def map_add_def zoom_pixel_def zoom_rect_def inside_def)
    qed
  qed
qed

theorem zoom_scalar_overlay:
  assumes "zoom_valid source out width height levels"
  shows "render_zoom_scalar source width height levels rows out =
    Some (overlay rows width height (zoom_picture source width height levels) out)"
proof -
  have l: "length source = width * height" "length out = width * height"
    using assms by (auto simp: zoom_valid_def)
  have "over_dirty_tiles rows (zoom_tile source width height levels) out =
      overlay rows width height (zoom_picture source width height levels) out"
    by (rule painted_overlay [OF paints_over_dirty_tiles [OF paints_zoom_tile within_tile_map] l(2)])
      (auto simp: l tile_map_eq zoom_picture_def tile_index_def)
  with assms show ?thesis
    by (simp add: render_zoom_scalar_def)
qed


text \<open>The retained renderer.\<close>

lemma fst_fold: "(\<And>k s. fst (g k s) = f k (fst s)) \<Longrightarrow> fst (fold g ks s) = fold f ks (fst s)"
  by (induction ks arbitrary: s) auto

lemma fst_over_dirty_tiles:
  assumes "\<And>row column s. fst (g row column s) = f row column (fst s)"
  shows "fst (over_dirty_tiles rows g s) = over_dirty_tiles rows f (fst s)"
  unfolding over_dirty_tiles_def by (intro fst_fold) (simp add: assms)

definition zoom_delta_pixels ::
  "u16 list \<Rightarrow> nat \<Rightarrow> nat \<Rightarrow> u8 list \<Rightarrow> u8 list \<Rightarrow> nat \<Rightarrow> nat \<Rightarrow> u16 list \<Rightarrow> u16 list" where
  "zoom_delta_pixels source width height levels previous row column =
     (let tile = row * GRID_COLUMNS + column;
          old = zoom_rect width height row column (previous ! tile);
          now = zoom_rect width height row column (levels ! tile)
      in fold (\<lambda>y. fold (\<lambda>x out.
             if inside old x y \<noteq> inside now x y
             then out[y * width + x := (if inside now x y then 0 else source ! (y * width + x))] else out)
           [tile_start GRID_COLUMNS width column..<tile_start GRID_COLUMNS width (column + 1)])
         [tile_start GRID_ROWS height row..<tile_start GRID_ROWS height (row + 1)])"

lemma fst_zoom_delta_tile:
  "fst (zoom_delta_tile source width height levels previous row column s) =
   zoom_delta_pixels source width height levels previous row column (fst s)"
  unfolding zoom_delta_tile_def zoom_delta_pixels_def Let_def
  by (intro fst_fold) (auto simp: case_prod_unfold)

lemma paints_update: "paints n (\<lambda>out. if P then out[j := v] else out) (\<lambda>i. if P \<and> i = j then Some v else None)"
  by (auto simp: paints_def nth_list_update)

lemma pixel_iff: "x < width \<Longrightarrow> i = y * width + x \<longleftrightarrow> i div width = y \<and> i mod width = x"
  for width :: nat
  by auto

lemma paints_pixels:
  assumes "x1 \<le> width"
  shows "paints n (\<lambda>out. fold (\<lambda>y. fold (\<lambda>x out. if P x y then out[y * width + x := g x y] else out) [x0..<x1]) [y0..<y1] out)
    (\<lambda>i. if P (i mod width) (i div width) then rect_map width x0 x1 y0 y1 (\<lambda>i. g (i mod width) (i div width)) i else None)"
proof -
  let ?w = "\<lambda>y x i. if P x y \<and> i = y * width + x then Some (g x y) else None"
  let ?row = "\<lambda>y. layered (?w y) [x0..<x1]"
  have row: "?row y i = (if i div width = y \<and> x0 \<le> i mod width \<and> i mod width < x1 \<and> P (i mod width) y
      then Some (g (i mod width) y) else None)" for y i
  proof (cases "i div width = y \<and> x0 \<le> i mod width \<and> i mod width < x1 \<and> P (i mod width) y")
    case True
    then have "?row y i = ?w y (i mod width) i"
      by (intro layered_at) (use assms in \<open>auto simp: pixel_iff\<close>)
    with True show ?thesis
      by auto
  next
    case False
    then have "?row y i = None"
      by (intro layered_None) (use assms in \<open>auto simp: pixel_iff\<close>)
    with False show ?thesis
      by auto
  qed
  have "paints n (\<lambda>out. fold (\<lambda>y. fold (\<lambda>x out. if P x y then out[y * width + x := g x y] else out) [x0..<x1]) [y0..<y1] out)
      (layered ?row [y0..<y1])"
    by (intro paints_fold_from paints_update)
  then show ?thesis
  proof (rule paints_cong)
    fix i
    show "layered ?row [y0..<y1] i =
      (if P (i mod width) (i div width) then rect_map width x0 x1 y0 y1 (\<lambda>i. g (i mod width) (i div width)) i else None)"
    proof (cases "y0 \<le> i div width \<and> i div width < y1")
      case True
      have "layered ?row [y0..<y1] i = ?row (i div width) i"
        by (rule layered_at [where W = ?row and k = "i div width"]) (use True in \<open>simp_all add: row\<close>)
      with True show ?thesis
        by (simp add: row rect_map_def)
    next
      case False
      have "layered ?row [y0..<y1] i = None"
        by (rule layered_None) (use False in \<open>auto simp: row\<close>)
      with False show ?thesis
        by (auto simp: rect_map_def)
    qed
  qed
qed

definition level_changes :: "nat \<Rightarrow> nat \<Rightarrow> nat \<Rightarrow> nat \<Rightarrow> u8 \<Rightarrow> u8 \<Rightarrow> nat \<Rightarrow> bool" where
  "level_changes width height row column before now i \<longleftrightarrow>
     inside (zoom_rect width height row column before) (i mod width) (i div width) \<noteq>
     inside (zoom_rect width height row column now) (i mod width) (i div width)"

lemma paints_zoom_delta:
  assumes "row < GRID_ROWS" "column < GRID_COLUMNS"
  shows "paints (width * height) (zoom_delta_pixels source width height levels previous row column)
    (\<lambda>i. if level_changes width height row column (previous ! (row * GRID_COLUMNS + column))
           (levels ! (row * GRID_COLUMNS + column)) i
       then tile_map width height row column
         (zoom_pixel source width height row column (levels ! (row * GRID_COLUMNS + column))) i
       else None)"
proof -
  let ?t = "row * GRID_COLUMNS + column"
  let ?old = "zoom_rect width height row column (previous ! ?t)"
    and ?now = "zoom_rect width height row column (levels ! ?t)"
  have "tile_start GRID_COLUMNS width (column + 1) \<le> width"
    using assms by (intro tile_start_le) simp
  then have "paints (width * height) (zoom_delta_pixels source width height levels previous row column)
    (\<lambda>i. if inside ?old (i mod width) (i div width) \<noteq> inside ?now (i mod width) (i div width)
       then rect_map width (tile_start GRID_COLUMNS width column) (tile_start GRID_COLUMNS width (column + 1))
         (tile_start GRID_ROWS height row) (tile_start GRID_ROWS height (row + 1))
         (\<lambda>i. if inside ?now (i mod width) (i div width) then 0 else source ! ((i div width) * width + i mod width)) i
       else None)"
    unfolding zoom_delta_pixels_def Let_def by (rule paints_pixels)
  then show ?thesis
    by (rule paints_cong)
      (simp add: level_changes_def tile_map_def rect_map_def zoom_pixel_def div_mult_mod_eq)
qed

lemma length_zoom_picture [simp]: "length (zoom_picture source width height levels) = width * height"
  by (simp add: zoom_picture_def)

theorem zoom_retained_redraw:
  assumes "zoom_valid source out width height levels" and "list_all level_ok previous"
    and "out = zoom_picture source width height previous"
    and damage: "\<And>i. i < width * height \<Longrightarrow> \<not> pixel_dirty rows width height i \<Longrightarrow>
      previous ! tile_index width height i = levels ! tile_index width height i"
  shows "\<exists>writes. render_zoom_retained source width height levels rows (Some previous) out =
    Some (zoom_picture source width height levels, writes)"
proof -
  let ?W = "\<lambda>row column i. if level_changes width height row column (previous ! (row * GRID_COLUMNS + column))
           (levels ! (row * GRID_COLUMNS + column)) i
       then tile_map width height row column
         (zoom_pixel source width height row column (levels ! (row * GRID_COLUMNS + column))) i
       else None"
  have "within_tiles width height ?W"
    by (auto simp: within_tiles_def tile_map_eq split: if_splits)
  then have p: "paints (width * height) (over_dirty_tiles rows (zoom_delta_pixels source width height levels previous))
      (damage_map rows width height ?W)"
    by (intro paints_over_dirty_tiles paints_zoom_delta)
  have out: "length out = width * height"
    using assms(3) by simp
  have "over_dirty_tiles rows (zoom_delta_pixels source width height levels previous) out =
      zoom_picture source width height levels"
  proof (rule nth_equalityI)
    show "length (over_dirty_tiles rows (zoom_delta_pixels source width height levels previous) out) =
        length (zoom_picture source width height levels)"
      by (simp add: paints_length [OF p out])
    fix i
    assume "i < length (over_dirty_tiles rows (zoom_delta_pixels source width height levels previous) out)"
    then have i: "i < width * height"
      by (simp add: paints_length [OF p out])
    show "over_dirty_tiles rows (zoom_delta_pixels source width height levels previous) out ! i =
        zoom_picture source width height levels ! i"
      unfolding paints_nth [OF p out i] using damage [OF i] i assms(3)
      by (auto simp: damage_map_def Let_def tile_map_eq zoom_picture_def tile_index_def pixel_dirty_def
          level_changes_def zoom_pixel_def)
  qed
  moreover have "fst (over_dirty_tiles rows (zoom_delta_tile source width height levels previous) (out, 0)) =
      over_dirty_tiles rows (zoom_delta_pixels source width height levels previous) out"
    using fst_over_dirty_tiles [where g = "zoom_delta_tile source width height levels previous"
        and f = "zoom_delta_pixels source width height levels previous" and s = "(out, 0)", OF fst_zoom_delta_tile]
    by simp
  ultimately show ?thesis
    using assms(1,2) by (simp add: render_zoom_retained_def) (metis prod.collapse)
qed

section \<open>Damage\<close>

lemma and_push_bit_neq_0: "k < 16 \<Longrightarrow> m AND push_bit k 1 \<noteq> 0 \<longleftrightarrow> bit m k"
  for m :: u16
  by (simp add: push_bit_eq_mult and_exp_eq_0_iff_not_bit del: push_bit_of_1)

lemma tile_dirty_iff: "column < GRID_COLUMNS \<Longrightarrow> tile_dirty rows row column \<longleftrightarrow> bit (rows ! row) column"
  by (simp only: tile_dirty_def GRID_COLUMNS_def and_push_bit_neq_0)

lemma tile_dirty_full: "row < GRID_ROWS \<Longrightarrow> column < GRID_COLUMNS \<Longrightarrow> tile_dirty damage_full row column"
  by (simp add: tile_dirty_iff damage_full_def) (simp add: GRID_COLUMNS_def)

lemma changed_mask_from:
  "set columns \<subseteq> {..<16} \<Longrightarrow>
   bit (fold (\<lambda>column mask.
         let i = row * GRID_COLUMNS + column in
         if previous ! i \<noteq> current ! i then mask OR push_bit column 1 else mask) columns (m :: u16)) k \<longleftrightarrow>
   bit m k \<or> k \<in> set columns \<and> previous ! (row * GRID_COLUMNS + k) \<noteq> current ! (row * GRID_COLUMNS + k)"
proof (induction columns arbitrary: m)
  case (Cons c columns)
  then have "c < 16"
    by simp
  then have "bit (m OR push_bit c 1) k \<longleftrightarrow> bit m k \<or> k = c"
    by (auto simp: bit_simps)
  with Cons show ?case
    by (auto simp: Let_def simp del: push_bit_of_1)
qed simp

lemma damage_changed_dirty:
  assumes "row < GRID_ROWS" "column < GRID_COLUMNS"
  shows "tile_dirty (damage_changed previous current) row column \<longleftrightarrow>
    previous ! (row * GRID_COLUMNS + column) \<noteq> current ! (row * GRID_COLUMNS + column)"
proof -
  have "damage_changed previous current ! row = changed_mask previous current row"
    using assms(1) by (simp add: damage_changed_def)
  moreover have "bit (changed_mask previous current row) column \<longleftrightarrow>
      previous ! (row * GRID_COLUMNS + column) \<noteq> current ! (row * GRID_COLUMNS + column)"
    unfolding changed_mask_def using assms(2)
    by (subst changed_mask_from) (auto simp: GRID_COLUMNS_def)
  ultimately show ?thesis
    using assms(2) by (simp add: tile_dirty_iff)
qed

lemma pixel_dirty_full: "i < width * height \<Longrightarrow> pixel_dirty damage_full width height i"
  by (simp add: pixel_dirty_def tile_dirty_full tile_row_less tile_column_less)

lemma pixel_dirty_changed:
  "i < width * height \<Longrightarrow> pixel_dirty (damage_changed previous current) width height i \<longleftrightarrow>
     previous ! tile_index width height i \<noteq> current ! tile_index width height i"
  by (simp add: pixel_dirty_def damage_changed_dirty tile_row_less tile_column_less tile_index_def)

lemma overlay_full: "length picture = width * height \<Longrightarrow> overlay damage_full width height picture out = picture"
  by (auto simp: overlay_def pixel_dirty_full intro: nth_equalityI)

lemma upt_split_at: "k < n \<Longrightarrow> [0..<n] = [0..<k] @ k # [Suc k..<n]"
  using upt_add_eq_append [of 0 k "n - k"] by (simp add: upt_conv_Cons)

lemma trailing_zeros_le:
  assumes "bit m k" "k < 16"
  shows "trailing_zeros m \<le> k"
proof -
  have "trailing_zeros m = length (takeWhile (\<lambda>j. \<not> bit m j) [0..<16])"
    by (simp only: trailing_zeros_def)
  moreover have "[0..<16::nat] = [0..<k] @ k # [Suc k..<16]"
    using assms(2) by (rule upt_split_at)
  ultimately show ?thesis
    using assms(1) by (auto simp: takeWhile_append intro: order_trans [OF length_takeWhile_le])
qed

lemma leading_zeros_le:
  assumes "bit m k" "k < 16"
  shows "k < 16 - leading_zeros m"
proof -
  have "[0..<16::nat] = [0..<k] @ k # [Suc k..<16]"
    using assms(2) by (rule upt_split_at)
  then have "rev [0..<16::nat] = rev [Suc k..<16] @ k # rev [0..<k]"
    by simp
  then have "leading_zeros m \<le> length (rev [Suc k..<16])"
    unfolding leading_zeros_def
    using assms(1) by (auto simp: takeWhile_append intro: order_trans [OF length_takeWhile_le])
  then show ?thesis
    using assms(2) by simp
qed

text \<open>
  The rectangle reported for a row contains the row's damage: it is reported exactly when the row has a
  dirty tile, lies inside the frame, and contains every pixel of every dirty tile of the row.
\<close>
theorem row_rectangle_contains_damage:
  assumes "row < GRID_ROWS" "length rows = GRID_ROWS"
  shows "case rect_for_row rows row width height of
      None \<Rightarrow> \<not> (\<exists>column < GRID_COLUMNS. tile_dirty rows row column)
    | Some (x0, y0, x1, y1) \<Rightarrow> (\<exists>column < GRID_COLUMNS. tile_dirty rows row column) \<and> x1 \<le> width \<and> y1 \<le> height \<and>
        (\<forall>i < width * height. tile_row_of width height i = row \<longrightarrow> pixel_dirty rows width height i \<longrightarrow>
           inside (x0, y0, x1, y1) (i mod width) (i div width))"
proof (cases "rows ! row = 0")
  case True
  then show ?thesis
    using assms by (auto simp: rect_for_row_def tile_dirty_def)
next
  case False
  let ?mask = "rows ! row"
  let ?first = "trailing_zeros ?mask" and ?last = "GRID_COLUMNS - leading_zeros ?mask"
  have r: "rect_for_row rows row width height =
      Some (tile_start GRID_COLUMNS width ?first, tile_start GRID_ROWS height row,
        tile_start GRID_COLUMNS width ?last, tile_start GRID_ROWS height (row + 1))"
    using assms False by (simp add: rect_for_row_def tile_start_def Let_def)
  have "inside (tile_start GRID_COLUMNS width ?first, tile_start GRID_ROWS height row,
        tile_start GRID_COLUMNS width ?last, tile_start GRID_ROWS height (row + 1)) (i mod width) (i div width)"
    if i: "i < width * height" and row: "tile_row_of width height i = row" and d: "pixel_dirty rows width height i" for i
  proof -
    let ?c = "tile_column_of width i"
    have c: "?c < GRID_COLUMNS"
      using i by (rule tile_column_less)
    then have "bit ?mask ?c"
      using d row by (simp add: pixel_dirty_def tile_dirty_iff)
    then have "?first \<le> ?c" "?c + 1 \<le> ?last"
      using trailing_zeros_le leading_zeros_le c by (auto simp: GRID_COLUMNS_def Suc_le_eq)
    then have "tile_start GRID_COLUMNS width ?first \<le> tile_start GRID_COLUMNS width ?c"
      "tile_start GRID_COLUMNS width (?c + 1) \<le> tile_start GRID_COLUMNS width ?last"
      by (simp_all only: tile_start_mono)
    moreover have "tile_start GRID_COLUMNS width ?c \<le> i mod width \<and>
        i mod width < tile_start GRID_COLUMNS width (?c + 1)"
      using tile_of_iff [OF pixel_in_frame(1) [OF i] grid_pos(2)] by (simp add: tile_column_of_def)
    moreover have "tile_start GRID_ROWS height row \<le> i div width \<and>
        i div width < tile_start GRID_ROWS height (row + 1)"
      using tile_of_iff [OF pixel_in_frame(2) [OF i] grid_pos(1)] row by (simp add: tile_row_of_def)
    ultimately show ?thesis
      by (auto simp: inside_def intro: order_trans less_le_trans)
  qed
  moreover have "tile_start GRID_COLUMNS width ?last \<le> width" "tile_start GRID_ROWS height (row + 1) \<le> height"
    using assms(1) by (intro tile_start_le; simp)+
  moreover have "\<exists>column < GRID_COLUMNS. tile_dirty rows row column"
  proof -
    obtain column where "bit ?mask column" "column < 16"
      using False by (auto simp: bit_eq_iff dest: bit_imp_le_length)
    then show ?thesis
      using tile_dirty_iff by (auto simp: GRID_COLUMNS_def)
  qed
  ultimately show ?thesis
    unfolding r by simp
qed

section \<open>The levels of the wave\<close>

lemma scaled_level_le: "(unat v * 32 + 32767) div 65535 \<le> 32" for v :: u16
  using unat_le_max [of v] by simp

lemma tile_eased_level_le:
  assumes "tile_eased_level curve phase_us row column = Some level" shows "level \<le> 32"
proof -
  obtain v :: u16 where level: "level =
      (if (unat v * unat OPACITY_LEVELS + 65535 div 2) div 65535 \<le> 255
       then of_nat ((unat v * unat OPACITY_LEVELS + 65535 div 2) div 65535) else OPACITY_LEVELS)"
    using assms unfolding tile_eased_level_def Let_def by (cases "phase_us < (row + column) * TILE_DELAY_US")
      (simp_all only: if_True if_False option.distinct option.inject, blast)
  define l where "l = (unat v * unat OPACITY_LEVELS + 65535 div 2) div 65535"
  have "l \<le> 32"
    unfolding l_def using scaled_level_le [of v] by (simp add: OPACITY_LEVELS_def)
  moreover from this have "unat (of_nat l :: u8) = l"
    by (intro unat_of_nat_small) simp
  ultimately show ?thesis
    unfolding level l_def [symmetric] by (simp add: word_le_nat_alt)
qed

lemma sat_sub_le: "sat_sub a b \<le> a"
  by (simp add: word_le_nat_alt unat_sat_sub)

lemma wave_level_ok:
  "(\<And>l. eased = Some l \<Longrightarrow> l \<le> 32) \<Longrightarrow> level_ok (wave_level effect eased revealing)"
  by (induction effect eased revealing rule: wave_level.induct)
    (auto simp: level_ok_def Let_def OPACITY_LEVELS_def sat_sub_le)

lemma length_wave_levels [simp]: "length (wave_levels curve effect elapsed) = TILE_COUNT"
  by (simp add: wave_levels_def Let_def)

lemma wave_levels_ok: "list_all level_ok (wave_levels curve effect elapsed)"
  by (auto simp: wave_levels_def Let_def list_all_iff intro!: wave_level_ok tile_eased_level_le)

lemma smooth_spring_end: "smooth_spring_q16 curve 65535 = - 1"
  by (simp add: smooth_spring_q16_def)

lemma tile_eased_level_end:
  assumes "row < GRID_ROWS" "column < GRID_COLUMNS" "775000 \<le> phase_us"
  shows "tile_eased_level curve phase_us row column = Some 32"
proof -
  have "(row + column) * 25000 \<le> 575000"
    using assms(1,2) by (simp add: GRID_ROWS_def GRID_COLUMNS_def)
  then have "min (phase_us - (row + column) * 25000) 200000 = 200000" and "\<not> phase_us < (row + column) * 25000"
    using assms(3) by simp_all
  then show ?thesis
    by (simp add: tile_eased_level_def Let_def TILE_DELAY_US_def TILE_FADE_US_def OPACITY_LEVELS_def
        smooth_spring_end unat_minus_1_word)
qed


section \<open>The picture of the wave\<close>

definition wave_picture :: "wave_effect \<Rightarrow> u16 list \<Rightarrow> nat \<Rightarrow> nat \<Rightarrow> u8 list \<Rightarrow> u16 list" where
  "wave_picture effect frame width height levels =
     (case effect of
        BrightnessFade \<Rightarrow> brightness_picture frame width height levels
      | CenterPixelZoom \<Rightarrow> zoom_picture frame width height levels)"

lemma length_wave_picture [simp]: "length (wave_picture effect frame width height levels) = width * height"
  by (simp add: wave_picture_def brightness_picture_def split: wave_effect.split)

lemma tile_index_less: "i < width * height \<Longrightarrow> tile_index width height i < TILE_COUNT"
proof -
  assume "i < width * height"
  then have "tile_row_of width height i < GRID_ROWS" "tile_column_of width i < GRID_COLUMNS"
    by (simp_all add: tile_row_less tile_column_less)
  then show ?thesis
    by (simp add: tile_index_def TILE_COUNT_def GRID_ROWS_def GRID_COLUMNS_def)
qed

lemma total_reveals:
  "wave_revealing WAVE_TOTAL_DURATION" "duration_us (WAVE_TOTAL_DURATION - WAVE_PHASE_DURATION) = 775000"
  by (simp_all add: wave_revealing_def duration_us_def WAVE_TOTAL_DURATION_def WAVE_PHASE_DURATION_def from_millis_def)

lemma wave_levels_end:
  assumes "i < TILE_COUNT"
  shows "wave_levels curve effect WAVE_TOTAL_DURATION ! i =
    (case effect of BrightnessFade \<Rightarrow> OPACITY_LEVELS | CenterPixelZoom \<Rightarrow> TILE_SKIP)"
proof -
  have "i div GRID_COLUMNS < GRID_ROWS" "i mod GRID_COLUMNS < GRID_COLUMNS"
    using assms by (simp_all add: TILE_COUNT_def less_mult_imp_div_less mult.commute)
  then have "tile_eased_level curve 775000 (i div GRID_COLUMNS) (i mod GRID_COLUMNS) = Some 32"
    by (simp add: tile_eased_level_end)
  then show ?thesis
    using assms by (simp add: wave_levels_def total_reveals Let_def OPACITY_LEVELS_def split: wave_effect.split)
qed

lemma wave_picture_end:
  assumes "length frame = width * height"
  shows "wave_picture effect frame width height (wave_levels curve effect WAVE_TOTAL_DURATION) = frame"
proof (rule nth_equalityI)
  fix i
  assume "i < length (wave_picture effect frame width height (wave_levels curve effect WAVE_TOTAL_DURATION))"
  then have i: "i < width * height"
    by simp
  then show "wave_picture effect frame width height (wave_levels curve effect WAVE_TOTAL_DURATION) ! i = frame ! i"
    using wave_levels_end [OF tile_index_less [OF i], of curve effect]
    by (simp add: wave_picture_def brightness_picture_def zoom_picture_def dimmed_def zoom_pixel_def
        zoom_rect_def inside_def OPACITY_LEVELS_def split: wave_effect.split_asm)
qed (simp add: assms)

theorem row_rectangle_contains_damage_witness:
  "case rect_for_row [0, 0x0104, 0, 0, 0, 0, 0, 0, 0] 1 1280 720 of
      None \<Rightarrow> False
    | Some (x0, y0, x1, y1) \<Rightarrow> x1 \<le> 1280 \<and> y1 \<le> 720"
proof -
  have "tile_dirty [0, 0x0104, 0, 0, 0, 0, 0, 0, 0] 1 2"
    by code_simp
  moreover have "2 < GRID_COLUMNS" "1 < GRID_ROWS" "length [0 :: u16, 0x0104, 0, 0, 0, 0, 0, 0, 0] = GRID_ROWS"
    by (simp_all add: GRID_COLUMNS_def GRID_ROWS_def)
  ultimately show ?thesis
    using row_rectangle_contains_damage [of 1 "[0, 0x0104, 0, 0, 0, 0, 0, 0, 0]" 1280 720]
    by (auto split: option.splits)
qed

end
