(* ===== verification/Orientation.thy ===== *)
theory Orientation
  imports Orientation_Wave
begin

text \<open>
  The orientation transition's runtime, \<open>OrientationTransitionRuntime\<close> of
  \<open>launcher_runtime/orientation_transition.rs\<close>: the two captured frames, the animation clock, and
  \<open>render_into\<close>, which redraws only what changed since the frame it rendered last. Clock reads that
  only measure the work are the argument \<open>measured\<close>.
\<close>

section \<open>Data\<close>

datatype screen_orientation = OrientNormal | OrientClockwise | OrientCounterclockwise

fun orientation_label :: "screen_orientation \<Rightarrow> string" where
  "orientation_label OrientNormal = ''Normal''"
| "orientation_label OrientClockwise = ''Monitor right (clockwise)''"
| "orientation_label OrientCounterclockwise = ''Monitor left (counterclockwise)''"

fun orientation_id :: "screen_orientation \<Rightarrow> string" where
  "orientation_id OrientNormal = ''normal''"
| "orientation_id OrientClockwise = ''monitor-clockwise''"
| "orientation_id OrientCounterclockwise = ''monitor-counterclockwise''"

definition is_portrait :: "screen_orientation \<Rightarrow> bool" where
  "is_portrait orientation = (orientation \<noteq> OrientNormal)"

record orientation_completion =
  oc_from :: screen_orientation
  oc_to :: screen_orientation

record orientation_stats =
  os_fill_us :: nat
  os_map_us :: nat
  os_crossfade_us :: nat
  os_total_us :: nat
  os_mapped_pixels :: nat
  os_blended_pixels :: nat
  os_progress_ppm :: nat

definition orientation_stats_default :: orientation_stats where
  "orientation_stats_default = \<lparr>os_fill_us = 0, os_map_us = 0, os_crossfade_us = 0, os_total_us = 0,
     os_mapped_pixels = 0, os_blended_pixels = 0, os_progress_ppm = 0\<rparr>"

datatype pmu_phase = PmuDestination | PmuFill | PmuMap | PmuCrossfade | PmuCacheRestore

definition FADE_LABELS :: "string list list" where
  "FADE_LABELS = [
     [''orientation.fade.normal-clockwise.destination'',
      ''orientation.fade.normal-clockwise.fill'',
      ''orientation.fade.normal-clockwise.map'',
      ''orientation.fade.normal-clockwise.crossfade'',
      ''orientation.fade.normal-clockwise.cache-restore''],
     [''orientation.fade.clockwise-counterclockwise.destination'',
      ''orientation.fade.clockwise-counterclockwise.fill'',
      ''orientation.fade.clockwise-counterclockwise.map'',
      ''orientation.fade.clockwise-counterclockwise.crossfade'',
      ''orientation.fade.clockwise-counterclockwise.cache-restore''],
     [''orientation.fade.counterclockwise-normal.destination'',
      ''orientation.fade.counterclockwise-normal.fill'',
      ''orientation.fade.counterclockwise-normal.map'',
      ''orientation.fade.counterclockwise-normal.crossfade'',
      ''orientation.fade.counterclockwise-normal.cache-restore''],
     [''orientation.fade.normal-counterclockwise.destination'',
      ''orientation.fade.normal-counterclockwise.fill'',
      ''orientation.fade.normal-counterclockwise.map'',
      ''orientation.fade.normal-counterclockwise.crossfade'',
      ''orientation.fade.normal-counterclockwise.cache-restore''],
     [''orientation.fade.counterclockwise-clockwise.destination'',
      ''orientation.fade.counterclockwise-clockwise.fill'',
      ''orientation.fade.counterclockwise-clockwise.map'',
      ''orientation.fade.counterclockwise-clockwise.crossfade'',
      ''orientation.fade.counterclockwise-clockwise.cache-restore''],
     [''orientation.fade.clockwise-normal.destination'',
      ''orientation.fade.clockwise-normal.fill'',
      ''orientation.fade.clockwise-normal.map'',
      ''orientation.fade.clockwise-normal.crossfade'',
      ''orientation.fade.clockwise-normal.cache-restore'']]"

definition ZOOM_LABELS :: "string list list" where
  "ZOOM_LABELS = [
     [''orientation.zoom.normal-clockwise.destination'',
      ''orientation.zoom.normal-clockwise.fill'',
      ''orientation.zoom.normal-clockwise.map'',
      ''orientation.zoom.normal-clockwise.crossfade'',
      ''orientation.zoom.normal-clockwise.cache-restore''],
     [''orientation.zoom.clockwise-counterclockwise.destination'',
      ''orientation.zoom.clockwise-counterclockwise.fill'',
      ''orientation.zoom.clockwise-counterclockwise.map'',
      ''orientation.zoom.clockwise-counterclockwise.crossfade'',
      ''orientation.zoom.clockwise-counterclockwise.cache-restore''],
     [''orientation.zoom.counterclockwise-normal.destination'',
      ''orientation.zoom.counterclockwise-normal.fill'',
      ''orientation.zoom.counterclockwise-normal.map'',
      ''orientation.zoom.counterclockwise-normal.crossfade'',
      ''orientation.zoom.counterclockwise-normal.cache-restore''],
     [''orientation.zoom.normal-counterclockwise.destination'',
      ''orientation.zoom.normal-counterclockwise.fill'',
      ''orientation.zoom.normal-counterclockwise.map'',
      ''orientation.zoom.normal-counterclockwise.crossfade'',
      ''orientation.zoom.normal-counterclockwise.cache-restore''],
     [''orientation.zoom.counterclockwise-clockwise.destination'',
      ''orientation.zoom.counterclockwise-clockwise.fill'',
      ''orientation.zoom.counterclockwise-clockwise.map'',
      ''orientation.zoom.counterclockwise-clockwise.crossfade'',
      ''orientation.zoom.counterclockwise-clockwise.cache-restore''],
     [''orientation.zoom.clockwise-normal.destination'',
      ''orientation.zoom.clockwise-normal.fill'',
      ''orientation.zoom.clockwise-normal.map'',
      ''orientation.zoom.clockwise-normal.crossfade'',
      ''orientation.zoom.clockwise-normal.cache-restore'']]"

fun pmu_leg :: "screen_orientation \<Rightarrow> screen_orientation \<Rightarrow> nat option" where
  "pmu_leg OrientNormal OrientClockwise = Some 0"
| "pmu_leg OrientClockwise OrientCounterclockwise = Some 1"
| "pmu_leg OrientCounterclockwise OrientNormal = Some 2"
| "pmu_leg OrientNormal OrientCounterclockwise = Some 3"
| "pmu_leg OrientCounterclockwise OrientClockwise = Some 4"
| "pmu_leg OrientClockwise OrientNormal = Some 5"
| "pmu_leg _ _ = None"

fun pmu_phase_index :: "pmu_phase \<Rightarrow> nat" where
  "pmu_phase_index PmuDestination = 0"
| "pmu_phase_index PmuFill = 1"
| "pmu_phase_index PmuMap = 2"
| "pmu_phase_index PmuCrossfade = 3"
| "pmu_phase_index PmuCacheRestore = 4"

definition orientation_pmu_label ::
  "wave_effect \<Rightarrow> screen_orientation \<Rightarrow> screen_orientation \<Rightarrow> pmu_phase \<Rightarrow> string" where
  "orientation_pmu_label effect from to phase =
     (case pmu_leg from to of
        None \<Rightarrow> ''orientation.invalid''
      | Some leg \<Rightarrow>
          (case effect of
             BrightnessFade \<Rightarrow> FADE_LABELS ! leg ! pmu_phase_index phase
           | CenterPixelZoom \<Rightarrow> ZOOM_LABELS ! leg ! pmu_phase_index phase))"

record orientation_runtime =
  ort_width :: nat
  ort_height :: nat
  ort_from :: screen_orientation
  ort_to :: screen_orientation
  ort_started_at :: "instant option"
  ort_duration :: duration
  ort_effect :: wave_effect
  ort_source :: "u16 list"
  ort_destination :: "u16 list"
  ort_destination_ready :: bool
  ort_active :: bool
  ort_completion :: "orientation_completion option"
  ort_last_stats :: orientation_stats
  ort_previous_levels :: "u8 list"
  ort_previous_valid :: bool
  ort_previous_revealing :: bool

section \<open>Operations\<close>

definition orientation_new_with_effect :: "nat \<Rightarrow> nat \<Rightarrow> wave_effect \<Rightarrow> orientation_runtime" where
  "orientation_new_with_effect width height effect =
     \<lparr>ort_width = width, ort_height = height, ort_from = OrientNormal, ort_to = OrientNormal,
      ort_started_at = None, ort_duration = WAVE_TOTAL_DURATION, ort_effect = effect,
      ort_source = replicate (width * height) 0, ort_destination = replicate (width * height) 0,
      ort_destination_ready = False, ort_active = False, ort_completion = None,
      ort_last_stats = orientation_stats_default, ort_previous_levels = replicate TILE_COUNT 0,
      ort_previous_valid = False, ort_previous_revealing = False\<rparr>"

definition orientation_new :: "nat \<Rightarrow> nat \<Rightarrow> orientation_runtime" where
  "orientation_new width height = orientation_new_with_effect width height CenterPixelZoom"

definition orientation_start ::
  "orientation_runtime \<Rightarrow> screen_orientation \<Rightarrow> screen_orientation \<Rightarrow> u16 list \<Rightarrow> instant \<Rightarrow> bool \<Rightarrow>
   bool \<times> orientation_runtime" where
  "orientation_start r from to source now reduce_motion =
     (if reduce_motion \<or> from = to \<or> length source \<noteq> length (ort_source r) then
        (False, r\<lparr>ort_active := False, ort_completion := Some \<lparr>oc_from = from, oc_to = to\<rparr>\<rparr>)
      else
        (True, r\<lparr>ort_from := from, ort_to := to, ort_started_at := Some now,
           ort_duration := WAVE_TOTAL_DURATION, ort_source := source,
           ort_destination := replicate (length (ort_destination r)) 0,
           ort_destination_ready := False, ort_active := True, ort_completion := None,
           ort_last_stats := orientation_stats_default, ort_previous_valid := False,
           ort_previous_revealing := False\<rparr>))"

definition orientation_capture_destination ::
  "orientation_runtime \<Rightarrow> u16 list \<Rightarrow> bool \<times> orientation_runtime" where
  "orientation_capture_destination r pixels =
     (if \<not> ort_active r \<or> length pixels \<noteq> length (ort_destination r) then (False, r)
      else if ort_destination_ready r then (True, r)
      else (True, r\<lparr>ort_destination := pixels, ort_destination_ready := True\<rparr>))"

definition orientation_copy_source_into :: "orientation_runtime \<Rightarrow> u16 list \<Rightarrow> bool \<times> u16 list" where
  "orientation_copy_source_into r out =
     (if \<not> ort_active r \<or> length out \<noteq> length (ort_source r) then (False, out)
      else (True, ort_source r))"

definition restart_animation :: "orientation_runtime \<Rightarrow> instant \<Rightarrow> bool \<times> orientation_runtime" where
  "restart_animation r now =
     (if \<not> ort_active r \<or> \<not> ort_destination_ready r then (False, r)
      else (True, r\<lparr>ort_started_at := Some now, ort_previous_valid := False,
             ort_previous_revealing := False\<rparr>))"

definition orientation_cancel :: "orientation_runtime \<Rightarrow> bool \<times> orientation_runtime" where
  "orientation_cancel r =
     (ort_active r, r\<lparr>ort_active := False, ort_destination_ready := False, ort_completion := None,
        ort_previous_valid := False\<rparr>)"

definition set_wave_effect :: "orientation_runtime \<Rightarrow> wave_effect \<Rightarrow> bool \<times> orientation_runtime" where
  "set_wave_effect r effect =
     (if ort_active r then (False, r) else (True, r\<lparr>ort_effect := effect\<rparr>))"

definition take_completion :: "orientation_runtime \<Rightarrow> orientation_completion option \<times> orientation_runtime" where
  "take_completion r = (ort_completion r, r\<lparr>ort_completion := None\<rparr>)"

definition duration_progress_ppm :: "duration \<Rightarrow> duration \<Rightarrow> nat" where
  "duration_progress_ppm elapsed whole =
     (let total_us = max (whole div 1000) 1;
          progress = ((elapsed div 1000) * 1000000 + total_us div 2) div total_us
      in min progress 1000000)"

text \<open>
  Drawing the damage: the brightness wave, or the zoom wave with the levels it drew last. \<open>None\<close> is
  the failed assertion on the zoom renderer's result.
\<close>

definition draw_wave ::
  "wave_effect \<Rightarrow> u16 list \<Rightarrow> nat \<Rightarrow> nat \<Rightarrow> u8 list \<Rightarrow> u16 list \<Rightarrow> u8 list option \<Rightarrow> u16 list \<Rightarrow> u16 list option" where
  "draw_wave effect frame width height levels rows previous out =
     (case effect of
        BrightnessFade \<Rightarrow> Some (render_brightness_scalar frame width height levels rows out)
      | CenterPixelZoom \<Rightarrow> map_option fst (render_zoom_retained frame width height levels rows previous out))"

record render_times =
  rt_fill_us :: nat
  rt_map_us :: nat
  rt_crossfade_us :: nat
  rt_total_us :: nat

record wave_render =
  wr_done :: bool
  wr_stats :: orientation_stats
  wr_damage :: "u16 list"

text \<open>
  \<open>render_into\<close>: the output frame and the runtime after it, with the result; \<open>None\<close> for the whole
  is a panic.
\<close>

definition orientation_render_into ::
  "u16 list \<Rightarrow> orientation_runtime \<Rightarrow> u16 list \<Rightarrow> instant \<Rightarrow> render_times \<Rightarrow>
   (wave_render option \<times> u16 list \<times> orientation_runtime) option" where
  "orientation_render_into curve r out now measured =
     (if \<not> ort_active r \<or> length out \<noteq> length (ort_source r) then Some (None, out, r)
      else if \<not> ort_destination_ready r then
        Some (Some \<lparr>wr_done = False, wr_stats = orientation_stats_default, wr_damage = damage_full\<rparr>,
          ort_source r, r\<lparr>ort_last_stats := orientation_stats_default\<rparr>)
      else
        (let elapsed = min (case ort_started_at r of None \<Rightarrow> 0 | Some started \<Rightarrow> since now started) (ort_duration r);
             (frame, levels, revealing) =
               wave_state curve (ort_effect r) (ort_source r) (ort_destination r) elapsed;
             finished = (ort_duration r \<le> elapsed);
             damage = (if \<not> ort_previous_valid r \<or> ort_previous_revealing r \<noteq> revealing \<or> finished
               then damage_full else damage_changed (ort_previous_levels r) levels);
             previous = (if ort_previous_valid r \<and> ort_previous_revealing r = revealing \<and> \<not> finished
               then Some (ort_previous_levels r) else None);
             blended = dirty_pixels damage (ort_width r) (ort_height r);
             stats = \<lparr>os_fill_us = rt_fill_us measured, os_map_us = rt_map_us measured,
               os_crossfade_us = rt_crossfade_us measured, os_total_us = rt_total_us measured,
               os_mapped_pixels = 0, os_blended_pixels = blended,
               os_progress_ppm = duration_progress_ppm elapsed (ort_duration r)\<rparr>
         in case draw_wave (ort_effect r) frame (ort_width r) (ort_height r) levels damage previous out of
              None \<Rightarrow> None
            | Some out' \<Rightarrow>
                Some (Some \<lparr>wr_done = finished, wr_stats = stats, wr_damage = damage\<rparr>, out',
                  r\<lparr>ort_previous_levels := levels, ort_previous_valid := True,
                    ort_previous_revealing := revealing,
                    ort_active := \<not> finished,
                    ort_completion := (if finished then Some \<lparr>oc_from = ort_from r, oc_to = ort_to r\<rparr>
                      else ort_completion r),
                    ort_last_stats := stats\<rparr>)))"

section \<open>The retained frame is the full picture\<close>

definition orientation_inv :: "orientation_runtime \<Rightarrow> bool" where
  "orientation_inv r \<longleftrightarrow>
     length (ort_source r) = ort_width r * ort_height r \<and>
     length (ort_destination r) = ort_width r * ort_height r \<and>
     ort_duration r = WAVE_TOTAL_DURATION \<and>
     list_all level_ok (ort_previous_levels r) \<and>
     (ort_active r \<longrightarrow> ort_started_at r \<noteq> None) \<and>
     (ort_active r \<and> ort_previous_valid r \<longrightarrow> ort_destination_ready r)"

definition wave_frame :: "orientation_runtime \<Rightarrow> bool \<Rightarrow> u16 list" where
  "wave_frame r revealing = (if revealing then ort_destination r else ort_source r)"

text \<open>What the runtime relies on of the buffer it draws into: it still holds the last frame.\<close>

definition retains :: "orientation_runtime \<Rightarrow> u16 list \<Rightarrow> bool" where
  "retains r out \<longleftrightarrow> length out = ort_width r * ort_height r \<and>
     (ort_active r \<and> ort_previous_valid r \<longrightarrow>
        out = wave_picture (ort_effect r) (wave_frame r (ort_previous_revealing r))
          (ort_width r) (ort_height r) (ort_previous_levels r))"

definition wave_elapsed :: "orientation_runtime \<Rightarrow> instant \<Rightarrow> duration" where
  "wave_elapsed r now =
     min (case ort_started_at r of None \<Rightarrow> 0 | Some started \<Rightarrow> since now started) (ort_duration r)"

lemma list_all_level_ok_nth: "list_all level_ok levels \<Longrightarrow> i < length levels \<Longrightarrow> level_ok (levels ! i)"
  by (simp add: list_all_length)

lemma draw_wave_full:
  assumes "length frame = width * height" "length out = width * height" "list_all level_ok levels"
  shows "draw_wave effect frame width height levels damage_full None out =
    Some (wave_picture effect frame width height levels)"
  using assms
  by (simp add: draw_wave_def wave_picture_def brightness_scalar_overlay overlay_full
      brightness_picture_def render_zoom_retained_def zoom_scalar_overlay zoom_valid_def split: wave_effect.split)

lemma draw_wave_retained:
  assumes "length frame = width * height" "list_all level_ok levels" "list_all level_ok previous"
    and "out = wave_picture effect frame width height previous"
  shows "draw_wave effect frame width height levels (damage_changed previous levels) (Some previous) out =
    Some (wave_picture effect frame width height levels)"
proof (cases effect)
  case BrightnessFade
  have out: "out = brightness_picture frame width height previous"
    using assms(4) BrightnessFade by (simp add: wave_picture_def)
  have "overlay (damage_changed previous levels) width height (brightness_picture frame width height levels) out =
      brightness_picture frame width height levels"
    by (rule overlay_retained) (auto simp: out brightness_picture_def pixel_dirty_changed)
  then show ?thesis
    using assms(1) out BrightnessFade
    by (simp add: draw_wave_def wave_picture_def brightness_scalar_overlay brightness_picture_def)
next
  case CenterPixelZoom
  have out: "out = zoom_picture frame width height previous"
    using assms(4) CenterPixelZoom by (simp add: wave_picture_def)
  have "zoom_valid frame out width height levels"
    using assms(1,2) out by (simp add: zoom_valid_def)
  then obtain writes where "render_zoom_retained frame width height levels (damage_changed previous levels)
      (Some previous) out = Some (zoom_picture frame width height levels, writes)"
    using zoom_retained_redraw [of frame out width height levels previous "damage_changed previous levels"]
      assms(3) out by (auto simp: pixel_dirty_changed)
  then show ?thesis
    using CenterPixelZoom by (simp add: draw_wave_def wave_picture_def)
qed

lemma render_into_active:
  fixes r :: orientation_runtime and now :: instant and curve :: "u16 list"
  assumes "orientation_inv r" "retains r out" "ort_active r" "ort_destination_ready r"
  defines "e \<equiv> wave_elapsed r now"
  defines "levels \<equiv> wave_levels curve (ort_effect r) e"
    and "revealing \<equiv> wave_revealing e"
    and "finished \<equiv> ort_duration r \<le> e"
  obtains damage stats r' where
    "orientation_render_into curve r out now measured =
      Some (Some \<lparr>wr_done = finished, wr_stats = stats, wr_damage = damage\<rparr>,
        wave_picture (ort_effect r) (wave_frame r revealing) (ort_width r) (ort_height r) levels, r')"
    "r' = r\<lparr>ort_previous_levels := levels, ort_previous_valid := True, ort_previous_revealing := revealing,
       ort_active := \<not> finished,
       ort_completion := (if finished then Some \<lparr>oc_from = ort_from r, oc_to = ort_to r\<rparr> else ort_completion r),
       ort_last_stats := stats\<rparr>"
    "damage = (if \<not> ort_previous_valid r \<or> ort_previous_revealing r \<noteq> revealing \<or> finished
       then damage_full else damage_changed (ort_previous_levels r) levels)"
proof -
  let ?damage = "if \<not> ort_previous_valid r \<or> ort_previous_revealing r \<noteq> revealing \<or> finished
       then damage_full else damage_changed (ort_previous_levels r) levels"
  let ?previous = "if ort_previous_valid r \<and> ort_previous_revealing r = revealing \<and> \<not> finished
               then Some (ort_previous_levels r) else None"
  have len: "length (wave_frame r revealing) = ort_width r * ort_height r" "length out = ort_width r * ort_height r"
    "length out = length (ort_source r)"
    using assms(1,2) by (simp_all add: orientation_inv_def wave_frame_def retains_def)
  have ok: "list_all level_ok levels" "list_all level_ok (ort_previous_levels r)"
    using assms(1) by (simp_all add: levels_def wave_levels_ok orientation_inv_def)
  have draw: "draw_wave (ort_effect r) (wave_frame r revealing) (ort_width r) (ort_height r) levels ?damage ?previous out =
      Some (wave_picture (ort_effect r) (wave_frame r revealing) (ort_width r) (ort_height r) levels)"
  proof (cases "ort_previous_valid r \<and> ort_previous_revealing r = revealing \<and> \<not> finished")
    case True
    then have "out = wave_picture (ort_effect r) (wave_frame r revealing) (ort_width r) (ort_height r) (ort_previous_levels r)"
      using assms(2,3) by (simp add: retains_def)
    with True show ?thesis
      using draw_wave_retained [OF len(1) ok(1) ok(2)] by simp
  next
    case False
    then have "?damage = damage_full" "?previous = None"
      by auto
    then show ?thesis
      using draw_wave_full [OF len(1,2) ok(1)] by (simp only:)
  qed
  have c: "(\<not> ort_active r \<or> length out \<noteq> length (ort_source r)) = False" "(\<not> ort_destination_ready r) = False"
    using assms(3,4) len(3) by simp_all
  have e: "min (case ort_started_at r of None \<Rightarrow> 0 | Some started \<Rightarrow> since now started) (ort_duration r) = e"
    by (simp add: e_def wave_elapsed_def)
  have w: "wave_state curve (ort_effect r) (ort_source r) (ort_destination r) e = (wave_frame r revealing, levels, revealing)"
    by (simp add: wave_state_def wave_frame_def levels_def revealing_def)
  let ?stats = "\<lparr>os_fill_us = rt_fill_us measured, os_map_us = rt_map_us measured,
            os_crossfade_us = rt_crossfade_us measured, os_total_us = rt_total_us measured,
            os_mapped_pixels = 0, os_blended_pixels = dirty_pixels ?damage (ort_width r) (ort_height r),
            os_progress_ppm = duration_progress_ppm e (ort_duration r)\<rparr>"
  let ?r = "r\<lparr>ort_previous_levels := levels, ort_previous_valid := True, ort_previous_revealing := revealing,
       ort_active := \<not> finished,
       ort_completion := (if finished then Some \<lparr>oc_from = ort_from r, oc_to = ort_to r\<rparr> else ort_completion r),
       ort_last_stats := ?stats\<rparr>"
  have "orientation_render_into curve r out now measured =
      Some (Some \<lparr>wr_done = finished, wr_stats = ?stats, wr_damage = ?damage\<rparr>,
        wave_picture (ort_effect r) (wave_frame r revealing) (ort_width r) (ort_height r) levels, ?r)"
    unfolding orientation_render_into_def Let_def e w prod.case
    by (simp only: c if_False finished_def [symmetric] draw option.case)
  then show thesis
    by (rule that) (rule refl)+
qed

definition orientation_state_inv :: "(orientation_runtime \<times> u16 list) option \<Rightarrow> bool" where
  "orientation_state_inv s = (case s of None \<Rightarrow> False | Some (r, out) \<Rightarrow> orientation_inv r \<and> retains r out)"

datatype orientation_op =
  OStart screen_orientation screen_orientation "u16 list" instant bool
| OCapture "u16 list"
| ORestart instant
| OCancel
| OSetEffect wave_effect
| OTakeCompletion
| ORender instant render_times

text \<open>
  The runtime and the buffer it draws into; a panic is \<open>None\<close>.
\<close>

fun orientation_apply ::
  "u16 list \<Rightarrow> orientation_runtime \<times> u16 list \<Rightarrow> orientation_op \<Rightarrow> (orientation_runtime \<times> u16 list) option" where
  "orientation_apply curve (r, out) (OStart from to source now reduce) =
     Some (snd (orientation_start r from to source now reduce), out)"
| "orientation_apply curve (r, out) (OCapture pixels) = Some (snd (orientation_capture_destination r pixels), out)"
| "orientation_apply curve (r, out) (ORestart now) = Some (snd (restart_animation r now), out)"
| "orientation_apply curve (r, out) OCancel = Some (snd (orientation_cancel r), out)"
| "orientation_apply curve (r, out) (OSetEffect effect) = Some (snd (set_wave_effect r effect), out)"
| "orientation_apply curve (r, out) OTakeCompletion = Some (snd (take_completion r), out)"
| "orientation_apply curve (r, out) (ORender now measured) =
     (case orientation_render_into curve r out now measured of
        None \<Rightarrow> None
      | Some (_, out', r') \<Rightarrow> Some (r', out'))"

definition orientation_step ::
  "u16 list \<Rightarrow> (orientation_runtime \<times> u16 list) option \<Rightarrow> orientation_op \<Rightarrow> (orientation_runtime \<times> u16 list) option" where
  "orientation_step curve s e = (case s of None \<Rightarrow> None | Some s \<Rightarrow> orientation_apply curve s e)"

lemma render_into_step_inv:
  assumes "orientation_inv r" "retains r out"
  shows "orientation_state_inv (orientation_apply curve (r, out) (ORender now measured))"
proof (cases "ort_active r \<and> ort_destination_ready r")
  case True
  then obtain damage stats r' where
    eq: "orientation_render_into curve r out now measured =
      Some (Some \<lparr>wr_done = ort_duration r \<le> wave_elapsed r now, wr_stats = stats, wr_damage = damage\<rparr>,
        wave_picture (ort_effect r) (wave_frame r (wave_revealing (wave_elapsed r now))) (ort_width r) (ort_height r)
          (wave_levels curve (ort_effect r) (wave_elapsed r now)), r')" and
    r': "r' = r\<lparr>ort_previous_levels := wave_levels curve (ort_effect r) (wave_elapsed r now), ort_previous_valid := True,
       ort_previous_revealing := wave_revealing (wave_elapsed r now),
       ort_active := \<not> ort_duration r \<le> wave_elapsed r now,
       ort_completion := (if ort_duration r \<le> wave_elapsed r now
         then Some \<lparr>oc_from = ort_from r, oc_to = ort_to r\<rparr> else ort_completion r),
       ort_last_stats := stats\<rparr>"
    using render_into_active [OF assms] by metis
  have "orientation_inv r'"
    using assms(1) True by (simp add: r' orientation_inv_def wave_levels_ok)
  moreover have "retains r' (wave_picture (ort_effect r) (wave_frame r (wave_revealing (wave_elapsed r now)))
      (ort_width r) (ort_height r) (wave_levels curve (ort_effect r) (wave_elapsed r now)))"
    by (simp add: r' retains_def wave_frame_def)
  ultimately show ?thesis
    by (simp add: eq orientation_state_inv_def)
next
  case False
  then show ?thesis
    using assms
    by (auto simp: orientation_render_into_def orientation_state_inv_def retains_def orientation_inv_def)
qed

interpretation orientation_machine: total_machine "orientation_step curve" orientation_state_inv for curve
proof
  fix s e
  assume inv: "orientation_state_inv s"
  then obtain r out where s: "s = Some (r, out)" and i: "orientation_inv r" "retains r out"
    by (auto simp: orientation_state_inv_def split: option.splits)
  have "orientation_state_inv (orientation_apply curve (r, out) e)"
  proof (cases e)
    case (ORender now measured)
    with i show ?thesis
      by (simp only: render_into_step_inv)
  qed (use i in \<open>auto simp: orientation_state_inv_def orientation_inv_def retains_def orientation_start_def
      orientation_capture_destination_def restart_animation_def orientation_cancel_def set_wave_effect_def
      take_completion_def wave_frame_def\<close>)
  then show "orientation_state_inv (orientation_step curve s e)"
    by (simp add: s orientation_step_def)
qed

lemma orientation_new_inv:
  "orientation_inv (orientation_new width height)"
  by (simp add: orientation_new_def orientation_new_with_effect_def orientation_inv_def list_all_iff level_ok_def)


lemma wave_picture_cong:
  "i < width * height \<Longrightarrow> previous ! tile_index width height i = levels ! tile_index width height i \<Longrightarrow>
   wave_picture effect frame width height previous ! i = wave_picture effect frame width height levels ! i"
  by (simp add: wave_picture_def brightness_picture_def zoom_picture_def split: wave_effect.split)

lemma render_into_full:
  assumes "orientation_inv r" "retains r out" "ort_active r" "ort_destination_ready r"
    and "e = wave_elapsed r now"
    and "picture = wave_picture (ort_effect r) (wave_frame r (wave_revealing e)) (ort_width r) (ort_height r)
      (wave_levels curve (ort_effect r) e)"
  shows "\<exists>res r'. orientation_render_into curve r out now measured = Some (Some res, picture, r') \<and>
    (\<forall>i < length out. \<not> pixel_dirty (wr_damage res) (ort_width r) (ort_height r) i \<longrightarrow> out ! i = picture ! i) \<and>
    wr_done res = (WAVE_TOTAL_DURATION \<le> e) \<and> ort_active r' = (\<not> wr_done res) \<and>
    (wr_done res \<longrightarrow> ort_completion r' = Some \<lparr>oc_from = ort_from r, oc_to = ort_to r\<rparr>)"
proof -
  obtain damage stats r' where
    eq: "orientation_render_into curve r out now measured =
      Some (Some \<lparr>wr_done = ort_duration r \<le> e, wr_stats = stats, wr_damage = damage\<rparr>, picture, r')" and
    r': "r' = r\<lparr>ort_previous_levels := wave_levels curve (ort_effect r) e, ort_previous_valid := True,
       ort_previous_revealing := wave_revealing e,
       ort_active := \<not> ort_duration r \<le> e,
       ort_completion := (if ort_duration r \<le> e
         then Some \<lparr>oc_from = ort_from r, oc_to = ort_to r\<rparr> else ort_completion r),
       ort_last_stats := stats\<rparr>" and
    damage: "damage = (if \<not> ort_previous_valid r \<or> ort_previous_revealing r \<noteq> wave_revealing e \<or> ort_duration r \<le> e
       then damage_full else damage_changed (ort_previous_levels r) (wave_levels curve (ort_effect r) e))"
    unfolding assms(5,6) using render_into_active [OF assms(1-4)] by metis
  have len: "length out = ort_width r * ort_height r"
    using assms(2) by (simp add: retains_def)
  have "out ! i = picture ! i" if i: "i < length out" and clean: "\<not> pixel_dirty damage (ort_width r) (ort_height r) i" for i
  proof (cases "\<not> ort_previous_valid r \<or> ort_previous_revealing r \<noteq> wave_revealing e \<or> ort_duration r \<le> e")
    case True
    then have "damage = damage_full"
      by (simp add: damage)
    with i clean len show ?thesis
      by (simp add: pixel_dirty_full)
  next
    case False
    then have "ort_previous_levels r ! tile_index (ort_width r) (ort_height r) i =
        wave_levels curve (ort_effect r) e ! tile_index (ort_width r) (ort_height r) i"
      using i clean len by (simp add: damage pixel_dirty_changed)
    moreover have "out = wave_picture (ort_effect r) (wave_frame r (wave_revealing e)) (ort_width r) (ort_height r)
        (ort_previous_levels r)"
      using assms(2,3) False by (simp add: retains_def)
    ultimately show ?thesis
      unfolding assms(6) using i len by (metis wave_picture_cong)
  qed
  moreover have "ort_duration r = WAVE_TOTAL_DURATION"
    using assms(1) by (simp add: orientation_inv_def)
  ultimately show ?thesis
    using eq r' by simp
qed

text \<open>
  C1: Redrawing only the changed tiles gives the same frame as redrawing everything. Whatever sequence
  of starts, captures, restarts, cancellations, effect changes and renders happened before on one
  output buffer, the runtime never fails the zoom renderer's assertion, and a render with both frames
  captured leaves in the buffer the full picture of the wave at its time - computed pixel by pixel
  from the levels, without the buffer - while the reported damage contains every pixel it changed.
\<close>
theorem retained_render_is_full_redraw:
  assumes "length out = width * height"
  shows "\<exists>r out'. run_steps (orientation_step curve) (Some (orientation_new width height, out)) ops = Some (r, out') \<and>
    (ort_active r \<and> ort_destination_ready r \<longrightarrow>
      (\<exists>res r' picture. orientation_render_into curve r out' now measured = Some (Some res, picture, r') \<and>
        picture = wave_picture (ort_effect r) (wave_frame r (wave_revealing (wave_elapsed r now)))
          (ort_width r) (ort_height r) (wave_levels curve (ort_effect r) (wave_elapsed r now)) \<and>
        (\<forall>i < length out'. \<not> pixel_dirty (wr_damage res) (ort_width r) (ort_height r) i \<longrightarrow> out' ! i = picture ! i)))"
proof -
  have "orientation_state_inv (Some (orientation_new width height, out))"
    using assms orientation_new_inv [of width height]
    by (simp add: orientation_state_inv_def retains_def orientation_new_def orientation_new_with_effect_def)
  then have "orientation_state_inv (run_steps (orientation_step curve) (Some (orientation_new width height, out)) ops)"
    by (rule orientation_machine.total_run_inv)
  then obtain r out' where
    "run_steps (orientation_step curve) (Some (orientation_new width height, out)) ops = Some (r, out')"
    "orientation_inv r" "retains r out'"
    by (auto simp: orientation_state_inv_def split: option.splits)
  then show ?thesis
    using render_into_full [OF _ _ _ _ refl refl, of r out' curve now measured] by blast
qed

text \<open>
  C28: The orientation change always completes, and on the destination: once the destination is
  captured, the first render at least 1550 ms after the animation started is done, leaves exactly the
  destination frame in the buffer, ends the transition and records its completion; earlier renders
  are not done and leave it active.
\<close>
theorem orientation_ends_on_destination:
  assumes "orientation_inv r" "retains r out" "ort_active r" "ort_destination_ready r"
    and "ort_started_at r = Some started"
  shows "\<exists>res out' r'. orientation_render_into curve r out now measured = Some (Some res, out', r') \<and>
    (wr_done res \<longleftrightarrow> started + from_millis 1550 \<le> now) \<and> (ort_active r' \<longleftrightarrow> \<not> wr_done res) \<and>
    (wr_done res \<longrightarrow> out' = ort_destination r \<and>
      ort_completion r' = Some \<lparr>oc_from = ort_from r, oc_to = ort_to r\<rparr>)"
proof -
  have dur: "ort_duration r = WAVE_TOTAL_DURATION"
    and len: "length (ort_destination r) = ort_width r * ort_height r"
    using assms(1) by (simp_all add: orientation_inv_def)
  have "WAVE_TOTAL_DURATION \<le> wave_elapsed r now \<longleftrightarrow> started + from_millis 1550 \<le> now"
    using assms(5) dur by (auto simp: wave_elapsed_def since_def WAVE_TOTAL_DURATION_def from_millis_def)
  moreover have "wave_picture (ort_effect r) (wave_frame r (wave_revealing (wave_elapsed r now))) (ort_width r)
      (ort_height r) (wave_levels curve (ort_effect r) (wave_elapsed r now)) = ort_destination r"
    if "WAVE_TOTAL_DURATION \<le> wave_elapsed r now"
  proof -
    have "wave_elapsed r now = WAVE_TOTAL_DURATION"
      using that dur by (simp add: wave_elapsed_def)
    then show ?thesis
      using len by (simp add: wave_picture_end total_reveals wave_frame_def)
  qed
  ultimately show ?thesis
    using render_into_full [OF assms(1-4) refl refl, of curve now measured] by fastforce
qed

section \<open>Witnesses\<close>


definition sample_times :: render_times where
  "sample_times = \<lparr>rt_fill_us = 1, rt_map_us = 2, rt_crossfade_us = 3, rt_total_us = 6\<rparr>"

definition sample_ops :: "orientation_op list" where
  "sample_ops = [OStart OrientNormal OrientClockwise [0xf800, 0x07e0] 1000 False, OCapture [0x001f, 0xffff],
     ORestart 5000]"

theorem retained_render_is_full_redraw_witness:
  "\<exists>r out'. run_steps (orientation_step []) (Some (orientation_new 2 1, [1, 2])) sample_ops = Some (r, out') \<and>
     ort_active r \<and> ort_destination_ready r \<and>
     (\<exists>res r' picture. orientation_render_into [] r out' 5000 sample_times = Some (Some res, picture, r'))"
proof -
  have "run_steps (orientation_step []) (Some (orientation_new 2 1, [1, 2])) sample_ops =
      Some ((orientation_new 2 1)\<lparr>ort_from := OrientNormal, ort_to := OrientClockwise, ort_started_at := Some 5000,
        ort_source := [0xf800, 0x07e0], ort_destination := [0x001f, 0xffff],
        ort_destination_ready := True, ort_active := True\<rparr>, [1, 2])"
    by (simp add: sample_ops_def orientation_step_def orientation_start_def orientation_new_def
        orientation_new_with_effect_def orientation_capture_destination_def restart_animation_def)
  then show ?thesis
    using retained_render_is_full_redraw [of "[1, 2]" 2 1 "[]" sample_ops 5000 sample_times]
    by (auto simp del: run_steps.simps)
qed

definition revealing_runtime :: orientation_runtime where
  "revealing_runtime = (orientation_new 2 1)\<lparr>ort_from := OrientNormal, ort_to := OrientClockwise,
     ort_started_at := Some 5000, ort_source := [0xf800, 0x07e0], ort_destination := [0x001f, 0xffff],
     ort_destination_ready := True, ort_active := True\<rparr>"

theorem orientation_ends_on_destination_witness:
  "\<exists>res r'. orientation_render_into [] revealing_runtime [7, 7] (5000 + from_millis 1600) sample_times =
     Some (Some res, [0x001f, 0xffff], r') \<and> \<not> ort_active r'"
proof -
  have "orientation_inv revealing_runtime" "retains revealing_runtime [7, 7]" "ort_active revealing_runtime"
    "ort_destination_ready revealing_runtime" "ort_started_at revealing_runtime = Some 5000"
    "ort_destination revealing_runtime = [0x001f, 0xffff]"
    by (simp_all add: revealing_runtime_def orientation_new_def orientation_new_with_effect_def
        orientation_inv_def retains_def list_all_iff level_ok_def)
  moreover have "5000 + from_millis 1550 \<le> 5000 + from_millis 1600"
    by (simp add: from_millis_def)
  ultimately show ?thesis
    using orientation_ends_on_destination [of revealing_runtime "[7, 7]" 5000 "[]"
        "5000 + from_millis 1600" sample_times] by metis
qed

end
