(* ===== verification/Director.thy ===== *)
theory Director
  imports Transition_Chart Navigation_Runtime Orientation Composition
begin

text \<open>
  \<open>launcher_runtime/presentation_director.rs\<close>: the director owns the navigation and the orientation
  runtime, the transition chart and the composition controller, and pairs their operations. The
  intents of a navigation (the launcher event it commits and the state it restores) are never looked
  into, so their types are parameters. The last section composes the operations the way the launcher
  loop does and shows that runtimes and chart stay in step.
\<close>

section \<open>Data\<close>

record ('e, 's) pending_navigation =
  pn_event :: 'e
  pn_source_state :: 's
  pn_source_was_arcade :: bool
  pn_committed :: bool
  pn_status_quiesce_started_at :: "instant option"

datatype orientation_intent = IntentConfirm | IntentRollback

datatype presentation_outcome =
  OutcomeConfirmed u16 u8 u16
| OutcomeVisible u16
| OutcomeUnacknowledged

definition resolve_outcome ::
  "bool \<Rightarrow> presentation_outcome \<Rightarrow> bool \<Rightarrow> u16 \<Rightarrow> presentation_outcome" where
  "resolve_outcome latch_confirmed confirmed visible_without_latch frame_sequence =
     (if latch_confirmed then confirmed
      else if visible_without_latch then OutcomeVisible frame_sequence
      else OutcomeUnacknowledged)"

record composition_request =
  cq_screensaver_active :: bool
  cq_destination_layers_ready :: bool
  cq_return_screen :: "screen option"
  cq_confirm_visible :: bool
  cq_overlay_visible :: bool
  cq_arcade_ready :: bool
  cq_route_ok :: bool
  cq_wants_arcade_list :: bool
  cq_wants_preview :: bool
  cq_preview_cache_exact :: bool
  cq_preview_frame_ready :: bool

record ('e, 's) director =
  pd_navigation :: nav_runtime
  pd_orientation :: orientation_runtime
  pd_chart :: chart
  pd_composition :: composition
  pd_pending :: "('e, 's) pending_navigation option"
  pd_intent :: "orientation_intent option"

definition director_new :: "nav_runtime \<Rightarrow> orientation_runtime \<Rightarrow> ('e, 's) director" where
  "director_new navigation orientation =
     \<lparr>pd_navigation = navigation, pd_orientation = orientation, pd_chart = chart_default,
      pd_composition = composition_new, pd_pending = None, pd_intent = None\<rparr>"

section \<open>Operations\<close>

definition begin_full_screen_transition :: "chart \<Rightarrow> transition_owner \<Rightarrow> bool \<times> chart" where
  "begin_full_screen_transition c owner =
     (case chart_begin c owner of (Inr _, c') \<Rightarrow> (True, c') | (Inl _, c') \<Rightarrow> (False, c'))"

definition release_full_screen_transition :: "chart \<Rightarrow> transition_owner \<Rightarrow> chart" where
  "release_full_screen_transition c owner =
     (case generation_for c owner of None \<Rightarrow> c | Some g \<Rightarrow> snd (chart_release c g))"

definition on_presented ::
  "('e, 's) director \<Rightarrow> composition_decision \<Rightarrow> presentation_outcome \<Rightarrow> bool \<times> ('e, 's) director" where
  "on_presented d decision outcome =
     (case (case outcome of
              OutcomeConfirmed sequence slot route_epoch \<Rightarrow> Some (sequence, slot, route_epoch)
            | OutcomeVisible sequence \<Rightarrow> Some (sequence, 0, 0)
            | OutcomeUnacknowledged \<Rightarrow> None) of
        None \<Rightarrow> (False, d)
      | Some (sequence, slot, route_epoch) \<Rightarrow>
          (let (retired, c) = confirm_presented_layers (pd_composition d) (cd_retirement_generation decision)
                 (cd_direct_layers_desired decision)
                 \<lparr>pr_sequence = sequence, pr_slot = slot, pr_route_epoch = route_epoch,
                  pr_carrier = cd_retirement_carrier decision\<rparr>
           in (retired, d\<lparr>pd_composition := c\<rparr>)))"

definition presentation_failed ::
  "('e, 's) director \<Rightarrow> composition_decision \<Rightarrow> ('e, 's) director" where
  "presentation_failed d decision =
     (case cd_retirement_generation decision of
        None \<Rightarrow> d
      | Some g \<Rightarrow> d\<lparr>pd_composition := snd (mark_retirement_uncertain (pd_composition d) g)\<rparr>)"

definition begin_orientation ::
  "('e, 's) director \<Rightarrow> screen_orientation \<Rightarrow> screen_orientation \<Rightarrow> u16 list \<Rightarrow> instant \<Rightarrow> bool \<Rightarrow>
   orientation_intent \<Rightarrow> bool option \<times> ('e, 's) director" where
  "begin_orientation d from to source now reduce_motion intent =
     (let (began, c) = begin_full_screen_transition (pd_chart d) OwnerOrientation; d1 = d\<lparr>pd_chart := c\<rparr> in
      if \<not> began then (None, d1)
      else let (animated, r) = orientation_start (pd_orientation d1) from to source now reduce_motion
           in (Some animated, d1\<lparr>pd_orientation := r,
                pd_intent := (if animated then Some intent else None)\<rparr>))"

definition end_orientation :: "('e, 's) director \<Rightarrow> orientation_intent option \<times> ('e, 's) director" where
  "end_orientation d =
     (pd_intent d,
      d\<lparr>pd_orientation := snd (take_completion (pd_orientation d)),
        pd_chart := release_full_screen_transition (pd_chart d) OwnerOrientation,
        pd_intent := None\<rparr>)"

definition abort_orientation :: "('e, 's) director \<Rightarrow> ('e, 's) director" where
  "abort_orientation d =
     d\<lparr>pd_orientation := snd (orientation_cancel (pd_orientation d)), pd_intent := None,
       pd_chart := release_full_screen_transition (pd_chart d) OwnerOrientation\<rparr>"

definition capture_orientation_destination ::
  "('e, 's) director \<Rightarrow> u16 list \<Rightarrow> bool \<times> ('e, 's) director" where
  "capture_orientation_destination d pixels =
     (let (took, r) = orientation_capture_destination (pd_orientation d) pixels;
          d1 = d\<lparr>pd_orientation := r\<rparr>;
          (captured, d2) =
            (if \<not> took then (False, d1)
             else case generation_for (pd_chart d1) OwnerOrientation of
                    None \<Rightarrow> (True, d1)
                  | Some g \<Rightarrow>
                      (case capture_completed (pd_chart d1) g of
                         (Inr _, c) \<Rightarrow> (True, d1\<lparr>pd_chart := c\<rparr>)
                       | (Inl _, c) \<Rightarrow> (False, d1\<lparr>pd_chart := c\<rparr>)))
      in (captured, if captured then d2 else abort_orientation d2))"

definition navigation_needs_source_carrier :: "('e, 's) director \<Rightarrow> transition_policy \<Rightarrow> bool" where
  "navigation_needs_source_carrier d p =
     (controlled_capture p \<and> chart_owner (pd_chart d) = Some OwnerNavigation \<and>
      nf_phase (nx_frame (pd_navigation d)) = PhCapture \<and> nx_settings_physical_space (pd_navigation d))"

definition orientation_needs_source_carrier :: "('e, 's) director \<Rightarrow> transition_policy \<Rightarrow> bool" where
  "orientation_needs_source_carrier d p =
     (controlled_capture p \<and> chart_owner (pd_chart d) = Some OwnerOrientation \<and>
      ort_active (pd_orientation d) \<and> \<not> ort_destination_ready (pd_orientation d))"

definition abort_stalled_orientation_capture ::
  "('e, 's) director \<Rightarrow> bool \<Rightarrow> bool \<times> ('e, 's) director" where
  "abort_stalled_orientation_capture d controlled_capture_rendered =
     (let stalled = (chart_owner (pd_chart d) = Some OwnerOrientation \<and>
            chart_state (pd_chart d) = CapturePending \<and>
            \<not> controlled_capture (chart_policy (pd_chart d)) \<and> \<not> controlled_capture_rendered)
      in (stalled, if stalled then abort_orientation d else d))"

definition destination_committed :: "('e, 's) director \<Rightarrow> bool" where
  "destination_committed d = (case pd_pending d of None \<Rightarrow> False | Some p \<Rightarrow> pn_committed p)"

definition director_compose ::
  "('e, 's) director \<Rightarrow> composition_request \<Rightarrow> composition_decision \<times> ('e, 's) director" where
  "director_compose d q =
     (let (decision, c) = composition_tick (pd_composition d)
            \<lparr>ci_screensaver_active = cq_screensaver_active q,
             ci_transition_active = nx_is_active (pd_navigation d),
             ci_destination_committed = destination_committed d,
             ci_destination_ready = nb_destination_ready (nx_buffers (pd_navigation d)),
             ci_destination_layers_ready = cq_destination_layers_ready q,
             ci_return_screen = cq_return_screen q, ci_confirm_visible = cq_confirm_visible q,
             ci_overlay_visible = cq_overlay_visible q, ci_arcade_ready = cq_arcade_ready q,
             ci_route_ok = cq_route_ok q, ci_wants_arcade_list = cq_wants_arcade_list q,
             ci_wants_preview = cq_wants_preview q, ci_preview_cache_exact = cq_preview_cache_exact q,
             ci_preview_frame_ready = cq_preview_frame_ready q\<rparr>
      in (decision, d\<lparr>pd_composition := c\<rparr>))"

definition adopt_navigation ::
  "('e, 's) director \<Rightarrow> ('e, 's) pending_navigation \<Rightarrow> bool \<times> ('e, 's) director" where
  "adopt_navigation d pending =
     (let (began, c) = begin_full_screen_transition (pd_chart d) OwnerNavigation; d1 = d\<lparr>pd_chart := c\<rparr>
      in if \<not> began then (False, d1) else (True, d1\<lparr>pd_pending := Some pending\<rparr>))"

definition unwind_navigation :: "('e, 's) director \<Rightarrow> ('e, 's) director" where
  "unwind_navigation d =
     d\<lparr>pd_navigation := snd (nx_complete (snd (nx_settle_at_destination (pd_navigation d))))\<rparr>"

definition capture_navigation_destination ::
  "('e, 's) director \<Rightarrow> u16 list \<Rightarrow> u64 \<Rightarrow> instant \<Rightarrow> bool \<times> ('e, 's) director" where
  "capture_navigation_destination d destination now_us at =
     (let (res, n) = capture_destination (pd_navigation d) destination now_us at;
          d1 = d\<lparr>pd_navigation := n\<rparr>;
          (captured, d2) =
            (case res of
               Inl _ \<Rightarrow> (False, d1)
             | Inr _ \<Rightarrow>
                 (case generation_for (pd_chart d1) OwnerNavigation of
                    None \<Rightarrow> (True, d1)
                  | Some g \<Rightarrow>
                      (let (completed, c) = capture_completed (pd_chart d1) g
                       in (completed = Inr (), d1\<lparr>pd_chart := c\<rparr>))))
      in (captured,
          if captured then d2
          else d2\<lparr>pd_navigation := snd (nx_settle_at_destination (pd_navigation d2))\<rparr>))"

definition finish_navigation :: "('e, 's) director \<Rightarrow> nav_completion option \<times> ('e, 's) director" where
  "finish_navigation d =
     (let (completion, n) = nx_complete (pd_navigation d); d1 = d\<lparr>pd_navigation := n\<rparr>
      in (completion,
          if completion \<noteq> None
          then d1\<lparr>pd_chart := release_full_screen_transition (pd_chart d1) OwnerNavigation\<rparr> else d1))"

definition cover_navigation :: "('e, 's) director \<Rightarrow> nav_endpoint option \<times> ('e, 's) director" where
  "cover_navigation d =
     (let (endpoint, n) =
            (if destination_committed d
             then (Some EndDestination, snd (nx_settle_at_destination (pd_navigation d)))
             else nx_cancel_for_exclusive_view (pd_navigation d));
          d1 = snd (finish_navigation (d\<lparr>pd_navigation := n\<rparr>))
      in (endpoint, d1\<lparr>pd_pending := None\<rparr>))"

section \<open>The launcher loop's steps\<close>

text \<open>
  Starting a navigation as the loop does it: the runtime first, then the chart; a transition that the
  chart refuses is unwound. And ending a settled one: the completion and then the pending intent.
\<close>

definition start_navigation ::
  "('e, 's) director \<Rightarrow> transition_start \<Rightarrow> u64 \<Rightarrow> instant \<Rightarrow> ('e, 's) pending_navigation \<Rightarrow>
   bool \<times> ('e, 's) director" where
  "start_navigation d s capture_us at pending =
     (let (res, n) = nx_begin (pd_navigation d) s capture_us at; d1 = d\<lparr>pd_navigation := n\<rparr>;
          runtime_started = (res = Inr True)
      in if \<not> runtime_started then (False, d1)
         else let (adopted, d2) = adopt_navigation d1 pending
              in if adopted then (True, d2) else (False, unwind_navigation d2))"

definition settle_navigation :: "('e, 's) director \<Rightarrow> ('e, 's) director" where
  "settle_navigation d =
     (if nf_phase (nx_frame (pd_navigation d)) = PhSettled
      then (snd (finish_navigation d))\<lparr>pd_pending := None\<rparr> else d)"

text \<open>
  Starting an orientation change: the layout of the new orientation resizes the navigation runtime,
  and a change that does not animate ends at once. \<open>layout\<close> is the new logical size and whether
  navigation may animate.
\<close>

definition begin_orientation_transition ::
  "('e, 's) director \<Rightarrow> screen_orientation \<Rightarrow> screen_orientation \<Rightarrow> u16 list \<Rightarrow> instant \<Rightarrow> bool \<Rightarrow>
   orientation_intent \<Rightarrow> nat \<times> nat \<times> bool \<Rightarrow> bool \<times> ('e, 's) director" where
  "begin_orientation_transition d from to source now reduce_motion intent layout =
     (case begin_orientation d from to source now reduce_motion intent of
        (None, d1) \<Rightarrow> (False, d1)
      | (Some animated, d1) \<Rightarrow>
          (let (w, h, enabled) = layout;
               d2 = d1\<lparr>pd_navigation := set_enabled (pd_navigation d1) w h enabled\<rparr>
           in (animated, if animated then d2 else snd (end_orientation d2))))"

text \<open>Rendering the orientation effect, with the end of a finished one; a panic is \<open>None\<close>.\<close>

definition render_orientation ::
  "u16 list \<Rightarrow> ('e, 's) director \<Rightarrow> u16 list \<Rightarrow> instant \<Rightarrow> render_times \<Rightarrow> ('e, 's) director option" where
  "render_orientation curve d out now measured =
     (case orientation_render_into curve (pd_orientation d) out now measured of
        None \<Rightarrow> None
      | Some (res, _, r) \<Rightarrow>
          (let d1 = d\<lparr>pd_orientation := r\<rparr> in
           Some (case res of
                   None \<Rightarrow> d1
                 | Some w \<Rightarrow> (if wr_done w then snd (end_orientation d1) else d1))))"

text \<open>
  A change of settings reaches the loop only while nothing plays; it enables or disables the
  navigation's animations.
\<close>

definition persist_settings :: "('e, 's) director \<Rightarrow> nat \<Rightarrow> nat \<Rightarrow> bool \<Rightarrow> ('e, 's) director" where
  "persist_settings d w h enabled =
     (if ort_active (pd_orientation d) \<or> chart_owner (pd_chart d) = Some OwnerOrientation \<or>
         nx_is_active (pd_navigation d)
      then d else d\<lparr>pd_navigation := set_enabled (pd_navigation d) w h enabled\<rparr>)"

section \<open>Stages of the navigation runtime\<close>

text \<open>
  Between operations the controller is never in its capture phase, and while the chart waits for the
  snapshot the runtime \<open>hides\<close> its destination: it has none, or has settled, and it does not reveal.
\<close>

definition nav_stage :: "nav_runtime \<Rightarrow> bool" where
  "nav_stage n \<longleftrightarrow> nx_inv n \<and> ct_phase (nx_controller n) \<noteq> PhCapture"

definition hides :: "nav_runtime \<Rightarrow> bool" where
  "hides n \<longleftrightarrow>
     (\<not> nb_destination_ready (nx_buffers n) \<or> nx_deferred_request n = None \<and> ct_phase (nx_controller n) = PhSettled) \<and>
     ct_phase (nx_controller n) \<noteq> PhReveal"

definition past_capture :: "nav_runtime \<Rightarrow> bool" where
  "past_capture n \<longleftrightarrow> nx_deferred_request n = None \<and> ct_phase (nx_controller n) \<noteq> PhCapture"

lemma nx_frame_phase: "nf_phase (nx_frame n) = (if nx_deferred_request n = None then ct_phase (nx_controller n) else PhCapture)"
  by (simp add: nx_frame_def ctl_frame_def Let_def)

lemma tick_expand_phase:
  "ct_phase c = PhExpand \<Longrightarrow> ct_phase (tick_expand c q now ready) \<in>
     (if ready then {PhExpand, PhReveal} else {PhExpand, PhCovered})"
  by (simp add: tick_expand_def Let_def)

lemma tick_covered_phase:
  "ct_phase c = PhCovered \<Longrightarrow> ct_phase (tick_covered c q now ready) \<in>
     (if ready then {PhReveal} else {PhCovered, PhSettled, PhReversing})"
  by (simp add: tick_covered_def start_reversing_def Let_def)

lemma tick_reveal_phase: "ct_phase c = PhReveal \<Longrightarrow> ct_phase (tick_reveal c q now) \<in> {PhReveal, PhSettled}"
  by (simp add: tick_reveal_def Let_def)

lemma tick_reversing_phase:
  "ct_phase c = PhReversing \<Longrightarrow> ct_phase (tick_reversing c q now) \<in> {PhReversing, PhSettled}"
  by (simp add: tick_reversing_def Let_def)

text \<open>\<open>keeps_stage ready p p'\<close>: what a part of a tick may do to the phase.\<close>

definition keeps_stage :: "bool \<Rightarrow> nav_phase \<Rightarrow> nav_phase \<Rightarrow> bool" where
  "keeps_stage ready p p' \<longleftrightarrow> (p \<noteq> PhCapture \<longrightarrow> p' \<noteq> PhCapture) \<and>
     (\<not> ready \<longrightarrow> p \<noteq> PhReveal \<longrightarrow> p' \<noteq> PhReveal) \<and> (p = PhSettled \<longrightarrow> p' = PhSettled)"

lemma keeps_stage_trans: "keeps_stage ready p q \<Longrightarrow> keeps_stage ready q r \<Longrightarrow> keeps_stage ready p r"
  by (auto simp: keeps_stage_def)

lemma keeps_stage_refl: "keeps_stage ready p p"
  by (simp add: keeps_stage_def)

lemma ctl_tick_phase: "keeps_stage ready (ct_phase c) (ct_phase (snd (ctl_tick c now ready)))"
proof (cases "ct_request c")
  case None
  then show ?thesis
    by (simp add: ctl_tick_def keeps_stage_refl)
next
  case (Some q)
  define c1 where "c1 = (if ct_phase c = PhExpand then tick_expand c q now ready else c)"
  define c2 where "c2 = (if ct_phase c1 = PhCovered then tick_covered c1 q now ready else c1)"
  define c3 where "c3 = (if ct_phase c2 = PhReveal then tick_reveal c2 q now
    else if ct_phase c2 = PhReversing then tick_reversing c2 q now else c2)"
  have "keeps_stage ready (ct_phase c) (ct_phase c1)"
    using tick_expand_phase [of c q now ready] by (auto simp: c1_def keeps_stage_def split: if_splits)
  moreover have "keeps_stage ready (ct_phase c1) (ct_phase c2)"
    using tick_covered_phase [of c1 q now ready] by (auto simp: c2_def keeps_stage_def split: if_splits)
  moreover have "keeps_stage ready (ct_phase c2) (ct_phase c3)"
    using tick_reveal_phase [of c2 q now] tick_reversing_phase [of c2 q now]
    by (auto simp: c3_def keeps_stage_def)
  moreover have "snd (ctl_tick c now ready) = c3"
    by (auto simp: ctl_tick_def Some c1_def [symmetric] c2_def [symmetric] c3_def Let_def)
  ultimately show ?thesis
    by (metis keeps_stage_trans)
qed

lemma start_reversing_phase: "ct_phase (start_reversing c now) \<in> {PhSettled, PhReversing}"
  by (simp add: start_reversing_def)

text \<open>An operation that neither starts, ends nor captures keeps the stage of the runtime.\<close>

definition same_stage :: "nav_runtime \<Rightarrow> nav_runtime \<Rightarrow> bool" where
  "same_stage n n' \<longleftrightarrow> (nav_stage n \<longrightarrow> nav_stage n' \<and> nx_is_active n' = nx_is_active n \<and>
     (hides n \<longrightarrow> hides n') \<and> (past_capture n \<longrightarrow> past_capture n'))"

lemma with_activation_stage:
  fixes now :: u64
  assumes "nav_stage n"
  defines "n' \<equiv> with_activation n now"
  shows "nav_stage n'" "nx_is_active n' = nx_is_active n" "nx_buffers n' = nx_buffers n" "past_capture n'"
    "nx_deferred_request n = None \<Longrightarrow> n' = n"
    "nx_deferred_request n \<noteq> None \<Longrightarrow> ct_phase (nx_controller n') = PhExpand"
proof -
  have inv: "nx_inv n" and ph: "ct_phase (nx_controller n) \<noteq> PhCapture"
    using assms(1) by (simp_all add: nav_stage_def)
  show same: "n' = n" if "nx_deferred_request n = None"
    using that by (simp add: n'_def with_activation_def)
  have active: "nx_deferred_request n' = None \<and> nx_inv n'"
    using with_activation_inv [OF inv] by (simp add: n'_def)
  have "ct_phase (nx_controller n') = PhExpand \<and> nx_buffers n' = nx_buffers n" if deferred: "nx_deferred_request n \<noteq> None"
  proof -
    obtain q where q: "nx_deferred_request n = Some q"
      using deferred by blast
    then have "\<not> ctl_is_active (nx_controller n)"
      using inv by (simp add: nx_inv_def)
    from activate_frame [OF q this, of now] obtain c where
      "activate_deferred n now = (True, n\<lparr>nx_deferred_request := None, nx_controller := c\<rparr>)" "ct_phase c = PhExpand"
      by blast
    with q show ?thesis
      by (simp add: n'_def with_activation_def)
  qed
  with active ph same show "nav_stage n'" "nx_is_active n' = nx_is_active n" "nx_buffers n' = nx_buffers n"
    "past_capture n'" "nx_deferred_request n \<noteq> None \<Longrightarrow> ct_phase (nx_controller n') = PhExpand"
    by (cases "nx_deferred_request n"; auto simp: nav_stage_def past_capture_def nx_is_active_def ctl_is_active_def)+
qed

lemma nav_stage_controller:
  assumes "nav_stage n" "nx_deferred_request n = None" "ctl_is_active c = ctl_is_active (nx_controller n)"
    and "ct_phase c \<noteq> PhCapture"
  shows "nav_stage (n\<lparr>nx_controller := c\<rparr>)"
  using assms nx_inv_controller [of n c] by (simp add: nav_stage_def)

lemma same_stage_tick: "same_stage n (snd (nx_tick n now))"
  unfolding same_stage_def
proof
  assume st: "nav_stage n"
  then have inv: "nx_inv n" and ph: "ct_phase (nx_controller n) \<noteq> PhCapture"
    by (simp_all add: nav_stage_def)
  show "nav_stage (snd (nx_tick n now)) \<and> nx_is_active (snd (nx_tick n now)) = nx_is_active n \<and>
    (hides n \<longrightarrow> hides (snd (nx_tick n now))) \<and> (past_capture n \<longrightarrow> past_capture (snd (nx_tick n now)))"
  proof (cases "nx_deferred_request n")
    case None
    let ?ready = "nb_destination_ready (nx_buffers n)"
    let ?c = "snd (ctl_tick (nx_controller n) now ?ready)"
    have eq: "snd (nx_tick n now) = n\<lparr>nx_controller := ?c\<rparr>"
      by (simp add: nx_tick_def None split_def Let_def)
    have k: "keeps_stage ?ready (ct_phase (nx_controller n)) (ct_phase ?c)"
      by (rule ctl_tick_phase)
    have "nav_stage (n\<lparr>nx_controller := ?c\<rparr>)"
      using st None k ph by (intro nav_stage_controller) (simp_all add: keeps_stage_def)
    with None k ph show ?thesis
      unfolding eq by (auto simp: hides_def past_capture_def keeps_stage_def nx_is_active_def)
  next
    case (Some q)
    let ?n = "with_activation n now"
    note w = with_activation_stage [OF st, of now]
    have ctl: "nx_deferred_request ?n = None" "ct_phase (nx_controller ?n) = PhExpand" "nx_buffers ?n = nx_buffers n"
      using w Some by (simp_all add: past_capture_def)
    show ?thesis
    proof (cases "nq_preparation_timeout_us q \<le> sat_sub now (nx_deferred_started_us n)")
      case True
      let ?c = "ctl_fail (nx_controller ?n) DestinationTimeout now"
      have eq: "snd (nx_tick n now) = ?n\<lparr>nx_controller := ?c\<rparr>"
        using Some True by (simp add: nx_tick_def with_activation_def Let_def)
      have "ct_phase ?c \<in> {PhSettled, PhReversing}"
        using ctl(2) start_reversing_phase by (simp add: ctl_fail_def ctl_is_active_def)
      moreover from this have "nav_stage (?n\<lparr>nx_controller := ?c\<rparr>)"
        using w(1) ctl by (intro nav_stage_controller) auto
      moreover have "hides n \<Longrightarrow> \<not> nb_destination_ready (nx_buffers n)"
        using Some by (simp add: hides_def)
      moreover have "nx_is_active (?n\<lparr>nx_controller := ?c\<rparr>) = nx_is_active n"
        using w(2) ctl by (simp add: nx_is_active_def)
      ultimately show ?thesis
        unfolding eq using Some ctl by (auto simp: hides_def past_capture_def)
    next
      case False
      then have "snd (nx_tick n now) = n"
        using Some by (simp add: nx_tick_def)
      then show ?thesis
        using st by simp
    qed
  qed
qed


lemma same_stage_after_activation:
  assumes st: "nav_stage n"
    and n': "n' = (with_activation n now)\<lparr>nx_controller := c\<rparr>"
    and act: "ctl_is_active c = ctl_is_active (nx_controller (with_activation n now))"
    and ph: "ct_phase c \<in> {PhSettled, PhReversing, ct_phase (nx_controller (with_activation n now))}"
    and settled: "ct_phase (nx_controller (with_activation n now)) = PhSettled \<Longrightarrow> ct_phase c = PhSettled"
  shows "nav_stage n'" "nx_is_active n' = nx_is_active n" "hides n \<Longrightarrow> hides n'" "past_capture n'"
    "nx_buffers n' = nx_buffers n"
proof -
  note w = with_activation_stage [OF st, of now]
  have none: "nx_deferred_request (with_activation n now) = None"
    and pc: "ct_phase (nx_controller (with_activation n now)) \<noteq> PhCapture"
    using w(4) by (simp_all add: past_capture_def)
  show "nav_stage n'"
    unfolding n' using w(1) none act ph pc by (intro nav_stage_controller) auto
  show "nx_is_active n' = nx_is_active n"
    using w(2) none act by (simp add: n' nx_is_active_def)
  show "past_capture n'"
    using none ph pc by (auto simp: n' past_capture_def)
  show "nx_buffers n' = nx_buffers n"
    using w(3) by (simp add: n')
  show "hides n'" if h: "hides n"
  proof (cases "nx_deferred_request n = None")
    case True
    then have "with_activation n now = n"
      using w(5) by simp
    then show ?thesis
      using h ph settled True by (auto simp: n' hides_def)
  next
    case False
    then have "\<not> nb_destination_ready (nx_buffers n)"
      using h by (auto simp: hides_def)
    then show ?thesis
      using w(3) w(6) [OF False] ph by (auto simp: n' hides_def)
  qed
qed

lemma same_stage_reverse: "same_stage n (snd (nx_request_reverse n now))"
proof -
  have "nav_stage (snd (nx_request_reverse n now)) \<and> nx_is_active (snd (nx_request_reverse n now)) = nx_is_active n \<and>
      (hides n \<longrightarrow> hides (snd (nx_request_reverse n now))) \<and> past_capture (snd (nx_request_reverse n now))"
    if st: "nav_stage n"
  proof -
    let ?c = "snd (ctl_request_reverse (nx_controller (with_activation n now)) now)"
    have n': "snd (nx_request_reverse n now) = (with_activation n now)\<lparr>nx_controller := ?c\<rparr>"
      by (simp add: nx_request_reverse_def split_def Let_def)
    have "ct_phase ?c \<in> {PhSettled, PhReversing, ct_phase (nx_controller (with_activation n now))}"
      using start_reversing_phase by (auto simp: ctl_request_reverse_def)
    moreover have "ct_phase (nx_controller (with_activation n now)) = PhSettled \<Longrightarrow> ct_phase ?c = PhSettled"
      by (simp add: ctl_request_reverse_def)
    ultimately show ?thesis
      using same_stage_after_activation [OF st n'] by simp
  qed
  then show ?thesis
    by (simp add: same_stage_def)
qed

text \<open>Settling and cancelling leave an active runtime settled.\<close>

lemma settles_stage:
  assumes st: "nav_stage n"
    and n': "n' = (with_activation n now)\<lparr>nx_controller := c\<rparr>"
    and c: "if ctl_is_active (nx_controller (with_activation n now)) then ct_phase c = PhSettled
      else c = nx_controller (with_activation n now)"
  shows "nav_stage n'" "nx_is_active n' = nx_is_active n" "past_capture n'" "nx_buffers n' = nx_buffers n"
    "nx_is_active n \<Longrightarrow> ct_phase (nx_controller n') = PhSettled"
    "nx_is_active n \<Longrightarrow> hides n'"
proof -
  note w = with_activation_stage [OF st, of now]
  have "ctl_is_active c = ctl_is_active (nx_controller (with_activation n now))"
    "ct_phase c \<in> {PhSettled, PhReversing, ct_phase (nx_controller (with_activation n now))}"
    "ct_phase (nx_controller (with_activation n now)) = PhSettled \<Longrightarrow> ct_phase c = PhSettled"
    using c by (auto simp: ctl_is_active_def split: if_splits)
  note k = same_stage_after_activation [OF st n' this]
  from k show "nav_stage n'" "nx_is_active n' = nx_is_active n" "past_capture n'" "nx_buffers n' = nx_buffers n"
    by blast+
  show settled: "ct_phase (nx_controller n') = PhSettled" if "nx_is_active n"
  proof -
    have "ctl_is_active (nx_controller (with_activation n now))"
      using that w(2,4) by (simp add: nx_is_active_def past_capture_def)
    with c show ?thesis
      by (simp add: n')
  qed
  show "hides n'" if "nx_is_active n"
    using settled [OF that] k(4) by (simp add: hides_def past_capture_def)
qed

lemma settle_stage:
  assumes "nav_stage n"
  defines "n' \<equiv> snd (nx_settle_at_destination n)"
  shows "nav_stage n'" "nx_is_active n' = nx_is_active n" "past_capture n'" "nx_buffers n' = nx_buffers n"
    "nx_is_active n \<Longrightarrow> ct_phase (nx_controller n') = PhSettled" "nx_is_active n \<Longrightarrow> hides n'"
proof -
  let ?m = "with_activation n (nx_deferred_started_us n)"
  have eq: "n' = ?m\<lparr>nx_controller := snd (ctl_settle_at_destination (nx_controller ?m))\<rparr>"
    by (simp add: n'_def nx_settle_at_destination_def split_def Let_def)
  have "if ctl_is_active (nx_controller ?m) then ct_phase (snd (ctl_settle_at_destination (nx_controller ?m))) = PhSettled
      else snd (ctl_settle_at_destination (nx_controller ?m)) = nx_controller ?m"
    by (simp add: ctl_settle_at_destination_def)
  from settles_stage [OF assms(1) eq this]
  show "nav_stage n'" "nx_is_active n' = nx_is_active n" "past_capture n'" "nx_buffers n' = nx_buffers n"
    "nx_is_active n \<Longrightarrow> ct_phase (nx_controller n') = PhSettled" "nx_is_active n \<Longrightarrow> hides n'"
    by blast+
qed

lemma cancel_stage:
  assumes "nav_stage n"
  defines "n' \<equiv> snd (nx_cancel_for_exclusive_view n)"
  shows "nav_stage n'" "nx_is_active n' = nx_is_active n" "past_capture n'" "nx_buffers n' = nx_buffers n"
    "nx_is_active n \<Longrightarrow> ct_phase (nx_controller n') = PhSettled" "nx_is_active n \<Longrightarrow> hides n'"
proof -
  let ?m = "with_activation n (nx_deferred_started_us n)"
  let ?c = "snd (ctl_cancel_for_exclusive_view (nx_controller ?m) (nb_destination_ready (nx_buffers ?m)))"
  have eq: "n' = ?m\<lparr>nx_controller := ?c\<rparr>"
    by (simp add: n'_def nx_cancel_for_exclusive_view_def split_def Let_def)
  have "if ctl_is_active (nx_controller ?m) then ct_phase ?c = PhSettled else ?c = nx_controller ?m"
    by (simp add: ctl_cancel_for_exclusive_view_def Let_def)
  from settles_stage [OF assms(1) eq this]
  show "nav_stage n'" "nx_is_active n' = nx_is_active n" "past_capture n'" "nx_buffers n' = nx_buffers n"
    "nx_is_active n \<Longrightarrow> ct_phase (nx_controller n') = PhSettled" "nx_is_active n \<Longrightarrow> hides n'"
    by blast+
qed

lemma complete_stage:
  assumes "nav_stage n" "nx_complete n = (res, n')"
  shows "nav_stage n'"
    and "res = None \<Longrightarrow> n' = n \<and> ct_phase (nx_controller n) \<noteq> PhSettled"
    and "res \<noteq> None \<Longrightarrow> ct_phase (nx_controller n) = PhSettled \<and> nx_is_active n \<and> \<not> nx_is_active n'"
proof -
  have inv: "nx_inv n" "nx_inv n'"
    using assms nx_inv_complete [of n] by (simp_all add: nav_stage_def)
  have phases: "if ct_phase (nx_controller n) = PhSettled
    then res \<noteq> None \<and> ct_phase (nx_controller n') = PhIdle \<and> nx_deferred_request n' = nx_deferred_request n
    else res = None \<and> n' = n"
    using assms(2) by (auto simp: nx_complete_def ctl_complete_def ctl_endpoint_def Let_def split: option.splits if_splits)
  then show "nav_stage n'" "res = None \<Longrightarrow> n' = n \<and> ct_phase (nx_controller n) \<noteq> PhSettled"
    using assms(1) inv by (auto simp: nav_stage_def split: if_splits)
  show "res \<noteq> None \<Longrightarrow> ct_phase (nx_controller n) = PhSettled \<and> nx_is_active n \<and> \<not> nx_is_active n'"
    using phases inv by (auto simp: nx_is_active_def ctl_is_active_def nx_inv_def split: if_splits)
qed

lemma begin_stage:
  assumes "nav_stage n" "nx_begin n s us at = (res, n')"
  shows "nav_stage n'" and "res = Inr True \<Longrightarrow> nx_is_active n' \<and> hides n' \<and> \<not> nx_is_active n"
    and "res \<noteq> Inr True \<Longrightarrow> nx_is_active n' = nx_is_active n \<and> (nx_is_active n \<longrightarrow> n' = n)"
proof -
  have inv: "nx_inv n" and ph: "ct_phase (nx_controller n) \<noteq> PhCapture"
    using assms(1) by (simp_all add: nav_stage_def)
  have *: "nav_stage n' \<and> (res = Inr True \<longrightarrow> nx_is_active n' \<and> hides n' \<and> \<not> nx_is_active n) \<and>
    (res \<noteq> Inr True \<longrightarrow> nx_is_active n' = nx_is_active n \<and> (nx_is_active n \<longrightarrow> n' = n))"
    using inv assms(2)
  proof (cases rule: nx_begin_cases)
    case refused
    then show ?thesis
      using assms(1) by simp
  next
    case failed
    have "\<not> nx_is_active n"
      using failed assms(2) by (auto simp: nx_begin_eq split: if_splits)
    then show ?thesis
      using failed inv ph
      by (auto simp: nav_stage_def past_capture_def nx_is_active_def ctl_is_active_def hides_def)
  next
    case began
    then show ?thesis
      using ph by (cases "ts_start s = Immediate") (auto simp: nav_stage_def hides_def nx_is_active_def ctl_is_active_def nx_inv_def)
  qed
  then show "nav_stage n'" "res = Inr True \<Longrightarrow> nx_is_active n' \<and> hides n' \<and> \<not> nx_is_active n"
    "res \<noteq> Inr True \<Longrightarrow> nx_is_active n' = nx_is_active n \<and> (nx_is_active n \<longrightarrow> n' = n)"
    by blast+
qed


lemma destination_stage:
  assumes st: "nav_stage n" and "capture_destination n px now at = (res, n')"
  shows "nav_stage n'" "nx_is_active n' = nx_is_active n" "res = Inr u \<Longrightarrow> past_capture n'"
proof -
  have inv': "nx_inv n'"
    using st assms(2) nx_inv_destination [of n px now at] by (simp add: nav_stage_def)
  obtain bres b where b: "buffers_capture_destination (nx_buffers n) px = (bres, b)"
    by fastforce
  define n1 where "n1 = n\<lparr>nx_buffers := b\<rparr>"
  define n2 where "n2 = n1\<lparr>nx_pending_prepare_started := None\<rparr>"
  have same: "nb_width b = nb_width (nx_buffers n)" "nb_height b = nb_height (nx_buffers n)"
    "nb_source_ready b = nb_source_ready (nx_buffers n)" "buffers_ok (nx_buffers n) \<Longrightarrow> buffers_ok b"
    using b by (auto simp: buffers_capture_destination_def buffers_ok_def split: if_splits)
  have st2: "nav_stage n2" and a2: "nx_is_active n2 = nx_is_active n"
    using st same by (simp_all add: nav_stage_def nx_inv_def nx_is_active_def n1_def n2_def)
  note w = with_activation_stage [OF st2, of now]
  have "nav_stage n' \<and> nx_is_active n' = nx_is_active n \<and> (res = Inr u \<longrightarrow> past_capture n')"
  proof (cases bres)
    case (Inl f)
    then have "n' = n1" "res = Inl f"
      using assms(2) b by (auto simp: capture_destination_def n1_def)
    then show ?thesis
      using st inv' by (simp add: n1_def nav_stage_def nx_is_active_def)
  next
    case (Inr v)
    have wa: "(if nx_deferred_request n2 \<noteq> None then snd (activate_deferred n2 now) else n2) = with_activation n2 now"
      by (simp add: with_activation_def)
    obtain us where "n' = (with_activation n2 now)\<lparr>nx_controller := note_destination_prepared (nx_controller (with_activation n2 now)) us\<rparr>"
      using assms(2) that
      unfolding capture_destination_def b Let_def prod.case Inr sum.case n1_def [symmetric] n2_def [symmetric] wa
      by auto
    then show ?thesis
      using w inv' a2
      by (auto simp: nav_stage_def past_capture_def nx_is_active_def ctl_is_active_def note_destination_prepared_def)
  qed
  then show "nav_stage n'" "nx_is_active n' = nx_is_active n" "res = Inr u \<Longrightarrow> past_capture n'"
    by blast+
qed

lemma set_enabled_stage:
  assumes "nav_stage n" "\<not> nx_is_active n"
  shows "nav_stage (set_enabled n w h e) \<and> \<not> nx_is_active (set_enabled n w h e)"
  using assms nx_inv_set_enabled [of n w h e]
  by (auto simp: nav_stage_def set_enabled_def nx_is_active_def ctl_is_active_def controller_default_def Let_def)

section \<open>Runtimes and chart in step\<close>

definition navigation_in_step :: "nav_runtime \<Rightarrow> orientation_runtime \<Rightarrow> transition_state \<Rightarrow> bool" where
  "navigation_in_step n r s \<longleftrightarrow> s \<noteq> Live \<and> \<not> ort_active r \<and> (nx_is_active n \<longleftrightarrow> s \<noteq> Releasing) \<and>
     (s = CapturePending \<longrightarrow> hides n) \<and> (s = SnapshotLocked \<longrightarrow> past_capture n)"

definition orientation_in_step :: "nav_runtime \<Rightarrow> orientation_runtime \<Rightarrow> transition_state \<Rightarrow> bool" where
  "orientation_in_step n r s \<longleftrightarrow> s \<noteq> Live \<and> \<not> nx_is_active n \<and> (ort_active r \<longleftrightarrow> s \<noteq> Releasing) \<and>
     (ort_active r \<longrightarrow> (ort_destination_ready r \<longleftrightarrow> s = SnapshotLocked))"

definition chart_in_step :: "nav_runtime \<Rightarrow> orientation_runtime \<Rightarrow> chart \<Rightarrow> bool" where
  "chart_in_step n r c \<longleftrightarrow>
     (case ch_active c of
        None \<Rightarrow> \<not> nx_is_active n \<and> \<not> ort_active r
      | Some a \<Rightarrow> (if at_owner a = OwnerNavigation then navigation_in_step n r (at_state a)
          else orientation_in_step n r (at_state a)))"

definition director_inv :: "('e, 's) director \<Rightarrow> bool" where
  "director_inv d \<longleftrightarrow> nav_stage (pd_navigation d) \<and>
     chart_in_step (pd_navigation d) (pd_orientation d) (pd_chart d) \<and>
     (pd_pending d \<noteq> None \<longleftrightarrow> nx_is_active (pd_navigation d)) \<and>
     (pd_intent d \<noteq> None \<longleftrightarrow> ort_active (pd_orientation d))"

datatype ('e, 's) director_op =
  DStart transition_start u64 instant "('e, 's) pending_navigation"
| DCapture "u16 list" u64 instant
| DTick u64
| DReverse u64
| DSettle
| DCancel
| DFinish
| DCover
| DCommit
| DPersist nat nat bool
| DOrientation screen_orientation screen_orientation "u16 list" instant bool orientation_intent "nat \<times> nat \<times> bool"
| DOrientationCapture "u16 list"
| DOrientationStall bool
| DOrientationRender "u16 list" "u16 list" instant render_times
| DTakeCapture chart_generation
| DDeferCapture chart_generation
| DRetain chart_generation
| DLivePresented chart_generation
| DCompose composition_request
| DPresented composition_decision presentation_outcome
| DFailed composition_decision

fun director_step :: "('e, 's) director \<Rightarrow> ('e, 's) director_op \<Rightarrow> ('e, 's) director" where
  "director_step d (DStart s us at pending) = snd (start_navigation d s us at pending)"
| "director_step d (DCapture px now at) = snd (capture_navigation_destination d px now at)"
| "director_step d (DTick now) = d\<lparr>pd_navigation := snd (nx_tick (pd_navigation d) now)\<rparr>"
| "director_step d (DReverse now) = d\<lparr>pd_navigation := snd (nx_request_reverse (pd_navigation d) now)\<rparr>"
| "director_step d DSettle = d\<lparr>pd_navigation := snd (nx_settle_at_destination (pd_navigation d))\<rparr>"
| "director_step d DCancel = d\<lparr>pd_navigation := snd (nx_cancel_for_exclusive_view (pd_navigation d))\<rparr>"
| "director_step d DFinish = settle_navigation d"
| "director_step d DCover = (if nx_is_active (pd_navigation d) then snd (cover_navigation d) else d)"
| "director_step d DCommit = d\<lparr>pd_pending := map_option (\<lambda>p. p\<lparr>pn_committed := True\<rparr>) (pd_pending d)\<rparr>"
| "director_step d (DPersist w h e) = persist_settings d w h e"
| "director_step d (DOrientation from to source now reduce intent layout) =
     snd (begin_orientation_transition d from to source now reduce intent layout)"
| "director_step d (DOrientationCapture px) = snd (capture_orientation_destination d px)"
| "director_step d (DOrientationStall rendered) = snd (abort_stalled_orientation_capture d rendered)"
| "director_step d (DOrientationRender curve out now measured) =
     (case render_orientation curve d out now measured of None \<Rightarrow> d | Some d' \<Rightarrow> d')"
| "director_step d (DTakeCapture g) = d\<lparr>pd_chart := snd (take_controlled_capture (pd_chart d) g)\<rparr>"
| "director_step d (DDeferCapture g) = d\<lparr>pd_chart := snd (capture_deferred (pd_chart d) g)\<rparr>"
| "director_step d (DRetain g) = d\<lparr>pd_chart := snd (retain_redraw (pd_chart d) g)\<rparr>"
| "director_step d (DLivePresented g) = d\<lparr>pd_chart := snd (live_frame_presented (pd_chart d) g)\<rparr>"
| "director_step d (DCompose q) = snd (director_compose d q)"
| "director_step d (DPresented decision outcome) = snd (on_presented d decision outcome)"
| "director_step d (DFailed decision) = presentation_failed d decision"

lemma release_eq:
  "release_full_screen_transition c owner =
     (case ch_active c of
        Some a \<Rightarrow> if at_owner a = owner then c\<lparr>ch_active := Some (a\<lparr>at_state := Releasing\<rparr>)\<rparr> else c
      | None \<Rightarrow> c)"
  by (simp add: release_full_screen_transition_def generation_for_def chart_release_def active_ref_def
      split: option.split)

lemma begin_eq:
  "begin_full_screen_transition c owner =
     (if ch_active c \<noteq> None then (False, c)
      else (True, \<lparr>ch_next_generation = max (ch_next_generation c + 1) 1,
              ch_active = Some \<lparr>at_owner = owner, at_state = CapturePending, at_generation = ch_next_generation c,
                at_capture_issued = False, at_retained_redraw = False\<rparr>\<rparr>))"
  by (simp add: begin_full_screen_transition_def chart_begin_def Let_def)

lemma completed_eq:
  assumes "generation_for c owner = Some g"
  obtains a where "ch_active c = Some a" "at_owner a = owner"
    "capture_completed c g =
      (if at_state a \<noteq> CapturePending then (Inl InvalidState, c)
       else if \<not> at_capture_issued a then (Inl CaptureNotIssued, c)
       else (Inr (), c\<lparr>ch_active := Some (a\<lparr>at_state := SnapshotLocked\<rparr>)\<rparr>))"
  using assms
  by (auto simp: generation_for_def capture_completed_def chart_state_def active_ref_def
      split: option.splits if_splits)

text \<open>The chart operations the loop issues itself.\<close>

lemma chart_in_step_cong:
  assumes "ch_active c = Some a" "ch_active c' = Some a'" "at_owner a' = at_owner a" "at_state a' = at_state a"
  shows "chart_in_step n r c' = chart_in_step n r c"
  using assms by (simp add: chart_in_step_def cong: if_cong)

definition passive_chart :: "chart \<Rightarrow> chart \<Rightarrow> bool" where
  "passive_chart c c' \<longleftrightarrow> c' = c \<or>
     (\<exists>a a'. ch_active c = Some a \<and> ch_active c' = Some a' \<and> at_owner a' = at_owner a \<and> at_state a' = at_state a) \<or>
     (\<exists>a. ch_active c = Some a \<and> at_state a = Releasing \<and> ch_active c' = None)"

lemma passive_chart_ops:
  "passive_chart c (snd (take_controlled_capture c g))"
  "passive_chart c (snd (capture_deferred c g))"
  "passive_chart c (snd (retain_redraw c g))"
  "passive_chart c (snd (live_frame_presented c g))"
  by (cases "ch_active c"; simp add: passive_chart_def chart_ops chart_state_def)+

lemma passive_chart_in_step:
  assumes "chart_in_step n r c" and "passive_chart c c'"
  shows "chart_in_step n r c'"
  using assms(2) unfolding passive_chart_def
proof (elim disjE exE conjE)
  fix a a'
  assume "ch_active c = Some a" "ch_active c' = Some a'" "at_owner a' = at_owner a" "at_state a' = at_state a"
  with assms(1) show ?thesis
    using chart_in_step_cong by blast
next
  fix a
  assume "ch_active c = Some a" "at_state a = Releasing" "ch_active c' = None"
  with assms(1) show ?thesis
    by (cases "at_owner a") (simp_all add: chart_in_step_def navigation_in_step_def orientation_in_step_def)
qed (use assms in simp)

text \<open>An operation on the navigation runtime alone that keeps its stage.\<close>

lemma in_step_navigation:
  assumes "chart_in_step n r c" "nav_stage n"
    and "nav_stage n'" "nx_is_active n' = nx_is_active n"
    and "nx_is_active n \<Longrightarrow> hides n \<Longrightarrow> hides n'" "nx_is_active n \<Longrightarrow> past_capture n \<Longrightarrow> past_capture n'"
  shows "chart_in_step n' r c"
proof (cases "ch_active c")
  case None
  with assms show ?thesis
    by (simp add: chart_in_step_def)
next
  case (Some a)
  with assms show ?thesis
    by (cases "at_owner a"; cases "at_state a")
      (auto simp: chart_in_step_def navigation_in_step_def orientation_in_step_def)
qed

lemma director_navigation_inv:
  assumes "director_inv d" and "nav_stage (pd_navigation d) \<Longrightarrow> nav_stage n' \<and>
      nx_is_active n' = nx_is_active (pd_navigation d) \<and>
      (nx_is_active (pd_navigation d) \<longrightarrow> hides (pd_navigation d) \<longrightarrow> hides n') \<and>
      (nx_is_active (pd_navigation d) \<longrightarrow> past_capture (pd_navigation d) \<longrightarrow> past_capture n')"
  shows "director_inv (d\<lparr>pd_navigation := n'\<rparr>)"
  using assms in_step_navigation [of "pd_navigation d" "pd_orientation d" "pd_chart d" n']
  by (simp add: director_inv_def)

lemma director_chart_inv:
  "director_inv d \<Longrightarrow> passive_chart (pd_chart d) c' \<Longrightarrow> director_inv (d\<lparr>pd_chart := c'\<rparr>)"
  unfolding director_inv_def by (auto intro: passive_chart_in_step)

lemma start_navigation_inv:
  assumes "director_inv d"
  shows "director_inv (snd (start_navigation d s us at pending))"
proof -
  let ?n = "pd_navigation d"
  have st: "nav_stage ?n" and step: "chart_in_step ?n (pd_orientation d) (pd_chart d)"
    using assms by (simp_all add: director_inv_def)
  obtain res n where b: "nx_begin ?n s us at = (res, n)"
    by fastforce
  note bs = begin_stage [OF st b]
  show ?thesis
  proof (cases "res = Inr True")
    case False
    then have "director_inv (d\<lparr>pd_navigation := n\<rparr>)"
      using assms bs(1,3) by (intro director_navigation_inv) auto
    with False show ?thesis
      by (simp add: start_navigation_def b)
  next
    case True
    note bt = bs(2) [OF True]
    show ?thesis
    proof (cases "ch_active (pd_chart d)")
      case None
      then have "\<not> ort_active (pd_orientation d)"
        using step by (simp add: chart_in_step_def)
      then show ?thesis
        using True None bs(1) bt assms
        by (simp add: start_navigation_def b adopt_navigation_def begin_eq director_inv_def chart_in_step_def
            navigation_in_step_def)
    next
      case (Some a)
      define m where "m = snd (nx_settle_at_destination n)"
      obtain cres n' where cn: "nx_complete m = (cres, n')"
        by fastforce
      note se = settle_stage [OF bs(1), folded m_def]
      have "ct_phase (nx_controller m) = PhSettled"
        using se(5) bt by simp
      then have n': "nav_stage n'" "\<not> nx_is_active n'"
        using complete_stage [OF se(1) cn] by (cases cres; auto)+
      have eq: "snd (start_navigation d s us at pending) = d\<lparr>pd_navigation := n'\<rparr>"
        using True Some by (simp add: start_navigation_def b adopt_navigation_def begin_eq unwind_navigation_def
            m_def [symmetric] cn)
      show ?thesis
        unfolding eq using assms n' bt by (intro director_navigation_inv) auto
    qed
  qed
qed

lemma release_in_step_navigation:
  assumes "chart_in_step n r c" "\<not> nx_is_active n'"
  shows "chart_in_step n' r (if nx_is_active n then release_full_screen_transition c OwnerNavigation else c)"
proof (cases "ch_active c")
  case None
  with assms show ?thesis
    by (simp add: chart_in_step_def release_eq)
next
  case (Some a)
  with assms show ?thesis
    by (cases "at_owner a"; cases "at_state a")
      (simp_all add: chart_in_step_def release_eq navigation_in_step_def orientation_in_step_def)
qed

lemma release_in_step_orientation:
  assumes "chart_in_step n r c" "\<not> ort_active r'"
  shows "chart_in_step n r' (release_full_screen_transition c OwnerOrientation)"
proof (cases "ch_active c")
  case None
  with assms show ?thesis
    by (simp add: chart_in_step_def release_eq)
next
  case (Some a)
  with assms show ?thesis
    by (cases "at_owner a"; cases "at_state a")
      (simp_all add: chart_in_step_def release_eq navigation_in_step_def orientation_in_step_def)
qed

lemma finish_inv:
  assumes st: "nav_stage n" and step: "chart_in_step n (pd_orientation d) (pd_chart d)"
    and "ct_phase (nx_controller n) = PhSettled \<or> \<not> nx_is_active n"
    and "pd_intent d \<noteq> None \<longleftrightarrow> ort_active (pd_orientation d)"
  shows "director_inv ((snd (finish_navigation (d\<lparr>pd_navigation := n\<rparr>)))\<lparr>pd_pending := None\<rparr>)"
    and "\<not> nx_is_active (pd_navigation (snd (finish_navigation (d\<lparr>pd_navigation := n\<rparr>))))"
    and "nx_is_active n \<Longrightarrow> chart_state (pd_chart (snd (finish_navigation (d\<lparr>pd_navigation := n\<rparr>)))) = Releasing \<and>
      chart_owner (pd_chart (snd (finish_navigation (d\<lparr>pd_navigation := n\<rparr>)))) = Some OwnerNavigation"
proof -
  obtain res n' where c: "nx_complete n = (res, n')"
    by fastforce
  note cs = complete_stage [OF st c]
  have res: "res \<noteq> None \<longleftrightarrow> nx_is_active n"
  proof (cases res)
    case None
    then show ?thesis
      using cs(2) assms(3) by auto
  next
    case (Some x)
    then show ?thesis
      using cs(3) by simp
  qed
  then have inactive: "\<not> nx_is_active n'"
    using cs(2,3) by (cases res) auto
  define c' where "c' = (if nx_is_active n then release_full_screen_transition (pd_chart d) OwnerNavigation else pd_chart d)"
  have f: "snd (finish_navigation (d\<lparr>pd_navigation := n\<rparr>)) = d\<lparr>pd_navigation := n', pd_chart := c'\<rparr>"
    using res by (cases res) (simp_all add: finish_navigation_def c c'_def)
  have "chart_in_step n' (pd_orientation d) c'"
    unfolding c'_def by (rule release_in_step_navigation [OF step inactive])
  then show "director_inv ((snd (finish_navigation (d\<lparr>pd_navigation := n\<rparr>)))\<lparr>pd_pending := None\<rparr>)"
    unfolding f using cs(1) inactive assms(4) by (simp add: director_inv_def)
  show "\<not> nx_is_active (pd_navigation (snd (finish_navigation (d\<lparr>pd_navigation := n\<rparr>))))"
    unfolding f using inactive by simp
  show "nx_is_active n \<Longrightarrow> chart_state (pd_chart (snd (finish_navigation (d\<lparr>pd_navigation := n\<rparr>)))) = Releasing \<and>
      chart_owner (pd_chart (snd (finish_navigation (d\<lparr>pd_navigation := n\<rparr>)))) = Some OwnerNavigation"
    unfolding f using step
    by (cases "ch_active (pd_chart d)")
      (simp_all add: c'_def release_eq chart_in_step_def chart_state_def chart_owner_def orientation_in_step_def
        split: if_splits)
qed

lemma settle_navigation_inv:
  assumes "director_inv d"
  shows "director_inv (settle_navigation d)"
proof (cases "nf_phase (nx_frame (pd_navigation d)) = PhSettled")
  case True
  then have "ct_phase (nx_controller (pd_navigation d)) = PhSettled"
    by (simp add: nx_frame_phase split: if_splits)
  then show ?thesis
    using True assms finish_inv(1) [of "pd_navigation d" d] by (simp add: settle_navigation_def director_inv_def)
qed (use assms in \<open>simp add: settle_navigation_def\<close>)

lemma cover_inv:
  assumes "director_inv d" "nx_is_active (pd_navigation d)"
  shows "director_inv (snd (cover_navigation d))" "\<not> nx_is_active (pd_navigation (snd (cover_navigation d)))"
    "pd_pending (snd (cover_navigation d)) = None"
    "chart_state (pd_chart (snd (cover_navigation d))) = Releasing"
    "chart_owner (pd_chart (snd (cover_navigation d))) = Some OwnerNavigation"
proof -
  have st: "nav_stage (pd_navigation d)" and step: "chart_in_step (pd_navigation d) (pd_orientation d) (pd_chart d)"
    and intent: "pd_intent d \<noteq> None \<longleftrightarrow> ort_active (pd_orientation d)"
    using assms(1) by (simp_all add: director_inv_def)
  obtain n where n: "snd (cover_navigation d) = (snd (finish_navigation (d\<lparr>pd_navigation := n\<rparr>)))\<lparr>pd_pending := None\<rparr>"
    and k: "nav_stage n" "nx_is_active n" "ct_phase (nx_controller n) = PhSettled" "hides n" "past_capture n"
  proof (cases "destination_committed d")
    case True
    then show thesis
      using settle_stage [OF st] assms(2)
      by (intro that [of "snd (nx_settle_at_destination (pd_navigation d))"]) (auto simp: cover_navigation_def Let_def)
  next
    case False
    then show thesis
      using cancel_stage [OF st] assms(2)
      by (intro that [of "snd (nx_cancel_for_exclusive_view (pd_navigation d))"])
        (auto simp: cover_navigation_def Let_def split_def)
  qed
  have "chart_in_step n (pd_orientation d) (pd_chart d)"
    by (rule in_step_navigation [OF step st k(1)]) (simp_all add: k assms(2))
  note f = finish_inv [OF k(1) this _ intent]
  show "director_inv (snd (cover_navigation d))" "\<not> nx_is_active (pd_navigation (snd (cover_navigation d)))"
    "pd_pending (snd (cover_navigation d)) = None"
    "chart_state (pd_chart (snd (cover_navigation d))) = Releasing"
    "chart_owner (pd_chart (snd (cover_navigation d))) = Some OwnerNavigation"
    unfolding n using f k by simp_all
qed


lemma capture_navigation_inv:
  assumes "director_inv d"
  shows "director_inv (snd (capture_navigation_destination d px now at))"
proof -
  have st: "nav_stage (pd_navigation d)" and step: "chart_in_step (pd_navigation d) (pd_orientation d) (pd_chart d)"
    using assms by (simp_all add: director_inv_def)
  obtain res n where c: "capture_destination (pd_navigation d) px now at = (res, n)"
    by fastforce
  note ds = destination_stage [OF st c]
  define m where "m = snd (nx_settle_at_destination n)"
  note se = settle_stage [OF ds(1), folded m_def]
  have settled: "director_inv (d\<lparr>pd_navigation := m\<rparr>)"
    by (rule director_navigation_inv [OF assms]) (simp add: se ds(2))
  show ?thesis
  proof (cases res)
    case (Inl f)
    then have "snd (capture_navigation_destination d px now at) = d\<lparr>pd_navigation := m\<rparr>"
      by (simp add: capture_navigation_destination_def c m_def)
    with settled show ?thesis
      by simp
  next
    case (Inr u)
    show ?thesis
    proof (cases "generation_for (pd_chart d) OwnerNavigation")
      case None
      have inactive: "\<not> nx_is_active (pd_navigation d)"
        using None step
        by (cases "ch_active (pd_chart d)")
          (auto simp: generation_for_def chart_in_step_def orientation_in_step_def split: if_splits)
      have "snd (capture_navigation_destination d px now at) = d\<lparr>pd_navigation := n\<rparr>"
        using Inr None by (simp add: capture_navigation_destination_def c)
      moreover have "director_inv (d\<lparr>pd_navigation := n\<rparr>)"
        by (rule director_navigation_inv [OF assms]) (simp add: ds inactive)
      ultimately show ?thesis
        by simp
    next
      case (Some g)
      obtain a where a: "ch_active (pd_chart d) = Some a" "at_owner a = OwnerNavigation" and
        cc: "capture_completed (pd_chart d) g =
          (if at_state a \<noteq> CapturePending then (Inl InvalidState, pd_chart d)
           else if \<not> at_capture_issued a then (Inl CaptureNotIssued, pd_chart d)
           else (Inr (), (pd_chart d)\<lparr>ch_active := Some (a\<lparr>at_state := SnapshotLocked\<rparr>)\<rparr>))"
        by (rule completed_eq [OF Some])
      show ?thesis
      proof (cases "at_state a = CapturePending \<and> at_capture_issued a")
        case True
        then have eq: "snd (capture_navigation_destination d px now at) =
            d\<lparr>pd_navigation := n, pd_chart := (pd_chart d)\<lparr>ch_active := Some (a\<lparr>at_state := SnapshotLocked\<rparr>)\<rparr>\<rparr>"
          using Inr Some cc by (simp add: capture_navigation_destination_def c Let_def)
        have "navigation_in_step (pd_navigation d) (pd_orientation d) CapturePending"
          using step a True by (simp add: chart_in_step_def)
        then have "navigation_in_step n (pd_orientation d) SnapshotLocked"
          using ds(2) ds(3) [OF Inr] by (simp add: navigation_in_step_def)
        then show ?thesis
          unfolding eq using assms a ds(1,2) by (simp add: director_inv_def chart_in_step_def)
      next
        case False
        then have "snd (capture_navigation_destination d px now at) = d\<lparr>pd_navigation := m\<rparr>"
          using Inr Some cc by (auto simp: capture_navigation_destination_def c m_def Let_def)
        with settled show ?thesis
          by simp
      qed
    qed
  qed
qed

text \<open>The orientation side.\<close>

lemma release_orientation_inv:
  assumes "director_inv d" "\<not> ort_active r" "ort_active r = (i \<noteq> None)"
  shows "director_inv (d\<lparr>pd_orientation := r, pd_intent := i,
    pd_chart := release_full_screen_transition (pd_chart d) OwnerOrientation\<rparr>)"
  using assms release_in_step_orientation [of "pd_navigation d" "pd_orientation d" "pd_chart d" r]
  by (simp add: director_inv_def)

lemma abort_orientation_inv:
  assumes "director_inv d"
  shows "director_inv (abort_orientation d)"
proof -
  have "abort_orientation d = d\<lparr>pd_orientation := snd (orientation_cancel (pd_orientation d)), pd_intent := None,
      pd_chart := release_full_screen_transition (pd_chart d) OwnerOrientation\<rparr>"
    by (simp add: abort_orientation_def)
  also have "director_inv \<dots>"
    by (rule release_orientation_inv [OF assms]) (simp_all add: orientation_cancel_def)
  finally show ?thesis .
qed

lemma capture_orientation_inv:
  assumes "director_inv d"
  shows "director_inv (snd (capture_orientation_destination d px))"
proof -
  let ?r = "pd_orientation d"
  have step: "chart_in_step (pd_navigation d) ?r (pd_chart d)"
    using assms by (simp add: director_inv_def)
  obtain took r where c: "orientation_capture_destination ?r px = (took, r)"
    by fastforce
  have act: "ort_active r = ort_active ?r" and took: "took \<longrightarrow> ort_active ?r \<and> ort_destination_ready r"
    and same: "\<not> took \<longrightarrow> r = ?r"
    using c by (auto simp: orientation_capture_destination_def split: if_splits)
  have abort: "director_inv (abort_orientation (d\<lparr>pd_orientation := r\<rparr>))"
  proof -
    have "abort_orientation (d\<lparr>pd_orientation := r\<rparr>) =
        d\<lparr>pd_orientation := snd (orientation_cancel r), pd_intent := None,
          pd_chart := release_full_screen_transition (pd_chart d) OwnerOrientation\<rparr>"
      by (simp add: abort_orientation_def)
    also have "director_inv \<dots>"
      by (rule release_orientation_inv [OF assms]) (simp_all add: orientation_cancel_def)
    finally show ?thesis .
  qed
  show ?thesis
  proof (cases took)
    case False
    then show ?thesis
      using abort by (simp add: capture_orientation_destination_def c Let_def)
  next
    case True
    then have active: "ort_active ?r" and ready: "ort_destination_ready r"
      using took by simp_all
    then obtain a where a: "ch_active (pd_chart d) = Some a" "at_owner a = OwnerOrientation"
      "orientation_in_step (pd_navigation d) ?r (at_state a)"
      using step by (auto simp: chart_in_step_def navigation_in_step_def split: option.splits if_splits)
        (meson transition_owner.exhaust)
    then have g: "generation_for (pd_chart d) OwnerOrientation = Some (at_generation a)"
      by (simp add: generation_for_def)
    have cc: "capture_completed (pd_chart d) (at_generation a) =
          (if at_state a \<noteq> CapturePending then (Inl InvalidState, pd_chart d)
           else if \<not> at_capture_issued a then (Inl CaptureNotIssued, pd_chart d)
           else (Inr (), (pd_chart d)\<lparr>ch_active := Some (a\<lparr>at_state := SnapshotLocked\<rparr>)\<rparr>))"
      by (simp add: capture_completed_def chart_state_def active_ref_def a(1))
    show ?thesis
    proof (cases "at_state a = CapturePending \<and> at_capture_issued a")
      case False
      then have "snd (capture_orientation_destination d px) = abort_orientation (d\<lparr>pd_orientation := r\<rparr>)"
        using True g cc by (auto simp: capture_orientation_destination_def c Let_def)
      with abort show ?thesis
        by simp
    next
      case locked: True
      then have eq: "snd (capture_orientation_destination d px) =
          d\<lparr>pd_orientation := r, pd_chart := (pd_chart d)\<lparr>ch_active := Some (a\<lparr>at_state := SnapshotLocked\<rparr>)\<rparr>\<rparr>"
        using True g cc by (simp add: capture_orientation_destination_def c Let_def)
      have "orientation_in_step (pd_navigation d) r SnapshotLocked"
        using a(3) act ready active locked by (simp add: orientation_in_step_def)
      then show ?thesis
        unfolding eq using assms a act by (simp add: director_inv_def chart_in_step_def)
    qed
  qed
qed

lemma end_orientation_inv:
  assumes "director_inv (d\<lparr>pd_orientation := r0, pd_intent := i0\<rparr>)" "\<not> ort_active (pd_orientation d)"
  shows "director_inv (snd (end_orientation d))"
proof -
  have "snd (end_orientation d) = (d\<lparr>pd_orientation := r0, pd_intent := i0\<rparr>)\<lparr>
      pd_orientation := snd (take_completion (pd_orientation d)), pd_intent := None,
      pd_chart := release_full_screen_transition (pd_chart (d\<lparr>pd_orientation := r0, pd_intent := i0\<rparr>)) OwnerOrientation\<rparr>"
    by (simp add: end_orientation_def)
  also have "director_inv \<dots>"
    by (rule release_orientation_inv [OF assms(1)]) (use assms(2) in \<open>simp_all add: take_completion_def\<close>)
  finally show ?thesis .
qed

lemma render_into_activity:
  assumes "orientation_render_into curve r out now measured = Some (res, out', r')"
  shows "case res of None \<Rightarrow> r' = r
    | Some w \<Rightarrow> ort_active r \<and> ort_active r' = (\<not> wr_done w) \<and> ort_destination_ready r' = ort_destination_ready r"
  using assms
  by (auto simp: orientation_render_into_def Let_def split: if_splits option.splits prod.splits)


lemma in_step_orientation_update:
  assumes "chart_in_step n r c" "ort_active r' = ort_active r" "ort_destination_ready r' = ort_destination_ready r"
  shows "chart_in_step n r' c"
proof -
  have "navigation_in_step n r' s = navigation_in_step n r s" "orientation_in_step n r' s = orientation_in_step n r s" for s
    using assms(2,3) by (simp_all add: navigation_in_step_def orientation_in_step_def)
  with assms show ?thesis
    by (simp add: chart_in_step_def cong: option.case_cong if_cong)
qed

lemma render_orientation_inv:
  assumes "director_inv d" "render_orientation curve d out now measured = Some d'"
  shows "director_inv d'"
proof -
  obtain res out' r where r: "orientation_render_into curve (pd_orientation d) out now measured = Some (res, out', r)"
    using assms(2) unfolding render_orientation_def
    by (cases "orientation_render_into curve (pd_orientation d) out now measured") auto
  note act = render_into_activity [OF r]
  show ?thesis
  proof (cases res)
    case None
    have "d' = d\<lparr>pd_orientation := r\<rparr>"
      using assms(2) unfolding render_orientation_def r None by (simp add: Let_def)
    moreover have "r = pd_orientation d"
      using act unfolding None by simp
    ultimately have "d' = d"
      by simp
    with assms(1) show ?thesis
      by (simp only:)
  next
    case (Some w)
    show ?thesis
    proof (cases "wr_done w")
      case False
      have "d' = d\<lparr>pd_orientation := r\<rparr>"
        using assms(2) False unfolding render_orientation_def r Some by (simp add: Let_def)
      moreover have "chart_in_step (pd_navigation d) r (pd_chart d)"
        by (rule in_step_orientation_update [of "pd_navigation d" "pd_orientation d"])
          (use assms(1) act Some False in \<open>simp_all add: director_inv_def\<close>)
      ultimately show ?thesis
        using assms(1) act Some False by (simp add: director_inv_def)
    next
      case True
      have "d' = snd (end_orientation (d\<lparr>pd_orientation := r\<rparr>))"
        using assms(2) True unfolding render_orientation_def r Some by (simp add: Let_def)
      moreover have "director_inv (snd (end_orientation (d\<lparr>pd_orientation := r\<rparr>)))"
      proof (rule end_orientation_inv)
        show "director_inv (d\<lparr>pd_orientation := r, pd_orientation := pd_orientation d, pd_intent := pd_intent d\<rparr>)"
          using assms(1) by simp
        show "\<not> ort_active (pd_orientation (d\<lparr>pd_orientation := r\<rparr>))"
          using act Some True by simp
      qed
      ultimately show ?thesis
        by simp
    qed
  qed
qed

lemma begin_orientation_inv:
  assumes "director_inv d"
  shows "director_inv (snd (begin_orientation_transition d from to source now reduce intent layout))"
proof (cases "ch_active (pd_chart d)")
  case (Some a)
  then have "snd (begin_orientation_transition d from to source now reduce intent layout) = d\<lparr>pd_chart := pd_chart d\<rparr>"
    by (simp add: begin_orientation_transition_def begin_orientation_def begin_eq)
  with assms show ?thesis
    by simp
next
  case None
  let ?n = "pd_navigation d"
  have st: "nav_stage ?n" and idle: "\<not> nx_is_active ?n" "\<not> ort_active (pd_orientation d)"
    using assms None by (simp_all add: director_inv_def chart_in_step_def)
  obtain w h e where l: "layout = (w, h, e)"
    by (cases layout)
  define n where "n = set_enabled ?n w h e"
  have n: "nav_stage n" "\<not> nx_is_active n"
    using set_enabled_stage [OF st idle(1)] by (simp_all add: n_def)
  obtain animated r where o: "orientation_start (pd_orientation d) from to source now reduce = (animated, r)"
    by fastforce
  have r: "ort_active r = animated" "animated \<longrightarrow> \<not> ort_destination_ready r"
    using o by (auto simp: orientation_start_def split: if_splits)
  obtain c where c: "begin_full_screen_transition (pd_chart d) OwnerOrientation = (True, c)"
    "\<exists>a. ch_active c = Some a \<and> at_owner a = OwnerOrientation \<and> at_state a = CapturePending"
    using None by (simp add: begin_eq)
  define d2 where "d2 = d\<lparr>pd_chart := c, pd_orientation := r,
    pd_intent := (if animated then Some intent else None), pd_navigation := n\<rparr>"
  have eq: "snd (begin_orientation_transition d from to source now reduce intent layout) =
      (if animated then d2 else snd (end_orientation d2))"
    by (simp add: begin_orientation_transition_def begin_orientation_def c(1) o l d2_def n_def)
  show ?thesis
  proof (cases animated)
    case True
    have "chart_in_step n r c"
      using c(2) n r True by (auto simp: chart_in_step_def orientation_in_step_def)
    then have "director_inv d2"
      using assms n idle r True by (simp add: d2_def director_inv_def)
    with True show ?thesis
      by (simp add: eq)
  next
    case False
    obtain a where a: "ch_active c = Some a" "at_owner a = OwnerOrientation"
      using c(2) by blast
    then have "chart_in_step n (snd (take_completion r)) (release_full_screen_transition c OwnerOrientation)"
      using n r False by (simp add: chart_in_step_def release_eq orientation_in_step_def take_completion_def)
    then show ?thesis
      using False assms n idle r
      by (simp add: eq end_orientation_def d2_def director_inv_def take_completion_def)
  qed
qed

lemma director_composition_inv:
  "director_inv (d\<lparr>pd_composition := c\<rparr>) = director_inv d"
  by (simp add: director_inv_def)

lemma director_step_inv:
  assumes "director_inv d"
  shows "director_inv (director_step d op)"
proof (cases op)
  case (DStart s us at pending)
  with assms show ?thesis by (simp add: start_navigation_inv)
next
  case (DCapture px now at)
  with assms show ?thesis by (simp add: capture_navigation_inv)
next
  case (DTick now)
  then show ?thesis
    using same_stage_tick [of "pd_navigation d" now]
    by (auto simp: same_stage_def intro!: director_navigation_inv [OF assms])
next
  case (DReverse now)
  then show ?thesis
    using same_stage_reverse [of "pd_navigation d" now]
    by (auto simp: same_stage_def intro!: director_navigation_inv [OF assms])
next
  case DSettle
  then show ?thesis
    using settle_stage [of "pd_navigation d"] by (auto intro!: director_navigation_inv [OF assms])
next
  case DCancel
  then show ?thesis
    using cancel_stage [of "pd_navigation d"] by (auto intro!: director_navigation_inv [OF assms])
next
  case DFinish
  with assms show ?thesis by (simp add: settle_navigation_inv)
next
  case DCover
  with assms show ?thesis by (simp add: cover_inv(1))
next
  case DCommit
  with assms show ?thesis by (simp add: director_inv_def)
next
  case (DPersist w h e)
  then show ?thesis
    using assms set_enabled_stage [of "pd_navigation d" w h e]
    by (auto simp: persist_settings_def intro!: director_navigation_inv [OF assms])
next
  case (DOrientationStall rendered)
  with assms show ?thesis
    by (simp add: abort_stalled_orientation_capture_def Let_def abort_orientation_inv)
next
  case (DOrientationRender curve out now measured)
  then show ?thesis
    using assms render_orientation_inv [OF assms] by (auto split: option.split)
next
  case (DPresented decision outcome)
  with assms show ?thesis
    by (auto simp: on_presented_def split_def Let_def director_composition_inv split: option.split)
next
  case (DFailed decision)
  with assms show ?thesis
    by (auto simp: presentation_failed_def director_composition_inv split: option.split)
qed (use assms in \<open>simp_all add: begin_orientation_inv capture_orientation_inv director_chart_inv passive_chart_ops
    director_compose_def split_def Let_def director_composition_inv\<close>)

interpretation director_machine: total_machine director_step director_inv
  by unfold_locales (rule director_step_inv)

lemma director_inv_new:
  assumes "\<not> ort_active r" "ort_completion r = c"
  shows "director_inv (director_new (runtime_new w h enabled) r)"
  using assms nx_inv_new [of w h enabled]
  by (simp add: director_inv_def director_new_def nav_stage_def chart_in_step_def chart_default_def
      runtime_new_def controller_default_def nx_is_active_def ctl_is_active_def split: prod.split)

section \<open>Properties\<close>

definition reachable_director ::
  "nat \<Rightarrow> nat \<Rightarrow> bool \<Rightarrow> ('e, 's) director_op list \<Rightarrow> ('e, 's) director" where
  "reachable_director w h enabled ops =
     run_steps director_step (director_new (runtime_new w h enabled) (orientation_new w h)) ops"

lemma reachable_inv: "director_inv (reachable_director w h enabled ops)"
  unfolding reachable_director_def
  by (rule director_machine.total_run_inv, rule director_inv_new)
    (simp_all add: orientation_new_def orientation_new_with_effect_def)

lemma in_step_owner:
  assumes "chart_in_step n r c"
  shows "nx_is_active n \<longleftrightarrow> chart_owner c = Some OwnerNavigation \<and> chart_state c \<in> {CapturePending, SnapshotLocked}"
    and "ort_active r \<longleftrightarrow> chart_owner c = Some OwnerOrientation \<and> chart_state c \<in> {CapturePending, SnapshotLocked}"
    and "ort_active r \<Longrightarrow> ort_destination_ready r \<longleftrightarrow> chart_state c = SnapshotLocked"
    and "chart_owner c = Some OwnerNavigation \<Longrightarrow> chart_state c = CapturePending \<Longrightarrow> hides n"
    and "chart_owner c = Some OwnerNavigation \<Longrightarrow> chart_state c = SnapshotLocked \<Longrightarrow> past_capture n"
proof -
  have "(nx_is_active n \<longleftrightarrow> chart_owner c = Some OwnerNavigation \<and> chart_state c \<in> {CapturePending, SnapshotLocked}) \<and>
    (ort_active r \<longleftrightarrow> chart_owner c = Some OwnerOrientation \<and> chart_state c \<in> {CapturePending, SnapshotLocked}) \<and>
    (ort_active r \<longrightarrow> (ort_destination_ready r \<longleftrightarrow> chart_state c = SnapshotLocked)) \<and>
    (chart_owner c = Some OwnerNavigation \<longrightarrow> chart_state c = CapturePending \<longrightarrow> hides n) \<and>
    (chart_owner c = Some OwnerNavigation \<longrightarrow> chart_state c = SnapshotLocked \<longrightarrow> past_capture n)"
  proof (cases "ch_active c")
    case None
    with assms show ?thesis
      by (simp add: chart_in_step_def chart_owner_def)
  next
    case (Some a)
    with assms show ?thesis
      by (cases "at_owner a"; cases "at_state a")
        (simp_all add: chart_in_step_def chart_owner_def chart_state_def navigation_in_step_def orientation_in_step_def)
  qed
  then show "nx_is_active n \<longleftrightarrow> chart_owner c = Some OwnerNavigation \<and> chart_state c \<in> {CapturePending, SnapshotLocked}"
    "ort_active r \<longleftrightarrow> chart_owner c = Some OwnerOrientation \<and> chart_state c \<in> {CapturePending, SnapshotLocked}"
    "ort_active r \<Longrightarrow> ort_destination_ready r \<longleftrightarrow> chart_state c = SnapshotLocked"
    "chart_owner c = Some OwnerNavigation \<Longrightarrow> chart_state c = CapturePending \<Longrightarrow> hides n"
    "chart_owner c = Some OwnerNavigation \<Longrightarrow> chart_state c = SnapshotLocked \<Longrightarrow> past_capture n"
    by blast+
qed

text \<open>
  C5: The two runtimes and the chart stay in step, whatever the launcher loop does in whatever order:
  navigation plays exactly while it owns a chart that is capturing or locked, and so does orientation,
  so the two never play together; an orientation's destination is captured exactly when its snapshot
  is locked; a navigation never reveals a destination that is not locked, and a locked one is past its
  capture; and the pending intent of each lives exactly while it plays.
\<close>
theorem runtimes_and_chart_in_step:
  fixes ops :: "('e, 's) director_op list" and w h :: nat and enabled :: bool
  defines "d \<equiv> reachable_director w h enabled ops"
  shows "\<not> (nx_is_active (pd_navigation d) \<and> ort_active (pd_orientation d)) \<and>
    (nx_is_active (pd_navigation d) \<longleftrightarrow> chart_owner (pd_chart d) = Some OwnerNavigation \<and>
       chart_state (pd_chart d) \<in> {CapturePending, SnapshotLocked}) \<and>
    (ort_active (pd_orientation d) \<longleftrightarrow> chart_owner (pd_chart d) = Some OwnerOrientation \<and>
       chart_state (pd_chart d) \<in> {CapturePending, SnapshotLocked}) \<and>
    (ort_active (pd_orientation d) \<longrightarrow>
       (ort_destination_ready (pd_orientation d) \<longleftrightarrow> chart_state (pd_chart d) = SnapshotLocked)) \<and>
    (nx_is_active (pd_navigation d) \<longrightarrow>
       nf_phase (nx_frame (pd_navigation d)) \<noteq>
         (if chart_state (pd_chart d) = CapturePending then PhReveal else PhCapture)) \<and>
    (pd_pending d \<noteq> None \<longleftrightarrow> nx_is_active (pd_navigation d)) \<and>
    (pd_intent d \<noteq> None \<longleftrightarrow> ort_active (pd_orientation d))"
proof -
  have inv: "director_inv d"
    unfolding d_def by (rule reachable_inv)
  then have step: "chart_in_step (pd_navigation d) (pd_orientation d) (pd_chart d)"
    by (simp add: director_inv_def)
  note o = in_step_owner [OF step]
  have "nf_phase (nx_frame (pd_navigation d)) \<noteq>
      (if chart_state (pd_chart d) = CapturePending then PhReveal else PhCapture)"
    if "nx_is_active (pd_navigation d)"
    using that o(1,4,5) by (auto simp: nx_frame_phase hides_def past_capture_def)
  moreover have "\<not> (nx_is_active (pd_navigation d) \<and> ort_active (pd_orientation d))"
    using o(1,2) by auto
  ultimately show ?thesis
    using inv o(1-3) unfolding director_inv_def by blast
qed

text \<open>
  Covering a playing navigation ends it cleanly: when a screensaver or dialog covers it, it is no
  longer active, nothing is pending, the chart is releasing so that the next frame is the live one,
  and the endpoint reported is the destination whenever the navigation was already committed.
\<close>
theorem cover_ends_navigation:
  fixes ops :: "('e, 's) director_op list" and w h :: nat and enabled :: bool
  defines "d \<equiv> reachable_director w h enabled ops"
  assumes "nx_is_active (pd_navigation d)" and "cover_navigation d = (endpoint, d')"
  shows "\<not> nx_is_active (pd_navigation d') \<and> pd_pending d' = None \<and>
    chart_owner (pd_chart d') = Some OwnerNavigation \<and> chart_state (pd_chart d') = Releasing \<and>
    force_live_raster (chart_policy (pd_chart d')) \<and>
    pd_orientation d' = pd_orientation d \<and> endpoint \<noteq> None \<and>
    (destination_committed d \<longrightarrow> endpoint = Some EndDestination)"
proof -
  have inv: "director_inv d"
    unfolding d_def by (rule reachable_inv)
  note c = cover_inv [OF inv assms(2), unfolded assms(3) snd_conv]
  have "endpoint \<noteq> None \<and> (destination_committed d \<longrightarrow> endpoint = Some EndDestination)"
  proof (cases "destination_committed d")
    case True
    then show ?thesis
      using assms(3) by (auto simp: cover_navigation_def Let_def)
  next
    case False
    let ?m = "with_activation (pd_navigation d) (nx_deferred_started_us (pd_navigation d))"
    have "nav_stage (pd_navigation d)"
      using inv by (simp add: director_inv_def)
    note w = with_activation_stage [OF this]
    have "ctl_is_active (nx_controller ?m)"
      using w(2,4) assms(2) by (simp add: nx_is_active_def past_capture_def)
    then have "fst (nx_cancel_for_exclusive_view (pd_navigation d)) \<noteq> None"
      by (simp add: nx_cancel_for_exclusive_view_def ctl_cancel_for_exclusive_view_def Let_def split_def)
    then show ?thesis
      using False assms(3) by (auto simp: cover_navigation_def Let_def split_def)
  qed
  moreover have "pd_orientation d' = pd_orientation d"
    using assms(3) by (auto simp: cover_navigation_def finish_navigation_def Let_def split_def split: if_splits)
  moreover have "force_live_raster (chart_policy (pd_chart d'))"
    using c(4) by (simp add: chart_policy_def)
  ultimately show ?thesis
    using c by simp
qed

text \<open>
  Capturing an orientation's destination is all or nothing: for a playing orientation it succeeds
  exactly when the chart's controlled capture was issued, the snapshot is not yet locked and the frame
  has the right size, and then the chart is locked on it; otherwise the whole change is aborted - it
  plays no more, its intent is forgotten and the chart releases the frame.
\<close>
theorem orientation_capture_is_all_or_nothing:
  fixes ops :: "('e, 's) director_op list" and w h :: nat and enabled :: bool
  defines "d \<equiv> reachable_director w h enabled ops"
  assumes "ort_active (pd_orientation d)" and "capture_orientation_destination d px = (captured, d')"
  shows "(captured \<longleftrightarrow> length px = length (ort_destination (pd_orientation d)) \<and>
      chart_capture_issued (pd_chart d) \<and> chart_state (pd_chart d) = CapturePending) \<and>
    (captured \<longrightarrow> ort_active (pd_orientation d') \<and> ort_destination_ready (pd_orientation d') \<and>
      ort_destination (pd_orientation d') = px \<and> snapshot_locked (chart_policy (pd_chart d')) \<and>
      pd_intent d' = pd_intent d) \<and>
    (\<not> captured \<longrightarrow> \<not> ort_active (pd_orientation d') \<and> pd_intent d' = None \<and>
      chart_state (pd_chart d') = Releasing)"
proof -
  have "director_inv d"
    unfolding d_def by (rule reachable_inv)
  then have step: "chart_in_step (pd_navigation d) (pd_orientation d) (pd_chart d)"
    by (simp add: director_inv_def)
  then obtain a where a: "ch_active (pd_chart d) = Some a" "at_owner a = OwnerOrientation"
    "orientation_in_step (pd_navigation d) (pd_orientation d) (at_state a)"
    using assms(2) by (auto simp: chart_in_step_def navigation_in_step_def split: option.splits if_splits)
      (meson transition_owner.exhaust)
  have g: "generation_for (pd_chart d) OwnerOrientation = Some (at_generation a)"
    using a by (simp add: generation_for_def)
  have st: "chart_state (pd_chart d) = at_state a" "chart_capture_issued (pd_chart d) = at_capture_issued a"
    using a by (simp_all add: chart_state_def chart_capture_issued_def)
  have ready: "ort_destination_ready (pd_orientation d) \<longleftrightarrow> at_state a = SnapshotLocked"
    using a(3) assms(2) by (simp add: orientation_in_step_def)
  show ?thesis
  proof (cases "length px = length (ort_destination (pd_orientation d)) \<and> at_state a = CapturePending \<and> at_capture_issued a")
    case True
    then show ?thesis
      using assms(2,3) a g st ready
      by (auto simp: capture_orientation_destination_def orientation_capture_destination_def capture_completed_def
          active_ref_def chart_state_def chart_policy_def Let_def)
  next
    case False
    have "\<not> captured \<and> (\<exists>r. \<not> ort_active (snd (orientation_cancel r)) \<and> pd_orientation d' = snd (orientation_cancel r)) \<and>
        pd_intent d' = None \<and> pd_chart d' = release_full_screen_transition (pd_chart d) OwnerOrientation"
      using False assms(2,3) a g ready
      by (auto simp: capture_orientation_destination_def orientation_capture_destination_def capture_completed_def
          active_ref_def chart_state_def Let_def abort_orientation_def orientation_cancel_def split: if_splits)
    then show ?thesis
      using False st a by (auto simp: release_eq chart_state_def)
  qed
qed


section \<open>Witnesses\<close>

definition settings_intent :: "(nat, nat) pending_navigation" where
  "settings_intent = \<lparr>pn_event = 1, pn_source_state = 2, pn_source_was_arcade = False, pn_committed = True,
     pn_status_quiesce_started_at = None\<rparr>"

definition playing_ops :: "(nat, nat) director_op list" where
  "playing_ops = [DStart page_start 3 0 settings_intent]"

lemma playing_director:
  "nx_is_active (pd_navigation (reachable_director 2 1 True playing_ops)) \<and>
   destination_committed (reachable_director 2 1 True playing_ops)"
proof -
  obtain n where n: "nx_begin (runtime_new 2 1 True) page_start 3 0 = (Inr True, n)"
    using page_begins unfolding small_runtime_def by (metis prod.collapse)
  have "nx_is_active n"
    using begin_stage(2) [OF _ n refl] nx_inv_new [of 2 1 True]
    by (simp add: nav_stage_def runtime_new_def controller_default_def)
  then show ?thesis
    by (simp add: reachable_director_def playing_ops_def start_navigation_def director_new_def n
        adopt_navigation_def begin_eq chart_default_def destination_committed_def settings_intent_def del: One_nat_def)
qed

theorem cover_ends_navigation_witness:
  "fst (cover_navigation (reachable_director 2 1 True playing_ops)) = Some EndDestination \<and>
   chart_state (pd_chart (snd (cover_navigation (reachable_director 2 1 True playing_ops)))) = Releasing"
  using cover_ends_navigation [OF conjunct1 [OF playing_director] prod.collapse [symmetric]] playing_director
  by blast

definition turning_ops :: "(nat, nat) director_op list" where
  "turning_ops = [DOrientation OrientNormal OrientClockwise [5, 6] 40 False IntentConfirm (1, 2, True),
     DTakeCapture 1]"

lemma turning_director:
  "ort_active (pd_orientation (reachable_director 2 1 True turning_ops)) \<and>
   chart_capture_issued (pd_chart (reachable_director 2 1 True turning_ops)) \<and>
   chart_state (pd_chart (reachable_director 2 1 True turning_ops)) = CapturePending \<and>
   length (ort_destination (pd_orientation (reachable_director 2 1 True turning_ops))) = 2"
  by (simp add: reachable_director_def turning_ops_def begin_orientation_transition_def begin_orientation_def
      director_new_def begin_eq chart_default_def orientation_start_def orientation_new_def
      orientation_new_with_effect_def take_controlled_capture_def chart_state_def active_ref_def
      chart_capture_issued_def)

theorem orientation_capture_is_all_or_nothing_witness:
  "fst (capture_orientation_destination (reachable_director 2 1 True turning_ops) [9, 9]) \<and>
   \<not> fst (capture_orientation_destination (reachable_director 2 1 True turning_ops) [9])"
  using orientation_capture_is_all_or_nothing [OF conjunct1 [OF turning_director] prod.collapse [symmetric], of "[9, 9]"]
    orientation_capture_is_all_or_nothing [OF conjunct1 [OF turning_director] prod.collapse [symmetric], of "[9]"]
    turning_director by simp

theorem runtimes_and_chart_in_step_witness:
  "\<not> nx_is_active (pd_navigation (reachable_director 2 1 True turning_ops)) \<and>
   \<not> ort_destination_ready (pd_orientation (reachable_director 2 1 True turning_ops)) \<and>
   chart_owner (pd_chart (reachable_director 2 1 True turning_ops)) = Some OwnerOrientation \<and>
   pd_intent (reachable_director 2 1 True turning_ops) \<noteq> None"
  using runtimes_and_chart_in_step [of 2 1 True turning_ops] turning_director by simp

end
