(* ===== verification/Rust_Text.thy ===== *)
theory Rust_Text
  imports Prelude
begin

text \<open>
  The part of \<open>str\<close> that the configuration editor uses. A text is the list of its Unicode scalar
  values; \<open>std::str::from_utf8\<close> and the UTF-8 bytes of a text connect it with byte strings.
\<close>

type_synonym scalar = nat
type_synonym rtext = "scalar list"

definition lit :: "string \<Rightarrow> rtext" where
  "lit s = map of_char s"

abbreviation LF :: scalar where "LF \<equiv> 10"
abbreviation CR :: scalar where "CR \<equiv> 13"
abbreviation BOM :: scalar where "BOM \<equiv> 0xFEFF"

section \<open>UTF-8\<close>

definition is_scalar :: "nat \<Rightarrow> bool" where
  "is_scalar c \<longleftrightarrow> c < 0xD800 \<or> 0xE000 \<le> c \<and> c < 0x110000"

definition utf8_char :: "scalar \<Rightarrow> nat list" where
  "utf8_char c =
     (if c < 0x80 then [c]
      else if c < 0x800 then [0xC0 + c div 64, 0x80 + c mod 64]
      else if c < 0x10000 then [0xE0 + c div 4096, 0x80 + c div 64 mod 64, 0x80 + c mod 64]
      else [0xF0 + c div 262144, 0x80 + c div 4096 mod 64, 0x80 + c div 64 mod 64, 0x80 + c mod 64])"

definition continuation :: "nat \<Rightarrow> bool" where
  "continuation b \<longleftrightarrow> 0x80 \<le> b \<and> b < 0xC0"

text \<open>The first character of a byte string: no overlong forms, no surrogates, nothing above U+10FFFF.\<close>

fun utf8_head :: "nat list \<Rightarrow> (scalar \<times> nat list) option" where
  "utf8_head [] = None"
| "utf8_head (a # r) =
     (if a < 0x80 then Some (a, r)
      else if 0xC2 \<le> a \<and> a < 0xE0 then
        (case r of
           b # r' \<Rightarrow> if continuation b then Some ((a - 0xC0) * 64 + (b - 0x80), r') else None
         | _ \<Rightarrow> None)
      else if 0xE0 \<le> a \<and> a < 0xF0 then
        (case r of
           b # c # r' \<Rightarrow>
             if continuation b \<and> continuation c \<and> (a = 0xE0 \<longrightarrow> 0xA0 \<le> b) \<and> (a = 0xED \<longrightarrow> b < 0xA0)
             then Some ((a - 0xE0) * 4096 + (b - 0x80) * 64 + (c - 0x80), r') else None
         | _ \<Rightarrow> None)
      else if 0xF0 \<le> a \<and> a < 0xF5 then
        (case r of
           b # c # d # r' \<Rightarrow>
             if continuation b \<and> continuation c \<and> continuation d \<and>
               (a = 0xF0 \<longrightarrow> 0x90 \<le> b) \<and> (a = 0xF4 \<longrightarrow> b < 0x90)
             then Some ((a - 0xF0) * 262144 + (b - 0x80) * 4096 + (c - 0x80) * 64 + (d - 0x80), r')
             else None
         | _ \<Rightarrow> None)
      else None)"

declare utf8_head.simps(2) [simp del]

lemma utf8_head_shorter: "utf8_head bs = Some (c, r) \<Longrightarrow> length r < length bs"
  by (cases bs) (auto simp: utf8_head.simps split: if_splits list.splits)

function utf8_decode :: "nat list \<Rightarrow> rtext option" where
  "utf8_decode bs =
     (if bs = [] then Some []
      else case utf8_head bs of
        None \<Rightarrow> None
      | Some (c, r) \<Rightarrow> map_option ((#) c) (utf8_decode r))"
  by pat_completeness auto

termination utf8_decode
  by (relation "measure length") (auto intro: utf8_head_shorter)

declare utf8_decode.simps [simp del]

definition from_utf8 :: "u8 list \<Rightarrow> rtext option" where
  "from_utf8 bytes = utf8_decode (map unat bytes)"

definition into_bytes :: "rtext \<Rightarrow> u8 list" where
  "into_bytes t = map of_nat (concat (map utf8_char t))"

lemma radix_64:
  fixes s t :: nat
  assumes "t < 64"
  shows "(s * 64 + t) div 64 = s" "(s * 64 + t) mod 64 = t"
  using assms by simp_all

lemma div_radix: "c div 4096 = c div 64 div 64" "c div 262144 = c div 64 div 64 div 64"
  for c :: nat
  by (simp_all flip: div_mult2_eq)

lemma digits_3:
  fixes c :: nat
  obtains x y z where "c = (x * 64 + y) * 64 + z" "y < 64" "z < 64"
  by (rule that [of "c div 64 div 64" "c div 64 mod 64" "c mod 64"]) simp_all

lemma digits_4:
  fixes c :: nat
  obtains x y z u where "c = ((x * 64 + y) * 64 + z) * 64 + u" "y < 64" "z < 64" "u < 64"
  by (rule that [of "c div 64 div 64 div 64" "c div 64 div 64 mod 64" "c div 64 mod 64" "c mod 64"]) simp_all

lemma bytes_3:
  assumes "c = (x * 64 + y) * 64 + z" "y < 64" "z < 64" "0x800 \<le> c" "c < 0x10000"
  shows "utf8_char c = [0xE0 + x, 0x80 + y, 0x80 + z]"
proof -
  have "c div 64 = x * 64 + y" "c mod 64 = z" "c div 4096 = x" "(x * 64 + y) mod 64 = y"
    using assms(2,3) by (simp_all only: assms(1) radix_64 div_radix)
  with assms(4,5) show ?thesis
    by (simp add: utf8_char_def)
qed

lemma bytes_4:
  assumes "c = ((x * 64 + y) * 64 + z) * 64 + u" "y < 64" "z < 64" "u < 64" "0x10000 \<le> c"
  shows "utf8_char c = [0xF0 + x, 0x80 + y, 0x80 + z, 0x80 + u]"
proof -
  have "c div 64 = (x * 64 + y) * 64 + z" "c mod 64 = u" "c div 4096 = x * 64 + y" "c div 262144 = x"
      "((x * 64 + y) * 64 + z) mod 64 = z" "(x * 64 + y) mod 64 = y"
    using assms(2-4) by (simp_all only: assms(1) radix_64 div_radix)
  with assms(5) show ?thesis
    by (simp add: utf8_char_def)
qed

lemma utf8_head_char:
  assumes "is_scalar c"
  shows "utf8_head (utf8_char c @ r) = Some (c, r)"
proof -
  have upper: "c < 0x110000"
    using assms by (auto simp: is_scalar_def)
  consider "c < 0x80" | "0x80 \<le> c" "c < 0x800" | "0x800 \<le> c" "c < 0x10000" | "0x10000 \<le> c" "c < 0x110000"
    using assms upper by (cases "c < 0x80"; cases "c < 0x800"; cases "c < 0x10000") auto
  then show ?thesis
  proof cases
    case 1
    then show ?thesis by (simp add: utf8_char_def utf8_head.simps)
  next
    case 2
    then have "2 \<le> c div 64" "c div 64 < 32"
      by (simp_all add: less_eq_div_iff_mult_less_eq div_less_iff_less_mult)
    with 2 show ?thesis
      by (simp add: utf8_char_def utf8_head.simps continuation_def)
  next
    case 3
    obtain x y z where c: "c = (x * 64 + y) * 64 + z" "y < 64" "z < 64"
      by (rule digits_3)
    have c': "c = x * 4096 + y * 64 + z"
      using c(1) by simp
    have "x < 16"
      using 3 c' by linarith
    moreover have "32 \<le> y" if "x = 0"
      using 3 c(2,3) c' that by linarith
    moreover have "y < 32" if "x = 13"
      using 3 assms c(2,3) c' that unfolding is_scalar_def by linarith
    ultimately show ?thesis
      unfolding bytes_3 [OF c 3] using c(2,3) by (simp add: utf8_head.simps continuation_def c(1))
  next
    case 4
    obtain x y z u where c: "c = ((x * 64 + y) * 64 + z) * 64 + u" "y < 64" "z < 64" "u < 64"
      by (rule digits_4)
    have c': "c = x * 262144 + y * 4096 + z * 64 + u"
      using c(1) by simp
    have "x < 5"
      using 4 c' by linarith
    moreover have "16 \<le> y" if "x = 0"
      using 4 c(2-4) c' that by linarith
    moreover have "y < 16" if "x = 4"
      using 4 c(2-4) c' that by linarith
    ultimately show ?thesis
      unfolding bytes_4 [OF c 4(1)] using c(2-4) by (simp add: utf8_head.simps continuation_def c(1))
  qed
qed

lemma utf8_head_Some:
  assumes "utf8_head bs = Some (c, r)"
  shows "is_scalar c \<and> bs = utf8_char c @ r"
proof (cases bs)
  case (Cons a t)
  consider "a < 0x80" | "0xC2 \<le> a" "a < 0xE0" | "0xE0 \<le> a" "a < 0xF0" | "0xF0 \<le> a" "a < 0xF5"
    using assms Cons by (auto simp: utf8_head.simps split: if_splits)
  then show ?thesis
  proof cases
    case 1
    then show ?thesis
      using assms Cons by (auto simp: utf8_head.simps utf8_char_def is_scalar_def)
  next
    case 2
    then obtain b where b: "t = b # r" "continuation b" "c = (a - 0xC0) * 64 + (b - 0x80)"
      using assms Cons by (auto simp: utf8_head.simps split: if_splits list.splits)
    obtain x y where xy: "a = 0xC0 + x" "b = 0x80 + y" "y < 64" "2 \<le> x" "x < 32"
      using 2 b(2) that [of "a - 0xC0" "b - 0x80"] by (auto simp: continuation_def)
    have "c = x * 64 + y"
      using b(3) xy by simp
    then show ?thesis
      using Cons b(1) xy by (simp add: utf8_char_def is_scalar_def)
  next
    case 3
    then obtain b d where b: "t = b # d # r" "continuation b" "continuation d"
        "a = 0xE0 \<longrightarrow> 0xA0 \<le> b" "a = 0xED \<longrightarrow> b < 0xA0"
        "c = (a - 0xE0) * 4096 + (b - 0x80) * 64 + (d - 0x80)"
      using assms Cons by (auto simp: utf8_head.simps split: if_splits list.splits)
    obtain x y z where xyz: "a = 0xE0 + x" "b = 0x80 + y" "d = 0x80 + z" "x < 16" "y < 64" "z < 64"
      using 3 b(2,3) that [of "a - 0xE0" "b - 0x80" "d - 0x80"] by (auto simp: continuation_def)
    have c: "c = (x * 64 + y) * 64 + z"
      using b(6) xyz by simp
    have "0x800 \<le> c" "c < 0x10000"
      using c xyz b(4) by auto
    moreover have "is_scalar c"
    proof (cases "x = 13")
      case True
      then show ?thesis using c xyz b(5) by (simp add: is_scalar_def)
    next
      case False
      then have "x < 13 \<or> 14 \<le> x" by linarith
      then show ?thesis using c xyz by (auto simp: is_scalar_def)
    qed
    ultimately show ?thesis
      using Cons b(1) xyz bytes_3 [OF c] by simp
  next
    case 4
    then obtain b d e where b: "t = b # d # e # r" "continuation b" "continuation d" "continuation e"
        "a = 0xF0 \<longrightarrow> 0x90 \<le> b" "a = 0xF4 \<longrightarrow> b < 0x90"
        "c = (a - 0xF0) * 262144 + (b - 0x80) * 4096 + (d - 0x80) * 64 + (e - 0x80)"
      using assms Cons by (auto simp: utf8_head.simps split: if_splits list.splits)
    obtain x y z u where xyz: "a = 0xF0 + x" "b = 0x80 + y" "d = 0x80 + z" "e = 0x80 + u" "x < 5" "y < 64" "z < 64" "u < 64"
      using 4 b(2-4) that [of "a - 0xF0" "b - 0x80" "d - 0x80" "e - 0x80"] by (auto simp: continuation_def)
    have c: "c = ((x * 64 + y) * 64 + z) * 64 + u"
      using b(7) xyz by simp
    have "0x10000 \<le> c" "is_scalar c"
      using c xyz b(5,6) by (auto simp: is_scalar_def)
    then show ?thesis
      using Cons b(1) xyz bytes_4 [OF c] by simp
  qed
qed (use assms in simp)

lemma utf8_decode_encode: "list_all is_scalar t \<Longrightarrow> utf8_decode (concat (map utf8_char t)) = Some t"
proof (induction t)
  case (Cons c t)
  have "utf8_char c \<noteq> []"
    by (simp add: utf8_char_def)
  with Cons show ?case
    by (subst utf8_decode.simps) (simp add: utf8_head_char)
qed (simp add: utf8_decode.simps)

lemma utf8_decode_Some:
  "utf8_decode bs = Some t \<Longrightarrow> bs = concat (map utf8_char t) \<and> list_all is_scalar t"
proof (induction bs arbitrary: t rule: utf8_decode.induct)
  case (1 bs)
  show ?case
  proof (cases "bs = []")
    case False
    with 1(2) obtain c r t' where "utf8_head bs = Some (c, r)" "utf8_decode r = Some t'" "t = c # t'"
      by (subst (asm) utf8_decode.simps) (auto split: option.splits)
    with 1(1) [OF False this(1) refl this(2)] show ?thesis
      using utf8_head_Some [of bs c r] by simp
  qed (use 1(2) in \<open>simp add: utf8_decode.simps\<close>)
qed

lemma utf8_char_bytes: "is_scalar c \<Longrightarrow> b \<in> set (utf8_char c) \<Longrightarrow> b < 256"
  by (auto simp: utf8_char_def is_scalar_def split: if_splits)

lemma from_utf8_into_bytes: "list_all is_scalar t \<Longrightarrow> from_utf8 (into_bytes t) = Some t"
proof -
  assume t: "list_all is_scalar t"
  have "map (unat \<circ> (of_nat :: nat \<Rightarrow> u8)) bs = bs" if "\<forall>b \<in> set bs. b < 256" for bs
    using that by (induction bs) (simp_all add: unat_of_nat_small)
  moreover have "\<forall>b \<in> set (concat (map utf8_char t)). b < 256"
    using t utf8_char_bytes by (auto simp: list_all_iff)
  ultimately show ?thesis
    by (simp only: from_utf8_def into_bytes_def map_map utf8_decode_encode [OF t])
qed

lemma into_bytes_from_utf8:
  assumes "from_utf8 bytes = Some t"
  shows "into_bytes t = bytes" "list_all is_scalar t"
proof -
  have "map unat bytes = concat (map utf8_char t)" and "list_all is_scalar t"
    using utf8_decode_Some assms by (simp_all add: from_utf8_def)
  then show "into_bytes t = bytes" "list_all is_scalar t"
    by (simp_all add: into_bytes_def flip: \<open>map unat bytes = concat (map utf8_char t)\<close>) (simp add: comp_def)
qed

lemma zero_byte_iff: "list_all is_scalar t \<Longrightarrow> 0 \<in> set (into_bytes t) \<longleftrightarrow> 0 \<in> set t"
proof (induction t)
  case (Cons c t)
  have "(of_nat b :: u8) = 0 \<longleftrightarrow> b = 0" if "b \<in> set (utf8_char c)" for b
    using that Cons utf8_char_bytes [of c b]
    by (simp add: word_unat_eq_iff unsigned_of_nat take_bit_nat_eq_self)
  then have "0 \<in> set (map of_nat (utf8_char c) :: u8 list) \<longleftrightarrow> 0 \<in> set (utf8_char c)"
    by force
  also have "\<dots> \<longleftrightarrow> c = 0"
    by (auto simp: utf8_char_def)
  finally show ?case
    using Cons by (auto simp: into_bytes_def)
qed (simp add: into_bytes_def)

section \<open>Searching and trimming\<close>

text \<open>The characters with the Unicode property \<open>White_Space\<close>.\<close>

definition is_whitespace :: "scalar \<Rightarrow> bool" where
  "is_whitespace c \<longleftrightarrow> 9 \<le> c \<and> c \<le> 13 \<or> c = 0x20 \<or> c = 0x85 \<or> c = 0xA0 \<or> c = 0x1680 \<or>
     0x2000 \<le> c \<and> c \<le> 0x200A \<or> c = 0x2028 \<or> c = 0x2029 \<or> c = 0x202F \<or> c = 0x205F \<or> c = 0x3000"

definition trim_start :: "rtext \<Rightarrow> rtext" where
  "trim_start t = dropWhile is_whitespace t"

definition trim_end :: "rtext \<Rightarrow> rtext" where
  "trim_end t = rev (dropWhile is_whitespace (rev t))"

definition trim :: "rtext \<Rightarrow> rtext" where
  "trim t = trim_end (trim_start t)"

definition starts_with :: "scalar \<Rightarrow> rtext \<Rightarrow> bool" where
  "starts_with c t \<longleftrightarrow> (case t of [] \<Rightarrow> False | d # _ \<Rightarrow> d = c)"

definition ends_with :: "scalar \<Rightarrow> rtext \<Rightarrow> bool" where
  "ends_with c t \<longleftrightarrow> t \<noteq> [] \<and> last t = c"

definition strip_suffix :: "scalar \<Rightarrow> rtext \<Rightarrow> rtext option" where
  "strip_suffix c t = (if ends_with c t then Some (butlast t) else None)"

definition split_once :: "scalar \<Rightarrow> rtext \<Rightarrow> (rtext \<times> rtext) option" where
  "split_once c t = (if c \<in> set t
     then Some (takeWhile (\<lambda>d. d \<noteq> c) t, tl (dropWhile (\<lambda>d. d \<noteq> c) t)) else None)"

definition to_ascii_lower :: "scalar \<Rightarrow> scalar" where
  "to_ascii_lower c = (if 65 \<le> c \<and> c \<le> 90 then c + 32 else c)"

definition eq_ignore_case :: "rtext \<Rightarrow> rtext \<Rightarrow> bool" where
  "eq_ignore_case s t \<longleftrightarrow> map to_ascii_lower s = map to_ascii_lower t"

lemma eq_ignore_case_refl [simp]: "eq_ignore_case t t"
  by (simp add: eq_ignore_case_def)

lemma eq_ignore_case_sym: "eq_ignore_case s t \<longleftrightarrow> eq_ignore_case t s"
  by (auto simp: eq_ignore_case_def)

lemma eq_ignore_case_trans: "eq_ignore_case s t \<Longrightarrow> eq_ignore_case s u \<longleftrightarrow> eq_ignore_case t u"
  by (simp add: eq_ignore_case_def)

lemma trim_end_id: "t = [] \<or> \<not> is_whitespace (last t) \<Longrightarrow> trim_end t = t"
  by (cases t rule: rev_cases) (simp_all add: trim_end_def)

lemma dropWhile_all [simp]: "\<forall>x \<in> set w. P x \<Longrightarrow> dropWhile P w = []"
  by (simp add: dropWhile_eq_Nil_conv)

lemma trim_end_append_space: "list_all is_whitespace w \<Longrightarrow> trim_end (t @ w) = trim_end t"
  using dropWhile_append2 [of "rev w" is_whitespace "rev t"]
  by (simp add: trim_end_def list_all_iff dropWhile_append2)

lemma trim_end_append: "u \<noteq> [] \<Longrightarrow> \<not> is_whitespace (hd u) \<Longrightarrow> trim_end (t @ u) = t @ trim_end u"
proof (induction u rule: rev_induct)
  case (snoc c u)
  then show ?case
    by (cases "is_whitespace c"; cases "u = []") (simp_all add: trim_end_def dropWhile_append1)
qed simp

lemma trim_space_append: "list_all is_whitespace w \<Longrightarrow> trim (w @ t) = trim t"
  by (auto simp: trim_def trim_start_def list_all_iff dropWhile_append2)

lemma trim_append_space: "list_all is_whitespace w \<Longrightarrow> trim (t @ w) = trim t"
proof (cases "list_all is_whitespace t")
  case True
  moreover assume "list_all is_whitespace w"
  ultimately show ?thesis
    by (auto simp: trim_def trim_start_def trim_end_def list_all_iff dropWhile_append2)
next
  case False
  then obtain x where "x \<in> set t" "\<not> is_whitespace x"
    by (auto simp: list_all_iff)
  moreover assume "list_all is_whitespace w"
  ultimately show ?thesis
    by (simp add: trim_def trim_start_def dropWhile_append1 trim_end_append_space)
qed

lemma trim_space: "list_all is_whitespace w \<Longrightarrow> trim w = []"
  by (simp add: trim_def trim_start_def trim_end_def list_all_iff)

lemma length_trim_start: "length (trim_start t) \<le> length t"
  by (simp add: trim_start_def length_dropWhile_le)

lemma length_trim_end: "length (trim_end t) \<le> length t"
  using length_dropWhile_le [of is_whitespace "rev t"] by (simp add: trim_end_def)

lemma trim_fixed:
  assumes "trim t = t" "t \<noteq> []"
  shows "\<not> is_whitespace (hd t)" "\<not> is_whitespace (last t)"
proof -
  obtain c s where t: "t = c # s"
    using assms(2) by (cases t) simp_all
  have "length (trim t) \<le> length (trim_start t)"
    by (simp add: trim_def length_trim_end)
  then show hd: "\<not> is_whitespace (hd t)"
    using length_trim_start [of s] assms(1) t by (auto simp: trim_start_def)
  then have "trim_end t = t"
    using assms(1) t by (simp add: trim_def trim_start_def)
  moreover obtain u d where "t = u @ [d]"
    using assms(2) by (cases t rule: rev_cases) simp_all
  ultimately show "\<not> is_whitespace (last t)"
    using length_trim_end [of u] by (auto simp: trim_end_def dest: arg_cong [of _ _ length])
qed

lemma trim_id: "t = [] \<or> \<not> is_whitespace (hd t) \<and> \<not> is_whitespace (last t) \<Longrightarrow> trim t = t"
  by (cases t) (auto simp: trim_def trim_start_def trim_end_id)

lemma split_onceI: "c \<notin> set a \<Longrightarrow> split_once c (a @ c # b) = Some (a, b)"
  by (induction a) (auto simp: split_once_def)

lemma split_once_Some: "split_once c t = Some (a, b) \<longleftrightarrow> t = a @ c # b \<and> c \<notin> set a"
proof
  assume *: "split_once c t = Some (a, b)"
  then have "c \<in> set t"
    by (simp add: split_once_def split: if_splits)
  then obtain a' b' where t: "t = a' @ c # b'" "c \<notin> set a'"
    by (blast dest: split_list_first)
  then have "split_once c t = Some (a', b')"
    by (simp add: split_onceI)
  with * t show "t = a @ c # b \<and> c \<notin> set a"
    by simp
qed (simp add: split_onceI)

lemma split_once_None: "split_once c t = None \<longleftrightarrow> c \<notin> set t"
  by (simp add: split_once_def)

section \<open>Lines\<close>

text \<open>
  \<open>str::lines\<close>: the pieces of \<open>split_inclusive('\n')\<close>, each without its line feed and then without
  one carriage return; a last piece without a line feed keeps its carriage return.
\<close>

fun split_inclusive :: "rtext \<Rightarrow> rtext list" where
  "split_inclusive [] = []"
| "split_inclusive (c # t) =
     (if c = LF then [LF] # split_inclusive t
      else case split_inclusive t of [] \<Rightarrow> [[c]] | l # ls \<Rightarrow> (c # l) # ls)"

definition line_content :: "rtext \<Rightarrow> rtext" where
  "line_content p =
     (case strip_suffix LF p of
        None \<Rightarrow> p
      | Some l \<Rightarrow> (case strip_suffix CR l of None \<Rightarrow> l | Some l' \<Rightarrow> l'))"

definition text_lines :: "rtext \<Rightarrow> rtext list" where
  "text_lines t = map line_content (split_inclusive t)"

fun has_crlf :: "rtext \<Rightarrow> bool" where
  "has_crlf (c # d # t) \<longleftrightarrow> c = CR \<and> d = LF \<or> has_crlf (d # t)"
| "has_crlf _ \<longleftrightarrow> False"

fun join_lines :: "rtext \<Rightarrow> rtext list \<Rightarrow> rtext" where
  "join_lines sep [] = []"
| "join_lines sep [l] = l"
| "join_lines sep (l # ls) = l @ sep @ join_lines sep ls"

lemma split_inclusive_line: "LF \<notin> set l \<Longrightarrow> split_inclusive (l @ LF # t) = (l @ [LF]) # split_inclusive t"
  by (induction l) auto

lemma split_inclusive_last: "LF \<notin> set l \<Longrightarrow> l \<noteq> [] \<Longrightarrow> split_inclusive l = [l]"
proof (induction l)
  case (Cons c l)
  then show ?case
    by (cases "l = []") auto
qed simp

end
