(* ===== verification/MiSTer_Ini.thy ===== *)
theory MiSTer_Ini
  imports Rust_Text
begin

text \<open>
  The MiSTer.ini editor (\<open>crates/mister-ini/src/lib.rs\<close>): a document is its lines, and an edit changes
  only the lines it has to.
\<close>

section \<open>Documents\<close>

definition MAX_INI_BYTES :: nat where
  "MAX_INI_BYTES = 1024 * 1024"

datatype ini_error = TooLarge nat | InvalidUtf8 | InteriorNul

record document =
  doc_lines :: "rtext list"
  doc_newline :: rtext
  doc_final_newline :: bool
  doc_bom :: bool

definition document_of :: "rtext \<Rightarrow> document" where
  "document_of text =
     (let (bom, t) = (if starts_with BOM text then (True, tl text) else (False, text))
      in \<lparr>doc_lines = map (\<lambda>l. case strip_suffix CR l of None \<Rightarrow> l | Some l' \<Rightarrow> l') (text_lines t),
          doc_newline = (if has_crlf t then [CR, LF] else [LF]),
          doc_final_newline = ends_with LF t,
          doc_bom = bom\<rparr>)"

definition parse_document :: "u8 list \<Rightarrow> ini_error + document" where
  "parse_document input =
     (if MAX_INI_BYTES < length input then Inl (TooLarge (length input))
      else if 0 \<in> set input then Inl InteriorNul
      else case from_utf8 input of
        None \<Rightarrow> Inl InvalidUtf8
      | Some text \<Rightarrow> Inr (document_of text))"

definition render_text :: "document \<Rightarrow> rtext" where
  "render_text d = (if doc_bom d then [BOM] else []) @ join_lines (doc_newline d) (doc_lines d) @
     (if doc_final_newline d then doc_newline d else [])"

definition render_document :: "document \<Rightarrow> u8 list" where
  "render_document d = into_bytes (render_text d)"

section \<open>Reading a line\<close>

abbreviation SEMICOLON :: scalar where "SEMICOLON \<equiv> 59"
abbreviation HASH :: scalar where "HASH \<equiv> 35"
abbreviation OPENING :: scalar where "OPENING \<equiv> 91"
abbreviation CLOSING :: scalar where "CLOSING \<equiv> 93"
abbreviation EQUALS :: scalar where "EQUALS \<equiv> 61"

definition starts_comment :: "scalar \<Rightarrow> bool" where
  "starts_comment c \<longleftrightarrow> c = SEMICOLON \<or> c = HASH"

definition section_name :: "rtext \<Rightarrow> rtext option" where
  "section_name l =
     (let t = trim l in
      if starts_with SEMICOLON t \<or> starts_with HASH t \<or> \<not> starts_with OPENING t then None
      else if CLOSING \<in> set t then Some (trim (takeWhile (\<lambda>c. c \<noteq> CLOSING) (tl t)))
      else None)"

definition active_key_eq :: "rtext \<Rightarrow> rtext \<Rightarrow> bool" where
  "active_key_eq l expected =
     (let t = trim_start l in
      if t = [] \<or> starts_with SEMICOLON t \<or> starts_with HASH t then False
      else case split_once EQUALS t of
        None \<Rightarrow> False
      | Some (key, _) \<Rightarrow> eq_ignore_case (trim key) expected)"

definition assignment_value :: "rtext \<Rightarrow> rtext option" where
  "assignment_value l =
     (case split_once EQUALS l of
        None \<Rightarrow> None
      | Some (_, r) \<Rightarrow> Some (trim (takeWhile (\<lambda>c. \<not> starts_comment c) r)))"

definition replace_assignment_value :: "rtext \<Rightarrow> rtext \<Rightarrow> rtext" where
  "replace_assignment_value l v =
     (case split_once EQUALS l of
        None \<Rightarrow> l
      | Some (a, after_eq) \<Rightarrow>
          (let space = takeWhile is_whitespace after_eq;
               rest = dropWhile is_whitespace after_eq;
               before = takeWhile (\<lambda>c. \<not> starts_comment c) rest;
               comment = (if list_ex starts_comment rest then drop (length (trim_end before)) rest else [])
           in a @ EQUALS # space @ v @ comment))"

section \<open>Reading a document\<close>

fun effective_scan :: "rtext \<Rightarrow> rtext \<Rightarrow> rtext \<Rightarrow> rtext option \<Rightarrow> rtext list \<Rightarrow> rtext option" where
  "effective_scan s k current found [] = found"
| "effective_scan s k current found (l # ls) =
     (case section_name l of
        Some name \<Rightarrow> effective_scan s k name found ls
      | None \<Rightarrow>
          if eq_ignore_case current s \<and> active_key_eq l k
          then effective_scan s k current (assignment_value l) ls
          else effective_scan s k current found ls)"

definition effective_value :: "document \<Rightarrow> rtext \<Rightarrow> rtext \<Rightarrow> rtext option" where
  "effective_value d s k = effective_scan s k [] None (doc_lines d)"

fun count_scan :: "rtext \<Rightarrow> rtext \<Rightarrow> rtext \<Rightarrow> nat \<Rightarrow> rtext list \<Rightarrow> nat" where
  "count_scan s k current n [] = n"
| "count_scan s k current n (l # ls) =
     (case section_name l of
        Some name \<Rightarrow> count_scan s k name n ls
      | None \<Rightarrow>
          if eq_ignore_case current s \<and> active_key_eq l k then count_scan s k current (n + 1) ls
          else count_scan s k current n ls)"

definition active_count :: "document \<Rightarrow> rtext \<Rightarrow> rtext \<Rightarrow> nat" where
  "active_count d s k = count_scan s k [] 0 (doc_lines d)"

section \<open>Editing\<close>

text \<open>
  The first pass of \<open>set\<close>: the current section, the index of the first active assignment, whether the
  section was seen and where an assignment could be inserted.
\<close>

record set_pass =
  sp_current :: rtext
  sp_first :: "nat option"
  sp_saw :: bool
  sp_insert :: "nat option"

fun set_scan :: "rtext \<Rightarrow> rtext \<Rightarrow> nat \<Rightarrow> set_pass \<Rightarrow> rtext list \<Rightarrow> set_pass" where
  "set_scan s k index p [] = p"
| "set_scan s k index p (l # ls) =
     (case section_name l of
        Some name \<Rightarrow>
          set_scan s k (index + 1)
            (p\<lparr>sp_insert := (if eq_ignore_case (sp_current p) s then Some index else sp_insert p),
               sp_current := name,
               sp_saw := sp_saw p \<or> eq_ignore_case name s\<rparr>) ls
      | None \<Rightarrow>
          set_scan s k (index + 1)
            (if eq_ignore_case (sp_current p) s \<and> active_key_eq l k
             then p\<lparr>sp_first := (case sp_first p of None \<Rightarrow> Some index | Some i \<Rightarrow> Some i)\<rparr> else p) ls)"

text \<open>The second pass: every active assignment but the first is commented out.\<close>

fun comment_others :: "rtext \<Rightarrow> rtext \<Rightarrow> nat \<Rightarrow> nat \<Rightarrow> rtext \<Rightarrow> rtext list \<Rightarrow> rtext list" where
  "comment_others s k first index current [] = []"
| "comment_others s k first index current (l # ls) =
     (case section_name l of
        Some name \<Rightarrow> l # comment_others s k first (index + 1) name ls
      | None \<Rightarrow>
          (if index \<noteq> first \<and> eq_ignore_case current s \<and> active_key_eq l k then SEMICOLON # l else l)
            # comment_others s k first (index + 1) current ls)"

definition insert_at :: "nat \<Rightarrow> 'a \<Rightarrow> 'a list \<Rightarrow> 'a list" where
  "insert_at i x xs = take i xs @ x # drop i xs"

definition set_lines :: "rtext \<Rightarrow> rtext \<Rightarrow> rtext \<Rightarrow> rtext list \<Rightarrow> rtext list" where
  "set_lines s k v lines =
     (let p = set_scan s k 0 \<lparr>sp_current = [], sp_first = None, sp_saw = (s = []), sp_insert = None\<rparr> lines;
          at = (if eq_ignore_case (sp_current p) s then Some (length lines) else sp_insert p)
      in case sp_first p of
           Some first \<Rightarrow>
             comment_others s k first 0 [] (lines[first := replace_assignment_value (lines ! first) v])
         | None \<Rightarrow>
             if sp_saw p
             then insert_at (case at of None \<Rightarrow> length lines | Some i \<Rightarrow> i) (k @ EQUALS # v) lines
             else lines @ (if lines \<noteq> [] \<and> trim (last lines) \<noteq> [] then [[]] else []) @
                    [OPENING # s @ [CLOSING], k @ EQUALS # v])"

definition set_value :: "document \<Rightarrow> rtext \<Rightarrow> rtext \<Rightarrow> rtext \<Rightarrow> document" where
  "set_value d s k v = d\<lparr>doc_lines := set_lines s k v (doc_lines d)\<rparr>"

definition with_reason :: "rtext \<Rightarrow> rtext \<Rightarrow> rtext" where
  "with_reason l reason = SEMICOLON # l @ lit '' ; '' @ reason"

fun remove_lines :: "rtext \<Rightarrow> rtext \<Rightarrow> rtext \<Rightarrow> rtext \<Rightarrow> rtext list \<Rightarrow> rtext list" where
  "remove_lines s k reason current [] = []"
| "remove_lines s k reason current (l # ls) =
     (case section_name l of
        Some name \<Rightarrow> l # remove_lines s k reason name ls
      | None \<Rightarrow>
          (if eq_ignore_case current s \<and> active_key_eq l k then with_reason l reason else l)
            # remove_lines s k reason current ls)"

definition remove_value :: "document \<Rightarrow> rtext \<Rightarrow> rtext \<Rightarrow> rtext \<Rightarrow> document" where
  "remove_value d s k reason = d\<lparr>doc_lines := remove_lines s k reason [] (doc_lines d)\<rparr>"

fun comment_lines :: "rtext \<Rightarrow> rtext \<Rightarrow> rtext list \<Rightarrow> rtext \<Rightarrow> rtext \<Rightarrow> rtext list \<Rightarrow> rtext list" where
  "comment_lines s k values reason current [] = []"
| "comment_lines s k values reason current (l # ls) =
     (case section_name l of
        Some name \<Rightarrow> l # comment_lines s k values reason name ls
      | None \<Rightarrow>
          (if eq_ignore_case current s \<and> active_key_eq l k \<and>
              (case assignment_value l of
                 None \<Rightarrow> False
               | Some v \<Rightarrow> list_ex (eq_ignore_case v) values)
           then with_reason l reason else l) # comment_lines s k values reason current ls)"

definition comment_if_value :: "document \<Rightarrow> rtext \<Rightarrow> rtext \<Rightarrow> rtext list \<Rightarrow> rtext \<Rightarrow> document" where
  "comment_if_value d s k values reason = d\<lparr>doc_lines := comment_lines s k values reason [] (doc_lines d)\<rparr>"

fun position :: "('a \<Rightarrow> bool) \<Rightarrow> 'a list \<Rightarrow> nat option" where
  "position P [] = None"
| "position P (x # xs) = (if P x then Some 0 else map_option Suc (position P xs))"

definition section_range :: "rtext list \<Rightarrow> rtext \<Rightarrow> (nat \<times> nat) option" where
  "section_range lines s =
     (case position (\<lambda>l. case section_name l of None \<Rightarrow> False | Some name \<Rightarrow> eq_ignore_case name s) lines of
        None \<Rightarrow> None
      | Some start \<Rightarrow>
          Some (start,
            case position (\<lambda>l. section_name l \<noteq> None) (drop (start + 1) lines) of
              None \<Rightarrow> length lines
            | Some offset \<Rightarrow> start + 1 + offset))"

definition ensure_section_after :: "document \<Rightarrow> rtext \<Rightarrow> rtext \<Rightarrow> document" where
  "ensure_section_after d earlier later =
     (case section_range (doc_lines d) earlier of
        None \<Rightarrow> d
      | Some (earlier_start, earlier_end) \<Rightarrow>
          (case section_range (doc_lines d) later of
             None \<Rightarrow> d
           | Some (later_start, later_end) \<Rightarrow>
               if earlier_start < later_start then d
               else
                 (let later_len = later_end - later_start;
                      moved = take later_len (drop later_start (doc_lines d));
                      remaining = take later_start (doc_lines d) @ drop later_end (doc_lines d);
                      insertion = earlier_end - later_len
                  in d\<lparr>doc_lines := take insertion remaining @ moved @ drop insertion remaining\<rparr>)))"

section \<open>What a line says\<close>

text \<open>Names and values the editor can write: they read back as themselves.\<close>

definition key_ok :: "rtext \<Rightarrow> bool" where
  "key_ok k \<longleftrightarrow> trim k = k \<and> EQUALS \<notin> set k \<and>
     \<not> starts_with SEMICOLON k \<and> \<not> starts_with HASH k \<and> \<not> starts_with OPENING k"

definition value_ok :: "rtext \<Rightarrow> bool" where
  "value_ok v \<longleftrightarrow> trim v = v \<and> list_all (\<lambda>c. \<not> starts_comment c) v"

definition section_ok :: "rtext \<Rightarrow> bool" where
  "section_ok s \<longleftrightarrow> trim s = s \<and> CLOSING \<notin> set s"

lemma trim_end_Cons: "\<not> is_whitespace c \<Longrightarrow> \<exists>r'. trim_end (c # r) = c # r'"
proof (cases "list_all is_whitespace r")
  case True
  moreover assume "\<not> is_whitespace c"
  ultimately show ?thesis
    using trim_end_append_space [of r "[c]"] trim_end_id [of "[c]"] by simp
next
  case False
  then obtain x where "x \<in> set r" "\<not> is_whitespace x"
    by (auto simp: list_all_iff)
  then show ?thesis
    by (simp add: trim_end_def dropWhile_append1)
qed

lemma starts_with_trim:
  "\<not> is_whitespace c \<Longrightarrow> starts_with c (trim t) \<longleftrightarrow> starts_with c (trim_start t)"
proof (cases "trim_start t")
  case (Cons d r)
  then have "\<not> is_whitespace d"
    unfolding trim_start_def by (metis hd_dropWhile list.distinct(1) list.sel(1))
  then show ?thesis
    using trim_end_Cons [of d r] Cons by (auto simp: trim_def starts_with_def)
qed (simp add: trim_def trim_end_def)

lemma not_whitespace [simp]:
  "\<not> is_whitespace SEMICOLON" "\<not> is_whitespace HASH" "\<not> is_whitespace OPENING"
  "\<not> is_whitespace CLOSING" "\<not> is_whitespace EQUALS"
  by (simp_all add: is_whitespace_def)

lemma trim_start_assignment: "trim_start (a @ EQUALS # r) = trim_start a @ EQUALS # r"
  unfolding trim_start_def by (induction a) simp_all

lemma trim_trim_start [simp]: "trim (trim_start a) = trim a"
  by (simp add: trim_def trim_start_def)

lemma starts_with_append_equals:
  "c \<noteq> EQUALS \<Longrightarrow> starts_with c (a @ EQUALS # r) \<longleftrightarrow> starts_with c a"
  by (cases a) (auto simp: starts_with_def)

lemma set_trim_start: "set (trim_start a) \<subseteq> set a"
  by (auto simp: trim_start_def dest: set_dropWhileD)

lemma active_assignment:
  assumes "EQUALS \<notin> set a"
  shows "active_key_eq (a @ EQUALS # r) k \<longleftrightarrow>
    \<not> starts_with SEMICOLON (trim_start a) \<and> \<not> starts_with HASH (trim_start a) \<and> eq_ignore_case (trim a) k"
proof -
  have "EQUALS \<notin> set (trim_start a)"
    using assms set_trim_start by blast
  then show ?thesis
    by (simp add: active_key_eq_def trim_start_assignment split_onceI starts_with_append_equals)
qed

lemma section_name_starts:
  "section_name l \<noteq> None \<Longrightarrow> starts_with OPENING (trim_start l)"
  by (auto simp: section_name_def Let_def starts_with_trim split: if_splits)

lemma active_form:
  assumes "active_key_eq l k"
  obtains a r where "l = a @ EQUALS # r" "EQUALS \<notin> set a"
proof -
  obtain a r where *: "trim_start l = a @ EQUALS # r"
    using assms by (auto simp: active_key_eq_def Let_def split_once_Some split: option.splits if_splits)
  have "EQUALS \<in> set l"
    using set_trim_start [of l] * by auto
  then show ?thesis
    using that by (blast dest: split_list_first)
qed

lemma eq_ignore_case_opening:
  "eq_ignore_case s t \<Longrightarrow> starts_with OPENING s \<Longrightarrow> starts_with OPENING t"
  by (cases s; cases t) (auto simp: eq_ignore_case_def starts_with_def to_ascii_lower_def split: if_splits)

lemma no_header:
  assumes "active_key_eq (a @ EQUALS # r) k" "EQUALS \<notin> set a" "key_ok k"
  shows "section_name (a @ EQUALS # r') = None"
proof -
  have "eq_ignore_case (trim a) k"
    using assms(1,2) by (simp add: active_assignment)
  then have "\<not> starts_with OPENING (trim_start a)"
    using eq_ignore_case_opening assms(3) by (auto simp: key_ok_def simp flip: starts_with_trim)
  then show ?thesis
    using section_name_starts [of "a @ EQUALS # r'"]
    by (auto simp: trim_start_assignment starts_with_append_equals simp del: not_None_eq)
qed

lemma commented_line [simp]:
  "section_name (SEMICOLON # l) = None" "\<not> active_key_eq (SEMICOLON # l) k"
  "section_name (with_reason l reason) = None" "\<not> active_key_eq (with_reason l reason) k"
  using section_name_starts
  by (fastforce simp: with_reason_def active_key_eq_def trim_start_def starts_with_def)+

lemma empty_line [simp]: "section_name [] = None" "\<not> active_key_eq [] k"
  by (simp_all add: section_name_def active_key_eq_def trim_start_def trim_space starts_with_def)

text \<open>Replacing a value keeps the key, the spacing and the comment.\<close>

lemma replace_form:
  assumes "EQUALS \<notin> set a"
  obtains w c where "replace_assignment_value (a @ EQUALS # r) v = a @ EQUALS # w @ v @ c"
    "list_all is_whitespace w" "c = [] \<or> (\<exists>w' x c'. c = w' @ x # c' \<and> list_all is_whitespace w' \<and> starts_comment x)"
proof -
  let ?w = "takeWhile is_whitespace r" and ?rest = "dropWhile is_whitespace r"
  let ?before = "takeWhile (\<lambda>c. \<not> starts_comment c) ?rest"
  let ?c = "if list_ex starts_comment ?rest then drop (length (trim_end ?before)) ?rest else []"
  have "list_all is_whitespace ?w"
    by (auto simp: list_all_iff dest: set_takeWhileD)
  moreover have "?c = [] \<or> (\<exists>w' x c'. ?c = w' @ x # c' \<and> list_all is_whitespace w' \<and> starts_comment x)"
  proof (cases "list_ex starts_comment ?rest")
    case True
    then obtain x c' where *: "dropWhile (\<lambda>c. \<not> starts_comment c) ?rest = x # c'" "starts_comment x"
      by (cases "dropWhile (\<lambda>c. \<not> starts_comment c) ?rest")
        (auto simp: dropWhile_eq_Nil_conv dropWhile_eq_Cons_conv list_ex_iff)
    have end_split: "\<exists>w'. b = trim_end b @ w' \<and> list_all is_whitespace w'" for b
    proof -
      have "rev b = takeWhile is_whitespace (rev b) @ dropWhile is_whitespace (rev b)"
        by simp
      then have "b = trim_end b @ rev (takeWhile is_whitespace (rev b))"
        unfolding trim_end_def by (metis rev_append rev_rev_ident)
      then show ?thesis
        by (intro exI [of _ "rev (takeWhile is_whitespace (rev b))"]) (auto simp: list_all_iff dest: set_takeWhileD)
    qed
    then obtain w' where w': "?before = trim_end ?before @ w'" "list_all is_whitespace w'"
      by blast
    have "?rest = trim_end ?before @ w' @ x # c'"
      using takeWhile_dropWhile_id [of "\<lambda>c. \<not> starts_comment c" ?rest] *(1) w'(1) by (metis append.assoc)
    then have "drop (length (trim_end ?before)) ?rest = w' @ x # c'"
      by (metis append_eq_conv_conj)
    then show ?thesis
      using True w'(2) *(2) by auto
  qed simp
  moreover have "replace_assignment_value (a @ EQUALS # r) v = a @ EQUALS # ?w @ v @ ?c"
    using assms by (simp add: replace_assignment_value_def split_onceI Let_def)
  ultimately show ?thesis
    using that by blast
qed

lemma assignment_value_form:
  assumes "EQUALS \<notin> set a" "value_ok v" "list_all is_whitespace w"
    "c = [] \<or> (\<exists>w' x c'. c = w' @ x # c' \<and> list_all is_whitespace w' \<and> starts_comment x)"
  shows "assignment_value (a @ EQUALS # w @ v @ c) = Some v"
proof -
  have not_comment: "\<not> starts_comment x" if "is_whitespace x" for x
    using that by (auto simp: starts_comment_def)
  obtain w' where w': "takeWhile (\<lambda>x. \<not> starts_comment x) c = w'" "list_all is_whitespace w'"
    using assms(4) not_comment
    by (auto simp: takeWhile_append2 list_all_iff)
  have "takeWhile (\<lambda>x. \<not> starts_comment x) (w @ v @ c) = w @ v @ w'"
    using assms(2,3) w'(1) not_comment
    by (simp add: takeWhile_append2 value_ok_def list_all_iff)
  then show ?thesis
    using assms(1,2,3) w'(2)
    by (simp add: assignment_value_def split_onceI trim_space_append trim_append_space value_ok_def)
qed

text \<open>Replacing the value of an active line: the line reads back the value under the same key.\<close>

lemma replaced_line:
  assumes "active_key_eq l k" "key_ok k" "value_ok v"
  shows "section_name (replace_assignment_value l v) = None"
    and "active_key_eq (replace_assignment_value l v) k' \<longleftrightarrow> active_key_eq l k'"
    and "assignment_value (replace_assignment_value l v) = Some v"
    and "replace_assignment_value (replace_assignment_value l v) v = replace_assignment_value l v"
proof -
  obtain a r where l: "l = a @ EQUALS # r" "EQUALS \<notin> set a"
    using assms(1) by (rule active_form)
  obtain w c where *: "replace_assignment_value l v = a @ EQUALS # w @ v @ c" "list_all is_whitespace w"
    "c = [] \<or> (\<exists>w' x c'. c = w' @ x # c' \<and> list_all is_whitespace w' \<and> starts_comment x)"
    unfolding l(1) using l(2) by (rule replace_form)
  show "section_name (replace_assignment_value l v) = None"
    using no_header assms(1,2) l * by simp
  show "active_key_eq (replace_assignment_value l v) k' \<longleftrightarrow> active_key_eq l k'"
    unfolding *(1) unfolding l(1) using l(2) by (simp add: active_assignment)
  show "assignment_value (replace_assignment_value l v) = Some v"
    using assignment_value_form [OF l(2) assms(3) *(2,3)] *(1) by simp
  have not_space: "\<not> is_whitespace x" if "starts_comment x" for x
    using that by (auto simp: starts_comment_def)
  show "replace_assignment_value (replace_assignment_value l v) v = replace_assignment_value l v"
  proof (cases "v = []")
    case True
    from *(3) show ?thesis
    proof
      assume "c = []"
      with True *(1,2) l(2) show ?thesis
        by (simp add: replace_assignment_value_def split_onceI list_all_iff)
    next
      assume "\<exists>w' x c'. c = w' @ x # c' \<and> list_all is_whitespace w' \<and> starts_comment x"
      then obtain w' x c' where c: "c = w' @ x # c'" "list_all is_whitespace w'" "starts_comment x"
        by blast
      then have "takeWhile is_whitespace (w @ c) = w @ w'" "dropWhile is_whitespace (w @ c) = x # c'"
        using *(2) not_space by (simp_all add: takeWhile_append2 dropWhile_append2 list_all_iff)
      with True *(1) l(2) c show ?thesis
        by (simp add: replace_assignment_value_def split_onceI trim_end_def)
    qed
  next
    case False
    have ends: "\<not> is_whitespace (hd v)" "\<not> is_whitespace (last v)"
      using trim_fixed [of v] assms(3) False by (simp_all add: value_ok_def)
    have space: "takeWhile is_whitespace (w @ v @ c) = w" "dropWhile is_whitespace (w @ v @ c) = v @ c"
      using *(2) ends(1) False by (cases v; simp add: takeWhile_append2 dropWhile_append2 list_all_iff)+
    from *(3) show ?thesis
    proof
      assume "c = []"
      with *(1) l(2) space assms(3) show ?thesis
        by (simp add: replace_assignment_value_def split_onceI value_ok_def list_all_iff list_ex_iff)
    next
      assume "\<exists>w' x c'. c = w' @ x # c' \<and> list_all is_whitespace w' \<and> starts_comment x"
      then obtain w' x c' where c: "c = w' @ x # c'" "list_all is_whitespace w'" "starts_comment x"
        by blast
      have "\<not> starts_comment y" if "is_whitespace y" for y
        using that not_space by blast
      then have "takeWhile (\<lambda>c. \<not> starts_comment c) (v @ c) = v @ w'"
        using c assms(3) by (simp add: takeWhile_append2 value_ok_def list_all_iff)
      moreover have "trim_end (v @ w') = v"
        using trim_end_append_space [OF c(2), of v] trim_end_id [of v] ends(2) by simp
      moreover have "list_ex starts_comment (v @ c)"
        using c by simp
      ultimately show ?thesis
        using *(1) l(2) space by (simp add: replace_assignment_value_def split_onceI)
    qed
  qed
qed

lemma written_line:
  assumes "key_ok k" "value_ok v"
  shows "section_name (k @ EQUALS # v) = None"
    and "active_key_eq (k @ EQUALS # v) k' \<longleftrightarrow> eq_ignore_case k k'"
    and "assignment_value (k @ EQUALS # v) = Some v"
    and "replace_assignment_value (k @ EQUALS # v) v = k @ EQUALS # v"
proof -
  have k: "EQUALS \<notin> set k" "trim k = k" "trim_start k = k"
  proof -
    show "EQUALS \<notin> set k" and t: "trim k = k"
      using assms(1) by (simp_all add: key_ok_def)
    show "trim_start k = k"
    proof (cases k)
      case (Cons c r)
      then show ?thesis
        using trim_fixed(1) [OF t] by (simp add: trim_start_def)
    qed (simp add: trim_start_def)
  qed
  show active: "active_key_eq (k @ EQUALS # v) k' \<longleftrightarrow> eq_ignore_case k k'" for k'
    using k assms(1) by (simp add: active_assignment key_ok_def)
  show "section_name (k @ EQUALS # v) = None"
    using no_header [of k v k] active [of k] k(1) assms(1) by simp
  show "assignment_value (k @ EQUALS # v) = Some v"
    using assignment_value_form [of k v "[]" "[]"] k(1) assms(2) by simp
  have "dropWhile is_whitespace v = v" "takeWhile is_whitespace v = []"
    using trim_fixed(1) [of v] assms(2) by (cases v; simp add: value_ok_def)+
  then show "replace_assignment_value (k @ EQUALS # v) v = k @ EQUALS # v"
    using k(1) assms(2)
    by (simp add: replace_assignment_value_def split_onceI value_ok_def list_all_iff list_ex_iff)
qed

lemma section_line: "section_ok s \<Longrightarrow> section_name (OPENING # s @ [CLOSING]) = Some s"
proof -
  assume s: "section_ok s"
  have "CLOSING \<notin> set s \<Longrightarrow> takeWhile (\<lambda>c. c \<noteq> CLOSING) (s @ [CLOSING]) = s"
    by (induction s) auto
  then have "takeWhile (\<lambda>c. c \<noteq> CLOSING) (s @ [CLOSING]) = s"
    using s by (simp add: section_ok_def)
  moreover have "trim (OPENING # s @ [CLOSING]) = OPENING # s @ [CLOSING]"
    by (rule trim_id) simp
  ultimately show ?thesis
    using s by (simp add: section_name_def section_ok_def starts_with_def)
qed

section \<open>The active assignments of a document\<close>

text \<open>The lines that assign a key of a section, in order, and the section in effect after some lines.\<close>

fun hits :: "rtext \<Rightarrow> rtext \<Rightarrow> rtext \<Rightarrow> rtext list \<Rightarrow> rtext list" where
  "hits s k current [] = []"
| "hits s k current (l # ls) =
     (case section_name l of
        Some name \<Rightarrow> hits s k name ls
      | None \<Rightarrow> (if eq_ignore_case current s \<and> active_key_eq l k then [l] else []) @ hits s k current ls)"

fun context_after :: "rtext \<Rightarrow> rtext list \<Rightarrow> rtext" where
  "context_after current [] = current"
| "context_after current (l # ls) =
     context_after (case section_name l of None \<Rightarrow> current | Some name \<Rightarrow> name) ls"

lemma hits_append: "hits s k current (xs @ ys) = hits s k current xs @ hits s k (context_after current xs) ys"
  by (induction xs arbitrary: current) (auto split: option.splits)

lemma context_append: "context_after current (xs @ ys) = context_after (context_after current xs) ys"
  by (induction xs arbitrary: current) auto

lemma effective_scan_hits:
  "effective_scan s k current found ls =
     (if hits s k current ls = [] then found else assignment_value (last (hits s k current ls)))"
  by (induction ls arbitrary: current found) (auto split: option.splits)

lemma count_scan_hits: "count_scan s k current n ls = n + length (hits s k current ls)"
  by (induction ls arbitrary: current n) (auto split: option.splits)

lemma effective_value_hits:
  "effective_value d s k =
     (if hits s k [] (doc_lines d) = [] then None else assignment_value (last (hits s k [] (doc_lines d))))"
  by (simp add: effective_value_def effective_scan_hits)

lemma active_count_hits: "active_count d s k = length (hits s k [] (doc_lines d))"
  by (simp add: active_count_def count_scan_hits)

lemma active_same_key: "active_key_eq l k \<Longrightarrow> active_key_eq l k' \<Longrightarrow> eq_ignore_case k k'"
  by (auto simp: active_key_eq_def Let_def eq_ignore_case_def split: option.splits if_splits)

section \<open>What an edit does\<close>

text \<open>An edit that hits: the first active assignment is replaced and the others become comments.\<close>

fun comment_all :: "rtext \<Rightarrow> rtext \<Rightarrow> rtext \<Rightarrow> rtext list \<Rightarrow> rtext list" where
  "comment_all s k current [] = []"
| "comment_all s k current (l # ls) =
     (case section_name l of
        Some name \<Rightarrow> l # comment_all s k name ls
      | None \<Rightarrow> (if eq_ignore_case current s \<and> active_key_eq l k then SEMICOLON # l else l)
          # comment_all s k current ls)"

fun replace_first :: "rtext \<Rightarrow> rtext \<Rightarrow> rtext \<Rightarrow> rtext \<Rightarrow> rtext list \<Rightarrow> rtext list" where
  "replace_first s k v current [] = []"
| "replace_first s k v current (l # ls) =
     (case section_name l of
        Some name \<Rightarrow> l # replace_first s k v name ls
      | None \<Rightarrow>
          if eq_ignore_case current s \<and> active_key_eq l k
          then replace_assignment_value l v # comment_all s k current ls
          else l # replace_first s k v current ls)"

fun first_hit :: "rtext \<Rightarrow> rtext \<Rightarrow> rtext \<Rightarrow> rtext list \<Rightarrow> nat option" where
  "first_hit s k current [] = None"
| "first_hit s k current (l # ls) =
     (case section_name l of
        Some name \<Rightarrow> map_option Suc (first_hit s k name ls)
      | None \<Rightarrow>
          if eq_ignore_case current s \<and> active_key_eq l k then Some 0
          else map_option Suc (first_hit s k current ls))"

lemma first_hit_None: "first_hit s k current ls = None \<longleftrightarrow> hits s k current ls = []"
  by (induction ls arbitrary: current) (auto split: option.splits)

lemma comment_others_all: "first < index \<Longrightarrow> comment_others s k first index current ls = comment_all s k current ls"
  by (induction ls arbitrary: current index) (auto split: option.splits)

lemma comment_others_first:
  assumes "key_ok k" "value_ok v"
  shows "first_hit s k current ls = Some i \<Longrightarrow>
    comment_others s k (index + i) index current (ls[i := replace_assignment_value (ls ! i) v]) =
      replace_first s k v current ls"
proof (induction ls arbitrary: current index i)
  case (Cons l ls)
  show ?case
  proof (cases i)
    case 0
    then have "section_name l = None" "eq_ignore_case current s" "active_key_eq l k"
      using Cons.prems by (auto split: option.splits if_splits)
    then show ?thesis
      using 0 replaced_line(1) [OF _ assms, of l] by (simp add: comment_others_all)
  next
    case (Suc j)
    then show ?thesis
      using Cons.prems Cons.IH [of _ j "index + 1"]
      by (auto split: option.splits if_splits)
  qed
qed simp

lemma hits_comment_all [simp]: "hits s k current (comment_all s k current ls) = []"
  by (induction ls arbitrary: current) (auto split: option.splits)

lemma context_comment_all [simp]: "context_after current (comment_all s k current ls) = context_after current ls"
  by (induction ls arbitrary: current) (auto split: option.splits)

lemma comment_all_no_hits: "hits s k current ls = [] \<Longrightarrow> comment_all s k current ls = ls"
  by (induction ls arbitrary: current) (auto split: option.splits if_splits)

lemma hits_comment_all_other:
  "\<not> (eq_ignore_case s s' \<and> eq_ignore_case k k') \<Longrightarrow>
   hits s' k' current (comment_all s k current ls) = hits s' k' current ls"
proof (induction ls arbitrary: current)
  case (Cons l ls)
  then show ?case
    using active_same_key [of l k k'] eq_ignore_case_trans [of current s s']
    by (auto split: option.splits)
qed simp

lemma hits_replace_first:
  assumes "key_ok k" "value_ok v" "hits s k current ls \<noteq> []"
  shows "hits s k current (replace_first s k v current ls) =
    [replace_assignment_value (hd (hits s k current ls)) v]"
  using assms(3) replaced_line(1,2) [OF _ assms(1,2)]
  by (induction ls arbitrary: current) (auto split: option.splits)

lemma hits_replace_first_other:
  assumes "key_ok k" "value_ok v" "\<not> (eq_ignore_case s s' \<and> eq_ignore_case k k')"
  shows "hits s' k' current (replace_first s k v current ls) = hits s' k' current ls"
proof (induction ls arbitrary: current)
  case (Cons l ls)
  have "\<not> (active_key_eq l k \<and> active_key_eq l k' \<and> eq_ignore_case current s \<and> eq_ignore_case current s')"
    using active_same_key [of l k k'] eq_ignore_case_trans [of current s s'] assms(3) by auto
  note other = this
  show ?case
  proof (cases "section_name l = None \<and> eq_ignore_case current s \<and> active_key_eq l k")
    case True
    then have "active_key_eq l k"
      by simp
    note same = replaced_line(1) [OF this assms(1,2)] replaced_line(2) [OF this assms(1,2), of k']
      hits_comment_all_other [OF assms(3)]
    from True other show ?thesis
      by (simp add: same) blast
  next
    case False
    then have "replace_first s k v current (l # ls) =
        l # replace_first s k v (case section_name l of None \<Rightarrow> current | Some name \<Rightarrow> name) ls"
      by (cases "section_name l") auto
    then show ?thesis
      using Cons by (simp split: option.split)
  qed
qed simp

lemma replace_first_stable:
  assumes "key_ok k" "value_ok v"
  shows "replace_first s k v current (replace_first s k v current ls) = replace_first s k v current ls"
proof (induction ls arbitrary: current)
  case (Cons l ls)
  note replaced = replaced_line(1,2,4) [OF _ assms, of l]
  show ?case
  proof (cases "section_name l = None \<and> eq_ignore_case current s \<and> active_key_eq l k")
    case True
    then have "active_key_eq l k"
      by simp
    note same = replaced(1,3) [OF this] replaced(2) [OF this, of k] comment_all_no_hits [OF hits_comment_all]
    from True show ?thesis
      by (simp add: same)
  next
    case False
    then have "replace_first s k v current (l # ls') =
        l # replace_first s k v (case section_name l of None \<Rightarrow> current | Some name \<Rightarrow> name) ls'" for ls'
      by (cases "section_name l") auto
    then show ?thesis
      using Cons by simp
  qed
qed simp

text \<open>The first pass finds the first hit, and a place inside the section when there is none.\<close>

definition header_of :: "rtext \<Rightarrow> rtext \<Rightarrow> bool" where
  "header_of s l \<longleftrightarrow> (case section_name l of None \<Rightarrow> False | Some name \<Rightarrow> eq_ignore_case name s)"

lemma set_scan_first:
  "sp_first (set_scan s k index p ls) =
     (case sp_first p of
        Some i \<Rightarrow> Some i
      | None \<Rightarrow> map_option (\<lambda>i. index + i) (first_hit s k (sp_current p) ls))"
proof (induction ls arbitrary: index p)
  case (Cons l ls)
  moreover have "(+) (Suc index) = (\<lambda>i. Suc (index + i))"
    by auto
  ultimately show ?case
    by (cases "section_name l"; cases "sp_first p")
      (simp_all add: option.map_comp comp_def split: option.split)
qed (simp split: option.split)

lemma set_scan_saw:
  "sp_saw (set_scan s k index p ls) \<longleftrightarrow> sp_saw p \<or> list_ex (header_of s) ls"
  by (induction ls arbitrary: index p) (auto simp: header_of_def split: option.split)

definition place :: "rtext \<Rightarrow> nat \<Rightarrow> set_pass \<Rightarrow> nat option" where
  "place s end_index p = (if eq_ignore_case (sp_current p) s then Some end_index else sp_insert p)"

lemma set_scan_place:
  "(place s (index + length ls) (set_scan s k index p ls) = sp_insert p \<and>
      \<not> eq_ignore_case (sp_current p) s \<and> \<not> list_ex (header_of s) ls) \<or>
   (\<exists>i \<le> length ls. place s (index + length ls) (set_scan s k index p ls) = Some (index + i) \<and>
      eq_ignore_case (context_after (sp_current p) (take i ls)) s)"
proof (induction ls arbitrary: index p)
  case Nil
  then show ?case
    by (simp add: place_def)
next
  case (Cons l ls)
  show ?case
  proof (cases "section_name l")
    case None
    let ?p = "if eq_ignore_case (sp_current p) s \<and> active_key_eq l k
      then p\<lparr>sp_first := (case sp_first p of None \<Rightarrow> Some index | Some i \<Rightarrow> Some i)\<rparr> else p"
    have "sp_insert ?p = sp_insert p" "sp_current ?p = sp_current p"
      by simp_all
    with Cons.IH [of "Suc index" ?p] None show ?thesis
      by (auto simp: header_of_def intro!: exI [of _ "Suc _"])
  next
    case (Some name)
    define q where "q = p\<lparr>sp_insert := (if eq_ignore_case (sp_current p) s then Some index else sp_insert p),
      sp_current := name, sp_saw := sp_saw p \<or> eq_ignore_case name s\<rparr>"
    then have q: "sp_insert q = (if eq_ignore_case (sp_current p) s then Some index else sp_insert p)"
        "sp_current q = name"
      by simp_all
    have header: "header_of s l \<longleftrightarrow> eq_ignore_case name s"
      using Some by (simp add: header_of_def)
    let ?goal = "\<lambda>i. i \<le> length (l # ls) \<and>
      place s (index + length (l # ls)) (set_scan s k index p (l # ls)) = Some (index + i) \<and>
      eq_ignore_case (context_after (sp_current p) (take i (l # ls))) s"
    have scan: "set_scan s k index p (l # ls) = set_scan s k (Suc index) q ls"
      using Some by (simp add: q_def)
    from Cons.IH [of "Suc index" q] show ?thesis
    proof
      assume *: "place s (Suc index + length ls) (set_scan s k (Suc index) q ls) = sp_insert q \<and>
        \<not> eq_ignore_case (sp_current q) s \<and> \<not> list_ex (header_of s) ls"
      show ?thesis
      proof (cases "eq_ignore_case (sp_current p) s")
        case True
        then have "?goal 0"
          using * scan q by simp
        then show ?thesis by blast
      next
        case False
        then show ?thesis
          using * scan q header by simp
      qed
    next
      assume "\<exists>i \<le> length ls. place s (Suc index + length ls) (set_scan s k (Suc index) q ls) = Some (Suc index + i) \<and>
        eq_ignore_case (context_after (sp_current q) (take i ls)) s"
      then obtain i where "?goal (Suc i)"
        using scan Some q by auto
      then show ?thesis by blast
    qed
  qed
qed

text \<open>What \<open>set\<close> writes: a replacement, an insertion inside the section, or a new section.\<close>

lemma hits_keep_context:
  "section_name x = None \<Longrightarrow> hits s k current (pre @ x # post) =
     hits s k current pre @ (if eq_ignore_case (context_after current pre) s \<and> active_key_eq x k then [x] else []) @
     hits s k (context_after current pre) post"
  by (simp add: hits_append)

lemma hits_split: "hits s k current (take i ls @ drop i ls) = hits s k current (take i ls) @
    hits s k (context_after current (take i ls)) (drop i ls)"
  by (rule hits_append)

lemma set_lines_cases:
  assumes "key_ok k" "value_ok v"
  obtains
    (replaced) "hits s k [] lines \<noteq> []" "set_lines s k v lines = replace_first s k v [] lines"
  | (inserted) pre post where "hits s k [] lines = []" "lines = pre @ post"
      "eq_ignore_case (context_after [] pre) s" "set_lines s k v lines = pre @ (k @ EQUALS # v) # post"
  | (new_section) blank where "hits s k [] lines = []" "blank = [] \<or> blank = [[]]"
      "set_lines s k v lines = lines @ blank @ [OPENING # s @ [CLOSING], k @ EQUALS # v]"
proof -
  let ?p0 = "\<lparr>sp_current = [], sp_first = None, sp_saw = (s = []), sp_insert = None\<rparr>"
  define p where "p = set_scan s k 0 ?p0 lines"
  have sp_first: "sp_first p = first_hit s k [] lines"
    by (cases "first_hit s k [] lines") (simp_all add: p_def set_scan_first)
  have set: "set_lines s k v lines =
      (case first_hit s k [] lines of
         Some first \<Rightarrow> comment_others s k first 0 [] (lines[first := replace_assignment_value (lines ! first) v])
       | None \<Rightarrow> if sp_saw p
           then insert_at (case place s (length lines) p of None \<Rightarrow> length lines | Some i \<Rightarrow> i) (k @ EQUALS # v) lines
           else lines @ (if lines \<noteq> [] \<and> trim (last lines) \<noteq> [] then [[]] else []) @
             [OPENING # s @ [CLOSING], k @ EQUALS # v])"
    unfolding set_lines_def Let_def p_def [symmetric] place_def sp_first by (rule refl)
  show thesis
  proof (cases "first_hit s k [] lines")
    case (Some i)
    then show ?thesis
      using set comment_others_first [OF assms Some, of 0] replaced first_hit_None [of s k "[]" lines] by simp
  next
    case None
    then have no: "hits s k [] lines = []"
      by (simp add: first_hit_None)
    show ?thesis
    proof (cases "sp_saw p")
      case True
      then have "eq_ignore_case [] s \<or> list_ex (header_of s) lines"
        by (auto simp: p_def set_scan_saw)
      then obtain i where "place s (length lines) p = Some i" "eq_ignore_case (context_after [] (take i lines)) s"
        using set_scan_place [of s 0 lines k ?p0] by (auto simp: p_def)
      then show ?thesis
        using inserted [OF no append_take_drop_id [symmetric], of i] set None True by (simp add: insert_at_def)
    next
      case False
      then show ?thesis
        using new_section [OF no, of "if lines \<noteq> [] \<and> trim (last lines) \<noteq> [] then [[]] else []"] set None by simp
    qed
  qed
qed

lemma hits_new_section:
  assumes "key_ok k" "value_ok v" "section_ok s" "blank = [] \<or> blank = [[]]"
  shows "hits s' k' current (lines @ blank @ [OPENING # s @ [CLOSING], k @ EQUALS # v]) = hits s' k' current lines @
    (if eq_ignore_case s s' \<and> eq_ignore_case k k' then [k @ EQUALS # v] else [])"
  using assms(4) section_line [OF assms(3)] written_line(1,2) [OF assms(1,2)]
  by (auto simp: hits_append)

lemma hits_set:
  assumes "key_ok k" "value_ok v" "section_ok s"
  shows "\<exists>l. hits s k [] (set_lines s k v lines) = [l] \<and> assignment_value l = Some v"
proof (rule set_lines_cases [OF assms(1,2), of s lines])
  assume *: "hits s k [] lines \<noteq> []" "set_lines s k v lines = replace_first s k v [] lines"
  have "active_key_eq l k" if "l \<in> set (hits s k current ls)" for l current ls
    using that by (induction ls arbitrary: current) (auto split: option.splits if_splits)
  then have "active_key_eq (hd (hits s k [] lines)) k"
    using *(1) hd_in_set by blast
  then show ?thesis
    using hits_replace_first [OF assms(1,2) *(1)] replaced_line(3) [OF _ assms(1,2)] *(2) by simp
next
  fix pre post
  assume *: "hits s k [] lines = []" "lines = pre @ post" "eq_ignore_case (context_after [] pre) s"
    "set_lines s k v lines = pre @ (k @ EQUALS # v) # post"
  have "hits s k [] pre = []" "hits s k (context_after [] pre) post = []"
    using *(1,2) by (simp_all add: hits_append)
  then show ?thesis
    using *(3,4) written_line(1,2,3) [OF assms(1,2)] by (simp add: hits_keep_context)
next
  fix blank
  assume "hits s k [] lines = []" "blank = [] \<or> blank = [[]]"
    "set_lines s k v lines = lines @ blank @ [OPENING # s @ [CLOSING], k @ EQUALS # v]"
  then show ?thesis
    using hits_new_section [OF assms, of blank s k "[]" lines] written_line(3) [OF assms(1,2)] by simp
qed

lemma hits_set_other:
  assumes "key_ok k" "value_ok v" "section_ok s" "\<not> (eq_ignore_case s s' \<and> eq_ignore_case k k')"
  shows "hits s' k' [] (set_lines s k v lines) = hits s' k' [] lines"
proof (rule set_lines_cases [OF assms(1,2), of s lines])
  assume "set_lines s k v lines = replace_first s k v [] lines"
  then show ?thesis
    by (simp add: hits_replace_first_other [OF assms(1,2,4)])
next
  fix pre post
  assume *: "lines = pre @ post" "eq_ignore_case (context_after [] pre) s"
    "set_lines s k v lines = pre @ (k @ EQUALS # v) # post"
  then have "\<not> (eq_ignore_case (context_after [] pre) s' \<and> eq_ignore_case k k')"
    using assms(4) eq_ignore_case_trans by blast
  then show ?thesis
    using *(1,3) written_line(1,2) [OF assms(1,2)] by (auto simp: hits_keep_context hits_append)
next
  fix blank
  assume "blank = [] \<or> blank = [[]]"
    "set_lines s k v lines = lines @ blank @ [OPENING # s @ [CLOSING], k @ EQUALS # v]"
  then show ?thesis
    using hits_new_section [OF assms(1,2,3), of blank s' k' "[]" lines] assms(4) by auto
qed

lemma replace_first_append:
  "hits s k current pre = [] \<Longrightarrow>
   replace_first s k v current (pre @ ls) = pre @ replace_first s k v (context_after current pre) ls"
  by (induction pre arbitrary: current) (auto split: option.splits if_splits)

lemma set_lines_hit:
  assumes "key_ok k" "value_ok v" "hits s k [] lines \<noteq> []"
  shows "set_lines s k v lines = replace_first s k v [] lines"
  using assms(3) by (auto intro: set_lines_cases [OF assms(1,2), of s lines])

lemma set_lines_idempotent:
  assumes "key_ok k" "value_ok v" "section_ok s"
  shows "set_lines s k v (set_lines s k v lines) = set_lines s k v lines"
proof -
  obtain l where hit: "hits s k [] (set_lines s k v lines) = [l]"
    using hits_set [OF assms] by blast
  then have again: "set_lines s k v (set_lines s k v lines) = replace_first s k v [] (set_lines s k v lines)"
    by (intro set_lines_hit [OF assms(1,2)]) simp
  note written = written_line [OF assms(1,2)]
  show ?thesis
  proof (rule set_lines_cases [OF assms(1,2), of s lines])
    assume "set_lines s k v lines = replace_first s k v [] lines"
    then show ?thesis
      using again replace_first_stable [OF assms(1,2)] by simp
  next
    fix pre post
    assume *: "hits s k [] lines = []" "lines = pre @ post" "eq_ignore_case (context_after [] pre) s"
      "set_lines s k v lines = pre @ (k @ EQUALS # v) # post"
    have "hits s k [] pre = []" "hits s k (context_after [] pre) post = []"
      using *(1,2) by (simp_all add: hits_append)
    then have "replace_first s k v [] (set_lines s k v lines) = set_lines s k v lines"
      using *(3) written by (simp add: *(4) replace_first_append comment_all_no_hits)
    with again show ?thesis by simp
  next
    fix blank
    assume *: "hits s k [] lines = []" "blank = [] \<or> blank = [[]]"
      "set_lines s k v lines = lines @ blank @ [OPENING # s @ [CLOSING], k @ EQUALS # v]"
    have "replace_first s k v current (blank @ [OPENING # s @ [CLOSING], k @ EQUALS # v]) =
        blank @ [OPENING # s @ [CLOSING], k @ EQUALS # v]" for current
      using *(2) section_line [OF assms(3)] written by auto
    then have "replace_first s k v [] (set_lines s k v lines) = set_lines s k v lines"
      using *(1) by (simp add: *(3) replace_first_append)
    with again show ?thesis by simp
  qed
qed

section \<open>The edits of a document\<close>

text \<open>
  C23: Setting a value takes effect and touches nothing else. After \<open>set\<close> of a writable section, key and
  value, the key has exactly one active assignment in that section and its effective value is the one
  set, whether the document had no, one or many assignments of it and whether it had the section; the
  effective value and the number of active assignments of every other key or section are as before;
  and setting the same value again changes nothing.
\<close>

theorem set_takes_effect:
  assumes "key_ok k" and "value_ok v" and "section_ok s"
  shows "effective_value (set_value d s k v) s k = Some v \<and> active_count (set_value d s k v) s k = 1 \<and>
    (\<forall>s' k'. \<not> (eq_ignore_case s s' \<and> eq_ignore_case k k') \<longrightarrow>
       effective_value (set_value d s k v) s' k' = effective_value d s' k' \<and>
       active_count (set_value d s k v) s' k' = active_count d s' k') \<and>
    set_value (set_value d s k v) s k v = set_value d s k v"
proof -
  obtain l where "hits s k [] (set_lines s k v (doc_lines d)) = [l]" "assignment_value l = Some v"
    using hits_set [OF assms] by blast
  then show ?thesis
    using hits_set_other [OF assms] set_lines_idempotent [OF assms]
    by (simp add: effective_value_hits active_count_hits set_value_def)
qed

text \<open>Both \<open>remove\<close> and \<open>comment_if_value\<close> rewrite some hits into comments.\<close>

fun rewrite_hits :: "rtext \<Rightarrow> rtext \<Rightarrow> (rtext \<Rightarrow> rtext) \<Rightarrow> rtext \<Rightarrow> rtext list \<Rightarrow> rtext list" where
  "rewrite_hits s k f current [] = []"
| "rewrite_hits s k f current (l # ls) =
     (case section_name l of
        Some name \<Rightarrow> l # rewrite_hits s k f name ls
      | None \<Rightarrow> (if eq_ignore_case current s \<and> active_key_eq l k then f l else l)
          # rewrite_hits s k f current ls)"

definition comments_out :: "(rtext \<Rightarrow> rtext) \<Rightarrow> bool" where
  "comments_out f \<longleftrightarrow> (\<forall>l. f l = l \<or> (section_name (f l) = None \<and> (\<forall>k. \<not> active_key_eq (f l) k)))"

lemma hits_rewrite:
  assumes "comments_out f"
  shows "hits s k current (rewrite_hits s k f current ls) = filter (\<lambda>l. f l = l) (hits s k current ls)"
proof (induction ls arbitrary: current)
  case (Cons l ls)
  have "f l = l \<or> (section_name (f l) = None \<and> \<not> active_key_eq (f l) k)"
    using assms unfolding comments_out_def by blast
  with Cons show ?case
    by (cases "section_name l") auto
qed simp

lemma hits_rewrite_other:
  assumes "comments_out f" "\<not> (eq_ignore_case s s' \<and> eq_ignore_case k k')"
  shows "hits s' k' current (rewrite_hits s k f current ls) = hits s' k' current ls"
proof (induction ls arbitrary: current)
  case (Cons l ls)
  have "f l = l \<or> (section_name (f l) = None \<and> \<not> active_key_eq (f l) k')"
    using assms(1) unfolding comments_out_def by blast
  moreover have "\<not> (active_key_eq l k \<and> active_key_eq l k' \<and> eq_ignore_case current s \<and> eq_ignore_case current s')"
    using active_same_key [of l k k'] eq_ignore_case_trans [of current s s'] assms(2) by auto
  ultimately show ?case
    using Cons by (cases "section_name l") auto
qed simp

lemma rewrite_hits_lines:
  "list_all2 (\<lambda>l l'. l' = l \<or> l' = f l) ls (rewrite_hits s k f current ls)"
  by (induction ls arbitrary: current) (auto split: option.split)

lemma remove_lines_rewrite: "remove_lines s k reason current ls = rewrite_hits s k (\<lambda>l. with_reason l reason) current ls"
  by (induction ls arbitrary: current) (auto split: option.split)

definition has_value :: "rtext list \<Rightarrow> rtext \<Rightarrow> bool" where
  "has_value values l \<longleftrightarrow> (case assignment_value l of None \<Rightarrow> False | Some v \<Rightarrow> list_ex (eq_ignore_case v) values)"

lemma comment_lines_rewrite:
  "comment_lines s k values reason current ls =
     rewrite_hits s k (\<lambda>l. if has_value values l then with_reason l reason else l) current ls"
  by (induction ls arbitrary: current) (auto simp: has_value_def split: option.split)

lemma with_reason_neq [simp]: "with_reason l reason \<noteq> l"
  by (auto simp: with_reason_def dest: arg_cong [of _ _ length])

lemma comments_out_reason [simp]:
  "comments_out (\<lambda>l. with_reason l reason)" "comments_out (\<lambda>l. if P l then with_reason l reason else l)"
  by (simp_all add: comments_out_def)

text \<open>
  Removing a key disables exactly its assignments and loses no text. After \<open>remove\<close> the key has no
  active assignment and no effective value in the section; \<open>comment_if_value\<close> disables exactly the
  assignments with one of the given values; every other key or section reads as before; and the lines
  stay in place, each unchanged or as a comment that holds the old line and the reason.
\<close>

theorem removal_keeps_text:
  "effective_value (remove_value d s k reason) s k = None \<and> active_count (remove_value d s k reason) s k = 0 \<and>
   hits s k [] (doc_lines (comment_if_value d s k values reason)) =
     filter (\<lambda>l. \<not> has_value values l) (hits s k [] (doc_lines d)) \<and>
   (\<forall>d' \<in> {remove_value d s k reason, comment_if_value d s k values reason}.
      list_all2 (\<lambda>l l'. l' = l \<or> l' = with_reason l reason) (doc_lines d) (doc_lines d') \<and>
      (\<forall>s' k'. \<not> (eq_ignore_case s s' \<and> eq_ignore_case k k') \<longrightarrow>
         effective_value d' s' k' = effective_value d s' k' \<and> active_count d' s' k' = active_count d s' k'))"
proof -
  have "list_all2 (\<lambda>l l'. l' = l \<or> l' = with_reason l reason) ls
      (rewrite_hits s k (\<lambda>l. if has_value values l then with_reason l reason else l) [] ls)" for ls
    by (rule list_all2_mono [OF rewrite_hits_lines]) auto
  then show ?thesis
    using rewrite_hits_lines [of "\<lambda>l. with_reason l reason"]
    by (auto simp: effective_value_hits active_count_hits remove_value_def comment_if_value_def
        remove_lines_rewrite comment_lines_rewrite hits_rewrite hits_rewrite_other)
qed

section \<open>Witnesses\<close>

definition sample_document :: document where
  "sample_document =
     \<lparr>doc_lines = [lit ''[Menu]'', lit ''main=1'', lit ''[MiSTer]'', lit '' MAIN = Old ; first'', lit ''main=Later''],
      doc_newline = [LF], doc_final_newline = True, doc_bom = False\<rparr>"

lemmas evaluate_texts = lit_def trim_def trim_start_def trim_end_def is_whitespace_def starts_with_def ends_with_def
  strip_suffix_def section_name_def active_key_eq_def eq_ignore_case_def to_ascii_lower_def split_once_def
  assignment_value_def starts_comment_def replace_assignment_value_def

lemma sample_texts:
  "key_ok (lit ''main'') \<and> value_ok (lit ''MagiK'') \<and> section_ok (lit ''MiSTer'')"
  by (simp add: key_ok_def value_ok_def section_ok_def evaluate_texts)

theorem set_takes_effect_witness:
  "effective_value (set_value sample_document (lit ''MiSTer'') (lit ''main'') (lit ''MagiK''))
     (lit ''MiSTer'') (lit ''main'') = Some (lit ''MagiK'') \<and>
   active_count (set_value sample_document (lit ''MiSTer'') (lit ''main'') (lit ''MagiK''))
     (lit ''MiSTer'') (lit ''main'') = 1"
  using set_takes_effect [of "lit ''main''" "lit ''MagiK''" "lit ''MiSTer''" sample_document] sample_texts
  by blast

theorem removal_keeps_text_witness:
  "active_count (remove_value sample_document (lit ''MiSTer'') (lit ''main'') (lit ''old'')) (lit ''Menu'') (lit ''main'') = 1"
proof -
  have "\<not> (eq_ignore_case (lit ''MiSTer'') (lit ''Menu'') \<and> eq_ignore_case (lit ''main'') (lit ''main''))"
    and "active_count sample_document (lit ''Menu'') (lit ''main'') = 1"
    by (simp_all add: active_count_def sample_document_def evaluate_texts)
  then show ?thesis
    using removal_keeps_text [of sample_document "lit ''MiSTer''" "lit ''main''" "lit ''old''" "[]"] by simp
qed

end
