(* ===== verification/Ini_Reload.thy ===== *)
theory Ini_Reload
  imports MiSTer_Ini "HOL-Library.Multiset"
begin

text \<open>
  What the INI editor's edits do to whole documents: moving a section, and writing a document out and
  reading it back, unedited and after any sequence of edits.
\<close>

section \<open>Moving a section\<close>

text \<open>A block begins with a header, unless it is empty; what it assigns does not depend on what precedes it.\<close>

definition block :: "rtext list \<Rightarrow> bool" where
  "block ls \<longleftrightarrow> ls = [] \<or> section_name (hd ls) \<noteq> None"

lemma hits_block: "block ls \<Longrightarrow> hits s k current ls = hits s k [] ls"
  by (cases ls) (auto simp: block_def)

lemma hits_append_block: "block ys \<Longrightarrow> hits s k current (xs @ ys) = hits s k current xs @ hits s k [] ys"
  by (simp only: hits_append hits_block [of ys s k "context_after current xs"])

lemma position_Some:
  "position P xs = Some i \<longleftrightarrow> i < length xs \<and> P (xs ! i) \<and> (\<forall>j < i. \<not> P (xs ! j))"
proof (induction xs arbitrary: i)
  case (Cons x xs)
  then show ?case
    by (cases i) (auto simp: nth_Cons' All_less_Suc2)
qed simp

lemma position_None: "position P xs = None \<longleftrightarrow> (\<forall>x \<in> set xs. \<not> P x)"
  by (induction xs) auto

lemma section_range_Some:
  assumes "section_range lines s = Some (a, b)"
  obtains P B S where "lines = P @ B @ S" "a = length P" "b = length (P @ B)" "B \<noteq> []" "header_of s (hd B)"
    "\<forall>l \<in> set (tl B). section_name l = None" "block S"
proof -
  let ?next = "position (\<lambda>l. section_name l \<noteq> None) (drop (a + 1) lines)"
  have a: "position (header_of s) lines = Some a"
    and b: "b = (case ?next of None \<Rightarrow> length lines | Some offset \<Rightarrow> a + 1 + offset)"
    using assms by (auto simp: section_range_def header_of_def [abs_def] split: option.splits)
  have at: "a < length lines" "header_of s (lines ! a)"
    using a by (simp_all add: position_Some)
  have range: "a < b" "b \<le> length lines"
    using b at(1) by (auto simp: position_Some split: option.splits)
  have none: "\<forall>l \<in> set (tl (take (b - a) (drop a lines))). section_name l = None"
  proof
    fix l
    assume l: "l \<in> set (tl (take (b - a) (drop a lines)))"
    have eq: "tl (take (b - a) (drop a lines)) = take (b - a - 1) (drop (a + 1) lines)"
      using range(1) by (simp add: tl_take tl_drop drop_Suc [symmetric] drop_tl)
    show "section_name l = None"
    proof (cases ?next)
      case None
      then show ?thesis
        using l eq by (auto simp: position_None dest: in_set_takeD)
    next
      case (Some offset)
      then have "b - a - 1 = offset"
        using b by simp
      then obtain j where "j < offset" "l = drop (a + 1) lines ! j"
        using l eq by (auto simp: in_set_conv_nth)
      then show ?thesis
        using Some by (simp add: position_Some)
    qed
  qed
  have "block (drop b lines)"
    using b range(2) by (auto simp: block_def position_Some hd_drop_conv_nth split: option.splits)
  moreover have "lines = take a lines @ take (b - a) (drop a lines) @ drop b lines"
    using range by (metis append_take_drop_id drop_drop le_add_diff_inverse2 less_imp_le)
  moreover have "hd (take (b - a) (drop a lines)) = lines ! a"
    using range at(1) by (simp add: hd_drop_conv_nth)
  ultimately show thesis
    using that [of "take a lines" "take (b - a) (drop a lines)" "drop b lines"] range at none by simp
qed

lemma ensure_section_after_cases:
  obtains
    (unchanged) "ensure_section_after d earlier later = d"
      "\<forall>a b a' b'. section_range (doc_lines d) earlier = Some (a, b) \<longrightarrow>
         section_range (doc_lines d) later = Some (a', b') \<longrightarrow> a \<le> a'"
  | (moved) P L M E S where "doc_lines d = P @ L @ M @ E @ S"
      "doc_lines (ensure_section_after d earlier later) = P @ M @ E @ L @ S"
      "ensure_section_after d earlier later = d\<lparr>doc_lines := P @ M @ E @ L @ S\<rparr>"
      "L \<noteq> []" "header_of later (hd L)" "E \<noteq> []" "header_of earlier (hd E)" "block (M @ E @ S)" "block S" "block M" "block E"
      "block L" "\<forall>l \<in> set (tl L) \<union> set (tl E). section_name l = None"
proof -
  let ?lines = "doc_lines d"
  have block_header: "block (x # xs)" if "header_of s x" for s x xs
    using that by (auto simp: block_def header_of_def split: option.splits)
  show thesis
  proof (cases "section_range ?lines earlier")
    case None
    then show ?thesis
      using unchanged by (simp add: ensure_section_after_def)
  next
    case (Some e)
    note earlier = this
    obtain a b where e: "e = (a, b)" by (cases e)
    show ?thesis
    proof (cases "section_range ?lines later")
      case None
      then show ?thesis
        using unchanged earlier by (auto simp: ensure_section_after_def split: prod.split)
    next
      case (Some l)
      obtain a' b' where l: "l = (a', b')" by (cases l)
      obtain P L T where L: "?lines = P @ L @ T" "a' = length P" "b' = length (P @ L)" "L \<noteq> []"
          "header_of later (hd L)" "\<forall>l \<in> set (tl L). section_name l = None" "block T"
        by (rule section_range_Some [OF Some [unfolded l]])
      obtain Q E S where E: "?lines = Q @ E @ S" "a = length Q" "b = length (Q @ E)" "E \<noteq> []"
          "header_of earlier (hd E)" "\<forall>l \<in> set (tl E). section_name l = None" "block S"
        by (rule section_range_Some [OF earlier [unfolded e]])
      consider "a < a'" | "a = a'" | "a' < a" by linarith
      then show ?thesis
      proof cases
        case 1
        then show ?thesis
          using unchanged Some earlier e l by (simp add: ensure_section_after_def)
      next
        case 2
        have PQ: "length P = length Q" using 2 L(2) E(2) by simp
        have "b = b'" using 2 e l earlier Some by (auto simp: section_range_def split: option.splits)
        then have LE: "length L = length E"
          using PQ L(3) E(3) by simp
        have "P @ L @ T = Q @ E @ S"
          using L(1) E(1) by simp
        then have "L = E" "T = S" "P = Q"
          using PQ LE by simp_all
        then have "ensure_section_after d earlier later = d"
          using Some earlier e l L(1-3) E(1-3) by (simp add: ensure_section_after_def)
        then show ?thesis using unchanged Some earlier e l 2 by simp
      next
        case 3
        have "length (P @ L) \<le> length Q"
        proof (rule ccontr)
          assume "\<not> ?thesis"
          then have "a - a' < length L" "0 < a - a'" using 3 L(2) E(2) by simp_all
          moreover have "?lines ! a = hd E"
            using E(1,2,4) by (simp add: nth_append hd_conv_nth)
          ultimately have "hd E = L ! (a - a')"
            using L(1,2) 3 by (simp add: nth_append)
          also have "\<dots> = tl L ! (a - a' - 1)"
            using \<open>0 < a - a'\<close> \<open>a - a' < length L\<close> by (cases L) (simp_all add: nth_Cons')
          finally have "hd E \<in> set (tl L)"
            using \<open>0 < a - a'\<close> \<open>a - a' < length L\<close> by (auto intro: nth_mem)
          then show False
            using L(6) E(5) by (auto simp: header_of_def)
        qed
        moreover have "take (length (P @ L)) (Q @ E @ S) = P @ L"
          unfolding E(1) [symmetric] L(1) by simp
        ultimately have "take (length (P @ L)) Q = P @ L"
          by (simp add: take_append)
        then have M: "Q = P @ L @ drop (length (P @ L)) Q"
          by (metis append.assoc append_take_drop_id)
        define M where "M = drop (length (P @ L)) Q"
        note M = M [folded M_def]
        have "T = M @ E @ S"
          using L(1) E(1) M by simp
        moreover have "ensure_section_after d earlier later = d\<lparr>doc_lines := P @ M @ E @ L @ S\<rparr>"
          using Some earlier e l 3 L(2,3) E(1,2,3) M by (simp add: ensure_section_after_def)
        moreover have "block M"
          using L(7) \<open>T = M @ E @ S\<close> by (cases M) (simp_all add: block_def)
        ultimately show ?thesis
          using moved [of P L M E S] E(4-7) M L(1,4-7) block_header [OF E(5), of "tl E"] block_header [OF L(5), of "tl L"]
          by (simp add: ball_Un)
      qed
    qed
  qed
qed

text \<open>
  Ordering two sections only moves lines. \<open>ensure_section_after\<close> leaves the document alone unless
  both sections exist and the later one begins first; then it moves the whole later section, header and
  all, to directly behind the earlier one. The lines are the same ones, and since every line keeps its
  section, every key of every section keeps its active assignments.
\<close>

theorem ensure_section_after_moves:
  fixes d :: document and earlier later :: rtext
  defines "d' \<equiv> ensure_section_after d earlier later"
  shows "mset (doc_lines d') = mset (doc_lines d) \<and>
    (\<forall>s k. mset (hits s k [] (doc_lines d')) = mset (hits s k [] (doc_lines d)) \<and>
       active_count d' s k = active_count d s k) \<and>
    (d' = d \<and> (\<forall>a b a' b'. section_range (doc_lines d) earlier = Some (a, b) \<longrightarrow>
         section_range (doc_lines d) later = Some (a', b') \<longrightarrow> a \<le> a') \<or>
     (\<exists>P L M E S. doc_lines d = P @ L @ M @ E @ S \<and> doc_lines d' = P @ M @ E @ L @ S \<and>
        L \<noteq> [] \<and> header_of later (hd L) \<and> E \<noteq> [] \<and> header_of earlier (hd E) \<and>
        (\<forall>l \<in> set (tl L) \<union> set (tl E). section_name l = None) \<and> block S))"
proof (rule ensure_section_after_cases [of d earlier later])
  fix P L M E S
  assume *: "doc_lines d = P @ L @ M @ E @ S"
    "doc_lines (ensure_section_after d earlier later) = P @ M @ E @ L @ S"
    "L \<noteq> []" "header_of later (hd L)" "E \<noteq> []" "header_of earlier (hd E)"
    "block S" "block M" "block E" "block L" "\<forall>l \<in> set (tl L) \<union> set (tl E). section_name l = None"
  have blocks: "block (xs @ ys)" if "block xs" "block ys" for xs ys
    using that by (cases xs) (simp_all add: block_def)
  have "mset (hits s k [] (doc_lines d')) = mset (hits s k [] (doc_lines d))" for s k
    using *(7-10) by (simp add: d'_def *(1,2) hits_append_block blocks)
  then have "\<forall>s k. mset (hits s k [] (doc_lines d')) = mset (hits s k [] (doc_lines d)) \<and>
      active_count d' s k = active_count d s k"
    by (auto simp: active_count_hits dest: mset_eq_length)
  moreover have "mset (doc_lines d') = mset (doc_lines d)"
    by (simp add: d'_def *(1,2))
  moreover have "\<exists>P L M E S. doc_lines d = P @ L @ M @ E @ S \<and> doc_lines d' = P @ M @ E @ L @ S \<and>
        L \<noteq> [] \<and> header_of later (hd L) \<and> E \<noteq> [] \<and> header_of earlier (hd E) \<and>
        (\<forall>l \<in> set (tl L) \<union> set (tl E). section_name l = None) \<and> block S"
    unfolding d'_def
    by (rule exI [of _ P], rule exI [of _ L], rule exI [of _ M], rule exI [of _ E], rule exI [of _ S])
      (intro conjI; rule *)
  ultimately show ?thesis
    by blast
qed (simp add: d'_def)

section \<open>Reading back what was written\<close>

text \<open>A line without line endings, and the documents that a text can be read into.\<close>

definition line_ok :: "rtext \<Rightarrow> bool" where
  "line_ok l \<longleftrightarrow> list_all is_scalar l \<and> 0 \<notin> set l \<and> LF \<notin> set l \<and> CR \<notin> set l"

lemma ends_with_set: "ends_with c l \<Longrightarrow> c \<in> set l"
  by (auto simp: ends_with_def)

lemma line_okD: "line_ok l \<Longrightarrow> LF \<notin> set l" "line_ok l \<Longrightarrow> \<not> ends_with CR l"
  using ends_with_set [of CR l] by (auto simp: line_ok_def)

definition document_ok :: "document \<Rightarrow> bool" where
  "document_ok d \<longleftrightarrow> list_all line_ok (doc_lines d) \<and>
     (doc_newline d = [LF] \<or>
      doc_newline d = [CR, LF] \<and> (2 \<le> length (doc_lines d) \<or> doc_final_newline d)) \<and>
     (if doc_final_newline d then doc_lines d \<noteq> [] else doc_lines d = [] \<or> last (doc_lines d) \<noteq> []) \<and>
     (doc_lines d \<noteq> [] \<and> starts_with BOM (hd (doc_lines d)) \<longrightarrow> doc_bom d)"

lemma has_crlf_append:
  "has_crlf (a @ b) \<longleftrightarrow> has_crlf a \<or> has_crlf b \<or> (ends_with CR a \<and> starts_with LF b)"
proof (induction a)
  case (Cons c a)
  then show ?case
    by (cases a; cases b) (auto simp: ends_with_def starts_with_def)
qed (simp add: ends_with_def)

lemma has_crlf_line: "LF \<notin> set l \<Longrightarrow> \<not> has_crlf l"
  by (induction l rule: has_crlf.induct) auto

lemma starts_with_append: "starts_with c (a @ b) \<longleftrightarrow> (if a = [] then starts_with c b else starts_with c a)"
  by (cases a) (simp_all add: starts_with_def)

lemma ends_with_append: "ends_with c (a @ b) \<longleftrightarrow> (if b = [] then ends_with c a else ends_with c b)"
  by (auto simp: ends_with_def)

definition newline_ok :: "rtext \<Rightarrow> bool" where
  "newline_ok nl \<longleftrightarrow> nl = [LF] \<or> nl = [CR, LF]"

definition body :: "rtext \<Rightarrow> bool \<Rightarrow> rtext list \<Rightarrow> rtext" where
  "body nl final ls = join_lines nl ls @ (if final then nl else [])"

lemma body_Cons: "ls \<noteq> [] \<Longrightarrow> body nl final (l # ls) = l @ nl @ body nl final ls"
  by (cases ls) (simp_all add: body_def)

lemma split_inclusive_body:
  assumes "LF \<notin> set l" "newline_ok nl"
  shows "split_inclusive (l @ nl @ t) = (l @ nl) # split_inclusive t"
  using assms split_inclusive_line [of l t] split_inclusive_line [of "l @ [CR]" t]
  by (auto simp: newline_ok_def)

lemma line_content_ended:
  "newline_ok nl \<Longrightarrow> \<not> ends_with CR l \<Longrightarrow> line_content (l @ nl) = l"
  by (auto simp: newline_ok_def line_content_def strip_suffix_def ends_with_def butlast_append)

lemma line_content_last: "LF \<notin> set l \<Longrightarrow> line_content l = l"
  by (cases "l = []") (auto simp: line_content_def strip_suffix_def ends_with_def dest: last_in_set)

text \<open>The lines of a text made of lines are those lines.\<close>

lemma text_lines_body:
  assumes "newline_ok nl" "list_all line_ok ls"
    "if final then ls \<noteq> [] else ls = [] \<or> last ls \<noteq> []"
  shows "text_lines (body nl final ls) = ls"
  using assms(2,3)
proof (induction ls)
  case Nil
  then show ?case
    by (cases final) (simp_all add: body_def text_lines_def)
next
  case (Cons l ls)
  have l: "LF \<notin> set l" "\<not> ends_with CR l"
    using Cons.prems(1) by (simp_all add: line_okD)
  show ?case
  proof (cases "ls = []")
    case True
    show ?thesis
    proof (cases final)
      case True
      then show ?thesis
        using split_inclusive_body [OF l(1) assms(1), of "[]"] line_content_ended [OF assms(1) l(2)] \<open>ls = []\<close>
        by (simp add: body_def text_lines_def)
    next
      case False
      then show ?thesis
        using Cons.prems(2) split_inclusive_last [OF l(1)] line_content_last [OF l(1)] True
        by (simp add: body_def text_lines_def)
    qed
  next
    case False
    moreover have "if final then ls \<noteq> [] else ls = [] \<or> last ls \<noteq> []"
      using Cons.prems(2) False by (cases final) simp_all
    ultimately show ?thesis
      using Cons.IH Cons.prems(1) split_inclusive_body [OF l(1) assms(1)] line_content_ended [OF assms(1) l(2)]
      by (simp add: body_Cons text_lines_def)
  qed
qed

lemma has_crlf_body:
  assumes "newline_ok nl" "list_all line_ok ls" "ls \<noteq> []"
  shows "has_crlf (body nl final ls) \<longleftrightarrow> nl = [CR, LF] \<and> (2 \<le> length ls \<or> final)"
  using assms(2,3)
proof (induction ls)
  case (Cons l ls)
  have l: "LF \<notin> set l" "\<not> ends_with CR l"
    using Cons.prems(1) by (simp_all add: line_okD)
  have lf: "ends_with LF nl" "nl \<noteq> []"
    using assms(1) by (auto simp: newline_ok_def ends_with_def)
  have nl: "has_crlf (l @ nl @ t) \<longleftrightarrow> nl = [CR, LF] \<or> has_crlf t" for t
    using assms(1) has_crlf_line [OF l(1)] l(2)
    by (cases t) (auto simp: newline_ok_def has_crlf_append ends_with_def starts_with_def)
  show ?case
  proof (cases "ls = []")
    case True
    then show ?thesis
      using nl [of "[]"] has_crlf_line [OF l(1)] by (simp add: body_def)
  next
    case False
    then have "2 \<le> length (l # ls)"
      by (cases ls) simp_all
    then show ?thesis
      using Cons False nl by (auto simp: body_Cons)
  qed
qed simp

lemma ends_with_body:
  assumes "newline_ok nl" "list_all line_ok ls" "if final then ls \<noteq> [] else ls = [] \<or> last ls \<noteq> []"
  shows "ends_with LF (body nl final ls) \<longleftrightarrow> final"
proof (cases final)
  case True
  then show ?thesis
    using assms(1) by (auto simp: body_def newline_ok_def ends_with_def)
next
  case False
  have join_last: "\<exists>a. join_lines nl (xs @ [x]) = a @ x" for xs x
  proof (induction xs)
    case (Cons y ys)
    then obtain a where "join_lines nl (ys @ [x]) = a @ x"
      by blast
    moreover obtain z zs where "ys @ [x] = z # zs"
      by (cases "ys @ [x]") simp_all
    ultimately have "join_lines nl (y # ys @ [x]) = (y @ nl @ a) @ x"
      by simp
    then show ?case
      by auto
  qed auto
  show ?thesis
  proof (cases ls rule: rev_cases)
    case (snoc xs x)
    then have "x \<noteq> []" "LF \<notin> set x"
      using False assms(2,3) by (simp_all add: line_ok_def)
    moreover from this have "last x \<noteq> LF"
      using last_in_set [of x] by metis
    ultimately show ?thesis
      using False snoc join_last [of xs x] by (auto simp: body_def ends_with_def)
  qed (simp add: False body_def ends_with_def)
qed

lemma document_of_render:
  assumes "document_ok d"
  shows "document_of (render_text d) = d"
proof -
  let ?nl = "doc_newline d" and ?final = "doc_final_newline d" and ?ls = "doc_lines d"
  let ?t = "body ?nl ?final ?ls"
  have d: "newline_ok ?nl" "list_all line_ok ?ls" "if ?final then ?ls \<noteq> [] else ?ls = [] \<or> last ?ls \<noteq> []"
    using assms by (auto simp: document_ok_def newline_ok_def)
  have render: "render_text d = (if doc_bom d then [BOM] else []) @ ?t"
    by (simp add: render_text_def body_def)
  have "starts_with BOM ?t \<longrightarrow> doc_bom d"
  proof (cases ?ls)
    case Nil
    then show ?thesis
      using d(3) by (auto simp: body_def starts_with_def split: if_splits)
  next
    case (Cons l ls)
    have nl: "\<not> starts_with BOM (?nl @ t)" for t
      using d(1) by (auto simp: newline_ok_def starts_with_def)
    have "starts_with BOM ?t \<longrightarrow> starts_with BOM l"
    proof (cases "ls = []")
      case True
      then show ?thesis
        using Cons nl [of "[]"] by (cases ?final) (auto simp: body_def starts_with_append split: if_splits)
    next
      case False
      then show ?thesis
        using Cons nl by (auto simp: body_Cons starts_with_append split: if_splits)
    qed
    then show ?thesis
      using assms Cons by (auto simp: document_ok_def)
  qed
  then have split: "(if starts_with BOM (render_text d) then (True, tl (render_text d)) else (False, render_text d)) =
      (doc_bom d, ?t)"
    by (auto simp: render starts_with_def)
  have "map (\<lambda>l. case strip_suffix CR l of None \<Rightarrow> l | Some l' \<Rightarrow> l') ?ls = ?ls"
    using d(2) by (intro map_idI) (auto simp: list_all_iff line_okD strip_suffix_def)
  moreover have "(if has_crlf ?t then [CR, LF] else [LF]) = ?nl"
  proof (cases "?ls = []")
    case True
    then have "\<not> ?final"
      using d(3) by (auto split: if_splits)
    then show ?thesis
      using True assms by (auto simp: body_def document_ok_def)
  next
    case False
    have "?nl = [CR, LF] \<longrightarrow> 2 \<le> length ?ls \<or> ?final"
      using assms unfolding document_ok_def by auto
    then have "has_crlf ?t \<longleftrightarrow> ?nl = [CR, LF]"
      using has_crlf_body [OF d(1,2) False, of ?final] by blast
    then show ?thesis
      using d(1) by (metis newline_ok_def)
  qed
  ultimately show ?thesis
    unfolding document_of_def split Let_def prod.case text_lines_body [OF d] ends_with_body [OF d] by simp
qed

lemma parse_render:
  assumes "document_ok d"
  shows "parse_document (render_document d) =
    (if MAX_INI_BYTES < length (render_document d) then Inl (TooLarge (length (render_document d))) else Inr d)"
proof -
  have lines: "\<forall>l \<in> set (doc_lines d). list_all is_scalar l \<and> 0 \<notin> set l"
    and nl: "list_all is_scalar (doc_newline d)" "0 \<notin> set (doc_newline d)"
    using assms by (auto simp: document_ok_def line_ok_def list_all_iff is_scalar_def)
  have "list_all is_scalar (join_lines (doc_newline d) ls) \<and> 0 \<notin> set (join_lines (doc_newline d) ls)"
    if "\<forall>l \<in> set ls. list_all is_scalar l \<and> 0 \<notin> set l" for ls
    using that nl by (induction "doc_newline d" ls rule: join_lines.induct) auto
  then have "list_all is_scalar (render_text d)" "0 \<notin> set (render_text d)"
    using lines nl by (auto simp: render_text_def is_scalar_def)
  then show ?thesis
    using document_of_render [OF assms]
    by (simp add: parse_document_def render_document_def from_utf8_into_bytes zero_byte_iff)
qed

section \<open>Reading a text\<close>

text \<open>Texts as sequences of lines, each with its line feed but perhaps the last.\<close>

lemma text_induct [case_names empty last_line line]:
  assumes "P []" "\<And>l. l \<noteq> [] \<Longrightarrow> LF \<notin> set l \<Longrightarrow> P l"
    "\<And>l t. LF \<notin> set l \<Longrightarrow> P t \<Longrightarrow> P (l @ LF # t)"
  shows "P t"
proof (induction t rule: length_induct)
  case (1 t)
  show ?case
  proof (cases "LF \<in> set t")
    case True
    then obtain l t' where "t = l @ LF # t'" "LF \<notin> set l"
      by (blast dest: split_list_first)
    then show ?thesis
      using assms(3) 1 by auto
  next
    case False
    then show ?thesis
      using assms(1,2) by (cases "t = []") auto
  qed
qed

text \<open>A text keeps its carriage returns to its line endings when no line still has one.\<close>

definition clean_text :: "rtext \<Rightarrow> bool" where
  "clean_text t \<longleftrightarrow> list_all (\<lambda>l. CR \<notin> set l) (text_lines t)"

lemma text_lines_line: "LF \<notin> set l \<Longrightarrow> text_lines (l @ LF # t) = line_content (l @ [LF]) # text_lines t"
  by (simp add: text_lines_def split_inclusive_line)

lemma text_lines_last: "l \<noteq> [] \<Longrightarrow> LF \<notin> set l \<Longrightarrow> text_lines l = [l]"
  by (simp add: text_lines_def split_inclusive_last line_content_last)

lemma line_content_LF: "line_content (l @ [LF]) = (if ends_with CR l then butlast l else l)"
  by (simp add: line_content_def strip_suffix_def ends_with_def)

lemma text_lines_ok:
  assumes "clean_text t" "list_all is_scalar t" "0 \<notin> set t"
  shows "list_all line_ok (text_lines t)"
  using assms
proof (induction t rule: text_induct)
  case (line l t)
  let ?l = "line_content (l @ [LF])"
  have "set ?l \<subseteq> set l"
    by (auto simp: line_content_LF dest: in_set_butlastD)
  moreover have "CR \<notin> set ?l" "clean_text t"
    using line by (simp_all add: clean_text_def text_lines_line)
  moreover have "\<forall>c \<in> set l. is_scalar c" "0 \<notin> set l" "LF \<notin> set l"
    using line.prems(2,3) line.hyps by (simp_all add: list_all_iff)
  ultimately have "line_ok ?l"
    unfolding line_ok_def list_all_iff by blast
  then show ?case
    using line \<open>clean_text t\<close> by (simp add: text_lines_line)
qed (auto simp: clean_text_def text_lines_def line_ok_def split_inclusive_last line_content_last)

lemma text_lines_end: "if ends_with LF t then text_lines t \<noteq> [] else text_lines t = [] \<or> last (text_lines t) \<noteq> []"
proof (induction t rule: text_induct)
  case empty
  then show ?case by (simp add: text_lines_def ends_with_def)
next
  case (last_line l)
  then show ?case by (auto simp: text_lines_last ends_with_def)
next
  case (line l t)
  have "t \<noteq> [] \<Longrightarrow> text_lines t \<noteq> []"
    by (cases t) (auto simp: text_lines_def split: list.split)
  then show ?case
  proof (cases "t = []")
    case False
    then have "ends_with LF (l @ LF # t) \<longleftrightarrow> ends_with LF t"
      by (simp add: ends_with_def)
    then show ?thesis
      using line False \<open>t \<noteq> [] \<Longrightarrow> text_lines t \<noteq> []\<close> by (simp add: text_lines_line split: if_splits)
  qed (use line in \<open>simp add: text_lines_line ends_with_def\<close>)
qed

lemma text_lines_crlf: "has_crlf t \<Longrightarrow> 2 \<le> length (text_lines t) \<or> ends_with LF t"
proof (induction t rule: text_induct)
  case (line l t)
  show ?case
  proof (cases "t = []")
    case False
    then have "text_lines t \<noteq> []"
      by (cases t) (auto simp: text_lines_def split: list.split)
    then show ?thesis
      using line by (cases "text_lines t") (simp_all add: text_lines_line)
  qed (simp add: ends_with_def)
qed (simp_all add: has_crlf_line)

lemma strip_clean:
  "list_all (\<lambda>l. CR \<notin> set l) ls \<Longrightarrow> map (\<lambda>l. case strip_suffix CR l of None \<Rightarrow> l | Some l' \<Rightarrow> l') ls = ls"
proof (intro map_idI)
  fix l
  assume "list_all (\<lambda>l. CR \<notin> set l) ls" "l \<in> set ls"
  then have "CR \<notin> set l"
    by (simp add: list_all_iff)
  then show "(case strip_suffix CR l of None \<Rightarrow> l | Some l' \<Rightarrow> l') = l"
    using ends_with_set [of CR l] by (auto simp: strip_suffix_def)
qed

text \<open>The text behind a byte order mark.\<close>

definition content_of :: "rtext \<Rightarrow> rtext" where
  "content_of full = (if starts_with BOM full then tl full else full)"

lemma document_of_clean:
  assumes "clean_text (content_of full)"
  shows "document_of full = \<lparr>doc_lines = text_lines (content_of full),
    doc_newline = (if has_crlf (content_of full) then [CR, LF] else [LF]),
    doc_final_newline = ends_with LF (content_of full), doc_bom = starts_with BOM full\<rparr>"
  using assms strip_clean [of "text_lines (content_of full)"]
  by (simp add: document_of_def content_of_def clean_text_def split: if_splits)

lemma hd_text_lines: "starts_with BOM (hd (text_lines t)) \<Longrightarrow> text_lines t \<noteq> [] \<Longrightarrow> starts_with BOM t"
proof (induction t rule: text_induct)
  case (line l t)
  have "starts_with BOM (butlast l) \<Longrightarrow> starts_with BOM l"
    by (cases l) (auto simp: starts_with_def split: if_splits)
  with line have "starts_with BOM l"
    by (simp add: text_lines_line line_content_LF split: if_splits)
  then show ?case
    by (cases l) (simp_all add: starts_with_def)
qed (simp_all add: text_lines_def split_inclusive_last line_content_last)

lemma document_of_ok:
  assumes "clean_text (content_of full)" "list_all is_scalar full" "0 \<notin> set full"
  shows "document_ok (document_of full)"
proof -
  let ?t = "content_of full"
  have "set ?t \<subseteq> set full"
    by (cases full) (auto simp: content_of_def)
  then have "list_all is_scalar ?t" "0 \<notin> set ?t"
    using assms(2,3) by (auto simp: list_all_iff)
  then have "list_all line_ok (text_lines ?t)"
    using text_lines_ok assms(1) by blast
  moreover have "starts_with BOM (hd (text_lines ?t)) \<Longrightarrow> text_lines ?t \<noteq> [] \<Longrightarrow> starts_with BOM full"
    using hd_text_lines [of ?t] by (auto simp: content_of_def split: if_splits)
  ultimately show ?thesis
    using text_lines_end [of ?t] text_lines_crlf [of ?t]
    by (auto simp: document_of_clean [OF assms(1)] document_ok_def)
qed

text \<open>All lines end the same way.\<close>

definition uniform_endings :: "rtext \<Rightarrow> rtext \<Rightarrow> bool" where
  "uniform_endings nl t \<longleftrightarrow>
     list_all (\<lambda>p. ends_with LF p \<longrightarrow> (ends_with CR (butlast p) \<longleftrightarrow> nl = [CR, LF])) (split_inclusive t)"

lemma body_text_lines:
  assumes "uniform_endings nl t" "newline_ok nl"
  shows "body nl (ends_with LF t) (text_lines t) = t"
  using assms(1)
proof (induction t rule: text_induct)
  case empty
  then show ?case by (simp add: body_def text_lines_def ends_with_def)
next
  case (last_line l)
  then have "\<not> ends_with LF l"
    using ends_with_set [of LF l] by auto
  then show ?case
    using last_line by (simp add: text_lines_last body_def)
next
  case (line l t)
  have u: "ends_with CR l \<longleftrightarrow> nl = [CR, LF]" "uniform_endings nl t"
    using line by (simp_all add: uniform_endings_def split_inclusive_line ends_with_def [of LF])
  have l: "line_content (l @ [LF]) @ nl = l @ [LF]"
  proof (cases "ends_with CR l")
    case True
    then have "butlast l @ [CR] = l"
      unfolding ends_with_def by (metis append_butlast_last_id)
    then have "butlast l @ [CR, LF] = l @ [LF]"
      by (metis append.assoc append_Cons append_Nil)
    with True u(1) show ?thesis
      by (simp add: line_content_LF)
  next
    case False
    then show ?thesis
      using u(1) assms(2) by (simp add: line_content_LF newline_ok_def)
  qed
  show ?case
  proof (cases "t = []")
    case True
    then show ?thesis
      using l line by (simp add: text_lines_line text_lines_def [of "[]"] body_def ends_with_def)
  next
    case False
    then have "text_lines t \<noteq> []" "ends_with LF (l @ LF # t) \<longleftrightarrow> ends_with LF t"
      by (cases t; auto simp: text_lines_def ends_with_def split: list.split)+
    then show ?thesis
      using l line u(2) by (simp add: text_lines_line body_Cons flip: append_assoc)
  qed
qed

lemma render_document_of:
  assumes "clean_text (content_of full)"
    "uniform_endings (if has_crlf (content_of full) then [CR, LF] else [LF]) (content_of full)"
  shows "render_text (document_of full) = full"
proof -
  have "full = (if starts_with BOM full then [BOM] else []) @ content_of full"
    by (cases full) (auto simp: content_of_def starts_with_def)
  moreover have "body (if has_crlf (content_of full) then [CR, LF] else [LF]) (ends_with LF (content_of full))
      (text_lines (content_of full)) = content_of full"
    by (rule body_text_lines [OF assms(2)]) (simp add: newline_ok_def)
  moreover have "render_text (document_of full) = (if starts_with BOM full then [BOM] else []) @
      body (if has_crlf (content_of full) then [CR, LF] else [LF]) (ends_with LF (content_of full))
        (text_lines (content_of full))"
    by (simp add: document_of_clean [OF assms(1)] render_text_def body_def)
  ultimately show ?thesis
    by simp
qed

section \<open>Sequences of edits\<close>

datatype ini_edit =
    EditSet rtext rtext rtext
  | EditRemove rtext rtext rtext
  | EditComment rtext rtext "rtext list" rtext
  | EditOrder rtext rtext

fun apply_edit :: "document \<Rightarrow> ini_edit \<Rightarrow> document" where
  "apply_edit d (EditSet s k v) = set_value d s k v"
| "apply_edit d (EditRemove s k reason) = remove_value d s k reason"
| "apply_edit d (EditComment s k values reason) = comment_if_value d s k values reason"
| "apply_edit d (EditOrder earlier later) = ensure_section_after d earlier later"

text \<open>
  The texts of an edit hold no line ending; a written key, value and section read back; and when a document
  has no final line ending, moving a section must not leave an empty line at its end, which would render
  as a line ending.
\<close>

fun edit_ok :: "document \<Rightarrow> ini_edit \<Rightarrow> bool" where
  "edit_ok d (EditSet s k v) \<longleftrightarrow> list_all line_ok [s, k, v] \<and> section_ok s \<and> key_ok k \<and> value_ok v \<and>
     \<not> starts_with BOM k"
| "edit_ok d (EditRemove s k reason) \<longleftrightarrow> line_ok reason"
| "edit_ok d (EditComment s k values reason) \<longleftrightarrow> line_ok reason"
| "edit_ok d (EditOrder earlier later) \<longleftrightarrow> doc_final_newline d \<or> last (doc_lines (ensure_section_after d earlier later)) \<noteq> []"

lemma line_ok_Cons: "line_ok (c # l) \<longleftrightarrow> is_scalar c \<and> c \<noteq> 0 \<and> c \<noteq> LF \<and> c \<noteq> CR \<and> line_ok l"
  by (auto simp: line_ok_def)

lemma line_ok_append [simp]: "line_ok (a @ b) \<longleftrightarrow> line_ok a \<and> line_ok b"
  by (auto simp: line_ok_def)

lemma line_ok_Nil [simp]: "line_ok []"
  by (simp add: line_ok_def)

lemma line_ok_punctuation [simp]:
  "line_ok (SEMICOLON # l) \<longleftrightarrow> line_ok l" "line_ok (EQUALS # l) \<longleftrightarrow> line_ok l"
  "line_ok (OPENING # l) \<longleftrightarrow> line_ok l" "line_ok (CLOSING # l) \<longleftrightarrow> line_ok l"
  by (simp_all add: line_ok_Cons is_scalar_def)

lemma line_ok_reason [simp]: "line_ok (with_reason l reason) \<longleftrightarrow> line_ok l \<and> line_ok reason"
proof -
  have "line_ok (lit '' ; '')"
    by (simp add: line_ok_def lit_def is_scalar_def)
  then show ?thesis
    by (auto simp: with_reason_def)
qed

lemma line_ok_subset: "set a \<subseteq> set b \<union> set c \<Longrightarrow> line_ok b \<Longrightarrow> line_ok c \<Longrightarrow> line_ok a"
  unfolding line_ok_def list_all_iff by blast

lemma set_replaced: "set (replace_assignment_value l v) \<subseteq> set l \<union> set v"
  by (auto simp: replace_assignment_value_def split_once_Some Let_def split: option.splits if_splits
      dest: set_takeWhileD set_dropWhileD in_set_dropD)

text \<open>What an edit may do to the lines without spoiling the document.\<close>

definition lines_grow :: "rtext list \<Rightarrow> rtext list \<Rightarrow> bool" where
  "lines_grow lines lines' \<longleftrightarrow> (list_all line_ok lines \<longrightarrow> list_all line_ok lines') \<and>
     length lines \<le> length lines' \<and>
     (lines' \<noteq> [] \<longrightarrow> last lines' \<noteq> [] \<or> lines \<noteq> [] \<and> last lines = []) \<and>
     (lines' \<noteq> [] \<and> starts_with BOM (hd lines') \<longrightarrow> lines \<noteq> [] \<and> starts_with BOM (hd lines))"

lemma lines_grow_ok:
  "lines_grow (doc_lines d) lines' \<Longrightarrow> document_ok d \<Longrightarrow> document_ok (d\<lparr>doc_lines := lines'\<rparr>)"
  by (auto simp: lines_grow_def document_ok_def split: if_splits)

text \<open>Rewriting the lines in place, each into one that is as good.\<close>

definition line_edit :: "rtext \<Rightarrow> rtext \<Rightarrow> bool" where
  "line_edit l l' \<longleftrightarrow> (line_ok l \<longrightarrow> line_ok l') \<and> (l \<noteq> [] \<longrightarrow> l' \<noteq> []) \<and>
     (starts_with BOM l' \<longrightarrow> starts_with BOM l)"

lemma lines_grow_map: "list_all2 line_edit lines lines' \<Longrightarrow> lines_grow lines lines'"
proof -
  assume *: "list_all2 line_edit lines lines'"
  then have len: "length lines' = length lines"
    by (simp add: list_all2_lengthD)
  have nth: "line_edit (lines ! i) (lines' ! i)" if "i < length lines" for i
    using * that by (simp add: list_all2_nthD)
  have "line_edit (last lines) (last lines') \<and> line_edit (hd lines) (hd lines')" if "lines' \<noteq> []"
  proof -
    from that len have "lines \<noteq> []"
      by auto
    then show ?thesis
      using nth [of 0] nth [of "length lines - 1"] len that by (simp add: last_conv_nth hd_conv_nth)
  qed
  then show ?thesis
    using nth len by (auto simp: lines_grow_def line_edit_def list_all_length)
qed

lemma lines_grow_insert:
  assumes "line_ok x" "x \<noteq> []" "\<not> starts_with BOM x"
  shows "lines_grow (pre @ post) (pre @ x # post)"
  using assms by (cases pre) (auto simp: lines_grow_def)

lemma line_edit_refl [simp]: "line_edit l l"
  by (simp add: line_edit_def)

lemma line_edit_comment: "line_edit l (SEMICOLON # l)"
  by (simp add: line_edit_def starts_with_def)

lemma line_edit_reason: "line_ok reason \<Longrightarrow> line_edit l (with_reason l reason)"
  by (simp add: line_edit_def) (simp add: with_reason_def starts_with_def)

lemma line_edit_replaced:
  assumes "active_key_eq l k" "line_ok v"
  shows "line_edit l (replace_assignment_value l v)"
proof -
  obtain a r where l: "l = a @ EQUALS # r" "EQUALS \<notin> set a"
    using assms(1) by (rule active_form)
  obtain w c where "replace_assignment_value l v = a @ EQUALS # w @ v @ c"
    unfolding l(1) using l(2) by (rule replace_form)
  then have "replace_assignment_value l v \<noteq> [] \<and> (starts_with BOM (replace_assignment_value l v) \<longrightarrow> starts_with BOM l)"
    using l(1) by (simp add: starts_with_append_equals)
  then show ?thesis
    using line_ok_subset [OF set_replaced _ assms(2), of l] unfolding line_edit_def by blast
qed

lemma line_edit_comment_all: "list_all2 line_edit lines (comment_all s k current lines)"
  by (induction lines arbitrary: current) (auto simp: line_edit_comment split: option.split)

lemma line_edit_replace_first:
  "line_ok v \<Longrightarrow> list_all2 line_edit lines (replace_first s k v current lines)"
  by (induction lines arbitrary: current)
    (auto simp: line_edit_replaced line_edit_comment_all split: option.split)

lemma lines_grow_set:
  assumes "edit_ok d (EditSet s k v)"
  shows "lines_grow lines (set_lines s k v lines)"
proof -
  have ok: "line_ok s" "line_ok k" "line_ok v" "key_ok k" "value_ok v" "section_ok s" "\<not> starts_with BOM k"
    using assms by simp_all
  have x: "line_ok (k @ EQUALS # v)" "k @ EQUALS # v \<noteq> []" "\<not> starts_with BOM (k @ EQUALS # v)"
    using ok by (simp_all add: starts_with_append_equals)
  show ?thesis
  proof (rule set_lines_cases [OF ok(4,5), of s lines])
    assume "set_lines s k v lines = replace_first s k v [] lines"
    then show ?thesis
      using lines_grow_map [OF line_edit_replace_first] ok(3) by simp
  next
    fix pre post
    assume "lines = pre @ post" "set_lines s k v lines = pre @ (k @ EQUALS # v) # post"
    then show ?thesis
      using lines_grow_insert [OF x] by simp
  next
    fix blank
    assume "blank = [] \<or> blank = [[]]"
      "set_lines s k v lines = lines @ blank @ [OPENING # s @ [CLOSING], k @ EQUALS # v]"
    then show ?thesis
      using x ok(1) by (cases lines) (auto simp: lines_grow_def starts_with_def)
  qed
qed

lemma edits_keep_document: "document_ok d \<Longrightarrow> edit_ok d e \<Longrightarrow> document_ok (apply_edit d e)"
proof (cases e)
  case (EditSet s k v)
  assume "document_ok d" "edit_ok d e"
  then show ?thesis
    using lines_grow_ok [OF lines_grow_set] EditSet by (simp add: set_value_def del: edit_ok.simps)
next
  case (EditRemove s k reason)
  assume "document_ok d" "edit_ok d e"
  moreover have "list_all2 line_edit lines (rewrite_hits s k (\<lambda>l. with_reason l reason) [] lines)" for lines
    using calculation(2) EditRemove by (intro list_all2_mono [OF rewrite_hits_lines]) (auto simp: line_edit_reason)
  ultimately show ?thesis
    using lines_grow_ok [OF lines_grow_map] EditRemove by (simp add: remove_value_def remove_lines_rewrite)
next
  case (EditComment s k vs reason)
  assume "document_ok d" "edit_ok d e"
  moreover have "list_all2 line_edit lines
      (rewrite_hits s k (\<lambda>l. if has_value vs l then with_reason l reason else l) [] lines)" for lines
    using calculation(2) EditComment by (intro list_all2_mono [OF rewrite_hits_lines]) (auto simp: line_edit_reason)
  ultimately show ?thesis
    using lines_grow_ok [OF lines_grow_map] EditComment by (simp add: comment_if_value_def comment_lines_rewrite)
next
  case (EditOrder earlier later)
  assume d: "document_ok d" "edit_ok d e"
  show ?thesis
  proof (rule ensure_section_after_cases [of d earlier later])
    assume "ensure_section_after d earlier later = d"
    with d EditOrder show ?thesis by simp
  next
    fix P L M E S
    assume *: "doc_lines d = P @ L @ M @ E @ S" "L \<noteq> []" "E \<noteq> []" "block M" "block E"
      "ensure_section_after d earlier later = d\<lparr>doc_lines := P @ M @ E @ L @ S\<rparr>"
    have header: "\<not> starts_with BOM (hd B)" if "block B" "B \<noteq> []" for B
    proof -
      have "starts_with OPENING (trim_start (hd B))"
        using that section_name_starts [of "hd B"] by (simp add: block_def del: not_None_eq)
      then show ?thesis
        by (cases "hd B") (auto simp: starts_with_def trim_start_def is_whitespace_def split: if_splits)
    qed
    have "\<not> starts_with BOM (hd (M @ E))"
      using header [of M] header [of E] *(3-5) by (cases M) simp_all
    then have "starts_with BOM (hd (P @ M @ E @ L @ S)) \<Longrightarrow> starts_with BOM (hd (doc_lines d))"
      using *(1,3) by (cases P; cases M; cases E) auto
    then show ?thesis
      using d *(1,2,6) EditOrder by (auto simp: document_ok_def)
  qed
qed

interpretation ini_machine: machine apply_edit edit_ok document_ok
  by unfold_locales (rule edits_keep_document)

text \<open>
  C22: What the editor writes reads back as the document it edited. Take a file that is accepted, whose
  carriage returns all belong to line endings. If its line endings are uniform, rendering the unedited
  document gives the file back byte by byte. After any sequence of admissible edits - assignments, removals,
  conditional removals, reordering of sections - parsing the rendered bytes gives exactly the edited
  document, byte order mark, line ending and missing final newline included; the one way to fail is that
  the rendered file exceeds the size limit, and then the parser says so. An edit is admissible when its
  texts hold no line ending or NUL, when a section, key and value to be set are trimmed and free of the
  characters that would end or comment them (the key also of a leading byte order mark), and when a reordering does not bring an empty line to the end of
  a document without final newline: there the empty line would be rendered as a final newline and be lost.
\<close>

theorem edits_survive_reload:
  assumes "parse_document input = Inr d" "from_utf8 input = Some contents" "clean_text (content_of contents)"
    and "run_allowed apply_edit edit_ok d es"
  defines "d' \<equiv> run_steps apply_edit d es"
  shows "parse_document (render_document d') =
      (if MAX_INI_BYTES < length (render_document d') then Inl (TooLarge (length (render_document d'))) else Inr d') \<and>
    (uniform_endings (doc_newline d) (content_of contents) \<longrightarrow> render_document d = input)"
proof -
  have d: "d = document_of contents" "0 \<notin> set input"
    using assms(1,2) by (auto simp: parse_document_def split: if_splits)
  note t = into_bytes_from_utf8 [OF assms(2)]
  have "0 \<notin> set contents"
    using d(2) zero_byte_iff [OF t(2)] t(1) by simp
  then have "document_ok d"
    using document_of_ok [OF assms(3) t(2)] d(1) by simp
  then have "document_ok d'"
    unfolding d'_def using assms(4) by (rule ini_machine.run_inv)
  moreover have "render_document d = input" if "uniform_endings (doc_newline d) (content_of contents)"
    using render_document_of [OF assms(3)] that t(1) d(1)
    by (simp add: document_of_clean [OF assms(3)] render_document_def)
  ultimately show ?thesis
    by (simp add: parse_render)
qed

section \<open>Witnesses\<close>

theorem ensure_section_after_moves_witness:
  "mset (doc_lines (ensure_section_after sample_document (lit ''MiSTer'') (lit ''Menu''))) =
     mset (doc_lines sample_document) \<and>
   hd (doc_lines (ensure_section_after sample_document (lit ''MiSTer'') (lit ''Menu''))) = lit ''[MiSTer]''"
proof -
  have "hd (doc_lines (ensure_section_after sample_document (lit ''MiSTer'') (lit ''Menu''))) = lit ''[MiSTer]''"
    by (simp add: ensure_section_after_def section_range_def sample_document_def evaluate_texts)
  then show ?thesis
    using ensure_section_after_moves [of sample_document "lit ''MiSTer''" "lit ''Menu''"] by blast
qed

definition sample_contents :: rtext where
  "sample_contents = lit ''[MiSTer]'' @ CR # LF # lit ''main=Old'' @ [CR, LF]"

definition sample_edits :: "ini_edit list" where
  "sample_edits = [EditSet (lit ''MiSTer'') (lit ''main'') (lit ''MagiK''),
     EditSet (lit ''Menu'') (lit ''video'') (lit ''2''), EditOrder (lit ''Menu'') (lit ''MiSTer''),
     EditRemove (lit ''Menu'') (lit ''video'') (lit ''unused'')]"

theorem edits_survive_reload_witness:
  "parse_document (render_document (run_steps apply_edit (document_of sample_contents) sample_edits)) =
     Inr (run_steps apply_edit (document_of sample_contents) sample_edits) \<and>
   render_document (document_of sample_contents) = into_bytes sample_contents"
proof -
  have lines: "content_of sample_contents = sample_contents"
    "text_lines sample_contents = [lit ''[MiSTer]'', lit ''main=Old'']"
    "has_crlf sample_contents" "ends_with LF sample_contents" "\<not> starts_with BOM sample_contents"
    by (simp_all add: content_of_def sample_contents_def text_lines_def line_content_def evaluate_texts)
  have clean: "clean_text (content_of sample_contents)"
    unfolding lines clean_text_def by (simp add: evaluate_texts)
  have d: "document_of sample_contents = \<lparr>doc_lines = [lit ''[MiSTer]'', lit ''main=Old''],
      doc_newline = [CR, LF], doc_final_newline = True, doc_bom = False\<rparr>"
    using document_of_clean [OF clean] lines by simp
  have "list_all is_scalar sample_contents" "uniform_endings (doc_newline (document_of sample_contents)) (content_of sample_contents)"
    unfolding lines d by (simp_all add: uniform_endings_def sample_contents_def is_scalar_def evaluate_texts)
  moreover have "0 \<notin> set sample_contents" "length (into_bytes sample_contents) \<le> MAX_INI_BYTES"
    by (simp_all add: sample_contents_def into_bytes_def utf8_char_def MAX_INI_BYTES_def evaluate_texts)
  moreover have "run_allowed apply_edit edit_ok (document_of sample_contents) sample_edits"
    unfolding d by (simp add: sample_edits_def line_ok_def is_scalar_def section_ok_def key_ok_def value_ok_def
        set_value_def ensure_section_after_def set_lines_def section_range_def insert_at_def evaluate_texts)
  moreover have "length (render_document (run_steps apply_edit (document_of sample_contents) sample_edits)) \<le> MAX_INI_BYTES"
    unfolding d by (simp add: sample_edits_def set_value_def ensure_section_after_def set_lines_def section_range_def
        insert_at_def remove_value_def with_reason_def render_document_def render_text_def into_bytes_def
        utf8_char_def MAX_INI_BYTES_def evaluate_texts)
  moreover from calculation have "from_utf8 (into_bytes sample_contents) = Some sample_contents"
    by (simp add: from_utf8_into_bytes)
  moreover from calculation have "parse_document (into_bytes sample_contents) = Inr (document_of sample_contents)"
    by (simp add: parse_document_def zero_byte_iff)
  ultimately show ?thesis
    using edits_survive_reload [of "into_bytes sample_contents" "document_of sample_contents" sample_contents sample_edits] clean
    by simp
qed

end
