(* ===== verification/Damage.thy ===== *)
theory Damage
  imports Prelude
begin

text \<open>
  Damage rectangles and the damage debts of the two hidden scanout slots
  (\<open>mister/platform/runtime/src/framebuffer/damage.rs\<close>).
\<close>

section \<open>Rectangles\<close>

record dirty_rect =
  x0 :: nat
  y0 :: nat
  x1 :: nat
  y1 :: nat

definition rect_rows :: "dirty_rect \<Rightarrow> nat" where
  "rect_rows r = y1 r - y0 r"

definition rect_width :: "dirty_rect \<Rightarrow> nat" where
  "rect_width r = x1 r - x0 r"

definition rect_is_empty :: "dirty_rect \<Rightarrow> bool" where
  "rect_is_empty r \<longleftrightarrow> x1 r \<le> x0 r \<or> y1 r \<le> y0 r"

definition rect_contains :: "dirty_rect \<Rightarrow> dirty_rect \<Rightarrow> bool" where
  "rect_contains r other \<longleftrightarrow> x0 r \<le> x0 other \<and> y0 r \<le> y0 other \<and> x1 other \<le> x1 r \<and> y1 other \<le> y1 r"

definition rect_intersection :: "dirty_rect \<Rightarrow> dirty_rect \<Rightarrow> dirty_rect option" where
  "rect_intersection r other =
     (let a0 = max (x0 r) (x0 other); b0 = max (y0 r) (y0 other);
          a1 = min (x1 r) (x1 other); b1 = min (y1 r) (y1 other)
      in if a0 < a1 \<and> b0 < b1 then Some \<lparr>x0 = a0, y0 = b0, x1 = a1, y1 = b1\<rparr> else None)"

definition rect_union :: "dirty_rect \<Rightarrow> dirty_rect \<Rightarrow> dirty_rect" where
  "rect_union r other =
     \<lparr>x0 = min (x0 r) (x0 other), y0 = min (y0 r) (y0 other),
      x1 = max (x1 r) (x1 other), y1 = max (y1 r) (y1 other)\<rparr>"

text \<open>The pixels of a rectangle.\<close>

definition in_rect :: "dirty_rect \<Rightarrow> nat \<Rightarrow> nat \<Rightarrow> bool" where
  "in_rect r x y \<longleftrightarrow> x0 r \<le> x \<and> x < x1 r \<and> y0 r \<le> y \<and> y < y1 r"

lemma in_rect_contains: "rect_contains r other \<Longrightarrow> in_rect other x y \<Longrightarrow> in_rect r x y"
  by (auto simp: rect_contains_def in_rect_def)

lemma in_rect_intersection:
  "rect_intersection r other = Some i \<Longrightarrow> in_rect i x y \<longleftrightarrow> in_rect r x y \<and> in_rect other x y"
  by (auto simp: rect_intersection_def in_rect_def Let_def split: if_splits)

lemma rect_intersection_None:
  "rect_intersection r other = None \<Longrightarrow> \<not> (in_rect r x y \<and> in_rect other x y)"
  by (auto simp: rect_intersection_def in_rect_def Let_def split: if_splits)

lemma rect_intersection_nonempty: "rect_intersection r other = Some i \<Longrightarrow> \<not> rect_is_empty i"
  by (auto simp: rect_intersection_def rect_is_empty_def Let_def split: if_splits)

lemma in_rect_union: "in_rect r x y \<or> in_rect other x y \<Longrightarrow> in_rect (rect_union r other) x y"
  by (auto simp: rect_union_def in_rect_def)

lemma not_in_empty: "rect_is_empty r \<Longrightarrow> \<not> in_rect r x y"
  by (auto simp: rect_is_empty_def in_rect_def)

section \<open>Lists of rectangles\<close>

text \<open>A fixed array of rectangles of which the first \<open>rl_len\<close> count.\<close>

definition DIRTY_RECT_LIST_CAP :: nat where
  "DIRTY_RECT_LIST_CAP = 32"

definition EMPTY_DIRTY_RECT :: dirty_rect where
  "EMPTY_DIRTY_RECT = \<lparr>x0 = 0, y0 = 0, x1 = 0, y1 = 0\<rparr>"

record rect_list =
  rl_rects :: "dirty_rect list"
  rl_len :: nat

definition rl_new :: rect_list where
  "rl_new = \<lparr>rl_rects = replicate DIRTY_RECT_LIST_CAP EMPTY_DIRTY_RECT, rl_len = 0\<rparr>"

definition rl_iter :: "rect_list \<Rightarrow> dirty_rect list" where
  "rl_iter l = take (rl_len l) (rl_rects l)"

definition rl_is_empty :: "rect_list \<Rightarrow> bool" where
  "rl_is_empty l \<longleftrightarrow> rl_len l = 0"

definition rl_get :: "rect_list \<Rightarrow> nat \<Rightarrow> dirty_rect option" where
  "rl_get l i = (if i < length (rl_rects l) \<and> i < rl_len l then Some (rl_rects l ! i) else None)"

definition rl_clear :: "rect_list \<Rightarrow> rect_list" where
  "rl_clear l = l\<lparr>rl_len := 0\<rparr>"

definition rl_try_push :: "rect_list \<Rightarrow> dirty_rect \<Rightarrow> bool \<times> rect_list" where
  "rl_try_push l r =
     (if rl_len l = DIRTY_RECT_LIST_CAP then (False, l)
      else (True, l\<lparr>rl_rects := (rl_rects l)[rl_len l := r], rl_len := rl_len l + 1\<rparr>))"

text \<open>When the array is full the release build widens the last rectangle.\<close>

definition rl_push :: "rect_list \<Rightarrow> dirty_rect \<Rightarrow> rect_list" where
  "rl_push l r =
     (if rect_is_empty r then l
      else case rl_try_push l r of
        (True, l') \<Rightarrow> l'
      | (False, l') \<Rightarrow>
          (let last_rect = DIRTY_RECT_LIST_CAP - 1
           in l'\<lparr>rl_rects := (rl_rects l')[last_rect := rect_union (rl_rects l' ! last_rect) r]\<rparr>))"

definition rl_from_one :: "dirty_rect \<Rightarrow> rect_list" where
  "rl_from_one r = rl_push rl_new r"

definition rl_push_if_some :: "rect_list \<Rightarrow> dirty_rect option \<Rightarrow> rect_list" where
  "rl_push_if_some l r = (case r of None \<Rightarrow> l | Some r \<Rightarrow> rl_push l r)"

definition rl_extend_from :: "rect_list \<Rightarrow> rect_list \<Rightarrow> rect_list" where
  "rl_extend_from l other = fold (\<lambda>r l. rl_push l r) (rl_iter other) l"

definition total_rgb565_bytes :: "rect_list \<Rightarrow> nat" where
  "total_rgb565_bytes l = sum_list (map (\<lambda>r. rect_width r * rect_rows r * 2) (rl_iter l))"

text \<open>Pushing rectangles one by one until the array is full.\<close>

fun rl_try_push_all :: "rect_list \<Rightarrow> dirty_rect list \<Rightarrow> bool \<times> rect_list" where
  "rl_try_push_all l [] = (True, l)"
| "rl_try_push_all l (r # rs) =
     (case rl_try_push l r of
        (False, l') \<Rightarrow> (False, l')
      | (True, l') \<Rightarrow> rl_try_push_all l' rs)"

definition rl_add_canonical :: "rect_list \<Rightarrow> dirty_rect \<Rightarrow> dirty_rect \<Rightarrow> rect_list" where
  "rl_add_canonical l r full_rect =
     (case rect_intersection r full_rect of
        None \<Rightarrow> l
      | Some r \<Rightarrow>
          if list_ex (\<lambda>existing. rect_contains existing r) (rl_iter l) then l
          else
            (case rl_try_push_all (rl_clear l) (filter (\<lambda>existing. \<not> rect_contains r existing) (rl_iter l)) of
               (False, _) \<Rightarrow> rl_from_one full_rect
             | (True, l') \<Rightarrow>
                 (case rl_try_push l' r of
                    (False, _) \<Rightarrow> rl_from_one full_rect
                  | (True, l'') \<Rightarrow> l'')))"

fun extend_canonical_loop :: "rect_list \<Rightarrow> dirty_rect list \<Rightarrow> dirty_rect \<Rightarrow> rect_list" where
  "extend_canonical_loop l [] full_rect = l"
| "extend_canonical_loop l (r # rs) full_rect =
     (let l' = rl_add_canonical l r full_rect
      in if l' = rl_from_one full_rect then l' else extend_canonical_loop l' rs full_rect)"

definition rl_extend_canonical :: "rect_list \<Rightarrow> rect_list \<Rightarrow> dirty_rect \<Rightarrow> rect_list" where
  "rl_extend_canonical l damage full_rect = extend_canonical_loop l (rl_iter damage) full_rect"

section \<open>Subtraction\<close>

text \<open>The parts of a rectangle above, below, left and right of the cut_rect.\<close>

definition subtract_parts :: "dirty_rect \<Rightarrow> dirty_rect \<Rightarrow> dirty_rect list" where
  "subtract_parts r overlap =
     (if y0 r < y0 overlap then [\<lparr>x0 = x0 r, y0 = y0 r, x1 = x1 r, y1 = y0 overlap\<rparr>] else []) @
     (if y1 overlap < y1 r then [\<lparr>x0 = x0 r, y0 = y1 overlap, x1 = x1 r, y1 = y1 r\<rparr>] else []) @
     (if x0 r < x0 overlap then [\<lparr>x0 = x0 r, y0 = y0 overlap, x1 = x0 overlap, y1 = y1 overlap\<rparr>] else []) @
     (if x1 overlap < x1 r then [\<lparr>x0 = x1 overlap, y0 = y0 overlap, x1 = x1 r, y1 = y1 overlap\<rparr>] else [])"

definition subtract_rect_into :: "dirty_rect \<Rightarrow> dirty_rect \<Rightarrow> rect_list \<Rightarrow> bool \<times> rect_list" where
  "subtract_rect_into r cut_rect out =
     (case rect_intersection r cut_rect of
        None \<Rightarrow> rl_try_push out r
      | Some overlap \<Rightarrow> rl_try_push_all out (subtract_parts r overlap))"

fun subtract_all_into :: "dirty_rect list \<Rightarrow> dirty_rect \<Rightarrow> rect_list \<Rightarrow> bool \<times> rect_list" where
  "subtract_all_into [] cut_rect out = (True, out)"
| "subtract_all_into (r # rs) cut_rect out =
     (case subtract_rect_into r cut_rect out of
        (False, out') \<Rightarrow> (False, out')
      | (True, out') \<Rightarrow> subtract_all_into rs cut_rect out')"

fun subtract_loop :: "rect_list \<Rightarrow> rect_list \<Rightarrow> rect_list \<Rightarrow> dirty_rect list \<Rightarrow> rect_list" where
  "subtract_loop original current scratch [] = current"
| "subtract_loop original current scratch (cut_rect # cuts) =
     (case subtract_all_into (rl_iter current) cut_rect (rl_clear scratch) of
        (False, _) \<Rightarrow> original
      | (True, next_list) \<Rightarrow>
          if rl_is_empty next_list then next_list
          else subtract_loop original next_list current cuts)"

definition subtract_dirty_rects :: "rect_list \<Rightarrow> rect_list \<Rightarrow> rect_list" where
  "subtract_dirty_rects rects cuts = subtract_loop rects rects rl_new (rl_iter cuts)"

section \<open>The ledger of two slots\<close>

record damage_ledger =
  debts :: "rect_list list"
  full_rect :: dirty_rect

definition slot_offset :: "nat \<Rightarrow> nat option" where
  "slot_offset slot = (if slot = 1 then Some 0 else if slot = 2 then Some 1 else None)"

definition ledger_new :: "nat \<Rightarrow> nat \<Rightarrow> damage_ledger" where
  "ledger_new w h =
     (let full = \<lparr>x0 = 0, y0 = 0, x1 = w, y1 = h\<rparr>
      in \<lparr>debts = [rl_from_one full, rl_from_one full], full_rect = full\<rparr>)"

definition record_damage :: "damage_ledger \<Rightarrow> rect_list \<Rightarrow> damage_ledger" where
  "record_damage g damage =
     g\<lparr>debts := map (\<lambda>debt. rl_extend_canonical debt damage (full_rect g)) (debts g)\<rparr>"

text \<open>A slot index other than 1 and 2 panics.\<close>

definition ledger_plan :: "damage_ledger \<Rightarrow> nat \<Rightarrow> rect_list option" where
  "ledger_plan g slot = map_option (\<lambda>o1. debts g ! o1) (slot_offset slot)"

definition ledger_presented :: "damage_ledger \<Rightarrow> nat \<Rightarrow> damage_ledger option" where
  "ledger_presented g slot =
     map_option (\<lambda>o1. g\<lparr>debts := (debts g)[o1 := rl_clear (debts g ! o1)]\<rparr>) (slot_offset slot)"

definition ledger_invalidate_slot :: "damage_ledger \<Rightarrow> nat \<Rightarrow> damage_ledger option" where
  "ledger_invalidate_slot g slot =
     map_option (\<lambda>o1. g\<lparr>debts := (debts g)[o1 := rl_from_one (full_rect g)]\<rparr>) (slot_offset slot)"

definition ledger_attempt_failed :: "damage_ledger \<Rightarrow> nat \<Rightarrow> damage_ledger option" where
  "ledger_attempt_failed g slot = ledger_invalidate_slot g slot"

definition ledger_invalidate_all :: "damage_ledger \<Rightarrow> damage_ledger" where
  "ledger_invalidate_all g = g\<lparr>debts := [rl_from_one (full_rect g), rl_from_one (full_rect g)]\<rparr>"

definition ledger_invalid_bytes :: "damage_ledger \<Rightarrow> nat \<Rightarrow> nat option" where
  "ledger_invalid_bytes g slot = map_option total_rgb565_bytes (ledger_plan g slot)"

section \<open>What a list covers\<close>

definition covers :: "rect_list \<Rightarrow> nat \<Rightarrow> nat \<Rightarrow> bool" where
  "covers l x y \<longleftrightarrow> (\<exists>r \<in> set (rl_iter l). in_rect r x y)"

text \<open>A list is well formed when its array has its size and counts no more than it holds.\<close>

definition rl_ok :: "rect_list \<Rightarrow> bool" where
  "rl_ok l \<longleftrightarrow> length (rl_rects l) = DIRTY_RECT_LIST_CAP \<and> rl_len l \<le> DIRTY_RECT_LIST_CAP"

lemma rl_ok_new [simp]: "rl_ok rl_new" "rl_iter rl_new = []"
  by (simp_all add: rl_ok_def rl_new_def rl_iter_def)

lemma rl_clear_simps [simp]: "rl_iter (rl_clear l) = []" "rl_ok l \<Longrightarrow> rl_ok (rl_clear l)"
  by (simp_all add: rl_clear_def rl_iter_def rl_ok_def)

lemma try_push_True:
  assumes "rl_try_push l r = (True, l')" "rl_ok l"
  shows "rl_iter l' = rl_iter l @ [r]" "rl_ok l'" "rl_len l' = Suc (rl_len l)"
  using assms by (auto simp: rl_try_push_def rl_ok_def rl_iter_def take_Suc_conv_app_nth split: if_splits)

lemma try_push_all_True:
  "rl_try_push_all l rs = (True, l') \<Longrightarrow> rl_ok l \<Longrightarrow> rl_iter l' = rl_iter l @ rs \<and> rl_ok l'"
proof (induction rs arbitrary: l)
  case (Cons r rs)
  then obtain l1 where l1: "rl_try_push l r = (True, l1)" "rl_try_push_all l1 rs = (True, l')"
    by (auto split: prod.splits bool.splits)
  from try_push_True [OF l1(1) Cons.prems(2)] Cons.IH [OF l1(2)] show ?case
    by simp
qed simp

lemma push_covers:
  assumes "rl_ok l"
  shows "rl_ok (rl_push l r)" "covers l x y \<or> in_rect r x y \<Longrightarrow> covers (rl_push l r) x y"
proof -
  have *: "rl_ok (rl_push l r) \<and> (covers l x y \<or> in_rect r x y \<longrightarrow> covers (rl_push l r) x y)"
  proof (cases "rect_is_empty r")
    case True
    then show ?thesis
      using assms not_in_empty [of r x y] by (simp add: rl_push_def)
  next
    case False
    show ?thesis
    proof (cases "rl_len l = DIRTY_RECT_LIST_CAP")
      case True
      then have iter: "rl_iter l = rl_rects l" and cap: "length (rl_rects l) = 32"
        using assms by (simp_all add: rl_ok_def rl_iter_def DIRTY_RECT_LIST_CAP_def)
      let ?u = "rect_union (rl_rects l ! 31) r"
      have push: "rl_push l r = l\<lparr>rl_rects := (rl_rects l)[31 := ?u]\<rparr>"
        using True False by (simp add: rl_push_def rl_try_push_def DIRTY_RECT_LIST_CAP_def)
      have "\<exists>q \<in> set ((rl_rects l)[31 := ?u]). in_rect q x y" if p: "in_rect p x y" "p \<in> set (rl_rects l)" for p
      proof -
        obtain i where i: "i < 32" "p = rl_rects l ! i"
          using p(2) cap by (auto simp: in_set_conv_nth)
        then have "in_rect ((rl_rects l)[31 := ?u] ! i) x y"
          using p(1) in_rect_union cap by (cases "i = 31") auto
        then show ?thesis
          using i(1) cap by (intro bexI [of _ "(rl_rects l)[31 := ?u] ! i"]) simp_all
      qed
      moreover have "?u \<in> set ((rl_rects l)[31 := ?u])"
        using cap by (simp add: set_update_memI)
      ultimately show ?thesis
        using assms in_rect_union [of _ x y r] True cap
        by (auto simp: push covers_def rl_iter_def rl_ok_def DIRTY_RECT_LIST_CAP_def)
    next
      case False
      then obtain l' where l': "rl_try_push l r = (True, l')"
        by (simp add: rl_try_push_def)
      then have "rl_push l r = l'"
        using \<open>\<not> rect_is_empty r\<close> by (simp add: rl_push_def)
      then show ?thesis
        using try_push_True [OF l' assms] by (auto simp: covers_def)
    qed
  qed
  from * show "rl_ok (rl_push l r)" by simp
  from * show "covers l x y \<or> in_rect r x y \<Longrightarrow> covers (rl_push l r) x y" by simp
qed

lemma push_exact:
  assumes "rl_ok l" "rl_len l < DIRTY_RECT_LIST_CAP"
  shows "covers (rl_push l r) x y \<longleftrightarrow> covers l x y \<or> in_rect r x y"
    and "rl_iter (rl_push l r) = rl_iter l @ (if rect_is_empty r then [] else [r])"
proof -
  obtain l' where l': "rl_try_push l r = (True, l')"
    using assms(2) by (simp add: rl_try_push_def)
  then show iter: "rl_iter (rl_push l r) = rl_iter l @ (if rect_is_empty r then [] else [r])"
    using try_push_True [OF l' assms(1)] by (simp add: rl_push_def)
  show "covers (rl_push l r) x y \<longleftrightarrow> covers l x y \<or> in_rect r x y"
    using not_in_empty [of r x y] by (auto simp: covers_def iter)
qed

lemma from_one [simp]:
  "rl_ok (rl_from_one r)" "covers (rl_from_one r) x y \<longleftrightarrow> in_rect r x y"
  "rl_iter (rl_from_one r) = (if rect_is_empty r then [] else [r])"
proof -
  have new: "rl_ok rl_new" "rl_len rl_new < DIRTY_RECT_LIST_CAP" "\<not> covers rl_new x y"
    by (simp_all add: rl_new_def DIRTY_RECT_LIST_CAP_def rl_ok_def covers_def rl_iter_def)
  then show "rl_ok (rl_from_one r)"
    by (simp add: rl_from_one_def push_covers)
  show "covers (rl_from_one r) x y \<longleftrightarrow> in_rect r x y"
    using push_exact(1) [OF new(1,2)] new(3) by (simp add: rl_from_one_def)
  show "rl_iter (rl_from_one r) = (if rect_is_empty r then [] else [r])"
    using push_exact(2) [OF new(1,2)] by (simp add: rl_from_one_def)
qed

section \<open>Canonical lists\<close>

text \<open>Every rectangle lies inside the surface and none covers another.\<close>

definition canonical :: "dirty_rect \<Rightarrow> rect_list \<Rightarrow> bool" where
  "canonical full l \<longleftrightarrow> rl_ok l \<and> (\<forall>r \<in> set (rl_iter l). rect_contains full r \<and> \<not> rect_is_empty r) \<and>
     sorted_wrt (\<lambda>r r'. \<not> rect_contains r r' \<and> \<not> rect_contains r' r) (rl_iter l)"

lemma canonical_from_one: "canonical full (rl_from_one full)"
  by (simp add: canonical_def rect_contains_def)

lemma canonical_clear: "rl_ok l \<Longrightarrow> canonical full (rl_clear l)"
  by (simp add: canonical_def)

lemma canonical_within: "canonical full l \<Longrightarrow> covers l x y \<Longrightarrow> in_rect full x y"
  by (auto simp: canonical_def covers_def intro: in_rect_contains)

lemma intersection_within: "rect_intersection r full = Some i \<Longrightarrow> rect_contains full i"
  by (auto simp: rect_intersection_def rect_contains_def Let_def split: if_splits)

lemma add_canonical:
  assumes "canonical full l"
  shows "canonical full (rl_add_canonical l r full)"
    and "covers l x y \<or> in_rect r x y \<and> in_rect full x y \<Longrightarrow> covers (rl_add_canonical l r full) x y"
    and "rl_add_canonical l r full \<noteq> rl_from_one full \<Longrightarrow>
      covers (rl_add_canonical l r full) x y \<Longrightarrow> covers l x y \<or> in_rect r x y \<and> in_rect full x y"
proof -
  have ok: "rl_ok l" and l: "\<forall>r \<in> set (rl_iter l). rect_contains full r \<and> \<not> rect_is_empty r"
    and sorted: "sorted_wrt (\<lambda>r r'. \<not> rect_contains r r' \<and> \<not> rect_contains r' r) (rl_iter l)"
    using assms by (simp_all add: canonical_def)
  have full_covers: "covers l x y \<Longrightarrow> in_rect full x y"
    using assms by (rule canonical_within)
  have *: "canonical full (rl_add_canonical l r full) \<and>
      (covers l x y \<or> in_rect r x y \<and> in_rect full x y \<longrightarrow> covers (rl_add_canonical l r full) x y) \<and>
      (rl_add_canonical l r full \<noteq> rl_from_one full \<longrightarrow> covers (rl_add_canonical l r full) x y \<longrightarrow>
        covers l x y \<or> in_rect r x y \<and> in_rect full x y)"
  proof (cases "rect_intersection r full")
    case None
    then show ?thesis
      using assms rect_intersection_None [OF None, of x y] by (auto simp: rl_add_canonical_def)
  next
    case (Some i)
    note i = in_rect_intersection [OF Some, of x y] rect_intersection_nonempty [OF Some] intersection_within [OF Some]
    let ?kept = "filter (\<lambda>existing. \<not> rect_contains i existing) (rl_iter l)"
    show ?thesis
    proof (cases "list_ex (\<lambda>existing. rect_contains existing i) (rl_iter l)")
      case True
      then obtain e where "e \<in> set (rl_iter l)" "rect_contains e i"
        by (auto simp: list_ex_iff)
      then have "in_rect i x y \<Longrightarrow> covers l x y"
        by (auto simp: covers_def intro: in_rect_contains)
      then show ?thesis
        using assms Some True i by (auto simp: rl_add_canonical_def)
    next
      case False
      then have apart: "\<forall>e \<in> set (rl_iter l). \<not> rect_contains e i"
        by (auto simp: list_ex_iff)
      show ?thesis
      proof (cases "rl_add_canonical l r full = rl_from_one full")
        case True
        then show ?thesis
          using canonical_from_one full_covers by simp
      next
        case no_collapse: False
        obtain l1 l2 where l1: "rl_try_push_all (rl_clear l) ?kept = (True, l1)"
          and l2: "rl_try_push l1 i = (True, l2)" "rl_add_canonical l r full = l2"
          using Some False no_collapse by (auto simp: rl_add_canonical_def split: prod.splits bool.splits)
        have iter: "rl_iter l2 = ?kept @ [i]" "rl_ok l2"
          using try_push_all_True [OF l1] try_push_True [OF l2(1)] ok by simp_all
        have "sorted_wrt (\<lambda>r r'. \<not> rect_contains r r' \<and> \<not> rect_contains r' r) (rl_iter l2)"
          using sorted apart by (auto simp: iter sorted_wrt_append sorted_wrt_filter)
        moreover have "covers l2 x y \<longleftrightarrow> covers l x y \<or> in_rect i x y"
          by (auto simp: covers_def iter intro: in_rect_contains)
        ultimately show ?thesis
          using l i iter by (auto simp: l2(2) canonical_def)
      qed
    qed
  qed
  from * show "canonical full (rl_add_canonical l r full)"
    and "covers l x y \<or> in_rect r x y \<and> in_rect full x y \<Longrightarrow> covers (rl_add_canonical l r full) x y"
    and "rl_add_canonical l r full \<noteq> rl_from_one full \<Longrightarrow>
      covers (rl_add_canonical l r full) x y \<Longrightarrow> covers l x y \<or> in_rect r x y \<and> in_rect full x y"
    by simp_all
qed

lemma extend_loop:
  assumes "canonical full l"
  shows "canonical full (extend_canonical_loop l rs full) \<and>
    (covers l x y \<or> (\<exists>r \<in> set rs. in_rect r x y) \<and> in_rect full x y \<longrightarrow>
      covers (extend_canonical_loop l rs full) x y) \<and>
    (extend_canonical_loop l rs full \<noteq> rl_from_one full \<longrightarrow> covers (extend_canonical_loop l rs full) x y \<longrightarrow>
      covers l x y \<or> (\<exists>r \<in> set rs. in_rect r x y) \<and> in_rect full x y)"
  using assms
proof (induction rs arbitrary: l)
  case (Cons r rs)
  note add = add_canonical(1) [OF Cons.prems, of r] add_canonical(2,3) [OF Cons.prems, where x = x and y = y and r = r]
  show ?case
  proof (cases "rl_add_canonical l r full = rl_from_one full")
    case True
    then show ?thesis
      using canonical_from_one canonical_within [OF Cons.prems] by auto
  next
    case False
    then have step: "extend_canonical_loop l (r # rs) full = extend_canonical_loop (rl_add_canonical l r full) rs full"
      by (simp add: Let_def)
    show ?thesis
      unfolding step using Cons.IH [OF add(1)] add(2) add(3) [OF False] by auto
  qed
qed simp

lemma extend_canonical:
  assumes "canonical full l"
  shows "canonical full (rl_extend_canonical l damage full)"
    and "covers l x y \<or> covers damage x y \<and> in_rect full x y \<Longrightarrow> covers (rl_extend_canonical l damage full) x y"
    and "rl_extend_canonical l damage full \<noteq> rl_from_one full \<Longrightarrow>
      covers (rl_extend_canonical l damage full) x y \<Longrightarrow> covers l x y \<or> covers damage x y \<and> in_rect full x y"
  using extend_loop [OF assms, of "rl_iter damage" x y]
  by (simp_all add: rl_extend_canonical_def covers_def)

section \<open>Subtraction covers the difference\<close>

lemma subtract_parts_covers:
  assumes "rect_intersection r c = Some overlap"
  shows "(\<exists>p \<in> set (subtract_parts r overlap). in_rect p x y) \<longleftrightarrow> in_rect r x y \<and> \<not> in_rect c x y"
proof -
  have o: "x0 r \<le> x0 overlap" "x1 overlap \<le> x1 r" "y0 r \<le> y0 overlap" "y1 overlap \<le> y1 r"
      "x0 overlap < x1 overlap" "y0 overlap < y1 overlap"
    using assms by (auto simp: rect_intersection_def Let_def split: if_splits)
  have "in_rect overlap x y \<longleftrightarrow> in_rect r x y \<and> in_rect c x y"
    by (rule in_rect_intersection [OF assms])
  moreover have "(\<exists>p \<in> set (subtract_parts r overlap). in_rect p x y) \<longleftrightarrow> in_rect r x y \<and> \<not> in_rect overlap x y"
  proof -
    consider "y < y0 overlap" | "y1 overlap \<le> y" | "y0 overlap \<le> y" "y < y1 overlap" "x < x0 overlap"
      | "y0 overlap \<le> y" "y < y1 overlap" "x1 overlap \<le> x" | "y0 overlap \<le> y" "y < y1 overlap" "x0 overlap \<le> x" "x < x1 overlap"
      by linarith
    then show ?thesis
      using o by cases (auto simp: subtract_parts_def in_rect_def)
  qed
  ultimately show ?thesis
    by blast
qed

lemma subtract_into_covers:
  assumes "subtract_rect_into r c out = (True, out')" "rl_ok out"
  shows "rl_ok out'" "covers out' x y \<longleftrightarrow> covers out x y \<or> in_rect r x y \<and> \<not> in_rect c x y"
proof -
  have *: "rl_ok out' \<and> (covers out' x y \<longleftrightarrow> covers out x y \<or> in_rect r x y \<and> \<not> in_rect c x y)"
  proof (cases "rect_intersection r c")
    case None
    then show ?thesis
      using assms try_push_True [of out r out'] rect_intersection_None [OF None, of x y]
      by (auto simp: subtract_rect_into_def covers_def)
  next
    case (Some overlap)
    then have "rl_try_push_all out (subtract_parts r overlap) = (True, out')"
      using assms(1) by (simp add: subtract_rect_into_def)
    from try_push_all_True [OF this assms(2)] show ?thesis
      using subtract_parts_covers [OF Some, of x y] by (auto simp: covers_def)
  qed
  from * show "rl_ok out'" "covers out' x y \<longleftrightarrow> covers out x y \<or> in_rect r x y \<and> \<not> in_rect c x y"
    by simp_all
qed

lemma subtract_all_covers:
  "subtract_all_into rs c out = (True, out') \<Longrightarrow> rl_ok out \<Longrightarrow>
   rl_ok out' \<and> (covers out' x y \<longleftrightarrow> covers out x y \<or> (\<exists>r \<in> set rs. in_rect r x y) \<and> \<not> in_rect c x y)"
proof (induction rs arbitrary: out)
  case (Cons r rs)
  then obtain out1 where "subtract_rect_into r c out = (True, out1)" "subtract_all_into rs c out1 = (True, out')"
    by (auto split: prod.splits bool.splits)
  with subtract_into_covers(1) [OF this(1) Cons.prems(2)] subtract_into_covers(2) [OF this(1) Cons.prems(2), of x y]
    Cons.IH [OF this(2)] show ?case
    by auto
qed auto

lemma subtract_loop_covers:
  assumes "rl_ok current" "rl_ok scratch"
  shows "subtract_loop original current scratch cuts = original \<or>
    rl_ok (subtract_loop original current scratch cuts) \<and>
    (\<forall>x y. covers (subtract_loop original current scratch cuts) x y \<longleftrightarrow>
      covers current x y \<and> \<not> (\<exists>c \<in> set cuts. in_rect c x y))"
  using assms
proof (induction cuts arbitrary: current scratch)
  case (Cons c cuts)
  obtain good out where out: "subtract_all_into (rl_iter current) c (rl_clear scratch) = (good, out)"
    by (cases "subtract_all_into (rl_iter current) c (rl_clear scratch)")
  show ?case
  proof (cases good)
    case True
    have step: "rl_ok out" "covers out x y \<longleftrightarrow> covers current x y \<and> \<not> in_rect c x y" for x y
      using subtract_all_covers [of "rl_iter current" c "rl_clear scratch" out x y] out True Cons.prems
      by (auto simp: covers_def)
    show ?thesis
    proof (cases "rl_is_empty out")
      case True
      then have "\<not> covers out x y" for x y
        by (simp add: rl_is_empty_def covers_def rl_iter_def)
      then show ?thesis
        using True out \<open>good\<close> step by auto
    next
      case False
      then show ?thesis
        using Cons.IH [OF step(1) Cons.prems(1)] out \<open>good\<close> step(2) by auto
    qed
  qed (use out in simp)
qed simp

text \<open>
  Subtracting rectangles leaves exactly the difference. The result of \<open>subtract_dirty_rects\<close>
  covers a pixel exactly when the minuend covers it and no cut does; only when the pieces do not fit
  into the 32 rectangles of a list is the minuend returned unchanged, which covers at least that.
\<close>

theorem subtraction_covers_difference:
  assumes "rl_ok rects"
  shows "subtract_dirty_rects rects cuts = rects \<or>
    (\<forall>x y. covers (subtract_dirty_rects rects cuts) x y \<longleftrightarrow> covers rects x y \<and> \<not> covers cuts x y)"
  using subtract_loop_covers [OF assms rl_ok_new(1), of rects "rl_iter cuts"]
  unfolding subtract_dirty_rects_def covers_def [of cuts] by blast

section \<open>The ledger refines the set of stale pixels\<close>

datatype ledger_op =
    RecordDamage rect_list
  | MarkPresented nat
  | MarkAttemptFailed nat
  | InvalidateAll

fun ledger_op_on :: "damage_ledger \<Rightarrow> ledger_op \<Rightarrow> damage_ledger option" where
  "ledger_op_on g (RecordDamage damage) = Some (record_damage g damage)"
| "ledger_op_on g (MarkPresented slot) = ledger_presented g slot"
| "ledger_op_on g (MarkAttemptFailed slot) = ledger_attempt_failed g slot"
| "ledger_op_on g InvalidateAll = Some (ledger_invalidate_all g)"

fun valid_slots :: "ledger_op \<Rightarrow> bool" where
  "valid_slots (MarkPresented slot) \<longleftrightarrow> slot \<in> {1, 2}"
| "valid_slots (MarkAttemptFailed slot) \<longleftrightarrow> slot \<in> {1, 2}"
| "valid_slots _ \<longleftrightarrow> True"

text \<open>
  The specification: for each slot the pixels in which it may differ from the surface - everything at
  first and after a failure, nothing after a presentation, and the damaged pixels as they are recorded.
\<close>

type_synonym stale_pixels = "nat \<Rightarrow> (nat \<times> nat) set"

definition surface_pixels :: "dirty_rect \<Rightarrow> (nat \<times> nat) set" where
  "surface_pixels full = {(x, y). in_rect full x y}"

fun stale_step :: "dirty_rect \<Rightarrow> stale_pixels \<Rightarrow> ledger_op \<Rightarrow> stale_pixels" where
  "stale_step full st (RecordDamage damage) =
     (\<lambda>slot. st slot \<union> {(x, y). covers damage x y \<and> in_rect full x y})"
| "stale_step full st (MarkPresented slot) = st(slot := {})"
| "stale_step full st (MarkAttemptFailed slot) = st(slot := surface_pixels full)"
| "stale_step full st InvalidateAll = (\<lambda>_. surface_pixels full)"

definition ledger_ok :: "damage_ledger \<Rightarrow> bool" where
  "ledger_ok g \<longleftrightarrow> length (debts g) = 2 \<and> (\<forall>debt \<in> set (debts g). canonical (full_rect g) debt)"

definition owes_stale :: "damage_ledger \<Rightarrow> stale_pixels \<Rightarrow> bool" where
  "owes_stale g st \<longleftrightarrow> ledger_ok g \<and>
     (\<forall>slot o1. slot_offset slot = Some o1 \<longrightarrow> (\<forall>(x, y) \<in> st slot. covers (debts g ! o1) x y))"

lemma slot_offset_less: "slot_offset slot = Some o1 \<Longrightarrow> o1 < 2"
  by (auto simp: slot_offset_def split: if_splits)

lemma slot_offset_inject: "slot_offset slot = Some o1 \<Longrightarrow> slot_offset slot' = Some o1 \<Longrightarrow> slot = slot'"
  by (auto simp: slot_offset_def split: if_splits)

lemma slot_offset_valid: "slot \<in> {1, 2} \<Longrightarrow> \<exists>o1. slot_offset slot = Some o1"
  by (auto simp: slot_offset_def)

lemma owes_stale_new: "owes_stale (ledger_new w h) (\<lambda>_. surface_pixels (full_rect (ledger_new w h)))"
  using canonical_from_one slot_offset_less
  by (auto simp: owes_stale_def ledger_ok_def ledger_new_def Let_def surface_pixels_def nth_Cons' less_2_cases_iff)

lemma owes_stale_update:
  assumes "owes_stale g st" "slot_offset slot = Some o1" "canonical (full_rect g) debt"
    "\<forall>(x, y) \<in> pixels. covers debt x y"
  shows "owes_stale (g\<lparr>debts := (debts g)[o1 := debt]\<rparr>) (st(slot := pixels))"
proof -
  have "canonical (full_rect g) d" if "d \<in> set ((debts g)[o1 := debt])" for d
    using assms(1,3) that set_update_subset_insert by (fastforce simp: owes_stale_def ledger_ok_def)
  moreover have "\<forall>(x, y) \<in> (st(slot := pixels)) slot'. covers ((debts g)[o1 := debt] ! o2) x y"
    if o2: "slot_offset slot' = Some o2" for slot' o2
  proof (cases "slot' = slot")
    case True
    then have "o2 = o1"
      using assms(2) o2 by simp
    then show ?thesis
      using True assms(1,4) slot_offset_less [OF assms(2)] by (simp add: owes_stale_def ledger_ok_def)
  next
    case False
    then have "o2 \<noteq> o1"
      using slot_offset_inject [OF assms(2)] o2 by blast
    then show ?thesis
      using False assms(1) o2 unfolding owes_stale_def by simp
  qed
  ultimately show ?thesis
    using assms(1) by (simp add: owes_stale_def ledger_ok_def)
qed

lemma owes_stale_step:
  assumes "owes_stale g st" "valid_slots op1"
  shows "\<exists>g'. ledger_op_on g op1 = Some g' \<and> full_rect g' = full_rect g \<and> owes_stale g' (stale_step (full_rect g) st op1)"
proof (cases op1)
  case (RecordDamage damage)
  have debts: "length (debts g) = 2" "\<And>o1. o1 < 2 \<Longrightarrow> canonical (full_rect g) (debts g ! o1)"
    using assms(1) by (simp_all add: owes_stale_def ledger_ok_def)
  have "covers (debts (record_damage g damage) ! o1) x y"
    if o1: "slot_offset slot = Some o1" and xy: "(x, y) \<in> stale_step (full_rect g) st (RecordDamage damage) slot"
    for slot o1 x y
  proof -
    have "(x, y) \<in> st slot \<Longrightarrow> covers (debts g ! o1) x y"
      using assms(1) o1 unfolding owes_stale_def by blast
    then have "covers (rl_extend_canonical (debts g ! o1) damage (full_rect g)) x y"
      using xy debts(2) [OF slot_offset_less [OF o1]] by (intro extend_canonical(2)) auto
    then show ?thesis
      using debts(1) slot_offset_less [OF o1] by (simp add: record_damage_def)
  qed
  moreover have "ledger_ok (record_damage g damage)"
    using assms(1) extend_canonical(1) by (auto simp: owes_stale_def ledger_ok_def record_damage_def)
  ultimately have "owes_stale (record_damage g damage) (stale_step (full_rect g) st (RecordDamage damage))"
    unfolding owes_stale_def by blast
  then show ?thesis
    using RecordDamage by (simp add: record_damage_def)
next
  case (MarkPresented slot)
  then obtain o1 where o1: "slot_offset slot = Some o1"
    using assms(2) slot_offset_valid by auto
  have "rl_ok (debts g ! o1)"
    using assms(1) slot_offset_less [OF o1] by (auto simp: owes_stale_def ledger_ok_def canonical_def)
  then show ?thesis
    using owes_stale_update [OF assms(1) o1 canonical_clear, of "debts g ! o1" "{}"] MarkPresented o1
    by (simp add: ledger_presented_def)
next
  case (MarkAttemptFailed slot)
  then obtain o1 where o1: "slot_offset slot = Some o1"
    using assms(2) slot_offset_valid by auto
  show ?thesis
    using owes_stale_update [OF assms(1) o1 canonical_from_one, of "surface_pixels (full_rect g)"] MarkAttemptFailed o1
    by (auto simp: ledger_attempt_failed_def ledger_invalidate_slot_def surface_pixels_def)
next
  case InvalidateAll
  then show ?thesis
    using canonical_from_one slot_offset_less
    by (auto simp: ledger_invalidate_all_def owes_stale_def ledger_ok_def surface_pixels_def nth_Cons' less_2_cases_iff)
qed

text \<open>Ledger and specification side by side; a panic of the ledger stops the run.\<close>

definition paired_step ::
  "damage_ledger option \<times> stale_pixels \<Rightarrow> ledger_op \<Rightarrow> damage_ledger option \<times> stale_pixels" where
  "paired_step s op1 =
     (case s of
        (None, st) \<Rightarrow> (None, st)
      | (Some g, st) \<Rightarrow> (ledger_op_on g op1, stale_step (full_rect g) st op1))"

lemma paired_step_simps [simp]:
  "paired_step (None, st) op1 = (None, st)"
  "paired_step (Some g, st) op1 = (ledger_op_on g op1, stale_step (full_rect g) st op1)"
  by (simp_all add: paired_step_def)

definition paired_inv :: "dirty_rect \<Rightarrow> damage_ledger option \<times> stale_pixels \<Rightarrow> bool" where
  "paired_inv full s \<longleftrightarrow> (\<exists>g. fst s = Some g \<and> full_rect g = full \<and> owes_stale g (snd s))"

interpretation ledger_machine: machine paired_step "\<lambda>_ op1. valid_slots op1" "paired_inv full"
proof unfold_locales
  fix s op1
  assume "paired_inv full s" "valid_slots op1"
  then obtain g st where s: "s = (Some g, st)" "full_rect g = full" "owes_stale g st"
    by (cases s) (auto simp: paired_inv_def)
  from owes_stale_step [OF s(3) \<open>valid_slots op1\<close>] s(1,2) show "paired_inv full (paired_step s op1)"
    by (auto simp: paired_inv_def)
qed

lemma run_paired:
  "fst (run_steps paired_step (Some g, st) ops) =
     run_steps (\<lambda>g op1. Option.bind g (\<lambda>g. ledger_op_on g op1)) (Some g) ops"
proof (induction ops arbitrary: g st)
  case (Cons op1 ops)
  have "run_steps (\<lambda>g op1. Option.bind g (\<lambda>g. ledger_op_on g op1)) None ops = None"
    by (induction ops) simp_all
  moreover have "fst (run_steps paired_step (None, st) ops) = None" for st
    by (induction ops arbitrary: st) simp_all
  ultimately show ?case
    using Cons by (cases "ledger_op_on g op1") simp_all
qed simp

text \<open>
  C6: A slot never owes less than what is stale on it. Run the ledger through any recordings of damage,
  presentations, failed attempts and invalidations of the slots 1 and 2: it does not panic, and for each
  slot the plan covers every pixel of the surface that was damaged since the slot was last presented -
  and the whole surface if it never was, or if the last attempt on it failed - whatever the number of
  rectangles, even when they no longer fit the list; the plan stays inside the surface and holds no
  rectangle that another one contains.
\<close>

theorem plans_cover_stale_pixels:
  fixes w h :: nat and ops :: "ledger_op list"
  assumes "list_all valid_slots ops"
  defines "full \<equiv> \<lparr>x0 = 0, y0 = 0, x1 = w, y1 = h\<rparr>"
  defines "st \<equiv> run_steps (stale_step full) (\<lambda>_. surface_pixels full) ops"
  shows "\<exists>g. run_steps (\<lambda>g op1. Option.bind g (\<lambda>g. ledger_op_on g op1)) (Some (ledger_new w h)) ops = Some g \<and>
    (\<forall>slot \<in> {1, 2}. \<exists>plan. ledger_plan g slot = Some plan \<and> canonical full plan \<and>
       (\<forall>x y. (x, y) \<in> st slot \<longrightarrow> covers plan x y) \<and> (\<forall>x y. covers plan x y \<longrightarrow> x < w \<and> y < h))"
proof -
  let ?s = "run_steps paired_step (Some (ledger_new w h), \<lambda>_. surface_pixels full) ops"
  have new: "full_rect (ledger_new w h) = full"
    by (simp add: ledger_new_def full_def Let_def)
  have "run_allowed paired_step (\<lambda>_ op1. valid_slots op1) s ops" for s
    using assms(1) by (induction ops arbitrary: s) simp_all
  then have "paired_inv full ?s"
    using owes_stale_new [of w h] new by (intro ledger_machine.run_inv) (auto simp: paired_inv_def)
  then obtain g where g: "fst ?s = Some g" "full_rect g = full" "owes_stale g (snd ?s)"
    by (auto simp: paired_inv_def)
  have "snd (run_steps paired_step (Some g, st) ops) = run_steps (stale_step full) st ops"
    if "full_rect g = full" "owes_stale g st" "list_all valid_slots ops" for g st ops
    using that
  proof (induction ops arbitrary: g st)
    case (Cons op1 ops)
    then obtain g' where "ledger_op_on g op1 = Some g'" "full_rect g' = full" "owes_stale g' (stale_step full st op1)"
      using owes_stale_step [of g st op1] by auto
    with Cons show ?case
      by simp
  qed simp
  then have st: "snd ?s = st"
    using owes_stale_new [of w h] new assms(1) by (simp add: st_def)
  show ?thesis
  proof (intro exI [of _ g] conjI ballI)
    show "run_steps (\<lambda>g op1. Option.bind g (\<lambda>g. ledger_op_on g op1)) (Some (ledger_new w h)) ops = Some g"
      using g(1) by (simp add: run_paired)
    fix slot :: nat
    assume "slot \<in> {1, 2}"
    then obtain o1 where o1: "slot_offset slot = Some o1"
      using slot_offset_valid by blast
    then have "canonical full (debts g ! o1)" "\<forall>(x, y) \<in> st slot. covers (debts g ! o1) x y"
      using g(2,3) st slot_offset_less [OF o1] by (auto simp: owes_stale_def ledger_ok_def)
    then show "\<exists>plan. ledger_plan g slot = Some plan \<and> canonical full plan \<and>
       (\<forall>x y. (x, y) \<in> st slot \<longrightarrow> covers plan x y) \<and> (\<forall>x y. covers plan x y \<longrightarrow> x < w \<and> y < h)"
      using canonical_within by (fastforce simp: ledger_plan_def o1 full_def in_rect_def)
  qed
qed

section \<open>Witnesses\<close>

definition sample_rect :: dirty_rect where
  "sample_rect = \<lparr>x0 = 2, y0 = 3, x1 = 6, y1 = 8\<rparr>"

theorem subtraction_covers_difference_witness:
  "subtract_dirty_rects (rl_from_one sample_rect) (rl_from_one \<lparr>x0 = 3, y0 = 0, x1 = 4, y1 = 9\<rparr>) \<noteq> rl_from_one sample_rect \<and>
   \<not> covers (subtract_dirty_rects (rl_from_one sample_rect) (rl_from_one \<lparr>x0 = 3, y0 = 0, x1 = 4, y1 = 9\<rparr>)) 3 5"
proof -
  have "rl_iter (subtract_dirty_rects (rl_from_one sample_rect) (rl_from_one \<lparr>x0 = 3, y0 = 0, x1 = 4, y1 = 9\<rparr>)) \<noteq>
      rl_iter (rl_from_one sample_rect)"
    by code_simp
  then have "subtract_dirty_rects (rl_from_one sample_rect) (rl_from_one \<lparr>x0 = 3, y0 = 0, x1 = 4, y1 = 9\<rparr>) \<noteq>
      rl_from_one sample_rect"
    by metis
  then show ?thesis
    using subtraction_covers_difference [OF from_one(1), of sample_rect "rl_from_one \<lparr>x0 = 3, y0 = 0, x1 = 4, y1 = 9\<rparr>"]
    by (simp add: in_rect_def)
qed

theorem plans_cover_stale_pixels_witness:
  "\<exists>g plan. run_steps (\<lambda>g op1. Option.bind g (\<lambda>g. ledger_op_on g op1)) (Some (ledger_new 20 10))
       [MarkPresented 1, RecordDamage (rl_from_one sample_rect)] = Some g \<and>
     ledger_plan g 1 = Some plan \<and> covers plan 4 5"
proof -
  have "list_all valid_slots [MarkPresented 1, RecordDamage (rl_from_one sample_rect)]"
    by simp
  from plans_cover_stale_pixels [OF this, of 20 10] obtain g plan where
    g: "run_steps (\<lambda>g op1. Option.bind g (\<lambda>g. ledger_op_on g op1)) (Some (ledger_new 20 10))
       [MarkPresented 1, RecordDamage (rl_from_one sample_rect)] = Some g" "ledger_plan g 1 = Some plan"
    and plan: "(4, 5) \<in> run_steps (stale_step \<lparr>x0 = 0, y0 = 0, x1 = 20, y1 = 10\<rparr>)
        (\<lambda>_. surface_pixels \<lparr>x0 = 0, y0 = 0, x1 = 20, y1 = 10\<rparr>)
        [MarkPresented 1, RecordDamage (rl_from_one sample_rect)] 1 \<longrightarrow> covers plan 4 5"
    by blast
  have "covers plan 4 5"
    using plan by (simp add: sample_rect_def in_rect_def)
  with g show ?thesis
    by blast
qed

end
