(* ===== verification/Vertical_Scale.thy ===== *)
theory Vertical_Scale
  imports Damage
begin

text \<open>
  Copying a rectangle of the rendered frame into a scanout slot of another height
  (\<open>mister/platform/runtime/src/framebuffer/vertical_scale.rs\<close>).
\<close>

section \<open>Slices\<close>

text \<open>\<open>destination[to..to + n].copy_from_slice(&source[from..from + n])\<close>; out of range panics.\<close>

definition copy_slice :: "'p list \<Rightarrow> nat \<Rightarrow> 'p list \<Rightarrow> nat \<Rightarrow> nat \<Rightarrow> 'p list option" where
  "copy_slice destination to source from n =
     (if to + n \<le> length destination \<and> from + n \<le> length source
      then Some (take to destination @ take n (drop from source) @ drop (to + n) destination) else None)"

lemma length_copy_slice: "copy_slice d to s from n = Some d' \<Longrightarrow> length d' = length d"
  by (auto simp: copy_slice_def split: if_splits)

lemma nth_copy_slice:
  assumes "copy_slice d to s from n = Some d'" "i < length d"
  shows "d' ! i = (if to \<le> i \<and> i < to + n then s ! (from + (i - to)) else d ! i)"
proof -
  have room: "to + n \<le> length d" "from + n \<le> length s"
    and d': "d' = take to d @ take n (drop from s) @ drop (to + n) d"
    using assms(1) by (auto simp: copy_slice_def split: if_splits)
  have len: "length (take to d) = to" "length (take n (drop from s)) = n"
    using room by simp_all
  consider "i < to" | "to \<le> i" "i < to + n" | "to + n \<le> i"
    by linarith
  then show ?thesis
  proof cases
    case 1
    then show ?thesis
      using len(1) by (simp add: d' nth_append)
  next
    case 2
    then have "i - to < n"
      by simp
    then show ?thesis
      using 2 len room(2) by (simp add: d' nth_append)
  next
    case 3
    have "\<not> i - to < n" "i - to - n = i - (to + n)" "\<not> i < to"
      using 3 by simp_all
    then show ?thesis
      unfolding d' nth_append len using 3 room(1) by simp
  qed
qed

lemma copy_slice_fits: "to + n \<le> length d \<Longrightarrow> from + n \<le> length s \<Longrightarrow> \<exists>d'. copy_slice d to s from n = Some d'"
  by (simp add: copy_slice_def)

section \<open>The transform\<close>

datatype vertical_sampling = CenteredNearest | TopAlignedNearest

datatype vertical_error =
    GeometryZero | TransformSourceOverflow | TransformDestinationOverflow
  | DestinationStrideNarrow | DestinationOverflow | DestinationTooSmall
  | SourceMismatch | SourceStrideNarrow | SourceOverflow | SourceTooSmall | DestinationRowOutside

record vertical_transform =
  vt_width :: nat
  vt_source_height :: nat
  vt_destination_height :: nat
  vt_sampling :: vertical_sampling

record 'p frame_view =
  fv_pixels :: "'p list"
  fv_width :: nat
  fv_height :: nat
  fv_stride :: nat

record vertical_copy_stats =
  vc_destination_rect :: dirty_rect
  vc_bytes :: nat

definition new_with_sampling :: "nat \<Rightarrow> nat \<Rightarrow> nat \<Rightarrow> vertical_sampling \<Rightarrow> vertical_error + vertical_transform" where
  "new_with_sampling w source_height destination_height sampling =
     (if w = 0 \<or> source_height = 0 \<or> destination_height = 0 then Inl GeometryZero
      else if Option.bind (checked_mul w source_height) (\<lambda>p. checked_mul p 2) = None
      then Inl TransformSourceOverflow
      else if Option.bind (checked_mul w destination_height) (\<lambda>p. checked_mul p 2) = None
      then Inl TransformDestinationOverflow
      else Inr \<lparr>vt_width = w, vt_source_height = source_height,
             vt_destination_height = destination_height, vt_sampling = sampling\<rparr>)"

definition vertical_new :: "nat \<Rightarrow> nat \<Rightarrow> nat \<Rightarrow> vertical_error + vertical_transform" where
  "vertical_new w source_height destination_height =
     (if w = 0 \<or> source_height = 0 \<or> destination_height = 0 then Inl GeometryZero
      else new_with_sampling w source_height destination_height CenteredNearest)"

definition source_row_for_destination :: "vertical_transform \<Rightarrow> nat \<Rightarrow> nat option" where
  "source_row_for_destination t y =
     (if vt_destination_height t \<le> y then None
      else if vt_source_height t = vt_destination_height t then Some y
      else
        (let numerator =
               (case vt_sampling t of
                  CenteredNearest \<Rightarrow>
                    Option.bind (checked_mul y 2) (\<lambda>a. Option.bind (checked_add a 1)
                      (\<lambda>b. checked_mul b (vt_source_height t)))
                | TopAlignedNearest \<Rightarrow> checked_mul y (vt_source_height t));
             denominator =
               (case vt_sampling t of
                  CenteredNearest \<Rightarrow> vt_destination_height t * 2
                | TopAlignedNearest \<Rightarrow> vt_destination_height t)
         in map_option (\<lambda>n. min (n div denominator) (vt_source_height t - 1)) numerator))"

definition valid_source_rect :: "vertical_transform \<Rightarrow> dirty_rect \<Rightarrow> dirty_rect option" where
  "valid_source_rect t r =
     (if x1 r \<le> x0 r \<or> y1 r \<le> y0 r \<or> vt_width t < x1 r \<or> vt_source_height t < y1 r then None else Some r)"

definition destination_rect_for_source :: "vertical_transform \<Rightarrow> dirty_rect \<Rightarrow> dirty_rect option" where
  "destination_rect_for_source t source_rect =
     (case valid_source_rect t source_rect of
        None \<Rightarrow> None
      | Some r \<Rightarrow>
          if vt_source_height t = vt_destination_height t then Some r
          else
            (case find (\<lambda>y. case source_row_for_destination t y of None \<Rightarrow> False | Some sy \<Rightarrow> y0 r \<le> sy \<and> sy < y1 r)
                [0..<vt_destination_height t] of
               None \<Rightarrow> None
             | Some first_y \<Rightarrow>
                 (let end_y =
                    (case find (\<lambda>y. case source_row_for_destination t y of None \<Rightarrow> False | Some sy \<Rightarrow> y1 r \<le> sy)
                        [first_y..<vt_destination_height t] of
                       None \<Rightarrow> vt_destination_height t
                     | Some y \<Rightarrow> y)
                  in Some \<lparr>x0 = x0 r, y0 = first_y, x1 = x1 r, y1 = end_y\<rparr>)))"

definition validate_source :: "vertical_transform \<Rightarrow> 'p frame_view \<Rightarrow> vertical_error + unit" where
  "validate_source t v =
     (if fv_width v \<noteq> vt_width t \<or> fv_height v \<noteq> vt_source_height t then Inl SourceMismatch
      else if fv_stride v < fv_width v then Inl SourceStrideNarrow
      else case checked_mul (fv_stride v) (fv_height v) of
        None \<Rightarrow> Inl SourceOverflow
      | Some required \<Rightarrow> if length (fv_pixels v) < required then Inl SourceTooSmall else Inr ())"

text \<open>The rows of a copy, one slice each; the outer option is a panic.\<close>

fun copy_identity_rows :: "'p frame_view \<Rightarrow> dirty_rect \<Rightarrow> nat \<Rightarrow> nat list \<Rightarrow> 'p list \<Rightarrow> 'p list option" where
  "copy_identity_rows v r stride [] d = Some d"
| "copy_identity_rows v r stride (y # ys) d =
     Option.bind (copy_slice d (y * stride + x0 r) (fv_pixels v) (y * fv_stride v + x0 r) (rect_width r))
       (copy_identity_rows v r stride ys)"

fun copy_scaled_rows ::
  "vertical_transform \<Rightarrow> 'p frame_view \<Rightarrow> dirty_rect \<Rightarrow> nat \<Rightarrow> nat list \<Rightarrow> 'p list \<Rightarrow>
   ((vertical_error + unit) \<times> 'p list) option" where
  "copy_scaled_rows t v r stride [] d = Some (Inr (), d)"
| "copy_scaled_rows t v r stride (y # ys) d =
     (case source_row_for_destination t y of
        None \<Rightarrow> Some (Inl DestinationRowOutside, d)
      | Some sy \<Rightarrow>
          Option.bind (copy_slice d (y * stride + x0 r) (fv_pixels v) (sy * fv_stride v + x0 r) (rect_width r))
            (copy_scaled_rows t v r stride ys))"

definition vertical_copy_rect ::
  "vertical_transform \<Rightarrow> 'p frame_view \<Rightarrow> dirty_rect \<Rightarrow> 'p list \<Rightarrow> nat \<Rightarrow>
   ((vertical_error + vertical_copy_stats option) \<times> 'p list) option" where
  "vertical_copy_rect t v source_rect d stride =
     (case validate_source t v of
        Inl e \<Rightarrow> Some (Inl e, d)
      | Inr _ \<Rightarrow>
          if stride < vt_width t then Some (Inl DestinationStrideNarrow, d)
          else case checked_mul stride (vt_destination_height t) of
            None \<Rightarrow> Some (Inl DestinationOverflow, d)
          | Some required \<Rightarrow>
              if length d < required then Some (Inl DestinationTooSmall, d)
              else case valid_source_rect t source_rect of
                None \<Rightarrow> Some (Inr None, d)
              | Some r \<Rightarrow>
                  (case destination_rect_for_source t r of
                     None \<Rightarrow> Some (Inr None, d)
                   | Some dr \<Rightarrow>
                       if vt_source_height t = vt_destination_height t then
                         (let copied =
                            (if x0 r = 0 \<and> x1 r = vt_width t \<and> fv_stride v = vt_width t \<and> stride = vt_width t
                             then copy_slice d (y0 r * stride) (fv_pixels v) (y0 r * fv_stride v) (rect_width r * rect_rows r)
                             else copy_identity_rows v r stride [y0 r..<y1 r] d)
                          in map_option (\<lambda>d'. (Inr (Some \<lparr>vc_destination_rect = dr,
                               vc_bytes = rect_width r * rect_rows r * 2\<rparr>), d')) copied)
                       else
                         (case copy_scaled_rows t v r stride [y0 dr..<y1 dr] d of
                            None \<Rightarrow> None
                          | Some (Inl e, d') \<Rightarrow> Some (Inl e, d')
                          | Some (Inr _, d') \<Rightarrow>
                              Some (Inr (Some \<lparr>vc_destination_rect = dr,
                                vc_bytes = rect_width dr * rect_rows dr * 2\<rparr>), d'))))"

section \<open>Sampling is monotone\<close>

text \<open>Geometries whose row arithmetic fits a \<open>usize\<close>.\<close>

definition transform_ok :: "vertical_transform \<Rightarrow> bool" where
  "transform_ok t \<longleftrightarrow> 0 < vt_width t \<and> 0 < vt_source_height t \<and> 0 < vt_destination_height t \<and>
     vt_destination_height t * 2 * vt_source_height t \<le> USIZE_MAX"

definition sampled_row :: "vertical_transform \<Rightarrow> nat \<Rightarrow> nat" where
  "sampled_row t y =
     (if vt_source_height t = vt_destination_height t then y
      else min ((case vt_sampling t of
             CenteredNearest \<Rightarrow> (y * 2 + 1) * vt_source_height t div (vt_destination_height t * 2)
           | TopAlignedNearest \<Rightarrow> y * vt_source_height t div vt_destination_height t)) (vt_source_height t - 1))"

lemma source_row_eq:
  assumes "transform_ok t" "y < vt_destination_height t"
  shows "source_row_for_destination t y = Some (sampled_row t y)"
proof -
  let ?s = "vt_source_height t" and ?d = "vt_destination_height t"
  have pos: "0 < ?s" "0 < ?d" and limit: "?d * 2 * ?s \<le> USIZE_MAX"
    using assms(1) by (simp_all add: transform_ok_def)
  have "(y * 2 + 1) * ?s \<le> ?d * 2 * ?s"
    using assms(2) by (intro mult_right_mono) simp_all
  moreover have "y * ?s \<le> ?d * 2 * ?s"
    using assms(2) by (intro mult_right_mono) simp_all
  moreover have "(y * 2 + 1) * 1 \<le> (y * 2 + 1) * ?s"
    using pos(1) by (intro mult_le_mono) simp_all
  ultimately have "(y * 2 + 1) * ?s \<le> USIZE_MAX" "y * ?s \<le> USIZE_MAX" "y * 2 + 1 \<le> USIZE_MAX" "y * 2 \<le> USIZE_MAX"
    using limit unfolding mult_1_right by linarith+
  then show ?thesis
    using assms(2)
    by (simp add: source_row_for_destination_def sampled_row_def checked_mul_def checked_add_def
        split: vertical_sampling.split)
qed

lemma sampled_row_less:
  assumes "transform_ok t" "y < vt_destination_height t"
  shows "sampled_row t y < vt_source_height t"
  using assms by (auto simp: sampled_row_def transform_ok_def split: vertical_sampling.split)

lemma sampled_row_mono:
  assumes "y \<le> y'"
  shows "sampled_row t y \<le> sampled_row t y'"
proof -
  let ?s = "vt_source_height t"
  have centred: "(y * 2 + 1) * ?s div n \<le> (y' * 2 + 1) * ?s div n" for n
    using assms by (intro div_le_mono mult_le_mono1) simp
  have aligned: "y * ?s div n \<le> y' * ?s div n" for n
    using assms by (intro div_le_mono mult_le_mono1) simp
  show ?thesis
  proof (cases "vt_source_height t = vt_destination_height t")
    case True
    then show ?thesis
      using assms by (simp add: sampled_row_def)
  next
    case False
    show ?thesis
      unfolding sampled_row_def if_not_P [OF False]
      by (cases "vt_sampling t")
        (simp_all only: vertical_sampling.case min.mono [OF centred order.refl] min.mono [OF aligned order.refl])
  qed
qed

section \<open>Rows of a copy\<close>

text \<open>Both copy loops are one loop over destination rows with a source row for each.\<close>

fun copy_rows :: "(nat \<Rightarrow> nat) \<Rightarrow> 'p frame_view \<Rightarrow> dirty_rect \<Rightarrow> nat \<Rightarrow> nat list \<Rightarrow> 'p list \<Rightarrow> 'p list option" where
  "copy_rows f v r stride [] d = Some d"
| "copy_rows f v r stride (y # ys) d =
     Option.bind (copy_slice d (y * stride + x0 r) (fv_pixels v) (f y * fv_stride v + x0 r) (rect_width r))
       (copy_rows f v r stride ys)"

lemma copy_identity_rows_eq: "copy_identity_rows v r stride ys d = copy_rows (\<lambda>y. y) v r stride ys d"
proof (induction ys arbitrary: d)
  case (Cons y ys)
  then have "copy_identity_rows v r stride ys = copy_rows (\<lambda>y. y) v r stride ys"
    by (intro ext) simp
  then show ?case
    by simp
qed simp

lemma copy_scaled_rows_eq:
  "transform_ok t \<Longrightarrow> \<forall>y \<in> set ys. y < vt_destination_height t \<Longrightarrow>
   copy_scaled_rows t v r stride ys d = map_option (\<lambda>d'. (Inr (), d')) (copy_rows (sampled_row t) v r stride ys d)"
proof (induction ys arbitrary: d)
  case (Cons y ys)
  have "y < vt_destination_height t"
    using Cons.prems(2) by simp
  moreover have "copy_scaled_rows t v r stride ys = (\<lambda>d. map_option (\<lambda>d'. (Inr (), d')) (copy_rows (sampled_row t) v r stride ys d))"
    using Cons by (intro ext) simp
  ultimately show ?case
    using Cons.prems(1) by (simp add: source_row_eq map_option_bind comp_def)
qed simp

text \<open>A row of the picture occupies a stretch of the list that other rows do not touch.\<close>

lemma row_position:
  fixes x y stride :: nat
  assumes "x < stride" "a \<le> stride"  "b \<le> a"
  shows "y' * stride + b \<le> y * stride + x \<and> y * stride + x < y' * stride + a \<longleftrightarrow> y = y' \<and> b \<le> x \<and> x < a"
proof (cases "y = y'")
  case False
  then consider "y + 1 \<le> y'" | "y' + 1 \<le> y"
    by linarith
  then show ?thesis
  proof cases
    case 1
    then have "(y + 1) * stride \<le> y' * stride"
      by (intro mult_le_mono1)
    then show ?thesis
      using False assms by simp
  next
    case 2
    then have "(y' + 1) * stride \<le> y * stride"
      by (intro mult_le_mono1)
    then show ?thesis
      using False assms by simp
  qed
qed auto

lemma position_less:
  fixes x y stride :: nat
  assumes "x \<le> stride" "y < height"
  shows "y * stride + x \<le> stride * height"
proof -
  have "(y + 1) * stride \<le> height * stride"
    using assms(2) by (intro mult_le_mono1) simp
  then show ?thesis
    using assms(1) by (simp add: mult.commute)
qed

lemma copy_rows_exact:
  assumes "distinct ys" "\<forall>y \<in> set ys. y < height \<and> f y < fv_height v"
    and "x0 r \<le> x1 r" "x1 r \<le> stride" "x1 r \<le> fv_stride v"
    and "stride * height \<le> length d" "fv_stride v * fv_height v \<le> length (fv_pixels v)"
  shows "\<exists>d'. copy_rows f v r stride ys d = Some d' \<and> length d' = length d \<and>
    (\<forall>x y. x < stride \<longrightarrow> y < height \<longrightarrow> d' ! (y * stride + x) =
       (if y \<in> set ys \<and> x0 r \<le> x \<and> x < x1 r then fv_pixels v ! (f y * fv_stride v + x) else d ! (y * stride + x))) \<and>
    (\<forall>i. stride * height \<le> i \<longrightarrow> i < length d \<longrightarrow> d' ! i = d ! i)"
  using assms(1,2,6)
proof (induction ys arbitrary: d)
  case (Cons y1 ys)
  have width: "x0 r + rect_width r = x1 r"
    using assms(3) by (simp add: rect_width_def)
  have y1: "y1 < height" "f y1 < fv_height v"
    using Cons.prems by simp_all
  have "y1 * stride + x1 r \<le> stride * height"
    using position_less [OF assms(4) y1(1)] .
  moreover have "f y1 * fv_stride v + x1 r \<le> fv_stride v * fv_height v"
    using position_less [OF assms(5) y1(2)] .
  ultimately obtain d1 where d1:
    "copy_slice d (y1 * stride + x0 r) (fv_pixels v) (f y1 * fv_stride v + x0 r) (rect_width r) = Some d1"
    using copy_slice_fits [of "y1 * stride + x0 r" "rect_width r" d "f y1 * fv_stride v + x0 r" "fv_pixels v"]
      width Cons.prems(3) assms(7) by fastforce
  have len: "length d1 = length d"
    using length_copy_slice [OF d1] .
  obtain d' where d': "copy_rows f v r stride ys d1 = Some d'" "length d' = length d1"
    "\<And>x y. x < stride \<Longrightarrow> y < height \<Longrightarrow> d' ! (y * stride + x) =
       (if y \<in> set ys \<and> x0 r \<le> x \<and> x < x1 r then fv_pixels v ! (f y * fv_stride v + x) else d1 ! (y * stride + x))"
    "\<And>i. stride * height \<le> i \<Longrightarrow> i < length d1 \<Longrightarrow> d' ! i = d1 ! i"
    using Cons.IH [of d1] Cons.prems len by auto
  have first: "d1 ! (y * stride + x) =
      (if y = y1 \<and> x0 r \<le> x \<and> x < x1 r then fv_pixels v ! (f y1 * fv_stride v + x) else d ! (y * stride + x))"
    if p: "x < stride" "y < height" for x y
  proof -
    have "y * stride + x < length d"
      using position_less [of "Suc x" stride y height] p Cons.prems(3) by simp
    moreover have "y1 * stride + x0 r \<le> y * stride + x \<and> y * stride + x < y1 * stride + x0 r + rect_width r \<longleftrightarrow>
        y = y1 \<and> x0 r \<le> x \<and> x < x1 r"
      using row_position [OF p(1) assms(4,3), of y1 y] width by (simp add: add.assoc)
    ultimately show ?thesis
      using nth_copy_slice [OF d1, of "y * stride + x"] by auto
  qed
  have outside: "d1 ! i = d ! i" if p: "stride * height \<le> i" "i < length d" for i
  proof -
    have "y1 * stride + x0 r + rect_width r \<le> i"
      using position_less [OF assms(4) y1(1)] p(1) width by simp
    then show ?thesis
      using nth_copy_slice [OF d1 p(2)] by simp
  qed
  show ?case
  proof (intro exI [of _ d'] conjI allI impI)
    show "copy_rows f v r stride (y1 # ys) d = Some d'"
      using d1 d'(1) by simp
    show "length d' = length d"
      using d'(2) len by simp
    show "d' ! i = d ! i" if "stride * height \<le> i" "i < length d" for i
      using d'(4) outside that len by simp
    show "d' ! (y * stride + x) = (if y \<in> set (y1 # ys) \<and> x0 r \<le> x \<and> x < x1 r
        then fv_pixels v ! (f y * fv_stride v + x) else d ! (y * stride + x))" if p: "x < stride" "y < height" for x y
      unfolding d'(3) [OF p] first [OF p] by auto
  qed
qed simp

section \<open>The rows of a rectangle\<close>

lemma valid_source_rect_Some:
  "valid_source_rect t r = Some r' \<longleftrightarrow>
   r' = r \<and> x0 r < x1 r \<and> y0 r < y1 r \<and> x1 r \<le> vt_width t \<and> y1 r \<le> vt_source_height t"
  by (auto simp: valid_source_rect_def)

lemma find_first:
  "find P [a..<b] = Some y \<Longrightarrow> a \<le> y \<and> y < b \<and> P y \<and> (\<forall>z. a \<le> z \<and> z < y \<longrightarrow> \<not> P z)"
  by (auto simp: find_Some_iff nth_upt) (metis le_add_diff_inverse less_diff_conv2 add.commute le_Suc_ex
      less_imp_le_nat nat_add_left_cancel_less)

lemma find_none: "find P [a..<b] = None \<Longrightarrow> a \<le> z \<Longrightarrow> z < b \<Longrightarrow> \<not> P z"
  by (auto simp: find_None_iff)

text \<open>
  The destination rectangle holds exactly the rows whose sampled source row lies in the source
  rectangle; there is none exactly when no row samples the source rectangle.
\<close>

lemma destination_rows:
  assumes ok: "transform_ok t" and valid: "valid_source_rect t r = Some r"
  shows "destination_rect_for_source t r = None \<Longrightarrow> y < vt_destination_height t \<Longrightarrow>
           \<not> (y0 r \<le> sampled_row t y \<and> sampled_row t y < y1 r)"
    and "destination_rect_for_source t r = Some dr \<Longrightarrow>
           x0 dr = x0 r \<and> x1 dr = x1 r \<and> y0 dr < y1 dr \<and> y1 dr \<le> vt_destination_height t \<and>
           (y < vt_destination_height t \<longrightarrow>
              (y0 dr \<le> y \<and> y < y1 dr \<longleftrightarrow> y0 r \<le> sampled_row t y \<and> sampled_row t y < y1 r))"
proof -
  let ?d = "vt_destination_height t"
  define P where "P y = (case source_row_for_destination t y of None \<Rightarrow> False | Some sy \<Rightarrow> y0 r \<le> sy \<and> sy < y1 r)" for y
  define Q where "Q y = (case source_row_for_destination t y of None \<Rightarrow> False | Some sy \<Rightarrow> y1 r \<le> sy)" for y
  have P: "P y \<longleftrightarrow> y0 r \<le> sampled_row t y \<and> sampled_row t y < y1 r"
    and Q: "Q y \<longleftrightarrow> y1 r \<le> sampled_row t y" if "y < ?d" for y
    using that source_row_eq [OF ok that] by (simp_all add: P_def Q_def)
  have scaled: "destination_rect_for_source t r =
      (case find P [0..<?d] of None \<Rightarrow> None
       | Some a \<Rightarrow> Some \<lparr>x0 = x0 r, y0 = a, x1 = x1 r,
           y1 = (case find Q [a..<?d] of None \<Rightarrow> ?d | Some y \<Rightarrow> y)\<rparr>)" if "vt_source_height t \<noteq> ?d"
    using that valid unfolding destination_rect_for_source_def P_def Q_def by (simp add: Let_def cong: option.case_cong)
  have plain: "destination_rect_for_source t r = Some r" "sampled_row t y = y" if "vt_source_height t = ?d" for y
    using that valid by (simp_all add: destination_rect_for_source_def sampled_row_def)
  show "\<not> (y0 r \<le> sampled_row t y \<and> sampled_row t y < y1 r)"
    if p: "destination_rect_for_source t r = None" "y < ?d"
  proof -
    have "vt_source_height t \<noteq> ?d"
      using p(1) plain(1) by auto
    then have "find P [0..<?d] = None"
      using p(1) scaled by (cases "find P [0..<?d]") simp_all
    then show ?thesis
      using find_none [of P 0 ?d y] P [OF p(2)] p(2) by simp
  qed
  show "x0 dr = x0 r \<and> x1 dr = x1 r \<and> y0 dr < y1 dr \<and> y1 dr \<le> ?d \<and>
      (y < ?d \<longrightarrow> (y0 dr \<le> y \<and> y < y1 dr \<longleftrightarrow> y0 r \<le> sampled_row t y \<and> sampled_row t y < y1 r))"
    if p: "destination_rect_for_source t r = Some dr"
  proof (cases "vt_source_height t = ?d")
    case True
    then show ?thesis
      using p plain [OF True] valid by (auto simp: valid_source_rect_Some)
  next
    case False
    obtain a where a: "find P [0..<?d] = Some a"
      using p scaled [OF False] by (cases "find P [0..<?d]") simp_all
    define b where "b = (case find Q [a..<?d] of None \<Rightarrow> ?d | Some y \<Rightarrow> y)"
    have dr: "dr = \<lparr>x0 = x0 r, y0 = a, x1 = x1 r, y1 = b\<rparr>"
      using p scaled [OF False] a by (simp add: b_def)
    have fa: "a < ?d" "P a" "\<And>z. z < a \<Longrightarrow> \<not> P z"
      using find_first [OF a] by auto
    have notQ: "\<not> Q a"
      using P [OF fa(1)] Q [OF fa(1)] fa(2) by simp
    have fb: "a \<le> b" "b \<le> ?d" "b < ?d \<Longrightarrow> Q b" "\<And>z. a \<le> z \<Longrightarrow> z < b \<Longrightarrow> \<not> Q z"
      using find_first [of Q a ?d] find_none [of Q a ?d] fa(1)
      by (auto simp: b_def split: option.splits)
    have ab: "a < b"
      using fa(1,2) fb(1,3) notQ by (cases "a = b") auto
    have "a \<le> y \<and> y < b \<longleftrightarrow> y0 r \<le> sampled_row t y \<and> sampled_row t y < y1 r" if y: "y < ?d"
    proof
      assume *: "a \<le> y \<and> y < b"
      then have "y0 r \<le> sampled_row t y"
        using sampled_row_mono [of a y t] P [OF fa(1)] fa(2) by simp
      then show "y0 r \<le> sampled_row t y \<and> sampled_row t y < y1 r"
        using * fb(4) [of y] Q [OF y] by simp
    next
      assume *: "y0 r \<le> sampled_row t y \<and> sampled_row t y < y1 r"
      then have "a \<le> y"
        using fa(3) [of y] P [OF y] by force
      moreover have "y < b"
      proof (rule ccontr)
        assume "\<not> y < b"
        then have "y1 r \<le> sampled_row t y"
          using sampled_row_mono [of b y t] fb(3) Q [of b] y by simp
        then show False
          using * by simp
      qed
      ultimately show "a \<le> y \<and> y < b"
        by simp
    qed
    then show ?thesis
      using ab fb(2) by (simp add: dr)
  qed
qed

section \<open>Copying a rectangle\<close>

text \<open>A whole number of rows without padding is one slice.\<close>

lemma copy_block_exact:
  assumes "y0 r \<le> y1 r" "y1 r \<le> height" "w * height \<le> length d" "w * height \<le> length s"
    and "copy_slice d (y0 r * w) s (y0 r * w) (w * (y1 r - y0 r)) = Some d'" "i < length d"
  shows "d' ! i = (if y0 r * w \<le> i \<and> i < y1 r * w then s ! i else d ! i)"
proof -
  have "y0 r * w + w * (y1 r - y0 r) = y1 r * w"
    using assms(1) by (simp add: algebra_simps diff_mult_distrib2)
  then show ?thesis
    using nth_copy_slice [OF assms(5,6)] by auto
qed

lemma validate_source_Inr:
  "validate_source t v = Inr u \<Longrightarrow>
   fv_width v = vt_width t \<and> fv_height v = vt_source_height t \<and> fv_width v \<le> fv_stride v \<and>
   fv_stride v * fv_height v \<le> length (fv_pixels v)"
  by (auto simp: validate_source_def checked_mul_def split: if_splits option.splits)

text \<open>What a copy leaves in the destination.\<close>

definition rect_copied ::
  "vertical_transform \<Rightarrow> 'p frame_view \<Rightarrow> dirty_rect \<Rightarrow> nat \<Rightarrow> 'p list \<Rightarrow> 'p list \<Rightarrow> bool" where
  "rect_copied t v r stride d d' \<longleftrightarrow>
     length d' = length d \<and>
     (\<forall>x y. x < stride \<longrightarrow> y < vt_destination_height t \<longrightarrow>
        d' ! (y * stride + x) =
          (if in_rect r x (sampled_row t y) then fv_pixels v ! (sampled_row t y * fv_stride v + x)
           else d ! (y * stride + x))) \<and>
     (\<forall>i. stride * vt_destination_height t \<le> i \<longrightarrow> i < length d \<longrightarrow> d' ! i = d ! i)"

lemma rect_copied_rows:
  assumes "copy_rows (sampled_row t) v r stride ys d = Some d1"
    and "distinct ys" "\<forall>y \<in> set ys. y < vt_destination_height t \<and> sampled_row t y < fv_height v"
    and "\<forall>y. y < vt_destination_height t \<longrightarrow> (y \<in> set ys \<longleftrightarrow> y0 r \<le> sampled_row t y \<and> sampled_row t y < y1 r)"
    and "x0 r \<le> x1 r" "x1 r \<le> stride" "x1 r \<le> fv_stride v"
    and "stride * vt_destination_height t \<le> length d" "fv_stride v * fv_height v \<le> length (fv_pixels v)"
  shows "rect_copied t v r stride d d1"
  using copy_rows_exact [OF assms(2,3,5-9)] assms(1,4) unfolding rect_copied_def
  by (auto simp: in_rect_def)

lemma sampled_identity: "vt_source_height t = vt_destination_height t \<Longrightarrow> sampled_row t y = y"
  by (simp add: sampled_row_def)

lemma contiguous_copied:
  assumes same: "vt_source_height t = vt_destination_height t"
    and rect: "x0 r = 0" "x1 r = w" "y0 r < y1 r" "y1 r \<le> vt_source_height t"
    and source: "fv_stride v = w" "w * vt_source_height t \<le> length (fv_pixels v)"
    and room: "w * vt_destination_height t \<le> length d"
  shows "\<exists>d'. copy_slice d (y0 r * w) (fv_pixels v) (y0 r * w) (rect_width r * rect_rows r) = Some d' \<and>
    rect_copied t v r w d d'"
proof -
  have area: "rect_width r * rect_rows r = w * (y1 r - y0 r)"
    using rect by (simp add: rect_width_def rect_rows_def)
  have stop: "y0 r * w + w * (y1 r - y0 r) = y1 r * w"
    using rect(3) by (simp add: algebra_simps diff_mult_distrib2)
  have "w * y1 r \<le> w * vt_source_height t"
    using rect(4) by (intro mult_le_mono2)
  then have bound: "y1 r * w \<le> w * vt_source_height t"
    by (simp only: mult.commute [of "y1 r"])
  have fits: "y1 r * w \<le> length d" "y1 r * w \<le> length (fv_pixels v)"
    using bound room source(2) unfolding same by linarith+
  obtain d' where d': "copy_slice d (y0 r * w) (fv_pixels v) (y0 r * w) (w * (y1 r - y0 r)) = Some d'"
    using copy_slice_fits [of "y0 r * w" "w * (y1 r - y0 r)" d "y0 r * w" "fv_pixels v"] fits unfolding stop by blast
  have nth: "d' ! i = (if y0 r * w \<le> i \<and> i < y1 r * w then fv_pixels v ! i else d ! i)" if "i < length d" for i
    using copy_block_exact [OF _ rect(4) _ source(2) d' that] rect(3) room same by simp
  have "rect_copied t v r w d d'"
    unfolding rect_copied_def
  proof (intro conjI allI impI)
    show "length d' = length d"
      using length_copy_slice [OF d'] .
    show "d' ! i = d ! i" if "w * vt_destination_height t \<le> i" "i < length d" for i
      using nth [OF that(2)] that(1) bound unfolding same by (metis le_trans not_less)
    show "d' ! (y * w + x) = (if in_rect r x (sampled_row t y)
        then fv_pixels v ! (sampled_row t y * fv_stride v + x) else d ! (y * w + x))"
      if p: "x < w" "y < vt_destination_height t" for x y
    proof -
      have "y * w + x < length d"
        using position_less [of "Suc x" w y] p room by fastforce
      moreover have "y0 r * w \<le> y * w + x \<longleftrightarrow> y0 r \<le> y"
      proof
        assume "y0 r * w \<le> y * w + x"
        then have "y0 r * w < (y + 1) * w"
          using p(1) by simp
        then show "y0 r \<le> y"
          using mult_less_cancel2 [of "y0 r" w "y + 1"] by simp
      next
        assume "y0 r \<le> y"
        then show "y0 r * w \<le> y * w + x"
          using trans_le_add1 [OF mult_le_mono1] by blast
      qed
      moreover have "y * w + x < y1 r * w \<longleftrightarrow> y < y1 r"
      proof
        assume "y * w + x < y1 r * w"
        then have "y * w < y1 r * w"
          by linarith
        then show "y < y1 r"
          using mult_less_cancel2 [of y w "y1 r"] by simp
      next
        assume "y < y1 r"
        then have "(y + 1) * w \<le> y1 r * w"
          by (intro mult_le_mono1) simp
        then show "y * w + x < y1 r * w"
          using p(1) by simp
      qed
      ultimately show ?thesis
        using nth [of "y * w + x"] p(1) rect(1,2) source(1) sampled_identity [OF same] by (simp add: in_rect_def)
    qed
  qed
  then show ?thesis
    using d' area by simp
qed

lemma vertical_copy_spec:
  assumes ok: "transform_ok t" and source: "validate_source t v = Inr u" and stride: "vt_width t \<le> stride"
    and room: "stride * vt_destination_height t \<le> USIZE_MAX" "stride * vt_destination_height t \<le> length d"
  shows "\<exists>stats d'. vertical_copy_rect t v r d stride = Some (Inr stats, d') \<and>
      (case valid_source_rect t r of
         None \<Rightarrow> stats = None \<and> d' = d
       | Some _ \<Rightarrow> rect_copied t v r stride d d' \<and>
           stats = map_option (\<lambda>dr. \<lparr>vc_destination_rect = dr, vc_bytes = rect_width dr * rect_rows dr * 2\<rparr>)
             (destination_rect_for_source t r))"
proof -
  note view = validate_source_Inr [OF source]
  have guards: "vertical_copy_rect t v r d stride = X" if "(case valid_source_rect t r of
        None \<Rightarrow> Some (Inr None, d)
      | Some r \<Rightarrow>
          (case destination_rect_for_source t r of
             None \<Rightarrow> Some (Inr None, d)
           | Some dr \<Rightarrow>
               if vt_source_height t = vt_destination_height t then
                 map_option (\<lambda>d'. (Inr (Some \<lparr>vc_destination_rect = dr, vc_bytes = rect_width r * rect_rows r * 2\<rparr>), d'))
                   (if x0 r = 0 \<and> x1 r = vt_width t \<and> fv_stride v = vt_width t \<and> stride = vt_width t
                    then copy_slice d (y0 r * stride) (fv_pixels v) (y0 r * fv_stride v) (rect_width r * rect_rows r)
                    else copy_identity_rows v r stride [y0 r..<y1 r] d)
               else
                 (case copy_scaled_rows t v r stride [y0 dr..<y1 dr] d of
                    None \<Rightarrow> None
                  | Some (Inl e, d') \<Rightarrow> Some (Inl e, d')
                  | Some (Inr _, d') \<Rightarrow>
                      Some (Inr (Some \<lparr>vc_destination_rect = dr, vc_bytes = rect_width dr * rect_rows dr * 2\<rparr>), d')))) = X" for X
    using that source stride room
    by (simp add: vertical_copy_rect_def checked_mul_def Let_def del: upt.simps cong: option.case_cong if_cong)
  show ?thesis
  proof (cases "valid_source_rect t r")
    case None
    then show ?thesis
      using guards by auto
  next
    case (Some r')
    then have valid: "valid_source_rect t r = Some r" and
      rect: "x0 r < x1 r" "y0 r < y1 r" "x1 r \<le> vt_width t" "y1 r \<le> vt_source_height t"
      by (simp_all add: valid_source_rect_Some)
    have fits: "x0 r \<le> x1 r" "x1 r \<le> stride" "x1 r \<le> fv_stride v"
      using rect view stride by simp_all
    show ?thesis
    proof (cases "destination_rect_for_source t r")
      case None
      then have "rect_copied t v r stride d d"
        using destination_rows(1) [OF ok valid] by (auto simp: rect_copied_def in_rect_def)
      then show ?thesis
        using guards valid None by simp
    next
      case (Some dr)
      note rows = destination_rows(2) [OF ok valid Some]
      show ?thesis
      proof (cases "vt_source_height t = vt_destination_height t")
        case True
        have dr: "dr = r"
          using Some valid True by (simp add: destination_rect_for_source_def)
        have "\<exists>d'. (if x0 r = 0 \<and> x1 r = vt_width t \<and> fv_stride v = vt_width t \<and> stride = vt_width t
               then copy_slice d (y0 r * stride) (fv_pixels v) (y0 r * fv_stride v) (rect_width r * rect_rows r)
               else copy_identity_rows v r stride [y0 r..<y1 r] d) = Some d' \<and> rect_copied t v r stride d d'"
        proof (cases "x0 r = 0 \<and> x1 r = vt_width t \<and> fv_stride v = vt_width t \<and> stride = vt_width t")
          case whole: True
          then show ?thesis
            using contiguous_copied [OF True, of r "vt_width t" v d] rect view room(2) by auto
        next
          case False
          have "(\<lambda>y. y) = sampled_row t"
            using sampled_identity [OF True] by (intro ext) simp
          moreover have "\<forall>y \<in> set [y0 r..<y1 r]. y < vt_destination_height t \<and> sampled_row t y < fv_height v"
            using rect(4) True view sampled_identity [OF True] by auto
          ultimately obtain d' where "copy_identity_rows v r stride [y0 r..<y1 r] d = Some d'"
            "copy_rows (sampled_row t) v r stride [y0 r..<y1 r] d = Some d'"
            using copy_rows_exact [of "[y0 r..<y1 r]" "vt_destination_height t" "sampled_row t" v r stride d]
              fits room(2) view copy_identity_rows_eq [of v r stride "[y0 r..<y1 r]" d] by auto
          moreover have "rect_copied t v r stride d d'"
            using rect_copied_rows [OF calculation(2)] fits room(2) view rect(4) True sampled_identity [OF True] by auto
          ultimately show ?thesis
            using False by auto
        qed
        then show ?thesis
          using guards valid Some True dr by auto
      next
        case False
        let ?ys = "[y0 dr..<y1 dr]"
        have inside_rows: "\<forall>y \<in> set ?ys. y < vt_destination_height t \<and> sampled_row t y < fv_height v"
        proof
          fix y
          assume "y \<in> set ?ys"
          then have "y < vt_destination_height t"
            using rows [of 0] by simp
          then show "y < vt_destination_height t \<and> sampled_row t y < fv_height v"
            using sampled_row_less [OF ok] view by simp
        qed
        obtain d' where d': "copy_rows (sampled_row t) v r stride ?ys d = Some d'"
          using copy_rows_exact [OF distinct_upt inside_rows fits room(2)] view by auto
        have "copy_scaled_rows t v r stride ?ys d = Some (Inr (), d')"
          using copy_scaled_rows_eq [OF ok, of ?ys v r stride d] inside_rows d' by auto
        moreover have "rect_copied t v r stride d d'"
          using rect_copied_rows [OF d' distinct_upt inside_rows _ fits room(2)] view
            destination_rows(2) [OF ok valid Some] by auto
        ultimately show ?thesis
          using guards valid Some False by auto
      qed
    qed
  qed
qed

section \<open>Properties\<close>



end
