(* ===== verification/Fpga_Bus.thy ===== *)
theory Fpga_Bus
  imports Latch_Protocol
begin

text \<open>
  The bus between Linux and the FPGA (\<open>mister/platform/runtime/src/fpga.rs\<close>, with the wire diagnostics
  of \<open>latch_readiness.rs\<close>): the SPI handshake over two registers, the commands, the lock of the bus and
  the three kinds of latch transaction. The registers and the lock file belong to the outside world, so
  every read of the input register and every attempt to lock takes the next value of a stream, and every
  write, lock and unlock is recorded. The wall-clock fields of the diagnostics are left out.
\<close>

section \<open>Registers\<close>

definition STROBE :: u32 where "STROBE = push_bit 17 1"
definition ACK :: u32 where "ACK = STROBE"
definition IO_EN :: u32 where "IO_EN = push_bit 20 1"
definition BIT31 :: u32 where "BIT31 = 0x80000000"

definition UIO_GET_VRES :: u16 where "UIO_GET_VRES = 0x23"
definition UIO_GET_FB_PAR :: u16 where "UIO_GET_FB_PAR = 0x40"
definition UIO_SET_FBUF :: u16 where "UIO_SET_FBUF = 0x2F"
definition UIO_AUDVOL :: u16 where "UIO_AUDVOL = 0x26"

definition LATCH_MAGIC :: u16 where "LATCH_MAGIC = 0x4d47"
definition STATUS_MAGIC :: u16 where "STATUS_MAGIC = 0x4d48"
definition CAPS_MAGIC :: u16 where "CAPS_MAGIC = 0x4d49"
definition DIAGNOSTICS_MAGIC :: u16 where "DIAGNOSTICS_MAGIC = 0x4d4a"
definition RECEIPT_MAGIC :: u16 where "RECEIPT_MAGIC = 0x4d4b"
definition PRESENTATION_TELEMETRY_MAGIC :: u16 where "PRESENTATION_TELEMETRY_MAGIC = 0x4d4c"

definition CAP_REJECTION_CONTEXT :: u16 where "CAP_REJECTION_CONTEXT = push_bit 7 1"
definition CAP_AUTHORITATIVE_PRESENTATION_TELEMETRY :: u16 where
  "CAP_AUTHORITATIVE_PRESENTATION_TELEMETRY = push_bit 9 1"

definition SPIN_LIMIT :: nat where
  "SPIN_LIMIT = 2000000"

datatype bus_event = GpoWrite u32 | BusLocked | BusUnlocked

record fpga =
  fg_gpo :: u32
  fg_latch_capabilities :: "latch_capabilities option"
  fg_uio_lock :: bool
  fg_lock_depth :: u32
  fg_gpi :: "nat \<Rightarrow> u32"
  fg_reads :: nat
  fg_flock :: "nat \<Rightarrow> bool"
  fg_flocks :: nat
  fg_log :: "bus_event list"

text \<open>What \<open>Fpga::open\<close> builds once the lock file and the register page are open.\<close>

definition fpga_open :: "(nat \<Rightarrow> u32) \<Rightarrow> (nat \<Rightarrow> bool) \<Rightarrow> fpga" where
  "fpga_open gpi flock =
     \<lparr>fg_gpo = BIT31, fg_latch_capabilities = None, fg_uio_lock = True, fg_lock_depth = 0,
      fg_gpi = gpi, fg_reads = 0, fg_flock = flock, fg_flocks = 0, fg_log = []\<rparr>"

section \<open>Results\<close>

datatype wire_error_phase = NoPhase | AckHighPhase | AckLowPhase

datatype io_error =
    SpiTimeout wire_error_phase u16
  | UndecodedReply latch_error
  | NotNegotiated
  | TelemetryUnsupported
  | BadMagic u16 u16
  | SetRejected latch_receipt
  | FlockFailed

definition is_timed_out :: "io_error \<Rightarrow> bool" where
  "is_timed_out e = (case e of SpiTimeout _ _ \<Rightarrow> True | _ \<Rightarrow> False)"

definition is_invalid_data :: "io_error \<Rightarrow> bool" where
  "is_invalid_data e = (case e of SpiTimeout _ _ \<Rightarrow> False | FlockFailed \<Rightarrow> False | _ \<Rightarrow> True)"

text \<open>An operation takes the bus and returns its result with the bus; \<open>io_then\<close> is the \<open>?\<close> operator.\<close>

type_synonym ('e, 'a) bus_op = "fpga \<Rightarrow> ('e + 'a) \<times> fpga"

definition io_return :: "'a \<Rightarrow> ('e, 'a) bus_op" where
  "io_return a s = (Inr a, s)"

definition io_fail :: "'e \<Rightarrow> ('e, 'a) bus_op" where
  "io_fail e s = (Inl e, s)"

definition io_then :: "('e, 'a) bus_op \<Rightarrow> ('a \<Rightarrow> ('e, 'b) bus_op) \<Rightarrow> ('e, 'b) bus_op" where
  "io_then m f s =
     (case m s of
        (Inl e, s') \<Rightarrow> (Inl e, s')
      | (Inr a, s') \<Rightarrow> f a s')"

definition io_map_err :: "('e \<Rightarrow> 'f) \<Rightarrow> ('e, 'a) bus_op \<Rightarrow> ('f, 'a) bus_op" where
  "io_map_err f m s =
     (case m s of
        (Inl e, s') \<Rightarrow> (Inl (f e), s')
      | (Inr a, s') \<Rightarrow> (Inr a, s'))"

text \<open>A step that follows in any case, such as \<open>self.disable_io()\<close> after a closure.\<close>

definition io_finally :: "('e, 'a) bus_op \<Rightarrow> (fpga \<Rightarrow> fpga) \<Rightarrow> ('e, 'a) bus_op" where
  "io_finally m f s = (case m s of (res, s') \<Rightarrow> (res, f s'))"

section \<open>The lock\<close>

definition lock_uio_transaction :: "(io_error, bool) bus_op" where
  "lock_uio_transaction s =
     (if \<not> fg_uio_lock s then (Inr False, s)
      else if fg_lock_depth s = 0 then
        (if fg_flock s (fg_flocks s)
         then (Inr True, s\<lparr>fg_lock_depth := sat_add (fg_lock_depth s) 1, fg_flocks := Suc (fg_flocks s),
                fg_log := fg_log s @ [BusLocked]\<rparr>)
         else (Inl FlockFailed, s\<lparr>fg_flocks := Suc (fg_flocks s)\<rparr>))
      else (Inr True, s\<lparr>fg_lock_depth := sat_add (fg_lock_depth s) 1\<rparr>))"

text \<open>Dropping the guard, when there is one.\<close>

definition drop_guard :: "bool \<Rightarrow> fpga \<Rightarrow> fpga" where
  "drop_guard held s =
     (if \<not> held then s
      else
        (let remaining = sat_sub (fg_lock_depth s) 1;
             s = s\<lparr>fg_lock_depth := remaining\<rparr>
         in if remaining \<noteq> 0 then s else s\<lparr>fg_log := fg_log s @ [BusUnlocked]\<rparr>))"

text \<open>The body of a transaction: \<open>let _uio_guard = self.lock_uio_transaction()?\<close>.\<close>

definition guarded :: "(io_error \<Rightarrow> 'e) \<Rightarrow> ('e, 'a) bus_op \<Rightarrow> ('e, 'a) bus_op" where
  "guarded f body = io_then (io_map_err f lock_uio_transaction) (\<lambda>held. io_finally body (drop_guard held))"

section \<open>The handshake\<close>

definition wr :: "u32 \<Rightarrow> fpga \<Rightarrow> fpga" where
  "wr v s = s\<lparr>fg_gpo := v, fg_log := fg_log s @ [GpoWrite v]\<rparr>"

definition rd :: "fpga \<Rightarrow> u32 \<times> fpga" where
  "rd s = (fg_gpi s (fg_reads s), s\<lparr>fg_reads := Suc (fg_reads s)\<rparr>)"

definition spi_en :: "u32 \<Rightarrow> bool \<Rightarrow> fpga \<Rightarrow> fpga" where
  "spi_en bits en s =
     (let gpo = fg_gpo s OR BIT31
      in wr (if en then gpo OR bits else gpo AND NOT bits) s)"

definition enable_io :: "fpga \<Rightarrow> fpga" where
  "enable_io = spi_en IO_EN True"

definition disable_io :: "fpga \<Rightarrow> fpga" where
  "disable_io = spi_en IO_EN False"

definition reset_spi_transport :: "fpga \<Rightarrow> fpga" where
  "reset_spi_transport s = wr ((fg_gpo s OR BIT31) AND NOT (IO_EN OR STROBE OR 0xffff)) s"

text \<open>At most so many reads until the acknowledge bit has the wanted value.\<close>

fun wait_ack :: "bool \<Rightarrow> nat \<Rightarrow> fpga \<Rightarrow> u16 option \<times> fpga" where
  "wait_ack wanted 0 s = (None, s)"
| "wait_ack wanted (Suc spins) s =
     (case rd s of
        (g, s') \<Rightarrow>
          if (g AND ACK \<noteq> 0) = wanted then (Some (ucast g), s') else wait_ack wanted spins s')"

record spi_acks =
  sc_ack_high :: u16
  sc_ack_low :: u16

record spi_capture_failure =
  sf_error :: io_error
  sf_ack_high :: "u16 option"
  sf_phase :: wire_error_phase

definition spi_capture_observed :: "u16 \<Rightarrow> (spi_capture_failure, spi_acks) bus_op" where
  "spi_capture_observed word s =
     (let gpo = (fg_gpo s AND NOT (0xFFFF OR STROBE)) OR ucast word
      in case wait_ack True SPIN_LIMIT (wr (gpo OR STROBE) (wr gpo s)) of
           (None, s) \<Rightarrow>
             (Inl \<lparr>sf_error = SpiTimeout AckHighPhase word, sf_ack_high = None, sf_phase = AckHighPhase\<rparr>, wr gpo s)
         | (Some hi, s) \<Rightarrow>
             (case wait_ack False SPIN_LIMIT (wr gpo s) of
                (None, s) \<Rightarrow>
                  (Inl \<lparr>sf_error = SpiTimeout AckLowPhase word, sf_ack_high = Some hi, sf_phase = AckLowPhase\<rparr>, s)
              | (Some lo, s) \<Rightarrow> (Inr \<lparr>sc_ack_high = hi, sc_ack_low = lo\<rparr>, s)))"

definition spi_capture :: "u16 \<Rightarrow> (io_error, spi_acks) bus_op" where
  "spi_capture word = io_map_err sf_error (spi_capture_observed word)"

definition spi :: "u16 \<Rightarrow> (io_error, u16) bus_op" where
  "spi word = io_then (spi_capture word) (\<lambda>c. io_return (sc_ack_low c))"

text \<open>A failed command word releases the bus; otherwise it stays enabled.\<close>

definition cmd_capture :: "u16 \<Rightarrow> (io_error, spi_acks) bus_op" where
  "cmd_capture cmd s =
     (case spi_capture cmd (enable_io s) of
        (Inr c, s) \<Rightarrow> (Inr c, s)
      | (Inl e, s) \<Rightarrow> (Inl e, disable_io s))"

definition cmd_cont :: "u16 \<Rightarrow> (io_error, u16) bus_op" where
  "cmd_cont cmd s =
     (case spi cmd (enable_io s) of
        (Inr w, s) \<Rightarrow> (Inr w, s)
      | (Inl e, s) \<Rightarrow> (Inl e, disable_io s))"

definition uio_cmd16 :: "u16 \<Rightarrow> u16 \<Rightarrow> (io_error, u16) bus_op" where
  "uio_cmd16 cmd parm s =
     io_finally (io_then (spi cmd) (\<lambda>_. spi parm)) disable_io (enable_io s)"

definition set_audio_volume :: "u8 \<Rightarrow> (io_error, unit) bus_op" where
  "set_audio_volume attenuation =
     guarded id (io_then (uio_cmd16 UIO_AUDVOL (ucast attenuation)) (\<lambda>_. io_return ()))"

text \<open>So many response words, each the value seen as the acknowledge drops.\<close>

fun read_words :: "nat \<Rightarrow> (io_error, u16 list) bus_op" where
  "read_words 0 = io_return []"
| "read_words (Suc n) =
     io_then (spi_capture 0) (\<lambda>c. io_then (read_words n) (\<lambda>ws. io_return (sc_ack_low c # ws)))"

section \<open>Wire diagnostics\<close>

datatype wire_result = WireEmpty | WireDecoded | TransportError | DecodeError

datatype wire_decision =
    NoDecision | DecisionDecoded | ReadFailed | TransportRetryRecovered | TransportRetryFailed
  | Corroborated | WireRejected

record wire_word =
  ww_index :: nat
  ww_transmitted :: u16
  ww_ack_high :: "u16 option"
  ww_ack_low :: "u16 option"
  ww_error_phase :: wire_error_phase

text \<open>The first \<open>response_word_count\<close> entries of the array of response words.\<close>

record wire_attempt =
  wa_command :: u16
  wa_command_word :: wire_word
  wa_response_words :: "wire_word list"
  wa_result :: wire_result

text \<open>The first \<open>attempt_count\<close> entries of the array of attempts.\<close>

record wire_diagnostics =
  wd_protocol_version :: "u16 option"
  wd_capability_flags :: "u16 option"
  wd_attempts :: "wire_attempt list"
  wd_decision :: wire_decision
  wd_suppressed :: u32

definition MAX_LATCH_WIRE_ATTEMPTS :: nat where
  "MAX_LATCH_WIRE_ATTEMPTS = 6"

definition no_diagnostics :: wire_diagnostics where
  "no_diagnostics = \<lparr>wd_protocol_version = None, wd_capability_flags = None, wd_attempts = [],
     wd_decision = NoDecision, wd_suppressed = 0\<rparr>"

definition push_attempt :: "wire_attempt \<Rightarrow> wire_diagnostics \<Rightarrow> wire_diagnostics" where
  "push_attempt attempt d =
     (if length (wd_attempts d) < MAX_LATCH_WIRE_ATTEMPTS
      then d\<lparr>wd_attempts := wd_attempts d @ [attempt]\<rparr>
      else d\<lparr>wd_suppressed := sat_add (wd_suppressed d) 1\<rparr>)"

definition append_diagnostics :: "wire_diagnostics \<Rightarrow> wire_diagnostics \<Rightarrow> wire_diagnostics" where
  "append_diagnostics d other =
     (let d = (if wd_protocol_version d = None then d\<lparr>wd_protocol_version := wd_protocol_version other\<rparr> else d);
          d = (if wd_capability_flags d = None then d\<lparr>wd_capability_flags := wd_capability_flags other\<rparr> else d);
          d = fold push_attempt (wd_attempts other) d
      in d\<lparr>wd_suppressed := sat_add (wd_suppressed d) (wd_suppressed other)\<rparr>)"

definition diagnostics_with_attempt :: "wire_attempt \<Rightarrow> wire_decision \<Rightarrow> wire_diagnostics" where
  "diagnostics_with_attempt attempt decision = push_attempt attempt (no_diagnostics\<lparr>wd_decision := decision\<rparr>)"

section \<open>Reading the latch status\<close>

record latched_status =
  ls_magic_hi :: u16
  ls_magic_lo :: u16
  ls_active_sequence :: u16
  ls_pending_sequence :: u16
  ls_flags :: u16
  ls_flip_count :: u16
  ls_post_count :: u16
  ls_drop_count :: u16
  ls_active_base :: u32
  ls_active_width :: u16
  ls_active_height :: u16
  ls_active_stride :: u16
  ls_reject_count :: u16
  ls_active_route_epoch :: u16
  ls_accepted_sequence :: u16
  ls_active_transaction :: u16
  ls_pending_transaction :: u16
  ls_accepted_transaction :: u16

definition ls_supported :: "latched_status \<Rightarrow> bool" where
  "ls_supported s \<longleftrightarrow> ls_magic_hi s = STATUS_MAGIC \<or> ls_magic_lo s = STATUS_MAGIC"

definition ls_pending :: "latched_status \<Rightarrow> bool" where
  "ls_pending s \<longleftrightarrow> ls_flags s AND 0x0004 \<noteq> 0"

definition ls_pending_enabled :: "latched_status \<Rightarrow> bool" where
  "ls_pending_enabled s \<longleftrightarrow> ls_flags s AND 0x0002 \<noteq> 0"

definition ls_active_enabled :: "latched_status \<Rightarrow> bool" where
  "ls_active_enabled s \<longleftrightarrow> ls_flags s AND 0x0001 \<noteq> 0"

definition ls_magik_owned :: "latched_status \<Rightarrow> bool" where
  "ls_magik_owned s \<longleftrightarrow> ls_flags s AND push_bit STATUS_MAGIK_OWNERSHIP 1 \<noteq> 0"

definition ls_rejection_reason :: "latched_status \<Rightarrow> u8" where
  "ls_rejection_reason s =
     ucast (drop_bit STATUS_REJECT_REASON_SHIFT (ls_flags s) AND (push_bit STATUS_REJECT_REASON_WIDTH 1 - 1))"

record status_sample =
  ss_status :: latched_status
  ss_diagnostics :: wire_diagnostics

record status_read_error =
  sre_source :: io_error
  sre_diagnostics :: wire_diagnostics

definition status_error_from_io :: "io_error \<Rightarrow> status_read_error" where
  "status_error_from_io e = \<lparr>sre_source = e, sre_diagnostics = no_diagnostics\<rparr>"

text \<open>Diagnostics stamped with the protocol and the negotiated flags of the bus.\<close>

definition stamped :: "latch_protocol \<Rightarrow> fpga \<Rightarrow> wire_diagnostics \<Rightarrow> wire_diagnostics" where
  "stamped protocol s d =
     d\<lparr>wd_protocol_version := Some (protocol_version protocol),
       wd_capability_flags := map_option lcp_flags (fg_latch_capabilities s)\<rparr>"

definition latched_status_read_error :: "fpga \<Rightarrow> io_error \<Rightarrow> wire_attempt \<Rightarrow> latch_protocol \<Rightarrow> status_read_error" where
  "latched_status_read_error s source attempt protocol =
     \<lparr>sre_source = source, sre_diagnostics = stamped protocol s (diagnostics_with_attempt attempt ReadFailed)\<rparr>"

definition blank_word :: "nat \<Rightarrow> u16 \<Rightarrow> wire_word" where
  "blank_word index transmitted =
     \<lparr>ww_index = index, ww_transmitted = transmitted, ww_ack_high = None, ww_ack_low = None, ww_error_phase = NoPhase\<rparr>"

definition captured_word :: "spi_acks \<Rightarrow> wire_word \<Rightarrow> wire_word" where
  "captured_word c w = w\<lparr>ww_ack_high := Some (sc_ack_high c), ww_ack_low := Some (sc_ack_low c)\<rparr>"

definition failed_word :: "spi_capture_failure \<Rightarrow> wire_word \<Rightarrow> wire_word" where
  "failed_word f w = w\<lparr>ww_ack_high := sf_ack_high f, ww_error_phase := sf_phase f\<rparr>"

text \<open>The loop over the response words: how many are left, the index of the next, the words so far.\<close>

fun status_words ::
  "nat \<Rightarrow> nat \<Rightarrow> u16 list \<Rightarrow> wire_attempt \<Rightarrow> (spi_capture_failure \<times> wire_attempt, u16 list \<times> wire_attempt) bus_op" where
  "status_words 0 index words attempt s = (Inr (words, attempt), s)"
| "status_words (Suc n) index words attempt s =
     (case spi_capture_observed 0 s of
        (Inr c, s) \<Rightarrow>
          status_words n (Suc index) (words @ [sc_ack_low c])
            (attempt\<lparr>wa_response_words := wa_response_words attempt @ [captured_word c (blank_word index 0)]\<rparr>) s
      | (Inl f, s) \<Rightarrow>
          (Inl (f, attempt\<lparr>wa_response_words := wa_response_words attempt @ [failed_word f (blank_word index 0)],
             wa_result := TransportError\<rparr>), s))"

definition latched_status_of :: "spi_acks \<Rightarrow> latch_status \<Rightarrow> latched_status" where
  "latched_status_of command decoded =
     \<lparr>ls_magic_hi = sc_ack_high command, ls_magic_lo = sc_ack_low command,
      ls_active_sequence = lst_active_seq decoded, ls_pending_sequence = lst_pending_seq decoded,
      ls_flags = lst_flags decoded, ls_flip_count = lst_flip_count decoded,
      ls_post_count = lst_post_count decoded, ls_drop_count = lst_drop_count decoded,
      ls_active_base = lst_base decoded, ls_active_width = lst_width decoded,
      ls_active_height = lst_height decoded, ls_active_stride = lst_stride decoded,
      ls_reject_count = lst_reject_count decoded, ls_active_route_epoch = lst_active_route_epoch decoded,
      ls_accepted_sequence = lst_accepted_seq decoded, ls_active_transaction = lst_active_transaction decoded,
      ls_pending_transaction = lst_pending_transaction decoded,
      ls_accepted_transaction = lst_accepted_transaction decoded\<rparr>"

definition read_status_once :: "latch_protocol \<Rightarrow> (status_read_error, status_sample) bus_op" where
  "read_status_once protocol s =
     (let attempt = \<lparr>wa_command = GET_FBUF_LATCH, wa_command_word = blank_word 0 GET_FBUF_LATCH,
            wa_response_words = [], wa_result = WireEmpty\<rparr>
      in case spi_capture_observed GET_FBUF_LATCH (enable_io s) of
           (Inl f, s) \<Rightarrow>
             (let attempt = attempt\<lparr>wa_command_word := failed_word f (wa_command_word attempt), wa_result := TransportError\<rparr>;
                  s = disable_io s
              in (Inl (latched_status_read_error s (sf_error f) attempt protocol), s))
         | (Inr command, s) \<Rightarrow>
             (let attempt = attempt\<lparr>wa_command_word := captured_word command (wa_command_word attempt)\<rparr>
              in case status_words (status_word_count protocol) 0 [] attempt s of
                   (Inl (f, attempt), s) \<Rightarrow>
                     (let s = disable_io s
                      in (Inl (latched_status_read_error s (sf_error f) attempt protocol), s))
                 | (Inr (words, attempt), s) \<Rightarrow>
                     (let s = disable_io s
                      in case decode_status protocol words of
                           Inl message \<Rightarrow>
                             (Inl (latched_status_read_error s (UndecodedReply message)
                                (attempt\<lparr>wa_result := DecodeError\<rparr>) protocol), s)
                         | Inr decoded \<Rightarrow>
                             (Inr \<lparr>ss_status = latched_status_of command decoded,
                                ss_diagnostics = stamped protocol s
                                  (diagnostics_with_attempt (attempt\<lparr>wa_result := WireDecoded\<rparr>) DecisionDecoded)\<rparr>, s))))"

text \<open>A status query changes nothing in the FPGA, so it is repeated once on a reset bus.\<close>

definition read_status_retrying :: "latch_protocol \<Rightarrow> (status_read_error, status_sample) bus_op" where
  "read_status_retrying protocol s =
     (case read_status_once protocol s of
        (Inr sample, s) \<Rightarrow> (Inr sample, s)
      | (Inl first, s) \<Rightarrow>
          if is_timed_out (sre_source first) \<or> protocol = V5 \<and> is_invalid_data (sre_source first) then
            (case read_status_once protocol (reset_spi_transport s) of
               (Inr sample, s) \<Rightarrow>
                 (Inr (sample\<lparr>ss_diagnostics := (append_diagnostics (sre_diagnostics first) (ss_diagnostics sample))
                    \<lparr>wd_decision := TransportRetryRecovered\<rparr>\<rparr>), s)
             | (Inl second, s) \<Rightarrow>
                 (Inl \<lparr>sre_source = sre_source second,
                    sre_diagnostics = (append_diagnostics (sre_diagnostics first) (sre_diagnostics second))
                      \<lparr>wd_decision := TransportRetryFailed\<rparr>\<rparr>, s))
          else (Inl first, s))"

definition read_status_sample :: "(status_read_error, status_sample) bus_op" where
  "read_status_sample =
     guarded status_error_from_io (\<lambda>s.
       case map_option lcp_protocol (fg_latch_capabilities s) of
         None \<Rightarrow> (Inl (status_error_from_io NotNegotiated), s)
       | Some protocol \<Rightarrow> read_status_retrying protocol s)"

section \<open>Capabilities\<close>

definition read_capabilities_once ::
  "(io_error \<times> latch_protocol option, u16 \<times> u16 \<times> latch_capabilities) bus_op" where
  "read_capabilities_once =
     io_finally
       (io_then (io_map_err (\<lambda>e. (e, None)) (cmd_capture GET_FBUF_LATCH_CAPS)) (\<lambda>magic.
        io_then (io_map_err (\<lambda>e. (e, None)) (spi_capture 0)) (\<lambda>first.
          case try_from_version (sc_ack_low first) of
            Inl message \<Rightarrow> io_fail (UndecodedReply message, None)
          | Inr protocol \<Rightarrow>
              io_then (io_map_err (\<lambda>e. (e, Some protocol)) (read_words (caps_word_count protocol - 1))) (\<lambda>rest.
                case decode_capabilities (sc_ack_low first # rest) of
                  Inl message \<Rightarrow> io_fail (UndecodedReply message, Some protocol)
                | Inr caps \<Rightarrow> io_return (sc_ack_high magic, sc_ack_low magic, caps)))))
       disable_io"

definition read_capabilities_retrying :: "(io_error, u16 \<times> u16 \<times> latch_capabilities) bus_op" where
  "read_capabilities_retrying s =
     (case read_capabilities_once s of
        (Inr caps, s) \<Rightarrow> (Inr caps, s)
      | (Inl (first, observed), s) \<Rightarrow>
          if observed = Some V5 \<and> is_invalid_data first
          then io_map_err fst read_capabilities_once (reset_spi_transport s)
          else (Inl first, s))"

definition read_capabilities :: "(io_error, u16 \<times> u16 \<times> latch_capabilities) bus_op" where
  "read_capabilities =
     guarded id (\<lambda>s.
       case read_capabilities_retrying (s\<lparr>fg_latch_capabilities := None\<rparr>) of
         (Inr (magic_hi, magic_lo, caps), s) \<Rightarrow>
           (Inr (magic_hi, magic_lo, caps),
            if (magic_hi = CAPS_MAGIC \<or> magic_lo = CAPS_MAGIC) \<and> production_ready caps
            then s\<lparr>fg_latch_capabilities := Some caps\<rparr> else s)
       | (Inl e, s) \<Rightarrow> (Inl e, s))"

section \<open>Receipt, telemetry and rejection diagnostics\<close>

definition check_magic :: "u16 \<Rightarrow> spi_acks \<Rightarrow> (io_error, unit) bus_op" where
  "check_magic magic c =
     (if sc_ack_high c \<noteq> magic \<and> sc_ack_low c \<noteq> magic
      then io_fail (BadMagic (sc_ack_high c) (sc_ack_low c)) else io_return ())"

definition decoded :: "latch_error + 'a \<Rightarrow> (io_error, 'a) bus_op" where
  "decoded r = (case r of Inl message \<Rightarrow> io_fail (UndecodedReply message) | Inr a \<Rightarrow> io_return a)"

definition read_reply :: "u16 \<Rightarrow> u16 \<Rightarrow> nat \<Rightarrow> (u16 list \<Rightarrow> latch_error + 'a) \<Rightarrow> (io_error, 'a) bus_op" where
  "read_reply cmd magic n decode =
     io_then (cmd_capture cmd) (\<lambda>c.
     io_then (check_magic magic c) (\<lambda>_.
     io_then (read_words n) (\<lambda>ws. decoded (decode ws))))"

definition read_receipt_unlocked :: "(io_error, latch_receipt) bus_op" where
  "read_receipt_unlocked = read_reply GET_FBUF_LATCH_RECEIPT RECEIPT_MAGIC V5_RECEIPT_WORDS decode_receipt"

definition read_presentation_telemetry :: "(io_error, presentation_telemetry) bus_op" where
  "read_presentation_telemetry =
     guarded id (\<lambda>s.
       case fg_latch_capabilities s of
         None \<Rightarrow> (Inl NotNegotiated, s)
       | Some caps \<Rightarrow>
           if lcp_protocol caps \<noteq> V5 \<or> lcp_flags caps AND CAP_AUTHORITATIVE_PRESENTATION_TELEMETRY = 0
           then (Inl TelemetryUnsupported, s)
           else io_finally
             (read_reply GET_FBUF_PRESENTATION_TELEMETRY PRESENTATION_TELEMETRY_MAGIC
                V5_PRESENTATION_TELEMETRY_WORDS decode_presentation_telemetry)
             disable_io (disable_io s))"

definition read_rejection_diagnostics :: "(io_error, latch_rejection option) bus_op" where
  "read_rejection_diagnostics =
     guarded id (\<lambda>s.
       case fg_latch_capabilities s of
         None \<Rightarrow> (Inl NotNegotiated, s)
       | Some caps \<Rightarrow>
           if lcp_protocol caps \<noteq> V5 \<or> lcp_flags caps AND CAP_REJECTION_CONTEXT = 0 then (Inr None, s)
           else io_finally
             (io_then
               (read_reply GET_FBUF_LATCH_DIAGNOSTICS DIAGNOSTICS_MAGIC
                  (the (diagnostics_word_count (lcp_protocol caps)))
                  (decode_rejection_diagnostics (lcp_protocol caps)))
               (\<lambda>r. io_return (Some r)))
             disable_io (disable_io s))"

definition probe_set :: "(io_error, spi_acks) bus_op" where
  "probe_set = guarded id (io_finally (cmd_capture SET_FBUF_LATCH) disable_io)"

section \<open>Posting a frame\<close>

definition FB_EN :: u16 where "FB_EN = 0x8000"
definition FB_FMT_565 :: u16 where "FB_FMT_565 = 0b00100"
definition FB_FMT_RXB :: u16 where "FB_FMT_RXB = 0b10000"

record fbuf_geometry =
  gm_xoff :: u16
  gm_right :: u16
  gm_yoff :: u16
  gm_bottom :: u16
  gm_stride_bytes :: u16

record post_word =
  pw_index :: nat
  pw_transmitted :: u16
  pw_ack_high :: "u16 option"
  pw_ack_low :: "u16 option"
  pw_error_phase :: wire_error_phase
  pw_injected_skip :: bool

text \<open>The first \<open>word_count\<close> entries of the array of words.\<close>

record post_diagnostics =
  pd_protocol_version :: u16
  pd_sequence :: u16
  pd_command_word :: post_word
  pd_words :: "post_word list"
  pd_expected_word_count :: nat
  pd_transmitted_word_count :: nat
  pd_attempted_transaction :: u16
  pd_receipt_disposition :: u16
  pd_accepted_transaction :: u16
  pd_accepted_sequence :: u16
  pd_pending_transaction :: u16
  pd_pending_sequence :: u16
  pd_active_transaction :: u16
  pd_active_sequence :: u16
  pd_receipt_reject_reason :: u8
  pd_receipt_crc :: u16
  pd_injected_skip_index :: "nat option"

definition blank_post_word :: "nat \<Rightarrow> u16 \<Rightarrow> bool \<Rightarrow> post_word" where
  "blank_post_word index transmitted skip =
     \<lparr>pw_index = index, pw_transmitted = transmitted, pw_ack_high = None, pw_ack_low = None,
      pw_error_phase = NoPhase, pw_injected_skip = skip\<rparr>"

definition no_post_diagnostics :: post_diagnostics where
  "no_post_diagnostics =
     \<lparr>pd_protocol_version = 0, pd_sequence = 0, pd_command_word = blank_post_word 0 0 False, pd_words = [],
      pd_expected_word_count = 0, pd_transmitted_word_count = 0, pd_attempted_transaction = 0,
      pd_receipt_disposition = 0, pd_accepted_transaction = 0, pd_accepted_sequence = 0,
      pd_pending_transaction = 0, pd_pending_sequence = 0, pd_active_transaction = 0,
      pd_active_sequence = 0, pd_receipt_reject_reason = 0, pd_receipt_crc = 0, pd_injected_skip_index = None\<rparr>"

definition captured_post_word :: "spi_acks \<Rightarrow> post_word \<Rightarrow> post_word" where
  "captured_post_word c w = w\<lparr>pw_ack_high := Some (sc_ack_high c), pw_ack_low := Some (sc_ack_low c)\<rparr>"

definition failed_post_word :: "spi_capture_failure \<Rightarrow> post_word \<Rightarrow> post_word" where
  "failed_post_word f w = w\<lparr>pw_ack_high := sf_ack_high f, pw_error_phase := sf_phase f\<rparr>"

record post_attempt =
  pa_ack_high :: u16
  pa_ack_low :: u16
  pa_diagnostics :: post_diagnostics

record post_error =
  pe_source :: io_error
  pe_diagnostics :: post_diagnostics

definition post_error_from_io :: "io_error \<Rightarrow> post_error" where
  "post_error_from_io e = \<lparr>pe_source = e, pe_diagnostics = no_post_diagnostics\<rparr>"

text \<open>The words of the command, each sent once; the word at the injected index is left out.\<close>

fun post_words ::
  "nat option \<Rightarrow> nat \<Rightarrow> u16 list \<Rightarrow> post_diagnostics \<Rightarrow> (io_error \<times> post_diagnostics, post_diagnostics) bus_op" where
  "post_words skip_index index [] d s = (Inr d, s)"
| "post_words skip_index index (w # ws) d s =
     (let observed = blank_post_word index w (skip_index = Some index)
      in if pw_injected_skip observed then
           post_words skip_index (Suc index) ws (d\<lparr>pd_words := pd_words d @ [observed]\<rparr>) s
         else
           (case spi_capture_observed w s of
              (Inr c, s) \<Rightarrow>
                post_words skip_index (Suc index) ws
                  (d\<lparr>pd_words := pd_words d @ [captured_post_word c observed],
                    pd_transmitted_word_count := pd_transmitted_word_count d + 1\<rparr>) s
            | (Inl f, s) \<Rightarrow>
                (Inl (sf_error f, d\<lparr>pd_words := pd_words d @ [failed_post_word f observed]\<rparr>), s)))"

definition receipt_diagnostics :: "latch_receipt \<Rightarrow> post_diagnostics \<Rightarrow> post_diagnostics" where
  "receipt_diagnostics r d =
     d\<lparr>pd_attempted_transaction := lrc_attempted_transaction r, pd_receipt_disposition := lrc_disposition r,
       pd_accepted_transaction := lrc_accepted_transaction r, pd_accepted_sequence := lrc_accepted_sequence r,
       pd_pending_transaction := lrc_pending_transaction r, pd_pending_sequence := lrc_pending_sequence r,
       pd_active_transaction := lrc_active_transaction r, pd_active_sequence := lrc_active_sequence r,
       pd_receipt_reject_reason := lrc_reject_reason r, pd_receipt_crc := lrc_crc r\<rparr>"

text \<open>A receipt that leaves no doubt that this command was taken.\<close>

definition receipt_confirms :: "u16 \<Rightarrow> latch_receipt \<Rightarrow> bool" where
  "receipt_confirms sequence r \<longleftrightarrow>
     \<not> (\<not> receipt_accepted r \<or> lrc_attempted_sequence r \<noteq> sequence \<or> lrc_accepted_sequence r \<noteq> sequence \<or>
        lrc_accepted_transaction r \<noteq> lrc_attempted_transaction r \<or>
        \<not> (lrc_pending_transaction r = lrc_attempted_transaction r \<and> lrc_pending_sequence r = sequence \<or>
           lrc_active_transaction r = lrc_attempted_transaction r \<and> lrc_active_sequence r = sequence))"

definition set_payload :: "u16 \<Rightarrow> u32 \<Rightarrow> u16 \<Rightarrow> u16 \<Rightarrow> fbuf_geometry \<Rightarrow> latch_set_payload" where
  "set_payload sequence base_addr fb_width fb_height geometry =
     \<lparr>lsp_mode = FB_EN OR FB_FMT_565 OR FB_FMT_RXB, lsp_base = base_addr, lsp_width = fb_width,
      lsp_height = fb_height, lsp_destination_left = gm_xoff geometry, lsp_destination_right = gm_right geometry,
      lsp_destination_top = gm_yoff geometry, lsp_destination_bottom = gm_bottom geometry,
      lsp_stride = gm_stride_bytes geometry, lsp_sequence = sequence\<rparr>"

definition post_with_protocol ::
  "latch_protocol \<Rightarrow> latch_set_payload \<Rightarrow> nat option \<Rightarrow> (post_error, post_attempt) bus_op" where
  "post_with_protocol protocol payload injected s =
     (let words = encode_set protocol payload;
          sequence = lsp_sequence payload;
          skip_index = (case injected of None \<Rightarrow> None | Some i \<Rightarrow> if i < lsw_word_count words then Some i else None);
          d = no_post_diagnostics
            \<lparr>pd_protocol_version := protocol_version protocol, pd_sequence := sequence,
             pd_command_word := blank_post_word 0 SET_FBUF_LATCH False,
             pd_expected_word_count := lsw_word_count words, pd_injected_skip_index := skip_index\<rparr>
      in case spi_capture_observed SET_FBUF_LATCH (enable_io s) of
           (Inl f, s) \<Rightarrow>
             (Inl \<lparr>pe_source = sf_error f,
                pe_diagnostics = d\<lparr>pd_command_word := failed_post_word f (pd_command_word d)\<rparr>\<rparr>, disable_io s)
         | (Inr support, s) \<Rightarrow>
             (let d = d\<lparr>pd_command_word := captured_post_word support (pd_command_word d)\<rparr>
              in case post_words skip_index 0 (take (lsw_word_count words) (lsw_words words)) d s of
                   (Inl (e, d), s) \<Rightarrow> (Inl \<lparr>pe_source = e, pe_diagnostics = d\<rparr>, disable_io s)
                 | (Inr d, s) \<Rightarrow>
                     (case read_receipt_unlocked (disable_io s) of
                        (Inl e, s) \<Rightarrow> (Inl \<lparr>pe_source = e, pe_diagnostics = d\<rparr>, disable_io s)
                      | (Inr receipt, s) \<Rightarrow>
                          (let d = receipt_diagnostics receipt d
                           in if \<not> receipt_confirms sequence receipt
                              then (Inl \<lparr>pe_source = SetRejected receipt, pe_diagnostics = d\<rparr>, disable_io s)
                              else (Inr \<lparr>pa_ack_high = sc_ack_high support, pa_ack_low = sc_ack_low support,
                                     pa_diagnostics = d\<rparr>, disable_io s)))))"

definition post_latched ::
  "u16 \<Rightarrow> u32 \<Rightarrow> u16 \<Rightarrow> u16 \<Rightarrow> fbuf_geometry \<Rightarrow> nat option \<Rightarrow> (post_error, post_attempt) bus_op" where
  "post_latched sequence base_addr fb_width fb_height geometry injected =
     guarded post_error_from_io (\<lambda>s.
       let s = disable_io s
       in case map_option lcp_protocol (fg_latch_capabilities s) of
            None \<Rightarrow> (Inl (post_error_from_io NotNegotiated), s)
          | Some protocol \<Rightarrow>
              post_with_protocol protocol (set_payload sequence base_addr fb_width fb_height geometry) injected s)"

section \<open>The stock commands\<close>

record video_info =
  vi_raw_res :: u16
  vi_width :: u32
  vi_height :: u32
  vi_htime :: u32
  vi_vtime :: u32
  vi_ptime :: u32
  vi_vtimeh :: u32
  vi_ctime :: u32
  vi_pixrep :: u16
  vi_de_h :: u16
  vi_de_v :: u16
  vi_interlaced :: bool
  vi_rotated :: bool

definition video_info_of_words :: "u16 list \<Rightarrow> video_info" where
  "video_info_of_words ws =
     (let double = (\<lambda>i. join_words (ws ! i) (ws ! (i + 1)))
      in \<lparr>vi_raw_res = ws ! 0, vi_width = double 1, vi_height = double 3, vi_htime = double 5,
          vi_vtime = double 7, vi_ptime = double 9, vi_vtimeh = double 11, vi_ctime = double 13,
          vi_pixrep = ws ! 15, vi_de_h = ws ! 16, vi_de_v = ws ! 17,
          vi_interlaced = (ws ! 0 AND 0x100 \<noteq> 0), vi_rotated = (ws ! 0 AND 0x200 \<noteq> 0)\<rparr>)"

definition read_video_info :: "(io_error, video_info) bus_op" where
  "read_video_info =
     guarded id (io_finally
       (io_then (cmd_capture UIO_GET_VRES) (\<lambda>_.
        io_then (read_words 18) (\<lambda>ws. io_return (video_info_of_words ws)))) disable_io)"

record fb_params =
  fp_crc :: u8
  fp_arx :: u16
  fp_ary :: u16
  fp_arxy :: bool
  fp_fb_fmt :: u16
  fp_fb_width :: u16
  fp_fb_height :: u16
  fp_fb_enabled :: bool

definition fb_params_of_words :: "u16 \<Rightarrow> u16 list \<Rightarrow> fb_params" where
  "fb_params_of_words crc ws =
     \<lparr>fp_crc = ucast crc, fp_arx = ws ! 0 AND 0x0fff, fp_ary = ws ! 1 AND 0x0fff,
      fp_arxy = (ws ! 0 AND 0x1000 \<noteq> 0), fp_fb_fmt = ws ! 2, fp_fb_width = ws ! 3,
      fp_fb_height = ws ! 4, fp_fb_enabled = (ws ! 2 AND 0x40 \<noteq> 0)\<rparr>"

definition read_fb_params :: "(io_error, fb_params) bus_op" where
  "read_fb_params =
     guarded id (io_finally
       (io_then (cmd_capture UIO_GET_FB_PAR) (\<lambda>c.
        io_then (read_words 5) (\<lambda>ws. io_return (fb_params_of_words (sc_ack_high c) ws)))) disable_io)"

text \<open>Words sent for their effect, the replies unused.\<close>

fun write_words :: "u16 list \<Rightarrow> (io_error, unit) bus_op" where
  "write_words [] = io_return ()"
| "write_words (w # ws) = io_then (spi w) (\<lambda>_. write_words ws)"

section \<open>What the FPGA sees\<close>

text \<open>
  The receiver: a word is taken at the rising edge of the strobe while the bus is enabled, and a
  frame ends when it is disabled. It also notes whether every write came while the lock was held.
\<close>

record receiver =
  rx_io :: bool
  rx_strobe :: bool
  rx_frame :: "u16 list"
  rx_frames :: "u16 list list"
  rx_held :: bool
  rx_raced :: bool

definition rx_start :: receiver where
  "rx_start = \<lparr>rx_io = False, rx_strobe = False, rx_frame = [], rx_frames = [], rx_held = False, rx_raced = False\<rparr>"

definition rx_write :: "receiver \<Rightarrow> u32 \<Rightarrow> receiver" where
  "rx_write r v =
     (let io = bit v 20; strobe = bit v 17
      in \<lparr>rx_io = io, rx_strobe = strobe,
          rx_frame = (if io then (if strobe \<and> \<not> rx_strobe r then rx_frame r @ [ucast v] else rx_frame r) else []),
          rx_frames = (if io \<or> rx_frame r = [] then rx_frames r else rx_frames r @ [rx_frame r]),
          rx_held = rx_held r, rx_raced = (rx_raced r \<or> \<not> rx_held r)\<rparr>)"

fun rx_event :: "receiver \<Rightarrow> bus_event \<Rightarrow> receiver" where
  "rx_event r (GpoWrite v) = rx_write r v"
| "rx_event r BusLocked = r\<lparr>rx_held := True\<rparr>"
| "rx_event r BusUnlocked = r\<lparr>rx_held := False\<rparr>"

definition received :: "fpga \<Rightarrow> receiver" where
  "received s = foldl rx_event rx_start (fg_log s)"

lemma and_single_bit: "(v AND push_bit n 1 \<noteq> 0) = bit v n"
  for v :: "'a::len word"
  by (simp add: bit_iff_and_push_bit_not_eq_0)

lemma received_wr [simp]: "received (wr v s) = rx_write (received s) v"
  by (simp add: received_def wr_def)

lemma wr_fields [simp]:
  "fg_gpo (wr v s) = v" "fg_reads (wr v s) = fg_reads s" "fg_latch_capabilities (wr v s) = fg_latch_capabilities s"
  "fg_uio_lock (wr v s) = fg_uio_lock s" "fg_lock_depth (wr v s) = fg_lock_depth s" "fg_gpi (wr v s) = fg_gpi s"
  "fg_flock (wr v s) = fg_flock s" "fg_flocks (wr v s) = fg_flocks s"
  by (simp_all add: wr_def)

text \<open>The fields of the bus that no register access changes.\<close>

definition same_wiring :: "fpga \<Rightarrow> fpga \<Rightarrow> bool" where
  "same_wiring s s' \<longleftrightarrow> fg_latch_capabilities s' = fg_latch_capabilities s \<and> fg_uio_lock s' = fg_uio_lock s \<and>
     fg_lock_depth s' = fg_lock_depth s \<and> fg_gpi s' = fg_gpi s \<and> fg_flock s' = fg_flock s \<and>
     fg_flocks s' = fg_flocks s"

lemma same_wiring_refl [simp]: "same_wiring s s"
  by (simp add: same_wiring_def)

lemma same_wiring_trans [trans]: "same_wiring s s' \<Longrightarrow> same_wiring s' s'' \<Longrightarrow> same_wiring s s''"
  by (simp add: same_wiring_def)

text \<open>
  Shadow register and receiver agree, the strobe is low, the lock is held exactly while the depth is
  positive, and no write has raced.
\<close>

definition bus_ok :: "fpga \<Rightarrow> bool" where
  "bus_ok s \<longleftrightarrow> rx_io (received s) = bit (fg_gpo s) 20 \<and> \<not> bit (fg_gpo s) 17 \<and> \<not> rx_strobe (received s) \<and>
     (\<not> bit (fg_gpo s) 20 \<longrightarrow> rx_frame (received s) = []) \<and>
     fg_uio_lock s \<and> (rx_held (received s) \<longleftrightarrow> fg_lock_depth s \<noteq> 0) \<and> \<not> rx_raced (received s)"

text \<open>
  \<open>sends s s' ws n\<close>: on an enabled bus the words \<open>ws\<close> went out as part of the current frame, with at
  most \<open>n\<close> reads.
\<close>

definition sends :: "fpga \<Rightarrow> fpga \<Rightarrow> u16 list \<Rightarrow> nat \<Rightarrow> bool" where
  "sends s s' ws n \<longleftrightarrow> same_wiring s s' \<and> bus_ok s' \<and> bit (fg_gpo s') 20 \<and>
     rx_frames (received s') = rx_frames (received s) \<and> rx_frame (received s') = rx_frame (received s) @ ws \<and>
     fg_reads s' \<le> fg_reads s + n"

lemma sends_trans: "sends s s' ws n \<Longrightarrow> sends s' s'' ws' m \<Longrightarrow> sends s s'' (ws @ ws') (n + m)"
  unfolding sends_def by (auto intro: same_wiring_trans)

definition sending :: "fpga \<Rightarrow> bool" where
  "sending s \<longleftrightarrow> bus_ok s \<and> bit (fg_gpo s) 20 \<and> fg_lock_depth s \<noteq> 0"

lemma sends_sending: "sending s \<Longrightarrow> sends s s' ws n \<Longrightarrow> sending s'"
  by (simp add: sending_def sends_def same_wiring_def)

lemma wait_ack_effect:
  "wait_ack wanted n s = (x, s') \<Longrightarrow>
   same_wiring s s' \<and> received s' = received s \<and> fg_gpo s' = fg_gpo s \<and> fg_reads s' \<le> fg_reads s + n"
proof (induction n arbitrary: s)
  case (Suc n)
  let ?s = "s\<lparr>fg_reads := Suc (fg_reads s)\<rparr>"
  have "same_wiring s ?s" "received ?s = received s"
    by (simp_all add: same_wiring_def received_def)
  then show ?case
    using Suc.prems Suc.IH [of ?s] by (auto simp: rd_def split: if_splits intro: same_wiring_trans)
qed simp

lemma bus_bits:
  "bit STROBE n \<longleftrightarrow> n = 17" "bit IO_EN n \<longleftrightarrow> n = 20" "bit BIT31 n \<longleftrightarrow> n = 31"
proof -
  have *: "bit (push_bit k 1 :: u32) n \<longleftrightarrow> n = k" if "k < 32" for k
    using that by (auto simp: push_bit_of_1 bit_exp_iff)
  have "BIT31 = push_bit 31 1"
    by (simp add: BIT31_def)
  then show "bit STROBE n \<longleftrightarrow> n = 17" "bit IO_EN n \<longleftrightarrow> n = 20" "bit BIT31 n \<longleftrightarrow> n = 31"
    using * [of 17] * [of 20] * [of 31] unfolding STROBE_def IO_EN_def by simp_all
qed

lemma handshake_bits:
  fixes g :: u32 and w :: u16
  defines "v \<equiv> (g AND NOT (0xFFFF OR STROBE)) OR ucast w"
  shows "bit v 20 = bit g 20" "\<not> bit v 17" "bit (v OR STROBE) 20 = bit g 20" "bit (v OR STROBE) 17"
    "ucast (v OR STROBE) = w"
proof -
  have mask16: "(0xFFFF :: u32) = mask 16"
    by (simp add: mask_eq_exp_minus_1)
  show "bit v 20 = bit g 20" "\<not> bit v 17" "bit (v OR STROBE) 20 = bit g 20" "bit (v OR STROBE) 17"
    unfolding v_def mask16 by (auto simp: bit_simps bus_bits dest: bit_imp_le_length)
  show "ucast (v OR STROBE) = w"
    unfolding v_def mask16 by (rule bit_word_eqI) (auto simp: bit_simps bus_bits)
qed

lemma spi_sends:
  assumes "sending s" "spi_capture_observed w s = (res, s')"
  shows "sends s s' [w] (2 * SPIN_LIMIT)"
proof -
  define v where "v = (fg_gpo s AND NOT (0xFFFF OR STROBE)) OR ucast w"
  note bits = handshake_bits [of "fg_gpo s" w, folded v_def]
  have ok: "bus_ok s" "bit (fg_gpo s) 20" "fg_lock_depth s \<noteq> 0"
    using assms(1) by (simp_all add: sending_def)
  let ?s1 = "wr (v OR STROBE) (wr v s)"
  have s1: "rx_frames (received ?s1) = rx_frames (received s)" "rx_frame (received ?s1) = rx_frame (received s) @ [w]"
    "rx_held (received ?s1)" "\<not> rx_raced (received ?s1)" "rx_io (received ?s1)" "same_wiring s ?s1"
    "fg_reads ?s1 = fg_reads s"
    using ok bits by (simp_all add: rx_write_def bus_ok_def Let_def same_wiring_def)
  obtain x s2 where s2: "wait_ack True SPIN_LIMIT ?s1 = (x, s2)"
    by fastforce
  note e2 = wait_ack_effect [OF s2]
  have s2': "rx_frames (received (wr v s2)) = rx_frames (received s)" "rx_frame (received (wr v s2)) = rx_frame (received s) @ [w]"
    "bus_ok (wr v s2)" "same_wiring s (wr v s2)" "fg_reads (wr v s2) \<le> fg_reads s + SPIN_LIMIT" "bit (fg_gpo (wr v s2)) 20"
    using s1 e2 ok bits by (auto simp: rx_write_def bus_ok_def same_wiring_def Let_def)
  show ?thesis
  proof (cases x)
    case None
    then show ?thesis
      using assms(2) s2 s2' unfolding spi_capture_observed_def v_def [symmetric]
      by (auto simp: Let_def sends_def)
  next
    case (Some hi)
    obtain y s3 where s3: "wait_ack False SPIN_LIMIT (wr v s2) = (y, s3)"
      by fastforce
    note e3 = wait_ack_effect [OF s3]
    have "s' = s3"
      using assms(2) s2 s3 Some unfolding spi_capture_observed_def v_def [symmetric]
      by (cases y) (simp_all add: Let_def)
    then show ?thesis
      using e3 s2' unfolding sends_def bus_ok_def same_wiring_def by auto
  qed
qed

section \<open>Streams of words\<close>

text \<open>
  An operation on an enabled bus sends a prefix of a fixed list of words, all of it when it succeeds,
  and its result has a property.
\<close>

definition streamed :: "fpga \<Rightarrow> 'e + 'a \<Rightarrow> fpga \<Rightarrow> u16 list \<Rightarrow> ('a \<Rightarrow> bool) \<Rightarrow> bool" where
  "streamed s res s' W Q \<longleftrightarrow>
     (\<exists>k \<le> length W. sends s s' (take k W) (2 * SPIN_LIMIT * k) \<and>
        (\<forall>a. res = Inr a \<longrightarrow> k = length W \<and> Q a))"

definition streams :: "('e, 'a) bus_op \<Rightarrow> u16 list \<Rightarrow> ('a \<Rightarrow> bool) \<Rightarrow> bool" where
  "streams m W Q \<longleftrightarrow> (\<forall>s. sending s \<longrightarrow> streamed s (fst (m s)) (snd (m s)) W Q)"

lemma streamsI: "(\<And>s res s'. sending s \<Longrightarrow> m s = (res, s') \<Longrightarrow> streamed s res s' W Q) \<Longrightarrow> streams m W Q"
  by (simp add: streams_def)

lemma streamsD: "streams m W Q \<Longrightarrow> sending s \<Longrightarrow> m s = (res, s') \<Longrightarrow> streamed s res s' W Q"
  unfolding streams_def by (metis fst_conv snd_conv)

lemma sends_nothing: "sending s \<Longrightarrow> sends s s [] 0"
  by (simp add: sending_def sends_def)

lemma streams_return: "Q a \<Longrightarrow> streams (io_return a) [] Q"
  using sends_nothing by (auto simp: streams_def streamed_def io_return_def)

lemma streams_fail: "streams (io_fail e) W Q"
  using sends_nothing unfolding streams_def streamed_def io_fail_def by (fastforce intro: exI [of _ 0])

lemma streams_map_err:
  assumes "streams m W Q"
  shows "streams (io_map_err f m) W Q"
proof (rule streamsI)
  fix s res s'
  assume s: "sending s" and run: "io_map_err f m s = (res, s')"
  obtain x s1 where m: "m s = (x, s1)"
    by fastforce
  then have "s' = s1" "\<And>a. res = Inr a \<Longrightarrow> x = Inr a"
    using run by (auto simp: io_map_err_def split: sum.splits)
  then show "streamed s res s' W Q"
    using streamsD [OF assms s m] unfolding streamed_def by metis
qed

lemma streams_weaken: "streams m W Q \<Longrightarrow> (\<And>a. Q a \<Longrightarrow> R a) \<Longrightarrow> streams m W R"
  unfolding streams_def streamed_def by metis

lemma streams_then:
  assumes m: "streams m W Q" and f: "\<And>a. Q a \<Longrightarrow> streams (f a) W' R"
  shows "streams (io_then m f) (W @ W') R"
proof (rule streamsI)
  fix s res s'
  assume s: "sending s" and run: "io_then m f s = (res, s')"
  obtain x s1 where m1: "m s = (x, s1)"
    by fastforce
  obtain k where k: "k \<le> length W" "sends s s1 (take k W) (2 * SPIN_LIMIT * k)"
    "\<forall>a. x = Inr a \<longrightarrow> k = length W \<and> Q a"
    using streamsD [OF m s m1] unfolding streamed_def by metis
  show "streamed s res s' (W @ W') R"
  proof (cases x)
    case (Inl e)
    then have "res = Inl e" "s' = s1"
      using run m1 by (simp_all add: io_then_def)
    then show ?thesis
      using k(1,2) unfolding streamed_def by (intro exI [of _ k]) simp
  next
    case (Inr a)
    then have a: "k = length W" "Q a" and rest: "f a s1 = (res, s')"
      using k(3) run m1 by (simp_all add: io_then_def)
    obtain j where j: "j \<le> length W'" "sends s1 s' (take j W') (2 * SPIN_LIMIT * j)"
      "\<forall>b. res = Inr b \<longrightarrow> j = length W' \<and> R b"
      using streamsD [OF f [OF a(2)] sends_sending [OF s k(2)] rest] unfolding streamed_def by metis
    have "sends s s' (take (k + j) (W @ W')) (2 * SPIN_LIMIT * (k + j))"
      using sends_trans [OF k(2) j(2)] a(1) by (simp add: add_mult_distrib2)
    then show ?thesis
      using j a(1) unfolding streamed_def by (intro exI [of _ "k + j"]) simp
  qed
qed

lemma streams_spi_observed: "streams (spi_capture_observed w) [w] (\<lambda>_. True)"
proof (rule streamsI)
  fix s res s'
  assume "sending s" "spi_capture_observed w s = (res, s')"
  from spi_sends [OF this] show "streamed s res s' [w] (\<lambda>_. True)"
    unfolding streamed_def by (intro exI [of _ 1]) simp
qed

lemma streams_spi_capture: "streams (spi_capture w) [w] (\<lambda>_. True)"
  unfolding spi_capture_def by (intro streams_map_err streams_spi_observed)

lemma streams_spi: "streams (spi w) [w] (\<lambda>_. True)"
  using streams_then [OF streams_spi_capture, of "\<lambda>c. io_return (sc_ack_low c)" "[]" "\<lambda>_. True" w]
  by (simp add: spi_def streams_return)

lemma streams_read_words: "streams (read_words n) (replicate n 0) (\<lambda>ws. length ws = n)"
proof (induction n)
  case (Suc n)
  have "streams (io_then (read_words n) (\<lambda>ws. io_return (sc_ack_low c # ws))) (replicate n 0)
      (\<lambda>ws. length ws = Suc n)" for c
    using streams_then [OF Suc, of "\<lambda>ws. io_return (sc_ack_low c # ws)" "[]" "\<lambda>ws. length ws = Suc n"]
    by (simp add: streams_return)
  from streams_then [OF streams_spi_capture [of 0] this] show ?case
    by simp
qed (simp add: streams_return)

lemma streams_write_words: "streams (write_words ws) ws (\<lambda>_. True)"
proof (induction ws)
  case (Cons w ws)
  from streams_then [OF streams_spi [of w] Cons] show ?case
    by simp
qed (simp add: streams_return)

lemma streams_check_magic: "streams (check_magic magic c) [] (\<lambda>_. True)"
  by (simp add: check_magic_def streams_fail streams_return)

lemma streams_decoded: "streams (decoded r) [] (\<lambda>a. r = Inr a)"
  by (cases r) (simp_all add: decoded_def streams_fail streams_return)

text \<open>Adding one observation after a word keeps a stream a stream.\<close>

lemma streams_spi_case:
  assumes "\<And>c. streams (f c) W Q"
  shows "streams (\<lambda>s. case spi_capture_observed w s of (Inr c, s) \<Rightarrow> f c s | (Inl e, s) \<Rightarrow> (Inl (g e), s)) (w # W) Q"
proof -
  have "(\<lambda>s. case spi_capture_observed w s of (Inr c, s) \<Rightarrow> f c s | (Inl e, s) \<Rightarrow> (Inl (g e), s)) =
      io_then (io_map_err g (spi_capture_observed w)) f"
    by (intro ext) (simp add: io_then_def io_map_err_def split: prod.split sum.split)
  then show ?thesis
    using streams_then [OF streams_map_err [OF streams_spi_observed] assms] by simp
qed

lemma streams_status_words:
  "streams (status_words n index words attempt) (replicate n 0) (\<lambda>(ws, _). length ws = length words + n)"
proof (induction n arbitrary: index words attempt)
  case 0
  then show ?case
    using streams_return [of "\<lambda>(ws, _). length ws = length words" "(words, attempt)"] by (simp add: io_return_def [abs_def])
next
  case (Suc n)
  have step: "status_words (Suc n) index words attempt =
      (\<lambda>s. case spi_capture_observed 0 s of
        (Inr c, s) \<Rightarrow>
          status_words n (Suc index) (words @ [sc_ack_low c])
            (attempt\<lparr>wa_response_words := wa_response_words attempt @ [captured_word c (blank_word index 0)]\<rparr>) s
      | (Inl f, s) \<Rightarrow>
          (Inl (f, attempt\<lparr>wa_response_words := wa_response_words attempt @ [failed_word f (blank_word index 0)],
             wa_result := TransportError\<rparr>), s))"
    by (intro ext) simp
  show ?case
    unfolding step replicate_Suc using Suc.IH by (intro streams_spi_case) (fastforce elim: streams_weaken)
qed

lemma streams_post_words:
  "streams (post_words skip_index index ws d)
     (map snd (filter (\<lambda>(i, w). skip_index \<noteq> Some i) (enumerate index ws))) (\<lambda>_. True)"
proof (induction ws arbitrary: index d)
  case Nil
  then show ?case
    using streams_return [of "\<lambda>_. True" d] by (simp add: io_return_def [abs_def])
next
  case (Cons w ws)
  show ?case
  proof (cases "skip_index = Some index")
    case True
    then have "post_words skip_index index (w # ws) d =
        post_words skip_index (Suc index) ws (d\<lparr>pd_words := pd_words d @ [blank_post_word index w True]\<rparr>)"
      by (intro ext) (simp add: blank_post_word_def)
    then show ?thesis
      using Cons True by simp
  next
    case False
    have step: "post_words skip_index index (w # ws) d =
        (\<lambda>s. case spi_capture_observed w s of
              (Inr c, s) \<Rightarrow>
                post_words skip_index (Suc index) ws
                  (d\<lparr>pd_words := pd_words d @ [captured_post_word c (blank_post_word index w False)],
                    pd_transmitted_word_count := pd_transmitted_word_count d + 1\<rparr>) s
            | (Inl f, s) \<Rightarrow>
                (Inl (sf_error f, d\<lparr>pd_words := pd_words d @ [failed_post_word f (blank_post_word index w False)]\<rparr>), s))"
      using False by (intro ext) (simp add: blank_post_word_def Let_def cong: prod.case_cong sum.case_cong)
    show ?thesis
      unfolding step using streams_spi_case [OF Cons.IH] False by simp
  qed
qed

section \<open>Frames\<close>

text \<open>A disabled bus under the lock.\<close>

definition quiet :: "fpga \<Rightarrow> bool" where
  "quiet s \<longleftrightarrow> bus_ok s \<and> \<not> bit (fg_gpo s) 20 \<and> fg_lock_depth s \<noteq> 0"

text \<open>\<open>in_frame s s' ws n\<close>: since \<open>s\<close> the bus was enabled and \<open>ws\<close> sent.\<close>

definition in_frame :: "fpga \<Rightarrow> fpga \<Rightarrow> u16 list \<Rightarrow> nat \<Rightarrow> bool" where
  "in_frame s s' ws n \<longleftrightarrow> same_wiring s s' \<and> sending s' \<and> rx_frames (received s') = rx_frames (received s) \<and>
     rx_frame (received s') = ws \<and> fg_reads s' \<le> fg_reads s + n"

text \<open>\<open>emits s s' F n\<close>: the frames \<open>F\<close> went out and the bus is disabled again.\<close>

definition emits :: "fpga \<Rightarrow> fpga \<Rightarrow> u16 list list \<Rightarrow> nat \<Rightarrow> bool" where
  "emits s s' F n \<longleftrightarrow> same_wiring s s' \<and> quiet s' \<and> rx_frames (received s') = rx_frames (received s) @ F \<and>
     fg_reads s' \<le> fg_reads s + n"

lemma emits_refl: "quiet s \<Longrightarrow> emits s s [] 0"
  by (simp add: emits_def)

lemma emits_trans: "emits s s' F n \<Longrightarrow> emits s' s'' G m \<Longrightarrow> emits s s'' (F @ G) (n + m)"
  unfolding emits_def by (auto intro: same_wiring_trans)

lemma emits_quiet: "emits s s' F n \<Longrightarrow> quiet s'"
  by (simp add: emits_def)

lemma emits_le: "emits s s' F n \<Longrightarrow> n \<le> m \<Longrightarrow> emits s s' F m"
  unfolding emits_def by linarith

lemma quiet_frame: "quiet s \<Longrightarrow> rx_frame (received s) = []"
  by (simp add: quiet_def bus_ok_def)

lemma enable_in_frame: "quiet s \<Longrightarrow> in_frame s (enable_io s) [] 0"
  by (auto simp: quiet_def in_frame_def enable_io_def spi_en_def Let_def sending_def bus_ok_def rx_write_def
      same_wiring_def bit_simps bus_bits)

lemma disable_quiet: "quiet s \<Longrightarrow> emits s (disable_io s) [] 0"
  by (auto simp: quiet_def emits_def disable_io_def spi_en_def Let_def bus_ok_def rx_write_def
      same_wiring_def bit_simps bus_bits)

lemma reset_quiet: "quiet s \<Longrightarrow> emits s (reset_spi_transport s) [] 0"
  by (auto simp: quiet_def emits_def reset_spi_transport_def bus_ok_def rx_write_def Let_def
      same_wiring_def bit_simps bus_bits)

lemma disable_frame: "in_frame s s' ws n \<Longrightarrow> ws \<noteq> [] \<Longrightarrow> emits s (disable_io s') [ws] n"
  by (auto simp: quiet_def emits_def disable_io_def spi_en_def Let_def bus_ok_def rx_write_def in_frame_def
      sending_def same_wiring_def bit_simps bus_bits)

lemma in_frame_sends: "in_frame s s' ws n \<Longrightarrow> sends s' s'' ws' m \<Longrightarrow> in_frame s s'' (ws @ ws') (n + m)"
  using sends_sending unfolding in_frame_def by (auto simp: sends_def intro: same_wiring_trans)

lemma in_frame_streams:
  assumes "in_frame s s1 ws n" "streams m W Q" "m s1 = (res, s2)"
  obtains k where "k \<le> length W" "in_frame s s2 (ws @ take k W) (n + 2 * SPIN_LIMIT * k)"
    "\<forall>a. res = Inr a \<longrightarrow> k = length W \<and> Q a"
proof -
  have "sending s1"
    using assms(1) by (simp add: in_frame_def)
  then obtain k where k: "k \<le> length W" "sends s1 s2 (take k W) (2 * SPIN_LIMIT * k)"
    "\<forall>a. res = Inr a \<longrightarrow> k = length W \<and> Q a"
    using streamsD [OF assms(2) _ assms(3)] unfolding streamed_def by metis
  show thesis
    using that [OF k(1) in_frame_sends [OF assms(1) k(2)] k(3)] .
qed

lemma command_in_frame:
  assumes "quiet s" "spi_capture_observed cmd (enable_io s) = (res, s1)"
  shows "in_frame s s1 [cmd] (2 * SPIN_LIMIT)"
proof -
  have "sending (enable_io s)"
    using enable_in_frame [OF assms(1)] by (simp add: in_frame_def)
  from in_frame_sends [OF enable_in_frame [OF assms(1)] spi_sends [OF this assms(2)]] show ?thesis
    by simp
qed

lemma command_streams:
  assumes "quiet s" "spi_capture_observed cmd (enable_io s) = (res, s1)" "streams m W Q" "m s1 = (res', s2)"
  obtains k where "k \<le> length W" "in_frame s s2 (cmd # take k W) (2 * SPIN_LIMIT * Suc k)"
    "\<forall>a. res' = Inr a \<longrightarrow> k = length W \<and> Q a"
  using in_frame_streams [OF command_in_frame [OF assms(1,2)] assms(3,4)] by (auto simp: algebra_simps)

text \<open>A command word, a stream of words when the command was answered, and the bus disabled in any case.\<close>

definition framed :: "(io_error \<Rightarrow> 'e) \<Rightarrow> u16 \<Rightarrow> (spi_acks \<Rightarrow> ('e, 'a) bus_op) \<Rightarrow> ('e, 'a) bus_op" where
  "framed f cmd body = io_finally (io_then (io_map_err f (cmd_capture cmd)) body) disable_io"

lemma cmd_capture_cases:
  assumes "quiet s" "cmd_capture cmd s = (res, s1)"
  shows "(\<exists>e. res = Inl e \<and> emits s s1 [[cmd]] (2 * SPIN_LIMIT)) \<or>
    (\<exists>c. res = Inr c \<and> in_frame s s1 [cmd] (2 * SPIN_LIMIT))"
proof -
  obtain x s2 where x: "spi_capture_observed cmd (enable_io s) = (x, s2)"
    by fastforce
  note frame = command_in_frame [OF assms(1) x]
  show ?thesis
  proof (cases x)
    case (Inl f)
    then show ?thesis
      using assms(2) x disable_frame [OF frame] by (auto simp: cmd_capture_def spi_capture_def io_map_err_def)
  next
    case (Inr c)
    then show ?thesis
      using assms(2) x frame by (auto simp: cmd_capture_def spi_capture_def io_map_err_def)
  qed
qed

lemma framed_emits:
  assumes quiet: "quiet s" and run: "framed f cmd body s = (res, s')" and body: "\<And>c. streams (body c) W Q"
  obtains k where "k \<le> length W" "emits s s' [cmd # take k W] (2 * SPIN_LIMIT * Suc k)"
    "\<forall>a. res = Inr a \<longrightarrow> k = length W \<and> Q a"
proof -
  obtain x s1 where x: "cmd_capture cmd s = (x, s1)"
    by fastforce
  show thesis
  proof (cases x)
    case (Inl e)
    then have "res = Inl (f e)" "s' = disable_io s1" and one: "emits s s1 [[cmd]] (2 * SPIN_LIMIT)"
      using run x cmd_capture_cases [OF quiet x] by (auto simp: framed_def io_finally_def io_then_def io_map_err_def)
    then show thesis
      using that [of 0] emits_trans [OF one disable_quiet [OF emits_quiet [OF one]]] by simp
  next
    case (Inr c)
    then have frame: "in_frame s s1 [cmd] (2 * SPIN_LIMIT)"
      using cmd_capture_cases [OF quiet x] by simp
    obtain s2 where s2: "body c s1 = (res, s2)" "s' = disable_io s2"
      using run x Inr by (auto simp: framed_def io_finally_def io_then_def io_map_err_def split: prod.splits)
    obtain k where k: "k \<le> length W" "in_frame s s2 ([cmd] @ take k W) (2 * SPIN_LIMIT + 2 * SPIN_LIMIT * k)"
      "\<forall>a. res = Inr a \<longrightarrow> k = length W \<and> Q a"
      using in_frame_streams [OF frame body s2(1)] by metis
    have "emits s s' [cmd # take k W] (2 * SPIN_LIMIT * Suc k)"
      using disable_frame [OF k(2)] s2(2) by (simp add: algebra_simps)
    then show thesis
      using that [OF k(1) _ k(3)] by simp
  qed
qed

lemma read_reply_framed:
  "io_finally (read_reply cmd magic n decode) disable_io =
   framed id cmd (\<lambda>c. io_then (check_magic magic c) (\<lambda>_. io_then (read_words n) (\<lambda>ws. decoded (decode ws))))"
  by (intro ext) (simp add: framed_def read_reply_def io_finally_def io_then_def io_map_err_def split: prod.split sum.split)

lemma streams_reply:
  "streams (io_then (check_magic magic c) (\<lambda>_. io_then (read_words n) (\<lambda>ws. decoded (decode ws)))) (replicate n 0)
     (\<lambda>a. \<exists>ws. length ws = n \<and> decode ws = Inr a)"
proof -
  have "streams (decoded (decode ws)) [] (\<lambda>a. \<exists>ws. length ws = n \<and> decode ws = Inr a)" if "length ws = n" for ws
    using that by (intro streams_weaken [OF streams_decoded]) auto
  from streams_then [OF streams_check_magic streams_then [OF streams_read_words this]] show ?thesis
    by simp
qed

lemma read_reply_emits:
  assumes "quiet s" "io_finally (read_reply cmd magic n decode) disable_io s = (res, s')"
  obtains k where "k \<le> n" "emits s s' [cmd # replicate k 0] (2 * SPIN_LIMIT * Suc k)"
    "\<forall>a. res = Inr a \<longrightarrow> k = n \<and> (\<exists>ws. length ws = n \<and> decode ws = Inr a)"
  using framed_emits [OF assms(1) assms(2) [unfolded read_reply_framed] streams_reply] by auto

section \<open>The commands as frames\<close>

lemma status_once_emits:
  assumes quiet: "quiet s" and run: "read_status_once protocol s = (res, s')"
  obtains k where "k \<le> V5_STATUS_WORDS" "emits s s' [GET_FBUF_LATCH # replicate k 0] (2 * SPIN_LIMIT * Suc k)"
    "\<forall>a. res = Inr a \<longrightarrow> k = V5_STATUS_WORDS \<and>
       (\<exists>words command st. decode_status protocol words = Inr st \<and> ss_status a = latched_status_of command st)"
proof -
  obtain x s1 where x: "spi_capture_observed GET_FBUF_LATCH (enable_io s) = (x, s1)"
    by fastforce
  note frame = command_in_frame [OF quiet x]
  show thesis
  proof (cases x)
    case (Inl f)
    then have "\<exists>e. res = Inl e" "s' = disable_io s1"
      using run x by (auto simp: read_status_once_def Let_def)
    then show thesis
      using that [of 0] disable_frame [OF frame] by auto
  next
    case (Inr c)
    let ?a = "\<lparr>wa_command = GET_FBUF_LATCH, wa_command_word = captured_word c (blank_word 0 GET_FBUF_LATCH),
            wa_response_words = [], wa_result = WireEmpty\<rparr>"
    obtain y s2 where y: "status_words (status_word_count protocol) 0 [] ?a s1 = (y, s2)"
      by fastforce
    obtain k where k0: "k \<le> length (replicate (status_word_count protocol) (0 :: u16))"
      "in_frame s s2 (GET_FBUF_LATCH # take k (replicate (status_word_count protocol) 0)) (2 * SPIN_LIMIT * Suc k)"
      "\<forall>a. y = Inr a \<longrightarrow> k = length (replicate (status_word_count protocol) (0 :: u16)) \<and>
         (case a of (ws, _) \<Rightarrow> length ws = length ([] :: u16 list) + status_word_count protocol)"
      by (rule command_streams [OF quiet x streams_status_words y])
    have "take k (replicate (status_word_count protocol) 0) = replicate k (0 :: u16)"
      using k0(1) by (simp only: take_replicate length_replicate min_absorb1)
    then have k: "k \<le> V5_STATUS_WORDS"
      "in_frame s s2 (GET_FBUF_LATCH # replicate k 0) (2 * SPIN_LIMIT * Suc k)"
      "\<forall>a. y = Inr a \<longrightarrow> k = V5_STATUS_WORDS"
      using k0 by (auto simp: status_word_count_def)
    have "s' = disable_io s2 \<and> (\<forall>a. res = Inr a \<longrightarrow> k = V5_STATUS_WORDS \<and>
        (\<exists>words command st. decode_status protocol words = Inr st \<and> ss_status a = latched_status_of command st))"
    proof (cases y)
      case Inl_y: (Inl e)
      then show ?thesis
        using run by (cases e) (auto simp: read_status_once_def Let_def x Inr y)
    next
      case Inr_y: (Inr p)
      obtain words attempt where p: "p = (words, attempt)"
        by fastforce
      show ?thesis
      proof (cases "decode_status protocol words")
        case (Inl e)
        then show ?thesis
          using run by (auto simp: read_status_once_def Let_def x Inr y Inr_y p)
      next
        case Inr_st: (Inr st)
        then have "s' = disable_io s2" "\<And>a. res = Inr a \<Longrightarrow> ss_status a = latched_status_of c st"
          using run by (auto simp: read_status_once_def Let_def x Inr y Inr_y p)
        then show ?thesis
          using k(3) Inr_y Inr_st by blast
      qed
    qed
    then show thesis
      using that [OF k(1)] disable_frame [OF k(2)] by simp
  qed
qed

lemma status_retrying_emits:
  assumes quiet: "quiet s" and run: "read_status_retrying protocol s = (res, s')"
  obtains k j where "k \<le> V5_STATUS_WORDS" "j \<le> V5_STATUS_WORDS"
    "emits s s' [GET_FBUF_LATCH # replicate k 0] (2 * (2 * SPIN_LIMIT * Suc V5_STATUS_WORDS)) \<or>
     emits s s' [GET_FBUF_LATCH # replicate k 0, GET_FBUF_LATCH # replicate j 0] (2 * (2 * SPIN_LIMIT * Suc V5_STATUS_WORDS))"
    "\<forall>a. res = Inr a \<longrightarrow>
       (\<exists>words command st. decode_status protocol words = Inr st \<and> ss_status a = latched_status_of command st)"
proof -
  obtain x s1 where x: "read_status_once protocol s = (x, s1)"
    by fastforce
  obtain k where k: "k \<le> V5_STATUS_WORDS" "emits s s1 [GET_FBUF_LATCH # replicate k 0] (2 * SPIN_LIMIT * Suc k)"
    "\<forall>a. x = Inr a \<longrightarrow> k = V5_STATUS_WORDS \<and>
       (\<exists>words command st. decode_status protocol words = Inr st \<and> ss_status a = latched_status_of command st)"
    using status_once_emits [OF quiet x] .
  have k_le: "2 * SPIN_LIMIT * Suc k \<le> 2 * SPIN_LIMIT * Suc V5_STATUS_WORDS"
    using k(1) by (intro mult_le_mono2) simp
  have one: "emits s s1 [GET_FBUF_LATCH # replicate k 0] (2 * (2 * SPIN_LIMIT * Suc V5_STATUS_WORDS))"
    by (rule emits_le [OF k(2)]) (use k_le in linarith)
  show thesis
  proof (cases "s' = s1 \<and> (\<forall>a. res = Inr a \<longrightarrow> x = Inr a)")
    case True
    then show thesis
      using that [OF k(1) k(1)] one k(3) by blast
  next
    case False
    then obtain first where first: "x = Inl first"
      using run x by (cases x) (auto simp: read_status_retrying_def)
    then have again: "is_timed_out (sre_source first) \<or> protocol = V5 \<and> is_invalid_data (sre_source first)"
      using run x False by (auto simp: read_status_retrying_def split: if_splits)
    obtain y s2 where y: "read_status_once protocol (reset_spi_transport s1) = (y, s2)"
      by fastforce
    have "s' = s2" "\<And>a. res = Inr a \<Longrightarrow> \<exists>b. y = Inr b \<and> ss_status a = ss_status b"
      using run x first again y by (auto simp: read_status_retrying_def split: sum.splits)
    moreover obtain j where j: "j \<le> V5_STATUS_WORDS"
      "emits (reset_spi_transport s1) s2 [GET_FBUF_LATCH # replicate j 0] (2 * SPIN_LIMIT * Suc j)"
      "\<forall>a. y = Inr a \<longrightarrow> j = V5_STATUS_WORDS \<and>
       (\<exists>words command st. decode_status protocol words = Inr st \<and> ss_status a = latched_status_of command st)"
      using status_once_emits [OF emits_quiet [OF reset_quiet [OF emits_quiet [OF k(2)]]] y] .
    moreover have j_le: "2 * SPIN_LIMIT * Suc j \<le> 2 * SPIN_LIMIT * Suc V5_STATUS_WORDS"
      using j(1) by (intro mult_le_mono2) simp
    moreover have "emits s s2 ([GET_FBUF_LATCH # replicate k 0] @ [] @ [GET_FBUF_LATCH # replicate j 0])
        (2 * SPIN_LIMIT * Suc k + (0 + 2 * SPIN_LIMIT * Suc j))"
      using emits_trans [OF k(2) emits_trans [OF reset_quiet [OF emits_quiet [OF k(2)]] j(2)]] .
    then have "emits s s2 [GET_FBUF_LATCH # replicate k 0, GET_FBUF_LATCH # replicate j 0]
        (2 * (2 * SPIN_LIMIT * Suc V5_STATUS_WORDS))"
      unfolding append_Nil append_Cons add_0 by (rule emits_le) (use k_le j_le in linarith)
    ultimately show thesis
      using that [OF k(1) j(1)] by metis
  qed
qed

text \<open>The words a post sends, without the injected omission.\<close>

definition sent_words :: "latch_protocol \<Rightarrow> latch_set_payload \<Rightarrow> nat option \<Rightarrow> u16 list" where
  "sent_words protocol payload injected =
     map snd (filter (\<lambda>(i, w). injected \<noteq> Some i)
       (enumerate 0 (take (set_word_count protocol) (lsw_words (encode_set protocol payload)))))"

lemma sent_words_length: "length (sent_words protocol payload injected) \<le> V5_SET_WORDS"
proof -
  have "length (enumerate 0 (take (set_word_count protocol) (lsw_words (encode_set protocol payload)))) \<le> V5_SET_WORDS"
    by (simp add: set_word_count_def)
  then show ?thesis
    unfolding sent_words_def length_map using length_filter_le le_trans by blast
qed

lemma skip_index_sent_words:
  "map snd (filter (\<lambda>(i, w).
       (case injected of None \<Rightarrow> None | Some i \<Rightarrow> if i < set_word_count protocol then Some i else None) \<noteq> Some i)
     (enumerate 0 (take (set_word_count protocol) (lsw_words (encode_set protocol payload))))) =
   sent_words protocol payload injected"
proof -
  have "filter (\<lambda>(i, w).
       (case injected of None \<Rightarrow> None | Some i \<Rightarrow> if i < set_word_count protocol then Some i else None) \<noteq> Some i)
     (enumerate 0 (take (set_word_count protocol) ws)) =
     filter (\<lambda>(i, w). injected \<noteq> Some i) (enumerate 0 (take (set_word_count protocol) ws))" for ws :: "u16 list"
    by (rule filter_cong) (auto simp: in_set_enumerate_eq split: option.splits)
  then show ?thesis
    unfolding sent_words_def by simp
qed

lemma sent_words_all: "sent_words protocol payload None = lsw_words (encode_set protocol payload)"
proof -
  have "length (lsw_words (encode_set protocol payload)) = set_word_count protocol"
    by (simp add: encode_set_words payload_words_def set_word_count_def word_counts)
  moreover have "filter (\<lambda>(i, w). True) xs = xs" for xs :: "(nat \<times> u16) list"
    by (induction xs) auto
  ultimately show ?thesis
    by (simp add: sent_words_def)
qed

lemma emits_two:
  assumes "emits s s1 [F] (2 * SPIN_LIMIT * Suc k)" "emits s1 s2 [] 0" "emits s2 s3 [G] (2 * SPIN_LIMIT * Suc j)"
    "k \<le> a" "j \<le> b"
  shows "emits s s3 [F, G] (2 * SPIN_LIMIT * (Suc a + Suc b))"
proof -
  have "emits s s3 [F, G] (2 * SPIN_LIMIT * Suc k + (0 + 2 * SPIN_LIMIT * Suc j))"
    using emits_trans [OF assms(1) emits_trans [OF assms(2,3)]] by simp
  moreover have "2 * SPIN_LIMIT * Suc k + (0 + 2 * SPIN_LIMIT * Suc j) \<le> 2 * SPIN_LIMIT * (Suc a + Suc b)"
    using assms(4,5) by (simp only: add_0 add_mult_distrib2 [symmetric] mult_le_mono2 add_mono Suc_le_mono)
  ultimately show ?thesis
    by (rule emits_le)
qed

lemma emits_one: "emits s s1 [F] (2 * SPIN_LIMIT * Suc k) \<Longrightarrow> k \<le> a \<Longrightarrow> emits s s1 [F] (2 * SPIN_LIMIT * (Suc a + Suc b))"
  by (erule emits_le) (intro mult_le_mono2, simp)

lemma post_emits:
  assumes quiet: "quiet s" and run: "post_with_protocol protocol payload injected s = (res, s')"
  defines "W \<equiv> sent_words protocol payload injected"
  obtains F where "emits s s' F (2 * SPIN_LIMIT * (Suc V5_SET_WORDS + Suc V5_RECEIPT_WORDS))"
    "(\<exists>k \<le> length W. F = [SET_FBUF_LATCH # take k W]) \<or>
     (\<exists>j \<le> V5_RECEIPT_WORDS. F = [SET_FBUF_LATCH # W, GET_FBUF_LATCH_RECEIPT # replicate j 0])"
    "\<forall>a. res = Inr a \<longrightarrow> F = [SET_FBUF_LATCH # W, GET_FBUF_LATCH_RECEIPT # replicate V5_RECEIPT_WORDS 0] \<and>
       (\<exists>ws receipt. decode_receipt ws = Inr receipt \<and> receipt_confirms (lsp_sequence payload) receipt)"
proof -
  let ?words = "encode_set protocol payload"
  let ?skip = "case injected of None \<Rightarrow> None | Some i \<Rightarrow> if i < lsw_word_count ?words then Some i else None"
  let ?d = "no_post_diagnostics
            \<lparr>pd_protocol_version := protocol_version protocol, pd_sequence := lsp_sequence payload,
             pd_command_word := blank_post_word 0 SET_FBUF_LATCH False,
             pd_expected_word_count := lsw_word_count ?words, pd_injected_skip_index := ?skip\<rparr>"
  have word_count: "lsw_word_count ?words = set_word_count protocol"
    by (simp add: encode_set_def Let_def)
  have W_le: "length W \<le> V5_SET_WORDS"
    unfolding W_def by (rule sent_words_length)
  obtain x s1 where x: "spi_capture_observed SET_FBUF_LATCH (enable_io s) = (x, s1)"
    by fastforce
  note frame = command_in_frame [OF quiet x]
  show thesis
  proof (cases x)
    case (Inl f)
    then have "s' = disable_io s1" "\<And>a. res \<noteq> Inr a"
      using run x by (auto simp: post_with_protocol_def Let_def)
    then show thesis
      using that [of "[[SET_FBUF_LATCH]]"] emits_one [of s s' "[SET_FBUF_LATCH]" 0 V5_SET_WORDS V5_RECEIPT_WORDS]
        disable_frame [OF frame] by (auto intro: exI [of _ 0])
  next
    case (Inr c)
    let ?d1 = "?d\<lparr>pd_command_word := captured_post_word c (pd_command_word ?d)\<rparr>"
    obtain y s2 where y: "post_words ?skip 0 (take (lsw_word_count ?words) (lsw_words ?words)) ?d1 s1 = (y, s2)"
      by fastforce
    have "streams (post_words ?skip 0 (take (lsw_word_count ?words) (lsw_words ?words)) ?d1) W (\<lambda>_. True)"
      using streams_post_words [of ?skip 0 "take (lsw_word_count ?words) (lsw_words ?words)" ?d1]
      unfolding W_def word_count skip_index_sent_words .
    from command_streams [OF quiet x this y] obtain k where k: "k \<le> length W"
      "in_frame s s2 (SET_FBUF_LATCH # take k W) (2 * SPIN_LIMIT * Suc k)" "\<forall>a. y = Inr a \<longrightarrow> k = length W \<and> True"
      by metis
    have k_le: "k \<le> V5_SET_WORDS"
      using k(1) W_le by simp
    have one: "emits s (disable_io s2) [SET_FBUF_LATCH # take k W] (2 * SPIN_LIMIT * Suc k)"
      using disable_frame [OF k(2)] by simp
    show thesis
    proof (cases y)
      case Inl_y: (Inl e)
      then have "s' = disable_io s2" "\<And>a. res \<noteq> Inr a"
        using run x Inr y by (cases e; auto simp: post_with_protocol_def Let_def)+
      then show thesis
        using that [of "[SET_FBUF_LATCH # take k W]"] emits_one [OF one k_le] k(1) by blast
    next
      case Inr_y: (Inr d)
      then have whole: "take k W = W"
        using k(3) by simp
      obtain z s3 where z: "read_receipt_unlocked (disable_io s2) = (z, s3)"
        by fastforce
      then have "io_finally (read_reply GET_FBUF_LATCH_RECEIPT RECEIPT_MAGIC V5_RECEIPT_WORDS decode_receipt)
          disable_io (disable_io s2) = (z, disable_io s3)"
        by (simp add: io_finally_def read_receipt_unlocked_def)
      from read_reply_emits [OF emits_quiet [OF one] this] obtain j where j: "j \<le> V5_RECEIPT_WORDS"
        "emits (disable_io s2) (disable_io s3) [GET_FBUF_LATCH_RECEIPT # replicate j 0] (2 * SPIN_LIMIT * Suc j)"
        "\<forall>a. z = Inr a \<longrightarrow> j = V5_RECEIPT_WORDS \<and> (\<exists>ws. length ws = V5_RECEIPT_WORDS \<and> decode_receipt ws = Inr a)"
        by metis
      have "s' = disable_io s3"
        "\<And>a. res = Inr a \<Longrightarrow> \<exists>receipt. z = Inr receipt \<and> receipt_confirms (lsp_sequence payload) receipt"
        using run x Inr y Inr_y z by (auto simp: post_with_protocol_def Let_def split: sum.splits if_splits)
      moreover have "emits s (disable_io s3) [SET_FBUF_LATCH # W, GET_FBUF_LATCH_RECEIPT # replicate j 0]
          (2 * SPIN_LIMIT * (Suc V5_SET_WORDS + Suc V5_RECEIPT_WORDS))"
        using emits_two [OF one emits_refl j(2) k_le j(1)] emits_quiet [OF one] whole by simp
      ultimately show thesis
        using that [of "[SET_FBUF_LATCH # W, GET_FBUF_LATCH_RECEIPT # replicate j 0]"] j(1,3) by metis
    qed
  qed
qed

section \<open>Transactions\<close>

text \<open>Between transactions the bus is disabled; the lock depth is far from its limit.\<close>

definition released :: "fpga \<Rightarrow> bool" where
  "released s \<longleftrightarrow> bus_ok s \<and> \<not> bit (fg_gpo s) 20 \<and> fg_lock_depth s \<noteq> - 1"

text \<open>\<open>transacts s s' F n\<close>: a transaction emitted the frames and gave the bus and the lock back.\<close>

definition transacts :: "fpga \<Rightarrow> fpga \<Rightarrow> u16 list list \<Rightarrow> nat \<Rightarrow> bool" where
  "transacts s s' F n \<longleftrightarrow> released s' \<and> fg_lock_depth s' = fg_lock_depth s \<and> fg_gpi s' = fg_gpi s \<and>
     fg_flock s' = fg_flock s \<and> rx_frames (received s') = rx_frames (received s) @ F \<and>
     fg_reads s' \<le> fg_reads s + n"

lemma transacts_refl: "released s \<Longrightarrow> transacts s s [] 0"
  by (simp add: transacts_def)

lemma transacts_trans: "transacts s s' F n \<Longrightarrow> transacts s' s'' G m \<Longrightarrow> transacts s s'' (F @ G) (n + m)"
  by (simp add: transacts_def)

lemma transacts_le: "transacts s s' F n \<Longrightarrow> n \<le> m \<Longrightarrow> transacts s s' F m"
  unfolding transacts_def by linarith

lemma depth_step:
  fixes d :: u32
  assumes "d \<noteq> - 1"
  shows "sat_add d 1 \<noteq> 0" "sat_sub (sat_add d 1) 1 = d"
proof -
  have "unat d \<noteq> 2 ^ 32 - 1"
  proof
    assume "unat d = 2 ^ 32 - 1"
    then have "unat d = unat (- 1 :: u32)"
      by (simp add: unat_minus_1_word)
    then show False
      using assms unsigned_word_eqI by blast
  qed
  then have *: "unat d + 1 < 2 ^ 32"
    using unat_le_max [of d] by simp
  then have "unat (sat_add d 1) = unat d + 1"
    by (simp add: unat_sat_add)
  then show "sat_add d 1 \<noteq> 0"
    by (metis add_is_0 unat_0 zero_neq_one)
  have "unat (sat_sub (sat_add d 1) 1) = unat d"
    using * by (simp add: unat_sat_add unat_sat_sub)
  then show "sat_sub (sat_add d 1) 1 = d"
    by (simp add: unsigned_word_eqI)
qed

text \<open>
  A guarded body either never starts, or runs from a disabled bus under the lock; when it leaves the
  bus disabled, the transaction as a whole has emitted what the body did.
\<close>

lemma guarded_cases:
  assumes rel: "released s" and run: "guarded f body s = (res, s')"
  obtains (locked_out) "res = Inl (f FlockFailed)" "transacts s s' [] 0"
      "fg_latch_capabilities s' = fg_latch_capabilities s"
  | (inside) s1 s2 where "quiet s1" "same_wiring (s\<lparr>fg_lock_depth := fg_lock_depth s1, fg_flocks := fg_flocks s1\<rparr>) s1"
      "body s1 = (res, s2)" "fg_latch_capabilities s' = fg_latch_capabilities s2"
      "\<And>caps F n. emits (s1\<lparr>fg_latch_capabilities := caps\<rparr>) s2 F n \<Longrightarrow> transacts s s' F n"
      "rx_frames (received s1) = rx_frames (received s)" "fg_reads s' = fg_reads s2"
proof -
  let ?d = "fg_lock_depth s"
  have ok: "bus_ok s" "\<not> bit (fg_gpo s) 20" "?d \<noteq> - 1" "fg_uio_lock s"
    using rel by (simp_all add: released_def bus_ok_def)
  show thesis
  proof (cases "?d = 0 \<and> \<not> fg_flock s (fg_flocks s)")
    case True
    then have "res = Inl (f FlockFailed)" "s' = s\<lparr>fg_flocks := Suc (fg_flocks s)\<rparr>"
      using run ok by (auto simp: guarded_def io_then_def io_map_err_def lock_uio_transaction_def)
    moreover have "transacts s (s\<lparr>fg_flocks := Suc (fg_flocks s)\<rparr>) [] 0"
      using ok by (simp add: transacts_def released_def bus_ok_def received_def)
    ultimately show thesis
      using locked_out by simp
  next
    case False
    define s1 where "s1 = (if ?d = 0
      then s\<lparr>fg_lock_depth := sat_add ?d 1, fg_flocks := Suc (fg_flocks s), fg_log := fg_log s @ [BusLocked]\<rparr>
      else s\<lparr>fg_lock_depth := sat_add ?d 1\<rparr>)"
    have lock: "lock_uio_transaction s = (Inr True, s1)"
      using False ok by (simp add: lock_uio_transaction_def s1_def)
    have s1: "quiet s1" "rx_frames (received s1) = rx_frames (received s)" "fg_reads s1 = fg_reads s"
      "fg_lock_depth s1 = sat_add ?d 1" "fg_gpi s1 = fg_gpi s" "fg_flock s1 = fg_flock s"
      "same_wiring (s\<lparr>fg_lock_depth := fg_lock_depth s1, fg_flocks := fg_flocks s1\<rparr>) s1"
      using ok depth_step(1) [OF ok(3)]
      by (auto simp: s1_def quiet_def bus_ok_def received_def same_wiring_def)
    obtain s2 where s2: "body s1 = (res, s2)" "s' = drop_guard True s2"
      using run lock by (auto simp: guarded_def io_then_def io_map_err_def io_finally_def split: prod.splits)
    have caps: "fg_latch_capabilities s' = fg_latch_capabilities s2"
      unfolding s2(2) by (simp add: drop_guard_def Let_def)
    have "transacts s s' F n" if e: "emits (s1\<lparr>fg_latch_capabilities := caps\<rparr>) s2 F n" for caps F n
    proof -
      have frames: "received (s1\<lparr>fg_latch_capabilities := caps\<rparr>) = received s1"
        by (simp add: received_def)
      have s2_facts: "quiet s2" "fg_lock_depth s2 = sat_add ?d 1" "fg_gpi s2 = fg_gpi s" "fg_flock s2 = fg_flock s"
        "rx_frames (received s2) = rx_frames (received s) @ F" "fg_reads s2 \<le> fg_reads s + n"
        using e s1 frames unfolding emits_def same_wiring_def by simp_all
      have depth: "sat_sub (fg_lock_depth s2) 1 = ?d"
        using s2_facts(2) depth_step(2) [OF ok(3)] by simp
      show ?thesis
        using s2_facts depth ok(3) unfolding s2(2) drop_guard_def Let_def
        by (auto simp: transacts_def released_def quiet_def bus_ok_def received_def)
    qed
    moreover have "fg_reads s' = fg_reads s2"
      unfolding s2(2) by (simp add: drop_guard_def Let_def)
    ultimately show thesis
      using inside [OF s1(1,7) s2(1) caps] s1(2) by simp
  qed
qed

lemma emits_caps: "emits s s' F n \<Longrightarrow> emits (s\<lparr>fg_latch_capabilities := c\<rparr>) (s'\<lparr>fg_latch_capabilities := c\<rparr>) F n"
  by (auto simp: emits_def same_wiring_def quiet_def bus_ok_def received_def)

lemma emits_same_caps: "emits s1 s2 F n \<Longrightarrow> emits (s1\<lparr>fg_latch_capabilities := fg_latch_capabilities s1\<rparr>) s2 F n"
  by simp

lemma quiet_caps: "quiet s \<Longrightarrow> quiet (s\<lparr>fg_latch_capabilities := c\<rparr>)"
  by (simp add: quiet_def bus_ok_def received_def)

text \<open>A transaction whose body keeps the capabilities.\<close>

lemma guarded_transacts:
  assumes "released s" "guarded f body s = (res, s')"
    and body: "\<And>s1 r s2. quiet s1 \<Longrightarrow> fg_latch_capabilities s1 = fg_latch_capabilities s \<Longrightarrow>
      body s1 = (r, s2) \<Longrightarrow> \<exists>F. emits s1 s2 F n \<and> Q r F"
    and "Q (Inl (f FlockFailed)) []"
  obtains F where "transacts s s' F n" "Q res F" "fg_latch_capabilities s' = fg_latch_capabilities s"
  using assms(1,2)
proof (cases rule: guarded_cases)
  case locked_out
  then show thesis
    using that [of "[]"] assms(4) transacts_le by blast
next
  case (inside s1 s2)
  have caps: "fg_latch_capabilities s1 = fg_latch_capabilities s"
    using inside(2) by (simp add: same_wiring_def)
  obtain F where F: "emits s1 s2 F n" "Q res F"
    using body [OF inside(1) caps inside(3)] by blast
  have "fg_latch_capabilities s2 = fg_latch_capabilities s1"
    using F(1) by (simp add: emits_def same_wiring_def)
  then show thesis
    using that [OF inside(5) [OF emits_same_caps [OF F(1)]] F(2)] inside(4) caps by simp
qed

definition CALL_READS :: nat where
  "CALL_READS = 2 * (2 * SPIN_LIMIT * Suc V5_STATUS_WORDS)"

lemma call_reads_enough: "n \<le> 34 \<Longrightarrow> 2 * SPIN_LIMIT * n \<le> CALL_READS"
proof -
  have "2 * (2 * SPIN_LIMIT * Suc V5_STATUS_WORDS) = 2 * SPIN_LIMIT * 34"
    by (simp add: V5_STATUS_WORDS_def)
  then show "n \<le> 34 \<Longrightarrow> 2 * SPIN_LIMIT * n \<le> CALL_READS"
    unfolding CALL_READS_def using mult_le_mono2 by presburger
qed

lemma status_transacts:
  assumes "released s" "read_status_sample s = (res, s')"
  obtains F where "transacts s s' F CALL_READS" "fg_latch_capabilities s' = fg_latch_capabilities s"
    "length F \<le> 2" "\<forall>frame \<in> set F. hd frame = GET_FBUF_LATCH"
    "\<forall>a. res = Inr a \<longrightarrow> (\<exists>words command st protocol. decode_status protocol words = Inr st \<and>
       ss_status a = latched_status_of command st)"
proof -
  let ?Q = "\<lambda>r F. length F \<le> 2 \<and> (\<forall>frame \<in> set F. hd frame = GET_FBUF_LATCH) \<and>
    (\<forall>a. r = Inr a \<longrightarrow> (\<exists>words command st protocol. decode_status protocol words = Inr st \<and>
       ss_status a = latched_status_of command st))"
  show thesis
    using assms unfolding read_status_sample_def
  proof (rule guarded_transacts [where Q = ?Q])
    fix s1 r s2
    assume quiet: "quiet s1" and run: "(case map_option lcp_protocol (fg_latch_capabilities s1) of
         None \<Rightarrow> (Inl (status_error_from_io NotNegotiated), s1)
       | Some protocol \<Rightarrow> read_status_retrying protocol s1) = (r, s2)"
    show "\<exists>F. emits s1 s2 F CALL_READS \<and> ?Q r F"
    proof (cases "fg_latch_capabilities s1")
      case None
      then show ?thesis
        using run emits_le [OF emits_refl [OF quiet]] by (intro exI [of _ "[]"]) auto
    next
      case (Some caps)
      then have "read_status_retrying (lcp_protocol caps) s1 = (r, s2)"
        using run by simp
      from status_retrying_emits [OF quiet this] obtain k j where
        "emits s1 s2 [GET_FBUF_LATCH # replicate k 0] CALL_READS \<or>
         emits s1 s2 [GET_FBUF_LATCH # replicate k 0, GET_FBUF_LATCH # replicate j 0] CALL_READS"
        "\<forall>a. r = Inr a \<longrightarrow> (\<exists>words command st. decode_status (lcp_protocol caps) words = Inr st \<and>
           ss_status a = latched_status_of command st)"
        unfolding CALL_READS_def by metis
      then show ?thesis
        by (elim disjE; fastforce)
    qed
  qed (use that in auto)
qed

lemma post_transacts:
  assumes "released s" "post_latched sequence base_addr w h geometry injected s = (res, s')"
  defines "W \<equiv> \<lambda>protocol. sent_words protocol (set_payload sequence base_addr w h geometry) injected"
  obtains F where "transacts s s' F CALL_READS" "fg_latch_capabilities s' = fg_latch_capabilities s"
    "length (filter (\<lambda>frame. hd frame = SET_FBUF_LATCH) F) \<le> 1"
    "\<forall>a. res = Inr a \<longrightarrow> (\<exists>caps ws receipt. fg_latch_capabilities s = Some caps \<and>
       F = [SET_FBUF_LATCH # W (lcp_protocol caps), GET_FBUF_LATCH_RECEIPT # replicate V5_RECEIPT_WORDS 0] \<and>
       decode_receipt ws = Inr receipt \<and> receipt_confirms sequence receipt)"
proof -
  let ?Q = "\<lambda>r F. length (filter (\<lambda>frame. hd frame = SET_FBUF_LATCH) F) \<le> 1 \<and>
    (\<forall>a. r = Inr a \<longrightarrow> (\<exists>caps ws receipt. fg_latch_capabilities s = Some caps \<and>
       F = [SET_FBUF_LATCH # W (lcp_protocol caps), GET_FBUF_LATCH_RECEIPT # replicate V5_RECEIPT_WORDS 0] \<and>
       decode_receipt ws = Inr receipt \<and> receipt_confirms sequence receipt))"
  have distinct: "GET_FBUF_LATCH_RECEIPT \<noteq> SET_FBUF_LATCH"
    by (simp add: GET_FBUF_LATCH_RECEIPT_def SET_FBUF_LATCH_def)
  show thesis
    using assms(1,2) unfolding post_latched_def
  proof (rule guarded_transacts [where Q = ?Q])
    fix s1 r s2
    assume quiet: "quiet s1" and caps: "fg_latch_capabilities s1 = fg_latch_capabilities s"
      and run: "(let s = disable_io s1
       in case map_option lcp_protocol (fg_latch_capabilities s) of
            None \<Rightarrow> (Inl (post_error_from_io NotNegotiated), s)
          | Some protocol \<Rightarrow>
              post_with_protocol protocol (set_payload sequence base_addr w h geometry) injected s) = (r, s2)"
    note off = disable_quiet [OF quiet]
    have caps': "fg_latch_capabilities (disable_io s1) = fg_latch_capabilities s"
      using off caps by (simp add: emits_def same_wiring_def)
    show "\<exists>F. emits s1 s2 F CALL_READS \<and> ?Q r F"
    proof (cases "fg_latch_capabilities s")
      case None
      then show ?thesis
        using run caps' emits_le [OF off] by (intro exI [of _ "[]"]) auto
    next
      case (Some c)
      then have "post_with_protocol (lcp_protocol c) (set_payload sequence base_addr w h geometry) injected (disable_io s1) = (r, s2)"
        using run caps' by (simp add: Let_def)
      from post_emits [OF emits_quiet [OF off] this] obtain F where
        F: "emits (disable_io s1) s2 F (2 * SPIN_LIMIT * (Suc V5_SET_WORDS + Suc V5_RECEIPT_WORDS))"
        "(\<exists>k \<le> length (W (lcp_protocol c)). F = [SET_FBUF_LATCH # take k (W (lcp_protocol c))]) \<or>
         (\<exists>j \<le> V5_RECEIPT_WORDS. F = [SET_FBUF_LATCH # W (lcp_protocol c), GET_FBUF_LATCH_RECEIPT # replicate j 0])"
        "\<forall>a. r = Inr a \<longrightarrow> F = [SET_FBUF_LATCH # W (lcp_protocol c), GET_FBUF_LATCH_RECEIPT # replicate V5_RECEIPT_WORDS 0] \<and>
           (\<exists>ws receipt. decode_receipt ws = Inr receipt \<and>
              receipt_confirms (lsp_sequence (set_payload sequence base_addr w h geometry)) receipt)"
        unfolding W_def by metis
      have "emits s1 s2 ([] @ F) (0 + 2 * SPIN_LIMIT * (Suc V5_SET_WORDS + Suc V5_RECEIPT_WORDS))"
        by (rule emits_trans [OF off F(1)])
      then have "emits s1 s2 F CALL_READS"
        using emits_le call_reads_enough [of "Suc V5_SET_WORDS + Suc V5_RECEIPT_WORDS"] by (simp add: word_counts)
      moreover have "length (filter (\<lambda>frame. hd frame = SET_FBUF_LATCH) F) \<le> 1"
        using F(2) distinct by auto
      ultimately show ?thesis
        using F(3) Some by (intro exI [of _ F]) (simp add: set_payload_def)
    qed
  qed (use that in auto)
qed

text \<open>
  The receipt behind an accepted post: it is what the receipt query reads from the bus after the SET command
  went out, up to the end of the post, and it is what the post reports.
\<close>

definition receipt_behind :: "fpga \<Rightarrow> fpga \<Rightarrow> u16 \<Rightarrow> u16 list \<Rightarrow> post_attempt \<Rightarrow> bool" where
  "receipt_behind s s' sequence frame attempt \<longleftrightarrow> (\<exists>asked receipt answered.
     rx_frames (received asked) = rx_frames (received s) @ [frame] \<and> fg_gpi asked = fg_gpi s \<and>
     read_receipt_unlocked asked = (Inr receipt, answered) \<and> fg_reads answered = fg_reads s' \<and>
     receipt_confirms sequence receipt \<and>
     pd_accepted_transaction (pa_diagnostics attempt) = lrc_accepted_transaction receipt \<and>
     pd_accepted_sequence (pa_diagnostics attempt) = sequence)"

lemma post_confirms:
  assumes quiet: "quiet s" and run: "post_with_protocol protocol payload injected s = (Inr attempt, s')"
  shows "receipt_behind s s' (lsp_sequence payload) (SET_FBUF_LATCH # sent_words protocol payload injected) attempt"
proof -
  let ?words = "encode_set protocol payload" and ?W = "sent_words protocol payload injected"
  let ?skip = "case injected of None \<Rightarrow> None | Some i \<Rightarrow> if i < lsw_word_count ?words then Some i else None"
  have word_count: "lsw_word_count ?words = set_word_count protocol"
    by (simp add: encode_set_def Let_def)
  obtain x s1 where x: "spi_capture_observed SET_FBUF_LATCH (enable_io s) = (x, s1)"
    by fastforce
  then obtain c where c: "x = Inr c"
    using run by (cases x) (auto simp: post_with_protocol_def Let_def)
  define d0 where "d0 = no_post_diagnostics
            \<lparr>pd_protocol_version := protocol_version protocol, pd_sequence := lsp_sequence payload,
             pd_command_word := blank_post_word 0 SET_FBUF_LATCH False,
             pd_expected_word_count := lsw_word_count ?words, pd_injected_skip_index := ?skip\<rparr>"
  let ?d1 = "d0\<lparr>pd_command_word := captured_post_word c (pd_command_word d0)\<rparr>"
  have body: "post_with_protocol protocol payload injected s =
      (case post_words ?skip 0 (take (lsw_word_count ?words) (lsw_words ?words)) ?d1 s1 of
         (Inl (e, d), s) \<Rightarrow> (Inl \<lparr>pe_source = e, pe_diagnostics = d\<rparr>, disable_io s)
       | (Inr d, s) \<Rightarrow>
           (case read_receipt_unlocked (disable_io s) of
              (Inl e, s) \<Rightarrow> (Inl \<lparr>pe_source = e, pe_diagnostics = d\<rparr>, disable_io s)
            | (Inr receipt, s) \<Rightarrow>
                (let d = receipt_diagnostics receipt d
                 in if \<not> receipt_confirms (lsp_sequence payload) receipt
                    then (Inl \<lparr>pe_source = SetRejected receipt, pe_diagnostics = d\<rparr>, disable_io s)
                    else (Inr \<lparr>pa_ack_high = sc_ack_high c, pa_ack_low = sc_ack_low c, pa_diagnostics = d\<rparr>, disable_io s))))"
    using x unfolding c post_with_protocol_def Let_def d0_def by simp
  obtain y s2 where y: "post_words ?skip 0 (take (lsw_word_count ?words) (lsw_words ?words)) ?d1 s1 = (y, s2)"
    by fastforce
  then obtain d where d: "y = Inr d"
    using run unfolding body by (cases y) auto
  obtain z s3 where z: "read_receipt_unlocked (disable_io s2) = (z, s3)"
    by fastforce
  have "streams (post_words ?skip 0 (take (lsw_word_count ?words) (lsw_words ?words)) ?d1) ?W (\<lambda>_. True)"
    using streams_post_words [of ?skip 0 "take (lsw_word_count ?words) (lsw_words ?words)" ?d1]
    unfolding word_count skip_index_sent_words .
  from command_streams [OF quiet x this y] obtain k where "in_frame s s2 (SET_FBUF_LATCH # take k ?W) (2 * SPIN_LIMIT * Suc k)"
    "\<forall>a. y = Inr a \<longrightarrow> k = length ?W \<and> True"
    by metis
  then have "emits s (disable_io s2) [SET_FBUF_LATCH # ?W] (2 * SPIN_LIMIT * Suc k)"
    using disable_frame d by fastforce
  then have asked: "rx_frames (received (disable_io s2)) = rx_frames (received s) @ [SET_FBUF_LATCH # ?W]" "fg_gpi (disable_io s2) = fg_gpi s"
    by (simp_all add: emits_def same_wiring_def)
  obtain receipt where receipt: "z = Inr receipt" "receipt_confirms (lsp_sequence payload) receipt" "s' = disable_io s3"
    "pa_diagnostics attempt = receipt_diagnostics receipt d"
    using run unfolding body y d by (cases z) (auto simp: z Let_def split: if_splits)
  have "fg_reads s' = fg_reads s3"
    by (simp add: receipt(3) disable_io_def spi_en_def wr_def Let_def)
  then show ?thesis
    unfolding receipt_behind_def using asked z receipt
    by (intro exI [of _ "disable_io s2"] exI [of _ receipt] exI [of _ s3]) (simp add: receipt_diagnostics_def receipt_confirms_def)
qed

lemma post_receipt:
  assumes "released s" "post_latched sequence base_addr w h geometry injected s = (Inr attempt, s')"
  obtains caps where "fg_latch_capabilities s = Some caps" "receipt_behind s s' sequence
    (SET_FBUF_LATCH # sent_words (lcp_protocol caps) (set_payload sequence base_addr w h geometry) injected) attempt"
  using assms unfolding post_latched_def
proof (cases rule: guarded_cases)
  case (inside s1 s2)
  have caps: "fg_latch_capabilities (disable_io s1) = fg_latch_capabilities s"
    using inside(2) disable_quiet [OF inside(1)] by (simp add: emits_def same_wiring_def)
  then obtain c where c: "fg_latch_capabilities s = Some c"
    using inside(3) by (cases "fg_latch_capabilities s") (auto simp: Let_def)
  have off: "quiet (disable_io s1)" "rx_frames (received (disable_io s1)) = rx_frames (received s)" "fg_gpi (disable_io s1) = fg_gpi s"
    using disable_quiet [OF inside(1)] inside(2,6) by (simp_all add: emits_def same_wiring_def)
  have "post_with_protocol (lcp_protocol c) (set_payload sequence base_addr w h geometry) injected (disable_io s1) = (Inr attempt, s2)"
    using inside(3) caps c by (simp add: Let_def)
  from post_confirms [OF off(1) this] show thesis
    using that [OF c] off inside(7) by (simp add: receipt_behind_def set_payload_def)
qed simp

lemma framed_transacts:
  assumes "released s" "guarded f (framed g cmd body) s = (res, s')"
    and "\<And>c. streams (body c) W P" and "length W < 34"
  obtains F where "transacts s s' F CALL_READS" "fg_latch_capabilities s' = fg_latch_capabilities s"
    "length F \<le> 1" "\<forall>frame \<in> set F. hd frame = cmd"
proof -
  let ?Q = "\<lambda>r F. length F \<le> 1 \<and> (\<forall>frame \<in> set F. hd frame = cmd)"
  show thesis
    using assms(1,2)
  proof (rule guarded_transacts [where Q = ?Q])
    fix s1 r s2
    assume "quiet s1" "framed g cmd body s1 = (r, s2)"
    from framed_emits [OF this assms(3)] obtain k where k: "k \<le> length W"
      "emits s1 s2 [cmd # take k W] (2 * SPIN_LIMIT * Suc k)"
      by metis
    have "emits s1 s2 [cmd # take k W] CALL_READS"
      by (rule emits_le [OF k(2) call_reads_enough]) (use k(1) assms(4) in simp)
    then show "\<exists>F. emits s1 s2 F CALL_READS \<and> ?Q r F"
      by fastforce
  qed (use that in auto)
qed

lemma reply_transacts:
  assumes "released s" "guarded id body s = (res, s')"
    and "\<And>s1. fg_latch_capabilities s1 = fg_latch_capabilities s \<Longrightarrow>
      (\<exists>x. body s1 = (x, s1)) \<or>
      (\<exists>f. body s1 = (case io_finally (read_reply cmd magic n decode) disable_io (disable_io s1) of (r, s2) \<Rightarrow> (f r, s2)))"
    and "n < 34"
  obtains F where "transacts s s' F CALL_READS" "fg_latch_capabilities s' = fg_latch_capabilities s"
    "length F \<le> 1" "\<forall>frame \<in> set F. hd frame = cmd"
proof -
  let ?Q = "\<lambda>r F. length F \<le> 1 \<and> (\<forall>frame \<in> set F. hd frame = cmd)"
  show thesis
    using assms(1,2)
  proof (rule guarded_transacts [where Q = ?Q])
    fix s1 r s2
    assume quiet: "quiet s1" and caps: "fg_latch_capabilities s1 = fg_latch_capabilities s" and run: "body s1 = (r, s2)"
    from assms(3) [OF caps] show "\<exists>F. emits s1 s2 F CALL_READS \<and> ?Q r F"
    proof
      assume "\<exists>x. body s1 = (x, s1)"
      then show ?thesis
        using run emits_le [OF emits_refl [OF quiet]] by (intro exI [of _ "[]"]) auto
    next
      assume "\<exists>f. body s1 = (case io_finally (read_reply cmd magic n decode) disable_io (disable_io s1) of (r, s2) \<Rightarrow> (f r, s2))"
      then obtain f where f: "body s1 =
          (case io_finally (read_reply cmd magic n decode) disable_io (disable_io s1) of (r, s2) \<Rightarrow> (f r, s2))"
        by blast
      obtain x where x: "io_finally (read_reply cmd magic n decode) disable_io (disable_io s1) = (x, s2)"
        using run f by (cases "io_finally (read_reply cmd magic n decode) disable_io (disable_io s1)") auto
      note off = disable_quiet [OF quiet]
      obtain k where k: "k \<le> n" "emits (disable_io s1) s2 [cmd # replicate k 0] (2 * SPIN_LIMIT * Suc k)"
        using read_reply_emits [OF emits_quiet [OF off] x] by metis
      have "emits s1 s2 ([] @ [cmd # replicate k 0]) (0 + 2 * SPIN_LIMIT * Suc k)"
        by (rule emits_trans [OF off k(2)])
      then have "emits s1 s2 [cmd # replicate k 0] CALL_READS"
        using emits_le call_reads_enough [of "Suc k"] k(1) assms(4) by simp
      then show ?thesis
        by fastforce
    qed
  qed (use that in auto)
qed

lemma capabilities_once_framed:
  "read_capabilities_once =
   framed (\<lambda>e. (e, None)) GET_FBUF_LATCH_CAPS (\<lambda>magic.
     io_then (io_map_err (\<lambda>e. (e, None)) (spi_capture 0)) (\<lambda>first.
          case try_from_version (sc_ack_low first) of
            Inl message \<Rightarrow> io_fail (UndecodedReply message, None)
          | Inr protocol \<Rightarrow>
              io_then (io_map_err (\<lambda>e. (e, Some protocol)) (read_words (caps_word_count protocol - 1))) (\<lambda>rest.
                case decode_capabilities (sc_ack_low first # rest) of
                  Inl message \<Rightarrow> io_fail (UndecodedReply message, Some protocol)
                | Inr caps \<Rightarrow> io_return (sc_ack_high magic, sc_ack_low magic, caps))))"
  by (simp add: read_capabilities_once_def framed_def)

lemma streams_capabilities:
  "streams (io_then (io_map_err (\<lambda>e. (e, None)) (spi_capture 0)) (\<lambda>first.
          case try_from_version (sc_ack_low first) of
            Inl message \<Rightarrow> io_fail (UndecodedReply message, None)
          | Inr protocol \<Rightarrow>
              io_then (io_map_err (\<lambda>e. (e, Some protocol)) (read_words (caps_word_count protocol - 1))) (\<lambda>rest.
                case decode_capabilities (sc_ack_low first # rest) of
                  Inl message \<Rightarrow> io_fail (UndecodedReply message, Some protocol)
                | Inr caps \<Rightarrow> io_return (sc_ack_high magic, sc_ack_low magic, caps))))
     ([0] @ replicate 5 0 @ []) (\<lambda>_. True)"
proof (intro streams_then [OF streams_map_err [OF streams_spi_capture]])
  fix first
  show "streams (case try_from_version (sc_ack_low first) of
            Inl message \<Rightarrow> io_fail (UndecodedReply message, None)
          | Inr protocol \<Rightarrow>
              io_then (io_map_err (\<lambda>e. (e, Some protocol)) (read_words (caps_word_count protocol - 1))) (\<lambda>rest.
                case decode_capabilities (sc_ack_low first # rest) of
                  Inl message \<Rightarrow> io_fail (UndecodedReply message, Some protocol)
                | Inr caps \<Rightarrow> io_return (sc_ack_high magic, sc_ack_low magic, caps)))
      (replicate 5 0 @ []) (\<lambda>_. True)"
  proof (cases "try_from_version (sc_ack_low first)")
    case (Inr protocol)
    have "caps_word_count protocol - 1 = 5"
      by (simp add: caps_word_count_def V5_CAPS_WORDS_def)
    then have words: "streams (io_map_err (\<lambda>e. (e, Some protocol)) (read_words (caps_word_count protocol - 1)))
        (replicate 5 0) (\<lambda>_. True)"
      using streams_map_err [OF streams_read_words [of 5]] by (metis streams_weaken)
    have last_step: "streams (case decode_capabilities (sc_ack_low first # rest) of
                  Inl message \<Rightarrow> io_fail (UndecodedReply message, Some protocol)
                | Inr caps \<Rightarrow> io_return (sc_ack_high magic, sc_ack_low magic, caps)) [] (\<lambda>_. True)" for rest
      by (cases "decode_capabilities (sc_ack_low first # rest)") (simp_all add: streams_fail streams_return)
    show ?thesis
      unfolding Inr sum.case by (rule streams_then [OF words last_step])
  qed (simp add: streams_fail)
qed

lemma capabilities_once_emits:
  assumes "quiet s" "read_capabilities_once s = (res, s')"
  obtains k where "emits s s' [GET_FBUF_LATCH_CAPS # replicate k 0] (2 * SPIN_LIMIT * 7)"
proof -
  from framed_emits [OF assms(1) assms(2) [unfolded capabilities_once_framed] streams_capabilities]
  obtain k where k: "k \<le> length ([0] @ replicate 5 (0 :: u16) @ [])"
    "emits s s' [GET_FBUF_LATCH_CAPS # take k ([0] @ replicate 5 0 @ [])] (2 * SPIN_LIMIT * Suc k)"
    by metis
  have "[0] @ replicate 5 0 @ [] = replicate 6 (0 :: u16)"
    by (simp add: numeral_eq_Suc)
  then have "take k ([0] @ replicate 5 0 @ []) = replicate k (0 :: u16)"
    using k(1) by (simp add: take_replicate min_def del: replicate.simps replicate_Suc)
  moreover have "2 * SPIN_LIMIT * Suc k \<le> 2 * SPIN_LIMIT * 7"
    using k(1) by (intro mult_le_mono2) simp
  ultimately show thesis
    using that [of k] emits_le [OF k(2)] by metis
qed

definition caps_ready :: "fpga \<Rightarrow> bool" where
  "caps_ready s \<longleftrightarrow> (\<forall>caps. fg_latch_capabilities s = Some caps \<longrightarrow> production_ready caps)"

lemma capabilities_transacts:
  assumes "released s" "read_capabilities s = (res, s')" "caps_ready s"
  obtains F where "transacts s s' F CALL_READS" "caps_ready s'" "length F \<le> 2"
    "\<forall>frame \<in> set F. hd frame = GET_FBUF_LATCH_CAPS"
  using assms(1,2) unfolding read_capabilities_def
proof (cases rule: guarded_cases)
  case locked_out
  then show thesis
    using that [of "[]"] assms(3) transacts_le by (auto simp: caps_ready_def)
next
  case (inside s1 s2)
  let ?s1 = "s1\<lparr>fg_latch_capabilities := None\<rparr>"
  have quiet: "quiet ?s1"
    using quiet_caps [OF inside(1)] .
  obtain x s3 where x: "read_capabilities_retrying ?s1 = (x, s3)"
    by fastforce
  have "\<exists>F. emits ?s1 s3 F CALL_READS \<and> length F \<le> 2 \<and> (\<forall>frame \<in> set F. hd frame = GET_FBUF_LATCH_CAPS)"
  proof -
    obtain y s4 where y: "read_capabilities_once ?s1 = (y, s4)"
      by fastforce
    obtain k where k: "emits ?s1 s4 [GET_FBUF_LATCH_CAPS # replicate k 0] (2 * SPIN_LIMIT * 7)"
      using capabilities_once_emits [OF quiet y] .
    show ?thesis
    proof (cases "s3 = s4")
      case True
      have "emits ?s1 s3 [GET_FBUF_LATCH_CAPS # replicate k 0] CALL_READS"
        using emits_le [OF k] call_reads_enough [of 7] True by simp
      then show ?thesis
        by (intro exI [of _ "[GET_FBUF_LATCH_CAPS # replicate k 0]"]) simp
    next
      case False
      obtain z s5 where z: "read_capabilities_once (reset_spi_transport s4) = (z, s5)"
        by fastforce
      have "s3 = s5"
        using x y z False
        by (auto simp: read_capabilities_retrying_def io_map_err_def split: sum.splits if_splits)
      moreover obtain j where j: "emits (reset_spi_transport s4) s5 [GET_FBUF_LATCH_CAPS # replicate j 0] (2 * SPIN_LIMIT * 7)"
        using capabilities_once_emits [OF emits_quiet [OF reset_quiet [OF emits_quiet [OF k]]] z] .
      have "emits ?s1 s5 ([GET_FBUF_LATCH_CAPS # replicate k 0] @ [] @ [GET_FBUF_LATCH_CAPS # replicate j 0])
          (2 * SPIN_LIMIT * 7 + (0 + 2 * SPIN_LIMIT * 7))"
        using emits_trans [OF k emits_trans [OF reset_quiet [OF emits_quiet [OF k]] j]] .
      moreover have "2 * SPIN_LIMIT * 7 + (0 + 2 * SPIN_LIMIT * 7) = 2 * SPIN_LIMIT * 14"
        by simp
      ultimately have "emits ?s1 s3 [GET_FBUF_LATCH_CAPS # replicate k 0, GET_FBUF_LATCH_CAPS # replicate j 0] CALL_READS"
        using emits_le call_reads_enough [of 14] by simp
      then show ?thesis
        by (intro exI [of _ "[GET_FBUF_LATCH_CAPS # replicate k 0, GET_FBUF_LATCH_CAPS # replicate j 0]"]) simp
    qed
  qed
  then obtain F where F: "emits ?s1 s3 F CALL_READS" "length F \<le> 2" "\<forall>frame \<in> set F. hd frame = GET_FBUF_LATCH_CAPS"
    by blast
  have none: "fg_latch_capabilities s3 = None"
    using F(1) by (simp add: emits_def same_wiring_def)
  have s2: "\<exists>c. s2 = s3\<lparr>fg_latch_capabilities := c\<rparr> \<and> (c = None \<or> (\<exists>caps. c = Some caps \<and> production_ready caps))"
  proof (cases x)
    case (Inl e)
    then have "s2 = s3\<lparr>fg_latch_capabilities := None\<rparr>"
      using inside(3) x none by simp
    then show ?thesis
      by blast
  next
    case (Inr r)
    obtain hi lo caps where r: "r = (hi, lo, caps)"
      by (metis prod.exhaust)
    have "s3 = s3\<lparr>fg_latch_capabilities := None\<rparr>"
      using none by simp
    then show ?thesis
      using inside(3) x Inr r by (auto split: if_splits)
  qed
  then obtain c where c: "s2 = s3\<lparr>fg_latch_capabilities := c\<rparr>" "c = None \<or> (\<exists>caps. c = Some caps \<and> production_ready caps)"
    by blast
  have "emits (s1\<lparr>fg_latch_capabilities := c\<rparr>) s2 F CALL_READS"
    using emits_caps [OF F(1), of c] c(1) by simp
  from inside(5) [OF this] show thesis
    using that [of F] F(2,3) c inside(4) by (auto simp: caps_ready_def)
qed

section \<open>Runs\<close>

datatype bus_call =
    CallCapabilities
  | CallStatus
  | CallPost u16 u32 u16 u16 fbuf_geometry "nat option"
  | CallTelemetry
  | CallRejections
  | CallProbe
  | CallVideoInfo
  | CallFbParams
  | CallVolume u8

fun bus_call_step :: "fpga \<Rightarrow> bus_call \<Rightarrow> fpga" where
  "bus_call_step s CallCapabilities = snd (read_capabilities s)"
| "bus_call_step s CallStatus = snd (read_status_sample s)"
| "bus_call_step s (CallPost sequence base_addr w h geometry injected) =
     snd (post_latched sequence base_addr w h geometry injected s)"
| "bus_call_step s CallTelemetry = snd (read_presentation_telemetry s)"
| "bus_call_step s CallRejections = snd (read_rejection_diagnostics s)"
| "bus_call_step s CallProbe = snd (probe_set s)"
| "bus_call_step s CallVideoInfo = snd (read_video_info s)"
| "bus_call_step s CallFbParams = snd (read_fb_params s)"
| "bus_call_step s (CallVolume attenuation) = snd (set_audio_volume attenuation s)"

text \<open>The commands that may open a frame with the SET command.\<close>

fun may_set :: "bus_call \<Rightarrow> bool" where
  "may_set (CallPost _ _ _ _ _ _) = True"
| "may_set CallProbe = True"
| "may_set _ = False"

definition set_frames :: "u16 list list \<Rightarrow> nat" where
  "set_frames F = length (filter (\<lambda>frame. hd frame = SET_FBUF_LATCH) F)"

lemma set_frames_append [simp]: "set_frames (F @ G) = set_frames F + set_frames G"
  by (simp add: set_frames_def)

lemma set_frames_other: "\<forall>frame \<in> set F. hd frame = cmd \<Longrightarrow> cmd \<noteq> SET_FBUF_LATCH \<Longrightarrow> set_frames F = 0"
  by (auto simp: set_frames_def filter_empty_conv)

lemma set_frames_le: "set_frames F \<le> length F"
  by (simp add: set_frames_def)

definition call_ok :: "fpga \<Rightarrow> fpga \<Rightarrow> bool \<Rightarrow> bool" where
  "call_ok s s' may \<longleftrightarrow> (\<exists>F. transacts s s' F CALL_READS \<and> caps_ready s' \<and>
     set_frames F \<le> (if may then 1 else 0))"

lemma call_okI:
  assumes "transacts s s' F CALL_READS" "fg_latch_capabilities s' = fg_latch_capabilities s" "caps_ready s"
    "length F \<le> 1" "\<forall>frame \<in> set F. hd frame = cmd" "may \<or> cmd \<noteq> SET_FBUF_LATCH"
  shows "call_ok s s' may"
  unfolding call_ok_def
proof (intro exI conjI)
  show "transacts s s' F CALL_READS" "caps_ready s'"
    using assms(1-3) by (simp_all add: caps_ready_def)
  show "set_frames F \<le> (if may then 1 else 0)"
    using set_frames_le [of F] set_frames_other [OF assms(5)] assms(4,6) by auto
qed

lemmas command_codes = SET_FBUF_LATCH_def GET_FBUF_LATCH_def GET_FBUF_LATCH_CAPS_def
  GET_FBUF_LATCH_DIAGNOSTICS_def GET_FBUF_LATCH_RECEIPT_def GET_FBUF_PRESENTATION_TELEMETRY_def
  UIO_GET_VRES_def UIO_GET_FB_PAR_def UIO_SET_FBUF_def UIO_AUDVOL_def

lemma framed_call_ok:
  assumes "released s" "caps_ready s" "guarded f (framed g cmd body) s = (res, s')"
    and "\<And>c. streams (body c) W P" "length W < 34" "may \<or> cmd \<noteq> SET_FBUF_LATCH"
  shows "call_ok s s' may"
proof -
  obtain F where "transacts s s' F CALL_READS" "fg_latch_capabilities s' = fg_latch_capabilities s"
    "length F \<le> 1" "\<forall>frame \<in> set F. hd frame = cmd"
    using framed_transacts [OF assms(1,3,4,5)] by metis
  then show ?thesis
    using call_okI assms(2,6) by blast
qed

lemma framed_id: "framed id cmd body = io_finally (io_then (cmd_capture cmd) body) disable_io"
proof -
  have "io_map_err id (cmd_capture cmd) = cmd_capture cmd"
    by (intro ext) (simp add: io_map_err_def split: prod.split sum.split)
  then show ?thesis
    by (simp add: framed_def)
qed

lemma volume_call_ok:
  assumes "released s" "caps_ready s" "set_audio_volume attenuation s = (res, s')"
  shows "call_ok s s' False"
proof -
  let ?Q = "\<lambda>r F. length F \<le> 1 \<and> (\<forall>frame \<in> set F. hd frame = UIO_AUDVOL)"
  let ?body = "io_then (uio_cmd16 UIO_AUDVOL (ucast attenuation)) (\<lambda>_. io_return ())"
  have "\<exists>F. emits s1 s2 F CALL_READS \<and> ?Q r F" if quiet: "quiet s1" and run: "?body s1 = (r, s2)" for s1 r s2
  proof -
    let ?m = "io_then (spi UIO_AUDVOL) (\<lambda>_. spi (ucast attenuation))"
    obtain x s3 where x: "?m (enable_io s1) = (x, s3)"
      by fastforce
    then have s2: "s2 = disable_io s3"
      using run by (auto simp: io_then_def [of "uio_cmd16 UIO_AUDVOL (ucast attenuation)"] uio_cmd16_def io_finally_def
          io_return_def split: sum.splits)
    have "streams ?m ([UIO_AUDVOL] @ [ucast attenuation]) (\<lambda>_. True)"
      by (intro streams_then [OF streams_spi] streams_spi)
    from in_frame_streams [OF enable_in_frame [OF quiet] this x] obtain k where
      k0: "k \<le> length ([UIO_AUDVOL] @ [ucast attenuation])"
      "in_frame s1 s3 ([] @ take k ([UIO_AUDVOL] @ [ucast attenuation])) (0 + 2 * SPIN_LIMIT * k)"
      by metis
    then have k: "k \<le> 2" "in_frame s1 s3 (take k [UIO_AUDVOL, ucast attenuation]) (2 * SPIN_LIMIT * k)"
      by simp_all
    show ?thesis
    proof (cases "k = 0")
      case True
      then have "emits s1 s2 [] 0"
        using k(2) unfolding s2
        by (auto simp: quiet_def emits_def disable_io_def spi_en_def Let_def bus_ok_def rx_write_def in_frame_def
            sending_def same_wiring_def bit_simps bus_bits)
      then have "emits s1 s2 [] CALL_READS"
        by (rule emits_le) (rule le0)
      then show ?thesis
        by (intro exI [of _ "[]"]) simp
    next
      case False
      then have nonempty: "take k [UIO_AUDVOL, ucast attenuation] \<noteq> []"
        "hd (take k [UIO_AUDVOL, ucast attenuation]) = UIO_AUDVOL"
        by simp_all
      have "emits s1 s2 [take k [UIO_AUDVOL, ucast attenuation]] CALL_READS"
        unfolding s2 by (rule emits_le [OF disable_frame [OF k(2) nonempty(1)] call_reads_enough]) (use k(1) in simp)
      then show ?thesis
        using nonempty(2) by (intro exI [of _ "[take k [UIO_AUDVOL, ucast attenuation]]"]) simp
    qed
  qed
  then obtain F where F: "transacts s s' F CALL_READS" "?Q res F" "fg_latch_capabilities s' = fg_latch_capabilities s"
    by (rule guarded_transacts [where Q = ?Q, OF assms(1) assms(3) [unfolded set_audio_volume_def]]) simp_all
  have "UIO_AUDVOL \<noteq> SET_FBUF_LATCH"
    by (simp add: command_codes)
  then show ?thesis
    using call_okI [OF F(1,3) assms(2)] F(2) by blast
qed

lemma reply_call_ok:
  assumes "released s" "caps_ready s" "guarded id body s = (res, s')"
    and "\<And>s1. fg_latch_capabilities s1 = fg_latch_capabilities s \<Longrightarrow>
      (\<exists>x. body s1 = (x, s1)) \<or>
      (\<exists>f. body s1 = (case io_finally (read_reply cmd magic n decode) disable_io (disable_io s1) of (r, s2) \<Rightarrow> (f r, s2)))"
    and "n < 34" "cmd \<noteq> SET_FBUF_LATCH"
  shows "call_ok s s' False"
proof -
  obtain F where "transacts s s' F CALL_READS" "fg_latch_capabilities s' = fg_latch_capabilities s"
    "length F \<le> 1" "\<forall>frame \<in> set F. hd frame = cmd"
    using reply_transacts [OF assms(1,3,4,5)] by metis
  then show ?thesis
    using call_okI assms(2,6) by blast
qed

lemma telemetry_call_ok:
  assumes "released s" "caps_ready s" "read_presentation_telemetry s = (res, s')"
  shows "call_ok s s' False"
  using assms unfolding read_presentation_telemetry_def
proof (rule reply_call_ok)
  fix s1 :: fpga
  assume "fg_latch_capabilities s1 = fg_latch_capabilities s"
  let ?reply = "io_finally (read_reply GET_FBUF_PRESENTATION_TELEMETRY PRESENTATION_TELEMETRY_MAGIC
                V5_PRESENTATION_TELEMETRY_WORDS decode_presentation_telemetry) disable_io (disable_io s1)"
  show "(\<exists>x. (case fg_latch_capabilities s1 of
         None \<Rightarrow> (Inl NotNegotiated, s1)
       | Some caps \<Rightarrow>
           if lcp_protocol caps \<noteq> V5 \<or> lcp_flags caps AND CAP_AUTHORITATIVE_PRESENTATION_TELEMETRY = 0
           then (Inl TelemetryUnsupported, s1) else ?reply) = (x, s1)) \<or>
     (\<exists>f. (case fg_latch_capabilities s1 of
         None \<Rightarrow> (Inl NotNegotiated, s1)
       | Some caps \<Rightarrow>
           if lcp_protocol caps \<noteq> V5 \<or> lcp_flags caps AND CAP_AUTHORITATIVE_PRESENTATION_TELEMETRY = 0
           then (Inl TelemetryUnsupported, s1) else ?reply) = (case ?reply of (r, s2) \<Rightarrow> (f r, s2)))"
    by (cases "fg_latch_capabilities s1"; cases ?reply) (auto intro: exI [of _ id])
qed (simp_all add: word_counts command_codes)

lemma rejections_call_ok:
  assumes "released s" "caps_ready s" "read_rejection_diagnostics s = (res, s')"
  shows "call_ok s s' False"
  using assms unfolding read_rejection_diagnostics_def
proof (rule reply_call_ok)
  fix s1 :: fpga
  assume caps: "fg_latch_capabilities s1 = fg_latch_capabilities s"
  show "(\<exists>x. (case fg_latch_capabilities s1 of
         None \<Rightarrow> (Inl NotNegotiated, s1)
       | Some caps \<Rightarrow>
           if lcp_protocol caps \<noteq> V5 \<or> lcp_flags caps AND CAP_REJECTION_CONTEXT = 0 then (Inr None, s1)
           else io_finally
             (io_then
               (read_reply GET_FBUF_LATCH_DIAGNOSTICS DIAGNOSTICS_MAGIC
                  (the (diagnostics_word_count (lcp_protocol caps)))
                  (decode_rejection_diagnostics (lcp_protocol caps)))
               (\<lambda>r. io_return (Some r)))
             disable_io (disable_io s1)) = (x, s1)) \<or>
     (\<exists>f. (case fg_latch_capabilities s1 of
         None \<Rightarrow> (Inl NotNegotiated, s1)
       | Some caps \<Rightarrow>
           if lcp_protocol caps \<noteq> V5 \<or> lcp_flags caps AND CAP_REJECTION_CONTEXT = 0 then (Inr None, s1)
           else io_finally
             (io_then
               (read_reply GET_FBUF_LATCH_DIAGNOSTICS DIAGNOSTICS_MAGIC
                  (the (diagnostics_word_count (lcp_protocol caps)))
                  (decode_rejection_diagnostics (lcp_protocol caps)))
               (\<lambda>r. io_return (Some r)))
             disable_io (disable_io s1)) =
        (case io_finally (read_reply GET_FBUF_LATCH_DIAGNOSTICS DIAGNOSTICS_MAGIC V5_DIAGNOSTICS_WORDS
              (decode_rejection_diagnostics V5)) disable_io (disable_io s1) of (r, s2) \<Rightarrow> (f r, s2)))"
  proof (cases "\<exists>caps. fg_latch_capabilities s1 = Some caps \<and> lcp_flags caps AND CAP_REJECTION_CONTEXT \<noteq> 0")
    case True
    then obtain caps where "fg_latch_capabilities s1 = Some caps" "lcp_flags caps AND CAP_REJECTION_CONTEXT \<noteq> 0"
      by blast
    moreover have "lcp_protocol caps = V5"
      by (cases "lcp_protocol caps")
    ultimately show ?thesis
      by (intro disjI2 exI [of _ "map_sum id Some"])
        (simp add: io_finally_def io_then_def io_return_def diagnostics_word_count_def split: prod.split sum.split)
  next
    case False
    then show ?thesis
      by (cases "fg_latch_capabilities s1") auto
  qed
qed (simp_all add: word_counts command_codes)

lemma bus_call_ok:
  assumes "released s" "caps_ready s"
  shows "call_ok s (bus_call_step s c) (may_set c)"
proof (cases c)
  case CallCapabilities
  obtain x s' where x: "read_capabilities s = (x, s')"
    by fastforce
  obtain F where F: "transacts s s' F CALL_READS" "caps_ready s'" "\<forall>frame \<in> set F. hd frame = GET_FBUF_LATCH_CAPS"
    using capabilities_transacts [OF assms(1) x assms(2)] by metis
  moreover have "GET_FBUF_LATCH_CAPS \<noteq> SET_FBUF_LATCH"
    by (simp add: command_codes)
  ultimately show ?thesis
    using set_frames_other [OF F(3)] CallCapabilities x by (auto simp: call_ok_def)
next
  case CallStatus
  obtain x s' where x: "read_status_sample s = (x, s')"
    by fastforce
  obtain F where F: "transacts s s' F CALL_READS" "fg_latch_capabilities s' = fg_latch_capabilities s"
    "\<forall>frame \<in> set F. hd frame = GET_FBUF_LATCH"
    using status_transacts [OF assms(1) x] by metis
  moreover have "GET_FBUF_LATCH \<noteq> SET_FBUF_LATCH"
    by (simp add: command_codes)
  ultimately show ?thesis
    using set_frames_other [OF F(3)] CallStatus x assms(2) by (auto simp: call_ok_def caps_ready_def)
next
  case (CallPost sequence base_addr w h geometry injected)
  obtain x s' where x: "post_latched sequence base_addr w h geometry injected s = (x, s')"
    by fastforce
  obtain F where "transacts s s' F CALL_READS" "fg_latch_capabilities s' = fg_latch_capabilities s"
    "length (filter (\<lambda>frame. hd frame = SET_FBUF_LATCH) F) \<le> 1"
    using post_transacts [OF assms(1) x] by metis
  then show ?thesis
    using CallPost x assms(2) by (auto simp: call_ok_def caps_ready_def set_frames_def)
next
  case CallTelemetry
  then show ?thesis
    using telemetry_call_ok [OF assms] by (cases "read_presentation_telemetry s") simp
next
  case CallRejections
  then show ?thesis
    using rejections_call_ok [OF assms] by (cases "read_rejection_diagnostics s") simp
next
  case CallProbe
  obtain x s' where x: "probe_set s = (x, s')"
    by fastforce
  have "io_finally (cmd_capture SET_FBUF_LATCH) disable_io = framed id SET_FBUF_LATCH io_return"
    unfolding framed_id
    by (intro ext) (simp add: io_finally_def io_then_def io_return_def split: prod.split sum.split)
  then have "guarded id (framed id SET_FBUF_LATCH io_return) s = (x, s')"
    using x by (simp add: probe_set_def)
  moreover have "streams (io_return c) [] (\<lambda>_. True)" for c :: spi_acks
    by (simp add: streams_return)
  ultimately have "call_ok s s' True"
    using framed_call_ok [OF assms] by (metis list.size(3) zero_less_numeral)
  then show ?thesis
    using CallProbe x by simp
next
  case CallVideoInfo
  obtain x s' where x: "read_video_info s = (x, s')"
    by fastforce
  have "streams (io_then (read_words 18) (\<lambda>ws. io_return (video_info_of_words ws))) (replicate 18 0 @ []) (\<lambda>_. True)" for c :: spi_acks
    by (intro streams_then [OF streams_read_words]) (simp add: streams_return)
  from framed_call_ok [OF assms x [unfolded read_video_info_def framed_id [symmetric]] this, of False]
  have "call_ok s s' False"
    by (simp add: command_codes)
  then show ?thesis
    using CallVideoInfo x by simp
next
  case CallFbParams
  obtain x s' where x: "read_fb_params s = (x, s')"
    by fastforce
  have "streams (io_then (read_words 5) (\<lambda>ws. io_return (fb_params_of_words (sc_ack_high c) ws))) (replicate 5 0 @ [])
      (\<lambda>_. True)" for c
    by (intro streams_then [OF streams_read_words]) (simp add: streams_return)
  from framed_call_ok [OF assms x [unfolded read_fb_params_def framed_id [symmetric]] this, of False]
  have "call_ok s s' False"
    by (simp add: command_codes)
  then show ?thesis
    using CallFbParams x by simp
next
  case (CallVolume attenuation)
  then show ?thesis
    using volume_call_ok [OF assms] by (cases "set_audio_volume attenuation s") simp
qed

text \<open>What holds after every call: the bus is free, and how much was read and set so far.\<close>

definition bus_inv :: "nat \<times> nat \<times> fpga \<Rightarrow> bool" where
  "bus_inv = (\<lambda>(calls, sets, s). released s \<and> caps_ready s \<and> fg_lock_depth s = 0 \<and>
     fg_reads s \<le> calls * CALL_READS \<and> set_frames (rx_frames (received s)) \<le> sets)"

definition counted_step :: "nat \<times> nat \<times> fpga \<Rightarrow> bus_call \<Rightarrow> nat \<times> nat \<times> fpga" where
  "counted_step = (\<lambda>(calls, sets, s) c. (Suc calls, sets + (if may_set c then 1 else 0), bus_call_step s c))"

interpretation bus_machine: total_machine counted_step bus_inv
proof unfold_locales
  fix st c
  assume inv: "bus_inv st"
  obtain calls sets s where st: "st = (calls, sets, s)"
    by (metis prod.exhaust)
  have "released s" "caps_ready s"
    using inv by (simp_all add: bus_inv_def st)
  then obtain F where "transacts s (bus_call_step s c) F CALL_READS" "caps_ready (bus_call_step s c)"
    "set_frames F \<le> (if may_set c then 1 else 0)"
    using bus_call_ok unfolding call_ok_def by metis
  then show "bus_inv (counted_step st c)"
    using inv by (auto simp: bus_inv_def counted_step_def st transacts_def)
qed

lemma bus_inv_open: "bus_inv (0, 0, fpga_open gpi flock)"
proof -
  have "received (fpga_open gpi flock) = rx_start"
    by (simp add: fpga_open_def received_def)
  then show ?thesis
    by (auto simp: bus_inv_def released_def bus_ok_def rx_start_def fpga_open_def caps_ready_def set_frames_def bus_bits)
qed

lemma counted_run:
  "run_steps counted_step (n, m, s) calls =
     (n + length calls, m + length (filter may_set calls), run_steps bus_call_step s calls)"
  by (induction calls arbitrary: n m s) (simp_all add: counted_step_def)

lemma bus_run: "bus_inv (length calls, length (filter may_set calls), run_steps bus_call_step (fpga_open gpi flock) calls)"
  using bus_machine.total_run_inv [OF bus_inv_open] by (simp add: counted_run)

section \<open>A device that answers\<close>

text \<open>Each word is acknowledged at once, with the given values while the acknowledge is high and low.\<close>

definition answers :: "fpga \<Rightarrow> (u16 \<times> u16) list \<Rightarrow> bool" where
  "answers s rs \<longleftrightarrow> (\<forall>i < length rs.
     fg_gpi s (fg_reads s + 2 * i) = (ACK OR ucast (fst (rs ! i))) \<and>
     fg_gpi s (fg_reads s + 2 * i + 1) = ucast (snd (rs ! i)))"

lemma answers_Nil [simp]: "answers s []"
  by (simp add: answers_def)

lemma answers_Cons:
  "answers s (r # rs) \<longleftrightarrow> fg_gpi s (fg_reads s) = (ACK OR ucast (fst r)) \<and> fg_gpi s (Suc (fg_reads s)) = ucast (snd r) \<and>
     (\<forall>i < length rs. fg_gpi s (fg_reads s + 2 + 2 * i) = (ACK OR ucast (fst (rs ! i))) \<and>
        fg_gpi s (fg_reads s + 2 + 2 * i + 1) = ucast (snd (rs ! i)))"
  unfolding answers_def by (simp add: All_less_Suc2)

lemma wait_ack_hit:
  "0 < n \<Longrightarrow> (fg_gpi s (fg_reads s) AND ACK \<noteq> 0) = wanted \<Longrightarrow>
   wait_ack wanted n s = (Some (ucast (fg_gpi s (fg_reads s))), s\<lparr>fg_reads := Suc (fg_reads s)\<rparr>)"
  by (cases n) (simp_all add: rd_def)

lemma ack_bits:
  fixes hi lo :: u16
  shows "(ACK OR ucast hi) AND ACK \<noteq> 0" "ucast lo AND ACK = 0" "ucast (ACK OR ucast hi) = hi" "ucast (ucast lo :: u32) = lo"
proof -
  have bit_ACK: "bit ACK n \<longleftrightarrow> n = 17" for n
    by (simp add: ACK_def bus_bits)
  have "bit ((ACK OR ucast hi) AND ACK) 17"
    by (simp add: bit_simps bit_ACK)
  then show "(ACK OR ucast hi) AND ACK \<noteq> 0"
    by force
  show "ucast lo AND ACK = 0"
    by (rule bit_word_eqI) (auto simp: bit_simps bit_ACK dest: bit_imp_le_length)
  show "ucast (ACK OR ucast hi) = hi" "ucast (ucast lo :: u32) = lo"
    by (rule bit_word_eqI; auto simp: bit_simps bit_ACK)+
qed

lemma answered_spi:
  assumes "answers s (r # rs)"
  obtains s' where "spi_capture_observed w s = (Inr \<lparr>sc_ack_high = fst r, sc_ack_low = snd r\<rparr>, s')"
    "answers s' rs" "same_wiring s s'"
proof -
  define v where "v = (fg_gpo s AND NOT (0xFFFF OR STROBE)) OR ucast w"
  let ?s1 = "wr (v OR STROBE) (wr v s)"
  have spin: "0 < SPIN_LIMIT"
    by (simp add: SPIN_LIMIT_def)
  note r = assms [unfolded answers_Cons]
  have high: "wait_ack True SPIN_LIMIT ?s1 = (Some (fst r), ?s1\<lparr>fg_reads := Suc (fg_reads s)\<rparr>)"
    using wait_ack_hit [OF spin, of ?s1 True] r ack_bits(1,3) [of "fst r"] by simp
  let ?s2 = "wr v (?s1\<lparr>fg_reads := Suc (fg_reads s)\<rparr>)"
  have low: "wait_ack False SPIN_LIMIT ?s2 = (Some (snd r), ?s2\<lparr>fg_reads := Suc (Suc (fg_reads s))\<rparr>)"
    using wait_ack_hit [OF spin, of ?s2 False] r ack_bits(2,4) [of "snd r"] by simp
  have "spi_capture_observed w s = (Inr \<lparr>sc_ack_high = fst r, sc_ack_low = snd r\<rparr>, ?s2\<lparr>fg_reads := Suc (Suc (fg_reads s))\<rparr>)"
    unfolding spi_capture_observed_def Let_def v_def [symmetric] high prod.case option.case low by simp
  moreover have "answers (?s2\<lparr>fg_reads := Suc (Suc (fg_reads s))\<rparr>) rs"
    using r by (simp add: answers_def wr_def)
  moreover have "same_wiring s (?s2\<lparr>fg_reads := Suc (Suc (fg_reads s))\<rparr>)"
    by (simp add: same_wiring_def wr_def)
  ultimately show thesis
    using that by blast
qed

lemma answers_wr [simp]: "answers (wr v s) rs = answers s rs"
  by (simp add: answers_def)

lemma answers_enable [simp]: "answers (enable_io s) rs = answers s rs" "same_wiring s (enable_io s)"
  by (simp_all add: enable_io_def spi_en_def Let_def same_wiring_def)

lemma answers_disable [simp]: "answers (disable_io s) rs = answers s rs" "same_wiring s (disable_io s)"
  by (simp_all add: disable_io_def spi_en_def Let_def same_wiring_def)

lemma answered_read_words:
  "answers s (rs @ rest) \<Longrightarrow> \<exists>s'. read_words (length rs) s = (Inr (map snd rs), s') \<and> answers s' rest \<and> same_wiring s s'"
proof (induction rs arbitrary: s)
  case (Cons r rs)
  then have "answers s (r # (rs @ rest))"
    by simp
  then obtain s1 where s1: "spi_capture_observed 0 s = (Inr \<lparr>sc_ack_high = fst r, sc_ack_low = snd r\<rparr>, s1)"
    "answers s1 (rs @ rest)" "same_wiring s s1"
    using answered_spi by metis
  obtain s2 where "read_words (length rs) s1 = (Inr (map snd rs), s2)" "answers s2 rest" "same_wiring s1 s2"
    using Cons.IH [OF s1(2)] by blast
  then show ?case
    using s1 same_wiring_trans by (auto simp: spi_capture_def io_map_err_def io_then_def io_return_def)
qed (simp add: io_return_def)

lemma answered_status_words:
  "answers s (rs @ rest) \<Longrightarrow>
   \<exists>attempt' s'. status_words (length rs) index words attempt s = (Inr (words @ map snd rs, attempt'), s') \<and>
     answers s' rest \<and> same_wiring s s'"
proof (induction rs arbitrary: s index words attempt)
  case (Cons r rs)
  then have "answers s (r # (rs @ rest))"
    by simp
  then obtain s1 where s1: "spi_capture_observed 0 s = (Inr \<lparr>sc_ack_high = fst r, sc_ack_low = snd r\<rparr>, s1)"
    "answers s1 (rs @ rest)" "same_wiring s s1"
    using answered_spi by metis
  show ?case
    using Cons.IH [OF s1(2), of "Suc index" "words @ [snd r]"] s1(1,3) same_wiring_trans by fastforce
qed simp

lemma answered_post_words:
  "answers s (rs @ rest) \<Longrightarrow> length rs = length ws \<Longrightarrow>
   \<exists>d' s'. post_words None index ws d s = (Inr d', s') \<and> answers s' rest \<and> same_wiring s s'"
proof (induction ws arbitrary: s index d rs)
  case (Cons w ws)
  then obtain r rs' where rs: "rs = r # rs'" "length rs' = length ws"
    by (cases rs) auto
  then have "answers s (r # (rs' @ rest))"
    using Cons.prems(1) by simp
  then obtain s1 where s1: "spi_capture_observed w s = (Inr \<lparr>sc_ack_high = fst r, sc_ack_low = snd r\<rparr>, s1)"
    "answers s1 (rs' @ rest)" "same_wiring s s1"
    using answered_spi by metis
  then show ?case
    using Cons.IH [OF s1(2) rs(2)] same_wiring_trans by (fastforce simp: blank_post_word_def Let_def)
qed simp

text \<open>When the lock can be had, a guarded body runs on a bus with the same devices and capabilities.\<close>

lemma guarded_runs:
  assumes "fg_uio_lock s" "fg_lock_depth s \<noteq> 0 \<or> fg_flock s (fg_flocks s)"
    and "\<And>s1. fg_latch_capabilities s1 = fg_latch_capabilities s \<Longrightarrow> answers s rs = answers s1 rs \<Longrightarrow> P (fst (body s1))"
  shows "P (fst (guarded f body s))"
proof -
  define s1 where "s1 = (if fg_lock_depth s = 0
      then s\<lparr>fg_lock_depth := sat_add (fg_lock_depth s) 1, fg_flocks := Suc (fg_flocks s), fg_log := fg_log s @ [BusLocked]\<rparr>
      else s\<lparr>fg_lock_depth := sat_add (fg_lock_depth s) 1\<rparr>)"
  have lock: "lock_uio_transaction s = (Inr True, s1)"
    using assms(1,2) by (auto simp: lock_uio_transaction_def s1_def)
  have "fg_latch_capabilities s1 = fg_latch_capabilities s" "answers s rs = answers s1 rs"
    by (simp_all add: s1_def answers_def)
  then have "P (fst (body s1))"
    by (rule assms(3))
  then show ?thesis
    using lock by (cases "body s1") (simp add: guarded_def io_then_def io_map_err_def io_finally_def)
qed

lemma answered_status:
  assumes "answers s (command # rs)" "length rs = status_word_count protocol" "decode_status protocol (map snd rs) = Inr st"
  shows "\<exists>sample s'. read_status_once protocol s = (Inr sample, s') \<and>
    ss_status sample = latched_status_of \<lparr>sc_ack_high = fst command, sc_ack_low = snd command\<rparr> st"
proof -
  let ?c = "\<lparr>sc_ack_high = fst command, sc_ack_low = snd command\<rparr>"
  have "answers (enable_io s) (command # rs)"
    using assms(1) by simp
  then obtain s1 where s1: "spi_capture_observed GET_FBUF_LATCH (enable_io s) = (Inr ?c, s1)" "answers s1 (rs @ [])"
    using answered_spi by (metis append_Nil2)
  obtain attempt s2 where "status_words (status_word_count protocol) 0 []
      \<lparr>wa_command = GET_FBUF_LATCH, wa_command_word = captured_word ?c (blank_word 0 GET_FBUF_LATCH),
       wa_response_words = [], wa_result = WireEmpty\<rparr> s1 = (Inr (map snd rs, attempt), s2)"
    using answered_status_words [OF s1(2), of 0 "[]" "\<lparr>wa_command = GET_FBUF_LATCH,
       wa_command_word = captured_word ?c (blank_word 0 GET_FBUF_LATCH),
       wa_response_words = [], wa_result = WireEmpty\<rparr>"] assms(2) by auto
  then show ?thesis
    using s1(1) assms(3) by (simp add: read_status_once_def Let_def)
qed

lemma answered_receipt:
  assumes "answers s ((hi, lo) # rs)" "length rs = V5_RECEIPT_WORDS" "hi = RECEIPT_MAGIC \<or> lo = RECEIPT_MAGIC"
    and "decode_receipt (map snd rs) = Inr receipt"
  shows "\<exists>s'. read_receipt_unlocked s = (Inr receipt, s')"
proof -
  have "answers (enable_io s) ((hi, lo) # rs)"
    using assms(1) by simp
  then obtain s1 where s1: "spi_capture_observed GET_FBUF_LATCH_RECEIPT (enable_io s) = (Inr \<lparr>sc_ack_high = hi, sc_ack_low = lo\<rparr>, s1)"
    "answers s1 (rs @ [])"
    using answered_spi by (metis append_Nil2 fst_conv snd_conv)
  obtain s2 where "read_words V5_RECEIPT_WORDS s1 = (Inr (map snd rs), s2)"
    using answered_read_words [OF s1(2)] assms(2) by auto
  then show ?thesis
    using s1(1) assms(3,4)
    by (auto simp: read_receipt_unlocked_def read_reply_def io_then_def cmd_capture_def spi_capture_def io_map_err_def
        check_magic_def decoded_def io_return_def)
qed

lemma answered_post:
  assumes "answers s (command # set_replies @ (hi, lo) # rs)" "length set_replies = V5_SET_WORDS"
    "length rs = V5_RECEIPT_WORDS" "hi = RECEIPT_MAGIC \<or> lo = RECEIPT_MAGIC"
    "decode_receipt (map snd rs) = Inr receipt" "receipt_confirms (lsp_sequence payload) receipt"
  shows "\<exists>a s'. post_with_protocol protocol payload None s = (Inr a, s') \<and>
    pa_ack_high a = fst command \<and> pa_ack_low a = snd command"
proof -
  let ?c = "\<lparr>sc_ack_high = fst command, sc_ack_low = snd command\<rparr>"
  let ?ws = "take (lsw_word_count (encode_set protocol payload)) (lsw_words (encode_set protocol payload))"
  have count: "length ?ws = V5_SET_WORDS"
    by (simp add: encode_set_words payload_words_def encode_set_def set_word_count_def Let_def word_counts)
  have "answers (enable_io s) (command # set_replies @ (hi, lo) # rs)"
    using assms(1) by simp
  then obtain s1 where s1: "spi_capture_observed SET_FBUF_LATCH (enable_io s) = (Inr ?c, s1)"
    "answers s1 (set_replies @ (hi, lo) # rs)"
    using answered_spi by metis
  let ?d0 = "no_post_diagnostics
            \<lparr>pd_protocol_version := protocol_version protocol, pd_sequence := lsp_sequence payload,
             pd_command_word := blank_post_word 0 SET_FBUF_LATCH False,
             pd_expected_word_count := lsw_word_count (encode_set protocol payload), pd_injected_skip_index := None\<rparr>"
  let ?d = "?d0\<lparr>pd_command_word := captured_post_word ?c (pd_command_word ?d0)\<rparr>"
  obtain d s2 where s2: "post_words None 0 ?ws ?d s1 = (Inr d, s2)" "answers s2 ((hi, lo) # rs)"
    using answered_post_words [OF s1(2)] assms(2) count by metis
  have "answers (disable_io s2) ((hi, lo) # rs)"
    using s2(2) by simp
  then obtain s3 where "read_receipt_unlocked (disable_io s2) = (Inr receipt, s3)"
    using answered_receipt assms(3-5) by metis
  then show ?thesis
    using s1(1) s2(1) assms(6) by (simp add: post_with_protocol_def Let_def)
qed

lemma answered_status_sample:
  assumes "fg_latch_capabilities s = Some caps" "fg_uio_lock s" "fg_lock_depth s \<noteq> 0 \<or> fg_flock s (fg_flocks s)"
    and "answers s (command # rs)" "length rs = V5_STATUS_WORDS" "decode_status (lcp_protocol caps) (map snd rs) = Inr st"
  shows "\<exists>sample. fst (read_status_sample s) = Inr sample \<and>
    ss_status sample = latched_status_of \<lparr>sc_ack_high = fst command, sc_ack_low = snd command\<rparr> st"
proof -
  let ?P = "\<lambda>r. \<exists>sample. r = Inr sample \<and>
      ss_status sample = latched_status_of \<lparr>sc_ack_high = fst command, sc_ack_low = snd command\<rparr> st"
  have "?P (fst (case map_option lcp_protocol (fg_latch_capabilities s1) of
         None \<Rightarrow> (Inl (status_error_from_io NotNegotiated), s1)
       | Some protocol \<Rightarrow> read_status_retrying protocol s1))"
    if "fg_latch_capabilities s1 = fg_latch_capabilities s" "answers s (command # rs) = answers s1 (command # rs)" for s1
  proof -
    have "answers s1 (command # rs)" "length rs = status_word_count (lcp_protocol caps)"
      using assms(4,5) that(2) by (simp_all add: status_word_count_def)
    then obtain sample s' where "read_status_once (lcp_protocol caps) s1 = (Inr sample, s')"
      "ss_status sample = latched_status_of \<lparr>sc_ack_high = fst command, sc_ack_low = snd command\<rparr> st"
      using answered_status assms(6) by metis
    then show ?thesis
      using assms(1) that(1) by (simp add: read_status_retrying_def)
  qed
  from guarded_runs [where P = ?P, OF assms(2,3) this] show ?thesis
    unfolding read_status_sample_def .
qed

section \<open>Properties\<close>


text \<open>
  C8: An accepted post went out whole. After any run of transactions, a post either fails, having opened
  at most one SET frame, or it succeeds, and then the FPGA received exactly two frames: the SET command
  with the eleven words that encode the mode, base, size, destination, stride and sequence of the post
  followed by their CRC, and the receipt query; and what the query read from the bus after that SET frame
  passed its CRC and is a receipt that names this sequence, and one transaction as attempted, accepted and
  pending or active, the transaction that the post reports.
\<close>

theorem accepted_post_is_on_the_wire:
  fixes gpi :: "nat \<Rightarrow> u32" and flock :: "nat \<Rightarrow> bool" and calls :: "bus_call list"
    and sequence w h :: u16 and base_addr :: u32 and geometry :: fbuf_geometry
  defines "s \<equiv> run_steps bus_call_step (fpga_open gpi flock) calls"
  defines "payload \<equiv> set_payload sequence base_addr w h geometry"
  defines "set_frame \<equiv> SET_FBUF_LATCH # payload_words payload @ [message_crc SET_FBUF_LATCH V5 (payload_words payload)]"
  shows "\<exists>res s' F. post_latched sequence base_addr w h geometry None s = (res, s') \<and>
    rx_frames (received s') = rx_frames (received s) @ F \<and>
    (case res of
       Inl _ \<Rightarrow> set_frames F \<le> 1
     | Inr attempt \<Rightarrow> F = [set_frame, GET_FBUF_LATCH_RECEIPT # replicate V5_RECEIPT_WORDS 0] \<and>
         receipt_behind s s' sequence set_frame attempt)"
proof -
  have rel: "released s"
    using bus_run [of calls gpi flock] by (simp add: bus_inv_def s_def)
  obtain res s' where x: "post_latched sequence base_addr w h geometry None s = (res, s')"
    by fastforce
  from post_transacts [OF rel x] obtain F where F: "transacts s s' F CALL_READS"
    "length (filter (\<lambda>frame. hd frame = SET_FBUF_LATCH) F) \<le> 1"
    "\<forall>a. res = Inr a \<longrightarrow> (\<exists>caps ws receipt. fg_latch_capabilities s = Some caps \<and>
       F = [SET_FBUF_LATCH # sent_words (lcp_protocol caps) payload None, GET_FBUF_LATCH_RECEIPT # replicate V5_RECEIPT_WORDS 0] \<and>
       decode_receipt ws = Inr receipt \<and> receipt_confirms sequence receipt)"
    unfolding payload_def by metis
  have "sent_words protocol payload None = payload_words payload @ [message_crc SET_FBUF_LATCH V5 (payload_words payload)]"
    for protocol
    by (cases protocol) (simp add: sent_words_all encode_set_words)
  note all = this
  have "receipt_behind s s' sequence set_frame attempt" if "res = Inr attempt" for attempt
    using post_receipt [OF rel x [unfolded that]] all unfolding payload_def set_frame_def by metis
  then show ?thesis
    using F x all unfolding set_frame_def by (cases res) (auto simp: transacts_def set_frames_def)
qed

text \<open>
  What the FPGA says is what Linux reads. On a negotiated bus whose lock can be had, when the FPGA
  acknowledges each word promptly and its sixteen response words are a valid status reply, the status
  query succeeds and reports exactly the fields of that reply and both command acknowledgements.
\<close>

theorem answered_status_is_reported:
  assumes "fg_latch_capabilities s = Some caps" "fg_uio_lock s" "fg_lock_depth s \<noteq> 0 \<or> fg_flock s (fg_flocks s)"
    and "answers s (command # rs)" "length rs = V5_STATUS_WORDS" "decode_status (lcp_protocol caps) (map snd rs) = Inr st"
  shows "\<exists>sample. fst (read_status_sample s) = Inr sample \<and>
    ss_status sample = latched_status_of \<lparr>sc_ack_high = fst command, sc_ack_low = snd command\<rparr> st"
  by (rule answered_status_sample [OF assms])

text \<open>
  A confirmed post is reported as posted. On a negotiated bus whose lock can be had, when the FPGA
  acknowledges the command, its twelve words and the receipt query promptly, shows the receipt magic and
  returns a valid receipt that confirms the sequence, the post succeeds and reports the command's
  acknowledgements.
\<close>

theorem confirmed_post_succeeds:
  assumes "fg_latch_capabilities s = Some caps" "fg_uio_lock s" "fg_lock_depth s \<noteq> 0 \<or> fg_flock s (fg_flocks s)"
    and "answers s (command # set_replies @ (hi, lo) # rs)" "length set_replies = V5_SET_WORDS"
    and "length rs = V5_RECEIPT_WORDS" "hi = RECEIPT_MAGIC \<or> lo = RECEIPT_MAGIC"
    and "decode_receipt (map snd rs) = Inr receipt" "receipt_confirms sequence receipt"
  shows "\<exists>a. fst (post_latched sequence base_addr w h geometry None s) = Inr a \<and>
    pa_ack_high a = fst command \<and> pa_ack_low a = snd command"
proof -
  let ?P = "\<lambda>r. \<exists>a. r = Inr a \<and> pa_ack_high a = fst command \<and> pa_ack_low a = snd command"
  have "?P (fst (let s = disable_io s1
       in case map_option lcp_protocol (fg_latch_capabilities s) of
            None \<Rightarrow> (Inl (post_error_from_io NotNegotiated), s)
          | Some protocol \<Rightarrow>
              post_with_protocol protocol (set_payload sequence base_addr w h geometry) None s))"
    if "fg_latch_capabilities s1 = fg_latch_capabilities s"
      "answers s (command # set_replies @ (hi, lo) # rs) = answers s1 (command # set_replies @ (hi, lo) # rs)" for s1
  proof -
    have "answers (disable_io s1) (command # set_replies @ (hi, lo) # rs)"
      using assms(4) that(2) by simp
    moreover have "receipt_confirms (lsp_sequence (set_payload sequence base_addr w h geometry)) receipt"
      using assms(9) by (simp add: set_payload_def)
    ultimately obtain a s' where "post_with_protocol (lcp_protocol caps) (set_payload sequence base_addr w h geometry) None
        (disable_io s1) = (Inr a, s')" "pa_ack_high a = fst command" "pa_ack_low a = snd command"
      using answered_post [OF _ assms(5-8)] by metis
    moreover have "fg_latch_capabilities (disable_io s1) = Some caps"
      using assms(1) that(1) answers_disable(2) [of s1] by (simp add: same_wiring_def)
    ultimately show ?thesis
      by (simp add: Let_def)
  qed
  from guarded_runs [where P = ?P, OF assms(2,3) this] show ?thesis
    unfolding post_latched_def .
qed

section \<open>Examples\<close>

text \<open>The input register of a device that acknowledges every word at once.\<close>

definition prompt_gpi :: "(u16 \<times> u16) list \<Rightarrow> nat \<Rightarrow> u32" where
  "prompt_gpi rs n = (if even n then ACK OR ucast (fst (rs ! (n div 2))) else ucast (snd (rs ! (n div 2))))"

definition sample_caps :: latch_capabilities where
  "sample_caps = \<lparr>lcp_protocol = V5, lcp_protocol_version = 5, lcp_flags = 0x03ff, lcp_max_width = 1366,
     lcp_max_height = 768, lcp_max_stride_bytes = 2736, lcp_crc = None\<rparr>"

definition prompt_fpga :: "(u16 \<times> u16) list \<Rightarrow> fpga" where
  "prompt_fpga rs = (fpga_open (prompt_gpi rs) (\<lambda>_. True))\<lparr>fg_latch_capabilities := Some sample_caps\<rparr>"

lemma prompt_answers: "answers (prompt_fpga rs) rs"
  by (simp add: answers_def prompt_fpga_def fpga_open_def prompt_gpi_def)

lemma prompt_fields:
  "fg_latch_capabilities (prompt_fpga rs) = Some sample_caps" "fg_uio_lock (prompt_fpga rs)"
  "fg_flock (prompt_fpga rs) n" "lcp_protocol sample_caps = V5"
  by (simp_all add: prompt_fpga_def fpga_open_def sample_caps_def)

theorem answered_status_is_reported_witness:
  "\<exists>sample. fst (read_status_sample (prompt_fpga ((STATUS_MAGIC, 0) # map (Pair 0) golden_reply))) = Inr sample \<and>
     ls_active_width (ss_status sample) = 960"
proof -
  obtain st where st: "decode_status V5 golden_reply = Inr st" "lst_width st = 960"
    using golden_reply_accepted by (auto split: sum.splits)
  have "length golden_reply = V5_STATUS_WORDS"
    by (simp add: golden_reply_def GOLDEN_STATUS_V5_PAYLOAD_def V5_STATUS_WORDS_def)
  then show ?thesis
    using answered_status_is_reported [of "prompt_fpga ((STATUS_MAGIC, 0) # map (Pair 0) golden_reply)" sample_caps
        "(STATUS_MAGIC, 0)" "map (Pair 0) golden_reply" st] prompt_answers prompt_fields st
    by (auto simp: latched_status_of_def comp_def)
qed

definition sample_receipt_words :: "u16 list" where
  "sample_receipt_words = (let payload = [7, 43, 1, 7, 43, 7, 43, 6, 42, 0]
     in payload @ [message_crc GET_FBUF_LATCH_RECEIPT V5 payload])"

lemma sample_receipt:
  "\<exists>receipt. decode_receipt sample_receipt_words = Inr receipt \<and> receipt_confirms 43 receipt"
  "length sample_receipt_words = V5_RECEIPT_WORDS"
  by (simp_all add: sample_receipt_words_def decode_receipt_def word_counts verify_crc_def Let_def
      RECEIPT_ACCEPTED_def RECEIPT_REJECTED_def receipt_confirms_def receipt_accepted_def)

theorem confirmed_post_succeeds_witness:
  "\<exists>a. fst (post_latched 43 0x227e9000 960 540
      \<lparr>gm_xoff = 0, gm_right = 959, gm_yoff = 0, gm_bottom = 539, gm_stride_bytes = 1920\<rparr> None
      (prompt_fpga ((LATCH_MAGIC, 0) # replicate 12 (0, 0) @ (RECEIPT_MAGIC, 0) # map (Pair 0) sample_receipt_words))) = Inr a \<and>
     pa_ack_high a = LATCH_MAGIC"
proof -
  obtain receipt where "decode_receipt sample_receipt_words = Inr receipt" "receipt_confirms 43 receipt"
    using sample_receipt(1) by blast
  then have "\<exists>a. fst (post_latched 43 0x227e9000 960 540
      \<lparr>gm_xoff = 0, gm_right = 959, gm_yoff = 0, gm_bottom = 539, gm_stride_bytes = 1920\<rparr> None
      (prompt_fpga ((LATCH_MAGIC, 0) # replicate 12 (0, 0) @ (RECEIPT_MAGIC, 0) # map (Pair 0) sample_receipt_words))) = Inr a \<and>
     pa_ack_high a = fst (LATCH_MAGIC, 0 :: u16) \<and> pa_ack_low a = snd (LATCH_MAGIC, 0 :: u16)"
    by (intro confirmed_post_succeeds [OF prompt_fields(1,2) _ prompt_answers])
      (simp_all add: prompt_fields comp_def V5_SET_WORDS_def sample_receipt(2))
  then show ?thesis
    by auto
qed

end
