(* ===== verification/Display_Plan.thy ===== *)
theory Display_Plan
  imports Rust_Text Vertical_Scale Fpga_Bus
begin

text \<open>
  From a display mode to a frame on the wire: the portable display plan
  (\<open>crates/magik-core/src/display.rs\<close>), the placement of the framebuffer in the video mode
  (\<open>framebuffer/route.rs\<close> and \<open>LatchedFbufGeometry\<close> of \<open>fpga.rs\<close>), the stock framebuffer command, and
  the layout of the scanout slots (\<open>contracts/scanout\<close>, \<open>framebuffer/hidden_scanout.rs\<close>).
\<close>

section \<open>Numbers in texts\<close>

text \<open>\<open>str::parse\<close> for an integer type with the given bounds.\<close>

definition is_digit :: "scalar \<Rightarrow> bool" where
  "is_digit c \<longleftrightarrow> 48 \<le> c \<and> c \<le> 57"

definition digits_value :: "rtext \<Rightarrow> int" where
  "digits_value ds = foldl (\<lambda>n c. n * 10 + (int c - 48)) 0 ds"

definition parse_int :: "int \<Rightarrow> int \<Rightarrow> rtext \<Rightarrow> int option" where
  "parse_int lo hi t =
     (let (sign, ds) =
            (case t of
               [] \<Rightarrow> (1, [])
             | c # cs \<Rightarrow> if c = 43 then (1, cs) else if c = 45 \<and> lo < 0 then (- 1, cs) else (1, t));
          n = sign * digits_value ds
      in if ds = [] \<or> \<not> list_all is_digit ds \<or> n < lo \<or> hi < n then None else Some n)"

text \<open>\<open>str::split\<close> for one character: the pieces between the separators.\<close>

fun split_text :: "scalar \<Rightarrow> rtext \<Rightarrow> rtext list" where
  "split_text sep [] = [[]]"
| "split_text sep (c # t) =
     (if c = sep then [] # split_text sep t
      else case split_text sep t of [] \<Rightarrow> [[c]] | p # ps \<Rightarrow> (c # p) # ps)"

section \<open>Modes\<close>

datatype output_route = Hdmi | Crt240p60 | Crt288p50 | Crt480p60 | Crt576p50

datatype crt240_composition = Legacy480 | Native240

record content_insets =
  ci_left :: nat
  ci_top :: nat
  ci_right :: nat
  ci_bottom :: nat

record display_geometry =
  dg_output_w :: nat
  dg_output_h :: nat
  dg_scan_w :: nat
  dg_scan_h :: nat

datatype framebuffer_policy = AutoSize | Force960x540 | Force1280x720

definition UI_FB_W :: nat where "UI_FB_W = 960"
definition UI_FB_H :: nat where "UI_FB_H = 540"
definition UI_FB_720P_W :: nat where "UI_FB_720P_W = 1280"
definition UI_FB_720P_H :: nat where "UI_FB_720P_H = 720"
definition CRT_COMPOSITION_W :: nat where "CRT_COMPOSITION_W = 640"
definition CRT_COMPOSITION_H :: nat where "CRT_COMPOSITION_H = 480"
definition MIN_RUNTIME_SCAN_W :: nat where "MIN_RUNTIME_SCAN_W = 320"
definition MIN_RUNTIME_SCAN_H :: nat where "MIN_RUNTIME_SCAN_H = 200"

definition crt240_parse :: "rtext option \<Rightarrow> crt240_composition" where
  "crt240_parse v =
     (case map_option (\<lambda>t. map to_ascii_lower (trim t)) v of
        Some t \<Rightarrow> if t = lit ''legacy-480'' \<or> t = lit ''legacy'' then Legacy480 else Native240
      | None \<Rightarrow> Native240)"

definition crt240_label :: "crt240_composition \<Rightarrow> rtext" where
  "crt240_label c = (case c of Legacy480 \<Rightarrow> lit ''legacy-480'' | Native240 \<Rightarrow> lit ''native-240'')"

definition output_label :: "output_route \<Rightarrow> rtext" where
  "output_label r =
     (case r of
        Hdmi \<Rightarrow> lit ''hdmi''
      | Crt240p60 \<Rightarrow> lit ''crt-240p60''
      | Crt288p50 \<Rightarrow> lit ''crt-288p50''
      | Crt480p60 \<Rightarrow> lit ''crt-480p60''
      | Crt576p50 \<Rightarrow> lit ''crt-576p50'')"

definition route_is_crt :: "output_route \<Rightarrow> bool" where
  "route_is_crt r \<longleftrightarrow> r \<noteq> Hdmi"

definition nominal_period_us :: "output_route \<Rightarrow> nat option" where
  "nominal_period_us r =
     (case r of
        Hdmi \<Rightarrow> None
      | Crt240p60 \<Rightarrow> Some 16652
      | Crt288p50 \<Rightarrow> Some 19830
      | Crt480p60 \<Rightarrow> Some 16683
      | Crt576p50 \<Rightarrow> Some 19829)"

definition content_insets_with_crt240 :: "output_route \<Rightarrow> crt240_composition \<Rightarrow> content_insets" where
  "content_insets_with_crt240 r composition =
     (case r of
        Crt240p60 \<Rightarrow>
          (case composition of
             Legacy480 \<Rightarrow> \<lparr>ci_left = 32, ci_top = 24, ci_right = 32, ci_bottom = 24\<rparr>
           | Native240 \<Rightarrow> \<lparr>ci_left = 32, ci_top = 12, ci_right = 32, ci_bottom = 12\<rparr>)
      | Crt288p50 \<Rightarrow> \<lparr>ci_left = 32, ci_top = 20, ci_right = 32, ci_bottom = 15\<rparr>
      | Crt576p50 \<Rightarrow> \<lparr>ci_left = 0, ci_top = 0, ci_right = 64, ci_bottom = 0\<rparr>
      | _ \<Rightarrow> \<lparr>ci_left = 0, ci_top = 0, ci_right = 0, ci_bottom = 0\<rparr>)"

definition geometry_with_scan :: "nat \<Rightarrow> nat \<Rightarrow> nat \<Rightarrow> nat \<Rightarrow> display_geometry" where
  "geometry_with_scan output_w output_h scan_w scan_h =
     \<lparr>dg_output_w = output_w, dg_output_h = output_h, dg_scan_w = scan_w, dg_scan_h = scan_h\<rparr>"

definition geometry_new :: "nat \<Rightarrow> nat \<Rightarrow> display_geometry" where
  "geometry_new output_w output_h = geometry_with_scan output_w output_h output_w output_h"

text \<open>The words are \<open>u32\<close>, the display enables \<open>u16\<close>; a dimension that is zero or too wide is refused.\<close>

definition from_video_words :: "nat \<Rightarrow> nat \<Rightarrow> nat \<Rightarrow> nat \<Rightarrow> display_geometry option" where
  "from_video_words w h de_h de_v =
     (if w = 0 \<or> 65535 < w \<or> h = 0 \<or> 65535 < h then None
      else
        (let output_w = (if 0 < de_h then de_h else w);
             output_h = (if 0 < de_v then de_v else h)
         in if w < MIN_RUNTIME_SCAN_W \<or> h < MIN_RUNTIME_SCAN_H \<or>
               output_w < MIN_RUNTIME_SCAN_W \<or> output_h < MIN_RUNTIME_SCAN_H
            then None else Some (geometry_with_scan output_w output_h w h)))"

definition progressive_geometry :: "output_route \<Rightarrow> display_geometry option" where
  "progressive_geometry r =
     (case r of
        Hdmi \<Rightarrow> None
      | Crt240p60 \<Rightarrow> Some (geometry_new 640 240)
      | Crt288p50 \<Rightarrow> Some (geometry_new 640 288)
      | Crt480p60 \<Rightarrow> Some (geometry_new 640 480)
      | Crt576p50 \<Rightarrow> Some (geometry_new 640 576))"

definition framebuffer_geometry :: "output_route \<Rightarrow> (nat \<times> nat) option" where
  "framebuffer_geometry r =
     (case r of
        Hdmi \<Rightarrow> None
      | Crt240p60 \<Rightarrow> Some (640, 240)
      | Crt288p50 \<Rightarrow> Some (640, 288)
      | Crt480p60 \<Rightarrow> Some (640, 480)
      | Crt576p50 \<Rightarrow> Some (640, 576))"

definition composition_geometry_with_crt240 :: "output_route \<Rightarrow> nat \<times> nat \<Rightarrow> crt240_composition \<Rightarrow> nat \<times> nat" where
  "composition_geometry_with_crt240 r framebuffer composition =
     (case r of
        Crt288p50 \<Rightarrow> framebuffer
      | Crt576p50 \<Rightarrow> framebuffer
      | Crt240p60 \<Rightarrow>
          (case composition of
             Legacy480 \<Rightarrow> (CRT_COMPOSITION_W, CRT_COMPOSITION_H)
           | Native240 \<Rightarrow> framebuffer)
      | Crt480p60 \<Rightarrow> (CRT_COMPOSITION_W, CRT_COMPOSITION_H)
      | Hdmi \<Rightarrow> framebuffer)"

definition at_least_one :: "nat \<Rightarrow> nat" where
  "at_least_one n = (if n = 0 then 1 else n)"

definition launcher_framebuffer_size :: "nat \<Rightarrow> nat \<Rightarrow> nat \<times> nat" where
  "launcher_framebuffer_size output_w output_h =
     (if 1366 \<le> output_w \<or> 900 \<le> output_h
      then (at_least_one (output_w div 2), at_least_one (output_h div 2))
      else (at_least_one output_w, at_least_one output_h))"

definition framebuffer_size :: "framebuffer_policy \<Rightarrow> nat \<Rightarrow> nat \<Rightarrow> nat \<times> nat" where
  "framebuffer_size policy output_w output_h =
     (case policy of
        AutoSize \<Rightarrow> launcher_framebuffer_size output_w output_h
      | Force960x540 \<Rightarrow> (UI_FB_W, UI_FB_H)
      | Force1280x720 \<Rightarrow> (UI_FB_720P_W, UI_FB_720P_H))"

section \<open>Plans\<close>

record display_plan =
  dp_fb_w :: nat
  dp_fb_h :: nat
  dp_render_w :: nat
  dp_render_h :: nat
  dp_output_w :: nat
  dp_output_h :: nat
  dp_scan_w :: nat
  dp_scan_h :: nat
  dp_output_route :: output_route
  dp_fb_policy :: framebuffer_policy
  dp_crt240_composition :: crt240_composition

definition plan_with_crt240 ::
  "display_geometry \<Rightarrow> output_route \<Rightarrow> framebuffer_policy \<Rightarrow> crt240_composition \<Rightarrow> display_plan" where
  "plan_with_crt240 geometry route fb_policy composition =
     (let (fb, fb_policy) =
            (case framebuffer_geometry route of
               Some fb \<Rightarrow> (fb, AutoSize)
             | None \<Rightarrow> (framebuffer_size fb_policy (dg_output_w geometry) (dg_output_h geometry), fb_policy));
          render = composition_geometry_with_crt240 route fb composition
      in \<lparr>dp_fb_w = fst fb, dp_fb_h = snd fb, dp_render_w = fst render, dp_render_h = snd render,
          dp_output_w = dg_output_w geometry, dp_output_h = dg_output_h geometry,
          dp_scan_w = dg_scan_w geometry, dp_scan_h = dg_scan_h geometry, dp_output_route = route,
          dp_fb_policy = fb_policy, dp_crt240_composition = composition\<rparr>)"

definition plan_from_geometry :: "display_geometry \<Rightarrow> output_route \<Rightarrow> framebuffer_policy \<Rightarrow> display_plan" where
  "plan_from_geometry geometry route fb_policy = plan_with_crt240 geometry route fb_policy Legacy480"

definition route_for_mode_id :: "rtext \<Rightarrow> output_route option" where
  "route_for_mode_id mode =
     (if mode \<in> {lit ''auto'', lit ''custom'', lit ''hdmi-1280x720p60'', lit ''hdmi-1366x768p60'',
          lit ''hdmi-1920x1080p60'', lit ''hdmi-1920x1200p60'', lit ''hdmi-2048x1536p60'', lit ''hdmi-2560x1440p60''}
      then Some Hdmi
      else if mode = lit ''crt-240p60'' then Some Crt240p60
      else if mode = lit ''crt-288p50'' then Some Crt288p50
      else if mode = lit ''crt-480p60'' then Some Crt480p60
      else if mode = lit ''crt-576p50'' then Some Crt576p50
      else None)"

definition geometry_for_mode_id :: "rtext \<Rightarrow> display_geometry option" where
  "geometry_for_mode_id mode =
     (if mode = lit ''hdmi-1280x720p60'' then Some (geometry_new 1280 720)
      else if mode = lit ''hdmi-1366x768p60'' then Some (geometry_new 1366 768)
      else if mode = lit ''hdmi-1920x1080p60'' then Some (geometry_new 1920 1080)
      else if mode = lit ''hdmi-1920x1200p60'' then Some (geometry_new 1920 1200)
      else if mode = lit ''hdmi-2048x1536p60'' then Some (geometry_new 2048 1536)
      else if mode = lit ''hdmi-2560x1440p60'' then Some (geometry_with_scan 2560 1440 1280 1440)
      else if mode = lit ''crt-240p60'' then Some (geometry_new 640 240)
      else if mode = lit ''crt-288p50'' then Some (geometry_new 640 288)
      else if mode = lit ''crt-480p60'' then Some (geometry_new 640 480)
      else if mode = lit ''crt-576p50'' then Some (geometry_new 640 576)
      else None)"

definition from_mode_or_detected :: "rtext \<Rightarrow> display_geometry option \<Rightarrow> display_plan option" where
  "from_mode_or_detected mode detected =
     (case route_for_mode_id mode of
        None \<Rightarrow> None
      | Some route \<Rightarrow>
          map_option (\<lambda>geometry. plan_from_geometry geometry route AutoSize)
            (if mode = lit ''auto'' \<or> mode = lit ''custom'' then detected else geometry_for_mode_id mode))"

section \<open>Contracts with the Main process\<close>

text \<open>
  The loop over the fields \<open>key=value\<close> of a contract text: the schema and one named value, each at
  most once; any other field ends it.
\<close>

fun contract_fields :: "rtext \<Rightarrow> rtext list \<Rightarrow> rtext option \<Rightarrow> rtext option \<Rightarrow> (rtext option \<times> rtext option) option" where
  "contract_fields name [] schema named = Some (schema, named)"
| "contract_fields name (field # others) schema named =
     (case split_once 61 field of
        None \<Rightarrow> None
      | Some (key, v) \<Rightarrow>
          if key = lit ''schema'' \<and> schema = None then contract_fields name others (Some v) named
          else if key = name \<and> named = None then contract_fields name others schema (Some v)
          else None)"

definition contract_value :: "rtext \<Rightarrow> rtext \<Rightarrow> rtext option" where
  "contract_value name t =
     (case contract_fields name (split_text 38 t) None None of
        None \<Rightarrow> None
      | Some (schema, named) \<Rightarrow> if schema \<noteq> Some (lit ''1'') then None else named)"

definition from_runtime_settings_v1 :: "rtext \<Rightarrow> output_route option" where
  "from_runtime_settings_v1 t =
     (case contract_value (lit ''output'') t of
        None \<Rightarrow> None
      | Some output \<Rightarrow>
          if output = lit ''hdmi'' then Some Hdmi
          else if output = lit ''crt-240p60'' then Some Crt240p60
          else if output = lit ''crt-288p50'' then Some Crt288p50
          else if output = lit ''crt-480p60'' then Some Crt480p60
          else if output = lit ''crt-576p50'' then Some Crt576p50
          else None)"

definition runtime_display_mode_v1 :: "rtext \<Rightarrow> rtext option" where
  "runtime_display_mode_v1 t =
     (case contract_value (lit ''mode'') t of
        None \<Rightarrow> None
      | Some mode \<Rightarrow> (case route_for_mode_id mode of None \<Rightarrow> None | Some _ \<Rightarrow> Some mode))"

definition runtime_display_geometry_v1 :: "rtext \<Rightarrow> display_geometry option" where
  "runtime_display_geometry_v1 t = Option.bind (runtime_display_mode_v1 t) geometry_for_mode_id"

definition from_runtime_contracts :: "rtext \<Rightarrow> rtext \<Rightarrow> display_geometry option \<Rightarrow> display_plan option" where
  "from_runtime_contracts runtime_settings runtime_display detected =
     (case from_runtime_settings_v1 runtime_settings of
        None \<Rightarrow> None
      | Some route \<Rightarrow>
          (case progressive_geometry route of
             Some geometry \<Rightarrow> Some (plan_from_geometry geometry route AutoSize)
           | None \<Rightarrow>
               (case runtime_display_mode_v1 runtime_display of
                  None \<Rightarrow> None
                | Some mode \<Rightarrow>
                    map_option (\<lambda>geometry. plan_from_geometry geometry route AutoSize)
                      (case geometry_for_mode_id mode of Some g \<Rightarrow> Some g | None \<Rightarrow> detected))))"

section \<open>The table of resolutions\<close>

record display_resolution =
  dr_id :: rtext
  dr_label :: rtext
  dr_output_w :: nat
  dr_output_h :: nat
  dr_video_mode :: "rtext option"
  dr_direct_video :: nat
  dr_menu_pal :: nat
  dr_forced_scandoubler :: nat

definition AUTOMATIC_DISPLAY_RESOLUTION :: display_resolution where
  "AUTOMATIC_DISPLAY_RESOLUTION =
     \<lparr>dr_id = lit ''auto'', dr_label = lit ''Automatic (HDMI / VGA DAC)'', dr_output_w = 0, dr_output_h = 0,
      dr_video_mode = None, dr_direct_video = 2, dr_menu_pal = 0, dr_forced_scandoubler = 0\<rparr>"

definition DISPLAY_RESOLUTIONS :: "display_resolution list" where
  "DISPLAY_RESOLUTIONS =
    [\<lparr>dr_id = lit ''hdmi-1280x720p60'', dr_label = lit ''1280x720 (16:9)'', dr_output_w = 1280, dr_output_h = 720,
      dr_video_mode = Some (lit ''0''), dr_direct_video = 0, dr_menu_pal = 0, dr_forced_scandoubler = 0\<rparr>,
     \<lparr>dr_id = lit ''hdmi-1366x768p60'', dr_label = lit ''1366x768 (16:9)'', dr_output_w = 1366, dr_output_h = 768,
      dr_video_mode = Some (lit ''10''), dr_direct_video = 0, dr_menu_pal = 0, dr_forced_scandoubler = 0\<rparr>,
     \<lparr>dr_id = lit ''hdmi-1920x1080p60'', dr_label = lit ''1920x1080 (16:9)'', dr_output_w = 1920, dr_output_h = 1080,
      dr_video_mode = Some (lit ''8''), dr_direct_video = 0, dr_menu_pal = 0, dr_forced_scandoubler = 0\<rparr>,
     \<lparr>dr_id = lit ''hdmi-1920x1200p60'', dr_label = lit ''1920x1200 (16:10)'', dr_output_w = 1920, dr_output_h = 1200,
      dr_video_mode = Some (lit ''1920,1200,60''), dr_direct_video = 0, dr_menu_pal = 0, dr_forced_scandoubler = 0\<rparr>,
     \<lparr>dr_id = lit ''hdmi-2048x1536p60'', dr_label = lit ''2048x1536 (4:3)'', dr_output_w = 2048, dr_output_h = 1536,
      dr_video_mode = Some (lit ''13''), dr_direct_video = 0, dr_menu_pal = 0, dr_forced_scandoubler = 0\<rparr>,
     \<lparr>dr_id = lit ''hdmi-2560x1440p60'', dr_label = lit ''2560x1440 (16:9)'', dr_output_w = 2560, dr_output_h = 1440,
      dr_video_mode = Some (lit ''2560,1440,60''), dr_direct_video = 0, dr_menu_pal = 0, dr_forced_scandoubler = 0\<rparr>,
     \<lparr>dr_id = lit ''crt-240p60'', dr_label = lit ''CRT 240p 60hz NTSC'', dr_output_w = 640, dr_output_h = 240,
      dr_video_mode = None, dr_direct_video = 1, dr_menu_pal = 0, dr_forced_scandoubler = 0\<rparr>,
     \<lparr>dr_id = lit ''crt-480p60'', dr_label = lit ''CRT 480p 60hz NTSC'', dr_output_w = 640, dr_output_h = 480,
      dr_video_mode = None, dr_direct_video = 1, dr_menu_pal = 0, dr_forced_scandoubler = 1\<rparr>,
     \<lparr>dr_id = lit ''crt-288p50'', dr_label = lit ''CRT 288p 50hz PAL'', dr_output_w = 640, dr_output_h = 288,
      dr_video_mode = None, dr_direct_video = 1, dr_menu_pal = 1, dr_forced_scandoubler = 0\<rparr>,
     \<lparr>dr_id = lit ''crt-576p50'', dr_label = lit ''CRT 576p 50hz PAL'', dr_output_w = 640, dr_output_h = 576,
      dr_video_mode = None, dr_direct_video = 1, dr_menu_pal = 1, dr_forced_scandoubler = 1\<rparr>]"

definition find_display_resolution :: "rtext \<Rightarrow> display_resolution option" where
  "find_display_resolution mode =
     (if mode = dr_id AUTOMATIC_DISPLAY_RESOLUTION then Some AUTOMATIC_DISPLAY_RESOLUTION
      else find (\<lambda>r. dr_id r = mode) DISPLAY_RESOLUTIONS)"

definition PREDEFINED_MODES :: "display_geometry list" where
  "PREDEFINED_MODES =
    [geometry_new 1280 720, geometry_new 1024 768, geometry_new 720 480, geometry_new 720 576,
     geometry_new 1280 1024, geometry_new 800 600, geometry_new 640 480, geometry_new 1280 720,
     geometry_new 1920 1080, geometry_new 1920 1080, geometry_new 1366 768, geometry_new 1024 600,
     geometry_new 1920 1440, geometry_new 2048 1536, geometry_with_scan 2560 1440 1280 1440]"

definition predefined_video_mode :: "nat \<Rightarrow> display_geometry option" where
  "predefined_video_mode mode = (if mode < length PREDEFINED_MODES then Some (PREDEFINED_MODES ! mode) else None)"

text \<open>All the numbers of a list, or none; then width and height as \<open>u16\<close>.\<close>

fun all_some :: "'a option list \<Rightarrow> 'a list option" where
  "all_some [] = Some []"
| "all_some (x # xs) = (case x of None \<Rightarrow> None | Some y \<Rightarrow> map_option ((#) y) (all_some xs))"

definition u16_geometry :: "int \<Rightarrow> int \<Rightarrow> display_geometry option" where
  "u16_geometry w h = (if 65535 < w \<or> 65535 < h then None else Some (geometry_new (nat w) (nat h)))"

definition video_mode_geometry :: "rtext \<Rightarrow> display_geometry option" where
  "video_mode_geometry v =
     (let v = trim v in
      case parse_int 0 (int USIZE_MAX) v of
        Some mode \<Rightarrow> predefined_video_mode (nat mode)
      | None \<Rightarrow>
          (case all_some (map (\<lambda>part. parse_int 0 (2 ^ 64 - 1) (trim part)) (split_text 44 v)) of
             None \<Rightarrow> None
           | Some (w # _ # _ # _ # h # _) \<Rightarrow> u16_geometry w h
           | Some (w # h # _) \<Rightarrow> u16_geometry w h
           | Some _ \<Rightarrow> None))"

section \<open>The place of the framebuffer in the video mode\<close>

text \<open>All fields are \<open>u16\<close>.\<close>

record route_mode =
  rm_hact :: u16
  rm_hbp :: u16
  rm_vact :: u16
  rm_vbp :: u16

record placement =
  pl_left :: u16
  pl_top :: u16
  pl_width :: u16
  pl_height :: u16

record launcher_route =
  lr_mode :: route_mode
  lr_placement :: placement
  lr_direct_video :: bool

definition framebuffer_sized :: "u16 \<Rightarrow> u16 \<Rightarrow> route_mode" where
  "framebuffer_sized w h = \<lparr>rm_hact = w, rm_hbp = 3, rm_vact = h, rm_vbp = 2\<rparr>"

definition placement_from_mode :: "route_mode \<Rightarrow> placement" where
  "placement_from_mode m =
     \<lparr>pl_left = sat_sub (rm_hbp m) 3, pl_top = sat_sub (rm_vbp m) 2, pl_width = rm_hact m, pl_height = rm_vact m\<rparr>"

definition ui_fpga_scaled_mode :: "u16 \<Rightarrow> u16 \<Rightarrow> bool \<Rightarrow> route_mode" where
  "ui_fpga_scaled_mode scan_w scan_h direct_video =
     (let (hbp, vbp) =
            (if direct_video then
               if scan_w = 640 \<and> (scan_h = 240 \<or> scan_h = 288) then (70, 14)
               else if scan_w = 640 \<and> scan_h = 480 then (48, 33)
               else if scan_w = 640 \<and> scan_h = 576 then (48, 42)
               else (3, 2)
             else (3, 2))
      in \<lparr>rm_hact = scan_w, rm_hbp = hbp, rm_vact = scan_h, rm_vbp = vbp\<rparr>)"

definition ui_fpga_placement :: "route_mode \<Rightarrow> bool \<Rightarrow> placement" where
  "ui_fpga_placement m direct_video = placement_from_mode m"

definition route_for_scan :: "u16 \<Rightarrow> u16 \<Rightarrow> bool \<Rightarrow> launcher_route" where
  "route_for_scan scan_w scan_h direct_video =
     (let m = ui_fpga_scaled_mode scan_w scan_h direct_video
      in \<lparr>lr_mode = m, lr_placement = ui_fpga_placement m direct_video, lr_direct_video = direct_video\<rparr>)"

definition align16 :: "nat \<Rightarrow> nat" where
  "align16 bytes = (bytes + 15) div 16 * 16"

definition rgb565_stride_bytes :: "nat \<Rightarrow> nat" where
  "rgb565_stride_bytes w = align16 (w * 2)"

text \<open>The rectangle of the CRT trial: four decimal numbers in order and in range.\<close>

definition parse_diagnostic_rectangle :: "rtext \<Rightarrow> (int \<times> int \<times> int \<times> int) option" where
  "parse_diagnostic_rectangle v =
     (case all_some (map (parse_int (- (2 ^ 31)) (2 ^ 31 - 1)) (split_text 44 v)) of
        Some [l, r, t, b] \<Rightarrow>
          if 0 \<le> l \<and> 0 \<le> t \<and> l \<le> r \<and> t \<le> b \<and> r \<le> 2047 \<and> b \<le> 2047 then Some (l, r, t, b) else None
      | _ \<Rightarrow> None)"

text \<open>The two environment variables are an argument.\<close>

definition diagnostic_rectangle :: "rtext option \<Rightarrow> rtext option \<Rightarrow> (int \<times> int \<times> int \<times> int) option" where
  "diagnostic_rectangle trial rect =
     (if trial \<noteq> Some (lit ''1'') then None else Option.bind rect parse_diagnostic_rectangle)"

text \<open>\<open>i32\<close> arithmetic on values far from its limits; \<open>as u16\<close> keeps the low bits.\<close>

definition geometry_with_placement ::
  "(int \<times> int \<times> int \<times> int) option \<Rightarrow> nat \<Rightarrow> placement \<Rightarrow> int \<Rightarrow> fbuf_geometry" where
  "geometry_with_placement diagnostic fb_width pl right_guard_cols =
     (let (xoff, right, yoff, bottom) =
            (case diagnostic of
               Some rect \<Rightarrow> rect
             | None \<Rightarrow>
                 (let xoff = uint (pl_left pl);
                      yoff = uint (pl_top pl);
                      guard = max 0 (min right_guard_cols (uint (sat_sub (pl_width pl) 1)))
                  in (xoff, xoff + uint (pl_width pl) - 1 - guard, yoff, yoff + uint (pl_height pl) - 1)))
      in \<lparr>gm_xoff = of_int xoff, gm_right = of_int right, gm_yoff = of_int yoff, gm_bottom = of_int bottom,
          gm_stride_bytes = of_nat (rgb565_stride_bytes fb_width)\<rparr>)"

definition geometry_for_mode ::
  "(int \<times> int \<times> int \<times> int) option \<Rightarrow> nat \<Rightarrow> route_mode \<Rightarrow> int \<Rightarrow> fbuf_geometry" where
  "geometry_for_mode diagnostic fb_width m right_guard_cols =
     geometry_with_placement diagnostic fb_width (placement_from_mode m) right_guard_cols"

definition geometry_for_route ::
  "(int \<times> int \<times> int \<times> int) option \<Rightarrow> nat \<Rightarrow> launcher_route \<Rightarrow> int \<Rightarrow> fbuf_geometry" where
  "geometry_for_route diagnostic fb_width route right_guard_cols =
     geometry_with_placement diagnostic fb_width (lr_placement route) right_guard_cols"

section \<open>The scanout slots\<close>

record slot_layout =
  sl_physical_address :: u32
  sl_mmap_offset_bytes :: u32

record slots_layout =
  sy_abi_version :: u32
  sy_slot_count :: u32
  sy_max_width :: u32
  sy_max_height :: u32
  sy_max_stride_bytes :: u32
  sy_slot_capacity_bytes :: u32
  sy_map_bytes :: u32
  sy_flags :: u32
  sy_slots :: "slot_layout list"
  sy_reserved :: "u32 list"

definition EXPECTED_LAYOUT :: slots_layout where
  "EXPECTED_LAYOUT =
     \<lparr>sy_abi_version = 3, sy_slot_count = 2, sy_max_width = 1366, sy_max_height = 768, sy_max_stride_bytes = 2736,
      sy_slot_capacity_bytes = 2736 * 768, sy_map_bytes = 2736 * 768, sy_flags = 1,
      sy_slots = [\<lparr>sl_physical_address = 0x227e9000, sl_mmap_offset_bytes = 0\<rparr>,
        \<lparr>sl_physical_address = 0x22fd2000, sl_mmap_offset_bytes = 8294400\<rparr>],
      sy_reserved = [0, 0, 0, 0]\<rparr>"

datatype scanout_error =
  ScanoutIo | InvalidBufferIndex nat | SlotAlreadyMapped nat | InvalidLayout | InvalidGeometry | MmapFailed | MmapReturnedNull

definition validate_layout :: "slots_layout \<Rightarrow> scanout_error + unit" where
  "validate_layout l = (if l \<noteq> EXPECTED_LAYOUT then Inl InvalidLayout else Inr ())"

definition validate_geometry :: "nat \<Rightarrow> nat \<Rightarrow> nat \<Rightarrow> scanout_error + nat" where
  "validate_geometry w h stride_bytes =
     (if w = 0 \<or> h = 0 then Inl InvalidGeometry
      else if stride_bytes < rgb565_stride_bytes w \<or> stride_bytes mod 2 \<noteq> 0 then Inl InvalidGeometry
      else case checked_mul stride_bytes h of None \<Rightarrow> Inl InvalidGeometry | Some n \<Rightarrow> Inr n)"

definition validate_geometry_for_layout :: "slots_layout \<Rightarrow> nat \<Rightarrow> nat \<Rightarrow> nat \<Rightarrow> scanout_error + nat" where
  "validate_geometry_for_layout l w h stride_bytes =
     (case validate_geometry w h stride_bytes of
        Inl e \<Rightarrow> Inl e
      | Inr frame_len \<Rightarrow>
          if unat (sy_max_width l) < w \<or> unat (sy_max_height l) < h \<or> unat (sy_max_stride_bytes l) < stride_bytes \<or>
             unat (sy_slot_capacity_bytes l) < frame_len
          then Inl InvalidGeometry else Inr frame_len)"

datatype platform_profile = Legacy515 | Development618

definition resolve_profile :: "rtext \<Rightarrow> rtext option \<Rightarrow> rtext option \<Rightarrow> platform_profile option" where
  "resolve_profile kernel_release platform_contract_id provider_identity =
     (if kernel_release = lit ''5.15.1-MiSTer'' \<and>
         (case platform_contract_id of None \<Rightarrow> True | Some v \<Rightarrow> v = lit ''mister-5.15.1-scanout-v3'') \<and>
         provider_identity = None
      then Some Legacy515
      else if kernel_release = lit ''6.18.38-MiSTer'' \<and> platform_contract_id = Some (lit ''stock-6.18-latch-reuse-v3'') \<and>
         provider_identity = Some (lit ''stock-6.18-latch-reuse-v3'')
      then Some Development618
      else None)"

section \<open>The stock framebuffer command\<close>

definition FB_ADDR :: u32 where "FB_ADDR = 0x20000000 + 32 * 1024 * 1024"
definition FB_SIZE_PX :: u32 where "FB_SIZE_PX = 1920 * 1080"

text \<open>
  \<open>video_fb_enable(1, n)\<close>: the guard columns come from the environment, clamped as the code does.
\<close>

definition fb_enable_words ::
  "(int \<times> int \<times> int \<times> int) option \<Rightarrow> int \<Rightarrow> u32 \<Rightarrow> u16 \<Rightarrow> u16 \<Rightarrow> route_mode \<Rightarrow> u16 list" where
  "fb_enable_words diagnostic right_guard_cols n fb_width fb_height m =
     (let fb_addr = FB_ADDR + FB_SIZE_PX * 4 * n + (if n = 0 then 4096 else 0);
          xoff = uint (rm_hbp m) - 3;
          yoff = uint (rm_vbp m) - 2;
          guard = max 0 (min right_guard_cols (uint (sat_sub (rm_hact m) 1)));
          (xoff, right, yoff, bottom) =
            (case diagnostic of
               Some rect \<Rightarrow> rect
             | None \<Rightarrow> (xoff, xoff + uint (rm_hact m) - 1 - guard, yoff, yoff + uint (rm_vact m) - 1))
      in [FB_EN OR FB_FMT_565 OR FB_FMT_RXB, ucast fb_addr, ucast (drop_bit 16 fb_addr), fb_width, fb_height,
          of_int xoff, of_int right, of_int yoff, of_int bottom, of_nat (rgb565_stride_bytes (unat fb_width))])"

definition fb_enable_rgb565 ::
  "(int \<times> int \<times> int \<times> int) option \<Rightarrow> int \<Rightarrow> u32 \<Rightarrow> u16 \<Rightarrow> u16 \<Rightarrow> route_mode \<Rightarrow> (io_error, u16) bus_op" where
  "fb_enable_rgb565 diagnostic right_guard_cols n fb_width fb_height m =
     guarded id (\<lambda>s.
       case cmd_capture UIO_SET_FBUF (disable_io s) of
         (Inl e, s) \<Rightarrow> (Inl e, s)
       | (Inr c, s) \<Rightarrow>
           io_finally
             (io_then (write_words (fb_enable_words diagnostic right_guard_cols n fb_width fb_height m))
               (\<lambda>_. io_return (sc_ack_high c)))
             disable_io s)"

definition fb_enable_with_placement ::
  "(int \<times> int \<times> int \<times> int) option \<Rightarrow> int \<Rightarrow> u32 \<Rightarrow> u16 \<Rightarrow> u16 \<Rightarrow> placement \<Rightarrow> (io_error, u16) bus_op" where
  "fb_enable_with_placement diagnostic right_guard_cols n fb_width fb_height pl =
     fb_enable_rgb565 diagnostic right_guard_cols n fb_width fb_height
       \<lparr>rm_hact = pl_width pl, rm_hbp = sat_add (pl_left pl) 3, rm_vact = pl_height pl, rm_vbp = sat_add (pl_top pl) 2\<rparr>"

definition enable_launcher_route ::
  "(int \<times> int \<times> int \<times> int) option \<Rightarrow> int \<Rightarrow> launcher_route \<Rightarrow> nat \<Rightarrow> nat \<Rightarrow> (io_error, u16) bus_op" where
  "enable_launcher_route diagnostic right_guard_cols route fb_width fb_height =
     fb_enable_with_placement diagnostic right_guard_cols 0 (of_nat fb_width) (of_nat fb_height) (lr_placement route)"

section \<open>Contract texts\<close>

lemma split_text_not_Nil [simp]: "split_text sep t \<noteq> []"
  by (cases t) (auto split: list.split)

lemma split_text_append: "sep \<notin> set a \<Longrightarrow> split_text sep (a @ sep # t) = a # split_text sep t"
  by (induction a) auto

lemma split_text_whole: "sep \<notin> set a \<Longrightarrow> split_text sep a = [a]"
  by (induction a) auto

lemma split_text_join: "join_lines [sep] (split_text sep t) = t"
proof (induction t)
  case (Cons c t)
  then show ?case
    by (cases "split_text sep t"; cases "tl (split_text sep t)") auto
qed simp

lemma split_text_pieces: "p \<in> set (split_text sep t) \<Longrightarrow> sep \<notin> set p"
proof (induction t arbitrary: p)
  case (Cons c t)
  then show ?case
    by (cases "split_text sep t") (auto split: if_splits)
qed simp

lemma contract_fields_two:
  assumes "name \<noteq> lit ''schema''"
  shows "contract_fields name fs None None = Some (Some s, Some v) \<longleftrightarrow>
    (\<exists>a b. fs = [a, b] \<and>
      (split_once 61 a = Some (lit ''schema'', s) \<and> split_once 61 b = Some (name, v) \<or>
       split_once 61 a = Some (name, v) \<and> split_once 61 b = Some (lit ''schema'', s)))"
proof -
  have three: "contract_fields name (f # fs) (Some x) (Some y) = None" for f fs x y
    by (auto split: option.split)
  have done_one: "contract_fields name fs (Some x) None = Some (Some s, Some v) \<longleftrightarrow>
      x = s \<and> (\<exists>b. fs = [b] \<and> split_once 61 b = Some (name, v))" for fs x
  proof (cases fs)
    case (Cons b bs)
    then show ?thesis
      using assms three by (cases bs) (auto split: option.splits prod.splits if_splits)
  qed auto
  have done_two: "contract_fields name fs None (Some y) = Some (Some s, Some v) \<longleftrightarrow>
      y = v \<and> (\<exists>b. fs = [b] \<and> split_once 61 b = Some (lit ''schema'', s))" for fs y
  proof (cases fs)
    case (Cons b bs)
    then show ?thesis
      using assms three by (cases bs) (auto split: option.splits prod.splits if_splits)
  qed auto
  show ?thesis
  proof (cases fs)
    case (Cons a rest)
    show ?thesis
      using assms unfolding Cons by (auto simp: done_one done_two split: option.splits prod.splits if_splits)
  qed simp
qed

lemma contract_value_iff:
  assumes name: "name \<noteq> lit ''schema''" "61 \<notin> set name" "38 \<notin> set name"
  shows "contract_value name t = Some v \<longleftrightarrow> 38 \<notin> set v \<and>
    (t = lit ''schema=1&'' @ name @ [61] @ v \<or> t = name @ [61] @ v @ lit ''&schema=1'')"
proof -
  let ?schema = "lit ''schema''" and ?one = "lit ''1''"
  have lits: "lit ''schema=1&'' = ?schema @ [61] @ ?one @ [38]" "lit ''&schema=1'' = [38] @ ?schema @ [61] @ ?one"
    "38 \<notin> set (?schema @ [61] @ ?one)" "61 \<notin> set ?schema"
    by (simp_all add: lit_def)
  have field: "split_once 61 f = Some (k, w) \<longleftrightarrow> f = k @ 61 # w" if "61 \<notin> set k" for f k w :: rtext
    using that by (auto simp: split_once_Some)
  have "contract_value name t = Some v \<longleftrightarrow> contract_fields name (split_text 38 t) None None = Some (Some ?one, Some v)"
    by (auto simp: contract_value_def split: option.splits prod.splits if_splits)
  also have "\<dots> \<longleftrightarrow> split_text 38 t = [?schema @ 61 # ?one, name @ 61 # v] \<or>
      split_text 38 t = [name @ 61 # v, ?schema @ 61 # ?one]"
    unfolding contract_fields_two [OF name(1)] using field lits(4) name(2) by auto
  also have "\<dots> \<longleftrightarrow> 38 \<notin> set v \<and>
      (t = ?schema @ [61] @ ?one @ [38] @ name @ [61] @ v \<or> t = name @ [61] @ v @ [38] @ ?schema @ [61] @ ?one)"
  proof -
    have two: "split_text 38 t = [a, b] \<longleftrightarrow> 38 \<notin> set a \<and> 38 \<notin> set b \<and> t = a @ 38 # b" for a b
    proof
      assume *: "split_text 38 t = [a, b]"
      then show "38 \<notin> set a \<and> 38 \<notin> set b \<and> t = a @ 38 # b"
        using split_text_pieces [of _ 38 t] split_text_join [of 38 t] by (auto simp del: split_text.simps)
    qed (auto simp: split_text_append split_text_whole)
    show ?thesis
      unfolding two using lits(3) name(3) by auto
  qed
  finally show ?thesis
    by (simp add: lits(1,2))
qed

lemma labels:
  "from_runtime_settings_v1 t = Some r \<longleftrightarrow> contract_value (lit ''output'') t = Some (output_label r)"
proof -
  have *: "v = output_label r \<longleftrightarrow> (if v = lit ''hdmi'' then Some Hdmi
          else if v = lit ''crt-240p60'' then Some Crt240p60
          else if v = lit ''crt-288p50'' then Some Crt288p50
          else if v = lit ''crt-480p60'' then Some Crt480p60
          else if v = lit ''crt-576p50'' then Some Crt576p50
          else None) = Some r" for v
    by (cases r) (auto simp: output_label_def lit_def)
  show ?thesis
    by (cases "contract_value (lit ''output'') t") (simp_all add: from_runtime_settings_v1_def *)
qed

section \<open>Plans that fit\<close>

lemma stride_bounds: "w * 2 \<le> rgb565_stride_bytes w" "rgb565_stride_bytes w \<le> w * 2 + 15" "rgb565_stride_bytes w mod 2 = 0"
  unfolding rgb565_stride_bytes_def align16_def by presburger+

lemma expected_fit:
  "(\<exists>n. validate_geometry_for_layout EXPECTED_LAYOUT w h (rgb565_stride_bytes w) = Inr n) \<longleftrightarrow>
   0 < w \<and> 0 < h \<and> w \<le> 1366 \<and> h \<le> 768"
proof -
  have caps: "unat (sy_max_width EXPECTED_LAYOUT) = 1366" "unat (sy_max_height EXPECTED_LAYOUT) = 768"
    "unat (sy_max_stride_bytes EXPECTED_LAYOUT) = 2736" "unat (sy_slot_capacity_bytes EXPECTED_LAYOUT) = 2736 * 768"
    by (simp_all add: EXPECTED_LAYOUT_def)
  show ?thesis
  proof
    assume "\<exists>n. validate_geometry_for_layout EXPECTED_LAYOUT w h (rgb565_stride_bytes w) = Inr n"
    then show "0 < w \<and> 0 < h \<and> w \<le> 1366 \<and> h \<le> 768"
      unfolding validate_geometry_for_layout_def validate_geometry_def caps
      by (auto split: if_splits option.splits)
  next
    assume *: "0 < w \<and> 0 < h \<and> w \<le> 1366 \<and> h \<le> 768"
    then have stride: "rgb565_stride_bytes w \<le> 2736"
      by (simp add: rgb565_stride_bytes_def align16_def) presburger
    then have area: "rgb565_stride_bytes w * h \<le> 2736 * 768"
      using * by (intro mult_le_mono) simp_all
    then have "validate_geometry w h (rgb565_stride_bytes w) = Inr (rgb565_stride_bytes w * h)"
      using * stride_bounds [of w] by (simp add: validate_geometry_def checked_mul_def USIZE_MAX_def)
    then show "\<exists>n. validate_geometry_for_layout EXPECTED_LAYOUT w h (rgb565_stride_bytes w) = Inr n"
      using * stride area unfolding validate_geometry_for_layout_def caps by simp
  qed
qed

text \<open>What the presenter needs of a plan.\<close>

definition plan_presentable :: "display_plan \<Rightarrow> bool" where
  "plan_presentable p \<longleftrightarrow>
     (\<exists>n. validate_geometry_for_layout EXPECTED_LAYOUT (dp_fb_w p) (dp_fb_h p) (rgb565_stride_bytes (dp_fb_w p)) = Inr n) \<and>
     dp_render_w p = dp_fb_w p \<and>
     (\<exists>t. vertical_new (dp_render_w p) (dp_render_h p) (dp_fb_h p) = Inr t \<and> transform_ok t)"

text \<open>The sizes of display that the automatic policy can serve.\<close>

definition display_served :: "display_geometry \<Rightarrow> bool" where
  "display_served g \<longleftrightarrow>
     (if 1366 \<le> dg_output_w g \<or> 900 \<le> dg_output_h g
      then dg_output_w g \<le> 2733 \<and> dg_output_h g \<le> 1537 else dg_output_h g \<le> 768)"

lemma vertical_new_ok:
  assumes "0 < w" "0 < sh" "0 < dh" "w \<le> 1366" "sh \<le> 768" "dh \<le> 768"
  shows "\<exists>t. vertical_new w sh dh = Inr t \<and> transform_ok t"
proof -
  have "w * sh \<le> 1366 * 768" "w * dh \<le> 1366 * 768" "dh * sh \<le> 768 * 768"
    by (rule mult_le_mono [OF assms(4,5)], rule mult_le_mono [OF assms(4,6)], rule mult_le_mono [OF assms(6,5)])
  then show ?thesis
    using assms by (simp add: vertical_new_def new_with_sampling_def checked_mul_def transform_ok_def USIZE_MAX_def)
qed

lemma hdmi_plan_presentable:
  "plan_presentable (plan_with_crt240 g Hdmi AutoSize c) \<longleftrightarrow> display_served g"
proof -
  let ?p = "plan_with_crt240 g Hdmi AutoSize c"
  have plan: "(dp_fb_w ?p, dp_fb_h ?p) = launcher_framebuffer_size (dg_output_w g) (dg_output_h g)"
    "dp_render_w ?p = dp_fb_w ?p" "dp_render_h ?p = dp_fb_h ?p"
    by (simp_all add: plan_with_crt240_def framebuffer_geometry_def framebuffer_size_def
        composition_geometry_with_crt240_def)
  have pos: "0 < dp_fb_w ?p" "0 < dp_fb_h ?p"
    using plan(1) by (auto simp: launcher_framebuffer_size_def at_least_one_def split: if_splits)
  have "dp_fb_w ?p \<le> 1366 \<and> dp_fb_h ?p \<le> 768 \<longleftrightarrow> display_served g"
    using plan(1) by (auto simp: launcher_framebuffer_size_def at_least_one_def display_served_def split: if_splits)
  then show ?thesis
    using vertical_new_ok [OF pos pos(2)] pos unfolding plan_presentable_def expected_fit plan(2,3) by blast
qed

lemma crt_plan_presentable: "route_is_crt r \<Longrightarrow> plan_presentable (plan_with_crt240 g r policy c)"
  unfolding plan_presentable_def expected_fit
  by (cases r; cases c)
    (auto simp: route_is_crt_def plan_with_crt240_def framebuffer_geometry_def composition_geometry_with_crt240_def
      CRT_COMPOSITION_W_def CRT_COMPOSITION_H_def intro!: vertical_new_ok)

section \<open>Properties\<close>

text \<open>
  The output contract is strict. The settings text of the Main process resolves to a route exactly
  when it consists of the schema field \<open>schema=1\<close> and the output field with the label of that route, in
  either order and with nothing else: unknown, repeated or missing fields, another schema and other
  labels are refused.
\<close>

theorem output_contract_is_strict:
  "from_runtime_settings_v1 t = Some r \<longleftrightarrow>
     t = lit ''schema=1&output='' @ output_label r \<or> t = lit ''output='' @ output_label r @ lit ''&schema=1''"
proof -
  have name: "lit ''output'' \<noteq> lit ''schema''" "61 \<notin> set (lit ''output'')" "38 \<notin> set (lit ''output'')"
    by (simp_all add: lit_def)
  have "38 \<notin> set (output_label r)"
    by (cases r) (simp_all add: output_label_def lit_def)
  moreover have "lit ''schema=1&output='' = lit ''schema=1&'' @ lit ''output'' @ [61]"
    "lit ''output='' = lit ''output'' @ [61]"
    by (simp_all add: lit_def)
  ultimately show ?thesis
    unfolding labels contract_value_iff [OF name] by simp
qed


text \<open>Every selectable mode is served; a detected 1280x800 is not.\<close>

lemma selectable_modes_served:
  "list_all (\<lambda>m. case from_mode_or_detected (dr_id m) None of None \<Rightarrow> False | Some p \<Rightarrow> plan_presentable p) DISPLAY_RESOLUTIONS"
  by (simp add: DISPLAY_RESOLUTIONS_def from_mode_or_detected_def route_for_mode_id_def geometry_for_mode_id_def lit_def
      plan_from_geometry_def hdmi_plan_presentable crt_plan_presentable route_is_crt_def display_served_def
      geometry_new_def geometry_with_scan_def)

lemma wxga_is_refused:
  "\<exists>p. from_mode_or_detected (lit ''custom'') (from_video_words 1280 800 1280 800) = Some p \<and> \<not> plan_presentable p"
  by (simp add: from_mode_or_detected_def route_for_mode_id_def from_video_words_def plan_from_geometry_def
      hdmi_plan_presentable display_served_def geometry_with_scan_def MIN_RUNTIME_SCAN_W_def MIN_RUNTIME_SCAN_H_def lit_def)

end
