(* ===== verification/Hidden_Latch.thy ===== *)
theory Hidden_Latch
  imports Display_Plan
begin

text \<open>
  Presenting frames through the two hidden slots: the mapping of a slot
  (\<open>framebuffer/hidden_scanout.rs\<close>), the posting and confirmation of a prepared frame
  (\<open>framebuffer/full_frame_latch.rs\<close>), and the presenter with its damage cache
  (\<open>framebuffer/hidden_latch.rs\<close>). Messages and diagnostics of failures, which the code only prints,
  are left out. Elapsed times are an argument: \<open>clock n\<close> is the time since the start of a wait at its
  \<open>n\<close>-th poll.
\<close>

section \<open>Failures\<close>

datatype readiness_state = ReadyState | InstallationFault | PlatformIncompatible | RuntimeFault

datatype failure_stage =
    FrontendIntegrity | ManifestStage | KernelStage | ModuleOpen | ModuleLayout | BufferMap | FpgaStatusStage
  | FpgaCapabilitiesStage | FrameCopy | OverlayCompose | LatchPost | RouteArm | PostVerification

datatype failure_reason =
    FrontendHashMismatch | ManifestInvalid | KernelReleaseUnsupported | ScanoutDeviceMissing | ScanoutAbiMismatch
  | ScanoutLayoutMismatch | ScanoutGeometryUnsupported | ScanoutMapFailed | FpgaStatusUnsupported
  | FpgaProtocolUnsupported | FpgaCapabilitiesInsufficient | FpgaTransportFailed | NoWritableHiddenBuffer
  | FrameCopyFailed | OverlayComposeFailed | LatchPostFailed | RouteArmFailed | ActiveGeometryMismatch
  | PostedSequenceUnverified

record latch_failure =
  lf_state :: readiness_state
  lf_stage :: failure_stage
  lf_reason :: failure_reason

definition runtime_failure :: "failure_stage \<Rightarrow> failure_reason \<Rightarrow> latch_failure" where
  "runtime_failure stage reason = \<lparr>lf_state = RuntimeFault, lf_stage = stage, lf_reason = reason\<rparr>"

definition incompatible_failure :: "failure_stage \<Rightarrow> failure_reason \<Rightarrow> latch_failure" where
  "incompatible_failure stage reason = \<lparr>lf_state = PlatformIncompatible, lf_stage = stage, lf_reason = reason\<rparr>"

definition is_transient_runtime_failure :: "latch_failure \<Rightarrow> bool" where
  "is_transient_runtime_failure f \<longleftrightarrow> lf_state f = RuntimeFault \<and>
     lf_reason f \<in> {FpgaTransportFailed, NoWritableHiddenBuffer, LatchPostFailed, RouteArmFailed,
       ActiveGeometryMismatch, PostedSequenceUnverified}"

datatype hidden_error =
    HScanout scanout_error | HTransport io_error | HUnsupported | HNoWritableSlot | HPostNotObserved
  | HProtocol latch_failure

section \<open>Mapping a slot\<close>

text \<open>What the kernel answers: the device opens, the layout it reports, the memory it maps.\<close>

datatype mmap_answer = MapRefused | MapNull | MapAt

record 'p slot_kernel =
  sk_device :: bool
  sk_layout :: "slots_layout option"
  sk_mmap :: mmap_answer
  sk_memory :: "'p list"

record 'p hidden_slot =
  hs_pixels :: "'p list"
  hs_width :: nat
  hs_height :: nat
  hs_stride_pixels :: nat
  hs_slot :: slot_layout

definition buffer_index_new :: "nat \<Rightarrow> scanout_error + nat" where
  "buffer_index_new index = (if index = 1 \<or> index = 2 then Inr index else Inl (InvalidBufferIndex index))"

text \<open>The slots mapped by this process are bits of one byte; a failed opening gives its bit back.\<close>

definition lease_acquire :: "nat \<Rightarrow> u8 \<Rightarrow> (scanout_error + u8) \<times> u8" where
  "lease_acquire index mapped =
     (let leased = push_bit (index - 1) 1
      in (if mapped AND leased \<noteq> 0 then Inl (SlotAlreadyMapped index) else Inr leased, mapped OR leased))"

definition lease_drop :: "u8 \<Rightarrow> u8 \<Rightarrow> u8" where
  "lease_drop leased mapped = mapped AND NOT leased"

definition read_layout :: "'p slot_kernel \<Rightarrow> scanout_error + slots_layout" where
  "read_layout k =
     (case sk_layout k of
        None \<Rightarrow> Inl ScanoutIo
      | Some l \<Rightarrow> (case validate_layout l of Inl e \<Rightarrow> Inl e | Inr _ \<Rightarrow> Inr l))"

definition open_with_layout ::
  "'p slot_kernel \<Rightarrow> nat \<Rightarrow> nat \<Rightarrow> nat \<Rightarrow> nat \<Rightarrow> slots_layout \<Rightarrow> scanout_error + 'p hidden_slot" where
  "open_with_layout k index w h stride_bytes l =
     (case validate_geometry_for_layout l w h stride_bytes of
        Inl e \<Rightarrow> Inl e
      | Inr _ \<Rightarrow>
          (case sk_mmap k of
             MapRefused \<Rightarrow> Inl MmapFailed
           | MapNull \<Rightarrow> Inl MmapReturnedNull
           | MapAt \<Rightarrow>
               Inr \<lparr>hs_pixels = take (stride_bytes div 2 * h) (sk_memory k), hs_width = w, hs_height = h,
                 hs_stride_pixels = stride_bytes div 2, hs_slot = sy_slots l ! (index - 1)\<rparr>))"

definition slot_open ::
  "'p slot_kernel \<Rightarrow> nat \<Rightarrow> nat \<Rightarrow> nat \<Rightarrow> nat \<Rightarrow> u8 \<Rightarrow> (scanout_error + 'p hidden_slot) \<times> u8" where
  "slot_open k index w h stride_bytes mapped =
     (case lease_acquire index mapped of
        (Inl e, mapped) \<Rightarrow> (Inl e, mapped)
      | (Inr leased, mapped) \<Rightarrow>
          (let opened =
             (if \<not> sk_device k then Inl ScanoutIo
              else case read_layout k of
                Inl e \<Rightarrow> Inl e
              | Inr l \<Rightarrow> open_with_layout k index w h stride_bytes l)
           in case opened of
                Inl e \<Rightarrow> (Inl e, lease_drop leased mapped)
              | Inr slot \<Rightarrow> (Inr slot, mapped)))"

section \<open>Posting and confirming a prepared frame\<close>

definition MAX_READS :: nat where
  "MAX_READS = 3"

text \<open>The budget of status reads inside one confirmation.\<close>

definition budget_consume :: "nat \<Rightarrow> unit + nat" where
  "budget_consume reads = (if MAX_READS \<le> reads then Inl () else Inr (reads + 1))"

definition budget_exhausted :: "nat \<Rightarrow> bool" where
  "budget_exhausted reads \<longleftrightarrow> MAX_READS \<le> reads"

record post_request =
  pr_sequence :: u16
  pr_slot_index :: nat
  pr_base_addr :: u32
  pr_width :: u16
  pr_height :: u16
  pr_geometry :: fbuf_geometry

record post_receipt =
  rc_status :: latched_status
  rc_status_us :: u64
  rc_status_reads :: nat
  rc_status_wire_attempts :: nat
  rc_set_supported :: bool
  rc_status_supported :: bool
  rc_receipt_crc :: u16

definition posted_sequence_observed :: "latched_status \<Rightarrow> u16 \<Rightarrow> bool" where
  "posted_sequence_observed st sequence \<longleftrightarrow>
     ls_active_sequence st = sequence \<or> ls_pending st \<and> ls_pending_sequence st = sequence"

text \<open>
  The status reader of the standalone presenter: within the budget, and with the geometry of a frame
  of ours that is on the screen.
\<close>

definition read_lab_status ::
  "u32 list \<Rightarrow> u16 \<Rightarrow> u16 \<Rightarrow> nat \<Rightarrow> fpga \<Rightarrow> (latch_failure + status_sample) \<times> nat \<times> fpga" where
  "read_lab_status bases w h reads s =
     (case budget_consume reads of
        Inl _ \<Rightarrow> (Inl (runtime_failure PostVerification FpgaTransportFailed), reads, s)
      | Inr reads \<Rightarrow>
          (case read_status_sample s of
             (Inl _, s) \<Rightarrow> (Inl (runtime_failure FpgaStatusStage FpgaTransportFailed), reads, s)
           | (Inr sample, s) \<Rightarrow>
               (let st = ss_status sample
                in if ls_active_enabled st \<and> ls_active_base st \<in> set bases \<and>
                     (ls_active_width st \<noteq> w \<or> ls_active_height st \<noteq> h \<or>
                      ls_active_stride st \<noteq> of_nat (rgb565_stride_bytes (unat w)))
                   then (Inl (runtime_failure PostVerification ActiveGeometryMismatch), reads, s)
                   else (Inr sample, reads, s))))"

text \<open>
  Reading until the posted sequence shows up, the status is not supported, or the budget is spent. The
  attempts of the samples are added up.
\<close>

function read_post_loop ::
  "u32 list \<Rightarrow> u16 \<Rightarrow> u16 \<Rightarrow> u16 \<Rightarrow> status_sample \<Rightarrow> wire_diagnostics \<Rightarrow> nat \<Rightarrow> fpga \<Rightarrow>
   (latch_failure + status_sample \<times> wire_diagnostics) \<times> nat \<times> fpga" where
  "read_post_loop bases w h sequence sample d reads s =
     (if budget_exhausted reads \<or> \<not> ls_supported (ss_status sample) \<or>
         posted_sequence_observed (ss_status sample) sequence
      then (Inr (sample, d), reads, s)
      else case read_lab_status bases w h reads s of
        (Inl f, reads', s) \<Rightarrow> (Inl f, reads', s)
      | (Inr sample, reads', s) \<Rightarrow>
          read_post_loop bases w h sequence sample (append_diagnostics d (ss_diagnostics sample)) reads' s)"
  by pat_completeness auto

lemma read_lab_status_budget:
  assumes "\<not> budget_exhausted reads" "read_lab_status bases w h reads s = (r, reads', s')"
  shows "reads' = Suc reads"
  using assms
  by (auto simp: read_lab_status_def budget_consume_def budget_exhausted_def Let_def split: prod.splits sum.splits if_splits)

lemma read_lab_status_progress:
  assumes "\<not> budget_exhausted reads" "(r, reads', s') = read_lab_status bases w h reads s"
  shows "MAX_READS - reads' < MAX_READS - reads"
  using read_lab_status_budget [OF assms(1), of bases w h s r reads' s'] assms by (simp add: budget_exhausted_def)

termination read_post_loop
  by (relation "measure (\<lambda>(_, _, _, _, _, _, reads, _). MAX_READS - reads)")
     (auto dest: read_lab_status_progress)

declare read_post_loop.simps [simp del]

definition read_post_status ::
  "u32 list \<Rightarrow> u16 \<Rightarrow> u16 \<Rightarrow> u16 \<Rightarrow> fpga \<Rightarrow> (latch_failure + status_sample \<times> nat \<times> nat) \<times> fpga" where
  "read_post_status bases w h sequence s =
     (case read_lab_status bases w h 0 s of
        (Inl f, reads, s) \<Rightarrow> (Inl f, s)
      | (Inr sample, reads, s) \<Rightarrow>
          (case read_post_loop bases w h sequence sample (ss_diagnostics sample) reads s of
             (Inl f, reads, s) \<Rightarrow> (Inl f, s)
           | (Inr (sample, d), reads, s) \<Rightarrow>
               (let d = (if 1 < reads then d\<lparr>wd_decision := Corroborated\<rparr> else d)
                in (Inr (sample\<lparr>ss_diagnostics := d\<rparr>, reads, length (wd_attempts d)), s))))"

text \<open>A failure after the post looks at the rejection diagnostics when the status reports a rejection.\<close>

definition with_post_failure_evidence :: "latched_status option \<Rightarrow> fpga \<Rightarrow> fpga" where
  "with_post_failure_evidence st s =
     (case st of
        None \<Rightarrow> s
      | Some st \<Rightarrow> if ls_rejection_reason st \<noteq> 0 then snd (read_rejection_diagnostics s) else s)"

text \<open>Inside the lock; the two times are those of the status reads before and after the post.\<close>

definition post_confirm_locked ::
  "u32 list \<Rightarrow> u16 \<Rightarrow> u16 \<Rightarrow> u64 \<Rightarrow> u64 \<Rightarrow> nat option \<Rightarrow> post_request \<Rightarrow> (latch_failure, post_receipt) bus_op" where
  "post_confirm_locked bases w h locked_us post_us injected request s =
     (case read_lab_status bases w h 0 s of
        (Inl f, _, s) \<Rightarrow> (Inl f, s)
      | (Inr before, _, s) \<Rightarrow>
          if ls_pending (ss_status before) \<or>
             ls_active_enabled (ss_status before) \<and> ls_active_base (ss_status before) = pr_base_addr request
          then (Inl (runtime_failure PostVerification NoWritableHiddenBuffer), s)
          else
            (case post_latched (pr_sequence request) (pr_base_addr request) (pr_width request) (pr_height request)
                (pr_geometry request) injected s of
               (Inl _, s) \<Rightarrow> (Inl (runtime_failure LatchPost LatchPostFailed), s)
             | (Inr post, s) \<Rightarrow>
                 (case read_post_status bases w h (pr_sequence request) s of
                    (Inl f, s) \<Rightarrow> (Inl f, with_post_failure_evidence None s)
                  | (Inr (sample, reads, attempts), s) \<Rightarrow>
                      (let st = ss_status sample;
                           set_supported = (pa_ack_high post = LATCH_MAGIC \<or> pa_ack_low post = LATCH_MAGIC)
                       in if \<not> set_supported \<or> \<not> ls_supported st then
                            (Inl (incompatible_failure FpgaStatusStage FpgaStatusUnsupported),
                             with_post_failure_evidence (Some st) s)
                          else if \<not> posted_sequence_observed st (pr_sequence request) then
                            (Inl (runtime_failure PostVerification PostedSequenceUnverified),
                             with_post_failure_evidence (Some st) s)
                          else
                            (Inr \<lparr>rc_status = st, rc_status_us = sat_add locked_us post_us, rc_status_reads = reads,
                               rc_status_wire_attempts = attempts, rc_set_supported = set_supported,
                               rc_status_supported = ls_supported st,
                               rc_receipt_crc = pd_receipt_crc (pa_diagnostics post)\<rparr>, s)))))"

definition post_confirm_prepared_frame ::
  "u32 list \<Rightarrow> u16 \<Rightarrow> u16 \<Rightarrow> u64 \<Rightarrow> u64 \<Rightarrow> nat option \<Rightarrow> post_request \<Rightarrow> (latch_failure, post_receipt) bus_op" where
  "post_confirm_prepared_frame bases w h locked_us post_us injected request =
     guarded (\<lambda>_. runtime_failure LatchPost FpgaTransportFailed)
       (post_confirm_locked bases w h locked_us post_us injected request)"

section \<open>Waiting\<close>

record latch_completion =
  lc_status :: latched_status
  lc_poll_count :: u16
  lc_wall_us :: u64

text \<open>Polling until the posted sequence is active; \<open>None\<close> when the loop never ends.\<close>

partial_function (option) completion_loop ::
  "(nat \<Rightarrow> nat) \<Rightarrow> nat \<Rightarrow> u16 \<Rightarrow> nat \<Rightarrow> u16 \<Rightarrow> fpga \<Rightarrow> ((latch_failure + latch_completion) \<times> fpga) option" where
  "completion_loop clock timeout sequence n poll_count s =
     (case read_status_sample s of
        (Inl _, s) \<Rightarrow> Some (Inl (runtime_failure PostVerification FpgaTransportFailed), s)
      | (Inr sample, s) \<Rightarrow>
          (let st = ss_status sample;
               poll_count = sat_add poll_count 1
           in if \<not> ls_supported st then Some (Inl (incompatible_failure PostVerification FpgaStatusUnsupported), s)
              else if \<not> ls_pending st \<and> ls_active_sequence st = sequence then
                Some (Inr \<lparr>lc_status = st, lc_poll_count = poll_count, lc_wall_us = of_nat (clock n)\<rparr>, s)
              else if timeout \<le> clock n then Some (Inl (runtime_failure PostVerification PostedSequenceUnverified), s)
              else completion_loop clock timeout sequence (Suc n) poll_count s))"

definition wait_for_latch_completion ::
  "(nat \<Rightarrow> nat) \<Rightarrow> nat \<Rightarrow> u16 \<Rightarrow> fpga \<Rightarrow> ((latch_failure + latch_completion) \<times> fpga) option" where
  "wait_for_latch_completion clock timeout sequence s = completion_loop clock timeout sequence 0 0 s"

partial_function (option) settled_loop ::
  "(nat \<Rightarrow> nat) \<Rightarrow> nat \<Rightarrow> nat \<Rightarrow> fpga \<Rightarrow> ((hidden_error + latched_status) \<times> fpga) option" where
  "settled_loop clock timeout n s =
     (case read_status_sample s of
        (Inl e, s) \<Rightarrow> Some (Inl (HTransport (sre_source e)), s)
      | (Inr sample, s) \<Rightarrow>
          (let st = ss_status sample
           in if \<not> ls_supported st then Some (Inl HUnsupported, s)
              else if \<not> ls_pending st then Some (Inr st, s)
              else if timeout \<le> clock n then Some (Inl HNoWritableSlot, s)
              else settled_loop clock timeout (Suc n) s))"

definition wait_for_settled_status ::
  "(nat \<Rightarrow> nat) \<Rightarrow> nat \<Rightarrow> fpga \<Rightarrow> ((hidden_error + latched_status) \<times> fpga) option" where
  "wait_for_settled_status clock timeout s = settled_loop clock timeout 0 s"

section \<open>The presenter\<close>

record present_receipt =
  pp_slot_index :: nat
  pp_sequence :: u16
  pp_flip_count :: u16
  pp_post_count :: u16
  pp_drop_count :: u16

record hidden_post_receipt =
  hr_slot_index :: nat
  hr_sequence :: u16

record pipeline_stats =
  ps_status_reads :: u64
  ps_poll_reads :: u64
  ps_settle_us :: u64

record cached_copy_stats =
  cs_slot_index :: nat
  cs_source_rect_count :: nat
  cs_destination_rect_count :: nat
  cs_source_bytes :: nat
  cs_destination_bytes :: nat
  cs_full_restore :: bool

record pending_presentation =
  pn_slot_index :: nat
  pn_sequence :: u16
  pn_base :: u32

record 'p hidden_presenter =
  hp_fpga :: fpga
  hp_slots :: "'p hidden_slot list"
  hp_bases :: "u32 list"
  hp_writable_slot :: nat
  hp_sequence :: u16
  hp_width :: u16
  hp_height :: u16
  hp_geometry :: fbuf_geometry
  hp_settle_timeout :: nat
  hp_pending :: "pending_presentation option"
  hp_pipeline_stats :: pipeline_stats

definition DEFAULT_SETTLE_TIMEOUT :: nat where
  "DEFAULT_SETTLE_TIMEOUT = 50000"

definition no_stats :: pipeline_stats where
  "no_stats = \<lparr>ps_status_reads = 0, ps_poll_reads = 0, ps_settle_us = 0\<rparr>"

definition next_sequence :: "u16 \<Rightarrow> u16" where
  "next_sequence sequence = (let following = sequence + 1 in if following = 0 then 1 else following)"

definition writable_slot_for_status :: "u32 list \<Rightarrow> latched_status \<Rightarrow> hidden_error + nat" where
  "writable_slot_for_status bases st =
     (if ls_pending st then Inl HNoWritableSlot
      else Inr (if ls_active_base st = bases ! 0 then 1 else 0))"

definition scaled_geometry ::
  "(int \<times> int \<times> int \<times> int) option \<Rightarrow> u16 \<Rightarrow> u16 \<Rightarrow> u16 \<Rightarrow> hidden_error + fbuf_geometry" where
  "scaled_geometry diagnostic source_width destination_width destination_height =
     (if destination_width = 0 \<or> destination_height = 0 then Inl HUnsupported
      else Inr (geometry_for_mode diagnostic (unat source_width)
        (framebuffer_sized destination_width destination_height) 0))"

text \<open>
  Opening: both slots, then the bus, its capabilities and a settled status. The slots opened so far
  give their bits back when a later step fails.
\<close>

definition presenter_open ::
  "'p slot_kernel \<Rightarrow> 'p slot_kernel \<Rightarrow> u8 \<Rightarrow> io_error + fpga \<Rightarrow> (nat \<Rightarrow> nat) \<Rightarrow> u16 \<Rightarrow> u16 \<Rightarrow> fbuf_geometry \<Rightarrow>
   ((hidden_error + 'p hidden_presenter) \<times> u8) option" where
  "presenter_open k1 k2 mapped bus clock w h geometry =
     (let stride_bytes = rgb565_stride_bytes (unat w) in
      case slot_open k1 1 (unat w) (unat h) stride_bytes mapped of
        (Inl e, mapped) \<Rightarrow> Some (Inl (HScanout e), mapped)
      | (Inr slot1, mapped1) \<Rightarrow>
          (case slot_open k2 2 (unat w) (unat h) stride_bytes mapped1 of
             (Inl e, mapped2) \<Rightarrow> Some (Inl (HScanout e), lease_drop 1 mapped2)
           | (Inr slot2, mapped2) \<Rightarrow>
               (let fail = (\<lambda>e. Some (Inl e, lease_drop 2 (lease_drop 1 mapped2)));
                    bases = [sl_physical_address (hs_slot slot1), sl_physical_address (hs_slot slot2)]
                in case bus of
                     Inl e \<Rightarrow> fail (HTransport e)
                   | Inr s \<Rightarrow>
                       (case read_capabilities s of
                          (Inl e, s) \<Rightarrow> fail (HTransport e)
                        | (Inr (magic_hi, magic_lo, caps), s) \<Rightarrow>
                            if magic_hi \<noteq> CAPS_MAGIC \<and> magic_lo \<noteq> CAPS_MAGIC \<or> \<not> production_ready caps
                            then fail HUnsupported
                            else if lcp_max_width caps < w \<or> lcp_max_height caps < h \<or>
                              unat (lcp_max_stride_bytes caps) < stride_bytes
                            then fail HUnsupported
                            else
                              (case wait_for_settled_status clock DEFAULT_SETTLE_TIMEOUT s of
                                 None \<Rightarrow> None
                               | Some (Inl e, s) \<Rightarrow> fail e
                               | Some (Inr initial, s) \<Rightarrow>
                                   (case writable_slot_for_status bases initial of
                                      Inl e \<Rightarrow> fail e
                                    | Inr writable \<Rightarrow>
                                        Some (Inr \<lparr>hp_fpga = s, hp_slots = [slot1, slot2], hp_bases = bases,
                                          hp_writable_slot = writable, hp_sequence = 1, hp_width = w, hp_height = h,
                                          hp_geometry = geometry, hp_settle_timeout = DEFAULT_SETTLE_TIMEOUT,
                                          hp_pending = None, hp_pipeline_stats = no_stats\<rparr>, mapped2)))))))"

text \<open>Slot access asserts that no post is pending; the outer option is a panic or an endless wait.\<close>

definition writable_slot_index :: "'p hidden_presenter \<Rightarrow> nat option" where
  "writable_slot_index hp = (if hp_pending hp = None then Some (hp_writable_slot hp + 1) else None)"

definition stride_pixels :: "'p hidden_presenter \<Rightarrow> nat" where
  "stride_pixels hp = hs_stride_pixels (hp_slots hp ! hp_writable_slot hp)"

definition presenter_pixels :: "'p hidden_presenter \<Rightarrow> 'p list option" where
  "presenter_pixels hp =
     (if hp_pending hp = None then Some (hs_pixels (hp_slots hp ! hp_writable_slot hp)) else None)"

definition store_pixels :: "'p list \<Rightarrow> 'p hidden_presenter \<Rightarrow> 'p hidden_presenter" where
  "store_pixels pixels hp =
     hp\<lparr>hp_slots := (hp_slots hp)[hp_writable_slot hp := (hp_slots hp ! hp_writable_slot hp)\<lparr>hs_pixels := pixels\<rparr>]\<rparr>"

definition presenter_settle ::
  "(nat \<Rightarrow> nat) \<Rightarrow> 'p hidden_presenter \<Rightarrow> ((hidden_error + present_receipt option) \<times> 'p hidden_presenter) option" where
  "presenter_settle clock hp =
     (case hp_pending hp of
        None \<Rightarrow> Some (Inr None, hp)
      | Some pending \<Rightarrow>
          (case wait_for_latch_completion clock (hp_settle_timeout hp) (pn_sequence pending) (hp_fpga hp) of
             None \<Rightarrow> None
           | Some (Inl f, s) \<Rightarrow> Some (Inl (HProtocol f), hp\<lparr>hp_fpga := s\<rparr>)
           | Some (Inr completion, s) \<Rightarrow>
               (let hp = hp\<lparr>hp_fpga := s\<rparr>; after = lc_status completion; stats = hp_pipeline_stats hp
                in if ls_active_base after \<noteq> pn_base pending then Some (Inl HPostNotObserved, hp)
                   else
                     (let polls = lc_poll_count completion;
                          stats = stats
                            \<lparr>ps_status_reads := sat_add (ps_status_reads stats) (ucast polls),
                             ps_poll_reads := sat_add (ps_poll_reads stats) (ucast (sat_sub polls 1)),
                             ps_settle_us := sat_add (ps_settle_us stats) (lc_wall_us completion)\<rparr>
                      in Some (Inr (Some \<lparr>pp_slot_index = pn_slot_index pending, pp_sequence = pn_sequence pending,
                             pp_flip_count = ls_flip_count after, pp_post_count = ls_post_count after,
                             pp_drop_count = ls_drop_count after\<rparr>),
                           hp\<lparr>hp_pipeline_stats := stats, hp_pending := None,
                              hp_writable_slot := 1 - hp_writable_slot hp\<rparr>)))))"

text \<open>The times of the status reads before and after the post and the development injection are arguments.\<close>

definition presenter_post ::
  "u64 \<Rightarrow> u64 \<Rightarrow> nat option \<Rightarrow> 'p hidden_presenter \<Rightarrow> (hidden_error + hidden_post_receipt) \<times> 'p hidden_presenter" where
  "presenter_post locked_us post_us injected hp =
     (case hp_pending hp of
        Some _ \<Rightarrow> (Inl HNoWritableSlot, hp)
      | None \<Rightarrow>
          (let sequence = hp_sequence hp;
               hp = hp\<lparr>hp_sequence := next_sequence sequence\<rparr>;
               slot_index = hp_writable_slot hp + 1;
               base = hp_bases hp ! hp_writable_slot hp
           in case post_confirm_prepared_frame (hp_bases hp) (hp_width hp) (hp_height hp) locked_us post_us injected
                  \<lparr>pr_sequence = sequence, pr_slot_index = slot_index, pr_base_addr = base, pr_width = hp_width hp,
                   pr_height = hp_height hp, pr_geometry = hp_geometry hp\<rparr> (hp_fpga hp) of
                (Inl f, s) \<Rightarrow> (Inl (HProtocol f), hp\<lparr>hp_fpga := s\<rparr>)
              | (Inr receipt, s) \<Rightarrow>
                  (let stats = hp_pipeline_stats hp;
                       reads = rc_status_reads receipt;
                       stats = stats
                         \<lparr>ps_status_reads := sat_add (ps_status_reads stats) (1 + of_nat reads),
                          ps_poll_reads := sat_add (ps_poll_reads stats) (of_nat (reads - 1)),
                          ps_settle_us := sat_add (ps_settle_us stats) (rc_status_us receipt)\<rparr>
                   in (Inr \<lparr>hr_slot_index = slot_index, hr_sequence = sequence\<rparr>,
                       hp\<lparr>hp_fpga := s, hp_pipeline_stats := stats,
                          hp_pending := Some \<lparr>pn_slot_index = slot_index, pn_sequence = sequence, pn_base = base\<rparr>\<rparr>))))"

definition presenter_present ::
  "u64 \<Rightarrow> u64 \<Rightarrow> nat option \<Rightarrow> (nat \<Rightarrow> nat) \<Rightarrow> 'p hidden_presenter \<Rightarrow>
   ((hidden_error + present_receipt) \<times> 'p hidden_presenter) option" where
  "presenter_present locked_us post_us injected clock hp =
     (case presenter_post locked_us post_us injected hp of
        (Inl e, hp) \<Rightarrow> Some (Inl e, hp)
      | (Inr _, hp) \<Rightarrow>
          map_option (\<lambda>(r, hp). (case r of
              Inl e \<Rightarrow> Inl e
            | Inr None \<Rightarrow> Inl HPostNotObserved
            | Inr (Some receipt) \<Rightarrow> Inr receipt, hp)) (presenter_settle clock hp))"

section \<open>The presenter with a cache\<close>

record 'p cached_presenter =
  cp_raw :: "'p hidden_presenter"
  cp_ledger :: damage_ledger
  cp_transform :: vertical_transform
  cp_render_width :: nat
  cp_render_height :: nat
  cp_prepared_slot :: "nat option"
  cp_poisoned :: bool

definition cached_open ::
  "'p slot_kernel \<Rightarrow> 'p slot_kernel \<Rightarrow> u8 \<Rightarrow> io_error + fpga \<Rightarrow> (nat \<Rightarrow> nat) \<Rightarrow>
   (int \<times> int \<times> int \<times> int) option \<Rightarrow> display_plan \<Rightarrow> ((hidden_error + 'p cached_presenter) \<times> u8) option" where
  "cached_open k1 k2 mapped bus clock diagnostic plan =
     (if 65535 < dp_fb_w plan \<or> 65535 < dp_fb_h plan then Some (Inl HUnsupported, mapped)
      else
        (let w = of_nat (dp_fb_w plan) :: u16;
             h = of_nat (dp_fb_h plan) :: u16;
             route = route_for_scan (of_nat (dp_scan_w plan)) (of_nat (dp_scan_h plan)) (route_is_crt (dp_output_route plan))
         in case presenter_open k1 k2 mapped bus clock w h (geometry_for_route diagnostic (unat w) route 0) of
              None \<Rightarrow> None
            | Some (Inl e, mapped) \<Rightarrow> Some (Inl e, mapped)
            | Some (Inr raw, mapped) \<Rightarrow>
                (case vertical_new (dp_render_w plan) (dp_render_h plan) (dp_fb_h plan) of
                   Inl _ \<Rightarrow> Some (Inl HUnsupported, lease_drop 2 (lease_drop 1 mapped))
                 | Inr t \<Rightarrow>
                     Some (Inr \<lparr>cp_raw = raw, cp_ledger = ledger_new (dp_render_w plan) (dp_render_h plan),
                       cp_transform = t, cp_render_width = dp_render_w plan, cp_render_height = dp_render_h plan,
                       cp_prepared_slot = None, cp_poisoned = False\<rparr>, mapped))))"

definition ensure_healthy :: "'p cached_presenter \<Rightarrow> hidden_error + unit" where
  "ensure_healthy cp = (if cp_poisoned cp then Inl HPostNotObserved else Inr ())"

definition is_full_restore :: "rect_list \<Rightarrow> nat \<Rightarrow> nat \<Rightarrow> bool" where
  "is_full_restore restore w h \<longleftrightarrow>
     length (rl_iter restore) = 1 \<and> rl_get restore 0 = Some \<lparr>x0 = 0, y0 = 0, x1 = w, y1 = h\<rparr>"

text \<open>The rectangles of the restore in turn, counting what was written; \<open>None\<close> is a panic.\<close>

fun restore_rects ::
  "vertical_transform \<Rightarrow> 'p frame_view \<Rightarrow> nat \<Rightarrow> dirty_rect list \<Rightarrow> nat \<times> nat \<Rightarrow> 'p list \<Rightarrow>
   ((vertical_error + nat \<times> nat) \<times> 'p list) option" where
  "restore_rects t v stride [] counts d = Some (Inr counts, d)"
| "restore_rects t v stride (r # rs) (rects, bytes) d =
     (case vertical_copy_rect t v r d stride of
        None \<Rightarrow> None
      | Some (Inl e, d) \<Rightarrow> Some (Inl e, d)
      | Some (Inr None, d) \<Rightarrow> restore_rects t v stride rs (rects, bytes) d
      | Some (Inr (Some stats), d) \<Rightarrow>
          restore_rects t v stride rs (min (rects + 1) (2 ^ 32 - 1), min (bytes + vc_bytes stats) USIZE_MAX) d)"

definition prepare_cached ::
  "'p list \<Rightarrow> rect_list \<Rightarrow> 'p cached_presenter \<Rightarrow> ((hidden_error + cached_copy_stats) \<times> 'p cached_presenter) option" where
  "prepare_cached source damage cp =
     (case ensure_healthy cp of
        Inl e \<Rightarrow> Some (Inl e, cp)
      | Inr _ \<Rightarrow>
          if cp_prepared_slot cp \<noteq> None then Some (Inl HNoWritableSlot, cp)
          else if length source < min (cp_render_width cp * cp_render_height cp) USIZE_MAX
          then Some (Inl HUnsupported, cp)
          else
            (let cp = cp\<lparr>cp_ledger := record_damage (cp_ledger cp) damage\<rparr>
             in Option.bind (writable_slot_index (cp_raw cp)) (\<lambda>slot_index.
                Option.bind (ledger_plan (cp_ledger cp) slot_index) (\<lambda>restore.
                Option.bind (presenter_pixels (cp_raw cp)) (\<lambda>destination.
                  let v = \<lparr>fv_pixels = source, fv_width = cp_render_width cp, fv_height = cp_render_height cp,
                        fv_stride = cp_render_width cp\<rparr>
                  in case restore_rects (cp_transform cp) v (stride_pixels (cp_raw cp)) (rl_iter restore) (0, 0) destination of
                       None \<Rightarrow> None
                     | Some (Inl _, pixels) \<Rightarrow>
                         map_option (\<lambda>g. (Inl HUnsupported,
                             cp\<lparr>cp_raw := store_pixels pixels (cp_raw cp), cp_ledger := g\<rparr>))
                           (ledger_attempt_failed (cp_ledger cp) slot_index)
                     | Some (Inr (rects, bytes), pixels) \<Rightarrow>
                         Some (Inr \<lparr>cs_slot_index = slot_index, cs_source_rect_count = length (rl_iter restore),
                             cs_destination_rect_count = rects, cs_source_bytes = total_rgb565_bytes restore,
                             cs_destination_bytes = bytes,
                             cs_full_restore = is_full_restore restore (cp_render_width cp) (cp_render_height cp)\<rparr>,
                           cp\<lparr>cp_raw := store_pixels pixels (cp_raw cp), cp_prepared_slot := Some slot_index\<rparr>))))))"

definition post_prepared ::
  "u64 \<Rightarrow> u64 \<Rightarrow> nat option \<Rightarrow> 'p cached_presenter \<Rightarrow>
   ((hidden_error + hidden_post_receipt) \<times> 'p cached_presenter) option" where
  "post_prepared locked_us post_us injected cp =
     (case ensure_healthy cp of
        Inl e \<Rightarrow> Some (Inl e, cp)
      | Inr _ \<Rightarrow>
          (case cp_prepared_slot cp of
             None \<Rightarrow> Some (Inl HNoWritableSlot, cp)
           | Some prepared \<Rightarrow>
               (case presenter_post locked_us post_us injected (cp_raw cp) of
                  (Inr receipt, raw) \<Rightarrow>
                    if hr_slot_index receipt = prepared then Some (Inr receipt, cp\<lparr>cp_raw := raw\<rparr>)
                    else Some (Inl HPostNotObserved,
                      cp\<lparr>cp_raw := raw, cp_ledger := ledger_invalidate_all (cp_ledger cp), cp_poisoned := True\<rparr>)
                | (Inl e, raw) \<Rightarrow>
                    map_option (\<lambda>g. (Inl e, cp\<lparr>cp_raw := raw, cp_ledger := g, cp_poisoned := True\<rparr>))
                      (ledger_attempt_failed (cp_ledger cp) prepared))))"

definition settle_pending ::
  "(nat \<Rightarrow> nat) \<Rightarrow> 'p cached_presenter \<Rightarrow>
   ((hidden_error + present_receipt option) \<times> 'p cached_presenter) option" where
  "settle_pending clock cp =
     (case ensure_healthy cp of
        Inl e \<Rightarrow> Some (Inl e, cp)
      | Inr _ \<Rightarrow>
          (case presenter_settle clock (cp_raw cp) of
             None \<Rightarrow> None
           | Some (Inr (Some receipt), raw) \<Rightarrow>
               if cp_prepared_slot cp \<noteq> Some (pp_slot_index receipt) then
                 Some (Inl HPostNotObserved,
                   cp\<lparr>cp_raw := raw, cp_ledger := ledger_invalidate_all (cp_ledger cp), cp_poisoned := True\<rparr>)
               else
                 map_option (\<lambda>g. (Inr (Some receipt), cp\<lparr>cp_raw := raw, cp_ledger := g, cp_prepared_slot := None\<rparr>))
                   (ledger_presented (cp_ledger cp) (pp_slot_index receipt))
           | Some (Inr None, raw) \<Rightarrow> Some (Inr None, cp\<lparr>cp_raw := raw\<rparr>)
           | Some (Inl e, raw) \<Rightarrow>
               (case cp_prepared_slot cp of
                  None \<Rightarrow> Some (Inl e, cp\<lparr>cp_raw := raw, cp_poisoned := True\<rparr>)
                | Some slot_index \<Rightarrow>
                    map_option (\<lambda>g. (Inl e, cp\<lparr>cp_raw := raw, cp_ledger := g, cp_poisoned := True\<rparr>))
                      (ledger_attempt_failed (cp_ledger cp) slot_index))))"

definition present_cached ::
  "u64 \<Rightarrow> u64 \<Rightarrow> nat option \<Rightarrow> (nat \<Rightarrow> nat) \<Rightarrow> 'p list \<Rightarrow> rect_list \<Rightarrow> 'p cached_presenter \<Rightarrow>
   ((hidden_error + cached_copy_stats \<times> present_receipt) \<times> 'p cached_presenter) option" where
  "present_cached locked_us post_us injected clock source damage cp =
     (case prepare_cached source damage cp of
        None \<Rightarrow> None
      | Some (Inl e, cp) \<Rightarrow> Some (Inl e, cp)
      | Some (Inr copy, cp) \<Rightarrow>
          (case post_prepared locked_us post_us injected cp of
             None \<Rightarrow> None
           | Some (Inl e, cp) \<Rightarrow> Some (Inl e, cp)
           | Some (Inr _, cp) \<Rightarrow>
               (case settle_pending clock cp of
                  None \<Rightarrow> None
                | Some (Inl e, cp) \<Rightarrow> Some (Inl e, cp)
                | Some (Inr None, cp) \<Rightarrow> Some (Inl HPostNotObserved, cp)
                | Some (Inr (Some receipt), cp) \<Rightarrow> Some (Inr (copy, receipt), cp))))"

section \<open>The waits end\<close>

lemma completion_loop_step:
  "completion_loop clock timeout sequence n poll_count s =
     (case read_status_sample s of
        (Inl _, s) \<Rightarrow> Some (Inl (runtime_failure PostVerification FpgaTransportFailed), s)
      | (Inr sample, s) \<Rightarrow>
          if \<not> ls_supported (ss_status sample)
          then Some (Inl (incompatible_failure PostVerification FpgaStatusUnsupported), s)
          else if \<not> ls_pending (ss_status sample) \<and> ls_active_sequence (ss_status sample) = sequence then
            Some (Inr \<lparr>lc_status = ss_status sample, lc_poll_count = sat_add poll_count 1,
              lc_wall_us = of_nat (clock n)\<rparr>, s)
          else if timeout \<le> clock n then Some (Inl (runtime_failure PostVerification PostedSequenceUnverified), s)
          else completion_loop clock timeout sequence (Suc n) (sat_add poll_count 1) s)"
  by (subst completion_loop.simps) (simp only: Let_def)

lemma completion_loop_ends:
  assumes "timeout \<le> clock m" "n \<le> m"
  shows "\<exists>r s'. completion_loop clock timeout sequence n poll_count s = Some (r, s') \<and>
    (\<forall>c. r = Inr c \<longrightarrow> unat (lc_poll_count c) \<le> unat poll_count + (m - n) + 1)"
  using assms(2)
proof (induction "m - n" arbitrary: n poll_count s)
  case 0
  then have "n = m"
    by simp
  obtain r s1 where read: "read_status_sample s = (r, s1)"
    by (cases "read_status_sample s")
  have "unat (sat_add poll_count 1) \<le> unat poll_count + 1"
    by (simp add: unat_sat_add)
  then show ?case
    using assms(1) by (simp add: \<open>n = m\<close> completion_loop_step [of _ _ _ m] read split: sum.split)
next
  case (Suc k)
  obtain r s1 where read: "read_status_sample s = (r, s1)"
    by (cases "read_status_sample s")
  have count: "unat (sat_add poll_count 1) \<le> unat poll_count + 1"
    by (simp add: unat_sat_add)
  have "k = m - Suc n" "Suc n \<le> m"
    using Suc.hyps(2) by simp_all
  from Suc.hyps(1) [OF this] obtain r' s'
    where rest: "completion_loop clock timeout sequence (Suc n) (sat_add poll_count 1) s1 = Some (r', s')"
    and polls: "\<forall>c. r' = Inr c \<longrightarrow> unat (lc_poll_count c) \<le> unat (sat_add poll_count 1) + (m - Suc n) + 1"
    by blast
  have "\<forall>c. r' = Inr c \<longrightarrow> unat (lc_poll_count c) \<le> unat poll_count + (m - n) + 1"
    using polls count \<open>Suc n \<le> m\<close> by fastforce
  moreover have "unat (sat_add poll_count 1) \<le> unat poll_count + (m - n) + 1"
    using count by simp
  ultimately show ?case
    by (simp add: completion_loop_step [of _ _ _ n] read rest split: sum.split)
qed

lemma settled_loop_ends:
  assumes "timeout \<le> clock m" "n \<le> m"
  shows "\<exists>r s'. settled_loop clock timeout n s = Some (r, s')"
  using assms(2)
proof (induction "m - n" arbitrary: n s)
  case 0
  then have "n = m"
    by simp
  then show ?case
    using assms(1) by (subst settled_loop.simps) (auto simp: Let_def split: sum.split prod.split)
next
  case (Suc k)
  then have "k = m - Suc n" "Suc n \<le> m"
    by simp_all
  then have "\<exists>r s'. settled_loop clock timeout (Suc n) s = Some (r, s')" for s
    by (rule Suc.hyps(1))
  then show ?case
    by (subst settled_loop.simps) (auto simp: Let_def split: sum.split prod.split)
qed

text \<open>What a completed wait knows: the core said so in the last answer.\<close>

definition core_reports :: "fpga \<Rightarrow> latched_status \<Rightarrow> bool" where
  "core_reports s st \<longleftrightarrow> (\<exists>s0 sample. read_status_sample s0 = (Inr sample, s) \<and> ss_status sample = st)"

definition completed :: "u16 \<Rightarrow> (latch_failure + latch_completion) \<times> fpga \<Rightarrow> bool" where
  "completed sequence result \<longleftrightarrow>
     (\<forall>c. fst result = Inr c \<longrightarrow> core_reports (snd result) (lc_status c) \<and> ls_supported (lc_status c) \<and>
        \<not> ls_pending (lc_status c) \<and> ls_active_sequence (lc_status c) = sequence)"

lemma completion_loop_completed:
  assumes "completion_loop clock timeout sequence n poll_count s = Some result"
  shows "completed sequence result"
proof (rule completion_loop.raw_induct [OF _ assms])
  fix loop clock timeout sequence n poll_count s result
  assume IH: "\<And>clock timeout sequence n poll_count s y.
      loop clock timeout sequence n poll_count s = Some y \<Longrightarrow> completed sequence y"
    and "(case read_status_sample s of
        (Inl x, s) \<Rightarrow> Some (Inl (runtime_failure PostVerification FpgaTransportFailed), s)
      | (Inr sample, s) \<Rightarrow>
          (let st = ss_status sample;
               poll_count = sat_add poll_count 1
           in if \<not> ls_supported st then Some (Inl (incompatible_failure PostVerification FpgaStatusUnsupported), s)
              else if \<not> ls_pending st \<and> ls_active_sequence st = sequence then
                Some (Inr \<lparr>lc_status = st, lc_poll_count = poll_count, lc_wall_us = of_nat (clock n)\<rparr>, s)
              else if timeout \<le> clock n then Some (Inl (runtime_failure PostVerification PostedSequenceUnverified), s)
              else loop clock timeout sequence (Suc n) poll_count s)) = Some result"
  moreover have "core_reports s1 (ss_status sample)" if "read_status_sample s = (Inr sample, s1)" for sample s1
    using that by (auto simp: core_reports_def)
  ultimately show "completed sequence result"
    by (auto simp: completed_def [of _ "(_, _)"] Let_def split: prod.splits sum.splits if_splits)
qed

section \<open>What a slot holds\<close>

definition slot_pixel :: "'p cached_presenter \<Rightarrow> nat \<Rightarrow> nat \<Rightarrow> nat \<Rightarrow> 'p" where
  "slot_pixel cp o1 x y =
     (let slot = hp_slots (cp_raw cp) ! o1 in hs_pixels slot ! (y * hs_stride_pixels slot + x))"

definition frame_pixel :: "'p cached_presenter \<Rightarrow> 'p list \<Rightarrow> nat \<Rightarrow> nat \<Rightarrow> 'p" where
  "frame_pixel cp frame x y = frame ! (sampled_row (cp_transform cp) y * cp_render_width cp + x)"

text \<open>The slot shows the frame, scaled to its height.\<close>

definition slot_shows :: "'p cached_presenter \<Rightarrow> nat \<Rightarrow> 'p list \<Rightarrow> bool" where
  "slot_shows cp o1 frame \<longleftrightarrow>
     (\<forall>x y. x < cp_render_width cp \<longrightarrow> y < vt_destination_height (cp_transform cp) \<longrightarrow>
        slot_pixel cp o1 x y = frame_pixel cp frame x y)"

definition slots_fit :: "vertical_transform \<Rightarrow> 'p hidden_presenter \<Rightarrow> bool" where
  "slots_fit t hp \<longleftrightarrow> length (hp_slots hp) = 2 \<and> hp_writable_slot hp < 2 \<and>
     (\<forall>slot \<in> set (hp_slots hp). vt_width t \<le> hs_stride_pixels slot \<and>
        hs_stride_pixels slot * vt_destination_height t \<le> USIZE_MAX \<and>
        hs_stride_pixels slot * vt_destination_height t \<le> length (hs_pixels slot))"

definition presenter_shape :: "'p cached_presenter \<Rightarrow> bool" where
  "presenter_shape cp \<longleftrightarrow>
     transform_ok (cp_transform cp) \<and> vt_width (cp_transform cp) = cp_render_width cp \<and>
     vt_source_height (cp_transform cp) = cp_render_height cp \<and>
     cp_render_width cp * cp_render_height cp \<le> USIZE_MAX \<and>
     slots_fit (cp_transform cp) (cp_raw cp) \<and> ledger_ok (cp_ledger cp) \<and>
     full_rect (cp_ledger cp) = \<lparr>x0 = 0, y0 = 0, x1 = cp_render_width cp, y1 = cp_render_height cp\<rparr>"

text \<open>A post concerns the prepared slot, which is the writable one.\<close>

definition presenter_link :: "'p cached_presenter \<Rightarrow> bool" where
  "presenter_link cp \<longleftrightarrow>
     (\<forall>k. cp_prepared_slot cp = Some k \<longrightarrow> k = Suc (hp_writable_slot (cp_raw cp))) \<and>
     (\<forall>p. hp_pending (cp_raw cp) = Some p \<longrightarrow> cp_prepared_slot cp \<noteq> None \<and>
        pn_slot_index p = Suc (hp_writable_slot (cp_raw cp)) \<and>
        pn_base p = hp_bases (cp_raw cp) ! hp_writable_slot (cp_raw cp))"

definition debt_covers :: "'p cached_presenter \<Rightarrow> nat \<Rightarrow> nat \<Rightarrow> nat \<Rightarrow> bool" where
  "debt_covers cp o1 x y \<longleftrightarrow> covers (debts (cp_ledger cp) ! o1) x (sampled_row (cp_transform cp) y)"

text \<open>
  Against the last frame handed in, a slot is right wherever its debt does not say otherwise, and the
  prepared slot is right everywhere. Before the first frame the debts cover everything.
\<close>

definition slots_agree :: "'p cached_presenter \<Rightarrow> 'p list option \<Rightarrow> bool" where
  "slots_agree cp frame \<longleftrightarrow>
     (\<forall>o1 x y. o1 < 2 \<longrightarrow> x < cp_render_width cp \<longrightarrow> y < vt_destination_height (cp_transform cp) \<longrightarrow>
        debt_covers cp o1 x y \<or> (\<exists>f. frame = Some f \<and> slot_pixel cp o1 x y = frame_pixel cp f x y)) \<and>
     (\<forall>k. cp_prepared_slot cp = Some k \<longrightarrow> (\<exists>f. frame = Some f \<and> slot_shows cp (k - 1) f))"

definition presenter_inv :: "'p cached_presenter \<Rightarrow> 'p list option \<Rightarrow> bool" where
  "presenter_inv cp frame \<longleftrightarrow> presenter_shape cp \<and> presenter_link cp \<and> slots_agree cp frame"

section \<open>Every operation keeps it\<close>

lemma restore_rects_exact:
  fixes v :: "'p frame_view"
  assumes ok: "transform_ok t" and source: "validate_source t v = Inr u" and stride: "vt_width t \<le> stride"
    and room: "stride * vt_destination_height t \<le> USIZE_MAX"
    and rs: "\<forall>r \<in> set rs. valid_source_rect t r = Some r"
    and d: "stride * vt_destination_height t \<le> length d"
  shows "\<exists>counts' d'. restore_rects t v stride rs counts d = Some (Inr counts', d') \<and> length d' = length d \<and>
    (\<forall>x y. x < stride \<longrightarrow> y < vt_destination_height t \<longrightarrow>
       d' ! (y * stride + x) =
         (if \<exists>r \<in> set rs. in_rect r x (sampled_row t y) then fv_pixels v ! (sampled_row t y * fv_stride v + x)
          else d ! (y * stride + x)))"
  using rs d
proof (induction rs arbitrary: counts d)
  case (Cons r rs)
  from vertical_copy_spec [OF ok source stride room Cons.prems(2), of r] Cons.prems(1)
  obtain stats d1 where copy: "vertical_copy_rect t v r d stride = Some (Inr stats, d1)"
    and copied: "rect_copied t v r stride d d1"
    by auto
  have len: "length d1 = length d"
    using copied by (simp add: rect_copied_def)
  obtain counts1 where step: "restore_rects t v stride (r # rs) counts d = restore_rects t v stride rs counts1 d1"
    using copy by (cases counts; cases stats) auto
  from Cons.IH [of d1 counts1] Cons.prems len obtain counts' d' where
    "restore_rects t v stride rs counts1 d1 = Some (Inr counts', d')" "length d' = length d1"
    and rest: "\<And>x y. x < stride \<Longrightarrow> y < vt_destination_height t \<Longrightarrow> d' ! (y * stride + x) =
       (if \<exists>r \<in> set rs. in_rect r x (sampled_row t y) then fv_pixels v ! (sampled_row t y * fv_stride v + x)
        else d1 ! (y * stride + x))"
    by auto
  moreover have "d1 ! (y * stride + x) = (if in_rect r x (sampled_row t y)
      then fv_pixels v ! (sampled_row t y * fv_stride v + x) else d ! (y * stride + x))"
    if "x < stride" "y < vt_destination_height t" for x y
    using copied that by (simp add: rect_copied_def)
  ultimately show ?case
    using step len by simp
qed simp

lemma ledger_offsets: "o1 < 2 \<Longrightarrow> slot_offset (Suc o1) = Some o1"
  by (auto simp: slot_offset_def less_2_cases_iff)

lemma ledger_debt:
  assumes "ledger_ok g" "o1 < 2"
  shows "canonical (full_rect g) (debts g ! o1)" "length (debts g) = 2"
  using assms by (simp_all add: ledger_ok_def)

lemma recorded:
  assumes "ledger_ok g"
  shows "ledger_ok (record_damage g damage)" "full_rect (record_damage g damage) = full_rect g"
    and "o1 < 2 \<Longrightarrow> covers (debts g ! o1) x y \<or> covers damage x y \<and> in_rect (full_rect g) x y \<Longrightarrow>
      covers (debts (record_damage g damage) ! o1) x y"
proof -
  show "ledger_ok (record_damage g damage)" "full_rect (record_damage g damage) = full_rect g"
    using assms extend_canonical(1) by (auto simp: ledger_ok_def record_damage_def)
  assume o1: "o1 < 2" and "covers (debts g ! o1) x y \<or> covers damage x y \<and> in_rect (full_rect g) x y"
  then show "covers (debts (record_damage g damage) ! o1) x y"
    using extend_canonical(2) [OF ledger_debt(1) [OF assms o1]] ledger_debt(2) [OF assms o1]
    by (simp add: record_damage_def)
qed

lemma canonical_valid:
  assumes "canonical \<lparr>x0 = 0, y0 = 0, x1 = vt_width t, y1 = vt_source_height t\<rparr> l" "r \<in> set (rl_iter l)"
  shows "valid_source_rect t r = Some r"
  using assms by (auto simp: canonical_def valid_source_rect_def rect_contains_def rect_is_empty_def)

text \<open>The pixels of the writable slot change; nothing else does.\<close>

lemma store_pixels_simps [simp]:
  "hp_bases (store_pixels pixels hp) = hp_bases hp" "hp_writable_slot (store_pixels pixels hp) = hp_writable_slot hp"
  "hp_pending (store_pixels pixels hp) = hp_pending hp"
  "hp_settle_timeout (store_pixels pixels hp) = hp_settle_timeout hp"
  "length (hp_slots (store_pixels pixels hp)) = length (hp_slots hp)"
  by (simp_all add: store_pixels_def)

lemma stored_slot:
  assumes "hp_writable_slot hp < length (hp_slots hp)"
  shows "hp_slots (store_pixels pixels hp) ! o1 =
    (if o1 = hp_writable_slot hp then (hp_slots hp ! o1)\<lparr>hs_pixels := pixels\<rparr> else hp_slots hp ! o1)"
  using assms by (simp add: store_pixels_def nth_list_update)

lemma slots_fit_store:
  assumes "slots_fit t hp" "length pixels = length (hs_pixels (hp_slots hp ! hp_writable_slot hp))"
  shows "slots_fit t (store_pixels pixels hp)"
proof -
  have "hp_slots hp ! hp_writable_slot hp \<in> set (hp_slots hp)"
    using assms(1) by (auto simp: slots_fit_def)
  then show ?thesis
    using assms set_update_subset_insert [of "hp_slots hp" "hp_writable_slot hp"
        "(hp_slots hp ! hp_writable_slot hp)\<lparr>hs_pixels := pixels\<rparr>"]
    unfolding slots_fit_def store_pixels_def by fastforce
qed

text \<open>The frames a presenter takes in, and what the caller owes: the damage covers every difference.\<close>

definition takes_frame :: "'p list \<Rightarrow> 'p cached_presenter \<Rightarrow> bool" where
  "takes_frame source cp \<longleftrightarrow> \<not> cp_poisoned cp \<and> cp_prepared_slot cp = None \<and>
     \<not> length source < min (cp_render_width cp * cp_render_height cp) USIZE_MAX"

definition damage_tells :: "'p cached_presenter \<Rightarrow> 'p list option \<Rightarrow> 'p list \<Rightarrow> rect_list \<Rightarrow> bool" where
  "damage_tells cp frame source damage \<longleftrightarrow>
     (case frame of
        None \<Rightarrow> True
      | Some f \<Rightarrow> \<forall>y < cp_render_height cp. \<forall>x < cp_render_width cp.
          source ! (y * cp_render_width cp + x) \<noteq> f ! (y * cp_render_width cp + x) \<longrightarrow> covers damage x y)"

lemma prepare_refused:
  assumes "\<not> takes_frame source cp"
  shows "\<exists>e. prepare_cached source damage cp = Some (Inl e, cp)"
  using assms by (auto simp: prepare_cached_def ensure_healthy_def takes_frame_def)

lemma prepare_taken:
  fixes cp :: "'p cached_presenter"
  assumes inv: "presenter_inv cp frame" and takes: "takes_frame source cp"
    and owed: "damage_tells cp frame source damage"
  shows "\<exists>stats pixels. prepare_cached source damage cp = Some (Inr stats,
      cp\<lparr>cp_raw := store_pixels pixels (cp_raw cp), cp_ledger := record_damage (cp_ledger cp) damage,
         cp_prepared_slot := Some (Suc (hp_writable_slot (cp_raw cp)))\<rparr>) \<and>
    length pixels = length (hs_pixels (hp_slots (cp_raw cp) ! hp_writable_slot (cp_raw cp))) \<and>
    (\<forall>x y. x < cp_render_width cp \<longrightarrow> y < vt_destination_height (cp_transform cp) \<longrightarrow>
       pixels ! (y * hs_stride_pixels (hp_slots (cp_raw cp) ! hp_writable_slot (cp_raw cp)) + x) = frame_pixel cp source x y)"
proof -
  let ?t = "cp_transform cp" and ?g = "record_damage (cp_ledger cp) damage" and ?o = "hp_writable_slot (cp_raw cp)"
  let ?w = "cp_render_width cp" and ?h = "cp_render_height cp"
  let ?slot = "hp_slots (cp_raw cp) ! ?o"
  let ?stride = "hs_stride_pixels ?slot"
  let ?v = "\<lparr>fv_pixels = source, fv_width = ?w, fv_height = ?h, fv_stride = ?w\<rparr>"
  let ?plan = "debts ?g ! ?o"
  have shape: "transform_ok ?t" "vt_width ?t = ?w" "vt_source_height ?t = ?h" "?w * ?h \<le> USIZE_MAX"
    "slots_fit ?t (cp_raw cp)" "ledger_ok (cp_ledger cp)"
    "full_rect (cp_ledger cp) = \<lparr>x0 = 0, y0 = 0, x1 = ?w, y1 = ?h\<rparr>"
    and link: "presenter_link cp" and agree: "slots_agree cp frame"
    using inv by (simp_all add: presenter_inv_def presenter_shape_def)
  have o: "?o < 2"
    using shape(5) by (simp add: slots_fit_def)
  have "?slot \<in> set (hp_slots (cp_raw cp))"
    using shape(5) by (simp add: slots_fit_def)
  then have slot: "vt_width ?t \<le> ?stride" "?stride * vt_destination_height ?t \<le> USIZE_MAX"
    "?stride * vt_destination_height ?t \<le> length (hs_pixels ?slot)"
    using shape(5) by (auto simp: slots_fit_def)
  have idle: "hp_pending (cp_raw cp) = None"
    using takes link by (cases "hp_pending (cp_raw cp)") (auto simp: takes_frame_def presenter_link_def)
  have size: "?w * ?h \<le> length source"
    using takes shape(4) by (auto simp: takes_frame_def min_def split: if_splits)
  have view: "validate_source ?t ?v = Inr ()"
    using shape size by (simp add: validate_source_def checked_mul_def)
  have plan: "canonical \<lparr>x0 = 0, y0 = 0, x1 = ?w, y1 = ?h\<rparr> ?plan"
    using ledger_debt(1) [OF recorded(1) [OF shape(6)] o] recorded(2) [OF shape(6)] shape(7) by simp
  then have valid: "\<forall>r \<in> set (rl_iter ?plan). valid_source_rect ?t r = Some r"
    using canonical_valid [of ?t ?plan] shape(2,3) by simp
  from restore_rects_exact [OF shape(1) view slot(1,2) valid slot(3), of "(0, 0)"] obtain counts d' where
    run: "restore_rects ?t ?v ?stride (rl_iter ?plan) (0, 0) (hs_pixels ?slot) = Some (Inr counts, d')"
    and len: "length d' = length (hs_pixels ?slot)"
    and px: "\<And>x y. x < ?stride \<Longrightarrow> y < vt_destination_height ?t \<Longrightarrow> d' ! (y * ?stride + x) =
       (if covers ?plan x (sampled_row ?t y) then source ! (sampled_row ?t y * ?w + x)
        else hs_pixels ?slot ! (y * ?stride + x))"
    unfolding covers_def by auto
  have "d' ! (y * ?stride + x) = frame_pixel cp source x y"
    if x: "x < ?w" and y: "y < vt_destination_height ?t" for x y
  proof (cases "covers ?plan x (sampled_row ?t y)")
    case True
    then show ?thesis
      using px [of x y] x y slot(1) shape(2) by (simp add: frame_pixel_def)
  next
    case False
    have row: "sampled_row ?t y < ?h"
      using sampled_row_less [OF shape(1) y] shape(3) by simp
    then have "in_rect (full_rect (cp_ledger cp)) x (sampled_row ?t y)"
      using x shape(7) by (simp add: in_rect_def)
    then have spared: "\<not> debt_covers cp ?o x y" "\<not> covers damage x (sampled_row ?t y)"
      using False recorded(3) [OF shape(6) o] by (auto simp: debt_covers_def)
    then obtain f where f: "frame = Some f" "slot_pixel cp ?o x y = frame_pixel cp f x y"
      using agree o x y unfolding slots_agree_def by blast
    have "source ! (sampled_row ?t y * ?w + x) = f ! (sampled_row ?t y * ?w + x)"
      using owed f(1) spared(2) row x by (auto simp: damage_tells_def)
    then show ?thesis
      using px [of x y] False x y slot(1) shape(2) f(2) by (simp add: frame_pixel_def slot_pixel_def Let_def)
  qed
  moreover have "\<exists>stats. prepare_cached source damage cp = Some (Inr stats,
      cp\<lparr>cp_raw := store_pixels d' (cp_raw cp), cp_ledger := ?g, cp_prepared_slot := Some (Suc ?o)\<rparr>)"
    using takes idle run ledger_offsets [OF o] unfolding takes_frame_def prepare_cached_def
    by (cases counts) (simp add: ensure_healthy_def writable_slot_index_def ledger_plan_def presenter_pixels_def
        stride_pixels_def Let_def)
  ultimately show ?thesis
    using len by blast
qed

lemma prepare_inv:
  fixes cp :: "'p cached_presenter"
  assumes inv: "presenter_inv cp frame" and takes: "takes_frame source cp"
    and owed: "damage_tells cp frame source damage"
  shows "\<exists>stats cp'. prepare_cached source damage cp = Some (Inr stats, cp') \<and> presenter_inv cp' (Some source) \<and>
    cp_prepared_slot cp' \<noteq> None \<and> hp_settle_timeout (cp_raw cp') = hp_settle_timeout (cp_raw cp)"
proof -
  let ?o = "hp_writable_slot (cp_raw cp)"
  from prepare_taken [OF assms] obtain stats pixels where
    run: "prepare_cached source damage cp = Some (Inr stats,
      cp\<lparr>cp_raw := store_pixels pixels (cp_raw cp), cp_ledger := record_damage (cp_ledger cp) damage,
         cp_prepared_slot := Some (Suc ?o)\<rparr>)"
    and len: "length pixels = length (hs_pixels (hp_slots (cp_raw cp) ! ?o))"
    and px: "\<And>x y. x < cp_render_width cp \<Longrightarrow> y < vt_destination_height (cp_transform cp) \<Longrightarrow>
       pixels ! (y * hs_stride_pixels (hp_slots (cp_raw cp) ! ?o) + x) = frame_pixel cp source x y"
    by blast
  define cp' where "cp' = cp\<lparr>cp_raw := store_pixels pixels (cp_raw cp),
      cp_ledger := record_damage (cp_ledger cp) damage, cp_prepared_slot := Some (Suc ?o)\<rparr>"
  have shape: "transform_ok (cp_transform cp)" "vt_source_height (cp_transform cp) = cp_render_height cp"
    "slots_fit (cp_transform cp) (cp_raw cp)" "ledger_ok (cp_ledger cp)"
    "full_rect (cp_ledger cp) = \<lparr>x0 = 0, y0 = 0, x1 = cp_render_width cp, y1 = cp_render_height cp\<rparr>"
    using inv by (simp_all add: presenter_inv_def presenter_shape_def)
  have o: "?o < length (hp_slots (cp_raw cp))"
    using shape(3) by (simp add: slots_fit_def)
  have px': "slot_pixel cp' o1 x y =
      (if o1 = ?o then pixels ! (y * hs_stride_pixels (hp_slots (cp_raw cp) ! o1) + x) else slot_pixel cp o1 x y)"
    for o1 x y
    by (simp add: slot_pixel_def cp'_def stored_slot [OF o] Let_def)
  have frame': "frame_pixel cp' f x y = frame_pixel cp f x y" for f x y
    by (simp add: frame_pixel_def cp'_def)
  have shows': "slot_shows cp' ?o source"
    using px by (simp add: slot_shows_def px' frame') (simp add: cp'_def)
  have "debt_covers cp' o1 x y \<or> slot_pixel cp' o1 x y = frame_pixel cp' source x y"
    if o1: "o1 < 2" and x: "x < cp_render_width cp" and y: "y < vt_destination_height (cp_transform cp)" for o1 x y
  proof (cases "o1 = ?o \<or> debt_covers cp' o1 x y")
    case True
    then show ?thesis
      using px [OF x y] by (auto simp: px' frame')
  next
    case False
    have row: "sampled_row (cp_transform cp) y < cp_render_height cp"
      using sampled_row_less [OF shape(1) y] shape(2) by simp
    have "\<not> debt_covers cp o1 x y" "\<not> covers damage x (sampled_row (cp_transform cp) y)"
      using False recorded(3) [OF shape(4) o1] row x shape(5) by (auto simp: debt_covers_def cp'_def in_rect_def)
    then obtain f where "frame = Some f" "slot_pixel cp o1 x y = frame_pixel cp f x y"
      using inv o1 x y unfolding presenter_inv_def slots_agree_def by blast
    moreover have "frame_pixel cp f x y = frame_pixel cp source x y" if "frame = Some f"
      using owed that \<open>\<not> covers damage x _\<close> row x by (simp add: damage_tells_def frame_pixel_def) metis
    ultimately show ?thesis
      using False by (simp add: px' frame')
  qed
  then have "slots_agree cp' (Some source)"
    using shows' unfolding slots_agree_def by (simp add: cp'_def)
  moreover have "presenter_shape cp'"
    using inv recorded(1,2) [OF shape(4)] slots_fit_store [OF shape(3) len]
    unfolding presenter_inv_def presenter_shape_def cp'_def by simp
  moreover have "presenter_link cp'"
    using inv by (auto simp: presenter_inv_def presenter_link_def cp'_def)
  ultimately show ?thesis
    using run unfolding presenter_inv_def cp'_def by auto
qed

text \<open>A change of bus, sequence, statistics or poison does not matter to the slots.\<close>

definition same_slots :: "'p cached_presenter \<Rightarrow> 'p cached_presenter \<Rightarrow> bool" where
  "same_slots cp cp' \<longleftrightarrow>
     hp_slots (cp_raw cp') = hp_slots (cp_raw cp) \<and> hp_bases (cp_raw cp') = hp_bases (cp_raw cp) \<and>
     hp_writable_slot (cp_raw cp') = hp_writable_slot (cp_raw cp) \<and>
     hp_settle_timeout (cp_raw cp') = hp_settle_timeout (cp_raw cp) \<and>
     cp_transform cp' = cp_transform cp \<and> cp_render_width cp' = cp_render_width cp \<and>
     cp_render_height cp' = cp_render_height cp \<and> cp_prepared_slot cp' = cp_prepared_slot cp"

lemma same_slots_inv:
  assumes "same_slots cp cp'" "presenter_inv cp frame" "presenter_link cp'" "ledger_ok (cp_ledger cp')"
    and "full_rect (cp_ledger cp') = full_rect (cp_ledger cp)"
    and "\<And>o1 x y. o1 < 2 \<Longrightarrow> x < cp_render_width cp \<Longrightarrow> y < vt_destination_height (cp_transform cp) \<Longrightarrow>
      debt_covers cp o1 x y \<Longrightarrow> debt_covers cp' o1 x y"
  shows "presenter_inv cp' frame"
proof -
  have "slot_pixel cp' = slot_pixel cp" "frame_pixel cp' = frame_pixel cp"
    using assms(1) by (simp_all add: same_slots_def slot_pixel_def frame_pixel_def fun_eq_iff)
  then have "slots_agree cp' frame"
    using assms(1,2,6) unfolding presenter_inv_def slots_agree_def slot_shows_def same_slots_def by simp metis
  then show ?thesis
    using assms(1-5) by (auto simp: presenter_inv_def presenter_shape_def same_slots_def slots_fit_def)
qed

lemma presenter_post_cases:
  assumes "presenter_post locked_us post_us injected hp = (r, hp')"
  shows "hp_slots hp' = hp_slots hp \<and> hp_bases hp' = hp_bases hp \<and> hp_writable_slot hp' = hp_writable_slot hp \<and>
    hp_settle_timeout hp' = hp_settle_timeout hp \<and>
    (case r of
       Inl _ \<Rightarrow> hp_pending hp' = hp_pending hp
     | Inr receipt \<Rightarrow> hp_pending hp = None \<and> hr_slot_index receipt = Suc (hp_writable_slot hp) \<and>
         (\<exists>sequence. hp_pending hp' = Some \<lparr>pn_slot_index = Suc (hp_writable_slot hp), pn_sequence = sequence,
            pn_base = hp_bases hp ! hp_writable_slot hp\<rparr>))"
  using assms by (auto simp: presenter_post_def Let_def split: option.splits prod.splits sum.splits)

lemma ledger_failed:
  assumes "ledger_ok g" "o1 < 2"
  shows "\<exists>g'. ledger_attempt_failed g (Suc o1) = Some g' \<and> ledger_ok g' \<and> full_rect g' = full_rect g \<and>
    (\<forall>o2 x y. o2 < 2 \<longrightarrow> covers (debts g ! o2) x y \<longrightarrow> covers (debts g' ! o2) x y)"
proof -
  let ?g = "g\<lparr>debts := (debts g)[o1 := rl_from_one (full_rect g)]\<rparr>"
  have "ledger_attempt_failed g (Suc o1) = Some ?g"
    using ledger_offsets [OF assms(2)] by (simp add: ledger_attempt_failed_def ledger_invalidate_slot_def)
  moreover have "ledger_ok ?g"
    using assms(1) canonical_from_one set_update_subset_insert by (fastforce simp: ledger_ok_def)
  moreover have "covers (debts ?g ! o2) x y" if "o2 < 2" "covers (debts g ! o2) x y" for o2 x y
    using canonical_within [OF ledger_debt(1) [OF assms(1) that(1)] that(2)] that(2) ledger_debt(2) [OF assms]
    by (cases "o2 = o1") (simp_all add: assms(2))
  ultimately show ?thesis
    by auto
qed

lemma ledger_cleared:
  assumes "ledger_ok g" "o1 < 2"
  shows "\<exists>g'. ledger_presented g (Suc o1) = Some g' \<and> ledger_ok g' \<and> full_rect g' = full_rect g \<and>
    (\<forall>o2. o2 < 2 \<longrightarrow> o2 \<noteq> o1 \<longrightarrow> debts g' ! o2 = debts g ! o2)"
proof -
  let ?debt = "rl_clear (debts g ! o1)"
  let ?g = "g\<lparr>debts := (debts g)[o1 := ?debt]\<rparr>"
  have "ledger_presented g (Suc o1) = Some ?g"
    using ledger_offsets [OF assms(2)] by (simp add: ledger_presented_def)
  moreover have "canonical (full_rect g) ?debt"
    using ledger_debt(1) [OF assms] by (intro canonical_clear) (simp add: canonical_def)
  then have "ledger_ok ?g"
    using assms(1) set_update_subset_insert by (fastforce simp: ledger_ok_def)
  ultimately show ?thesis
    by auto
qed

lemma post_prepared_inv:
  assumes inv: "presenter_inv cp frame"
  shows "\<exists>r cp'. post_prepared locked_us post_us injected cp = Some (r, cp') \<and> presenter_inv cp' frame \<and>
    cp_prepared_slot cp' = cp_prepared_slot cp \<and> hp_settle_timeout (cp_raw cp') = hp_settle_timeout (cp_raw cp) \<and>
    (\<forall>receipt. r = Inr receipt \<longrightarrow> cp_prepared_slot cp \<noteq> None)"
proof (cases "cp_poisoned cp \<or> cp_prepared_slot cp = None")
  case True
  then show ?thesis
    using inv by (auto simp: post_prepared_def ensure_healthy_def split: option.split)
next
  case False
  have link: "presenter_link cp" and ledger: "ledger_ok (cp_ledger cp)" and o: "hp_writable_slot (cp_raw cp) < 2"
    using inv by (simp_all add: presenter_inv_def presenter_shape_def slots_fit_def)
  then have prepared: "cp_prepared_slot cp = Some (Suc (hp_writable_slot (cp_raw cp)))"
    using False by (auto simp: presenter_link_def)
  obtain r raw where post: "presenter_post locked_us post_us injected (cp_raw cp) = (r, raw)"
    by (cases "presenter_post locked_us post_us injected (cp_raw cp)")
  note raw = presenter_post_cases [OF post]
  show ?thesis
  proof (cases r)
    case (Inl e)
    obtain g' where g': "ledger_attempt_failed (cp_ledger cp) (Suc (hp_writable_slot (cp_raw cp))) = Some g'"
      "ledger_ok g'" "full_rect g' = full_rect (cp_ledger cp)"
      and more: "\<And>o2 x y. o2 < 2 \<Longrightarrow> covers (debts (cp_ledger cp) ! o2) x y \<Longrightarrow> covers (debts g' ! o2) x y"
      using ledger_failed [OF ledger o] by blast
    let ?cp = "cp\<lparr>cp_raw := raw, cp_ledger := g', cp_poisoned := True\<rparr>"
    have "post_prepared locked_us post_us injected cp = Some (Inl e, ?cp)"
      using False prepared post Inl g'(1) by (simp add: post_prepared_def ensure_healthy_def)
    moreover have "presenter_link ?cp"
      using link raw Inl by (simp add: presenter_link_def)
    then have "presenter_inv ?cp frame"
      using raw g' more by (intro same_slots_inv [OF _ inv]) (simp_all add: same_slots_def debt_covers_def)
    ultimately show ?thesis
      using raw Inl by auto
  next
    case (Inr receipt)
    let ?cp = "cp\<lparr>cp_raw := raw\<rparr>"
    have "post_prepared locked_us post_us injected cp = Some (Inr receipt, ?cp)"
      using False prepared post Inr raw by (simp add: post_prepared_def ensure_healthy_def)
    moreover have "presenter_link ?cp"
      using raw Inr prepared by (auto simp: presenter_link_def)
    then have "presenter_inv ?cp frame"
      using raw ledger by (intro same_slots_inv [OF _ inv]) (simp_all add: same_slots_def debt_covers_def)
    ultimately show ?thesis
      using raw prepared by auto
  qed
qed

lemma presenter_settle_cases:
  assumes "presenter_settle clock hp = Some (r, hp')"
  shows "hp_slots hp' = hp_slots hp \<and> hp_bases hp' = hp_bases hp \<and> hp_settle_timeout hp' = hp_settle_timeout hp \<and>
    (case r of
       Inl _ \<Rightarrow> hp_pending hp' = hp_pending hp \<and> hp_writable_slot hp' = hp_writable_slot hp
     | Inr None \<Rightarrow> hp' = hp \<and> hp_pending hp = None
     | Inr (Some receipt) \<Rightarrow>
         (\<exists>p st. hp_pending hp = Some p \<and> hp_pending hp' = None \<and> hp_writable_slot hp' = 1 - hp_writable_slot hp \<and>
            pp_slot_index receipt = pn_slot_index p \<and> pp_sequence receipt = pn_sequence p \<and>
            core_reports (hp_fpga hp') st \<and> ls_supported st \<and> \<not> ls_pending st \<and>
            ls_active_sequence st = pn_sequence p \<and> ls_active_base st = pn_base p))"
proof (cases "hp_pending hp")
  case None
  then show ?thesis
    using assms by (auto simp: presenter_settle_def)
next
  case (Some p)
  then obtain w s where wait: "wait_for_latch_completion clock (hp_settle_timeout hp) (pn_sequence p) (hp_fpga hp) = Some (w, s)"
    using assms by (auto simp: presenter_settle_def split: option.splits)
  have "completed (pn_sequence p) (w, s)"
    using wait by (auto simp: wait_for_latch_completion_def intro: completion_loop_completed)
  then show ?thesis
    using assms Some wait by (cases w) (auto simp: presenter_settle_def completed_def Let_def split: if_splits)
qed

text \<open>
  A frame is presented in a slot when the slot shows it and the core answered that it scans that slot
  out, with the sequence of the receipt and nothing pending.
\<close>

definition frame_presented :: "'p cached_presenter \<Rightarrow> present_receipt \<Rightarrow> 'p list \<Rightarrow> bool" where
  "frame_presented cp receipt frame \<longleftrightarrow>
     (\<exists>o1 st. o1 < 2 \<and> pp_slot_index receipt = Suc o1 \<and> slot_shows cp o1 frame \<and>
        core_reports (hp_fpga (cp_raw cp)) st \<and> ls_supported st \<and> \<not> ls_pending st \<and>
        ls_active_sequence st = pp_sequence receipt \<and> ls_active_base st = hp_bases (cp_raw cp) ! o1)"

lemma presenter_settle_returns:
  assumes "hp_settle_timeout hp \<le> clock n"
  shows "\<exists>r hp'. presenter_settle clock hp = Some (r, hp')"
proof (cases "hp_pending hp")
  case (Some p)
  from completion_loop_ends [of "hp_settle_timeout hp" clock n 0 "pn_sequence p" 0 "hp_fpga hp"] assms obtain r s where
    "wait_for_latch_completion clock (hp_settle_timeout hp) (pn_sequence p) (hp_fpga hp) = Some (r, s)"
    by (auto simp: wait_for_latch_completion_def)
  then show ?thesis
    using Some by (cases r) (simp_all add: presenter_settle_def Let_def)
qed (simp add: presenter_settle_def)

lemma settle_presented:
  fixes cp :: "'p cached_presenter"
  assumes inv: "presenter_inv cp frame" and healthy: "\<not> cp_poisoned cp"
    and settled: "presenter_settle clock (cp_raw cp) = Some (Inr (Some receipt), raw)"
  shows "\<exists>cp' f. settle_pending clock cp = Some (Inr (Some receipt), cp') \<and> presenter_inv cp' frame \<and>
    hp_settle_timeout (cp_raw cp') = hp_settle_timeout (cp_raw cp) \<and> frame = Some f \<and> frame_presented cp' receipt f"
proof -
  let ?o = "hp_writable_slot (cp_raw cp)"
  have shape: "presenter_shape cp" and link: "presenter_link cp" and agree: "slots_agree cp frame"
    and ledger: "ledger_ok (cp_ledger cp)" and o: "?o < 2"
    using inv unfolding presenter_inv_def presenter_shape_def slots_fit_def by blast+
  from presenter_settle_cases [OF settled] obtain p st where
    p: "hp_pending (cp_raw cp) = Some p" "pp_slot_index receipt = pn_slot_index p" "pp_sequence receipt = pn_sequence p"
    and st: "core_reports (hp_fpga raw) st" "ls_supported st" "\<not> ls_pending st" "ls_active_sequence st = pn_sequence p"
      "ls_active_base st = pn_base p"
    and raw: "hp_slots raw = hp_slots (cp_raw cp)" "hp_bases raw = hp_bases (cp_raw cp)" "hp_pending raw = None"
      "hp_settle_timeout raw = hp_settle_timeout (cp_raw cp)" "hp_writable_slot raw = 1 - ?o"
    by auto
  have prepared: "cp_prepared_slot cp = Some (Suc ?o)"
    and index: "pn_slot_index p = Suc ?o" and base: "pn_base p = hp_bases (cp_raw cp) ! ?o"
    using link p(1) by (auto simp: presenter_link_def)
  then obtain f where f: "frame = Some f" "slot_shows cp ?o f"
    using agree unfolding slots_agree_def by fastforce
  obtain g' where g': "ledger_presented (cp_ledger cp) (Suc ?o) = Some g'" "ledger_ok g'"
      "full_rect g' = full_rect (cp_ledger cp)"
    and other: "\<And>o2. o2 < 2 \<Longrightarrow> o2 \<noteq> ?o \<Longrightarrow> debts g' ! o2 = debts (cp_ledger cp) ! o2"
    using ledger_cleared [OF ledger o] by blast
  let ?cp = "cp\<lparr>cp_raw := raw, cp_ledger := g', cp_prepared_slot := None\<rparr>"
  have same: "slot_pixel ?cp = slot_pixel cp" "frame_pixel ?cp = frame_pixel cp"
    by (simp_all add: slot_pixel_def frame_pixel_def fun_eq_iff raw)
  have "debt_covers ?cp o1 x y \<or> slot_pixel cp o1 x y = frame_pixel cp f x y"
    if "o1 < 2" "x < cp_render_width cp" "y < vt_destination_height (cp_transform cp)" for o1 x y
  proof (cases "o1 = ?o")
    case True
    then show ?thesis
      using f(2) that(2,3) by (simp add: slot_shows_def)
  next
    case False
    then have "debt_covers ?cp o1 x y = debt_covers cp o1 x y"
      using other [OF that(1)] by (simp add: debt_covers_def)
    then show ?thesis
      using agree that f(1) unfolding slots_agree_def by auto
  qed
  then have "slots_agree ?cp frame"
    using f(1) by (simp add: slots_agree_def same)
  moreover have "presenter_shape ?cp"
    using shape g' raw o by (auto simp: presenter_shape_def slots_fit_def)
  moreover have "presenter_link ?cp"
    using raw by (simp add: presenter_link_def)
  moreover have "settle_pending clock cp = Some (Inr (Some receipt), ?cp)"
    using healthy settled prepared index p(2) g'(1) by (simp add: settle_pending_def ensure_healthy_def)
  moreover have "slot_shows ?cp ?o f"
    using f(2) by (simp add: slot_shows_def same)
  then have "frame_presented ?cp receipt f"
    using o p st raw index base unfolding frame_presented_def by auto
  ultimately show ?thesis
    using f(1) raw(4) unfolding presenter_inv_def by auto
qed

lemma settle_pending_inv:
  fixes cp :: "'p cached_presenter"
  assumes inv: "presenter_inv cp frame" and timeout: "hp_settle_timeout (cp_raw cp) \<le> clock n"
  shows "\<exists>r cp'. settle_pending clock cp = Some (r, cp') \<and> presenter_inv cp' frame \<and>
    hp_settle_timeout (cp_raw cp') = hp_settle_timeout (cp_raw cp) \<and>
    (\<forall>receipt. r = Inr (Some receipt) \<longrightarrow> (\<exists>f. frame = Some f \<and> frame_presented cp' receipt f))"
proof (cases "cp_poisoned cp")
  case True
  then show ?thesis
    using inv by (simp add: settle_pending_def ensure_healthy_def)
next
  case healthy: False
  have link: "presenter_link cp" and ledger: "ledger_ok (cp_ledger cp)" and o: "hp_writable_slot (cp_raw cp) < 2"
    using inv by (simp_all add: presenter_inv_def presenter_shape_def slots_fit_def)
  obtain r raw where settle: "presenter_settle clock (cp_raw cp) = Some (r, raw)"
    using presenter_settle_returns [of "cp_raw cp" clock n] timeout by blast
  note raw = presenter_settle_cases [OF settle]
  consider (failed) e where "r = Inl e" | (idle) "r = Inr None" | (presented) receipt where "r = Inr (Some receipt)"
    by (cases r) (auto split: option.splits)
  then show ?thesis
  proof cases
    case idle
    then have "settle_pending clock cp = Some (Inr None, cp)"
      using healthy settle raw by (simp add: settle_pending_def ensure_healthy_def)
    then show ?thesis
      using inv by simp
  next
    case presented
    then show ?thesis
      using settle_presented [OF inv healthy] settle by fastforce
  next
    case failed
    have same: "same_slots cp (cp\<lparr>cp_raw := raw, cp_ledger := g, cp_poisoned := True\<rparr>)" for g
      using raw failed by (simp add: same_slots_def)
    have link': "presenter_link (cp\<lparr>cp_raw := raw, cp_ledger := g, cp_poisoned := True\<rparr>)" for g
      using link raw failed by (simp add: presenter_link_def)
    show ?thesis
    proof (cases "cp_prepared_slot cp")
      case None
      have "presenter_inv (cp\<lparr>cp_raw := raw, cp_ledger := cp_ledger cp, cp_poisoned := True\<rparr>) frame"
        using ledger by (intro same_slots_inv [OF same inv link']) (simp_all add: debt_covers_def)
      then show ?thesis
        using healthy settle failed None raw by (simp add: settle_pending_def ensure_healthy_def)
    next
      case (Some k)
      then have k: "k = Suc (hp_writable_slot (cp_raw cp))"
        using link by (simp add: presenter_link_def)
      obtain g' where g': "ledger_attempt_failed (cp_ledger cp) k = Some g'" "ledger_ok g'"
          "full_rect g' = full_rect (cp_ledger cp)"
        and more: "\<And>o2 x y. o2 < 2 \<Longrightarrow> covers (debts (cp_ledger cp) ! o2) x y \<Longrightarrow> covers (debts g' ! o2) x y"
        using ledger_failed [OF ledger o] k by blast
      have "presenter_inv (cp\<lparr>cp_raw := raw, cp_ledger := g', cp_poisoned := True\<rparr>) frame"
        using g' more by (intro same_slots_inv [OF same inv link']) (simp_all add: debt_covers_def)
      then show ?thesis
        using healthy settle failed Some raw g'(1) by (simp add: settle_pending_def ensure_healthy_def)
    qed
  qed
qed

section \<open>Opening\<close>

lemma slot_open_shape:
  assumes "slot_open k index w h (rgb565_stride_bytes w) mapped = (Inr slot, mapped')"
    and "rgb565_stride_bytes w div 2 * h \<le> length (sk_memory k)"
  shows "hs_stride_pixels slot = rgb565_stride_bytes w div 2" "length (hs_pixels slot) = rgb565_stride_bytes w div 2 * h"
    and "sk_layout k = Some EXPECTED_LAYOUT"
    and "\<exists>n. validate_geometry_for_layout EXPECTED_LAYOUT w h (rgb565_stride_bytes w) = Inr n"
  using assms
  by (auto simp: slot_open_def read_layout_def open_with_layout_def validate_layout_def
      split: prod.splits sum.splits if_splits option.splits mmap_answer.splits)

lemma presenter_open_shape:
  assumes "presenter_open k1 k2 mapped bus clock w h geometry = Some (Inr hp, mapped')"
    and "rgb565_stride_bytes (unat w) div 2 * unat h \<le> length (sk_memory k1)"
    and "rgb565_stride_bytes (unat w) div 2 * unat h \<le> length (sk_memory k2)"
  shows "length (hp_slots hp) = 2 \<and> hp_writable_slot hp < 2 \<and> hp_pending hp = None \<and>
    hp_settle_timeout hp = DEFAULT_SETTLE_TIMEOUT \<and>
    (\<forall>slot \<in> set (hp_slots hp). hs_stride_pixels slot = rgb565_stride_bytes (unat w) div 2 \<and>
       length (hs_pixels slot) = rgb565_stride_bytes (unat w) div 2 * unat h)"
proof -
  obtain r1 m1 where open1: "slot_open k1 1 (unat w) (unat h) (rgb565_stride_bytes (unat w)) mapped = (r1, m1)"
    by (cases "slot_open k1 1 (unat w) (unat h) (rgb565_stride_bytes (unat w)) mapped")
  obtain r2 m2 where open2: "slot_open k2 2 (unat w) (unat h) (rgb565_stride_bytes (unat w)) m1 = (r2, m2)"
    by (cases "slot_open k2 2 (unat w) (unat h) (rgb565_stride_bytes (unat w)) m1")
  from assms(1) obtain slot1 slot2 where slots: "r1 = Inr slot1" "r2 = Inr slot2"
    unfolding presenter_open_def unfolding Let_def by (cases r1; cases r2) (simp_all add: open1 [simplified] open2)
  have "hp_slots hp = [slot1, slot2]" "hp_writable_slot hp < 2" "hp_pending hp = None"
    "hp_settle_timeout hp = DEFAULT_SETTLE_TIMEOUT"
    using assms(1) open1 open2 slots
    by (auto simp: presenter_open_def writable_slot_for_status_def Let_def
        split: sum.splits prod.splits if_splits option.splits)
  then show ?thesis
    using slot_open_shape(1,2) [OF open1 [unfolded slots(1)] assms(2)]
      slot_open_shape(1,2) [OF open2 [unfolded slots(2)] assms(3)] by simp
qed

text \<open>The kernel maps memory for the whole frame.\<close>

definition maps_frame :: "'p slot_kernel \<Rightarrow> display_plan \<Rightarrow> bool" where
  "maps_frame k plan \<longleftrightarrow> rgb565_stride_bytes (dp_fb_w plan) div 2 * dp_fb_h plan \<le> length (sk_memory k)"

lemma cached_open_inv:
  assumes opened: "cached_open k1 k2 mapped bus clock diagnostic plan = Some (Inr cp, mapped')"
    and plan: "plan_presentable plan" "maps_frame k1 plan" "maps_frame k2 plan"
  shows "presenter_inv cp None" "hp_settle_timeout (cp_raw cp) = DEFAULT_SETTLE_TIMEOUT"
proof -
  let ?w = "of_nat (dp_fb_w plan) :: u16" and ?h = "of_nat (dp_fb_h plan) :: u16"
  have fit: "dp_fb_w plan \<le> 1366" "dp_fb_h plan \<le> 768" "dp_render_w plan = dp_fb_w plan"
    using plan(1) by (auto simp: plan_presentable_def expected_fit)
  then have words: "unat ?w = dp_fb_w plan" "unat ?h = dp_fb_h plan"
    by (simp_all add: unat_of_nat_small)
  obtain t where t: "vertical_new (dp_render_w plan) (dp_render_h plan) (dp_fb_h plan) = Inr t" "transform_ok t"
    using plan(1) by (auto simp: plan_presentable_def)
  then have dims: "vt_width t = dp_fb_w plan" "vt_source_height t = dp_render_h plan"
    "vt_destination_height t = dp_fb_h plan" "dp_render_w plan * dp_render_h plan \<le> USIZE_MAX"
    using fit(3) by (auto simp: vertical_new_def new_with_sampling_def checked_mul_def split: if_splits option.splits)
  from opened t(1) fit obtain raw geometry where
    raw: "presenter_open k1 k2 mapped bus clock ?w ?h geometry = Some (Inr raw, mapped')"
    and cp: "cp = \<lparr>cp_raw = raw, cp_ledger = ledger_new (dp_render_w plan) (dp_render_h plan),
      cp_transform = t, cp_render_width = dp_render_w plan, cp_render_height = dp_render_h plan,
      cp_prepared_slot = None, cp_poisoned = False\<rparr>"
    by (auto simp: cached_open_def Let_def split: option.splits sum.splits prod.splits if_splits)
  note shape = presenter_open_shape [OF raw, unfolded words, OF plan(2,3) [unfolded maps_frame_def]]
  then show "hp_settle_timeout (cp_raw cp) = DEFAULT_SETTLE_TIMEOUT"
    by (simp add: cp)
  have stride: "dp_fb_w plan \<le> rgb565_stride_bytes (dp_fb_w plan) div 2"
    using stride_bounds(1) [of "dp_fb_w plan"] by linarith
  have "rgb565_stride_bytes (dp_fb_w plan) div 2 \<le> 1376"
    using stride_bounds(2) [of "dp_fb_w plan"] fit(1) by linarith
  then have "rgb565_stride_bytes (dp_fb_w plan) div 2 * dp_fb_h plan \<le> 1376 * 768"
    using fit(2) by (rule mult_le_mono)
  then have "slots_fit t raw"
    using shape stride dims by (auto simp: slots_fit_def USIZE_MAX_def)
  moreover have new: "ledger_ok (ledger_new (dp_render_w plan) (dp_render_h plan))"
    using owes_stale_new by (simp add: owes_stale_def)
  ultimately have "presenter_shape cp"
    using t(2) dims fit(3) by (simp add: presenter_shape_def cp ledger_new_def Let_def)
  moreover have "debt_covers cp o1 x y"
    if "o1 < 2" "x < cp_render_width cp" "y < vt_destination_height (cp_transform cp)" for o1 x y
    using that sampled_row_less [OF t(2), of y] dims
    by (auto simp: debt_covers_def cp ledger_new_def Let_def in_rect_def less_2_cases_iff)
  then have "slots_agree cp None"
    by (simp add: slots_agree_def) (simp add: cp)
  ultimately show "presenter_inv cp None"
    using shape by (simp add: presenter_inv_def presenter_link_def cp)
qed

section \<open>Runs of the presenter\<close>

datatype 'p presenter_op =
    Prepare "'p list" rect_list
  | Post u64 u64 "nat option"
  | Settle "nat \<Rightarrow> nat"
  | Present u64 u64 "nat option" "nat \<Rightarrow> nat" "'p list" rect_list

fun presenter_op_on :: "'p cached_presenter \<Rightarrow> 'p presenter_op \<Rightarrow> 'p cached_presenter option" where
  "presenter_op_on cp (Prepare source damage) = map_option snd (prepare_cached source damage cp)"
| "presenter_op_on cp (Post locked_us post_us injected) = map_option snd (post_prepared locked_us post_us injected cp)"
| "presenter_op_on cp (Settle clock) = map_option snd (settle_pending clock cp)"
| "presenter_op_on cp (Present locked_us post_us injected clock source damage) =
     map_option snd (present_cached locked_us post_us injected clock source damage cp)"

text \<open>The frame that was last taken in.\<close>

fun frame_after :: "'p cached_presenter \<Rightarrow> 'p presenter_op \<Rightarrow> 'p list option \<Rightarrow> 'p list option" where
  "frame_after cp (Prepare source _) frame = (if takes_frame source cp then Some source else frame)"
| "frame_after cp (Present _ _ _ _ source _) frame = (if takes_frame source cp then Some source else frame)"
| "frame_after cp _ frame = frame"

text \<open>
  The callers' part: the damage of a frame covers every pixel in which it differs from the frame taken in
  before it, and time passes while they wait.
\<close>

fun presenter_op_ok :: "'p cached_presenter \<Rightarrow> 'p list option \<Rightarrow> 'p presenter_op \<Rightarrow> bool" where
  "presenter_op_ok cp frame (Prepare source damage) \<longleftrightarrow> damage_tells cp frame source damage"
| "presenter_op_ok cp frame (Post _ _ _) \<longleftrightarrow> True"
| "presenter_op_ok cp frame (Settle clock) \<longleftrightarrow> (\<exists>n. DEFAULT_SETTLE_TIMEOUT \<le> clock n)"
| "presenter_op_ok cp frame (Present _ _ _ clock source damage) \<longleftrightarrow>
     damage_tells cp frame source damage \<and> (\<exists>n. DEFAULT_SETTLE_TIMEOUT \<le> clock n)"

text \<open>A panic or an endless wait stops the run.\<close>

definition presenter_step ::
  "('p cached_presenter \<times> 'p list option) option \<Rightarrow> 'p presenter_op \<Rightarrow> ('p cached_presenter \<times> 'p list option) option" where
  "presenter_step s op1 =
     Option.bind s (\<lambda>(cp, frame). map_option (\<lambda>cp'. (cp', frame_after cp op1 frame)) (presenter_op_on cp op1))"

definition presenter_step_ok :: "('p cached_presenter \<times> 'p list option) option \<Rightarrow> 'p presenter_op \<Rightarrow> bool" where
  "presenter_step_ok s op1 = (case s of None \<Rightarrow> False | Some (cp, frame) \<Rightarrow> presenter_op_ok cp frame op1)"

definition running_inv :: "('p cached_presenter \<times> 'p list option) option \<Rightarrow> bool" where
  "running_inv s \<longleftrightarrow> (\<exists>cp frame. s = Some (cp, frame) \<and> presenter_inv cp frame \<and>
     hp_settle_timeout (cp_raw cp) = DEFAULT_SETTLE_TIMEOUT)"

lemma present_cached_inv:
  assumes inv: "presenter_inv cp frame" and timeout: "hp_settle_timeout (cp_raw cp) \<le> clock n"
    and owed: "damage_tells cp frame source damage"
  shows "\<exists>r cp'. present_cached locked_us post_us injected clock source damage cp = Some (r, cp') \<and>
    presenter_inv cp' (if takes_frame source cp then Some source else frame) \<and>
    hp_settle_timeout (cp_raw cp') = hp_settle_timeout (cp_raw cp) \<and>
    (\<forall>copy receipt. r = Inr (copy, receipt) \<longrightarrow> frame_presented cp' receipt source)"
proof (cases "takes_frame source cp")
  case False
  then show ?thesis
    using prepare_refused [OF False, of damage] inv by (auto simp: present_cached_def)
next
  case True
  from prepare_inv [OF inv True owed] obtain copy cp1 where
    prepare: "prepare_cached source damage cp = Some (Inr copy, cp1)" and inv1: "presenter_inv cp1 (Some source)"
    and timeout1: "hp_settle_timeout (cp_raw cp1) = hp_settle_timeout (cp_raw cp)"
    by blast
  from post_prepared_inv [OF inv1, of locked_us post_us injected] obtain r2 cp2 where
    post: "post_prepared locked_us post_us injected cp1 = Some (r2, cp2)" and inv2: "presenter_inv cp2 (Some source)"
    and timeout2: "hp_settle_timeout (cp_raw cp2) = hp_settle_timeout (cp_raw cp)"
    using timeout1 by auto
  show ?thesis
  proof (cases r2)
    case (Inl e)
    then show ?thesis
      using True prepare post inv2 timeout2 by (simp add: present_cached_def)
  next
    case (Inr posted)
    from settle_pending_inv [of cp2 "Some source" clock n] inv2 timeout timeout2 obtain r3 cp3 where
      settle: "settle_pending clock cp2 = Some (r3, cp3)" and inv3: "presenter_inv cp3 (Some source)"
      and timeout3: "hp_settle_timeout (cp_raw cp3) = hp_settle_timeout (cp_raw cp)"
      and presented: "\<forall>receipt. r3 = Inr (Some receipt) \<longrightarrow> frame_presented cp3 receipt source"
      by auto
    show ?thesis
      using True prepare post Inr settle inv3 timeout3 presented
      by (cases r3) (auto simp: present_cached_def split: option.split)
  qed
qed

lemma presenter_op_inv:
  assumes inv: "presenter_inv cp frame" and timeout: "hp_settle_timeout (cp_raw cp) = DEFAULT_SETTLE_TIMEOUT"
    and ok: "presenter_op_ok cp frame op1"
  shows "\<exists>cp'. presenter_op_on cp op1 = Some cp' \<and> presenter_inv cp' (frame_after cp op1 frame) \<and>
    hp_settle_timeout (cp_raw cp') = DEFAULT_SETTLE_TIMEOUT"
proof (cases op1)
  case (Prepare source damage)
  then show ?thesis
    using prepare_inv [OF inv, of source damage] prepare_refused [of source cp damage] inv timeout ok
    by (cases "takes_frame source cp") auto
next
  case (Post locked_us post_us injected)
  then show ?thesis
    using post_prepared_inv [OF inv, of locked_us post_us injected] timeout by auto
next
  case (Settle clock)
  then obtain n where "hp_settle_timeout (cp_raw cp) \<le> clock n"
    using ok timeout by auto
  then show ?thesis
    using Settle settle_pending_inv [of cp frame clock n] inv timeout by auto
next
  case (Present locked_us post_us injected clock source damage)
  then obtain n where "hp_settle_timeout (cp_raw cp) \<le> clock n"
    using ok timeout by auto
  then show ?thesis
    using Present present_cached_inv [of cp frame clock n source damage locked_us post_us injected] inv timeout ok by auto
qed

interpretation presenter_machine: machine presenter_step presenter_step_ok running_inv
proof unfold_locales
  fix s :: "('p cached_presenter \<times> 'p list option) option" and op1
  assume "running_inv s" "presenter_step_ok s op1"
  then show "running_inv (presenter_step s op1)"
    using presenter_op_inv by (fastforce simp: running_inv_def presenter_step_ok_def presenter_step_def)
qed

section \<open>A core that answers\<close>

text \<open>A bus whose lock can always be had.\<close>

definition open_bus :: "fpga \<Rightarrow> bool" where
  "open_bus s \<longleftrightarrow> fg_uio_lock s \<and> (\<forall>n. fg_flock s n)"

lemma open_bus_wiring: "same_wiring s s' \<Longrightarrow> open_bus s' = open_bus s"
  by (simp add: open_bus_def same_wiring_def)

lemma guarded_answered:
  assumes "open_bus s" "answers s rs"
    and "\<And>s1. open_bus s1 \<Longrightarrow> answers s1 rs \<Longrightarrow> fg_latch_capabilities s1 = fg_latch_capabilities s \<Longrightarrow>
      \<exists>s2. body s1 = (Inr a, s2) \<and> open_bus s2 \<and> answers s2 rest \<and> fg_latch_capabilities s2 = c"
  shows "\<exists>s2. guarded f body s = (Inr a, s2) \<and> open_bus s2 \<and> answers s2 rest \<and> fg_latch_capabilities s2 = c"
proof -
  define s1 where "s1 = (if fg_lock_depth s = 0
      then s\<lparr>fg_lock_depth := sat_add (fg_lock_depth s) 1, fg_flocks := Suc (fg_flocks s), fg_log := fg_log s @ [BusLocked]\<rparr>
      else s\<lparr>fg_lock_depth := sat_add (fg_lock_depth s) 1\<rparr>)"
  have "lock_uio_transaction s = (Inr True, s1)"
    using assms(1) by (auto simp: lock_uio_transaction_def s1_def open_bus_def)
  moreover have "open_bus s1" "answers s1 rs" "fg_latch_capabilities s1 = fg_latch_capabilities s"
    using assms(1,2) by (simp_all add: s1_def answers_def open_bus_def)
  then obtain s2 where "body s1 = (Inr a, s2)" "open_bus s2" "answers s2 rest" "fg_latch_capabilities s2 = c"
    using assms(3) by blast
  moreover from this have "open_bus (drop_guard True s2)" "answers (drop_guard True s2) rest"
    "fg_latch_capabilities (drop_guard True s2) = c"
    by (simp_all add: drop_guard_def answers_def open_bus_def Let_def)
  ultimately show ?thesis
    by (simp add: guarded_def io_then_def io_map_err_def io_finally_def)
qed

lemma answered_capabilities:
  assumes "open_bus s" "answers s ((hi, lo) # (version_hi, version) # rs @ rest)"
    and "hi = CAPS_MAGIC \<or> lo = CAPS_MAGIC" "try_from_version version = Inr protocol"
    and "length rs = caps_word_count protocol - 1" "decode_capabilities (version # map snd rs) = Inr caps" "production_ready caps"
  shows "\<exists>s'. read_capabilities s = (Inr (hi, lo, caps), s') \<and> open_bus s' \<and> answers s' rest \<and>
    fg_latch_capabilities s' = Some caps"
  unfolding read_capabilities_def
proof (rule guarded_answered [OF assms(1,2)])
  fix s1 :: fpga
  assume s1: "open_bus s1" "answers s1 ((hi, lo) # (version_hi, version) # rs @ rest)"
  let ?s = "enable_io (s1\<lparr>fg_latch_capabilities := None\<rparr>)"
  have "answers ?s ((hi, lo) # (version_hi, version) # rs @ rest)"
    using s1(2) by (simp add: answers_def enable_io_def spi_en_def Let_def)
  then obtain s2 where s2: "spi_capture_observed GET_FBUF_LATCH_CAPS ?s = (Inr \<lparr>sc_ack_high = hi, sc_ack_low = lo\<rparr>, s2)"
    "answers s2 ((version_hi, version) # rs @ rest)" "same_wiring ?s s2"
    using answered_spi by (metis fst_conv snd_conv)
  from s2(2) obtain s3 where s3: "spi_capture_observed 0 s2 = (Inr \<lparr>sc_ack_high = version_hi, sc_ack_low = version\<rparr>, s3)"
    "answers s3 (rs @ rest)" "same_wiring s2 s3"
    using answered_spi by (metis fst_conv snd_conv)
  obtain s4 where s4: "read_words (length rs) s3 = (Inr (map snd rs), s4)" "answers s4 rest" "same_wiring s3 s4"
    using answered_read_words [OF s3(2)] by blast
  have "open_bus ?s"
    using s1(1) by (simp add: open_bus_def enable_io_def spi_en_def Let_def wr_def)
  then have open4: "open_bus (disable_io s4)"
    using s2(3) s3(3) s4(3) answers_disable(2) [of s4] by (metis open_bus_wiring)
  have "read_capabilities_once (s1\<lparr>fg_latch_capabilities := None\<rparr>) = (Inr (hi, lo, caps), disable_io s4)"
    using s2(1) s3(1) s4(1) assms(4-6)
    by (simp add: read_capabilities_once_def io_finally_def io_then_def io_map_err_def cmd_capture_def
        spi_capture_def io_return_def)
  then show "\<exists>s2. (case read_capabilities_retrying (s1\<lparr>fg_latch_capabilities := None\<rparr>) of
         (Inr (magic_hi, magic_lo, caps), s) \<Rightarrow>
           (Inr (magic_hi, magic_lo, caps),
            if (magic_hi = CAPS_MAGIC \<or> magic_lo = CAPS_MAGIC) \<and> production_ready caps
            then s\<lparr>fg_latch_capabilities := Some caps\<rparr> else s)
       | (Inl e, s) \<Rightarrow> (Inl e, s)) = (Inr (hi, lo, caps), s2) \<and> open_bus s2 \<and> answers s2 rest \<and>
      fg_latch_capabilities s2 = Some caps"
    using assms(3,7) open4 s4(2) by (auto simp: read_capabilities_retrying_def open_bus_def answers_def disable_io_def spi_en_def Let_def)
qed

lemma slot_opens:
  assumes "sk_device k" "sk_layout k = Some EXPECTED_LAYOUT" "sk_mmap k = MapAt"
    and "validate_geometry_for_layout EXPECTED_LAYOUT w h (rgb565_stride_bytes w) = Inr n"
    and "mapped AND push_bit (index - 1) 1 = 0"
  shows "\<exists>slot. slot_open k index w h (rgb565_stride_bytes w) mapped = (Inr slot, mapped OR push_bit (index - 1) 1)"
  using assms
  by (simp add: slot_open_def lease_acquire_def read_layout_def validate_layout_def open_with_layout_def Let_def)

text \<open>Both slots can be mapped, and the core answers that it is capable and that nothing is pending.\<close>

lemma presenter_opens:
  assumes kernels: "\<And>k. k \<in> {k1, k2} \<Longrightarrow> sk_device k \<and> sk_layout k = Some EXPECTED_LAYOUT \<and> sk_mmap k = MapAt"
    and size: "0 < unat w" "0 < unat h" "unat w \<le> 1366" "unat h \<le> 768"
    and bus: "open_bus s" "answers s ((hi, lo) # (version_hi, version) # rs @ command # ss)"
    and caps: "hi = CAPS_MAGIC \<or> lo = CAPS_MAGIC" "try_from_version version = Inr protocol"
      "length rs = caps_word_count protocol - 1" "decode_capabilities (version # map snd rs) = Inr caps" "production_ready caps"
    and status: "length ss = V5_STATUS_WORDS" "decode_status (lcp_protocol caps) (map snd ss) = Inr st"
      "ls_supported (latched_status_of \<lparr>sc_ack_high = fst command, sc_ack_low = snd command\<rparr> st)"
      "\<not> ls_pending (latched_status_of \<lparr>sc_ack_high = fst command, sc_ack_low = snd command\<rparr> st)"
  shows "\<exists>hp mapped'. presenter_open k1 k2 0 (Inr s) clock w h geometry = Some (Inr hp, mapped')"
proof -
  let ?stride = "rgb565_stride_bytes (unat w)"
  obtain n where n: "validate_geometry_for_layout EXPECTED_LAYOUT (unat w) (unat h) ?stride = Inr n"
    using expected_fit size by blast
  have k1: "sk_device k1" "sk_layout k1 = Some EXPECTED_LAYOUT" "sk_mmap k1 = MapAt"
    and k2: "sk_device k2" "sk_layout k2 = Some EXPECTED_LAYOUT" "sk_mmap k2 = MapAt"
    using kernels by blast+
  have leases: "(0 :: u8) AND push_bit (1 - 1) 1 = 0" "(0 :: u8) OR push_bit (1 - 1) 1 = 1"
    "(1 :: u8) AND push_bit (2 - 1) 1 = 0" "(1 :: u8) OR push_bit (2 - 1) 1 = 3"
    by code_simp+
  obtain slot1 where slot1: "slot_open k1 1 (unat w) (unat h) ?stride 0 = (Inr slot1, 1)"
    using slot_opens [OF k1 n, of 0 1] unfolding leases by blast
  obtain slot2 where slot2: "slot_open k2 2 (unat w) (unat h) ?stride 1 = (Inr slot2, 3)"
    using slot_opens [OF k2 n, of 1 2] unfolding leases by blast
  obtain s1 where s1: "read_capabilities s = (Inr (hi, lo, caps), s1)" "open_bus s1" "answers s1 (command # ss)"
    "fg_latch_capabilities s1 = Some caps"
    using answered_capabilities [OF bus caps] by blast
  obtain sample where sample: "fst (read_status_sample s1) = Inr sample"
    "ss_status sample = latched_status_of \<lparr>sc_ack_high = fst command, sc_ack_low = snd command\<rparr> st"
    using answered_status_sample [OF s1(4) _ _ s1(3) status(1,2)] s1(2) by (auto simp: open_bus_def)
  then obtain s2 where "read_status_sample s1 = (Inr sample, s2)"
    by (cases "read_status_sample s1") auto
  then have wait: "wait_for_settled_status clock DEFAULT_SETTLE_TIMEOUT s1 = Some (Inr (ss_status sample), s2)"
    unfolding wait_for_settled_status_def using status(3,4) sample(2) by (subst settled_loop.simps) (simp add: Let_def)
  obtain writable where writable:
    "writable_slot_for_status [sl_physical_address (hs_slot slot1), sl_physical_address (hs_slot slot2)] (ss_status sample) = Inr writable"
    using status(4) sample(2) by (simp add: writable_slot_for_status_def)
  have limits: "lcp_max_width caps = 1366" "lcp_max_height caps = 768" "lcp_max_stride_bytes caps = 2736"
    using caps(5) by (simp_all add: production_ready_def MAX_WIDTH_def MAX_HEIGHT_def MAX_STRIDE_BYTES_def)
  have stride: "?stride \<le> 2736"
    using size(3) unfolding rgb565_stride_bytes_def align16_def by presburger
  have magic: "(hi \<noteq> CAPS_MAGIC \<and> lo \<noteq> CAPS_MAGIC \<or> \<not> production_ready caps) = False"
    using caps(1,5) by blast
  have fits: "(lcp_max_width caps < w \<or> lcp_max_height caps < h \<or> unat (lcp_max_stride_bytes caps) < ?stride) = False"
    using limits stride size(3,4) by (simp add: word_less_nat_alt)
  show ?thesis
    by (simp only: presenter_open_def Let_def slot1 slot2 s1(1) prod.case sum.case magic fits if_False wait option.case writable)
      blast
qed

section \<open>Properties\<close>

text \<open>
  C2: A presented frame is on the screen. Open a presenter for any plan the scanout accepts, and let its
  callers prepare frames, post, wait and present in any order, with failures of the bus, of the core and
  of the confirmations at any point. As long as the damage they hand in covers what changed since the
  frame that was last taken in, and time passes while they wait, no call panics or waits for ever; and
  whenever a wait or \<open>present_cached\<close> returns a receipt, the slot it names shows the last frame in full,
  scaled to the slot's height, and the core has answered, in the last status that was read, that it scans
  this very slot out with the sequence of the receipt and with nothing pending.
\<close>

theorem presented_slot_shows_the_frame:
  fixes ops :: "'p presenter_op list"
  assumes "cached_open k1 k2 mapped bus clock0 diagnostic plan = Some (Inr cp0, mapped')"
    and "plan_presentable plan" "maps_frame k1 plan" "maps_frame k2 plan"
    and "run_allowed presenter_step presenter_step_ok (Some (cp0, None)) ops"
  shows "\<exists>cp frame. run_steps presenter_step (Some (cp0, None)) ops = Some (cp, frame) \<and>
    (\<forall>clock n receipt cp'. DEFAULT_SETTLE_TIMEOUT \<le> clock n \<longrightarrow>
       settle_pending clock cp = Some (Inr (Some receipt), cp') \<longrightarrow> (\<exists>f. frame = Some f \<and> frame_presented cp' receipt f)) \<and>
    (\<forall>locked_us post_us injected clock n source damage copy receipt cp'.
       DEFAULT_SETTLE_TIMEOUT \<le> clock n \<longrightarrow> damage_tells cp frame source damage \<longrightarrow>
       present_cached locked_us post_us injected clock source damage cp = Some (Inr (copy, receipt), cp') \<longrightarrow>
       frame_presented cp' receipt source)"
proof -
  have "running_inv (Some (cp0, None))"
    using cached_open_inv [OF assms(1-4)] by (simp add: running_inv_def)
  then have "running_inv (run_steps presenter_step (Some (cp0, None)) ops)"
    using assms(5) by (rule presenter_machine.run_inv)
  then obtain cp frame where run: "run_steps presenter_step (Some (cp0, None)) ops = Some (cp, frame)"
    and inv: "presenter_inv cp frame" "hp_settle_timeout (cp_raw cp) = DEFAULT_SETTLE_TIMEOUT"
    by (auto simp: running_inv_def)
  have "\<exists>f. frame = Some f \<and> frame_presented cp' receipt f"
    if "DEFAULT_SETTLE_TIMEOUT \<le> clock n" "settle_pending clock cp = Some (Inr (Some receipt), cp')" for clock n receipt cp'
    using settle_pending_inv [OF inv(1), of clock n] that inv(2) by auto
  moreover have "frame_presented cp' receipt source"
    if "DEFAULT_SETTLE_TIMEOUT \<le> clock n" "damage_tells cp frame source damage"
      "present_cached locked_us post_us injected clock source damage cp = Some (Inr (copy, receipt), cp')"
    for locked_us post_us injected clock n source damage copy receipt cp'
    using present_cached_inv [OF inv(1), of clock n source damage locked_us post_us injected] that inv(2) by auto
  ultimately show ?thesis
    using run by blast
qed

text \<open>
  C17: The waits end. Once the clock has reached the timeout at some poll, the wait for a posted frame and
  the wait for a settled core have returned, whatever the core answered before; and a completed wait has
  polled at most once more than that.
\<close>

theorem waits_end_at_the_timeout:
  assumes "timeout \<le> clock n"
  shows "(\<exists>r s'. wait_for_latch_completion clock timeout sequence s = Some (r, s') \<and>
      (\<forall>c. r = Inr c \<longrightarrow> unat (lc_poll_count c) \<le> n + 1)) \<and>
    (\<exists>r s'. wait_for_settled_status clock timeout s = Some (r, s'))"
  using completion_loop_ends [of timeout clock n 0 sequence 0 s, OF assms]
    settled_loop_ends [of timeout clock n 0 s, OF assms]
  by (simp add: wait_for_latch_completion_def wait_for_settled_status_def)


section \<open>Examples\<close>

definition idle_status_words :: "u16 list" where
  "idle_status_words = (let payload = [0x002a, 0x002a, 0x0009, 0x0003, 0x0004, 0x9000, 0x227e, 0x03c0, 0x021c,
     0x0780, 0x0007, 0x0009, 0x0064, 0x0064, 0x0064]
     in payload @ [message_crc GET_FBUF_LATCH V5 payload])"

definition sample_bus :: fpga where
  "sample_bus = fpga_open (prompt_gpi ((CAPS_MAGIC, 0) # (0, 5) # map (Pair 0) (tl GOLDEN_CAPS_V5_PAYLOAD @ [GOLDEN_CAPS_V5_CRC]) @
     (STATUS_MAGIC, 0) # map (Pair 0) idle_status_words)) (\<lambda>_. True)"

lemma sample_bus_answers:
  "open_bus sample_bus"
  "answers sample_bus ((CAPS_MAGIC, 0) # (0, 5) # map (Pair 0) (tl GOLDEN_CAPS_V5_PAYLOAD @ [GOLDEN_CAPS_V5_CRC]) @
     (STATUS_MAGIC, 0) # map (Pair 0) idle_status_words)"
  by (simp_all add: open_bus_def answers_def sample_bus_def fpga_open_def prompt_gpi_def)

lemma idle_status_decodes:
  obtains st where "decode_status V5 idle_status_words = Inr st"
    "ls_supported (latched_status_of \<lparr>sc_ack_high = STATUS_MAGIC, sc_ack_low = 0\<rparr> st)"
    "\<not> ls_pending (latched_status_of \<lparr>sc_ack_high = STATUS_MAGIC, sc_ack_low = 0\<rparr> st)"
proof -
  have "case decode_status V5 idle_status_words of Inl _ \<Rightarrow> False
    | Inr st \<Rightarrow> ls_supported (latched_status_of \<lparr>sc_ack_high = STATUS_MAGIC, sc_ack_low = 0\<rparr> st) \<and>
        \<not> ls_pending (latched_status_of \<lparr>sc_ack_high = STATUS_MAGIC, sc_ack_low = 0\<rparr> st)"
    by code_simp
  then show thesis
    using that by (auto split: sum.splits)
qed

lemma sample_caps_decode:
  obtains caps where "decode_capabilities (5 # tl GOLDEN_CAPS_V5_PAYLOAD @ [GOLDEN_CAPS_V5_CRC]) = Inr caps"
    "production_ready caps" "lcp_protocol caps = V5"
proof -
  have "case decode_capabilities (5 # tl GOLDEN_CAPS_V5_PAYLOAD @ [GOLDEN_CAPS_V5_CRC]) of Inl _ \<Rightarrow> False
    | Inr caps \<Rightarrow> production_ready caps \<and> (case lcp_protocol caps of V5 \<Rightarrow> True)"
    by code_simp
  then show thesis
    using that by (auto split: sum.splits latch_protocol.splits)
qed

definition sample_kernel :: "u8 slot_kernel" where
  "sample_kernel = \<lparr>sk_device = True, sk_layout = Some EXPECTED_LAYOUT, sk_mmap = MapAt,
     sk_memory = replicate (rgb565_stride_bytes 640 div 2 * 240) 0\<rparr>"

definition sample_plan :: display_plan where
  "sample_plan = plan_with_crt240 (geometry_new 640 480) Crt240p60 AutoSize Native240"

lemma sample_plan_fields:
  "dp_fb_w sample_plan = 640" "dp_fb_h sample_plan = 240" "dp_render_w sample_plan = 640" "dp_render_h sample_plan = 240"
  by (simp_all add: sample_plan_def plan_with_crt240_def framebuffer_geometry_def composition_geometry_with_crt240_def)

lemma sample_plan_presentable: "plan_presentable sample_plan" "maps_frame sample_kernel sample_plan"
proof -
  show "plan_presentable sample_plan"
    unfolding sample_plan_def by (rule crt_plan_presentable) (simp add: route_is_crt_def)
  show "maps_frame sample_kernel sample_plan"
    unfolding maps_frame_def sample_plan_fields by (simp add: sample_kernel_def)
qed

lemma sample_opens:
  obtains cp mapped' where
    "cached_open sample_kernel sample_kernel 0 (Inr sample_bus) (\<lambda>_. 0) None sample_plan = Some (Inr cp, mapped')"
proof -
  obtain caps where caps: "decode_capabilities (5 # tl GOLDEN_CAPS_V5_PAYLOAD @ [GOLDEN_CAPS_V5_CRC]) = Inr caps"
    "production_ready caps" "lcp_protocol caps = V5"
    by (rule sample_caps_decode)
  obtain st where st: "decode_status V5 idle_status_words = Inr st"
    "ls_supported (latched_status_of \<lparr>sc_ack_high = STATUS_MAGIC, sc_ack_low = 0\<rparr> st)"
    "\<not> ls_pending (latched_status_of \<lparr>sc_ack_high = STATUS_MAGIC, sc_ack_low = 0\<rparr> st)"
    by (rule idle_status_decodes)
  have second: "map (snd \<circ> Pair (0 :: u16)) ws = (ws :: u16 list)" for ws
    by (simp add: comp_def)
  have lengths: "length idle_status_words = V5_STATUS_WORDS"
    "length (tl GOLDEN_CAPS_V5_PAYLOAD @ [GOLDEN_CAPS_V5_CRC]) = caps_word_count V5 - 1"
    by code_simp+
  have words: "unat (640 :: u16) = 640" "unat (240 :: u16) = 240"
    by simp_all
  have kernel: "sk_device sample_kernel \<and> sk_layout sample_kernel = Some EXPECTED_LAYOUT \<and> sk_mmap sample_kernel = MapAt"
    by (simp add: sample_kernel_def)
  have "\<exists>hp mapped'. presenter_open sample_kernel sample_kernel 0 (Inr sample_bus) (\<lambda>_. 0) 640 240 geometry =
      Some (Inr hp, mapped')" for geometry
    by (rule presenter_opens [OF _ _ _ _ _ sample_bus_answers _ _ _ _ caps(2), where protocol = V5 and st = st])
      (use kernel lengths caps st in \<open>simp_all add: second try_from_version_def PROTOCOL_V5_def del: length_map\<close>, simp_all add: second)
  then obtain hp mapped' where open_slots: "\<And>geometry. presenter_open sample_kernel sample_kernel 0 (Inr sample_bus) (\<lambda>_. 0) 640 240 geometry =
      Some (Inr (hp geometry), mapped' geometry)"
    by metis
  obtain t where "vertical_new 640 240 240 = Inr t"
    by (simp add: vertical_new_def new_with_sampling_def checked_mul_def USIZE_MAX_def)
  then have "\<exists>cp mapped'. cached_open sample_kernel sample_kernel 0 (Inr sample_bus) (\<lambda>_. 0) None sample_plan = Some (Inr cp, mapped')"
    by (simp add: cached_open_def sample_plan_fields Let_def open_slots)
  then show thesis
    using that by blast
qed

theorem presented_slot_shows_the_frame_witness:
  "\<exists>cp0 mapped' cp frame. cached_open sample_kernel sample_kernel 0 (Inr sample_bus) (\<lambda>_. 0) None sample_plan = Some (Inr cp0, mapped') \<and>
     run_steps presenter_step (Some (cp0, None)) [Prepare (replicate (640 * 240) 7) rl_new] = Some (cp, frame)"
proof -
  obtain cp0 mapped' where cp0: "cached_open sample_kernel sample_kernel 0 (Inr sample_bus) (\<lambda>_. 0) None sample_plan = Some (Inr cp0, mapped')"
    by (rule sample_opens)
  have "run_allowed presenter_step presenter_step_ok (Some (cp0, None)) [Prepare (replicate (640 * 240) 7) rl_new]"
    by (simp add: presenter_step_ok_def damage_tells_def)
  from presented_slot_shows_the_frame [OF cp0 sample_plan_presentable sample_plan_presentable(2) this]
  obtain cp frame where "run_steps presenter_step (Some (cp0, None)) [Prepare (replicate (640 * 240) 7) rl_new] = Some (cp, frame)"
    by (elim exE conjE)
  with cp0 show ?thesis
    by (intro exI conjI)
qed

theorem waits_end_at_the_timeout_witness:
  "(\<exists>r s'. wait_for_settled_status (\<lambda>n. n * 1000) DEFAULT_SETTLE_TIMEOUT sample_bus = Some (r, s'))"
  using waits_end_at_the_timeout [of DEFAULT_SETTLE_TIMEOUT "\<lambda>n. n * 1000" 50 1 sample_bus]
  by (simp add: DEFAULT_SETTLE_TIMEOUT_def)

text \<open>A presenter with a prepared frame whose bus cannot be locked.\<close>

definition locked_out :: "u8 cached_presenter" where
  "locked_out =
     \<lparr>cp_raw = \<lparr>hp_fpga = fpga_open (\<lambda>_. 0) (\<lambda>_. False), hp_slots = [], hp_bases = [1, 2], hp_writable_slot = 0,
        hp_sequence = 1, hp_width = 640, hp_height = 240,
        hp_geometry = \<lparr>gm_xoff = 0, gm_right = 639, gm_yoff = 0, gm_bottom = 239, gm_stride_bytes = 1280\<rparr>,
        hp_settle_timeout = DEFAULT_SETTLE_TIMEOUT, hp_pending = None, hp_pipeline_stats = no_stats\<rparr>,
      cp_ledger = ledger_new 640 240,
      cp_transform = \<lparr>vt_width = 640, vt_source_height = 240, vt_destination_height = 240, vt_sampling = CenteredNearest\<rparr>,
      cp_render_width = 640, cp_render_height = 240, cp_prepared_slot = Some 1, cp_poisoned = False\<rparr>"


end
