(* ===== verification/Wire_Bytes.thy ===== *)
theory Wire_Bytes
  imports Prelude
begin

text \<open>
  Little-endian integers in byte strings: \<open>to_le_bytes\<close> and \<open>from_le_bytes\<close> of the unsigned integers,
  and buffers that are filled field by field.
\<close>

section \<open>Little-endian integers\<close>

definition to_le :: "nat \<Rightarrow> 'a::len word \<Rightarrow> u8 list" where
  "to_le n v = map (\<lambda>i. ucast (drop_bit (8 * i) v)) [0..<n]"

fun from_le :: "u8 list \<Rightarrow> 'a::len word" where
  "from_le [] = 0"
| "from_le (b # bs) = ucast b OR push_bit 8 (from_le bs)"

lemma length_to_le [simp]: "length (to_le n v) = n"
  by (simp add: to_le_def)

lemma bit_from_le:
  "bit (from_le bs :: 'a::len word) i \<longleftrightarrow> i < LENGTH('a) \<and> i div 8 < length bs \<and> bit (bs ! (i div 8)) (i mod 8)"
proof (induction bs arbitrary: i)
  case (Cons b bs)
  show ?case
  proof (cases "i < 8")
    case True
    then show ?thesis
      by (auto simp: bit_simps)
  next
    case False
    then obtain j where "i = 8 + j"
      using le_Suc_ex by (metis not_less)
    then show ?thesis
      using Cons.IH [of j] bit_imp_le_length [of b "8 + j"] by (auto simp: bit_simps)
  qed
qed simp

lemma bit_to_le:
  "i < n \<Longrightarrow> bit (to_le n v ! i) j \<longleftrightarrow> j < 8 \<and> bit v (8 * i + j)"
  by (auto simp: to_le_def bit_simps)

lemma from_le_to_le [simp]:
  fixes v :: "'a::len word"
  assumes "LENGTH('a) = 8 * n"
  shows "from_le (to_le n v) = v"
proof (rule bit_word_eqI)
  fix i
  assume "i < LENGTH('a)"
  moreover from this have "i div 8 < n" "8 * (i div 8) + i mod 8 = i"
    using assms by simp_all
  ultimately show "bit (from_le (to_le n v) :: 'a word) i \<longleftrightarrow> bit v i"
    by (simp add: bit_from_le bit_to_le)
qed

lemma to_le_from_le:
  assumes "LENGTH('a::len) = 8 * n" "length bs = n"
  shows "to_le n (from_le bs :: 'a word) = bs"
proof (rule nth_equalityI)
  fix i
  assume "i < length (to_le n (from_le bs :: 'a word))"
  then have i: "i < n"
    by simp
  show "to_le n (from_le bs :: 'a word) ! i = bs ! i"
  proof (rule bit_word_eqI)
    fix j
    assume "j < LENGTH(8)"
    then have "j < 8" "8 * i + j < 8 * n" "(8 * i + j) div 8 = i" "(8 * i + j) mod 8 = j"
      using i by simp_all
    then show "bit (to_le n (from_le bs :: 'a word) ! i) j \<longleftrightarrow> bit (bs ! i) j"
      using assms i by (simp add: bit_to_le bit_from_le)
  qed
qed (use assms in simp)

abbreviation le16 :: "u16 \<Rightarrow> u8 list" where "le16 \<equiv> to_le 2"
abbreviation le32 :: "u32 \<Rightarrow> u8 list" where "le32 \<equiv> to_le 4"
abbreviation le64 :: "u64 \<Rightarrow> u8 list" where "le64 \<equiv> to_le 8"

section \<open>Slices of a buffer\<close>

text \<open>\<open>bytes[from..to]\<close> where the range is inside.\<close>

definition slice :: "nat \<Rightarrow> nat \<Rightarrow> 'b list \<Rightarrow> 'b list" where
  "slice from to bytes = take (to - from) (drop from bytes)"

text \<open>\<open>bytes.get(from..to)\<close>.\<close>

definition get_slice :: "nat \<Rightarrow> nat \<Rightarrow> 'b list \<Rightarrow> 'b list option" where
  "get_slice from to bytes = (if from \<le> to \<and> to \<le> length bytes then Some (slice from to bytes) else None)"

text \<open>Filling a range: \<open>bytes[at..at + len].copy_from_slice(data)\<close>.\<close>

definition put_at :: "nat \<Rightarrow> 'b list \<Rightarrow> 'b list \<Rightarrow> 'b list" where
  "put_at at data bytes = take at bytes @ data @ drop (at + length data) bytes"

lemma length_slice [simp]: "to \<le> length bytes \<Longrightarrow> length (slice from to bytes) = to - from"
  by (simp add: slice_def)

lemma length_put_at [simp]: "at + length data \<le> length bytes \<Longrightarrow> length (put_at at data bytes) = length bytes"
  by (simp add: put_at_def)

lemma slice_put_same: "at + length data \<le> length bytes \<Longrightarrow> to = at + length data \<Longrightarrow> slice at to (put_at at data bytes) = data"
  by (simp add: slice_def put_at_def)

lemma slice_put_other:
  assumes "at + length data \<le> length bytes" "to \<le> at \<or> at + length data \<le> from"
  shows "slice from to (put_at at data bytes) = slice from to bytes"
proof (rule nth_equalityI)
  show "length (slice from to (put_at at data bytes)) = length (slice from to bytes)"
    using assms(1) by (simp add: slice_def)
  fix i
  assume "i < length (slice from to (put_at at data bytes))"
  then have "i < to - from" "from + i < length bytes"
    using assms(1) by (auto simp: slice_def)
  then show "slice from to (put_at at data bytes) ! i = slice from to bytes ! i"
    using assms by (auto simp: slice_def put_at_def nth_append add.commute)
qed

lemma slice_update_other:
  assumes "i < from \<or> to \<le> i"
  shows "slice from to (bytes[i := b]) = slice from to bytes"
  using assms by (intro nth_equalityI) (auto simp: slice_def nth_list_update)

lemma nth_put_other:
  "at + length data \<le> length bytes \<Longrightarrow> i < at \<or> at + length data \<le> i \<Longrightarrow> i < length bytes \<Longrightarrow> put_at at data bytes ! i = bytes ! i"
  by (auto simp: put_at_def nth_append)

text \<open>Filling a buffer field by field, each field behind the one before it.\<close>

definition fill :: "(nat \<times> 'b list) list \<Rightarrow> 'b list \<Rightarrow> 'b list" where
  "fill parts bytes = foldl (\<lambda>bytes (at, data). put_at at data bytes) bytes parts"

fun parts_fit :: "nat \<Rightarrow> (nat \<times> 'b list) list \<Rightarrow> nat \<Rightarrow> bool" where
  "parts_fit lo [] n \<longleftrightarrow> True"
| "parts_fit lo ((at, data) # parts) n \<longleftrightarrow> lo \<le> at \<and> at + length data \<le> n \<and> parts_fit (at + length data) parts n"

lemma fill_simps [simp]:
  "fill [] bytes = bytes" "fill ((at, data) # parts) bytes = fill parts (put_at at data bytes)"
  by (simp_all add: fill_def)

lemma fill_front:
  "parts_fit lo parts (length bytes) \<Longrightarrow> length (fill parts bytes) = length bytes \<and>
     (\<forall>a b. b \<le> lo \<longrightarrow> slice a b (fill parts bytes) = slice a b bytes)"
proof (induction parts arbitrary: lo bytes)
  case (Cons part parts)
  obtain at data where part: "part = (at, data)"
    by (cases part)
  with Cons.prems have fits: "lo \<le> at" "at + length data \<le> length bytes" "parts_fit (at + length data) parts (length bytes)"
    by simp_all
  then have "length (fill parts (put_at at data bytes)) = length bytes"
    and slices: "\<And>a b. b \<le> at + length data \<Longrightarrow> slice a b (fill parts (put_at at data bytes)) = slice a b (put_at at data bytes)"
    using Cons.IH [of "at + length data" "put_at at data bytes"] by simp_all
  moreover have "slice a b (put_at at data bytes) = slice a b bytes" if "b \<le> lo" for a b
    using that fits by (intro slice_put_other) simp_all
  ultimately show ?case
    using fits(1) by (simp add: part)
qed simp

lemma fill_field:
  assumes "parts_fit lo parts (length bytes)" "(at, data) \<in> set parts" "to = at + length data"
  shows "slice at to (fill parts bytes) = data"
  using assms(1,2)
proof (induction parts arbitrary: lo bytes)
  case (Cons part parts)
  obtain at' data' where part: "part = (at', data')"
    by (cases part)
  with Cons.prems have fits: "at' + length data' \<le> length bytes" "parts_fit (at' + length data') parts (length (put_at at' data' bytes))"
    by simp_all
  show ?case
  proof (cases "(at, data) = (at', data')")
    case True
    then show ?thesis
      using fill_front [OF fits(2)] fits(1) assms(3) by (simp add: part slice_put_same)
  next
    case False
    then have "(at, data) \<in> set parts"
      using Cons.prems(2) by (auto simp: part)
    then show ?thesis
      using Cons.IH [OF fits(2)] by (simp add: part)
  qed
qed simp

lemma update_put_at: "i < length bytes \<Longrightarrow> bytes[i := b] = put_at i [b] bytes"
  by (simp add: put_at_def upd_conv_take_nth_drop)

lemma nth_slice: "i < length bytes \<Longrightarrow> bytes ! i = hd (slice i (Suc i) bytes)"
  by (simp add: slice_def hd_drop_conv_nth Suc_diff_le)

lemma get_slice_Some [simp]: "from \<le> to \<Longrightarrow> to \<le> length bytes \<Longrightarrow> get_slice from to bytes = Some (slice from to bytes)"
  by (simp add: get_slice_def)

section \<open>Rows of a surface\<close>

text \<open>A row of a rectangle put into a surface, seen from the surface's rows and columns.\<close>

lemma row_index_unique:
  fixes s :: nat
  assumes "a * s + b = q * s + c" "b < s" "c < s"
  shows "a = q \<and> b = c"
proof -
  have "(a * s + b) div s = a" "(q * s + c) div s = q" "(a * s + b) mod s = b" "(q * s + c) mod s = c"
    using assms(2,3) by simp_all
  then show ?thesis
    using assms(1) by metis
qed

lemma put_row:
  assumes "length d = w" "x + w \<le> s" "c < s" "j * s + x + w \<le> length fb"
  shows "put_at (j * s + x) d fb ! (q * s + c) = (if q = j \<and> x \<le> c \<and> c < x + w then d ! (c - x) else fb ! (q * s + c))"
proof (cases "j * s + x \<le> q * s + c \<and> q * s + c < j * s + x + w")
  case True
  define k where "k = q * s + c - (j * s + x)"
  have "k < w" "j * s + (x + k) = q * s + c"
    unfolding k_def using True by linarith+
  then have "q = j \<and> x + k = c"
    using row_index_unique [of j s "x + k" q c] assms(2,3) by simp
  then show ?thesis
    using True assms by (auto simp: put_at_def nth_append)
next
  case False
  then have "\<not> (q = j \<and> x \<le> c \<and> c < x + w)"
    by auto
  then show ?thesis
    using False assms by (auto simp: put_at_def nth_append)
qed

end
