(* ===== verification/Frame_Stream.thy ===== *)
theory Frame_Stream
  imports Wire_Bytes
begin

text \<open>
  The framebuffer stream between the device and the desktop viewer
  (\<open>crates/framebuffer-stream/src/lib.rs\<close>): the 72-byte header, its validation, and frames on a byte
  stream. A writer is the bytes it has taken, a reader the bytes that are left; \<open>reserve\<close> says which
  payload sizes can be allocated.
\<close>

section \<open>Headers\<close>

definition MMFS_MAGIC :: "u8 list" where
  "MMFS_MAGIC = map of_char ''MMFSv1'' @ [0, 0]"

definition HEADER_LEN :: nat where "HEADER_LEN = 72"
definition MAX_FRAME_SURFACE_BYTES :: nat where "MAX_FRAME_SURFACE_BYTES = 16 * 1024 * 1024"
definition MAX_FRAME_PAYLOAD_BYTES :: nat where "MAX_FRAME_PAYLOAD_BYTES = 17 * 1024 * 1024"

datatype frame_kind = Hello | Keyframe | RectDelta | Heartbeat | End | Error

datatype frame_stream_error =
    BadMagic | BadHeaderLen nat | UnknownKind u8 | BadGeometry | BadRect | PayloadTooLarge | BadPayloadLen u32 u32

record frame_geometry =
  fg_width :: u32
  fg_height :: u32
  fg_stride_pixels :: u32

record frame_rect =
  fr_x :: u32
  fr_y :: u32
  fr_width :: u32
  fr_height :: u32

record frame_header =
  fh_kind :: frame_kind
  fh_flags :: u16
  fh_sequence :: u64
  fh_timestamp_us :: u64
  fh_geometry :: frame_geometry
  fh_rect :: frame_rect
  fh_raw_bytes :: u32
  fh_payload_bytes :: u32

definition kind_code :: "frame_kind \<Rightarrow> u8" where
  "kind_code kind =
     (case kind of Hello \<Rightarrow> 1 | Keyframe \<Rightarrow> 2 | RectDelta \<Rightarrow> 3 | Heartbeat \<Rightarrow> 4 | End \<Rightarrow> 5 | Error \<Rightarrow> 6)"

definition kind_from_u8 :: "u8 \<Rightarrow> frame_stream_error + frame_kind" where
  "kind_from_u8 v =
     (if v = 1 then Inr Hello else if v = 2 then Inr Keyframe else if v = 3 then Inr RectDelta
      else if v = 4 then Inr Heartbeat else if v = 5 then Inr End else if v = 6 then Inr Error
      else Inl (UnknownKind v))"

definition full_frame_rect :: "frame_geometry \<Rightarrow> frame_rect" where
  "full_frame_rect g = \<lparr>fr_x = 0, fr_y = 0, fr_width = fg_width g, fr_height = fg_height g\<rparr>"

definition encode_header :: "frame_header \<Rightarrow> u8 list" where
  "encode_header h =
     (let out = replicate HEADER_LEN 0;
          out = put_at 0 MMFS_MAGIC out;
          out = out[8 := kind_code (fh_kind h)];
          out = put_at 10 (le16 (fh_flags h)) out;
          out = put_at 12 (le16 (of_nat HEADER_LEN)) out;
          out = put_at 16 (le64 (fh_sequence h)) out;
          out = put_at 24 (le64 (fh_timestamp_us h)) out;
          out = put_at 32 (le32 (fg_width (fh_geometry h))) out;
          out = put_at 36 (le32 (fg_height (fh_geometry h))) out;
          out = put_at 40 (le32 (fg_stride_pixels (fh_geometry h))) out;
          out = put_at 44 (le32 (fr_x (fh_rect h))) out;
          out = put_at 48 (le32 (fr_y (fh_rect h))) out;
          out = put_at 52 (le32 (fr_width (fh_rect h))) out;
          out = put_at 56 (le32 (fr_height (fh_rect h))) out;
          out = put_at 60 (le32 (fh_raw_bytes h)) out;
          out = put_at 64 (le32 (fh_payload_bytes h)) out
      in out)"

definition decode_header :: "u8 list \<Rightarrow> frame_stream_error + frame_header" where
  "decode_header bytes =
     (if length bytes \<noteq> HEADER_LEN then Inl (BadHeaderLen (length bytes))
      else if slice 0 8 bytes \<noteq> MMFS_MAGIC then Inl BadMagic
      else
        (let header_len = unat (from_le (slice 12 14 bytes) :: u16)
         in if header_len \<noteq> HEADER_LEN then Inl (BadHeaderLen header_len)
            else case kind_from_u8 (bytes ! 8) of
              Inl e \<Rightarrow> Inl e
            | Inr kind \<Rightarrow>
                Inr \<lparr>fh_kind = kind, fh_flags = from_le (slice 10 12 bytes), fh_sequence = from_le (slice 16 24 bytes),
                  fh_timestamp_us = from_le (slice 24 32 bytes),
                  fh_geometry = \<lparr>fg_width = from_le (slice 32 36 bytes), fg_height = from_le (slice 36 40 bytes),
                    fg_stride_pixels = from_le (slice 40 44 bytes)\<rparr>,
                  fh_rect = \<lparr>fr_x = from_le (slice 44 48 bytes), fr_y = from_le (slice 48 52 bytes),
                    fr_width = from_le (slice 52 56 bytes), fr_height = from_le (slice 56 60 bytes)\<rparr>,
                  fh_raw_bytes = from_le (slice 60 64 bytes), fh_payload_bytes = from_le (slice 64 68 bytes)\<rparr>))"

definition u32_checked_add :: "u32 \<Rightarrow> u32 \<Rightarrow> u32 option" where
  "u32_checked_add a b = (if unat a + unat b < 2 ^ 32 then Some (a + b) else None)"

definition u32_checked_mul :: "u32 \<Rightarrow> u32 \<Rightarrow> u32 option" where
  "u32_checked_mul a b = (if unat a * unat b < 2 ^ 32 then Some (a * b) else None)"

definition validate_shape :: "frame_header \<Rightarrow> frame_stream_error + unit" where
  "validate_shape h =
     (let g = fh_geometry h; r = fh_rect h
      in if fg_width g = 0 \<or> fg_height g = 0 \<or> fg_stride_pixels g < fg_width g then Inl BadGeometry
         else if fr_width r = 0 \<or> fr_height r = 0 then Inl BadRect
         else case u32_checked_add (fr_x r) (fr_width r) of
           None \<Rightarrow> Inl BadRect
         | Some rect_right \<Rightarrow>
             (case u32_checked_add (fr_y r) (fr_height r) of
                None \<Rightarrow> Inl BadRect
              | Some rect_bottom \<Rightarrow>
                  if fg_width g < rect_right \<or> fg_height g < rect_bottom then Inl BadRect
                  else if fh_kind h = Keyframe \<and> r \<noteq> full_frame_rect g then Inl BadRect
                  else case Option.bind (u32_checked_mul (fr_width r) (fr_height r)) (\<lambda>pixels. u32_checked_mul pixels 2) of
                    None \<Rightarrow> Inl PayloadTooLarge
                  | Some expected_raw \<Rightarrow>
                      (case Option.bind (u32_checked_mul (fg_stride_pixels g) (fg_height g))
                           (\<lambda>pixels. u32_checked_mul pixels 2) of
                         None \<Rightarrow> Inl PayloadTooLarge
                       | Some surface_bytes \<Rightarrow>
                           if MAX_FRAME_SURFACE_BYTES < unat surface_bytes then Inl PayloadTooLarge
                           else if fh_raw_bytes h \<noteq> expected_raw then Inl (BadPayloadLen expected_raw (fh_raw_bytes h))
                           else Inr ())))"

section \<open>Frames on a stream\<close>

datatype stream_io_error = InvalidData frame_stream_error | PayloadMismatch u32 nat | AllocationFailed nat | UnexpectedEof

definition declared_payload_len :: "frame_header \<Rightarrow> stream_io_error + nat" where
  "declared_payload_len h =
     (let n = unat (fh_payload_bytes h) in if MAX_FRAME_PAYLOAD_BYTES < n then Inl (InvalidData PayloadTooLarge) else Inr n)"

definition validate_frame_shape_for_transport :: "frame_header \<Rightarrow> stream_io_error + unit" where
  "validate_frame_shape_for_transport h =
     (if fh_kind h = Keyframe \<or> fh_kind h = RectDelta
      then (case validate_shape h of Inl e \<Rightarrow> Inl (InvalidData e) | Inr _ \<Rightarrow> Inr ()) else Inr ())"

definition validate_frame_payload_len :: "frame_header \<Rightarrow> nat \<Rightarrow> stream_io_error + unit" where
  "validate_frame_payload_len h n =
     (case declared_payload_len h of
        Inl e \<Rightarrow> Inl e
      | Inr m \<Rightarrow> if m \<noteq> n then Inl (PayloadMismatch (fh_payload_bytes h) n) else Inr ())"

definition validate_frame_for_transport :: "frame_header \<Rightarrow> nat \<Rightarrow> stream_io_error + unit" where
  "validate_frame_for_transport h n =
     (case validate_frame_shape_for_transport h of Inl e \<Rightarrow> Inl e | Inr _ \<Rightarrow> validate_frame_payload_len h n)"

definition write_frame :: "frame_header \<Rightarrow> u8 list \<Rightarrow> u8 list \<Rightarrow> (stream_io_error + unit) \<times> u8 list" where
  "write_frame h payload writer =
     (case validate_frame_for_transport h (length payload) of
        Inl e \<Rightarrow> (Inl e, writer)
      | Inr _ \<Rightarrow> (Inr (), writer @ encode_header h @ payload))"

definition read_exact :: "nat \<Rightarrow> u8 list \<Rightarrow> (u8 list \<times> u8 list) option" where
  "read_exact n reader = (if n \<le> length reader then Some (take n reader, drop n reader) else None)"

definition read_frame :: "(nat \<Rightarrow> bool) \<Rightarrow> u8 list \<Rightarrow> stream_io_error + (frame_header \<times> u8 list) \<times> u8 list" where
  "read_frame reserve reader =
     (case read_exact HEADER_LEN reader of
        None \<Rightarrow> Inl UnexpectedEof
      | Some (header_bytes, reader) \<Rightarrow>
          (case decode_header header_bytes of
             Inl e \<Rightarrow> Inl (InvalidData e)
           | Inr h \<Rightarrow>
               (case validate_frame_shape_for_transport h of
                  Inl e \<Rightarrow> Inl e
                | Inr _ \<Rightarrow>
                    (case declared_payload_len h of
                       Inl e \<Rightarrow> Inl e
                     | Inr n \<Rightarrow>
                         if \<not> reserve n then Inl (AllocationFailed n)
                         else case read_exact n reader of
                           None \<Rightarrow> Inl UnexpectedEof
                         | Some (payload, reader) \<Rightarrow>
                             (case validate_frame_payload_len h (length payload) of
                                Inl e \<Rightarrow> Inl e
                              | Inr _ \<Rightarrow> Inr ((h, payload), reader))))))"

section \<open>Headers round trip\<close>

lemma length_magic [simp]: "length MMFS_MAGIC = 8"
  by (simp add: MMFS_MAGIC_def)

lemma kind_round_trip [simp]: "kind_from_u8 (kind_code kind) = Inr kind"
  by (cases kind) (simp_all add: kind_code_def kind_from_u8_def)

definition header_parts :: "frame_header \<Rightarrow> (nat \<times> u8 list) list" where
  "header_parts h =
     [(0, MMFS_MAGIC), (8, [kind_code (fh_kind h)]), (10, le16 (fh_flags h)), (12, le16 72), (16, le64 (fh_sequence h)),
      (24, le64 (fh_timestamp_us h)), (32, le32 (fg_width (fh_geometry h))), (36, le32 (fg_height (fh_geometry h))),
      (40, le32 (fg_stride_pixels (fh_geometry h))), (44, le32 (fr_x (fh_rect h))), (48, le32 (fr_y (fh_rect h))),
      (52, le32 (fr_width (fh_rect h))), (56, le32 (fr_height (fh_rect h))), (60, le32 (fh_raw_bytes h)),
      (64, le32 (fh_payload_bytes h))]"

lemma header_parts_fit: "parts_fit 0 (header_parts h) 72"
  by (simp add: header_parts_def)

lemma encode_header_fill: "encode_header h = fill (header_parts h) (replicate 72 0)"
proof -
  have "(put_at 0 MMFS_MAGIC (replicate 72 0))[8 := b] = put_at 8 [b] (put_at 0 MMFS_MAGIC (replicate 72 0))" for b
    by (rule update_put_at) simp
  then show ?thesis
    by (simp add: encode_header_def header_parts_def HEADER_LEN_def Let_def)
qed

lemma length_encode_header [simp]: "length (encode_header h) = HEADER_LEN"
  using fill_front [of 0 "header_parts h" "replicate 72 0"] header_parts_fit
  by (simp add: encode_header_fill HEADER_LEN_def)

lemma header_field:
  "(at, data) \<in> set (header_parts h) \<Longrightarrow> to = at + length data \<Longrightarrow> slice at to (encode_header h) = data"
  using fill_field [of 0 "header_parts h" "replicate 72 0" at data to] header_parts_fit
  by (simp add: encode_header_fill)

lemma decode_encode_header [simp]: "decode_header (encode_header h) = Inr h"
proof -
  have "slice 0 8 (encode_header h) = MMFS_MAGIC" "slice 8 9 (encode_header h) = [kind_code (fh_kind h)]"
    "slice 12 14 (encode_header h) = le16 72" "slice 10 12 (encode_header h) = le16 (fh_flags h)"
    "slice 16 24 (encode_header h) = le64 (fh_sequence h)" "slice 24 32 (encode_header h) = le64 (fh_timestamp_us h)"
    "slice 32 36 (encode_header h) = le32 (fg_width (fh_geometry h))"
    "slice 36 40 (encode_header h) = le32 (fg_height (fh_geometry h))"
    "slice 40 44 (encode_header h) = le32 (fg_stride_pixels (fh_geometry h))"
    "slice 44 48 (encode_header h) = le32 (fr_x (fh_rect h))" "slice 48 52 (encode_header h) = le32 (fr_y (fh_rect h))"
    "slice 52 56 (encode_header h) = le32 (fr_width (fh_rect h))" "slice 56 60 (encode_header h) = le32 (fr_height (fh_rect h))"
    "slice 60 64 (encode_header h) = le32 (fh_raw_bytes h)" "slice 64 68 (encode_header h) = le32 (fh_payload_bytes h)"
    by (rule header_field; simp add: header_parts_def)+
  moreover from this have "encode_header h ! 8 = kind_code (fh_kind h)"
    using nth_slice [of 8 "encode_header h"] by (simp add: HEADER_LEN_def)
  ultimately show ?thesis
    by (simp add: decode_header_def) (simp add: HEADER_LEN_def)
qed

section \<open>Frames round trip\<close>

text \<open>What the writer accepts, and what a reader may rely on.\<close>

definition frame_accepted :: "frame_header \<Rightarrow> u8 list \<Rightarrow> bool" where
  "frame_accepted h payload \<longleftrightarrow> validate_frame_for_transport h (length payload) = Inr ()"

lemma frame_accepted_iff:
  "frame_accepted h payload \<longleftrightarrow> validate_frame_shape_for_transport h = Inr () \<and>
     unat (fh_payload_bytes h) = length payload \<and> length payload \<le> MAX_FRAME_PAYLOAD_BYTES"
  by (auto simp: frame_accepted_def validate_frame_for_transport_def validate_frame_payload_len_def
      declared_payload_len_def Let_def split: sum.split)

lemma read_exact_Some: "read_exact n reader = Some (bytes, rest) \<longleftrightarrow> reader = bytes @ rest \<and> length bytes = n"
  by (auto simp: read_exact_def)

lemma read_frame_back:
  assumes "frame_accepted h payload" "reserve (length payload)"
  shows "read_frame reserve (encode_header h @ payload @ rest) = Inr ((h, payload), rest)"
  using assms
  by (simp add: frame_accepted_iff read_frame_def read_exact_def declared_payload_len_def
      validate_frame_payload_len_def Let_def)

text \<open>A whole frame in a stream that ends too early is not read.\<close>

lemma read_frame_cut:
  assumes "frame_accepted h payload" "n < HEADER_LEN + length payload"
  shows "\<exists>e. read_frame reserve (take n (encode_header h @ payload)) = Inl e"
  using assms
  by (auto simp: frame_accepted_iff read_frame_def read_exact_def declared_payload_len_def
      validate_frame_payload_len_def Let_def)

lemma checked_products:
  "Option.bind (u32_checked_mul a b) (\<lambda>p. u32_checked_mul p 2) = Some c \<longleftrightarrow>
     unat a * unat b * 2 < 2 ^ 32 \<and> unat c = unat a * unat b * 2"
proof -
  have *: "unat (a * b) = unat a * unat b" if "unat a * unat b < 2 ^ 32"
    using that by (simp add: unat_word_ariths)
  have "unat (a * b * 2) = unat a * unat b * 2" if "unat a * unat b * 2 < 2 ^ 32"
    using that * by (simp add: unat_word_ariths)
  then show ?thesis
    using * by (auto simp: u32_checked_mul_def word_unat_eq_iff split: if_splits)
qed

text \<open>A frame that shows pixels: the rectangle inside the surface, the raw size that of the rectangle.\<close>

definition well_shaped :: "frame_header \<Rightarrow> bool" where
  "well_shaped h \<longleftrightarrow>
     (let g = fh_geometry h; r = fh_rect h
      in 0 < unat (fr_width r) \<and> 0 < unat (fr_height r) \<and>
         unat (fr_x r) + unat (fr_width r) \<le> unat (fg_width g) \<and> unat (fr_y r) + unat (fr_height r) \<le> unat (fg_height g) \<and>
         unat (fg_width g) \<le> unat (fg_stride_pixels g) \<and>
         unat (fg_stride_pixels g) * unat (fg_height g) * 2 \<le> MAX_FRAME_SURFACE_BYTES \<and>
         unat (fh_raw_bytes h) = unat (fr_width r) * unat (fr_height r) * 2 \<and>
         (fh_kind h = Keyframe \<longrightarrow> r = full_frame_rect g))"

lemma well_shaped_products:
  assumes "well_shaped h"
  shows "unat (fr_width (fh_rect h)) * unat (fr_height (fh_rect h)) * 2 < 2 ^ 32"
    and "unat (fg_stride_pixels (fh_geometry h)) * unat (fg_height (fh_geometry h)) * 2 < 2 ^ 32"
proof -
  let ?g = "fh_geometry h" and ?r = "fh_rect h"
  have "unat (fr_width ?r) * unat (fr_height ?r) \<le> unat (fg_stride_pixels ?g) * unat (fg_height ?g)"
    using assms by (intro mult_le_mono) (simp_all add: well_shaped_def Let_def)
  moreover have "unat (fg_stride_pixels ?g) * unat (fg_height ?g) * 2 \<le> MAX_FRAME_SURFACE_BYTES"
    using assms by (simp add: well_shaped_def Let_def)
  moreover have "MAX_FRAME_SURFACE_BYTES < 2 ^ 32"
    by (simp add: MAX_FRAME_SURFACE_BYTES_def)
  ultimately show "unat (fr_width ?r) * unat (fr_height ?r) * 2 < 2 ^ 32"
    "unat (fg_stride_pixels ?g) * unat (fg_height ?g) * 2 < 2 ^ 32"
    by linarith+
qed

lemma checked_sum: "u32_checked_add a b = Some c \<longleftrightarrow> unat a + unat b < 2 ^ 32 \<and> unat c = unat a + unat b"
proof -
  have "unat (a + b) = unat a + unat b" if "unat a + unat b < 2 ^ 32"
    using that by (simp add: unat_word_ariths)
  then show ?thesis
    by (auto simp: u32_checked_add_def word_unat_eq_iff)
qed

lemma validate_shape_iff: "validate_shape h = Inr () \<longleftrightarrow> well_shaped h"
proof
  assume "validate_shape h = Inr ()"
  then show "well_shaped h"
    by (auto simp: validate_shape_def well_shaped_def Let_def checked_products checked_sum
        word_le_nat_alt word_less_nat_alt MAX_FRAME_SURFACE_BYTES_def unat_gt_0 split: if_splits option.splits)
next
  let ?g = "fh_geometry h" and ?r = "fh_rect h"
  assume h: "well_shaped h"
  have "unat (fr_x ?r) + unat (fr_width ?r) < 2 ^ 32" "unat (fr_y ?r) + unat (fr_height ?r) < 2 ^ 32"
    using h unsigned_less [of "fg_width ?g", where 'a = nat] unsigned_less [of "fg_height ?g", where 'a = nat]
    by (simp_all add: well_shaped_def Let_def)
  then obtain right bottom where sums: "u32_checked_add (fr_x ?r) (fr_width ?r) = Some right"
    "u32_checked_add (fr_y ?r) (fr_height ?r) = Some bottom"
    by (auto simp: u32_checked_add_def)
  have product: "\<exists>c. Option.bind (u32_checked_mul a b) (\<lambda>p. u32_checked_mul p 2) = Some c" if "unat a * unat b * 2 < 2 ^ 32" for a b
  proof -
    have "unat (of_nat (unat a * unat b * 2) :: u32) = unat a * unat b * 2"
      using that by (intro unat_of_nat_small) simp
    then show ?thesis
      using that checked_products by blast
  qed
  obtain raw where raw: "Option.bind (u32_checked_mul (fr_width ?r) (fr_height ?r)) (\<lambda>p. u32_checked_mul p 2) = Some raw"
    using product [OF well_shaped_products(1) [OF h]] by blast
  obtain surface where surface: "Option.bind (u32_checked_mul (fg_stride_pixels ?g) (fg_height ?g)) (\<lambda>p. u32_checked_mul p 2) = Some surface"
    using product [OF well_shaped_products(2) [OF h]] by blast
  have "unat right = unat (fr_x ?r) + unat (fr_width ?r)" "unat bottom = unat (fr_y ?r) + unat (fr_height ?r)"
    "unat raw = unat (fr_width ?r) * unat (fr_height ?r) * 2" "unat surface = unat (fg_stride_pixels ?g) * unat (fg_height ?g) * 2"
    using sums raw surface by (simp_all add: checked_sum checked_products)
  then have "\<not> fg_width ?g < right" "\<not> fg_height ?g < bottom" "unat surface \<le> MAX_FRAME_SURFACE_BYTES" "fh_raw_bytes h = raw"
    "\<not> fg_stride_pixels ?g < fg_width ?g" "fg_width ?g \<noteq> 0" "fg_height ?g \<noteq> 0" "fr_width ?r \<noteq> 0" "fr_height ?r \<noteq> 0"
    "fh_kind h = Keyframe \<Longrightarrow> ?r = full_frame_rect ?g"
    using h by (auto simp: well_shaped_def Let_def word_less_nat_alt word_le_nat_alt word_unat_eq_iff)
  then show "validate_shape h = Inr ()"
    using sums raw surface by (auto simp: validate_shape_def Let_def)
qed

section \<open>Streams of frames\<close>

fun write_frames :: "(frame_header \<times> u8 list) list \<Rightarrow> u8 list \<Rightarrow> (stream_io_error + unit) \<times> u8 list" where
  "write_frames [] writer = (Inr (), writer)"
| "write_frames ((h, payload) # frames) writer =
     (case write_frame h payload writer of
        (Inl e, writer) \<Rightarrow> (Inl e, writer)
      | (Inr _, writer) \<Rightarrow> write_frames frames writer)"

text \<open>Reading a number of frames, stopping at the first that cannot be read.\<close>

fun read_frames :: "(nat \<Rightarrow> bool) \<Rightarrow> nat \<Rightarrow> u8 list \<Rightarrow> (frame_header \<times> u8 list) list" where
  "read_frames reserve 0 reader = []"
| "read_frames reserve (Suc n) reader =
     (case read_frame reserve reader of
        Inl _ \<Rightarrow> []
      | Inr (frame, reader) \<Rightarrow> frame # read_frames reserve n reader)"

lemma write_frames_bytes:
  "write_frames frames writer = (Inr (), out) \<Longrightarrow>
     list_all (\<lambda>(h, payload). frame_accepted h payload) frames \<and>
     out = writer @ concat (map (\<lambda>(h, payload). encode_header h @ payload) frames)"
proof (induction frames arbitrary: writer)
  case (Cons frame frames)
  obtain h payload where frame: "frame = (h, payload)"
    by (cases frame)
  with Cons.prems have "frame_accepted h payload" "write_frames frames (writer @ encode_header h @ payload) = (Inr (), out)"
    by (auto simp: write_frame_def frame_accepted_def split: sum.splits)
  then show ?case
    using Cons.IH by (fastforce simp: frame)
qed simp

lemma read_frames_back:
  assumes "list_all (\<lambda>(h, payload). frame_accepted h payload) frames"
    and "\<forall>n \<le> MAX_FRAME_PAYLOAD_BYTES. reserve n"
    and "length frames \<le> n" "read_frames reserve (n - length frames) rest = []"
  shows "read_frames reserve n (concat (map (\<lambda>(h, payload). encode_header h @ payload) frames) @ rest) = frames"
  using assms(1,3,4)
proof (induction frames arbitrary: n)
  case (Cons frame frames)
  obtain h payload where frame: "frame = (h, payload)"
    by (cases frame)
  obtain m where m: "n = Suc m"
    using Cons.prems(2) by (cases n) simp_all
  have "frame_accepted h payload" "reserve (length payload)"
    using Cons.prems(1) assms(2) by (simp_all add: frame frame_accepted_iff)
  note read_frame_back [of h payload reserve, OF this]
  then show ?case
    using Cons by (simp add: frame m)
qed (simp add: assms(4))

section \<open>Properties\<close>

text \<open>
  C16: Frames survive the stream, and nothing else is read. What a sequence of accepted frames put on the
  wire is read back as exactly these frames, headers and payloads, as long as payloads of the permitted
  size can be allocated; and when the connection breaks inside a further frame, whatever part of it has
  arrived, the reader delivers the frames before it and no other.
\<close>

theorem frames_survive_the_stream:
  assumes "write_frames frames [] = (Inr (), wire)" "write_frame h payload [] = (Inr (), next_wire)"
    and "\<forall>n \<le> MAX_FRAME_PAYLOAD_BYTES. reserve n" "cut1 < length next_wire"
  shows "read_frames reserve (length frames + m) (wire @ take cut1 next_wire) = frames"
proof -
  note sent = write_frames_bytes [OF assms(1)]
  have "frame_accepted h payload" "next_wire = encode_header h @ payload"
    using assms(2) by (auto simp: write_frame_def frame_accepted_def split: sum.splits)
  then obtain e where "read_frame reserve (take cut1 next_wire) = Inl e"
    using read_frame_cut [of h payload cut1 reserve] assms(4) by auto
  then have "read_frames reserve m (take cut1 next_wire) = []"
    by (cases m) simp_all
  then show ?thesis
    using read_frames_back [OF conjunct1 [OF sent] assms(3), of "length frames + m" "take cut1 next_wire"] sent by simp
qed

text \<open>
  A frame that is read can be drawn. The reader delivers the 72 header bytes and the payload the
  header declares, at most 17 MiB; and a key frame or a delta has a surface of at most 16 MiB, with rows
  no longer than the stride, a non-empty rectangle inside it - all of it for a key frame - and the raw
  size of exactly that rectangle, with no sum or product of these numbers wrapping around.
\<close>

theorem read_frames_are_well_shaped:
  assumes "read_frame reserve reader = Inr ((h, payload), rest)"
  shows "(\<exists>header_bytes. reader = header_bytes @ payload @ rest \<and> length header_bytes = HEADER_LEN \<and>
      decode_header header_bytes = Inr h) \<and>
    length payload = unat (fh_payload_bytes h) \<and> length payload \<le> MAX_FRAME_PAYLOAD_BYTES \<and>
    (fh_kind h \<in> {Keyframe, RectDelta} \<longrightarrow> well_shaped h)"
proof -
  obtain header_bytes after where split: "read_exact HEADER_LEN reader = Some (header_bytes, after)" "decode_header header_bytes = Inr h"
    and shape: "validate_frame_shape_for_transport h = Inr ()"
    and body: "read_exact (unat (fh_payload_bytes h)) after = Some (payload, rest)" "unat (fh_payload_bytes h) \<le> MAX_FRAME_PAYLOAD_BYTES"
    using assms by (auto simp: read_frame_def declared_payload_len_def Let_def split: option.splits sum.splits if_splits)
  have "validate_shape h = Inr ()" if "fh_kind h \<in> {Keyframe, RectDelta}"
    using shape that by (auto simp: validate_frame_shape_for_transport_def split: sum.splits)
  moreover have "reader = header_bytes @ payload @ rest" "length header_bytes = HEADER_LEN" "length payload = unat (fh_payload_bytes h)"
    using split(1) body(1) by (simp_all add: read_exact_Some)
  ultimately show ?thesis
    using split(2) body(2) validate_shape_iff by auto
qed

section \<open>Witnesses\<close>

definition small_delta :: frame_header where
  "small_delta = \<lparr>fh_kind = RectDelta, fh_flags = 1, fh_sequence = 42, fh_timestamp_us = 7,
     fh_geometry = \<lparr>fg_width = 960, fg_height = 540, fg_stride_pixels = 960\<rparr>,
     fh_rect = \<lparr>fr_x = 10, fr_y = 20, fr_width = 3, fr_height = 4\<rparr>, fh_raw_bytes = 24, fh_payload_bytes = 2\<rparr>"

lemma small_delta_written: "write_frame small_delta [5, 6] writer = (Inr (), writer @ encode_header small_delta @ [5, 6])"
proof -
  have "well_shaped small_delta"
    by (simp add: well_shaped_def small_delta_def Let_def MAX_FRAME_SURFACE_BYTES_def)
  then have "validate_shape small_delta = Inr ()"
    by (simp add: validate_shape_iff)
  then show ?thesis
    by (simp add: write_frame_def validate_frame_for_transport_def validate_frame_shape_for_transport_def
        validate_frame_payload_len_def declared_payload_len_def Let_def MAX_FRAME_PAYLOAD_BYTES_def) (simp add: small_delta_def)
qed

theorem frames_survive_the_stream_witness:
  "read_frames (\<lambda>_. True) 3 ((encode_header small_delta @ [5, 6]) @ take 73 (encode_header small_delta @ [5, 6])) = [(small_delta, [5, 6])]"
  using frames_survive_the_stream [of "[(small_delta, [5, 6])]" "encode_header small_delta @ [5, 6]" small_delta "[5, 6]"
      "encode_header small_delta @ [5, 6]" "\<lambda>_. True" 73 2]
  by (simp add: small_delta_written HEADER_LEN_def numeral_eq_Suc del: read_frames.simps)

theorem read_frames_are_well_shaped_witness:
  "read_frame (\<lambda>_. True) (encode_header small_delta @ [5, 6]) = Inr ((small_delta, [5, 6]), []) \<and> well_shaped small_delta"
proof -
  have "read_frame (\<lambda>_. True) (encode_header small_delta @ [5, 6]) = Inr ((small_delta, [5, 6]), [])"
    using read_frame_back [of small_delta "[5, 6]" "\<lambda>_. True" "[]"] small_delta_written [of "[]"]
    by (auto simp: write_frame_def frame_accepted_def split: sum.splits)
  then show ?thesis
    using read_frames_are_well_shaped [of "\<lambda>_. True" "encode_header small_delta @ [5, 6]" small_delta "[5, 6]" "[]"]
    by (simp add: small_delta_def)
qed

end
