(* ===== verification/Stream_Viewer.thy ===== *)
theory Stream_Viewer
  imports Frame_Stream
begin

text \<open>
  The viewer of the framebuffer stream (\<open>FramebufferStreamState\<close> of \<open>apps/desktop/src/device_client.rs\<close>):
  decompressing, checking the order of frames and drawing them. The LZ4 library is an argument; the
  conversion of the finished picture to RGBA, the clocks and reconnecting are left out. The desktop's
  \<open>usize\<close> has 64 bits, which the products of two 32-bit numbers fit.
\<close>

section \<open>Blocks\<close>

text \<open>
  The functions of \<open>lz4_flex\<close> that both ends use: \<open>compress_into_with_table\<close>, \<open>uncompressed_size\<close> and
  \<open>decompress_into\<close> a buffer of the given size, as the bytes it decoded.
\<close>

record lz4 =
  lz_compress :: "u8 list \<Rightarrow> u8 list option"
  lz_size :: "u8 list \<Rightarrow> (nat \<times> u8 list) option"
  lz_decompress :: "u8 list \<Rightarrow> nat \<Rightarrow> u8 list option"

datatype viewer_error =
    UnsupportedFlags | UnexpectedKind | ShapeRefused frame_stream_error | RawTooLarge | NotAllocated | Undecodable
  | SizePrefixMismatch | RawSizeMismatch | SurfaceOverflow | SurfaceTooLarge | RectOverflow | RectPayloadMismatch | RectOutside
  | StrideOverflow

definition zeroed_buffer :: "(nat \<Rightarrow> bool) \<Rightarrow> nat \<Rightarrow> viewer_error + u8 list" where
  "zeroed_buffer reserve n = (if reserve n then Inr (replicate n 0) else Inl NotAllocated)"

definition decompress_block_exact ::
  "lz4 \<Rightarrow> (nat \<Rightarrow> bool) \<Rightarrow> u8 list \<Rightarrow> nat \<Rightarrow> nat \<Rightarrow> viewer_error + u8 list" where
  "decompress_block_exact lz reserve payload expected_raw max_raw =
     (if max_raw < expected_raw then Inl RawTooLarge
      else case zeroed_buffer reserve expected_raw of
        Inl e \<Rightarrow> Inl e
      | Inr raw \<Rightarrow>
          (case lz_decompress lz payload (length raw) of
             None \<Rightarrow> Inl Undecodable
           | Some bytes \<Rightarrow> if length bytes \<noteq> expected_raw then Inl RawSizeMismatch else Inr bytes))"

definition decompress_size_prepended_exact ::
  "lz4 \<Rightarrow> (nat \<Rightarrow> bool) \<Rightarrow> u8 list \<Rightarrow> nat \<Rightarrow> nat \<Rightarrow> viewer_error + u8 list" where
  "decompress_size_prepended_exact lz reserve payload expected_raw max_raw =
     (if max_raw < expected_raw then Inl RawTooLarge
      else case lz_size lz payload of
        None \<Rightarrow> Inl Undecodable
      | Some (prefixed_raw_len, compressed) \<Rightarrow>
          if prefixed_raw_len \<noteq> expected_raw then Inl SizePrefixMismatch
          else decompress_block_exact lz reserve compressed expected_raw max_raw)"

section \<open>Drawing\<close>

fun apply_rows ::
  "nat list \<Rightarrow> nat \<Rightarrow> nat \<Rightarrow> nat \<Rightarrow> nat \<Rightarrow> u8 list \<Rightarrow> u8 list \<Rightarrow> (viewer_error + unit) \<times> u8 list" where
  "apply_rows [] y stride_bytes x_bytes row_bytes raw framebuffer = (Inr (), framebuffer)"
| "apply_rows (row # rows) y stride_bytes x_bytes row_bytes raw framebuffer =
     (let dst = (y + row) * stride_bytes + x_bytes
      in if dst + row_bytes \<le> length framebuffer
         then apply_rows rows y stride_bytes x_bytes row_bytes raw
           (put_at dst (slice (row * row_bytes) (row * row_bytes + row_bytes) raw) framebuffer)
         else (Inl RectOutside, framebuffer))"

definition apply_rgb565_rect ::
  "u8 list \<Rightarrow> frame_geometry \<Rightarrow> frame_rect \<Rightarrow> u8 list \<Rightarrow> (viewer_error + unit) \<times> u8 list" where
  "apply_rgb565_rect framebuffer g r raw =
     (case u32_checked_mul (fr_width r) 2 of
        None \<Rightarrow> (Inl RectOverflow, framebuffer)
      | Some row_bytes \<Rightarrow>
          if length raw \<noteq> unat row_bytes * unat (fr_height r) then (Inl RectPayloadMismatch, framebuffer)
          else case u32_checked_mul (fg_stride_pixels g) 2 of
            None \<Rightarrow> (Inl StrideOverflow, framebuffer)
          | Some stride_bytes \<Rightarrow>
              (case u32_checked_mul (fr_x r) 2 of
                 None \<Rightarrow> (Inl RectOverflow, framebuffer)
               | Some x_bytes \<Rightarrow>
                   apply_rows [0..<unat (fr_height r)] (unat (fr_y r)) (unat stride_bytes) (unat x_bytes) (unat row_bytes)
                     raw framebuffer))"

record viewer_state =
  vs_rgb565 :: "u8 list"
  vs_geometry :: "frame_geometry option"
  vs_expected_sequence :: "u64 option"
  vs_awaiting_keyframe :: bool

definition viewer_default :: viewer_state where
  "viewer_default = \<lparr>vs_rgb565 = [], vs_geometry = None, vs_expected_sequence = None, vs_awaiting_keyframe = True\<rparr>"

definition reset_buffer :: "(nat \<Rightarrow> bool) \<Rightarrow> frame_geometry \<Rightarrow> viewer_state \<Rightarrow> (viewer_error + unit) \<times> viewer_state" where
  "reset_buffer reserve g v =
     (case Option.bind (u32_checked_mul (fg_stride_pixels g) (fg_height g)) (\<lambda>pixels. u32_checked_mul pixels 2) of
        None \<Rightarrow> (Inl SurfaceOverflow, v)
      | Some bytes \<Rightarrow>
          if MAX_FRAME_SURFACE_BYTES < unat bytes then (Inl SurfaceTooLarge, v)
          else case zeroed_buffer reserve (unat bytes) of
            Inl e \<Rightarrow> (Inl e, v)
          | Inr buffer \<Rightarrow>
              (Inr (), v\<lparr>vs_rgb565 := buffer, vs_expected_sequence := None, vs_awaiting_keyframe := False\<rparr>))"

definition FLAG_LZ4_SIZE_PREPENDED :: u16 where "FLAG_LZ4_SIZE_PREPENDED = 1"

text \<open>\<open>Some\<close> is a picture to show; \<open>None\<close> means that the frame was passed over.\<close>

definition apply_frame ::
  "lz4 \<Rightarrow> (nat \<Rightarrow> bool) \<Rightarrow> frame_header \<Rightarrow> u8 list \<Rightarrow> viewer_state \<Rightarrow> (viewer_error + u8 list option) \<times> viewer_state" where
  "apply_frame lz reserve h payload v =
     (if fh_flags h \<noteq> FLAG_LZ4_SIZE_PREPENDED then (Inl UnsupportedFlags, v)
      else if fh_kind h \<noteq> Keyframe \<and> fh_kind h \<noteq> RectDelta then (Inl UnexpectedKind, v)
      else case validate_shape h of
        Inl e \<Rightarrow> (Inl (ShapeRefused e), v)
      | Inr _ \<Rightarrow>
          if vs_awaiting_keyframe v \<and> fh_kind h \<noteq> Keyframe then (Inr None, v)
          else if fh_kind h = RectDelta \<and> vs_geometry v \<noteq> Some (fh_geometry h)
          then (Inr None, v\<lparr>vs_awaiting_keyframe := True, vs_expected_sequence := None\<rparr>)
          else if fh_kind h = RectDelta \<and> (case vs_expected_sequence v of None \<Rightarrow> False | Some n \<Rightarrow> n \<noteq> fh_sequence h)
          then (Inr None, v\<lparr>vs_awaiting_keyframe := True, vs_expected_sequence := None\<rparr>)
          else case decompress_size_prepended_exact lz reserve payload (unat (fh_raw_bytes h)) MAX_FRAME_SURFACE_BYTES of
            Inl e \<Rightarrow> (Inl e, v)
          | Inr raw \<Rightarrow>
              (case (if vs_geometry v \<noteq> Some (fh_geometry h) \<or> fh_kind h = Keyframe
                     then reset_buffer reserve (fh_geometry h) v else (Inr (), v)) of
                 (Inl e, v) \<Rightarrow> (Inl e, v)
               | (Inr _, v) \<Rightarrow>
                   (case apply_rgb565_rect (vs_rgb565 v) (fh_geometry h) (fh_rect h) raw of
                      (Inl e, framebuffer) \<Rightarrow> (Inl e, v\<lparr>vs_rgb565 := framebuffer\<rparr>)
                    | (Inr _, framebuffer) \<Rightarrow>
                        (let v = v\<lparr>vs_rgb565 := framebuffer, vs_geometry := Some (fh_geometry h),
                               vs_expected_sequence := Some (sat_add (fh_sequence h) 1), vs_awaiting_keyframe := False\<rparr>
                         in case u32_checked_mul (fg_stride_pixels (fh_geometry h)) 2 of
                              None \<Rightarrow> (Inl StrideOverflow, v)
                            | Some _ \<Rightarrow> (Inr (Some framebuffer), v)))))"

text \<open>
  The next picture from a stream. A reader that fails is reported; the caller may reconnect and start
  again with the default state.
\<close>

datatype next_outcome =
    Shown "u8 list" | ReadFailed stream_io_error | ViewerFailed viewer_error | StreamEnded | StreamError "u8 list" | UnexpectedHello

lemma read_frame_shrinks: "read_frame reserve reader = Inr ((h, payload), rest) \<Longrightarrow> length rest < length reader"
  by (auto simp: read_frame_def read_exact_def HEADER_LEN_def split: option.splits sum.splits if_splits prod.splits)

function next_frame ::
  "lz4 \<Rightarrow> (nat \<Rightarrow> bool) \<Rightarrow> u8 list \<Rightarrow> viewer_state \<Rightarrow> next_outcome \<times> u8 list \<times> viewer_state" where
  "next_frame lz reserve reader v =
     (case read_frame reserve reader of
        Inl e \<Rightarrow> (ReadFailed e, reader, v)
      | Inr ((h, payload), rest) \<Rightarrow>
          (case fh_kind h of
             Heartbeat \<Rightarrow> next_frame lz reserve rest v
           | End \<Rightarrow> (StreamEnded, rest, v)
           | Error \<Rightarrow> (StreamError payload, rest, v)
           | Hello \<Rightarrow> (UnexpectedHello, rest, v)
           | _ \<Rightarrow>
               (case apply_frame lz reserve h payload v of
                  (Inl e, v) \<Rightarrow> (ViewerFailed e, rest, v)
                | (Inr (Some picture), v) \<Rightarrow> (Shown picture, rest, v)
                | (Inr None, v) \<Rightarrow> next_frame lz reserve rest v)))"
  by pat_completeness auto

termination
  by (relation "measure (\<lambda>(lz, reserve, reader, v). length reader)") (auto intro: read_frame_shrinks)

declare next_frame.simps [simp del]

section \<open>Rows of a rectangle\<close>

text \<open>Drawing the rows of a rectangle from the top.\<close>

lemma apply_rows_draws:
  assumes "x + w \<le> s" "(y + n) * s \<le> length fb" "n * w \<le> length raw"
  shows "\<exists>fb'. apply_rows [0..<n] y s x w raw fb = (Inr (), fb') \<and> length fb' = length fb \<and>
    (\<forall>q c. c < s \<longrightarrow> fb' ! (q * s + c) =
       (if y \<le> q \<and> q < y + n \<and> x \<le> c \<and> c < x + w then raw ! ((q - y) * w + (c - x)) else fb ! (q * s + c)))"
proof -
  have rows: "\<exists>fb'. apply_rows [m..<n] y s x w raw fb = (Inr (), fb') \<and> length fb' = length fb \<and>
    (\<forall>q c. c < s \<longrightarrow> fb' ! (q * s + c) =
       (if y + m \<le> q \<and> q < y + n \<and> x \<le> c \<and> c < x + w then raw ! ((q - y) * w + (c - x)) else fb ! (q * s + c)))"
    if "m \<le> n" "(y + n) * s \<le> length fb" for m fb
    using that
  proof (induction "n - m" arbitrary: m fb)
    case 0
    then show ?case
      by auto
  next
    case (Suc k)
    then have m: "m < n" "k = n - Suc m" "[m..<n] = m # [Suc m..<n]"
      by (simp_all add: upt_conv_Cons)
    have "(y + m) * s + s \<le> (y + n) * s"
      using mult_le_mono1 [of "y + m + 1" "y + n" s] m(1) by simp
    then have fits: "(y + m) * s + x + w \<le> length fb"
      using assms(1) Suc.prems(2) by linarith
    have "(m + 1) * w \<le> n * w"
      using m(1) by (intro mult_le_mono1) simp
    then have raw: "m * w + w \<le> length raw"
      using assms(3) by simp
    define row where "row = slice (m * w) (m * w + w) raw"
    have row: "length row = w" "\<And>i. i < w \<Longrightarrow> row ! i = raw ! (m * w + i)"
      using raw by (simp_all add: row_def slice_def)
    let ?fb = "put_at ((y + m) * s + x) row fb"
    have length_fb: "length ?fb = length fb"
      using fits row(1) by simp
    have "k = n - Suc m" "Suc m \<le> n" "(y + n) * s \<le> length ?fb"
      using m Suc.prems(2) length_fb by simp_all
    from Suc.hyps(1) [OF this] obtain fb' where fb':
      "apply_rows [Suc m..<n] y s x w raw ?fb = (Inr (), fb')" "length fb' = length ?fb"
      "\<And>q c. c < s \<Longrightarrow> fb' ! (q * s + c) =
        (if y + Suc m \<le> q \<and> q < y + n \<and> x \<le> c \<and> c < x + w then raw ! ((q - y) * w + (c - x)) else ?fb ! (q * s + c))"
      by blast
    have "apply_rows [m..<n] y s x w raw fb = (Inr (), fb')"
      using fb'(1) fits m(3) by (simp add: row_def Let_def)
    moreover have "fb' ! (q * s + c) =
        (if y + m \<le> q \<and> q < y + n \<and> x \<le> c \<and> c < x + w then raw ! ((q - y) * w + (c - x)) else fb ! (q * s + c))"
      if "c < s" for q c
    proof (cases "q = y + m \<and> x \<le> c \<and> c < x + w")
      case True
      then have "?fb ! (q * s + c) = row ! (c - x)"
        using put_row [OF row(1) assms(1) that fits, of q] by simp
      also have "\<dots> = raw ! (m * w + (c - x))"
        using True by (intro row(2)) linarith
      finally show ?thesis
        using True m(1) fb'(3) [OF that, of q] by simp
    next
      case False
      then have "?fb ! (q * s + c) = fb ! (q * s + c)"
        using put_row [OF row(1) assms(1) that fits, of q] by auto
      moreover have "y + m \<le> q \<and> q < y + n \<and> x \<le> c \<and> c < x + w \<longleftrightarrow> y + Suc m \<le> q \<and> q < y + n \<and> x \<le> c \<and> c < x + w"
        using False by auto
      ultimately show ?thesis
        using fb'(3) [OF that, of q] by simp
    qed
    ultimately show ?case
      using fb'(2) length_fb by auto
  qed
  show ?thesis
    using rows [of 0 fb] assms(2) by simp
qed


section \<open>The picture\<close>

definition picture_of :: "frame_geometry \<Rightarrow> u8 list \<Rightarrow> nat \<Rightarrow> nat \<Rightarrow> u16" where
  "picture_of g bytes x y = (let i = 2 * (y * unat (fg_stride_pixels g) + x) in from_le (slice i (i + 2) bytes))"

definition in_frame_rect :: "frame_rect \<Rightarrow> nat \<Rightarrow> nat \<Rightarrow> bool" where
  "in_frame_rect r x y \<longleftrightarrow> unat (fr_x r) \<le> x \<and> x < unat (fr_x r) + unat (fr_width r) \<and>
     unat (fr_y r) \<le> y \<and> y < unat (fr_y r) + unat (fr_height r)"

definition raw_pixel :: "frame_rect \<Rightarrow> u8 list \<Rightarrow> nat \<Rightarrow> nat \<Rightarrow> u16" where
  "raw_pixel r raw x y =
     (let i = 2 * ((y - unat (fr_y r)) * unat (fr_width r) + (x - unat (fr_x r))) in from_le (slice i (i + 2) raw))"

definition viewer_ok :: "viewer_state \<Rightarrow> bool" where
  "viewer_ok v \<longleftrightarrow> (case vs_geometry v of None \<Rightarrow> True
     | Some g \<Rightarrow> length (vs_rgb565 v) = unat (fg_stride_pixels g) * unat (fg_height g) * 2)"

lemma slice_two: "i + 2 \<le> length bs \<Longrightarrow> slice i (i + 2) bs = [bs ! i, bs ! (i + 1)]"
  by (rule nth_equalityI) (auto simp: slice_def less_2_cases_iff)

lemma checked_double: "unat a * 2 < 2 ^ 32 \<Longrightarrow> \<exists>b. u32_checked_mul a 2 = Some b \<and> unat b = unat a * 2"
  by (auto simp: u32_checked_mul_def unat_word_ariths)

lemma stride_fits:
  assumes "well_shaped h"
  shows "unat (fg_stride_pixels (fh_geometry h)) * 2 < 2 ^ 32"
proof -
  let ?s = "unat (fg_stride_pixels (fh_geometry h))" and ?gh = "unat (fg_height (fh_geometry h))"
  have "0 < ?gh" "?s * ?gh * 2 \<le> MAX_FRAME_SURFACE_BYTES"
    using assms by (auto simp: well_shaped_def Let_def)
  moreover from this have "?s * 1 \<le> ?s * ?gh"
    by (intro mult_le_mono2) simp
  ultimately have "?s * 2 \<le> MAX_FRAME_SURFACE_BYTES"
    by linarith
  then show ?thesis
    by (simp add: MAX_FRAME_SURFACE_BYTES_def)
qed

text \<open>Drawing the rectangle of a well-shaped header into a surface of its geometry.\<close>

lemma apply_rect_draws:
  assumes h: "well_shaped h" and surface: "length fb = unat (fg_stride_pixels (fh_geometry h)) * unat (fg_height (fh_geometry h)) * 2"
    and raw: "length raw = unat (fh_raw_bytes h)"
  shows "\<exists>fb'. apply_rgb565_rect fb (fh_geometry h) (fh_rect h) raw = (Inr (), fb') \<and> length fb' = length fb \<and>
    (\<forall>x y. x < unat (fg_width (fh_geometry h)) \<longrightarrow> y < unat (fg_height (fh_geometry h)) \<longrightarrow>
       picture_of (fh_geometry h) fb' x y =
         (if in_frame_rect (fh_rect h) x y then raw_pixel (fh_rect h) raw x y else picture_of (fh_geometry h) fb x y))"
proof -
  let ?g = "fh_geometry h" and ?r = "fh_rect h"
  let ?s = "unat (fg_stride_pixels ?g)" and ?gh = "unat (fg_height ?g)" and ?gw = "unat (fg_width ?g)"
  let ?x = "unat (fr_x ?r)" and ?y = "unat (fr_y ?r)" and ?w = "unat (fr_width ?r)" and ?n = "unat (fr_height ?r)"
  have shape: "?x + ?w \<le> ?gw" "?y + ?n \<le> ?gh" "?gw \<le> ?s" "?s * ?gh * 2 \<le> MAX_FRAME_SURFACE_BYTES" "0 < ?w" "0 < ?n"
    "unat (fh_raw_bytes h) = ?w * ?n * 2"
    using h by (simp_all add: well_shaped_def Let_def)
  have "?s * 2 < 2 ^ 32"
    using h by (rule stride_fits)
  then have "?w * 2 < 2 ^ 32" "?x * 2 < 2 ^ 32" "?s * 2 < 2 ^ 32"
    using shape(1,3) by simp_all
  then obtain w2 x2 s2 where words: "u32_checked_mul (fr_width ?r) 2 = Some w2" "unat w2 = ?w * 2"
    "u32_checked_mul (fr_x ?r) 2 = Some x2" "unat x2 = ?x * 2" "u32_checked_mul (fg_stride_pixels ?g) 2 = Some s2" "unat s2 = ?s * 2"
    using checked_double by metis
  have fits: "?x * 2 + ?w * 2 \<le> ?s * 2" "(?y + ?n) * (?s * 2) \<le> length fb" "?n * (?w * 2) \<le> length raw"
  proof -
    show "?x * 2 + ?w * 2 \<le> ?s * 2"
      using shape(1,3) by simp
    have "(?y + ?n) * (?s * 2) \<le> ?gh * (?s * 2)"
      using shape(2) by (rule mult_le_mono1)
    then show "(?y + ?n) * (?s * 2) \<le> length fb"
      by (simp add: surface ac_simps)
    show "?n * (?w * 2) \<le> length raw"
      by (simp add: raw shape(7) ac_simps)
  qed
  from apply_rows_draws [OF fits] obtain fb' where fb':
    "apply_rows [0..<?n] ?y (?s * 2) (?x * 2) (?w * 2) raw fb = (Inr (), fb')" "length fb' = length fb"
    "\<And>q c. c < ?s * 2 \<Longrightarrow> fb' ! (q * (?s * 2) + c) = (if ?y \<le> q \<and> q < ?y + ?n \<and> ?x * 2 \<le> c \<and> c < ?x * 2 + ?w * 2
       then raw ! ((q - ?y) * (?w * 2) + (c - ?x * 2)) else fb ! (q * (?s * 2) + c))"
    by blast
  have "apply_rgb565_rect fb ?g ?r raw = (Inr (), fb')"
    using fb'(1) by (simp add: apply_rgb565_rect_def words raw shape(7))
  moreover have "picture_of ?g fb' x y = (if in_frame_rect ?r x y then raw_pixel ?r raw x y else picture_of ?g fb x y)"
    if x: "x < ?gw" and y: "y < ?gh" for x y
  proof -
    let ?i = "y * (?s * 2) + 2 * x"
    have index: "2 * (y * ?s + x) = ?i" "?i + 1 = y * (?s * 2) + (2 * x + 1)"
      by (simp_all add: algebra_simps)
    have columns: "2 * x < ?s * 2" "2 * x + 1 < ?s * 2"
      using x shape(3) by simp_all
    have "(y + 1) * (?s * 2) \<le> ?gh * (?s * 2)"
      using y by (intro mult_le_mono1) simp
    then have room: "?i + 2 \<le> length fb"
      using columns by (simp add: surface ac_simps)
    show ?thesis
    proof (cases "in_frame_rect ?r x y")
      case True
      let ?j = "(y - ?y) * (?w * 2) + (2 * x - ?x * 2)"
      have j: "2 * ((y - ?y) * ?w + (x - ?x)) = ?j"
        by (simp add: algebra_simps)
      have "(y - ?y + 1) * (?w * 2) \<le> ?n * (?w * 2)"
        using True by (intro mult_le_mono1) (auto simp: in_frame_rect_def)
      then have raw_room: "?j + 2 \<le> length raw"
        using True by (auto simp: in_frame_rect_def raw shape(7) ac_simps)
      have "fb' ! ?i = raw ! ?j" "fb' ! (?i + 1) = raw ! (?j + 1)"
        using fb'(3) [OF columns(1), of y] fb'(3) [OF columns(2), of y] True
        by (auto simp: in_frame_rect_def Suc_diff_le)
      moreover have "slice ?i (?i + 2) fb' = [fb' ! ?i, fb' ! (?i + 1)]" "slice ?j (?j + 2) raw = [raw ! ?j, raw ! (?j + 1)]"
        using room raw_room fb'(2) by (simp_all only: slice_two)
      ultimately have "picture_of ?g fb' x y = raw_pixel ?r raw x y"
        unfolding picture_of_def raw_pixel_def Let_def index j by simp
      then show ?thesis
        using True by simp
    next
      case False
      have "fb' ! ?i = fb ! ?i" "fb' ! (?i + 1) = fb ! (?i + 1)"
        using fb'(3) [OF columns(1), of y] fb'(3) [OF columns(2), of y] False
        by (auto simp: in_frame_rect_def)
      moreover have "slice ?i (?i + 2) fb' = [fb' ! ?i, fb' ! (?i + 1)]" "slice ?i (?i + 2) fb = [fb ! ?i, fb ! (?i + 1)]"
        using room fb'(2) by (simp_all only: slice_two)
      ultimately have "picture_of ?g fb' x y = picture_of ?g fb x y"
        unfolding picture_of_def Let_def index by simp
      then show ?thesis
        using False by simp
    qed
  qed
  ultimately show ?thesis
    using fb'(2) by blast
qed


text \<open>When a delta is passed over.\<close>

definition passed_over :: "frame_header \<Rightarrow> viewer_state \<Rightarrow> bool" where
  "passed_over h v \<longleftrightarrow> fh_kind h = RectDelta \<and> (vs_awaiting_keyframe v \<or> vs_geometry v \<noteq> Some (fh_geometry h) \<or>
     vs_expected_sequence v \<noteq> None \<and> vs_expected_sequence v \<noteq> Some (fh_sequence h))"

lemma decompressed_length:
  "decompress_size_prepended_exact lz reserve payload n m = Inr raw \<Longrightarrow> length raw = n"
  by (auto simp: decompress_size_prepended_exact_def decompress_block_exact_def split: if_splits option.splits sum.splits prod.splits)

lemma reset_buffer_ok:
  assumes "well_shaped h" "\<forall>n \<le> MAX_FRAME_SURFACE_BYTES. reserve n"
  shows "reset_buffer reserve (fh_geometry h) v = (Inr (), v\<lparr>vs_rgb565 :=
      replicate (unat (fg_stride_pixels (fh_geometry h)) * unat (fg_height (fh_geometry h)) * 2) 0,
    vs_expected_sequence := None, vs_awaiting_keyframe := False\<rparr>)"
proof -
  let ?g = "fh_geometry h"
  let ?n = "unat (fg_stride_pixels ?g) * unat (fg_height ?g) * 2"
  have "unat (of_nat ?n :: u32) = ?n"
    using well_shaped_products(2) [OF assms(1)] by (intro unat_of_nat_small) simp
  then have "Option.bind (u32_checked_mul (fg_stride_pixels ?g) (fg_height ?g)) (\<lambda>p. u32_checked_mul p 2) = Some (of_nat ?n)"
    using well_shaped_products(2) [OF assms(1)] checked_products by blast
  then show ?thesis
    using assms \<open>unat _ = ?n\<close> by (simp add: reset_buffer_def zeroed_buffer_def well_shaped_def Let_def)
qed

section \<open>Drawing what was sent\<close>

text \<open>
  A well-formed frame with a payload that decompresses is either drawn or passed over, never an error. A
  delta is passed over exactly when the viewer is waiting for a key frame, when it is for another geometry,
  or when its sequence number is not the next one; the picture stays as it was and the viewer then waits
  for a key frame. Any other frame puts each pixel of its rectangle into the picture and leaves every pixel
  outside as it was, and the next delta it takes is the one with the next sequence number.
\<close>

lemma apply_frame_draws:
  assumes "well_shaped h" "fh_flags h = FLAG_LZ4_SIZE_PREPENDED" "fh_kind h \<in> {Keyframe, RectDelta}" "viewer_ok v"
    and "decompress_size_prepended_exact lz reserve payload (unat (fh_raw_bytes h)) MAX_FRAME_SURFACE_BYTES = Inr raw"
    and "\<forall>n \<le> MAX_FRAME_SURFACE_BYTES. reserve n"
  shows "\<exists>v'. viewer_ok v' \<and>
    (if passed_over h v
     then apply_frame lz reserve h payload v = (Inr None, v') \<and> vs_rgb565 v' = vs_rgb565 v \<and> vs_geometry v' = vs_geometry v \<and>
       vs_awaiting_keyframe v'
     else apply_frame lz reserve h payload v = (Inr (Some (vs_rgb565 v')), v') \<and> vs_geometry v' = Some (fh_geometry h) \<and>
       vs_expected_sequence v' = Some (sat_add (fh_sequence h) 1) \<and> \<not> vs_awaiting_keyframe v' \<and>
       (\<forall>x y. x < unat (fg_width (fh_geometry h)) \<longrightarrow> y < unat (fg_height (fh_geometry h)) \<longrightarrow>
          picture_of (fh_geometry h) (vs_rgb565 v') x y =
            (if in_frame_rect (fh_rect h) x y then raw_pixel (fh_rect h) raw x y
             else picture_of (fh_geometry h) (vs_rgb565 v) x y)))"
proof (cases "passed_over h v")
  case True
  have "apply_frame lz reserve h payload v = (Inr None, if vs_awaiting_keyframe v then v
      else v\<lparr>vs_awaiting_keyframe := True, vs_expected_sequence := None\<rparr>)"
    using True assms(1-3) by (auto simp: apply_frame_def passed_over_def validate_shape_iff [symmetric] split: option.splits)
  then show ?thesis
    using True assms(4) by (auto simp: viewer_ok_def split: if_splits option.splits)
next
  case False
  let ?g = "fh_geometry h"
  let ?whole = "unat (fg_stride_pixels ?g) * unat (fg_height ?g) * 2"
  define reset where "reset = (vs_geometry v \<noteq> Some ?g \<or> fh_kind h = Keyframe)"
  define fb where "fb = (if reset then replicate ?whole 0 else vs_rgb565 v)"
  have key: "fh_kind h = Keyframe \<longleftrightarrow> reset"
    using False assms(3) by (auto simp: reset_def passed_over_def)
  have "length fb = ?whole"
    using assms(4) by (auto simp: fb_def reset_def viewer_ok_def)
  from apply_rect_draws [OF assms(1) this decompressed_length [OF assms(5)]] obtain fb' where fb':
    "apply_rgb565_rect fb ?g (fh_rect h) raw = (Inr (), fb')" "length fb' = length fb"
    "\<And>x y. x < unat (fg_width ?g) \<Longrightarrow> y < unat (fg_height ?g) \<Longrightarrow> picture_of ?g fb' x y =
      (if in_frame_rect (fh_rect h) x y then raw_pixel (fh_rect h) raw x y else picture_of ?g fb x y)"
    by blast
  have "picture_of ?g fb' x y = (if in_frame_rect (fh_rect h) x y then raw_pixel (fh_rect h) raw x y
      else picture_of ?g (vs_rgb565 v) x y)" if "x < unat (fg_width ?g)" "y < unat (fg_height ?g)" for x y
  proof (cases reset)
    case True
    then have "in_frame_rect (fh_rect h) x y"
      using key assms(1) that by (simp add: well_shaped_def Let_def full_frame_rect_def in_frame_rect_def)
    then show ?thesis
      using fb'(3) [OF that] by simp
  next
    case False
    then show ?thesis
      using fb'(3) [OF that] by (simp add: fb_def)
  qed
  moreover define v1 where "v1 = (if reset then v\<lparr>vs_rgb565 := fb, vs_expected_sequence := None, vs_awaiting_keyframe := False\<rparr> else v)"
  have step: "(if vs_geometry v \<noteq> Some ?g \<or> fh_kind h = Keyframe then reset_buffer reserve ?g v else (Inr (), v)) = (Inr (), v1)"
    "vs_rgb565 v1 = fb"
    using reset_buffer_ok [OF assms(1,6)] by (auto simp: v1_def fb_def reset_def)
  obtain s2 where s2: "u32_checked_mul (fg_stride_pixels ?g) 2 = Some s2"
    using checked_double [OF stride_fits [OF assms(1)]] by blast
  let ?v = "v1\<lparr>vs_rgb565 := fb', vs_geometry := Some ?g, vs_expected_sequence := Some (sat_add (fh_sequence h) 1),
    vs_awaiting_keyframe := False\<rparr>"
  have gates: "\<not> fh_flags h \<noteq> FLAG_LZ4_SIZE_PREPENDED" "\<not> (fh_kind h \<noteq> Keyframe \<and> fh_kind h \<noteq> RectDelta)"
    "\<not> (vs_awaiting_keyframe v \<and> fh_kind h \<noteq> Keyframe)"
    "\<not> (fh_kind h = RectDelta \<and> vs_geometry v \<noteq> Some ?g)"
    "\<not> (fh_kind h = RectDelta \<and> (case vs_expected_sequence v of None \<Rightarrow> False | Some n \<Rightarrow> n \<noteq> fh_sequence h))"
    using False assms(2,3) by (auto simp: passed_over_def split: option.splits)
  have "apply_frame lz reserve h payload v = (Inr (Some fb'), ?v)"
    unfolding apply_frame_def
    by (simp only: gates if_False validate_shape_iff [THEN iffD2, OF assms(1)] sum.case assms(5) step prod.case fb'(1) Let_def s2
        option.case)
  moreover have "viewer_ok ?v"
    using fb'(2) \<open>length fb = ?whole\<close> by (simp add: viewer_ok_def)
  ultimately show ?thesis
    using False by (intro exI [of _ ?v]) simp
qed

end
