(* ===== verification/Stream_Producer.thy ===== *)
theory Stream_Producer
  imports Stream_Viewer
begin

text \<open>
  The framebuffer stream server of the device (\<open>mister/platform/runtime/src/framebuffer/stream.rs\<close>, with
  the scalar decimator of \<open>downsample.rs\<close>). The publishers run on the render thread, connections arrive on
  the listener thread, and a worker takes one event at a time from a queue of one frame: the atomics and
  the queue are one state, and every publisher call, every connection, every receipt of an event by the
  worker and every handling of it is a step. A connection is a number, a successful write is recorded. The
  pool of buffers, the metrics and the log are left out.
\<close>

section \<open>Pixels\<close>

definition usize_sat :: "nat \<Rightarrow> nat" where
  "usize_sat n = min n USIZE_MAX"

definition is_full_frame :: "frame_geometry \<Rightarrow> frame_rect \<Rightarrow> bool" where
  "is_full_frame g r \<longleftrightarrow> fr_x r = 0 \<and> fr_y r = 0 \<and> fr_width r = fg_width g \<and> fr_height r = fg_height g"

fun sequence_options :: "'a option list \<Rightarrow> 'a list option" where
  "sequence_options [] = Some []"
| "sequence_options (x # xs) = Option.bind x (\<lambda>a. map_option (\<lambda>as. a # as) (sequence_options xs))"

definition collect_strided_rect :: "u16 list \<Rightarrow> nat \<Rightarrow> nat \<Rightarrow> nat \<Rightarrow> frame_rect \<Rightarrow> u16 list option" where
  "collect_strided_rect pixels src_stride src_x src_y r =
     (let width = unat (fr_width r); height = unat (fr_height r)
      in if width = 0 \<or> height = 0 \<or> src_stride < width \<or>
           (case checked_add src_x width of None \<Rightarrow> True | Some end_at \<Rightarrow> src_stride < end_at) then None
         else Option.bind (checked_mul width height) (\<lambda>_. map_option concat (sequence_options (map (\<lambda>row.
           Option.bind (checked_add src_y row) (\<lambda>src_row. Option.bind (checked_mul src_row src_stride) (\<lambda>start.
           Option.bind (checked_add start src_x) (\<lambda>start. Option.bind (checked_add start width) (\<lambda>end_at.
             get_slice start end_at pixels))))) [0..<height]))))"

fun copy_latest_rows :: "nat list \<Rightarrow> frame_geometry \<Rightarrow> frame_rect \<Rightarrow> u16 list \<Rightarrow> u16 list \<Rightarrow> u16 list" where
  "copy_latest_rows [] g r rect_pixels latest = latest"
| "copy_latest_rows (row # rows) g r rect_pixels latest =
     (let width = unat (fr_width r); src = usize_sat (row * width);
          dst = usize_sat (usize_sat ((unat (fr_y r) + row) mod (USIZE_MAX + 1) * unat (fg_stride_pixels g)) + unat (fr_x r));
          dst_end = usize_sat (dst + width)
      in case get_slice src (usize_sat (src + width)) rect_pixels of
           None \<Rightarrow> latest
         | Some src_row \<Rightarrow>
             if dst_end \<le> length latest then copy_latest_rows rows g r rect_pixels (put_at dst src_row latest) else latest)"

definition copy_rect_into_latest :: "u16 list \<Rightarrow> frame_geometry \<Rightarrow> frame_rect \<Rightarrow> u16 list \<Rightarrow> u16 list" where
  "copy_rect_into_latest latest g r rect_pixels = copy_latest_rows [0..<unat (fr_height r)] g r rect_pixels latest"

definition pixel_bytes :: "u16 list \<Rightarrow> u8 list" where
  "pixel_bytes pixels = concat (map le16 pixels)"

definition rgb565_rect_bytes :: "u16 list \<Rightarrow> frame_rect \<Rightarrow> nat \<Rightarrow> nat \<Rightarrow> nat \<Rightarrow> u8 list" where
  "rgb565_rect_bytes pixels r stride src_x src_y =
     (let width = unat (fr_width r); height = unat (fr_height r)
      in if src_x = 0 \<and> src_y = 0 \<and> width = stride \<and> length pixels = usize_sat (width * height) then pixel_bytes pixels
         else case sequence_options (map (\<lambda>row.
             let start = usize_sat (usize_sat (usize_sat (src_y + row) * stride) + src_x)
             in get_slice start (usize_sat (start + width)) pixels) [0..<height]) of
           None \<Rightarrow> []
         | Some rows \<Rightarrow> pixel_bytes (concat rows))"

section \<open>Snapshots\<close>

record stream_source =
  sv_pixels :: "u16 list"
  sv_width :: nat
  sv_height :: nat
  sv_stride :: nat

definition source_valid :: "stream_source \<Rightarrow> bool" where
  "source_valid v \<longleftrightarrow> sv_width v \<noteq> 0 \<and> sv_height v \<noteq> 0 \<and> sv_width v \<le> sv_stride v \<and>
     (case checked_mul (sv_stride v) (sv_height v) of None \<Rightarrow> False | Some required \<Rightarrow> required \<le> length (sv_pixels v))"

definition downsample_rgb565_2x :: "stream_source \<Rightarrow> (nat \<times> nat \<times> u16 list) option" where
  "downsample_rgb565_2x v =
     (if \<not> source_valid v then None
      else let width = (sv_width v + 1) div 2; height = (sv_height v + 1) div 2
        in Option.bind (checked_mul width height) (\<lambda>_. Some (width, height,
             concat (map (\<lambda>output_y.
               let start = output_y * 2 * sv_stride v; row = slice start (start + sv_width v) (sv_pixels v)
               in map (\<lambda>output_x. row ! (output_x * 2)) [0..<width]) [0..<height]))))"

datatype latch_stream_scale = FullScale | HalfScale
datatype latch_stream_mode = ModeOff | ModeFull | ModeHalf | ModeAdaptive

definition parse_latch_stream_mode :: "string option \<Rightarrow> latch_stream_mode" where
  "parse_latch_stream_mode v =
     (if v = Some ''full'' \<or> v = Some ''FULL'' then ModeFull
      else if v = Some ''half'' \<or> v = Some ''HALF'' then ModeHalf
      else if v = Some ''adaptive'' \<or> v = Some ''ADAPTIVE'' then ModeAdaptive
      else if v = Some ''off'' \<or> v = Some ''OFF'' then ModeOff
      else ModeAdaptive)"

definition latch_scale_for_mode :: "latch_stream_mode \<Rightarrow> bool \<Rightarrow> latch_stream_scale option" where
  "latch_scale_for_mode mode motion_active =
     (case mode of
        ModeOff \<Rightarrow> None | ModeFull \<Rightarrow> Some FullScale | ModeHalf \<Rightarrow> Some HalfScale
      | ModeAdaptive \<Rightarrow> Some (if motion_active then HalfScale else FullScale))"

definition REFINEMENT_DELAY_US :: u64 where "REFINEMENT_DELAY_US = 120000"
definition KEYFRAME_INTERVAL_FRAMES :: nat where "KEYFRAME_INTERVAL_FRAMES = 60"

definition frame_geometry_of :: "nat \<Rightarrow> nat \<Rightarrow> frame_geometry option" where
  "frame_geometry_of width height =
     (if width < 2 ^ 32 \<and> height < 2 ^ 32
      then Some \<lparr>fg_width = of_nat width, fg_height = of_nat height, fg_stride_pixels = of_nat width\<rparr> else None)"

section \<open>The server's state\<close>

record producer_state =
  pr_latest_geometry :: "frame_geometry option"
  pr_latest_pixels :: "u16 list"
  pr_has_full_frame_base :: bool

definition producer_new :: producer_state where
  "producer_new = \<lparr>pr_latest_geometry = None, pr_latest_pixels = [], pr_has_full_frame_base = False\<rparr>"

definition remember_rect_pixels :: "frame_geometry \<Rightarrow> frame_rect \<Rightarrow> u16 list \<Rightarrow> producer_state \<Rightarrow> producer_state" where
  "remember_rect_pixels g r rect_pixels p =
     (let len = (case u32_checked_mul (fg_stride_pixels g) (fg_height g) of None \<Rightarrow> 0 | Some pixels \<Rightarrow> unat pixels);
          p = (if pr_latest_geometry p \<noteq> Some g \<or> length (pr_latest_pixels p) \<noteq> len
               then \<lparr>pr_latest_geometry = Some g, pr_latest_pixels = replicate len 0, pr_has_full_frame_base = False\<rparr> else p);
          p = p\<lparr>pr_latest_pixels := copy_rect_into_latest (pr_latest_pixels p) g r rect_pixels\<rparr>
      in if is_full_frame g r then p\<lparr>pr_has_full_frame_base := True\<rparr> else p)"

datatype frame_update_kind = Delta | SelfContainedKeyframe

record frame_update =
  fu_geometry :: frame_geometry
  fu_rect :: frame_rect
  fu_pixels :: "u16 list"
  fu_captured_at_us :: u64
  fu_kind :: frame_update_kind

datatype worker_event = Subscriber nat | FrameEvent frame_update | Timeout | Disconnected

record stream_state =
  ss_active :: bool
  ss_needs_keyframe :: bool
  ss_pending :: bool
  ss_coalesced :: u64
  ss_full_requested :: bool
  ss_refinement_due :: u64
  ss_subscriber :: "nat option"
  ss_frame :: "frame_update option"
  ss_poisoned :: bool
  ss_event :: "worker_event option"
  ss_connection :: "nat option"
  ss_producer :: producer_state
  ss_sequence :: u64
  ss_stopped :: bool
  ss_sent :: "(nat \<times> frame_header \<times> u8 list) list"

definition stream_start :: stream_state where
  "stream_start = \<lparr>ss_active = False, ss_needs_keyframe = True, ss_pending = False, ss_coalesced = 0, ss_full_requested = False,
     ss_refinement_due = 0, ss_subscriber = None, ss_frame = None, ss_poisoned = False, ss_event = None, ss_connection = None,
     ss_producer = producer_new, ss_sequence = 0, ss_stopped = False, ss_sent = []\<rparr>"

definition clear_snapshot_requests :: "stream_state \<Rightarrow> stream_state" where
  "clear_snapshot_requests s = s\<lparr>ss_full_requested := False, ss_refinement_due := 0\<rparr>"

text \<open>The three stores that every failure makes.\<close>

definition subscriber_lost :: "stream_state \<Rightarrow> stream_state" where
  "subscriber_lost s = clear_snapshot_requests (s\<lparr>ss_active := False, ss_needs_keyframe := True\<rparr>)"

section \<open>The queue\<close>

definition push_subscriber :: "nat \<Rightarrow> stream_state \<Rightarrow> bool \<times> stream_state" where
  "push_subscriber c s = (if ss_poisoned s then (False, s) else (True, s\<lparr>ss_subscriber := Some c\<rparr>))"

definition push_frame :: "frame_update \<Rightarrow> stream_state \<Rightarrow> bool \<times> stream_state" where
  "push_frame u s =
     (if fu_kind u = SelfContainedKeyframe
      then if ss_poisoned s then (False, s)
        else (True, s\<lparr>ss_coalesced := (if ss_frame s \<noteq> None then ss_coalesced s + 1 else ss_coalesced s),
               ss_frame := Some u, ss_pending := True\<rparr>)
      else if ss_pending s then (True, s\<lparr>ss_coalesced := ss_coalesced s + 1, ss_needs_keyframe := True\<rparr>)
      else if ss_poisoned s then (False, s)
      else (True, s\<lparr>ss_pending := True, ss_frame := Some u,
             ss_coalesced := (if ss_frame s \<noteq> None then ss_coalesced s + 1 else ss_coalesced s),
             ss_needs_keyframe := (ss_frame s \<noteq> None \<or> ss_needs_keyframe s)\<rparr>))"

text \<open>Waiting ends with an event or, when there is none, with the timeout.\<close>

definition recv_timeout :: "stream_state \<Rightarrow> worker_event \<times> stream_state" where
  "recv_timeout s =
     (if ss_poisoned s then (Disconnected, s)
      else case ss_subscriber s of
        Some c \<Rightarrow> (Subscriber c, s\<lparr>ss_subscriber := None\<rparr>)
      | None \<Rightarrow>
          (case ss_frame s of
             Some u \<Rightarrow> (FrameEvent u, s\<lparr>ss_frame := None, ss_pending := False\<rparr>)
           | None \<Rightarrow> (Timeout, s)))"

section \<open>Publishing\<close>

definition publish_rect ::
  "frame_geometry \<Rightarrow> frame_rect \<Rightarrow> u16 list \<Rightarrow> nat \<Rightarrow> nat \<Rightarrow> nat \<Rightarrow> u64 \<Rightarrow> stream_state \<Rightarrow> stream_state" where
  "publish_rect g r pixels src_stride src_x src_y now_us s =
     (if ss_pending s then s\<lparr>ss_coalesced := ss_coalesced s + 1, ss_needs_keyframe := True\<rparr>
      else case collect_strided_rect pixels src_stride src_x src_y r of
        None \<Rightarrow> s
      | Some collected \<Rightarrow>
          (case push_frame \<lparr>fu_geometry = g, fu_rect = r, fu_pixels = collected, fu_captured_at_us = now_us, fu_kind = Delta\<rparr> s of
             (True, s) \<Rightarrow> s
           | (False, s) \<Rightarrow> subscriber_lost s))"

definition publish_strided_rect ::
  "frame_geometry \<Rightarrow> frame_rect \<Rightarrow> u16 list \<Rightarrow> nat \<Rightarrow> nat \<Rightarrow> nat \<Rightarrow> u64 \<Rightarrow> stream_state \<Rightarrow> stream_state" where
  "publish_strided_rect g r pixels src_stride src_x src_y now_us s =
     (if \<not> ss_active s then s else publish_rect g r pixels src_stride src_x src_y now_us s)"

definition publish_dense_rect :: "frame_geometry \<Rightarrow> frame_rect \<Rightarrow> u16 list \<Rightarrow> u64 \<Rightarrow> stream_state \<Rightarrow> stream_state" where
  "publish_dense_rect g r pixels now_us s =
     (if \<not> ss_active s then s else publish_rect g r pixels (unat (fr_width r)) 0 0 now_us s)"

definition publish_cached_rect :: "frame_geometry \<Rightarrow> frame_rect \<Rightarrow> u16 list \<Rightarrow> u64 \<Rightarrow> stream_state \<Rightarrow> stream_state" where
  "publish_cached_rect g r pixels now_us s =
     (if \<not> ss_active s then s
      else (let (r', src_x, src_y) = (if ss_needs_keyframe s then (full_frame_rect g, 0, 0) else (r, unat (fr_x r), unat (fr_y r)))
        in publish_rect g r' pixels (unat (fg_stride_pixels g)) src_x src_y now_us s))"

definition adaptive_full_snapshot_due :: "latch_stream_mode \<Rightarrow> u64 \<Rightarrow> stream_state \<Rightarrow> bool" where
  "adaptive_full_snapshot_due mode now_us s =
     (if mode \<noteq> ModeAdaptive \<or> \<not> ss_active s then False
      else ss_full_requested s \<or> ss_refinement_due s \<noteq> 0 \<and> ss_refinement_due s \<le> now_us)"

definition snapshot_pixels :: "stream_source \<Rightarrow> latch_stream_scale \<Rightarrow> (nat \<times> nat \<times> u16 list) option" where
  "snapshot_pixels v scale =
     (case scale of
        FullScale \<Rightarrow>
          Option.bind (checked_mul (sv_width v) (sv_height v)) (\<lambda>_.
            map_option (\<lambda>rows. (sv_width v, sv_height v, concat rows)) (sequence_options (map (\<lambda>y.
              let start = usize_sat (y * sv_stride v) in get_slice start (usize_sat (start + sv_width v)) (sv_pixels v))
              [0..<sv_height v])))
      | HalfScale \<Rightarrow> downsample_rgb565_2x v)"

definition publish_latch_snapshot ::
  "latch_stream_mode \<Rightarrow> stream_source \<Rightarrow> latch_stream_scale \<Rightarrow> u64 \<Rightarrow> stream_state \<Rightarrow> bool \<times> stream_state" where
  "publish_latch_snapshot mode v scale captured_at_us s =
     (if \<not> ss_active s then (False, s)
      else case snapshot_pixels v scale of
        None \<Rightarrow> (False, s)
      | Some (width, height, pixels) \<Rightarrow>
          (case frame_geometry_of width height of
             None \<Rightarrow> (False, s)
           | Some g \<Rightarrow>
               (case push_frame \<lparr>fu_geometry = g, fu_rect = full_frame_rect g, fu_pixels = pixels,
                    fu_captured_at_us = captured_at_us, fu_kind = SelfContainedKeyframe\<rparr> s of
                  (False, s) \<Rightarrow> (False, subscriber_lost s)
                | (True, s) \<Rightarrow>
                    (True, case scale of
                       FullScale \<Rightarrow> clear_snapshot_requests s
                     | HalfScale \<Rightarrow>
                         if mode = ModeAdaptive then s\<lparr>ss_refinement_due := sat_add captured_at_us REFINEMENT_DELAY_US\<rparr> else s))))"

definition install_subscriber :: "nat \<Rightarrow> stream_state \<Rightarrow> stream_state" where
  "install_subscriber c s =
     (if ss_active s then s
      else
        (case push_subscriber c (s\<lparr>ss_active := True, ss_needs_keyframe := True, ss_full_requested := True\<rparr>) of
           (True, s) \<Rightarrow> s
         | (False, s) \<Rightarrow> subscriber_lost s))"

section \<open>The worker\<close>

definition compress_size_prepended :: "lz4 \<Rightarrow> u8 list \<Rightarrow> u8 list option" where
  "compress_size_prepended lz raw =
     (if length raw < 2 ^ 32 then map_option (\<lambda>block. le32 (of_nat (length raw)) @ block) (lz_compress lz raw) else None)"

text \<open>Writing a frame to a connection, which may fail; the frame that went out, if it did.\<close>

definition write_job ::
  "lz4 \<Rightarrow> bool \<Rightarrow> u64 \<Rightarrow> frame_geometry \<Rightarrow> frame_rect \<Rightarrow> frame_kind \<Rightarrow> u64 \<Rightarrow> u8 list \<Rightarrow> (frame_header \<times> u8 list) option" where
  "write_job lz connected sequence g r kind captured_at_us raw =
     Option.bind (compress_size_prepended lz raw) (\<lambda>payload.
       let h = \<lparr>fh_kind = kind, fh_flags = FLAG_LZ4_SIZE_PREPENDED, fh_sequence = sequence, fh_timestamp_us = captured_at_us,
             fh_geometry = g, fh_rect = r, fh_raw_bytes = of_nat (length raw), fh_payload_bytes = of_nat (length payload)\<rparr>
       in if connected \<and> fst (write_frame h payload []) = Inr () then Some (h, payload) else None)"

definition heartbeat_header :: "u64 \<Rightarrow> frame_header" where
  "heartbeat_header now_us = \<lparr>fh_kind = Heartbeat, fh_flags = 0, fh_sequence = 0, fh_timestamp_us = now_us,
     fh_geometry = \<lparr>fg_width = 0, fg_height = 0, fg_stride_pixels = 0\<rparr>,
     fh_rect = \<lparr>fr_x = 0, fr_y = 0, fr_width = 0, fr_height = 0\<rparr>, fh_raw_bytes = 0, fh_payload_bytes = 0\<rparr>"

definition worker_frame :: "lz4 \<Rightarrow> bool \<Rightarrow> frame_update \<Rightarrow> stream_state \<Rightarrow> stream_state" where
  "worker_frame lz connected u s =
     (let s = (if fu_kind u = Delta
               then s\<lparr>ss_producer := remember_rect_pixels (fu_geometry u) (fu_rect u) (fu_pixels u) (ss_producer s)\<rparr> else s)
      in case ss_connection s of
           None \<Rightarrow> subscriber_lost s
         | Some c \<Rightarrow>
             (let needs_keyframe = ss_needs_keyframe s;
                  s = s\<lparr>ss_needs_keyframe := False\<rparr>;
                  p = ss_producer s;
                  force_keyframe = (fu_kind u = SelfContainedKeyframe \<or> needs_keyframe \<or> ss_sequence s = 0 \<or>
                    unat (ss_sequence s) mod KEYFRAME_INTERVAL_FRAMES = 0);
                  (g, r, kind, pixels, stride) =
                    (if fu_kind u = SelfContainedKeyframe
                     then (fu_geometry u, fu_rect u, Keyframe, fu_pixels u, unat (fr_width (fu_rect u)))
                     else case (if force_keyframe \<and> pr_has_full_frame_base p then pr_latest_geometry p else None) of
                       Some g \<Rightarrow> (g, full_frame_rect g, Keyframe, pr_latest_pixels p, unat (fg_stride_pixels g))
                     | None \<Rightarrow> (fu_geometry u, fu_rect u, RectDelta, fu_pixels u, unat (fr_width (fu_rect u))));
                  raw = rgb565_rect_bytes pixels r stride 0 0
              in if raw = [] then (if force_keyframe then s\<lparr>ss_needs_keyframe := True\<rparr> else s)
                 else (let s = s\<lparr>ss_sequence := sat_add (ss_sequence s) 1\<rparr>
                   in case write_job lz connected (ss_sequence s) g r kind (fu_captured_at_us u) raw of
                        Some (h, payload) \<Rightarrow> s\<lparr>ss_sent := ss_sent s @ [(c, h, payload)]\<rparr>
                      | None \<Rightarrow> subscriber_lost (s\<lparr>ss_connection := None\<rparr>))))"

definition worker_timeout :: "bool \<Rightarrow> u64 \<Rightarrow> stream_state \<Rightarrow> stream_state" where
  "worker_timeout connected now_us s =
     (case ss_connection s of
        None \<Rightarrow> s
      | Some c \<Rightarrow>
          if connected \<and> fst (write_frame (heartbeat_header now_us) [] []) = Inr ()
          then s\<lparr>ss_sent := ss_sent s @ [(c, heartbeat_header now_us, [])]\<rparr>
          else subscriber_lost (s\<lparr>ss_connection := None\<rparr>))"

definition worker_handle :: "lz4 \<Rightarrow> bool \<Rightarrow> u64 \<Rightarrow> worker_event \<Rightarrow> stream_state \<Rightarrow> stream_state" where
  "worker_handle lz connected now_us event s =
     (case event of
        Subscriber c \<Rightarrow> s\<lparr>ss_connection := Some c, ss_sequence := 0, ss_needs_keyframe := True\<rparr>
      | FrameEvent u \<Rightarrow> worker_frame lz connected u s
      | Timeout \<Rightarrow> worker_timeout connected now_us s
      | Disconnected \<Rightarrow> subscriber_lost (s\<lparr>ss_pending := False, ss_stopped := True\<rparr>))"

section \<open>Steps\<close>

datatype stream_op =
    Connect nat
  | PublishStrided frame_geometry frame_rect "u16 list" nat nat nat u64
  | PublishDense frame_geometry frame_rect "u16 list" u64
  | PublishCached frame_geometry frame_rect "u16 list" u64
  | PublishSnapshot latch_stream_mode stream_source latch_stream_scale u64
  | WorkerReceives
  | WorkerHandles bool u64

text \<open>The worker alternates between receiving an event and handling it.\<close>

fun stream_step :: "lz4 \<Rightarrow> stream_state \<Rightarrow> stream_op \<Rightarrow> stream_state" where
  "stream_step lz s (Connect c) = install_subscriber c s"
| "stream_step lz s (PublishStrided g r pixels stride x y now_us) = publish_strided_rect g r pixels stride x y now_us s"
| "stream_step lz s (PublishDense g r pixels now_us) = publish_dense_rect g r pixels now_us s"
| "stream_step lz s (PublishCached g r pixels now_us) = publish_cached_rect g r pixels now_us s"
| "stream_step lz s (PublishSnapshot mode v scale now_us) = snd (publish_latch_snapshot mode v scale now_us s)"
| "stream_step lz s WorkerReceives =
     (if ss_stopped s \<or> ss_event s \<noteq> None then s else (let (e, s) = recv_timeout s in s\<lparr>ss_event := Some e\<rparr>))"
| "stream_step lz s (WorkerHandles connected now_us) =
     (case ss_event s of None \<Rightarrow> s | Some e \<Rightarrow> worker_handle lz connected now_us e (s\<lparr>ss_event := None\<rparr>))"


section \<open>Starving\<close>

fun no_connect :: "stream_op \<Rightarrow> bool" where
  "no_connect (Connect c) \<longleftrightarrow> False"
| "no_connect _ \<longleftrightarrow> True"

fun no_frame :: "worker_event option \<Rightarrow> bool" where
  "no_frame (Some (FrameEvent u)) \<longleftrightarrow> False"
| "no_frame _ \<longleftrightarrow> True"

text \<open>Nothing is published, nothing is queued, and the worker has no frame in its hands.\<close>

definition silent :: "stream_state \<Rightarrow> bool" where
  "silent s \<longleftrightarrow> \<not> ss_active s \<and> ss_frame s = None \<and> no_frame (ss_event s)"

definition only_heartbeats :: "stream_state \<Rightarrow> stream_state \<Rightarrow> bool" where
  "only_heartbeats s s' \<longleftrightarrow> (\<exists>sent. ss_sent s' = ss_sent s @ sent \<and> (\<forall>(c, h, payload) \<in> set sent. fh_kind h = Heartbeat))"

lemma only_heartbeats_refl: "only_heartbeats s s"
  by (simp add: only_heartbeats_def)

lemma only_heartbeats_trans: "only_heartbeats s s' \<Longrightarrow> only_heartbeats s' s'' \<Longrightarrow> only_heartbeats s s''"
  by (fastforce simp: only_heartbeats_def)

lemma silent_step:
  assumes "silent s" "no_connect op1"
  shows "silent (stream_step lz s op1) \<and> only_heartbeats s (stream_step lz s op1)"
proof (cases op1)
  case WorkerReceives
  then show ?thesis
    using assms by (auto simp: silent_def only_heartbeats_def recv_timeout_def split: option.split prod.split)
next
  case (WorkerHandles connected now_us)
  then show ?thesis
    using assms by (auto simp: silent_def only_heartbeats_def worker_handle_def worker_timeout_def subscriber_lost_def
        clear_snapshot_requests_def heartbeat_header_def split: option.splits worker_event.splits)
qed (use assms in \<open>auto simp: silent_def only_heartbeats_def publish_strided_rect_def publish_dense_rect_def publish_cached_rect_def
    publish_latch_snapshot_def\<close>)

lemma silent_run:
  "silent s \<Longrightarrow> list_all no_connect ops \<Longrightarrow>
   silent (run_steps (stream_step lz) s ops) \<and> only_heartbeats s (run_steps (stream_step lz) s ops)"
proof (induction ops arbitrary: s)
  case (Cons op1 ops)
  then show ?case
    using silent_step [of s op1 lz] only_heartbeats_trans by fastforce
qed (simp add: only_heartbeats_refl)

text \<open>
  A schedule: a viewer connects, a frame is queued, the write of it fails while another frame is already
  queued; the worker has taken that one when the next viewer connects, and then handles it.
\<close>

definition dot :: frame_geometry where
  "dot = \<lparr>fg_width = 1, fg_height = 1, fg_stride_pixels = 1\<rparr>"

definition starving_schedule :: "stream_op list" where
  "starving_schedule =
     [Connect 1, WorkerReceives, WorkerHandles True 0,
      PublishStrided dot (full_frame_rect dot) [7] 1 0 0 0, WorkerReceives,
      PublishStrided dot (full_frame_rect dot) [8] 1 0 0 0, WorkerHandles False 0,
      WorkerReceives, Connect 2, WorkerHandles True 0,
      WorkerReceives, WorkerHandles True 0]"

lemma write_job_disconnected: "write_job lz False sequence g r kind captured raw = None"
  by (simp add: write_job_def Let_def)

lemma collect_dot: "collect_strided_rect [p] 1 0 0 (full_frame_rect dot) = Some [p]"
  by (simp add: collect_strided_rect_def full_frame_rect_def dot_def checked_add_def checked_mul_def get_slice_def slice_def USIZE_MAX_def)

lemma remember_dot: "remember_rect_pixels dot (full_frame_rect dot) [p] producer_new =
   \<lparr>pr_latest_geometry = Some dot, pr_latest_pixels = [p], pr_has_full_frame_base = True\<rparr>"
  by (simp add: remember_rect_pixels_def producer_new_def u32_checked_mul_def is_full_frame_def full_frame_rect_def dot_def
      copy_rect_into_latest_def Let_def usize_sat_def get_slice_def slice_def put_at_def USIZE_MAX_def)

lemma bytes_dot: "rgb565_rect_bytes [p] (full_frame_rect dot) 1 0 0 = le16 p" "le16 p \<noteq> []"
  by (simp_all add: rgb565_rect_bytes_def full_frame_rect_def dot_def usize_sat_def USIZE_MAX_def pixel_bytes_def to_le_def)

lemma starved: "\<exists>s. run_steps (stream_step lz) stream_start starving_schedule = s \<and> ss_connection s = Some 2 \<and> silent s"
proof -
  have one: "unat (fg_stride_pixels dot) = 1" "unat (fr_width (full_frame_rect dot)) = 1"
    by (simp_all add: dot_def full_frame_rect_def)
  note steps = install_subscriber_def push_subscriber_def recv_timeout_def worker_handle_def publish_strided_rect_def publish_rect_def
    push_frame_def subscriber_lost_def clear_snapshot_requests_def collect_dot
  let ?u = "\<lambda>p. \<lparr>fu_geometry = dot, fu_rect = full_frame_rect dot, fu_pixels = [p], fu_captured_at_us = 0, fu_kind = Delta\<rparr>"
  have fails: "worker_frame lz False (?u p) s = subscriber_lost (s\<lparr>ss_connection := None, ss_needs_keyframe := False, ss_sequence := sat_add (ss_sequence s) 1,
     ss_producer := \<lparr>pr_latest_geometry = Some dot, pr_latest_pixels = [p], pr_has_full_frame_base = True\<rparr>\<rparr>)"
    if "ss_connection s = Some c" "ss_sequence s = 0" "ss_producer s = producer_new" for s :: stream_state and c p
    using that by (simp add: worker_frame_def Let_def remember_dot bytes_dot [unfolded One_nat_def] write_job_disconnected one subscriber_lost_def clear_snapshot_requests_def)
  have lost: "worker_frame lz True (?u p) s = subscriber_lost (s\<lparr>ss_producer := remember_rect_pixels dot (full_frame_rect dot) [p] (ss_producer s)\<rparr>)"
    if "ss_connection s = None" for s :: stream_state and p
    using that by (simp add: worker_frame_def Let_def)
  let ?dot = "\<lparr>pr_latest_geometry = Some dot, pr_latest_pixels = [7], pr_has_full_frame_base = True\<rparr>"
  let ?run = "run_steps (stream_step lz)"
  let ?s1 = "stream_start\<lparr>ss_active := True, ss_full_requested := True, ss_connection := Some 1\<rparr>"
  let ?s2 = "?s1\<lparr>ss_frame := Some (?u 8), ss_pending := True, ss_event := Some (FrameEvent (?u 7))\<rparr>"
  let ?s3 = "stream_start\<lparr>ss_active := True, ss_full_requested := True, ss_sequence := 1, ss_producer := ?dot,
     ss_subscriber := Some 2, ss_event := Some (FrameEvent (?u 8))\<rparr>"
  have s1: "?run stream_start [Connect 1, WorkerReceives, WorkerHandles True 0] = ?s1"
    by (simp add: steps stream_start_def)
  have s2: "?run ?s1 [PublishStrided dot (full_frame_rect dot) [7] 1 0 0 0, WorkerReceives,
      PublishStrided dot (full_frame_rect dot) [8] 1 0 0 0] = ?s2"
    by (simp add: steps [unfolded One_nat_def] stream_start_def)
  have s3: "?run ?s2 [WorkerHandles False 0, WorkerReceives, Connect 2] = ?s3"
    by (simp add: stream_start_def worker_handle_def fails [of _ 1])
      (simp add: steps sat_add_def)
  have s4: "\<exists>s. ?run ?s3 [WorkerHandles True 0, WorkerReceives, WorkerHandles True 0] = s \<and> ss_connection s = Some 2 \<and> silent s"
    by (simp add: stream_start_def worker_handle_def lost) (simp add: steps silent_def)
  have "?run stream_start starving_schedule =
      ?run (?run (?run (?run stream_start [Connect 1, WorkerReceives, WorkerHandles True 0])
        [PublishStrided dot (full_frame_rect dot) [7] 1 0 0 0, WorkerReceives, PublishStrided dot (full_frame_rect dot) [8] 1 0 0 0])
        [WorkerHandles False 0, WorkerReceives, Connect 2]) [WorkerHandles True 0, WorkerReceives, WorkerHandles True 0]"
    by (simp only: starving_schedule_def run_steps.simps)
  then show ?thesis
    unfolding s1 s2 s3 using s4 by simp
qed

text \<open>Blocks that are only stored: an instance of the compressor that the witnesses use.\<close>

definition stored_blocks :: lz4 where
  "stored_blocks = \<lparr>lz_compress = Some,
     lz_size = (\<lambda>bytes. if length bytes < 4 then None else Some (unat (from_le (take 4 bytes) :: u32), drop 4 bytes)),
     lz_decompress = (\<lambda>bytes n. if length bytes = n then Some bytes else None)\<rparr>"

section \<open>Properties\<close>

text \<open>
  C39: A viewer that is connected can be starved for ever. The worker, left without a connection by a failed
  write, may hold a frame taken from the queue while the next viewer is accepted; handling that frame
  clears the flag the new connection has just set, and only then does the worker take the connection. From
  there on the viewer is connected and the server believes that nobody is: whatever is published and
  however often the worker runs, nothing but heartbeats is sent until somebody else connects.
\<close>

theorem connected_viewer_can_starve:
  assumes "list_all no_connect later"
  shows "\<exists>s. run_steps (stream_step lz) stream_start starving_schedule = s \<and> ss_connection s = Some 2 \<and> \<not> ss_active s \<and>
    (let s' = run_steps (stream_step lz) s later
     in \<not> ss_active s' \<and> (\<exists>sent. ss_sent s' = ss_sent s @ sent \<and> (\<forall>(c, h, payload) \<in> set sent. fh_kind h = Heartbeat)))"
proof -
  obtain s where s: "run_steps (stream_step lz) stream_start starving_schedule = s" "ss_connection s = Some 2" "silent s"
    using starved by blast
  have "silent (run_steps (stream_step lz) s later)" "only_heartbeats s (run_steps (stream_step lz) s later)"
    using silent_run [OF s(3) assms] by simp_all
  then show ?thesis
    using s by (simp add: silent_def only_heartbeats_def)
qed

theorem connected_viewer_can_starve_witness:
  "\<exists>s. run_steps (stream_step stored_blocks) stream_start starving_schedule = s \<and> ss_connection s = Some 2 \<and> \<not> ss_active s \<and>
    (let s' = run_steps (stream_step stored_blocks) s [PublishDense dot (full_frame_rect dot) [9] 5, WorkerReceives, WorkerHandles True 6]
     in \<not> ss_active s' \<and> (\<exists>sent. ss_sent s' = ss_sent s @ sent \<and> (\<forall>(c, h, payload) \<in> set sent. fh_kind h = Heartbeat)))"
  by (rule connected_viewer_can_starve) simp

end
