(* ===== verification/Stream_Pixels.thy ===== *)
theory Stream_Pixels
  imports Stream_Producer
begin

text \<open>
  The stream server and its viewer together. The picture the worker remembers is followed pixel by pixel
  through the bytes of a rectangle, the compressor and the viewer: a viewer that reads the frames of a
  connection shows what the worker remembers. An update dropped from the queue never reaches either.
\<close>

section \<open>Equal chunks\<close>

lemma nth_concat_chunks:
  assumes "\<And>row. row \<in> set rows \<Longrightarrow> length row = w" "j < length rows" "i < w"
  shows "concat rows ! (j * w + i) = rows ! j ! i \<and> j * w + i < length (concat rows)"
  using assms
proof (induction rows arbitrary: j)
  case (Cons row rows)
  show ?case
  proof (cases j)
    case 0
    then show ?thesis
      using Cons.prems by (simp add: nth_append)
  next
    case (Suc k)
    then have "concat rows ! (k * w + i) = rows ! k ! i \<and> k * w + i < length (concat rows)"
      using Cons.prems by (intro Cons.IH) simp_all
    then show ?thesis
      using Cons.prems(1) Suc by (simp add: nth_append)
  qed
qed simp

lemma length_concat_chunks: "(\<And>row. row \<in> set rows \<Longrightarrow> length row = w) \<Longrightarrow> length (concat rows) = length rows * w"
  by (induction rows) simp_all

lemma pixel_bytes_pixel:
  assumes "i < length pixels"
  shows "slice (2 * i) (2 * i + 2) (pixel_bytes pixels) = le16 (pixels ! i)" "2 * i + 2 \<le> length (pixel_bytes pixels)"
proof -
  have rows: "length row = 2" if "row \<in> set (map le16 pixels)" for row
    using that by auto
  note chunk = nth_concat_chunks [of "map le16 pixels" 2 i, OF rows, unfolded pixel_bytes_def [symmetric]]
  have len: "length (pixel_bytes pixels) = length pixels * 2"
    using length_concat_chunks [of "map le16 pixels" 2, OF rows] by (simp add: pixel_bytes_def)
  then show room: "2 * i + 2 \<le> length (pixel_bytes pixels)"
    using assms by simp
  have "pixel_bytes pixels ! (i * 2 + 0) = le16 (pixels ! i) ! 0" "pixel_bytes pixels ! (i * 2 + 1) = le16 (pixels ! i) ! 1"
    using chunk [of 0] chunk [of 1] assms by simp_all
  then show "slice (2 * i) (2 * i + 2) (pixel_bytes pixels) = le16 (pixels ! i)"
    unfolding slice_two [OF room] by (simp add: to_le_def numeral_2_eq_2 mult.commute)
qed

lemma sequence_options_Some: "sequence_options xs = Some ys \<longleftrightarrow> map Some ys = xs"
proof (induction xs arbitrary: ys)
  case (Cons x xs)
  then show ?case
    by (cases x; cases ys) (auto simp: Option.bind_eq_Some_conv)
qed auto


section \<open>A pixel that nothing touches\<close>

definition rect_in :: "frame_geometry \<Rightarrow> frame_rect \<Rightarrow> bool" where
  "rect_in g r \<longleftrightarrow> unat (fr_x r) + unat (fr_width r) \<le> unat (fg_width g) \<and> unat (fr_y r) + unat (fr_height r) \<le> unat (fg_height g)"

definition geometry_ok :: "frame_geometry \<Rightarrow> bool" where
  "geometry_ok g \<longleftrightarrow> 0 < unat (fg_width g) \<and> 0 < unat (fg_height g) \<and> unat (fg_width g) \<le> unat (fg_stride_pixels g) \<and>
     unat (fg_stride_pixels g) * unat (fg_height g) * 2 \<le> MAX_FRAME_SURFACE_BYTES"

definition in_geometry :: "frame_geometry \<Rightarrow> nat \<Rightarrow> nat \<Rightarrow> bool" where
  "in_geometry g x y \<longleftrightarrow> x < unat (fg_width g) \<and> y < unat (fg_height g)"

definition rect_pixel :: "frame_rect \<Rightarrow> u16 list \<Rightarrow> nat \<Rightarrow> nat \<Rightarrow> u16" where
  "rect_pixel r pixels x y = pixels ! ((y - unat (fr_y r)) * unat (fr_width r) + (x - unat (fr_x r)))"

lemma surface_small: "geometry_ok g \<Longrightarrow> unat (fg_stride_pixels g) * unat (fg_height g) < USIZE_MAX"
proof -
  have "n < 2 ^ 32 - 1" if "n * 2 \<le> 16 * 1024 * 1024" for n :: nat
    using that by simp
  then show "geometry_ok g \<Longrightarrow> unat (fg_stride_pixels g) * unat (fg_height g) < USIZE_MAX"
    unfolding geometry_ok_def MAX_FRAME_SURFACE_BYTES_def USIZE_MAX_def by blast
qed

lemma usize_sat_id [simp]: "n \<le> USIZE_MAX \<Longrightarrow> usize_sat n = n"
  by (simp add: usize_sat_def)

lemma copy_latest_draws:
  assumes g: "geometry_ok g" "rect_in g r" "0 < unat (fr_width r)"
    and latest: "length latest = unat (fg_stride_pixels g) * unat (fg_height g)"
    and pixels: "length pixels = unat (fr_width r) * unat (fr_height r)" and at: "in_geometry g x y"
  shows "length (copy_rect_into_latest latest g r pixels) = length latest"
    "copy_rect_into_latest latest g r pixels ! (y * unat (fg_stride_pixels g) + x) =
       (if in_frame_rect r x y then rect_pixel r pixels x y else latest ! (y * unat (fg_stride_pixels g) + x))"
proof -
  let ?s = "unat (fg_stride_pixels g)" and ?h = "unat (fg_height g)" and ?w = "unat (fr_width r)" and ?n = "unat (fr_height r)"
  let ?x = "unat (fr_x r)" and ?y = "unat (fr_y r)"
  have shape: "?x + ?w \<le> ?s" "?y + ?n \<le> ?h" "x < ?s"
    using g at by (simp_all add: geometry_ok_def rect_in_def in_geometry_def)
  have rows: "length (copy_latest_rows [m..<?n] g r pixels latest) = length latest \<and>
      copy_latest_rows [m..<?n] g r pixels latest ! (y * ?s + x) =
        (if ?y + m \<le> y \<and> y < ?y + ?n \<and> ?x \<le> x \<and> x < ?x + ?w then rect_pixel r pixels x y else latest ! (y * ?s + x))"
    if "m \<le> ?n" "length latest = ?s * ?h" for m latest
    using that
  proof (induction "?n - m" arbitrary: m latest)
    case (Suc k)
    then have m: "m < ?n" "k = ?n - Suc m" "[m..<?n] = m # [Suc m..<?n]"
      by (simp_all add: upt_conv_Cons)
    have "(?y + m + 1) * ?s \<le> ?h * ?s"
      using m(1) shape(2) by (intro mult_le_mono1) simp
    then have dst: "(?y + m) * ?s + ?x + ?w \<le> length latest"
      using shape(1) Suc.prems(2) by (simp add: ac_simps)
    have "(m + 1) * ?w \<le> ?n * ?w"
      using m(1) by (intro mult_le_mono1) simp
    then have src: "m * ?w + ?w \<le> length pixels"
      by (simp add: pixels ac_simps)
    have "?n * ?w \<le> ?h * ?s"
      using shape(1,2) by (intro mult_le_mono) simp_all
    then have limits: "length latest < USIZE_MAX" "length pixels < USIZE_MAX"
      using surface_small [OF g(1)] Suc.prems(2) by (simp_all add: pixels ac_simps)
    have "?y + m < ?h" "?h < 2 ^ 32"
      using m(1) shape(2) unsigned_less [of "fg_height g", where 'a = nat] by simp_all
    then have wraps: "(?y + m) mod Suc USIZE_MAX = ?y + m"
      by (simp add: USIZE_MAX_def)
    define row where "row = slice (m * ?w) (m * ?w + ?w) pixels"
    have row: "length row = ?w" "\<And>i. i < ?w \<Longrightarrow> row ! i = pixels ! (m * ?w + i)"
      using src by (simp_all add: row_def slice_def)
    have step: "copy_latest_rows [m..<?n] g r pixels latest =
        copy_latest_rows [Suc m..<?n] g r pixels (put_at ((?y + m) * ?s + ?x) row latest)"
    proof -
      have "usize_sat (m * ?w) = m * ?w" "usize_sat (m * ?w + ?w) = m * ?w + ?w" "usize_sat ((?y + m) * ?s) = (?y + m) * ?s"
        "usize_sat ((?y + m) * ?s + ?x) = (?y + m) * ?s + ?x" "usize_sat ((?y + m) * ?s + ?x + ?w) = (?y + m) * ?s + ?x + ?w"
        using src dst limits by (simp_all only: usize_sat_id)
      then show ?thesis
        using src dst by (simp add: m(3) Let_def wraps row_def)
    qed
    let ?latest = "put_at ((?y + m) * ?s + ?x) row latest"
    have "length ?latest = length latest"
      using dst row(1) by simp
    then have "k = ?n - Suc m" "Suc m \<le> ?n" "length ?latest = ?s * ?h"
      using m Suc.prems(2) by simp_all
    note IH = Suc.hyps(1) [OF this]
    have put: "?latest ! (y * ?s + x) = (if y = ?y + m \<and> ?x \<le> x \<and> x < ?x + ?w then row ! (x - ?x) else latest ! (y * ?s + x))"
      using put_row [OF row(1) shape(1,3) dst, of y] .
    have "row ! (x - ?x) = rect_pixel r pixels x y" if "y = ?y + m" "?x \<le> x" "x < ?x + ?w"
      using row(2) [of "x - ?x"] that by (simp add: rect_pixel_def)
    then show ?case
      using IH put \<open>length ?latest = length latest\<close> m(1) unfolding step by (auto simp: not_less_eq_eq)
  qed auto
  show "length (copy_rect_into_latest latest g r pixels) = length latest"
    "copy_rect_into_latest latest g r pixels ! (y * ?s + x) =
       (if in_frame_rect r x y then rect_pixel r pixels x y else latest ! (y * ?s + x))"
    using rows [of 0 latest] latest by (auto simp: copy_rect_into_latest_def in_frame_rect_def)
qed


section \<open>The bytes of a rectangle\<close>

lemma pixel_of_bytes: "i < length pixels \<Longrightarrow> from_le (slice (2 * i) (2 * i + 2) (pixel_bytes pixels)) = pixels ! i"
  using pixel_bytes_pixel [of i pixels] by simp

lemma length_pixel_bytes [simp]: "length (pixel_bytes pixels) = length pixels * 2"
  by (induction pixels) (simp_all add: pixel_bytes_def)

lemma index_in_rect:
  assumes "in_frame_rect r x y"
  shows "(y - unat (fr_y r)) * unat (fr_width r) + (x - unat (fr_x r)) < unat (fr_width r) * unat (fr_height r)"
proof -
  have "(y - unat (fr_y r) + 1) * unat (fr_width r) \<le> unat (fr_height r) * unat (fr_width r)"
    using assms by (intro mult_le_mono1) (auto simp: in_frame_rect_def)
  moreover have "x - unat (fr_x r) < unat (fr_width r)"
    using assms by (auto simp: in_frame_rect_def)
  ultimately show ?thesis
    by (simp add: ac_simps)
qed

lemma dense_bytes:
  assumes "length pixels = unat (fr_width r) * unat (fr_height r)" "length pixels \<le> USIZE_MAX"
  shows "rgb565_rect_bytes pixels r (unat (fr_width r)) 0 0 = pixel_bytes pixels"
  using assms by (simp add: rgb565_rect_bytes_def Let_def)

lemma dense_pixel:
  assumes "length pixels = unat (fr_width r) * unat (fr_height r)" "in_frame_rect r x y"
  shows "raw_pixel r (pixel_bytes pixels) x y = rect_pixel r pixels x y"
  using pixel_of_bytes [of "(y - unat (fr_y r)) * unat (fr_width r) + (x - unat (fr_x r))" pixels] index_in_rect [OF assms(2)] assms(1)
  by (simp add: raw_pixel_def rect_pixel_def Let_def)

text \<open>The whole surface, whether it is packed or not.\<close>

lemma surface_pixel:
  assumes g: "geometry_ok g" "length latest = unat (fg_stride_pixels g) * unat (fg_height g)"
    and raw: "rgb565_rect_bytes latest (full_frame_rect g) (unat (fg_stride_pixels g)) 0 0 = raw" and at: "in_geometry g x y"
  shows "raw_pixel (full_frame_rect g) raw x y = latest ! (y * unat (fg_stride_pixels g) + x)" "raw \<noteq> []"
proof -
  let ?s = "unat (fg_stride_pixels g)" and ?w = "unat (fg_width g)" and ?h = "unat (fg_height g)"
  have xy: "x < ?w" "y < ?h" "?w \<le> ?s" "in_frame_rect (full_frame_rect g) x y"
    using g(1) at by (auto simp: in_geometry_def geometry_ok_def in_frame_rect_def full_frame_rect_def)
  have nonempty: "pixel_bytes pixels \<noteq> []" if "length pixels = ?w * ?h" for pixels
    using that xy(1,2) length_pixel_bytes [of pixels] by (metis length_0_conv mult_is_0 not_less_zero zero_neq_numeral)
  have limit: "length latest < USIZE_MAX"
    using surface_small [OF g(1)] g(2) by simp
  have "raw_pixel (full_frame_rect g) raw x y = latest ! (y * ?s + x) \<and> raw \<noteq> []"
  proof (cases "?w = ?s")
    case True
    then have "raw = pixel_bytes latest"
      using raw dense_bytes [of latest "full_frame_rect g"] g(2) limit by (simp add: full_frame_rect_def)
    then show ?thesis
      using dense_pixel [OF _ xy(4), of latest] nonempty [of latest] g(2) True by (simp add: rect_pixel_def full_frame_rect_def)
  next
    case False
    define row where "row = (\<lambda>j. slice (j * ?s) (j * ?s + ?w) latest)"
    have room: "j * ?s + ?s \<le> length latest" if "j < ?h" for j
      using mult_le_mono1 [of "j + 1" ?h ?s] that by (simp add: g(2) ac_simps)
    have rows: "(let start = usize_sat (usize_sat (usize_sat (0 + j) * ?s) + 0) in get_slice start (usize_sat (start + ?w)) latest) = Some (row j)"
      if "j < ?h" for j
    proof -
      have "?h < 2 ^ 32"
        using unsigned_less [of "fg_height g", where 'a = nat] by simp
      then have "usize_sat j = j" "usize_sat (j * ?s) = j * ?s" "usize_sat (j * ?s + ?w) = j * ?s + ?w"
        using room [OF that] xy(3) limit that by (simp_all add: USIZE_MAX_def usize_sat_def)
      then show ?thesis
        using room [OF that] xy(3) by (simp add: row_def Let_def)
    qed
    have "sequence_options (map (\<lambda>j. let start = usize_sat (usize_sat (usize_sat (0 + j) * ?s) + 0)
        in get_slice start (usize_sat (start + ?w)) latest) [0..<?h]) = Some (map row [0..<?h])"
      unfolding sequence_options_Some map_map by (rule map_cong) (simp_all only: rows atLeastLessThan_upt [symmetric] atLeastLessThan_iff o_def)
    then have "raw = pixel_bytes (concat (map row [0..<?h]))"
      using raw False by (simp add: rgb565_rect_bytes_def full_frame_rect_def Let_def)
    moreover have "length (row j) = ?w" if "j < ?h" for j
      using room [OF that] xy(3) by (simp add: row_def)
    then have lens: "\<And>r. r \<in> set (map row [0..<?h]) \<Longrightarrow> length r = ?w"
      by auto
    then have "concat (map row [0..<?h]) ! (y * ?w + x) = row y ! x" "length (concat (map row [0..<?h])) = ?w * ?h"
      using nth_concat_chunks [where rows = "map row [0..<?h]" and w = ?w and j = y and i = x, OF lens]
        length_concat_chunks [where rows = "map row [0..<?h]" and w = ?w, OF lens] xy
      by simp_all
    moreover have "row y ! x = latest ! (y * ?s + x)"
      using room [OF xy(2)] xy(1,3) by (simp add: row_def slice_def)
    ultimately show ?thesis
      using dense_pixel [OF _ xy(4), of "concat (map row [0..<?h])"] nonempty [of "concat (map row [0..<?h])"]
      by (simp add: rect_pixel_def full_frame_rect_def)
  qed
  then show "raw_pixel (full_frame_rect g) raw x y = latest ! (y * ?s + x)" "raw \<noteq> []"
    by simp_all
qed


section \<open>A frame that is sent\<close>

text \<open>The documented behaviour of \<open>lz4_flex\<close>: what it compressed it finds and decompresses again.\<close>

definition lz4_ok :: "lz4 \<Rightarrow> bool" where
  "lz4_ok lz \<longleftrightarrow> (\<forall>raw block n. lz_compress lz raw = Some block \<longrightarrow>
     lz_decompress lz block (length raw) = Some raw \<and> lz_size lz (le32 n @ block) = Some (unat n, block))"

definition sent_frame :: "lz4 \<Rightarrow> (nat \<Rightarrow> bool) \<Rightarrow> frame_header \<Rightarrow> u8 list \<Rightarrow> u8 list \<Rightarrow> bool" where
  "sent_frame lz reserve h payload raw \<longleftrightarrow> well_shaped h \<and> fh_flags h = FLAG_LZ4_SIZE_PREPENDED \<and>
     decompress_size_prepended_exact lz reserve payload (unat (fh_raw_bytes h)) MAX_FRAME_SURFACE_BYTES = Inr raw"

lemma well_shaped_geometry:
  assumes "well_shaped h"
  shows "geometry_ok (fh_geometry h)" "rect_in (fh_geometry h) (fh_rect h)" "0 < unat (fr_width (fh_rect h))"
    "unat (fh_raw_bytes h) = unat (fr_width (fh_rect h)) * unat (fr_height (fh_rect h)) * 2"
  using assms by (auto simp: well_shaped_def Let_def geometry_ok_def rect_in_def)

lemma write_frame_shaped:
  "fst (write_frame h payload writer) = Inr () \<Longrightarrow> fh_kind h = Keyframe \<or> fh_kind h = RectDelta \<Longrightarrow> well_shaped h"
  by (auto simp: write_frame_def validate_frame_for_transport_def validate_frame_shape_for_transport_def
      validate_shape_iff [symmetric] split: sum.splits if_splits)

lemma written_job:
  assumes job: "write_job lz connected sequence g r kind captured raw = Some (h, payload)" and kind: "kind = Keyframe \<or> kind = RectDelta"
    and lz: "lz4_ok lz" "\<forall>n \<le> MAX_FRAME_SURFACE_BYTES. reserve n"
  shows "fh_kind h = kind" "fh_sequence h = sequence" "fh_geometry h = g" "fh_rect h = r" "sent_frame lz reserve h payload raw"
proof -
  obtain block where block: "lz_compress lz raw = Some block" "payload = le32 (of_nat (length raw)) @ block" "length raw < 2 ^ 32"
    and h: "h = \<lparr>fh_kind = kind, fh_flags = FLAG_LZ4_SIZE_PREPENDED, fh_sequence = sequence, fh_timestamp_us = captured,
      fh_geometry = g, fh_rect = r, fh_raw_bytes = of_nat (length raw), fh_payload_bytes = of_nat (length payload)\<rparr>"
    and written: "fst (write_frame h payload []) = Inr ()"
    using job by (auto simp: write_job_def compress_size_prepended_def Option.bind_eq_Some_conv Let_def split: if_splits)
  show fields: "fh_kind h = kind" "fh_sequence h = sequence" "fh_geometry h = g" "fh_rect h = r"
    by (simp_all add: h)
  have shaped: "well_shaped h"
    using write_frame_shaped [OF written] kind fields(1) by simp
  have size: "unat (fh_raw_bytes h) = length raw" "unat (of_nat (length raw) :: u32) = length raw"
    using block(3) by (simp_all add: h unat_of_nat_small)
  have "unat (fr_width r) * unat (fr_height r) \<le> unat (fg_stride_pixels g) * unat (fg_height g)"
    using shaped by (intro mult_le_mono) (auto simp: well_shaped_def Let_def fields)
  then have "length raw \<le> MAX_FRAME_SURFACE_BYTES"
    using well_shaped_geometry [OF shaped] size(1) by (simp add: geometry_ok_def fields)
  then show "sent_frame lz reserve h payload raw"
    using shaped lz block size
    by (simp add: sent_frame_def decompress_size_prepended_exact_def decompress_block_exact_def zeroed_buffer_def lz4_ok_def h)
qed

section \<open>What the viewer has seen\<close>

text \<open>The viewer applies the frames of its connection one after the other; heartbeats say nothing.\<close>

fun watch :: "lz4 \<Rightarrow> (nat \<Rightarrow> bool) \<Rightarrow> viewer_state \<Rightarrow> (nat \<times> frame_header \<times> u8 list) list \<Rightarrow> viewer_error + viewer_state" where
  "watch lz reserve v [] = Inr v"
| "watch lz reserve v ((c, h, payload) # frames) =
     (if fh_kind h = Heartbeat then watch lz reserve v frames
      else case apply_frame lz reserve h payload v of
        (Inl e, v) \<Rightarrow> Inl e
      | (Inr _, v) \<Rightarrow> watch lz reserve v frames)"

lemma watch_append: "watch lz reserve v (xs @ ys) = (case watch lz reserve v xs of Inl e \<Rightarrow> Inl e | Inr v \<Rightarrow> watch lz reserve v ys)"
  by (induction xs arbitrary: v) (auto split: sum.split prod.split)

text \<open>The picture the worker remembers, and a viewer that shows it unless it waits for a key frame.\<close>

definition remembered :: "producer_state \<Rightarrow> frame_geometry \<Rightarrow> nat \<Rightarrow> nat \<Rightarrow> u16" where
  "remembered p g x y = pr_latest_pixels p ! (y * unat (fg_stride_pixels g) + x)"

definition shows_remembered :: "producer_state \<Rightarrow> viewer_state \<Rightarrow> bool" where
  "shows_remembered p v \<longleftrightarrow> vs_awaiting_keyframe v \<or>
     (\<exists>g. vs_geometry v = Some g \<and> pr_latest_geometry p = Some g \<and>
        (\<forall>x y. in_geometry g x y \<longrightarrow> picture_of g (vs_rgb565 v) x y = remembered p g x y))"

definition in_step :: "stream_state \<Rightarrow> viewer_state \<Rightarrow> bool" where
  "in_step s v \<longleftrightarrow> viewer_ok v \<and> shows_remembered (ss_producer s) v \<and>
     (vs_awaiting_keyframe v \<or> vs_expected_sequence v = Some (sat_add (ss_sequence s) 1))"

definition producer_ok :: "producer_state \<Rightarrow> bool" where
  "producer_ok p \<longleftrightarrow> (\<forall>g. pr_latest_geometry p = Some g \<longrightarrow> geometry_ok g \<longrightarrow>
     length (pr_latest_pixels p) = unat (fg_stride_pixels g) * unat (fg_height g))"

definition delta_ok :: "frame_update \<Rightarrow> bool" where
  "delta_ok u \<longleftrightarrow> fu_kind u = Delta \<and> geometry_ok (fu_geometry u) \<and> fu_pixels u \<noteq> [] \<and> length (fu_pixels u) \<le> USIZE_MAX \<and>
     length (fu_pixels u) = unat (fr_width (fu_rect u)) * unat (fr_height (fu_rect u))"

lemma geometry_ok_product:
  assumes "geometry_ok g"
  shows "u32_checked_mul (fg_stride_pixels g) (fg_height g) = Some (fg_stride_pixels g * fg_height g)"
    "unat (fg_stride_pixels g * fg_height g) = unat (fg_stride_pixels g) * unat (fg_height g)"
proof -
  have "unat (fg_stride_pixels g) * unat (fg_height g) < 2 ^ 32"
    using surface_small [OF assms] by (simp add: USIZE_MAX_def)
  then show "u32_checked_mul (fg_stride_pixels g) (fg_height g) = Some (fg_stride_pixels g * fg_height g)"
    "unat (fg_stride_pixels g * fg_height g) = unat (fg_stride_pixels g) * unat (fg_height g)"
    by (simp_all add: u32_checked_mul_def unat_word_ariths)
qed

lemma length_copy_rows:
  assumes "length pixels = unat (fr_width r) * unat (fr_height r)" "length pixels \<le> USIZE_MAX"
    "\<forall>row \<in> set rows. row < unat (fr_height r)" "length latest < USIZE_MAX"
  shows "length (copy_latest_rows rows g r pixels latest) = length latest"
  using assms(3,4)
proof (induction rows arbitrary: latest)
  case (Cons row rows)
  let ?w = "unat (fr_width r)"
  have "(row + 1) * ?w \<le> unat (fr_height r) * ?w"
    using Cons.prems by (intro mult_le_mono1) simp
  then have src: "row * ?w + ?w \<le> length pixels"
    using assms(1) by (simp add: ac_simps)
  have no_sat: "n + ?w \<le> length latest" if "usize_sat (n + ?w) \<le> length latest" for n
    using that Cons.prems(2) by (auto simp: usize_sat_def min_def split: if_splits)
  have "usize_sat (row * ?w) = row * ?w" "usize_sat (row * ?w + ?w) = row * ?w + ?w"
    using src assms(2) by simp_all
  then show ?case
    using Cons src no_sat by (simp add: Let_def)
qed simp

lemma remember_ok:
  "pr_latest_geometry (remember_rect_pixels g r pixels p) = Some g"
  "length pixels = unat (fr_width r) * unat (fr_height r) \<Longrightarrow> length pixels \<le> USIZE_MAX \<Longrightarrow> producer_ok p \<Longrightarrow>
     producer_ok (remember_rect_pixels g r pixels p)"
proof -
  show "pr_latest_geometry (remember_rect_pixels g r pixels p) = Some g"
    by (simp add: remember_rect_pixels_def Let_def)
  assume "length pixels = unat (fr_width r) * unat (fr_height r)" "length pixels \<le> USIZE_MAX" "producer_ok p"
  then show "producer_ok (remember_rect_pixels g r pixels p)"
    using geometry_ok_product [of g] surface_small [of g]
    by (auto simp: remember_rect_pixels_def producer_ok_def copy_rect_into_latest_def Let_def length_copy_rows)
qed

lemma remember_draws:
  assumes "producer_ok p" "pr_latest_geometry p = Some g" "geometry_ok g" "rect_in g r" "0 < unat (fr_width r)"
    "length pixels = unat (fr_width r) * unat (fr_height r)" "in_geometry g x y"
  shows "remembered (remember_rect_pixels g r pixels p) g x y =
    (if in_frame_rect r x y then rect_pixel r pixels x y else remembered p g x y)"
proof -
  have len: "length (pr_latest_pixels p) = unat (fg_stride_pixels g) * unat (fg_height g)"
    using assms(1-3) by (simp add: producer_ok_def)
  have "remember_rect_pixels g r pixels p = (let p = p\<lparr>pr_latest_pixels := copy_rect_into_latest (pr_latest_pixels p) g r pixels\<rparr>
      in if is_full_frame g r then p\<lparr>pr_has_full_frame_base := True\<rparr> else p)"
    using assms(2) len geometry_ok_product [OF assms(3)] by (simp add: remember_rect_pixels_def)
  then show ?thesis
    using copy_latest_draws(2) [OF assms(3-5) len assms(6,7)] by (simp add: remembered_def Let_def)
qed

text \<open>What the worker takes from the queue: rectangles only, and no new connection.\<close>

definition rects_queued :: "stream_state \<Rightarrow> bool" where
  "rects_queued s \<longleftrightarrow> ss_subscriber s = None \<and> (\<forall>c. ss_event s \<noteq> Some (Subscriber c)) \<and> producer_ok (ss_producer s) \<and>
     (\<forall>u. ss_frame s = Some u \<longrightarrow> delta_ok u) \<and> (\<forall>u. ss_event s = Some (FrameEvent u) \<longrightarrow> delta_ok u)"

fun publishes_rects :: "stream_op \<Rightarrow> bool" where
  "publishes_rects (Connect c) \<longleftrightarrow> False"
| "publishes_rects (PublishStrided g r pixels stride x y now_us) \<longleftrightarrow> geometry_ok g"
| "publishes_rects (PublishDense g r pixels now_us) \<longleftrightarrow> geometry_ok g"
| "publishes_rects (PublishCached g r pixels now_us) \<longleftrightarrow> geometry_ok g"
| "publishes_rects (PublishSnapshot mode v scale now_us) \<longleftrightarrow> False"
| "publishes_rects _ \<longleftrightarrow> True"

lemma collected_ok:
  assumes "collect_strided_rect pixels stride src_x src_y r = Some collected"
  shows "length collected = unat (fr_width r) * unat (fr_height r)" "length collected \<le> USIZE_MAX"
proof -
  let ?w = "unat (fr_width r)"
  obtain rows where rows: "checked_mul ?w (unat (fr_height r)) \<noteq> None" "collected = concat rows"
    "map Some rows = map (\<lambda>row. Option.bind (checked_add src_y row) (\<lambda>src_row. Option.bind (checked_mul src_row stride) (\<lambda>start.
           Option.bind (checked_add start src_x) (\<lambda>start. Option.bind (checked_add start ?w) (\<lambda>end_at.
             get_slice start end_at pixels))))) [0..<unat (fr_height r)]"
    using assms by (auto simp: collect_strided_rect_def Let_def Option.bind_eq_Some_conv sequence_options_Some split: if_splits option.splits)
  have "length row = ?w" if "row \<in> set rows" for row
  proof -
    have "Some row \<in> set (map Some rows)"
      using that by simp
    then show ?thesis
      unfolding rows(3) by (auto simp: Option.bind_eq_Some_conv get_slice_def checked_add_def slice_def split: if_splits dest!: sym [of "Some _"])
  qed
  then have "length (concat rows) = length rows * ?w"
    by (rule length_concat_chunks)
  moreover have "length rows = unat (fr_height r)"
    using arg_cong [OF rows(3), of length] by simp
  ultimately show "length collected = ?w * unat (fr_height r)" "length collected \<le> USIZE_MAX"
    using rows(1,2) by (simp_all add: checked_mul_def ac_simps split: if_splits)
qed


section \<open>The viewer follows the worker\<close>

lemma follow_keyframe:
  assumes "sent_frame lz reserve h payload raw" "fh_kind h = Keyframe" "viewer_ok v" "\<forall>n \<le> MAX_FRAME_SURFACE_BYTES. reserve n"
    and picture: "\<And>x y. in_geometry (fh_geometry h) x y \<Longrightarrow> raw_pixel (fh_rect h) raw x y = remembered p (fh_geometry h) x y"
    and "pr_latest_geometry p = Some (fh_geometry h)"
  shows "\<exists>picture v'. apply_frame lz reserve h payload v = (Inr picture, v') \<and> viewer_ok v' \<and> shows_remembered p v' \<and>
    vs_expected_sequence v' = Some (sat_add (fh_sequence h) 1) \<and> \<not> vs_awaiting_keyframe v' \<and> vs_geometry v' = Some (fh_geometry h)"
proof -
  have whole: "in_frame_rect (fh_rect h) x y" if "x < unat (fg_width (fh_geometry h))" "y < unat (fg_height (fh_geometry h))" for x y
    using assms(1,2) that by (simp add: sent_frame_def well_shaped_def Let_def in_frame_rect_def full_frame_rect_def)
  have "\<not> passed_over h v"
    using assms(2) by (simp add: passed_over_def)
  then show ?thesis
    using apply_frame_draws [of h v lz reserve payload raw] assms whole
    by (auto simp: sent_frame_def shows_remembered_def in_geometry_def)
qed

lemma follow_delta:
  assumes "sent_frame lz reserve h payload raw" "fh_kind h = RectDelta" "viewer_ok v" "\<forall>n \<le> MAX_FRAME_SURFACE_BYTES. reserve n"
    and before: "shows_remembered p v"
    and picture: "\<And>x y. pr_latest_geometry p = Some (fh_geometry h) \<Longrightarrow> in_geometry (fh_geometry h) x y \<Longrightarrow>
       remembered p' (fh_geometry h) x y =
         (if in_frame_rect (fh_rect h) x y then raw_pixel (fh_rect h) raw x y else remembered p (fh_geometry h) x y)"
    and "pr_latest_geometry p' = Some (fh_geometry h)"
  shows "\<exists>picture v'. apply_frame lz reserve h payload v = (Inr picture, v') \<and> viewer_ok v' \<and> shows_remembered p' v' \<and>
    (if passed_over h v then vs_awaiting_keyframe v'
     else vs_expected_sequence v' = Some (sat_add (fh_sequence h) 1) \<and> \<not> vs_awaiting_keyframe v' \<and> vs_geometry v' = Some (fh_geometry h))"
proof (cases "passed_over h v")
  case True
  then show ?thesis
    using apply_frame_draws [of h v lz reserve payload raw] assms(1-4) by (auto simp: sent_frame_def shows_remembered_def)
next
  case False
  then have "\<not> vs_awaiting_keyframe v" "vs_geometry v = Some (fh_geometry h)"
    using assms(2) by (auto simp: passed_over_def)
  then have "pr_latest_geometry p = Some (fh_geometry h)"
    "\<And>x y. in_geometry (fh_geometry h) x y \<Longrightarrow> picture_of (fh_geometry h) (vs_rgb565 v) x y = remembered p (fh_geometry h) x y"
    using before by (auto simp: shows_remembered_def)
  then show ?thesis
    using False apply_frame_draws [of h v lz reserve payload raw] assms(1-4,7) picture
    by (auto simp: sent_frame_def shows_remembered_def in_geometry_def)
qed

text \<open>What the worker does with a rectangle while it has a connection.\<close>

lemma worker_rect:
  fixes s :: stream_state
  assumes u: "delta_ok u" and c: "ss_connection s = Some c" and p: "producer_ok (ss_producer s)"
  defines "p' \<equiv> remember_rect_pixels (fu_geometry u) (fu_rect u) (fu_pixels u) (ss_producer s)"
  shows "\<exists>kind r raw. (kind = Keyframe \<and> r = full_frame_rect (fu_geometry u) \<and>
        raw = rgb565_rect_bytes (pr_latest_pixels p') r (unat (fg_stride_pixels (fu_geometry u))) 0 0 \<or>
      kind = RectDelta \<and> r = fu_rect u \<and> raw = pixel_bytes (fu_pixels u)) \<and>
    worker_frame lz connected u s =
      (let s1 = s\<lparr>ss_producer := p', ss_needs_keyframe := False, ss_sequence := sat_add (ss_sequence s) 1\<rparr>
       in case write_job lz connected (ss_sequence s1) (fu_geometry u) r kind (fu_captured_at_us u) raw of
            Some (h, payload) \<Rightarrow> s1\<lparr>ss_sent := ss_sent s @ [(c, h, payload)]\<rparr>
          | None \<Rightarrow> subscriber_lost (s1\<lparr>ss_connection := None\<rparr>))"
proof -
  let ?g = "fu_geometry u"
  have g: "geometry_ok ?g" "pr_latest_geometry p' = Some ?g" "producer_ok p'" "fu_kind u = Delta"
    using u p remember_ok [where g = ?g and r = "fu_rect u" and pixels = "fu_pixels u"] by (simp_all add: delta_ok_def p'_def)
  have len: "length (pr_latest_pixels p') = unat (fg_stride_pixels ?g) * unat (fg_height ?g)"
    using g by (simp add: producer_ok_def)
  have "in_geometry ?g 0 0"
    using g(1) by (simp add: geometry_ok_def in_geometry_def)
  then have key: "rgb565_rect_bytes (pr_latest_pixels p') (full_frame_rect ?g) (unat (fg_stride_pixels ?g)) 0 0 \<noteq> []"
    using surface_pixel(2) [OF g(1) len] by blast
  have dense: "rgb565_rect_bytes (fu_pixels u) (fu_rect u) (unat (fr_width (fu_rect u))) 0 0 = pixel_bytes (fu_pixels u)"
    using u by (intro dense_bytes) (simp_all add: delta_ok_def)
  have "pixel_bytes (fu_pixels u) \<noteq> []"
    using u length_pixel_bytes [of "fu_pixels u"] by (metis delta_ok_def length_0_conv mult_is_0 zero_neq_numeral)
  note nonempty = key this
  consider (key) "ss_needs_keyframe s \<or> ss_sequence s = 0 \<or> unat (ss_sequence s) mod KEYFRAME_INTERVAL_FRAMES = 0" "pr_has_full_frame_base p'"
    | (no_base) "\<not> pr_has_full_frame_base p'"
    | (unforced) "\<not> ss_needs_keyframe s" "ss_sequence s \<noteq> 0" "unat (ss_sequence s) mod KEYFRAME_INTERVAL_FRAMES \<noteq> 0"
    by blast
  then show ?thesis
  proof cases
    case key
    from key(2) nonempty(1) show ?thesis
      by (intro exI [of _ Keyframe] exI [of _ "full_frame_rect ?g"] exI conjI disjI1 refl)
        (simp_all add: worker_frame_def Let_def key(1) g(4) c p'_def [symmetric] g(2), simp split: option.split)
  next
    case no_base
    then show ?thesis
      using nonempty(2)
      by (intro exI [of _ RectDelta] exI [of _ "fu_rect u"] exI conjI disjI2 refl)
        (simp_all add: worker_frame_def Let_def g(4) c p'_def [symmetric] dense, simp split: option.split)
  next
    case unforced
    then show ?thesis
      using nonempty(2)
      by (intro exI [of _ RectDelta] exI [of _ "fu_rect u"] exI conjI disjI2 refl)
        (simp_all add: worker_frame_def Let_def g(4) c p'_def [symmetric] dense, simp split: option.split)
  qed
qed


definition showing :: "frame_geometry \<Rightarrow> viewer_state \<Rightarrow> bool" where
  "showing g v \<longleftrightarrow> \<not> vs_awaiting_keyframe v \<and> vs_geometry v = Some g"

lemma worker_follows:
  fixes s :: stream_state and connected :: bool
  assumes u: "delta_ok u" and c: "ss_connection s = Some c" and p: "producer_ok (ss_producer s)" and v: "in_step s v"
    and lz: "lz4_ok lz" "\<forall>n \<le> MAX_FRAME_SURFACE_BYTES. reserve n"
  defines "s' \<equiv> worker_frame lz connected u s"
  shows "\<exists>frames v'. ss_sent s' = ss_sent s @ frames \<and> watch lz reserve v frames = Inr v' \<and>
    (ss_connection s' \<noteq> None \<longrightarrow> in_step s' v' \<and> (showing (fu_geometry u) v \<longrightarrow> showing (fu_geometry u) v'))"
proof -
  define p' where "p' = remember_rect_pixels (fu_geometry u) (fu_rect u) (fu_pixels u) (ss_producer s)"
  obtain kind r raw where kind: "kind = Keyframe \<and> r = full_frame_rect (fu_geometry u) \<and>
        raw = rgb565_rect_bytes (pr_latest_pixels p') r (unat (fg_stride_pixels (fu_geometry u))) 0 0 \<or>
      kind = RectDelta \<and> r = fu_rect u \<and> raw = pixel_bytes (fu_pixels u)"
    and step: "s' = (let s1 = s\<lparr>ss_producer := p', ss_needs_keyframe := False, ss_sequence := sat_add (ss_sequence s) 1\<rparr>
       in case write_job lz connected (ss_sequence s1) (fu_geometry u) r kind (fu_captured_at_us u) raw of
            Some (h, payload) \<Rightarrow> s1\<lparr>ss_sent := ss_sent s @ [(c, h, payload)]\<rparr>
          | None \<Rightarrow> subscriber_lost (s1\<lparr>ss_connection := None\<rparr>))"
    using worker_rect [OF u c p, of lz connected] unfolding s'_def [symmetric] p'_def [symmetric] by (elim exE conjE) (rule that)
  show ?thesis
  proof (cases "write_job lz connected (sat_add (ss_sequence s) 1) (fu_geometry u) r kind (fu_captured_at_us u) raw")
    case None
    then have "ss_connection s' = None" "ss_sent s' = ss_sent s @ []"
      by (simp_all add: step Let_def subscriber_lost_def clear_snapshot_requests_def)
    then show ?thesis
      by (intro exI [of _ "[]"]) simp
  next
    case (Some hp)
    then obtain h payload where job: "write_job lz connected (sat_add (ss_sequence s) 1) (fu_geometry u) r kind (fu_captured_at_us u) raw = Some (h, payload)"
      by (cases hp) auto
    have "kind = Keyframe \<or> kind = RectDelta"
      using kind by blast
    note h = written_job [OF job this lz]
    have s': "ss_sent s' = ss_sent s @ [(c, h, payload)]" "ss_producer s' = p'" "ss_sequence s' = sat_add (ss_sequence s) 1"
      by (simp_all add: step Let_def job)
    note shape = well_shaped_geometry [of h, unfolded h(3,4)]
    have p': "producer_ok p'" "pr_latest_geometry p' = Some (fu_geometry u)"
      using remember_ok u p by (auto simp: p'_def delta_ok_def)
    have shaped: "well_shaped h"
      using h(5) by (simp add: sent_frame_def)
    have ok: "viewer_ok v" "shows_remembered (ss_producer s) v"
      using v by (simp_all add: in_step_def)
    have "\<exists>picture v'. apply_frame lz reserve h payload v = (Inr picture, v') \<and> in_step s' v' \<and>
        (showing (fu_geometry u) v \<longrightarrow> showing (fu_geometry u) v')"
      using kind
    proof
      assume key: "kind = Keyframe \<and> r = full_frame_rect (fu_geometry u) \<and>
        raw = rgb565_rect_bytes (pr_latest_pixels p') r (unat (fg_stride_pixels (fu_geometry u))) 0 0"
      have "raw_pixel r raw x y = remembered p' (fu_geometry u) x y" if "in_geometry (fu_geometry u) x y" for x y
        using surface_pixel(1) [OF shape(1) _ _ that, of "pr_latest_pixels p'" raw] p' shape(1) shaped key
        by (simp add: producer_ok_def remembered_def)
      then show ?thesis
        using follow_keyframe [OF h(5) _ ok(1) lz(2), of p'] key p'(2) h s' by (auto simp: in_step_def showing_def)
    next
      assume delta: "kind = RectDelta \<and> r = fu_rect u \<and> raw = pixel_bytes (fu_pixels u)"
      have "remembered p' (fu_geometry u) x y =
          (if in_frame_rect r x y then raw_pixel r raw x y else remembered (ss_producer s) (fu_geometry u) x y)"
        if "pr_latest_geometry (ss_producer s) = Some (fu_geometry u)" "in_geometry (fu_geometry u) x y" for x y
        using remember_draws [OF p that(1) shape(1,2,3) _ that(2)] dense_pixel [of "fu_pixels u" r x y] u delta shaped
        by (auto simp: p'_def delta_ok_def)
      from follow_delta [OF h(5) _ ok(1) lz(2) ok(2), of p', unfolded h, OF _ this p'(2)]
      obtain picture v' where v': "apply_frame lz reserve h payload v = (Inr picture, v')" "viewer_ok v'" "shows_remembered p' v'"
        "if passed_over h v then vs_awaiting_keyframe v'
         else vs_expected_sequence v' = Some (sat_add (sat_add (ss_sequence s) 1) 1) \<and> \<not> vs_awaiting_keyframe v' \<and>
           vs_geometry v' = Some (fu_geometry u)"
        using delta by auto
      have "\<not> passed_over h v" if "showing (fu_geometry u) v"
        using that v by (auto simp: passed_over_def showing_def in_step_def h)
      then show ?thesis
        using v' s' by (auto simp: in_step_def showing_def split: if_splits)
    qed
    moreover have "fh_kind h \<noteq> Heartbeat"
      using h(1) kind by auto
    ultimately show ?thesis
      using s'(1) by (intro exI [of _ "[(c, h, payload)]"]) auto
  qed
qed

text \<open>Publishing changes nothing that the viewer can see.\<close>

lemma push_delta_keeps:
  assumes "rects_queued s" "delta_ok u" "push_frame u s = (ok, s')"
  shows "rects_queued s' \<and> ss_event s' = ss_event s \<and> ss_connection s' = ss_connection s \<and> ss_sent s' = ss_sent s \<and>
    ss_producer s' = ss_producer s \<and> ss_sequence s' = ss_sequence s \<and> (ss_frame s' = ss_frame s \<or> ss_frame s' = Some u)"
  using assms by (auto simp: push_frame_def rects_queued_def delta_ok_def split: if_splits)

lemma publish_rect_keeps:
  fixes s :: stream_state and pixels :: "u16 list" and stride src_x src_y :: nat and r :: frame_rect and now_us :: u64
  assumes "rects_queued s" "geometry_ok g"
  defines "s' \<equiv> publish_rect g r pixels stride src_x src_y now_us s"
  shows "rects_queued s' \<and> ss_event s' = ss_event s \<and> ss_connection s' = ss_connection s \<and> ss_sent s' = ss_sent s \<and>
    ss_producer s' = ss_producer s \<and> ss_sequence s' = ss_sequence s \<and>
    (ss_frame s' = ss_frame s \<or> (\<exists>u. ss_frame s' = Some u \<and> fu_geometry u = g \<and> fu_rect u = r))"
proof (cases "ss_pending s \<or> collect_strided_rect pixels stride src_x src_y r = None")
  case True
  then show ?thesis
    using assms by (auto simp: publish_rect_def rects_queued_def split: option.split)
next
  case False
  then obtain collected where collected: "collect_strided_rect pixels stride src_x src_y r = Some collected" "\<not> ss_pending s"
    by blast
  let ?u = "\<lparr>fu_geometry = g, fu_rect = r, fu_pixels = collected, fu_captured_at_us = now_us, fu_kind = Delta\<rparr>"
  have "collected \<noteq> []"
    using collected(1) collected_ok(1) [OF collected(1)] by (auto simp: collect_strided_rect_def Let_def split: if_splits)
  then have "delta_ok ?u"
    using collected_ok [OF collected(1)] assms(2) by (simp add: delta_ok_def)
  moreover obtain ok s1 where "push_frame ?u s = (ok, s1)"
    by fastforce
  ultimately show ?thesis
    using push_delta_keeps [OF assms(1), of ?u ok s1] collected
    by (cases ok) (auto simp: s'_def publish_rect_def subscriber_lost_def clear_snapshot_requests_def rects_queued_def)
qed


section \<open>Steps\<close>

definition linked :: "stream_state \<Rightarrow> viewer_state \<Rightarrow> bool" where
  "linked s v \<longleftrightarrow> rects_queued s \<and> (ss_connection s \<noteq> None \<longrightarrow> in_step s v)"

lemma receive_keeps:
  assumes "rects_queued s" "recv_timeout s = (e, s')"
  shows "rects_queued (s'\<lparr>ss_event := Some e\<rparr>)" "ss_sent s' = ss_sent s" "ss_connection s' = ss_connection s"
    "ss_producer s' = ss_producer s" "ss_sequence s' = ss_sequence s"
    "(ss_frame s' = ss_frame s \<or> ss_frame s' = None) \<and> (\<forall>u. e = FrameEvent u \<longrightarrow> ss_frame s = Some u)"
  using assms by (auto simp: recv_timeout_def rects_queued_def split: if_splits option.splits)

lemma worker_queue:
  assumes "delta_ok u" "rects_queued s"
  shows "rects_queued ((worker_frame lz connected u s))" "ss_frame (worker_frame lz connected u s) = ss_frame s"
    "ss_event (worker_frame lz connected u s) = ss_event s"
    "ss_producer (worker_frame lz connected u s) =
       remember_rect_pixels (fu_geometry u) (fu_rect u) (fu_pixels u) (ss_producer s)"
    "ss_connection s = None \<Longrightarrow> ss_connection (worker_frame lz connected u s) = None \<and>
       ss_sent (worker_frame lz connected u s) = ss_sent s"
proof -
  let ?s = "worker_frame lz connected u s"
  have same: "ss_frame ?s = ss_frame s \<and> ss_event ?s = ss_event s \<and> ss_subscriber ?s = ss_subscriber s \<and>
      ss_producer ?s = remember_rect_pixels (fu_geometry u) (fu_rect u) (fu_pixels u) (ss_producer s) \<and>
      (ss_connection s = None \<longrightarrow> ss_connection ?s = None \<and> ss_sent ?s = ss_sent s)"
  proof (cases "ss_connection s")
    case None
    then show ?thesis
      using assms(1) by (simp add: worker_frame_def delta_ok_def subscriber_lost_def clear_snapshot_requests_def)
  next
    case (Some c)
    have "producer_ok (ss_producer s)"
      using assms(2) by (simp add: rects_queued_def)
    from worker_rect [OF assms(1) Some this, of lz connected] show ?thesis
      using Some by (elim exE conjE) (simp add: Let_def subscriber_lost_def clear_snapshot_requests_def split: option.split)
  qed
  then show "ss_frame ?s = ss_frame s" "ss_event ?s = ss_event s"
    "ss_producer ?s = remember_rect_pixels (fu_geometry u) (fu_rect u) (fu_pixels u) (ss_producer s)"
    "ss_connection s = None \<Longrightarrow> ss_connection ?s = None \<and> ss_sent ?s = ss_sent s"
    by simp_all
  have "producer_ok (ss_producer ?s)"
    using same assms remember_ok(2) by (simp add: rects_queued_def delta_ok_def)
  then show "rects_queued ?s"
    using same assms(2) by (simp add: rects_queued_def)
qed

text \<open>
  One step of the server, and the frames it sends. A viewer that was in step still is; and it keeps showing
  a geometry as long as the worker is not given another one.
\<close>

definition follows :: "lz4 \<Rightarrow> (nat \<Rightarrow> bool) \<Rightarrow> stream_state \<Rightarrow> viewer_state \<Rightarrow> stream_state \<Rightarrow> bool" where
  "follows lz reserve s v s' \<longleftrightarrow> (ss_connection s' \<noteq> None \<longrightarrow> ss_connection s \<noteq> None) \<and>
    (\<exists>frames v'. ss_sent s' = ss_sent s @ frames \<and> watch lz reserve v frames = Inr v' \<and> linked s' v' \<and>
      (\<forall>g. (\<forall>u. ss_event s = Some (FrameEvent u) \<longrightarrow> fu_geometry u = g) \<longrightarrow> ss_connection s' \<noteq> None \<longrightarrow> showing g v \<longrightarrow> showing g v'))"

lemma follows_quietly:
  assumes "linked s v" "rects_queued s'" "ss_sent s' = ss_sent s" "ss_connection s' = ss_connection s"
    "ss_producer s' = ss_producer s" "ss_sequence s' = ss_sequence s"
  shows "follows lz reserve s v s'"
  using assms by (auto simp: follows_def linked_def in_step_def)

lemma timeout_follows:
  assumes "linked s v"
  shows "follows lz reserve s v (worker_timeout connected now_us s)"
  using assms
  by (auto simp: follows_def worker_timeout_def linked_def in_step_def rects_queued_def subscriber_lost_def clear_snapshot_requests_def
      heartbeat_header_def split: option.split)

lemma step_follows:
  assumes "linked s v" "publishes_rects op1" and lz: "lz4_ok lz" "\<forall>n \<le> MAX_FRAME_SURFACE_BYTES. reserve n"
  shows "follows lz reserve s v (stream_step lz s op1)"
proof -
  have q: "rects_queued s"
    using assms(1) by (simp add: linked_def)
  have publish: "follows lz reserve s v (if ss_active s then publish_rect g r pixels stride x y now_us s else s)" if "geometry_ok g" for g r pixels stride x y now_us
    using follows_quietly [OF assms(1)] publish_rect_keeps [OF q that] q by (cases "ss_active s") auto
  show ?thesis
  proof (cases op1)
    case WorkerReceives
    obtain e s1 where "recv_timeout s = (e, s1)"
      by fastforce
    then show ?thesis
      using WorkerReceives follows_quietly [OF assms(1)] receive_keeps [OF q] q by auto
  next
    case (WorkerHandles connected now_us)
    let ?s = "s\<lparr>ss_event := None\<rparr>"
    have linked: "linked ?s v"
      using assms(1) by (simp add: linked_def rects_queued_def in_step_def)
    have q1: "rects_queued ?s" "producer_ok (ss_producer ?s)"
      using linked by (simp_all add: linked_def rects_queued_def)
    consider "ss_event s = None" | (rect) u where "ss_event s = Some (FrameEvent u)" "delta_ok u"
      | (timeout) "ss_event s = Some Timeout" | (disconnected) "ss_event s = Some Disconnected"
      using q by (cases "the (ss_event s)"; cases "ss_event s") (auto simp: rects_queued_def)
    then show ?thesis
    proof cases
      case rect
      let ?s' = "worker_frame lz connected u ?s"
      show ?thesis
      proof (cases "ss_connection s")
        case None
        then show ?thesis
          using worker_queue [OF rect(2) q1(1), of lz connected] rect(1) WorkerHandles
          by (auto simp: follows_def worker_handle_def linked_def)
      next
        case (Some c)
        then have "in_step ?s v"
          using linked by (simp add: linked_def)
        from worker_follows [OF rect(2) _ q1(2) this lz, of c connected] Some show ?thesis
          using worker_queue [OF rect(2) q1(1), of lz connected] rect(1) WorkerHandles
          by (auto simp: follows_def worker_handle_def linked_def)
      qed
    next
      case timeout
      then show ?thesis
        using timeout_follows [OF linked, of lz reserve connected now_us] WorkerHandles by (simp add: worker_handle_def follows_def)
    next
      case disconnected
      then show ?thesis
        using assms(1) WorkerHandles
        by (auto simp: worker_handle_def follows_def linked_def in_step_def rects_queued_def subscriber_lost_def clear_snapshot_requests_def)
    qed (use assms(1) WorkerHandles in \<open>auto simp: follows_def\<close>)
  next
    case (PublishStrided g r pixels stride x y now_us)
    then show ?thesis
      using publish [of g r pixels stride x y now_us] assms(2) by (simp add: publish_strided_rect_def if_distrib split: if_splits)
  next
    case (PublishDense g r pixels now_us)
    then show ?thesis
      using publish [of g r pixels "unat (fr_width r)" 0 0 now_us] assms(2) by (simp add: publish_dense_rect_def split: if_splits)
  next
    case (PublishCached g r pixels now_us)
    then show ?thesis
      using publish [of g r pixels "unat (fg_stride_pixels g)" "unat (fr_x r)" "unat (fr_y r)" now_us]
        publish [of g "full_frame_rect g" pixels "unat (fg_stride_pixels g)" 0 0 now_us] assms(2)
      by (simp add: publish_cached_rect_def split: if_splits)
  qed (use assms(2) in auto)
qed

lemma run_follows:
  assumes lz: "lz4_ok lz" "\<forall>n \<le> MAX_FRAME_SURFACE_BYTES. reserve n"
  shows "linked s v \<Longrightarrow> list_all publishes_rects ops \<Longrightarrow>
    \<exists>frames v'. ss_sent (run_steps (stream_step lz) s ops) = ss_sent s @ frames \<and> watch lz reserve v frames = Inr v' \<and>
      linked (run_steps (stream_step lz) s ops) v'"
proof (induction ops arbitrary: s v)
  case (Cons op1 ops)
  then obtain frames v1 where first: "ss_sent (stream_step lz s op1) = ss_sent s @ frames" "watch lz reserve v frames = Inr v1"
    "linked (stream_step lz s op1) v1"
    using step_follows [OF Cons.prems(1) _ lz, of op1] by (auto simp: follows_def)
  from Cons.IH [OF this(3)] Cons.prems(2) obtain more v' where
    "ss_sent (run_steps (stream_step lz) s (op1 # ops)) = ss_sent (stream_step lz s op1) @ more" "watch lz reserve v1 more = Inr v'"
    "linked (run_steps (stream_step lz) s (op1 # ops)) v'"
    by auto
  then show ?case
    using first by (intro exI [of _ "frames @ more"] exI [of _ v']) (simp add: watch_append)
qed simp


section \<open>A pixel that nobody sends\<close>

fun op_spares :: "frame_geometry \<Rightarrow> nat \<Rightarrow> nat \<Rightarrow> stream_op \<Rightarrow> bool" where
  "op_spares g x y (PublishStrided g' r pixels stride src_x src_y now_us) \<longleftrightarrow> g' = g \<and> rect_in g r \<and> \<not> in_frame_rect r x y"
| "op_spares g x y (PublishDense g' r pixels now_us) \<longleftrightarrow> g' = g \<and> rect_in g r \<and> \<not> in_frame_rect r x y"
| "op_spares g x y WorkerReceives \<longleftrightarrow> True"
| "op_spares g x y (WorkerHandles connected now_us) \<longleftrightarrow> True"
| "op_spares g x y _ \<longleftrightarrow> False"

definition queue_spares :: "frame_geometry \<Rightarrow> nat \<Rightarrow> nat \<Rightarrow> stream_state \<Rightarrow> bool" where
  "queue_spares g x y s \<longleftrightarrow> (\<forall>u. ss_frame s = Some u \<or> ss_event s = Some (FrameEvent u) \<longrightarrow>
     fu_geometry u = g \<and> rect_in g (fu_rect u) \<and> \<not> in_frame_rect (fu_rect u) x y)"

definition keeps_pixel :: "frame_geometry \<Rightarrow> nat \<Rightarrow> nat \<Rightarrow> u16 \<Rightarrow> stream_state \<Rightarrow> bool" where
  "keeps_pixel g x y c s \<longleftrightarrow> queue_spares g x y s \<and> pr_latest_geometry (ss_producer s) = Some g \<and> remembered (ss_producer s) g x y = c"

lemma keeps_pixel_later:
  assumes "keeps_pixel g x y c s" "ss_producer s' = ss_producer s"
    "\<And>u. ss_frame s' = Some u \<Longrightarrow> ss_frame s = Some u" "\<And>u. ss_event s' = Some (FrameEvent u) \<Longrightarrow> ss_event s = Some (FrameEvent u) \<or> ss_frame s = Some u"
  shows "keeps_pixel g x y c s'"
  using assms unfolding keeps_pixel_def queue_spares_def by metis

lemma step_keeps_pixel:
  assumes "rects_queued s" "keeps_pixel g x y c s" "op_spares g x y op1" "geometry_ok g" "in_geometry g x y"
  shows "keeps_pixel g x y c (stream_step lz s op1)"
proof -
  have publish: "keeps_pixel g x y c (if ss_active s then publish_rect g r pixels stride src_x src_y now_us s else s)"
    if "rect_in g r" "\<not> in_frame_rect r x y" for r pixels stride src_x src_y now_us
    using publish_rect_keeps [OF assms(1,4), where r = r and pixels = pixels and stride = stride and src_x = src_x and src_y = src_y
      and now_us = now_us] assms(2) that
    by (auto simp: keeps_pixel_def queue_spares_def)
  show ?thesis
  proof (cases op1)
    case WorkerReceives
    obtain e s1 where received: "recv_timeout s = (e, s1)"
      by fastforce
    note kept = receive_keeps(4,6) [OF assms(1) received]
    have "keeps_pixel g x y c (s1\<lparr>ss_event := Some e\<rparr>)"
      by (rule keeps_pixel_later [OF assms(2)]) (use kept in auto)
    then show ?thesis
      using WorkerReceives received assms(2) by simp
  next
    case (WorkerHandles connected now_us)
    have q: "rects_queued (s\<lparr>ss_event := None\<rparr>)"
      using assms(1) by (simp add: rects_queued_def)
    show ?thesis
    proof (cases "\<exists>u. ss_event s = Some (FrameEvent u)")
      case True
      then obtain u where u: "ss_event s = Some (FrameEvent u)"
        by blast
      then have ok: "delta_ok u" "fu_geometry u = g" "rect_in g (fu_rect u)" "\<not> in_frame_rect (fu_rect u) x y" "producer_ok (ss_producer s)"
        using assms(1,2) by (auto simp: rects_queued_def keeps_pixel_def queue_spares_def)
      have "0 < unat (fr_width (fu_rect u))"
        using ok(1) by (cases "unat (fr_width (fu_rect u))") (auto simp: delta_ok_def)
      then have "remembered (remember_rect_pixels g (fu_rect u) (fu_pixels u) (ss_producer s)) g x y = c"
        using remember_draws [OF ok(5) _ assms(4) ok(3) _ _ assms(5)] ok(1,4) assms(2) by (simp add: keeps_pixel_def delta_ok_def)
      then show ?thesis
        using worker_queue [OF ok(1) q, of lz connected] u ok(2) assms(2) remember_ok(1) WorkerHandles
        by (auto simp: keeps_pixel_def queue_spares_def worker_handle_def)
    next
      case False
      then have kept: "ss_producer (stream_step lz s op1) = ss_producer s" "ss_frame (stream_step lz s op1) = ss_frame s"
        "ss_event (stream_step lz s op1) = None"
        using WorkerHandles assms(1) by (auto simp: rects_queued_def worker_handle_def worker_timeout_def subscriber_lost_def
            clear_snapshot_requests_def split: option.split worker_event.split)
      show ?thesis
        by (rule keeps_pixel_later [OF assms(2)]) (use kept in auto)
    qed
  qed (use publish assms(2,3) in \<open>auto simp: publish_strided_rect_def publish_dense_rect_def split: if_splits\<close>)
qed

lemma spares_publishes: "op_spares g x y op1 \<Longrightarrow> geometry_ok g \<Longrightarrow> publishes_rects op1"
  by (cases op1) auto

text \<open>The worker without a connection stays without one.\<close>

lemma run_connected:
  assumes lz: "lz4_ok lz" "\<forall>n \<le> MAX_FRAME_SURFACE_BYTES. reserve n"
  shows "linked s v \<Longrightarrow> list_all publishes_rects ops \<Longrightarrow> ss_connection (run_steps (stream_step lz) s ops) \<noteq> None \<Longrightarrow> ss_connection s \<noteq> None"
proof (induction ops arbitrary: s v)
  case (Cons op1 ops)
  have "follows lz reserve s v (stream_step lz s op1)"
    using Cons.prems by (intro step_follows lz) simp_all
  then show ?case
    using Cons.IH [of "stream_step lz s op1"] Cons.prems by (auto simp: follows_def)
qed simp

lemma run_keeps_pixel:
  assumes lz: "lz4_ok lz" "\<forall>n \<le> MAX_FRAME_SURFACE_BYTES. reserve n" and g: "geometry_ok g" "in_geometry g x y"
  shows "linked s v \<Longrightarrow> keeps_pixel g x y c s \<Longrightarrow> showing g v \<Longrightarrow> list_all (op_spares g x y) ops \<Longrightarrow>
    ss_connection (run_steps (stream_step lz) s ops) \<noteq> None \<Longrightarrow>
    \<exists>frames v'. ss_sent (run_steps (stream_step lz) s ops) = ss_sent s @ frames \<and> watch lz reserve v frames = Inr v' \<and>
      linked (run_steps (stream_step lz) s ops) v' \<and> keeps_pixel g x y c (run_steps (stream_step lz) s ops) \<and> showing g v'"
proof (induction ops arbitrary: s v)
  case (Cons op1 ops)
  let ?s = "stream_step lz s op1"
  have ops: "publishes_rects op1" "list_all publishes_rects ops" "op_spares g x y op1"
    using Cons.prems(4) spares_publishes [OF _ g(1)] by (auto simp: list_all_iff)
  have step: "follows lz reserve s v ?s"
    using Cons.prems ops by (intro step_follows lz) simp_all
  then obtain frames v1 where first: "ss_sent ?s = ss_sent s @ frames" "watch lz reserve v frames = Inr v1" "linked ?s v1"
    "\<And>g. \<forall>u. ss_event s = Some (FrameEvent u) \<longrightarrow> fu_geometry u = g \<Longrightarrow> ss_connection ?s \<noteq> None \<Longrightarrow> showing g v \<Longrightarrow> showing g v1"
    unfolding follows_def by blast
  have "ss_connection ?s \<noteq> None"
    using run_connected [OF lz first(3) ops(2)] Cons.prems(5) by simp
  moreover have "\<forall>u. ss_event s = Some (FrameEvent u) \<longrightarrow> fu_geometry u = g"
    using Cons.prems(2) by (simp add: keeps_pixel_def queue_spares_def)
  ultimately have "showing g v1"
    using first(4) Cons.prems(3) by blast
  moreover have "keeps_pixel g x y c ?s"
    using Cons.prems(1,2) ops(3) g by (intro step_keeps_pixel) (simp_all add: linked_def)
  ultimately obtain more v' where
    "ss_sent (run_steps (stream_step lz) s (op1 # ops)) = ss_sent ?s @ more" "watch lz reserve v1 more = Inr v'"
    "linked (run_steps (stream_step lz) s (op1 # ops)) v'" "keeps_pixel g x y c (run_steps (stream_step lz) s (op1 # ops))" "showing g v'"
    using Cons.IH [OF first(3), of] Cons.prems(4,5) by auto
  then show ?case
    using first(1,2) by (intro exI [of _ "frames @ more"] exI [of _ v']) (simp add: watch_append)
qed auto

lemma keyframe_shown: "apply_frame lz reserve h payload v = (Inr picture, v') \<Longrightarrow> fh_kind h = Keyframe \<Longrightarrow> \<not> vs_awaiting_keyframe v'"
  by (auto simp: apply_frame_def Let_def split: if_splits sum.splits option.splits prod.splits)

lemma linked_default: "rects_queued s \<Longrightarrow> linked s viewer_default"
  by (simp add: linked_def in_step_def viewer_ok_def shows_remembered_def viewer_default_def)

section \<open>Properties\<close>

text \<open>
  C7: The viewer shows what the worker remembers. Whatever rectangles are published, and however the worker
  takes its turns, a viewer that starts at any point of a connection reads every frame of it without an
  error; and as long as the connection lasts, either it still waits for a key frame, or its picture is,
  pixel by pixel, the picture the worker put together from the updates it received. The last frame being a
  key frame, it does not wait.
\<close>

theorem viewer_shows_what_the_worker_remembers:
  assumes "lz4_ok lz" "\<forall>n \<le> MAX_FRAME_SURFACE_BYTES. reserve n" "rects_queued s" "list_all publishes_rects ops"
    and "s' = run_steps (stream_step lz) s ops"
  shows "\<exists>frames v. ss_sent s' = ss_sent s @ frames \<and> watch lz reserve viewer_default frames = Inr v \<and>
    (ss_connection s' \<noteq> None \<and> \<not> vs_awaiting_keyframe v \<longrightarrow>
       (\<exists>g. vs_geometry v = Some g \<and> pr_latest_geometry (ss_producer s') = Some g \<and>
          (\<forall>x y. in_geometry g x y \<longrightarrow> picture_of g (vs_rgb565 v) x y = remembered (ss_producer s') g x y))) \<and>
    (\<forall>earlier c h payload. frames = earlier @ [(c, h, payload)] \<and> fh_kind h = Keyframe \<longrightarrow> \<not> vs_awaiting_keyframe v)"
proof -
  obtain frames v where run: "ss_sent s' = ss_sent s @ frames" "watch lz reserve viewer_default frames = Inr v" "linked s' v"
    using run_follows [OF assms(1,2) linked_default [OF assms(3)] assms(4)] unfolding assms(5) by blast
  have "\<not> vs_awaiting_keyframe v" if "frames = earlier @ [(c, h, payload)]" "fh_kind h = Keyframe" for earlier c h payload
    using run(2) that keyframe_shown by (auto simp: watch_append split: sum.splits prod.splits)
  moreover have "\<exists>g. vs_geometry v = Some g \<and> pr_latest_geometry (ss_producer s') = Some g \<and>
      (\<forall>x y. in_geometry g x y \<longrightarrow> picture_of g (vs_rgb565 v) x y = remembered (ss_producer s') g x y)"
    if "ss_connection s' \<noteq> None" "\<not> vs_awaiting_keyframe v"
    using run(3) that by (auto simp: linked_def in_step_def shows_remembered_def)
  ultimately show ?thesis
    using run(1,2) by blast
qed

text \<open>
  C38: An update that is dropped is lost. A rectangle published while another one is queued is dropped, and
  only a key frame is asked for; the worker answers with the picture it remembers, which lacks the dropped
  pixels. A viewer that shows the picture keeps showing the old pixel, however long the stream runs, until
  somebody publishes that pixel again: the publishers of strided and dense rectangles are not told.
\<close>

theorem dropped_update_is_lost:
  assumes "lz4_ok lz" "\<forall>n \<le> MAX_FRAME_SURFACE_BYTES. reserve n" "rects_queued s" "list_all publishes_rects before"
    and "s1 = run_steps (stream_step lz) s before" "ss_sent s1 = ss_sent s @ seen" "watch lz reserve viewer_default seen = Inr v1"
    and "geometry_ok g" "in_geometry g x y" "showing g v1" "ss_pending s1" "queue_spares g x y s1"
    and "list_all (op_spares g x y) later"
    and "s2 = run_steps (stream_step lz) s1 (PublishStrided g r pixels stride src_x src_y now_us # later)" "ss_connection s2 \<noteq> None"
  shows "\<exists>frames v2. ss_sent s2 = ss_sent s1 @ frames \<and> watch lz reserve v1 frames = Inr v2 \<and> \<not> vs_awaiting_keyframe v2 \<and>
    picture_of g (vs_rgb565 v2) x y = picture_of g (vs_rgb565 v1) x y"
proof -
  let ?s = "publish_strided_rect g r pixels stride src_x src_y now_us s1"
  have "linked s1 v1"
    using run_follows [OF assms(1,2) linked_default [OF assms(3)] assms(4)] assms(5-7) by auto
  moreover have dropped: "ss_sent ?s = ss_sent s1" "ss_frame ?s = ss_frame s1" "ss_event ?s = ss_event s1" "ss_producer ?s = ss_producer s1"
    "ss_connection ?s = ss_connection s1" "ss_subscriber ?s = ss_subscriber s1" "ss_sequence ?s = ss_sequence s1"
    using assms(11) by (simp_all add: publish_strided_rect_def publish_rect_def)
  ultimately have linked: "linked ?s v1"
    by (simp add: linked_def rects_queued_def in_step_def)
  have "list_all publishes_rects later"
    using assms(13) spares_publishes [OF _ assms(8)] by (auto simp: list_all_iff)
  then have "ss_connection ?s \<noteq> None"
    using run_connected [OF assms(1,2) linked] assms(14,15) by simp
  then have shown: "pr_latest_geometry (ss_producer ?s) = Some g"
    "picture_of g (vs_rgb565 v1) x y = remembered (ss_producer ?s) g x y"
    using linked assms(9,10) by (auto simp: linked_def in_step_def shows_remembered_def showing_def)
  then have "keeps_pixel g x y (picture_of g (vs_rgb565 v1) x y) ?s"
    using assms(12) dropped by (simp add: keeps_pixel_def queue_spares_def)
  from run_keeps_pixel [OF assms(1,2,8,9) linked this assms(10,13)] assms(14,15) obtain frames v2 where
    "ss_sent s2 = ss_sent ?s @ frames" "watch lz reserve v1 frames = Inr v2" "linked s2 v2" "showing g v2"
    "keeps_pixel g x y (picture_of g (vs_rgb565 v1) x y) s2"
    by auto
  then show ?thesis
    using dropped(1) assms(9,15)
    by (intro exI [of _ frames] exI [of _ v2]) (auto simp: linked_def in_step_def shows_remembered_def showing_def keeps_pixel_def)
qed

section \<open>A surface of two pixels\<close>

definition strip :: frame_geometry where
  "strip = \<lparr>fg_width = 2, fg_height = 1, fg_stride_pixels = 2\<rparr>"

definition strip_rect :: "u32 \<Rightarrow> frame_rect" where
  "strip_rect x = \<lparr>fr_x = x, fr_y = 0, fr_width = 1, fr_height = 1\<rparr>"

definition strip_connected :: stream_state where
  "strip_connected = stream_start\<lparr>ss_active := True, ss_connection := Some 1\<rparr>"

definition strip_frame :: "u64 \<Rightarrow> u16 \<Rightarrow> u16 \<Rightarrow> nat \<times> frame_header \<times> u8 list" where
  "strip_frame n a b = (1, \<lparr>fh_kind = Keyframe, fh_flags = FLAG_LZ4_SIZE_PREPENDED, fh_sequence = n, fh_timestamp_us = 0,
     fh_geometry = strip, fh_rect = full_frame_rect strip, fh_raw_bytes = 4, fh_payload_bytes = 8\<rparr>, le32 4 @ le16 a @ le16 b)"

lemma stored_blocks_ok: "lz4_ok stored_blocks"
  by (simp add: lz4_ok_def stored_blocks_def)

lemma strip_ok: "geometry_ok strip" "in_geometry strip 0 0"
  by (simp_all add: geometry_ok_def in_geometry_def strip_def MAX_FRAME_SURFACE_BYTES_def)

lemma strip_bytes: "rgb565_rect_bytes [a, b] (full_frame_rect strip) 2 0 0 = le16 a @ le16 b"
  by (simp add: rgb565_rect_bytes_def full_frame_rect_def strip_def usize_sat_def USIZE_MAX_def pixel_bytes_def)

lemma strip_written:
  "write_job stored_blocks True n strip (full_frame_rect strip) Keyframe 0 (le16 a @ le16 b) = Some (snd (strip_frame n a b))"
proof -
  have "validate_shape (fst (snd (strip_frame n a b))) = Inr ()"
    by (simp add: validate_shape_iff well_shaped_def strip_frame_def strip_def full_frame_rect_def MAX_FRAME_SURFACE_BYTES_def)
  then show ?thesis
    by (simp add: write_job_def compress_size_prepended_def stored_blocks_def Let_def strip_frame_def write_frame_def
        validate_frame_for_transport_def validate_frame_shape_for_transport_def validate_frame_payload_len_def declared_payload_len_def
        MAX_FRAME_PAYLOAD_BYTES_def)
qed

lemma strip_remembered:
  "remember_rect_pixels strip (full_frame_rect strip) [a, b] producer_new =
     \<lparr>pr_latest_geometry = Some strip, pr_latest_pixels = [a, b], pr_has_full_frame_base = True\<rparr>"
  "remember_rect_pixels strip (strip_rect 1) [c] \<lparr>pr_latest_geometry = Some strip, pr_latest_pixels = [a, b], pr_has_full_frame_base = True\<rparr> =
     \<lparr>pr_latest_geometry = Some strip, pr_latest_pixels = [a, c], pr_has_full_frame_base = True\<rparr>"
  by (simp_all add: remember_rect_pixels_def producer_new_def u32_checked_mul_def is_full_frame_def full_frame_rect_def strip_def
      strip_rect_def copy_rect_into_latest_def Let_def usize_sat_def get_slice_def slice_def put_at_def USIZE_MAX_def)

lemma strip_collected:
  "collect_strided_rect [a, b] 2 0 0 (full_frame_rect strip) = Some [a, b]"
  "collect_strided_rect [a] 1 0 0 (strip_rect x) = Some [a]"
  by (simp_all add: collect_strided_rect_def full_frame_rect_def strip_def strip_rect_def checked_add_def checked_mul_def get_slice_def
      slice_def USIZE_MAX_def)


abbreviation strip_picture :: "u16 \<Rightarrow> u16 \<Rightarrow> producer_state" where
  "strip_picture a b \<equiv> \<lparr>pr_latest_geometry = Some strip, pr_latest_pixels = [a, b], pr_has_full_frame_base = True\<rparr>"

definition strip_shown :: stream_state where
  "strip_shown = strip_connected\<lparr>ss_needs_keyframe := False, ss_producer := strip_picture 1 2, ss_sequence := 1,
     ss_sent := [strip_frame 1 1 2]\<rparr>"

definition strip_queued :: stream_state where
  "strip_queued = strip_shown\<lparr>ss_pending := True, ss_frame := Some \<lparr>fu_geometry = strip, fu_rect = strip_rect 1,
     fu_pixels = [5], fu_captured_at_us = 0, fu_kind = Delta\<rparr>\<rparr>"

definition strip_opening :: "stream_op list" where
  "strip_opening = [PublishStrided strip (full_frame_rect strip) [1, 2] 2 0 0 0, WorkerReceives, WorkerHandles True 0]"

lemma strip_keyframe:
  assumes "ss_connection s = Some 1" "ss_needs_keyframe s"
    "remember_rect_pixels strip (fu_rect u) (fu_pixels u) (ss_producer s) = strip_picture a b" "fu_geometry u = strip" "fu_kind u = Delta"
    "fu_captured_at_us u = 0"
  shows "worker_frame stored_blocks True u s = s\<lparr>ss_producer := strip_picture a b, ss_needs_keyframe := False,
    ss_sequence := sat_add (ss_sequence s) 1, ss_sent := ss_sent s @ [strip_frame (sat_add (ss_sequence s) 1) a b]\<rparr>"
proof -
  have "unat (fg_stride_pixels strip) = 2"
    by (simp add: strip_def)
  moreover obtain h payload where frame: "strip_frame (sat_add (ss_sequence s) 1) a b = (1, h, payload)"
    by (simp add: strip_frame_def)
  then have "write_job stored_blocks True (sat_add (ss_sequence s) 1) strip (full_frame_rect strip) Keyframe 0 (le16 a @ le16 b) = Some (h, payload)"
    using strip_written [of "sat_add (ss_sequence s) 1" a b] by simp
  moreover have "le16 a \<noteq> []"
    by (simp add: to_le_def)
  ultimately show ?thesis
    using assms frame by (simp add: worker_frame_def Let_def strip_bytes)
qed

lemma strip_opened: "run_steps (stream_step stored_blocks) strip_connected strip_opening = strip_shown"
proof -
  let ?u = "\<lparr>fu_geometry = strip, fu_rect = full_frame_rect strip, fu_pixels = [1, 2], fu_captured_at_us = 0, fu_kind = Delta\<rparr>"
  have "run_steps (stream_step stored_blocks) strip_connected [PublishStrided strip (full_frame_rect strip) [1, 2] 2 0 0 0, WorkerReceives] =
      strip_connected\<lparr>ss_event := Some (FrameEvent ?u)\<rparr>"
    by (simp add: strip_connected_def stream_start_def publish_strided_rect_def publish_rect_def strip_collected push_frame_def recv_timeout_def)
  moreover have "worker_frame stored_blocks True ?u strip_connected = strip_shown"
    by (subst strip_keyframe [where a = 1 and b = 2])
      (simp_all add: strip_connected_def stream_start_def strip_remembered strip_shown_def sat_add_def)
  ultimately show ?thesis
    by (simp add: strip_opening_def worker_handle_def strip_connected_def stream_start_def)
qed

lemma strip_queues:
  "run_steps (stream_step stored_blocks) strip_connected (strip_opening @ [PublishStrided strip (strip_rect 1) [5] 1 0 0 0]) = strip_queued"
  by (simp add: run_steps_append strip_opened)
    (simp add: strip_shown_def strip_queued_def strip_connected_def stream_start_def publish_strided_rect_def publish_rect_def
      strip_collected [unfolded One_nat_def] push_frame_def)

text \<open>The pixel on the left is published while the one on the right is queued.\<close>

definition strip_after :: stream_state where
  "strip_after = strip_shown\<lparr>ss_coalesced := 1, ss_producer := strip_picture 1 5, ss_sequence := 2,
     ss_sent := [strip_frame 1 1 2, strip_frame 2 1 5]\<rparr>"

lemma strip_dropped:
  "run_steps (stream_step stored_blocks) strip_queued
     [PublishStrided strip (strip_rect 0) [9] 1 0 0 0, WorkerReceives, WorkerHandles True 0] = strip_after"
proof -
  let ?u = "\<lparr>fu_geometry = strip, fu_rect = strip_rect 1, fu_pixels = [5], fu_captured_at_us = 0, fu_kind = Delta\<rparr>"
  let ?s = "strip_shown\<lparr>ss_coalesced := 1, ss_needs_keyframe := True\<rparr>"
  have "run_steps (stream_step stored_blocks) strip_queued [PublishStrided strip (strip_rect 0) [9] 1 0 0 0, WorkerReceives] =
      ?s\<lparr>ss_event := Some (FrameEvent ?u)\<rparr>"
    by (simp add: strip_queued_def strip_shown_def strip_connected_def stream_start_def publish_strided_rect_def publish_rect_def
        recv_timeout_def)
  moreover have "worker_frame stored_blocks True ?u ?s = strip_after"
    by (subst strip_keyframe [where a = 1 and b = 5])
      (simp_all add: strip_connected_def stream_start_def strip_remembered strip_shown_def strip_after_def sat_add_def)
  ultimately show ?thesis
    by (simp add: worker_handle_def strip_shown_def strip_connected_def stream_start_def)
qed


lemma strip_start_ok: "rects_queued strip_connected" "list_all publishes_rects strip_opening"
  by (simp_all add: rects_queued_def strip_connected_def stream_start_def producer_ok_def producer_new_def strip_opening_def strip_ok)

text \<open>Both properties on the surface of two pixels.\<close>

theorem viewer_shows_what_the_worker_remembers_witness:
  "\<exists>v. watch stored_blocks (\<lambda>n. True) viewer_default [strip_frame 1 1 2] = Inr v \<and> \<not> vs_awaiting_keyframe v \<and>
     vs_geometry v = Some strip \<and> picture_of strip (vs_rgb565 v) 0 0 = 1"
proof -
  obtain frames v where run: "ss_sent strip_shown = ss_sent strip_connected @ frames" "watch stored_blocks (\<lambda>n. True) viewer_default frames = Inr v"
    "ss_connection strip_shown \<noteq> None \<and> \<not> vs_awaiting_keyframe v \<longrightarrow>
       (\<exists>g. vs_geometry v = Some g \<and> pr_latest_geometry (ss_producer strip_shown) = Some g \<and>
          (\<forall>x y. in_geometry g x y \<longrightarrow> picture_of g (vs_rgb565 v) x y = remembered (ss_producer strip_shown) g x y))"
    "\<forall>earlier c h payload. frames = earlier @ [(c, h, payload)] \<and> fh_kind h = Keyframe \<longrightarrow> \<not> vs_awaiting_keyframe v"
    using viewer_shows_what_the_worker_remembers [OF stored_blocks_ok _ strip_start_ok strip_opened [symmetric], of "\<lambda>n. True"] by auto
  have "frames = [] @ [strip_frame 1 1 2]"
    using run(1) by (simp add: strip_shown_def strip_connected_def stream_start_def)
  then have "\<not> vs_awaiting_keyframe v" "frames = [strip_frame 1 1 2]"
    using run(4) by (auto simp: strip_frame_def)
  then show ?thesis
    using run(2,3) strip_ok(2) by (auto simp: strip_shown_def strip_connected_def remembered_def)
qed


lemma strip_viewer:
  "\<exists>v. watch stored_blocks (\<lambda>n. True) viewer_default [strip_frame 1 1 2] = Inr v \<and> showing strip v \<and>
     picture_of strip (vs_rgb565 v) 0 0 = 1"
proof -
  obtain frames v where run: "ss_sent strip_shown = ss_sent strip_connected @ frames" "watch stored_blocks (\<lambda>n. True) viewer_default frames = Inr v"
    "linked strip_shown v"
    using run_follows [OF stored_blocks_ok _ linked_default [OF strip_start_ok(1)] strip_start_ok(2), of "\<lambda>n. True"] strip_opened by auto
  have frames: "frames = [strip_frame 1 1 2]"
    using run(1) by (simp add: strip_shown_def strip_connected_def stream_start_def)
  then have "\<not> vs_awaiting_keyframe v"
    using run(2) keyframe_shown by (auto simp: strip_frame_def split: sum.splits prod.splits)
  then show ?thesis
    using run(2,3) frames strip_ok(2)
    by (auto simp: linked_def in_step_def shows_remembered_def showing_def strip_shown_def strip_connected_def remembered_def)
qed

theorem dropped_update_is_lost_witness:
  "\<exists>v1 v2. watch stored_blocks (\<lambda>n. True) viewer_default [strip_frame 1 1 2] = Inr v1 \<and>
     watch stored_blocks (\<lambda>n. True) v1 [strip_frame 2 1 5] = Inr v2 \<and> \<not> vs_awaiting_keyframe v2 \<and> picture_of strip (vs_rgb565 v2) 0 0 = 1"
proof -
  obtain v1 where v1: "watch stored_blocks (\<lambda>n. True) viewer_default [strip_frame 1 1 2] = Inr v1" "showing strip v1"
    "picture_of strip (vs_rgb565 v1) 0 0 = 1"
    using strip_viewer by blast
  have "list_all publishes_rects (strip_opening @ [PublishStrided strip (strip_rect 1) [5] 1 0 0 0])"
    using strip_start_ok(2) strip_ok(1) by simp
  moreover have "ss_sent strip_queued = ss_sent strip_connected @ [strip_frame 1 1 2]" "ss_pending strip_queued"
    by (simp_all add: strip_queued_def strip_shown_def strip_connected_def stream_start_def)
  moreover have "queue_spares strip 0 0 strip_queued"
    by (simp add: queue_spares_def strip_queued_def strip_shown_def strip_connected_def stream_start_def rect_in_def in_frame_rect_def
        strip_rect_def strip_def)
  moreover have "list_all (op_spares strip 0 0) [WorkerReceives, WorkerHandles True 0]" "ss_connection strip_after \<noteq> None"
    by (simp_all add: strip_after_def strip_shown_def strip_connected_def)
  ultimately obtain frames v2 where "ss_sent strip_after = ss_sent strip_queued @ frames" "watch stored_blocks (\<lambda>n. True) v1 frames = Inr v2"
    "\<not> vs_awaiting_keyframe v2" "picture_of strip (vs_rgb565 v2) 0 0 = picture_of strip (vs_rgb565 v1) 0 0"
    using dropped_update_is_lost [OF stored_blocks_ok _ strip_start_ok(1) _ strip_queues [symmetric] _ v1(1) strip_ok v1(2) _ _ _
        strip_dropped [symmetric]] by auto
  moreover from this(1) have "frames = [strip_frame 2 1 5]"
    by (simp add: strip_after_def strip_queued_def strip_shown_def strip_connected_def stream_start_def)
  ultimately show ?thesis
    using v1 by auto
qed

end
