(* ===== verification/Layer_Backing.thy ===== *)
theory Layer_Backing
  imports Damage Wire_Bytes
begin

text \<open>
  The pixels of a layer and the damage of a frame (\<open>mister/platform/runtime/src/framebuffer/target.rs\<close>):
  owned rectangles of pixels, views into a frame, moving a rectangle in place, and how the layers of a frame
  become a list of rectangles to copy. The Slint target and the composition of previews are left out.
\<close>

section \<open>Damage of a frame\<close>

definition clamp_int :: "int \<Rightarrow> int \<Rightarrow> int \<Rightarrow> int" where
  "clamp_int v low high = max low (min high v)"

definition dirty_rect_from_bounds :: "int \<Rightarrow> int \<Rightarrow> nat \<Rightarrow> nat \<Rightarrow> nat \<Rightarrow> nat \<Rightarrow> dirty_rect option" where
  "dirty_rect_from_bounds x y width height render_w render_h =
     (if width = 0 \<or> height = 0 then None
      else let a0 = nat (clamp_int x 0 (int render_w)); a1 = nat (clamp_int (x + int width) 0 (int render_w));
               b0 = nat (clamp_int y 0 (int render_h)); b1 = nat (clamp_int (y + int height) 0 (int render_h))
           in if a0 < a1 \<and> b0 < b1 then Some \<lparr>x0 = a0, y0 = b0, x1 = a1, y1 = b1\<rparr> else None)"

fun dirty_rects_from_bounds :: "(int \<times> int \<times> nat \<times> nat) list \<Rightarrow> nat \<Rightarrow> nat \<Rightarrow> rect_list \<Rightarrow> rect_list" where
  "dirty_rects_from_bounds [] render_w render_h damage = damage"
| "dirty_rects_from_bounds ((x, y, width, height) # bounds) render_w render_h damage =
     dirty_rects_from_bounds bounds render_w render_h
       (rl_push_if_some damage (dirty_rect_from_bounds x y width height render_w render_h))"

definition dirty_rect_is_broad :: "nat \<Rightarrow> dirty_rect \<Rightarrow> nat \<Rightarrow> bool" where
  "dirty_rect_is_broad broad_pct r render_w \<longleftrightarrow> render_w * broad_pct \<le> rect_width r * 100"

text \<open>Every layer without the layers above it and without what is drawn directly.\<close>

fun present_plan_loop :: "dirty_rect list \<Rightarrow> rect_list \<Rightarrow> rect_list \<Rightarrow> rect_list" where
  "present_plan_loop [] direct_overlays plan = plan"
| "present_plan_loop (r # later) direct_overlays plan =
     (let cuts = fold (\<lambda>c l. rl_push l c) later rl_new;
          cuts = rl_extend_from cuts direct_overlays
      in present_plan_loop later direct_overlays
           (rl_extend_from plan (subtract_dirty_rects (rl_from_one r) cuts)))"

definition build_launcher_present_plan_from_layers :: "rect_list \<Rightarrow> rect_list \<Rightarrow> rect_list" where
  "build_launcher_present_plan_from_layers layers direct_overlays = present_plan_loop (rl_iter layers) direct_overlays rl_new"

definition build_launcher_present_plan :: "dirty_rect option \<Rightarrow> rect_list \<Rightarrow> rect_list \<Rightarrow> rect_list" where
  "build_launcher_present_plan base cached_overlays direct_overlays =
     build_launcher_present_plan_from_layers (rl_extend_from (rl_push_if_some rl_new base) cached_overlays) direct_overlays"

section \<open>Views and backings\<close>

record layer_view =
  lv_pixels :: "u16 list"
  lv_rect :: dirty_rect
  lv_stride :: nat
  lv_src_x :: nat
  lv_src_y :: nat

definition dense_view :: "u16 list \<Rightarrow> dirty_rect \<Rightarrow> layer_view" where
  "dense_view pixels r = \<lparr>lv_pixels = pixels, lv_rect = r, lv_stride = rect_width r, lv_src_x = 0, lv_src_y = 0\<rparr>"

definition from_frame_region :: "u16 list \<Rightarrow> nat \<Rightarrow> nat \<Rightarrow> dirty_rect \<Rightarrow> layer_view option" where
  "from_frame_region pixels stride height r =
     (if x1 r \<le> x0 r \<or> y1 r \<le> y0 r \<or> stride < x1 r \<or> height < y1 r then None
      else case checked_mul stride height of
        None \<Rightarrow> None
      | Some n \<Rightarrow>
          if length pixels < n then None
          else Some \<lparr>lv_pixels = pixels, lv_rect = r, lv_stride = stride, lv_src_x = x0 r, lv_src_y = y0 r\<rparr>)"

text \<open>The first pixel of a rectangle in the view: column and row of the view's buffer.\<close>

definition view_region :: "layer_view \<Rightarrow> dirty_rect \<Rightarrow> (nat \<times> nat) option" where
  "view_region v r =
     (if \<not> rect_contains (lv_rect v) r then None
      else Some (lv_src_x v + x0 r - x0 (lv_rect v), lv_src_y v + y0 r - y0 (lv_rect v)))"

definition view_row :: "layer_view \<Rightarrow> dirty_rect \<Rightarrow> nat \<Rightarrow> u16 list option" where
  "view_row v r row =
     (if rect_rows r \<le> row then None
      else Option.bind (view_region v r) (\<lambda>(src_x, src_y).
        Option.bind (checked_mul (src_y + row) (lv_stride v)) (\<lambda>start.
        Option.bind (checked_add start src_x) (\<lambda>start.
        Option.bind (checked_add start (rect_width r)) (\<lambda>end_at. get_slice start end_at (lv_pixels v))))))"

record layer_backing =
  lb_rect :: dirty_rect
  lb_stride :: nat
  lb_pixels :: "u16 list"

definition from_dense_pixels :: "dirty_rect \<Rightarrow> u16 list \<Rightarrow> layer_backing option" where
  "from_dense_pixels r pixels =
     (let stride = rect_width r
      in if stride = 0 \<or> rect_rows r = 0 then None
         else case checked_mul stride (rect_rows r) of
           None \<Rightarrow> None
         | Some n \<Rightarrow> if length pixels \<noteq> n then None else Some \<lparr>lb_rect = r, lb_stride = stride, lb_pixels = pixels\<rparr>)"

definition backing_new :: "dirty_rect \<Rightarrow> u16 \<Rightarrow> layer_backing option" where
  "backing_new r fill_pixel =
     (if x1 r \<le> x0 r \<or> y1 r \<le> y0 r then None
      else Option.bind (checked_mul (rect_width r) (rect_rows r)) (\<lambda>n. from_dense_pixels r (replicate n fill_pixel)))"

text \<open>A rectangle that cannot be allocated panics.\<close>

definition backing_ensure :: "layer_backing \<Rightarrow> dirty_rect \<Rightarrow> u16 \<Rightarrow> (bool \<times> layer_backing) option" where
  "backing_ensure b r fill_pixel =
     (if lb_rect b = r then Some (False, b) else map_option (\<lambda>b. (True, b)) (backing_new r fill_pixel))"

definition backing_view :: "layer_backing \<Rightarrow> layer_view" where
  "backing_view b = dense_view (lb_pixels b) (lb_rect b)"

section \<open>Moving a rectangle\<close>

text \<open>\<open>copy_within\<close>: a range copied onto another one, which may overlap it.\<close>

definition copy_within :: "nat \<Rightarrow> nat \<Rightarrow> nat \<Rightarrow> 'a list \<Rightarrow> 'a list" where
  "copy_within source to dst xs = put_at dst (slice source to xs) xs"

definition shift_row :: "int \<Rightarrow> nat \<Rightarrow> u16 \<Rightarrow> u16 list \<Rightarrow> u16 list" where
  "shift_row dx width fill_pixel row =
     (let distance = nat \<bar>dx\<bar>
      in if 0 < dx then put_at 0 (replicate distance fill_pixel) (copy_within 0 (width - distance) distance row)
         else put_at (width - distance) (replicate distance fill_pixel) (copy_within distance width 0 row))"

fun shift_columns :: "nat list \<Rightarrow> int \<Rightarrow> nat \<Rightarrow> nat \<Rightarrow> nat \<Rightarrow> u16 \<Rightarrow> u16 list \<Rightarrow> u16 list" where
  "shift_columns [] dx left right stride fill_pixel pixels = pixels"
| "shift_columns (y # ys) dx left right stride fill_pixel pixels =
     shift_columns ys dx left right stride fill_pixel
       (put_at (y * stride + left)
          (shift_row dx (right - left) fill_pixel (slice (y * stride + left) (y * stride + right) pixels)) pixels)"

fun move_rows :: "(nat \<times> nat) list \<Rightarrow> nat \<Rightarrow> nat \<Rightarrow> nat \<Rightarrow> u16 list \<Rightarrow> u16 list" where
  "move_rows [] left width stride pixels = pixels"
| "move_rows ((source, destination) # rows) left width stride pixels =
     move_rows rows left width stride
       (copy_within (source * stride + left) (source * stride + left + width) (destination * stride + left) pixels)"

fun fill_rows :: "nat list \<Rightarrow> nat \<Rightarrow> nat \<Rightarrow> nat \<Rightarrow> u16 \<Rightarrow> u16 list \<Rightarrow> u16 list" where
  "fill_rows [] left width stride fill_pixel pixels = pixels"
| "fill_rows (y # ys) left width stride fill_pixel pixels =
     fill_rows ys left width stride fill_pixel (put_at (y * stride + left) (replicate width fill_pixel) pixels)"

definition shift_physical_rect ::
  "u16 list \<Rightarrow> nat \<Rightarrow> nat \<Rightarrow> dirty_rect \<Rightarrow> int \<Rightarrow> int \<Rightarrow> u16 \<Rightarrow> bool \<times> u16 list" where
  "shift_physical_rect pixels stride height r dx dy fill_pixel =
     (if x1 r \<le> x0 r \<or> y1 r \<le> y0 r \<or> stride < x1 r \<or> height < y1 r \<or> length pixels < min (stride * height) USIZE_MAX \<or>
         dx \<noteq> 0 \<and> dy \<noteq> 0 then (False, pixels)
      else let width = rect_width r; rows = rect_rows r
        in if dx \<noteq> 0 then
             (if width \<le> nat \<bar>dx\<bar> then (False, pixels)
              else (True, shift_columns [y0 r..<y1 r] dx (x0 r) (x1 r) stride fill_pixel pixels))
           else if dy = 0 then (True, pixels)
           else (let distance = nat \<bar>dy\<bar>
             in if rows \<le> distance then (False, pixels)
                else if 0 < dy then
                  (True, fill_rows [y0 r..<y0 r + distance] (x0 r) width stride fill_pixel
                     (move_rows (map (\<lambda>row. (y0 r + row, y0 r + row + distance)) (rev [0..<rows - distance])) (x0 r) width stride pixels))
                else
                  (True, fill_rows [y1 r - distance..<y1 r] (x0 r) width stride fill_pixel
                     (move_rows (map (\<lambda>row. (y0 r + row + distance, y0 r + row)) [0..<rows - distance]) (x0 r) width stride pixels))))"

definition backing_shift :: "layer_backing \<Rightarrow> int \<Rightarrow> int \<Rightarrow> u16 \<Rightarrow> bool \<times> layer_backing" where
  "backing_shift b dx dy fill_pixel =
     (case shift_physical_rect (lb_pixels b) (lb_stride b) (rect_rows (lb_rect b))
         \<lparr>x0 = 0, y0 = 0, x1 = rect_width (lb_rect b), y1 = rect_rows (lb_rect b)\<rparr> dx dy fill_pixel of
        (moved, pixels) \<Rightarrow> (moved, b\<lparr>lb_pixels := pixels\<rparr>))"

section \<open>Rows of a surface\<close>

text \<open>The rows that a rectangle spans lie inside the surface.\<close>

lemma row_fits:
  fixes s :: nat
  assumes "j < h" "h * s \<le> n" "x + w \<le> s"
  shows "j * s + x + w \<le> n"
proof -
  have "(j + 1) * s \<le> h * s"
    using assms(1) by (intro mult_le_mono1) simp
  then show ?thesis
    using assms(2,3) by simp
qed

lemma slice_nth: "i < to - from \<Longrightarrow> to \<le> length xs \<Longrightarrow> slice from to xs ! i = xs ! (from + i)" for "from" :: nat
  by (simp add: slice_def)


section \<open>Where the pixels go\<close>

lemma length_shift_row: "length row = width \<Longrightarrow> nat \<bar>dx\<bar> < width \<Longrightarrow> length (shift_row dx width fill_pixel row) = width"
  by (simp add: shift_row_def copy_within_def Let_def slice_def put_at_def)

lemma shift_row_nth:
  assumes "length row = width" "nat \<bar>dx\<bar> < width" "i < width"
  shows "shift_row dx width fill_pixel row ! i =
    (if 0 \<le> int i - dx \<and> int i - dx < int width then row ! nat (int i - dx) else fill_pixel)"
proof (cases "0 < dx")
  case True
  then show ?thesis
    using assms by (auto simp: shift_row_def copy_within_def Let_def put_at_def slice_def nth_append nat_diff_distrib)
next
  case False
  then have "nat (int i - dx) = i + nat (- dx)" "nat \<bar>dx\<bar> = nat (- dx)"
    by simp_all
  then show ?thesis
    using assms False
    by (auto simp: shift_row_def copy_within_def Let_def put_at_def slice_def nth_append min_def add.commute)
qed

text \<open>The pixel in column \<open>c\<close> of row \<open>q\<close>.\<close>

abbreviation pixel :: "'a list \<Rightarrow> nat \<Rightarrow> nat \<Rightarrow> nat \<Rightarrow> 'a" where
  "pixel pixels s q c \<equiv> pixels ! (q * s + c)"

lemma shift_columns_pixels:
  assumes "distinct ys" "\<forall>y \<in> set ys. y < h" "h * s \<le> length pixels" "left < right" "right \<le> s" "nat \<bar>dx\<bar> < right - left"
    "q < h" "c < s"
  shows "length (shift_columns ys dx left right s fill_pixel pixels) = length pixels \<and>
    pixel (shift_columns ys dx left right s fill_pixel pixels) s q c =
      (if q \<in> set ys \<and> left \<le> c \<and> c < right
       then if int left \<le> int c - dx \<and> int c - dx < int right then pixel pixels s q (nat (int c - dx)) else fill_pixel
       else pixel pixels s q c)"
  using assms(1-3)
proof (induction ys arbitrary: pixels)
  case (Cons y ys)
  let ?row = "slice (y * s + left) (y * s + right) pixels"
  let ?new = "shift_row dx (right - left) fill_pixel ?row"
  let ?pixels = "put_at (y * s + left) ?new pixels"
  have fits: "y * s + left + (right - left) \<le> length pixels"
    using Cons.prems assms(4,5) by (intro row_fits) simp_all
  then have row: "length ?row = right - left" "\<And>i. i < right - left \<Longrightarrow> ?row ! i = pixel pixels s y (left + i)"
    using assms(4) by (simp_all add: slice_nth add.assoc)
  have new: "length ?new = right - left"
    using row(1) assms(6) by (rule length_shift_row)
  have len: "length ?pixels = length pixels"
    using new fits by simp
  have put: "pixel ?pixels s q' c' = (if q' = y \<and> left \<le> c' \<and> c' < right then ?new ! (c' - left) else pixel pixels s q' c')"
    if "c' < s" for q' c'
    using put_row [OF new _ that fits, of q'] assms(4,5) by simp
  have shifted: "?new ! (c - left) = (if int left \<le> int c - dx \<and> int c - dx < int right then pixel pixels s y (nat (int c - dx)) else fill_pixel)"
    if c: "left \<le> c" "c < right"
  proof -
    have i: "c - left < right - left" "int (c - left) = int c - int left"
      using c by simp_all
    show ?thesis
    proof (cases "int left \<le> int c - dx \<and> int c - dx < int right")
      case True
      then have "nat (int c - int left - dx) < right - left" "left + nat (int c - int left - dx) = nat (int c - dx)"
        by arith+
      then have "?row ! nat (int c - int left - dx) = pixel pixels s y (nat (int c - dx))"
        using row(2) by simp
      then show ?thesis
        using shift_row_nth [OF row(1) assms(6) i(1), of fill_pixel] True assms(4) i(2) by simp
    next
      case False
      then show ?thesis
        using shift_row_nth [OF row(1) assms(6) i(1), of fill_pixel] assms(4) i(2) by auto
    qed
  qed
  have "distinct ys" "\<forall>y \<in> set ys. y < h" "h * s \<le> length ?pixels" "y \<notin> set ys"
    using Cons.prems len by simp_all
  note IH = Cons.IH [OF this(1-3)]
  have inside: "nat (int c - dx) < s" if "int left \<le> int c - dx" "int c - dx < int right"
    using that assms(5) by simp
  show ?case
    using IH put [OF assms(8)] put [OF inside] shifted len \<open>y \<notin> set ys\<close> by auto
qed simp

lemma fill_rows_pixels:
  assumes "\<forall>y \<in> set ys. y < h" "h * s \<le> length pixels" "left + width \<le> s" "q < h" "c < s"
  shows "length (fill_rows ys left width s fill_pixel pixels) = length pixels \<and>
    pixel (fill_rows ys left width s fill_pixel pixels) s q c =
      (if q \<in> set ys \<and> left \<le> c \<and> c < left + width then fill_pixel else pixel pixels s q c)"
  using assms(1,2)
proof (induction ys arbitrary: pixels)
  case (Cons y ys)
  have fits: "y * s + left + width \<le> length pixels"
    using Cons.prems assms(3) by (intro row_fits) simp_all
  let ?pixels = "put_at (y * s + left) (replicate width fill_pixel) pixels"
  have len: "length ?pixels = length pixels"
    using fits by simp
  have "pixel ?pixels s q c = (if q = y \<and> left \<le> c \<and> c < left + width then fill_pixel else pixel pixels s q c)"
    using put_row [OF _ assms(3,5) fits, of "replicate width fill_pixel" q] by auto
  then show ?case
    using Cons.IH [of ?pixels] Cons.prems len by auto
qed simp

lemma copy_row:
  assumes "source < h" "destination < h" "h * s \<le> length pixels" "left + width \<le> s" "c < s"
  shows "length (copy_within (source * s + left) (source * s + left + width) (destination * s + left) pixels) = length pixels"
    "pixel (copy_within (source * s + left) (source * s + left + width) (destination * s + left) pixels) s q c =
      (if q = destination \<and> left \<le> c \<and> c < left + width then pixel pixels s source c else pixel pixels s q c)"
proof -
  have fits: "source * s + left + width \<le> length pixels" "destination * s + left + width \<le> length pixels"
    using row_fits [OF assms(1,3,4)] row_fits [OF assms(2,3,4)] by simp_all
  let ?row = "slice (source * s + left) (source * s + left + width) pixels"
  have row: "length ?row = width" "\<And>i. i < width \<Longrightarrow> ?row ! i = pixel pixels s source (left + i)"
    using fits(1) by (simp_all add: slice_nth add.assoc)
  show "length (copy_within (source * s + left) (source * s + left + width) (destination * s + left) pixels) = length pixels"
    using fits row(1) by (simp add: copy_within_def)
  show "pixel (copy_within (source * s + left) (source * s + left + width) (destination * s + left) pixels) s q c =
      (if q = destination \<and> left \<le> c \<and> c < left + width then pixel pixels s source c else pixel pixels s q c)"
    using put_row [OF row(1) assms(4,5) fits(2), of q] row(2) [of "c - left"] by (auto simp: copy_within_def)
qed

text \<open>Rows moved down start at the bottom, rows moved up at the upper.\<close>

lemma move_rows_down:
  assumes "upper + n + d \<le> h" "0 < d" "h * s \<le> length pixels" "left + width \<le> s" "c < s"
  shows "length (move_rows (map (\<lambda>row. (upper + row, upper + row + d)) (rev [0..<n])) left width s pixels) = length pixels \<and>
    pixel (move_rows (map (\<lambda>row. (upper + row, upper + row + d)) (rev [0..<n])) left width s pixels) s q c =
      (if upper + d \<le> q \<and> q < upper + n + d \<and> left \<le> c \<and> c < left + width then pixel pixels s (q - d) c else pixel pixels s q c)"
  using assms(1,3)
proof (induction n arbitrary: pixels)
  case (Suc n)
  have "upper + n < h" "upper + n + d < h"
    using Suc.prems(1) by simp_all
  note copied = copy_row [OF this Suc.prems(2) assms(4,5)]
  let ?pixels = "copy_within ((upper + n) * s + left) ((upper + n) * s + left + width) ((upper + n + d) * s + left) pixels"
  have IH: "length (move_rows (map (\<lambda>row. (upper + row, upper + row + d)) (rev [0..<n])) left width s ?pixels) = length ?pixels \<and>
    pixel (move_rows (map (\<lambda>row. (upper + row, upper + row + d)) (rev [0..<n])) left width s ?pixels) s q c =
      (if upper + d \<le> q \<and> q < upper + n + d \<and> left \<le> c \<and> c < left + width then pixel ?pixels s (q - d) c else pixel ?pixels s q c)"
    using Suc.prems copied(1) by (intro Suc.IH) simp_all
  have "move_rows (map (\<lambda>row. (upper + row, upper + row + d)) (rev [0..<Suc n])) left width s pixels =
      move_rows (map (\<lambda>row. (upper + row, upper + row + d)) (rev [0..<n])) left width s ?pixels"
    by simp
  moreover have "q - d \<noteq> upper + n + d" if "q < upper + n + d"
    using that assms(2) by linarith
  moreover have "q = upper + n + d" if "\<not> q < upper + n + d" "q < upper + Suc n + d"
    using that by simp
  ultimately show ?case
    using IH copied(1) copied(2) [of q] copied(2) [of "q - d"] by (auto simp: algebra_simps)
qed auto

lemma move_rows_append: "move_rows (xs @ ys) left width s pixels = move_rows ys left width s (move_rows xs left width s pixels)"
  by (induction xs arbitrary: pixels) auto

lemma move_rows_up:
  assumes "upper + n + d \<le> h" "0 < d" "h * s \<le> length pixels" "left + width \<le> s" "c < s"
  shows "length (move_rows (map (\<lambda>row. (upper + row + d, upper + row)) [0..<n]) left width s pixels) = length pixels \<and>
    (\<forall>q. pixel (move_rows (map (\<lambda>row. (upper + row + d, upper + row)) [0..<n]) left width s pixels) s q c =
      (if upper \<le> q \<and> q < upper + n \<and> left \<le> c \<and> c < left + width then pixel pixels s (q + d) c else pixel pixels s q c))"
  using assms(1)
proof (induction n)
  case (Suc n)
  let ?pixels = "move_rows (map (\<lambda>row. (upper + row + d, upper + row)) [0..<n]) left width s pixels"
  have IH: "length ?pixels = length pixels" "\<And>q. pixel ?pixels s q c =
      (if upper \<le> q \<and> q < upper + n \<and> left \<le> c \<and> c < left + width then pixel pixels s (q + d) c else pixel pixels s q c)"
    using Suc by simp_all
  have rows: "upper + n + d < h" "upper + n < h" "h * s \<le> length ?pixels"
    using Suc.prems IH(1) assms(3) by simp_all
  have split: "move_rows (map (\<lambda>row. (upper + row + d, upper + row)) [0..<Suc n]) left width s pixels =
      copy_within ((upper + n + d) * s + left) ((upper + n + d) * s + left + width) ((upper + n) * s + left) ?pixels"
    by (simp add: move_rows_append)
  have "pixel ?pixels s (upper + n + d) c = pixel pixels s (upper + n + d) c"
    using IH(2) [of "upper + n + d"] assms(2) by simp
  then show ?case
    unfolding split using copy_row [OF rows assms(4,5)] IH by (auto simp: less_Suc_eq)
qed auto

text \<open>A point of the plane, and the pixel that is moved to it.\<close>

definition in_rect_at :: "dirty_rect \<Rightarrow> int \<Rightarrow> int \<Rightarrow> bool" where
  "in_rect_at r x y \<longleftrightarrow> int (x0 r) \<le> x \<and> x < int (x1 r) \<and> int (y0 r) \<le> y \<and> y < int (y1 r)"

section \<open>Properties\<close>

text \<open>
  C31: Moving a rectangle in place moves exactly its pixels. When \<open>shift_physical_rect\<close> accepts, each pixel
  of the rectangle afterwards is the pixel that lay by the distance before it, if that one was in the
  rectangle too, and the fill colour if it was not, although source and destination overlap; no pixel
  outside the rectangle changes, and the buffer keeps its size.
\<close>

theorem shift_moves_the_rectangle:
  assumes "shift_physical_rect pixels stride height r dx dy fill_pixel = (True, pixels')" "stride * height \<le> USIZE_MAX"
    and "q < height" "c < stride"
  shows "length pixels' = length pixels \<and> pixels' ! (q * stride + c) =
    (if in_rect r c q
     then if in_rect_at r (int c - dx) (int q - dy) then pixels ! (nat (int q - dy) * stride + nat (int c - dx)) else fill_pixel
     else pixels ! (q * stride + c))"
proof -
  have r: "x0 r < x1 r" "y0 r < y1 r" "x1 r \<le> stride" "y1 r \<le> height" "dx = 0 \<or> dy = 0" "height * stride \<le> length pixels"
    using assms(1,2) by (auto simp: shift_physical_rect_def min_def ac_simps split: if_splits)
  have width: "x0 r + rect_width r = x1 r" "y0 r + rect_rows r = y1 r" "x0 r + rect_width r \<le> stride"
    using r by (simp_all add: rect_width_def rect_rows_def)
  consider (still) "dx = 0" "dy = 0" | (sideways) "dx \<noteq> 0" "dy = 0" | (down) "dx = 0" "0 < dy" | (up) "dx = 0" "dy < 0"
    using r(5) by linarith
  then show ?thesis
  proof cases
    case still
    then show ?thesis
      using assms(1) by (auto simp: shift_physical_rect_def Let_def in_rect_at_def in_rect_def split: if_splits)
  next
    case sideways
    then have "pixels' = shift_columns [y0 r..<y1 r] dx (x0 r) (x1 r) stride fill_pixel pixels" "nat \<bar>dx\<bar> < x1 r - x0 r"
      using assms(1) by (auto simp: shift_physical_rect_def Let_def rect_width_def split: if_splits)
    then show ?thesis
      using shift_columns_pixels [OF _ _ r(6,1,3) _ assms(3,4), of "[y0 r..<y1 r]" dx fill_pixel] r(4) sideways(2)
      by (auto simp: in_rect_def in_rect_at_def)
  next
    case down
    define d where "d = nat dy"
    let ?moved = "move_rows (map (\<lambda>row. (y0 r + row, y0 r + row + d)) (rev [0..<rect_rows r - d])) (x0 r) (rect_width r) stride pixels"
    have d: "dy = int d" "0 < d" "d < rect_rows r"
      and pixels': "pixels' = fill_rows [y0 r..<y0 r + d] (x0 r) (rect_width r) stride fill_pixel ?moved"
      using assms(1) down by (auto simp: shift_physical_rect_def Let_def d_def split: if_splits)
    have "y0 r + (rect_rows r - d) + d \<le> height"
      using d(3) width(2) r(4) by simp
    note moved = move_rows_down [OF this d(2) r(6) width(3) assms(4)]
    have "\<forall>y \<in> set [y0 r..<y0 r + d]. y < height"
      using d(3) width(2) r(4) by auto
    from fill_rows_pixels [OF this _ width(3) assms(3,4), of ?moved fill_pixel] show ?thesis
      using moved [of q] r(6) d width down(1) unfolding pixels' by (auto simp: in_rect_def in_rect_at_def nat_diff_distrib)
  next
    case up
    define d where "d = nat (- dy)"
    let ?moved = "move_rows (map (\<lambda>row. (y0 r + row + d, y0 r + row)) [0..<rect_rows r - d]) (x0 r) (rect_width r) stride pixels"
    have d: "dy = - int d" "0 < d" "d < rect_rows r"
      and pixels': "pixels' = fill_rows [y1 r - d..<y1 r] (x0 r) (rect_width r) stride fill_pixel ?moved"
      using assms(1) up by (auto simp: shift_physical_rect_def Let_def d_def split: if_splits)
    have "y0 r + (rect_rows r - d) + d \<le> height"
      using d(3) width(2) r(4) by simp
    note moved = move_rows_up [OF this d(2) r(6) width(3) assms(4)]
    have "\<forall>y \<in> set [y1 r - d..<y1 r]. y < height"
      using r(4) by auto
    from fill_rows_pixels [OF this _ width(3) assms(3,4), of ?moved fill_pixel] show ?thesis
      using moved r(6) d width up(1) unfolding pixels' by (auto simp: in_rect_def in_rect_at_def nat_add_distrib)
  qed
qed

theorem shift_moves_the_rectangle_witness:
  "shift_physical_rect [1, 2, 3, 4, 5, 6] 3 2 \<lparr>x0 = 0, y0 = 0, x1 = 2, y1 = 2\<rparr> 1 0 9 = (True, [9, 1, 3, 9, 4, 6]) \<and>
   [9, 1, 3, 9, 4, 6] ! (1 * 3 + 1) = (4 :: u16)"
proof -
  have "shift_physical_rect [1, 2, 3, 4, 5, 6] 3 2 \<lparr>x0 = 0, y0 = 0, x1 = 2, y1 = 2\<rparr> 1 0 9 = (True, [9, 1, 3, 9, 4, 6])"
    by (simp add: shift_physical_rect_def rect_width_def shift_row_def copy_within_def put_at_def slice_def Let_def USIZE_MAX_def
        numeral_2_eq_2 numeral_3_eq_3)
  then show ?thesis
    using shift_moves_the_rectangle [of "[1, 2, 3, 4, 5, 6]" 3 2 "\<lparr>x0 = 0, y0 = 0, x1 = 2, y1 = 2\<rparr>" 1 0 9 _ 1 1]
    by (simp add: USIZE_MAX_def in_rect_def in_rect_at_def)
qed

end
