(* ===== verification/Latch_State.thy ===== *)
theory Latch_State
  imports Layer_Backing
begin

text \<open>
  What the two hidden slots hold (\<open>mister/platform/runtime/src/framebuffer/latch_state.rs\<close>): the frame is a
  cached picture with two layers drawn over it directly, the preview and the arcade list. The state remembers
  which layers each slot shows and plans, for the slot that may be written, what must be restored from the
  cached picture and what must be drawn again. A slot index other than 1 and 2 panics.
\<close>

section \<open>Layers and their updates\<close>

datatype layer_role = PreviewLayer | ArcadeLayer

definition role_index :: "layer_role \<Rightarrow> nat" where
  "role_index role = (case role of PreviewLayer \<Rightarrow> 0 | ArcadeLayer \<Rightarrow> 1)"

definition all_roles :: "layer_role list" where "all_roles = [PreviewLayer, ArcadeLayer]"

record layer_offset =
  lo_x :: int
  lo_y :: int

definition ZERO_OFFSET :: layer_offset where "ZERO_OFFSET = \<lparr>lo_x = 0, lo_y = 0\<rparr>"

record layer_state =
  ly_rect :: dirty_rect
  ly_version :: u64
  ly_offset :: layer_offset

definition layer_state_new :: "dirty_rect \<Rightarrow> u64 \<Rightarrow> layer_state" where
  "layer_state_new r version = \<lparr>ly_rect = r, ly_version = version, ly_offset = ZERO_OFFSET\<rparr>"

definition with_content_offset :: "layer_state \<Rightarrow> layer_offset \<Rightarrow> layer_state" where
  "with_content_offset s offset = s\<lparr>ly_offset := offset\<rparr>"

datatype layer_update = FullUpdate dirty_rect | ScrollUpdate int int dirty_rect "dirty_rect option"

definition update_dirty_rect :: "layer_update \<Rightarrow> dirty_rect" where
  "update_dirty_rect u = (case u of FullUpdate r \<Rightarrow> r | ScrollUpdate dx dy r repair \<Rightarrow> r)"

definition update_repair_rect :: "layer_update \<Rightarrow> dirty_rect option" where
  "update_repair_rect u = (case u of FullUpdate r \<Rightarrow> None | ScrollUpdate dx dy r repair \<Rightarrow> repair)"

definition translate_coordinate :: "nat \<Rightarrow> int \<Rightarrow> nat" where
  "translate_coordinate value delta = (if delta < 0 then value - nat \<bar>delta\<bar> else min (value + nat delta) USIZE_MAX)" for "value" :: nat

definition translate_rect_clipped :: "dirty_rect \<Rightarrow> int \<Rightarrow> int \<Rightarrow> dirty_rect \<Rightarrow> dirty_rect option" where
  "translate_rect_clipped r dx dy bounds =
     rect_intersection \<lparr>x0 = translate_coordinate (x0 r) dx, y0 = translate_coordinate (y0 r) dy,
       x1 = translate_coordinate (x1 r) dx, y1 = translate_coordinate (y1 r) dy\<rparr> bounds"

definition push_uncovered_damage :: "rect_list \<Rightarrow> dirty_rect \<Rightarrow> rect_list" where
  "push_uncovered_damage damage r = rl_extend_from damage (subtract_dirty_rects (rl_from_one r) damage)"

definition write_rects :: "layer_update \<Rightarrow> rect_list" where
  "write_rects u =
     (case u of
        FullUpdate r \<Rightarrow> rl_from_one r
      | ScrollUpdate dx dy r repair_rect \<Rightarrow>
          if dx = 0 \<and> dy = 0 \<or> rect_width r \<le> nat \<bar>dx\<bar> \<or> rect_rows r \<le> nat \<bar>dy\<bar> then rl_from_one r
          else (let damage = rl_new;
                    damage = (if 0 < dx then push_uncovered_damage damage (r\<lparr>x1 := x0 r + nat dx\<rparr>)
                              else if dx < 0 then push_uncovered_damage damage (r\<lparr>x0 := x1 r - nat \<bar>dx\<bar>\<rparr>) else damage);
                    damage = (if 0 < dy then push_uncovered_damage damage (r\<lparr>y1 := y0 r + nat dy\<rparr>)
                              else if dy < 0 then push_uncovered_damage damage (r\<lparr>y0 := y1 r - nat \<bar>dy\<bar>\<rparr>) else damage)
                in case Option.bind repair_rect (\<lambda>repair. rect_intersection repair r) of
                     None \<Rightarrow> damage
                   | Some repair \<Rightarrow>
                       (let damage = push_uncovered_damage damage repair
                        in case translate_rect_clipped repair dx dy r of
                             None \<Rightarrow> damage
                           | Some translated \<Rightarrow> push_uncovered_damage damage translated)))"

section \<open>Publications\<close>

text \<open>
  A layer published by its renderer, with pixels that are shared: \<open>pb_address\<close> is the address of the
  allocation, which is what \<open>Arc::ptr_eq\<close> compares.
\<close>

record layer_publication =
  pb_role :: layer_role
  pb_layout_generation :: u64
  pb_layout_epoch :: u64
  pb_content_generation :: u64
  pb_state :: layer_state
  pb_update :: "layer_update option"
  pb_backing :: layer_backing
  pb_address :: nat

definition capture_owned ::
  "layer_role \<Rightarrow> u64 \<Rightarrow> u64 \<Rightarrow> u64 \<Rightarrow> layer_state \<Rightarrow> layer_update option \<Rightarrow> layer_backing \<Rightarrow> nat \<Rightarrow> layer_publication option" where
  "capture_owned role layout_generation layout_epoch content_generation st update backing address =
     (if layout_generation = 0 \<or> layout_epoch = 0 \<or> content_generation = 0 \<or> ly_rect st \<noteq> lb_rect backing \<or>
         (case update of None \<Rightarrow> False | Some u \<Rightarrow> update_dirty_rect u \<noteq> ly_rect st) then None
      else Some \<lparr>pb_role = role, pb_layout_generation = layout_generation, pb_layout_epoch = layout_epoch,
        pb_content_generation = content_generation, pb_state = st, pb_update = update, pb_backing = backing, pb_address = address\<rparr>)"

fun view_rows :: "layer_view \<Rightarrow> dirty_rect \<Rightarrow> nat list \<Rightarrow> u16 list option" where
  "view_rows v r [] = Some []"
| "view_rows v r (row # rows) = Option.bind (view_row v r row) (\<lambda>pixels. map_option (\<lambda>more. pixels @ more) (view_rows v r rows))"

definition capture_view ::
  "layer_role \<Rightarrow> u64 \<Rightarrow> u64 \<Rightarrow> u64 \<Rightarrow> layer_state \<Rightarrow> layer_update option \<Rightarrow> layer_view \<Rightarrow> nat \<Rightarrow> layer_publication option" where
  "capture_view role layout_generation layout_epoch content_generation st update v address =
     (if layout_generation = 0 \<or> layout_epoch = 0 \<or> content_generation = 0 \<or> ly_rect st \<noteq> lv_rect v \<or>
         (case update of None \<Rightarrow> False | Some u \<Rightarrow> update_dirty_rect u \<noteq> ly_rect st) then None
      else Option.bind (checked_mul (rect_width (ly_rect st)) (rect_rows (ly_rect st))) (\<lambda>_.
        Option.bind (view_rows v (ly_rect st) [0..<rect_rows (ly_rect st)]) (\<lambda>pixels.
        Option.bind (from_dense_pixels (ly_rect st) pixels) (\<lambda>backing.
          capture_owned role layout_generation layout_epoch content_generation st update backing address))))"

definition for_frame :: "layer_publication \<Rightarrow> layer_state \<Rightarrow> layer_update option \<Rightarrow> layer_publication option" where
  "for_frame p st update =
     (if ly_rect st \<noteq> ly_rect (pb_state p) \<or> (case update of None \<Rightarrow> False | Some u \<Rightarrow> update_dirty_rect u \<noteq> ly_rect st) then None
      else Some (p\<lparr>pb_state := st, pb_update := update\<rparr>))"

record publication_identity =
  pi_role :: layer_role
  pi_layout_generation :: u64
  pi_layout_epoch :: u64
  pi_content_generation :: u64

definition identity_of :: "layer_publication \<Rightarrow> publication_identity" where
  "identity_of p = \<lparr>pi_role = pb_role p, pi_layout_generation = pb_layout_generation p, pi_layout_epoch = pb_layout_epoch p,
     pi_content_generation = pb_content_generation p\<rparr>"

section \<open>Frames\<close>

datatype layer_ownership = CachedLayer | PublishedLayer

record layer_frame =
  fr_desired :: "layer_state option"
  fr_update :: "layer_update option"
  fr_publication :: "layer_publication option"
  fr_ownership :: layer_ownership

definition cached_layer :: "layer_state option \<Rightarrow> layer_update option \<Rightarrow> layer_frame" where
  "cached_layer desired update = \<lparr>fr_desired = desired, fr_update = update, fr_publication = None, fr_ownership = CachedLayer\<rparr>"

definition published_layer :: "layer_publication option \<Rightarrow> layer_frame" where
  "published_layer p = \<lparr>fr_desired = map_option pb_state p, fr_update = Option.bind p pb_update, fr_publication = p,
     fr_ownership = PublishedLayer\<rparr>"

record frame_plan =
  fp_cached_damage :: rect_list
  fp_preview :: layer_frame
  fp_arcade :: layer_frame

definition from_cached_layers ::
  "rect_list \<Rightarrow> layer_state option \<Rightarrow> dirty_rect option \<Rightarrow> layer_state option \<Rightarrow> layer_update option \<Rightarrow> frame_plan" where
  "from_cached_layers cached_damage preview_desired preview_dirty arcade_desired arcade_dirty =
     \<lparr>fp_cached_damage = cached_damage, fp_preview = cached_layer preview_desired (map_option FullUpdate preview_dirty),
      fp_arcade = cached_layer arcade_desired arcade_dirty\<rparr>"

definition from_publications :: "rect_list \<Rightarrow> layer_publication option \<Rightarrow> layer_publication option \<Rightarrow> frame_plan" where
  "from_publications cached_damage preview arcade =
     \<lparr>fp_cached_damage = cached_damage, fp_preview = published_layer preview, fp_arcade = published_layer arcade\<rparr>"

definition from_preview_publication_and_cached_arcade ::
  "rect_list \<Rightarrow> layer_publication option \<Rightarrow> layer_state option \<Rightarrow> layer_update option \<Rightarrow> frame_plan" where
  "from_preview_publication_and_cached_arcade cached_damage preview arcade_desired arcade_dirty =
     \<lparr>fp_cached_damage = cached_damage, fp_preview = published_layer preview, fp_arcade = cached_layer arcade_desired arcade_dirty\<rparr>"

definition recovery_layer :: "layer_frame \<Rightarrow> layer_frame" where
  "recovery_layer f =
     (let update = map_option (\<lambda>st. FullUpdate (ly_rect st)) (fr_desired f)
      in f\<lparr>fr_update := update, fr_publication := Option.bind (fr_publication f) (\<lambda>p. for_frame p (pb_state p) update)\<rparr>)"

definition for_fb0_recovery :: "frame_plan \<Rightarrow> dirty_rect \<Rightarrow> frame_plan" where
  "for_fb0_recovery f full = f\<lparr>fp_cached_damage := rl_from_one full, fp_preview := recovery_layer (fp_preview f),
     fp_arcade := recovery_layer (fp_arcade f)\<rparr>"

definition plan_layer :: "frame_plan \<Rightarrow> layer_role \<Rightarrow> layer_frame" where
  "plan_layer f role = (case role of PreviewLayer \<Rightarrow> fp_preview f | ArcadeLayer \<Rightarrow> fp_arcade f)"


section \<open>The state of the slots\<close>

datatype slot_hardware = HwUnknown | HwWritable | HwPending u16 | HwActive u16

text \<open>An array with an entry for each role.\<close>

record 'a per_role =
  of_preview :: 'a
  of_arcade :: 'a

definition for_role :: "'a per_role \<Rightarrow> layer_role \<Rightarrow> 'a" where
  "for_role p role = (case role of PreviewLayer \<Rightarrow> of_preview p | ArcadeLayer \<Rightarrow> of_arcade p)"

definition no_role :: "'a option per_role" where "no_role = \<lparr>of_preview = None, of_arcade = None\<rparr>"

record slot_coherency =
  sc_layers :: "layer_state option per_role"
  sc_hardware :: slot_hardware

record present_plan =
  pp_slot_index :: nat
  pp_restore_rects :: rect_list
  pp_preview_redraw :: "dirty_rect option"
  pp_arcade_redraw :: "layer_update option"
  pp_arcade_redraw_diff_safe :: bool
  pp_preview_after :: "layer_state option"
  pp_arcade_after :: "layer_state option"

datatype plan_error =
    PublicationMismatch layer_role
  | StalePublication layer_role u64 u64 u64 u64
  | NoWritableSlot

record two_buffer_state =
  tb_slots :: "slot_coherency list"
  tb_base_damage :: damage_ledger
  tb_next_slot_index :: nat
  tb_planned :: "layer_publication option per_role"
  tb_slot_publications :: "publication_identity option per_role list"
  tb_latest :: "(u64 \<times> u64) option per_role"

definition empty_slot :: slot_coherency where
  "empty_slot = \<lparr>sc_layers = no_role, sc_hardware = HwUnknown\<rparr>"

definition two_buffer_new :: "nat \<Rightarrow> nat \<Rightarrow> two_buffer_state" where
  "two_buffer_new width height = \<lparr>tb_slots = [empty_slot, empty_slot], tb_base_damage = ledger_new width height, tb_next_slot_index = 1,
     tb_planned = no_role, tb_slot_publications = [no_role, no_role], tb_latest = no_role\<rparr>"

definition tb_invalidate_all :: "two_buffer_state \<Rightarrow> two_buffer_state" where
  "tb_invalidate_all t = t\<lparr>tb_base_damage := ledger_invalidate_all (tb_base_damage t),
     tb_slots := map (\<lambda>s. s\<lparr>sc_layers := no_role, sc_hardware := HwUnknown\<rparr>) (tb_slots t), tb_next_slot_index := 1,
     tb_planned := no_role, tb_slot_publications := map (\<lambda>_. no_role) (tb_slot_publications t), tb_latest := no_role\<rparr>"

definition tb_slot :: "two_buffer_state \<Rightarrow> nat \<Rightarrow> slot_coherency option" where
  "tb_slot t slot = map_option (\<lambda>o1. tb_slots t ! o1) (slot_offset slot)"

definition tb_update_slot :: "two_buffer_state \<Rightarrow> nat \<Rightarrow> (slot_coherency \<Rightarrow> slot_coherency) \<Rightarrow> two_buffer_state option" where
  "tb_update_slot t slot f = map_option (\<lambda>o1. t\<lparr>tb_slots := (tb_slots t)[o1 := f (tb_slots t ! o1)]\<rparr>) (slot_offset slot)"

definition other_slot :: "nat \<Rightarrow> nat option" where
  "other_slot slot = (if slot = 1 then Some 2 else if slot = 2 then Some 1 else None)"

definition sync_hardware :: "nat option \<Rightarrow> u16 \<Rightarrow> bool \<Rightarrow> u16 \<Rightarrow> two_buffer_state \<Rightarrow> two_buffer_state option" where
  "sync_hardware active_slot active_sequence pending pending_sequence t =
     (if pending then Some (t\<lparr>tb_slots := map (\<lambda>s. s\<lparr>sc_hardware := HwPending pending_sequence\<rparr>) (tb_slots t)\<rparr>)
      else let t = t\<lparr>tb_slots := map (\<lambda>s. s\<lparr>sc_hardware := HwWritable\<rparr>) (tb_slots t)\<rparr>
        in case active_slot of
             None \<Rightarrow> Some t
           | Some slot \<Rightarrow> tb_update_slot t slot (\<lambda>s. s\<lparr>sc_hardware := HwActive active_sequence\<rparr>))"

definition slot_is_writable :: "two_buffer_state \<Rightarrow> nat \<Rightarrow> bool option" where
  "slot_is_writable t slot = map_option (\<lambda>s. sc_hardware s = HwWritable) (tb_slot t slot)"

definition select_writable_slot :: "two_buffer_state \<Rightarrow> nat option option" where
  "select_writable_slot t =
     Option.bind (slot_is_writable t (tb_next_slot_index t)) (\<lambda>writable.
       if writable then Some (Some (tb_next_slot_index t))
       else Option.bind (other_slot (tb_next_slot_index t)) (\<lambda>other.
         map_option (\<lambda>writable. if writable then Some other else None) (slot_is_writable t other)))"

section \<open>Planning\<close>

definition publication_matches ::
  "layer_state option \<Rightarrow> layer_update option \<Rightarrow> layer_publication option \<Rightarrow> layer_role \<Rightarrow> bool" where
  "publication_matches desired update p role =
     (case (desired, p) of
        (None, None) \<Rightarrow> True
      | (Some desired, Some p) \<Rightarrow> pb_role p = role \<and> pb_state p = desired \<and> pb_update p = update
      | _ \<Rightarrow> False)"

definition layer_publication_matches :: "layer_frame \<Rightarrow> layer_role \<Rightarrow> bool" where
  "layer_publication_matches f role =
     (case fr_ownership f of
        CachedLayer \<Rightarrow> fr_publication f = None
      | PublishedLayer \<Rightarrow> publication_matches (fr_desired f) (fr_update f) (fr_publication f) role)"

definition first_publication_mismatch :: "frame_plan \<Rightarrow> layer_role option" where
  "first_publication_mismatch f = find (\<lambda>role. \<not> layer_publication_matches (plan_layer f role) role) all_roles"

definition generation_less :: "u64 \<times> u64 \<Rightarrow> u64 \<times> u64 \<Rightarrow> bool" where
  "generation_less a b \<longleftrightarrow> fst a < fst b \<or> fst a = fst b \<and> snd a < snd b"

fun stale_error :: "two_buffer_state \<Rightarrow> layer_publication list \<Rightarrow> plan_error option" where
  "stale_error t [] = None"
| "stale_error t (p # ps) =
     (let offered = (pb_layout_epoch p, pb_content_generation p)
      in case for_role (tb_latest t) (pb_role p) of
           None \<Rightarrow> stale_error t ps
         | Some latest \<Rightarrow>
             if generation_less offered latest
             then Some (StalePublication (pb_role p) (fst latest) (snd latest) (fst offered) (snd offered))
             else stale_error t ps)"

definition stale_publication_error :: "two_buffer_state \<Rightarrow> frame_plan \<Rightarrow> plan_error option" where
  "stale_publication_error t f =
     stale_error t (List.map_filter (\<lambda>role. fr_publication (plan_layer f role)) all_roles)"

definition direct_layer_needs_restore :: "layer_state option \<Rightarrow> layer_state option \<Rightarrow> bool" where
  "direct_layer_needs_restore current desired =
     (case current of
        None \<Rightarrow> False
      | Some current \<Rightarrow>
          \<not> (case desired of None \<Rightarrow> False
             | Some desired \<Rightarrow> ly_rect desired = ly_rect current \<and> ly_version desired = ly_version current))"

definition direct_layer_redraw_rect ::
  "layer_state option \<Rightarrow> layer_state option \<Rightarrow> dirty_rect option \<Rightarrow> bool \<Rightarrow> bool \<Rightarrow> dirty_rect option" where
  "direct_layer_redraw_rect current desired dirty intersects_restore publication_changed =
     Option.bind desired (\<lambda>d.
       if current \<noteq> Some d \<or> intersects_restore \<or> publication_changed then Some (ly_rect d) else dirty)"

definition i64_sat_sub :: "int \<Rightarrow> int \<Rightarrow> int" where
  "i64_sat_sub a b = clamp_int (a - b) (- (2 ^ 63)) (2 ^ 63 - 1)"

definition isize_clamp :: "int \<Rightarrow> int" where
  "isize_clamp v = clamp_int v (- (2 ^ 31)) (2 ^ 31 - 1)"

definition direct_layer_redraw_update ::
  "layer_state option \<Rightarrow> layer_state option \<Rightarrow> layer_update option \<Rightarrow> bool \<Rightarrow> bool \<Rightarrow> layer_update option" where
  "direct_layer_redraw_update current desired dirty intersects_restore publication_requires_full =
     Option.bind desired (\<lambda>d.
       if publication_requires_full then Some (FullUpdate (ly_rect d))
       else if (case dirty of Some (FullUpdate r) \<Rightarrow> True | _ \<Rightarrow> False) then Some (FullUpdate (ly_rect d))
       else case current of
         None \<Rightarrow> Some (FullUpdate (ly_rect d))
       | Some c \<Rightarrow>
           if ly_rect c \<noteq> ly_rect d \<or> ly_version c \<noteq> ly_version d then Some (FullUpdate (ly_rect d))
           else if ly_offset c \<noteq> ly_offset d then
             Some (ScrollUpdate (isize_clamp (i64_sat_sub (lo_x (ly_offset d)) (lo_x (ly_offset c))))
               (isize_clamp (i64_sat_sub (lo_y (ly_offset d)) (lo_y (ly_offset c)))) (ly_rect d) (Option.bind dirty update_repair_rect))
           else if intersects_restore then Some (FullUpdate (ly_rect d)) else dirty)"

definition layer_intersects_restore :: "layer_state option \<Rightarrow> rect_list \<Rightarrow> bool" where
  "layer_intersects_restore layer restore_rects =
     (case layer of None \<Rightarrow> False
      | Some l \<Rightarrow> list_ex (\<lambda>restore. rect_intersection restore (ly_rect l) \<noteq> None) (rl_iter restore_rects))"

definition same_publication_identity :: "publication_identity option \<Rightarrow> layer_publication option \<Rightarrow> bool" where
  "same_publication_identity retained desired =
     (case (retained, desired) of
        (None, None) \<Rightarrow> True
      | (Some r, Some d) \<Rightarrow> pi_role r = pb_role d \<and> pi_layout_generation r = pb_layout_generation d \<and>
          pi_layout_epoch r = pb_layout_epoch d \<and> pi_content_generation r = pb_content_generation d
      | _ \<Rightarrow> False)"

definition push_without_covered_rect :: "rect_list \<Rightarrow> dirty_rect \<Rightarrow> rect_list" where
  "push_without_covered_rect target r =
     (if list_ex (\<lambda>existing. rect_contains existing r) (rl_iter target) then target else rl_push target r)"

definition restore_layer :: "layer_state option \<Rightarrow> layer_state option \<Rightarrow> rect_list \<Rightarrow> rect_list" where
  "restore_layer current desired restore_rects =
     (case current of
        Some c \<Rightarrow> if direct_layer_needs_restore current desired then push_without_covered_rect restore_rects (ly_rect c) else restore_rects
      | None \<Rightarrow> restore_rects)"

definition plan_for_slot :: "two_buffer_state \<Rightarrow> nat \<Rightarrow> frame_plan \<Rightarrow> present_plan option" where
  "plan_for_slot t slot f =
     Option.bind (slot_offset slot) (\<lambda>o1.
       let layers = sc_layers (tb_slots t ! o1); preview = fp_preview f; arcade = fp_arcade f;
           restore = debts (tb_base_damage t) ! o1;
           restore = restore_layer (of_preview layers) (fr_desired preview) restore;
           restore = restore_layer (of_arcade layers) (fr_desired arcade) restore;
           preview_intersects = layer_intersects_restore (fr_desired preview) restore;
           arcade_intersects = layer_intersects_restore (fr_desired arcade) restore;
           retained = tb_slot_publications t ! o1;
           preview_changed = (fr_ownership preview = PublishedLayer \<and>
             \<not> same_publication_identity (of_preview retained) (fr_publication preview));
           arcade_changed = (fr_ownership arcade = PublishedLayer \<and>
             \<not> same_publication_identity (of_arcade retained) (fr_publication arcade));
           arcade_full = (arcade_changed \<and> fr_update arcade = None);
           preview_redraw = direct_layer_redraw_rect (of_preview layers) (fr_desired preview)
             (map_option update_dirty_rect (fr_update preview)) preview_intersects preview_changed;
           arcade_redraw = direct_layer_redraw_update (of_arcade layers) (fr_desired arcade) (fr_update arcade)
             arcade_intersects arcade_full;
           diff_safe = (\<not> arcade_intersects \<and> \<not> arcade_full \<and>
             (case (of_arcade layers, fr_desired arcade) of
                (Some c, Some d) \<Rightarrow> ly_rect c = ly_rect d \<and> ly_version c = ly_version d
              | _ \<Rightarrow> False));
           direct_redraws = rl_push_if_some (rl_push_if_some rl_new preview_redraw) (map_option update_dirty_rect arcade_redraw)
       in Some \<lparr>pp_slot_index = slot, pp_restore_rects = subtract_dirty_rects restore direct_redraws,
            pp_preview_redraw = preview_redraw, pp_arcade_redraw = arcade_redraw, pp_arcade_redraw_diff_safe = diff_safe,
            pp_preview_after = fr_desired preview, pp_arcade_after = fr_desired arcade\<rparr>)"

definition remember_generation :: "layer_publication option \<Rightarrow> (u64 \<times> u64) option per_role \<Rightarrow> (u64 \<times> u64) option per_role" where
  "remember_generation p latest =
     (case p of None \<Rightarrow> latest
      | Some p \<Rightarrow>
          (let generation = Some (pb_layout_epoch p, pb_content_generation p)
           in case pb_role p of PreviewLayer \<Rightarrow> latest\<lparr>of_preview := generation\<rparr> | ArcadeLayer \<Rightarrow> latest\<lparr>of_arcade := generation\<rparr>))"

text \<open>A refused publication leaves the state as it was; without a slot only the damage is recorded.\<close>

definition plan_next :: "frame_plan \<Rightarrow> two_buffer_state \<Rightarrow> ((plan_error + present_plan) \<times> two_buffer_state) option" where
  "plan_next f t =
     (case first_publication_mismatch f of
        Some role \<Rightarrow> Some (Inl (PublicationMismatch role), t)
      | None \<Rightarrow>
          (case stale_publication_error t f of
             Some e \<Rightarrow> Some (Inl e, t)
           | None \<Rightarrow>
               (let t = t\<lparr>tb_base_damage := record_damage (tb_base_damage t) (fp_cached_damage f)\<rparr>
                in Option.bind (select_writable_slot t) (\<lambda>selected.
                     case selected of
                       None \<Rightarrow> Some (Inl NoWritableSlot, t)
                     | Some slot \<Rightarrow>
                         (let t = t\<lparr>tb_planned := \<lparr>of_preview = fr_publication (fp_preview f), of_arcade = fr_publication (fp_arcade f)\<rparr>,
                                tb_latest := remember_generation (fr_publication (fp_arcade f))
                                  (remember_generation (fr_publication (fp_preview f)) (tb_latest t))\<rparr>
                          in map_option (\<lambda>plan. (Inr plan, t)) (plan_for_slot t slot f))))))"

definition mark_post_success :: "present_plan \<Rightarrow> two_buffer_state \<Rightarrow> two_buffer_state option" where
  "mark_post_success plan t =
     Option.bind (ledger_presented (tb_base_damage t) (pp_slot_index plan)) (\<lambda>ledger.
     Option.bind (tb_update_slot (t\<lparr>tb_base_damage := ledger\<rparr>) (pp_slot_index plan) (\<lambda>s.
       s\<lparr>sc_layers := \<lparr>of_preview = pp_preview_after plan, of_arcade = pp_arcade_after plan\<rparr>, sc_hardware := HwUnknown\<rparr>)) (\<lambda>t.
     Option.bind (slot_offset (pp_slot_index plan)) (\<lambda>o1.
     map_option (\<lambda>other. t\<lparr>tb_slot_publications := (tb_slot_publications t)[o1 :=
         \<lparr>of_preview = map_option identity_of (of_preview (tb_planned t)), of_arcade = map_option identity_of (of_arcade (tb_planned t))\<rparr>],
       tb_planned := no_role, tb_next_slot_index := other\<rparr>) (other_slot (pp_slot_index plan)))))"

definition mark_attempt_failed :: "nat \<Rightarrow> two_buffer_state \<Rightarrow> two_buffer_state option" where
  "mark_attempt_failed slot t =
     Option.bind (ledger_attempt_failed (tb_base_damage t) slot) (\<lambda>ledger.
     Option.bind (tb_update_slot (t\<lparr>tb_base_damage := ledger\<rparr>) slot (\<lambda>s. s\<lparr>sc_layers := no_role, sc_hardware := HwUnknown\<rparr>)) (\<lambda>t.
     map_option (\<lambda>o1. t\<lparr>tb_planned := no_role, tb_slot_publications := (tb_slot_publications t)[o1 := no_role]\<rparr>) (slot_offset slot)))"

definition restore_bytes_for_slot :: "two_buffer_state \<Rightarrow> nat \<Rightarrow> nat option" where
  "restore_bytes_for_slot t slot =
     Option.bind (tb_slot t slot) (\<lambda>s. Option.bind (ledger_plan (tb_base_damage t) slot) (\<lambda>restore.
       let add = (\<lambda>layer restore. case layer of None \<Rightarrow> restore
             | Some l \<Rightarrow> rl_extend_from restore (subtract_dirty_rects (rl_from_one (ly_rect l)) restore))
       in Some (total_rgb565_bytes (add (of_arcade (sc_layers s)) (add (of_preview (sc_layers s)) restore)))))"

end
