(* ===== verification/Latch_Layers.thy ===== *)
theory Latch_Layers
  imports Latch_State
begin

text \<open>
  What the plans of \<open>Latch_State\<close> achieve. A frame is a cached picture with the preview and the arcade list
  drawn over it; what a layer looks like is a function of its state and, when it is published, of the
  identity of its publication. The presenter (\<open>present_cached_full_frame\<close> with its overlay closure) restores,
  draws the preview and draws the arcade list, in this order, and a slot then shows the frame.
\<close>

section \<open>Pictures\<close>

type_synonym picture = "nat \<Rightarrow> nat \<Rightarrow> u16"

type_synonym layer_key = "(layer_state \<times> publication_identity option) option"

type_synonym layer_content = "layer_role \<Rightarrow> layer_state \<Rightarrow> publication_identity option \<Rightarrow> picture"

definition frame_key :: "layer_frame \<Rightarrow> layer_key" where
  "frame_key f = map_option (\<lambda>d. (d, map_option identity_of (fr_publication f))) (fr_desired f)"

definition slot_key :: "layer_state option \<Rightarrow> publication_identity option \<Rightarrow> layer_key" where
  "slot_key layer retained = map_option (\<lambda>d. (d, retained)) layer"

definition over :: "layer_content \<Rightarrow> layer_role \<Rightarrow> layer_key \<Rightarrow> picture \<Rightarrow> picture" where
  "over content role key behind x y =
     (case key of
        None \<Rightarrow> behind x y
      | Some (d, retained) \<Rightarrow> if in_rect (ly_rect d) x y then content role d retained x y else behind x y)"

definition in_layer :: "layer_state option \<Rightarrow> nat \<Rightarrow> nat \<Rightarrow> bool" where
  "in_layer layer x y \<longleftrightarrow> (case layer of None \<Rightarrow> False | Some d \<Rightarrow> in_rect (ly_rect d) x y)"

definition composed :: "layer_content \<Rightarrow> frame_plan \<Rightarrow> picture \<Rightarrow> picture" where
  "composed content f base =
     over content ArcadeLayer (frame_key (fp_arcade f)) (over content PreviewLayer (frame_key (fp_preview f)) base)"

definition restore_pixels :: "rect_list \<Rightarrow> picture \<Rightarrow> picture \<Rightarrow> picture" where
  "restore_pixels rects base slot x y = (if covers rects x y then base x y else slot x y)"

definition draw_layer :: "layer_content \<Rightarrow> layer_role \<Rightarrow> layer_key \<Rightarrow> dirty_rect option \<Rightarrow> picture \<Rightarrow> picture" where
  "draw_layer content role key redraw slot x y =
     (case (key, redraw) of
        (Some (d, retained), Some r) \<Rightarrow> if in_rect r x y then content role d retained x y else slot x y
      | _ \<Rightarrow> slot x y)"

definition draw_plan :: "layer_content \<Rightarrow> present_plan \<Rightarrow> frame_plan \<Rightarrow> picture \<Rightarrow> picture \<Rightarrow> picture" where
  "draw_plan content plan f base slot =
     draw_layer content ArcadeLayer (frame_key (fp_arcade f)) (map_option update_dirty_rect (pp_arcade_redraw plan))
       (draw_layer content PreviewLayer (frame_key (fp_preview f)) (pp_preview_redraw plan)
         (restore_pixels (pp_restore_rects plan) base slot))"

section \<open>Frames and slots that fit\<close>

definition apart :: "layer_state option \<Rightarrow> layer_state option \<Rightarrow> bool" where
  "apart a b \<longleftrightarrow> (\<forall>x y. \<not> (in_layer a x y \<and> in_layer b x y))"

definition layer_fits :: "layer_ownership \<Rightarrow> layer_role \<Rightarrow> layer_frame \<Rightarrow> bool" where
  "layer_fits own role f \<longleftrightarrow> fr_ownership f = own \<and> layer_publication_matches f role \<and>
     (\<forall>d u. fr_desired f = Some d \<longrightarrow> fr_update f = Some u \<longrightarrow> update_dirty_rect u = ly_rect d)"

definition frame_fits :: "layer_ownership per_role \<Rightarrow> frame_plan \<Rightarrow> bool" where
  "frame_fits own f \<longleftrightarrow> layer_fits (of_preview own) PreviewLayer (fp_preview f) \<and> layer_fits (of_arcade own) ArcadeLayer (fp_arcade f) \<and>
     apart (fr_desired (fp_preview f)) (fr_desired (fp_arcade f))"

definition slot_composed ::
  "layer_content \<Rightarrow> layer_ownership per_role \<Rightarrow> dirty_rect \<Rightarrow> rect_list \<Rightarrow> layer_state option per_role \<Rightarrow>
     publication_identity option per_role \<Rightarrow> picture \<Rightarrow> picture \<Rightarrow> bool" where
  "slot_composed content own full debt layers retained base slot \<longleftrightarrow>
     (of_preview own = CachedLayer \<longrightarrow> of_preview retained = None) \<and> (of_arcade own = CachedLayer \<longrightarrow> of_arcade retained = None) \<and>
     apart (of_preview layers) (of_arcade layers) \<and>
     (\<forall>x y. in_rect full x y \<longrightarrow>
        covers debt x y \<and> \<not> in_layer (of_preview layers) x y \<and> \<not> in_layer (of_arcade layers) x y \<or>
        slot x y = over content ArcadeLayer (slot_key (of_arcade layers) (of_arcade retained))
          (over content PreviewLayer (slot_key (of_preview layers) (of_preview retained)) base) x y)"

section \<open>What a plan restores\<close>

lemma restore_layer_covers:
  assumes "rl_ok restore"
  shows "rl_ok (restore_layer current desired restore)"
    "covers restore x y \<Longrightarrow> covers (restore_layer current desired restore) x y"
    "in_layer current x y \<Longrightarrow> direct_layer_needs_restore current desired \<Longrightarrow> covers (restore_layer current desired restore) x y"
proof -
  have pushed: "rl_ok (push_without_covered_rect restore r) \<and> (covers restore x y \<or> in_rect r x y \<longrightarrow> covers (push_without_covered_rect restore r) x y)" for r
  proof (cases "list_ex (\<lambda>existing. rect_contains existing r) (rl_iter restore)")
    case True
    then show ?thesis
      using assms in_rect_contains by (fastforce simp: push_without_covered_rect_def list_ex_iff covers_def)
  next
    case False
    then show ?thesis
      using push_covers [OF assms, where r = r] by (simp add: push_without_covered_rect_def)
  qed
  then show "rl_ok (restore_layer current desired restore)"
    "covers restore x y \<Longrightarrow> covers (restore_layer current desired restore) x y"
    "in_layer current x y \<Longrightarrow> direct_layer_needs_restore current desired \<Longrightarrow> covers (restore_layer current desired restore) x y"
    using assms by (auto simp: restore_layer_def in_layer_def split: option.split)
qed

lemma kept_layer: "in_layer current x y \<Longrightarrow> \<not> direct_layer_needs_restore current desired \<Longrightarrow> in_layer desired x y"
  by (auto simp: in_layer_def direct_layer_needs_restore_def split: option.splits)

lemma not_intersecting: "\<not> layer_intersects_restore layer restore \<Longrightarrow> in_layer layer x y \<Longrightarrow> \<not> covers restore x y"
  using rect_intersection_None
  by (auto simp: layer_intersects_restore_def in_layer_def covers_def list_ex_iff split: option.splits)

lemma direct_redraws_cover:
  "covers (rl_push_if_some (rl_push_if_some rl_new a) b) x y \<longleftrightarrow>
     (case a of None \<Rightarrow> False | Some r \<Rightarrow> in_rect r x y) \<or> (case b of None \<Rightarrow> False | Some r \<Rightarrow> in_rect r x y)"
proof -
  have new: "rl_ok rl_new" "rl_len rl_new = 0" "\<not> covers rl_new x y"
    by (simp_all add: rl_new_def covers_def rl_iter_def rl_ok_def)
  define l where "l = rl_push_if_some rl_new a"
  have "rl_ok l \<and> rl_len l \<le> 1 \<and> (covers l x y \<longleftrightarrow> (case a of None \<Rightarrow> False | Some r \<Rightarrow> in_rect r x y))"
  proof (cases a)
    case (Some r)
    have "rl_len (rl_push rl_new r) \<le> 1"
      by (simp add: rl_push_def rl_try_push_def rl_new_def DIRTY_RECT_LIST_CAP_def)
    then show ?thesis
      using push_covers(1) [OF new(1), of r] push_exact(1) [OF new(1), where r = r and x = x and y = y] new Some
      by (simp add: l_def rl_push_if_some_def DIRTY_RECT_LIST_CAP_def)
  qed (use new in \<open>simp add: l_def rl_push_if_some_def\<close>)
  then show ?thesis
    unfolding l_def [symmetric] using push_exact(1) [of l, where x = x and y = y]
    by (cases b) (auto simp: rl_push_if_some_def [of l] DIRTY_RECT_LIST_CAP_def)
qed

lemma subtract_bounds:
  assumes "rl_ok rects"
  shows "covers (subtract_dirty_rects rects cuts) x y \<Longrightarrow> covers rects x y"
    "covers rects x y \<Longrightarrow> \<not> covers cuts x y \<Longrightarrow> covers (subtract_dirty_rects rects cuts) x y"
  using subtract_loop_covers [OF assms rl_ok_new(1), of rects "rl_iter cuts"]
  by (auto simp: subtract_dirty_rects_def covers_def [of cuts])

section \<open>What a plan draws\<close>

text \<open>A layer that is not drawn again is already there.\<close>

lemma preview_kept:
  assumes "direct_layer_redraw_rect current (fr_desired f) (map_option update_dirty_rect (fr_update f)) intersects
      (fr_ownership f = PublishedLayer \<and> \<not> same_publication_identity retained (fr_publication f)) = None"
    and "layer_fits own role f" "own = CachedLayer \<longrightarrow> retained = None" "fr_desired f = Some d"
  shows "\<not> intersects" "slot_key current retained = frame_key f"
  using assms
  by (auto simp: direct_layer_redraw_rect_def layer_fits_def layer_publication_matches_def publication_matches_def slot_key_def frame_key_def
      same_publication_identity_def identity_of_def split: if_splits option.splits layer_ownership.splits)

lemma arcade_kept:
  assumes "direct_layer_redraw_update current (fr_desired f) (fr_update f) intersects
      ((fr_ownership f = PublishedLayer \<and> \<not> same_publication_identity retained (fr_publication f)) \<and> fr_update f = None) = None"
    and "layer_fits own role f" "own = CachedLayer \<longrightarrow> retained = None" "fr_desired f = Some d"
  shows "\<not> intersects" "slot_key current retained = frame_key f"
  using assms
  by (auto simp: direct_layer_redraw_update_def layer_fits_def layer_publication_matches_def publication_matches_def slot_key_def frame_key_def
      same_publication_identity_def identity_of_def split: if_splits option.splits layer_ownership.splits layer_update.splits)

text \<open>A layer that is drawn again is drawn whole.\<close>

lemma preview_whole:
  assumes "direct_layer_redraw_rect current (fr_desired f) (map_option update_dirty_rect (fr_update f)) intersects changed = Some r"
    and "layer_fits own role f"
  shows "\<exists>d. fr_desired f = Some d \<and> r = ly_rect d"
  using assms by (auto simp: direct_layer_redraw_rect_def layer_fits_def Option.bind_eq_Some_conv split: if_splits)

lemma arcade_whole:
  assumes "direct_layer_redraw_update current (fr_desired f) (fr_update f) intersects changed = Some u"
    and "layer_fits own role f"
  shows "\<exists>d. fr_desired f = Some d \<and> update_dirty_rect u = ly_rect d"
  using assms
  by (auto simp: direct_layer_redraw_update_def layer_fits_def Option.bind_eq_Some_conv update_dirty_rect_def split: if_splits option.splits layer_update.splits)


section \<open>A plan carried out\<close>

text \<open>The damage of a frame is recorded, and the cached picture changes only there.\<close>

lemma over_cong:
  "(\<not> in_layer layer x y \<Longrightarrow> p x y = q x y) \<Longrightarrow>
     over content role (slot_key layer retained) p x y = over content role (slot_key layer retained) q x y"
  by (auto simp: over_def slot_key_def in_layer_def split: option.splits)

lemma slot_composed_later:
  assumes "slot_composed content own full debt layers retained base slot"
    and "\<And>x y. covers debt x y \<Longrightarrow> covers debt' x y" "\<And>x y. in_rect full x y \<Longrightarrow> \<not> covers debt' x y \<Longrightarrow> base' x y = base x y"
  shows "slot_composed content own full debt' layers retained base' slot"
proof -
  have "covers debt' x y \<and> \<not> in_layer (of_preview layers) x y \<and> \<not> in_layer (of_arcade layers) x y \<or>
      slot x y = over content ArcadeLayer (slot_key (of_arcade layers) (of_arcade retained))
        (over content PreviewLayer (slot_key (of_preview layers) (of_preview retained)) base') x y" if "in_rect full x y" for x y
  proof (cases "covers debt' x y \<and> \<not> in_layer (of_preview layers) x y \<and> \<not> in_layer (of_arcade layers) x y")
    case False
    then have "\<not> (covers debt x y \<and> \<not> in_layer (of_preview layers) x y \<and> \<not> in_layer (of_arcade layers) x y)"
      using assms(2) by blast
    then have "slot x y = over content ArcadeLayer (slot_key (of_arcade layers) (of_arcade retained))
        (over content PreviewLayer (slot_key (of_preview layers) (of_preview retained)) base) x y"
      using assms(1) that by (auto simp: slot_composed_def)
    also have "\<dots> = over content ArcadeLayer (slot_key (of_arcade layers) (of_arcade retained))
        (over content PreviewLayer (slot_key (of_preview layers) (of_preview retained)) base') x y"
      using False assms(3) [OF that] by (intro over_cong) auto
    finally show ?thesis
      by blast
  qed blast
  then show ?thesis
    using assms(1) by (auto simp: slot_composed_def)
qed

lemma slot_composed_nothing:
  assumes "\<And>x y. in_rect full x y \<Longrightarrow> covers debt x y"
  shows "slot_composed content own full debt no_role no_role base slot"
  using assms by (simp add: slot_composed_def no_role_def apart_def in_layer_def)

text \<open>The frame that was drawn, as the content of a slot.\<close>

lemma composed_slot:
  "composed content f base x y = over content ArcadeLayer (slot_key (fr_desired (fp_arcade f)) (map_option identity_of (fr_publication (fp_arcade f))))
     (over content PreviewLayer (slot_key (fr_desired (fp_preview f)) (map_option identity_of (fr_publication (fp_preview f)))) base) x y"
  by (simp add: composed_def slot_key_def frame_key_def)

lemma plan_draws:
  fixes t :: two_buffer_state
  assumes plan: "plan_for_slot t slot_index f = Some plan" and o1: "slot_offset slot_index = Some o1" and fits: "frame_fits own f"
    and ok: "rl_ok (debts (tb_base_damage t) ! o1)"
    and old: "slot_composed content own full (debts (tb_base_damage t) ! o1) (sc_layers (tb_slots t ! o1)) (tb_slot_publications t ! o1) base slot"
    and xy: "in_rect full x y"
  shows "draw_plan content plan f base slot x y = composed content f base x y"
proof -
  let ?layers = "sc_layers (tb_slots t ! o1)" and ?retained = "tb_slot_publications t ! o1" and ?debt = "debts (tb_base_damage t) ! o1"
  let ?preview = "fp_preview f" and ?arcade = "fp_arcade f"
  define r1 where "r1 = restore_layer (of_preview ?layers) (fr_desired ?preview) ?debt"
  define r2 where "r2 = restore_layer (of_arcade ?layers) (fr_desired ?arcade) r1"
  define pr where "pr = direct_layer_redraw_rect (of_preview ?layers) (fr_desired ?preview) (map_option update_dirty_rect (fr_update ?preview))
    (layer_intersects_restore (fr_desired ?preview) r2)
    (fr_ownership ?preview = PublishedLayer \<and> \<not> same_publication_identity (of_preview ?retained) (fr_publication ?preview))"
  define ar where "ar = direct_layer_redraw_update (of_arcade ?layers) (fr_desired ?arcade) (fr_update ?arcade)
    (layer_intersects_restore (fr_desired ?arcade) r2)
    ((fr_ownership ?arcade = PublishedLayer \<and> \<not> same_publication_identity (of_arcade ?retained) (fr_publication ?arcade)) \<and> fr_update ?arcade = None)"
  define direct where "direct = rl_push_if_some (rl_push_if_some rl_new pr) (map_option update_dirty_rect ar)"
  have plan': "pp_restore_rects plan = subtract_dirty_rects r2 direct" "pp_preview_redraw plan = pr" "pp_arcade_redraw plan = ar"
    using plan o1 by (auto simp: plan_for_slot_def Let_def r1_def r2_def pr_def ar_def direct_def)
  have fp: "layer_fits (of_preview own) PreviewLayer ?preview" and fa: "layer_fits (of_arcade own) ArcadeLayer ?arcade"
    and disjoint: "\<not> (in_layer (fr_desired ?preview) x y \<and> in_layer (fr_desired ?arcade) x y)"
    using fits by (auto simp: frame_fits_def apart_def)
  have own: "of_preview own = CachedLayer \<longrightarrow> of_preview ?retained = None" "of_arcade own = CachedLayer \<longrightarrow> of_arcade ?retained = None"
    and old_apart: "\<not> (in_layer (of_preview ?layers) x y \<and> in_layer (of_arcade ?layers) x y)"
    and old_pixel: "covers ?debt x y \<and> \<not> in_layer (of_preview ?layers) x y \<and> \<not> in_layer (of_arcade ?layers) x y \<or>
      slot x y = over content ArcadeLayer (slot_key (of_arcade ?layers) (of_arcade ?retained))
          (over content PreviewLayer (slot_key (of_preview ?layers) (of_preview ?retained)) base) x y"
    using old xy by (auto simp: slot_composed_def apart_def)
  have ok1: "rl_ok r1" and ok2: "rl_ok r2"
    using restore_layer_covers(1) ok by (simp_all add: r1_def r2_def)
  have in_pr: "(case pr of None \<Rightarrow> False | Some r \<Rightarrow> in_rect r x y) \<longleftrightarrow> pr \<noteq> None \<and> in_layer (fr_desired ?preview) x y"
    using preview_whole [OF _ fp] by (cases pr) (fastforce simp: pr_def in_layer_def)+
  have in_ar: "(case map_option update_dirty_rect ar of None \<Rightarrow> False | Some r \<Rightarrow> in_rect r x y) \<longleftrightarrow> ar \<noteq> None \<and> in_layer (fr_desired ?arcade) x y"
    using arcade_whole [OF _ fa] by (cases ar) (fastforce simp: ar_def in_layer_def)+
  have direct: "covers direct x y \<longleftrightarrow> pr \<noteq> None \<and> in_layer (fr_desired ?preview) x y \<or> ar \<noteq> None \<and> in_layer (fr_desired ?arcade) x y"
    unfolding direct_def direct_redraws_cover in_pr in_ar ..
  note restored = subtract_bounds [OF ok2, where cuts = direct and x = x and y = y]
  have draw: "draw_plan content plan f base slot x y =
      (if ar \<noteq> None \<and> in_layer (fr_desired ?arcade) x y then over content ArcadeLayer (frame_key ?arcade) base x y
       else if pr \<noteq> None \<and> in_layer (fr_desired ?preview) x y then over content PreviewLayer (frame_key ?preview) base x y
       else if covers (subtract_dirty_rects r2 direct) x y then base x y else slot x y)"
    using in_pr in_ar
    by (auto simp: draw_plan_def draw_layer_def plan' restore_pixels_def over_def frame_key_def in_layer_def split: option.splits)
  show ?thesis
  proof (cases "in_layer (fr_desired ?arcade) x y")
    case arcade: True
    then obtain d where d: "fr_desired ?arcade = Some d"
      by (auto simp: in_layer_def split: option.splits)
    have composed: "composed content f base x y = over content ArcadeLayer (frame_key ?arcade) base' x y" for base'
      using arcade by (auto simp: composed_def over_def frame_key_def in_layer_def split: option.splits)
    show ?thesis
    proof (cases ar)
      case None
      note kept = arcade_kept [OF None [unfolded ar_def] fa own(2) d]
      then have "\<not> covers r2 x y" "in_layer (of_arcade ?layers) x y"
        using not_intersecting [OF kept(1) arcade] arcade d by (auto simp: slot_key_def frame_key_def in_layer_def)
      then have "draw_plan content plan f base slot x y = slot x y" "slot x y = over content ArcadeLayer (frame_key ?arcade)
          (over content PreviewLayer (slot_key (of_preview ?layers) (of_preview ?retained)) base) x y"
        using draw None disjoint arcade restored(1) old_pixel by (auto simp: kept(2))
      then show ?thesis
        using composed by simp
    qed (use draw arcade composed in simp)
  next
    case no_arcade: False
    show ?thesis
    proof (cases "in_layer (fr_desired ?preview) x y")
      case preview: True
      then obtain d where d: "fr_desired ?preview = Some d"
        by (auto simp: in_layer_def split: option.splits)
      have composed: "composed content f base x y = over content PreviewLayer (frame_key ?preview) base' x y" for base'
        using preview no_arcade by (auto simp: composed_def over_def frame_key_def in_layer_def split: option.splits)
      show ?thesis
      proof (cases pr)
        case None
        note kept = preview_kept [OF None [unfolded pr_def] fp own(1) d]
        then have "\<not> covers r2 x y" "in_layer (of_preview ?layers) x y"
          using not_intersecting [OF kept(1) preview] preview d by (auto simp: slot_key_def frame_key_def in_layer_def)
        then have "draw_plan content plan f base slot x y = slot x y" "slot x y = over content PreviewLayer (frame_key ?preview) base x y"
          using draw None no_arcade restored(1) old_pixel old_apart
          by (auto simp: kept(2) [symmetric] over_def [of _ ArcadeLayer] slot_key_def in_layer_def split: option.splits)
        then show ?thesis
          using composed by simp
      qed (use draw preview no_arcade composed in simp)
    next
      case no_preview: False
      have composed: "composed content f base x y = base x y"
        using no_arcade no_preview by (auto simp: composed_def over_def frame_key_def in_layer_def split: option.splits)
      show ?thesis
      proof (cases "covers r2 x y")
        case True
        then show ?thesis
          using draw direct no_arcade no_preview composed restored(2) by simp
      next
        case False
        have grows: "covers ?debt x y \<Longrightarrow> covers r1 x y" "covers r1 x y \<Longrightarrow> covers r2 x y"
          unfolding r1_def r2_def by (rule restore_layer_covers(2) [OF ok] restore_layer_covers(2) [OF ok1 [unfolded r1_def]], assumption)+
        have old_layers: "in_layer (of_preview ?layers) x y \<Longrightarrow> direct_layer_needs_restore (of_preview ?layers) (fr_desired ?preview) \<Longrightarrow> covers r1 x y"
          "in_layer (of_arcade ?layers) x y \<Longrightarrow> direct_layer_needs_restore (of_arcade ?layers) (fr_desired ?arcade) \<Longrightarrow> covers r2 x y"
          unfolding r1_def by (rule restore_layer_covers(3) [OF ok], assumption+) (simp add: r2_def restore_layer_covers(3) [OF ok1])
        have "\<not> in_layer (of_preview ?layers) x y"
          using kept_layer [of "of_preview ?layers" x y "fr_desired ?preview"] no_preview False grows(2) old_layers(1) by blast
        moreover have "\<not> in_layer (of_arcade ?layers) x y"
          using kept_layer [of "of_arcade ?layers" x y "fr_desired ?arcade"] no_arcade False old_layers(2) by blast
        moreover have "\<not> covers ?debt x y"
          using False grows by blast
        ultimately have "slot x y = base x y"
          using old_pixel by (auto simp: over_def slot_key_def in_layer_def split: option.splits)
        then show ?thesis
          using draw no_arcade no_preview composed restored(1) False by auto
      qed
    qed
  qed
qed


section \<open>Frames one after the other\<close>

text \<open>
  The presenter's view of the world: its state, the cached picture and what the two slots hold. A frame is
  presented, or the attempt fails and leaves anything in the slot. After a publication was refused the
  launcher freezes, until it recovers and takes both slots for stale.
\<close>

record latch_world =
  lw_state :: two_buffer_state
  lw_base :: picture
  lw_slots :: "nat \<Rightarrow> picture"
  lw_frozen :: bool

datatype latch_op =
    HardwareStatus "nat option" u16 bool u16
  | PresentFrame frame_plan picture
  | FailFrame frame_plan picture picture
  | Recover

definition freezes :: "plan_error \<Rightarrow> bool" where
  "freezes e \<longleftrightarrow> e \<noteq> NoWritableSlot"

fun latch_step :: "layer_content \<Rightarrow> latch_world \<Rightarrow> latch_op \<Rightarrow> latch_world option" where
  "latch_step content w (HardwareStatus active active_sequence pending pending_sequence) =
     map_option (\<lambda>t. w\<lparr>lw_state := t\<rparr>) (sync_hardware active active_sequence pending pending_sequence (lw_state w))"
| "latch_step content w (PresentFrame f base) =
     Option.bind (plan_next f (lw_state w)) (\<lambda>(result, t).
       case result of
         Inl e \<Rightarrow> Some (w\<lparr>lw_state := t, lw_base := base, lw_frozen := (lw_frozen w \<or> freezes e)\<rparr>)
       | Inr plan \<Rightarrow>
           map_option (\<lambda>t. w\<lparr>lw_state := t, lw_base := base, lw_slots := (lw_slots w)(pp_slot_index plan :=
             draw_plan content plan f base (lw_slots w (pp_slot_index plan)))\<rparr>) (mark_post_success plan t))"
| "latch_step content w (FailFrame f base rubbish) =
     Option.bind (plan_next f (lw_state w)) (\<lambda>(result, t).
       case result of
         Inl e \<Rightarrow> Some (w\<lparr>lw_state := t, lw_base := base, lw_frozen := (lw_frozen w \<or> freezes e)\<rparr>)
       | Inr plan \<Rightarrow>
           map_option (\<lambda>t. w\<lparr>lw_state := t, lw_base := base, lw_slots := (lw_slots w)(pp_slot_index plan := rubbish)\<rparr>)
             (mark_attempt_failed (pp_slot_index plan) t))"
| "latch_step content w Recover = Some (w\<lparr>lw_state := tb_invalidate_all (lw_state w), lw_frozen := False\<rparr>)"

fun latch_run :: "layer_content \<Rightarrow> latch_world \<Rightarrow> latch_op list \<Rightarrow> latch_world option" where
  "latch_run content w [] = Some w"
| "latch_run content w (op1 # ops) = Option.bind (latch_step content w op1) (\<lambda>w. latch_run content w ops)"

text \<open>The frames of a run: the cached picture changes only where the frame says so.\<close>

definition picture_fits :: "dirty_rect \<Rightarrow> frame_plan \<Rightarrow> picture \<Rightarrow> picture \<Rightarrow> bool" where
  "picture_fits full f before base \<longleftrightarrow> (\<forall>x y. in_rect full x y \<longrightarrow> \<not> covers (fp_cached_damage f) x y \<longrightarrow> base x y = before x y)"

fun op_fits :: "layer_ownership per_role \<Rightarrow> dirty_rect \<Rightarrow> picture \<Rightarrow> latch_op \<Rightarrow> bool" where
  "op_fits own full before (HardwareStatus active active_sequence pending pending_sequence) \<longleftrightarrow> active \<in> {None, Some 1, Some 2}"
| "op_fits own full before (PresentFrame f base) \<longleftrightarrow> frame_fits own f \<and> picture_fits full f before base"
| "op_fits own full before (FailFrame f base rubbish) \<longleftrightarrow> frame_fits own f \<and> picture_fits full f before base"
| "op_fits own full before Recover \<longleftrightarrow> True"

fun picture_after :: "picture \<Rightarrow> latch_op \<Rightarrow> picture" where
  "picture_after before (PresentFrame f base) = base"
| "picture_after before (FailFrame f base rubbish) = base"
| "picture_after before _ = before"

fun run_fits :: "layer_ownership per_role \<Rightarrow> dirty_rect \<Rightarrow> picture \<Rightarrow> latch_op list \<Rightarrow> bool" where
  "run_fits own full before [] \<longleftrightarrow> True"
| "run_fits own full before (op1 # ops) \<longleftrightarrow> op_fits own full before op1 \<and> run_fits own full (picture_after before op1) ops"

section \<open>The invariant\<close>

definition state_shape :: "dirty_rect \<Rightarrow> two_buffer_state \<Rightarrow> bool" where
  "state_shape full t \<longleftrightarrow> length (tb_slots t) = 2 \<and> length (tb_slot_publications t) = 2 \<and> tb_next_slot_index t \<in> {1, 2} \<and>
     ledger_ok (tb_base_damage t) \<and> full_rect (tb_base_damage t) = full"

definition slots_show :: "layer_content \<Rightarrow> layer_ownership per_role \<Rightarrow> dirty_rect \<Rightarrow> two_buffer_state \<Rightarrow> picture \<Rightarrow> (nat \<Rightarrow> picture) \<Rightarrow> bool" where
  "slots_show content own full t base slots \<longleftrightarrow> (\<forall>slot o1. slot_offset slot = Some o1 \<longrightarrow>
     slot_composed content own full (debts (tb_base_damage t) ! o1) (sc_layers (tb_slots t ! o1)) (tb_slot_publications t ! o1) base (slots slot))"

definition world_ok :: "layer_content \<Rightarrow> layer_ownership per_role \<Rightarrow> dirty_rect \<Rightarrow> latch_world \<Rightarrow> bool" where
  "world_ok content own full w \<longleftrightarrow> state_shape full (lw_state w) \<and>
     (lw_frozen w \<or> slots_show content own full (lw_state w) (lw_base w) (lw_slots w))"

lemma select_returns:
  assumes "state_shape full t"
  shows "\<exists>selected. select_writable_slot t = Some selected \<and> (\<forall>slot. selected = Some slot \<longrightarrow> slot \<in> {1, 2})"
  using assms by (auto simp: state_shape_def select_writable_slot_def slot_is_writable_def tb_slot_def slot_offset_def other_slot_def)

lemma select_other_damage: "select_writable_slot (t\<lparr>tb_base_damage := g\<rparr>) = select_writable_slot t"
  by (simp add: select_writable_slot_def slot_is_writable_def tb_slot_def cong: if_cong)

lemma plan_for_slot_returns:
  "slot_offset slot = Some o1 \<Longrightarrow> \<exists>plan. plan_for_slot t slot f = Some plan \<and> pp_slot_index plan = slot \<and>
     pp_preview_after plan = fr_desired (fp_preview f) \<and> pp_arcade_after plan = fr_desired (fp_arcade f)"
  by (simp add: plan_for_slot_def Let_def)

text \<open>Planning: refused, without a slot, or a plan for one of the two slots.\<close>

lemma plan_next_returns:
  assumes shape: "state_shape full t"
  obtains (refused) e where "plan_next f t = Some (Inl e, t)" "freezes e"
    | (no_slot) "plan_next f t = Some (Inl NoWritableSlot, t\<lparr>tb_base_damage := record_damage (tb_base_damage t) (fp_cached_damage f)\<rparr>)"
    | (planned) plan t' o1 where "plan_next f t = Some (Inr plan, t')" "slot_offset (pp_slot_index plan) = Some o1"
      "plan_for_slot t' (pp_slot_index plan) f = Some plan" "tb_base_damage t' = record_damage (tb_base_damage t) (fp_cached_damage f)"
      "tb_slots t' = tb_slots t" "tb_slot_publications t' = tb_slot_publications t" "tb_next_slot_index t' = tb_next_slot_index t"
      "tb_planned t' = \<lparr>of_preview = fr_publication (fp_preview f), of_arcade = fr_publication (fp_arcade f)\<rparr>"
      "pp_preview_after plan = fr_desired (fp_preview f)" "pp_arcade_after plan = fr_desired (fp_arcade f)"
proof (cases "first_publication_mismatch f")
  case (Some role)
  then show ?thesis
    by (intro refused [of "PublicationMismatch role"]) (simp_all add: plan_next_def freezes_def)
next
  case accepted: None
  show ?thesis
  proof (cases "stale_publication_error t f")
    case (Some e)
    have "e \<noteq> NoWritableSlot" if "stale_error t ps = Some e" for ps
      using that by (induction ps) (auto simp: Let_def split: option.splits if_splits)
    then show ?thesis
      using accepted Some by (intro refused [of e]) (auto simp: plan_next_def freezes_def stale_publication_error_def)
  next
    case None
    let ?t = "t\<lparr>tb_base_damage := record_damage (tb_base_damage t) (fp_cached_damage f)\<rparr>"
    obtain selected where selected: "select_writable_slot ?t = Some selected" "\<And>slot. selected = Some slot \<Longrightarrow> slot \<in> {1, 2}"
      using select_returns [OF shape] unfolding select_other_damage by blast
    show ?thesis
    proof (cases selected)
      case None
      then show ?thesis
        using accepted \<open>stale_publication_error t f = None\<close> selected(1) by (intro no_slot) (simp add: plan_next_def)
    next
      case (Some slot)
      then obtain o1 where o1: "slot_offset slot = Some o1"
        using selected(2) slot_offset_valid by blast
      let ?t' = "?t\<lparr>tb_planned := \<lparr>of_preview = fr_publication (fp_preview f), of_arcade = fr_publication (fp_arcade f)\<rparr>,
        tb_latest := remember_generation (fr_publication (fp_arcade f)) (remember_generation (fr_publication (fp_preview f)) (tb_latest t))\<rparr>"
      obtain plan where plan: "plan_for_slot ?t' slot f = Some plan" "pp_slot_index plan = slot"
        "pp_preview_after plan = fr_desired (fp_preview f)" "pp_arcade_after plan = fr_desired (fp_arcade f)"
        using plan_for_slot_returns [OF o1] by blast
      then have "plan_next f t = Some (Inr plan, ?t')"
        using accepted None selected(1) Some by (simp add: plan_next_def)
      then show ?thesis
        using plan o1 by (intro planned [of plan ?t' o1]) simp_all
    qed
  qed
qed

lemma recorded_shows:
  assumes "slots_show content own full t base slots" "state_shape full t" "picture_fits full f base base'"
    and "tb_base_damage t' = record_damage (tb_base_damage t) (fp_cached_damage f)" "tb_slots t' = tb_slots t"
    "tb_slot_publications t' = tb_slot_publications t"
  shows "slots_show content own full t' base' slots"
  unfolding slots_show_def
proof (intro allI impI)
  fix slot o1
  assume o1: "slot_offset slot = Some o1"
  have ledger: "canonical full (debts (tb_base_damage t) ! o1)"
    "debts (tb_base_damage t') ! o1 = rl_extend_canonical (debts (tb_base_damage t) ! o1) (fp_cached_damage f) full"
    using assms(2,4) slot_offset_less [OF o1] by (auto simp: state_shape_def ledger_ok_def record_damage_def)
  note grows = extend_canonical(2) [OF ledger(1), of _ _ "fp_cached_damage f", folded ledger(2)]
  show "slot_composed content own full (debts (tb_base_damage t') ! o1) (sc_layers (tb_slots t' ! o1)) (tb_slot_publications t' ! o1) base' (slots slot)"
    unfolding assms(5,6)
  proof (rule slot_composed_later)
    show "slot_composed content own full (debts (tb_base_damage t) ! o1) (sc_layers (tb_slots t ! o1)) (tb_slot_publications t ! o1) base (slots slot)"
      using assms(1) o1 by (simp add: slots_show_def)
  qed (use grows assms(3) in \<open>auto simp: picture_fits_def\<close>)
qed

lemma record_shape:
  assumes "state_shape full t" "tb_base_damage t' = record_damage (tb_base_damage t) damage" "tb_slots t' = tb_slots t"
    "tb_slot_publications t' = tb_slot_publications t" "tb_next_slot_index t' = tb_next_slot_index t"
  shows "state_shape full t'"
  using assms extend_canonical(1) by (auto simp: state_shape_def record_damage_def ledger_ok_def)


section \<open>The end of an attempt\<close>

lemma update_shows:
  assumes "slots_show content own full t base slots" "state_shape full t" "slot_offset slot = Some o1"
    and "debts (tb_base_damage t') = (debts (tb_base_damage t))[o1 := debt]"
    "map sc_layers (tb_slots t') = (map sc_layers (tb_slots t))[o1 := layers]" "tb_slot_publications t' = (tb_slot_publications t)[o1 := retained]"
    and new: "slot_composed content own full debt layers retained base picture"
  shows "slots_show content own full t' base (slots(slot := picture))"
  unfolding slots_show_def
proof (intro allI impI)
  fix slot' o2
  assume o2: "slot_offset slot' = Some o2"
  have len: "length (tb_slots t) = 2" "length (tb_slot_publications t) = 2" "length (debts (tb_base_damage t)) = 2"
    using assms(2) by (simp_all add: state_shape_def ledger_ok_def)
  have "length (tb_slots t') = 2"
    using arg_cong [OF assms(5), of length] len by simp
  then have layers: "sc_layers (tb_slots t' ! o2) = (map sc_layers (tb_slots t))[o1 := layers] ! o2"
    using slot_offset_less [OF o2] assms(5) by (metis nth_map)
  show "slot_composed content own full (debts (tb_base_damage t') ! o2) (sc_layers (tb_slots t' ! o2)) (tb_slot_publications t' ! o2) base
      ((slots(slot := picture)) slot')"
  proof (cases "slot' = slot")
    case True
    then show ?thesis
      using new o2 assms(3,4,6) layers len slot_offset_less [OF o2] by simp
  next
    case False
    then have "o1 \<noteq> o2"
      using slot_offset_inject [OF assms(3)] o2 by blast
    then show ?thesis
      using False assms(1,4,6) o2 layers len slot_offset_less [OF o2] by (simp add: slots_show_def)
  qed
qed

lemma other_slot_returns: "slot_offset slot = Some o1 \<Longrightarrow> \<exists>other. other_slot slot = Some other \<and> other \<in> {1, 2}"
  by (auto simp: slot_offset_def other_slot_def split: if_splits)

lemma post_shape:
  assumes "state_shape full t" "slot_offset slot = Some o1" "canonical full debt" "length (tb_slots t') = 2"
    and "tb_base_damage t' = (tb_base_damage t)\<lparr>debts := (debts (tb_base_damage t))[o1 := debt]\<rparr>"
    "tb_slot_publications t' = (tb_slot_publications t)[o1 := retained]" "tb_next_slot_index t' \<in> {1, 2}"
  shows "state_shape full t'"
  using assms set_update_subset_insert [of "debts (tb_base_damage t)" o1 debt] by (auto simp: state_shape_def ledger_ok_def)

text \<open>A frame that was posted: its slot shows it, and owes nothing.\<close>

lemma posted:
  assumes "state_shape full t" "slot_offset (pp_slot_index plan) = Some o1" "plan_for_slot t (pp_slot_index plan) f = Some plan"
    and "frame_fits own f" "tb_planned t = \<lparr>of_preview = fr_publication (fp_preview f), of_arcade = fr_publication (fp_arcade f)\<rparr>"
    "pp_preview_after plan = fr_desired (fp_preview f)" "pp_arcade_after plan = fr_desired (fp_arcade f)"
  shows "\<exists>t'. mark_post_success plan t = Some t' \<and> state_shape full t' \<and> (slots_show content own full t base slots \<longrightarrow>
    slots_show content own full t' base (slots(pp_slot_index plan := draw_plan content plan f base (slots (pp_slot_index plan)))))"
proof -
  let ?slot = "pp_slot_index plan" and ?debt = "debts (tb_base_damage t) ! o1"
  let ?layers = "\<lparr>of_preview = fr_desired (fp_preview f), of_arcade = fr_desired (fp_arcade f)\<rparr>"
  let ?retained = "\<lparr>of_preview = map_option identity_of (fr_publication (fp_preview f)), of_arcade = map_option identity_of (fr_publication (fp_arcade f))\<rparr>"
  obtain other where other: "other_slot ?slot = Some other" "other \<in> {1, 2}"
    using other_slot_returns [OF assms(2)] by blast
  obtain t' where t': "mark_post_success plan t = Some t'"
    "tb_base_damage t' = (tb_base_damage t)\<lparr>debts := (debts (tb_base_damage t))[o1 := rl_clear ?debt]\<rparr>"
    "tb_slots t' = (tb_slots t)[o1 := (tb_slots t ! o1)\<lparr>sc_layers := ?layers, sc_hardware := HwUnknown\<rparr>]"
    "tb_slot_publications t' = (tb_slot_publications t)[o1 := ?retained]" "tb_next_slot_index t' = other"
    using assms(2,5-) other(1) by (simp add: mark_post_success_def ledger_presented_def tb_update_slot_def)
  have debt: "rl_ok ?debt" "canonical full (rl_clear ?debt)" "\<not> covers (rl_clear ?debt) x y" for x y
    using assms(1) slot_offset_less [OF assms(2)] canonical_clear by (auto simp: state_shape_def ledger_ok_def canonical_def covers_def)
  have "state_shape full t'"
    using post_shape [OF assms(1,2) debt(2), of t'] assms(1) other(2) by (simp add: t' state_shape_def)
  moreover have "slots_show content own full t' base (slots(?slot := draw_plan content plan f base (slots ?slot)))"
    if before: "slots_show content own full t base slots"
  proof (rule update_shows [OF before assms(1,2)])
    have "draw_plan content plan f base (slots ?slot) x y = composed content f base x y" if "in_rect full x y" for x y
      using before assms(2) by (intro plan_draws [OF assms(3,2,4) debt(1) _ that]) (simp add: slots_show_def)
    then show "slot_composed content own full (rl_clear ?debt) ?layers ?retained base (draw_plan content plan f base (slots ?slot))"
      using assms(4) debt(3) by (auto simp: slot_composed_def frame_fits_def layer_fits_def layer_publication_matches_def composed_slot)
  qed (simp_all add: t' map_update)
  ultimately show ?thesis
    using t'(1) by blast
qed

text \<open>A frame that failed: its slot owes everything.\<close>

lemma from_one_covers: "in_rect full x y \<Longrightarrow> covers (rl_from_one full) x y"
  by simp

lemma failed:
  assumes "state_shape full t" "slot_offset slot = Some o1"
  shows "\<exists>t'. mark_attempt_failed slot t = Some t' \<and> state_shape full t' \<and> (slots_show content own full t base slots \<longrightarrow>
    slots_show content own full t' base (slots(slot := rubbish)))"
proof -
  obtain t' where t': "mark_attempt_failed slot t = Some t'"
    "tb_base_damage t' = (tb_base_damage t)\<lparr>debts := (debts (tb_base_damage t))[o1 := rl_from_one full]\<rparr>"
    "tb_slots t' = (tb_slots t)[o1 := (tb_slots t ! o1)\<lparr>sc_layers := no_role, sc_hardware := HwUnknown\<rparr>]"
    "tb_slot_publications t' = (tb_slot_publications t)[o1 := no_role]" "tb_next_slot_index t' = tb_next_slot_index t"
    using assms by (simp add: mark_attempt_failed_def ledger_attempt_failed_def ledger_invalidate_slot_def tb_update_slot_def state_shape_def)
  have "state_shape full t'"
    using post_shape [OF assms canonical_from_one, of t'] assms(1) by (simp add: t' state_shape_def)
  moreover have "slots_show content own full t' base (slots(slot := rubbish))" if before: "slots_show content own full t base slots"
    by (rule update_shows [OF before assms _ _ _ slot_composed_nothing [OF from_one_covers]]) (simp_all add: t' map_update)
  ultimately show ?thesis
    using t'(1) by blast
qed

text \<open>The hardware status changes neither layers nor debts.\<close>

lemma synced:
  assumes "state_shape full t" "active \<in> {None, Some 1, Some 2}"
  shows "\<exists>t'. sync_hardware active active_sequence pending pending_sequence t = Some t' \<and> state_shape full t' \<and>
    (slots_show content own full t base slots \<longrightarrow> slots_show content own full t' base slots)"
  using assms
  by (auto simp: sync_hardware_def tb_update_slot_def slot_offset_def state_shape_def slots_show_def nth_list_update Let_def
      dest: slot_offset_less split: if_splits)

lemma invalidated:
  assumes "state_shape full t"
  shows "state_shape full (tb_invalidate_all t)" "slots_show content own full (tb_invalidate_all t) base slots"
proof -
  show "state_shape full (tb_invalidate_all t)"
    using assms canonical_from_one by (auto simp: tb_invalidate_all_def state_shape_def ledger_ok_def ledger_invalidate_all_def)
  show "slots_show content own full (tb_invalidate_all t) base slots"
    unfolding slots_show_def
  proof (intro allI impI)
    fix slot o1
    assume "slot_offset slot = Some o1"
    then have "o1 < 2"
      by (rule slot_offset_less)
    then have "debts (tb_base_damage (tb_invalidate_all t)) ! o1 = rl_from_one full"
      "sc_layers (tb_slots (tb_invalidate_all t) ! o1) = no_role" "tb_slot_publications (tb_invalidate_all t) ! o1 = no_role"
      using assms by (auto simp: tb_invalidate_all_def ledger_invalidate_all_def state_shape_def less_2_cases_iff)
    then show "slot_composed content own full (debts (tb_base_damage (tb_invalidate_all t)) ! o1) (sc_layers (tb_slots (tb_invalidate_all t) ! o1))
        (tb_slot_publications (tb_invalidate_all t) ! o1) base (slots slot)"
      using slot_composed_nothing [OF from_one_covers] by simp
  qed
qed


section \<open>Runs\<close>

definition launcher_starts :: "nat \<Rightarrow> nat \<Rightarrow> picture \<Rightarrow> (nat \<Rightarrow> picture) \<Rightarrow> latch_world" where
  "launcher_starts width height base slots = \<lparr>lw_state = two_buffer_new width height, lw_base = base, lw_slots = slots, lw_frozen = False\<rparr>"

lemma starts_ok: "world_ok content own \<lparr>x0 = 0, y0 = 0, x1 = width, y1 = height\<rparr> (launcher_starts width height base slots)"
proof -
  let ?full = "\<lparr>x0 = 0, y0 = 0, x1 = width, y1 = height\<rparr>"
  have "slot_composed content own ?full (debts (ledger_new width height) ! o1) (sc_layers ([empty_slot, empty_slot] ! o1)) ([no_role, no_role] ! o1)
      base (slots slot)" if "slot_offset slot = Some o1" for slot o1
    using slot_offset_less [OF that] slot_composed_nothing [OF from_one_covers, where full = ?full]
    by (auto simp: ledger_new_def Let_def less_2_cases_iff empty_slot_def)
  moreover have "ledger_ok (ledger_new width height) \<and> full_rect (ledger_new width height) = ?full"
    using canonical_from_one [of ?full] by (simp add: ledger_ok_def ledger_new_def Let_def)
  ultimately show ?thesis
    by (simp add: world_ok_def launcher_starts_def two_buffer_new_def state_shape_def slots_show_def)
qed

lemma present_step:
  assumes ok: "world_ok content own full w" and fits: "frame_fits own f" "picture_fits full f (lw_base w) base"
  shows "\<exists>w'. latch_step content w (PresentFrame f base) = Some w' \<and> world_ok content own full w' \<and> lw_base w' = base"
    "\<exists>w'. latch_step content w (FailFrame f base rubbish) = Some w' \<and> world_ok content own full w' \<and> lw_base w' = base"
proof -
  have shape: "state_shape full (lw_state w)"
    and shown: "\<not> lw_frozen w \<Longrightarrow> slots_show content own full (lw_state w) (lw_base w) (lw_slots w)"
    using ok by (auto simp: world_ok_def)
  have recorded: "state_shape full t' \<and> (\<not> lw_frozen w \<longrightarrow> slots_show content own full t' base (lw_slots w))"
    if "tb_base_damage t' = record_damage (tb_base_damage (lw_state w)) (fp_cached_damage f)" "tb_slots t' = tb_slots (lw_state w)"
      "tb_slot_publications t' = tb_slot_publications (lw_state w)" "tb_next_slot_index t' = tb_next_slot_index (lw_state w)" for t'
    using record_shape [OF shape that] recorded_shows [OF shown shape fits(2) that(1-3)] by blast
  have "(\<exists>w'. latch_step content w (PresentFrame f base) = Some w' \<and> world_ok content own full w' \<and> lw_base w' = base) \<and>
    (\<exists>w'. latch_step content w (FailFrame f base rubbish) = Some w' \<and> world_ok content own full w' \<and> lw_base w' = base)"
    using shape
  proof (cases rule: plan_next_returns [where f = f])
    case (refused e)
    then show ?thesis
      using shape by (simp add: world_ok_def)
  next
    case no_slot
    let ?t = "lw_state w\<lparr>tb_base_damage := record_damage (tb_base_damage (lw_state w)) (fp_cached_damage f)\<rparr>"
    have "state_shape full ?t \<and> (\<not> lw_frozen w \<longrightarrow> slots_show content own full ?t base (lw_slots w))"
      by (rule recorded) simp_all
    then show ?thesis
      using no_slot by (auto simp: world_ok_def freezes_def)
  next
    case (planned plan t' o1)
    note now = recorded [OF planned(4-7)]
    obtain t1 where "mark_post_success plan t' = Some t1" "state_shape full t1" "\<not> lw_frozen w \<longrightarrow> slots_show content own full t1 base
        ((lw_slots w)(pp_slot_index plan := draw_plan content plan f base (lw_slots w (pp_slot_index plan))))"
      using posted [OF conjunct1 [OF now] planned(2,3) fits(1) planned(8-10), of content base "lw_slots w"] now by blast
    moreover obtain t2 where "mark_attempt_failed (pp_slot_index plan) t' = Some t2" "state_shape full t2"
      "\<not> lw_frozen w \<longrightarrow> slots_show content own full t2 base ((lw_slots w)(pp_slot_index plan := rubbish))"
      using failed [OF conjunct1 [OF now] planned(2), of content own base "lw_slots w" rubbish] now by blast
    ultimately show ?thesis
      using planned(1) by (auto simp: world_ok_def)
  qed
  then show "\<exists>w'. latch_step content w (PresentFrame f base) = Some w' \<and> world_ok content own full w' \<and> lw_base w' = base"
    "\<exists>w'. latch_step content w (FailFrame f base rubbish) = Some w' \<and> world_ok content own full w' \<and> lw_base w' = base"
    by auto
qed

lemma latch_step_ok:
  assumes "world_ok content own full w" "op_fits own full (lw_base w) op1"
  shows "\<exists>w'. latch_step content w op1 = Some w' \<and> world_ok content own full w' \<and> lw_base w' = picture_after (lw_base w) op1"
proof (cases op1)
  case (HardwareStatus active active_sequence pending pending_sequence)
  then show ?thesis
    using assms synced [of full "lw_state w" active active_sequence pending pending_sequence content own "lw_base w" "lw_slots w"]
    by (auto simp: world_ok_def)
next
  case (PresentFrame f base)
  then show ?thesis
    using assms present_step(1) by simp
next
  case (FailFrame f base rubbish)
  then show ?thesis
    using assms present_step(2) by simp
next
  case Recover
  then show ?thesis
    using assms invalidated by (simp add: world_ok_def)
qed

lemma latch_run_ok:
  "world_ok content own full w \<Longrightarrow> run_fits own full (lw_base w) ops \<Longrightarrow>
     \<exists>w'. latch_run content w ops = Some w' \<and> world_ok content own full w'"
proof (induction ops arbitrary: w)
  case (Cons op1 ops)
  then show ?case
    using latch_step_ok [of content own full w op1] by fastforce
qed simp


section \<open>The frame in the posted slot\<close>

lemma planned_draws:
  assumes "world_ok content own full w" "\<not> lw_frozen w" "frame_fits own f" "picture_fits full f (lw_base w) base"
    and plan: "plan_next f (lw_state w) = Some (Inr plan, t)" and xy: "in_rect full x y"
  shows "draw_plan content plan f base (lw_slots w (pp_slot_index plan)) x y = composed content f base x y"
proof -
  have shape: "state_shape full (lw_state w)" and shown: "slots_show content own full (lw_state w) (lw_base w) (lw_slots w)"
    using assms(1,2) by (auto simp: world_ok_def)
  show ?thesis
    using shape
  proof (cases rule: plan_next_returns [where f = f])
    case (planned plan' t' o1)
    then have now: "plan' = plan" "slots_show content own full t' base (lw_slots w)" "state_shape full t'"
      using plan recorded_shows [OF shown shape assms(4) planned(4-6)] record_shape [OF shape planned(4-7)] by simp_all
    then have "rl_ok (debts (tb_base_damage t') ! o1)"
      using slot_offset_less [OF planned(2)] by (auto simp: state_shape_def ledger_ok_def canonical_def)
    then show ?thesis
      using now planned(2) by (intro plan_draws [OF planned(3) [unfolded now(1)] _ assms(3) _ _ xy]) (auto simp: slots_show_def)
  qed (use plan in simp_all)
qed

lemma presented_slot:
  "latch_step content w (PresentFrame f base) = Some w' \<Longrightarrow> plan_next f (lw_state w) = Some (Inr plan, t) \<Longrightarrow>
     lw_slots w' (pp_slot_index plan) = draw_plan content plan f base (lw_slots w (pp_slot_index plan))"
  by auto

text \<open>
  C3: after any run of status reports, posted frames, failed attempts and recoveries from a new state, the
  presenter has not panicked, and unless it waits for a recovery the next frame that is planned leaves its
  slot showing the cached picture with the preview and the arcade list over it, on every pixel of the
  surface: what the slot showed before, however old, is restored or drawn again where it differs. The frames
  of the run name their damage truthfully, keep the two layers apart, and draw each layer from its cache or
  from a publication throughout.
\<close>

lemma posted_slot_shows_the_frame:
  assumes "run_fits own \<lparr>x0 = 0, y0 = 0, x1 = width, y1 = height\<rparr> start ops"
  shows "\<exists>world. latch_run content (launcher_starts width height start slots) ops = Some world \<and>
    (\<not> lw_frozen world \<longrightarrow> (\<forall>f base plan t.
       frame_fits own f \<longrightarrow> picture_fits \<lparr>x0 = 0, y0 = 0, x1 = width, y1 = height\<rparr> f (lw_base world) base \<longrightarrow>
       plan_next f (lw_state world) = Some (Inr plan, t) \<longrightarrow>
       (\<exists>world'. latch_step content world (PresentFrame f base) = Some world' \<and>
          (\<forall>x y. x < width \<longrightarrow> y < height \<longrightarrow> lw_slots world' (pp_slot_index plan) x y = composed content f base x y))))"
proof -
  let ?full = "\<lparr>x0 = 0, y0 = 0, x1 = width, y1 = height\<rparr>"
  obtain world where world: "latch_run content (launcher_starts width height start slots) ops = Some world" "world_ok content own ?full world"
    using latch_run_ok [OF starts_ok, of own width height start slots ops content] assms by (auto simp: launcher_starts_def)
  have "\<exists>world'. latch_step content world (PresentFrame f base) = Some world' \<and>
      (\<forall>x y. x < width \<longrightarrow> y < height \<longrightarrow> lw_slots world' (pp_slot_index plan) x y = composed content f base x y)"
    if "\<not> lw_frozen world" and fits: "frame_fits own f" "picture_fits ?full f (lw_base world) base"
      and plan: "plan_next f (lw_state world) = Some (Inr plan, t)" for f base plan t
  proof -
    obtain world' where "latch_step content world (PresentFrame f base) = Some world'"
      using present_step(1) [OF world(2) fits] by blast
    then show ?thesis
      using planned_draws [OF world(2) that] presented_slot plan by (auto simp del: latch_step.simps simp: in_rect_def)
  qed
  then show ?thesis
    using world(1) by blast
qed

text \<open>A preview on the left half of a strip of two pixels, shown in a new version each frame.\<close>

definition half_strip_frame :: "u64 \<Rightarrow> frame_plan" where
  "half_strip_frame version = from_cached_layers rl_new (Some (layer_state_new \<lparr>x0 = 0, y0 = 0, x1 = 1, y1 = 1\<rparr> version)) None None None"

definition half_strip_content :: layer_content where
  "half_strip_content role d retained x y = ucast (ly_version d)"

definition half_strip_ops :: "latch_op list" where
  "half_strip_ops = [HardwareStatus None 0 False 0, PresentFrame (half_strip_frame 1) (\<lambda>_ _. 9), HardwareStatus (Some 1) 1 False 0,
     PresentFrame (half_strip_frame 2) (\<lambda>_ _. 9), HardwareStatus (Some 2) 2 False 0]"

lemma posted_slot_shows_the_frame_witness:
  "\<exists>world plan t world'. latch_run half_strip_content (launcher_starts 2 1 (\<lambda>_ _. 9) (\<lambda>_ _ _. 0)) half_strip_ops = Some world \<and>
     plan_next (half_strip_frame 3) (lw_state world) = Some (Inr plan, t) \<and> pp_slot_index plan = 1 \<and>
     latch_step half_strip_content world (PresentFrame (half_strip_frame 3) (\<lambda>_ _. 9)) = Some world' \<and>
     lw_slots world' 1 0 0 = 3 \<and> lw_slots world' 1 1 0 = 9"
proof -
  let ?full = "\<lparr>x0 = 0, y0 = 0, x1 = 2, y1 = 1\<rparr> :: dirty_rect" and ?own = "\<lparr>of_preview = CachedLayer, of_arcade = CachedLayer\<rparr>"
  let ?run = "latch_run half_strip_content (launcher_starts 2 1 (\<lambda>_ _. 9) (\<lambda>_ _ _. 0)) half_strip_ops"
  have frames: "frame_fits ?own (half_strip_frame version)" for version
    by (simp add: frame_fits_def layer_fits_def half_strip_frame_def from_cached_layers_def cached_layer_def layer_publication_matches_def
        apart_def in_layer_def)
  have fits: "run_fits ?own ?full (\<lambda>_ _. 9) half_strip_ops"
    using frames by (simp add: half_strip_ops_def picture_fits_def)
  have runs: "map_option lw_frozen ?run = Some False" "map_option (\<lambda>world. (lw_base world 0 0, lw_base world 1 0)) ?run = Some (9, 9)"
    "Option.bind ?run (\<lambda>world. map_option (\<lambda>(result, _). case result of Inl e \<Rightarrow> 0 | Inr plan \<Rightarrow> pp_slot_index plan)
       (plan_next (half_strip_frame 3) (lw_state world))) = Some 1"
    by code_simp+
  obtain world where world: "?run = Some world" "\<And>f base plan t. frame_fits ?own f \<Longrightarrow> picture_fits ?full f (lw_base world) base \<Longrightarrow>
      plan_next f (lw_state world) = Some (Inr plan, t) \<Longrightarrow> \<exists>world'. latch_step half_strip_content world (PresentFrame f base) = Some world' \<and>
        (\<forall>x y. x < 2 \<longrightarrow> y < 1 \<longrightarrow> lw_slots world' (pp_slot_index plan) x y = composed half_strip_content f base x y)"
    using posted_slot_shows_the_frame [OF fits, of half_strip_content "\<lambda>_ _ _. 0"] runs(1) by fastforce
  obtain result t where "plan_next (half_strip_frame 3) (lw_state world) = Some (result, t)"
    "(case result of Inl e \<Rightarrow> 0 | Inr plan \<Rightarrow> pp_slot_index plan) = 1"
    using runs(3) [unfolded world(1)] by auto
  then obtain plan where plan: "plan_next (half_strip_frame 3) (lw_state world) = Some (Inr plan, t)" "pp_slot_index plan = 1"
    by (cases result) simp_all
  have base: "picture_fits ?full (half_strip_frame 3) (lw_base world) (\<lambda>_ _. 9)"
    using runs(2) world(1) by (auto simp: picture_fits_def in_rect_def less_2_cases_iff)
  have "composed half_strip_content (half_strip_frame 3) (\<lambda>_ _. 9) 0 0 = 3" "composed half_strip_content (half_strip_frame 3) (\<lambda>_ _. 9) 1 0 = 9"
    by code_simp+
  then show ?thesis
    using world(1) plan world(2) [OF frames base plan(1)] by (fastforce simp del: latch_step.simps)
qed

end
