(* ===== verification/Nav_Pack.thy ===== *)
theory Nav_Pack
  imports Wire_Bytes Rust_Text
begin

text \<open>
  The navigation packs of the catalog (\<open>crates/catalog/src/navpack.rs\<close>): one immutable little-endian
  file per system that the launcher maps into memory and reads in place. Offsets are \<open>nat\<close>; the
  properties show that they stay inside the file. A text is a list of scalar values, its bytes are UTF-8.
\<close>

section \<open>Failures and panics\<close>

datatype nav_error =
    InvalidHeader | UnsupportedSchema | InvalidLayoutConstants | GenerationMismatch | PreludeNotLeading
  | SectionsUnordered | InvalidSectionSize | StringsOutOfBounds | IdentityMismatch | PreviewRowMismatch
  | RowOrdinalMismatch | RowLaunchOutOfBounds | SizeOverflow | OrdinalOutOfBounds
  | InvalidPrelude | UnsupportedPrelude | ViewportCount | PreviewNotTerminal | PreludeIdentitySize
  | ViewportOrdinal | PreludeNotUtf8 | SelectedOrdinal | EmptyIdentity | UnexpectedIdentity
  | Truncated | SectionOutOfBounds | StringOutOfBounds | StringNotUtf8 | IndexOrdinal | TrailingBytes
  | PostingsUnordered | TooMany | SizeMismatch | OpenFailed

text \<open>\<open>None\<close> is a panic: an index or a slice out of range.\<close>

type_synonym 'a nav = "(nav_error + 'a) option"

definition nav_ok :: "'a \<Rightarrow> 'a nav" where
  "nav_ok a = Some (Inr a)"

definition nav_fail :: "nav_error \<Rightarrow> 'a nav" where
  "nav_fail e = Some (Inl e)"

definition nav_then :: "'a nav \<Rightarrow> ('a \<Rightarrow> 'b nav) \<Rightarrow> 'b nav" where
  "nav_then m f = (case m of None \<Rightarrow> None | Some (Inl e) \<Rightarrow> Some (Inl e) | Some (Inr a) \<Rightarrow> f a)"

definition nav_require :: "bool \<Rightarrow> nav_error \<Rightarrow> unit nav" where
  "nav_require c e = (if c then nav_ok () else nav_fail e)"

definition nav_get :: "nav_error \<Rightarrow> 'a option \<Rightarrow> 'a nav" where
  "nav_get e x = (case x of None \<Rightarrow> nav_fail e | Some a \<Rightarrow> nav_ok a)"

text \<open>\<open>&bytes[from..to]\<close>, which panics out of range.\<close>

definition index_slice :: "nat \<Rightarrow> nat \<Rightarrow> u8 list \<Rightarrow> u8 list nav" where
  "index_slice from to bytes = (if from \<le> to \<and> to \<le> length bytes then nav_ok (slice from to bytes) else None)"

fun nav_each :: "('x \<Rightarrow> unit nav) \<Rightarrow> 'x list \<Rightarrow> unit nav" where
  "nav_each f [] = nav_ok ()"
| "nav_each f (x # xs) = nav_then (f x) (\<lambda>_. nav_each f xs)"

fun nav_list :: "'a nav list \<Rightarrow> 'a list nav" where
  "nav_list [] = nav_ok []"
| "nav_list (m # ms) = nav_then m (\<lambda>a. nav_then (nav_list ms) (\<lambda>as. nav_ok (a # as)))"

section \<open>Reading integers and strings\<close>

definition NAVPACK_SCHEMA_VERSION :: u32 where "NAVPACK_SCHEMA_VERSION = 2"
definition NAVPACK_HEADER_BYTES :: nat where "NAVPACK_HEADER_BYTES = 160"
definition NAVPACK_ROW_BYTES :: nat where "NAVPACK_ROW_BYTES = 48"
definition NAVPACK_COLD_BYTES :: nat where "NAVPACK_COLD_BYTES = 32"
definition NAVPACK_LAUNCH_BYTES :: nat where "NAVPACK_LAUNCH_BYTES = 64"
definition NAVPACK_ENTRY_VIEWPORT_ROWS :: nat where "NAVPACK_ENTRY_VIEWPORT_ROWS = 10"
definition NAV_MAGIC :: "u8 list" where "NAV_MAGIC = map of_char ''MGKNAVP2''"
definition PRELUDE_MAGIC :: "u8 list" where "PRELUDE_MAGIC = map of_char ''MGKPREL1''"
definition PRELUDE_VERSION :: u32 where "PRELUDE_VERSION = 1"
definition PRELUDE_HEADER_BYTES :: nat where "PRELUDE_HEADER_BYTES = 48"
definition PRELUDE_FLAG_TERMINAL_EMPTY :: u32 where "PRELUDE_FLAG_TERMINAL_EMPTY = 1"
definition PRELUDE_FLAG_EXACT_PREVIEW :: u32 where "PRELUDE_FLAG_EXACT_PREVIEW = 2"
definition ENDIAN_MARKER :: u32 where "ENDIAN_MARKER = 0x01020304"
definition NONE_U32 :: u32 where "NONE_U32 = 0xFFFFFFFF"

definition read_u16 :: "u8 list \<Rightarrow> nat \<Rightarrow> u16 nav" where
  "read_u16 bytes offset = nav_then (nav_get Truncated (get_slice offset (offset + 2) bytes)) (\<lambda>b. nav_ok (from_le b))"

definition read_u32 :: "u8 list \<Rightarrow> nat \<Rightarrow> u32 nav" where
  "read_u32 bytes offset = nav_then (nav_get Truncated (get_slice offset (offset + 4) bytes)) (\<lambda>b. nav_ok (from_le b))"

definition read_u64 :: "u8 list \<Rightarrow> nat \<Rightarrow> u64 nav" where
  "read_u64 bytes offset = nav_then (nav_get Truncated (get_slice offset (offset + 8) bytes)) (\<lambda>b. nav_ok (from_le b))"

definition read_ref :: "u8 list \<Rightarrow> nat \<Rightarrow> (u32 \<times> u32) nav" where
  "read_ref bytes offset =
     nav_then (read_u32 bytes offset) (\<lambda>start. nav_then (read_u32 bytes (offset + 4)) (\<lambda>len. nav_ok (start, len)))"

text \<open>A section must lie inside the file; \<open>usize::try_from\<close> refuses what 32 bits cannot hold.\<close>

definition usize_of_u64 :: "u64 \<Rightarrow> nat option" where
  "usize_of_u64 v = (if unat v \<le> USIZE_MAX then Some (unat v) else None)"

definition read_section :: "u8 list \<Rightarrow> nat \<Rightarrow> (nat \<times> nat) nav" where
  "read_section bytes offset =
     nav_then (read_u64 bytes offset) (\<lambda>s. nav_then (nav_get SizeOverflow (usize_of_u64 s)) (\<lambda>start.
     nav_then (read_u64 bytes (offset + 8)) (\<lambda>n. nav_then (nav_get SizeOverflow (usize_of_u64 n)) (\<lambda>len.
       case checked_add start len of
         None \<Rightarrow> nav_fail SectionOutOfBounds
       | Some end_at \<Rightarrow> if end_at \<le> length bytes then nav_ok (start, len) else nav_fail SectionOutOfBounds))))"

definition read_string :: "u8 list \<Rightarrow> u32 \<times> u32 \<Rightarrow> rtext nav" where
  "read_string strings ref =
     (case checked_add (unat (fst ref)) (unat (snd ref)) of
        None \<Rightarrow> nav_fail StringOutOfBounds
      | Some end_at \<Rightarrow>
          if length strings < end_at then nav_fail StringOutOfBounds
          else nav_then (index_slice (unat (fst ref)) end_at strings) (\<lambda>b. nav_get StringNotUtf8 (from_utf8 b)))"

definition nav_take :: "nat \<Rightarrow> u8 list \<Rightarrow> (u8 list \<times> u8 list) nav" where
  "nav_take n bytes = (if n \<le> length bytes then nav_ok (take n bytes, drop n bytes) else nav_fail Truncated)"

definition take_u32 :: "u8 list \<Rightarrow> (u32 \<times> u8 list) nav" where
  "take_u32 bytes = nav_then (nav_take 4 bytes) (\<lambda>(raw, rest). nav_ok (from_le raw, rest))"

section \<open>The entry prelude\<close>

record nav_preview =
  np_ordinal :: nat
  np_title :: rtext
  np_archive :: rtext
  np_asset_key :: rtext

record entry_prelude =
  ep_viewport :: "nat list"
  ep_selected :: "nav_preview option"
  ep_terminal_empty :: bool

definition parse_entry_prelude :: "u8 list \<Rightarrow> nat \<Rightarrow> entry_prelude nav" where
  "parse_entry_prelude bytes games =
     (if length bytes < PRELUDE_HEADER_BYTES \<or> slice 0 8 bytes \<noteq> PRELUDE_MAGIC then nav_fail InvalidPrelude
      else
        nav_then (read_u32 bytes 8) (\<lambda>version. nav_then (read_u32 bytes 12) (\<lambda>total_bytes.
        nav_then (nav_require (version = PRELUDE_VERSION \<and> unat total_bytes = length bytes) UnsupportedPrelude) (\<lambda>_.
        nav_then (read_u32 bytes 16) (\<lambda>count.
        nav_then (nav_require (unat count \<le> NAVPACK_ENTRY_VIEWPORT_ROWS \<and> unat count \<le> games) ViewportCount) (\<lambda>_.
        nav_then (read_u32 bytes 20) (\<lambda>selected.
        nav_then (read_u32 bytes 24) (\<lambda>flags.
        nav_then (nav_require (flags = PRELUDE_FLAG_TERMINAL_EMPTY \<or> flags = PRELUDE_FLAG_EXACT_PREVIEW) PreviewNotTerminal) (\<lambda>_.
        nav_then (read_u32 bytes 32) (\<lambda>title_bytes.
        nav_then (read_u32 bytes 36) (\<lambda>archive_bytes.
        nav_then (read_u32 bytes 40) (\<lambda>asset_bytes.
          let ordinals_end = PRELUDE_HEADER_BYTES + unat count * 4;
              identity_end = Option.bind (checked_add ordinals_end (unat title_bytes)) (\<lambda>e.
                Option.bind (checked_add e (unat archive_bytes)) (\<lambda>e. checked_add e (unat asset_bytes)))
          in nav_then (nav_require (identity_end = Some (length bytes)) PreludeIdentitySize) (\<lambda>_.
             nav_then (nav_list (map (\<lambda>index.
                 nav_then (read_u32 bytes (PRELUDE_HEADER_BYTES + index * 4)) (\<lambda>ordinal.
                   if games \<le> unat ordinal then nav_fail ViewportOrdinal else nav_ok (unat ordinal))) [0..<unat count])) (\<lambda>viewport.
             let archive_at = ordinals_end + unat title_bytes;
                 asset_at = archive_at + unat archive_bytes
             in nav_then (nav_get Truncated (get_slice ordinals_end archive_at bytes)) (\<lambda>b.
                nav_then (nav_get PreludeNotUtf8 (from_utf8 b)) (\<lambda>title.
                nav_then (nav_get Truncated (get_slice archive_at asset_at bytes)) (\<lambda>b.
                nav_then (nav_get PreludeNotUtf8 (from_utf8 b)) (\<lambda>archive.
                nav_then (nav_get Truncated (get_slice asset_at (asset_at + unat asset_bytes) bytes)) (\<lambda>b.
                nav_then (nav_get PreludeNotUtf8 (from_utf8 b)) (\<lambda>asset_key.
                  if flags = PRELUDE_FLAG_EXACT_PREVIEW then
                    (if games \<le> unat selected then nav_fail SelectedOrdinal
                     else if archive = [] \<or> asset_key = [] then nav_fail EmptyIdentity
                     else nav_ok \<lparr>ep_viewport = viewport,
                       ep_selected = Some \<lparr>np_ordinal = unat selected, np_title = title, np_archive = archive,
                         np_asset_key = asset_key\<rparr>,
                       ep_terminal_empty = (flags = PRELUDE_FLAG_TERMINAL_EMPTY)\<rparr>)
                  else if selected \<noteq> NONE_U32 \<or> title_bytes \<noteq> 0 \<or> archive_bytes \<noteq> 0 \<or> asset_bytes \<noteq> 0
                  then nav_fail UnexpectedIdentity
                  else nav_ok \<lparr>ep_viewport = viewport, ep_selected = None,
                    ep_terminal_empty = (flags = PRELUDE_FLAG_TERMINAL_EMPTY)\<rparr>))))))))))))))))))))"

section \<open>The index section\<close>

fun take_ordinals_loop :: "nat \<Rightarrow> nat \<Rightarrow> u8 list \<Rightarrow> u8 list nav" where
  "take_ordinals_loop games 0 bytes = nav_ok bytes"
| "take_ordinals_loop games (Suc n) bytes =
     nav_then (take_u32 bytes) (\<lambda>(ordinal, bytes).
       if games \<le> unat ordinal then nav_fail IndexOrdinal else take_ordinals_loop games n bytes)"

definition take_ordinals :: "nat \<Rightarrow> u8 list \<Rightarrow> u8 list nav" where
  "take_ordinals games bytes = nav_then (take_u32 bytes) (\<lambda>(count, bytes). take_ordinals_loop games (unat count) bytes)"

fun take_string_loop :: "u8 list \<Rightarrow> nat \<Rightarrow> nat \<Rightarrow> u8 list \<Rightarrow> u8 list nav" where
  "take_string_loop strings games 0 bytes = nav_ok bytes"
| "take_string_loop strings games (Suc n) bytes =
     nav_then (take_u32 bytes) (\<lambda>(start, bytes). nav_then (take_u32 bytes) (\<lambda>(len, bytes).
     nav_then (read_string strings (start, len)) (\<lambda>_.
     nav_then (take_ordinals games bytes) (\<lambda>bytes. take_string_loop strings games n bytes))))"

definition take_string_postings :: "u8 list \<Rightarrow> nat \<Rightarrow> u8 list \<Rightarrow> u8 list nav" where
  "take_string_postings strings games bytes =
     nav_then (take_u32 bytes) (\<lambda>(count, bytes). take_string_loop strings games (unat count) bytes)"

fun take_numeric_loop :: "nat \<Rightarrow> nat \<Rightarrow> nat \<Rightarrow> u8 list \<Rightarrow> u8 list nav" where
  "take_numeric_loop key_bytes games 0 bytes = nav_ok bytes"
| "take_numeric_loop key_bytes games (Suc n) bytes =
     nav_then (nav_take key_bytes bytes) (\<lambda>(_, bytes).
     nav_then (take_ordinals games bytes) (\<lambda>bytes. take_numeric_loop key_bytes games n bytes))"

definition take_numeric_postings :: "nat \<Rightarrow> nat \<Rightarrow> u8 list \<Rightarrow> u8 list nav" where
  "take_numeric_postings key_bytes games bytes =
     nav_then (take_u32 bytes) (\<lambda>(count, bytes). take_numeric_loop key_bytes games (unat count) bytes)"

definition validate_indexes :: "u8 list \<Rightarrow> u8 list \<Rightarrow> nat \<Rightarrow> unit nav" where
  "validate_indexes bytes strings games =
     nav_then (take_ordinals games bytes) (\<lambda>bytes. nav_then (take_ordinals games bytes) (\<lambda>bytes.
     nav_then (take_ordinals games bytes) (\<lambda>bytes.
     nav_then (take_string_postings strings games bytes) (\<lambda>bytes.
     nav_then (take_numeric_postings 4 games bytes) (\<lambda>bytes.
     nav_then (take_string_postings strings games bytes) (\<lambda>bytes.
     nav_then (take_numeric_postings 4 games bytes) (\<lambda>bytes.
     nav_then (take_string_postings strings games bytes) (\<lambda>bytes.
     nav_require (bytes = []) TrailingBytes))))))))"

section \<open>Validation\<close>

record nav_identity =
  ni_system_id :: rtext
  ni_generation :: u64
  ni_games :: nat
  ni_launches :: nat

text \<open>The fixed part of the header, which both validations check alike: generation, games and launches.\<close>

definition check_constants :: "u8 list \<Rightarrow> u64 \<Rightarrow> nat \<Rightarrow> (nat \<times> nat) nav" where
  "check_constants bytes expected_generation expected_games =
     (if length bytes < NAVPACK_HEADER_BYTES \<or> slice 0 8 bytes \<noteq> NAV_MAGIC then nav_fail InvalidHeader
      else
        nav_then (read_u32 bytes 8) (\<lambda>version. nav_then (read_u32 bytes 12) (\<lambda>header_bytes.
        nav_then (nav_require (version = NAVPACK_SCHEMA_VERSION \<and> unat header_bytes = NAVPACK_HEADER_BYTES) UnsupportedSchema) (\<lambda>_.
        nav_then (read_u32 bytes 16) (\<lambda>marker. nav_then (read_u32 bytes 20) (\<lambda>row. nav_then (read_u32 bytes 24) (\<lambda>cold.
        nav_then (read_u32 bytes 28) (\<lambda>launch.
        nav_then (nav_require (marker = ENDIAN_MARKER \<and> unat row = NAVPACK_ROW_BYTES \<and> unat cold = NAVPACK_COLD_BYTES \<and>
            unat launch = NAVPACK_LAUNCH_BYTES) InvalidLayoutConstants) (\<lambda>_.
        nav_then (read_u64 bytes 32) (\<lambda>generation. nav_then (read_u32 bytes 40) (\<lambda>games. nav_then (read_u32 bytes 44) (\<lambda>launches.
        nav_then (nav_require (generation = expected_generation \<and> unat games = expected_games) GenerationMismatch) (\<lambda>_.
          nav_ok (unat games, unat launches))))))))))))))"

definition read_sections :: "u8 list \<Rightarrow> (nat \<times> nat) list nav" where
  "read_sections bytes = nav_list (map (\<lambda>index. read_section bytes (56 + index * 16)) [0..<5])"

fun sections_ordered :: "(nat \<times> nat) list \<Rightarrow> bool" where
  "sections_ordered (a # b # rest) \<longleftrightarrow> fst a + snd a \<le> fst b \<and> sections_ordered (b # rest)"
| "sections_ordered _ \<longleftrightarrow> True"

text \<open>The prelude, which must lead the sections.\<close>

definition leading_prelude :: "u8 list \<Rightarrow> nat \<Rightarrow> nat \<Rightarrow> ((nat \<times> nat) \<times> entry_prelude) nav" where
  "leading_prelude bytes rows_offset games =
     nav_then (read_section bytes 136) (\<lambda>(prelude_offset, prelude_bytes).
     nav_then (nav_require (prelude_offset = NAVPACK_HEADER_BYTES \<and> prelude_offset + prelude_bytes \<le> rows_offset)
        PreludeNotLeading) (\<lambda>_.
     nav_then (index_slice prelude_offset (prelude_offset + prelude_bytes) bytes) (\<lambda>b.
     nav_then (parse_entry_prelude b games) (\<lambda>prelude. nav_ok ((prelude_offset, prelude_bytes), prelude)))))"

definition usize_saturating_mul :: "nat \<Rightarrow> nat \<Rightarrow> nat" where
  "usize_saturating_mul a b = min (a * b) USIZE_MAX"

text \<open>The strings at the given distances in a record.\<close>

definition check_strings :: "u8 list \<Rightarrow> u8 list \<Rightarrow> nat \<Rightarrow> nat list \<Rightarrow> unit nav" where
  "check_strings bytes strings base offsets =
     nav_each (\<lambda>offset. nav_then (read_ref bytes (base + offset)) (\<lambda>r. nav_then (read_string strings r) (\<lambda>_. nav_ok ()))) offsets"

definition check_row :: "u8 list \<Rightarrow> u8 list \<Rightarrow> nat \<Rightarrow> nat \<Rightarrow> nat \<Rightarrow> nat \<Rightarrow> unit nav" where
  "check_row bytes strings rows_offset cold_offset launches ordinal =
     (let row = rows_offset + ordinal * NAVPACK_ROW_BYTES;
          metadata = cold_offset + ordinal * NAVPACK_COLD_BYTES
      in nav_then (check_strings bytes strings row [0, 8, 16, 24]) (\<lambda>_.
         nav_then (read_u32 bytes (row + 32)) (\<lambda>stored.
         nav_then (nav_require (unat stored = ordinal) RowOrdinalMismatch) (\<lambda>_.
         nav_then (read_u32 bytes (row + 36)) (\<lambda>launch.
         nav_then (nav_require (launch = NONE_U32 \<or> unat launch < launches) RowLaunchOutOfBounds) (\<lambda>_.
           check_strings bytes strings metadata [4, 12, 20]))))))"

definition check_selected :: "u8 list \<Rightarrow> u8 list \<Rightarrow> nat \<Rightarrow> nav_preview \<Rightarrow> unit nav" where
  "check_selected bytes strings rows_offset selected =
     (let row = rows_offset + np_ordinal selected * NAVPACK_ROW_BYTES
      in nav_then (read_u32 bytes (row + 40)) (\<lambda>flags.
         if flags AND 1 = 0 then nav_fail PreviewRowMismatch
         else nav_then (nav_then (read_ref bytes row) (read_string strings)) (\<lambda>title.
           if title \<noteq> np_title selected then nav_fail PreviewRowMismatch
           else nav_then (nav_then (read_ref bytes (row + 16)) (read_string strings)) (\<lambda>archive.
             if archive \<noteq> np_archive selected then nav_fail PreviewRowMismatch
             else nav_then (nav_then (read_ref bytes (row + 24)) (read_string strings)) (\<lambda>asset_key.
               nav_require (asset_key = np_asset_key selected) PreviewRowMismatch)))))"

definition nav_validate :: "u8 list \<Rightarrow> rtext \<Rightarrow> u64 \<Rightarrow> nat \<Rightarrow> nav_identity nav" where
  "nav_validate bytes expected_system_id expected_generation expected_games =
     nav_then (check_constants bytes expected_generation expected_games) (\<lambda>(games, launches).
     nav_then (read_ref bytes 48) (\<lambda>system_ref.
     nav_then (read_sections bytes) (\<lambda>sections.
     nav_then (leading_prelude bytes (fst (sections ! 0)) games) (\<lambda>(_, prelude).
     nav_then (nav_require (sections_ordered sections) SectionsUnordered) (\<lambda>_.
       let (rows_offset, rows_bytes) = sections ! 0; (cold_offset, cold_bytes) = sections ! 1;
           (launch_offset, launch_bytes) = sections ! 2; (index_offset, index_bytes) = sections ! 3;
           (strings_offset, strings_bytes) = sections ! 4
       in nav_then (nav_require (rows_bytes = usize_saturating_mul games NAVPACK_ROW_BYTES \<and>
              cold_bytes = usize_saturating_mul games NAVPACK_COLD_BYTES \<and>
              launch_bytes = usize_saturating_mul launches NAVPACK_LAUNCH_BYTES \<and>
              strings_offset + strings_bytes \<le> length bytes) InvalidSectionSize) (\<lambda>_.
          nav_then (index_slice strings_offset (strings_offset + strings_bytes) bytes) (\<lambda>strings.
          nav_then (read_string strings system_ref) (\<lambda>system_id.
          nav_then (nav_require (system_id = expected_system_id) IdentityMismatch) (\<lambda>_.
          nav_then (case ep_selected prelude of None \<Rightarrow> nav_ok ()
            | Some selected \<Rightarrow> check_selected bytes strings rows_offset selected) (\<lambda>_.
          nav_then (nav_each (check_row bytes strings rows_offset cold_offset launches) [0..<games]) (\<lambda>_.
          nav_then (nav_each (\<lambda>launch. check_strings bytes strings (launch_offset + launch * NAVPACK_LAUNCH_BYTES)
              [0, 8, 16, 24, 32, 40]) [0..<launches]) (\<lambda>_.
          nav_then (index_slice index_offset (index_offset + index_bytes) bytes) (\<lambda>indexes.
          nav_then (validate_indexes indexes strings games) (\<lambda>_.
            nav_ok \<lparr>ni_system_id = expected_system_id, ni_generation = expected_generation, ni_games = games,
              ni_launches = launches\<rparr>))))))))))))))"

section \<open>A mapped pack\<close>

record mapped_navpack =
  mp_mapping :: "u8 list"
  mp_identity :: nav_identity
  mp_rows_offset :: nat
  mp_cold_offset :: nat
  mp_launch_offset :: nat
  mp_index_offset :: nat
  mp_index_bytes :: nat
  mp_strings_offset :: nat
  mp_strings_bytes :: nat
  mp_prelude_offset :: nat
  mp_prelude_bytes :: nat

definition validate_header :: "u8 list \<Rightarrow> rtext \<Rightarrow> u64 \<Rightarrow> nat \<Rightarrow> mapped_navpack nav" where
  "validate_header bytes expected_system_id expected_generation expected_games =
     nav_then (check_constants bytes expected_generation expected_games) (\<lambda>(games, launches).
     nav_then (read_sections bytes) (\<lambda>sections.
     nav_then (leading_prelude bytes (fst (sections ! 0)) games) (\<lambda>((prelude_offset, prelude_bytes), _).
     nav_then (nav_require (sections_ordered sections) SectionsUnordered) (\<lambda>_.
     nav_then (nav_get SizeOverflow (checked_mul games NAVPACK_ROW_BYTES)) (\<lambda>expected_rows.
     nav_then (nav_get SizeOverflow (checked_mul games NAVPACK_COLD_BYTES)) (\<lambda>expected_cold.
     nav_then (nav_get SizeOverflow (checked_mul launches NAVPACK_LAUNCH_BYTES)) (\<lambda>expected_launches.
     nav_then (nav_require (snd (sections ! 0) = expected_rows \<and> snd (sections ! 1) = expected_cold \<and>
        snd (sections ! 2) = expected_launches) InvalidSectionSize) (\<lambda>_.
     nav_then (nav_get SizeOverflow (checked_add (fst (sections ! 4)) (snd (sections ! 4)))) (\<lambda>strings_end.
     nav_then (nav_get StringsOutOfBounds (get_slice (fst (sections ! 4)) strings_end bytes)) (\<lambda>strings.
     nav_then (nav_then (read_ref bytes 48) (read_string strings)) (\<lambda>system_id.
     nav_then (nav_require (system_id = expected_system_id) IdentityMismatch) (\<lambda>_.
       nav_ok \<lparr>mp_mapping = bytes,
         mp_identity = \<lparr>ni_system_id = expected_system_id, ni_generation = expected_generation, ni_games = games,
           ni_launches = launches\<rparr>,
         mp_rows_offset = fst (sections ! 0), mp_cold_offset = fst (sections ! 1), mp_launch_offset = fst (sections ! 2),
         mp_index_offset = fst (sections ! 3), mp_index_bytes = snd (sections ! 3),
         mp_strings_offset = fst (sections ! 4), mp_strings_bytes = snd (sections ! 4),
         mp_prelude_offset = prelude_offset, mp_prelude_bytes = prelude_bytes\<rparr>))))))))))))"

text \<open>Opening: the bytes of the file, when it can be opened and mapped.\<close>

definition navpack_open :: "u8 list option \<Rightarrow> u64 \<Rightarrow> rtext \<Rightarrow> u64 \<Rightarrow> nat \<Rightarrow> mapped_navpack nav" where
  "navpack_open file expected_bytes expected_system_id expected_generation expected_games =
     nav_then (nav_get OpenFailed file) (\<lambda>bytes.
     nav_then (nav_require (length bytes = unat expected_bytes) SizeMismatch) (\<lambda>_.
       validate_header bytes expected_system_id expected_generation expected_games))"

definition navpack_strings :: "mapped_navpack \<Rightarrow> u8 list nav" where
  "navpack_strings p = index_slice (mp_strings_offset p) (mp_strings_offset p + mp_strings_bytes p) (mp_mapping p)"

definition navpack_entry_prelude :: "mapped_navpack \<Rightarrow> entry_prelude nav" where
  "navpack_entry_prelude p =
     nav_then (nav_get InvalidPrelude (get_slice (mp_prelude_offset p) (mp_prelude_offset p + mp_prelude_bytes p) (mp_mapping p)))
       (\<lambda>b. parse_entry_prelude b (ni_games (mp_identity p)))"

record navpack_row =
  nr_title :: rtext
  nr_launch_ref :: rtext
  nr_preview_archive_path :: rtext
  nr_preview_asset_key :: rtext
  nr_has_preview :: bool
  nr_is_new :: bool
  nr_launch_index :: "nat option"

definition navpack_row_at :: "mapped_navpack \<Rightarrow> nat \<Rightarrow> navpack_row nav" where
  "navpack_row_at p ordinal =
     (if ni_games (mp_identity p) \<le> ordinal then nav_fail OrdinalOutOfBounds
      else
        (let offset = mp_rows_offset p + ordinal * NAVPACK_ROW_BYTES;
             text_at = (\<lambda>strings at. nav_then (read_ref (mp_mapping p) at) (read_string strings))
         in nav_then (navpack_strings p) (\<lambda>strings.
            nav_then (read_u32 (mp_mapping p) (offset + 40)) (\<lambda>flags.
            nav_then (read_u32 (mp_mapping p) (offset + 36)) (\<lambda>launch.
            nav_then (text_at strings offset) (\<lambda>title.
            nav_then (text_at strings (offset + 8)) (\<lambda>launch_ref.
            nav_then (text_at strings (offset + 16)) (\<lambda>archive.
            nav_then (text_at strings (offset + 24)) (\<lambda>asset_key.
              nav_ok \<lparr>nr_title = title, nr_launch_ref = launch_ref, nr_preview_archive_path = archive,
                nr_preview_asset_key = asset_key, nr_has_preview = (flags AND 1 \<noteq> 0), nr_is_new = (flags AND 2 \<noteq> 0),
                nr_launch_index = (if launch \<noteq> NONE_U32 then Some (unat launch) else None)\<rparr>)))))))))"

record navpack_metadata =
  nm_year :: "u16 option"
  nm_manufacturer :: rtext
  nm_category :: rtext
  nm_players :: "u8 option"
  nm_control :: rtext

definition nav_byte :: "u8 list \<Rightarrow> nat \<Rightarrow> u8 nav" where
  "nav_byte bytes offset = (if offset < length bytes then nav_ok (bytes ! offset) else nav_fail Truncated)"

definition navpack_metadata_at :: "mapped_navpack \<Rightarrow> nat \<Rightarrow> navpack_metadata nav" where
  "navpack_metadata_at p ordinal =
     (if ni_games (mp_identity p) \<le> ordinal then nav_fail OrdinalOutOfBounds
      else
        (let offset = mp_cold_offset p + ordinal * NAVPACK_COLD_BYTES;
             text_at = (\<lambda>strings at. nav_then (read_ref (mp_mapping p) at) (read_string strings))
         in nav_then (navpack_strings p) (\<lambda>strings.
            nav_then (read_u16 (mp_mapping p) offset) (\<lambda>year.
            nav_then (nav_byte (mp_mapping p) (offset + 2)) (\<lambda>players.
            nav_then (text_at strings (offset + 4)) (\<lambda>manufacturer.
            nav_then (text_at strings (offset + 12)) (\<lambda>category.
            nav_then (text_at strings (offset + 20)) (\<lambda>control.
              nav_ok \<lparr>nm_year = (if year \<noteq> 0xFFFF then Some year else None), nm_manufacturer = manufacturer,
                nm_category = category, nm_players = (if players \<noteq> 0xFF then Some players else None),
                nm_control = control\<rparr>))))))))"

record launch_plan =
  pl_launch_ref :: rtext
  pl_title :: rtext
  pl_system_id :: rtext
  pl_core_path :: rtext
  pl_payload_path :: rtext
  pl_mount_kind :: rtext
  pl_mount_index :: u8
  pl_delay_secs :: u8

definition navpack_launch_at :: "mapped_navpack \<Rightarrow> nat \<Rightarrow> launch_plan nav" where
  "navpack_launch_at p index =
     (if ni_launches (mp_identity p) \<le> index then nav_fail OrdinalOutOfBounds
      else
        (let offset = mp_launch_offset p + index * NAVPACK_LAUNCH_BYTES;
             text_at = (\<lambda>strings at. nav_then (read_ref (mp_mapping p) at) (read_string strings))
         in nav_then (navpack_strings p) (\<lambda>strings.
            nav_then (text_at strings offset) (\<lambda>launch_ref.
            nav_then (text_at strings (offset + 8)) (\<lambda>title.
            nav_then (text_at strings (offset + 16)) (\<lambda>system_id.
            nav_then (text_at strings (offset + 24)) (\<lambda>core_path.
            nav_then (text_at strings (offset + 32)) (\<lambda>payload_path.
            nav_then (text_at strings (offset + 40)) (\<lambda>mount_kind.
            nav_then (nav_byte (mp_mapping p) (offset + 48)) (\<lambda>mount_index.
            nav_then (nav_byte (mp_mapping p) (offset + 49)) (\<lambda>delay_secs.
              nav_ok \<lparr>pl_launch_ref = launch_ref, pl_title = title, pl_system_id = system_id, pl_core_path = core_path,
                pl_payload_path = payload_path, pl_mount_kind = mount_kind, pl_mount_index = mount_index,
                pl_delay_secs = delay_secs\<rparr>)))))))))))"

section \<open>Filter counts\<close>

fun bytes_less :: "u8 list \<Rightarrow> u8 list \<Rightarrow> bool" where
  "bytes_less [] bs \<longleftrightarrow> bs \<noteq> []"
| "bytes_less (a # as) [] \<longleftrightarrow> False"
| "bytes_less (a # as) (b # bs) \<longleftrightarrow> a < b \<or> a = b \<and> bytes_less as bs"

text \<open>The order of \<open>str\<close> is that of the UTF-8 bytes.\<close>

definition text_less :: "rtext \<Rightarrow> rtext \<Rightarrow> bool" where
  "text_less s t \<longleftrightarrow> bytes_less (into_bytes s) (into_bytes t)"

fun string_counts_loop ::
  "u8 list \<Rightarrow> nat \<Rightarrow> nat \<Rightarrow> (rtext \<times> nat) list \<Rightarrow> u8 list \<Rightarrow> ((rtext \<times> nat) list \<times> u8 list) nav" where
  "string_counts_loop strings games 0 groups bytes = nav_ok (groups, bytes)"
| "string_counts_loop strings games (Suc n) groups bytes =
     nav_then (take_u32 bytes) (\<lambda>(start, bytes). nav_then (take_u32 bytes) (\<lambda>(len, bytes).
     nav_then (read_string strings (start, len)) (\<lambda>label.
     nav_then (read_u32 bytes 0) (\<lambda>entries.
     nav_then (take_ordinals games bytes) (\<lambda>bytes.
       if groups \<noteq> [] \<and> \<not> text_less (fst (last groups)) label then nav_fail PostingsUnordered
       else string_counts_loop strings games n (groups @ [(label, unat entries)]) bytes)))))"

definition read_string_counts :: "u8 list \<Rightarrow> nat \<Rightarrow> u8 list \<Rightarrow> ((rtext \<times> nat) list \<times> u8 list) nav" where
  "read_string_counts strings games bytes =
     nav_then (take_u32 bytes) (\<lambda>(count, bytes). string_counts_loop strings games (unat count) [] bytes)"

fun numeric_counts_loop ::
  "u32 \<Rightarrow> nat \<Rightarrow> nat \<Rightarrow> (u32 \<times> nat) list \<Rightarrow> u8 list \<Rightarrow> ((u32 \<times> nat) list \<times> u8 list) nav" where
  "numeric_counts_loop maximum games 0 groups bytes = nav_ok (groups, bytes)"
| "numeric_counts_loop maximum games (Suc n) groups bytes =
     nav_then (take_u32 bytes) (\<lambda>(key, bytes).
       if maximum < key \<or> groups \<noteq> [] \<and> key \<le> fst (last groups) then nav_fail PostingsUnordered
       else
         nav_then (read_u32 bytes 0) (\<lambda>entries.
         nav_then (take_ordinals games bytes) (\<lambda>bytes.
           numeric_counts_loop maximum games n (groups @ [(key, unat entries)]) bytes)))"

definition read_numeric_counts :: "u32 \<Rightarrow> nat \<Rightarrow> u8 list \<Rightarrow> ((u32 \<times> nat) list \<times> u8 list) nav" where
  "read_numeric_counts maximum games bytes =
     nav_then (take_u32 bytes) (\<lambda>(count, bytes). numeric_counts_loop maximum games (unat count) [] bytes)"

record filter_counts =
  fc_categories :: "(rtext \<times> nat) list"
  fc_decades :: "(u32 \<times> nat) list"
  fc_manufacturers :: "(rtext \<times> nat) list"
  fc_players :: "(u32 \<times> nat) list"
  fc_controls :: "(rtext \<times> nat) list"

definition navpack_filter_counts :: "mapped_navpack \<Rightarrow> filter_counts nav" where
  "navpack_filter_counts p =
     (let games = ni_games (mp_identity p)
      in nav_then (nav_get SizeOverflow (checked_add (mp_index_offset p) (mp_index_bytes p))) (\<lambda>end_at.
         nav_then (nav_get SectionOutOfBounds (get_slice (mp_index_offset p) end_at (mp_mapping p))) (\<lambda>bytes.
         nav_then (take_ordinals games bytes) (\<lambda>bytes. nav_then (take_ordinals games bytes) (\<lambda>bytes.
         nav_then (take_ordinals games bytes) (\<lambda>bytes.
         nav_then (navpack_strings p) (\<lambda>strings.
         nav_then (read_string_counts strings games bytes) (\<lambda>(categories, bytes).
         nav_then (read_numeric_counts 0xFFFF games bytes) (\<lambda>(decades, bytes).
         nav_then (read_string_counts strings games bytes) (\<lambda>(manufacturers, bytes).
         nav_then (read_numeric_counts 0xFF games bytes) (\<lambda>(players, bytes).
         nav_then (read_string_counts strings games bytes) (\<lambda>(controls, bytes).
         nav_then (nav_require (bytes = []) TrailingBytes) (\<lambda>_.
           nav_ok \<lparr>fc_categories = categories, fc_decades = decades, fc_manufacturers = manufacturers,
             fc_players = players, fc_controls = controls\<rparr>)))))))))))))"

section \<open>The string table\<close>

record string_table =
  st_bytes :: "u8 list"
  st_refs :: "rtext \<rightharpoonup> u32 \<times> u32"

definition empty_table :: string_table where
  "empty_table = \<lparr>st_bytes = [], st_refs = Map.empty\<rparr>"

text \<open>\<open>u32::try_from\<close> of a length.\<close>

definition u32_of_usize :: "nat \<Rightarrow> u32 option" where
  "u32_of_usize n = (if n < 2 ^ 32 then Some (of_nat n) else None)"

definition intern :: "rtext \<Rightarrow> string_table \<Rightarrow> ((u32 \<times> u32) \<times> string_table) nav" where
  "intern v st =
     (case st_refs st v of
        Some r \<Rightarrow> nav_ok (r, st)
      | None \<Rightarrow>
          nav_then (nav_get TooMany (u32_of_usize (length (st_bytes st)))) (\<lambda>offset.
          nav_then (nav_get TooMany (u32_of_usize (length (into_bytes v)))) (\<lambda>len.
            nav_ok ((offset, len),
              st\<lparr>st_bytes := st_bytes st @ into_bytes v, st_refs := (st_refs st)(v \<mapsto> (offset, len))\<rparr>))))"

definition put_ref :: "u32 \<times> u32 \<Rightarrow> u8 list" where
  "put_ref r = le32 (fst r) @ le32 (snd r)"

text \<open>Interning several strings and appending their references.\<close>

fun put_texts :: "rtext list \<Rightarrow> string_table \<Rightarrow> u8 list \<Rightarrow> (string_table \<times> u8 list) nav" where
  "put_texts [] st out = nav_ok (st, out)"
| "put_texts (v # vs) st out = nav_then (intern v st) (\<lambda>(r, st). put_texts vs st (out @ put_ref r))"

section \<open>The encoder\<close>

record system_game =
  sg_stable_key :: rtext
  sg_title :: rtext
  sg_launch_ref :: rtext
  sg_preview_archive_path :: rtext
  sg_preview_asset_key :: rtext
  sg_has_preview :: bool
  sg_year :: "u16 option"
  sg_manufacturer :: rtext
  sg_category :: rtext
  sg_players :: "u8 option"
  sg_control :: rtext
  sg_is_new :: bool
  sg_launch_plan :: "launch_plan option"

record navigation_indexes =
  nx_title_ordinals :: "u32 list"
  nx_preview_ordinals :: "u32 list"
  nx_launch_ordinals :: "u32 list"
  nx_categories :: "(rtext \<times> u32 list) list"
  nx_decades :: "(u16 \<times> u32 list) list"
  nx_manufacturers :: "(rtext \<times> u32 list) list"
  nx_players :: "(u8 \<times> u32 list) list"
  nx_controls :: "(rtext \<times> u32 list) list"

record pack_tables =
  pt_strings :: string_table
  pt_rows :: "u8 list"
  pt_cold :: "u8 list"
  pt_launches :: "u8 list"
  pt_next_launch :: u32

definition plan_texts :: "launch_plan \<Rightarrow> rtext list" where
  "plan_texts plan = [pl_launch_ref plan, pl_title plan, pl_system_id plan, pl_core_path plan, pl_payload_path plan, pl_mount_kind plan]"

definition game_flags :: "system_game \<Rightarrow> u32" where
  "game_flags game = (if sg_has_preview game then 1 else 0) OR push_bit 1 (if sg_is_new game then 1 else 0)"

definition encode_game :: "nat \<Rightarrow> system_game \<Rightarrow> pack_tables \<Rightarrow> pack_tables nav" where
  "encode_game ordinal game s =
     nav_then (put_texts [sg_title game, sg_launch_ref game, sg_preview_archive_path game, sg_preview_asset_key game]
        (pt_strings s) (pt_rows s)) (\<lambda>(st, rows).
     nav_then (nav_get TooMany (u32_of_usize ordinal)) (\<lambda>ordinal_word.
     nav_then (case sg_launch_plan game of
          None \<Rightarrow> nav_ok (NONE_U32, pt_next_launch s)
        | Some _ \<Rightarrow> if unat (pt_next_launch s) + 1 < 2 ^ 32 then nav_ok (pt_next_launch s, pt_next_launch s + 1)
            else nav_fail SizeOverflow) (\<lambda>(launch_index, next_launch).
       let rows = rows @ le32 ordinal_word @ le32 launch_index @ le32 (game_flags game) @ le32 0;
           cold = pt_cold s @ le16 (case sg_year game of None \<Rightarrow> 0xFFFF | Some y \<Rightarrow> y) @
             [case sg_players game of None \<Rightarrow> 0xFF | Some n \<Rightarrow> n, 0]
       in nav_then (put_texts [sg_manufacturer game, sg_category game, sg_control game] st cold) (\<lambda>(st, cold).
          let cold = cold @ le32 0
          in nav_then (case sg_launch_plan game of
               None \<Rightarrow> nav_ok (st, pt_launches s)
             | Some plan \<Rightarrow>
                 nav_then (put_texts (plan_texts plan) st (pt_launches s)) (\<lambda>(st, launches).
                   nav_ok (st, launches @ [pl_mount_index plan, pl_delay_secs plan] @ replicate (NAVPACK_LAUNCH_BYTES - 50) 0)))
             (\<lambda>(st, launches). nav_ok \<lparr>pt_strings = st, pt_rows = rows, pt_cold = cold, pt_launches = launches,
                pt_next_launch = next_launch\<rparr>)))))"

fun encode_games :: "nat \<Rightarrow> system_game list \<Rightarrow> pack_tables \<Rightarrow> pack_tables nav" where
  "encode_games ordinal [] s = nav_ok s"
| "encode_games ordinal (game # games) s = nav_then (encode_game ordinal game s) (encode_games (Suc ordinal) games)"

definition encode_ordinals :: "u32 list \<Rightarrow> u8 list \<Rightarrow> u8 list nav" where
  "encode_ordinals ordinals out =
     nav_then (nav_get TooMany (u32_of_usize (length ordinals))) (\<lambda>count. nav_ok (out @ le32 count @ concat (map le32 ordinals)))"

fun string_groups :: "(rtext \<times> u32 list) list \<Rightarrow> string_table \<Rightarrow> u8 list \<Rightarrow> (string_table \<times> u8 list) nav" where
  "string_groups [] st out = nav_ok (st, out)"
| "string_groups ((v, ordinals) # groups) st out =
     nav_then (intern v st) (\<lambda>(r, st). nav_then (encode_ordinals ordinals (out @ put_ref r)) (string_groups groups st))"

definition encode_string_postings ::
  "(rtext \<times> u32 list) list \<Rightarrow> string_table \<Rightarrow> u8 list \<Rightarrow> (string_table \<times> u8 list) nav" where
  "encode_string_postings groups st out =
     nav_then (nav_get TooMany (u32_of_usize (length groups))) (\<lambda>count. string_groups groups st (out @ le32 count))"

fun numeric_groups :: "('k \<Rightarrow> u8 list) \<Rightarrow> ('k \<times> u32 list) list \<Rightarrow> u8 list \<Rightarrow> u8 list nav" where
  "numeric_groups key_bytes [] out = nav_ok out"
| "numeric_groups key_bytes ((v, ordinals) # groups) out =
     nav_then (encode_ordinals ordinals (out @ key_bytes v)) (numeric_groups key_bytes groups)"

definition encode_u16_postings :: "(u16 \<times> u32 list) list \<Rightarrow> u8 list \<Rightarrow> u8 list nav" where
  "encode_u16_postings groups out =
     nav_then (nav_get TooMany (u32_of_usize (length groups))) (\<lambda>count.
       numeric_groups (\<lambda>v. le16 v @ le16 0) groups (out @ le32 count))"

definition encode_u8_postings :: "(u8 \<times> u32 list) list \<Rightarrow> u8 list \<Rightarrow> u8 list nav" where
  "encode_u8_postings groups out =
     nav_then (nav_get TooMany (u32_of_usize (length groups))) (\<lambda>count.
       numeric_groups (\<lambda>v. v # replicate 3 0) groups (out @ le32 count))"

definition encode_indexes :: "navigation_indexes \<Rightarrow> string_table \<Rightarrow> (string_table \<times> u8 list) nav" where
  "encode_indexes x st =
     nav_then (encode_ordinals (nx_title_ordinals x) []) (\<lambda>out.
     nav_then (encode_ordinals (nx_preview_ordinals x) out) (\<lambda>out.
     nav_then (encode_ordinals (nx_launch_ordinals x) out) (\<lambda>out.
     nav_then (encode_string_postings (nx_categories x) st out) (\<lambda>(st, out).
     nav_then (encode_u16_postings (nx_decades x) out) (\<lambda>out.
     nav_then (encode_string_postings (nx_manufacturers x) st out) (\<lambda>(st, out).
     nav_then (encode_u8_postings (nx_players x) out) (\<lambda>out.
       encode_string_postings (nx_controls x) st out)))))))"

definition selected_preview :: "system_game list \<Rightarrow> system_game option" where
  "selected_preview games =
     (case games of
        [] \<Rightarrow> None
      | game # _ \<Rightarrow> if sg_has_preview game \<and> sg_preview_archive_path game \<noteq> [] \<and> sg_preview_asset_key game \<noteq> []
          then Some game else None)"

definition encode_entry_prelude :: "system_game list \<Rightarrow> navigation_indexes \<Rightarrow> u8 list nav" where
  "encode_entry_prelude games x =
     (let viewport = take NAVPACK_ENTRY_VIEWPORT_ROWS (nx_title_ordinals x);
          (selected, flags, title, archive, asset_key) =
            (case selected_preview games of
               Some game \<Rightarrow> (0, PRELUDE_FLAG_EXACT_PREVIEW, into_bytes (sg_title game),
                 into_bytes (sg_preview_archive_path game), into_bytes (sg_preview_asset_key game))
             | None \<Rightarrow> (NONE_U32, PRELUDE_FLAG_TERMINAL_EMPTY, [], [], []));
          total_bytes = Option.bind (checked_add PRELUDE_HEADER_BYTES (length viewport * 4)) (\<lambda>v.
            Option.bind (checked_add v (length title)) (\<lambda>v. Option.bind (checked_add v (length archive)) (\<lambda>v.
              checked_add v (length asset_key))))
      in nav_then (nav_get SizeOverflow total_bytes) (\<lambda>total_bytes.
         nav_then (nav_get TooMany (u32_of_usize total_bytes)) (\<lambda>total_word.
         nav_then (nav_get TooMany (u32_of_usize (length viewport))) (\<lambda>count.
         nav_then (nav_list (map (\<lambda>v. nav_get TooMany (u32_of_usize (length v))) [title, archive, asset_key])) (\<lambda>lengths.
           nav_ok (PRELUDE_MAGIC @ le32 PRELUDE_VERSION @ le32 total_word @ le32 count @ le32 selected @ le32 flags @ le32 0 @
             concat (map le32 lengths) @ le32 0 @ concat (map le32 viewport) @ title @ archive @ asset_key))))))"

definition aligned_after :: "nat \<Rightarrow> nat \<Rightarrow> nat nav" where
  "aligned_after offset n =
     nav_get SizeOverflow (Option.bind (checked_add offset n) (\<lambda>v. map_option (\<lambda>v. v div 8 * 8) (checked_add v 7)))"

definition u64_of_usize :: "nat \<Rightarrow> u64" where
  "u64_of_usize n = of_nat n"

definition encode_header_bytes ::
  "u64 \<Rightarrow> u32 \<Rightarrow> u32 \<Rightarrow> u32 \<times> u32 \<Rightarrow> (nat \<times> nat) list \<Rightarrow> nat \<times> nat \<Rightarrow> u8 list" where
  "encode_header_bytes generation game_count launch_count system_ref sections prelude =
     NAV_MAGIC @ le32 NAVPACK_SCHEMA_VERSION @ le32 (of_nat NAVPACK_HEADER_BYTES) @ le32 ENDIAN_MARKER @
     le32 (of_nat NAVPACK_ROW_BYTES) @ le32 (of_nat NAVPACK_COLD_BYTES) @ le32 (of_nat NAVPACK_LAUNCH_BYTES) @
     le64 generation @ le32 game_count @ le32 launch_count @ put_ref system_ref @
     concat (map (\<lambda>(offset, n). le64 (u64_of_usize offset) @ le64 (u64_of_usize n)) sections) @
     le64 (u64_of_usize (fst prelude)) @ le64 (u64_of_usize (snd prelude))"

definition navpack_encode :: "rtext \<Rightarrow> u64 \<Rightarrow> system_game list \<Rightarrow> navigation_indexes \<Rightarrow> u8 list nav" where
  "navpack_encode system_id generation games x =
     nav_then (nav_get TooMany (u32_of_usize (length games))) (\<lambda>game_count.
     nav_then (intern system_id empty_table) (\<lambda>(system_ref, st).
     nav_then (encode_games 0 games \<lparr>pt_strings = st, pt_rows = [], pt_cold = [], pt_launches = [], pt_next_launch = 0\<rparr>) (\<lambda>s.
     nav_then (encode_indexes x (pt_strings s)) (\<lambda>(st, indexes).
     nav_then (encode_entry_prelude games x) (\<lambda>prelude.
       let prelude_offset = NAVPACK_HEADER_BYTES
       in nav_then (aligned_after prelude_offset (length prelude)) (\<lambda>rows_offset.
          nav_then (aligned_after rows_offset (length (pt_rows s))) (\<lambda>cold_offset.
          nav_then (aligned_after cold_offset (length (pt_cold s))) (\<lambda>launch_offset.
          nav_then (aligned_after launch_offset (length (pt_launches s))) (\<lambda>index_offset.
          nav_then (aligned_after index_offset (length indexes)) (\<lambda>strings_offset.
          nav_then (nav_get SizeOverflow (checked_add strings_offset (length (st_bytes st)))) (\<lambda>file_bytes.
          nav_then (nav_get TooMany (u32_of_usize (length (filter (\<lambda>game. sg_launch_plan game \<noteq> None) games)))) (\<lambda>launch_count.
            let output = fill [(prelude_offset, prelude), (rows_offset, pt_rows s), (cold_offset, pt_cold s),
                  (launch_offset, pt_launches s), (index_offset, indexes), (strings_offset, st_bytes st)]
                  (replicate file_bytes 0);
                header = encode_header_bytes generation game_count launch_count system_ref
                  [(rows_offset, length (pt_rows s)), (cold_offset, length (pt_cold s)),
                   (launch_offset, length (pt_launches s)), (index_offset, length indexes),
                   (strings_offset, length (st_bytes st))] (prelude_offset, length prelude);
                header = take NAVPACK_HEADER_BYTES (header @ replicate (NAVPACK_HEADER_BYTES - length header) 0);
                output = put_at 0 header output
            in nav_then (nav_validate output system_id generation (length games)) (\<lambda>_. nav_ok output)))))))))))))"

end
