(* ===== verification/Nav_Read.thy ===== *)
theory Nav_Read
  imports Nav_Pack
begin

text \<open>Reading navigation packs: no panic on any file, and a validated file answers every query.\<close>

section \<open>Results\<close>

definition panics :: "'a nav \<Rightarrow> bool" where
  "panics m \<longleftrightarrow> m = None"

lemma nav_then_simps [simp]:
  "nav_then (nav_ok a) f = f a" "nav_then (nav_fail e) f = nav_fail e" "nav_then None f = None"
  by (simp_all add: nav_then_def nav_ok_def nav_fail_def)

lemma nav_results [simp]:
  "\<not> panics (nav_ok a)" "\<not> panics (nav_fail e)" "panics None" "nav_ok a \<noteq> nav_fail e" "nav_fail e \<noteq> nav_ok a"
  "nav_ok a = nav_ok b \<longleftrightarrow> a = b"
  "None \<noteq> nav_ok a" "nav_ok a \<noteq> None"
  by (simp_all add: nav_ok_def nav_fail_def panics_def)

lemma nav_then_assoc: "nav_then (nav_then m f) g = nav_then m (\<lambda>a. nav_then (f a) g)"
  by (simp add: nav_then_def split: option.split sum.split)

lemma nav_then_ok: "nav_then m f = nav_ok b \<longleftrightarrow> (\<exists>a. m = nav_ok a \<and> f a = nav_ok b)"
  by (auto simp: nav_then_def nav_ok_def split: option.splits sum.splits)

lemma nav_then_panics: "panics (nav_then m f) \<longleftrightarrow> panics m \<or> (\<exists>a. m = nav_ok a \<and> panics (f a))"
  by (auto simp: panics_def nav_then_def nav_ok_def split: option.splits sum.splits)

lemma nav_require_simps [simp]:
  "nav_require c e = nav_ok u \<longleftrightarrow> c" "\<not> panics (nav_require c e)" "nav_require True e = nav_ok ()"
  by (simp_all add: nav_require_def)

lemma nav_get_simps [simp]:
  "nav_get e x = nav_ok a \<longleftrightarrow> x = Some a" "\<not> panics (nav_get e x)" "nav_get e (Some a) = nav_ok a"
  by (simp_all add: nav_get_def split: option.split)

lemma index_slice_simps:
  "index_slice a b bytes = nav_ok s \<longleftrightarrow> a \<le> b \<and> b \<le> length bytes \<and> s = slice a b bytes"
  "panics (index_slice a b bytes) \<longleftrightarrow> \<not> (a \<le> b \<and> b \<le> length bytes)"
  by (auto simp: index_slice_def)

lemma nav_each_ok: "nav_each f xs = nav_ok u \<longleftrightarrow> (\<forall>x \<in> set xs. f x = nav_ok ())"
  by (induction xs) (auto simp: nav_then_ok)

lemma nav_each_panics: "panics (nav_each f xs) \<Longrightarrow> \<exists>x \<in> set xs. panics (f x)"
  by (induction xs) (auto simp: nav_then_panics)

lemma nav_list_ok: "nav_list (map f xs) = nav_ok ys \<longleftrightarrow> list_all2 (\<lambda>x y. f x = nav_ok y) xs ys"
proof (induction xs arbitrary: ys)
  case (Cons x xs)
  then show ?case
    by (cases ys) (auto simp: nav_then_ok)
qed auto

lemma nav_list_panics: "panics (nav_list ms) \<Longrightarrow> \<exists>m \<in> set ms. panics m"
  by (induction ms) (auto simp: nav_then_panics)

section \<open>Reads do not panic\<close>

lemma get_slice_iff: "get_slice a b bytes = Some s \<longleftrightarrow> a \<le> b \<and> b \<le> length bytes \<and> s = slice a b bytes"
  by (auto simp: get_slice_def)

lemma read_ok:
  "read_u16 bytes i = nav_ok v16 \<longleftrightarrow> i + 2 \<le> length bytes \<and> v16 = from_le (slice i (i + 2) bytes)"
  "read_u32 bytes i = nav_ok v32 \<longleftrightarrow> i + 4 \<le> length bytes \<and> v32 = from_le (slice i (i + 4) bytes)"
  "read_u64 bytes i = nav_ok v64 \<longleftrightarrow> i + 8 \<le> length bytes \<and> v64 = from_le (slice i (i + 8) bytes)"
  by (auto simp: read_u16_def read_u32_def read_u64_def nav_then_ok get_slice_iff)

lemma reads_do_not_panic [simp]:
  "\<not> panics (read_u16 bytes i)" "\<not> panics (read_u32 bytes i)" "\<not> panics (read_u64 bytes i)" "\<not> panics (read_ref bytes i)"
  "\<not> panics (read_section bytes i)" "\<not> panics (nav_byte bytes i)" "\<not> panics (nav_take n bytes)" "\<not> panics (take_u32 bytes)"
  by (auto simp: read_u16_def read_u32_def read_u64_def read_ref_def read_section_def nav_byte_def nav_take_def
      take_u32_def nav_then_panics split: option.splits)

lemma checked_add_Some [simp]: "checked_add a b = Some c \<longleftrightarrow> c = a + b \<and> a + b \<le> USIZE_MAX"
  by (auto simp: checked_add_def)

lemma checked_mul_Some [simp]: "checked_mul a b = Some c \<longleftrightarrow> c = a * b \<and> a * b \<le> USIZE_MAX"
  by (auto simp: checked_mul_def)

lemma read_string_does_not_panic [simp]: "\<not> panics (read_string strings r)"
  by (auto simp: read_string_def nav_then_panics index_slice_simps split: option.splits)

lemma read_section_ok:
  "read_section bytes i = nav_ok (start, len) \<Longrightarrow> start + len \<le> length bytes \<and> start + len \<le> USIZE_MAX"
  by (auto simp: read_section_def nav_then_ok split: option.splits if_splits)

lemma list_reads_do_not_panic [simp]:
  "\<not> panics (take_ordinals games bytes)" "\<not> panics (take_string_postings strings games bytes)"
  "\<not> panics (take_numeric_postings n games bytes)"
proof -
  have loop: "\<not> panics (take_ordinals_loop games n bytes)" for n bytes
    by (induction n arbitrary: bytes) (auto simp: nav_then_panics split: prod.splits if_splits)
  then have ordinals: "\<not> panics (take_ordinals games bytes)" for bytes
    by (auto simp: take_ordinals_def nav_then_panics)
  show "\<not> panics (take_ordinals games bytes)"
    by (rule ordinals)
  have "\<not> panics (take_string_loop strings games n bytes)" for n bytes
    using ordinals by (induction n arbitrary: bytes) (auto simp: nav_then_panics split: prod.splits)
  then show "\<not> panics (take_string_postings strings games bytes)"
    by (auto simp: take_string_postings_def nav_then_panics)
  have "\<not> panics (take_numeric_loop k games n bytes)" for k n bytes
    using ordinals by (induction n arbitrary: bytes) (auto simp: nav_then_panics split: prod.splits)
  then show "\<not> panics (take_numeric_postings n games bytes)"
    by (auto simp: take_numeric_postings_def nav_then_panics)
qed

lemma counts_do_not_panic [simp]:
  "\<not> panics (read_string_counts strings games bytes)" "\<not> panics (read_numeric_counts maximum games bytes)"
proof -
  have "\<not> panics (string_counts_loop strings games n groups bytes)" for n groups bytes
    by (induction n arbitrary: groups bytes) (auto simp: nav_then_panics split: prod.splits if_splits)
  then show "\<not> panics (read_string_counts strings games bytes)"
    by (auto simp: read_string_counts_def nav_then_panics)
  have "\<not> panics (numeric_counts_loop maximum games n groups bytes)" for n groups bytes
    by (induction n arbitrary: groups bytes) (auto simp: nav_then_panics split: prod.splits if_splits)
  then show "\<not> panics (read_numeric_counts maximum games bytes)"
    by (auto simp: read_numeric_counts_def nav_then_panics)
qed

lemma prelude_does_not_panic [simp]: "\<not> panics (parse_entry_prelude bytes games)"
proof -
  have "\<not> panics (nav_list (map (\<lambda>index. nav_then (read_u32 bytes (PRELUDE_HEADER_BYTES + index * 4)) (\<lambda>ordinal.
      if games \<le> unat ordinal then nav_fail ViewportOrdinal else nav_ok (unat ordinal))) js))" for js
    by (auto dest!: nav_list_panics simp: nav_then_panics split: if_splits)
  then show ?thesis
    by (auto simp: parse_entry_prelude_def nav_then_panics Let_def split: if_splits)
qed

lemma leading_prelude_does_not_panic [simp]: "\<not> panics (leading_prelude bytes rows_offset games)"
  by (auto simp: leading_prelude_def nav_then_panics index_slice_simps dest: read_section_ok split: prod.splits)

lemma constants_do_not_panic [simp]: "\<not> panics (check_constants bytes generation games)"
  by (auto simp: check_constants_def nav_then_panics)

lemma sections_do_not_panic [simp]: "\<not> panics (read_sections bytes)"
  by (auto simp: read_sections_def dest!: nav_list_panics)

lemma read_sections_ok:
  assumes "read_sections bytes = nav_ok sections"
  shows "length sections = 5" "i < 5 \<Longrightarrow> fst (sections ! i) + snd (sections ! i) \<le> length bytes \<and>
    fst (sections ! i) + snd (sections ! i) \<le> USIZE_MAX"
proof -
  have all: "list_all2 (\<lambda>i s. read_section bytes (56 + i * 16) = nav_ok s) [0..<5] sections"
    using assms by (simp add: read_sections_def nav_list_ok)
  then show "length sections = 5"
    by (simp add: list_all2_lengthD [symmetric])
  assume "i < 5"
  then have "read_section bytes (56 + i * 16) = nav_ok (sections ! i)"
    using list_all2_nthD [OF all, of i] by simp
  then show "fst (sections ! i) + snd (sections ! i) \<le> length bytes \<and> fst (sections ! i) + snd (sections ! i) \<le> USIZE_MAX"
    using read_section_ok [of bytes "56 + i * 16" "fst (sections ! i)" "snd (sections ! i)"] by simp
qed

lemma checks_do_not_panic [simp]:
  "\<not> panics (check_strings bytes strings base offsets)" "\<not> panics (check_row bytes strings rows cold launches i)"
  "\<not> panics (check_selected bytes strings rows selected)" "\<not> panics (validate_indexes index strings games)"
proof -
  show *: "\<not> panics (check_strings bytes strings base offsets)" for bytes strings base offsets
    by (auto simp: check_strings_def nav_then_panics dest!: nav_each_panics)
  show "\<not> panics (check_row bytes strings rows cold launches i)"
    using * by (auto simp: check_row_def nav_then_panics Let_def)
  show "\<not> panics (check_selected bytes strings rows selected)"
    by (auto simp: check_selected_def nav_then_panics Let_def split: if_splits)
  show "\<not> panics (validate_indexes index strings games)"
    by (auto simp: validate_indexes_def nav_then_panics)
qed

lemma nav_validate_does_not_panic: "\<not> panics (nav_validate bytes system_id generation games)"
proof -
  have each: "\<not> panics (nav_each (check_row bytes strings a b c) xs)"
    "\<not> panics (nav_each (\<lambda>l. check_strings bytes strings (a + l * NAVPACK_LAUNCH_BYTES) os) xs)" for strings a b c xs os
    by (auto dest!: nav_each_panics)
  have slices: "\<not> panics (index_slice a (a + n) bytes)" if "read_sections bytes = nav_ok sections" "sections ! i = (a, n)" "i < 5"
    for sections a n i
    using read_sections_ok(2) [OF that(1,3)] that(2) by (simp add: index_slice_simps)
  show ?thesis
    using each slices
    by (auto simp: nav_validate_def nav_then_panics Let_def split: prod.splits option.splits)
qed

section \<open>An opened pack\<close>

text \<open>The sections of an opened pack lie inside its file.\<close>

definition pack_in_file :: "mapped_navpack \<Rightarrow> bool" where
  "pack_in_file p \<longleftrightarrow> mp_strings_offset p + mp_strings_bytes p \<le> length (mp_mapping p) \<and>
     mp_prelude_offset p + mp_prelude_bytes p \<le> length (mp_mapping p) \<and>
     mp_rows_offset p + ni_games (mp_identity p) * NAVPACK_ROW_BYTES \<le> length (mp_mapping p) \<and>
     mp_cold_offset p + ni_games (mp_identity p) * NAVPACK_COLD_BYTES \<le> length (mp_mapping p) \<and>
     mp_launch_offset p + ni_launches (mp_identity p) * NAVPACK_LAUNCH_BYTES \<le> length (mp_mapping p) \<and>
     mp_index_offset p + mp_index_bytes p \<le> length (mp_mapping p)"

lemma leading_prelude_ok:
  assumes "leading_prelude bytes rows games = nav_ok ((offset, n), prelude)"
  shows "offset + n \<le> length bytes" "parse_entry_prelude (slice offset (offset + n) bytes) games = nav_ok prelude"
  using assms by (auto simp: leading_prelude_def nav_then_ok index_slice_simps split: prod.splits)

lemma validate_header_in_file:
  assumes "validate_header bytes system_id generation games = nav_ok p"
  shows "pack_in_file p" "mp_mapping p = bytes"
proof -
  from assms obtain sections prelude launches offset n where
    sections: "read_sections bytes = nav_ok sections"
    and prelude: "leading_prelude bytes (fst (sections ! 0)) games = nav_ok ((offset, n), prelude)"
    and sizes: "snd (sections ! 0) = games * NAVPACK_ROW_BYTES" "snd (sections ! 1) = games * NAVPACK_COLD_BYTES"
      "snd (sections ! 2) = launches * NAVPACK_LAUNCH_BYTES"
    and p: "p = \<lparr>mp_mapping = bytes,
         mp_identity = \<lparr>ni_system_id = system_id, ni_generation = generation, ni_games = games, ni_launches = launches\<rparr>,
         mp_rows_offset = fst (sections ! 0), mp_cold_offset = fst (sections ! 1), mp_launch_offset = fst (sections ! 2),
         mp_index_offset = fst (sections ! 3), mp_index_bytes = snd (sections ! 3),
         mp_strings_offset = fst (sections ! 4), mp_strings_bytes = snd (sections ! 4),
         mp_prelude_offset = offset, mp_prelude_bytes = n\<rparr>"
    by (auto simp: validate_header_def nav_then_ok check_constants_def split: prod.splits if_splits)
  show "mp_mapping p = bytes"
    by (simp add: p)
  show "pack_in_file p"
    using leading_prelude_ok(1) [OF prelude] read_sections_ok(2) [OF sections, of 0] read_sections_ok(2) [OF sections, of 1]
      read_sections_ok(2) [OF sections, of 2] read_sections_ok(2) [OF sections, of 3]
      read_sections_ok(2) [OF sections, of 4] sizes
    by (simp add: pack_in_file_def p)
qed

lemma validate_header_does_not_panic: "\<not> panics (validate_header bytes system_id generation games)"
  by (auto simp: validate_header_def nav_then_panics split: prod.splits)

lemma accessors_do_not_panic:
  assumes "pack_in_file p"
  shows "\<not> panics (navpack_row_at p i)" "\<not> panics (navpack_metadata_at p i)" "\<not> panics (navpack_launch_at p i)"
    "\<not> panics (navpack_entry_prelude p)" "\<not> panics (navpack_filter_counts p)"
proof -
  have strings [simp]: "\<not> panics (navpack_strings p)"
    using assms by (simp add: navpack_strings_def index_slice_simps pack_in_file_def)
  show "\<not> panics (navpack_row_at p i)"
    by (auto simp: navpack_row_at_def nav_then_panics Let_def)
  show "\<not> panics (navpack_metadata_at p i)"
    by (auto simp: navpack_metadata_at_def nav_then_panics Let_def)
  show "\<not> panics (navpack_launch_at p i)"
    by (auto simp: navpack_launch_at_def nav_then_panics Let_def)
  show "\<not> panics (navpack_entry_prelude p)"
    by (auto simp: navpack_entry_prelude_def nav_then_panics)
  show "\<not> panics (navpack_filter_counts p)"
    by (auto simp: navpack_filter_counts_def nav_then_panics Let_def split: prod.splits)
qed

section \<open>A validated file\<close>

definition text_at :: "u8 list \<Rightarrow> u8 list \<Rightarrow> nat \<Rightarrow> rtext nav" where
  "text_at bytes strings at = nav_then (read_ref bytes at) (read_string strings)"

lemma check_strings_ok:
  "check_strings bytes strings base offsets = nav_ok u \<longleftrightarrow>
     (\<forall>offset \<in> set offsets. \<exists>t. text_at bytes strings (base + offset) = nav_ok t)"
  by (auto simp: check_strings_def nav_each_ok text_at_def nav_then_ok)

lemma check_row_ok:
  assumes "check_row bytes strings rows cold launches i = nav_ok u"
  shows "\<forall>offset \<in> {0, 8, 16, 24}. \<exists>t. text_at bytes strings (rows + i * NAVPACK_ROW_BYTES + offset) = nav_ok t"
    "\<forall>offset \<in> {4, 12, 20}. \<exists>t. text_at bytes strings (cold + i * NAVPACK_COLD_BYTES + offset) = nav_ok t"
    "\<exists>launch. read_u32 bytes (rows + i * NAVPACK_ROW_BYTES + 36) = nav_ok launch \<and> (launch = NONE_U32 \<or> unat launch < launches)"
  using assms by (auto simp: check_row_def nav_then_ok check_strings_ok Let_def)

lemma parse_prelude_viewport:
  assumes "parse_entry_prelude bytes games = nav_ok prelude"
  shows "\<forall>i \<in> set (ep_viewport prelude). i < games" "length (ep_viewport prelude) \<le> NAVPACK_ENTRY_VIEWPORT_ROWS"
    and "\<forall>s. ep_selected prelude = Some s \<longrightarrow> np_ordinal s < games"
    and "ep_terminal_empty prelude \<longleftrightarrow> ep_selected prelude = None"
proof -
  from assms obtain count viewport where
    viewport: "nav_list (map (\<lambda>index. nav_then (read_u32 bytes (PRELUDE_HEADER_BYTES + index * 4)) (\<lambda>ordinal.
        if games \<le> unat ordinal then nav_fail ViewportOrdinal else nav_ok (unat ordinal))) [0..<unat count]) = nav_ok viewport"
    and count: "unat (count :: u32) \<le> NAVPACK_ENTRY_VIEWPORT_ROWS"
    and prelude: "ep_viewport prelude = viewport" "\<forall>s. ep_selected prelude = Some s \<longrightarrow> np_ordinal s < games"
      "ep_terminal_empty prelude \<longleftrightarrow> ep_selected prelude = None"
    by (auto simp: parse_entry_prelude_def nav_then_ok Let_def PRELUDE_FLAG_TERMINAL_EMPTY_def PRELUDE_FLAG_EXACT_PREVIEW_def
        split: if_splits)
  have all: "list_all2 (\<lambda>index i. nav_then (read_u32 bytes (PRELUDE_HEADER_BYTES + index * 4)) (\<lambda>ordinal.
        if games \<le> unat ordinal then nav_fail ViewportOrdinal else nav_ok (unat ordinal)) = nav_ok i) [0..<unat count] viewport"
    using viewport by (simp add: nav_list_ok)
  have "viewport ! j < games" if "j < length viewport" for j
    using list_all2_nthD2 [OF all that] by (auto simp: nav_then_ok split: if_splits)
  then show "\<forall>i \<in> set (ep_viewport prelude). i < games"
    by (auto simp: prelude in_set_conv_nth)
  show "length (ep_viewport prelude) \<le> NAVPACK_ENTRY_VIEWPORT_ROWS"
    using count list_all2_lengthD [OF all] by (simp add: prelude)
qed (use assms in \<open>auto simp: parse_entry_prelude_def nav_then_ok Let_def PRELUDE_FLAG_TERMINAL_EMPTY_def
  PRELUDE_FLAG_EXACT_PREVIEW_def split: if_splits\<close>)

lemma constants_ok: "check_constants bytes generation games = nav_ok (g, launches) \<Longrightarrow> g = games"
  by (auto simp: check_constants_def nav_then_ok split: if_splits)

lemma optional_check: "(case x of None \<Rightarrow> nav_ok () | Some s \<Rightarrow> f s) = nav_ok u \<longleftrightarrow> (\<forall>s. x = Some s \<longrightarrow> f s = nav_ok ())"
  by (cases x) simp_all

text \<open>What a validation establishes, in terms of the pack that the file opens as.\<close>

lemma nav_validate_facts:
  assumes "nav_validate bytes system_id generation games = nav_ok ident"
  obtains p strings prelude where
    "validate_header bytes system_id generation games = nav_ok p" "mp_identity p = ident" "ni_games ident = games"
    "navpack_strings p = nav_ok strings" "navpack_entry_prelude p = nav_ok prelude"
    "\<And>i. i < games \<Longrightarrow> check_row bytes strings (mp_rows_offset p) (mp_cold_offset p) (ni_launches ident) i = nav_ok ()"
    "\<And>l. l < ni_launches ident \<Longrightarrow>
      check_strings bytes strings (mp_launch_offset p + l * NAVPACK_LAUNCH_BYTES) [0, 8, 16, 24, 32, 40] = nav_ok ()"
    "\<And>s. ep_selected prelude = Some s \<Longrightarrow> check_selected bytes strings (mp_rows_offset p) s = nav_ok ()"
    "validate_indexes (slice (mp_index_offset p) (mp_index_offset p + mp_index_bytes p) bytes) strings games = nav_ok ()"
proof -
  from assms(1) obtain launches system_ref sections offset n prelude strings where
    constants: "check_constants bytes generation games = nav_ok (games, launches)"
    and system_ref: "read_ref bytes 48 = nav_ok system_ref" "read_string strings system_ref = nav_ok system_id"
    and sections: "read_sections bytes = nav_ok sections"
    and prelude: "leading_prelude bytes (fst (sections ! 0)) games = nav_ok ((offset, n), prelude)"
    and ordered: "sections_ordered sections"
    and sizes: "snd (sections ! 0) = usize_saturating_mul games NAVPACK_ROW_BYTES"
      "snd (sections ! 1) = usize_saturating_mul games NAVPACK_COLD_BYTES"
      "snd (sections ! 2) = usize_saturating_mul launches NAVPACK_LAUNCH_BYTES"
    and strings: "index_slice (fst (sections ! 4)) (fst (sections ! 4) + snd (sections ! 4)) bytes = nav_ok strings"
    and selected: "\<And>s. ep_selected prelude = Some s \<Longrightarrow> check_selected bytes strings (fst (sections ! 0)) s = nav_ok ()"
    and rows: "nav_each (check_row bytes strings (fst (sections ! 0)) (fst (sections ! 1)) launches) [0..<games] = nav_ok ()"
    and plans: "nav_each (\<lambda>launch. check_strings bytes strings (fst (sections ! 2) + launch * NAVPACK_LAUNCH_BYTES)
              [0, 8, 16, 24, 32, 40]) [0..<launches] = nav_ok ()"
    and indexes: "validate_indexes (slice (fst (sections ! 3)) (fst (sections ! 3) + snd (sections ! 3)) bytes) strings games = nav_ok ()"
    and ident: "ident = \<lparr>ni_system_id = system_id, ni_generation = generation, ni_games = games, ni_launches = launches\<rparr>"
    unfolding nav_validate_def nav_then_ok Let_def case_prod_beta optional_check nav_require_simps
    apply (elim exE conjE)
    subgoal for c r sections lp u1 u2 strings sid
      apply (rule that [of "snd c" r strings sections "fst (fst lp)" "snd (fst lp)" "snd lp"])
      apply (cases c; cases lp; auto dest: constants_ok simp: index_slice_simps)+
      done
    done
  note limits = read_sections_ok(2) [OF sections]
  have "160 \<le> fst (sections ! 0)"
    using prelude by (auto simp: leading_prelude_def nav_then_ok NAVPACK_HEADER_BYTES_def split: prod.splits)
  moreover have "fst (sections ! 0) + snd (sections ! 0) \<le> fst (sections ! 1)" "fst (sections ! 1) + snd (sections ! 1) \<le> fst (sections ! 2)"
    using ordered read_sections_ok(1) [OF sections] by (auto simp: length_Suc_conv numeral_eq_Suc)
  ultimately have starts: "160 \<le> fst (sections ! 0)" "160 \<le> fst (sections ! 1)" "160 \<le> fst (sections ! 2)"
    by linarith+
  have exact: "snd (sections ! i) = a * b \<and> a * b \<le> USIZE_MAX" if "snd (sections ! i) = usize_saturating_mul a b" "160 \<le> fst (sections ! i)" "i < 5"
    for i a b
    using limits [OF that(3)] that(1,2) by (auto simp: usize_saturating_mul_def min_def split: if_splits)
  have products: "games * NAVPACK_ROW_BYTES \<le> USIZE_MAX" "games * NAVPACK_COLD_BYTES \<le> USIZE_MAX"
    "launches * NAVPACK_LAUNCH_BYTES \<le> USIZE_MAX" "snd (sections ! 0) = games * NAVPACK_ROW_BYTES"
    "snd (sections ! 1) = games * NAVPACK_COLD_BYTES" "snd (sections ! 2) = launches * NAVPACK_LAUNCH_BYTES"
    using exact [OF sizes(1)] exact [OF sizes(2)] exact [OF sizes(3)] starts by simp_all
  have strings': "get_slice (fst (sections ! 4)) (fst (sections ! 4) + snd (sections ! 4)) bytes = Some strings"
    using strings by (simp add: index_slice_simps get_slice_iff)
  let ?p = "\<lparr>mp_mapping = bytes, mp_identity = ident,
         mp_rows_offset = fst (sections ! 0), mp_cold_offset = fst (sections ! 1), mp_launch_offset = fst (sections ! 2),
         mp_index_offset = fst (sections ! 3), mp_index_bytes = snd (sections ! 3),
         mp_strings_offset = fst (sections ! 4), mp_strings_bytes = snd (sections ! 4),
         mp_prelude_offset = offset, mp_prelude_bytes = n\<rparr>"
  have checked: "checked_mul games NAVPACK_ROW_BYTES = Some (games * NAVPACK_ROW_BYTES)"
    "checked_mul games NAVPACK_COLD_BYTES = Some (games * NAVPACK_COLD_BYTES)"
    "checked_mul launches NAVPACK_LAUNCH_BYTES = Some (launches * NAVPACK_LAUNCH_BYTES)"
    "checked_add (fst (sections ! 4)) (snd (sections ! 4)) = Some (fst (sections ! 4) + snd (sections ! 4))"
    using products limits [of 4] by simp_all
  have "validate_header bytes system_id generation games = nav_ok ?p"
    using constants sections prelude ordered products system_ref
    by (simp add: validate_header_def ident checked strings' del: get_slice_Some)
  moreover have "navpack_strings ?p = nav_ok strings"
    using strings by (simp add: navpack_strings_def)
  moreover have "navpack_entry_prelude ?p = nav_ok prelude"
    using leading_prelude_ok [OF prelude] by (simp add: navpack_entry_prelude_def ident)
  ultimately show thesis
    using that [of ?p strings prelude] rows plans selected indexes by (simp add: ident nav_each_ok)
qed

lemma validated_row:
  assumes "navpack_strings p = nav_ok strings" "i < ni_games (mp_identity p)" "pack_in_file p"
    and "check_row (mp_mapping p) strings (mp_rows_offset p) (mp_cold_offset p) (ni_launches (mp_identity p)) i = nav_ok ()"
  shows "\<exists>row. navpack_row_at p i = nav_ok row \<and>
      (\<forall>l. nr_launch_index row = Some l \<longrightarrow> l < ni_launches (mp_identity p))"
    and "\<exists>m. navpack_metadata_at p i = nav_ok m"
proof -
  let ?b = "mp_mapping p" and ?n = "ni_games (mp_identity p)"
  let ?row = "mp_rows_offset p + i * NAVPACK_ROW_BYTES" and ?cold = "mp_cold_offset p + i * NAVPACK_COLD_BYTES"
  have "Suc i * NAVPACK_ROW_BYTES \<le> ?n * NAVPACK_ROW_BYTES" "Suc i * NAVPACK_COLD_BYTES \<le> ?n * NAVPACK_COLD_BYTES"
    using assms(2) by (intro mult_le_mono1; simp)+
  then have room: "?row + 48 \<le> length ?b" "?cold + 32 \<le> length ?b"
    using assms(3) by (simp_all add: pack_in_file_def NAVPACK_ROW_BYTES_def NAVPACK_COLD_BYTES_def)
  note row = check_row_ok [OF assms(4)]
  obtain flags launch where words: "read_u32 ?b (?row + 40) = nav_ok flags" "read_u32 ?b (?row + 36) = nav_ok launch"
    "launch = NONE_U32 \<or> unat launch < ni_launches (mp_identity p)"
    using row(3) room(1) by (auto simp: read_ok)
  obtain t1 t2 t3 t4 where texts: "text_at ?b strings ?row = nav_ok t1" "text_at ?b strings (?row + 8) = nav_ok t2"
    "text_at ?b strings (?row + 16) = nav_ok t3" "text_at ?b strings (?row + 24) = nav_ok t4"
    using row(1) by auto
  then show "\<exists>row. navpack_row_at p i = nav_ok row \<and> (\<forall>l. nr_launch_index row = Some l \<longrightarrow> l < ni_launches (mp_identity p))"
    using assms(1,2) words by (auto simp: navpack_row_at_def Let_def text_at_def [symmetric])
  obtain m1 m2 m3 where texts: "text_at ?b strings (?cold + 4) = nav_ok m1" "text_at ?b strings (?cold + 12) = nav_ok m2"
    "text_at ?b strings (?cold + 20) = nav_ok m3"
    using row(2) by auto
  obtain year where "read_u16 ?b ?cold = nav_ok year"
    using room(2) by (auto simp: read_ok)
  then show "\<exists>m. navpack_metadata_at p i = nav_ok m"
    using assms(1,2) texts room(2) by (auto simp: navpack_metadata_at_def Let_def text_at_def [symmetric] nav_byte_def)
qed

lemma validated_launch:
  assumes "navpack_strings p = nav_ok strings" "l < ni_launches (mp_identity p)" "pack_in_file p"
    and "check_strings (mp_mapping p) strings (mp_launch_offset p + l * NAVPACK_LAUNCH_BYTES) [0, 8, 16, 24, 32, 40] = nav_ok ()"
  shows "\<exists>plan. navpack_launch_at p l = nav_ok plan"
proof -
  let ?b = "mp_mapping p" and ?at = "mp_launch_offset p + l * NAVPACK_LAUNCH_BYTES"
  have "Suc l * NAVPACK_LAUNCH_BYTES \<le> ni_launches (mp_identity p) * NAVPACK_LAUNCH_BYTES"
    using assms(2) by (intro mult_le_mono1) simp
  then have room: "?at + 64 \<le> length ?b"
    using assms(3) by (simp add: pack_in_file_def NAVPACK_LAUNCH_BYTES_def)
  have "\<forall>offset \<in> {0, 8, 16, 24, 32, 40}. \<exists>t. text_at ?b strings (?at + offset) = nav_ok t"
    using assms(4) by (simp add: check_strings_ok)
  then obtain t1 t2 t3 t4 t5 t6 where "text_at ?b strings ?at = nav_ok t1" "text_at ?b strings (?at + 8) = nav_ok t2"
    "text_at ?b strings (?at + 16) = nav_ok t3" "text_at ?b strings (?at + 24) = nav_ok t4"
    "text_at ?b strings (?at + 32) = nav_ok t5" "text_at ?b strings (?at + 40) = nav_ok t6"
    by auto
  then show ?thesis
    using assms(1,2) room by (auto simp: navpack_launch_at_def Let_def text_at_def [symmetric] nav_byte_def)
qed

section \<open>Properties\<close>


text \<open>
  C18: A validated pack answers every query. When the full validation accepts a file, opening it with the
  same expectations succeeds with the same identity (a file of \<open>2 ^ 64\<close> bytes or more aside), and then every row, every metadata record and every
  launch plan can be read, each row's launch index names an existing plan, and the entry prelude names at
  most ten rows, all of them existing.
\<close>

theorem validated_packs_are_readable:
  assumes "nav_validate bytes system_id generation games = Some (Inr ident)"
  shows "\<exists>p prelude. navpack_open (Some bytes) (of_nat (length bytes)) system_id generation games =
        (if length bytes < 2 ^ 64 then Some (Inr p) else Some (Inl SizeMismatch)) \<and>
      mp_identity p = ident \<and> ni_games ident = games \<and>
      (\<forall>i < games. (\<exists>row. navpack_row_at p i = Some (Inr row) \<and> (\<forall>l. nr_launch_index row = Some l \<longrightarrow> l < ni_launches ident)) \<and>
         (\<exists>m. navpack_metadata_at p i = Some (Inr m))) \<and>
      (\<forall>l < ni_launches ident. \<exists>plan. navpack_launch_at p l = Some (Inr plan)) \<and>
      navpack_entry_prelude p = Some (Inr prelude) \<and> length (ep_viewport prelude) \<le> 10 \<and>
      (\<forall>i \<in> set (ep_viewport prelude). i < games) \<and> (\<forall>s. ep_selected prelude = Some s \<longrightarrow> np_ordinal s < games)"
proof -
  from assms obtain p strings prelude where
    header: "validate_header bytes system_id generation games = nav_ok p" and ident: "mp_identity p = ident" "ni_games ident = games"
    and strings: "navpack_strings p = nav_ok strings" and prelude: "navpack_entry_prelude p = nav_ok prelude"
    and rows: "\<And>i. i < games \<Longrightarrow> check_row bytes strings (mp_rows_offset p) (mp_cold_offset p) (ni_launches ident) i = nav_ok ()"
    and plans: "\<And>l. l < ni_launches ident \<Longrightarrow>
      check_strings bytes strings (mp_launch_offset p + l * NAVPACK_LAUNCH_BYTES) [0, 8, 16, 24, 32, 40] = nav_ok ()"
    and "\<And>s. ep_selected prelude = Some s \<Longrightarrow> check_selected bytes strings (mp_rows_offset p) s = nav_ok ()"
    and "validate_indexes (slice (mp_index_offset p) (mp_index_offset p + mp_index_bytes p) bytes) strings games = nav_ok ()"
    using nav_validate_facts [OF assms [folded nav_ok_def]] by metis
  note in_file = validate_header_in_file [OF header]
  have row: "(\<exists>row. navpack_row_at p i = nav_ok row \<and> (\<forall>l. nr_launch_index row = Some l \<longrightarrow> l < ni_launches ident)) \<and>
      (\<exists>m. navpack_metadata_at p i = nav_ok m)" if "i < games" for i
    using validated_row [OF strings _ in_file(1), of i] rows [OF that] that ident in_file(2) by simp
  have launch: "\<exists>plan. navpack_launch_at p l = nav_ok plan" if "l < ni_launches ident" for l
    using validated_launch [OF strings _ in_file(1), of l] plans [OF that] that ident in_file(2) by simp
  obtain b where "parse_entry_prelude b games = nav_ok prelude"
    using prelude ident by (auto simp: navpack_entry_prelude_def nav_then_ok)
  note viewport = parse_prelude_viewport [OF this]
  have "navpack_open (Some bytes) (of_nat (length bytes)) system_id generation games =
      (if length bytes < 2 ^ 64 then nav_ok p else nav_fail SizeMismatch)"
  proof (cases "length bytes < 2 ^ 64")
    case True
    then have "unat (of_nat (length bytes) :: u64) = length bytes"
      by (intro unat_of_nat_small) simp
    then show ?thesis
      using True header by (simp add: navpack_open_def)
  next
    case False
    then have "length bytes \<noteq> unat (of_nat (length bytes) :: u64)"
      using unsigned_less [of "of_nat (length bytes) :: u64", where 'a = nat] by simp
    then show ?thesis
      using False by (simp add: navpack_open_def nav_require_def)
  qed
  then show ?thesis
    using ident row launch prelude viewport unfolding nav_ok_def nav_fail_def NAVPACK_ENTRY_VIEWPORT_ROWS_def
    by (intro exI [of _ p] exI [of _ prelude]) auto
qed

end
