(* ===== verification/Nav_Table.thy ===== *)
theory Nav_Table
  imports Nav_Read
begin

text \<open>The tables of the navigation pack encoder: interned strings, rows, metadata, plans and the index section.\<close>

section \<open>The string table\<close>

definition text_ok :: "rtext \<Rightarrow> bool" where
  "text_ok v \<longleftrightarrow> list_all is_scalar v"

definition table_ok :: "string_table \<Rightarrow> bool" where
  "table_ok st \<longleftrightarrow> (\<forall>v r. st_refs st v = Some r \<longrightarrow> text_ok v \<and>
     unat (fst r) + unat (snd r) \<le> length (st_bytes st) \<and>
     slice (unat (fst r)) (unat (fst r) + unat (snd r)) (st_bytes st) = into_bytes v)"

lemma table_okD:
  assumes "table_ok st" "st_refs st v = Some r"
  shows "text_ok v" "unat (fst r) + unat (snd r) \<le> length (st_bytes st)"
    "slice (unat (fst r)) (unat (fst r) + unat (snd r)) (st_bytes st) = into_bytes v"
  using assms unfolding table_ok_def by blast+

text \<open>A later table keeps the bytes and references of an earlier one.\<close>

definition grows :: "string_table \<Rightarrow> string_table \<Rightarrow> bool" where
  "grows st st' \<longleftrightarrow> st_refs st \<subseteq>\<^sub>m st_refs st' \<and> (\<exists>more. st_bytes st' = st_bytes st @ more)"

definition cost :: "rtext list \<Rightarrow> nat" where
  "cost vs = sum_list (map (\<lambda>v. length (into_bytes v)) vs)"

lemma cost_simps [simp]: "cost [] = 0" "cost (v # vs) = length (into_bytes v) + cost vs" "cost (vs @ ws) = cost vs + cost ws"
  by (simp_all add: cost_def)

lemma grows_refl [simp]: "grows st st"
  by (simp add: grows_def)

lemma grows_trans [trans]: "grows a b \<Longrightarrow> grows b c \<Longrightarrow> grows a c"
  by (auto simp: grows_def intro: map_le_trans)

lemma grows_ref: "grows st st' \<Longrightarrow> st_refs st v = Some r \<Longrightarrow> st_refs st' v = Some r"
  by (auto simp: grows_def map_le_def dom_def)

lemma table_ok_empty: "table_ok empty_table"
  by (simp add: table_ok_def empty_table_def)

lemma slice_append: "b \<le> length xs \<Longrightarrow> slice a b (xs @ ys) = slice a b xs"
  by (cases "a \<le> b") (simp_all add: slice_def)

lemma intern_ok:
  assumes "table_ok st" "text_ok v" "length (st_bytes st) + length (into_bytes v) \<le> USIZE_MAX"
  shows "\<exists>r st'. intern v st = nav_ok (r, st') \<and> table_ok st' \<and> grows st st' \<and> st_refs st' v = Some r \<and>
    length (st_bytes st') \<le> length (st_bytes st) + length (into_bytes v)"
proof (cases "st_refs st v")
  case None
  let ?r = "(of_nat (length (st_bytes st)) :: u32, of_nat (length (into_bytes v)) :: u32)"
  let ?st = "st\<lparr>st_bytes := st_bytes st @ into_bytes v, st_refs := (st_refs st)(v \<mapsto> ?r)\<rparr>"
  have small: "length (st_bytes st) < 2 ^ 32" "length (into_bytes v) < 2 ^ 32"
    using assms(3) by (simp_all add: USIZE_MAX_def)
  then have words: "unat (fst ?r) = length (st_bytes st)" "unat (snd ?r) = length (into_bytes v)"
    by (simp_all add: unat_of_nat_small)
  have "intern v st = nav_ok (?r, ?st)"
    using None small by (simp add: intern_def u32_of_usize_def)
  moreover have "table_ok ?st"
    unfolding table_ok_def
  proof (intro allI impI)
    fix w q
    assume q: "st_refs ?st w = Some q"
    show "text_ok w \<and> unat (fst q) + unat (snd q) \<le> length (st_bytes ?st) \<and>
      slice (unat (fst q)) (unat (fst q) + unat (snd q)) (st_bytes ?st) = into_bytes w"
    proof (cases "w = v")
      case True
      then have "q = ?r"
        using q by simp
      then show ?thesis
        using True assms(2) words by (simp add: slice_def)
    next
      case False
      then have "st_refs st w = Some q"
        using q by simp
      from table_okD [OF assms(1) this] show ?thesis
        by (simp add: slice_append trans_le_add1)
    qed
  qed
  moreover have "grows st ?st"
    using None by (auto simp: grows_def map_le_def)
  ultimately show ?thesis
    by auto
qed (use assms(1) in \<open>simp add: intern_def\<close>)

lemma read_interned:
  assumes "table_ok st" "st_refs st v = Some r" "length (st_bytes st) \<le> USIZE_MAX"
  shows "read_string (st_bytes st) r = nav_ok v"
proof -
  note r = table_okD [OF assms(1,2)]
  have "checked_add (unat (fst r)) (unat (snd r)) = Some (unat (fst r) + unat (snd r))"
    "index_slice (unat (fst r)) (unat (fst r) + unat (snd r)) (st_bytes st) = nav_ok (into_bytes v)"
    "\<not> length (st_bytes st) < unat (fst r) + unat (snd r)" "from_utf8 (into_bytes v) = Some v"
    using r assms(3) by (simp_all add: index_slice_simps from_utf8_into_bytes text_ok_def)
  then show ?thesis
    by (simp add: read_string_def checked_add_def)
qed

text \<open>The references of several texts in a table.\<close>

definition ref_of :: "string_table \<Rightarrow> rtext \<Rightarrow> u32 \<times> u32" where
  "ref_of st v = the (st_refs st v)"

definition refs_of :: "string_table \<Rightarrow> rtext list \<Rightarrow> u8 list" where
  "refs_of st vs = concat (map (\<lambda>v. put_ref (ref_of st v)) vs)"

definition holds :: "string_table \<Rightarrow> rtext list \<Rightarrow> bool" where
  "holds st vs \<longleftrightarrow> set vs \<subseteq> dom (st_refs st)"

lemma holds_simps [simp]:
  "holds st []" "holds st (v # vs) \<longleftrightarrow> v \<in> dom (st_refs st) \<and> holds st vs"
  "holds st (vs @ ws) \<longleftrightarrow> holds st vs \<and> holds st ws"
  by (auto simp: holds_def)

lemma refs_of_simps [simp]:
  "refs_of st [] = []" "refs_of st (v # vs) = put_ref (ref_of st v) @ refs_of st vs"
  by (simp_all add: refs_of_def)

lemma length_put_ref [simp]: "length (put_ref r) = 8"
  by (simp add: put_ref_def)

lemma length_refs_of [simp]: "length (refs_of st vs) = 8 * length vs"
  by (induction vs) simp_all

lemma grows_holds: "grows st st' \<Longrightarrow> holds st vs \<Longrightarrow> holds st' vs \<and> refs_of st' vs = refs_of st vs"
  by (induction vs) (auto simp: ref_of_def dest: grows_ref)

lemma put_texts_ok:
  assumes "table_ok st" "list_all text_ok vs" "length (st_bytes st) + cost vs \<le> USIZE_MAX"
  shows "\<exists>st'. put_texts vs st out = nav_ok (st', out @ refs_of st' vs) \<and> table_ok st' \<and> grows st st' \<and> holds st' vs \<and>
    length (st_bytes st') \<le> length (st_bytes st) + cost vs"
  using assms
proof (induction vs arbitrary: st out)
  case (Cons v vs)
  from intern_ok [of st v] Cons.prems obtain r st1 where
    st1: "intern v st = nav_ok (r, st1)" "table_ok st1" "grows st st1" "st_refs st1 v = Some r"
      "length (st_bytes st1) \<le> length (st_bytes st) + length (into_bytes v)"
    by auto
  from Cons.IH [of st1 "out @ put_ref r"] st1(2,5) Cons.prems obtain st2 where
    st2: "put_texts vs st1 (out @ put_ref r) = nav_ok (st2, (out @ put_ref r) @ refs_of st2 vs)" "table_ok st2"
      "grows st1 st2" "holds st2 vs" "length (st_bytes st2) \<le> length (st_bytes st1) + cost vs"
    by auto
  have "st_refs st2 v = Some r"
    using st1(4) st2(3) by (rule grows_ref [rotated])
  then show ?case
    using st1 st2 grows_trans [OF st1(3) st2(3)] by (auto simp: ref_of_def)
qed simp

section \<open>Rows, metadata and plans\<close>

definition row_bytes :: "string_table \<Rightarrow> nat \<Rightarrow> u32 \<Rightarrow> system_game \<Rightarrow> u8 list" where
  "row_bytes st ordinal launch game =
     refs_of st [sg_title game, sg_launch_ref game, sg_preview_archive_path game, sg_preview_asset_key game] @
     le32 (of_nat ordinal) @ le32 launch @ le32 (game_flags game) @ le32 0"

definition cold_bytes :: "string_table \<Rightarrow> system_game \<Rightarrow> u8 list" where
  "cold_bytes st game =
     le16 (case sg_year game of None \<Rightarrow> 0xFFFF | Some y \<Rightarrow> y) @ [case sg_players game of None \<Rightarrow> 0xFF | Some n \<Rightarrow> n, 0] @
     refs_of st [sg_manufacturer game, sg_category game, sg_control game] @ le32 0"

definition plan_bytes :: "string_table \<Rightarrow> launch_plan \<Rightarrow> u8 list" where
  "plan_bytes st plan = refs_of st (plan_texts plan) @ [pl_mount_index plan, pl_delay_secs plan] @ replicate 14 0"

definition plans :: "system_game list \<Rightarrow> launch_plan list" where
  "plans games = List.map_filter sg_launch_plan games"

text \<open>The launch index of each game: the number of plans before it.\<close>

fun launch_words :: "u32 \<Rightarrow> system_game list \<Rightarrow> u32 list" where
  "launch_words n [] = []"
| "launch_words n (game # games) =
     (case sg_launch_plan game of None \<Rightarrow> NONE_U32 # launch_words n games | Some _ \<Rightarrow> n # launch_words (n + 1) games)"

fun row_chunks :: "string_table \<Rightarrow> nat \<Rightarrow> u32 list \<Rightarrow> system_game list \<Rightarrow> u8 list list" where
  "row_chunks st ordinal (launch # launches) (game # games) =
     row_bytes st ordinal launch game # row_chunks st (Suc ordinal) launches games"
| "row_chunks st ordinal _ _ = []"

definition plan_list :: "system_game \<Rightarrow> launch_plan list" where
  "plan_list game = (case sg_launch_plan game of None \<Rightarrow> [] | Some plan \<Rightarrow> [plan])"

definition game_texts :: "system_game \<Rightarrow> rtext list" where
  "game_texts game =
     [sg_title game, sg_launch_ref game, sg_preview_archive_path game, sg_preview_asset_key game,
      sg_manufacturer game, sg_category game, sg_control game] @ concat (map plan_texts (plan_list game))"

lemma record_lengths [simp]:
  "length (row_bytes st ordinal launch game) = 48" "length (cold_bytes st game) = 32" "length (plan_bytes st plan) = 64"
  by (simp_all add: row_bytes_def cold_bytes_def plan_bytes_def plan_texts_def)

lemma length_launch_words [simp]: "length (launch_words n games) = length games"
  by (induction games arbitrary: n) (simp_all split: option.split)

lemma length_row_chunks [simp]: "length launches = length games \<Longrightarrow> length (row_chunks st ordinal launches games) = length games"
  by (induction st ordinal launches games rule: row_chunks.induct) simp_all

lemma nth_row_chunks:
  "length launches = length games \<Longrightarrow> i < length games \<Longrightarrow>
   row_chunks st ordinal launches games ! i = row_bytes st (ordinal + i) (launches ! i) (games ! i)"
  by (induction st ordinal launches games arbitrary: i rule: row_chunks.induct) (auto simp: nth_Cons' not_less_eq)

lemma plans_Cons [simp]: "plans [] = []" "plans (game # games) = plan_list game @ plans games"
  by (simp_all add: plans_def plan_list_def map_filter_simps split: option.split)

lemma grows_row:
  assumes "grows st st'" "holds st (game_texts game)"
  shows "row_bytes st' ordinal launch game = row_bytes st ordinal launch game" "cold_bytes st' game = cold_bytes st game"
    "map (plan_bytes st') (plan_list game) = map (plan_bytes st) (plan_list game)"
  using assms grows_holds [OF assms(1), of "[sg_title game, sg_launch_ref game, sg_preview_archive_path game, sg_preview_asset_key game]"]
    grows_holds [OF assms(1), of "[sg_manufacturer game, sg_category game, sg_control game]"]
    grows_holds [OF assms(1)]
  by (auto simp: row_bytes_def cold_bytes_def plan_bytes_def game_texts_def plan_list_def split: option.splits)

lemma encode_game_ok:
  assumes st: "table_ok (pt_strings s)" and texts: "list_all text_ok (game_texts game)"
    and room: "length (st_bytes (pt_strings s)) + cost (game_texts game) \<le> USIZE_MAX"
    and counts: "ordinal < 2 ^ 32" "unat (pt_next_launch s) + 1 < 2 ^ 32"
  shows "\<exists>st. encode_game ordinal game s = nav_ok \<lparr>pt_strings = st,
      pt_rows = pt_rows s @ row_bytes st ordinal (if sg_launch_plan game = None then NONE_U32 else pt_next_launch s) game,
      pt_cold = pt_cold s @ cold_bytes st game,
      pt_launches = pt_launches s @ concat (map (plan_bytes st) (plan_list game)),
      pt_next_launch = (if sg_launch_plan game = None then pt_next_launch s else pt_next_launch s + 1)\<rparr> \<and>
    table_ok st \<and> grows (pt_strings s) st \<and> holds st (game_texts game) \<and>
    length (st_bytes st) \<le> length (st_bytes (pt_strings s)) + cost (game_texts game)"
proof -
  let ?row = "[sg_title game, sg_launch_ref game, sg_preview_archive_path game, sg_preview_asset_key game]"
  let ?cold = "[sg_manufacturer game, sg_category game, sg_control game]"
  let ?plan = "concat (map plan_texts (plan_list game))"
  have texts': "list_all text_ok ?row" "list_all text_ok ?cold" "list_all text_ok ?plan"
    using texts by (simp_all add: game_texts_def)
  have total_cost: "cost (game_texts game) = cost ?row + cost ?cold + cost ?plan"
    by (simp add: game_texts_def)
  have "length (st_bytes (pt_strings s)) + cost ?row \<le> USIZE_MAX"
    using room total_cost by simp
  from put_texts_ok [OF st texts'(1) this, of "pt_rows s"] obtain st1 where
    st1: "put_texts ?row (pt_strings s) (pt_rows s) = nav_ok (st1, pt_rows s @ refs_of st1 ?row)" "table_ok st1"
      "grows (pt_strings s) st1" "holds st1 ?row" "length (st_bytes st1) \<le> length (st_bytes (pt_strings s)) + cost ?row"
    by blast
  let ?cold_head = "pt_cold s @ le16 (case sg_year game of None \<Rightarrow> 0xFFFF | Some y \<Rightarrow> y) @
             [case sg_players game of None \<Rightarrow> 0xFF | Some n \<Rightarrow> n, 0]"
  have "length (st_bytes st1) + cost ?cold \<le> USIZE_MAX"
    using st1(5) room total_cost by simp
  from put_texts_ok [OF st1(2) texts'(2) this, of ?cold_head] obtain st2 where
    st2: "put_texts ?cold st1 ?cold_head = nav_ok (st2, ?cold_head @ refs_of st2 ?cold)" "table_ok st2"
      "grows st1 st2" "holds st2 ?cold" "length (st_bytes st2) \<le> length (st_bytes st1) + cost ?cold"
    by blast
  have "length (st_bytes st2) + cost ?plan \<le> USIZE_MAX"
    using st1(5) st2(5) room total_cost by simp
  from put_texts_ok [OF st2(2) texts'(3) this, of "pt_launches s"] obtain st3 where
    st3: "put_texts ?plan st2 (pt_launches s) = nav_ok (st3, pt_launches s @ refs_of st3 ?plan)" "table_ok st3"
      "grows st2 st3" "holds st3 ?plan" "length (st_bytes st3) \<le> length (st_bytes st2) + cost ?plan"
    by blast
  have grown: "grows st1 st3" "grows (pt_strings s) st3"
    using st1(3) st2(3) st3(3) by (blast intro: grows_trans)+
  have held: "holds st3 ?row" "refs_of st3 ?row = refs_of st1 ?row" "holds st3 ?cold" "refs_of st3 ?cold = refs_of st2 ?cold"
    using grows_holds [OF grown(1) st1(4)] grows_holds [OF st3(3) st2(4)] by blast+
  have tables: "table_ok st3" "grows (pt_strings s) st3" "holds st3 (game_texts game)"
    "length (st_bytes st3) \<le> length (st_bytes (pt_strings s)) + cost (game_texts game)"
    using st3(2,4,5) st1(5) st2(5) grown(2) held(1,3) total_cost unfolding game_texts_def by simp_all
  have "encode_game ordinal game s = nav_ok \<lparr>pt_strings = st3,
      pt_rows = pt_rows s @ row_bytes st3 ordinal (if sg_launch_plan game = None then NONE_U32 else pt_next_launch s) game,
      pt_cold = pt_cold s @ cold_bytes st3 game,
      pt_launches = pt_launches s @ concat (map (plan_bytes st3) (plan_list game)),
      pt_next_launch = (if sg_launch_plan game = None then pt_next_launch s else pt_next_launch s + 1)\<rparr>"
  proof (cases "sg_launch_plan game")
    case None
    then have "st3 = st2"
      using st3(1) by (simp add: plan_list_def)
    then show ?thesis
      using None st1(1) st2(1) held counts
      by (simp add: encode_game_def u32_of_usize_def Let_def row_bytes_def cold_bytes_def plan_list_def)
  next
    case (Some plan)
    then show ?thesis
      using st1(1) st2(1) st3(1) held counts
      by (simp add: encode_game_def u32_of_usize_def Let_def row_bytes_def cold_bytes_def plan_list_def plan_bytes_def
          NAVPACK_LAUNCH_BYTES_def)
  qed
  then show ?thesis
    using tables by blast
qed


lemma encode_games_ok:
  assumes "table_ok (pt_strings s)" "list_all text_ok (concat (map game_texts games))"
    and "length (st_bytes (pt_strings s)) + cost (concat (map game_texts games)) \<le> USIZE_MAX"
    and "ordinal + length games \<le> 2 ^ 32" "unat (pt_next_launch s) + length (plans games) + 1 < 2 ^ 32"
  shows "\<exists>s'. encode_games ordinal games s = nav_ok s' \<and> table_ok (pt_strings s') \<and> grows (pt_strings s) (pt_strings s') \<and>
    holds (pt_strings s') (concat (map game_texts games)) \<and>
    length (st_bytes (pt_strings s')) \<le> length (st_bytes (pt_strings s)) + cost (concat (map game_texts games)) \<and>
    pt_rows s' = pt_rows s @ concat (row_chunks (pt_strings s') ordinal (launch_words (pt_next_launch s) games) games) \<and>
    pt_cold s' = pt_cold s @ concat (map (cold_bytes (pt_strings s')) games) \<and>
    pt_launches s' = pt_launches s @ concat (map (plan_bytes (pt_strings s')) (plans games))"
  using assms
proof (induction games arbitrary: ordinal s)
  case (Cons game games)
  let ?rest = "concat (map game_texts games)"
  let ?launch = "if sg_launch_plan game = None then NONE_U32 else pt_next_launch s"
  let ?next = "if sg_launch_plan game = None then pt_next_launch s else pt_next_launch s + 1"
  have next_room: "unat ?next + length (plans games) + 1 < 2 ^ 32"
    using Cons.prems(5) by (auto simp: plan_list_def unat_word_ariths split: option.splits)
  have "\<exists>st. encode_game ordinal game s = nav_ok \<lparr>pt_strings = st,
      pt_rows = pt_rows s @ row_bytes st ordinal ?launch game, pt_cold = pt_cold s @ cold_bytes st game,
      pt_launches = pt_launches s @ concat (map (plan_bytes st) (plan_list game)), pt_next_launch = ?next\<rparr> \<and>
    table_ok st \<and> grows (pt_strings s) st \<and> holds st (game_texts game) \<and>
    length (st_bytes st) \<le> length (st_bytes (pt_strings s)) + cost (game_texts game)"
    using Cons.prems by (intro encode_game_ok) (auto simp: plan_list_def split: option.splits)
  then obtain st where st: "encode_game ordinal game s = nav_ok \<lparr>pt_strings = st,
      pt_rows = pt_rows s @ row_bytes st ordinal ?launch game, pt_cold = pt_cold s @ cold_bytes st game,
      pt_launches = pt_launches s @ concat (map (plan_bytes st) (plan_list game)), pt_next_launch = ?next\<rparr>"
    "table_ok st" "grows (pt_strings s) st" "holds st (game_texts game)"
    "length (st_bytes st) \<le> length (st_bytes (pt_strings s)) + cost (game_texts game)"
    by blast
  let ?s = "\<lparr>pt_strings = st,
      pt_rows = pt_rows s @ row_bytes st ordinal ?launch game, pt_cold = pt_cold s @ cold_bytes st game,
      pt_launches = pt_launches s @ concat (map (plan_bytes st) (plan_list game)), pt_next_launch = ?next\<rparr>"
  have "table_ok (pt_strings ?s)" "list_all text_ok ?rest" "length (st_bytes (pt_strings ?s)) + cost ?rest \<le> USIZE_MAX"
    "Suc ordinal + length games \<le> 2 ^ 32" "unat (pt_next_launch ?s) + length (plans games) + 1 < 2 ^ 32"
    using st(2,5) Cons.prems next_room by simp_all
  from Cons.IH [OF this] obtain s' where s': "encode_games (Suc ordinal) games ?s = nav_ok s'" "table_ok (pt_strings s')"
    "grows st (pt_strings s')" "holds (pt_strings s') ?rest"
    "length (st_bytes (pt_strings s')) \<le> length (st_bytes st) + cost ?rest"
    "pt_rows s' = pt_rows ?s @ concat (row_chunks (pt_strings s') (Suc ordinal) (launch_words ?next games) games)"
    "pt_cold s' = pt_cold ?s @ concat (map (cold_bytes (pt_strings s')) games)"
    "pt_launches s' = pt_launches ?s @ concat (map (plan_bytes (pt_strings s')) (plans games))"
    by auto
  note same = grows_row [OF s'(3) st(4)]
  have "grows (pt_strings s) (pt_strings s')" "holds (pt_strings s') (game_texts game)"
    using grows_trans [OF st(3) s'(3)] grows_holds [OF s'(3) st(4)] by blast+
  moreover have "encode_games ordinal (game # games) s = nav_ok s'"
    using st(1) s'(1) by simp
  moreover have "pt_rows s' = pt_rows s @
      concat (row_chunks (pt_strings s') ordinal (launch_words (pt_next_launch s) (game # games)) (game # games))"
    using s'(6) same(1) by (simp split: option.split)
  moreover have "pt_cold s' = pt_cold s @ concat (map (cold_bytes (pt_strings s')) (game # games))"
    "pt_launches s' = pt_launches s @ concat (map (plan_bytes (pt_strings s')) (plans (game # games)))"
    using s'(7,8) same(2,3) by (simp_all del: map_eq_conv)
  ultimately show ?case
    using s'(2,4,5) st(5) by (intro exI [of _ s']) simp
qed simp

section \<open>The index section\<close>

definition ordinal_bytes :: "u32 list \<Rightarrow> u8 list" where
  "ordinal_bytes os = le32 (of_nat (length os)) @ concat (map le32 os)"

definition string_group_bytes :: "string_table \<Rightarrow> (rtext \<times> u32 list) list \<Rightarrow> u8 list" where
  "string_group_bytes st groups = concat (map (\<lambda>(v, os). put_ref (ref_of st v) @ ordinal_bytes os) groups)"

definition string_posting_bytes :: "string_table \<Rightarrow> (rtext \<times> u32 list) list \<Rightarrow> u8 list" where
  "string_posting_bytes st groups = le32 (of_nat (length groups)) @ string_group_bytes st groups"

definition numeric_group_bytes :: "('k \<Rightarrow> u8 list) \<Rightarrow> ('k \<times> u32 list) list \<Rightarrow> u8 list" where
  "numeric_group_bytes key_bytes groups = concat (map (\<lambda>(v, os). key_bytes v @ ordinal_bytes os) groups)"

definition numeric_posting_bytes :: "('k \<Rightarrow> u8 list) \<Rightarrow> ('k \<times> u32 list) list \<Rightarrow> u8 list" where
  "numeric_posting_bytes key_bytes groups = le32 (of_nat (length groups)) @ numeric_group_bytes key_bytes groups"

abbreviation decade_bytes :: "u16 \<Rightarrow> u8 list" where "decade_bytes v \<equiv> le16 v @ le16 0"
abbreviation player_bytes :: "u8 \<Rightarrow> u8 list" where "player_bytes v \<equiv> v # replicate 3 0"

definition index_bytes :: "string_table \<Rightarrow> navigation_indexes \<Rightarrow> u8 list" where
  "index_bytes st x = ordinal_bytes (nx_title_ordinals x) @ ordinal_bytes (nx_preview_ordinals x) @
     ordinal_bytes (nx_launch_ordinals x) @ string_posting_bytes st (nx_categories x) @
     numeric_posting_bytes decade_bytes (nx_decades x) @ string_posting_bytes st (nx_manufacturers x) @
     numeric_posting_bytes player_bytes (nx_players x) @ string_posting_bytes st (nx_controls x)"

text \<open>The size of the index section, which does not depend on the strings.\<close>

definition groups_size :: "('k \<times> u32 list) list \<Rightarrow> nat" where
  "groups_size groups = sum_list (map (\<lambda>(_, os). 8 + 4 * length os) groups)"

definition index_size :: "navigation_indexes \<Rightarrow> nat" where
  "index_size x = 12 + 4 * (length (nx_title_ordinals x) + length (nx_preview_ordinals x) + length (nx_launch_ordinals x)) +
     (20 + groups_size (nx_decades x) + groups_size (nx_players x)) +
     (groups_size (nx_categories x) + 4 * length (nx_categories x)) +
     (groups_size (nx_manufacturers x) + 4 * length (nx_manufacturers x)) +
     (groups_size (nx_controls x) + 4 * length (nx_controls x))"

lemma groups_size_simps [simp]:
  "groups_size [] = 0" "groups_size ((v, os) # groups) = 8 + 4 * length os + groups_size groups"
  by (simp_all add: groups_size_def)

lemma length_ordinal_bytes [simp]: "length (ordinal_bytes os) = 4 + 4 * length os"
  by (induction os) (simp_all add: ordinal_bytes_def)

lemma length_string_postings [simp]:
  "length (string_posting_bytes st groups) = 4 + groups_size groups + 4 * length groups"
  by (induction groups) (auto simp: string_posting_bytes_def string_group_bytes_def)

lemma length_numeric_postings [simp]:
  "(\<And>v. length (key_bytes v) = 4) \<Longrightarrow> length (numeric_posting_bytes key_bytes groups) = 4 + groups_size groups"
  by (induction groups) (auto simp: numeric_posting_bytes_def numeric_group_bytes_def)

lemma length_index_bytes: "length (index_bytes st x) = index_size x"
  by (simp add: index_bytes_def index_size_def)

lemma groups_size_bound: "8 * length groups \<le> groups_size groups" "(v, os) \<in> set groups \<Longrightarrow> length os \<le> groups_size groups"
  by (induction groups) auto

lemma u32_fits: "n \<le> USIZE_MAX \<Longrightarrow> u32_of_usize n = Some (of_nat n)"
  by (simp add: u32_of_usize_def USIZE_MAX_def)

lemma unat_u32_of_nat: "n \<le> USIZE_MAX \<Longrightarrow> unat (of_nat n :: u32) = n"
  by (simp add: USIZE_MAX_def unat_of_nat_small)

lemma encode_ordinals_ok: "length os \<le> USIZE_MAX \<Longrightarrow> encode_ordinals os out = nav_ok (out @ ordinal_bytes os)"
  by (simp add: encode_ordinals_def u32_fits ordinal_bytes_def)

lemma grows_groups:
  "grows st st' \<Longrightarrow> holds st (map fst groups) \<Longrightarrow> string_posting_bytes st' groups = string_posting_bytes st groups"
proof (induction groups)
  case (Cons g groups)
  then have "ref_of st' (fst g) = ref_of st (fst g)"
    by (auto simp: ref_of_def dest: grows_ref)
  then show ?case
    using Cons by (auto simp: string_posting_bytes_def string_group_bytes_def split: prod.splits)
qed (simp add: string_posting_bytes_def string_group_bytes_def)

lemma string_groups_ok:
  assumes "table_ok st" "list_all text_ok (map fst groups)" "length (st_bytes st) + cost (map fst groups) \<le> USIZE_MAX"
    and "groups_size groups \<le> USIZE_MAX"
  shows "\<exists>st'. string_groups groups st out = nav_ok (st', out @ string_group_bytes st' groups) \<and> table_ok st' \<and> grows st st' \<and>
    holds st' (map fst groups) \<and> length (st_bytes st') \<le> length (st_bytes st) + cost (map fst groups)"
  using assms
proof (induction groups arbitrary: st out)
  case (Cons g groups)
  obtain v os where g: "g = (v, os)"
    by (cases g)
  from intern_ok [of st v] Cons.prems obtain r st1 where
    st1: "intern v st = nav_ok (r, st1)" "table_ok st1" "grows st st1" "st_refs st1 v = Some r"
      "length (st_bytes st1) \<le> length (st_bytes st) + length (into_bytes v)"
    by (auto simp: g)
  have os: "encode_ordinals os (out @ put_ref r) = nav_ok ((out @ put_ref r) @ ordinal_bytes os)"
    using Cons.prems(4) by (intro encode_ordinals_ok) (simp add: g)
  from Cons.IH [of st1 "(out @ put_ref r) @ ordinal_bytes os"] st1(2,5) Cons.prems obtain st2 where
    st2: "string_groups groups st1 ((out @ put_ref r) @ ordinal_bytes os) =
        nav_ok (st2, ((out @ put_ref r) @ ordinal_bytes os) @ string_group_bytes st2 groups)" "table_ok st2"
      "grows st1 st2" "holds st2 (map fst groups)" "length (st_bytes st2) \<le> length (st_bytes st1) + cost (map fst groups)"
    by (auto simp: g)
  have "st_refs st2 v = Some r"
    using st1(4) st2(3) by (rule grows_ref [rotated])
  then show ?case
    using st1 st2 os grows_trans [OF st1(3) st2(3)] by (auto simp: ref_of_def g string_group_bytes_def)
qed (simp add: string_group_bytes_def)

lemma encode_string_postings_ok:
  assumes "table_ok st" "list_all text_ok (map fst groups)" "length (st_bytes st) + cost (map fst groups) \<le> USIZE_MAX"
    and "groups_size groups \<le> USIZE_MAX"
  shows "\<exists>st'. encode_string_postings groups st out = nav_ok (st', out @ string_posting_bytes st' groups) \<and> table_ok st' \<and>
    grows st st' \<and> holds st' (map fst groups) \<and> length (st_bytes st') \<le> length (st_bytes st) + cost (map fst groups)"
  using string_groups_ok [OF assms, of "out @ le32 (of_nat (length groups))"] groups_size_bound(1) [of groups] assms(4)
  by (auto simp: encode_string_postings_def string_posting_bytes_def u32_fits)

lemma numeric_groups_ok:
  "groups_size groups \<le> USIZE_MAX \<Longrightarrow> numeric_groups key_bytes groups out = nav_ok (out @ numeric_group_bytes key_bytes groups)"
  by (induction groups arbitrary: out) (auto simp: numeric_group_bytes_def encode_ordinals_ok)

lemma encode_numeric_ok:
  assumes "groups_size decades \<le> USIZE_MAX" "groups_size players \<le> USIZE_MAX"
  shows "encode_u16_postings decades out = nav_ok (out @ numeric_posting_bytes decade_bytes decades)"
    "encode_u8_postings players out = nav_ok (out @ numeric_posting_bytes player_bytes players)"
  using groups_size_bound(1) [of decades] groups_size_bound(1) [of players] assms
  by (simp_all add: encode_u16_postings_def encode_u8_postings_def numeric_groups_ok numeric_posting_bytes_def u32_fits)

definition index_texts :: "navigation_indexes \<Rightarrow> rtext list" where
  "index_texts x = map fst (nx_categories x) @ map fst (nx_manufacturers x) @ map fst (nx_controls x)"

lemma encode_indexes_ok:
  assumes "table_ok st" "list_all text_ok (index_texts x)" "length (st_bytes st) + cost (index_texts x) \<le> USIZE_MAX"
    and "index_size x \<le> USIZE_MAX"
  shows "\<exists>st'. encode_indexes x st = nav_ok (st', index_bytes st' x) \<and> table_ok st' \<and> grows st st' \<and>
    holds st' (index_texts x) \<and> length (st_bytes st') \<le> length (st_bytes st) + cost (index_texts x)"
proof -
  have sizes: "length (nx_title_ordinals x) \<le> USIZE_MAX" "length (nx_preview_ordinals x) \<le> USIZE_MAX"
    "length (nx_launch_ordinals x) \<le> USIZE_MAX" "groups_size (nx_categories x) \<le> USIZE_MAX"
    "groups_size (nx_decades x) \<le> USIZE_MAX" "groups_size (nx_manufacturers x) \<le> USIZE_MAX"
    "groups_size (nx_players x) \<le> USIZE_MAX" "groups_size (nx_controls x) \<le> USIZE_MAX"
    using assms(4) by (simp_all add: index_size_def)
  have parts: "list_all text_ok (map fst (nx_categories x))" "list_all text_ok (map fst (nx_manufacturers x))"
    "list_all text_ok (map fst (nx_controls x))"
    "cost (index_texts x) = cost (map fst (nx_categories x)) + cost (map fst (nx_manufacturers x)) + cost (map fst (nx_controls x))"
    using assms(2) by (simp_all add: index_texts_def)
  let ?o1 = "ordinal_bytes (nx_title_ordinals x) @ ordinal_bytes (nx_preview_ordinals x) @ ordinal_bytes (nx_launch_ordinals x)"
  have "length (st_bytes st) + cost (map fst (nx_categories x)) \<le> USIZE_MAX"
    using assms(3) parts(4) by simp
  from encode_string_postings_ok [OF assms(1) parts(1) this sizes(4), of ?o1] obtain s1 where
    s1: "encode_string_postings (nx_categories x) st ?o1 = nav_ok (s1, ?o1 @ string_posting_bytes s1 (nx_categories x))"
      "table_ok s1" "grows st s1" "holds s1 (map fst (nx_categories x))"
      "length (st_bytes s1) \<le> length (st_bytes st) + cost (map fst (nx_categories x))"
    by blast
  let ?o2 = "(?o1 @ string_posting_bytes s1 (nx_categories x)) @ numeric_posting_bytes decade_bytes (nx_decades x)"
  have "length (st_bytes s1) + cost (map fst (nx_manufacturers x)) \<le> USIZE_MAX"
    using assms(3) parts(4) s1(5) by simp
  from encode_string_postings_ok [OF s1(2) parts(2) this sizes(6), of ?o2] obtain s2 where
    s2: "encode_string_postings (nx_manufacturers x) s1 ?o2 = nav_ok (s2, ?o2 @ string_posting_bytes s2 (nx_manufacturers x))"
      "table_ok s2" "grows s1 s2" "holds s2 (map fst (nx_manufacturers x))"
      "length (st_bytes s2) \<le> length (st_bytes s1) + cost (map fst (nx_manufacturers x))"
    by blast
  let ?o3 = "(?o2 @ string_posting_bytes s2 (nx_manufacturers x)) @ numeric_posting_bytes player_bytes (nx_players x)"
  have "length (st_bytes s2) + cost (map fst (nx_controls x)) \<le> USIZE_MAX"
    using assms(3) parts(4) s1(5) s2(5) by simp
  from encode_string_postings_ok [OF s2(2) parts(3) this sizes(8), of ?o3] obtain s3 where
    s3: "encode_string_postings (nx_controls x) s2 ?o3 = nav_ok (s3, ?o3 @ string_posting_bytes s3 (nx_controls x))"
      "table_ok s3" "grows s2 s3" "holds s3 (map fst (nx_controls x))"
      "length (st_bytes s3) \<le> length (st_bytes s2) + cost (map fst (nx_controls x))"
    by blast
  have grown: "grows s1 s3" "grows st s3"
    using s1(3) s2(3) s3(3) by (blast intro: grows_trans)+
  have same: "string_posting_bytes s1 (nx_categories x) = string_posting_bytes s3 (nx_categories x)"
    "string_posting_bytes s2 (nx_manufacturers x) = string_posting_bytes s3 (nx_manufacturers x)"
    using grows_groups [OF grown(1) s1(4)] grows_groups [OF s3(3) s2(4)] by simp_all
  have "encode_indexes x st = nav_ok (s3, ?o3 @ string_posting_bytes s3 (nx_controls x))"
    using s1(1) s2(1) s3(1) sizes by (simp add: encode_indexes_def encode_ordinals_ok encode_numeric_ok)
  then have "encode_indexes x st = nav_ok (s3, index_bytes s3 x)"
    by (simp add: index_bytes_def same)
  moreover have "holds s3 (index_texts x)"
    using grows_holds [OF grown(1) s1(4)] grows_holds [OF s3(3) s2(4)] s3(4) by (simp add: index_texts_def)
  moreover have "length (st_bytes s3) \<le> length (st_bytes st) + cost (index_texts x)"
    using s1(5) s2(5) s3(5) parts(4) by simp
  ultimately show ?thesis
    using s3(2) grown(2) by blast
qed


section \<open>Reading the index section back\<close>

lemma take_u32_le32 [simp]: "take_u32 (le32 v @ rest) = nav_ok (v, rest)"
  by (simp add: take_u32_def nav_take_def)

lemma read_u32_le32 [simp]: "read_u32 (le32 v @ rest) 0 = nav_ok v"
  by (simp add: read_u32_def get_slice_def slice_def)

definition ordinals_in :: "nat \<Rightarrow> u32 list \<Rightarrow> bool" where
  "ordinals_in games os \<longleftrightarrow> length os \<le> USIZE_MAX \<and> list_all (\<lambda>j. unat j < games) os"

lemma take_ordinal_bytes:
  assumes "ordinals_in games os"
  shows "take_ordinals games (ordinal_bytes os @ rest) = nav_ok rest"
proof -
  have "list_all (\<lambda>j. unat j < games) os \<Longrightarrow>
      take_ordinals_loop games (length os) (concat (map le32 os) @ rest) = nav_ok rest"
    by (induction os) simp_all
  then show ?thesis
    using assms by (simp add: take_ordinals_def ordinal_bytes_def ordinals_in_def unat_u32_of_nat)
qed

lemma count_ordinal_bytes: "ordinals_in games os \<Longrightarrow> \<exists>word. read_u32 (ordinal_bytes os @ rest) 0 = nav_ok word \<and> unat word = length os"
  by (simp add: ordinal_bytes_def ordinals_in_def unat_u32_of_nat)

definition groups_in :: "nat \<Rightarrow> ('k \<times> u32 list) list \<Rightarrow> bool" where
  "groups_in games groups \<longleftrightarrow> length groups \<le> USIZE_MAX \<and> list_all (\<lambda>(_, os). ordinals_in games os) groups"

text \<open>The labels of string postings are strings of the final table.\<close>

definition readable :: "u8 list \<Rightarrow> string_table \<Rightarrow> rtext list \<Rightarrow> bool" where
  "readable strings st vs \<longleftrightarrow> list_all (\<lambda>v. read_string strings (ref_of st v) = nav_ok v) vs"

lemma readableD: "readable strings st vs \<Longrightarrow> v \<in> set vs \<Longrightarrow> read_string strings (ref_of st v) = nav_ok v"
  by (simp add: readable_def list_all_iff)

lemma readable_simps [simp]:
  "readable strings st []" "readable strings st (v # vs) \<longleftrightarrow> read_string strings (ref_of st v) = nav_ok v \<and> readable strings st vs"
  "readable strings st (vs @ ws) \<longleftrightarrow> readable strings st vs \<and> readable strings st ws"
  by (simp_all add: readable_def)

lemma table_readable:
  "table_ok st \<Longrightarrow> holds st vs \<Longrightarrow> length (st_bytes st) \<le> USIZE_MAX \<Longrightarrow> readable (st_bytes st) st vs"
  by (induction vs) (auto simp: ref_of_def intro: read_interned)

lemma take_string_posting_bytes:
  assumes "groups_in games groups" "readable strings st (map fst groups)"
  shows "take_string_postings strings games (string_posting_bytes st groups @ rest) = nav_ok rest"
proof -
  have "list_all (\<lambda>(_, os). ordinals_in games os) groups \<Longrightarrow> readable strings st (map fst groups) \<Longrightarrow>
      take_string_loop strings games (length groups) (string_group_bytes st groups @ rest) = nav_ok rest"
    by (induction groups) (auto simp: string_group_bytes_def put_ref_def take_ordinal_bytes)
  then show ?thesis
    using assms by (simp add: take_string_postings_def string_posting_bytes_def groups_in_def unat_u32_of_nat)
qed

lemma take_numeric_posting_bytes:
  assumes "groups_in games groups" "\<And>v. length (key_bytes v) = 4"
  shows "take_numeric_postings 4 games (numeric_posting_bytes key_bytes groups @ rest) = nav_ok rest"
proof -
  have "list_all (\<lambda>(_, os). ordinals_in games os) groups \<Longrightarrow>
      take_numeric_loop 4 games (length groups) (numeric_group_bytes key_bytes groups @ rest) = nav_ok rest"
    by (induction groups) (auto simp: numeric_group_bytes_def nav_take_def take_ordinal_bytes assms(2))
  then show ?thesis
    using assms by (simp add: take_numeric_postings_def numeric_posting_bytes_def groups_in_def unat_u32_of_nat)
qed

definition index_in :: "nat \<Rightarrow> navigation_indexes \<Rightarrow> bool" where
  "index_in games x \<longleftrightarrow> ordinals_in games (nx_title_ordinals x) \<and> ordinals_in games (nx_preview_ordinals x) \<and>
     ordinals_in games (nx_launch_ordinals x) \<and> groups_in games (nx_categories x) \<and> groups_in games (nx_decades x) \<and>
     groups_in games (nx_manufacturers x) \<and> groups_in games (nx_players x) \<and> groups_in games (nx_controls x)"

lemma validate_index_bytes:
  assumes "index_in games x" "readable strings st (index_texts x)"
  shows "validate_indexes (index_bytes st x) strings games = nav_ok ()"
proof -
  have "take_string_postings strings games (string_posting_bytes st (nx_controls x)) = nav_ok []"
    using assms take_string_posting_bytes [of games "nx_controls x" strings st "[]"]
    by (simp add: index_in_def index_texts_def)
  then show ?thesis
    using assms by (simp add: index_bytes_def validate_indexes_def index_in_def index_texts_def take_ordinal_bytes
        take_string_posting_bytes take_numeric_posting_bytes)
qed

section \<open>Counting the groups back\<close>

fun strictly :: "('k \<Rightarrow> 'k \<Rightarrow> bool) \<Rightarrow> 'k list \<Rightarrow> bool" where
  "strictly lt (a # b # rest) \<longleftrightarrow> lt a b \<and> strictly lt (b # rest)"
| "strictly lt _ \<longleftrightarrow> True"

definition group_counts :: "('k \<Rightarrow> 'l) \<Rightarrow> ('k \<times> u32 list) list \<Rightarrow> ('l \<times> nat) list" where
  "group_counts f groups = map (\<lambda>(v, os). (f v, length os)) groups"

lemma read_string_posting_bytes:
  assumes "groups_in games groups" "readable strings st (map fst groups)" "strictly text_less (map fst groups)"
  shows "read_string_counts strings games (string_posting_bytes st groups @ rest) = nav_ok (group_counts id groups, rest)"
proof -
  have loop: "string_counts_loop strings games (length groups) acc (string_group_bytes st groups @ rest) =
      nav_ok (acc @ group_counts id groups, rest)"
    if "list_all (\<lambda>(_, os). ordinals_in games os) groups" "readable strings st (map fst groups)"
      "strictly text_less (map fst groups)"
      "acc = [] \<or> groups = [] \<or> text_less (fst (last acc)) (fst (hd groups))" for acc
    using that
  proof (induction groups arbitrary: acc)
    case (Cons g groups)
    obtain v os where g: "g = (v, os)"
      by (cases g)
    obtain word where word: "read_u32 (ordinal_bytes os @ string_group_bytes st groups @ rest) 0 = nav_ok word" "unat word = length os"
      using count_ordinal_bytes [of games os] Cons.prems(1) by (auto simp: g)
    have "string_counts_loop strings games (length groups) (acc @ [(v, length os)]) (string_group_bytes st groups @ rest) =
        nav_ok ((acc @ [(v, length os)]) @ group_counts id groups, rest)"
      using Cons.prems by (intro Cons.IH) (cases groups; auto simp: g)+
    then show ?case
      using Cons.prems word
      by (auto simp: g string_group_bytes_def put_ref_def take_ordinal_bytes group_counts_def)
  qed (simp add: string_group_bytes_def group_counts_def)
  show ?thesis
    using loop [of "[]"] assms by (simp add: read_string_counts_def string_posting_bytes_def groups_in_def unat_u32_of_nat)
qed

lemma read_numeric_posting_bytes:
  assumes "groups_in games groups" "strictly (<) (map (\<lambda>(v, _). key v) groups)"
    "list_all (\<lambda>(v, _). key v \<le> maximum) groups" "\<And>v rest. take_u32 (key_bytes v @ rest) = nav_ok (key v, rest)"
  shows "read_numeric_counts maximum games (numeric_posting_bytes key_bytes groups @ rest) = nav_ok (group_counts key groups, rest)"
proof -
  have loop: "numeric_counts_loop maximum games (length groups) acc (numeric_group_bytes key_bytes groups @ rest) =
      nav_ok (acc @ group_counts key groups, rest)"
    if "list_all (\<lambda>(_, os). ordinals_in games os) groups" "strictly (<) (map (\<lambda>(v, _). key v) groups)"
      "list_all (\<lambda>(v, _). key v \<le> maximum) groups"
      "acc = [] \<or> groups = [] \<or> fst (last acc) < key (fst (hd groups))" for acc
    using that
  proof (induction groups arbitrary: acc)
    case (Cons g groups)
    obtain v os where g: "g = (v, os)"
      by (cases g)
    obtain word where word: "read_u32 (ordinal_bytes os @ numeric_group_bytes key_bytes groups @ rest) 0 = nav_ok word" "unat word = length os"
      using count_ordinal_bytes [of games os] Cons.prems(1) by (auto simp: g)
    have "numeric_counts_loop maximum games (length groups) (acc @ [(key v, length os)]) (numeric_group_bytes key_bytes groups @ rest) =
        nav_ok ((acc @ [(key v, length os)]) @ group_counts key groups, rest)"
      using Cons.prems by (intro Cons.IH) (cases groups; auto simp: g)+
    then show ?case
      using Cons.prems word
      by (auto simp: g numeric_group_bytes_def assms(4) take_ordinal_bytes group_counts_def)
  qed (simp add: numeric_group_bytes_def group_counts_def)
  show ?thesis
    using loop [of "[]"] assms by (simp add: read_numeric_counts_def numeric_posting_bytes_def groups_in_def unat_u32_of_nat)
qed

lemma key_bytes_words:
  "take_u32 (decade_bytes v @ rest) = nav_ok (ucast v, rest)" "take_u32 (player_bytes w @ rest) = nav_ok (ucast w, rest)"
proof -
  have four: "take_u32 (bs @ rest) = nav_ok (from_le bs, rest)" if "length bs = 4" for bs
    using that by (simp add: take_u32_def nav_take_def)
  have "from_le (decade_bytes v) = (ucast v :: u32)"
  proof (rule bit_word_eqI)
    fix i
    assume "i < LENGTH(32)"
    show "bit (from_le (decade_bytes v) :: u32) i \<longleftrightarrow> bit (ucast v :: u32) i"
    proof (cases "i div 8 < 2")
      case True
      then have "bit (decade_bytes v ! (i div 8)) (i mod 8) \<longleftrightarrow> bit v (8 * (i div 8) + i mod 8)"
        by (simp add: nth_append bit_to_le)
      then show ?thesis
        using True \<open>i < LENGTH(32)\<close> by (simp add: bit_from_le bit_ucast_iff)
    next
      case False
      then have "\<not> bit v i"
        using bit_imp_le_length [of v i] by auto
      moreover have "i div 8 - 2 < 2"
        using \<open>i < LENGTH(32)\<close> by simp
      then have "decade_bytes v ! (i div 8) = 0"
        using False by (simp add: nth_append to_le_def)
      ultimately show ?thesis
        using \<open>i < LENGTH(32)\<close> by (simp add: bit_from_le bit_ucast_iff)
    qed
  qed
  then show "take_u32 (decade_bytes v @ rest) = nav_ok (ucast v, rest)"
    using four [of "decade_bytes v"] by simp
  have "from_le (player_bytes w) = (ucast w :: u32)"
    by (simp add: numeral_3_eq_3)
  then show "take_u32 (player_bytes w @ rest) = nav_ok (ucast w, rest)"
    using four [of "player_bytes w"] by simp
qed

end
