(* ===== verification/Nav_Write.thy ===== *)
theory Nav_Write
  imports Nav_Table
begin

text \<open>Writing navigation packs: the encoder succeeds, and the pack it writes reads back as the games it was given.\<close>

section \<open>Records in a file\<close>

text \<open>The fields of a record, one after the other, at an offset of a file.\<close>

definition record_at :: "u8 list \<Rightarrow> nat \<Rightarrow> u8 list list \<Rightarrow> bool" where
  "record_at file at pieces \<longleftrightarrow> at + length (concat pieces) \<le> length file \<and>
     slice at (at + length (concat pieces)) file = concat pieces"

lemma sub_slice: "a + y \<le> b \<Longrightarrow> slice (a + x) (a + y) file = slice x y (slice a b file)"
  by (simp add: slice_def drop_take min_def add.commute)

lemma record_piece:
  assumes "record_at file at pieces" "i < length pieces"
  shows "record_at file (at + length (concat (take i pieces))) [pieces ! i]"
proof -
  let ?a = "length (concat (take i pieces))" and ?p = "pieces ! i"
  have split: "concat pieces = concat (take i pieces) @ ?p @ concat (drop (Suc i) pieces)"
    using assms(2) by (metis id_take_nth_drop concat.simps(2) concat_append)
  then have total: "?a + length ?p \<le> length (concat pieces)"
    by simp
  have "slice (at + ?a) (at + (?a + length ?p)) file = slice ?a (?a + length ?p) (concat pieces)"
    using assms(1) total sub_slice [of "at" "?a + length ?p" "at + length (concat pieces)" ?a "file"] by (simp add: record_at_def)
  also have "\<dots> = ?p"
    by (subst split) (simp add: slice_def)
  finally show ?thesis
    using assms(1) total by (simp add: record_at_def add.assoc)
qed

lemma record_nested: "record_at file at [concat pieces] \<longleftrightarrow> record_at file at pieces"
  by (simp add: record_at_def)

text \<open>The i-th of records of equal size.\<close>

lemma record_chunk:
  assumes "record_at file at [concat chunks]" "\<And>c. c \<in> set chunks \<Longrightarrow> length c = n" "i < length chunks"
  shows "record_at file (at + i * n) [chunks ! i]"
proof -
  have "length (concat (take i chunks)) = sum_list (map length (take i chunks))"
    by (simp add: length_concat)
  also have "map length (take i chunks) = map (\<lambda>_. n) (take i chunks)"
    using assms(2) by (auto dest: in_set_takeD)
  finally have "length (concat (take i chunks)) = i * n"
    using assms(3) by (simp add: sum_list_triv)
  then show ?thesis
    using record_piece [of "file" "at" chunks i] assms(1,3) by (simp add: record_nested)
qed

lemma read_field:
  "record_at file at [le16 v16] \<Longrightarrow> read_u16 file at = nav_ok v16"
  "record_at file at [le32 v32] \<Longrightarrow> read_u32 file at = nav_ok v32"
  "record_at file at [le64 v64] \<Longrightarrow> read_u64 file at = nav_ok v64"
  "record_at file at [[b]] \<Longrightarrow> nav_byte file at = nav_ok b"
  by (simp_all add: record_at_def read_ok nav_byte_def nth_slice)

lemma read_field_ref: "record_at file at [put_ref r] \<Longrightarrow> read_ref file at = nav_ok r"
  using record_piece [of "file" "at" "[le32 (fst r), le32 (snd r)]" 0] record_piece [of "file" "at" "[le32 (fst r), le32 (snd r)]" 1]
    record_nested [of "file" "at" "[le32 (fst r), le32 (snd r)]"]
  by (simp add: put_ref_def read_ref_def read_field)

lemma text_field:
  "record_at file at [put_ref (ref_of st v)] \<Longrightarrow> read_string strings (ref_of st v) = nav_ok v \<Longrightarrow> text_at file strings at = nav_ok v"
  by (simp add: text_at_def read_field_ref)

lemma refs_are_pieces: "refs_of st vs = concat (map (\<lambda>v. put_ref (ref_of st v)) vs)"
  by (simp add: refs_of_def)

text \<open>The fields of the three records.\<close>

definition row_pieces :: "string_table \<Rightarrow> nat \<Rightarrow> u32 \<Rightarrow> system_game \<Rightarrow> u8 list list" where
  "row_pieces st ordinal launch game =
     map (\<lambda>v. put_ref (ref_of st v)) [sg_title game, sg_launch_ref game, sg_preview_archive_path game, sg_preview_asset_key game] @
     map le32 [of_nat ordinal, launch, game_flags game, 0]"

definition cold_pieces :: "string_table \<Rightarrow> system_game \<Rightarrow> u8 list list" where
  "cold_pieces st game =
     [le16 (case sg_year game of None \<Rightarrow> 0xFFFF | Some y \<Rightarrow> y), [case sg_players game of None \<Rightarrow> 0xFF | Some n \<Rightarrow> n], [0]] @
     map (\<lambda>v. put_ref (ref_of st v)) [sg_manufacturer game, sg_category game, sg_control game] @ [le32 0]"

definition plan_pieces :: "string_table \<Rightarrow> launch_plan \<Rightarrow> u8 list list" where
  "plan_pieces st plan = map (\<lambda>v. put_ref (ref_of st v)) (plan_texts plan) @ [[pl_mount_index plan], [pl_delay_secs plan], replicate 14 0]"

lemma concat_pieces:
  "row_bytes st ordinal launch game = concat (row_pieces st ordinal launch game)"
  "cold_bytes st game = concat (cold_pieces st game)" "plan_bytes st plan = concat (plan_pieces st plan)"
  by (simp_all add: row_bytes_def row_pieces_def cold_bytes_def cold_pieces_def plan_bytes_def plan_pieces_def refs_of_def plan_texts_def)

lemma row_fields:
  assumes "record_at file at [row_bytes st ordinal launch game]" "readable strings st (game_texts game)"
  shows "text_at file strings at = nav_ok (sg_title game)" "text_at file strings (at + 8) = nav_ok (sg_launch_ref game)"
    "text_at file strings (at + 16) = nav_ok (sg_preview_archive_path game)"
    "text_at file strings (at + 24) = nav_ok (sg_preview_asset_key game)"
    "read_u32 file (at + 32) = nav_ok (of_nat ordinal)" "read_u32 file (at + 36) = nav_ok launch"
    "read_u32 file (at + 40) = nav_ok (game_flags game)"
proof -
  have pieces: "record_at file at (row_pieces st ordinal launch game)"
    using assms(1) by (simp add: concat_pieces record_nested)
  note piece = record_piece [OF this]
  have fields: "record_at file at [put_ref (ref_of st (sg_title game))]" "record_at file (at + 8) [put_ref (ref_of st (sg_launch_ref game))]"
    "record_at file (at + 16) [put_ref (ref_of st (sg_preview_archive_path game))]"
    "record_at file (at + 24) [put_ref (ref_of st (sg_preview_asset_key game))]"
    "record_at file (at + 32) [le32 (of_nat ordinal)]" "record_at file (at + 36) [le32 launch]"
    "record_at file (at + 40) [le32 (game_flags game)]"
    using piece [of 0] piece [of 1] piece [of 2] piece [of 3] piece [of 4] piece [of 5] piece [of 6]
    by (simp_all add: row_pieces_def)
  have strings: "read_string strings (ref_of st v) = nav_ok v" if "v \<in> set (game_texts game)" for v
    using assms(2) that by (rule readableD)
  show "text_at file strings at = nav_ok (sg_title game)" "text_at file strings (at + 8) = nav_ok (sg_launch_ref game)"
    "text_at file strings (at + 16) = nav_ok (sg_preview_archive_path game)"
    "text_at file strings (at + 24) = nav_ok (sg_preview_asset_key game)"
    "read_u32 file (at + 32) = nav_ok (of_nat ordinal)" "read_u32 file (at + 36) = nav_ok launch"
    "read_u32 file (at + 40) = nav_ok (game_flags game)"
    using fields by (auto intro!: text_field read_field strings simp: game_texts_def)
qed

lemma cold_fields:
  assumes "record_at file at [cold_bytes st game]" "readable strings st (game_texts game)"
  shows "read_u16 file at = nav_ok (case sg_year game of None \<Rightarrow> 0xFFFF | Some y \<Rightarrow> y)"
    "nav_byte file (at + 2) = nav_ok (case sg_players game of None \<Rightarrow> 0xFF | Some n \<Rightarrow> n)"
    "text_at file strings (at + 4) = nav_ok (sg_manufacturer game)" "text_at file strings (at + 12) = nav_ok (sg_category game)"
    "text_at file strings (at + 20) = nav_ok (sg_control game)"
proof -
  have pieces: "record_at file at (cold_pieces st game)"
    using assms(1) by (simp add: concat_pieces record_nested)
  note piece = record_piece [OF this]
  have fields: "record_at file at [le16 (case sg_year game of None \<Rightarrow> 0xFFFF | Some y \<Rightarrow> y)]"
    "record_at file (at + 2) [[case sg_players game of None \<Rightarrow> 0xFF | Some n \<Rightarrow> n]]"
    "record_at file (at + 4) [put_ref (ref_of st (sg_manufacturer game))]"
    "record_at file (at + 12) [put_ref (ref_of st (sg_category game))]"
    "record_at file (at + 20) [put_ref (ref_of st (sg_control game))]"
    using piece [of 0] piece [of 1] piece [of 3] piece [of 4] piece [of 5]
    by (simp_all add: cold_pieces_def numeral_3_eq_3 numeral_eq_Suc)
  have strings: "read_string strings (ref_of st v) = nav_ok v" if "v \<in> set (game_texts game)" for v
    using assms(2) that by (rule readableD)
  show "read_u16 file at = nav_ok (case sg_year game of None \<Rightarrow> 0xFFFF | Some y \<Rightarrow> y)"
    "nav_byte file (at + 2) = nav_ok (case sg_players game of None \<Rightarrow> 0xFF | Some n \<Rightarrow> n)"
    "text_at file strings (at + 4) = nav_ok (sg_manufacturer game)" "text_at file strings (at + 12) = nav_ok (sg_category game)"
    "text_at file strings (at + 20) = nav_ok (sg_control game)"
    using fields by (auto intro!: text_field read_field strings simp: game_texts_def)
qed

lemma plan_fields:
  assumes "record_at file at [plan_bytes st plan]" "readable strings st (plan_texts plan)"
  shows "text_at file strings at = nav_ok (pl_launch_ref plan)" "text_at file strings (at + 8) = nav_ok (pl_title plan)"
    "text_at file strings (at + 16) = nav_ok (pl_system_id plan)" "text_at file strings (at + 24) = nav_ok (pl_core_path plan)"
    "text_at file strings (at + 32) = nav_ok (pl_payload_path plan)" "text_at file strings (at + 40) = nav_ok (pl_mount_kind plan)"
    "nav_byte file (at + 48) = nav_ok (pl_mount_index plan)" "nav_byte file (at + 49) = nav_ok (pl_delay_secs plan)"
proof -
  have pieces: "record_at file at (plan_pieces st plan)"
    using assms(1) by (simp add: concat_pieces record_nested)
  note piece = record_piece [OF this]
  have fields: "record_at file at [put_ref (ref_of st (pl_launch_ref plan))]" "record_at file (at + 8) [put_ref (ref_of st (pl_title plan))]"
    "record_at file (at + 16) [put_ref (ref_of st (pl_system_id plan))]" "record_at file (at + 24) [put_ref (ref_of st (pl_core_path plan))]"
    "record_at file (at + 32) [put_ref (ref_of st (pl_payload_path plan))]" "record_at file (at + 40) [put_ref (ref_of st (pl_mount_kind plan))]"
    "record_at file (at + 48) [[pl_mount_index plan]]" "record_at file (at + 49) [[pl_delay_secs plan]]"
    using piece [of 0] piece [of 1] piece [of 2] piece [of 3] piece [of 4] piece [of 5] piece [of 6] piece [of 7]
    by (simp_all add: plan_pieces_def plan_texts_def)
  have strings: "read_string strings (ref_of st v) = nav_ok v" if "v \<in> set (plan_texts plan)" for v
    using assms(2) that by (rule readableD)
  show "text_at file strings at = nav_ok (pl_launch_ref plan)" "text_at file strings (at + 8) = nav_ok (pl_title plan)"
    "text_at file strings (at + 16) = nav_ok (pl_system_id plan)" "text_at file strings (at + 24) = nav_ok (pl_core_path plan)"
    "text_at file strings (at + 32) = nav_ok (pl_payload_path plan)" "text_at file strings (at + 40) = nav_ok (pl_mount_kind plan)"
    "nav_byte file (at + 48) = nav_ok (pl_mount_index plan)" "nav_byte file (at + 49) = nav_ok (pl_delay_secs plan)"
    using fields by (auto intro!: text_field read_field strings simp: plan_texts_def)
qed


section \<open>The entry prelude\<close>

definition preview_of :: "system_game list \<Rightarrow> nav_preview option" where
  "preview_of games = map_option (\<lambda>game. \<lparr>np_ordinal = 0, np_title = sg_title game,
     np_archive = sg_preview_archive_path game, np_asset_key = sg_preview_asset_key game\<rparr>) (selected_preview games)"

definition prelude_of :: "system_game list \<Rightarrow> navigation_indexes \<Rightarrow> entry_prelude" where
  "prelude_of games x = \<lparr>ep_viewport = map unat (take 10 (nx_title_ordinals x)), ep_selected = preview_of games,
     ep_terminal_empty = (selected_preview games = None)\<rparr>"

definition prelude_pieces :: "u32 list \<Rightarrow> u32 \<Rightarrow> u32 \<Rightarrow> u8 list \<Rightarrow> u8 list \<Rightarrow> u8 list \<Rightarrow> u8 list list" where
  "prelude_pieces viewport selected flags title archive asset_key =
     [PRELUDE_MAGIC, le32 PRELUDE_VERSION,
      le32 (of_nat (48 + length viewport * 4 + length title + length archive + length asset_key)),
      le32 (of_nat (length viewport)), le32 selected, le32 flags, le32 0, le32 (of_nat (length title)),
      le32 (of_nat (length archive)), le32 (of_nat (length asset_key)), le32 0, concat (map le32 viewport), title, archive, asset_key]"

lemma length_words [simp]: "length (concat (map le32 ws)) = 4 * length ws"
  by (induction ws) simp_all

lemma record_slice: "record_at file at [piece] \<Longrightarrow> to = at + length piece \<Longrightarrow> get_slice at to file = Some piece"
  by (simp add: record_at_def)

lemma parse_prelude_pieces:
  assumes sizes: "length viewport \<le> 10" "length viewport \<le> games" "list_all (\<lambda>j. unat j < games) viewport"
      "48 + length viewport * 4 + length title + length archive + length asset_key \<le> USIZE_MAX"
    and texts: "from_utf8 title = Some t" "from_utf8 archive = Some a" "from_utf8 asset_key = Some k"
    and choice: "flags = PRELUDE_FLAG_EXACT_PREVIEW \<and> selected = 0 \<and> 0 < games \<and> a \<noteq> [] \<and> k \<noteq> [] \<or>
      flags = PRELUDE_FLAG_TERMINAL_EMPTY \<and> selected = NONE_U32 \<and> title = [] \<and> archive = [] \<and> asset_key = []"
  shows "parse_entry_prelude (concat (prelude_pieces viewport selected flags title archive asset_key)) games =
    nav_ok \<lparr>ep_viewport = map unat viewport,
      ep_selected = (if flags = PRELUDE_FLAG_EXACT_PREVIEW
        then Some \<lparr>np_ordinal = 0, np_title = t, np_archive = a, np_asset_key = k\<rparr> else None),
      ep_terminal_empty = (flags = PRELUDE_FLAG_TERMINAL_EMPTY)\<rparr>"
proof -
  let ?pieces = "prelude_pieces viewport selected flags title archive asset_key"
  let ?file = "concat ?pieces" and ?total = "48 + length viewport * 4 + length title + length archive + length asset_key"
  have magic: "length PRELUDE_MAGIC = 8"
    by (simp add: PRELUDE_MAGIC_def)
  have total: "length ?file = ?total"
    by (simp add: prelude_pieces_def magic)
  have "record_at ?file 0 ?pieces"
    by (simp add: record_at_def slice_def)
  note piece = record_piece [OF this]
  have fields: "read_u32 ?file 8 = nav_ok PRELUDE_VERSION" "read_u32 ?file 12 = nav_ok (of_nat ?total)"
    "read_u32 ?file 16 = nav_ok (of_nat (length viewport))" "read_u32 ?file 20 = nav_ok selected"
    "read_u32 ?file 24 = nav_ok flags" "read_u32 ?file 32 = nav_ok (of_nat (length title))"
    "read_u32 ?file 36 = nav_ok (of_nat (length archive))" "read_u32 ?file 40 = nav_ok (of_nat (length asset_key))"
    using piece [of 1] piece [of 2] piece [of 3] piece [of 4] piece [of 5] piece [of 7] piece [of 8] piece [of 9]
    by (simp_all add: prelude_pieces_def magic read_field)
  have head: "slice 0 8 ?file = PRELUDE_MAGIC"
    by (simp add: prelude_pieces_def magic slice_def)
  have texts_at: "record_at ?file (48 + length viewport * 4) [title]"
    "record_at ?file (48 + length viewport * 4 + length title) [archive]"
    "record_at ?file (48 + length viewport * 4 + length title + length archive) [asset_key]"
    using piece [of 12] piece [of 13] piece [of 14] by (simp_all add: prelude_pieces_def magic algebra_simps)
  have "record_at ?file 48 [concat (map le32 viewport)]"
    using piece [of 11] by (simp add: prelude_pieces_def magic)
  then have "record_at ?file (48 + i * 4) [map le32 viewport ! i]" if "i < length viewport" for i
    using that by (intro record_chunk) auto
  then have ordinals: "read_u32 ?file (48 + i * 4) = nav_ok (viewport ! i)" if "i < length viewport" for i
    using that by (auto intro: read_field)
  have list: "nav_list (map (\<lambda>index. nav_then (read_u32 ?file (48 + index * 4)) (\<lambda>ordinal.
      if games \<le> unat ordinal then nav_fail ViewportOrdinal else nav_ok (unat ordinal))) [0..<length viewport]) =
      nav_ok (map unat viewport)"
    using ordinals sizes(3) by (simp add: nav_list_ok list_all2_conv_all_nth list_all_length not_le [symmetric])
  have words: "unat (of_nat ?total :: u32) = ?total" "unat (of_nat (length viewport) :: u32) = length viewport"
    "unat (of_nat (length title) :: u32) = length title" "unat (of_nat (length archive) :: u32) = length archive"
    "unat (of_nat (length asset_key) :: u32) = length asset_key"
    using sizes(4) by (intro unat_u32_of_nat; linarith)+
  have slices: "get_slice (48 + length viewport * 4) (48 + length viewport * 4 + length title) ?file = Some title"
    "get_slice (48 + length viewport * 4 + length title) (48 + length viewport * 4 + length title + length archive) ?file = Some archive"
    "get_slice (48 + length viewport * 4 + length title + length archive) ?total ?file = Some asset_key"
    using texts_at by (auto intro: record_slice)
  have flags: "flags = PRELUDE_FLAG_TERMINAL_EMPTY \<or> flags = PRELUDE_FLAG_EXACT_PREVIEW"
    "PRELUDE_FLAG_TERMINAL_EMPTY \<noteq> PRELUDE_FLAG_EXACT_PREVIEW" "unat (0 :: u32) = 0"
    using choice by (auto simp: PRELUDE_FLAG_TERMINAL_EMPTY_def PRELUDE_FLAG_EXACT_PREVIEW_def)
  have ends: "checked_add (48 + length viewport * 4) (length title) = Some (48 + length viewport * 4 + length title)"
    "checked_add (48 + length viewport * 4 + length title) (length archive) =
      Some (48 + length viewport * 4 + length title + length archive)"
    "checked_add (48 + length viewport * 4 + length title + length archive) (length asset_key) = Some ?total"
    using sizes(4) by simp_all
  define bs where "bs = ?file"
  note facts = fields [folded bs_def] list [folded bs_def] slices [folded bs_def] total [folded bs_def] head [folded bs_def] words ends
  note defs = parse_entry_prelude_def Let_def PRELUDE_HEADER_BYTES_def NAVPACK_ENTRY_VIEWPORT_ROWS_def
  from choice show ?thesis
    unfolding bs_def [symmetric]
  proof (elim disjE conjE)
    assume "flags = PRELUDE_FLAG_EXACT_PREVIEW" "selected = 0" "0 < games" "a \<noteq> []" "k \<noteq> []"
    then show "parse_entry_prelude bs games = nav_ok \<lparr>ep_viewport = map unat viewport,
      ep_selected = (if flags = PRELUDE_FLAG_EXACT_PREVIEW
        then Some \<lparr>np_ordinal = 0, np_title = t, np_archive = a, np_asset_key = k\<rparr> else None),
      ep_terminal_empty = (flags = PRELUDE_FLAG_TERMINAL_EMPTY)\<rparr>"
      using sizes texts flags by (simp add: defs facts del: of_nat_add of_nat_mult)
  next
    assume "flags = PRELUDE_FLAG_TERMINAL_EMPTY" "selected = NONE_U32"
    assume "title = []" "archive = []" "asset_key = []"
    note facts' = facts [unfolded this list.size add_0_right] texts [unfolded this]
    show "parse_entry_prelude bs games = nav_ok \<lparr>ep_viewport = map unat viewport,
      ep_selected = (if flags = PRELUDE_FLAG_EXACT_PREVIEW
        then Some \<lparr>np_ordinal = 0, np_title = t, np_archive = a, np_asset_key = k\<rparr> else None),
      ep_terminal_empty = (flags = PRELUDE_FLAG_TERMINAL_EMPTY)\<rparr>"
      using sizes texts flags by (simp add: defs facts' \<open>flags = _\<close> \<open>selected = _\<close> del: of_nat_add of_nat_mult)
  qed
qed

text \<open>The texts of the selected preview.\<close>

definition selected_texts :: "system_game list \<Rightarrow> rtext list" where
  "selected_texts games = (case selected_preview games of None \<Rightarrow> []
     | Some game \<Rightarrow> [sg_title game, sg_preview_archive_path game, sg_preview_asset_key game])"

lemma encode_prelude_ok:
  assumes "list_all text_ok (selected_texts games)" "length (nx_title_ordinals x) \<le> length games"
    and "ordinals_in (length games) (nx_title_ordinals x)" "88 + cost (selected_texts games) \<le> USIZE_MAX"
  shows "\<exists>prelude. encode_entry_prelude games x = nav_ok prelude \<and> length prelude \<le> 88 + cost (selected_texts games) \<and>
    parse_entry_prelude prelude (length games) = nav_ok (prelude_of games x)"
proof -
  let ?viewport = "take 10 (nx_title_ordinals x)"
  have viewport: "length ?viewport \<le> 10" "length ?viewport \<le> length games" "list_all (\<lambda>j. unat j < length games) ?viewport"
    using assms(2,3) by (auto simp: ordinals_in_def list_all_iff dest: in_set_takeD)
  have magic: "length PRELUDE_MAGIC = 8"
    by (simp add: PRELUDE_MAGIC_def)
  have encoded: "encode_entry_prelude games x = nav_ok (concat (prelude_pieces ?viewport selected flags title archive asset_key)) \<and>
      length (concat (prelude_pieces ?viewport selected flags title archive asset_key)) \<le> 88 + cost (selected_texts games)"
    if "(case selected_preview games of
         Some game \<Rightarrow> (0, PRELUDE_FLAG_EXACT_PREVIEW, into_bytes (sg_title game),
           into_bytes (sg_preview_archive_path game), into_bytes (sg_preview_asset_key game))
       | None \<Rightarrow> (NONE_U32, PRELUDE_FLAG_TERMINAL_EMPTY, [], [], [])) = (selected, flags, title, archive, asset_key)"
      "length title + length archive + length asset_key = cost (selected_texts games)"
    for selected flags title archive asset_key
  proof -
    have room: "48 + length ?viewport * 4 + length title + length archive + length asset_key \<le> USIZE_MAX"
      using assms(4) viewport(1) that(2) by linarith
    then have fits: "u32_of_usize (48 + length ?viewport * 4 + length title + length archive + length asset_key) =
        Some (of_nat (48 + length ?viewport * 4 + length title + length archive + length asset_key))"
      "u32_of_usize (length ?viewport) = Some (of_nat (length ?viewport))" "u32_of_usize (length title) = Some (of_nat (length title))"
      "u32_of_usize (length archive) = Some (of_nat (length archive))" "u32_of_usize (length asset_key) = Some (of_nat (length asset_key))"
      by (intro u32_fits; linarith)+
    have ends: "checked_add 48 (length ?viewport * 4) = Some (48 + length ?viewport * 4)"
      "checked_add (48 + length ?viewport * 4) (length title) = Some (48 + length ?viewport * 4 + length title)"
      "checked_add (48 + length ?viewport * 4 + length title) (length archive) =
        Some (48 + length ?viewport * 4 + length title + length archive)"
      "checked_add (48 + length ?viewport * 4 + length title + length archive) (length asset_key) =
        Some (48 + length ?viewport * 4 + length title + length archive + length asset_key)"
      using room by (simp_all only: checked_add_Some) linarith+
    define v where "v = ?viewport"
    have "encode_entry_prelude games x = nav_ok (concat (prelude_pieces ?viewport selected flags title archive asset_key))"
      unfolding encode_entry_prelude_def that(1) Let_def prod.case PRELUDE_HEADER_BYTES_def NAVPACK_ENTRY_VIEWPORT_ROWS_def v_def [symmetric]
      by (simp add: ends [folded v_def] fits [folded v_def] prelude_pieces_def del: of_nat_add of_nat_mult)
    moreover have "length (concat (prelude_pieces ?viewport selected flags title archive asset_key)) \<le> 88 + cost (selected_texts games)"
      using viewport(1) that(2) by (simp add: prelude_pieces_def magic)
    ultimately show ?thesis
      by blast
  qed
  show ?thesis
  proof (cases "selected_preview games")
    case None
    have empty: "from_utf8 [] = Some []"
      using from_utf8_into_bytes [of "[]"] by (simp add: into_bytes_def)
    have room: "48 + length ?viewport * 4 + length ([] :: u8 list) + length ([] :: u8 list) + length ([] :: u8 list) \<le> USIZE_MAX"
      using assms(4) viewport(1) by simp
    have "parse_entry_prelude (concat (prelude_pieces ?viewport NONE_U32 PRELUDE_FLAG_TERMINAL_EMPTY [] [] [])) (length games) =
        nav_ok (prelude_of games x)"
      using parse_prelude_pieces [OF viewport room empty empty empty, of PRELUDE_FLAG_TERMINAL_EMPTY NONE_U32] None
      by (simp add: prelude_of_def preview_of_def PRELUDE_FLAG_TERMINAL_EMPTY_def PRELUDE_FLAG_EXACT_PREVIEW_def)
    then show ?thesis
      using encoded [of NONE_U32 PRELUDE_FLAG_TERMINAL_EMPTY "[]" "[]" "[]"] None by (auto simp: selected_texts_def)
  next
    case (Some game)
    then have game: "0 < length games" "sg_preview_archive_path game \<noteq> []" "sg_preview_asset_key game \<noteq> []"
      by (auto simp: selected_preview_def split: list.splits if_splits)
    let ?title = "into_bytes (sg_title game)" and ?archive = "into_bytes (sg_preview_archive_path game)"
    let ?key = "into_bytes (sg_preview_asset_key game)"
    have costs: "length ?title + length ?archive + length ?key = cost (selected_texts games)"
      using Some by (simp add: selected_texts_def)
    have texts: "from_utf8 ?title = Some (sg_title game)" "from_utf8 ?archive = Some (sg_preview_archive_path game)"
      "from_utf8 ?key = Some (sg_preview_asset_key game)"
      using assms(1) Some by (simp_all add: selected_texts_def text_ok_def from_utf8_into_bytes)
    have room: "48 + length ?viewport * 4 + length ?title + length ?archive + length ?key \<le> USIZE_MAX"
      using assms(4) viewport(1) costs by linarith
    have "parse_entry_prelude (concat (prelude_pieces ?viewport 0 PRELUDE_FLAG_EXACT_PREVIEW ?title ?archive ?key)) (length games) =
        nav_ok (prelude_of games x)"
      using parse_prelude_pieces [OF viewport room texts, of PRELUDE_FLAG_EXACT_PREVIEW 0] game Some
      by (simp add: prelude_of_def preview_of_def PRELUDE_FLAG_TERMINAL_EMPTY_def PRELUDE_FLAG_EXACT_PREVIEW_def)
    then show ?thesis
      using encoded [of 0 PRELUDE_FLAG_EXACT_PREVIEW ?title ?archive ?key] Some costs by auto
  qed
qed


section \<open>The layout of the file\<close>

definition header_pieces ::
  "u64 \<Rightarrow> u32 \<Rightarrow> u32 \<Rightarrow> u32 \<times> u32 \<Rightarrow> u8 list \<Rightarrow> (nat \<times> u8 list) list \<Rightarrow> u8 list list" where
  "header_pieces generation game_count launch_count system_ref prelude sections =
     [NAV_MAGIC, le32 NAVPACK_SCHEMA_VERSION, le32 (of_nat NAVPACK_HEADER_BYTES), le32 ENDIAN_MARKER,
      le32 (of_nat NAVPACK_ROW_BYTES), le32 (of_nat NAVPACK_COLD_BYTES), le32 (of_nat NAVPACK_LAUNCH_BYTES),
      le64 generation, le32 game_count, le32 launch_count, put_ref system_ref] @
     concat (map (\<lambda>(offset, d). [le64 (of_nat offset), le64 (of_nat (length d))]) sections) @
     [le64 (of_nat NAVPACK_HEADER_BYTES), le64 (of_nat (length prelude)), replicate 8 0]"

definition laid_out ::
  "u8 list \<Rightarrow> u64 \<Rightarrow> u32 \<Rightarrow> u32 \<Rightarrow> u32 \<times> u32 \<Rightarrow> u8 list \<Rightarrow> (nat \<times> u8 list) list \<Rightarrow> bool" where
  "laid_out bs generation game_count launch_count system_ref prelude sections \<longleftrightarrow>
     length sections = 5 \<and> length bs \<le> USIZE_MAX \<and>
     record_at bs 0 (header_pieces generation game_count launch_count system_ref prelude sections) \<and>
     record_at bs 160 [prelude] \<and> 160 + length prelude \<le> fst (sections ! 0) \<and>
     (\<forall>i < 5. record_at bs (fst (sections ! i)) [snd (sections ! i)]) \<and>
     (\<forall>i < 4. fst (sections ! i) + length (snd (sections ! i)) \<le> fst (sections ! Suc i))"

lemma aligned_ok:
  "offset + n + 7 \<le> USIZE_MAX \<Longrightarrow> \<exists>a. aligned_after offset n = nav_ok a \<and> offset + n \<le> a \<and> a \<le> offset + n + 7"
proof -
  assume room: "offset + n + 7 \<le> USIZE_MAX"
  then have "aligned_after offset n = nav_ok ((offset + n + 7) div 8 * 8)"
    by (simp add: aligned_after_def checked_add_def)
  moreover have "(offset + n + 7) div 8 * 8 = offset + n + 7 - (offset + n + 7) mod 8"
    by (simp add: minus_mod_eq_div_mult)
  moreover have "(offset + n + 7) mod 8 < 8"
    by simp
  ultimately show ?thesis
    by (intro exI [of _ "(offset + n + 7) div 8 * 8"]) linarith
qed

lemma header_bytes_pieces:
  "take NAVPACK_HEADER_BYTES (encode_header_bytes generation games launches system_ref
      [(a1, length d1), (a2, length d2), (a3, length d3), (a4, length d4), (a5, length d5)] (NAVPACK_HEADER_BYTES, length prelude) @
      replicate (NAVPACK_HEADER_BYTES - length (encode_header_bytes generation games launches system_ref
      [(a1, length d1), (a2, length d2), (a3, length d3), (a4, length d4), (a5, length d5)] (NAVPACK_HEADER_BYTES, length prelude))) 0) =
    concat (header_pieces generation games launches system_ref prelude [(a1, d1), (a2, d2), (a3, d3), (a4, d4), (a5, d5)])"
  "length (concat (header_pieces generation games launches system_ref prelude [(a1, d1), (a2, d2), (a3, d3), (a4, d4), (a5, d5)])) = 160"
proof -
  have n: "length NAV_MAGIC = 8" "NAVPACK_HEADER_BYTES = 160"
    by (simp_all add: NAV_MAGIC_def NAVPACK_HEADER_BYTES_def)
  show "length (concat (header_pieces generation games launches system_ref prelude [(a1, d1), (a2, d2), (a3, d3), (a4, d4), (a5, d5)])) = 160"
    by (simp add: header_pieces_def n)
  show "take NAVPACK_HEADER_BYTES (encode_header_bytes generation games launches system_ref
      [(a1, length d1), (a2, length d2), (a3, length d3), (a4, length d4), (a5, length d5)] (NAVPACK_HEADER_BYTES, length prelude) @
      replicate (NAVPACK_HEADER_BYTES - length (encode_header_bytes generation games launches system_ref
      [(a1, length d1), (a2, length d2), (a3, length d3), (a4, length d4), (a5, length d5)] (NAVPACK_HEADER_BYTES, length prelude))) 0) =
    concat (header_pieces generation games launches system_ref prelude [(a1, d1), (a2, d2), (a3, d3), (a4, d4), (a5, d5)])"
    by (simp add: header_pieces_def encode_header_bytes_def n u64_of_usize_def)
qed

lemma length_plans: "length (filter (\<lambda>game. sg_launch_plan game \<noteq> None) games) = length (plans games)"
  by (induction games) (auto simp: plan_list_def)

lemma encode_laid_out:
  assumes table: "intern system_id empty_table = nav_ok (system_ref, st0)"
    and games: "encode_games 0 games \<lparr>pt_strings = st0, pt_rows = [], pt_cold = [], pt_launches = [], pt_next_launch = 0\<rparr> = nav_ok s"
    and indexes: "encode_indexes x (pt_strings s) = nav_ok (st, indexes)"
    and prelude: "encode_entry_prelude games x = nav_ok prelude"
    and room: "195 + length prelude + length (pt_rows s) + length (pt_cold s) + length (pt_launches s) + length indexes +
      length (st_bytes st) \<le> USIZE_MAX" "length games \<le> USIZE_MAX"
  shows "\<exists>bs sections. navpack_encode system_id generation games x =
      nav_then (nav_validate bs system_id generation (length games)) (\<lambda>_. nav_ok bs) \<and>
    laid_out bs generation (of_nat (length games)) (of_nat (length (plans games))) system_ref prelude sections \<and>
    map snd sections = [pt_rows s, pt_cold s, pt_launches s, indexes, st_bytes st]"
proof -
  have "160 + length prelude + 7 \<le> USIZE_MAX"
    using room(1) by linarith
  then obtain a1 where a1: "aligned_after NAVPACK_HEADER_BYTES (length prelude) = nav_ok a1" "160 + length prelude \<le> a1"
    "a1 \<le> 160 + length prelude + 7"
    using aligned_ok unfolding NAVPACK_HEADER_BYTES_def by blast
  then have "a1 + length (pt_rows s) + 7 \<le> USIZE_MAX"
    using room(1) by linarith
  then obtain a2 where a2: "aligned_after a1 (length (pt_rows s)) = nav_ok a2" "a1 + length (pt_rows s) \<le> a2"
    "a2 \<le> a1 + length (pt_rows s) + 7"
    using aligned_ok by blast
  then have "a2 + length (pt_cold s) + 7 \<le> USIZE_MAX"
    using room(1) a1(3) by linarith
  then obtain a3 where a3: "aligned_after a2 (length (pt_cold s)) = nav_ok a3" "a2 + length (pt_cold s) \<le> a3"
    "a3 \<le> a2 + length (pt_cold s) + 7"
    using aligned_ok by blast
  then have "a3 + length (pt_launches s) + 7 \<le> USIZE_MAX"
    using room(1) a1(3) a2(3) by linarith
  then obtain a4 where a4: "aligned_after a3 (length (pt_launches s)) = nav_ok a4" "a3 + length (pt_launches s) \<le> a4"
    "a4 \<le> a3 + length (pt_launches s) + 7"
    using aligned_ok by blast
  then have "a4 + length indexes + 7 \<le> USIZE_MAX"
    using room(1) a1(3) a2(3) a3(3) by linarith
  then obtain a5 where a5: "aligned_after a4 (length indexes) = nav_ok a5" "a4 + length indexes \<le> a5"
    "a5 \<le> a4 + length indexes + 7"
    using aligned_ok by blast
  then have total: "a5 + length (st_bytes st) \<le> USIZE_MAX"
    using room(1) a1(3) a2(3) a3(3) a4(3) by linarith
  let ?n = "a5 + length (st_bytes st)"
  let ?sections = "[(a1, pt_rows s), (a2, pt_cold s), (a3, pt_launches s), (a4, indexes), (a5, st_bytes st)]"
  let ?parts = "(160, prelude) # ?sections"
  let ?pieces = "header_pieces generation (of_nat (length games)) (of_nat (length (plans games))) system_ref prelude ?sections"
  define body where "body = fill ?parts (replicate ?n 0)"
  define bs where "bs = put_at 0 (concat ?pieces) body"
  have fits: "parts_fit 160 ?parts (length (replicate ?n (0 :: u8)))"
    using a1(2) a2(2) a3(2) a4(2) a5(2) by simp
  have body_length: "length body = ?n"
    using fill_front [OF fits] unfolding body_def by simp
  have room160: "160 \<le> ?n"
    using a1(2) a2(2) a3(2) a4(2) a5(2) by linarith
  note pieces_length = header_bytes_pieces(2) [of generation "of_nat (length games)" "of_nat (length (plans games))" system_ref
      prelude a1 "pt_rows s" a2 "pt_cold s" a3 "pt_launches s" a4 indexes a5 "st_bytes st"]
  have bs_length: "length bs = ?n"
    using room160 pieces_length body_length by (simp add: bs_def)
  have part: "record_at bs offset [d]" if "(offset, d) \<in> set ?parts" for offset d
  proof -
    have "slice offset (offset + length d) body = d"
      using fill_field [OF fits that refl] by (simp add: body_def)
    moreover have "160 \<le> offset" "offset + length d \<le> ?n"
      using that a1(2) a2(2) a3(2) a4(2) a5(2) by auto
    ultimately show ?thesis
      using room160 body_length pieces_length bs_length by (simp add: record_at_def bs_def slice_put_other)
  qed
  have "slice 0 160 bs = concat ?pieces"
    unfolding bs_def using room160 body_length pieces_length by (intro slice_put_same) linarith+
  then have "record_at bs 0 ?pieces"
    using room160 bs_length unfolding record_at_def pieces_length by (simp only: add_0)
  moreover have "record_at bs (fst (?sections ! i)) [snd (?sections ! i)]" if "i < 5" for i
  proof -
    have "?sections ! i \<in> set ?sections"
      using that by (intro nth_mem) simp
    then show ?thesis
      using part [of "fst (?sections ! i)" "snd (?sections ! i)"] by (metis list.set_intros(2) prod.collapse)
  qed
  moreover have "fst (?sections ! i) + length (snd (?sections ! i)) \<le> fst (?sections ! Suc i)" if "i < 4" for i
  proof -
    have "i = 0 \<or> i = 1 \<or> i = 2 \<or> i = 3"
      using that by arith
    then show ?thesis
      using a2(2) a3(2) a4(2) a5(2) by (elim disjE) simp_all
  qed
  ultimately have laid: "laid_out bs generation (of_nat (length games)) (of_nat (length (plans games))) system_ref prelude ?sections"
    using part [of 160 prelude] a1(2) total bs_length by (simp add: laid_out_def)
  have sum: "checked_add a5 (length (st_bytes st)) = Some ?n"
    using total by (simp add: checked_add_def)
  have "length (plans games) \<le> length games"
    using length_filter_le [of "\<lambda>game. sg_launch_plan game \<noteq> None" games] by (simp only: length_plans)
  then have counts: "u32_of_usize (length games) = Some (of_nat (length games))"
    "u32_of_usize (length (plans games)) = Some (of_nat (length (plans games)))"
    using room(2) by (simp_all add: u32_fits)
  have "navpack_encode system_id generation games x =
      nav_then (nav_validate bs system_id generation (length games)) (\<lambda>_. nav_ok bs)"
    unfolding navpack_encode_def counts table games indexes prelude nav_get_simps(3) nav_then_simps(1) prod.case Let_def
      a1(1) a2(1) a3(1) a4(1) a5(1) sum length_plans header_bytes_pieces(1) bs_def body_def
    by (simp only: NAVPACK_HEADER_BYTES_def)
  then show ?thesis
    using laid by (intro exI [of _ bs] exI [of _ ?sections]) simp
qed


section \<open>Opening and validating a laid out file\<close>

lemma read_section_words:
  assumes "record_at bs at [le64 (of_nat start)]" "record_at bs (at + 8) [le64 (of_nat n)]"
    and "start + n \<le> length bs" "length bs \<le> USIZE_MAX"
  shows "read_section bs at = nav_ok (start, n)"
proof -
  have "unat (of_nat start :: u64) = start" "unat (of_nat n :: u64) = n"
    using assms(3,4) by (simp_all add: USIZE_MAX_def unat_of_nat_small)
  moreover from this have "usize_of_u64 (of_nat start) = Some start" "usize_of_u64 (of_nat n) = Some n"
    using assms(3,4) by (simp_all add: usize_of_u64_def)
  ultimately show ?thesis
    using assms by (simp add: read_section_def read_field checked_add_def)
qed

lemma laid_out_fields:
  assumes laid: "laid_out bs generation (of_nat games) (of_nat launches) system_ref prelude
      [(a1, d1), (a2, d2), (a3, d3), (a4, d4), (a5, d5)]" and counts: "games \<le> USIZE_MAX" "launches \<le> USIZE_MAX"
  shows "check_constants bs generation games = nav_ok (games, launches)" "read_ref bs 48 = nav_ok system_ref"
    "read_sections bs = nav_ok [(a1, length d1), (a2, length d2), (a3, length d3), (a4, length d4), (a5, length d5)]"
    "read_section bs 136 = nav_ok (160, length prelude)"
proof -
  let ?sections = "[(a1, d1), (a2, d2), (a3, d3), (a4, d4), (a5, d5)]"
  have magic: "length NAV_MAGIC = 8"
    by (simp add: NAV_MAGIC_def)
  have pieces: "record_at bs 0 (header_pieces generation (of_nat games) (of_nat launches) system_ref prelude ?sections)"
    using laid by (simp add: laid_out_def)
  note piece = record_piece [OF pieces]
  have words: "read_u32 bs 8 = nav_ok NAVPACK_SCHEMA_VERSION" "read_u32 bs 12 = nav_ok (of_nat NAVPACK_HEADER_BYTES)"
    "read_u32 bs 16 = nav_ok ENDIAN_MARKER" "read_u32 bs 20 = nav_ok (of_nat NAVPACK_ROW_BYTES)"
    "read_u32 bs 24 = nav_ok (of_nat NAVPACK_COLD_BYTES)" "read_u32 bs 28 = nav_ok (of_nat NAVPACK_LAUNCH_BYTES)"
    "read_u64 bs 32 = nav_ok generation" "read_u32 bs 40 = nav_ok (of_nat games)" "read_u32 bs 44 = nav_ok (of_nat launches)"
    using piece [of 1] piece [of 2] piece [of 3] piece [of 4] piece [of 5] piece [of 6] piece [of 7] piece [of 8] piece [of 9]
    by (simp_all add: header_pieces_def magic read_field)
  have head: "slice 0 8 bs = NAV_MAGIC" "160 \<le> length bs"
    using piece [of 0] pieces by (simp_all add: header_pieces_def magic record_at_def)
  show "check_constants bs generation games = nav_ok (games, launches)"
    using counts head by (simp add: check_constants_def words unat_u32_of_nat NAVPACK_HEADER_BYTES_def NAVPACK_ROW_BYTES_def
        NAVPACK_COLD_BYTES_def NAVPACK_LAUNCH_BYTES_def)
  show "read_ref bs 48 = nav_ok system_ref"
    using piece [of 10] by (simp add: header_pieces_def magic read_field_ref)
  have limits: "a1 + length d1 \<le> length bs" "a2 + length d2 \<le> length bs" "a3 + length d3 \<le> length bs"
    "a4 + length d4 \<le> length bs" "a5 + length d5 \<le> length bs" "160 + length prelude \<le> length bs" "length bs \<le> USIZE_MAX"
    using laid by (auto simp: laid_out_def record_at_def dest: spec [of _ 0] spec [of _ 1] spec [of _ 2] spec [of _ 3] spec [of _ 4])
  have offsets: "record_at bs 56 [le64 (of_nat a1)]" "record_at bs 64 [le64 (of_nat (length d1))]"
    "record_at bs 72 [le64 (of_nat a2)]" "record_at bs 80 [le64 (of_nat (length d2))]"
    "record_at bs 88 [le64 (of_nat a3)]" "record_at bs 96 [le64 (of_nat (length d3))]"
    "record_at bs 104 [le64 (of_nat a4)]" "record_at bs 112 [le64 (of_nat (length d4))]"
    "record_at bs 120 [le64 (of_nat a5)]" "record_at bs 128 [le64 (of_nat (length d5))]"
    "record_at bs 136 [le64 (of_nat 160)]" "record_at bs 144 [le64 (of_nat (length prelude))]"
    using piece [of 11] piece [of 12] piece [of 13] piece [of 14] piece [of 15] piece [of 16]
      piece [of 17] piece [of 18] piece [of 19] piece [of 20] piece [of 21] piece [of 22]
    by (simp_all add: header_pieces_def magic NAVPACK_HEADER_BYTES_def)
  show "read_section bs 136 = nav_ok (160, length prelude)"
    using offsets limits by (intro read_section_words) simp_all
  have "read_section bs 56 = nav_ok (a1, length d1)" "read_section bs 72 = nav_ok (a2, length d2)"
    "read_section bs 88 = nav_ok (a3, length d3)" "read_section bs 104 = nav_ok (a4, length d4)"
    "read_section bs 120 = nav_ok (a5, length d5)"
    using offsets limits by (intro read_section_words; simp)+
  then show "read_sections bs = nav_ok [(a1, length d1), (a2, length d2), (a3, length d3), (a4, length d4), (a5, length d5)]"
    by (simp add: read_sections_def upt_conv_Cons)
qed

definition pack_of :: "u8 list \<Rightarrow> rtext \<Rightarrow> u64 \<Rightarrow> nat \<Rightarrow> nat \<Rightarrow> u8 list \<Rightarrow> (nat \<times> u8 list) list \<Rightarrow> mapped_navpack" where
  "pack_of bs system_id generation games launches prelude sections = \<lparr>mp_mapping = bs,
     mp_identity = \<lparr>ni_system_id = system_id, ni_generation = generation, ni_games = games, ni_launches = launches\<rparr>,
     mp_rows_offset = fst (sections ! 0), mp_cold_offset = fst (sections ! 1), mp_launch_offset = fst (sections ! 2),
     mp_index_offset = fst (sections ! 3), mp_index_bytes = length (snd (sections ! 3)),
     mp_strings_offset = fst (sections ! 4), mp_strings_bytes = length (snd (sections ! 4)),
     mp_prelude_offset = 160, mp_prelude_bytes = length prelude\<rparr>"

lemma laid_out_opens:
  assumes laid: "laid_out bs generation (of_nat games) (of_nat launches) system_ref prelude
      [(a1, d1), (a2, d2), (a3, d3), (a4, d4), (a5, d5)]" and counts: "games \<le> USIZE_MAX" "launches \<le> USIZE_MAX"
    and sizes: "length d1 = games * NAVPACK_ROW_BYTES" "length d2 = games * NAVPACK_COLD_BYTES"
      "length d3 = launches * NAVPACK_LAUNCH_BYTES"
    and prelude: "parse_entry_prelude prelude games = nav_ok parsed" and system: "read_string d5 system_ref = nav_ok system_id"
  shows "validate_header bs system_id generation games =
      nav_ok (pack_of bs system_id generation games launches prelude [(a1, d1), (a2, d2), (a3, d3), (a4, d4), (a5, d5)])"
    and "(\<And>s. ep_selected parsed = Some s \<Longrightarrow> check_selected bs d5 a1 s = nav_ok ()) \<Longrightarrow>
      (\<And>i. i < games \<Longrightarrow> check_row bs d5 a1 a2 launches i = nav_ok ()) \<Longrightarrow>
      (\<And>l. l < launches \<Longrightarrow> check_strings bs d5 (a3 + l * NAVPACK_LAUNCH_BYTES) [0, 8, 16, 24, 32, 40] = nav_ok ()) \<Longrightarrow>
      validate_indexes d4 d5 games = nav_ok () \<Longrightarrow> \<exists>ident. nav_validate bs system_id generation games = nav_ok ident"
proof -
  note fields = laid_out_fields [OF laid counts]
  have parts: "record_at bs a1 [d1]" "record_at bs a2 [d2]" "record_at bs a3 [d3]" "record_at bs a4 [d4]" "record_at bs a5 [d5]"
    "record_at bs 160 [prelude]" "160 + length prelude \<le> a1" "length bs \<le> USIZE_MAX"
    using laid by (auto simp: laid_out_def dest: spec [of _ 0] spec [of _ 1] spec [of _ 2] spec [of _ 3] spec [of _ 4])
  have ordered: "sections_ordered [(a1, length d1), (a2, length d2), (a3, length d3), (a4, length d4), (a5, length d5)]"
    using laid by (auto simp: laid_out_def dest: spec [of _ 0] spec [of _ 1] spec [of _ 2] spec [of _ 3])
  have lead: "leading_prelude bs a1 games = nav_ok ((160, length prelude), parsed)"
    using parts(6,7) prelude fields(4) by (simp add: leading_prelude_def NAVPACK_HEADER_BYTES_def index_slice_def record_at_def)
  have small: "length d1 \<le> USIZE_MAX" "length d2 \<le> USIZE_MAX" "length d3 \<le> USIZE_MAX"
    and ends: "a5 + length d5 \<le> length bs" "a5 + length d5 \<le> USIZE_MAX" "a4 + length d4 \<le> length bs"
    using parts by (simp_all add: record_at_def)
  have slices: "get_slice a5 (a5 + length d5) bs = Some d5" "index_slice a5 (a5 + length d5) bs = nav_ok d5"
    "index_slice a4 (a4 + length d4) bs = nav_ok d4"
    using parts(4,5) by (simp_all add: record_at_def index_slice_def)
  show "validate_header bs system_id generation games =
      nav_ok (pack_of bs system_id generation games launches prelude [(a1, d1), (a2, d2), (a3, d3), (a4, d4), (a5, d5)])"
    using sizes small ends ordered system
    by (simp add: validate_header_def fields lead slices checked_mul_def checked_add_def pack_of_def del: get_slice_Some)
  assume checks: "\<And>s. ep_selected parsed = Some s \<Longrightarrow> check_selected bs d5 a1 s = nav_ok ()"
    "\<And>i. i < games \<Longrightarrow> check_row bs d5 a1 a2 launches i = nav_ok ()"
    "\<And>l. l < launches \<Longrightarrow> check_strings bs d5 (a3 + l * NAVPACK_LAUNCH_BYTES) [0, 8, 16, 24, 32, 40] = nav_ok ()"
    "validate_indexes d4 d5 games = nav_ok ()"
  have each: "nav_each (check_row bs d5 a1 a2 launches) [0..<games] = nav_ok ()"
    "nav_each (\<lambda>l. check_strings bs d5 (a3 + l * NAVPACK_LAUNCH_BYTES) [0, 8, 16, 24, 32, 40]) [0..<launches] = nav_ok ()"
    using checks(2,3) by (simp_all add: nav_each_ok)
  have selected: "(case ep_selected parsed of None \<Rightarrow> nav_ok () | Some s \<Rightarrow> check_selected bs d5 a1 s) = nav_ok ()"
    using checks(1) by (simp split: option.split)
  show "\<exists>ident. nav_validate bs system_id generation games = nav_ok ident"
    using sizes small ends ordered system
    by (simp add: nav_validate_def fields lead slices usize_saturating_mul_def min_def each selected checks(4))
qed


section \<open>What a written pack answers\<close>

definition row_of :: "system_game list \<Rightarrow> nat \<Rightarrow> navpack_row" where
  "row_of games i = (let game = games ! i in
     \<lparr>nr_title = sg_title game, nr_launch_ref = sg_launch_ref game, nr_preview_archive_path = sg_preview_archive_path game,
      nr_preview_asset_key = sg_preview_asset_key game, nr_has_preview = sg_has_preview game, nr_is_new = sg_is_new game,
      nr_launch_index = (if sg_launch_plan game = None then None else Some (length (plans (take i games))))\<rparr>)"

definition metadata_of :: "system_game \<Rightarrow> navpack_metadata" where
  "metadata_of game =
     \<lparr>nm_year = (if sg_year game = Some 0xFFFF then None else sg_year game), nm_manufacturer = sg_manufacturer game,
      nm_category = sg_category game, nm_players = (if sg_players game = Some 0xFF then None else sg_players game),
      nm_control = sg_control game\<rparr>"

definition counts_of :: "navigation_indexes \<Rightarrow> filter_counts" where
  "counts_of x = \<lparr>fc_categories = group_counts id (nx_categories x), fc_decades = group_counts ucast (nx_decades x),
     fc_manufacturers = group_counts id (nx_manufacturers x), fc_players = group_counts ucast (nx_players x),
     fc_controls = group_counts id (nx_controls x)\<rparr>"

text \<open>The groups are sorted by their labels, without duplicates.\<close>

definition index_sorted :: "navigation_indexes \<Rightarrow> bool" where
  "index_sorted x \<longleftrightarrow> strictly text_less (map fst (nx_categories x)) \<and> strictly (<) (map fst (nx_decades x)) \<and>
     strictly text_less (map fst (nx_manufacturers x)) \<and> strictly (<) (map fst (nx_players x)) \<and>
     strictly text_less (map fst (nx_controls x))"

lemma nth_launch_words:
  "i < length games \<Longrightarrow> launch_words n games ! i =
     (if sg_launch_plan (games ! i) = None then NONE_U32 else n + of_nat (length (plans (take i games))))"
  by (induction games arbitrary: n i) (auto simp: nth_Cons' take_Cons' plan_list_def split: option.splits)

lemma nth_plans:
  assumes "i < length games" "sg_launch_plan (games ! i) = Some plan"
  shows "length (plans (take i games)) < length (plans games)" "plans games ! length (plans (take i games)) = plan"
proof -
  have "plans (xs @ ys) = plans xs @ plans ys" for xs ys
    by (induction xs) simp_all
  then have "plans games = plans (take i games) @ plan_list (games ! i) @ plans (drop (Suc i) games)"
    using id_take_nth_drop [OF assms(1)] by (metis plans_Cons(2))
  then show "length (plans (take i games)) < length (plans games)" "plans games ! length (plans (take i games)) = plan"
    using assms(2) by (simp_all add: plan_list_def)
qed

lemma length_plans_le: "length (plans games) \<le> length games"
  using length_filter_le [of "\<lambda>game. sg_launch_plan game \<noteq> None" games] by (simp only: length_plans)

lemma game_flag_bits: "(game_flags game AND 1 \<noteq> 0) = sg_has_preview game" "(game_flags game AND 2 \<noteq> 0) = sg_is_new game"
  by (cases "sg_has_preview game"; cases "sg_is_new game"; simp add: game_flags_def)+

lemma written_row:
  assumes "record_at (mp_mapping p) (mp_rows_offset p + i * NAVPACK_ROW_BYTES) [row_bytes st i (launch_words 0 games ! i) (games ! i)]"
    and "navpack_strings p = nav_ok strings" "readable strings st (game_texts (games ! i))"
    and "i < length games" "ni_games (mp_identity p) = length games" "144 * length games \<le> USIZE_MAX"
  shows "navpack_row_at p i = nav_ok (row_of games i)"
proof -
  note fields = row_fields [OF assms(1,3)]
  have "length (plans (take i games)) \<le> length games"
    using length_plans_le [of "take i games"] assms(4) by simp
  then have word: "unat (of_nat (length (plans (take i games))) :: u32) = length (plans (take i games))"
    "(of_nat (length (plans (take i games))) :: u32) \<noteq> NONE_U32"
  proof -
    assume le: "length (plans (take i games)) \<le> length games"
    then show word: "unat (of_nat (length (plans (take i games))) :: u32) = length (plans (take i games))"
      using assms(6) by (intro unat_u32_of_nat) linarith
    have "unat NONE_U32 = 2 ^ 32 - 1"
      by (simp add: NONE_U32_def)
    then show "(of_nat (length (plans (take i games))) :: u32) \<noteq> NONE_U32"
      using le word assms(6) by (auto simp: USIZE_MAX_def)
  qed
  then show ?thesis
    using assms(2,4,5)
    by (simp add: navpack_row_at_def Let_def text_at_def [symmetric] fields nth_launch_words game_flag_bits row_of_def)
qed

lemma written_metadata:
  assumes "record_at (mp_mapping p) (mp_cold_offset p + i * NAVPACK_COLD_BYTES) [cold_bytes st game]"
    and "navpack_strings p = nav_ok strings" "readable strings st (game_texts game)" "i < ni_games (mp_identity p)"
  shows "navpack_metadata_at p i = nav_ok (metadata_of game)"
  using assms(2,4)
  by (simp add: navpack_metadata_at_def Let_def text_at_def [symmetric] cold_fields [OF assms(1,3)] metadata_of_def
      del: add_2_eq_Suc' split: option.split)

lemma written_launch:
  assumes "record_at (mp_mapping p) (mp_launch_offset p + j * NAVPACK_LAUNCH_BYTES) [plan_bytes st plan]"
    and "navpack_strings p = nav_ok strings" "readable strings st (plan_texts plan)" "j < ni_launches (mp_identity p)"
  shows "navpack_launch_at p j = nav_ok plan"
  using assms(2,4)
  by (simp add: navpack_launch_at_def Let_def text_at_def [symmetric] plan_fields [OF assms(1,3)])

lemma widened: "unat (ucast (a :: u16) :: u32) = unat a" "unat (ucast (b :: u8) :: u32) = unat b"
proof -
  have "unat a < 2 ^ 32" "unat b < 2 ^ 32"
    using unsigned_less [of a, where 'a = nat] unsigned_less [of b, where 'a = nat] by simp_all
  then show "unat (ucast (a :: u16) :: u32) = unat a" "unat (ucast (b :: u8) :: u32) = unat b"
    by (simp_all add: unsigned_ucast_eq take_bit_nat_eq_self)
qed

lemma strictly_map: "strictly lt xs \<Longrightarrow> (\<And>a b. lt a b \<Longrightarrow> lt' (f a) (f b)) \<Longrightarrow> strictly lt' (map f xs)"
  by (induction lt xs rule: strictly.induct) auto

lemma written_counts:
  assumes "record_at (mp_mapping p) (mp_index_offset p) [index_bytes st x]" "mp_index_bytes p = length (index_bytes st x)"
    and "length (mp_mapping p) \<le> USIZE_MAX" "navpack_strings p = nav_ok strings" "readable strings st (index_texts x)"
    and "index_in (ni_games (mp_identity p)) x" "index_sorted x"
  shows "navpack_filter_counts p = nav_ok (counts_of x)"
proof -
  let ?n = "ni_games (mp_identity p)"
  have get: "get_slice (mp_index_offset p) (mp_index_offset p + mp_index_bytes p) (mp_mapping p) = Some (index_bytes st x)"
    using assms(1,2) by (simp add: record_at_def)
  have add: "checked_add (mp_index_offset p) (mp_index_bytes p) = Some (mp_index_offset p + mp_index_bytes p)"
    using assms(1,2,3) by (simp add: record_at_def)
  have in_range: "ordinals_in ?n (nx_title_ordinals x)" "ordinals_in ?n (nx_preview_ordinals x)" "ordinals_in ?n (nx_launch_ordinals x)"
    "groups_in ?n (nx_categories x)" "groups_in ?n (nx_decades x)" "groups_in ?n (nx_manufacturers x)" "groups_in ?n (nx_players x)"
    "groups_in ?n (nx_controls x)"
    using assms(6) by (simp_all add: index_in_def)
  have labels: "readable strings st (map fst (nx_categories x))" "readable strings st (map fst (nx_manufacturers x))"
    "readable strings st (map fst (nx_controls x))"
    using assms(5) by (simp_all add: index_texts_def)
  have less16: "(ucast a :: u32) < ucast b" if "a < b" for a b :: u16
    using that by (simp add: word_less_nat_alt widened)
  have less8: "(ucast a :: u32) < ucast b" if "a < b" for a b :: u8
    using that by (simp add: word_less_nat_alt widened)
  have decades: "strictly (<) (map (\<lambda>(v, _). ucast v :: u32) (nx_decades x))"
  proof -
    have "strictly (<) (map (ucast :: u16 \<Rightarrow> u32) (map fst (nx_decades x)))"
      using assms(7) less16 by (intro strictly_map [of "(<)"]) (simp_all add: index_sorted_def)
    then show ?thesis
      by (simp add: comp_def case_prod_unfold)
  qed
  have players: "strictly (<) (map (\<lambda>(v, _). ucast v :: u32) (nx_players x))"
  proof -
    have "strictly (<) (map (ucast :: u8 \<Rightarrow> u32) (map fst (nx_players x)))"
      using assms(7) less8 by (intro strictly_map [of "(<)"]) (simp_all add: index_sorted_def)
    then show ?thesis
      by (simp add: comp_def case_prod_unfold)
  qed
  have bounds: "(ucast v :: u32) \<le> 0xFFFF" "(ucast w :: u32) \<le> 0xFF" for v :: u16 and w :: u8
    using unsigned_less [of v, where 'a = nat] unsigned_less [of w, where 'a = nat]
    by (simp_all add: word_le_nat_alt widened)
  note strings = read_string_posting_bytes [OF in_range(4) labels(1)] read_string_posting_bytes [OF in_range(6) labels(2)]
    read_string_posting_bytes [OF in_range(8) labels(3), of "[]", simplified]
  have numbers: "read_numeric_counts 0xFFFF ?n (numeric_posting_bytes decade_bytes (nx_decades x) @ rest) =
      nav_ok (group_counts ucast (nx_decades x), rest)"
    "read_numeric_counts 0xFF ?n (numeric_posting_bytes player_bytes (nx_players x) @ rest) =
      nav_ok (group_counts ucast (nx_players x), rest)" for rest
    by (rule read_numeric_posting_bytes [OF in_range(5) decades]; (rule key_bytes_words(1) | auto simp: bounds list_all_iff)[1])
      (rule read_numeric_posting_bytes [OF in_range(7) players]; (rule key_bytes_words(2) | auto simp: bounds list_all_iff)[1])
  show ?thesis
    using assms(7)
    by (simp add: navpack_filter_counts_def Let_def add get assms(4) index_bytes_def take_ordinal_bytes in_range index_sorted_def
        strings numbers counts_of_def del: get_slice_Some append_Cons)
qed


section \<open>Everything that was written is read back\<close>

definition pack_texts :: "rtext \<Rightarrow> system_game list \<Rightarrow> navigation_indexes \<Rightarrow> rtext list" where
  "pack_texts system_id games x = system_id # concat (map game_texts games) @ index_texts x"

text \<open>
  The texts are Unicode, the ordinals name games, the titles list no more ordinals than there are games, and the file
  fits the address space.
\<close>

definition writable :: "rtext \<Rightarrow> system_game list \<Rightarrow> navigation_indexes \<Rightarrow> bool" where
  "writable system_id games x \<longleftrightarrow> list_all text_ok (pack_texts system_id games x) \<and> index_in (length games) x \<and>
     length (nx_title_ordinals x) \<le> length games \<and>
     283 + cost (pack_texts system_id games x) + cost (selected_texts games) + 144 * length games + index_size x \<le> USIZE_MAX"

lemma selected_is_first:
  "selected_preview games = Some game \<Longrightarrow> games \<noteq> [] \<and> games ! 0 = game \<and> sg_has_preview game"
  by (auto simp: selected_preview_def split: list.splits if_splits)

lemma selected_texts_ok:
  "list_all text_ok (concat (map game_texts games)) \<Longrightarrow> list_all text_ok (selected_texts games)"
  by (cases games) (auto simp: selected_texts_def selected_preview_def game_texts_def)

lemma table_lift:
  "grows st st' \<Longrightarrow> holds st vs \<Longrightarrow> readable strings st' vs \<Longrightarrow> readable strings st vs"
  by (induction vs) (auto simp: ref_of_def dest: grows_ref)

lemma readable_concat: "readable strings st (concat (map f xs)) \<Longrightarrow> x \<in> set xs \<Longrightarrow> readable strings st (f x)"
  by (auto simp: readable_def list_all_iff)

text \<open>The tables that the encoder builds for a writable pack.\<close>

lemma writable_tables:
  assumes "writable system_id games x"
  obtains st0 s st prelude system_ref where
    "intern system_id empty_table = nav_ok (system_ref, st0)"
    "encode_games 0 games \<lparr>pt_strings = st0, pt_rows = [], pt_cold = [], pt_launches = [], pt_next_launch = 0\<rparr> = nav_ok s"
    "encode_indexes x (pt_strings s) = nav_ok (st, index_bytes st x)" "encode_entry_prelude games x = nav_ok prelude"
    "pt_rows s = concat (row_chunks (pt_strings s) 0 (launch_words 0 games) games)"
    "pt_cold s = concat (map (cold_bytes (pt_strings s)) games)"
    "pt_launches s = concat (map (plan_bytes (pt_strings s)) (plans games))"
    "read_string (st_bytes st) system_ref = nav_ok system_id"
    "readable (st_bytes st) (pt_strings s) (concat (map game_texts games))" "readable (st_bytes st) st (index_texts x)"
    "parse_entry_prelude prelude (length games) = nav_ok (prelude_of games x)"
    "length prelude \<le> 88 + cost (selected_texts games)" "length (st_bytes st) \<le> cost (pack_texts system_id games x)"
proof -
  let ?texts = "concat (map game_texts games)"
  have parts: "text_ok system_id" "list_all text_ok ?texts" "list_all text_ok (index_texts x)"
    "cost (pack_texts system_id games x) = length (into_bytes system_id) + cost ?texts + cost (index_texts x)"
    using assms by (simp_all add: writable_def pack_texts_def)
  have room: "283 + cost (pack_texts system_id games x) + cost (selected_texts games) + 144 * length games + index_size x \<le> USIZE_MAX"
    using assms by (simp add: writable_def)
  have "length (st_bytes empty_table) + length (into_bytes system_id) \<le> USIZE_MAX"
    using room parts(4) by (simp add: empty_table_def)
  from intern_ok [OF table_ok_empty parts(1) this] obtain system_ref st0 where
    st0: "intern system_id empty_table = nav_ok (system_ref, st0)" "table_ok st0" "st_refs st0 system_id = Some system_ref"
      "length (st_bytes st0) \<le> length (into_bytes system_id)"
    by (auto simp: empty_table_def)
  let ?s0 = "\<lparr>pt_strings = st0, pt_rows = [], pt_cold = [], pt_launches = [], pt_next_launch = 0\<rparr>"
  have "length (plans games) \<le> length games"
    by (rule length_plans_le)
  moreover have "length games + 1 < 2 ^ 32"
    using room by (simp add: USIZE_MAX_def)
  ultimately have "table_ok (pt_strings ?s0)" "length (st_bytes (pt_strings ?s0)) + cost ?texts \<le> USIZE_MAX"
    "0 + length games \<le> 2 ^ 32" "unat (pt_next_launch ?s0) + length (plans games) + 1 < 2 ^ 32"
    using st0(2,4) room parts(4) by simp_all
  from encode_games_ok [OF this(1) parts(2) this(2-4)] obtain s where
    s: "encode_games 0 games ?s0 = nav_ok s" "table_ok (pt_strings s)" "grows st0 (pt_strings s)" "holds (pt_strings s) ?texts"
      "length (st_bytes (pt_strings s)) \<le> length (st_bytes st0) + cost ?texts"
      "pt_rows s = concat (row_chunks (pt_strings s) 0 (launch_words 0 games) games)"
      "pt_cold s = concat (map (cold_bytes (pt_strings s)) games)"
      "pt_launches s = concat (map (plan_bytes (pt_strings s)) (plans games))"
    by auto
  have "length (st_bytes (pt_strings s)) + cost (index_texts x) \<le> USIZE_MAX" "index_size x \<le> USIZE_MAX"
    using s(5) st0(4) room parts(4) by simp_all
  from encode_indexes_ok [OF s(2) parts(3) this] obtain st where
    st: "encode_indexes x (pt_strings s) = nav_ok (st, index_bytes st x)" "table_ok st" "grows (pt_strings s) st"
      "holds st (index_texts x)" "length (st_bytes st) \<le> length (st_bytes (pt_strings s)) + cost (index_texts x)"
    by blast
  have small: "length (st_bytes st) \<le> cost (pack_texts system_id games x)" "length (st_bytes st) \<le> USIZE_MAX"
    using st(5) s(5) st0(4) parts(4) room by simp_all
  have "ordinals_in (length games) (nx_title_ordinals x)" "length (nx_title_ordinals x) \<le> length games"
    "88 + cost (selected_texts games) \<le> USIZE_MAX"
    using assms room by (simp_all add: writable_def index_in_def)
  from encode_prelude_ok [OF selected_texts_ok [OF parts(2)] this(2,1,3)] obtain prelude where
    prelude: "encode_entry_prelude games x = nav_ok prelude" "length prelude \<le> 88 + cost (selected_texts games)"
      "parse_entry_prelude prelude (length games) = nav_ok (prelude_of games x)"
    by blast
  have "st_refs st system_id = Some system_ref"
    using st0(3) grows_trans [OF s(3) st(3)] by (rule grows_ref [rotated])
  then have system: "read_string (st_bytes st) system_ref = nav_ok system_id"
    using st(2) small(2) by (intro read_interned)
  have "readable (st_bytes st) st ?texts"
    using st(2) grows_holds [OF st(3) s(4)] small(2) by (intro table_readable) simp_all
  then have texts: "readable (st_bytes st) (pt_strings s) ?texts"
    by (rule table_lift [OF st(3) s(4)])
  have "readable (st_bytes st) st (index_texts x)"
    using st(2,4) small(2) by (rule table_readable)
  then show thesis
    using that st0(1) s(1) st(1) prelude(1) s(6-8) system texts prelude(3,2) small(1) by blast
qed


text \<open>The records of a laid out file.\<close>

lemma section_records:
  assumes "record_at bs a1 [concat (row_chunks st 0 (launch_words 0 games) games)]"
    and "record_at bs a2 [concat (map (cold_bytes st) games)]" "record_at bs a3 [concat (map (plan_bytes st) (plans games))]"
  shows "i < length games \<Longrightarrow> record_at bs (a1 + i * NAVPACK_ROW_BYTES) [row_bytes st i (launch_words 0 games ! i) (games ! i)]"
    "i < length games \<Longrightarrow> record_at bs (a2 + i * NAVPACK_COLD_BYTES) [cold_bytes st (games ! i)]"
    "j < length (plans games) \<Longrightarrow> record_at bs (a3 + j * NAVPACK_LAUNCH_BYTES) [plan_bytes st (plans games ! j)]"
proof -
  have chunks: "length c = 48" if "c \<in> set (row_chunks st 0 (launch_words 0 games) games)" for c
    using that by (auto simp: in_set_conv_nth nth_row_chunks)
  have others: "length c = 32" if "c \<in> set (map (cold_bytes st) games)" for c
    using that by auto
  have last: "length c = 64" if "c \<in> set (map (plan_bytes st) (plans games))" for c
    using that by auto
  show "record_at bs (a1 + i * NAVPACK_ROW_BYTES) [row_bytes st i (launch_words 0 games ! i) (games ! i)]" if "i < length games"
    using record_chunk [OF assms(1) chunks, of i] that by (simp add: NAVPACK_ROW_BYTES_def nth_row_chunks)
  show "record_at bs (a2 + i * NAVPACK_COLD_BYTES) [cold_bytes st (games ! i)]" if "i < length games"
    using record_chunk [OF assms(2) others, of i] that by (simp add: NAVPACK_COLD_BYTES_def)
  show "record_at bs (a3 + j * NAVPACK_LAUNCH_BYTES) [plan_bytes st (plans games ! j)]" if "j < length (plans games)"
    using record_chunk [OF assms(3) last, of j] that by (simp add: NAVPACK_LAUNCH_BYTES_def)
qed

lemma section_lengths:
  "length (concat (row_chunks st 0 (launch_words 0 games) games)) = length games * NAVPACK_ROW_BYTES"
  "length (concat (map (cold_bytes st) games)) = length games * NAVPACK_COLD_BYTES"
  "length (concat (map (plan_bytes st) ps)) = length ps * NAVPACK_LAUNCH_BYTES"
proof -
  have chunks: "length (concat (row_chunks st n ws gs)) = length gs * 48" if "length ws = length gs" for n ws gs
    using that by (induction st n ws gs rule: row_chunks.induct) simp_all
  show "length (concat (row_chunks st 0 (launch_words 0 games) games)) = length games * NAVPACK_ROW_BYTES"
    by (simp add: chunks NAVPACK_ROW_BYTES_def)
  show "length (concat (map (cold_bytes st) games)) = length games * NAVPACK_COLD_BYTES"
    by (induction games) (simp_all add: NAVPACK_COLD_BYTES_def)
  show "length (concat (map (plan_bytes st) ps)) = length ps * NAVPACK_LAUNCH_BYTES"
    by (induction ps) (simp_all add: NAVPACK_LAUNCH_BYTES_def)
qed

lemma plan_texts_of_games:
  "plan \<in> set (plans games) \<Longrightarrow> readable strings st (concat (map game_texts games)) \<Longrightarrow> readable strings st (plan_texts plan)"
proof (induction games)
  case (Cons game games)
  then show ?case
    by (auto simp: plan_list_def game_texts_def split: option.splits)
qed simp

text \<open>The checks of the validation on a written file.\<close>

lemma written_checks:
  assumes records: "record_at bs a1 [concat (row_chunks st 0 (launch_words 0 games) games)]"
      "record_at bs a2 [concat (map (cold_bytes st) games)]" "record_at bs a3 [concat (map (plan_bytes st) (plans games))]"
    and texts: "readable strings st (concat (map game_texts games))" and small: "144 * length games \<le> USIZE_MAX"
  shows "preview_of games = Some s \<Longrightarrow> check_selected bs strings a1 s = nav_ok ()"
    "i < length games \<Longrightarrow> check_row bs strings a1 a2 (length (plans games)) i = nav_ok ()"
    "j < length (plans games) \<Longrightarrow> check_strings bs strings (a3 + j * NAVPACK_LAUNCH_BYTES) [0, 8, 16, 24, 32, 40] = nav_ok ()"
proof -
  note at = section_records [OF records]
  show "check_row bs strings a1 a2 (length (plans games)) i = nav_ok ()" if "i < length games"
  proof -
    have game: "readable strings st (game_texts (games ! i))"
      using readable_concat [OF texts] that by simp
    note row = row_fields [OF at(1) [OF that] game] and cold = cold_fields [OF at(2) [OF that] game]
    have "length (plans (take i games)) \<le> i"
      using length_plans_le [of "take i games"] that by simp
    then have words: "unat (of_nat i :: u32) = i" "unat (of_nat (length (plans (take i games))) :: u32) = length (plans (take i games))"
      using small that by (auto intro!: unat_u32_of_nat)
    have "launch_words 0 games ! i = NONE_U32 \<or> unat (launch_words 0 games ! i) < length (plans games)"
      using that words(2) nth_plans(1) [OF that] by (auto simp: nth_launch_words)
    moreover have "check_strings bs strings (a1 + i * NAVPACK_ROW_BYTES) [0, 8, 16, 24] = nav_ok ()"
      "check_strings bs strings (a2 + i * NAVPACK_COLD_BYTES) [4, 12, 20] = nav_ok ()"
      using row cold by (simp_all add: check_strings_ok)
    ultimately show ?thesis
      using row words(1) by (simp add: check_row_def Let_def)
  qed
  show "check_strings bs strings (a3 + j * NAVPACK_LAUNCH_BYTES) [0, 8, 16, 24, 32, 40] = nav_ok ()" if "j < length (plans games)"
  proof -
    have "readable strings st (plan_texts (plans games ! j))"
      by (rule plan_texts_of_games [OF nth_mem [OF that] texts])
    from plan_fields [OF at(3) [OF that] this] show ?thesis
      by (simp add: check_strings_ok)
  qed
  assume "preview_of games = Some s"
  then obtain game where game: "selected_preview games = Some game" and s: "s = \<lparr>np_ordinal = 0, np_title = sg_title game,
     np_archive = sg_preview_archive_path game, np_asset_key = sg_preview_asset_key game\<rparr>"
    by (auto simp: preview_of_def)
  note first = selected_is_first [OF game]
  then have "0 < length games"
    by simp
  moreover from this have "readable strings st (game_texts (games ! 0))"
    using readable_concat [OF texts, of "games ! 0"] nth_mem by blast
  ultimately have row: "0 < length games" "readable strings st (game_texts (games ! 0))"
    by simp_all
  from row_fields [OF at(1) [OF row(1)] row(2)] first show "check_selected bs strings a1 s = nav_ok ()"
    by (simp add: check_selected_def Let_def s game_flag_bits text_at_def [symmetric])
qed

text \<open>A writable pack, written, validated, opened and read.\<close>

lemma written_pack:
  assumes "writable system_id games x"
  obtains bs p ident where "navpack_encode system_id generation games x = nav_ok bs"
    "nav_validate bs system_id generation (length games) = nav_ok ident"
    "navpack_open (Some bs) (of_nat (length bs)) system_id generation (length games) = nav_ok p"
    "\<And>i. i < length games \<Longrightarrow> navpack_row_at p i = nav_ok (row_of games i)"
    "\<And>i. i < length games \<Longrightarrow> navpack_metadata_at p i = nav_ok (metadata_of (games ! i))"
    "\<And>j. j < length (plans games) \<Longrightarrow> navpack_launch_at p j = nav_ok (plans games ! j)"
    "navpack_entry_prelude p = nav_ok (prelude_of games x)"
    "index_sorted x \<Longrightarrow> navpack_filter_counts p = nav_ok (counts_of x)"
proof -
  obtain st0 s st prelude system_ref where tables: "intern system_id empty_table = nav_ok (system_ref, st0)"
    "encode_games 0 games \<lparr>pt_strings = st0, pt_rows = [], pt_cold = [], pt_launches = [], pt_next_launch = 0\<rparr> = nav_ok s"
    "encode_indexes x (pt_strings s) = nav_ok (st, index_bytes st x)" "encode_entry_prelude games x = nav_ok prelude"
    and parts: "pt_rows s = concat (row_chunks (pt_strings s) 0 (launch_words 0 games) games)"
    "pt_cold s = concat (map (cold_bytes (pt_strings s)) games)"
    "pt_launches s = concat (map (plan_bytes (pt_strings s)) (plans games))"
    and reads: "read_string (st_bytes st) system_ref = nav_ok system_id"
    "readable (st_bytes st) (pt_strings s) (concat (map game_texts games))" "readable (st_bytes st) st (index_texts x)"
    "parse_entry_prelude prelude (length games) = nav_ok (prelude_of games x)"
    and sizes: "length prelude \<le> 88 + cost (selected_texts games)" "length (st_bytes st) \<le> cost (pack_texts system_id games x)"
    by (rule writable_tables [OF assms])
  have room: "283 + cost (pack_texts system_id games x) + cost (selected_texts games) + 144 * length games + index_size x \<le> USIZE_MAX"
    and in_range: "index_in (length games) x"
    using assms by (simp_all add: writable_def)
  have lengths: "length (pt_rows s) = length games * NAVPACK_ROW_BYTES" "length (pt_cold s) = length games * NAVPACK_COLD_BYTES"
    "length (pt_launches s) = length (plans games) * NAVPACK_LAUNCH_BYTES"
    by (simp_all add: parts section_lengths)
  have counts: "length games \<le> USIZE_MAX" "144 * length games \<le> USIZE_MAX" "length (plans games) \<le> USIZE_MAX"
    using room length_plans_le [of games] by linarith+
  have "195 + length prelude + length (pt_rows s) + length (pt_cold s) + length (pt_launches s) + length (index_bytes st x) +
      length (st_bytes st) \<le> USIZE_MAX"
    using room sizes lengths length_plans_le [of games]
    by (simp add: length_index_bytes NAVPACK_ROW_BYTES_def NAVPACK_COLD_BYTES_def NAVPACK_LAUNCH_BYTES_def)
  from encode_laid_out [OF tables this counts(1), of generation] obtain bs sections where
    encode: "navpack_encode system_id generation games x =
      nav_then (nav_validate bs system_id generation (length games)) (\<lambda>_. nav_ok bs)"
    and laid: "laid_out bs generation (of_nat (length games)) (of_nat (length (plans games))) system_ref prelude sections"
    and data: "map snd sections = [pt_rows s, pt_cold s, pt_launches s, index_bytes st x, st_bytes st]"
    by (elim exE conjE) (rule that)
  obtain a1 a2 a3 a4 a5 where sections: "sections =
      [(a1, pt_rows s), (a2, pt_cold s), (a3, pt_launches s), (a4, index_bytes st x), (a5, st_bytes st)]"
    using data by (auto simp: map_eq_Cons_conv)
  note laid = laid [unfolded sections]
  have at: "record_at bs a1 [pt_rows s]" "record_at bs a2 [pt_cold s]" "record_at bs a3 [pt_launches s]"
    "record_at bs a4 [index_bytes st x]" "record_at bs a5 [st_bytes st]" "record_at bs 160 [prelude]" "length bs \<le> USIZE_MAX"
    using laid by (auto simp: laid_out_def dest: spec [of _ 0] spec [of _ 1] spec [of _ 2] spec [of _ 3] spec [of _ 4])
  note records = at(1-3) [unfolded parts]
  note checks = written_checks [OF records reads(2) counts(2)]
  let ?p = "pack_of bs system_id generation (length games) (length (plans games)) prelude sections"
  note opens = laid_out_opens [OF laid counts(1,3) lengths reads(4,1), folded sections]
  have "\<exists>ident. nav_validate bs system_id generation (length games) = nav_ok ident"
    using checks validate_index_bytes [OF in_range reads(3)] by (intro opens(2)) (simp_all add: prelude_of_def)
  then obtain ident where valid: "nav_validate bs system_id generation (length games) = nav_ok ident"
    by blast
  then have encoded: "navpack_encode system_id generation games x = nav_ok bs"
    using encode by auto
  have opened: "navpack_open (Some bs) (of_nat (length bs)) system_id generation (length games) = nav_ok ?p"
    using opens(1) at(7) by (simp add: navpack_open_def USIZE_MAX_def unat_of_nat_small)
  have p: "mp_mapping ?p = bs" "mp_rows_offset ?p = a1" "mp_cold_offset ?p = a2" "mp_launch_offset ?p = a3" "mp_index_offset ?p = a4"
    "mp_index_bytes ?p = length (index_bytes st x)" "ni_games (mp_identity ?p) = length games"
    "ni_launches (mp_identity ?p) = length (plans games)" "navpack_strings ?p = nav_ok (st_bytes st)"
    "navpack_entry_prelude ?p = nav_ok (prelude_of games x)"
    using at(5,6) reads(4)
    by (simp_all add: pack_of_def sections navpack_strings_def index_slice_def record_at_def navpack_entry_prelude_def)
  note stored = section_records [OF records]
  have "navpack_row_at ?p i = nav_ok (row_of games i)" "navpack_metadata_at ?p i = nav_ok (metadata_of (games ! i))"
    if "i < length games" for i
  proof -
    have game: "readable (st_bytes st) (pt_strings s) (game_texts (games ! i))"
      using readable_concat [OF reads(2)] that by simp
    show "navpack_row_at ?p i = nav_ok (row_of games i)"
      using stored(1) [OF that] game that counts(2) by (intro written_row [of _ i "pt_strings s" games "st_bytes st"]) (simp_all add: p)
    show "navpack_metadata_at ?p i = nav_ok (metadata_of (games ! i))"
      using stored(2) [OF that] game that by (intro written_metadata [of _ i "pt_strings s" _ "st_bytes st"]) (simp_all add: p)
  qed
  moreover have "navpack_launch_at ?p j = nav_ok (plans games ! j)" if "j < length (plans games)" for j
    using stored(3) [OF that] that plan_texts_of_games [OF nth_mem [OF that] reads(2)]
    by (intro written_launch [of _ j "pt_strings s" _ "st_bytes st"]) (simp_all add: p)
  moreover have "navpack_filter_counts ?p = nav_ok (counts_of x)" if "index_sorted x"
    using at(4,7) reads(3) in_range that by (intro written_counts [of _ st x "st_bytes st"]) (simp_all add: p)
  ultimately show thesis
    using that encoded valid opened p(10) by blast
qed

definition sample_launch_plan :: launch_plan where
  "sample_launch_plan = \<lparr>pl_launch_ref = [49], pl_title = [80, 233], pl_system_id = [65], pl_core_path = [47, 99], pl_payload_path = [47, 112],
     pl_mount_kind = [115], pl_mount_index = 1, pl_delay_secs = 2\<rparr>"

definition sample_games :: "system_game list" where
  "sample_games =
     [\<lparr>sg_stable_key = [107], sg_title = [80, 233], sg_launch_ref = [49], sg_preview_archive_path = [47, 97], sg_preview_asset_key = [112],
       sg_has_preview = True, sg_year = Some 1982, sg_manufacturer = [78], sg_category = [77, 97], sg_players = Some 2,
       sg_control = [74], sg_is_new = False, sg_launch_plan = Some sample_launch_plan\<rparr>,
      \<lparr>sg_stable_key = [108], sg_title = [81], sg_launch_ref = [50], sg_preview_archive_path = [], sg_preview_asset_key = [],
       sg_has_preview = False, sg_year = None, sg_manufacturer = [], sg_category = [], sg_players = None,
       sg_control = [], sg_is_new = True, sg_launch_plan = None\<rparr>]"

definition sample_index :: navigation_indexes where
  "sample_index = \<lparr>nx_title_ordinals = [0, 1], nx_preview_ordinals = [0], nx_launch_ordinals = [0],
     nx_categories = [([77, 97], [0])], nx_decades = [(1980, [0])], nx_manufacturers = [([78], [0])], nx_players = [(2, [0])],
     nx_controls = [([74], [0])]\<rparr>"

lemma sample_writable: "writable [65] sample_games sample_index" "index_sorted sample_index"
  by (simp_all add: writable_def pack_texts_def sample_games_def sample_index_def sample_launch_plan_def game_texts_def plan_list_def
      plan_texts_def index_texts_def text_ok_def is_scalar_def into_bytes_def utf8_char_def index_in_def ordinals_in_def
      groups_in_def index_size_def selected_texts_def selected_preview_def USIZE_MAX_def index_sorted_def)

section \<open>Properties\<close>

text \<open>
  C4: Navigation packs round-trip. For Unicode texts, index ordinals that name games, and a pack that fits
  a 32-bit address space, encoding succeeds, its own validation included, and the file it returns opens
  under the same identity. Every row, every metadata record and every launch plan then reads back exactly
  as it was given, the launch index of a row names the plan of its game, the entry prelude lists the first
  ten titles and the first game's preview, and, when the filter groups are sorted, the filter counts are
  the sizes of the groups. (A year of 65535 and a player count of 255 mean "none" in the file.)
\<close>

theorem navpacks_read_back:
  assumes "writable system_id games x"
  shows "\<exists>bytes p. navpack_encode system_id generation games x = Some (Inr bytes) \<and>
      navpack_open (Some bytes) (of_nat (length bytes)) system_id generation (length games) = Some (Inr p) \<and>
      (\<forall>i < length games. navpack_row_at p i = Some (Inr (row_of games i)) \<and>
         navpack_metadata_at p i = Some (Inr (metadata_of (games ! i)))) \<and>
      (\<forall>j < length (plans games). navpack_launch_at p j = Some (Inr (plans games ! j))) \<and>
      navpack_entry_prelude p = Some (Inr (prelude_of games x)) \<and>
      (index_sorted x \<longrightarrow> navpack_filter_counts p = Some (Inr (counts_of x)))"
  by (rule written_pack [OF assms, of generation]) (unfold nav_ok_def, blast)

theorem navpacks_read_back_witness:
  "\<exists>bytes p. navpack_encode [65] 7 sample_games sample_index = Some (Inr bytes) \<and>
      navpack_open (Some bytes) (of_nat (length bytes)) [65] 7 2 = Some (Inr p) \<and>
      navpack_row_at p 1 = Some (Inr (row_of sample_games 1)) \<and> navpack_launch_at p 0 = Some (Inr sample_launch_plan) \<and>
      navpack_filter_counts p = Some (Inr (counts_of sample_index))"
proof -
  have sizes: "length sample_games = 2" "plans sample_games = [sample_launch_plan]"
    by (simp_all add: sample_games_def plan_list_def)
  then have "(1 :: nat) < length sample_games" "0 < length (plans sample_games)" "plans sample_games ! 0 = sample_launch_plan"
    by simp_all
  then show ?thesis
    using navpacks_read_back [OF sample_writable(1), of 7] sample_writable(2) sizes(1) by (metis)
qed

theorem validated_packs_are_readable_witness:
  "\<exists>bytes ident p. nav_validate bytes [65] 7 2 = Some (Inr ident) \<and> mp_identity p = ident \<and>
     navpack_open (Some bytes) (of_nat (length bytes)) [65] 7 2 =
       (if length bytes < 2 ^ 64 then Some (Inr p) else Some (Inl SizeMismatch)) \<and>
     (\<forall>i < 2. \<exists>row. navpack_row_at p i = Some (Inr row))"
proof -
  obtain bs ident where "nav_validate bs [65] 7 (length sample_games) = nav_ok ident"
    by (rule written_pack [OF sample_writable(1), of 7]) (rule that)
  then have "nav_validate bs [65] 7 2 = Some (Inr ident)"
    by (simp add: sample_games_def nav_ok_def numeral_2_eq_2)
  from this validated_packs_are_readable [OF this] show ?thesis
    by blast
qed

end
