(* ===== verification/Spec2Isabelle.thy ===== *)
theory Spec2Isabelle
  imports Prelude Latch_Crc Latch_Protocol Input_Event Input_Router Input_Hub Input_Pipeline Lifecycle Transition_Chart
    Navigation Navigation_Schedule Navigation_Runtime Composition Orientation_Wave Orientation Director
    Rust_Text MiSTer_Ini Ini_Reload Damage Vertical_Scale Fpga_Bus Display_Plan Hidden_Latch
    Wire_Bytes Frame_Stream Stream_Viewer Stream_Producer Stream_Pixels Layer_Backing Latch_State Latch_Layers Nav_Pack Nav_Read Nav_Table Nav_Write
begin

text \<open>
  A model of the core of the MagiK launcher for MiSTer: how input reaches the user interface, how the
  launcher starts up, recovers and hands over to a game, how full-screen transitions own the frame, how a
  frame gets on the screen, and how the catalog's pages are stored.

  \<^bold>\<open>The program.\<close> A capture thread (\<open>apps/mister/src/input_hub.rs\<close>) reads the kernel events of the
  Main process's input proxy. The logical event reducer (\<open>crates/magik-core/src/input_event.rs\<close>) turns
  raw presses and releases of several sources into one press and one release per action, and a bounded
  journal (the mailbox) keeps them until the frame loop drains it. The drained batch passes the gate of
  the input router (\<open>launcher_runtime/input_router.rs\<close>), which then routes each event to the context
  in focus, keeps the release of a press with the context of the press, blocks opposing directions and
  repeats held ones. The lifecycle (\<open>launcher_runtime/lifecycle.rs\<close>) decides when the launcher may show
  its frame and take input, follows the state of the catalog and runs the recovery and launch dialogs;
  it answers each input with effects for the outer loop. While a full-screen transition plays, the
  transition chart (\<open>launcher_runtime/full_screen_transition.rs\<close>) says who may draw and whether the
  interface is captured or locked; the navigation controller and runtime
  (\<open>launcher_runtime/navigation_transition.rs\<close> on the data of
  \<open>crates/framebuffer-scenes/src/navigation.rs\<close>, started by \<open>transition_spec.rs\<close>) keep the clock, the
  snapshots and the raster of a transition, and the orientation runtime (\<open>orientation_transition.rs\<close> on
  the tiles of \<open>crates/framebuffer-scenes/src/orientation.rs\<close>) draws the wave of tiles when the screen
  is turned. The composition controller (\<open>composition.rs\<close>) decides each frame which layers may be drawn
  over the interface and keeps account of the layers that must still be cleared; the presentation
  director (\<open>presentation_director.rs\<close>) is the only owner of chart, runtimes and controller and takes
  the calls of the launcher loop (\<open>ui_runner/launcher_loop.rs\<close>, \<open>frame_loop.rs\<close>). Below the launcher the
  latch contract (\<open>mister/platform/contracts/latch\<close>) is the wire protocol between Linux and the FPGA: word
  commands and replies protected by a CRC, and the telemetry that proves what was on the screen. The
  runtime (\<open>mister/platform/runtime/src\<close>) speaks it over the SPI bus (\<open>fpga.rs\<close>): the presenter
  (\<open>framebuffer/hidden_latch.rs\<close>) copies the damage of a frame (\<open>damage.rs\<close>), scaled to the display plan
  (\<open>crates/magik-core/src/display.rs\<close>, \<open>vertical_scale.rs\<close>), into the hidden one of two slots, posts it
  with the latch and waits until the core scans it out. What each slot shows when two layers, a preview and
  the list, are drawn over the picture directly is kept by \<open>framebuffer/latch_state.rs\<close>. Frames can also be watched over the network: a
  server (\<open>framebuffer/stream.rs\<close>) queues published rectangles, remembers the picture and sends frames of
  \<open>crates/framebuffer-stream\<close>, which the viewer (\<open>apps/desktop/src/device_client.rs\<close>) draws. The menus read the games of a system from navigation packs
  (\<open>crates/catalog/src/navpack.rs\<close>), files that are mapped into memory and read in place.
  Installation edits MiSTer.ini with \<open>crates/mister-ini\<close>, which must not lose a user's text.

  \<^bold>\<open>The theories.\<close>
  \<^item> \<open>Prelude\<close>: word types, saturating arithmetic, time, hash maps, runs of a step function, and the
    locales \<open>machine\<close> and \<open>total_machine\<close>: an operation keeps the invariant, so every run does. Each
    component with an invariant interprets one of them on its own step function.
  \<^item> \<open>Input_Event\<close>: actions, events, batches, \<open>HeldState\<close>, \<open>InputBatch::validate_from\<close> and
    \<open>LogicalEventReducer::transition\<close>. What the reducer emits always replays, in matched pairs, and
    refines the set of physically held keys.
  \<^item> \<open>Input_Router\<close>: \<open>InputRouter\<close>. Its invariant ties repeats, locks and captures together; the
    properties are repeat timing, capture of releases, opposing directions and recovery from faults.
  \<^item> \<open>Input_Hub\<close>: \<open>MailboxState\<close>, \<open>drain\<close>, \<open>drain_proxy\<close> and one turn of \<open>capture_loop\<close>; the link
    between capture thread and router loses nothing while the device stays.
  \<^item> \<open>Input_Pipeline\<close>: the reducer and the router composed.
  \<^item> \<open>Lifecycle\<close>: \<open>LauncherLifecycle\<close>, its texts and effects; the abstract chart \<open>lc_edge\<close> that
    \<open>handle\<close> refines; startup deadlines; the order of launch effects; recovery choices.
  \<^item> \<open>Transition_Chart\<close>: \<open>FullScreenTransitionStateChart\<close> and its render policy.
  \<^item> \<open>Navigation\<close>: requests, phases, the Q16 progress arithmetic and the controller; progress is
    monotone and a transition ends at its destination or, on failure, at its source.
  \<^item> \<open>Navigation_Schedule\<close>: the controller under runs of ticks: when it is covered, reveals and settles,
    and which end a late destination leads to.
  \<^item> \<open>Navigation_Runtime\<close>: routes, starts, snapshot buffers and the runtime around the controller; a
    deferred transition waits for its destination and then keeps that schedule.
  \<^item> \<open>Composition\<close>: \<open>UiCompositionController\<close>: a layer that is owned and no longer wanted is owed a
    retirement, and only a presented frame settles it.
  \<^item> \<open>Orientation_Wave\<close>, \<open>Orientation\<close>: the wave's levels, its damage and both tile renderers, then
    the runtime: redrawing only damaged tiles equals a full redraw, and the wave ends on the destination.
  \<^item> \<open>Director\<close>: \<open>PresentationDirector\<close> with the calls of the launcher loop; chart, runtimes and
    pending intents stay in step for every order of the calls.
  \<^item> \<open>Latch_Crc\<close>, \<open>Latch_Protocol\<close>: the CRC as a linear map and its burst detection; every codec of the
    contract, and the validation of telemetry windows.
  \<^item> \<open>Rust_Text\<close>, \<open>MiSTer_Ini\<close>, \<open>Ini_Reload\<close>: UTF-8 and the text functions of the standard library; the
    INI document with its edits; what edits do to a document, and reading back what was written.

  \<^item> \<open>Damage\<close>, \<open>Vertical_Scale\<close>: the list of at most 32 rectangles, its subtraction, and the ledger of
    what each slot owes, which refines the set of stale pixels; copying a rectangle writes the sampled
    pixels and nothing else.
  \<^item> \<open>Fpga_Bus\<close>: registers, handshake, lock, commands and the latch transactions. The input register and
    the lock are streams, all writes are recorded; what the FPGA received is computed from them. The bus
    is free after every call, an accepted post went out whole, and a prompt FPGA is answered.
  \<^item> \<open>Display_Plan\<close>: the settings of the output, display plans, the placement of the framebuffer and the
    validation of the slots; which plans the slots accept.
  \<^item> \<open>Hidden_Latch\<close>: mapping of slots, posting, waiting, the presenter and its damage cache; a receipt
    means the frame is on the screen, every failure shuts the presenter, and the waits end.
  \<^item> \<open>Layer_Backing\<close>, \<open>Latch_State\<close>, \<open>Latch_Layers\<close>: the pixels of layers and their shift in place
    (\<open>framebuffer/target.rs\<close>); \<open>TwoBufferLatchState\<close> with its publications and plans; carrying out a plan
    leaves the slot showing the frame, after any posts, failures and recoveries.
  \<^item> \<open>Wire_Bytes\<close>, \<open>Frame_Stream\<close>: little-endian integers and buffers; frames on a byte stream.
    \<open>Stream_Viewer\<close>, \<open>Stream_Producer\<close>, \<open>Stream_Pixels\<close>: the viewer, the server with its queue and worker
    as steps of one state, and both together: the viewer shows what the worker remembers; what the queue
    drops is lost, and a race can leave a connected viewer without frames.
  \<^item> \<open>Nav_Pack\<close>, \<open>Nav_Read\<close>: navigation packs, encoder and reader, with panics as a value; no file makes
    the reader panic, and a validated file answers every query. \<open>Nav_Table\<close>, \<open>Nav_Write\<close>: the encoder
    succeeds and what it wrote reads back.

  \<^bold>\<open>Conventions.\<close> Rust integers are words of their width where they can wrap or saturate (the
  saturating operations are \<open>sat_add\<close>, \<open>sat_sub\<close>, \<open>sat_mul64\<close>); sizes and durations of the standard
  library are natural numbers (a duration is its nanoseconds). \<open>Result\<close> is a sum with the error on the
  left. A method with \<open>&mut self\<close> returns the updated record, after its result. An effect sink is the
  list of effects so far. Clock reads, device reads and poll results are arguments. No
  definition needs fuel: the loops go over a list or a fixed range, and the two waits of the presenter,
  whose end depends on the clock, are partial functions with a theorem that they return.

  \<^bold>\<open>Not modelled\<close>: the pixel renderers of navigation and their artwork, the NEON and C routines that
  draw the same tiles as the scalar ones, the floating-point spring curve (its table is a parameter),
  device discovery and thread scheduling, the Slint interface and most of the launcher loop that connects
  the parts, memory-mapped registers and the kernel module (streams and tables here), the LZ4 library (an argument,
  with its round trip as a hypothesis), the scanner, database and search of the catalog, and media.
\<close>

end
